(* ===== verification/Prelude.thy ===== *)
theory Prelude
  imports Main "HOL-Library.Sublist"
begin

text \<open>
  Shared vocabulary of the development: the types every component uses (bytes, process
  output, fallible results), the theorem collections the component theories fill, and the
  generic lemmas on lists and options they share.

  A Rust \<open>Vec<u8>\<close>, \<open>&[u8]\<close>, \<open>String\<close> or \<open>&str\<close> is a list of
  bytes (\<open>char\<close> is the 8-bit type of HOL).  A \<open>Result<T, E>\<close> is the sum
  \<open>'e + 't\<close> with the error on the left.
\<close>

section \<open>Types\<close>

type_synonym bytes = "char list"

text \<open>What a command writes: lines for standard output, lines for standard error.\<close>

datatype out_line = StdOut bytes | StdErr bytes

fun stdout_of :: "out_line list \<Rightarrow> bytes list" where
  "stdout_of [] = []"
| "stdout_of (StdOut l # ls) = l # stdout_of ls"
| "stdout_of (StdErr _ # ls) = stdout_of ls"

text \<open>The result of a fallible function that may also panic, and the end of a command: its exit status
  and what it wrote, or a panic.\<close>

datatype 'a result = Ok 'a | Err bytes | Panicked

fun and_then :: "'a result \<Rightarrow> ('a \<Rightarrow> 'b result) \<Rightarrow> 'b result" where
  "and_then (Ok x) f = f x"
| "and_then (Err e) f = Err e"
| "and_then Panicked f = Panicked"

datatype run = Exit (exit_status: int) (written: "out_line list") | Crash

section \<open>Theorem collections\<close>

named_theorems find_facts \<open>searching for byte patterns in buffers\<close>
named_theorems text_facts \<open>trimming, splitting and joining strings\<close>
named_theorems num_facts \<open>reading and printing numbers\<close>

section \<open>Lists\<close>

lemma stdout_of_append [simp]: "stdout_of (xs @ ys) = stdout_of xs @ stdout_of ys"
  by (induction xs rule: stdout_of.induct) auto

text \<open>The first position where a pattern occurs: \<open>windows(n).position(|w| w == pat)\<close>.\<close>

fun find_sub :: "'a list \<Rightarrow> 'a list \<Rightarrow> nat option" where
  "find_sub pat [] = (if pat = [] then Some 0 else None)"
| "find_sub pat (x # xs) =
     (if prefix pat (x # xs) then Some 0 else map_option Suc (find_sub pat xs))"

lemma find_sub_Some_split [find_facts]:
  "find_sub pat xs = Some i \<Longrightarrow> xs = take i xs @ pat @ drop (i + length pat) xs"
proof (induction xs arbitrary: i)
  case Nil
  then show ?case by (simp split: if_splits)
next
  case (Cons x xs)
  show ?case
  proof (cases "prefix pat (x # xs)")
    case True
    then have "i = 0" using Cons.prems by simp
    with True show ?thesis by (auto simp: prefix_def)
  next
    case False
    then obtain j where j: "find_sub pat xs = Some j" "i = Suc j"
      using Cons.prems by auto
    from Cons.IH [OF j(1)] j(2) show ?thesis by simp
  qed
qed

lemma find_sub_Some_length [find_facts]:
  "find_sub pat xs = Some i \<Longrightarrow> i + length pat \<le> length xs"
  by (induction xs arbitrary: i) (auto split: if_splits dest: prefix_length_le)

lemma find_sub_None_iff [find_facts]: "find_sub pat xs = None \<longleftrightarrow> \<not> sublist pat xs"
  by (induction xs) (auto simp: sublist_Cons_right)

lemma find_sub_append_Some:
  "find_sub pat xs = Some i \<Longrightarrow> find_sub pat (xs @ ys) = Some i"
proof (induction xs arbitrary: i)
  case Nil
  then show ?case by (cases ys) (auto split: if_splits)
next
  case (Cons x xs)
  show ?case
  proof (cases "prefix pat (x # xs)")
    case True
    then have "prefix pat ((x # xs) @ ys)" by (rule prefix_prefix)
    with True Cons.prems show ?thesis by simp
  next
    case False
    then obtain j where j: "find_sub pat xs = Some j" "i = Suc j"
      using Cons.prems by auto
    have "length pat \<le> length (x # xs)"
      using find_sub_Some_length [OF j(1)] by simp
    then have "\<not> prefix pat ((x # xs) @ ys)"
      using False by (metis prefix_length_prefix prefixI)
    with Cons.IH [OF j(1)] j(2) show ?thesis by simp
  qed
qed

lemma find_sub_within:
  "find_sub pat (xs @ ys) = Some n \<Longrightarrow> n + length pat \<le> length xs \<Longrightarrow> find_sub pat xs = Some n"
proof (induction xs arbitrary: n)
  case Nil
  then show ?case by simp
next
  case (Cons x xs)
  show ?case
  proof (cases "prefix pat (x # xs @ ys)")
    case True
    with Cons.prems have "n = 0" by simp
    with True Cons.prems(2) have "prefix pat (x # xs)"
      by (metis append_Cons length_append add_0 prefixI prefix_length_prefix)
    with \<open>n = 0\<close> show ?thesis by simp
  next
    case False
    with Cons.prems obtain m where "find_sub pat (xs @ ys) = Some m" "n = Suc m" by auto
    moreover have "\<not> prefix pat (x # xs)" using False by (metis append_Cons prefix_prefix)
    ultimately show ?thesis using Cons by simp
  qed
qed

text \<open>A pattern that does not occur earlier, not even overlapping itself, is found where it is.\<close>

lemma find_sub_here:
  "\<not> sublist pat (a @ butlast pat) \<Longrightarrow> pat \<noteq> [] \<Longrightarrow> find_sub pat (a @ pat @ b) = Some (length a)"
proof (induction a)
  case Nil
  then have "prefix pat (pat @ b)" by simp
  with Nil show ?case by (cases "pat @ b") auto
next
  case (Cons x a)
  have "\<not> prefix pat ((x # a @ butlast pat) @ last pat # b)"
  proof
    assume p: "prefix pat ((x # a @ butlast pat) @ last pat # b)"
    have "length pat \<le> length (x # a @ butlast pat)" by simp
    with p have "prefix pat (x # a @ butlast pat)"
      by (metis prefix_length_prefix prefixI)
    with Cons.prems(1) show False using prefix_imp_sublist by fastforce
  qed
  moreover have "(x # a @ butlast pat) @ last pat # b = x # a @ pat @ b"
    using Cons.prems(2) by (metis Cons_eq_appendI append.assoc append_Cons append_Nil append_butlast_last_id)
  ultimately have "\<not> prefix pat (x # a @ pat @ b)" by metis
  with Cons show ?case by (auto simp: sublist_Cons_right)
qed

section \<open>Joining lists\<close>

fun join :: "'a list \<Rightarrow> 'a list list \<Rightarrow> 'a list" where
  "join sep [] = []"
| "join sep [x] = x"
| "join sep (x # xs) = x @ sep @ join sep xs"

lemma join_Cons: "join sep (x # xs) = (if xs = [] then x else x @ sep @ join sep xs)"
  by (cases xs) auto

lemma foldl_append_map: "foldl (\<lambda>acc x. acc @ [f x]) acc xs = acc @ map f xs"
  by (induction xs arbitrary: acc) auto

end
