(* ===== verification/RustStr.thy ===== *)
theory RustStr
  imports Prelude "HOL-Library.Word"
begin

text \<open>
  The part of the Rust standard library on strings and integers that the program uses:
  characters and white space of UTF-8 text, lossy and strict decoding, trimming, splitting,
  lines, and the decimal and radix readers and printers of the integer types.
  A string is its UTF-8 bytes, as in Rust.
\<close>

section \<open>Bytes and characters\<close>

definition byte :: "char \<Rightarrow> nat" where
  "byte c = of_char c"

abbreviation NL :: char where "NL \<equiv> CHR 0x0A"
abbreviation CR :: char where "CR \<equiv> CHR 0x0D"
abbreviation TAB :: char where "TAB \<equiv> CHR 0x09"

text \<open>A continuation byte of UTF-8: \<open>10xxxxxx\<close>.\<close>

definition is_cont :: "char \<Rightarrow> bool" where
  "is_cont c \<longleftrightarrow> 128 \<le> byte c \<and> byte c < 192"

text \<open>\<open>chars()\<close>: the byte groups of the characters of a string.\<close>

function utf8_chars :: "bytes \<Rightarrow> bytes list" where
  "utf8_chars [] = []"
| "utf8_chars (b # bs) = (b # takeWhile is_cont bs) # utf8_chars (dropWhile is_cont bs)"
  by pat_completeness auto
termination
  by (relation "measure length") (auto simp: le_imp_less_Suc length_dropWhile_le)

lemma concat_utf8_chars [simp]: "concat (utf8_chars s) = s"
  by (induction s rule: utf8_chars.induct) auto

text \<open>
  Every character's first byte is not a continuation byte where the string is one
  (\<open>is_char_boundary(0)\<close>); slicing at a position is allowed at a boundary only and panics
  elsewhere.
\<close>

definition is_char_boundary :: "bytes \<Rightarrow> nat \<Rightarrow> bool" where
  "is_char_boundary s n \<longleftrightarrow> n = 0 \<or> n = length s \<or> (n < length s \<and> \<not> is_cont (s ! n))"

text \<open>\<open>&s[..n]\<close>; \<open>None\<close> is the panic.\<close>

definition slice_to :: "bytes \<Rightarrow> nat \<Rightarrow> bytes option" where
  "slice_to s n = (if is_char_boundary s n then Some (take n s) else None)"

section \<open>Decoding UTF-8\<close>

text \<open>
  One step of decoding a non-empty byte list: whether a well-formed character starts it, and
  how many bytes the character, or else the malformed sequence, takes.
\<close>

definition between :: "nat \<Rightarrow> nat \<Rightarrow> nat \<Rightarrow> bool" where
  "between lo hi n \<longleftrightarrow> lo \<le> n \<and> n \<le> hi"

definition second_ok :: "nat \<Rightarrow> nat \<Rightarrow> bool" where
  "second_ok b0 b1 =
     (if b0 = 224 then between 160 191 b1
      else if b0 = 237 then between 128 159 b1
      else if b0 = 240 then between 144 191 b1
      else if b0 = 244 then between 128 143 b1
      else between 128 191 b1)"

definition cont_at :: "bytes \<Rightarrow> nat \<Rightarrow> bool" where
  "cont_at bs i \<longleftrightarrow> i < length bs \<and> is_cont (bs ! i)"

fun utf8_step :: "bytes \<Rightarrow> bool \<times> nat" where
  "utf8_step [] = (True, 0)"
| "utf8_step (c # bs) =
     (let b0 = byte c; ok1 = (bs \<noteq> [] \<and> second_ok b0 (byte (hd bs))) in
      if b0 < 128 then (True, 1)
      else if between 194 223 b0 then (if ok1 then (True, 2) else (False, 1))
      else if between 224 239 b0 then
        (if \<not> ok1 then (False, 1) else if \<not> cont_at bs 1 then (False, 2) else (True, 3))
      else if between 240 244 b0 then
        (if \<not> ok1 then (False, 1) else if \<not> cont_at bs 1 then (False, 2)
         else if \<not> cont_at bs 2 then (False, 3) else (True, 4))
      else (False, 1))"

lemma utf8_step_pos: "bs \<noteq> [] \<Longrightarrow> 0 < snd (utf8_step bs)"
  by (cases bs) (auto simp: Let_def)

declare utf8_step.simps [simp del]

definition replacement_char :: bytes where
  "replacement_char = [CHR 0xEF, CHR 0xBF, CHR 0xBD]"

text \<open>\<open>String::from_utf8_lossy\<close>: each malformed sequence becomes one replacement character.\<close>

function from_utf8_lossy :: "bytes \<Rightarrow> bytes" where
  "from_utf8_lossy bs =
     (if bs = [] then []
      else (if fst (utf8_step bs) then take (snd (utf8_step bs)) bs else replacement_char)
           @ from_utf8_lossy (drop (snd (utf8_step bs)) bs))"
  by pat_completeness auto
termination
  by (relation "measure length") (simp_all add: utf8_step_pos)

declare from_utf8_lossy.simps [simp del]

text \<open>\<open>str::from_utf8\<close> and \<open>String::from_utf8\<close>: the text when every sequence is well formed.\<close>

function utf8_valid :: "bytes \<Rightarrow> bool" where
  "utf8_valid bs =
     (if bs = [] then True
      else fst (utf8_step bs) \<and> utf8_valid (drop (snd (utf8_step bs)) bs))"
  by pat_completeness auto
termination
  by (relation "measure length") (simp_all add: utf8_step_pos)

declare utf8_valid.simps [simp del]

lemma from_utf8_lossy_Nil [simp]: "from_utf8_lossy [] = []"
  by (simp add: from_utf8_lossy.simps)

lemma from_utf8_lossy_valid: "utf8_valid bs \<Longrightarrow> from_utf8_lossy bs = bs"
proof (induction bs rule: utf8_valid.induct)
  case (1 bs)
  show ?case
  proof (cases "bs = []")
    case False
    with "1.prems" have "fst (utf8_step bs)" "utf8_valid (drop (snd (utf8_step bs)) bs)"
      by (simp_all add: utf8_valid.simps [of bs])
    with "1.IH" [OF False] False show ?thesis by (simp add: from_utf8_lossy.simps [of bs])
  qed simp
qed

definition is_ascii :: "bytes \<Rightarrow> bool" where
  "is_ascii s \<longleftrightarrow> (\<forall>c\<in>set s. byte c < 128)"

lemma is_ascii_simps [simp]:
  "is_ascii []" "is_ascii (c # s) \<longleftrightarrow> byte c < 128 \<and> is_ascii s"
  "is_ascii (s @ t) \<longleftrightarrow> is_ascii s \<and> is_ascii t"
  by (auto simp: is_ascii_def)

lemma utf8_valid_ascii: "is_ascii s \<Longrightarrow> utf8_valid s"
proof (induction s)
  case Nil
  then show ?case by (simp add: utf8_valid.simps)
next
  case (Cons c s)
  then show ?case by (simp add: utf8_valid.simps [of "c # s"] utf8_step.simps)
qed

section \<open>White space and trimming\<close>

text \<open>The characters with the Unicode property White\_Space, as UTF-8.\<close>

definition ws_chars :: "bytes list" where
  "ws_chars =
     [[CHR 0x09], [CHR 0x0A], [CHR 0x0B], [CHR 0x0C], [CHR 0x0D], [CHR 0x20],
      [CHR 0xC2, CHR 0x85], [CHR 0xC2, CHR 0xA0], [CHR 0xE1, CHR 0x9A, CHR 0x80],
      [CHR 0xE2, CHR 0x80, CHR 0x80], [CHR 0xE2, CHR 0x80, CHR 0x81],
      [CHR 0xE2, CHR 0x80, CHR 0x82], [CHR 0xE2, CHR 0x80, CHR 0x83],
      [CHR 0xE2, CHR 0x80, CHR 0x84], [CHR 0xE2, CHR 0x80, CHR 0x85],
      [CHR 0xE2, CHR 0x80, CHR 0x86], [CHR 0xE2, CHR 0x80, CHR 0x87],
      [CHR 0xE2, CHR 0x80, CHR 0x88], [CHR 0xE2, CHR 0x80, CHR 0x89],
      [CHR 0xE2, CHR 0x80, CHR 0x8A], [CHR 0xE2, CHR 0x80, CHR 0xA8],
      [CHR 0xE2, CHR 0x80, CHR 0xA9], [CHR 0xE2, CHR 0x80, CHR 0xAF],
      [CHR 0xE2, CHR 0x81, CHR 0x9F], [CHR 0xE3, CHR 0x80, CHR 0x80]]"

definition is_ws :: "bytes \<Rightarrow> bool" where
  "is_ws ch \<longleftrightarrow> ch \<in> set ws_chars"

definition drop_end :: "('a \<Rightarrow> bool) \<Rightarrow> 'a list \<Rightarrow> 'a list" where
  "drop_end p xs = rev (dropWhile p (rev xs))"

definition trim_start :: "bytes \<Rightarrow> bytes" where
  "trim_start s = concat (dropWhile is_ws (utf8_chars s))"

definition trim_end :: "bytes \<Rightarrow> bytes" where
  "trim_end s = concat (drop_end is_ws (utf8_chars s))"

definition trim :: "bytes \<Rightarrow> bytes" where
  "trim s = concat (drop_end is_ws (dropWhile is_ws (utf8_chars s)))"

text \<open>\<open>trim_end_matches(c)\<close> and \<open>trim_start_matches(c)\<close> for an ASCII character.\<close>

definition trim_end_matches :: "char \<Rightarrow> bytes \<Rightarrow> bytes" where
  "trim_end_matches c s = drop_end (\<lambda>x. x = c) s"

definition trim_start_matches :: "char \<Rightarrow> bytes \<Rightarrow> bytes" where
  "trim_start_matches c s = dropWhile (\<lambda>x. x = c) s"

lemma drop_end_simps [simp]:
  "drop_end p [] = []"
  "drop_end p (xs @ [x]) = (if p x then drop_end p xs else xs @ [x])"
  by (simp_all add: drop_end_def)

lemma drop_end_prefix: "prefix (drop_end p xs) xs"
  by (induction xs rule: rev_induct) (auto intro: prefix_prefix)

lemma trim_end_matches_no_trailing [text_facts]: "\<not> suffix [c] (trim_end_matches c s)"
proof (induction s rule: rev_induct)
  case Nil
  then show ?case by (simp add: trim_end_matches_def)
next
  case (snoc x s)
  then show ?case by (auto simp: trim_end_matches_def suffix_def)
qed

lemma trim_end_matches_idem [simp]:
  "trim_end_matches c (trim_end_matches c s) = trim_end_matches c s"
proof (induction s rule: rev_induct)
  case (snoc x s)
  then show ?case by (simp add: trim_end_matches_def)
qed (simp add: trim_end_matches_def)

text \<open>On ASCII text a character is a byte.\<close>

lemma ascii_not_cont: "byte c < 128 \<Longrightarrow> \<not> is_cont c"
  by (simp add: is_cont_def)

lemma utf8_chars_ascii [text_facts]: "is_ascii s \<Longrightarrow> utf8_chars s = map (\<lambda>c. [c]) s"
proof (induction s)
  case (Cons c s)
  then have "takeWhile is_cont s = []" "dropWhile is_cont s = s"
    by (cases s; simp add: ascii_not_cont)+
  with Cons show ?case by simp
qed simp

lemma concat_singletons [simp]: "concat (map (\<lambda>c. [c]) s) = s"
  by (induction s) auto

lemma is_ascii_dropWhile [simp]: "is_ascii s \<Longrightarrow> is_ascii (dropWhile q s)"
  by (auto simp: is_ascii_def dest: set_dropWhileD)

lemma trim_start_ascii [text_facts]: "is_ascii s \<Longrightarrow> trim_start s = dropWhile (\<lambda>c. is_ws [c]) s"
  by (simp add: trim_start_def utf8_chars_ascii dropWhile_map comp_def)

lemma drop_end_map: "drop_end q (map f s) = map f (drop_end (q \<circ> f) s)"
  by (simp add: drop_end_def rev_map dropWhile_map)

lemma trim_ascii [text_facts]:
  "is_ascii s \<Longrightarrow> trim s = drop_end (\<lambda>c. is_ws [c]) (dropWhile (\<lambda>c. is_ws [c]) s)"
  by (simp add: trim_def utf8_chars_ascii dropWhile_map drop_end_map comp_def)

lemma trim_ascii_id [text_facts]:
  assumes "is_ascii s" and "s = [] \<or> \<not> is_ws [hd s] \<and> \<not> is_ws [last s]"
  shows "trim s = s"
proof (cases s rule: rev_cases)
  case (snoc t c)
  then have "dropWhile (\<lambda>c. is_ws [c]) s = s" using assms(2) by (cases t) auto
  with assms snoc show ?thesis by (simp add: trim_ascii)
qed (simp add: trim_def)

lemma trim_start_ascii_id [text_facts]:
  "is_ascii s \<Longrightarrow> s = [] \<or> \<not> is_ws [hd s] \<Longrightarrow> trim_start s = s"
  by (cases s) (auto simp: trim_start_ascii)

section \<open>Splitting\<close>

text \<open>\<open>s.split(c)\<close>: one more piece than separators, possibly empty.\<close>

fun split_on :: "char \<Rightarrow> bytes \<Rightarrow> bytes list" where
  "split_on c [] = [[]]"
| "split_on c (x # xs) =
     (if x = c then [] # split_on c xs
      else (case split_on c xs of [] \<Rightarrow> [[x]] | w # ws \<Rightarrow> (x # w) # ws))"

lemma split_on_not_Nil [simp]: "split_on c s \<noteq> []"
  by (cases s) (auto split: list.split)

lemma join_split_on [text_facts]: "join [c] (split_on c s) = s"
proof (induction s)
  case (Cons x s)
  then show ?case by (auto simp: join_Cons split: list.split if_splits)
qed simp

lemma split_on_no_sep [text_facts]: "w \<in> set (split_on c s) \<Longrightarrow> c \<notin> set w"
proof (induction s arbitrary: w)
  case (Cons x s)
  then show ?case
    by (cases "split_on c s") (auto split: if_splits)
qed simp

text \<open>\<open>s.find(c)\<close> with the two parts around the character: \<open>split_once\<close>.\<close>

fun split_once :: "'a \<Rightarrow> 'a list \<Rightarrow> ('a list \<times> 'a list) option" where
  "split_once c [] = None"
| "split_once c (x # xs) =
     (if x = c then Some ([], xs) else map_option (\<lambda>(a, b). (x # a, b)) (split_once c xs))"

lemma split_once_Some [text_facts]:
  "split_once c s = Some (a, b) \<longleftrightarrow> s = a @ c # b \<and> c \<notin> set a"
proof (induction s arbitrary: a)
  case (Cons x s)
  show ?case
  proof (cases "x = c")
    case True
    then show ?thesis by (cases a) auto
  next
    case False
    with Cons.IH show ?thesis by (cases a) auto
  qed
qed simp

lemma split_once_None [text_facts]: "split_once c s = None \<longleftrightarrow> c \<notin> set s"
  by (induction s) auto

text \<open>The last occurrence: \<open>rfind(c)\<close>.\<close>

definition rsplit_once :: "char \<Rightarrow> bytes \<Rightarrow> (bytes \<times> bytes) option" where
  "rsplit_once c s = map_option (\<lambda>(a, b). (rev b, rev a)) (split_once c (rev s))"

lemma rsplit_once_Some [text_facts]:
  "rsplit_once c s = Some (a, b) \<longleftrightarrow> s = a @ c # b \<and> c \<notin> set b"
proof -
  have "rsplit_once c s = Some (a, b) \<longleftrightarrow> split_once c (rev s) = Some (rev b, rev a)"
    by (auto simp: rsplit_once_def)
  also have "\<dots> \<longleftrightarrow> rev s = rev (a @ c # b) \<and> c \<notin> set b"
    by (simp add: split_once_Some)
  finally show ?thesis by (simp only: rev_is_rev_conv)
qed

lemma rsplit_once_None [text_facts]: "rsplit_once c s = None \<longleftrightarrow> c \<notin> set s"
  by (simp add: rsplit_once_def split_once_None)

text \<open>\<open>s.splitn(n, c)\<close>.\<close>

fun splitn :: "nat \<Rightarrow> char \<Rightarrow> bytes \<Rightarrow> bytes list" where
  "splitn 0 c s = []"
| "splitn (Suc 0) c s = [s]"
| "splitn (Suc (Suc n)) c s =
     (case split_once c s of None \<Rightarrow> [s] | Some (a, b) \<Rightarrow> a # splitn (Suc n) c b)"

text \<open>\<open>s.split(pat)\<close> for a non-empty pattern.\<close>

function split_str :: "bytes \<Rightarrow> bytes \<Rightarrow> bytes list" where
  "split_str pat s =
     (case find_sub pat s of
        None \<Rightarrow> [s]
      | Some i \<Rightarrow> if pat = [] then [s] else take i s # split_str pat (drop (i + length pat) s))"
  by pat_completeness auto
termination
proof (relation "measure (\<lambda>(pat, s). length s)")
  fix pat s i
  assume f: "find_sub pat s = Some i" and ne: "pat \<noteq> []"
  then have "0 < length pat" by simp
  with find_sub_Some_length [OF f] have "length (drop (i + length pat) s) < length s"
    by (simp only: length_drop)
  then show "((pat, drop (i + length pat) s), (pat, s)) \<in> measure (\<lambda>(pat, s). length s)" by simp
qed simp

declare split_str.simps [simp del]

text \<open>\<open>lines()\<close>: the text cut after each newline; a final piece without one is a line too;
  the newline is removed, and a carriage return before it.\<close>

fun split_inclusive_nl :: "bytes \<Rightarrow> bytes list" where
  "split_inclusive_nl [] = []"
| "split_inclusive_nl (x # xs) =
     (if x = NL then [x] # split_inclusive_nl xs
      else (case split_inclusive_nl xs of [] \<Rightarrow> [[x]] | w # ws \<Rightarrow> (x # w) # ws))"

definition strip_eol :: "bytes \<Rightarrow> bytes" where
  "strip_eol l =
     (if suffix [NL] l
      then (let m = butlast l in if suffix [CR] m then butlast m else m)
      else l)"

definition str_lines :: "bytes \<Rightarrow> bytes list" where
  "str_lines s = map strip_eol (split_inclusive_nl s)"

text \<open>The lines of a reader of bytes; a line that is not UTF-8 is an error.\<close>

definition reader_lines :: "bytes \<Rightarrow> bytes option list" where
  "reader_lines content = map (\<lambda>l. if utf8_valid l then Some (strip_eol l) else None) (split_inclusive_nl content)"

lemma concat_split_inclusive_nl [simp]: "concat (split_inclusive_nl s) = s"
  by (induction s) (auto split: list.split)

lemma split_inclusive_nl_single: "NL \<notin> set s \<Longrightarrow> s \<noteq> [] \<Longrightarrow> split_inclusive_nl s = [s]"
proof (induction s)
  case (Cons x s)
  then show ?case by (cases "s = []") auto
qed simp

lemma str_lines_single [text_facts]: "NL \<notin> set s \<Longrightarrow> s \<noteq> [] \<Longrightarrow> str_lines s = [s]"
  by (auto simp: str_lines_def split_inclusive_nl_single strip_eol_def suffix_def)

text \<open>\<open>split_whitespace()\<close>: the maximal runs of characters that are not white space.\<close>

fun ws_fields :: "bytes \<Rightarrow> bytes list \<Rightarrow> bytes list" where
  "ws_fields acc [] = (if acc = [] then [] else [acc])"
| "ws_fields acc (ch # chs) =
     (if is_ws ch then (if acc = [] then ws_fields [] chs else acc # ws_fields [] chs)
      else ws_fields (acc @ ch) chs)"

definition split_whitespace :: "bytes \<Rightarrow> bytes list" where
  "split_whitespace s = ws_fields [] (utf8_chars s)"

text \<open>\<open>strip_prefix\<close>.\<close>

fun strip_prefix :: "'a list \<Rightarrow> 'a list \<Rightarrow> 'a list option" where
  "strip_prefix [] ys = Some ys"
| "strip_prefix (x # xs) [] = None"
| "strip_prefix (x # xs) (y # ys) = (if x = y then strip_prefix xs ys else None)"

lemma strip_prefix_Some [text_facts]: "strip_prefix p s = Some r \<longleftrightarrow> s = p @ r"
  by (induction p s rule: strip_prefix.induct) auto

lemma strip_prefix_None [text_facts]: "strip_prefix p s = None \<longleftrightarrow> \<not> prefix p s"
  by (induction p s rule: strip_prefix.induct) auto

lemma strip_prefix_append [simp]: "strip_prefix p (p @ r) = Some r"
  by (simp add: strip_prefix_Some)

text \<open>The order of strings: bytes, lexicographically.\<close>

fun bytes_less :: "bytes \<Rightarrow> bytes \<Rightarrow> bool" where
  "bytes_less xs [] = False"
| "bytes_less [] (y # ys) = True"
| "bytes_less (x # xs) (y # ys) = (byte x < byte y \<or> (x = y \<and> bytes_less xs ys))"

section \<open>Paths\<close>

text \<open>\<open>Path::components\<close>: the root, the current directory at the front, then the names.\<close>

definition components :: "bytes \<Rightarrow> bytes list" where
  "components p =
     (let parts = split_on CHR ''/'' p in
      (if prefix ''/'' p then [''/''] else if hd parts = ''.'' then [''.''] else [])
      @ filter (\<lambda>c. c \<noteq> [] \<and> c \<noteq> ''.'') parts)"

text \<open>\<open>Path::file_name\<close>: the last component, unless it is the parent directory; and \<open>Path::join\<close>.\<close>

definition file_name :: "bytes \<Rightarrow> bytes option" where
  "file_name p =
     (case rev (filter (\<lambda>c. c \<noteq> [] \<and> c \<noteq> ''.'') (split_on CHR ''/'' p)) of
        [] \<Rightarrow> None
      | c # _ \<Rightarrow> if c = ''..'' then None else Some c)"

definition path_join :: "bytes \<Rightarrow> bytes \<Rightarrow> bytes" where
  "path_join p n = (if p = [] \<or> last p = CHR ''/'' then p @ n else p @ ''/'' @ n)"

text \<open>The text of \<open>Path::parent\<close>: the path before the last name, without separators and current directories
  at its end.\<close>

definition skipped_part :: "bytes \<Rightarrow> bool" where
  "skipped_part c \<longleftrightarrow> c = [] \<or> c = ''.''"

definition parent_text :: "bytes \<Rightarrow> bytes" where
  "parent_text p =
     (case butlast (drop_end skipped_part (split_on CHR ''/'' p)) of
        [] \<Rightarrow> []
      | c # cs \<Rightarrow> (let cs' = drop_end skipped_part cs in if c = [] \<and> cs' = [] then ''/'' else join ''/'' (c # cs')))"

lemma split_on_none: "c \<notin> set s \<Longrightarrow> split_on c s = [s]"
  by (induction s) (auto split: list.split)

lemma split_on_append: "split_on c (xs @ c # ys) = split_on c xs @ split_on c ys"
  by (induction xs) (auto split: list.split)

text \<open>A name that a directory entry can have.\<close>

definition proper_name :: "bytes \<Rightarrow> bool" where
  "proper_name n \<longleftrightarrow> n \<noteq> [] \<and> n \<noteq> ''.'' \<and> n \<noteq> ''..'' \<and> CHR ''/'' \<notin> set n"

lemma components_join:
  assumes "p \<noteq> []" and "proper_name n"
  shows "components (path_join p n) = components p @ [n]"
proof -
  have n: "split_on CHR ''/'' n = [n]" "n \<noteq> []" "n \<noteq> ''.''"
    using assms(2) by (auto simp: proper_name_def split_on_none)
  have "\<exists>ps tl. ps \<noteq> [] \<and> split_on CHR ''/'' p = ps @ tl \<and> set tl \<subseteq> {[]}
      \<and> split_on CHR ''/'' (path_join p n) = ps @ [n] \<and> prefix ''/'' (path_join p n) = prefix ''/'' p"
  proof (cases "last p = CHR ''/''")
    case True
    then obtain q where q: "p = q @ ''/''" using assms(1) by (metis append_butlast_last_id)
    then have j: "path_join p n = q @ CHR ''/'' # n" by (simp add: path_join_def)
    moreover have "split_on CHR ''/'' p = split_on CHR ''/'' q @ [[]]" unfolding q by (subst split_on_append) simp
    moreover have "prefix ''/'' (path_join p n) = prefix ''/'' p" unfolding j by (cases q) (auto simp: q)
    ultimately show ?thesis using n(1) by (intro exI [of _ "split_on CHR ''/'' q"] exI [of _ "[[]]"]) (simp add: split_on_append)
  next
    case False
    then have j: "path_join p n = p @ CHR ''/'' # n" using assms(1) by (simp add: path_join_def)
    have "prefix ''/'' (path_join p n) = prefix ''/'' p" unfolding j using assms(1) by (cases p) auto
    with n(1) j show ?thesis
      by (intro exI [of _ "split_on CHR ''/'' p"] exI [of _ "[]"]) (simp add: split_on_append)
  qed
  then obtain ps tl where s: "ps \<noteq> []" "split_on CHR ''/'' p = ps @ tl" "set tl \<subseteq> {[]}"
      "split_on CHR ''/'' (path_join p n) = ps @ [n]" "prefix ''/'' (path_join p n) = prefix ''/'' p" by blast
  have "filter (\<lambda>c. c \<noteq> [] \<and> c \<noteq> ''.'') tl = []" using s(3) by (auto simp: filter_empty_conv)
  with s(1,5) n show ?thesis by (simp add: components_def s(2,4) hd_append Let_def)
qed

text \<open>\<open>Path::extension\<close>: what follows the last dot of the file name, if something precedes it.\<close>

definition path_extension :: "bytes \<Rightarrow> bytes option" where
  "path_extension p =
     (case file_name p of
        None \<Rightarrow> None
      | Some n \<Rightarrow> (case rsplit_once CHR ''.'' n of
                    Some (stem, ext) \<Rightarrow> if stem = [] then None else Some ext
                  | None \<Rightarrow> None))"

section \<open>ASCII case\<close>

definition ascii_lower :: "char \<Rightarrow> char" where
  "ascii_lower c = (if between 65 90 (byte c) then char_of (byte c + 32) else c)"

definition lower :: "bytes \<Rightarrow> bytes" where
  "lower s = map ascii_lower s"

definition eq_ignore_ascii_case :: "bytes \<Rightarrow> bytes \<Rightarrow> bool" where
  "eq_ignore_ascii_case s t \<longleftrightarrow> lower s = lower t"

section \<open>Numbers\<close>

definition digit_char :: "nat \<Rightarrow> char" where
  "digit_char d = (if d < 10 then char_of (48 + d) else char_of (87 + d))"

lemma digit_char_table [simp]:
  "digit_char 0 = CHR ''0''"
  "digit_char (Suc 0) = CHR ''1''"
  "digit_char 1 = CHR ''1''"
  "digit_char 2 = CHR ''2''"
  "digit_char 3 = CHR ''3''"
  "digit_char 4 = CHR ''4''"
  "digit_char 5 = CHR ''5''"
  "digit_char 6 = CHR ''6''"
  "digit_char 7 = CHR ''7''"
  "digit_char 8 = CHR ''8''"
  "digit_char 9 = CHR ''9''"
  "digit_char 10 = CHR ''a''"
  "digit_char 11 = CHR ''b''"
  "digit_char 12 = CHR ''c''"
  "digit_char 13 = CHR ''d''"
  "digit_char 14 = CHR ''e''"
  "digit_char 15 = CHR ''f''"
  by (simp_all add: digit_char_def char_of_def bit_simps)

definition digit_val :: "char \<Rightarrow> nat option" where
  "digit_val c =
     (let b = byte c in
      if between 48 57 b then Some (b - 48)
      else if between 97 122 b then Some (b - 87)
      else if between 65 90 b then Some (b - 55)
      else None)"

text \<open>A digit of the radix: \<open>char::to_digit(radix)\<close>.\<close>

definition to_digit :: "nat \<Rightarrow> char \<Rightarrow> nat option" where
  "to_digit r c = (case digit_val c of Some d \<Rightarrow> if d < r then Some d else None | None \<Rightarrow> None)"

fun digits_val :: "nat \<Rightarrow> nat \<Rightarrow> bytes \<Rightarrow> nat option" where
  "digits_val r acc [] = Some acc"
| "digits_val r acc (c # cs) =
     (case to_digit r c of None \<Rightarrow> None | Some d \<Rightarrow> digits_val r (r * acc + d) cs)"

text \<open>
  \<open>from_str_radix\<close> of an unsigned type with values below \<open>bound\<close>: one leading plus sign
  is accepted when digits follow it, and the empty string, any other character and overflow
  are errors.
\<close>

definition parse_unsigned :: "nat \<Rightarrow> nat \<Rightarrow> bytes \<Rightarrow> nat option" where
  "parse_unsigned r bound s =
     (let ds = (case s of c # d # cs \<Rightarrow> if c = CHR ''+'' then d # cs else s | _ \<Rightarrow> s) in
      if ds = [] then None
      else (case digits_val r 0 ds of
              None \<Rightarrow> None
            | Some n \<Rightarrow> if n < bound then Some n else None))"

abbreviation parse_u8 :: "bytes \<Rightarrow> nat option" where "parse_u8 \<equiv> parse_unsigned 10 (2 ^ 8)"
abbreviation parse_u16 :: "bytes \<Rightarrow> nat option" where "parse_u16 \<equiv> parse_unsigned 10 (2 ^ 16)"

text \<open>The commands are built for wasm32, where \<open>usize\<close> has 32 bits.\<close>

abbreviation parse_usize32 :: "bytes \<Rightarrow> nat option" where
  "parse_usize32 \<equiv> parse_unsigned 10 (2 ^ 32)"

text \<open>\<open>parse::<i64>()\<close> and \<open>parse::<i32>()\<close>.\<close>

definition parse_signed :: "nat \<Rightarrow> bytes \<Rightarrow> int option" where
  "parse_signed bits s =
     (case s of
        [] \<Rightarrow> None
      | c # cs \<Rightarrow>
          if c = CHR ''-'' \<and> cs \<noteq> [] then
            (case digits_val 10 0 cs of
               None \<Rightarrow> None
             | Some n \<Rightarrow> if n \<le> 2 ^ (bits - 1) then Some (- int n) else None)
          else map_option int (parse_unsigned 10 (2 ^ (bits - 1)) s))"

text \<open>Printing in a radix, without leading zeros.\<close>

fun show_radix :: "nat \<Rightarrow> nat \<Rightarrow> bytes" where
  "show_radix r n =
     (if n < r \<or> r \<le> 1 then [digit_char n] else show_radix r (n div r) @ [digit_char (n mod r)])"

declare show_radix.simps [simp del]

definition show_nat :: "nat \<Rightarrow> bytes" where
  "show_nat n = show_radix 10 n"

definition show_int :: "int \<Rightarrow> bytes" where
  "show_int i = (if i < 0 then CHR ''-'' # show_nat (nat (- i)) else show_nat (nat i))"

text \<open>\<open>{:>w}\<close> and \<open>{:w}\<close>: padding to a width counted in characters.\<close>

definition pad_left :: "nat \<Rightarrow> bytes \<Rightarrow> bytes" where
  "pad_left w s = replicate (w - length (utf8_chars s)) CHR '' '' @ s"

definition pad_right :: "nat \<Rightarrow> bytes \<Rightarrow> bytes" where
  "pad_right w s = s @ replicate (w - length (utf8_chars s)) CHR '' ''"

subsection \<open>Reading back what was printed\<close>

lemma byte_char_of [simp]: "byte (char_of n) = n mod 256"
  by (simp add: byte_def)

lemma to_digit_digit_char [num_facts]:
  assumes "d < r" and "r \<le> 16"
  shows "to_digit r (digit_char d) = Some d"
  using assms by (auto simp: to_digit_def digit_char_def digit_val_def between_def)

lemma digits_val_append [num_facts]:
  "digits_val r acc (xs @ ys) =
     (case digits_val r acc xs of None \<Rightarrow> None | Some a \<Rightarrow> digits_val r a ys)"
  by (induction xs arbitrary: acc) (auto split: option.split)

lemma digits_val_show_radix [num_facts]:
  assumes "1 < r" and "r \<le> 16"
  shows "digits_val r 0 (show_radix r n) = Some n"
proof (induction n rule: less_induct)
  case (less n)
  show ?case
  proof (cases "n < r")
    case True
    then show ?thesis using assms by (subst show_radix.simps) (simp add: to_digit_digit_char)
  next
    case False
    with assms have "n div r < n" by (metis div_less_dividend le_trans nat_le_linear not_le zero_less_iff_neq_zero)
    with less have "digits_val r 0 (show_radix r (n div r)) = Some (n div r)" by blast
    moreover have "to_digit r (digit_char (n mod r)) = Some (n mod r)"
      using assms by (intro to_digit_digit_char) auto
    ultimately show ?thesis using False assms
      by (subst show_radix.simps) (simp add: digits_val_append)
  qed
qed

lemma show_radix_not_Nil [simp]: "show_radix r n \<noteq> []"
  by (subst show_radix.simps) simp

lemma digit_char_inj_special:
  assumes "d < 16"
  shows "digit_char d \<noteq> CHR ''+'' \<and> digit_char d \<noteq> CHR ''-'' \<and> 47 < byte (digit_char d) \<and> byte (digit_char d) < 128"
proof -
  have "47 < byte (digit_char d)" "byte (digit_char d) < 128"
    using assms by (auto simp: digit_char_def)
  moreover have "byte CHR ''+'' = 43" "byte CHR ''-'' = 45"
    by (simp_all add: byte_def)
  ultimately show ?thesis by auto
qed

text \<open>Every byte of a printed number is a digit.\<close>

lemma set_show_radix:
  "1 < r \<Longrightarrow> r \<le> 16 \<Longrightarrow> c \<in> set (show_radix r n) \<Longrightarrow> \<exists>d<r. c = digit_char d"
proof (induction n rule: less_induct)
  case (less n)
  show ?case
  proof (cases "n < r")
    case True
    with less.prems show ?thesis by (subst (asm) show_radix.simps) auto
  next
    case False
    with less.prems have "n div r < n"
      by (metis div_less_dividend le_trans nat_le_linear not_le zero_less_iff_neq_zero)
    have "c \<in> set (show_radix r (n div r)) \<or> c = digit_char (n mod r)"
      using less.prems False by (auto simp: show_radix.simps [of r n])
    with less.IH [OF \<open>n div r < n\<close>] less.prems show ?thesis
      by (metis bot_nat_0.extremum_strict mod_less_divisor nat_neq_iff not_less_zero zero_less_one order.strict_trans)
  qed
qed

lemma parse_unsigned_show_radix [num_facts]:
  assumes "1 < r" and "r \<le> 16" and "n < bound"
  shows "parse_unsigned r bound (show_radix r n) = Some n"
proof -
  have "hd (show_radix r n) \<noteq> CHR ''+''"
    using set_show_radix [OF assms(1,2), of "hd (show_radix r n)" n] digit_char_inj_special assms(2)
    by (metis hd_in_set le_trans nat_less_le not_le show_radix_not_Nil)
  then have "(case show_radix r n of c # d # cs \<Rightarrow> if c = CHR ''+'' then d # cs else show_radix r n
      | _ \<Rightarrow> show_radix r n) = show_radix r n"
    by (auto split: list.split)
  with assms digits_val_show_radix [OF assms(1,2), of n] show ?thesis
    by (simp add: parse_unsigned_def)
qed

lemma parse_unsigned_bound [num_facts]: "parse_unsigned r bound s = Some n \<Longrightarrow> n < bound"
  by (auto simp: parse_unsigned_def Let_def split: if_splits option.splits)


text \<open>Printed numbers are plain text: no white space, no separators.\<close>

lemma visible_not_ws: "32 < byte c \<Longrightarrow> byte c < 128 \<Longrightarrow> \<not> is_ws [c]"
  by (auto simp: is_ws_def ws_chars_def byte_def)

lemma show_radix_bytes:
  "1 < r \<Longrightarrow> r \<le> 16 \<Longrightarrow> c \<in> set (show_radix r n) \<Longrightarrow> 47 < byte c \<and> byte c < 128 \<and> byte c \<noteq> 58"
proof -
  assume r: "1 < r" "r \<le> 16" "c \<in> set (show_radix r n)"
  then obtain d where "d < 16" "c = digit_char d" using set_show_radix by (metis order.strict_trans2)
  moreover have "byte (digit_char d) \<noteq> 58" if "d < 16" using that by (auto simp: digit_char_def)
  ultimately show ?thesis using digit_char_inj_special by metis
qed

lemma is_ascii_show_radix [simp]: "1 < r \<Longrightarrow> r \<le> 16 \<Longrightarrow> is_ascii (show_radix r n)"
  using show_radix_bytes by (auto simp: is_ascii_def)

lemma trim_show_radix [simp]:
  assumes "1 < r" and "r \<le> 16"
  shows "trim (show_radix r n) = show_radix r n"
proof (rule trim_ascii_id)
  have "\<not> is_ws [c]" if "c \<in> set (show_radix r n)" for c
    using show_radix_bytes [OF assms that] by (intro visible_not_ws) auto
  then show "show_radix r n = [] \<or> \<not> is_ws [hd (show_radix r n)] \<and> \<not> is_ws [last (show_radix r n)]" by simp
qed (use assms in simp)

lemma show_radix_plain:
  assumes "1 < r" and "r \<le> 16" and "byte c \<le> 47 \<or> byte c = 58"
  shows "c \<notin> set (show_radix r n)"
  using show_radix_bytes [OF assms(1,2), of c n] assms(3) by auto

lemma show_nat_plain [simp]:
  "NL \<notin> set (show_nat n)" "CR \<notin> set (show_nat n)" "CHR '' '' \<notin> set (show_nat n)" "CHR '':'' \<notin> set (show_nat n)"
  "CHR ''/'' \<notin> set (show_nat n)"
  by (auto simp: show_nat_def byte_def dest: show_radix_bytes [rotated 2])

lemma show_nat_digits: "c \<in> set (show_nat n) \<Longrightarrow> 48 \<le> byte c \<and> byte c < 58"
proof -
  assume "c \<in> set (show_nat n)"
  then obtain d where "d < 10" "c = digit_char d"
    using set_show_radix [of 10 c n] by (auto simp: show_nat_def)
  then show ?thesis by (simp add: digit_char_def)
qed

lemma show_nat_not_Nil [simp]: "show_nat n \<noteq> []"
  by (simp add: show_nat_def)

lemma is_ascii_show_nat [simp]: "is_ascii (show_nat n)"
  by (simp add: show_nat_def)

lemma parse_show_nat [simp]: "n < bound \<Longrightarrow> parse_unsigned 10 bound (show_nat n) = Some n"
  by (simp add: show_nat_def parse_unsigned_show_radix)

lemma trim_space [text_facts]:
  assumes "is_ascii s" and "s = [] \<or> \<not> is_ws [hd s] \<and> \<not> is_ws [last s]"
  shows "trim (CHR '' '' # s) = s"
proof -
  have "is_ws '' ''" by (simp add: is_ws_def ws_chars_def)
  moreover have "is_ascii (CHR '' '' # s)" using assms(1) by (simp add: byte_def)
  ultimately have "trim (CHR '' '' # s) = trim s" using assms(1) by (simp add: trim_ascii)
  with trim_ascii_id [OF assms] show ?thesis by simp
qed

text \<open>Splitting a joined text at a separator none of whose characters occurs in the pieces.\<close>

lemma split_str_join [text_facts]:
  assumes "pat \<noteq> []" and "list_all (\<lambda>w. hd pat \<notin> set w) ws" and "ws \<noteq> []"
  shows "split_str pat (join pat ws) = ws"
  using assms(2,3)
proof (induction ws)
  case (Cons w ws)
  have no: "\<not> sublist pat (w @ butlast pat)"
  proof
    assume "sublist pat (w @ butlast pat)"
    then obtain a b where e: "w @ butlast pat = a @ pat @ b" by (auto simp: sublist_def)
    have "length a < length w"
    proof (rule ccontr)
      assume "\<not> length a < length w"
      moreover have "length (w @ butlast pat) = length (a @ pat @ b)" using e by simp
      ultimately show False using assms(1) by (cases pat) (auto split: if_splits)
    qed
    then have "(w @ butlast pat) ! length a = w ! length a" by (simp add: nth_append)
    moreover have "(a @ pat @ b) ! length a = hd pat" using assms(1) by (simp add: nth_append hd_conv_nth)
    ultimately have "hd pat \<in> set w" using e \<open>length a < length w\<close> by (metis nth_mem)
    with Cons.prems(1) show False by simp
  qed
  show ?case
  proof (cases "ws = []")
    case True
    have "\<not> sublist pat w" using no unfolding sublist_def by (metis append.assoc)
    then have "find_sub pat w = None" by (simp add: find_sub_None_iff)
    with True show ?thesis by (simp add: split_str.simps [of pat w])
  next
    case False
    with Cons have IH: "split_str pat (join pat ws) = ws" by simp
    have "find_sub pat (w @ pat @ join pat ws) = Some (length w)" by (rule find_sub_here [OF no assms(1)])
    then show ?thesis
      using IH False assms(1) by (simp add: join_Cons split_str.simps [of pat "w @ pat @ join pat ws"])
  qed
qed simp

text \<open>A printed number does not start with a zero, unless it is zero.\<close>

lemma show_radix_head: "1 < r \<Longrightarrow> r \<le> 16 \<Longrightarrow> hd (show_radix r n) = CHR ''0'' \<longleftrightarrow> n = 0"
proof (induction n rule: less_induct)
  case (less n)
  show ?case
  proof (cases "n < r")
    case True
    have "digit_char n = CHR ''0'' \<longleftrightarrow> n = 0"
      using to_digit_digit_char [of n 16] to_digit_digit_char [of 0 16] True less.prems by force
    then show ?thesis using True by (subst show_radix.simps) simp
  next
    case False
    with less.prems have "n div r < n" "n div r \<noteq> 0"
      by (metis div_less_dividend le_trans nat_le_linear not_le zero_less_iff_neq_zero) (use False less.prems in \<open>simp add: div_eq_0_iff\<close>)
    with less.IH [of "n div r"] less.prems have "hd (show_radix r (n div r)) \<noteq> CHR ''0''" by simp
    then show ?thesis using False less.prems by (subst show_radix.simps) simp
  qed
qed

end
