(* ===== verification/Float64.thy ===== *)
theory Float64
  imports Prelude Complex_Main "HOL-Library.Log_Nat"
begin

text \<open>
  The \<open>f64\<close> values and operations the kernel uses: a finite value is a rational number, and
  every arithmetic operation is the exact one followed by rounding to the nearest value with a
  53-bit significand, ties to even, as IEEE 754 binary64 has it.  The kernel computes with
  non-negative values between \<open>2^-64\<close> and \<open>2^64\<close> only, so subnormal numbers, overflow to
  infinity and the sign of zero do not occur; infinities and NaN come from parsing alone.
\<close>

datatype f64 = Fin rat | Infinite bool \<comment> \<open>True for minus infinity\<close> | NaN

text \<open>\<open>a >= b\<close>: false when either is NaN.\<close>

fun f64_ge :: "f64 \<Rightarrow> f64 \<Rightarrow> bool" where
  "f64_ge NaN b = False"
| "f64_ge a NaN = False"
| "f64_ge (Fin x) (Fin y) = (y \<le> x)"
| "f64_ge (Fin x) (Infinite neg) = neg"
| "f64_ge (Infinite neg) (Fin y) = (\<not> neg)"
| "f64_ge (Infinite n) (Infinite m) = (\<not> n \<or> m)"

section \<open>Rounding\<close>

text \<open>To the nearest integer, ties to the even one.\<close>

definition round_even :: "rat \<Rightarrow> int" where
  "round_even x =
     (let n = \<lfloor>x\<rfloor>; r = x - of_int n in
      if r < 1 / 2 then n else if 1 / 2 < r then n + 1 else if even n then n else n + 1)"

lemma round_even_bounds: "\<lfloor>x\<rfloor> \<le> round_even x" "round_even x \<le> \<lfloor>x\<rfloor> + 1"
  by (auto simp: round_even_def Let_def)

lemma round_even_mono: "x \<le> y \<Longrightarrow> round_even x \<le> round_even y"
proof -
  assume xy: "x \<le> y"
  show ?thesis
  proof (cases "\<lfloor>x\<rfloor> = \<lfloor>y\<rfloor>")
    case True
    with xy show ?thesis by (auto simp: round_even_def Let_def)
  next
    case False
    with floor_mono [OF xy] have "\<lfloor>x\<rfloor> + 1 \<le> \<lfloor>y\<rfloor>" by linarith
    with round_even_bounds [of x] round_even_bounds [of y] show ?thesis by linarith
  qed
qed

lemma round_even_of_int [simp]: "round_even (of_int n) = n"
  by (simp add: round_even_def)

text \<open>The exponent of a positive number: the \<open>k\<close> with \<open>2^k \<le> x < 2^(k+1)\<close>.\<close>

definition ilog2 :: "rat \<Rightarrow> int" where
  "ilog2 x =
     (if 1 \<le> x then int (floorlog 2 (nat \<lfloor>x\<rfloor>)) - 1
      else - int (floorlog 2 (nat (\<lceil>1 / x\<rceil> - 1))))"

lemma floorlog2_bounds:
  assumes "0 < n"
  shows "2 ^ (floorlog 2 n - 1) \<le> n" "n < 2 ^ floorlog 2 n" "0 < floorlog 2 n"
  using floorlog_bounds [of n 2] assms by (auto simp: floorlog_def)

lemma ilog2_lower:
  assumes "0 < x"
  shows "2 powi ilog2 x \<le> x"
proof (cases "1 \<le> x")
  case True
  define n where "n = nat \<lfloor>x\<rfloor>"
  have n: "0 < n" "of_nat n \<le> x" using True by (simp_all add: n_def)
  have "(2::rat) powi (int (floorlog 2 n) - 1) = 2 ^ (floorlog 2 n - 1)"
    using floorlog2_bounds(3) [OF n(1)]
    by (metis Suc_diff_1 add_diff_cancel_left' of_nat_Suc power_int_of_nat)
  also have "\<dots> \<le> of_nat n"
    using floorlog2_bounds(1) [OF n(1)] by (metis of_nat_le_iff of_nat_numeral of_nat_power)
  also note n(2)
  finally show ?thesis using True by (simp add: ilog2_def n_def)
next
  case False
  define m where "m = nat (\<lceil>1 / x\<rceil> - 1)"
  have c: "1 < \<lceil>1 / x\<rceil>" using False assms by (simp add: less_ceiling_iff)
  then have m: "0 < m" "int m = \<lceil>1 / x\<rceil> - 1" unfolding m_def by linarith+
  have "1 / x \<le> of_int \<lceil>1 / x\<rceil>" by simp
  also have "\<lceil>1 / x\<rceil> = int m + 1" using m by simp
  also have "of_int (int m + 1) \<le> (2::rat) ^ floorlog 2 m"
    using floorlog2_bounds(2) [OF m(1)]
    by (metis Suc_eq_plus1 Suc_leI of_int_of_nat_eq of_nat_1 of_nat_add of_nat_le_iff of_nat_numeral of_nat_power)
  finally have "1 / x \<le> 2 ^ floorlog 2 m" .
  then have "1 / 2 ^ floorlog 2 m \<le> x" using assms by (simp add: field_simps)
  then show ?thesis using False by (simp add: ilog2_def m_def power_int_minus divide_inverse)
qed

lemma ilog2_upper:
  assumes "0 < x"
  shows "x < 2 powi (ilog2 x + 1)"
proof (cases "1 \<le> x")
  case True
  define n where "n = nat \<lfloor>x\<rfloor>"
  have n: "0 < n" "\<lfloor>x\<rfloor> = int n" using True by (simp_all add: n_def)
  have "x < of_int (int n + 1)" using n(2) by linarith
  also have "\<dots> \<le> (2::rat) ^ floorlog 2 n"
    using floorlog2_bounds(2) [OF n(1)]
    by (metis Suc_eq_plus1 Suc_leI of_int_of_nat_eq of_nat_1 of_nat_add of_nat_le_iff of_nat_numeral of_nat_power)
  finally show ?thesis using True by (simp add: ilog2_def n_def)
next
  case False
  define m where "m = nat (\<lceil>1 / x\<rceil> - 1)"
  have c: "1 < \<lceil>1 / x\<rceil>" using False assms by (simp add: less_ceiling_iff)
  then have m: "0 < m" "int m = \<lceil>1 / x\<rceil> - 1" unfolding m_def by linarith+
  have "(2::rat) ^ (floorlog 2 m - 1) \<le> of_nat m"
    using floorlog2_bounds(1) [OF m(1)] by (metis of_nat_le_iff of_nat_numeral of_nat_power)
  also have "of_nat m < 1 / x" using m(2) by linarith
  finally have "x < 1 / 2 ^ (floorlog 2 m - 1)" using assms by (simp add: field_simps)
  also have "\<dots> = 2 powi (1 - int (floorlog 2 m))"
    using floorlog2_bounds(3) [OF m(1)]
    by (simp add: divide_inverse flip: power_int_minus power_int_of_nat)
  finally show ?thesis using False by (simp add: ilog2_def m_def add.commute)
qed

text \<open>Rounding to 53 bits.\<close>

definition ulp :: "rat \<Rightarrow> rat" where
  "ulp x = 2 powi (ilog2 x - 52)"

definition rnd :: "rat \<Rightarrow> rat" where
  "rnd x = (if x \<le> 0 then 0 else ulp x * of_int (round_even (x / ulp x)))"

lemma ulp_pos [simp]: "0 < ulp x"
  by (simp add: ulp_def)

lemma ulp_nonneg [simp]: "0 \<le> ulp x"
  by (rule less_imp_le) simp

lemma ulp_nonzero [simp]: "ulp x \<noteq> 0"
  by (metis ulp_pos less_irrefl)

lemma rnd_nonneg [simp]: "0 \<le> rnd x"
proof (cases "x \<le> 0")
  case False
  then have "0 \<le> x / ulp x" using ulp_pos [of x] by (intro divide_nonneg_nonneg) auto
  then have "0 \<le> \<lfloor>x / ulp x\<rfloor>" by simp
  with round_even_bounds(1) [of "x / ulp x"] have "0 \<le> round_even (x / ulp x)" by linarith
  with False show ?thesis using ulp_pos [of x] by (simp add: rnd_def)
qed (simp add: rnd_def)

lemma rnd_0 [simp]: "rnd 0 = 0"
  by (simp add: rnd_def)

lemma ulp_split: "2 powi (ilog2 x + 1) = ulp x * of_int (2 ^ 53)" "2 powi ilog2 x = ulp x * of_int (2 ^ 52)"
  by (simp_all add: ulp_def power_int_add power_int_diff)

lemma rnd_upper:
  assumes "0 < x"
  shows "rnd x \<le> 2 powi (ilog2 x + 1)"
proof -
  have "x / ulp x \<le> of_int (2 ^ 53)"
    using ilog2_upper [OF assms] ulp_pos [of x] by (simp add: ulp_split pos_divide_le_eq mult.commute)
  then have "round_even (x / ulp x) \<le> 2 ^ 53" by (metis round_even_mono round_even_of_int)
  then have "of_int (round_even (x / ulp x)) \<le> (of_int (2 ^ 53) :: rat)" by (simp only: of_int_le_iff)
  then show ?thesis using assms ulp_pos [of x] by (simp add: rnd_def ulp_split)
qed

lemma rnd_lower:
  assumes "0 < x"
  shows "2 powi ilog2 x \<le> rnd x"
proof -
  have "of_int (2 ^ 52) \<le> x / ulp x"
    using ilog2_lower [OF assms] ulp_pos [of x] by (simp add: ulp_split pos_le_divide_eq mult.commute)
  then have "2 ^ 52 \<le> round_even (x / ulp x)" by (metis round_even_mono round_even_of_int)
  then have "of_int (2 ^ 52) \<le> (of_int (round_even (x / ulp x)) :: rat)" by (simp only: of_int_le_iff)
  then show ?thesis using assms ulp_pos [of x] by (simp add: rnd_def ulp_split)
qed

lemma rnd_mono:
  assumes "x \<le> y"
  shows "rnd x \<le> rnd y"
proof (cases "0 < x")
  case True
  with assms have y: "0 < y" by simp
  show ?thesis
  proof (cases "ilog2 x < ilog2 y")
    case True
    then have "(2::rat) powi (ilog2 x + 1) \<le> 2 powi ilog2 y"
      by (intro power_int_increasing) auto
    with rnd_upper [OF \<open>0 < x\<close>] rnd_lower [OF y] show ?thesis by linarith
  next
    case False
    have "(2::rat) powi ilog2 x < 2 powi (ilog2 y + 1)"
      using ilog2_lower [OF \<open>0 < x\<close>] ilog2_upper [OF y] assms by linarith
    then have "ilog2 x < ilog2 y + 1"
      using power_int_increasing [of "ilog2 y + 1" "ilog2 x" "2::rat"] by (meson leD not_le_imp_less one_le_numeral)
    with False have "ulp x = ulp y" by (simp add: ulp_def)
    moreover have "x / ulp x \<le> y / ulp x"
      using assms ulp_pos [of x] by (simp add: divide_right_mono)
    then have "round_even (x / ulp x) \<le> round_even (y / ulp x)" by (rule round_even_mono)
    ultimately show ?thesis using \<open>0 < x\<close> y ulp_pos [of y]
      by (simp add: rnd_def)
  qed
next
  case False
  then have "rnd x = 0" by (simp add: rnd_def)
  then show ?thesis by simp
qed

text \<open>The integers up to \<open>2^53\<close> and the binary fractions below are exact.\<close>

lemma rnd_exact:
  assumes "0 < x" and "x / ulp x = of_int n"
  shows "rnd x = x"
proof -
  have "rnd x = ulp x * of_int n"
    using assms(1) by (simp only: rnd_def assms(2) round_even_of_int if_not_P not_le)
  also have "\<dots> = x"
    using ulp_pos [of x] by (simp flip: assms(2))
  finally show ?thesis .
qed

lemma rnd_of_nat:
  assumes "n < 2 ^ 53"
  shows "rnd (of_nat n) = of_nat n"
proof (cases "n = 0")
  case False
  let ?k = "ilog2 (of_nat n)"
  have p: "(0::rat) < of_nat n" using False by simp
  have "(2::rat) powi ?k < 2 powi 53"
  proof -
    have "(of_nat n :: rat) < 2 ^ 53"
      using assms by (metis of_nat_less_iff of_nat_numeral of_nat_power)
    with ilog2_lower [OF p] show ?thesis by simp
  qed
  then have k: "?k < 53"
    using power_int_increasing [of 53 ?k "2::rat"] by (meson leD not_le_imp_less one_le_numeral)
  have "of_nat n / ulp (of_nat n) = of_nat n * (2::rat) powi (52 - ?k)"
    by (simp add: ulp_def power_int_diff field_simps)
  also have "\<dots> = of_int (int n * 2 ^ nat (52 - ?k))"
    using k by (simp add: power_int_def)
  finally show ?thesis by (rule rnd_exact [OF p])
qed simp

lemma rnd_le_of_nat: "x \<le> of_nat n \<Longrightarrow> n < 2 ^ 53 \<Longrightarrow> rnd x \<le> of_nat n"
  by (metis rnd_mono rnd_of_nat)

lemma of_nat_le_rnd: "of_nat n \<le> x \<Longrightarrow> n < 2 ^ 53 \<Longrightarrow> of_nat n \<le> rnd x"
  by (metis rnd_mono rnd_of_nat)

section \<open>Operations\<close>

text \<open>An integer as \<open>f64\<close>, and the conversion back that drops the fraction.\<close>

definition of_u64 :: "nat \<Rightarrow> rat" where
  "of_u64 n = rnd (of_nat n)"

definition f_add :: "rat \<Rightarrow> rat \<Rightarrow> rat" where "f_add x y = rnd (x + y)"
definition f_mul :: "rat \<Rightarrow> rat \<Rightarrow> rat" where "f_mul x y = rnd (x * y)"
definition f_div :: "rat \<Rightarrow> rat \<Rightarrow> rat" where "f_div x y = rnd (x / y)"

text \<open>\<open>f64::round\<close> of a non-negative value: halves away from zero.\<close>

definition f_round :: "rat \<Rightarrow> rat" where
  "f_round x = of_int \<lfloor>x + 1 / 2\<rfloor>"

definition to_u64 :: "rat \<Rightarrow> nat" where
  "to_u64 x = nat \<lfloor>x\<rfloor>"

end
