(* ===== verification/Kernel_Config.thy ===== *)
theory Kernel_Config
  imports RustStr Float64 "HOL-Library.Multiset"
begin

text \<open>
  The kernel's configuration (\<open>engine/src/config.rs\<close>) and the loading of a \<open>.env\<close> file at
  start-up (\<open>engine/src/main.rs\<close>): the providers found in the environment, sorted by
  priority, and the model map built once from the sorted list.
\<close>

section \<open>The process environment\<close>

datatype var_error = NotPresent | NotUnicode bytes

type_synonym env = "bytes \<Rightarrow> var_error + bytes"

text \<open>\<open>std::env::set_var\<close>; \<open>None\<close> is its panic.\<close>

definition set_var :: "env \<Rightarrow> bytes \<Rightarrow> bytes \<Rightarrow> env option" where
  "set_var env k v =
     (if k = [] \<or> CHR ''='' \<in> set k \<or> CHR 0x00 \<in> set k \<or> CHR 0x00 \<in> set v then None
      else Some (env(k := Inr v)))"

definition env_or :: "env \<Rightarrow> bytes \<Rightarrow> bytes \<Rightarrow> bytes" where
  "env_or env key dflt = (case env key of Inl _ \<Rightarrow> dflt | Inr v \<Rightarrow> v)"

section \<open>Configuration\<close>

record provider_config =
  pc_name :: bytes
  pc_base_url :: bytes
  pc_api_key :: bytes
  pc_models :: "bytes list"
  pc_priority :: "8 word"

record kernel_config =
  kc_providers :: "provider_config list"
  kc_default_model :: bytes
  kc_mermate_url :: bytes
  kc_synth_url :: bytes
  kc_ollama_url :: bytes
  kc_tau_explore :: f64
  kc_tau_production :: f64
  kc_tau_deploy :: f64
  kc_model_map :: "bytes \<rightharpoonup> nat"

definition parse_models :: "env \<Rightarrow> bytes \<Rightarrow> bytes \<Rightarrow> bytes list" where
  "parse_models env key dflt =
     filter (\<lambda>s. s \<noteq> []) (map trim (split_on CHR '','' (env_or env key dflt)))"

text \<open>
  The provider blocks of \<open>load_config\<close>, in the order the code pushes them.
\<close>

definition nvidia_provider :: "env \<Rightarrow> provider_config list" where
  "nvidia_provider env =
     (case env ''NVIDIA_API_KEY'' of Inl _ \<Rightarrow> [] | Inr key \<Rightarrow>
       [\<lparr>pc_name = ''nvidia-nim'',
         pc_base_url = env_or env ''NVIDIA_BASE_URL'' ''https://integrate.api.nvidia.com/v1'',
         pc_api_key = key,
         pc_models = parse_models env ''NVIDIA_MODELS''
           ''nvidia/nemotron-3-super-120b-a12b,nvidia/llama-3.3-nemotron-super-49b-v1'',
         pc_priority = 1\<rparr>])"

definition openai_provider :: "env \<Rightarrow> provider_config list" where
  "openai_provider env =
     (case env ''OPENAI_API_KEY'' of Inl _ \<Rightarrow> [] | Inr key \<Rightarrow>
       [\<lparr>pc_name = ''openai'',
         pc_base_url = env_or env ''OPENAI_BASE_URL'' ''https://api.openai.com/v1'',
         pc_api_key = key,
         pc_models = parse_models env ''OPENAI_MODELS''
           ''gpt-5.4,gpt-5.2,gpt-4.1,gpt-4.1-mini,gpt-4.1-nano,gpt-4o,gpt-4o-mini,o3,o3-mini,o1,gpt-image-1'',
         pc_priority = 2\<rparr>])"

definition anthropic_provider :: "env \<Rightarrow> provider_config list" where
  "anthropic_provider env =
     (case env ''ANTHROPIC_API_KEY'' of Inl _ \<Rightarrow> [] | Inr key \<Rightarrow>
       [\<lparr>pc_name = ''anthropic'',
         pc_base_url = env_or env ''ANTHROPIC_BASE_URL'' ''https://api.anthropic.com/v1'',
         pc_api_key = key,
         pc_models = parse_models env ''ANTHROPIC_MODELS''
           ''claude-opus-4-6,claude-sonnet-4-6,claude-haiku-4-5-20251001'',
         pc_priority = 3\<rparr>])"

definition ollama_url_of :: "env \<Rightarrow> bytes" where
  "ollama_url_of env =
     trim_end_matches CHR ''/''
       (case env ''OLLAMA_URL'' of
          Inr u \<Rightarrow> u
        | Inl _ \<Rightarrow> (case env ''LOCAL_LLM_BASE_URL'' of Inr u \<Rightarrow> u | Inl _ \<Rightarrow> []))"

definition ollama_provider :: "env \<Rightarrow> provider_config list" where
  "ollama_provider env =
     (if ollama_url_of env = [] then []
      else [\<lparr>pc_name = ''ollama'', pc_base_url = ollama_url_of env, pc_api_key = ''ollama'',
             pc_models = parse_models env ''OLLAMA_MODELS'' ''gpt-oss:20b'', pc_priority = 10\<rparr>])"

definition nim_local_provider :: "env \<Rightarrow> provider_config list" where
  "nim_local_provider env =
     (case env ''NIM_LOCAL_URL'' of Inl _ \<Rightarrow> [] | Inr url \<Rightarrow>
       [\<lparr>pc_name = ''nim-local'', pc_base_url = url,
         pc_api_key = env_or env ''NIM_LOCAL_API_KEY'' ''unused'',
         pc_models = parse_models env ''NIM_LOCAL_MODELS'' ''nvidia/nemotron-3-super-120b-a12b'',
         pc_priority = 0\<rparr>])"

definition pushed_providers :: "env \<Rightarrow> provider_config list" where
  "pushed_providers env =
     nvidia_provider env @ openai_provider env @ anthropic_provider env
       @ ollama_provider env @ nim_local_provider env"

text \<open>\<open>model_map.entry(m).or_insert(i)\<close> over the models of the i-th provider, then the next.\<close>

fun or_insert_all :: "nat \<Rightarrow> bytes list \<Rightarrow> (bytes \<rightharpoonup> nat) \<Rightarrow> (bytes \<rightharpoonup> nat)" where
  "or_insert_all i [] mm = mm"
| "or_insert_all i (m # ms) mm = or_insert_all i ms (if mm m = None then mm(m \<mapsto> i) else mm)"

fun index_models :: "nat \<Rightarrow> provider_config list \<Rightarrow> (bytes \<rightharpoonup> nat) \<Rightarrow> (bytes \<rightharpoonup> nat)" where
  "index_models i [] mm = mm"
| "index_models i (p # ps) mm = index_models (Suc i) ps (or_insert_all i (pc_models p) mm)"

text \<open>\<open>env_or(key, text).parse().unwrap_or(d)\<close>; reading an \<open>f64\<close> is \<open>parse_f64\<close>.\<close>

definition tau_of :: "(bytes \<Rightarrow> f64 option) \<Rightarrow> env \<Rightarrow> bytes \<Rightarrow> bytes \<Rightarrow> rat \<Rightarrow> f64" where
  "tau_of parse_f64 env key text d =
     (case parse_f64 (env_or env key text) of Some t \<Rightarrow> t | None \<Rightarrow> Fin (rnd d))"

definition default_model_of :: "env \<Rightarrow> provider_config list \<Rightarrow> bytes" where
  "default_model_of env ps =
     (let has_nim = list_ex (\<lambda>p. sublist ''nim'' (pc_name p)) ps;
          has_anthropic = list_ex (\<lambda>p. pc_name p = ''anthropic'') ps in
      env_or env ''OPSEEQ_DEFAULT_MODEL''
        (if has_nim then ''nvidia/nemotron-3-super-120b-a12b''
         else if has_anthropic then ''claude-sonnet-4-6'' else ''gpt-4o''))"

definition load_config :: "(bytes \<Rightarrow> f64 option) \<Rightarrow> env \<Rightarrow> kernel_config" where
  "load_config parse_f64 env =
     (let ps = sort_key pc_priority (pushed_providers env) in
      \<lparr>kc_providers = ps,
       kc_default_model = default_model_of env ps,
       kc_mermate_url = trim_end_matches CHR ''/'' (env_or env ''MERMATE_URL'' ''http://127.0.0.1:3333''),
       kc_synth_url = trim_end_matches CHR ''/'' (env_or env ''SYNTHESIS_TRADE_URL'' ''http://127.0.0.1:8420''),
       kc_ollama_url = ollama_url_of env,
       kc_tau_explore = tau_of parse_f64 env ''OPSEEQ_TAU_EXPLORE'' ''0.7'' (7 / 10),
       kc_tau_production = tau_of parse_f64 env ''OPSEEQ_TAU_PRODUCTION'' ''0.85'' (85 / 100),
       kc_tau_deploy = tau_of parse_f64 env ''OPSEEQ_TAU_DEPLOY'' ''0.9'' (9 / 10),
       kc_model_map = index_models 0 ps Map.empty\<rparr>)"

section \<open>The model map\<close>

lemma or_insert_all_eq:
  "or_insert_all i ms mm m =
     (case mm m of Some j \<Rightarrow> Some j | None \<Rightarrow> if m \<in> set ms then Some i else None)"
  by (induction ms arbitrary: mm) (auto split: option.splits)

text \<open>
  What the map promises: the least position whose provider lists the model.
\<close>

definition first_listing :: "provider_config list \<Rightarrow> bytes \<Rightarrow> nat \<Rightarrow> bool" where
  "first_listing ps m i \<longleftrightarrow>
     i < length ps \<and> m \<in> set (pc_models (ps ! i)) \<and> (\<forall>j<i. m \<notin> set (pc_models (ps ! j)))"

lemma first_listing_Cons:
  "first_listing (p # ps) m i \<longleftrightarrow>
     (case i of 0 \<Rightarrow> m \<in> set (pc_models p)
      | Suc j \<Rightarrow> m \<notin> set (pc_models p) \<and> first_listing ps m j)"
  by (cases i) (auto simp: first_listing_def less_Suc_eq_0_disj)

lemma index_models_Some:
  "index_models k ps mm m = Some i \<longleftrightarrow>
     mm m = Some i \<or> (mm m = None \<and> k \<le> i \<and> first_listing ps m (i - k))"
proof (induction ps arbitrary: k mm)
  case Nil
  then show ?case by (auto simp: first_listing_def)
next
  case (Cons p ps)
  have suc: "x = i - Suc k" if "i - k = Suc x" for x using that by simp
  from Cons show ?case
    by (auto simp: or_insert_all_eq first_listing_Cons split: option.splits nat.splits if_splits dest: suc)
qed

lemma load_config_providers:
  "kc_providers (load_config pf env) = sort_key pc_priority (pushed_providers env)"
  by (simp add: load_config_def Let_def)

lemma load_config_model_map:
  "kc_model_map (load_config pf env) m = Some i \<longleftrightarrow> first_listing (kc_providers (load_config pf env)) m i"
  by (simp add: load_config_def Let_def index_models_Some)

section \<open>Loading a .env file\<close>

text \<open>\<open>std::env::var\<close>: a name the system cannot hold is not present.\<close>

definition env_var :: "env \<Rightarrow> bytes \<Rightarrow> var_error + bytes" where
  "env_var env k =
     (if k = [] \<or> CHR ''='' \<in> set k \<or> CHR 0x00 \<in> set k then Inl NotPresent else env k)"

definition dotenv_line :: "bytes \<Rightarrow> env \<Rightarrow> env option" where
  "dotenv_line raw env =
     (let line = trim raw in
      if line = [] \<or> prefix ''#'' line then Some env
      else (case split_once CHR ''='' line of
              None \<Rightarrow> Some env
            | Some (k, v) \<Rightarrow>
                (let key = trim k; val = trim v in
                 case env_var env key of
                   Inl _ \<Rightarrow> set_var env key val
                 | Inr _ \<Rightarrow> Some env)))"

fun dotenv_lines :: "bytes list \<Rightarrow> env \<Rightarrow> env option" where
  "dotenv_lines [] env = Some env"
| "dotenv_lines (l # ls) env =
     (case dotenv_line l env of None \<Rightarrow> None | Some env' \<Rightarrow> dotenv_lines ls env')"

text \<open>
  The file system as the loader sees it: \<open>present\<close> is \<open>Path::exists\<close>, \<open>content\<close> is
  \<open>read_to_string\<close>.  \<open>None\<close> is a panic, and the flag is the function's result.
\<close>

fun load_candidates :: "(bytes \<Rightarrow> bool) \<Rightarrow> (bytes \<Rightarrow> bytes option) \<Rightarrow> bytes list \<Rightarrow> env \<Rightarrow> (env \<times> bool) option" where
  "load_candidates present content [] env = Some (env, False)"
| "load_candidates present content (p # ps) env =
     (if present p
      then map_option (\<lambda>e. (e, True))
             (dotenv_lines (str_lines (case content p of Some t \<Rightarrow> t | None \<Rightarrow> [])) env)
      else load_candidates present content ps env)"

definition try_load_dotenv :: "(bytes \<Rightarrow> bool) \<Rightarrow> (bytes \<Rightarrow> bytes option) \<Rightarrow> env \<Rightarrow> (env \<times> bool) option" where
  "try_load_dotenv present content env = load_candidates present content [''.env'', ''../.env''] env"

lemma dotenv_line_keeps:
  "dotenv_line l env = Some env' \<Longrightarrow> env k = Inr v \<Longrightarrow> env' k = Inr v"
  by (auto simp: dotenv_line_def env_var_def set_var_def Let_def split: if_splits option.splits sum.splits)

lemma dotenv_lines_keep:
  "dotenv_lines ls env = Some env' \<Longrightarrow> env k = Inr v \<Longrightarrow> env' k = Inr v"
  by (induction ls arbitrary: env) (auto split: option.splits dest: dotenv_line_keeps)

lemma load_candidates_keep:
  "load_candidates pr ct ps env = Some (env', b) \<Longrightarrow> env k = Inr v \<Longrightarrow> env' k = Inr v"
  by (induction ps) (auto split: if_splits dest: dotenv_lines_keep)

section \<open>Properties\<close>

text \<open>The providers of a loaded configuration are sorted by priority, they are exactly
  the providers the environment enables, and two providers of equal priority keep the order in which
  the code pushes them.\<close>

theorem load_config_sorted_providers:
  "sorted (map pc_priority (kc_providers (load_config pf env)))
   \<and> mset (kc_providers (load_config pf env)) = mset (pushed_providers env)
   \<and> filter (\<lambda>p. pc_priority p = k) (kc_providers (load_config pf env))
       = filter (\<lambda>p. pc_priority p = k) (pushed_providers env)"
  by (simp add: load_config_providers sort_key_stable)

text \<open>The model map of a loaded configuration sends a model to a position exactly when that
  position is the first of the sorted providers that lists the model, so the constant-time lookup
  agrees with a scan of the providers in priority order.\<close>

theorem load_config_model_map_first:
  "kc_model_map (load_config pf env) m = Some i \<longleftrightarrow>
     i < length (kc_providers (load_config pf env))
     \<and> m \<in> set (pc_models (kc_providers (load_config pf env) ! i))
     \<and> (\<forall>j<i. m \<notin> set (pc_models (kc_providers (load_config pf env) ! j)))"
  unfolding load_config_model_map first_listing_def ..

text \<open>The witness: an environment with an OpenAI key that lists one model.\<close>

definition demo_env :: env where
  "demo_env = (\<lambda>k. if k = ''OPENAI_API_KEY'' then Inr ''sk'' else if k = ''OPENAI_MODELS'' then Inr ''m1''
                   else Inl NotPresent)"

theorem load_config_model_map_first_witness:
  "kc_model_map (load_config (\<lambda>_. None) demo_env) ''m1'' = Some 0"
  by (subst load_config_model_map_first)
    (simp add: load_config_providers pushed_providers_def demo_env_def nvidia_provider_def
      openai_provider_def anthropic_provider_def ollama_provider_def nim_local_provider_def
      ollama_url_of_def trim_end_matches_def parse_models_def env_or_def trim_def is_cont_def byte_def
      is_ws_def ws_chars_def drop_end_def)

text \<open>Loading a .env file never changes a variable the process environment already has: the
  file only fills in what is missing, whichever candidate file is read.\<close>

theorem dotenv_never_overrides:
  assumes "try_load_dotenv present content env = Some (env', loaded)" and "env k = Inr v"
  shows "env' k = Inr v"
  using assms load_candidates_keep unfolding try_load_dotenv_def by blast

theorem dotenv_never_overrides_witness:
  "\<exists>env'. try_load_dotenv (\<lambda>p. p = ''.env'') (\<lambda>_. Some ''A=2'')
       (\<lambda>k. if k = ''A'' then Inr ''1'' else Inl NotPresent) = Some (env', True)
     \<and> env' ''A'' = Inr ''1''"
proof -
  let ?e = "\<lambda>k. if k = ''A'' then Inr ''1'' else Inl NotPresent"
  have r: "try_load_dotenv (\<lambda>p. p = ''.env'') (\<lambda>_. Some ''A=2'') ?e = Some (?e, True)"
    by (simp add: try_load_dotenv_def str_lines_def strip_eol_def suffix_def dotenv_line_def trim_def
        is_cont_def byte_def is_ws_def ws_chars_def drop_end_def env_var_def)
  from dotenv_never_overrides [OF r, of "''A''" "''1''"] r show ?thesis by auto
qed

text \<open>A .env line whose key is empty, such as a line that starts with an equals sign, aborts
  the kernel at start-up: setting a variable with an empty name panics.\<close>

theorem dotenv_empty_key_panics:
  "try_load_dotenv (\<lambda>p. p = ''.env'') (\<lambda>_. Some ''=x'') env = None"
  by (simp add: try_load_dotenv_def str_lines_def strip_eol_def suffix_def dotenv_line_def trim_def
      is_cont_def byte_def is_ws_def ws_chars_def drop_end_def env_var_def set_var_def)

end
