(* ===== verification/Kernel_Types.thy ===== *)
theory Kernel_Types
  imports RustStr Float64 Kernel_Config
begin

text \<open>
  The messages of the kernel (\<open>engine/src/types.rs\<close>), the run envelope
  (\<open>run_state.rs\<close>) and the runtime events (\<open>events.rs\<close>), with the switch that turns the
  events off.
\<close>

section \<open>Chat messages\<close>

record chat_message =
  cm_role :: bytes
  cm_content :: bytes
  cm_name :: "bytes option"
  cm_reasoning :: "bytes option"

record chat_request =
  cr_model :: bytes
  cr_messages :: "chat_message list"
  cr_temperature :: "f64 option"
  cr_max_tokens :: "32 word option"
  cr_stream :: bool
  cr_purpose :: "bytes option"

record chat_choice =
  cc_index :: "32 word"
  cc_message :: chat_message
  cc_finish_reason :: bytes

record usage =
  u_prompt_tokens :: "32 word"
  u_completion_tokens :: "32 word"
  u_total_tokens :: "32 word"

record opseeq_meta =
  om_provider :: bytes
  om_latency_ms :: "64 word"
  om_trace_id :: bytes

record chat_response =
  cs_id :: bytes
  cs_object :: bytes
  cs_created :: "64 word"
  cs_model :: bytes
  cs_choices :: "chat_choice list"
  cs_usage :: "usage option"
  cs_opseeq :: opseeq_meta

record model_entry =
  me_id :: bytes
  me_provider :: bytes

record probe_result =
  pr_label :: bytes
  pr_url :: bytes
  pr_reachable :: bool
  pr_http_status :: "16 word option"
  pr_latency_ms :: "64 word"

section \<open>Run envelope\<close>

datatype run_status = Pending | InFlight | Completed | Failed bytes

record run_envelope =
  re_trace_id :: bytes
  re_requested_model :: bytes
  re_resolved_provider :: "bytes option"
  re_resolved_model :: "bytes option"
  re_started_at :: "bytes option"
  re_completed_at :: "bytes option"
  re_latency_ms :: "64 word option"
  re_retry_count :: "32 word"
  re_status :: run_status

definition new_envelope :: "bytes \<Rightarrow> bytes \<Rightarrow> run_envelope" where
  "new_envelope tid model =
     \<lparr>re_trace_id = tid, re_requested_model = model, re_resolved_provider = None,
      re_resolved_model = None, re_started_at = None, re_completed_at = None,
      re_latency_ms = None, re_retry_count = 0, re_status = Pending\<rparr>"

section \<open>Runtime events\<close>

datatype runtime_event =
    InferenceRequested (ev_trace: bytes) (ev_model: bytes) (ev_provider: bytes) (ev_purpose: "bytes option")
  | InferenceCompleted (ev_trace: bytes) (ev_model: bytes) (ev_provider: bytes) (ev_latency: "64 word")
      (ev_tokens: "32 word option") (ev_purpose: "bytes option")
  | ProviderFailed (ev_trace: bytes) (ev_provider: bytes) (ev_error: bytes) (ev_attempt: nat)
  | ProbeResultEvent bytes bool "64 word"
  | KernelStarted bytes "bytes list" bytes
  | KernelStopped bytes
  | PipelineStageCompleted bytes bytes bytes "64 word" "bool option" "bytes option"
  | DesktopScanCompleted bytes "32 word"
  | QualityScored (ev_trace: bytes) (ev_provider: bytes) (ev_model: bytes) (ev_score: rat) (ev_tier: bytes)
      (ev_threshold: f64) (ev_passed: bool) (ev_latency: "64 word")

definition events_enabled :: "env \<Rightarrow> bool" where
  "events_enabled env =
     (case env ''OPSEEQ_KERNEL_EVENTS'' of Inr v \<Rightarrow> v = ''1'' \<or> v = ''true'' | Inl _ \<Rightarrow> True)"

text \<open>\<open>emit\<close> on the list of events written so far.\<close>

definition emit :: "bool \<Rightarrow> runtime_event \<Rightarrow> runtime_event list \<Rightarrow> runtime_event list" where
  "emit enabled ev evs = (if enabled then evs @ [ev] else evs)"

end
