(* ===== verification/Kernel_Router.thy ===== *)
theory Kernel_Router
  imports Kernel_Types
begin

text \<open>
  Inference routing (\<open>engine/src/router.rs\<close>): resolving a model to a provider, the cascade over
  the providers with retries and back-off, the quality score of an answer, and the cached model
  list.  What is outside the repository (the HTTP call, the clock) is the record \<open>io\<close>, whose
  operations pass a world along; everything the router makes visible is a list of actions.
\<close>

section \<open>Resolving a model\<close>

definition model_prefix :: "bytes \<Rightarrow> bytes" where
  "model_prefix model = hd (split_on CHR ''/'' model)"

definition resolve_provider :: "bytes \<Rightarrow> kernel_config \<Rightarrow> provider_config option" where
  "resolve_provider model cfg =
     (case kc_model_map cfg model of
        Some idx \<Rightarrow> (if idx < length (kc_providers cfg) then Some (kc_providers cfg ! idx) else None)
      | None \<Rightarrow>
          (case find (\<lambda>p. model_prefix model \<noteq> [] \<and> list_ex (prefix (model_prefix model)) (pc_models p))
                  (kc_providers cfg) of
             Some p \<Rightarrow> Some p
           | None \<Rightarrow> (case kc_providers cfg of [] \<Rightarrow> None | p # _ \<Rightarrow> Some p)))"

section \<open>Retry classification\<close>

definition final_codes :: "bytes list" where
  "final_codes = [''HTTP 400:'', ''HTTP 401:'', ''HTTP 403:'', ''HTTP 404:'', ''HTTP 422:'']"

definition is_retryable :: "bytes \<Rightarrow> bool" where
  "is_retryable err = (\<not> list_ex (\<lambda>code. sublist code err) final_codes)"

text \<open>\<open>0.5 + (nanos as f64 % 1000.0) / 2000.0\<close>; the remainder is exact.\<close>

definition jitter_factor :: "nat \<Rightarrow> rat" where
  "jitter_factor nanos = f_add (1 / 2) (f_div (of_nat (nanos mod 1000)) 2000)"

definition backoff_ms :: "nat \<Rightarrow> nat \<Rightarrow> nat" where
  "backoff_ms attempt nanos = to_u64 (f_mul (of_u64 (500 * 2 ^ attempt)) (jitter_factor nanos))"

section \<open>Quality score\<close>

definition latency_factor :: "nat \<Rightarrow> rat" where
  "latency_factor ms = min (f_div 2000 (max (of_u64 ms) 100)) 1"

definition has_content :: "chat_response \<Rightarrow> bool" where
  "has_content r = (case cs_choices r of [] \<Rightarrow> False | c # _ \<Rightarrow> trim (cm_content (cc_message c)) \<noteq> [])"

definition token_ratio :: "usage \<Rightarrow> rat" where
  "token_ratio u =
     f_div (min (f_div (of_u64 (unat (u_completion_tokens u))) (of_u64 (unat (u_prompt_tokens u)))) 2) 2"

definition compute_quality_score :: "chat_response \<Rightarrow> nat \<Rightarrow> rat" where
  "compute_quality_score r ms =
     (let s1 = f_add 0 (latency_factor ms);
          (s2, n2) = (case cs_usage r of
                        Some u \<Rightarrow> if 0 < u_prompt_tokens u then (f_add s1 (token_ratio u), 2) else (s1, 1)
                      | None \<Rightarrow> (s1, 1 :: nat));
          s3 = f_add s2 (if has_content r then 1 else 0);
          n3 = n2 + 1
      in if 0 < n3 then f_div s3 (of_nat n3) else 0)"

definition active_tau :: "kernel_config \<Rightarrow> bytes option \<Rightarrow> bytes \<times> f64" where
  "active_tau cfg purpose =
     (if purpose \<in> {Some ''deploy'', Some ''production_deploy''} then (''deploy'', kc_tau_deploy cfg)
      else if purpose \<in> {Some ''production'', Some ''pipeline'', Some ''mermate_pipeline''}
        then (''production'', kc_tau_production cfg)
      else (''explore'', kc_tau_explore cfg))"

section \<open>Cascade\<close>

text \<open>The primary provider, then every provider whose name is not in the list yet.\<close>

fun extend_cascade :: "provider_config list \<Rightarrow> provider_config list \<Rightarrow> provider_config list" where
  "extend_cascade acc [] = acc"
| "extend_cascade acc (p # ps) =
     extend_cascade (if list_ex (\<lambda>c. pc_name c = pc_name p) acc then acc else acc @ [p]) ps"

definition cascade_of :: "provider_config \<Rightarrow> kernel_config \<Rightarrow> provider_config list" where
  "cascade_of primary cfg = extend_cascade [primary] (kc_providers cfg)"

text \<open>What the routing makes visible, in order: provider calls with their answer, events, the
  diagnostic lines on standard error, and the time it sleeps.\<close>

datatype action =
    Call (call_provider_name: bytes) (call_attempt: nat) (call_result: "bytes + chat_response")
  | Event runtime_event
  | QualityWarning bytes rat bytes f64
  | FailureNote bool bytes bytes nat nat bytes
  | ExhaustedNote bytes nat nat
  | Sleep nat

record 'w io =
  io_call :: "provider_config \<Rightarrow> chat_request \<Rightarrow> bytes \<Rightarrow> 'w \<Rightarrow> (bytes + chat_response) \<times> 'w"
  io_elapsed :: "'w \<Rightarrow> nat \<times> 'w"
  io_now :: "'w \<Rightarrow> bytes \<times> 'w"
  io_nanos :: "'w \<Rightarrow> nat \<times> 'w"

record route_state =
  rt_env :: run_envelope
  rt_actions :: "action list"
  rt_last_err :: bytes

definition act :: "action \<Rightarrow> route_state \<Rightarrow> route_state" where
  "act a s = s\<lparr>rt_actions := rt_actions s @ [a]\<rparr>"

definition act_event :: "bool \<Rightarrow> runtime_event \<Rightarrow> route_state \<Rightarrow> route_state" where
  "act_event enabled e s = (if enabled then act (Event e) s else s)"

definition max_retries_per :: nat where
  "max_retries_per = 2"

text \<open>The branch of a successful call.\<close>

definition on_success ::
  "bool \<Rightarrow> 'w io \<Rightarrow> kernel_config \<Rightarrow> chat_request \<Rightarrow> bytes \<Rightarrow> provider_config \<Rightarrow> chat_response
     \<Rightarrow> route_state \<Rightarrow> 'w \<Rightarrow> route_state \<times> 'w" where
  "on_success enabled io cfg req tid p resp s w =
     (let (ms, w1) = io_elapsed io w;
          (now, w2) = io_now io w1;
          s1 = s\<lparr>rt_env := (rt_env s)\<lparr>re_completed_at := Some now, re_latency_ms := Some (of_nat ms),
                   re_resolved_model := Some (cs_model resp), re_status := Completed\<rparr>\<rparr>;
          s2 = act_event enabled (InferenceCompleted tid (cs_model resp) (pc_name p) (of_nat ms)
                 (map_option u_total_tokens (cs_usage resp)) (cr_purpose req)) s1;
          quality = compute_quality_score resp ms;
          (tier, threshold) = active_tau cfg (cr_purpose req);
          passed = f64_ge (Fin quality) threshold;
          s3 = act_event enabled (QualityScored tid (pc_name p) (cs_model resp)
                 (f_div (f_round (f_mul quality 1000)) 1000) tier threshold passed (of_nat ms)) s2;
          s4 = (if passed then s3 else act (QualityWarning tid quality tier threshold) s3)
      in (s4, w2))"

text \<open>The bookkeeping of a failed call.\<close>

definition on_failure ::
  "bool \<Rightarrow> bytes \<Rightarrow> provider_config \<Rightarrow> nat \<Rightarrow> bytes \<Rightarrow> route_state \<Rightarrow> route_state" where
  "on_failure enabled tid p attempt e s =
     (let s1 = act_event enabled (ProviderFailed tid (pc_name p) e attempt) s;
          s2 = act (FailureNote (is_retryable e) tid (pc_name p) (attempt + 1) (max_retries_per + 1) e) s1
      in s2\<lparr>rt_last_err := e\<rparr>)"

text \<open>The attempts at one provider: \<open>n\<close> attempts are left, \<open>attempt\<close> is the next one's number.
  The result is the response that ends the routing, if there is one.\<close>

fun try_attempts ::
  "bool \<Rightarrow> 'w io \<Rightarrow> kernel_config \<Rightarrow> chat_request \<Rightarrow> bytes \<Rightarrow> provider_config \<Rightarrow> nat \<Rightarrow> nat
     \<Rightarrow> route_state \<Rightarrow> 'w \<Rightarrow> chat_response option \<times> route_state \<times> 'w" where
  "try_attempts enabled io cfg req tid p attempt 0 s w = (None, s, w)"
| "try_attempts enabled io cfg req tid p attempt (Suc n) s w =
     (let s0 = s\<lparr>rt_env := (rt_env s)\<lparr>re_retry_count := re_retry_count (rt_env s) + 1\<rparr>\<rparr>;
          (res, w1) = io_call io p req tid w;
          s1 = act (Call (pc_name p) attempt res) s0
      in case res of
           Inr resp \<Rightarrow>
             (let (s2, w2) = on_success enabled io cfg req tid p resp s1 w1 in (Some resp, s2, w2))
         | Inl e \<Rightarrow>
             (let s2 = on_failure enabled tid p attempt e s1
              in if \<not> is_retryable e \<or> max_retries_per \<le> attempt then (None, s2, w1)
                 else (let (nanos, w2) = io_nanos io w1 in
                       try_attempts enabled io cfg req tid p (Suc attempt) n
                         (act (Sleep (backoff_ms attempt nanos)) s2) w2)))"

fun try_cascade ::
  "bool \<Rightarrow> 'w io \<Rightarrow> kernel_config \<Rightarrow> chat_request \<Rightarrow> bytes \<Rightarrow> provider_config list
     \<Rightarrow> route_state \<Rightarrow> 'w \<Rightarrow> chat_response option \<times> route_state \<times> 'w" where
  "try_cascade enabled io cfg req tid [] s w = (None, s, w)"
| "try_cascade enabled io cfg req tid (p # ps) s w =
     (let s1 = s\<lparr>rt_env := (rt_env s)\<lparr>re_resolved_provider := Some (pc_name p), re_status := InFlight\<rparr>\<rparr>;
          s2 = act_event enabled (InferenceRequested tid (cr_model req) (pc_name p) (cr_purpose req)) s1;
          (out, s3, w3) = try_attempts enabled io cfg req tid p 0 (max_retries_per + 1) s2 w
      in case out of
           Some resp \<Rightarrow> (Some resp, s3, w3)
         | None \<Rightarrow> try_cascade enabled io cfg req tid ps s3 w3)"

definition no_provider_error :: "bytes \<Rightarrow> bytes" where
  "no_provider_error model = ''no provider for model: '' @ model"

definition route_inference ::
  "bool \<Rightarrow> 'w io \<Rightarrow> kernel_config \<Rightarrow> chat_request \<Rightarrow> bytes \<Rightarrow> 'w
     \<Rightarrow> (bytes + chat_response) \<times> route_state \<times> 'w" where
  "route_inference enabled io cfg req tid w =
     (let s0 = \<lparr>rt_env = new_envelope tid (cr_model req), rt_actions = [], rt_last_err = []\<rparr> in
      case resolve_provider (cr_model req) cfg of
        None \<Rightarrow> (Inl (no_provider_error (cr_model req)), s0, w)
      | Some primary \<Rightarrow>
          (let cascade = cascade_of primary cfg;
               (out, s1, w1) = try_cascade enabled io cfg req tid cascade s0 w
           in case out of
                Some resp \<Rightarrow> (Inr resp, s1, w1)
              | None \<Rightarrow>
                  (let (now, w2) = io_now io w1;
                       (ms, w3) = io_elapsed io w2;
                       s2 = s1\<lparr>rt_env := (rt_env s1)\<lparr>re_completed_at := Some now,
                              re_latency_ms := Some (of_nat ms), re_status := Failed (rt_last_err s1)\<rparr>\<rparr>;
                       (ms', w4) = io_elapsed io w3
                   in (Inl (rt_last_err s1), act (ExhaustedNote tid (length cascade) ms') s2, w4))))"

section \<open>Model list and its cache\<close>

record ollama_model =
  ol_name :: bytes
  ol_size :: "64 word"
  ol_family :: "bytes option"

definition list_models :: "kernel_config \<Rightarrow> model_entry list" where
  "list_models cfg =
     concat (map (\<lambda>p. map (\<lambda>m. \<lparr>me_id = m, me_provider = pc_name p\<rparr>) (pc_models p)) (kc_providers cfg))"

fun add_ollama :: "model_entry list \<Rightarrow> ollama_model list \<Rightarrow> model_entry list" where
  "add_ollama es [] = es"
| "add_ollama es (om # oms) =
     add_ollama (if list_ex (\<lambda>e. me_id e = ol_name om) es then es
                 else es @ [\<lparr>me_id = ol_name om, me_provider = ''ollama''\<rparr>]) oms"

text \<open>\<open>fetched\<close> is the answer of the Ollama tags request: its models, or an error.\<close>

definition build_model_list :: "kernel_config \<Rightarrow> bytes + ollama_model list \<Rightarrow> model_entry list" where
  "build_model_list cfg fetched =
     (case fetched of Inl _ \<Rightarrow> list_models cfg | Inr oms \<Rightarrow> add_ollama (list_models cfg) oms)"

record model_cache =
  mc_entries :: "model_entry list"
  mc_fetched_at :: nat

text \<open>Times are in nanoseconds of a monotonic clock.\<close>

definition model_cache_ttl :: nat where
  "model_cache_ttl = 60 * 10 ^ 9"

text \<open>The entries of a cache that is fresh at time \<open>t0\<close>.\<close>

definition cache_hit :: "model_cache option \<Rightarrow> nat \<Rightarrow> model_entry list option" where
  "cache_hit cache t0 =
     (case cache of
        Some c \<Rightarrow> if t0 - mc_fetched_at c < model_cache_ttl then Some (mc_entries c) else None
      | None \<Rightarrow> None)"

text \<open>
  One request for the list: \<open>t0\<close> is the clock at the look-up, \<open>t1\<close> at the store, and
  \<open>fetched\<close> what the tags request would answer.
\<close>

definition list_models_cached ::
  "kernel_config \<Rightarrow> model_cache option \<Rightarrow> nat \<Rightarrow> nat \<Rightarrow> bytes + ollama_model list
     \<Rightarrow> model_entry list \<times> model_cache option" where
  "list_models_cached cfg cache t0 t1 fetched =
     (case cache_hit cache t0 of
        Some es \<Rightarrow> (es, cache)
      | None \<Rightarrow>
          (let es = build_model_list cfg fetched in
           (es, Some \<lparr>mc_entries = es, mc_fetched_at = t1\<rparr>)))"

section \<open>What a routing run may do\<close>

text \<open>
  The contract of the cascade, over the list of calls alone.  \<open>attempt_run n a cs out\<close>: the calls
  \<open>cs\<close> to the provider named \<open>n\<close>, from attempt \<open>a\<close> on, with their answers; they end with the
  first response, with an error that is not worth a retry, or with the third attempt.
\<close>

type_synonym call = "bytes \<times> nat \<times> (bytes + chat_response)"

inductive attempt_run :: "bytes \<Rightarrow> nat \<Rightarrow> call list \<Rightarrow> chat_response option \<Rightarrow> bool" where
  answered: "attempt_run n a [(n, a, Inr r)] (Some r)"
| given_up: "\<not> is_retryable e \<or> max_retries_per \<le> a \<Longrightarrow> attempt_run n a [(n, a, Inl e)] None"
| retried: "is_retryable e \<Longrightarrow> a < max_retries_per \<Longrightarrow> attempt_run n (Suc a) cs out
     \<Longrightarrow> attempt_run n a ((n, a, Inl e) # cs) out"

inductive cascade_run :: "bytes list \<Rightarrow> call list \<Rightarrow> chat_response option \<Rightarrow> bool" where
  exhausted: "cascade_run [] [] None"
| hit: "attempt_run n 0 cs (Some r) \<Longrightarrow> cascade_run (n # ns) cs (Some r)"
| miss: "attempt_run n 0 cs None \<Longrightarrow> cascade_run ns cs' out \<Longrightarrow> cascade_run (n # ns) (cs @ cs') out"

inductive_cases cascade_run_ConsE: "cascade_run (n # ns) cs out"

fun calls_of :: "action list \<Rightarrow> call list" where
  "calls_of [] = []"
| "calls_of (Call n a r # as) = (n, a, r) # calls_of as"
| "calls_of (_ # as) = calls_of as"

lemma calls_of_append [simp]: "calls_of (xs @ ys) = calls_of xs @ calls_of ys"
  by (induction xs rule: calls_of.induct) auto

lemma act_simps [simp]:
  "rt_actions (act a s) = rt_actions s @ [a]" "rt_env (act a s) = rt_env s"
  "rt_last_err (act a s) = rt_last_err s"
  by (simp_all add: act_def)

lemma act_event_calls [simp]: "calls_of (rt_actions (act_event en e s)) = calls_of (rt_actions s)"
  by (simp add: act_event_def)

lemma act_event_last_err [simp]: "rt_last_err (act_event en e s) = rt_last_err s"
  by (simp add: act_event_def)

lemma on_success_calls:
  "on_success en io cfg req tid p resp s w = (s', w') \<Longrightarrow> calls_of (rt_actions s') = calls_of (rt_actions s)"
  by (auto simp: on_success_def Let_def split: prod.splits if_splits)

lemma attempt_run_not_Nil: "attempt_run n a cs out \<Longrightarrow> cs \<noteq> []"
  by (induction rule: attempt_run.induct) auto

lemma attempt_run_last:
  "attempt_run n a cs out \<Longrightarrow>
     (case out of Some r \<Rightarrow> snd (snd (last cs)) = Inr r | None \<Rightarrow> \<exists>e. snd (snd (last cs)) = Inl e)"
  by (induction rule: attempt_run.induct) (auto dest: attempt_run_not_Nil split: option.splits)

lemma on_failure_simps [simp]:
  "calls_of (rt_actions (on_failure en tid p a e s)) = calls_of (rt_actions s)"
  "rt_last_err (on_failure en tid p a e s) = e"
  by (simp_all add: on_failure_def Let_def)

text \<open>One turn of the retry loop, by what the call answers.\<close>

definition counted :: "provider_config \<Rightarrow> nat \<Rightarrow> bytes + chat_response \<Rightarrow> route_state \<Rightarrow> route_state" where
  "counted p a res s = act (Call (pc_name p) a res)
     (s\<lparr>rt_env := (rt_env s)\<lparr>re_retry_count := re_retry_count (rt_env s) + 1\<rparr>\<rparr>)"

lemma counted_calls [simp]:
  "calls_of (rt_actions (counted p a res s)) = calls_of (rt_actions s) @ [(pc_name p, a, res)]"
  by (simp add: counted_def)

lemma try_attempts_answered:
  assumes "io_call io p req tid w = (Inr r, w1)"
  shows "try_attempts en io cfg req tid p a (Suc n) s w =
    (let (s2, w2) = on_success en io cfg req tid p r (counted p a (Inr r) s) w1 in (Some r, s2, w2))"
  using assms by (simp add: counted_def Let_def)

lemma try_attempts_given_up:
  assumes "io_call io p req tid w = (Inl e, w1)" and "\<not> is_retryable e \<or> max_retries_per \<le> a"
  shows "try_attempts en io cfg req tid p a (Suc n) s w =
    (None, on_failure en tid p a e (counted p a (Inl e) s), w1)"
  using assms by (simp add: counted_def Let_def)

lemma try_attempts_retried:
  assumes "io_call io p req tid w = (Inl e, w1)" and "is_retryable e" and "a < max_retries_per"
    and "io_nanos io w1 = (t, w2)"
  shows "try_attempts en io cfg req tid p a (Suc n) s w =
    try_attempts en io cfg req tid p (Suc a) n
      (act (Sleep (backoff_ms a t)) (on_failure en tid p a e (counted p a (Inl e) s))) w2"
  using assms by (simp add: counted_def Let_def)

lemmas try_attempts_turn = try_attempts_answered try_attempts_given_up try_attempts_retried

declare try_attempts.simps(2) [simp del]

lemma try_attempts_run:
  assumes "try_attempts en io cfg req tid p a (Suc n) s w = (out, s', w')" and "a + n = max_retries_per"
  shows "\<exists>cs. calls_of (rt_actions s') = calls_of (rt_actions s) @ cs \<and> attempt_run (pc_name p) a cs out
    \<and> (out = None \<longrightarrow> snd (snd (last cs)) = Inl (rt_last_err s'))"
  using assms
proof (induction n arbitrary: a s w)
  case (0 a s w)
  obtain res w1 where res: "io_call io p req tid w = (res, w1)" by fastforce
  show ?case
  proof (cases res)
    case (Inl e)
    with 0 res show ?thesis
      by (intro exI [of _ "[(pc_name p, a, res)]"])
        (auto simp: try_attempts_given_up intro: attempt_run.given_up)
  next
    case (Inr r)
    with 0 res show ?thesis
      by (intro exI [of _ "[(pc_name p, a, res)]"])
        (auto simp: try_attempts_answered Let_def intro: attempt_run.answered dest!: on_success_calls
          split: prod.splits)
  qed
next
  case (Suc n a s w)
  obtain res w1 where res: "io_call io p req tid w = (res, w1)" by fastforce
  obtain t w2 where t: "io_nanos io w1 = (t, w2)" by fastforce
  have a: "a < max_retries_per" "Suc a + n = max_retries_per" using Suc.prems(2) by auto
  consider (ok) r where "res = Inr r" | (final) e where "res = Inl e" "\<not> is_retryable e"
    | (again) e where "res = Inl e" "is_retryable e" by (cases res) auto
  then show ?case
  proof cases
    case ok
    with Suc.prems res show ?thesis
      by (intro exI [of _ "[(pc_name p, a, res)]"])
        (auto simp: try_attempts_answered Let_def intro: attempt_run.answered dest!: on_success_calls
          split: prod.splits)
  next
    case final
    with Suc.prems res show ?thesis
      by (intro exI [of _ "[(pc_name p, a, res)]"])
        (auto simp: try_attempts_given_up intro: attempt_run.given_up)
  next
    case again
    let ?s = "act (Sleep (backoff_ms a t)) (on_failure en tid p a e (counted p a (Inl e) s))"
    have "try_attempts en io cfg req tid p (Suc a) (Suc n) ?s w2 = (out, s', w')"
      using Suc.prems(1) try_attempts_retried [OF res [unfolded again(1)] again(2) a(1) t] by simp
    from Suc.IH [OF this a(2)] obtain cs where cs:
      "calls_of (rt_actions s') = calls_of (rt_actions ?s) @ cs"
      "attempt_run (pc_name p) (Suc a) cs out" "out = None \<longrightarrow> snd (snd (last cs)) = Inl (rt_last_err s')"
      by blast
    with again a(1) show ?thesis
      by (intro exI [of _ "(pc_name p, a, Inl e) # cs"])
        (auto intro: attempt_run.retried dest: attempt_run_not_Nil)
  qed
qed

lemma try_cascade_run:
  assumes "try_cascade en io cfg req tid ps s w = (out, s', w')"
  shows "\<exists>cs. calls_of (rt_actions s') = calls_of (rt_actions s) @ cs
    \<and> cascade_run (map pc_name ps) cs out
    \<and> (out = None \<longrightarrow> rt_last_err s' = (if ps = [] then rt_last_err s else projl (snd (snd (last cs))))
        \<and> (ps \<noteq> [] \<longrightarrow> cs \<noteq> [] \<and> isl (snd (snd (last cs)))))"
  using assms
proof (induction ps arbitrary: s w)
  case Nil
  then show ?case by (auto intro: cascade_run.exhausted)
next
  case (Cons p ps)
  define s2 where "s2 = act_event en (InferenceRequested tid (cr_model req) (pc_name p) (cr_purpose req))
    (s\<lparr>rt_env := (rt_env s)\<lparr>re_resolved_provider := Some (pc_name p), re_status := InFlight\<rparr>\<rparr>)"
  obtain out1 s3 w3 where t: "try_attempts en io cfg req tid p 0 (Suc max_retries_per) s2 w = (out1, s3, w3)"
    by (metis prod_cases3)
  obtain cs1 where cs1: "calls_of (rt_actions s3) = calls_of (rt_actions s) @ cs1"
    "attempt_run (pc_name p) 0 cs1 out1" "out1 = None \<longrightarrow> snd (snd (last cs1)) = Inl (rt_last_err s3)"
    using try_attempts_run [OF t] by (auto simp: s2_def)
  have step: "try_cascade en io cfg req tid (p # ps) s w =
      (case out1 of Some resp \<Rightarrow> (Some resp, s3, w3) | None \<Rightarrow> try_cascade en io cfg req tid ps s3 w3)"
    using t by (simp add: Let_def s2_def)
  show ?case
  proof (cases out1)
    case (Some r)
    with Cons.prems step cs1 show ?thesis
      by (intro exI [of _ cs1]) (auto intro: cascade_run.hit)
  next
    case None
    with Cons.prems step have "try_cascade en io cfg req tid ps s3 w3 = (out, s', w')" by simp
    from Cons.IH [OF this] obtain cs2 where cs2: "calls_of (rt_actions s') = calls_of (rt_actions s3) @ cs2"
      "cascade_run (map pc_name ps) cs2 out"
      "out = None \<longrightarrow> rt_last_err s' = (if ps = [] then rt_last_err s3 else projl (snd (snd (last cs2))))
        \<and> (ps \<noteq> [] \<longrightarrow> cs2 \<noteq> [] \<and> isl (snd (snd (last cs2))))" by blast
    have emp: "ps = [] \<Longrightarrow> cs2 = []" using cs2(2) by (auto elim: cascade_run.cases)
    have "cs1 \<noteq> []" using cs1(2) by (rule attempt_run_not_Nil)
    moreover have "cascade_run (map pc_name (p # ps)) (cs1 @ cs2) out"
      using cascade_run.miss [OF _ cs2(2)] cs1(2) None by simp
    ultimately show ?thesis using None cs1 cs2 emp
      by (intro exI [of _ "cs1 @ cs2"]) auto
  qed
qed


section \<open>The cascade and the number of calls\<close>

lemma named_in: "list_ex (\<lambda>c. pc_name c = n) acc \<longleftrightarrow> n \<in> set (map pc_name acc)"
  by (auto simp: list_ex_iff)

lemma extend_cascade_names:
  "set (map pc_name (extend_cascade acc ps)) = set (map pc_name acc) \<union> set (map pc_name ps)"
proof (induction ps arbitrary: acc)
  case (Cons p ps)
  then show ?case by (cases "pc_name p \<in> set (map pc_name acc)") (simp_all add: named_in insert_absorb)
qed simp

lemma extend_cascade_distinct:
  "distinct (map pc_name acc) \<Longrightarrow> distinct (map pc_name (extend_cascade acc ps))"
proof (induction ps arbitrary: acc)
  case (Cons p ps)
  then show ?case by (cases "pc_name p \<in> set (map pc_name acc)") (simp_all add: named_in)
qed simp

lemma extend_cascade_hd: "acc \<noteq> [] \<Longrightarrow> extend_cascade acc ps \<noteq> [] \<and> hd (extend_cascade acc ps) = hd acc"
  by (induction acc ps rule: extend_cascade.induct) auto

lemma cascade_of_not_Nil [simp]: "cascade_of p cfg \<noteq> []"
  using extend_cascade_hd [of "[p]"] by (simp add: cascade_of_def)

lemma attempt_run_length: "attempt_run n a cs out \<Longrightarrow> a \<le> max_retries_per \<Longrightarrow> length cs + a \<le> max_retries_per + 1"
  by (induction rule: attempt_run.induct) auto

lemma attempt_run_names: "attempt_run n a cs out \<Longrightarrow> fst ` set cs = {n}"
  by (induction rule: attempt_run.induct) auto

lemma cascade_run_length: "cascade_run ns cs out \<Longrightarrow> length cs \<le> 3 * length ns"
proof (induction rule: cascade_run.induct)
  case (hit n cs r ns)
  from attempt_run_length [OF hit] show ?case by (simp add: max_retries_per_def)
next
  case (miss n cs ns cs' out)
  from attempt_run_length [OF miss(1)] miss(3) show ?case by (simp add: max_retries_per_def)
qed simp

lemma cascade_run_Some_last: "cascade_run ns cs (Some r) \<Longrightarrow> cs \<noteq> [] \<and> snd (snd (last cs)) = Inr r"
proof (induction ns cs "Some r" rule: cascade_run.induct)
  case (hit n cs ns)
  with attempt_run_last [OF hit] attempt_run_not_Nil [OF hit] show ?case by simp
qed simp

lemma cascade_run_out: "cascade_run ns cs out \<Longrightarrow>
  (case out of Some r \<Rightarrow> True | None \<Rightarrow> fst ` set cs = set ns)"
proof (induction rule: cascade_run.induct)
  case (miss n cs ns cs' out)
  from miss(3) attempt_run_names [OF miss(1)] show ?case by (simp add: image_Un split: option.splits)
qed simp_all

section \<open>The run envelope\<close>

lemma act_event_env [simp]: "rt_env (act_event en e s) = rt_env s"
  by (simp add: act_event_def)

text \<open>The envelope counts the calls; \<open>Completed\<close> comes with the first response.\<close>

definition counts_calls :: "route_state \<Rightarrow> bool" where
  "counts_calls s = (re_retry_count (rt_env s) = of_nat (length (calls_of (rt_actions s))))"

lemma counts_calls_counted [simp]: "counts_calls s \<Longrightarrow> counts_calls (counted p a res s)"
  by (simp add: counts_calls_def counted_def)

lemma counts_calls_on_failure [simp]: "counts_calls (on_failure en tid p a e s) = counts_calls s"
  by (simp add: counts_calls_def on_failure_def Let_def)

lemma counts_calls_act [simp]: "calls_of [x] = [] \<Longrightarrow> counts_calls (act x s) = counts_calls s"
  by (simp add: counts_calls_def)

lemma on_success_env:
  "on_success en io cfg req tid p r s w = (s', w') \<Longrightarrow> counts_calls s \<Longrightarrow>
     counts_calls s' \<and> re_status (rt_env s') = Completed \<and> re_resolved_model (rt_env s') = Some (cs_model r)"
  by (frule on_success_calls)
    (auto simp: on_success_def Let_def counts_calls_def split: prod.splits if_splits)

lemma try_attempts_counts:
  assumes "try_attempts en io cfg req tid p a n s w = (out, s', w')" and "counts_calls s"
  shows "counts_calls s' \<and>
    (\<forall>r. out = Some r \<longrightarrow> re_status (rt_env s') = Completed \<and> re_resolved_model (rt_env s') = Some (cs_model r))"
  using assms
proof (induction n arbitrary: a s w)
  case (Suc n a s w)
  obtain res w1 where res: "io_call io p req tid w = (res, w1)" by fastforce
  obtain t w2 where t: "io_nanos io w1 = (t, w2)" by fastforce
  consider (ok) r where "res = Inr r" | (final) e where "res = Inl e" "\<not> is_retryable e \<or> max_retries_per \<le> a"
    | (again) e where "res = Inl e" "is_retryable e" "a < max_retries_per"
    by (cases res) (auto simp: not_le intro: leI)
  then show ?case
  proof cases
    case ok
    with Suc.prems res show ?thesis
      by (auto simp: try_attempts_answered dest: on_success_env split: prod.splits)
  next
    case final
    with Suc.prems res show ?thesis by (auto simp: try_attempts_given_up)
  next
    case again
    with Suc.prems(1) try_attempts_retried [OF res [unfolded again(1)] again(2,3) t]
    have "try_attempts en io cfg req tid p (Suc a) n
      (act (Sleep (backoff_ms a t)) (on_failure en tid p a e (counted p a (Inl e) s))) w2 = (out, s', w')" by simp
    from Suc.IH [OF this] Suc.prems(2) show ?thesis by simp
  qed
qed simp

lemma try_cascade_counts:
  assumes "try_cascade en io cfg req tid ps s w = (out, s', w')" and "counts_calls s"
  shows "counts_calls s' \<and>
    (\<forall>r. out = Some r \<longrightarrow> re_status (rt_env s') = Completed \<and> re_resolved_model (rt_env s') = Some (cs_model r))"
  using assms
proof (induction ps arbitrary: s w)
  case (Cons p ps s w)
  define s2 where "s2 = act_event en (InferenceRequested tid (cr_model req) (pc_name p) (cr_purpose req))
    (s\<lparr>rt_env := (rt_env s)\<lparr>re_resolved_provider := Some (pc_name p), re_status := InFlight\<rparr>\<rparr>)"
  have c: "counts_calls s2" using Cons.prems(2) by (simp add: s2_def counts_calls_def)
  obtain out1 s3 w3 where t: "try_attempts en io cfg req tid p 0 (Suc max_retries_per) s2 w = (out1, s3, w3)"
    by (metis prod_cases3)
  have "try_cascade en io cfg req tid (p # ps) s w =
      (case out1 of Some resp \<Rightarrow> (Some resp, s3, w3) | None \<Rightarrow> try_cascade en io cfg req tid ps s3 w3)"
    using t by (simp add: Let_def s2_def)
  with Cons.prems(1) try_attempts_counts [OF t c] Cons.IH [of s3 w3] show ?case
    by (cases out1) auto
qed simp

section \<open>Bounds of the numeric helpers\<close>

lemma half_representable: "rnd (1 / 2) = 1 / 2"
proof -
  have "\<lceil>(2::rat)\<rceil> = 2" by simp
  moreover have "floorlog 2 (Suc 0) = 1" by (simp add: floorlog_def)
  ultimately have "ilog2 (1 / 2) = - 1" by (simp add: ilog2_def)
  then have "ulp (1 / 2) = 2 powi (- 53)" by (simp add: ulp_def)
  then have "(1 / 2) / ulp (1 / 2) = of_int (2 ^ 52)" by (simp only: power_int_minus) simp
  then show ?thesis by (intro rnd_exact) auto
qed

lemma jitter_factor_bounds: "1 / 2 \<le> jitter_factor nanos" "jitter_factor nanos \<le> 1"
proof -
  let ?d = "f_div (of_nat (nanos mod 1000)) 2000"
  have m: "(of_nat (nanos mod 1000) :: rat) / 2000 \<le> 1 / 2"
  proof -
    have "nanos mod 1000 \<le> 1000" using pos_mod_bound by (simp add: less_imp_le)
    then have "(of_nat (nanos mod 1000) :: rat) \<le> of_nat 1000" by (simp only: of_nat_le_iff)
    then show ?thesis by simp
  qed
  have d: "0 \<le> ?d" "?d \<le> 1 / 2"
    using rnd_mono [OF m] by (simp_all add: f_div_def half_representable)
  show "1 / 2 \<le> jitter_factor nanos"
    using rnd_mono [of "1 / 2" "1 / 2 + ?d"] d by (simp add: jitter_factor_def f_add_def half_representable)
  have "1 / 2 + ?d \<le> of_nat 1" using d by simp
  from rnd_le_of_nat [OF this] show "jitter_factor nanos \<le> 1"
    by (simp add: jitter_factor_def f_add_def)
qed

lemma unit_interval_div:
  assumes "0 \<le> x" "x \<le> of_nat n" "n < 2 ^ 53" "0 < n"
  shows "0 \<le> f_div x (of_nat n)" "f_div x (of_nat n) \<le> 1"
proof -
  show "0 \<le> f_div x (of_nat n)" by (simp add: f_div_def)
  have "x / of_nat n \<le> of_nat 1" using assms(2,4) by (simp add: pos_divide_le_eq)
  from rnd_le_of_nat [OF this] show "f_div x (of_nat n) \<le> 1" by (simp add: f_div_def)
qed

lemma f_add_le: "x \<le> of_nat a \<Longrightarrow> y \<le> of_nat b \<Longrightarrow> a + b < 2 ^ 53 \<Longrightarrow> f_add x y \<le> of_nat (a + b)"
  unfolding f_add_def by (rule rnd_le_of_nat) auto

lemma f_add_nonneg [simp]: "0 \<le> f_add x y"
  by (simp add: f_add_def)

lemma latency_factor_bounds: "0 \<le> latency_factor ms" "latency_factor ms \<le> 1"
  by (simp_all add: latency_factor_def f_div_def)

lemma token_ratio_bounds: "0 \<le> token_ratio u" "token_ratio u \<le> 1"
proof -
  let ?m = "min (f_div (of_u64 (unat (u_completion_tokens u))) (of_u64 (unat (u_prompt_tokens u)))) 2"
  have "0 \<le> ?m" "?m \<le> of_nat 2" by (simp_all add: f_div_def)
  from unit_interval_div [OF this] show "0 \<le> token_ratio u" "token_ratio u \<le> 1"
    by (simp_all add: token_ratio_def)
qed

lemma quality_sum_bounds:
  assumes "x \<le> of_nat a" "0 < a" "a \<le> 2"
  shows "0 \<le> f_div (f_add x (if c then 1 else 0)) (of_nat (a + 1))"
    "f_div (f_add x (if c then 1 else 0)) (of_nat (a + 1)) \<le> 1"
proof -
  have c: "(if c then 1 else 0) \<le> (of_nat 1 :: rat)" by simp
  have "a + 1 < 2 ^ 53" using assms(3) by simp
  from unit_interval_div [OF f_add_nonneg f_add_le [OF assms(1) c this] this]
  show "0 \<le> f_div (f_add x (if c then 1 else 0)) (of_nat (a + 1))"
    "f_div (f_add x (if c then 1 else 0)) (of_nat (a + 1)) \<le> 1" by simp_all
qed

section \<open>The run of the cascade behind a routed request\<close>

lemma cascade_run_names: "cascade_run ns cs out \<Longrightarrow> fst ` set cs \<subseteq> set ns"
  by (induction rule: cascade_run.induct) (auto dest: attempt_run_names)

lemma route_inference_run:
  assumes "route_inference en io cfg req tid w = (res, s', w')" and "resolve_provider (cr_model req) cfg = Some primary"
  shows "calls_of (rt_actions s') \<noteq> [] \<and> res = snd (snd (last (calls_of (rt_actions s'))))
    \<and> cascade_run (map pc_name (cascade_of primary cfg)) (calls_of (rt_actions s'))
        (case res of Inr r \<Rightarrow> Some r | Inl e \<Rightarrow> None)"
proof -
  define s0 where "s0 = \<lparr>rt_env = new_envelope tid (cr_model req), rt_actions = [], rt_last_err = []\<rparr>"
  obtain out s1 w1 where t: "try_cascade en io cfg req tid (cascade_of primary cfg) s0 w = (out, s1, w1)"
    by (metis prod_cases3)
  from try_cascade_run [OF t] obtain cs where cs: "calls_of (rt_actions s1) = cs"
    "cascade_run (map pc_name (cascade_of primary cfg)) cs out"
    "out = None \<Longrightarrow> rt_last_err s1 = projl (snd (snd (last cs))) \<and> cs \<noteq> [] \<and> isl (snd (snd (last cs)))"
    by (auto simp: s0_def)
  show ?thesis
  proof (cases out)
    case None
    from None cs(3) have "snd (snd (last cs)) = Inl (rt_last_err s1)" "cs \<noteq> []" by simp_all
    moreover from None t assms have "res = Inl (rt_last_err s1)" "calls_of (rt_actions s') = calls_of (rt_actions s1)"
      by (auto simp: route_inference_def Let_def s0_def [symmetric] split: prod.splits)
    ultimately show ?thesis using None cs(1,2) by simp
  next
    case (Some r)
    with cs(2) cascade_run_Some_last have "cs \<noteq> []" "snd (snd (last cs)) = Inr r" by metis+
    moreover from Some t assms have "res = Inr r" "s' = s1"
      by (auto simp: route_inference_def Let_def s0_def [symmetric] split: prod.splits)
    ultimately show ?thesis using Some cs(1,2) by simp
  qed
qed

section \<open>What the router relies on\<close>

text \<open>
  The contract of \<open>providers::call_provider\<close>: an error names the provider it comes from, a
  response is stamped with the provider and with the trace of the request.
\<close>

definition good_call :: "bytes \<Rightarrow> call \<Rightarrow> bool" where
  "good_call tid c = (case c of (n, a, res) \<Rightarrow>
     (case res of Inl e \<Rightarrow> prefix (n @ '': '') e
      | Inr r \<Rightarrow> om_provider (cs_opseeq r) = n \<and> om_trace_id (cs_opseeq r) = tid))"

locale provider_calls =
  fixes call :: "provider_config \<Rightarrow> chat_request \<Rightarrow> bytes \<Rightarrow> 'w \<Rightarrow> (bytes + chat_response) \<times> 'w"
  assumes error_named: "fst (call p req tid w) = Inl e \<Longrightarrow> prefix (pc_name p @ '': '') e"
    and response_stamped: "fst (call p req tid w) = Inr r \<Longrightarrow>
      om_provider (cs_opseeq r) = pc_name p \<and> om_trace_id (cs_opseeq r) = tid"
begin

lemma call_good: "call p req tid w = (res, w1) \<Longrightarrow> good_call tid (pc_name p, a, res)"
  using error_named [of p req tid w] response_stamped [of p req tid w]
  by (auto simp: good_call_def split: sum.splits)

lemma attempts_good:
  assumes "try_attempts en io cfg req tid p a n s w = (out, s', w')" and "io_call io = call"
    and "list_all (good_call tid) (calls_of (rt_actions s))"
  shows "list_all (good_call tid) (calls_of (rt_actions s'))"
  using assms
proof (induction n arbitrary: a s w)
  case (Suc n a s w)
  obtain res w1 where res: "io_call io p req tid w = (res, w1)" by fastforce
  obtain t w2 where t: "io_nanos io w1 = (t, w2)" by fastforce
  have good: "good_call tid (pc_name p, a, res)" using res Suc.prems(2) call_good by simp
  consider (ok) r where "res = Inr r" | (final) e where "res = Inl e" "\<not> is_retryable e \<or> max_retries_per \<le> a"
    | (again) e where "res = Inl e" "is_retryable e" "a < max_retries_per"
    by (cases res) (auto simp: not_le intro: leI)
  then show ?case
  proof cases
    case ok
    with Suc.prems res good show ?thesis
      by (auto simp: try_attempts_answered dest!: on_success_calls split: prod.splits)
  next
    case final
    with Suc.prems res good show ?thesis by (auto simp: try_attempts_given_up)
  next
    case again
    with Suc.prems(1) try_attempts_retried [OF res [unfolded again(1)] again(2,3) t]
    have "try_attempts en io cfg req tid p (Suc a) n
      (act (Sleep (backoff_ms a t)) (on_failure en tid p a e (counted p a (Inl e) s))) w2 = (out, s', w')" by simp
    from Suc.IH [OF this Suc.prems(2)] Suc.prems(3) good again(1) show ?thesis by simp
  qed
qed simp

lemma cascade_good:
  assumes "try_cascade en io cfg req tid ps s w = (out, s', w')" and "io_call io = call"
    and "list_all (good_call tid) (calls_of (rt_actions s))"
  shows "list_all (good_call tid) (calls_of (rt_actions s'))"
  using assms
proof (induction ps arbitrary: s w)
  case (Cons p ps s w)
  define s2 where "s2 = act_event en (InferenceRequested tid (cr_model req) (pc_name p) (cr_purpose req))
    (s\<lparr>rt_env := (rt_env s)\<lparr>re_resolved_provider := Some (pc_name p), re_status := InFlight\<rparr>\<rparr>)"
  have c: "list_all (good_call tid) (calls_of (rt_actions s2))" using Cons.prems(3) by (simp add: s2_def)
  obtain out1 s3 w3 where t: "try_attempts en io cfg req tid p 0 (Suc max_retries_per) s2 w = (out1, s3, w3)"
    by (metis prod_cases3)
  have "try_cascade en io cfg req tid (p # ps) s w =
      (case out1 of Some resp \<Rightarrow> (Some resp, s3, w3) | None \<Rightarrow> try_cascade en io cfg req tid ps s3 w3)"
    using t by (simp add: Let_def s2_def)
  with Cons.prems attempts_good [OF t Cons.prems(2) c] Cons.IH [of s3 w3] show ?case
    by (cases out1) auto
qed simp

lemma route_good:
  assumes "route_inference en io cfg req tid w = (res, s', w')" and "io_call io = call"
  shows "list_all (good_call tid) (calls_of (rt_actions s'))"
proof (cases "resolve_provider (cr_model req) cfg")
  case None
  with assms show ?thesis by (auto simp: route_inference_def)
next
  case (Some primary)
  define s0 where "s0 = \<lparr>rt_env = new_envelope tid (cr_model req), rt_actions = [], rt_last_err = []\<rparr>"
  obtain out s1 w1 where t: "try_cascade en io cfg req tid (cascade_of primary cfg) s0 w = (out, s1, w1)"
    by (metis prod_cases3)
  have "list_all (good_call tid) (calls_of (rt_actions s1))"
    using cascade_good [OF t assms(2)] by (simp add: s0_def)
  with t Some assms(1) show ?thesis
    by (cases out) (auto simp: route_inference_def Let_def s0_def [symmetric] split: prod.splits)
qed

end

section \<open>Properties\<close>

text \<open>Claim C1: Routing one request performs exactly a run of the cascade contract: the
  providers of the cascade in order, each with at most three numbered attempts that stop at the
  first response and at the first error not worth a retry.  It answers with the response of the
  last call, or, when the cascade is exhausted, with the error of the last call; with no
  provider at all it makes no call and says so.\<close>

theorem route_inference_runs_cascade:
  "case route_inference en io cfg req tid w of (res, s', w') \<Rightarrow>
     (case resolve_provider (cr_model req) cfg of
        None \<Rightarrow> res = Inl (no_provider_error (cr_model req)) \<and> calls_of (rt_actions s') = [] \<and> w' = w
      | Some primary \<Rightarrow>
          (\<exists>cs out. cs = calls_of (rt_actions s') \<and> cs \<noteq> [] \<and> res = snd (snd (last cs)) \<and>
             cascade_run (map pc_name (cascade_of primary cfg)) cs out \<and>
             out = (case res of Inr r \<Rightarrow> Some r | Inl e \<Rightarrow> None)))"
proof -
  obtain res s' w' where r: "route_inference en io cfg req tid w = (res, s', w')" by (metis prod_cases3)
  show ?thesis
  proof (cases "resolve_provider (cr_model req) cfg")
    case None
    then show ?thesis by (simp add: route_inference_def)
  next
    case (Some primary)
    note run = route_inference_run [OF r Some]
    then have "res = snd (snd (last (calls_of (rt_actions s'))))" by simp
    with run r Some show ?thesis by (simp only: prod.case option.case) blast
  qed
qed

text \<open>Claim C17: The run envelope is kept in step with the run: its retry counter is the number of
  provider calls made, and its final status is \<open>Completed\<close> with the model of the response when
  the routing answers, \<open>Failed\<close> with the returned error when the cascade is exhausted, and
  \<open>Pending\<close> when no provider was found.\<close>

theorem route_inference_envelope:
  "case route_inference en io cfg req tid w of (res, s', w') \<Rightarrow>
     re_retry_count (rt_env s') = of_nat (length (calls_of (rt_actions s'))) \<and>
     re_status (rt_env s') =
       (case res of Inr _ \<Rightarrow> Completed
        | Inl e \<Rightarrow> if resolve_provider (cr_model req) cfg = None then Pending else Failed e) \<and>
     re_resolved_model (rt_env s') = (case res of Inr r \<Rightarrow> Some (cs_model r) | Inl _ \<Rightarrow> re_resolved_model (rt_env s'))"
proof (cases "resolve_provider (cr_model req) cfg")
  case None
  then show ?thesis by (simp add: route_inference_def new_envelope_def)
next
  case (Some primary)
  define s0 where "s0 = \<lparr>rt_env = new_envelope tid (cr_model req), rt_actions = [], rt_last_err = []\<rparr>"
  obtain out s1 w1 where t: "try_cascade en io cfg req tid (cascade_of primary cfg) s0 w = (out, s1, w1)"
    by (metis prod_cases3)
  have "counts_calls s0" by (simp add: s0_def counts_calls_def new_envelope_def)
  with try_cascade_counts [OF t] have "counts_calls s1"
    and "\<And>r. out = Some r \<Longrightarrow> re_status (rt_env s1) = Completed \<and> re_resolved_model (rt_env s1) = Some (cs_model r)"
    by auto
  with t Some show ?thesis
    by (cases out) (auto simp: route_inference_def Let_def s0_def [symmetric] counts_calls_def split: prod.splits)
qed

text \<open>Claim C22: The cascade starts with the resolved provider, lists no provider name twice and
  leaves no configured provider name out.\<close>

theorem cascade_of_complete:
  "hd (cascade_of primary cfg) = primary \<and> distinct (map pc_name (cascade_of primary cfg)) \<and>
   set (map pc_name (cascade_of primary cfg)) = insert (pc_name primary) (pc_name ` set (kc_providers cfg))"
  using extend_cascade_hd [of "[primary]"] extend_cascade_names [of "[primary]"]
    extend_cascade_distinct [of "[primary]"]
  by (simp add: cascade_of_def)


text \<open>The sleep before a retry is the base delay of 500 ms doubled per attempt, scaled by
  a jitter that, after all floating-point roundings, stays between one half and one: it lies
  between \<open>250 * 2^attempt\<close> and \<open>500 * 2^attempt\<close> milliseconds for every attempt below 40.\<close>

theorem backoff_ms_bounds:
  assumes "attempt < 40"
  shows "250 * 2 ^ attempt \<le> backoff_ms attempt nanos \<and> backoff_ms attempt nanos \<le> 500 * 2 ^ attempt"
proof -
  let ?n = "500 * 2 ^ attempt :: nat" and ?j = "jitter_factor nanos"
  have "(2::nat) ^ attempt \<le> 2 ^ 39" using assms by (intro power_increasing) auto
  then have small: "?n < 2 ^ 53" "250 * 2 ^ attempt < (2::nat) ^ 53" by simp_all
  have n: "of_u64 ?n = of_nat ?n" using rnd_of_nat [OF small(1)] by (simp only: of_u64_def)
  have "of_nat ?n * (1 / 2) \<le> of_nat ?n * ?j" "of_nat ?n * ?j \<le> of_nat ?n * 1"
    using jitter_factor_bounds [of nanos] by (intro mult_left_mono; simp)+
  then have "of_nat (250 * 2 ^ attempt) \<le> of_nat ?n * ?j" "of_nat ?n * ?j \<le> of_nat ?n" by simp_all
  then have "of_nat (250 * 2 ^ attempt) \<le> f_mul (of_u64 ?n) ?j" "f_mul (of_u64 ?n) ?j \<le> of_nat ?n"
    unfolding f_mul_def n using small by (auto intro: of_nat_le_rnd rnd_le_of_nat simp del: of_nat_mult of_nat_power)
  then have "int (250 * 2 ^ attempt) \<le> \<lfloor>f_mul (of_u64 ?n) ?j\<rfloor>" "\<lfloor>f_mul (of_u64 ?n) ?j\<rfloor> \<le> int ?n"
    by (simp_all add: le_floor_iff floor_le_iff del: of_nat_mult of_nat_power)
  from this [THEN nat_mono] show ?thesis
    by (simp add: backoff_ms_def to_u64_def del: of_nat_mult of_nat_power)
qed

lemma backoff_ms_bounds_witness: "250 * 2 ^ 2 \<le> backoff_ms 2 123456789 \<and> backoff_ms 2 123456789 \<le> 500 * 2 ^ 2"
  using backoff_ms_bounds [of 2 123456789] by simp

text \<open>The quality score of any response at any latency is a number between 0 and 1, so a
  finite threshold above 1 can never be met, and a threshold that is not a number is never met.\<close>

theorem quality_score_unit_interval:
  "0 \<le> compute_quality_score r ms \<and> compute_quality_score r ms \<le> 1 \<and>
   \<not> f64_ge (Fin (compute_quality_score r ms)) NaN"
proof -
  have l: "f_add 0 (latency_factor ms) \<le> of_nat 1"
    using f_add_le [of 0 0 "latency_factor ms" 1] latency_factor_bounds by simp
  have u: "f_add (f_add 0 (latency_factor ms)) (token_ratio us) \<le> of_nat 2" for us
    using f_add_le [OF l, of "token_ratio us" 1] token_ratio_bounds by simp
  have "compute_quality_score r ms = f_div (f_add (f_add 0 (latency_factor ms)) (if has_content r then 1 else 0)) (of_nat (1 + 1))
     \<or> (\<exists>us. compute_quality_score r ms = f_div (f_add (f_add (f_add 0 (latency_factor ms)) (token_ratio us))
          (if has_content r then 1 else 0)) (of_nat (2 + 1)))"
    by (cases "cs_usage r") (auto simp: compute_quality_score_def Let_def)
  then have "0 \<le> compute_quality_score r ms \<and> compute_quality_score r ms \<le> 1"
    using quality_sum_bounds [OF l] quality_sum_bounds [OF u] by fastforce
  then show ?thesis by simp
qed

text \<open>Under a configuration built by \<open>load_config\<close> the constant-time resolution through the
  model map gives what a linear scan gives: the first provider in priority order that lists the
  model; else the first one that lists some model starting with the vendor prefix; else the first
  provider; and nothing only when no provider is configured.\<close>

theorem resolve_provider_scan:
  "resolve_provider model (load_config pf env) =
     (let ps = kc_providers (load_config pf env) in
      case find (\<lambda>p. model \<in> set (pc_models p)) ps of
        Some p \<Rightarrow> Some p
      | None \<Rightarrow>
          (case find (\<lambda>p. model_prefix model \<noteq> [] \<and> list_ex (prefix (model_prefix model)) (pc_models p)) ps of
             Some p \<Rightarrow> Some p
           | None \<Rightarrow> if ps = [] then None else Some (hd ps)))"
proof -
  let ?ps = "kc_providers (load_config pf env)"
  show ?thesis
  proof (cases "kc_model_map (load_config pf env) model")
    case (Some i)
    then have f: "i < length ?ps" "model \<in> set (pc_models (?ps ! i))" "\<forall>j<i. model \<notin> set (pc_models (?ps ! j))"
      by (auto simp: load_config_model_map first_listing_def)
    then have "find (\<lambda>p. model \<in> set (pc_models p)) ?ps = Some (?ps ! i)"
      by (subst find_Some_iff) blast
    with Some f show ?thesis by (simp add: resolve_provider_def Let_def)
  next
    case None
    have "find (\<lambda>p. model \<in> set (pc_models p)) ?ps = None"
    proof (rule ccontr)
      assume "find (\<lambda>p. model \<in> set (pc_models p)) ?ps \<noteq> None"
      then obtain p where "find (\<lambda>p. model \<in> set (pc_models p)) ?ps = Some p" by blast
      then obtain i where "first_listing ?ps model i"
        by (auto simp: find_Some_iff first_listing_def)
      with None load_config_model_map [of pf env model i] show False by simp
    qed
    with None show ?thesis
      by (simp add: resolve_provider_def Let_def split: list.splits option.splits)
  qed
qed

text \<open>The model list never shows an Ollama model under an identifier a configured provider
  already lists, keeps the configured entries first and in order, and shows each Ollama identifier
  at most once; an answer served from the cache is less than 60 seconds old.\<close>

theorem list_models_cached_fresh:
  "(case list_models_cached cfg cache t0 t1 fetched of (es, cache') \<Rightarrow>
      (\<exists>c. cache' = Some c \<and> es = mc_entries c \<and>
         (if cache' = cache \<and> t0 - mc_fetched_at c < model_cache_ttl then True
          else mc_fetched_at c = t1 \<and> (\<exists>extra. es = list_models cfg @ extra \<and>
            distinct (map me_id extra) \<and> set (map me_id extra) \<inter> set (map me_id (list_models cfg)) = {}))))"
proof -
  have add: "\<exists>extra. add_ollama es oms = es @ extra \<and> distinct (map me_id extra)
      \<and> set (map me_id extra) \<inter> set (map me_id es) = {}" for es oms
  proof (induction oms arbitrary: es)
    case (Cons om oms)
    show ?case
    proof (cases "list_ex (\<lambda>e. me_id e = ol_name om) es")
      case True
      with Cons [of es] show ?thesis by simp
    next
      case False
      let ?e = "\<lparr>me_id = ol_name om, me_provider = ''ollama''\<rparr>"
      from Cons [of "es @ [?e]"] obtain extra where
        "add_ollama (es @ [?e]) oms = (es @ [?e]) @ extra" "distinct (map me_id extra)"
        "set (map me_id extra) \<inter> set (map me_id (es @ [?e])) = {}" by blast
      with False show ?thesis by (intro exI [of _ "?e # extra"]) (auto simp: list_ex_iff)
    qed
  qed simp
  have "\<exists>extra. build_model_list cfg fetched = list_models cfg @ extra \<and> distinct (map me_id extra)
      \<and> set (map me_id extra) \<inter> set (map me_id (list_models cfg)) = {}"
    using add [of "list_models cfg"] by (simp add: build_model_list_def split: sum.splits)
  then show ?thesis
    by (auto simp: list_models_cached_def cache_hit_def Let_def split: option.splits)
qed

end
