(* ===== verification/Kernel_Providers.thy ===== *)
theory Kernel_Providers
  imports Kernel_Router
begin

text \<open>
  The provider back-ends (\<open>engine/src/providers/\<close>): the request each one posts, how it reads the
  answer, and \<open>call_provider\<close>, which picks one and stamps its result.  The HTTP client, the clock
  and the JSON values of \<open>serde_json\<close> are not part of the repository: they are the records \<open>http\<close>
  and \<open>json\<close>, of which the code uses the operations listed there.
\<close>

section \<open>The client and the JSON values\<close>

text \<open>\<open>v[key]\<close> (null when absent), \<open>as_array\<close>, \<open>as_str\<close>, \<open>as_u64\<close>, \<open>is_object\<close>.\<close>

record 'v json =
  js_get :: "'v \<Rightarrow> bytes \<Rightarrow> 'v"
  js_array :: "'v \<Rightarrow> 'v list option"
  js_str :: "'v \<Rightarrow> bytes option"
  js_u64 :: "'v \<Rightarrow> 64 word option"
  js_is_object :: "'v \<Rightarrow> bool"

text \<open>The body given to the \<open>json!\<close> macro, field by field.\<close>

datatype body_value =
    BText bytes | BF64 f64 | BU32 "32 word" | BBool bool | BMessages "chat_message list"
  | BObject "(bytes \<times> body_value) list"

type_synonym body = "(bytes \<times> body_value) list"

text \<open>What the client answers: no response, or a status with its text (if it can be read) and its
  body as JSON (or the parse error).\<close>

datatype 'v answer = NoResponse bytes | Response (an_status: nat) (an_text: "bytes option") (an_json: "bytes + 'v")

record ('v, 'w) http =
  h_post :: "bytes \<Rightarrow> (bytes \<times> bytes) list \<Rightarrow> body \<Rightarrow> 'w \<Rightarrow> 'v answer \<times> 'w"
  h_get :: "bytes \<Rightarrow> 'w \<Rightarrow> 'v answer \<times> 'w"
  h_timestamp :: "'w \<Rightarrow> int \<times> 'w"
  h_timestamp_millis :: "'w \<Rightarrow> int \<times> 'w"
  h_elapsed :: "'w \<Rightarrow> nat \<times> 'w"

definition is_success :: "nat \<Rightarrow> bool" where
  "is_success status \<longleftrightarrow> 200 \<le> status \<and> status < 300"

text \<open>The steps shared by the three back-ends: send, check the status, read the JSON.\<close>

definition read_answer :: "'v answer \<Rightarrow> bytes + 'v" where
  "read_answer a =
     (case a of
        NoResponse e \<Rightarrow> Inl (''request failed: '' @ e)
      | Response status txt js \<Rightarrow>
          if \<not> is_success status
          then Inl (''HTTP '' @ show_nat status @ '': '' @ (case txt of Some t \<Rightarrow> t | None \<Rightarrow> []))
          else (case js of Inl e \<Rightarrow> Inl (''json parse: '' @ e) | Inr v \<Rightarrow> Inr v))"

definition str_or :: "'v json \<Rightarrow> 'v \<Rightarrow> bytes \<Rightarrow> bytes" where
  "str_or J v d = (case js_str J v of Some s \<Rightarrow> s | None \<Rightarrow> d)"

definition u64_or0 :: "'v json \<Rightarrow> 'v \<Rightarrow> 64 word" where
  "u64_or0 J v = (case js_u64 J v of Some n \<Rightarrow> n | None \<Rightarrow> 0)"

definition path :: "'v json \<Rightarrow> 'v \<Rightarrow> bytes list \<Rightarrow> 'v" where
  "path J v ks = foldl (js_get J) v ks"

definition no_meta :: opseeq_meta where
  "no_meta = \<lparr>om_provider = [], om_latency_ms = 0, om_trace_id = []\<rparr>"

section \<open>OpenAI-compatible providers\<close>

definition openai_body :: "chat_request \<Rightarrow> body" where
  "openai_body req =
     [(''model'', BText (cr_model req)), (''messages'', BMessages (cr_messages req)), (''stream'', BBool False)]
     @ (case cr_temperature req of Some t \<Rightarrow> [(''temperature'', BF64 t)] | None \<Rightarrow> [])
     @ (case cr_max_tokens req of Some m \<Rightarrow> [(''max_tokens'', BU32 m)] | None \<Rightarrow> [])"

definition openai_choice :: "'v json \<Rightarrow> nat \<Rightarrow> 'v \<Rightarrow> chat_choice" where
  "openai_choice J i c =
     \<lparr>cc_index = of_nat i,
      cc_message = \<lparr>cm_role = str_or J (path J c [''message'', ''role'']) ''assistant'',
                    cm_content = str_or J (path J c [''message'', ''content'']) [],
                    cm_name = None, cm_reasoning = None\<rparr>,
      cc_finish_reason = str_or J (path J c [''finish_reason'']) ''stop''\<rparr>"

definition openai_choices :: "'v json \<Rightarrow> 'v \<Rightarrow> chat_choice list" where
  "openai_choices J data =
     (let cs = (case js_array J (js_get J data ''choices'') of Some xs \<Rightarrow> xs | None \<Rightarrow> [])
      in map (\<lambda>(i, c). openai_choice J i c) (enumerate 0 cs))"

definition openai_usage :: "'v json \<Rightarrow> 'v \<Rightarrow> usage option" where
  "openai_usage J data =
     (let u = js_get J data ''usage'' in
      if js_is_object J u
      then Some \<lparr>u_prompt_tokens = ucast (u64_or0 J (js_get J u ''prompt_tokens'')),
                 u_completion_tokens = ucast (u64_or0 J (js_get J u ''completion_tokens'')),
                 u_total_tokens = ucast (u64_or0 J (js_get J u ''total_tokens''))\<rparr>
      else None)"

definition openai_call ::
  "('v, 'w) http \<Rightarrow> 'v json \<Rightarrow> provider_config \<Rightarrow> chat_request \<Rightarrow> 'w \<Rightarrow> (bytes + chat_response) \<times> 'w" where
  "openai_call H J p req w =
     (let (a, w1) = h_post H (pc_base_url p @ ''/chat/completions'')
            [(''Content-Type'', ''application/json''), (''Authorization'', ''Bearer '' @ pc_api_key p)]
            (openai_body req) w
      in case read_answer a of
           Inl e \<Rightarrow> (Inl e, w1)
         | Inr data \<Rightarrow>
             (Inr \<lparr>cs_id = str_or J (js_get J data ''id'') [], cs_object = ''chat.completion'',
                   cs_created = u64_or0 J (js_get J data ''created''),
                   cs_model = str_or J (js_get J data ''model'') (cr_model req),
                   cs_choices = openai_choices J data, cs_usage = openai_usage J data,
                   cs_opseeq = no_meta\<rparr>, w1))"

section \<open>Anthropic\<close>

definition anthropic_body :: "chat_request \<Rightarrow> body" where
  "anthropic_body req =
     [(''model'', BText (cr_model req)),
      (''max_tokens'', BU32 (case cr_max_tokens req of Some m \<Rightarrow> m | None \<Rightarrow> 8192)),
      (''temperature'', BF64 (case cr_temperature req of Some t \<Rightarrow> t | None \<Rightarrow> Fin 0)),
      (''messages'', BMessages (filter (\<lambda>m. cm_role m \<noteq> ''system'') (cr_messages req)))]
     @ (case find (\<lambda>m. cm_role m = ''system'') (cr_messages req) of
          Some sys \<Rightarrow> [(''system'', BText (cm_content sys))] | None \<Rightarrow> [])"

definition anthropic_content :: "'v json \<Rightarrow> 'v \<Rightarrow> bytes" where
  "anthropic_content J data =
     (case js_array J (js_get J data ''content'') of
        Some (c # _) \<Rightarrow> str_or J (js_get J c ''text'') []
      | _ \<Rightarrow> [])"

text \<open>\<open>total_tokens\<close> is a sum of two 32-bit numbers: it wraps in a release build.\<close>

definition anthropic_usage :: "'v json \<Rightarrow> 'v \<Rightarrow> usage option" where
  "anthropic_usage J data =
     (let u = js_get J data ''usage'' in
      if js_is_object J u
      then (let inp = ucast (u64_or0 J (js_get J u ''input_tokens''));
                out = ucast (u64_or0 J (js_get J u ''output_tokens''))
            in Some \<lparr>u_prompt_tokens = inp, u_completion_tokens = out, u_total_tokens = inp + out\<rparr>)
      else None)"

definition assistant_choice :: "bytes \<Rightarrow> bytes option \<Rightarrow> chat_choice" where
  "assistant_choice content thinking =
     \<lparr>cc_index = 0,
      cc_message = \<lparr>cm_role = ''assistant'', cm_content = content, cm_name = None, cm_reasoning = thinking\<rparr>,
      cc_finish_reason = ''stop''\<rparr>"

definition anthropic_call ::
  "('v, 'w) http \<Rightarrow> 'v json \<Rightarrow> provider_config \<Rightarrow> chat_request \<Rightarrow> 'w \<Rightarrow> (bytes + chat_response) \<times> 'w" where
  "anthropic_call H J p req w =
     (let (a, w1) = h_post H (pc_base_url p @ ''/messages'')
            [(''Content-Type'', ''application/json''), (''x-api-key'', pc_api_key p),
             (''anthropic-version'', ''2024-10-22'')] (anthropic_body req) w
      in case read_answer a of
           Inl e \<Rightarrow> (Inl e, w1)
         | Inr data \<Rightarrow>
             (let (t, w2) = h_timestamp H w1 in
              (Inr \<lparr>cs_id = str_or J (js_get J data ''id'') [], cs_object = ''chat.completion'',
                    cs_created = of_int t, cs_model = str_or J (js_get J data ''model'') (cr_model req),
                    cs_choices = [assistant_choice (anthropic_content J data) None],
                    cs_usage = anthropic_usage J data, cs_opseeq = no_meta\<rparr>, w2)))"

section \<open>Ollama\<close>

definition ollama_body :: "chat_request \<Rightarrow> body" where
  "ollama_body req =
     [(''model'', BText (cr_model req)), (''stream'', BBool False), (''messages'', BMessages (cr_messages req)),
      (''options'', BObject [(''temperature'', BF64 (case cr_temperature req of Some t \<Rightarrow> t | None \<Rightarrow> Fin 0))])]"

text \<open>The total is a 64-bit sum, cut to 32 bits at the end.\<close>

definition ollama_usage :: "'v json \<Rightarrow> 'v \<Rightarrow> usage" where
  "ollama_usage J data =
     (let inp = u64_or0 J (js_get J data ''prompt_eval_count''); out = u64_or0 J (js_get J data ''eval_count'')
      in \<lparr>u_prompt_tokens = ucast inp, u_completion_tokens = ucast out, u_total_tokens = ucast (inp + out)\<rparr>)"

definition ollama_call ::
  "('v, 'w) http \<Rightarrow> 'v json \<Rightarrow> provider_config \<Rightarrow> chat_request \<Rightarrow> 'w \<Rightarrow> (bytes + chat_response) \<times> 'w" where
  "ollama_call H J p req w =
     (let (a, w1) = h_post H (pc_base_url p @ ''/api/chat'') [(''Content-Type'', ''application/json'')]
            (ollama_body req) w
      in case read_answer a of
           Inl e \<Rightarrow> (Inl e, w1)
         | Inr data \<Rightarrow>
             (let (ms, w2) = h_timestamp_millis H w1; (t, w3) = h_timestamp H w2 in
              (Inr \<lparr>cs_id = ''chatcmpl-'' @ show_int ms, cs_object = ''chat.completion'',
                    cs_created = of_int t, cs_model = str_or J (js_get J data ''model'') (cr_model req),
                    cs_choices = [assistant_choice (str_or J (path J data [''message'', ''content'']) [])
                                    (js_str J (path J data [''message'', ''thinking'']))],
                    cs_usage = Some (ollama_usage J data), cs_opseeq = no_meta\<rparr>, w3)))"

text \<open>\<open>from_value\<close> is the derived deserializer of \<open>OllamaModel\<close>.\<close>

definition ollama_list_models ::
  "('v, 'w) http \<Rightarrow> 'v json \<Rightarrow> ('v \<Rightarrow> ollama_model option) \<Rightarrow> bytes \<Rightarrow> 'w \<Rightarrow> (bytes + ollama_model list) \<times> 'w" where
  "ollama_list_models H J from_value url w =
     (if url = [] then (Inr [], w)
      else (let (a, w1) = h_get H (url @ ''/api/tags'') w in
            case a of
              NoResponse e \<Rightarrow> (Inl (''ollama tags: '' @ e), w1)
            | Response status txt js \<Rightarrow>
                (case js of
                   Inl e \<Rightarrow> (Inl (''json: '' @ e), w1)
                 | Inr data \<Rightarrow>
                     (Inr (List.map_filter from_value
                             (case js_array J (js_get J data ''models'') of Some xs \<Rightarrow> xs | None \<Rightarrow> [])), w1))))"

section \<open>Choosing a back-end\<close>

datatype backend = AnthropicApi | OllamaApi | OpenAiApi

definition backend_of :: "provider_config \<Rightarrow> backend" where
  "backend_of p =
     (if pc_name p = ''anthropic'' \<or> sublist ''anthropic.com'' (pc_base_url p) then AnthropicApi
      else if pc_name p = ''ollama'' then OllamaApi else OpenAiApi)"

definition call_provider ::
  "('v, 'w) http \<Rightarrow> 'v json \<Rightarrow> provider_config \<Rightarrow> chat_request \<Rightarrow> bytes \<Rightarrow> 'w \<Rightarrow> (bytes + chat_response) \<times> 'w" where
  "call_provider H J p req tid w =
     (let (res, w1) = (case backend_of p of
                         AnthropicApi \<Rightarrow> anthropic_call H J p req w
                       | OllamaApi \<Rightarrow> ollama_call H J p req w
                       | OpenAiApi \<Rightarrow> openai_call H J p req w)
      in case res of
           Inr resp \<Rightarrow>
             (let (ms, w2) = h_elapsed H w1 in
              (Inr (resp\<lparr>cs_opseeq := \<lparr>om_provider = pc_name p, om_latency_ms = of_nat ms, om_trace_id = tid\<rparr>\<rparr>), w2))
         | Inl e \<Rightarrow> (Inl (pc_name p @ '': '' @ e), w1))"

text \<open>The model of the code meets the contract the router relies on.\<close>

interpretation kernel_calls: provider_calls "call_provider H J"
  for H :: "('v, 'w) http" and J :: "'v json"
  by unfold_locales
    (auto simp: call_provider_def Let_def prefix_def split: prod.splits sum.splits)

section \<open>Properties\<close>

text \<open>Claim C20: Every result of the kernel's routing is attributed, whatever the HTTP client, the JSON library
  and the clock do. When a provider resolves for the model, the result comes from a provider of the
  cascade, the one called last: an error starts with its name and a colon, and a response carries its name
  and the trace of the request; the same holds of the result of each recorded call. When none resolves,
  the error names the model instead.\<close>

theorem routed_results_attributed:
  "case route_inference en (io\<lparr>io_call := call_provider H J\<rparr>) cfg req tid w of
     (res, s', w') \<Rightarrow> list_all (good_call tid) (calls_of (rt_actions s'))
       \<and> (case resolve_provider (cr_model req) cfg of
            None \<Rightarrow> res = Inl (no_provider_error (cr_model req))
          | Some primary \<Rightarrow>
              \<exists>p\<in>set (cascade_of primary cfg). pc_name p = fst (last (calls_of (rt_actions s')))
                \<and> (case res of
                     Inl e \<Rightarrow> prefix (pc_name p @ '': '') e
                   | Inr r \<Rightarrow> om_provider (cs_opseeq r) = pc_name p \<and> om_trace_id (cs_opseeq r) = tid))"
proof -
  obtain res s' w' where r: "route_inference en (io\<lparr>io_call := call_provider H J\<rparr>) cfg req tid w = (res, s', w')"
    by (metis prod_cases3)
  from kernel_calls.route_good [OF r, of H J] have good: "list_all (good_call tid) (calls_of (rt_actions s'))" by simp
  show ?thesis
  proof (cases "resolve_provider (cr_model req) cfg")
    case None
    with r good show ?thesis by (auto simp: route_inference_def)
  next
    case (Some primary)
    let ?cs = "calls_of (rt_actions s')"
    note run = route_inference_run [OF r Some]
    then have c: "last ?cs \<in> set ?cs" by (intro last_in_set) blast
    from run have res: "res = snd (snd (last ?cs))" by blast
    from run have "fst ` set ?cs \<subseteq> set (map pc_name (cascade_of primary cfg))" using cascade_run_names by blast
    with c have "fst (last ?cs) \<in> set (map pc_name (cascade_of primary cfg))" by blast
    then obtain p where p: "p \<in> set (cascade_of primary cfg)" "pc_name p = fst (last ?cs)" by auto
    have "good_call tid (last ?cs)" using good c by (simp only: list_all_iff)
    with res p(2) have "case res of Inl e \<Rightarrow> prefix (pc_name p @ '': '') e
        | Inr r \<Rightarrow> om_provider (cs_opseeq r) = pc_name p \<and> om_trace_id (cs_opseeq r) = tid"
      by (simp only: good_call_def case_prod_beta)
    with p good show ?thesis by (auto simp only: r prod.case Some option.case)
  qed
qed

text \<open>A server error is given up at once, without a retry, when its body happens to quote a
  client error: the classification looks for the code anywhere in the text.  So a 503 answer
  whose body says \<open>HTTP 404:\<close> is not retried although its status would be.\<close>

theorem quoted_code_stops_retry:
  assumes "\<not> is_success status" and "code \<in> set final_codes" and "sublist code t"
  shows "\<exists>e. read_answer (Response status (Some t) js) = Inl e \<and> \<not> is_retryable (pc_name p @ '': '' @ e)"
proof -
  let ?e = "''HTTP '' @ show_nat status @ '': '' @ t"
  obtain a b where t: "t = a @ code @ b" using assms(3) by (auto simp: sublist_def)
  have "pc_name p @ '': '' @ ?e = (pc_name p @ '': '' @ ''HTTP '' @ show_nat status @ '': '' @ a) @ code @ b"
    using t by (simp only: append.assoc)
  then have "sublist code (pc_name p @ '': '' @ ?e)" by (metis sublist_appendI)
  then have "\<not> is_retryable (pc_name p @ '': '' @ ?e)"
    using assms(2) by (auto simp: is_retryable_def list_ex_iff)
  moreover have "read_answer (Response status (Some t) js) = Inl ?e"
    using assms(1) by (simp add: read_answer_def)
  ultimately show ?thesis by blast
qed

lemma quoted_code_stops_retry_witness:
  "\<exists>e. read_answer (Response 503 (Some ''upstream: HTTP 404: gone'') (Inr ())) = Inl e
     \<and> \<not> is_retryable (pc_name \<lparr>pc_name = ''openai'', pc_base_url = [], pc_api_key = [], pc_models = [],
                              pc_priority = 0\<rparr> @ '': '' @ e)"
proof (rule quoted_code_stops_retry [of 503 "''HTTP 404:''"])
  show "\<not> is_success 503" by (simp add: is_success_def)
  show "''HTTP 404:'' \<in> set final_codes" by (simp add: final_codes_def)
  show "sublist ''HTTP 404:'' ''upstream: HTTP 404: gone''" by (simp add: sublist_Cons_right)
qed

end
