(* ===== verification/Splitter.thy ===== *)
theory Splitter
  imports Prelude
begin

text \<open>
  The interface of a streaming parser: a function that cuts the first complete frame off a
  buffer.  Where it meets the contract, feeding a stream in chunks of any sizes gives the frames
  of the whole stream and leaves the same rest.
\<close>

text \<open>All the frames of a buffer, and what is left; and the same over a list of chunks.\<close>

function frames :: "('a list \<Rightarrow> ('b \<times> 'a list) option) \<Rightarrow> 'a list \<Rightarrow> 'b list \<times> 'a list" where
  "frames nxt buf =
     (case nxt buf of
        None \<Rightarrow> ([], buf)
      | Some fr \<Rightarrow>
          if length (snd fr) < length buf
          then (fst fr # fst (frames nxt (snd fr)), snd (frames nxt (snd fr)))
          else ([], buf))"
  by pat_completeness auto
termination
  by (relation "measure (\<lambda>(nxt, buf). length buf)") auto

declare frames.simps [simp del]

fun feed :: "('a list \<Rightarrow> ('b \<times> 'a list) option) \<Rightarrow> 'a list \<Rightarrow> 'a list list \<Rightarrow> 'b list \<times> 'a list" where
  "feed nxt buf [] = ([], buf)"
| "feed nxt buf (c # cs) =
     (let (fs, r) = frames nxt (buf @ c); (gs, r') = feed nxt r cs in (fs @ gs, r'))"

locale frame_splitter =
  fixes nxt :: "'a list \<Rightarrow> ('b \<times> 'a list) option" and ok :: "'a list \<Rightarrow> bool"
  assumes shrinks: "nxt b = Some (f, r) \<Longrightarrow> length r < length b"
    and extends: "nxt b = Some (f, r) \<Longrightarrow> ok (b @ c) \<Longrightarrow> nxt (b @ c) = Some (f, r @ c)"
    and ok_rest: "nxt b = Some (f, r) \<Longrightarrow> ok b \<Longrightarrow> ok r"
begin

lemma frames_Some: "nxt b = Some (f, r) \<Longrightarrow> frames nxt b = (f # fst (frames nxt r), snd (frames nxt r))"
  by (subst frames.simps) (simp add: shrinks)

lemma frames_None: "nxt b = None \<Longrightarrow> frames nxt b = ([], b)"
  by (subst frames.simps) simp

lemma frames_rest: "nxt (snd (frames nxt b)) = None"
proof (induction "length b" arbitrary: b rule: less_induct)
  case less
  show ?case
  proof (cases "nxt b")
    case None
    then show ?thesis by (simp add: frames_None)
  next
    case (Some fr)
    obtain f r where fr: "fr = (f, r)" by fastforce
    with Some have "nxt b = Some (f, r)" by simp
    then show ?thesis using less [of r] shrinks by (simp add: frames_Some)
  qed
qed

lemma frames_append:
  "ok (x @ y) \<Longrightarrow> frames nxt (x @ y) =
     (fst (frames nxt x) @ fst (frames nxt (snd (frames nxt x) @ y)), snd (frames nxt (snd (frames nxt x) @ y)))"
proof (induction "length x" arbitrary: x rule: less_induct)
  case less
  show ?case
  proof (cases "nxt x")
    case None
    then show ?thesis by (simp add: frames_None)
  next
    case (Some fr)
    obtain f r where "fr = (f, r)" by fastforce
    with Some have c: "nxt x = Some (f, r)" by simp
    have e: "nxt (x @ y) = Some (f, r @ y)" by (rule extends [OF c less.prems])
    have "ok (r @ y)" by (rule ok_rest [OF e less.prems])
    from less.hyps [OF shrinks [OF c] this] show ?thesis
      by (simp add: frames_Some [OF e] frames_Some [OF c])
  qed
qed

lemma ok_frames_rest: "ok (x @ y) \<Longrightarrow> ok (snd (frames nxt x) @ y)"
proof (induction "length x" arbitrary: x rule: less_induct)
  case less
  show ?case
  proof (cases "nxt x")
    case None
    with less.prems show ?thesis by (simp add: frames_None)
  next
    case (Some fr)
    obtain f r where "fr = (f, r)" by fastforce
    with Some have c: "nxt x = Some (f, r)" by simp
    have "ok (r @ y)" by (rule ok_rest [OF extends [OF c less.prems] less.prems])
    from less.hyps [OF shrinks [OF c] this] show ?thesis by (simp add: frames_Some [OF c])
  qed
qed

text \<open>Chunks do not matter.\<close>

lemma feed_concat: "nxt buf = None \<Longrightarrow> ok (buf @ concat cs) \<Longrightarrow> feed nxt buf cs = frames nxt (buf @ concat cs)"
proof (induction cs arbitrary: buf)
  case Nil
  then show ?case by (simp add: frames_None)
next
  case (Cons c cs)
  let ?r = "snd (frames nxt (buf @ c))"
  have ok: "ok ((buf @ c) @ concat cs)" using Cons.prems(2) by simp
  have "feed nxt ?r cs = frames nxt (?r @ concat cs)"
    using Cons.IH [OF frames_rest ok_frames_rest [OF ok]] .
  then show ?case using frames_append [OF ok] by (simp add: case_prod_beta)
qed

end

text \<open>Cutting at a fixed separator.\<close>

definition cut_at :: "'a list \<Rightarrow> 'a list \<Rightarrow> ('a list \<times> 'a list) option" where
  "cut_at sep buf = map_option (\<lambda>i. (take i buf, drop (i + length sep) buf)) (find_sub sep buf)"

lemma cut_at_shrinks: "sep \<noteq> [] \<Longrightarrow> cut_at sep b = Some (f, r) \<Longrightarrow> length r < length b"
  by (cases sep) (auto simp: cut_at_def dest!: find_sub_Some_length)

lemma cut_at_extends: "cut_at sep b = Some (f, r) \<Longrightarrow> cut_at sep (b @ c) = Some (f, r @ c)"
  using find_sub_Some_length [of sep b] find_sub_append_Some [of sep b _ c]
  by (fastforce simp: cut_at_def)

lemma cut_at_suffix: "cut_at sep b = Some (f, r) \<Longrightarrow> b = f @ sep @ r"
  by (auto simp: cut_at_def dest: find_sub_Some_split)

lemma cut_at_None: "cut_at sep b = None \<longleftrightarrow> \<not> sublist sep b"
  by (simp add: cut_at_def find_sub_None_iff)

end
