(* ===== verification/Anthropic_Sse.thy ===== *)
theory Anthropic_Sse
  imports RustStr Splitter Kernel_Config
begin

text \<open>
  The server-sent events of the Anthropic client: the errors of the client
  (\<open>engine/src/anthropic/error.rs\<close>) and the incremental parser (\<open>anthropic/sse.rs\<close>).  The
  reading of a JSON payload as a \<open>StreamEvent\<close> is serde's and is the parameter \<open>decode\<close>.
\<close>

section \<open>Errors\<close>

text \<open>A \<open>reqwest\<close> error: what it answers to the three questions the code asks, and its text.\<close>

record http_error =
  he_connect :: bool
  he_timeout :: bool
  he_request :: bool
  he_text :: bytes

datatype api_error =
    MissingApiKey
  | InvalidApiKeyEnv var_error
  | HttpErr http_error
  | IoErr bytes
  | JsonErr bytes
  | ApiErr nat "bytes option" "bytes option" bytes bool
  | RetriesExhausted nat api_error
  | InvalidSseFrame bytes
  | BackoffOverflow nat nat

fun retryable :: "api_error \<Rightarrow> bool" where
  "retryable (HttpErr e) = (he_connect e \<or> he_timeout e \<or> he_request e)"
| "retryable (ApiErr status ty msg body r) = r"
| "retryable (RetriesExhausted n e) = retryable e"
| "retryable MissingApiKey = False"
| "retryable (InvalidApiKeyEnv e) = False"
| "retryable (IoErr e) = False"
| "retryable (JsonErr e) = False"
| "retryable (InvalidSseFrame m) = False"
| "retryable (BackoffOverflow n d) = False"

text \<open>The texts of a status, of an environment error and of a duration are the library's.\<close>

record texts =
  tx_status :: "nat \<Rightarrow> bytes"
  tx_var :: "var_error \<Rightarrow> bytes"
  tx_duration :: "nat \<Rightarrow> bytes"

fun show_api_error :: "texts \<Rightarrow> api_error \<Rightarrow> bytes" where
  "show_api_error T MissingApiKey =
     ''ANTHROPIC_AUTH_TOKEN or ANTHROPIC_API_KEY is not set; export one before calling the Anthropic API''"
| "show_api_error T (InvalidApiKeyEnv e) =
     ''failed to read ANTHROPIC_AUTH_TOKEN / ANTHROPIC_API_KEY: '' @ tx_var T e"
| "show_api_error T (HttpErr e) = ''http error: '' @ he_text e"
| "show_api_error T (IoErr e) = ''io error: '' @ e"
| "show_api_error T (JsonErr e) = ''json error: '' @ e"
| "show_api_error T (ApiErr status ty msg body r) =
     (case (ty, msg) of
        (Some t, Some m) \<Rightarrow> ''anthropic api returned '' @ tx_status T status @ '' ('' @ t @ ''): '' @ m
      | _ \<Rightarrow> ''anthropic api returned '' @ tx_status T status @ '': '' @ body)"
| "show_api_error T (RetriesExhausted n e) =
     ''anthropic api failed after '' @ show_nat n @ '' attempts: '' @ show_api_error T e"
| "show_api_error T (InvalidSseFrame m) = ''invalid sse frame: '' @ m"
| "show_api_error T (BackoffOverflow n d) =
     ''retry backoff overflowed on attempt '' @ show_nat n @ '' with base delay '' @ tx_duration T d"

section \<open>One frame\<close>

fun scan_lines :: "bytes list \<Rightarrow> bytes option \<Rightarrow> bytes list \<Rightarrow> bytes option \<times> bytes list" where
  "scan_lines [] name dat = (name, dat)"
| "scan_lines (l # ls) name dat =
     (if prefix '':'' l then scan_lines ls name dat
      else case strip_prefix ''event:'' l of
             Some n \<Rightarrow> scan_lines ls (Some (trim n)) dat
           | None \<Rightarrow>
               (case strip_prefix ''data:'' l of
                  Some d \<Rightarrow> scan_lines ls name (dat @ [trim_start d])
                | None \<Rightarrow> scan_lines ls name dat))"

definition parse_frame :: "(bytes \<Rightarrow> bytes + 'ev) \<Rightarrow> bytes \<Rightarrow> api_error + 'ev option" where
  "parse_frame decode frame =
     (if trim frame = [] then Inr None
      else (let (name, dat) = scan_lines (str_lines (trim frame)) None [] in
        if name = Some ''ping'' then Inr None
        else if dat = [] then Inr None
        else if join [NL] dat = ''[DONE]'' then Inr None
        else (case decode (join [NL] dat) of Inl e \<Rightarrow> Inl (JsonErr e) | Inr ev \<Rightarrow> Inr (Some ev))))"

section \<open>The parser\<close>

text \<open>The parser's state is its buffer.  The first blank line ends a frame; a blank line with
  carriage returns counts only when the buffer has none without.\<close>

definition lf_lf :: bytes where "lf_lf = [NL, NL]"
definition crlf_crlf :: bytes where "crlf_crlf = [CR, NL, CR, NL]"

definition separator :: "bytes \<Rightarrow> (nat \<times> nat) option" where
  "separator buf =
     (case find_sub lf_lf buf of
        Some p \<Rightarrow> Some (p, 2)
      | None \<Rightarrow> (case find_sub crlf_crlf buf of Some p \<Rightarrow> Some (p, 4) | None \<Rightarrow> None))"

definition next_frame :: "bytes \<Rightarrow> (bytes \<times> bytes) option" where
  "next_frame buf =
     (case separator buf of
        None \<Rightarrow> None
      | Some (p, n) \<Rightarrow>
          (let frame = take (p + n) buf in
           Some (from_utf8_lossy (take (length frame - n) frame), drop (p + n) buf)))"

lemma separator_bounds: "separator buf = Some (p, n) \<Longrightarrow> p + n \<le> length buf \<and> 0 < n"
  by (auto simp: separator_def lf_lf_def crlf_crlf_def split: option.splits dest!: find_sub_Some_length)

lemma next_frame_shrinks: "next_frame buf = Some (f, r) \<Longrightarrow> length r < length buf"
  by (auto simp: next_frame_def Let_def split: option.splits dest!: separator_bounds)

text \<open>\<open>push\<close>: the events decoded so far, or the error that ends the call; and the buffer.\<close>

function push_loop ::
  "(bytes \<Rightarrow> bytes + 'ev) \<Rightarrow> bytes \<Rightarrow> 'ev list \<Rightarrow> (api_error + 'ev list) \<times> bytes" where
  "push_loop decode buf evs =
     (case next_frame buf of
        None \<Rightarrow> (Inr evs, buf)
      | Some fr \<Rightarrow>
          (case parse_frame decode (fst fr) of
             Inl e \<Rightarrow> (Inl e, snd fr)
           | Inr None \<Rightarrow> push_loop decode (snd fr) evs
           | Inr (Some ev) \<Rightarrow> push_loop decode (snd fr) (evs @ [ev])))"
  by pat_completeness auto
termination
  by (relation "measure (\<lambda>(d, buf, evs). length buf)") (auto dest: next_frame_shrinks)

declare push_loop.simps [simp del]

definition push :: "(bytes \<Rightarrow> bytes + 'ev) \<Rightarrow> bytes \<Rightarrow> bytes \<Rightarrow> (api_error + 'ev list) \<times> bytes" where
  "push decode buf chunk = push_loop decode (buf @ chunk) []"

definition finish :: "(bytes \<Rightarrow> bytes + 'ev) \<Rightarrow> bytes \<Rightarrow> (api_error + 'ev list) \<times> bytes" where
  "finish decode buf =
     (if buf = [] then (Inr [], buf)
      else (case parse_frame decode (from_utf8_lossy buf) of
              Inl e \<Rightarrow> (Inl e, [])
            | Inr (Some ev) \<Rightarrow> (Inr [ev], [])
            | Inr None \<Rightarrow> (Inr [], [])))"

text \<open>A reader of the stream: every chunk is pushed, then the parser is finished.  The first error
  ends it, as the \<open>?\<close> operator does.\<close>

fun push_all :: "(bytes \<Rightarrow> bytes + 'ev) \<Rightarrow> bytes \<Rightarrow> bytes list \<Rightarrow> 'ev list \<Rightarrow> (api_error + 'ev list) \<times> bytes" where
  "push_all decode buf [] evs = (Inr evs, buf)"
| "push_all decode buf (c # cs) evs =
     (case push decode buf c of
        (Inl e, buf') \<Rightarrow> (Inl e, buf')
      | (Inr new, buf') \<Rightarrow> push_all decode buf' cs (evs @ new))"

definition read_stream :: "(bytes \<Rightarrow> bytes + 'ev) \<Rightarrow> bytes list \<Rightarrow> api_error + 'ev list" where
  "read_stream decode chunks =
     (case push_all decode [] chunks [] of
        (Inl e, buf) \<Rightarrow> Inl e
      | (Inr evs, buf) \<Rightarrow>
          (case fst (finish decode buf) of Inl e \<Rightarrow> Inl e | Inr new \<Rightarrow> Inr (evs @ new)))"

section \<open>The frames of a stream\<close>

text \<open>A stream that uses one kind of blank line only.\<close>

definition one_separator :: "bytes \<Rightarrow> bool" where
  "one_separator s \<longleftrightarrow> \<not> (sublist lf_lf s \<and> sublist crlf_crlf s)"

lemma separator_lengths [simp]: "length lf_lf = 2" "length crlf_crlf = 4"
  by (simp_all add: lf_lf_def crlf_crlf_def)

lemma next_frame_at:
  "separator buf = Some (p, n) \<Longrightarrow> next_frame buf = Some (from_utf8_lossy (take p buf), drop (p + n) buf)"
  using separator_bounds [of buf p n] by (simp add: next_frame_def Let_def min_absorb1 min_absorb2)

lemma next_frame_cases:
  "next_frame buf =
     (case cut_at lf_lf buf of
        Some (f, r) \<Rightarrow> Some (from_utf8_lossy f, r)
      | None \<Rightarrow> (case cut_at crlf_crlf buf of Some (f, r) \<Rightarrow> Some (from_utf8_lossy f, r) | None \<Rightarrow> None))"
  using next_frame_at [of buf] by (auto simp: next_frame_def separator_def cut_at_def split: option.splits)

lemma one_separator_suffix: "one_separator (a @ b) \<Longrightarrow> one_separator b"
  unfolding one_separator_def sublist_def by (metis append.assoc)

interpretation sse: frame_splitter next_frame one_separator
proof unfold_locales
  fix b f r and c :: bytes
  show "length r < length b" if "next_frame b = Some (f, r)" by (rule next_frame_shrinks [OF that])
  show "one_separator r" if "next_frame b = Some (f, r)" "one_separator b"
  proof -
    from that(1) obtain g s where "b = g @ s @ r"
      by (auto simp: next_frame_cases split: option.splits prod.splits dest!: cut_at_suffix)
    with that(2) show ?thesis by (metis one_separator_suffix)
  qed
  show "next_frame (b @ c) = Some (f, r @ c)" if "next_frame b = Some (f, r)" "one_separator (b @ c)"
  proof (cases "cut_at lf_lf b")
    case None
    with that(1) obtain g where g: "cut_at crlf_crlf b = Some (g, r)" "f = from_utf8_lossy g"
      by (auto simp: next_frame_cases split: option.splits)
    then have "sublist crlf_crlf (b @ c)" using cut_at_suffix [OF g(1)] by (metis sublist_appendI append.assoc)
    with that(2) have "cut_at lf_lf (b @ c) = None" by (simp add: one_separator_def cut_at_None)
    with g cut_at_extends [OF g(1)] show ?thesis by (simp add: next_frame_cases)
  next
    case (Some gs)
    obtain g s where g: "gs = (g, s)" by fastforce
    with Some that(1) have "r = s" "f = from_utf8_lossy g" by (auto simp: next_frame_cases)
    with Some g cut_at_extends [of lf_lf b g s c] show ?thesis by (simp add: next_frame_cases)
  qed
qed

text \<open>What the parser does with frames that are already cut.\<close>

fun decode_frames :: "(bytes \<Rightarrow> bytes + 'ev) \<Rightarrow> bytes list \<Rightarrow> 'ev list \<Rightarrow> api_error + 'ev list" where
  "decode_frames decode [] evs = Inr evs"
| "decode_frames decode (f # fs) evs =
     (case parse_frame decode f of
        Inl e \<Rightarrow> Inl e
      | Inr None \<Rightarrow> decode_frames decode fs evs
      | Inr (Some ev) \<Rightarrow> decode_frames decode fs (evs @ [ev]))"

lemma decode_frames_acc:
  "decode_frames decode fs (evs @ new) =
     (case decode_frames decode fs new of Inl e \<Rightarrow> Inl e | Inr r \<Rightarrow> Inr (evs @ r))"
proof (induction fs arbitrary: new)
  case (Cons f fs)
  show ?case
  proof (cases "parse_frame decode f")
    case (Inr o')
    then show ?thesis using Cons [of new] Cons [of "new @ [the o']"] by (cases o') simp_all
  qed simp
qed simp

lemma decode_frames_append:
  "decode_frames decode (fs @ gs) evs =
     (case decode_frames decode fs evs of Inl e \<Rightarrow> Inl e | Inr r \<Rightarrow> decode_frames decode gs r)"
  by (induction fs arbitrary: evs) (auto split: sum.splits option.splits)

lemma push_loop_frames:
  "fst (push_loop decode buf evs) = decode_frames decode (fst (frames next_frame buf)) evs
   \<and> (\<not> isl (fst (push_loop decode buf evs)) \<longrightarrow> snd (push_loop decode buf evs) = snd (frames next_frame buf))"
proof (induction decode buf evs rule: push_loop.induct)
  case (1 decode buf evs)
  show ?case
  proof (cases "next_frame buf")
    case None
    then show ?thesis by (simp add: push_loop.simps [of _ buf] sse.frames_None)
  next
    case (Some fr)
    obtain f r where fr: "fr = (f, r)" by fastforce
    note fs = sse.frames_Some [OF Some [unfolded fr]]
    show ?thesis
    proof (cases "parse_frame decode f")
      case (Inl e)
      with Some fr fs show ?thesis by (simp add: push_loop.simps [of _ buf])
    next
      case (Inr o')
      then show ?thesis
        using "1.IH"(1) [of fr o'] "1.IH"(2) [of fr o'] Some fr fs
        by (cases o') (simp_all add: push_loop.simps [of _ buf])
    qed
  qed
qed

lemma push_all_frames:
  "fst (push_all decode buf cs evs) = decode_frames decode (fst (feed next_frame buf cs)) evs
   \<and> (\<not> isl (fst (push_all decode buf cs evs)) \<longrightarrow>
        snd (push_all decode buf cs evs) = snd (feed next_frame buf cs))"
proof (induction cs arbitrary: buf evs)
  case (Cons c cs)
  let ?p = "push_loop decode (buf @ c) []" and ?fs = "fst (frames next_frame (buf @ c))"
    and ?r = "snd (frames next_frame (buf @ c))"
  have p: "fst ?p = decode_frames decode ?fs []" "\<not> isl (fst ?p) \<Longrightarrow> snd ?p = ?r"
    using push_loop_frames [of decode "buf @ c" "[]"] by auto
  have acc: "decode_frames decode ?fs evs = (case fst ?p of Inl e \<Rightarrow> Inl e | Inr r \<Rightarrow> Inr (evs @ r))"
    using decode_frames_acc [of decode ?fs evs "[]"] p(1) by simp
  show ?case
  proof (cases "fst ?p")
    case (Inl e)
    then show ?thesis using acc
      by (cases ?p) (simp add: push_def case_prod_beta decode_frames_append)
  next
    case (Inr new)
    with p(2) have "snd ?p = ?r" by simp
    with Inr have "?p = (Inr new, ?r)" by (metis prod.collapse)
    then show ?thesis using acc Inr Cons.IH [of ?r "evs @ new"]
      by (simp add: push_def case_prod_beta decode_frames_append)
  qed
qed simp

lemma read_stream_whole:
  assumes "one_separator (concat chunks)"
  shows "read_stream decode chunks = read_stream decode [concat chunks]"
proof -
  have none: "next_frame [] = None" by (simp add: next_frame_cases cut_at_def lf_lf_def crlf_crlf_def)
  have "feed next_frame [] chunks = feed next_frame [] [concat chunks]"
    using sse.feed_concat [OF none] assms by simp
  then have "fst (push_all decode [] chunks []) = fst (push_all decode [] [concat chunks] [])"
    and "\<not> isl (fst (push_all decode [] chunks [])) \<Longrightarrow>
      snd (push_all decode [] chunks []) = snd (push_all decode [] [concat chunks] [])"
    using push_all_frames [of decode "[]"] by metis+
  then show ?thesis
    by (cases "push_all decode [] chunks []"; cases "push_all decode [] [concat chunks] []")
      (auto simp: read_stream_def split: sum.splits)
qed

section \<open>Writing a stream\<close>

text \<open>The frames a server sends for one-line payloads.\<close>

definition sse_frame :: "bytes \<Rightarrow> bytes" where
  "sse_frame p = ''data: '' @ p @ lf_lf"

definition sse_payload :: "bytes \<Rightarrow> bool" where
  "sse_payload p \<longleftrightarrow> is_ascii p \<and> p \<noteq> [] \<and> NL \<notin> set p \<and> CR \<notin> set p \<and> \<not> is_ws [hd p] \<and> \<not> is_ws [last p]"

text \<open>The events of payloads: the mark of the end gives none, and the first payload that is not decoded is the error.\<close>

fun decode_payloads :: "(bytes \<Rightarrow> bytes + 'ev) \<Rightarrow> bytes list \<Rightarrow> api_error + 'ev list" where
  "decode_payloads decode [] = Inr []"
| "decode_payloads decode (p # ps) =
     (if p = ''[DONE]'' then decode_payloads decode ps
      else case decode p of Inl e \<Rightarrow> Inl (JsonErr e) | Inr ev \<Rightarrow> map_sum id ((#) ev) (decode_payloads decode ps))"

lemma parse_frame_payload:
  assumes "sse_payload p"
  shows "parse_frame decode (''data: '' @ p) = (if p = ''[DONE]'' then Inr None else map_sum JsonErr Some (decode p))"
proof -
  have a: "is_ascii (''data: '' @ p)" "is_ascii ('' '' @ p)"
    using assms by (auto simp: sse_payload_def byte_def)
  have last: "last (''data: '' @ p) = last p" using assms by (simp add: sse_payload_def)
  have "\<not> is_ws ''d''" by (simp add: is_ws_def ws_chars_def)
  then have t: "trim (''data: '' @ p) = ''data: '' @ p"
    using assms a last by (intro trim_ascii_id) (auto simp: sse_payload_def)
  have l: "str_lines (''data: '' @ p) = [''data: '' @ p]"
    using assms by (intro str_lines_single) (auto simp: sse_payload_def)
  have "is_ws '' ''" by (simp add: is_ws_def ws_chars_def)
  then have s: "trim_start ('' '' @ p) = p"
    using a(2) assms by (cases p) (auto simp: trim_start_ascii sse_payload_def)
  have "scan_lines [''data: '' @ p] None [] = (None, [p])" using s by simp
  with t l assms show ?thesis by (simp add: parse_frame_def Let_def sse_payload_def split: sum.splits)
qed

lemma next_frame_sse_frame:
  assumes "sse_payload p"
  shows "next_frame (sse_frame p @ s) = Some (''data: '' @ p, s)"
proof -
  have "NL \<notin> set (''data: '' @ p)" using assms by (simp add: sse_payload_def)
  then have "\<not> sublist lf_lf ((''data: '' @ p) @ butlast lf_lf)"
  proof -
    assume n: "NL \<notin> set (''data: '' @ p)"
    have "count_list ((''data: '' @ p) @ butlast lf_lf) NL = 1"
      using n by (simp add: lf_lf_def count_list_0_iff)
    moreover have "count_list xs NL \<ge> 2" if "sublist lf_lf xs" for xs
      using that by (auto simp: sublist_def lf_lf_def)
    ultimately show ?thesis by fastforce
  qed
  from find_sub_here [OF this, of s]
  have "find_sub lf_lf ((''data: '' @ p) @ lf_lf @ s) = Some (length (''data: '' @ p))"
    by (simp add: lf_lf_def)
  moreover have "is_ascii (''data: '' @ p)" using assms by (simp add: sse_payload_def byte_def)
  ultimately show ?thesis
    by (simp add: next_frame_cases cut_at_def sse_frame_def from_utf8_lossy_valid utf8_valid_ascii)
qed

lemma frames_sse:
  "list_all sse_payload ps \<Longrightarrow>
     frames next_frame (concat (map sse_frame ps)) = (map (\<lambda>p. ''data: '' @ p) ps, [])"
proof (induction ps)
  case Nil
  have "next_frame [] = None" by (simp add: next_frame_cases cut_at_def lf_lf_def crlf_crlf_def)
  then show ?case by (simp add: sse.frames_None)
next
  case (Cons p ps)
  then show ?case using sse.frames_Some [OF next_frame_sse_frame [of p "concat (map sse_frame ps)"]] by simp
qed

lemma decode_frames_sse:
  "list_all sse_payload ps \<Longrightarrow>
     decode_frames decode (map (\<lambda>p. ''data: '' @ p) ps) evs = map_sum id ((@) evs) (decode_payloads decode ps)"
proof (induction ps arbitrary: evs)
  case (Cons p ps)
  note frame = parse_frame_payload [of p decode]
  show ?case
  proof (cases "p = ''[DONE]''")
    case True
    with Cons frame show ?thesis by (simp del: append_Cons)
  next
    case False
    with Cons frame show ?thesis
      by (cases "decode p"; cases "decode_payloads decode ps") (simp_all del: append_Cons)
  qed
qed simp

lemma one_separator_sse: "list_all sse_payload ps \<Longrightarrow> one_separator (concat (map sse_frame ps))"
proof -
  assume ps: "list_all sse_payload ps"
  then have "CR \<notin> set (concat (map sse_frame ps))"
    by (auto simp: list_all_iff sse_payload_def sse_frame_def lf_lf_def)
  moreover have "sublist crlf_crlf s \<Longrightarrow> CR \<in> set s" for s by (auto simp: sublist_def crlf_crlf_def)
  ultimately show ?thesis unfolding one_separator_def by blast
qed

section \<open>Properties\<close>

text \<open>Claim C23: How the network cuts a stream into chunks does not matter for a stream that uses one
  kind of blank line: pushing any chunks one after the other and finishing gives the same events,
  or the same error, as pushing the whole stream at once.\<close>

theorem read_stream_chunk_independent:
  assumes "concat chunks = concat chunks'" and "one_separator (concat chunks)"
  shows "read_stream decode chunks = read_stream decode chunks'"
  using read_stream_whole [of chunks decode] read_stream_whole [of chunks' decode] assms by simp


lemma read_stream_chunk_independent_witness:
  "read_stream Inr [''data: 1'', [NL], [NL] @ ''data: 2''] = read_stream (Inr :: bytes \<Rightarrow> bytes + bytes) [''data: 1'' @ [NL, NL], ''data: 2'']"
proof (rule read_stream_chunk_independent)
  show "one_separator (concat [''data: 1'', [NL], [NL] @ ''data: 2''])"
    by (simp add: one_separator_def sublist_Cons_right crlf_crlf_def)
qed simp

text \<open>With both kinds of blank line in one stream the chunking decides the events: the same
  bytes give two events when a chunk ends after the first blank line, and one merged event when they
  arrive at once, because the whole buffer is searched for the bare blank line first.\<close>

theorem read_stream_mixed_separators:
  "read_stream Inr [''data: 1'' @ crlf_crlf, ''data: 2'' @ lf_lf] = (Inr [''1'', ''2''] :: api_error + bytes list)
   \<and> read_stream Inr [(''data: 1'' @ crlf_crlf) @ (''data: 2'' @ lf_lf)] = (Inr [''1'' @ [NL] @ ''2''] :: api_error + bytes list)"
  by code_simp


text \<open>Claim C8: Writing payloads as server-sent events and reading them back, with the stream cut into
  any chunks, gives the decoded payloads in order, nothing merged or repeated: for payloads that are each one line of ASCII
  without white space at its ends, not empty, the events are those of the payloads other than \<open>[DONE]\<close>, which ends a
  stream and is no event, and when the decoder refuses a payload the answer is the error of the first one.\<close>

theorem read_stream_round_trip:
  assumes "list_all sse_payload ps" and "concat chunks = concat (map sse_frame ps)"
  shows "read_stream decode chunks = decode_payloads decode ps"
proof -
  have one: "one_separator (concat chunks)" using assms one_separator_sse by simp
  have "frames next_frame (concat chunks) = (map (\<lambda>p. ''data: '' @ p) ps, [])"
    using assms frames_sse by simp
  moreover have nil: "map_sum id ((@) []) x = x" for x :: "api_error + 'a list" by (cases x) simp_all
  ultimately have "fst (push_loop decode (concat chunks) []) = decode_payloads decode ps"
    and "\<not> isl (decode_payloads decode ps) \<Longrightarrow> snd (push_loop decode (concat chunks) []) = []"
    using push_loop_frames [of decode "concat chunks" "[]"] decode_frames_sse [OF assms(1), of decode "[]", unfolded nil]
    by (simp_all del: append_Cons)
  then show ?thesis
    unfolding read_stream_whole [OF one]
    by (cases "push_loop decode (concat chunks) []"; cases "decode_payloads decode ps")
      (auto simp: read_stream_def push_def finish_def)
qed

lemma read_stream_round_trip_witness:
  "read_stream (\<lambda>p. if p = ''x'' then Inl ''bad'' else Inr (length p))
     [''da'', ''ta: {1}'' @ [NL], [NL] @ ''data: [DONE]'' @ lf_lf @ ''data: {22}'' @ lf_lf] = Inr [3, 4]"
proof -
  let ?d = "\<lambda>p. if p = ''x'' then Inl ''bad'' else Inr (length p)"
  have "read_stream ?d [''da'', ''ta: {1}'' @ [NL], [NL] @ ''data: [DONE]'' @ lf_lf @ ''data: {22}'' @ lf_lf]
      = decode_payloads ?d [''{1}'', ''[DONE]'', ''{22}'']"
    by (rule read_stream_round_trip)
      (simp_all add: sse_payload_def byte_def is_ws_def ws_chars_def sse_frame_def lf_lf_def)
  then show ?thesis by simp
qed

end
