(* ===== verification/Anthropic_Client.thy ===== *)
theory Anthropic_Client
  imports Anthropic_Sse
begin

text \<open>
  The Anthropic client (\<open>engine/src/anthropic/client.rs\<close>, \<open>types.rs\<close>): construction from the
  environment, sending with retries and back-off, and the event stream over the parser of
  \<open>Anthropic_Sse\<close>.  The HTTP client of \<open>reqwest\<close> and the serde readers are parameters; JSON
  values are the type variable \<open>'j\<close>.
\<close>

section \<open>Messages\<close>

datatype 'j tool_result_block = ResultText bytes | ResultJson 'j

datatype 'j input_block =
    InText bytes
  | InToolUse bytes bytes 'j
  | InToolResult bytes "'j tool_result_block list" bool

record 'j input_message =
  im_role :: bytes
  im_content :: "'j input_block list"

definition user_text :: "bytes \<Rightarrow> 'j input_message" where
  "user_text t = \<lparr>im_role = ''user'', im_content = [InText t]\<rparr>"

definition user_tool_result :: "bytes \<Rightarrow> bytes \<Rightarrow> bool \<Rightarrow> 'j input_message" where
  "user_tool_result i content err =
     \<lparr>im_role = ''user'', im_content = [InToolResult i [ResultText content] err]\<rparr>"

record 'j tool_definition =
  td_name :: bytes
  td_description :: "bytes option"
  td_schema :: 'j

datatype tool_choice = AutoChoice | AnyChoice | ToolChoice bytes

record 'j message_request =
  mq_model :: bytes
  mq_max_tokens :: "32 word"
  mq_messages :: "'j input_message list"
  mq_system :: "bytes option"
  mq_tools :: "'j tool_definition list option"
  mq_tool_choice :: "tool_choice option"
  mq_stream :: bool

definition with_streaming :: "'j message_request \<Rightarrow> 'j message_request" where
  "with_streaming q = q\<lparr>mq_stream := True\<rparr>"

datatype 'j output_block = OutText bytes | OutToolUse bytes bytes 'j

record token_usage =
  tu_input :: "32 word"
  tu_cache_creation :: "32 word"
  tu_cache_read :: "32 word"
  tu_output :: "32 word"

definition total_tokens :: "token_usage \<Rightarrow> 32 word" where
  "total_tokens u = tu_input u + tu_output u"

record 'j message_response =
  mp_id :: bytes
  mp_kind :: bytes
  mp_role :: bytes
  mp_content :: "'j output_block list"
  mp_model :: bytes
  mp_stop_reason :: "bytes option"
  mp_stop_sequence :: "bytes option"
  mp_usage :: token_usage
  mp_request_id :: "bytes option"

datatype block_delta = TextDelta bytes | InputJsonDelta bytes

datatype 'j stream_event =
    MessageStart "'j message_response"
  | MessageDelta "bytes option" "bytes option" token_usage
  | ContentBlockStart "32 word" "'j output_block"
  | ContentBlockDelta "32 word" block_delta
  | ContentBlockStop "32 word"
  | MessageStop

section \<open>The client\<close>

record client =
  cl_api_key :: bytes
  cl_auth_token :: "bytes option"
  cl_base_url :: bytes
  cl_max_retries :: nat
  cl_initial_backoff :: nat
  cl_max_backoff :: nat

definition default_base_url :: bytes where
  "default_base_url = ''https://api.anthropic.com''"

text \<open>Durations are in nanoseconds.\<close>

definition new_client :: "bytes \<Rightarrow> client" where
  "new_client key =
     \<lparr>cl_api_key = key, cl_auth_token = None, cl_base_url = default_base_url, cl_max_retries = 2,
      cl_initial_backoff = 200 * 10 ^ 6, cl_max_backoff = 2 * 10 ^ 9\<rparr>"

definition with_auth_token :: "bytes option \<Rightarrow> client \<Rightarrow> client" where
  "with_auth_token tok c =
     c\<lparr>cl_auth_token := (case tok of Some t \<Rightarrow> if t = [] then None else Some t | None \<Rightarrow> None)\<rparr>"

definition with_base_url :: "bytes \<Rightarrow> client \<Rightarrow> client" where
  "with_base_url u c = c\<lparr>cl_base_url := u\<rparr>"

definition with_retry_policy :: "nat \<Rightarrow> nat \<Rightarrow> nat \<Rightarrow> client \<Rightarrow> client" where
  "with_retry_policy n i m c = c\<lparr>cl_max_retries := n, cl_initial_backoff := i, cl_max_backoff := m\<rparr>"

definition read_api_key :: "env \<Rightarrow> api_error + bytes" where
  "read_api_key env =
     (case env ''ANTHROPIC_API_KEY'' of
        Inr k \<Rightarrow> if k \<noteq> [] then Inr k else Inl MissingApiKey
      | Inl NotPresent \<Rightarrow>
          (case env ''ANTHROPIC_AUTH_TOKEN'' of
             Inr k \<Rightarrow> if k \<noteq> [] then Inr k else Inl MissingApiKey
           | Inl NotPresent \<Rightarrow> Inl MissingApiKey
           | Inl e \<Rightarrow> Inl (InvalidApiKeyEnv e))
      | Inl e \<Rightarrow> Inl (InvalidApiKeyEnv e))"

definition read_auth_token :: "env \<Rightarrow> bytes option" where
  "read_auth_token env =
     (case env ''ANTHROPIC_AUTH_TOKEN'' of Inr t \<Rightarrow> if t \<noteq> [] then Some t else None | Inl _ \<Rightarrow> None)"

definition read_base_url :: "env \<Rightarrow> bytes" where
  "read_base_url env = (case env ''ANTHROPIC_BASE_URL'' of Inr u \<Rightarrow> u | Inl _ \<Rightarrow> default_base_url)"

definition client_from_env :: "env \<Rightarrow> api_error + client" where
  "client_from_env env =
     (case read_api_key env of
        Inl e \<Rightarrow> Inl e
      | Inr k \<Rightarrow> Inr (with_base_url (read_base_url env) (with_auth_token (read_auth_token env) (new_client k))))"

section \<open>Sending\<close>

text \<open>A response: a header is absent, or present with a text or without one; the body is read as
  text, as a message, or chunk by chunk.\<close>

record 'j response =
  rs_status :: nat
  rs_header :: "bytes \<Rightarrow> bytes option option"
  rs_text :: "http_error + bytes"
  rs_message :: "http_error + 'j message_response"
  rs_chunks :: "(http_error + bytes) list"

type_synonym ('j, 'w) transport =
  "bytes \<Rightarrow> (bytes \<times> bytes) list \<Rightarrow> 'j message_request \<Rightarrow> 'w \<Rightarrow> (http_error + 'j response) \<times> 'w"

text \<open>What a request does besides the call: the diagnostic lines, the request itself, the pauses.\<close>

datatype 'j client_action =
    Diag bytes
  | Request bytes "(bytes \<times> bytes) list" "'j message_request"
  | Pause nat

definition retryable_status :: "nat \<Rightarrow> bool" where
  "retryable_status s \<longleftrightarrow> s \<in> {408, 409, 429, 500, 502, 503, 504}"

text \<open>\<open>envelope\<close> reads the error type and message of a body, if it has them.\<close>

definition expect_success ::
  "(bytes \<Rightarrow> (bytes \<times> bytes) option) \<Rightarrow> 'j response \<Rightarrow> api_error + 'j response" where
  "expect_success envelope r =
     (if 200 \<le> rs_status r \<and> rs_status r < 300 then Inr r
      else (let body = (case rs_text r of Inr t \<Rightarrow> t | Inl _ \<Rightarrow> []); parsed = envelope body in
            Inl (ApiErr (rs_status r) (map_option fst parsed) (map_option snd parsed) body
                   (retryable_status (rs_status r)))))"

definition base_trimmed :: "client \<Rightarrow> bytes" where
  "base_trimmed c = trim_end_matches CHR ''/'' (cl_base_url c)"

definition request_url :: "client \<Rightarrow> bytes" where
  "request_url c = base_trimmed c @ ''/v1/messages''"

definition request_headers :: "client \<Rightarrow> (bytes \<times> bytes) list" where
  "request_headers c =
     [(''x-api-key'', cl_api_key c), (''anthropic-version'', ''2023-06-01''), (''content-type'', ''application/json'')]
     @ (case cl_auth_token c of Some t \<Rightarrow> [(''authorization'', ''Bearer '' @ t)] | None \<Rightarrow> [])"

definition diag_lines :: "client \<Rightarrow> bytes list" where
  "diag_lines c =
     [''[anthropic-client] resolved_base_url='' @ base_trimmed c,
      ''[anthropic-client] request_url='' @ request_url c,
      ''[anthropic-client] headers x-api-key=[REDACTED] authorization=''
        @ (case cl_auth_token c of Some _ \<Rightarrow> ''Bearer [REDACTED]'' | None \<Rightarrow> ''<absent>'')
        @ '' anthropic-version=2023-06-01 content-type=application/json'']"

definition send_raw_request ::
  "('j, 'w) transport \<Rightarrow> client \<Rightarrow> 'j message_request \<Rightarrow> 'w
     \<Rightarrow> (api_error + 'j response) \<times> 'j client_action list \<times> 'w" where
  "send_raw_request send c req w =
     (let (res, w') = send (request_url c) (request_headers c) req w in
      (case res of Inl e \<Rightarrow> Inl (HttpErr e) | Inr r \<Rightarrow> Inr r,
       map Diag (diag_lines c) @ [Request (request_url c) (request_headers c) req], w'))"

text \<open>\<open>checked_shl\<close> on 32 bits, and \<open>Duration::checked_mul\<close>, which fails at \<open>2^64\<close> seconds.\<close>

definition backoff_for_attempt :: "client \<Rightarrow> nat \<Rightarrow> api_error + nat" where
  "backoff_for_attempt c attempt =
     (if 32 \<le> attempt - 1 then Inl (BackoffOverflow attempt (cl_initial_backoff c))
      else (let d = cl_initial_backoff c * 2 ^ (attempt - 1) in
            Inr (if d < 2 ^ 64 * 10 ^ 9 then min d (cl_max_backoff c) else cl_max_backoff c)))"

text \<open>
  The retry loop after \<open>attempts\<close> attempts.  \<open>max_retries + 1\<close> is a 32-bit sum, which wraps in a
  release build.  Every turn that reaches the end of the loop has stored its error, so the
  \<open>expect\<close> after the loop has one.
\<close>

function send_loop ::
  "('j, 'w) transport \<Rightarrow> (bytes \<Rightarrow> (bytes \<times> bytes) option) \<Rightarrow> client \<Rightarrow> 'j message_request \<Rightarrow> nat
     \<Rightarrow> 'j client_action list \<Rightarrow> 'w \<Rightarrow> (api_error + 'j response) \<times> 'j client_action list \<times> 'w" where
  "send_loop send envelope c req n acts w =
     (let attempts = n + 1;
          (raw, new, w1) = send_raw_request send c req w;
          acts1 = acts @ new
      in case (case raw of Inl e \<Rightarrow> Inl e | Inr r \<Rightarrow> expect_success envelope r) of
           Inr r \<Rightarrow> (Inr r, acts1, w1)
         | Inl e \<Rightarrow>
             if \<not> (retryable e \<and> attempts \<le> (cl_max_retries c + 1) mod 2 ^ 32) then (Inl e, acts1, w1)
             else if cl_max_retries c < attempts then (Inl (RetriesExhausted attempts e), acts1, w1)
             else (case backoff_for_attempt c attempts of
                     Inl e' \<Rightarrow> (Inl e', acts1, w1)
                   | Inr d \<Rightarrow> send_loop send envelope c req attempts (acts1 @ [Pause d]) w1))"
  by pat_completeness auto
termination
  by (relation "measure (\<lambda>(send, envelope, c, req, n, acts, w). cl_max_retries c - n)") auto

declare send_loop.simps [simp del]

definition send_with_retry ::
  "('j, 'w) transport \<Rightarrow> (bytes \<Rightarrow> (bytes \<times> bytes) option) \<Rightarrow> client \<Rightarrow> 'j message_request \<Rightarrow> 'w
     \<Rightarrow> (api_error + 'j response) \<times> 'j client_action list \<times> 'w" where
  "send_with_retry send envelope c req w = send_loop send envelope c req 0 [] w"

definition request_id_from_headers :: "'j response \<Rightarrow> bytes option" where
  "request_id_from_headers r =
     (case (case rs_header r ''request-id'' of Some v \<Rightarrow> Some v | None \<Rightarrow> rs_header r ''x-request-id'') of
        Some v \<Rightarrow> v
      | None \<Rightarrow> None)"

definition send_message ::
  "('j, 'w) transport \<Rightarrow> (bytes \<Rightarrow> (bytes \<times> bytes) option) \<Rightarrow> client \<Rightarrow> 'j message_request \<Rightarrow> 'w
     \<Rightarrow> (api_error + 'j message_response) \<times> 'j client_action list \<times> 'w" where
  "send_message send envelope c req w =
     (case send_with_retry send envelope c (req\<lparr>mq_stream := False\<rparr>) w of
        (Inl e, acts, w') \<Rightarrow> (Inl e, acts, w')
      | (Inr r, acts, w') \<Rightarrow>
          (case rs_message r of
             Inl e \<Rightarrow> (Inl (HttpErr e), acts, w')
           | Inr m \<Rightarrow>
               (Inr (if mp_request_id m = None then m\<lparr>mp_request_id := request_id_from_headers r\<rparr> else m), acts, w')))"

section \<open>The event stream\<close>

text \<open>The response is what is left of its chunks.\<close>

record 'ev message_stream =
  ms_request_id :: "bytes option"
  ms_chunks :: "(http_error + bytes) list"
  ms_buffer :: bytes
  ms_pending :: "'ev list"
  ms_done :: bool

definition open_stream :: "'j response \<Rightarrow> 'ev message_stream" where
  "open_stream r =
     \<lparr>ms_request_id = request_id_from_headers r, ms_chunks = rs_chunks r, ms_buffer = [],
      ms_pending = [], ms_done = False\<rparr>"

definition stream_message ::
  "('j, 'w) transport \<Rightarrow> (bytes \<Rightarrow> (bytes \<times> bytes) option) \<Rightarrow> client \<Rightarrow> 'j message_request \<Rightarrow> 'w
     \<Rightarrow> (api_error + 'ev message_stream) \<times> 'j client_action list \<times> 'w" where
  "stream_message send envelope c req w =
     (case send_with_retry send envelope c (with_streaming req) w of
        (Inl e, acts, w') \<Rightarrow> (Inl e, acts, w')
      | (Inr r, acts, w') \<Rightarrow> (Inr (open_stream r), acts, w'))"

function next_event ::
  "(bytes \<Rightarrow> bytes + 'ev) \<Rightarrow> 'ev message_stream \<Rightarrow> (api_error + 'ev option) \<times> 'ev message_stream" where
  "next_event decode s =
     (case ms_pending s of
        ev # rest \<Rightarrow> (Inr (Some ev), s\<lparr>ms_pending := rest\<rparr>)
      | [] \<Rightarrow>
          if ms_done s then
            (case finish decode (ms_buffer s) of
               (Inl e, b) \<Rightarrow> (Inl e, s\<lparr>ms_buffer := b\<rparr>)
             | (Inr [], b) \<Rightarrow> (Inr None, s\<lparr>ms_buffer := b\<rparr>)
             | (Inr (ev # rest), b) \<Rightarrow> (Inr (Some ev), s\<lparr>ms_buffer := b, ms_pending := rest\<rparr>))
          else
            (case ms_chunks s of
               [] \<Rightarrow> next_event decode (s\<lparr>ms_done := True\<rparr>)
             | Inl e # cs \<Rightarrow> (Inl (HttpErr e), s\<lparr>ms_chunks := cs\<rparr>)
             | Inr c # cs \<Rightarrow>
                 (case push decode (ms_buffer s) c of
                    (Inl e, b) \<Rightarrow> (Inl e, s\<lparr>ms_chunks := cs, ms_buffer := b\<rparr>)
                  | (Inr evs, b) \<Rightarrow>
                      next_event decode (s\<lparr>ms_chunks := cs, ms_buffer := b, ms_pending := evs\<rparr>))))"
  by pat_completeness auto
termination
  by (relation "measure (\<lambda>(d, s). 2 * length (ms_chunks s) + (if ms_done s then 0 else 1))") auto

declare next_event.simps [simp del]


section \<open>Facts on sending\<close>

fun requests :: "'j client_action list \<Rightarrow> nat" where
  "requests [] = 0"
| "requests (Request u h q # as) = Suc (requests as)"
| "requests (Diag l # as) = requests as"
| "requests (Pause d # as) = requests as"

fun pauses :: "'j client_action list \<Rightarrow> nat list" where
  "pauses [] = []"
| "pauses (Pause d # as) = d # pauses as"
| "pauses (Request u h q # as) = pauses as"
| "pauses (Diag l # as) = pauses as"

lemma requests_append [simp]: "requests (as @ bs) = requests as + requests bs"
  by (induction as rule: requests.induct) auto

lemma pauses_append [simp]: "pauses (as @ bs) = pauses as @ pauses bs"
  by (induction as rule: pauses.induct) auto

lemma diag_counts [simp]: "requests (map Diag ls) = 0" "pauses (map Diag ls) = []"
  by (induction ls) auto

lemma send_raw_request_facts:
  assumes "send_raw_request send c req w = (raw, new, w1)"
  shows "requests new = 1" "pauses new = []" "\<forall>l. Diag l \<in> set new \<longrightarrow> l \<in> set (diag_lines c)"
    "raw = Inl e \<Longrightarrow> \<exists>h. e = HttpErr h"
  using assms by (auto simp: send_raw_request_def split: prod.splits sum.splits)

lemma expect_success_facts:
  "expect_success envelope r = Inr r' \<Longrightarrow> r' = r \<and> 200 \<le> rs_status r \<and> rs_status r < 300"
  "expect_success envelope r = Inl e \<Longrightarrow> \<exists>s t m b. e = ApiErr s t m b (retryable_status s)"
  by (auto simp: expect_success_def Let_def split: if_splits)

text \<open>The outcome of one attempt is never an exhausted or overflowing error.\<close>

definition attempt_error :: "api_error \<Rightarrow> bool" where
  "attempt_error e \<longleftrightarrow> (\<exists>h. e = HttpErr h) \<or> (\<exists>s t m b r. e = ApiErr s t m b r)"

text \<open>What a send may answer, after how many requests and with which pauses.\<close>

definition send_outcome :: "client \<Rightarrow> nat \<Rightarrow> (api_error + 'j response) \<Rightarrow> bool" where
  "send_outcome c k res =
     (case res of
        Inr r \<Rightarrow> 200 \<le> rs_status r \<and> rs_status r < 300
      | Inl (RetriesExhausted n e) \<Rightarrow> n = k \<and> k = cl_max_retries c + 1 \<and> retryable e \<and> attempt_error e
      | Inl (BackoffOverflow n d) \<Rightarrow> n = k \<and> 32 < n
      | Inl e \<Rightarrow> attempt_error e \<and> \<not> retryable e)"

lemma send_outcome_attempt_error:
  "attempt_error e \<Longrightarrow> \<not> retryable e \<Longrightarrow> send_outcome c k (Inl e)"
  by (auto simp: send_outcome_def attempt_error_def)

lemma backoff_overflow_iff:
  "(\<exists>e. backoff_for_attempt c a = Inl e) \<longleftrightarrow> 32 < a"
  "backoff_for_attempt c a = Inl e \<Longrightarrow> e = BackoffOverflow a (cl_initial_backoff c)"
  by (auto simp: backoff_for_attempt_def Let_def split: if_splits)

lemma send_loop_facts:
  assumes "send_loop send envelope c req n acts w = (res, acts', w')"
    and "n \<le> cl_max_retries c" "cl_max_retries c + 1 < 2 ^ 32"
    and "requests acts = n" "pauses acts = map (\<lambda>k. projr (backoff_for_attempt c k)) [1..<n + 1]"
  shows "requests acts' \<le> cl_max_retries c + 1 \<and> 0 < requests acts' \<and> send_outcome c (requests acts') res
    \<and> pauses acts' = map (\<lambda>k. projr (backoff_for_attempt c k)) [1..<requests acts']"
  using assms
proof (induction send envelope c req n acts w rule: send_loop.induct)
  case (1 send envelope c req n acts w)
  obtain raw new w1 where raw: "send_raw_request send c req w = (raw, new, w1)" by (metis prod_cases3)
  note new = send_raw_request_facts [OF raw]
  define out where "out = (case raw of Inl e \<Rightarrow> Inl e | Inr r \<Rightarrow> expect_success envelope r)"
  have counts: "requests (acts @ new) = n + 1"
    "pauses (acts @ new) = map (\<lambda>k. projr (backoff_for_attempt c k)) [1..<n + 1]"
    using new(1,2) "1.prems"(4,5) by simp_all
  have fits: "(cl_max_retries c + 1) mod 2 ^ 32 = cl_max_retries c + 1" using "1.prems"(3) by simp
  note unfold = send_loop.simps [of send envelope c req n acts w]
  show ?case
  proof (cases out)
    case (Inr r)
    then have ok: "200 \<le> rs_status r" "rs_status r < 300"
      using expect_success_facts(1) [of envelope _ r] by (auto simp: out_def split: sum.splits)
    from "1.prems"(1) have "res = Inr r" "acts' = acts @ new"
      using Inr raw by (simp_all add: unfold out_def [symmetric])
    with ok counts "1.prems"(2) show ?thesis by (simp add: send_outcome_def)
  next
    case (Inl e)
    then have ae: "attempt_error e"
      using new(4) expect_success_facts(2) [of envelope _ e] by (force simp: out_def attempt_error_def split: sum.splits)
    show ?thesis
    proof (cases "retryable e")
      case False
      with "1.prems"(1) have "res = Inl e" "acts' = acts @ new"
        using Inl raw by (simp_all add: unfold out_def [symmetric])
      with counts ae False "1.prems"(2) show ?thesis by (simp add: send_outcome_attempt_error)
    next
      case True
      show ?thesis
      proof (cases "n < cl_max_retries c")
        case False
        have lim: "n + 1 \<le> (cl_max_retries c + 1) mod 2 ^ 32" "cl_max_retries c < n + 1"
          using False "1.prems"(2) fits by simp_all
        have "send_loop send envelope c req n acts w = (Inl (RetriesExhausted (n + 1) e), acts @ new, w1)"
          using Inl raw True fits lim(2) unfold "1.prems"(2)
          by (simp only: Let_def prod.case out_def [symmetric] sum.case) simp
        with "1.prems"(1) have "res = Inl (RetriesExhausted (n + 1) e)" "acts' = acts @ new" by simp_all
        moreover from False "1.prems"(2) have n: "n = cl_max_retries c" by simp
        ultimately show ?thesis using counts ae True by (simp add: send_outcome_def)
      next
        case less: True
        show ?thesis
        proof (cases "backoff_for_attempt c (n + 1)")
          case o: (Inl e')
          with "1.prems"(1) fits less have "res = Inl e'" "acts' = acts @ new"
            using Inl raw True by (simp_all add: unfold out_def [symmetric])
          with o counts less backoff_overflow_iff [of c "n + 1"] show ?thesis
            by (auto simp: send_outcome_def)
        next
          case (Inr d)
          with "1.prems"(1) fits less have
            "send_loop send envelope c req (n + 1) ((acts @ new) @ [Pause d]) w1 = (res, acts', w')"
            using Inl raw True by (simp add: unfold out_def [symmetric])
          moreover have "retryable e \<and> n + 1 \<le> (cl_max_retries c + 1) mod 2 ^ 32" using True fits less by simp
          moreover have "pauses ((acts @ new) @ [Pause d]) = map (\<lambda>k. projr (backoff_for_attempt c k)) [1..<n + 1 + 1]"
            using counts(2) Inr by simp
          ultimately show ?thesis
            using "1.IH" [OF refl refl raw [symmetric] refl refl, of e d] counts less "1.prems"(3) Inl Inr
            by (simp add: out_def [symmetric])
        qed
      qed
    qed
  qed
qed


section \<open>Facts on the event stream\<close>

definition turn_order :: "('ev message_stream \<times> 'ev message_stream) set" where
  "turn_order = measures [\<lambda>s. length (ms_chunks s), \<lambda>s. if ms_done s then 0 else 1,
     \<lambda>s. if ms_buffer s = [] then 0 else 1, \<lambda>s. length (ms_pending s)]"

lemma finish_buffer: "finish decode b = (res, b') \<Longrightarrow> b' = []"
  by (auto simp: finish_def split: if_splits sum.splits option.splits)

lemma next_event_decreases: "next_event decode s = (Inr (Some ev), s') \<Longrightarrow> (s', s) \<in> turn_order"
proof (induction decode s rule: next_event.induct)
  case (1 decode s)
  note unfold = next_event.simps [of decode s]
  show ?case
  proof (cases "ms_pending s")
    case (Cons e rest)
    with "1.prems" show ?thesis by (auto simp: unfold turn_order_def)
  next
    case Nil
    show ?thesis
    proof (cases "ms_done s")
      case True
      with Nil "1.prems" show ?thesis
        by (auto simp: unfold turn_order_def finish_def split: prod.splits sum.splits list.splits if_splits option.splits)
    next
      case False
      show ?thesis
      proof (cases "ms_chunks s")
        case c: Nil
        with Nil False "1.prems" have "next_event decode (s\<lparr>ms_done := True\<rparr>) = (Inr (Some ev), s')"
          by (simp add: unfold)
        with "1.IH"(1) Nil False c show ?thesis by (auto simp: turn_order_def)
      next
        case (Cons x cs)
        then obtain c evs b where x: "x = Inr c" "push decode (ms_buffer s) c = (Inr evs, b)"
          "next_event decode (s\<lparr>ms_chunks := cs, ms_buffer := b, ms_pending := evs\<rparr>) = (Inr (Some ev), s')"
          using Nil False "1.prems" by (auto simp: unfold split: sum.splits prod.splits)
        with "1.IH"(2) [of x cs c "Inr evs" b evs] Nil False Cons show ?thesis by (auto simp: turn_order_def)
      qed
    qed
  qed
qed

lemma turn_order_wf [simp]: "wf turn_order"
  by (simp add: turn_order_def)

text \<open>Everything the stream delivers, and the error that ends it, if one does.\<close>

function collect :: "(bytes \<Rightarrow> bytes + 'ev) \<Rightarrow> 'ev message_stream \<Rightarrow> 'ev list \<times> api_error option" where
  "collect decode s =
     (case next_event decode s of
        (Inl e, s') \<Rightarrow> ([], Some e)
      | (Inr None, s') \<Rightarrow> ([], None)
      | (Inr (Some ev), s') \<Rightarrow> (ev # fst (collect decode s'), snd (collect decode s')))"
  by pat_completeness auto
termination
  by (relation "inv_image turn_order snd") (auto intro: wf_inv_image next_event_decreases [OF sym])

declare collect.simps [simp del]

lemma collect_pending:
  "collect decode (s\<lparr>ms_pending := p\<rparr>) =
     (p @ fst (collect decode (s\<lparr>ms_pending := []\<rparr>)), snd (collect decode (s\<lparr>ms_pending := []\<rparr>)))"
proof (induction p)
  case (Cons ev p)
  have "collect decode (s\<lparr>ms_pending := ev # p\<rparr>) =
      (ev # fst (collect decode (s\<lparr>ms_pending := p\<rparr>)), snd (collect decode (s\<lparr>ms_pending := p\<rparr>)))"
    by (subst collect.simps) (simp add: next_event.simps [of _ "s\<lparr>ms_pending := ev # p\<rparr>"])
  with Cons show ?case by simp
qed simp

lemma collect_cong: "next_event decode s = next_event decode s' \<Longrightarrow> collect decode s = collect decode s'"
  by (simp add: collect.simps [of decode s] collect.simps [of decode s'])

lemma collect_done:
  assumes "fst (finish decode b) = Inr new"
  shows "collect decode \<lparr>ms_request_id = i, ms_chunks = [], ms_buffer = b, ms_pending = [], ms_done = d\<rparr> = (new, None)"
proof -
  let ?s = "\<lambda>b p d. \<lparr>ms_request_id = i, ms_chunks = [], ms_buffer = b, ms_pending = p, ms_done = d\<rparr>"
  have fin: "finish decode b = (Inr new, [])" using assms finish_buffer by (metis prod.collapse)
  have empty: "collect decode (?s [] [] True) = ([], None)"
    by (simp add: collect.simps next_event.simps [of _ "?s [] [] True"] finish_def)
  have pend: "collect decode (?s [] p True) = (p, None)" for p
    using collect_pending [of decode p "?s [] [] True"] empty by simp
  have "collect decode (?s b [] True) = (new, None)"
    using fin pend by (cases new) (simp_all add: collect.simps [of _ "?s b [] True"] next_event.simps [of _ "?s b [] True"])
  moreover have "collect decode (?s b [] d) = collect decode (?s b [] True)"
    by (rule collect_cong, cases d) (simp_all add: next_event.simps [of _ "?s b [] False"])
  ultimately show ?thesis by simp
qed

lemma collect_chunks:
  assumes "push_all decode b cs evs = (Inr r, b')" and "fst (finish decode b') = Inr new"
  shows "\<exists>es. r = evs @ es \<and> collect decode
    \<lparr>ms_request_id = i, ms_chunks = map Inr cs, ms_buffer = b, ms_pending = [], ms_done = False\<rparr> = (es @ new, None)"
  using assms(1)
proof (induction cs arbitrary: b evs)
  case Nil
  then show ?case using collect_done [OF assms(2)] by auto
next
  case (Cons c cs)
  let ?s = "\<lambda>b p cs. \<lparr>ms_request_id = i, ms_chunks = map Inr cs, ms_buffer = b, ms_pending = p, ms_done = False\<rparr>"
  from Cons.prems obtain ns b1 where p: "push decode b c = (Inr ns, b1)"
    and rest: "push_all decode b1 cs (evs @ ns) = (Inr r, b')"
    by (auto split: prod.splits sum.splits)
  from Cons.IH [OF rest] obtain es where es: "r = (evs @ ns) @ es" "collect decode (?s b1 [] cs) = (es @ new, None)"
    by blast
  have "collect decode (?s b [] (c # cs)) = collect decode (?s b1 ns cs)"
    by (intro collect_cong, subst next_event.simps) (simp add: p)
  also have "\<dots> = (ns @ es @ new, None)"
    using collect_pending [of decode ns "?s b1 [] cs"] es(2) by simp
  finally show ?case using es(1) by auto
qed

section \<open>Concrete inputs\<close>

definition demo_response :: "nat \<Rightarrow> bytes list \<Rightarrow> unit response" where
  "demo_response status chunks =
     \<lparr>rs_status = status, rs_header = (\<lambda>_. None), rs_text = Inr ''busy'',
      rs_message = Inl \<lparr>he_connect = False, he_timeout = False, he_request = False, he_text = []\<rparr>,
      rs_chunks = map Inr chunks\<rparr>"

definition demo_request :: "unit message_request" where
  "demo_request = \<lparr>mq_model = ''m'', mq_max_tokens = 1, mq_messages = [], mq_system = None, mq_tools = None,
     mq_tool_choice = None, mq_stream = False\<rparr>"

definition refused :: http_error where
  "refused = \<lparr>he_connect = True, he_timeout = False, he_request = False, he_text = ''refused''\<rparr>"

section \<open>Properties\<close>

text \<open>Claim C16: Sending makes between one and \<open>max_retries + 1\<close> requests.  It answers with a success
  status; or with an error that is not retryable; or, after exactly \<open>max_retries + 1\<close> requests, with
  \<open>RetriesExhausted\<close> around the last retryable error; or with the back-off overflow, beyond 32
  attempts.  Between two requests it pauses for exactly the back-off of the attempt just made.\<close>

theorem send_with_retry_bounded:
  assumes "send_with_retry send envelope c req w = (res, acts, w')" and "cl_max_retries c + 1 < 2 ^ 32"
  shows "0 < requests acts \<and> requests acts \<le> cl_max_retries c + 1 \<and> send_outcome c (requests acts) res
    \<and> pauses acts = map (\<lambda>k. projr (backoff_for_attempt c k)) [1..<requests acts]"
  using send_loop_facts [of send envelope c req 0 "[]" w res acts w'] assms
  by (simp add: send_with_retry_def)

lemma send_with_retry_bounded_witness:
  "\<exists>res acts w'. send_with_retry (\<lambda>u h q w. (Inr (demo_response 503 []), Suc w)) (\<lambda>_. None) (new_client ''k'')
       demo_request 0 = (res, acts, w') \<and> requests acts \<le> 3 \<and> send_outcome (new_client ''k'') (requests acts) res"
proof -
  obtain res acts w' where r: "send_with_retry (\<lambda>u h q w. (Inr (demo_response 503 []), Suc w)) (\<lambda>_. None)
      (new_client ''k'') demo_request 0 = (res, acts, w')" by (metis prod_cases3)
  have "cl_max_retries (new_client ''k'') + 1 < 2 ^ 32" by (simp add: new_client_def)
  from send_with_retry_bounded [OF r this] r show ?thesis by (auto simp: new_client_def)
qed

text \<open>With the largest 32-bit retry limit the bound \<open>max_retries + 1\<close> wraps to zero, so the
  client that asks for the most retries makes none: it returns the first retryable error as it is.\<close>

theorem send_with_retry_limit_wraps:
  assumes "cl_max_retries c = 2 ^ 32 - 1" and "fst (send (request_url c) (request_headers c) req w) = Inl h"
  shows "fst (send_with_retry send envelope c req w) = Inl (HttpErr h)
    \<and> requests (fst (snd (send_with_retry send envelope c req w))) = 1"
  using assms by (auto simp: send_with_retry_def send_loop.simps [of send envelope c req 0] send_raw_request_def
      Let_def split: prod.splits)

lemma send_with_retry_limit_wraps_witness:
  "fst (send_with_retry (\<lambda>u h q w. (Inl refused, Suc w)) (\<lambda>_. None)
     (with_retry_policy (2 ^ 32 - 1) 0 0 (new_client ''k'')) demo_request 0) = Inl (HttpErr refused)"
  using send_with_retry_limit_wraps [of "with_retry_policy (2 ^ 32 - 1) 0 0 (new_client ''k'')"
      "\<lambda>u h q w. (Inl refused, Suc w)" demo_request 0 refused "\<lambda>_. None"]
  by (simp add: with_retry_policy_def)

text \<open>The pause before retry \<open>k\<close> doubles from the initial delay and never exceeds the
  maximal one, and is defined for the first 32 attempts; only attempts beyond overflow.\<close>

theorem backoff_for_attempt_doubles:
  assumes "cl_max_backoff c < 2 ^ 64 * 10 ^ 9"
  shows "backoff_for_attempt c k =
    (if k \<le> 32 then Inr (min (cl_initial_backoff c * 2 ^ (k - 1)) (cl_max_backoff c))
     else Inl (BackoffOverflow k (cl_initial_backoff c)))"
  using assms by (auto simp: backoff_for_attempt_def Let_def min_def)

lemma backoff_for_attempt_doubles_witness:
  "backoff_for_attempt (new_client ''k'') 3 = Inr (800 * 10 ^ 6)"
  using backoff_for_attempt_doubles [of "new_client ''k''" 3] by (simp add: new_client_def)

text \<open>The diagnostic lines of a send never depend on the secrets: whatever the API key and the
  value of the token, each line is one of the lines of the client with both blanked out.\<close>

theorem diagnostics_redacted:
  "case send_raw_request send c req w of (raw, acts, w') \<Rightarrow>
     filter (\<lambda>a. \<exists>l. a = Diag l) acts =
       map Diag (diag_lines (c\<lparr>cl_api_key := k, cl_auth_token := map_option (\<lambda>_. t) (cl_auth_token c)\<rparr>))"
  by (simp add: send_raw_request_def diag_lines_def base_trimmed_def request_url_def
      split: prod.splits option.splits)

text \<open>Claim C14: Reading a stream event by event delivers exactly the events of the parser run over all
  its chunks, and then the end: nothing is lost or repeated between the chunk reader, the queue of
  pending events and the final flush.\<close>

theorem stream_delivers_all:
  assumes "rs_chunks r = map Inr chunks" and "read_stream decode chunks = Inr evs"
  shows "collect decode (open_stream r) = (evs, None)"
proof -
  obtain es b' new where "push_all decode [] chunks [] = (Inr es, b')" "fst (finish decode b') = Inr new"
    "evs = es @ new"
    using assms(2) by (auto simp: read_stream_def split: prod.splits sum.splits)
  with collect_chunks [of decode "[]" chunks "[]" es b' new "request_id_from_headers r"] assms(1)
  show ?thesis by (auto simp: open_stream_def)
qed


lemma stream_delivers_all_witness:
  "collect (\<lambda>p. Inr p) (open_stream (demo_response 200 [''data: a'', lf_lf @ ''data: b'' @ lf_lf])) = ([''a'', ''b''], None)"
proof (rule stream_delivers_all [of _ "[''data: a'', lf_lf @ ''data: b'' @ lf_lf]"])
  show "read_stream (\<lambda>p. Inr p) [''data: a'', lf_lf @ ''data: b'' @ lf_lf] = Inr [''a'', ''b'']" by code_simp
qed (simp add: demo_response_def)

text \<open>Which events a reader sees before a malformed frame depends on the chunks: the events
  decoded in the same chunk before the malformed frame are dropped with it, while the same frames in
  a chunk of their own are delivered first.\<close>

theorem error_drops_events_of_chunk:
  "let decode = (\<lambda>p. if p = ''bad'' then Inl ''syntax'' else Inr p);
       good = ''data: a'' @ lf_lf; bad = ''data: bad'' @ lf_lf in
   collect decode (open_stream (demo_response 200 [good, bad])) = ([''a''], Some (JsonErr ''syntax'')) \<and>
   collect decode (open_stream (demo_response 200 [good @ bad])) = ([], Some (JsonErr ''syntax''))"
  by code_simp

end
