(* ===== verification/Wasi_Http.thy ===== *)
theory Wasi_Http
  imports RustStr Splitter
begin

text \<open>
  The HTTP/1.1 client of the sandbox (\<open>libs/wasi-http/src/lib.rs\<close>): URLs, requests, the reading
  of responses with their three body framings, and the reader of server-sent events.  The socket
  calls of the host are the record \<open>host\<close>; the loops that wait for the host are partial functions,
  whose \<open>None\<close> is a loop that never ends.  \<open>usize\<close> has 32 bits.
\<close>

section \<open>Results\<close>

datatype http_err =
    InvalidUrl bytes | Dns bytes | Socket bytes | Tls bytes | Protocol bytes | Io bytes

datatype 'a outcome = Done 'a | Fail http_err | Panic

text \<open>The texts of the library's decoding errors.\<close>

record err_texts =
  et_utf8 :: "bytes \<Rightarrow> bytes"
  et_int :: "bytes \<Rightarrow> bytes"

section \<open>Methods and URLs\<close>

datatype http_method = Get | Post | Put | Delete | Patch | Head

fun show_method :: "http_method \<Rightarrow> bytes" where
  "show_method Get = ''GET''"
| "show_method Post = ''POST''"
| "show_method Put = ''PUT''"
| "show_method Delete = ''DELETE''"
| "show_method Patch = ''PATCH''"
| "show_method Head = ''HEAD''"

record url =
  ur_scheme :: bytes
  ur_host :: bytes
  ur_port :: nat
  ur_path :: bytes

definition split_scheme :: "bytes \<Rightarrow> http_err + bytes \<times> bytes" where
  "split_scheme u =
     (case strip_prefix ''https://'' u of
        Some rest \<Rightarrow> Inr (''https'', rest)
      | None \<Rightarrow>
          (case strip_prefix ''http://'' u of
             Some rest \<Rightarrow> Inr (''http'', rest)
           | None \<Rightarrow> Inl (InvalidUrl (''unsupported scheme in: '' @ u))))"

text \<open>The authority: a bracketed address with an optional port, or a name with one.\<close>

definition parse_port :: "bytes \<Rightarrow> http_err + nat" where
  "parse_port s = (case parse_u16 s of Some p \<Rightarrow> Inr p | None \<Rightarrow> Inl (InvalidUrl ''bad port''))"

definition split_authority :: "nat \<Rightarrow> bytes \<Rightarrow> http_err + bytes \<times> nat" where
  "split_authority default_port authority =
     (case split_once CHR '']'' authority of
        Some (a, b) \<Rightarrow>
          (case b of
             c # ds \<Rightarrow>
               if c = CHR '':'' then map_sum id (\<lambda>p. (a @ '']'', p)) (parse_port ds)
               else Inr (a @ '']'', default_port)
           | [] \<Rightarrow> Inr (a @ '']'', default_port))
      | None \<Rightarrow>
          (case rsplit_once CHR '':'' authority of
             Some (a, b) \<Rightarrow> map_sum id (\<lambda>p. (a, p)) (parse_port b)
           | None \<Rightarrow> Inr (authority, default_port)))"

definition parse_url :: "bytes \<Rightarrow> http_err + url" where
  "parse_url u =
     (case split_scheme u of
        Inl e \<Rightarrow> Inl e
      | Inr (scheme, rest) \<Rightarrow>
          (let default_port = (if scheme = ''https'' then 443 else 80);
               (authority, path) = (case split_once CHR ''/'' rest of
                                      Some (a, b) \<Rightarrow> (a, CHR ''/'' # b) | None \<Rightarrow> (rest, ''/''))
           in case split_authority default_port authority of
                Inl e \<Rightarrow> Inl e
              | Inr (h, p) \<Rightarrow> Inr \<lparr>ur_scheme = scheme, ur_host = h, ur_port = p, ur_path = path\<rparr>))"

definition is_tls :: "url \<Rightarrow> bool" where
  "is_tls u \<longleftrightarrow> ur_scheme u = ''https''"

definition host_header :: "url \<Rightarrow> bytes" where
  "host_header u =
     (if ur_port u = (if is_tls u then 443 else 80) then ur_host u
      else ur_host u @ '':'' @ show_nat (ur_port u))"

section \<open>Requests\<close>

type_synonym headers = "(bytes \<times> bytes) list"

record request =
  rq_method :: http_method
  rq_url :: url
  rq_headers :: headers
  rq_body :: "bytes option"

definition new_request :: "http_method \<Rightarrow> bytes \<Rightarrow> http_err + request" where
  "new_request m u =
     (case parse_url u of
        Inl e \<Rightarrow> Inl e
      | Inr v \<Rightarrow> Inr \<lparr>rq_method = m, rq_url = v, rq_headers = [], rq_body = None\<rparr>)"

definition add_header :: "bytes \<Rightarrow> bytes \<Rightarrow> request \<Rightarrow> request" where
  "add_header n v r = r\<lparr>rq_headers := rq_headers r @ [(n, v)]\<rparr>"

definition json_body :: "bytes \<Rightarrow> request \<Rightarrow> request" where
  "json_body j r =
     r\<lparr>rq_headers := rq_headers r @ [(''Content-Type'', ''application/json'')], rq_body := Some j\<rparr>"

definition raw_body :: "bytes \<Rightarrow> request \<Rightarrow> request" where
  "raw_body d r = r\<lparr>rq_body := Some d\<rparr>"

definition crlf :: bytes where "crlf = [CR, NL]"

definition has_header :: "bytes \<Rightarrow> headers \<Rightarrow> bool" where
  "has_header n hs \<longleftrightarrow> list_ex (\<lambda>(k, v). eq_ignore_ascii_case k n) hs"

definition header_line :: "bytes \<times> bytes \<Rightarrow> bytes" where
  "header_line h = fst h @ '': '' @ snd h @ crlf"

definition to_bytes :: "request \<Rightarrow> bytes" where
  "to_bytes r =
     show_method (rq_method r) @ '' '' @ ur_path (rq_url r) @ '' HTTP/1.1'' @ crlf
     @ ''Host: '' @ host_header (rq_url r) @ crlf
     @ concat (map header_line (rq_headers r))
     @ (case rq_body r of
          Some b \<Rightarrow> if has_header ''content-length'' (rq_headers r) then []
                    else ''Content-Length: '' @ show_nat (length b) @ crlf
        | None \<Rightarrow> [])
     @ (if has_header ''connection'' (rq_headers r) then [] else ''Connection: close'' @ crlf)
     @ crlf
     @ (case rq_body r of Some b \<Rightarrow> b | None \<Rightarrow> [])"

section \<open>Responses\<close>

record http_response =
  hr_status :: nat
  hr_status_text :: bytes
  hr_headers :: headers
  hr_body :: bytes

definition response_text :: "err_texts \<Rightarrow> http_response \<Rightarrow> http_err + bytes" where
  "response_text T r =
     (if utf8_valid (hr_body r) then Inr (hr_body r)
      else Inl (Protocol (''invalid UTF-8 body: '' @ et_utf8 T (hr_body r))))"

definition response_header :: "http_response \<Rightarrow> bytes \<Rightarrow> bytes option" where
  "response_header r n = map_option snd (find (\<lambda>(k, v). eq_ignore_ascii_case k n) (hr_headers r))"

definition is_chunked :: "headers \<Rightarrow> bool" where
  "is_chunked hs \<longleftrightarrow> list_ex (\<lambda>(k, v). eq_ignore_ascii_case k ''transfer-encoding'' \<and> sublist ''chunked'' v) hs"

definition content_length :: "headers \<Rightarrow> nat option" where
  "content_length hs =
     (case find (\<lambda>(k, v). eq_ignore_ascii_case k ''content-length'') hs of
        Some (k, v) \<Rightarrow> parse_usize32 (trim v)
      | None \<Rightarrow> None)"

fun header_lines :: "bytes list \<Rightarrow> headers" where
  "header_lines [] = []"
| "header_lines (l # ls) =
     (if l = [] then []
      else (case split_once CHR '':'' l of
              Some (n, v) \<Rightarrow> (trim n, trim v) # header_lines ls
            | None \<Rightarrow> header_lines ls))"

definition parse_status_line :: "bytes \<Rightarrow> http_err + nat \<times> bytes" where
  "parse_status_line l =
     (case splitn 3 CHR '' '' l of
        version # code # rest \<Rightarrow>
          (case parse_u16 code of
             Some status \<Rightarrow> Inr (status, case rest of t # _ \<Rightarrow> t | [] \<Rightarrow> [])
           | None \<Rightarrow> Inl (Protocol (''invalid status code: '' @ code)))
      | _ \<Rightarrow> Inl (Protocol ''missing status code''))"

definition parse_response_headers :: "bytes \<Rightarrow> http_err + nat \<times> bytes \<times> headers" where
  "parse_response_headers s =
     (case split_str crlf s of
        status_line # ls \<Rightarrow>
          (case parse_status_line status_line of
             Inl e \<Rightarrow> Inl e
           | Inr (status, txt) \<Rightarrow> Inr (status, txt, header_lines ls))
      | [] \<Rightarrow> Inl (Protocol ''empty response''))"

section \<open>The host's sockets\<close>

text \<open>An errno, or the result: a descriptor, the number of bytes sent, the bytes received.\<close>

record 'w host =
  hs_socket :: "'w \<Rightarrow> (nat + nat) \<times> 'w"
  hs_connect :: "nat \<Rightarrow> bytes \<Rightarrow> 'w \<Rightarrow> nat option \<times> 'w"
  hs_tls :: "nat \<Rightarrow> bytes \<Rightarrow> 'w \<Rightarrow> nat option \<times> 'w"
  hs_send :: "nat \<Rightarrow> bytes \<Rightarrow> 'w \<Rightarrow> (nat + nat) \<times> 'w"
  hs_recv :: "nat \<Rightarrow> nat \<Rightarrow> 'w \<Rightarrow> (nat + bytes) \<times> 'w"
  hs_close :: "nat \<Rightarrow> 'w \<Rightarrow> 'w"

type_synonym 'w rx = "nat \<Rightarrow> 'w \<Rightarrow> (nat + bytes) \<times> 'w"

text \<open>\<open>recv\<close> into a buffer of \<open>cap\<close> bytes, and the slice of what was received, which panics when the
  host reports more than the buffer holds.\<close>

definition recv_into :: "'w rx \<Rightarrow> nat \<Rightarrow> 'w \<Rightarrow> bytes outcome \<times> 'w" where
  "recv_into rx cap w =
     (case rx cap w of
        (Inl errno, w') \<Rightarrow> (Fail (Socket (''recv failed: errno '' @ show_nat errno)), w')
      | (Inr d, w') \<Rightarrow> (if length d \<le> cap then Done d else Panic, w'))"

text \<open>Passing on what is not a result.\<close>

fun lift_out :: "'a outcome \<Rightarrow> 'b outcome" where
  "lift_out (Fail e) = Fail e"
| "lift_out Panic = Panic"
| "lift_out (Done _) = Panic"

text \<open>The offset is a \<open>usize\<close> of 32 bits: it wraps when the host says it took more than it was given.\<close>

partial_function (option) send_all ::
  "(bytes \<Rightarrow> 'w \<Rightarrow> (nat + nat) \<times> 'w) \<Rightarrow> bytes \<Rightarrow> nat \<Rightarrow> 'w \<Rightarrow> (unit outcome \<times> 'w) option" where
  "send_all tx d offset w =
     (if offset < length d then
        (case tx (drop offset d) w of
           (Inl errno, w') \<Rightarrow> Some (Fail (Socket (''send failed: errno '' @ show_nat errno)), w')
         | (Inr n, w') \<Rightarrow> send_all tx d ((offset + n) mod 2 ^ 32) w')
      else Some (Done (), w))"

definition headers_from :: "err_texts \<Rightarrow> bytes \<Rightarrow> nat \<Rightarrow> (nat \<times> bytes \<times> headers \<times> bytes) outcome" where
  "headers_from T buf header_end =
     (let head = take header_end buf in
      if \<not> utf8_valid head then Fail (Protocol (''invalid header encoding: '' @ et_utf8 T head))
      else (case parse_response_headers head of
              Inl e \<Rightarrow> Fail e
            | Inr (status, txt, hs) \<Rightarrow> Done (status, txt, hs, drop (header_end + 4) buf)))"

definition head_end :: bytes where "head_end = [CR, NL, CR, NL]"

partial_function (option) read_headers ::
  "err_texts \<Rightarrow> 'w rx \<Rightarrow> bytes \<Rightarrow> 'w \<Rightarrow> ((nat \<times> bytes \<times> headers \<times> bytes) outcome \<times> 'w) option" where
  "read_headers T rx buf w =
     (case recv_into rx 4096 w of
        (Done d, w') \<Rightarrow>
          if d = [] then Some (Fail (Protocol ''connection closed before headers complete''), w')
          else (case find_sub head_end (buf @ d) of
                  Some i \<Rightarrow> Some (headers_from T (buf @ d) i, w')
                | None \<Rightarrow>
                    if 64 * 1024 < length (buf @ d) then Some (Fail (Protocol ''headers too large (>64KB)''), w')
                    else read_headers T rx (buf @ d) w')
      | (Fail e, w') \<Rightarrow> Some (Fail e, w')
      | (Panic, w') \<Rightarrow> Some (Panic, w'))"

partial_function (option) read_fixed_body ::
  "'w rx \<Rightarrow> bytes \<Rightarrow> nat \<Rightarrow> 'w \<Rightarrow> (bytes outcome \<times> 'w) option" where
  "read_fixed_body rx body len w =
     (if length body < len then
        (case recv_into rx 8192 w of
           (Done d, w') \<Rightarrow> if d = [] then Some (Done (take len body), w')
                           else read_fixed_body rx (body @ d) len w'
         | (Fail e, w') \<Rightarrow> Some (Fail e, w')
         | (Panic, w') \<Rightarrow> Some (Panic, w'))
      else Some (Done (take len body), w))"

partial_function (option) read_until_close :: "'w rx \<Rightarrow> bytes \<Rightarrow> 'w \<Rightarrow> (bytes outcome \<times> 'w) option" where
  "read_until_close rx body w =
     (case recv_into rx 8192 w of
        (Done d, w') \<Rightarrow> if d = [] then Some (Done body, w') else read_until_close rx (body @ d) w'
      | (Fail e, w') \<Rightarrow> Some (Fail e, w')
      | (Panic, w') \<Rightarrow> Some (Panic, w'))"

text \<open>The inner loop that waits for a whole chunk.\<close>

partial_function (option) fill_chunk :: "'w rx \<Rightarrow> nat \<Rightarrow> bytes \<Rightarrow> 'w \<Rightarrow> (bytes outcome \<times> 'w) option" where
  "fill_chunk rx need buf w =
     (if length buf < need then
        (case recv_into rx 8192 w of
           (Done d, w') \<Rightarrow> if d = [] then Some (Fail (Protocol ''connection closed in chunk''), w')
                           else fill_chunk rx need (buf @ d) w'
         | (Fail e, w') \<Rightarrow> Some (Fail e, w')
         | (Panic, w') \<Rightarrow> Some (Panic, w'))
      else Some (Done buf, w))"

definition chunk_size :: "err_texts \<Rightarrow> bytes \<Rightarrow> http_err + nat" where
  "chunk_size T s =
     (if \<not> utf8_valid s then Inl (Protocol (''invalid chunk size: '' @ et_utf8 T s))
      else (case parse_unsigned 16 (2 ^ 32) (trim s) of
              Some n \<Rightarrow> Inr n
            | None \<Rightarrow> Inl (Protocol (''invalid chunk size: '' @ et_int T (trim s)))))"

text \<open>The two slices of a chunk and what follows it; \<open>csize + 2\<close> is a 32-bit sum.\<close>

definition take_chunk :: "nat \<Rightarrow> bytes \<Rightarrow> (bytes \<times> bytes) option" where
  "take_chunk csize buf =
     (if csize \<le> length buf \<and> (csize + 2) mod 2 ^ 32 \<le> length buf
      then Some (take csize buf, drop ((csize + 2) mod 2 ^ 32) buf) else None)"

partial_function (option) read_chunked_body ::
  "err_texts \<Rightarrow> 'w rx \<Rightarrow> bytes \<Rightarrow> bytes \<Rightarrow> 'w \<Rightarrow> (bytes outcome \<times> 'w) option" where
  "read_chunked_body T rx body buf w =
     (case find_sub crlf buf of
        Some pos \<Rightarrow>
          (case chunk_size T (take pos buf) of
             Inl e \<Rightarrow> Some (Fail e, w)
           | Inr csize \<Rightarrow>
               if csize = 0 then Some (Done body, w)
               else Option.bind (fill_chunk rx ((csize + 2) mod 2 ^ 32) (drop (pos + 2) buf) w)
                 (\<lambda>(out, w').
                    case out of
                      Done buf' \<Rightarrow>
                        (case take_chunk csize buf' of
                           Some (c, rest) \<Rightarrow> read_chunked_body T rx (body @ c) rest w'
                         | None \<Rightarrow> Some (Panic, w'))
                    | Fail e \<Rightarrow> Some (Fail e, w')
                    | Panic \<Rightarrow> Some (Panic, w')))
      | None \<Rightarrow>
          (case recv_into rx 8192 w of
             (Done d, w') \<Rightarrow>
               if d = [] then Some (Fail (Protocol ''connection closed reading chunk size''), w')
               else read_chunked_body T rx body (buf @ d) w'
           | (Fail e, w') \<Rightarrow> Some (Fail e, w')
           | (Panic, w') \<Rightarrow> Some (Panic, w')))"

definition read_body ::
  "err_texts \<Rightarrow> 'w rx \<Rightarrow> headers \<Rightarrow> bytes \<Rightarrow> 'w \<Rightarrow> (bytes outcome \<times> 'w) option" where
  "read_body T rx hs remaining w =
     (if is_chunked hs then read_chunked_body T rx [] remaining w
      else (case content_length hs of
              Some len \<Rightarrow> read_fixed_body rx remaining len w
            | None \<Rightarrow> read_until_close rx remaining w))"

definition read_response :: "err_texts \<Rightarrow> 'w rx \<Rightarrow> 'w \<Rightarrow> (http_response outcome \<times> 'w) option" where
  "read_response T rx w =
     Option.bind (read_headers T rx [] w)
       (\<lambda>(out, w1).
          case out of
            Done (status, txt, hs, remaining) \<Rightarrow>
              Option.bind (read_body T rx hs remaining w1)
                (\<lambda>(out', w2).
                   Some (case out' of
                           Done b \<Rightarrow> Done \<lparr>hr_status = status, hr_status_text = txt, hr_headers = hs, hr_body = b\<rparr>
                         | Fail e \<Rightarrow> Fail e
                         | Panic \<Rightarrow> Panic, w2))
          | Fail e \<Rightarrow> Some (Fail e, w1)
          | Panic \<Rightarrow> Some (Panic, w1))"

section \<open>The client\<close>

definition http_connect :: "'w host \<Rightarrow> url \<Rightarrow> 'w \<Rightarrow> (http_err + nat) \<times> 'w" where
  "http_connect H u w =
     (case hs_socket H w of
        (Inl e, w1) \<Rightarrow> (Inl (Socket (''socket() failed: errno '' @ show_nat e)), w1)
      | (Inr fd, w1) \<Rightarrow>
          (let addr = ur_host u @ '':'' @ show_nat (ur_port u) in
           case hs_connect H fd addr w1 of
             (Some e, w2) \<Rightarrow>
               (Inl (Socket (''connect('' @ addr @ '') failed: errno '' @ show_nat e)), hs_close H fd w2)
           | (None, w2) \<Rightarrow>
               if is_tls u then
                 (case hs_tls H fd (ur_host u) w2 of
                    (Some e, w3) \<Rightarrow>
                      (Inl (Tls (''TLS handshake failed for '' @ ur_host u @ '': errno '' @ show_nat e)), hs_close H fd w3)
                  | (None, w3) \<Rightarrow> (Inr fd, w3))
               else (Inr fd, w2)))"

definition http_send :: "err_texts \<Rightarrow> 'w host \<Rightarrow> request \<Rightarrow> 'w \<Rightarrow> (http_response outcome \<times> 'w) option" where
  "http_send T H r w =
     (case http_connect H (rq_url r) w of
        (Inl e, w1) \<Rightarrow> Some (Fail e, w1)
      | (Inr fd, w1) \<Rightarrow>
          Option.bind (send_all (hs_send H fd) (to_bytes r) 0 w1)
            (\<lambda>(out, w2).
               case out of
                 Done _ \<Rightarrow> map_option (\<lambda>(res, w3). (res, hs_close H fd w3)) (read_response T (hs_recv H fd) w2)
               | Fail e \<Rightarrow> Some (Fail e, w2)
               | Panic \<Rightarrow> Some (Panic, w2)))"

section \<open>Server-sent events\<close>

record sse_event =
  se_event :: "bytes option"
  se_data :: bytes
  se_id :: "bytes option"

fun sse_lines :: "bytes list \<Rightarrow> bytes option \<Rightarrow> bytes list \<Rightarrow> bytes option \<Rightarrow> sse_event" where
  "sse_lines [] ev ds i = \<lparr>se_event = ev, se_data = join [NL] ds, se_id = i\<rparr>"
| "sse_lines (l # ls) ev ds i =
     (case strip_prefix ''event:'' l of
        Some r \<Rightarrow> sse_lines ls (Some (trim r)) ds i
      | None \<Rightarrow>
          (case strip_prefix ''data:'' l of
             Some r \<Rightarrow> sse_lines ls ev (ds @ [trim_start_matches CHR '' '' r]) i
           | None \<Rightarrow>
               (case strip_prefix ''id:'' l of
                  Some r \<Rightarrow> sse_lines ls ev ds (Some (trim r))
                | None \<Rightarrow> sse_lines ls ev ds i)))"

definition parse_sse_event :: "bytes \<Rightarrow> sse_event" where
  "parse_sse_event block = sse_lines (str_lines block) None [] None"

record sse_reader =
  sr_fd :: nat
  sr_buf :: bytes
  sr_offset :: nat
  sr_done :: bool

definition blank_line :: bytes where "blank_line = [NL, NL]"

definition sse_take :: "err_texts \<Rightarrow> sse_reader \<Rightarrow> nat \<Rightarrow> (sse_event option) outcome \<times> sse_reader" where
  "sse_take T s stop =
     (let start = sr_offset s; block = take stop (drop start (sr_buf s)) in
      if \<not> utf8_valid block then (Fail (Protocol (et_utf8 T block)), s)
      else (let off = start + stop + 2;
                s' = (if 8192 < off then s\<lparr>sr_buf := drop off (sr_buf s), sr_offset := 0\<rparr> else s\<lparr>sr_offset := off\<rparr>)
            in (Done (Some (parse_sse_event block)), s')))"

definition sse_tail :: "sse_reader \<Rightarrow> (sse_event option) outcome \<times> sse_reader" where
  "sse_tail s =
     (let tail = drop (sr_offset s) (sr_buf s) in
      (Done (if tail \<noteq> [] \<and> utf8_valid tail \<and> trim tail \<noteq> [] then Some (parse_sse_event (trim tail)) else None),
       s\<lparr>sr_done := True\<rparr>))"

partial_function (option) sse_next ::
  "err_texts \<Rightarrow> 'w rx \<Rightarrow> sse_reader \<Rightarrow> 'w \<Rightarrow> ((sse_event option) outcome \<times> sse_reader \<times> 'w) option" where
  "sse_next T rx s w =
     (if sr_done s then Some (Done None, s, w)
      else (case find_sub blank_line (drop (sr_offset s) (sr_buf s)) of
              Some i \<Rightarrow> (let (out, s') = sse_take T s i in Some (out, s', w))
            | None \<Rightarrow>
                (case recv_into rx 4096 w of
                   (Done d, w') \<Rightarrow>
                     if d = [] then (let (out, s') = sse_tail s in Some (out, s', w'))
                     else sse_next T rx (s\<lparr>sr_buf := sr_buf s @ d\<rparr>) w'
                 | (Fail e, w') \<Rightarrow> Some (Fail e, s\<lparr>sr_done := True\<rparr>, w')
                 | (Panic, w') \<Rightarrow> Some (Panic, s, w'))))"

definition http_send_sse ::
  "err_texts \<Rightarrow> 'w host \<Rightarrow> request \<Rightarrow> 'w \<Rightarrow> ((http_response \<times> sse_reader) outcome \<times> 'w) option" where
  "http_send_sse T H r w =
     (case http_connect H (rq_url r) w of
        (Inl e, w1) \<Rightarrow> Some (Fail e, w1)
      | (Inr fd, w1) \<Rightarrow>
          Option.bind (send_all (hs_send H fd) (to_bytes r) 0 w1)
            (\<lambda>(out, w2).
               case out of
                 Done _ \<Rightarrow>
                   map_option (\<lambda>(res, w3).
                       (case res of
                          Done (status, txt, hs, remaining) \<Rightarrow>
                            Done (\<lparr>hr_status = status, hr_status_text = txt, hr_headers = hs, hr_body = []\<rparr>,
                                  \<lparr>sr_fd = fd, sr_buf = remaining, sr_offset = 0, sr_done = False\<rparr>)
                        | Fail e \<Rightarrow> Fail e
                        | Panic \<Rightarrow> Panic, w3))
                     (read_headers T (hs_recv H fd) [] w2)
               | Fail e \<Rightarrow> Some (Fail e, w2)
               | Panic \<Rightarrow> Some (Panic, w2)))"

end
