(* ===== verification/Wasi_Http_Props.thy ===== *)
theory Wasi_Http_Props
  imports Wasi_Http
begin

text \<open>
  Correctness of the sandbox's HTTP client: what the reading loops return over any host that
  delivers a byte stream in pieces, the round trips of URLs and responses, and the inputs on which
  the client panics, leaks a socket or never returns.
\<close>

section \<open>A host that delivers a stream\<close>

text \<open>\<open>recv\<close> returns the next piece of the stream, at most the buffer's size, and an empty piece only
  at the end of the stream.\<close>

locale byte_source =
  fixes rx :: "'w rx" and stream :: "'w \<Rightarrow> bytes"
  assumes receives: "0 < cap \<Longrightarrow> \<exists>d w'. rx cap w = (Inr d, w') \<and> stream w = d @ stream w' \<and> length d \<le> cap
    \<and> (d = [] \<longrightarrow> stream w = [])"
begin

lemma recv_obtain:
  assumes "0 < cap"
  obtains d w' where "recv_into rx cap w = (Done d, w')" "stream w = d @ stream w'" "d = [] \<longrightarrow> stream w = []"
proof -
  obtain d w' where "rx cap w = (Inr d, w')" "stream w = d @ stream w'" "length d \<le> cap" "d = [] \<longrightarrow> stream w = []"
    using receives [OF assms] by blast
  then show thesis using that [of d w'] by (simp add: recv_into_def)
qed

lemma until_close: "\<exists>w'. read_until_close rx body w = Some (Done (body @ stream w), w')"
proof (induction "length (stream w)" arbitrary: w body rule: less_induct)
  case less
  obtain d w' where d: "recv_into rx 8192 w = (Done d, w')" "stream w = d @ stream w'" "d = [] \<longrightarrow> stream w = []"
    by (rule recv_obtain [of 8192 w]) simp_all
  show ?case
  proof (cases "d = []")
    case True
    with d show ?thesis by (subst read_until_close.simps) simp
  next
    case False
    then have "length (stream w') < length (stream w)" using d(2) by simp
    from less [OF this, of "body @ d"] False d(1,2) show ?thesis
      by (subst read_until_close.simps) simp
  qed
qed

lemma fixed_body: "\<exists>w'. read_fixed_body rx body len w = Some (Done (take len (body @ stream w)), w')"
proof (induction "length (stream w)" arbitrary: w body rule: less_induct)
  case less
  obtain d w' where d: "recv_into rx 8192 w = (Done d, w')" "stream w = d @ stream w'" "d = [] \<longrightarrow> stream w = []"
    by (rule recv_obtain [of 8192 w]) simp_all
  show ?case
  proof (cases "length body < len")
    case short: True
    show ?thesis
    proof (cases "d = []")
      case True
      with d short show ?thesis by (subst read_fixed_body.simps) simp
    next
      case False
      then have "length (stream w') < length (stream w)" using d(2) by simp
      from less [OF this, of "body @ d"] False d(1,2) short show ?thesis
        by (subst read_fixed_body.simps) simp
    qed
  next
    case False
    then show ?thesis by (subst read_fixed_body.simps) simp
  qed
qed

lemma fill:
  "need \<le> length (buf @ stream w) \<Longrightarrow>
     \<exists>buf' w'. fill_chunk rx need buf w = Some (Done buf', w') \<and> buf' @ stream w' = buf @ stream w
       \<and> need \<le> length buf' \<and> length (stream w') \<le> length (stream w)"
proof (induction "length (stream w)" arbitrary: w buf rule: less_induct)
  case less
  obtain d w' where d: "recv_into rx 8192 w = (Done d, w')" "stream w = d @ stream w'" "d = [] \<longrightarrow> stream w = []"
    by (rule recv_obtain [of 8192 w]) simp_all
  show ?case
  proof (cases "length buf < need")
    case short: True
    then have "d \<noteq> []" using d(3) less.prems by auto
    then have lt: "length (stream w') < length (stream w)" using d(2) by simp
    have "need \<le> length ((buf @ d) @ stream w')" using less.prems d(2) by simp
    from less.hyps [OF lt this] obtain buf' v where
      "fill_chunk rx need (buf @ d) w' = Some (Done buf', v)" "buf' @ stream v = buf @ stream w"
      "need \<le> length buf'" "length (stream v) \<le> length (stream w')"
      using d(2) by auto
    moreover from this lt have "length (stream v) \<le> length (stream w)" by simp
    ultimately show ?thesis using short d(1) \<open>d \<noteq> []\<close>
      by (subst fill_chunk.simps) simp
  next
    case False
    then show ?thesis by (subst fill_chunk.simps) simp
  qed
qed

end

section \<open>Chunked bodies\<close>

definition encode_chunk :: "bytes \<Rightarrow> bytes" where
  "encode_chunk c = show_radix 16 (length c) @ crlf @ c @ crlf"

definition chunk_ok :: "bytes \<Rightarrow> bool" where
  "chunk_ok c \<longleftrightarrow> c \<noteq> [] \<and> length c + 2 < 2 ^ 32"

definition encode_chunks :: "bytes list \<Rightarrow> bytes" where
  "encode_chunks cs = concat (map encode_chunk cs) @ show_radix 16 0 @ crlf"

lemma chunk_size_show: "n < 2 ^ 32 \<Longrightarrow> chunk_size T (show_radix 16 n) = Inr n"
  by (simp add: chunk_size_def utf8_valid_ascii parse_unsigned_show_radix)

lemma find_crlf_show: "find_sub crlf (show_radix 16 n @ crlf @ s) = Some (length (show_radix 16 n))"
proof (rule find_sub_here)
  have "NL \<notin> set (show_radix 16 n)" by (rule show_radix_plain; simp add: byte_def)
  then have "NL \<notin> set (show_radix 16 n @ butlast crlf)" by (simp add: crlf_def)
  moreover have "sublist crlf xs \<Longrightarrow> NL \<in> set xs" for xs by (auto simp: sublist_def crlf_def)
  ultimately show "\<not> sublist crlf (show_radix 16 n @ butlast crlf)" by blast
qed (simp add: crlf_def)

text \<open>A pattern whose place in the whole stream is known is found in the buffer there or not at all.\<close>

lemma found_in_buffer:
  "find_sub pat (buf @ s) = Some i \<Longrightarrow> find_sub pat buf = Some j \<Longrightarrow> j = i"
  using find_sub_append_Some by fastforce

context byte_source begin

lemma size_line:
  assumes "buf @ stream w = show_radix 16 n @ crlf @ s"
  shows "\<exists>buf' w'. read_chunked_body T rx body buf w = read_chunked_body T rx body buf' w'
    \<and> buf' @ stream w' = buf @ stream w \<and> find_sub crlf buf' = Some (length (show_radix 16 n))
    \<and> length (stream w') \<le> length (stream w)"
  using assms
proof (induction "length (stream w)" arbitrary: w buf rule: less_induct)
  case less
  have at: "find_sub crlf (buf @ stream w) = Some (length (show_radix 16 n))"
    using less.prems find_crlf_show by simp
  show ?case
  proof (cases "find_sub crlf buf")
    case (Some i)
    with found_in_buffer [OF at] show ?thesis by (intro exI [of _ buf] exI [of _ w]) simp
  next
    case None
    obtain d w' where d: "recv_into rx 8192 w = (Done d, w')" "stream w = d @ stream w'" "d = [] \<longrightarrow> stream w = []"
      by (rule recv_obtain [of 8192 w]) simp_all
    have "d \<noteq> []" using at None d(3) by auto
    then have lt: "length (stream w') < length (stream w)" using d(2) by simp
    have "read_chunked_body T rx body buf w = read_chunked_body T rx body (buf @ d) w'"
      using None d(1) \<open>d \<noteq> []\<close> by (subst read_chunked_body.simps) simp
    moreover have "(buf @ d) @ stream w' = show_radix 16 n @ crlf @ s" using less.prems d(2) by simp
    from less.hyps [OF lt this] obtain buf' v where
      "read_chunked_body T rx body (buf @ d) w' = read_chunked_body T rx body buf' v"
      "buf' @ stream v = (buf @ d) @ stream w'" "find_sub crlf buf' = Some (length (show_radix 16 n))"
      "length (stream v) \<le> length (stream w')" by blast
    ultimately show ?thesis using lt d(2) by (intro exI [of _ buf'] exI [of _ v]) simp
  qed
qed

lemma one_chunk:
  assumes "buf @ stream w = encode_chunk c @ s" and "chunk_ok c"
  shows "\<exists>buf' w'. read_chunked_body T rx body buf w = read_chunked_body T rx (body @ c) buf' w'
    \<and> buf' @ stream w' = s"
proof -
  let ?n = "length c"
  from assms(1) have "buf @ stream w = show_radix 16 ?n @ crlf @ c @ crlf @ s" by (simp add: encode_chunk_def)
  from size_line [OF this, of T body] obtain b1 w1 where 1:
    "read_chunked_body T rx body buf w = read_chunked_body T rx body b1 w1"
    "b1 @ stream w1 = show_radix 16 ?n @ crlf @ c @ crlf @ s"
    "find_sub crlf b1 = Some (length (show_radix 16 ?n))" using assms(1) by (auto simp: encode_chunk_def)
  define b2 where "b2 = drop (length (show_radix 16 ?n) + 2) b1"
  have len: "length (show_radix 16 ?n) + 2 \<le> length b1"
    using find_sub_Some_length [OF 1(3)] by (simp add: crlf_def)
  have "take (length (show_radix 16 ?n)) (b1 @ stream w1) = take (length (show_radix 16 ?n)) b1" using len by simp
  then have tk: "take (length (show_radix 16 ?n)) b1 = show_radix 16 ?n" unfolding 1(2) by simp
  have "drop (length (show_radix 16 ?n) + 2) (b1 @ stream w1) = b2 @ stream w1" using len by (simp add: b2_def)
  then have b2: "b2 @ stream w1 = c @ crlf @ s" unfolding 1(2) by (simp add: crlf_def)
  have small: "(?n + 2) mod 2 ^ 32 = ?n + 2" "0 < ?n" using assms(2) by (simp_all add: chunk_ok_def)
  have "?n + 2 \<le> length (b2 @ stream w1)" unfolding b2 by (simp add: crlf_def)
  from fill [OF this] obtain b3 w3 where 3: "fill_chunk rx (?n + 2) b2 w1 = Some (Done b3, w3)"
    "b3 @ stream w3 = c @ crlf @ s" "?n + 2 \<le> length b3" using b2 by auto
  have "take ?n (b3 @ stream w3) = take ?n b3" using 3(3) by simp
  then have c: "take ?n b3 = c" unfolding 3(2) by simp
  have "drop (?n + 2) (b3 @ stream w3) = drop (?n + 2) b3 @ stream w3" using 3(3) by simp
  then have s: "drop (?n + 2) b3 @ stream w3 = s" unfolding 3(2) by (simp add: crlf_def)
  have "chunk_size T (show_radix 16 ?n) = Inr ?n" using assms(2) by (intro chunk_size_show) (simp add: chunk_ok_def)
  then have "read_chunked_body T rx body b1 w1 = read_chunked_body T rx (body @ c) (drop (?n + 2) b3) w3"
    using 1(3) tk small 3(1,3) c b2_def
    by (subst read_chunked_body.simps) (simp add: take_chunk_def)
  with 1(1) s show ?thesis by (intro exI [of _ "drop (?n + 2) b3"] exI [of _ w3]) simp
qed

lemma chunked_body:
  "list_all chunk_ok cs \<Longrightarrow> buf @ stream w = encode_chunks cs @ s \<Longrightarrow>
     \<exists>w'. read_chunked_body T rx body buf w = Some (Done (body @ concat cs), w')"
proof (induction cs arbitrary: buf w body)
  case Nil
  then have "buf @ stream w = show_radix 16 0 @ crlf @ s" by (simp add: encode_chunks_def)
  from size_line [OF this, of T body] obtain b1 w1 where 1:
    "read_chunked_body T rx body buf w = read_chunked_body T rx body b1 w1"
    "b1 @ stream w1 = show_radix 16 0 @ crlf @ s"
    "find_sub crlf b1 = Some (length (show_radix 16 0))" using Nil by (auto simp: encode_chunks_def)
  have len: "length (show_radix 16 0) + 2 \<le> length b1"
    using find_sub_Some_length [OF 1(3)] by (simp add: crlf_def)
  have "take (length (show_radix 16 0)) (b1 @ stream w1) = take (length (show_radix 16 0)) b1" using len by simp
  then have "take (length (show_radix 16 0)) b1 = show_radix 16 0" unfolding 1(2) by simp
  with 1(3) chunk_size_show [of 0 T] have "read_chunked_body T rx body b1 w1 = Some (Done body, w1)"
    by (subst read_chunked_body.simps) simp
  with 1(1) show ?case by simp
next
  case (Cons c cs)
  then have c: "chunk_ok c" "list_all chunk_ok cs" and e: "buf @ stream w = encode_chunk c @ (encode_chunks cs @ s)"
    by (simp_all add: encode_chunks_def)
  from one_chunk [OF e c(1), of T body] obtain b' w' where
    "read_chunked_body T rx body buf w = read_chunked_body T rx (body @ c) b' w'" "b' @ stream w' = encode_chunks cs @ s"
    by blast
  with Cons.IH [OF c(2), of b' w' "body @ c"] show ?case by simp
qed

end


section \<open>The head of a response\<close>

definition plain :: "bytes \<Rightarrow> bool" where
  "plain s \<longleftrightarrow> is_ascii s \<and> CR \<notin> set s"

definition tight :: "bytes \<Rightarrow> bool" where
  "tight s \<longleftrightarrow> s = [] \<or> \<not> is_ws [hd s] \<and> \<not> is_ws [last s]"

definition header_ok :: "bytes \<times> bytes \<Rightarrow> bool" where
  "header_ok h \<longleftrightarrow> plain (fst h) \<and> tight (fst h) \<and> CHR '':'' \<notin> set (fst h) \<and> plain (snd h) \<and> tight (snd h)"

definition status_line :: "nat \<Rightarrow> bytes \<Rightarrow> bytes" where
  "status_line status txt = ''HTTP/1.1 '' @ show_nat status @ '' '' @ txt"

definition head_text :: "nat \<Rightarrow> bytes \<Rightarrow> headers \<Rightarrow> bytes" where
  "head_text status txt hs = join crlf (status_line status txt # map (\<lambda>h. fst h @ '': '' @ snd h) hs)"

lemma parse_status_line_ok:
  "status < 2 ^ 16 \<Longrightarrow> parse_status_line (status_line status txt) = Inr (status, txt)"
proof -
  assume s: "status < 2 ^ 16"
  have "split_once CHR '' '' (status_line status txt) = Some (''HTTP/1.1'', show_nat status @ '' '' @ txt)"
    by (simp add: split_once_Some status_line_def)
  moreover have "split_once CHR '' '' (show_nat status @ '' '' @ txt) = Some (show_nat status, txt)"
    by (simp add: split_once_Some)
  ultimately have "splitn 3 CHR '' '' (status_line status txt) = [''HTTP/1.1'', show_nat status, txt]"
    by (simp add: numeral_3_eq_3)
  with s show ?thesis by (simp add: parse_status_line_def)
qed

lemma header_lines_ok: "list_all header_ok hs \<Longrightarrow> header_lines (map (\<lambda>h. fst h @ '': '' @ snd h) hs) = hs"
proof (induction hs)
  case (Cons h hs)
  then have ok: "plain (fst h)" "tight (fst h)" "CHR '':'' \<notin> set (fst h)" "plain (snd h)" "tight (snd h)"
    by (simp_all add: header_ok_def)
  have "split_once CHR '':'' (fst h @ '': '' @ snd h) = Some (fst h, '' '' @ snd h)"
    using ok(3) by (simp add: split_once_Some)
  moreover have "trim (fst h) = fst h" using ok by (intro trim_ascii_id) (auto simp: plain_def tight_def)
  moreover have "trim ('' '' @ snd h) = snd h" using ok trim_space [of "snd h"] by (simp add: plain_def tight_def)
  ultimately show ?case using Cons by (simp add: split_beta)
qed simp

lemma plain_lines:
  assumes "plain txt" and "list_all header_ok hs"
  shows "list_all (\<lambda>w. plain w \<and> w \<noteq> []) (status_line status txt # map (\<lambda>h. fst h @ '': '' @ snd h) hs)"
  using assms by (auto simp: list_all_iff plain_def header_ok_def status_line_def byte_def)

lemma parse_head_ok:
  assumes "status < 2 ^ 16" and "plain txt" and "list_all header_ok hs"
  shows "parse_response_headers (head_text status txt hs) = Inr (status, txt, hs)"
proof -
  let ?ls = "status_line status txt # map (\<lambda>h. fst h @ '': '' @ snd h) hs"
  have "list_all (\<lambda>w. hd crlf \<notin> set w) ?ls"
    using plain_lines [OF assms(2,3), of status] by (auto simp: list_all_iff plain_def crlf_def)
  then have "split_str crlf (join crlf ?ls) = ?ls" by (intro split_str_join) (simp_all add: crlf_def)
  with parse_status_line_ok [OF assms(1)] header_lines_ok [OF assms(3)] show ?thesis
    by (simp add: parse_response_headers_def head_text_def del: join.simps)
qed

lemma find_skip: "CR \<notin> set w \<Longrightarrow> find_sub head_end (w @ s) = map_option (\<lambda>i. length w + i) (find_sub head_end s)"
proof (induction w)
  case Nil
  show ?case by (simp add: option.map_ident)
next
  case (Cons x w)
  then show ?case by (auto simp: head_end_def option.map_comp comp_def)
qed

lemma find_head_end:
  "list_all (\<lambda>w. plain w \<and> w \<noteq> []) ws \<Longrightarrow> ws \<noteq> [] \<Longrightarrow>
     find_sub head_end (join crlf ws @ head_end @ s) = Some (length (join crlf ws))"
proof (induction ws)
  case (Cons w ws)
  then have w: "CR \<notin> set w" by (simp add: plain_def)
  show ?case
  proof (cases "ws = []")
    case True
    have "find_sub head_end (head_end @ s) = Some 0" by (simp add: head_end_def)
    with True find_skip [OF w, of "head_end @ s"] show ?thesis by simp
  next
    case False
    then obtain v vs where ws: "ws = v # vs" by (cases ws) auto
    then obtain x xs where v: "v = x # xs" "x \<noteq> CR" using Cons.prems by (cases v) (auto simp: plain_def)
    then obtain ys where j: "join crlf ws @ head_end @ s = x # ys" using ws by (cases vs) auto
    have "find_sub head_end (crlf @ x # ys) = map_option (\<lambda>i. 2 + i) (find_sub head_end (x # ys))"
      using v(2) by (simp add: head_end_def crlf_def option.map_comp comp_def)
    also have "\<dots> = Some (2 + length (join crlf ws))"
      using Cons False by (simp add: j [symmetric])
    finally have "find_sub head_end (w @ crlf @ x # ys) = Some (length w + (2 + length (join crlf ws)))"
      unfolding find_skip [OF w] by simp
    moreover have "join crlf (w # ws) @ head_end @ s = w @ crlf @ x # ys"
      using False j by (simp add: join_Cons)
    moreover have "length (join crlf (w # ws)) = length w + (2 + length (join crlf ws))"
      using False by (simp add: join_Cons crlf_def)
    ultimately show ?thesis by (simp only:)
  qed
qed simp

lemma is_ascii_join: "is_ascii sep \<Longrightarrow> list_all is_ascii ws \<Longrightarrow> is_ascii (join sep ws)"
  by (induction ws) (auto simp: join_Cons)

context byte_source begin

lemma headers_read:
  assumes "find_sub head_end (buf @ stream w) = Some n" and "find_sub head_end buf = None" and "n \<le> 64 * 1024 - 3"
  shows "\<exists>buf' w'. read_headers T rx buf w = Some (headers_from T buf' n, w') \<and> buf' @ stream w' = buf @ stream w
    \<and> n + 4 \<le> length buf'"
  using assms
proof (induction "length (stream w)" arbitrary: w buf rule: less_induct)
  case less
  obtain d w' where d: "recv_into rx 4096 w = (Done d, w')" "stream w = d @ stream w'" "d = [] \<longrightarrow> stream w = []"
    by (rule recv_obtain [of 4096 w]) simp_all
  have ne: "d \<noteq> []" using d(3) less.prems(1,2) by auto
  then have lt: "length (stream w') < length (stream w)" using d(2) by simp
  have at: "find_sub head_end ((buf @ d) @ stream w') = Some n" using less.prems(1) d(2) by simp
  show ?case
  proof (cases "find_sub head_end (buf @ d)")
    case (Some i)
    with found_in_buffer [OF at] have "i = n" by simp
    moreover have "n + 4 \<le> length (buf @ d)"
      using find_sub_Some_length [OF Some] \<open>i = n\<close> by (simp add: head_end_def)
    ultimately show ?thesis using Some d(1,2) ne
      by (subst read_headers.simps) (intro exI [of _ "buf @ d"] exI [of _ w'], simp)
  next
    case None
    have "length (buf @ d) \<le> n + 3"
    proof (rule ccontr)
      assume "\<not> length (buf @ d) \<le> n + 3"
      then have "n + length head_end \<le> length (buf @ d)" by (simp add: head_end_def)
      from find_sub_within [OF at this] None show False by simp
    qed
    then have small: "\<not> 64 * 1024 < length (buf @ d)" using less.prems(3) by linarith
    from less.hyps [OF lt at None less.prems(3)] obtain buf' v where
      "read_headers T rx (buf @ d) w' = Some (headers_from T buf' n, v)" "buf' @ stream v = (buf @ d) @ stream w'"
      "n + 4 \<le> length buf'" by blast
    then show ?thesis using None small d(1,2) ne
      by (subst read_headers.simps) (intro exI [of _ buf'] exI [of _ v], simp)
  qed
qed

end


section \<open>Whole responses\<close>

text \<open>The three ways a server frames a body: chunks, a declared length (what follows is ignored), or
  everything up to the close.\<close>

inductive framed :: "headers \<Rightarrow> bytes \<Rightarrow> bytes \<Rightarrow> bool" where
  chunked: "is_chunked hs \<Longrightarrow> list_all chunk_ok cs \<Longrightarrow> framed hs (encode_chunks cs @ trailer) (concat cs)"
| sized: "\<not> is_chunked hs \<Longrightarrow> content_length hs = Some (length b) \<Longrightarrow> framed hs (b @ extra) b"
| closed: "\<not> is_chunked hs \<Longrightarrow> content_length hs = None \<Longrightarrow> framed hs b b"

context byte_source begin

lemma body_read:
  assumes "framed hs (remaining @ stream w) b"
  shows "\<exists>w'. read_body T rx hs remaining w = Some (Done b, w')"
  using assms
proof cases
  case (chunked cs trailer)
  with chunked_body [of cs remaining w trailer T "[]"] show ?thesis by (simp add: read_body_def)
next
  case (sized extra)
  with fixed_body [of remaining "length b" w] show ?thesis by (simp add: read_body_def)
next
  case closed
  with until_close [of remaining w] show ?thesis by (simp add: read_body_def)
qed

lemma response_read:
  assumes "status < 2 ^ 16" "plain txt" "list_all header_ok hs" "length (head_text status txt hs) \<le> 64 * 1024 - 3"
    and "stream w = head_text status txt hs @ head_end @ wire" and "framed hs wire b"
  shows "\<exists>w'. read_response T rx w =
    Some (Done \<lparr>hr_status = status, hr_status_text = txt, hr_headers = hs, hr_body = b\<rparr>, w')"
proof -
  let ?h = "head_text status txt hs"
  have lines: "list_all (\<lambda>w. plain w \<and> w \<noteq> []) (status_line status txt # map (\<lambda>h. fst h @ '': '' @ snd h) hs)"
    by (rule plain_lines [OF assms(2,3)])
  from find_head_end [OF lines, of wire] have "find_sub head_end ([] @ stream w) = Some (length ?h)"
    using assms(5) by (simp add: head_text_def del: join.simps)
  from headers_read [OF this _ assms(4), of T] obtain buf w1 where
    1: "read_headers T rx [] w = Some (headers_from T buf (length ?h), w1)" "buf @ stream w1 = ?h @ head_end @ wire"
      "length ?h + 4 \<le> length buf" using assms(5) by (auto simp: head_end_def)
  have "take (length ?h) (buf @ stream w1) = take (length ?h) buf" using 1(3) by simp
  then have head: "take (length ?h) buf = ?h" unfolding 1(2) by simp
  have "drop (length ?h + 4) (buf @ stream w1) = drop (length ?h + 4) buf @ stream w1" using 1(3) by simp
  then have rest: "drop (length ?h + 4) buf @ stream w1 = wire" unfolding 1(2) by (simp add: head_end_def)
  have "is_ascii ?h" unfolding head_text_def using lines
    by (intro is_ascii_join) (auto simp: list_all_iff plain_def crlf_def byte_def)
  then have hf: "headers_from T buf (length ?h) = Done (status, txt, hs, drop (length ?h + 4) buf)"
    using parse_head_ok [OF assms(1-3)] head by (simp add: headers_from_def utf8_valid_ascii)
  from assms(6) body_read [of hs "drop (length ?h + 4) buf" w1 b T] obtain w2 where
    "read_body T rx hs (drop (length ?h + 4) buf) w1 = Some (Done b, w2)" using rest by auto
  with 1(1) hf show ?thesis by (simp add: read_response_def)
qed

end

text \<open>A TCP connection: the bytes still to come and the sizes of the segments they come in.\<close>

type_synonym tcp = "bytes \<times> nat list"

definition tcp_recv :: "tcp rx" where
  "tcp_recv cap w =
     (let n = (case snd w of [] \<Rightarrow> cap | k # _ \<Rightarrow> min cap (max 1 k)) in
      (Inr (take n (fst w)), (drop n (fst w), tl (snd w))))"

interpretation tcp: byte_source tcp_recv fst
  by unfold_locales (auto simp: tcp_recv_def Let_def split: list.splits)

section \<open>Sending\<close>

lemma send_all_no_panic: "send_all tx d offset w = Some (out, w') \<Longrightarrow> out \<noteq> Panic"
proof -
  assume "send_all tx d offset w = Some (out, w')"
  then have "fst (out, w') \<noteq> Panic"
  proof (rule send_all.raw_induct [rotated])
    fix f :: "(bytes \<Rightarrow> 'a \<Rightarrow> (nat + nat) \<times> 'a) \<Rightarrow> bytes \<Rightarrow> nat \<Rightarrow> 'a \<Rightarrow> (unit outcome \<times> 'a) option"
    fix tx d offset w y
    assume "\<And>tx d offset w y. f tx d offset w = Some y \<Longrightarrow> fst y \<noteq> Panic"
      and "(if offset < length d then
        (case tx (drop offset d) w of
           (Inl errno, w') \<Rightarrow> Some (Fail (Socket (''send failed: errno '' @ show_nat errno)), w')
         | (Inr n, w') \<Rightarrow> f tx d ((offset + n) mod 2 ^ 32) w')
      else Some (Done (), w)) = Some y"
    then show "fst y \<noteq> Panic" by (auto split: if_splits prod.splits sum.splits)
  qed
  then show ?thesis by simp
qed

section \<open>Properties\<close>

text \<open>Claim C7: A response is read back exactly as it was sent, whatever segments the network cuts it
  into: status, status text, headers in order, and the body under each of the three framings,
  chunked, of declared length, and up to the close of the connection.\<close>

theorem read_response_round_trip:
  assumes "status < 2 ^ 16" "plain txt" "list_all header_ok hs" "length (head_text status txt hs) \<le> 64 * 1024 - 3"
    and "framed hs wire b"
  shows "\<exists>w'. read_response T tcp_recv (head_text status txt hs @ head_end @ wire, segments) =
    Some (Done \<lparr>hr_status = status, hr_status_text = txt, hr_headers = hs, hr_body = b\<rparr>, w')"
  using tcp.response_read [OF assms(1-4) _ assms(5), of "(head_text status txt hs @ head_end @ wire, segments)" T]
  by simp

definition no_texts :: err_texts where
  "no_texts = \<lparr>et_utf8 = (\<lambda>_. []), et_int = (\<lambda>_. [])\<rparr>"

lemma read_response_round_trip_witness:
  "\<exists>w'. read_response no_texts tcp_recv (head_text 200 ''OK'' [(''Transfer-Encoding'', ''chunked'')] @ head_end
       @ encode_chunks [''ab'', ''c''] @ ''trailer'', [1, 7, 30, 2]) =
     Some (Done \<lparr>hr_status = 200, hr_status_text = ''OK'', hr_headers = [(''Transfer-Encoding'', ''chunked'')],
                hr_body = concat [''ab'', ''c'']\<rparr>, w')"
proof (rule read_response_round_trip)
  show "plain ''OK''" "list_all header_ok [(''Transfer-Encoding'', ''chunked'')]"
    by (simp_all add: plain_def header_ok_def tight_def byte_def is_ws_def ws_chars_def)
  show "framed [(''Transfer-Encoding'', ''chunked'')] (encode_chunks [''ab'', ''c''] @ ''trailer'') (concat [''ab'', ''c''])"
  proof (rule framed.chunked)
    have "lower ''Transfer-Encoding'' = lower ''transfer-encoding''" by code_simp
    then show "is_chunked [(''Transfer-Encoding'', ''chunked'')]" by (simp add: is_chunked_def eq_ignore_ascii_case_def)
  qed (simp add: chunk_ok_def)
  show "length (head_text 200 ''OK'' [(''Transfer-Encoding'', ''chunked'')]) \<le> 64 * 1024 - 3"
    by (simp add: head_text_def status_line_def crlf_def show_nat_def show_radix.simps)
qed simp

text \<open>A host as the parser yields it: one without a colon, or an address that a bracket closes.\<close>

definition host_ok :: "bytes \<Rightarrow> bool" where
  "host_ok h \<longleftrightarrow> set h \<inter> {CHR ''/'', CHR '':'', CHR '']''} = {}
    \<or> h \<noteq> [] \<and> last h = CHR '']'' \<and> set (butlast h) \<inter> {CHR ''/'', CHR '']''} = {}"

lemma split_authority_plain:
  assumes "set h \<inter> {CHR ''/'', CHR '':'', CHR '']''} = {}"
  shows "split_authority d h = Inr (h, d)"
    and "n < 2 ^ 16 \<Longrightarrow> split_authority d (h @ CHR '':'' # show_nat n) = Inr (h, n)"
proof -
  from assms have h: "CHR '':'' \<notin> set h" "CHR '']'' \<notin> set h" by auto
  then have "split_once CHR '']'' h = None" "rsplit_once CHR '':'' h = None" by (simp_all add: split_once_None rsplit_once_None)
  then show "split_authority d h = Inr (h, d)" by (simp add: split_authority_def)
  have "CHR '']'' \<notin> set (h @ CHR '':'' # show_nat n)" using h show_nat_digits [of "CHR '']''"] by (auto simp: byte_def)
  then have "split_once CHR '']'' (h @ CHR '':'' # show_nat n) = None" by (simp only: split_once_None) simp
  moreover have "rsplit_once CHR '':'' (h @ CHR '':'' # show_nat n) = Some (h, show_nat n)" by (simp add: rsplit_once_Some)
  ultimately show "n < 2 ^ 16 \<Longrightarrow> split_authority d (h @ CHR '':'' # show_nat n) = Inr (h, n)"
    by (simp add: split_authority_def parse_port_def)
qed

lemma split_authority_bracket:
  assumes "CHR '']'' \<notin> set a"
  shows "split_authority d (a @ '']'') = Inr (a @ '']'', d)"
    and "n < 2 ^ 16 \<Longrightarrow> split_authority d ((a @ '']'') @ CHR '':'' # show_nat n) = Inr (a @ '']'', n)"
proof -
  have "split_once CHR '']'' (a @ CHR '']'' # b) = Some (a, b)" for b using assms by (simp add: split_once_Some)
  from this [of "[]"] this [of "CHR '':'' # show_nat n"] show "split_authority d (a @ '']'') = Inr (a @ '']'', d)"
    and "n < 2 ^ 16 \<Longrightarrow> split_authority d ((a @ '']'') @ CHR '':'' # show_nat n) = Inr (a @ '']'', n)"
    by (simp_all add: split_authority_def parse_port_def)
qed

lemma split_authority_host:
  assumes "host_ok h"
  shows "split_authority d h = Inr (h, d)" and "n < 2 ^ 16 \<Longrightarrow> split_authority d (h @ CHR '':'' # show_nat n) = Inr (h, n)"
proof -
  from assms consider "set h \<inter> {CHR ''/'', CHR '':'', CHR '']''} = {}" | a where "h = a @ '']''" "CHR '']'' \<notin> set a"
    unfolding host_ok_def by (cases h rule: rev_cases) auto
  then have "split_authority d h = Inr (h, d) \<and> (n < 2 ^ 16 \<longrightarrow> split_authority d (h @ CHR '':'' # show_nat n) = Inr (h, n))"
  proof cases
    case 1
    then show ?thesis by (simp add: split_authority_plain)
  next
    case 2
    show ?thesis using split_authority_bracket(1) [OF 2(2), of d] split_authority_bracket(2) [OF 2(2), of n d] unfolding 2(1) by blast
  qed
  then show "split_authority d h = Inr (h, d)" and "n < 2 ^ 16 \<Longrightarrow> split_authority d (h @ CHR '':'' # show_nat n) = Inr (h, n)"
    by simp_all
qed

text \<open>Claim C21: The URL a request's Host header and path spell, with the scheme in front, is parsed back
  to the same URL, and the header leaves the port out exactly when it is the scheme's default. The host
  has no slash and either neither colon nor bracket, or is an address whose only closing bracket is its
  last character; the path starts with a slash.\<close>

theorem parse_url_round_trip:
  assumes "ur_scheme u = ''http'' \<or> ur_scheme u = ''https''" and "ur_port u < 2 ^ 16"
    and "host_ok (ur_host u)" and "prefix ''/'' (ur_path u)"
  shows "parse_url (ur_scheme u @ ''://'' @ host_header u @ ur_path u) = Inr u
    \<and> host_header u = ur_host u @ (if ur_port u = (if ur_scheme u = ''https'' then 443 else 80) then []
        else '':'' @ show_nat (ur_port u))"
proof -
  let ?d = "if ur_scheme u = ''https'' then 443 else 80 :: nat"
  obtain p where p: "ur_path u = CHR ''/'' # p" using assms(4) by (auto simp: prefix_def)
  have s: "split_scheme (ur_scheme u @ ''://'' @ r) = Inr (ur_scheme u, r)" for r
    using assms(1) by (auto simp: split_scheme_def)
  have hh: "host_header u = ur_host u @ (if ur_port u = ?d then [] else '':'' @ show_nat (ur_port u))"
    by (simp add: host_header_def is_tls_def)
  have "CHR ''/'' \<notin> set (ur_host u)"
    using assms(3) append_butlast_last_id [of "ur_host u"] by (cases "ur_host u" rule: rev_cases) (auto simp: host_ok_def)
  then have "CHR ''/'' \<notin> set (host_header u)" using show_nat_digits [of "CHR ''/''"] by (auto simp: hh byte_def)
  then have path: "split_once CHR ''/'' (host_header u @ ur_path u) = Some (host_header u, p)"
    by (simp add: split_once_Some p)
  have "split_authority D (host_header u) = Inr (ur_host u, ur_port u)" if D: "D = ?d" for D
  proof (cases "ur_port u = D")
    case True
    then show ?thesis using split_authority_host(1) [OF assms(3), of D] by (simp add: hh D [symmetric])
  next
    case False
    then show ?thesis using split_authority_host(2) [OF assms(3,2), of D] by (simp add: hh D [symmetric])
  qed
  then have "split_authority ?d (host_header u) = Inr (ur_host u, ur_port u)" by blast
  then have "parse_url (ur_scheme u @ ''://'' @ host_header u @ ur_path u) = Inr u"
    unfolding parse_url_def s [of "host_header u @ ur_path u"] using path by (simp add: Let_def p)
  with hh show ?thesis by blast
qed

lemma show_8080: "show_nat 8080 = ''8080''"
  by (simp add: show_nat_def show_radix.simps)

lemma parse_url_round_trip_witness:
  "parse_url ''http://[::1]:8080/v1?q=1'' =
     Inr \<lparr>ur_scheme = ''http'', ur_host = ''[::1]'', ur_port = 8080, ur_path = ''/v1?q=1''\<rparr>"
  using show_8080 parse_url_round_trip [of "\<lparr>ur_scheme = ''http'', ur_host = ''[::1]'', ur_port = 8080, ur_path = ''/v1?q=1''\<rparr>"]
  by (simp add: host_header_def is_tls_def host_ok_def)

text \<open>A connected socket is closed after the response is read, with whatever outcome, but not
  when sending the request fails: then the error is returned and the descriptor stays open.\<close>

theorem http_send_close:
  assumes "http_connect H (rq_url r) w = (Inr fd, w1)" and "http_send T H r w = Some (res, w')"
  shows "(\<exists>e. send_all (hs_send H fd) (to_bytes r) 0 w1 = Some (Fail e, w') \<and> res = Fail e)
    \<or> (\<exists>w2 w3. send_all (hs_send H fd) (to_bytes r) 0 w1 = Some (Done (), w2)
         \<and> read_response T (hs_recv H fd) w2 = Some (res, w3) \<and> w' = hs_close H fd w3)"
  using assms by (auto simp: http_send_def split: outcome.splits bind_splits dest: send_all_no_panic)

text \<open>The witness: the state of the host is the set of its open descriptors; the peer has closed the
  connection, so sending fails with errno 32.\<close>

definition reset_host :: "nat set host" where
  "reset_host = \<lparr>hs_socket = (\<lambda>w. (Inr 3, insert 3 w)), hs_connect = (\<lambda>fd a w. (None, w)),
     hs_tls = (\<lambda>fd a w. (None, w)), hs_send = (\<lambda>fd d w. (Inl 32, w)), hs_recv = (\<lambda>fd n w. (Inr [], w)),
     hs_close = (\<lambda>fd w. w - {fd})\<rparr>"

definition demo_get :: request where
  "demo_get = \<lparr>rq_method = Get, rq_url = \<lparr>ur_scheme = ''http'', ur_host = ''h'', ur_port = 80, ur_path = ''/''\<rparr>,
     rq_headers = [], rq_body = None\<rparr>"

lemma http_send_close_witness:
  "\<exists>e. http_send no_texts reset_host demo_get {} = Some (Fail e, {3})
     \<and> send_all (hs_send reset_host 3) (to_bytes demo_get) 0 {3} = Some (Fail e, {3})"
proof -
  have c: "http_connect reset_host (rq_url demo_get) {} = (Inr 3, {3})"
    by (simp add: http_connect_def reset_host_def demo_get_def is_tls_def Let_def)
  have s: "send_all (hs_send reset_host 3) (to_bytes demo_get) 0 {3}
      = Some (Fail (Socket (''send failed: errno '' @ show_nat 32)), {3})"
    by (subst send_all.simps) (simp add: reset_host_def to_bytes_def crlf_def)
  have "\<exists>res w'. http_send no_texts reset_host demo_get {} = Some (res, w')"
    using c s by (simp add: http_send_def)
  then obtain res w' where r: "http_send no_texts reset_host demo_get {} = Some (res, w')" by blast
  from http_send_close [OF c r] s r show ?thesis by auto
qed

text \<open>A chunk size line of \<open>ffffffff\<close> makes the client panic: the end of the chunk is
  computed with a 32-bit sum, which wraps, so the wait for the chunk ends at once and the slice of
  the chunk is out of range.\<close>

theorem huge_chunk_panics:
  assumes "s \<noteq> []" and "length s < 2 ^ 32 - 1"
  shows "read_chunked_body T rx body (''ffffffff'' @ crlf @ s) w = Some (Panic, w)"
proof -
  define n where "n = (2 ^ 32 - 1 :: nat)"
  define line where "line = ''ffffffff''"
  have hex: "show_radix 16 n = line" unfolding n_def line_def by (simp add: show_radix.simps)
  have n: "n < 2 ^ 32" "0 < n" "(n + 2) mod 2 ^ 32 = 1" "length s < n" using assms(2) by (simp_all add: n_def)
  have "find_sub crlf (line @ crlf @ s) = Some (length line)"
    using find_crlf_show [of n s] by (simp only: hex)
  moreover have "chunk_size T line = Inr n" using chunk_size_show [OF n(1), of T] by (simp only: hex)
  moreover have "fill_chunk rx 1 s w = Some (Done s, w)"
    using assms(1) by (subst fill_chunk.simps) (simp add: Suc_le_eq)
  moreover have "take_chunk n s = None" using n(4) by (simp add: take_chunk_def)
  moreover have "drop (length line + 2) (line @ crlf @ s) = s" by (simp add: crlf_def)
  ultimately have "read_chunked_body T rx body (line @ crlf @ s) w = Some (Panic, w)"
    using n(2,3) by (subst read_chunked_body.simps) simp
  then show ?thesis by (simp only: line_def)
qed

lemma huge_chunk_panics_witness:
  "read_chunked_body no_texts tcp_recv [] (''ffffffff'' @ crlf @ ''x'') ([], []) = Some (Panic, ([], []))"
  by (rule huge_chunk_panics) simp_all

text \<open>Claim C26: Sending never ends when the host keeps accepting zero bytes: a result of 0 is neither an
  error nor progress.\<close>

theorem send_all_zero_diverges:
  assumes "\<And>s v. tx s v = (Inr 0, v)" and "offset < length d"
  shows "send_all tx d offset w = None"
proof (rule ccontr)
  assume "send_all tx d offset w \<noteq> None"
  then obtain y where "send_all tx d offset w = Some y" by blast
  then have "offset < length d \<longrightarrow> tx = tx \<longrightarrow> (\<forall>s v. tx s v = (Inr 0, v)) \<longrightarrow> False"
  proof (rule send_all.raw_induct [rotated])
    fix f :: "(bytes \<Rightarrow> 'a \<Rightarrow> (nat + nat) \<times> 'a) \<Rightarrow> bytes \<Rightarrow> nat \<Rightarrow> 'a \<Rightarrow> (unit outcome \<times> 'a) option"
    fix tx' d' offset' w' y'
    assume "\<And>tx d offset w y. f tx d offset w = Some y \<Longrightarrow>
      offset < length d \<longrightarrow> tx = tx \<longrightarrow> (\<forall>s v. tx s v = (Inr 0, v)) \<longrightarrow> False"
      and "(if offset' < length d' then
        (case tx' (drop offset' d') w' of
           (Inl errno, w') \<Rightarrow> Some (Fail (Socket (''send failed: errno '' @ show_nat errno)), w')
         | (Inr n, w') \<Rightarrow> f tx' d' ((offset' + n) mod 2 ^ 32) w')
      else Some (Done (), w')) = Some y'"
    moreover have "offset' mod 2 ^ 32 < length d'" if "offset' < length d'"
      using that mod_less_eq_dividend le_less_trans by blast
    ultimately show "offset' < length d' \<longrightarrow> tx' = tx' \<longrightarrow> (\<forall>s v. tx' s v = (Inr 0, v)) \<longrightarrow> False"
      by fastforce
  qed
  with assms show False by simp
qed

lemma send_all_zero_diverges_witness: "send_all (\<lambda>s v. (Inr 0, v)) ''GET'' 0 () = None"
  by (rule send_all_zero_diverges) simp_all

end
