(* ===== verification/Kernel_Probe.thy ===== *)
theory Kernel_Probe
  imports Kernel_Providers
begin

text \<open>
  The probes of the kernel (\<open>engine/src/probe.rs\<close>): reachability of a URL, the status and the
  prediction calls of the Synth service, the scan of a directory for repositories and the check of a
  binary.  The HTTP client and the file system are the records \<open>net\<close> and \<open>disk\<close>.  The blocking-pool
  wrappers run the synchronous functions; a closure that does not panic is always joined.
\<close>

section \<open>Values built by the kernel\<close>

text \<open>The values of the \<open>json!\<close> macro, with those read from the network embedded.\<close>

datatype 'v jout =
    ONull | OBool bool | OText bytes | ONat nat | OList "'v jout list"
  | OObj "(bytes \<times> 'v jout) list" | OForeign 'v

text \<open>\<open>v[key]\<close> and \<open>as_u64\<close> on a built value.\<close>

definition o_get :: "'v jout \<Rightarrow> bytes \<Rightarrow> 'v jout" where
  "o_get v k =
     (case v of OObj fs \<Rightarrow> (case map_of fs k of Some x \<Rightarrow> x | None \<Rightarrow> ONull) | _ \<Rightarrow> ONull)"

definition o_u64 :: "'v jout \<Rightarrow> nat option" where
  "o_u64 v = (case v of ONat n \<Rightarrow> Some n | _ \<Rightarrow> None)"

section \<open>Reachability\<close>

text \<open>Requests with a time limit in milliseconds; the last operation reads the time since the probe
  started.  \<open>n_field\<close> is \<open>Value::get\<close> on a key.\<close>

record ('v, 'w) net =
  n_head :: "bytes \<Rightarrow> nat \<Rightarrow> 'w \<Rightarrow> 'v answer \<times> 'w"
  n_get :: "bytes \<Rightarrow> nat \<Rightarrow> 'w \<Rightarrow> 'v answer \<times> 'w"
  n_post :: "bytes \<Rightarrow> (bytes \<times> bytes) list \<Rightarrow> body \<Rightarrow> nat \<Rightarrow> 'w \<Rightarrow> 'v answer \<times> 'w"
  n_elapsed :: "'w \<Rightarrow> nat \<times> 'w"
  n_field :: "'v \<Rightarrow> bytes \<Rightarrow> 'v option"

definition probe_url ::
  "('v, 'w) net \<Rightarrow> bytes \<Rightarrow> bytes \<Rightarrow> bytes \<Rightarrow> nat \<Rightarrow> 'w \<Rightarrow> probe_result \<times> 'w" where
  "probe_url N label url method timeout w =
     (let (a, w1) = (if method = ''HEAD'' then n_head N else n_get N) url timeout w;
          (ms, w2) = n_elapsed N w1
      in case a of
           Response status txt js \<Rightarrow>
             (\<lparr>pr_label = label, pr_url = url, pr_reachable = True, pr_http_status = Some (of_nat status),
               pr_latency_ms = of_nat ms\<rparr>, w2)
         | NoResponse e \<Rightarrow>
             (\<lparr>pr_label = label, pr_url = url, pr_reachable = False, pr_http_status = None,
               pr_latency_ms = of_nat ms\<rparr>, w2))"

definition probe_mermate :: "('v, 'w) net \<Rightarrow> bytes \<Rightarrow> 'w \<Rightarrow> probe_result \<times> 'w" where
  "probe_mermate N base = probe_url N ''Mermate'' (base @ ''/api/copilot/health'') ''GET'' 2500"

definition probe_synth :: "('v, 'w) net \<Rightarrow> bytes \<Rightarrow> 'w \<Rightarrow> probe_result \<times> 'w" where
  "probe_synth N base = probe_url N ''Synth'' (base @ ''/api/health'') ''GET'' 2500"

definition probe_ollama :: "('v, 'w) net \<Rightarrow> bytes \<Rightarrow> 'w \<Rightarrow> probe_result \<times> 'w" where
  "probe_ollama N base w =
     (if base = [] then
        (\<lparr>pr_label = ''Ollama'', pr_url = [], pr_reachable = False, pr_http_status = None, pr_latency_ms = 0\<rparr>, w)
      else probe_url N ''Ollama'' (base @ ''/api/tags'') ''GET'' 2000 w)"

section \<open>The Synth service\<close>

definition field_or_null :: "('v, 'w) net \<Rightarrow> 'v \<Rightarrow> bytes \<Rightarrow> 'v jout" where
  "field_or_null N v k = (case n_field N v k of Some x \<Rightarrow> OForeign x | None \<Rightarrow> ONull)"

definition probe_synth_deep :: "('v, 'w) net \<Rightarrow> bytes \<Rightarrow> 'w \<Rightarrow> 'v jout \<times> 'w" where
  "probe_synth_deep N base w =
     (if base = [] then
        (OObj [(''reachable'', OBool False), (''error'', OText ''SYNTH_URL not configured'')], w)
      else (let (a, w1) = n_get N (base @ ''/api/health'') 3000 w in
        case a of
          NoResponse e \<Rightarrow> (OObj [(''reachable'', OBool False), (''error'', OText e)], w1)
        | Response status txt js \<Rightarrow>
            (case js of
               Inl e \<Rightarrow> (OObj [(''reachable'', OBool True), (''error'', OText ''invalid json'')], w1)
             | Inr data \<Rightarrow>
                 (OObj ([(''purpose'', OText ''synth_trading_desk''), (''reachable'', OBool True)]
                        @ map (\<lambda>k. (k, field_or_null N data k))
                            [''status'', ''simulation_mode'', ''approval_required'', ''ai_engine_available'',
                             ''predictions'', ''opseeq'']), w1))))"

definition synth_predict ::
  "('v, 'w) net \<Rightarrow> bytes \<Rightarrow> bytes \<Rightarrow> bytes option \<Rightarrow> 'w \<Rightarrow> (bytes + 'v) \<times> 'w" where
  "synth_predict N base query wallet w =
     (if base = [] then (Inl ''SYNTH_URL not configured'', w)
      else (let (a, w1) = n_post N (base @ ''/api/predictions/generate'') [(''Content-Type'', ''application/json'')]
                  ([(''query'', BText query)] @ (case wallet of Some wid \<Rightarrow> [(''wallet_id'', BText wid)] | None \<Rightarrow> []))
                  60000 w
            in case a of
                 NoResponse e \<Rightarrow> (Inl (''synth predict: '' @ e), w1)
               | Response status txt js \<Rightarrow>
                   (case js of Inl e \<Rightarrow> (Inl (''synth predict json: '' @ e), w1) | Inr data \<Rightarrow> (Inr data, w1))))"

section \<open>Scanning a directory\<close>

text \<open>\<open>dk_entries\<close> lists the names of the entries that can be read, when the directory can be;
  \<open>dk_read\<close> is the content of a readable file, \<open>dk_modified\<close> its time in seconds since the epoch,
  \<open>dk_mode\<close> and \<open>dk_len\<close> its metadata.\<close>

record disk =
  dk_is_dir :: "bytes \<Rightarrow> bool"
  dk_exists :: "bytes \<Rightarrow> bool"
  dk_entries :: "bytes \<Rightarrow> bytes list option"
  dk_read :: "bytes \<Rightarrow> bytes option"
  dk_modified :: "bytes \<Rightarrow> 64 word option"
  dk_mode :: "bytes \<Rightarrow> 32 word option"
  dk_len :: "bytes \<Rightarrow> 64 word option"

record repo =
  rp_name :: bytes
  rp_path :: bytes
  rp_package_json :: bool
  rp_cargo_toml :: bool
  rp_env :: bool
  rp_mcp_json :: bool
  rp_connected :: bool
  rp_modified :: nat

definition env_connected :: "disk \<Rightarrow> bytes \<Rightarrow> bool" where
  "env_connected D ep =
     (case dk_read D (path_join ep ''.env'') of
        Some c \<Rightarrow> utf8_valid c \<and> (sublist ''OPSEEQ_URL'' c \<or> sublist ''OPENAI_BASE_URL'' c)
      | None \<Rightarrow> False)"

definition scan_entry :: "disk \<Rightarrow> bytes \<Rightarrow> bytes \<Rightarrow> repo option" where
  "scan_entry D dir file =
     (let ep = path_join dir file; name = from_utf8_lossy file in
      if \<not> dk_is_dir D ep then None
      else if prefix ''.'' name \<or> name = ''node_modules'' \<or> name = ''target'' then None
      else (let has_env = dk_exists D (path_join ep ''.env'') in
        Some \<lparr>rp_name = name, rp_path = from_utf8_lossy ep,
              rp_package_json = dk_exists D (path_join ep ''package.json''),
              rp_cargo_toml = dk_exists D (path_join ep ''Cargo.toml''),
              rp_env = has_env, rp_mcp_json = dk_exists D (path_join ep ''.mcp.json''),
              rp_connected = (if has_env then env_connected D ep else False),
              rp_modified = (case dk_modified D ep of Some t \<Rightarrow> unat t | None \<Rightarrow> 0)\<rparr>))"

text \<open>The stable sort, the latest change first.\<close>

definition scan_repos :: "disk \<Rightarrow> bytes \<Rightarrow> repo list" where
  "scan_repos D dir =
     sort_key (\<lambda>r. - int (rp_modified r))
       (List.map_filter (scan_entry D dir) (case dk_entries D dir of Some es \<Rightarrow> es | None \<Rightarrow> []))"

definition repo_value :: "repo \<Rightarrow> 'v jout" where
  "repo_value r =
     OObj [(''name'', OText (rp_name r)), (''path'', OText (rp_path r)),
           (''has_package_json'', OBool (rp_package_json r)), (''has_cargo_toml'', OBool (rp_cargo_toml r)),
           (''has_env'', OBool (rp_env r)), (''has_mcp_json'', OBool (rp_mcp_json r)),
           (''opseeq_connected'', OBool (rp_connected r)), (''modified_epoch'', ONat (rp_modified r))]"

definition scan_directory :: "disk \<Rightarrow> bytes \<Rightarrow> 'v jout" where
  "scan_directory D dir =
     (if \<not> dk_is_dir D dir
      then OObj [(''error'', OText (dir @ '' is not a directory'')), (''repos'', OList [])]
      else (let rs = scan_repos D dir in
            OObj [(''path'', OText dir), (''repos_found'', ONat (length rs)), (''repos'', OList (map repo_value rs))]))"

section \<open>Checking a binary\<close>

unbundle bit_operations_syntax

text \<open>The three execute bits are \<open>0o111 = 0x49\<close>.\<close>

definition verify_binary :: "disk \<Rightarrow> bytes \<Rightarrow> 'v jout" where
  "verify_binary D p =
     (if \<not> dk_exists D p
      then OObj [(''exists'', OBool False), (''path'', OText p), (''error'', OText ''file not found'')]
      else OObj [(''exists'', OBool True), (''path'', OText p),
             (''is_executable'', OBool (case dk_mode D p of Some m \<Rightarrow> m AND 0x49 \<noteq> 0 | None \<Rightarrow> False)),
             (''size_bytes'', ONat (case dk_len D p of Some n \<Rightarrow> unat n | None \<Rightarrow> 0)),
             (''is_app_bundle'', OBool (suffix ''.app'' p))])"

section \<open>The scan\<close>

lemma mset_scan_repos:
  "mset (scan_repos D dir) =
     mset (List.map_filter (scan_entry D dir) (case dk_entries D dir of Some es \<Rightarrow> es | None \<Rightarrow> []))"
  by (simp add: scan_repos_def)

lemma scan_entry_kept:
  "scan_entry D dir file = Some r \<Longrightarrow> dk_is_dir D (path_join dir file) \<and> rp_name r = from_utf8_lossy file
     \<and> \<not> prefix ''.'' (rp_name r) \<and> rp_name r \<noteq> ''node_modules'' \<and> rp_name r \<noteq> ''target''
     \<and> (rp_connected r \<longrightarrow> rp_env r)"
  by (auto simp: scan_entry_def Let_def split: if_splits)

lemma in_map_filter: "r \<in> set (List.map_filter f xs) \<longleftrightarrow> (\<exists>x\<in>set xs. f x = Some r)"
  by (force simp: map_filter_def)

lemma sorted_scan_repos: "sorted (map (\<lambda>r. - int (rp_modified r)) (scan_repos D dir))"
  by (simp add: scan_repos_def)

section \<open>Properties\<close>

text \<open>A directory scan reports exactly the readable entries that are directories and neither
  hidden nor \<open>node_modules\<close> nor \<open>target\<close>, the latest change first, and says how many there are; it
  calls a repository connected only if it has a .env file that names the gateway.\<close>

theorem scan_directory_reports:
  assumes "dk_is_dir D dir" and "dk_entries D dir = Some es"
  shows "\<exists>rs. scan_directory D dir = OObj [(''path'', OText dir), (''repos_found'', ONat (length rs)),
        (''repos'', OList (map repo_value rs))]
    \<and> mset (map rp_name rs) = mset (map from_utf8_lossy (filter (\<lambda>e. dk_is_dir D (path_join dir e)
        \<and> \<not> prefix ''.'' (from_utf8_lossy e) \<and> from_utf8_lossy e \<noteq> ''node_modules'' \<and> from_utf8_lossy e \<noteq> ''target'') es))
    \<and> sorted (rev (map rp_modified rs))
    \<and> list_all (\<lambda>r. rp_connected r \<longrightarrow> rp_env r) rs"
proof (intro exI conjI)
  let ?rs = "scan_repos D dir"
  show "scan_directory D dir = OObj [(''path'', OText dir), (''repos_found'', ONat (length ?rs)),
        (''repos'', OList (map repo_value ?rs))]"
    using assms(1) by (simp add: scan_directory_def Let_def)
  have "mset (map rp_name ?rs) = mset (map rp_name (List.map_filter (scan_entry D dir) es))"
    using assms(2) mset_scan_repos [of D dir] by simp
  also have "map rp_name (List.map_filter (scan_entry D dir) es) = map from_utf8_lossy (filter (\<lambda>e. dk_is_dir D (path_join dir e)
        \<and> \<not> prefix ''.'' (from_utf8_lossy e) \<and> from_utf8_lossy e \<noteq> ''node_modules'' \<and> from_utf8_lossy e \<noteq> ''target'') es)"
    by (induction es) (auto simp: map_filter_simps scan_entry_def Let_def)
  finally show "mset (map rp_name ?rs) = mset \<dots>" .
  have "sorted_wrt (\<lambda>x y. y \<le> x) (map rp_modified ?rs)"
    using sorted_scan_repos [of D dir] by (simp add: sorted_wrt_map)
  then show "sorted (rev (map rp_modified ?rs))" by (simp add: sorted_wrt_rev)
  show "list_all (\<lambda>r. rp_connected r \<longrightarrow> rp_env r) ?rs"
    using assms(2) scan_entry_kept [of D dir]
    by (auto simp: list_all_iff scan_repos_def in_map_filter)
qed

definition demo_disk :: disk where
  "demo_disk = \<lparr>dk_is_dir = (\<lambda>p. p \<noteq> ''d/f''), dk_exists = (\<lambda>p. p = ''d/a/.env''),
     dk_entries = (\<lambda>p. if p = ''d'' then Some [''.git'', ''a'', ''f'', ''b''] else None),
     dk_read = (\<lambda>p. if p = ''d/a/.env'' then Some ''OPSEEQ_URL=x'' else None),
     dk_modified = (\<lambda>p. if p = ''d/b'' then Some 7 else Some 3), dk_mode = (\<lambda>_. Some 0x1ED), dk_len = (\<lambda>_. None)\<rparr>"

lemma scan_directory_reports_witness:
  "\<exists>rs. scan_directory demo_disk ''d'' = (OObj [(''path'', OText ''d''), (''repos_found'', ONat (length rs)),
      (''repos'', OList (map repo_value rs))] :: unit jout) \<and> length rs = 2"
proof -
  have "dk_is_dir demo_disk ''d''" "dk_entries demo_disk ''d'' = Some [''.git'', ''a'', ''f'', ''b'']"
    by (simp_all add: demo_disk_def)
  from scan_directory_reports [OF this, where 'a = unit] obtain rs where
    r: "scan_directory demo_disk ''d'' = (OObj [(''path'', OText ''d''), (''repos_found'', ONat (length rs)),
      (''repos'', OList (map repo_value rs))] :: unit jout)"
    and m: "mset (map rp_name rs) = mset (map from_utf8_lossy (filter (\<lambda>e. dk_is_dir demo_disk (path_join ''d'' e)
        \<and> \<not> prefix ''.'' (from_utf8_lossy e) \<and> from_utf8_lossy e \<noteq> ''node_modules'' \<and> from_utf8_lossy e \<noteq> ''target'')
        [''.git'', ''a'', ''f'', ''b'']))" by blast
  have "filter (\<lambda>e. dk_is_dir demo_disk (path_join ''d'' e)
        \<and> \<not> prefix ''.'' (from_utf8_lossy e) \<and> from_utf8_lossy e \<noteq> ''node_modules'' \<and> from_utf8_lossy e \<noteq> ''target'')
        [''.git'', ''a'', ''f'', ''b''] = [''a'', ''b'']"
    by (simp add: demo_disk_def path_join_def from_utf8_lossy_valid utf8_valid_ascii byte_def)
  with m have "size (mset (map rp_name rs)) = size (mset [''a'', ''b''])"
    by (metis length_map size_mset)
  then have "length rs = 2" by simp
  with r show ?thesis by blast
qed

end
