(* ===== verification/Kernel_Rpc.thy ===== *)
theory Kernel_Rpc
  imports Kernel_Probe
begin

text \<open>
  The RPC server of the kernel (\<open>engine/src/rpc.rs\<close>): one JSON request per line of standard input,
  one reply per request on standard output.  \<open>dispatch\<close> is given method by method; the loop is
  generic in the handler, whose contract is the locale \<open>rpc_handler\<close>, and \<open>dispatch\<close> is its instance.
\<close>

section \<open>Messages\<close>

record 'v rpc_request =
  rq_id :: 'v
  rq_method :: bytes
  rq_params :: 'v

record rpc_error =
  er_code :: int
  er_message :: bytes

text \<open>The results, before they are turned into JSON.\<close>

datatype 'v rpc_value =
    RJson "'v jout" | RChat chat_response | RModels "model_entry list" | ROllama "ollama_model list"
  | RProbe probe_result | RProbes "probe_result list"

record 'v rpc_response =
  rs_id :: "'v jout"
  rs_result :: "'v rpc_value option"
  rs_error :: "rpc_error option"

definition rpc_ok :: "'v jout \<Rightarrow> 'v rpc_value \<Rightarrow> 'v rpc_response" where
  "rpc_ok i v = \<lparr>rs_id = i, rs_result = Some v, rs_error = None\<rparr>"

definition rpc_err :: "'v jout \<Rightarrow> int \<Rightarrow> bytes \<Rightarrow> 'v rpc_response" where
  "rpc_err i code msg = \<lparr>rs_id = i, rs_result = None, rs_error = Some \<lparr>er_code = code, er_message = msg\<rparr>\<rparr>"

text \<open>What the server does, in order.\<close>

datatype 'v rpc_action = Routing "action list" | Emitted runtime_event | Note bytes | Reply "'v rpc_response"

section \<open>The outside\<close>

text \<open>The readers derived by serde, fresh identifiers, clocks, the clients, the environment and the disk.\<close>

record ('v, 'w) kernel =
  kn_request :: "bytes \<Rightarrow> bytes + 'v rpc_request"
  kn_chat :: "'v \<Rightarrow> bytes + chat_request"
  kn_ollama :: "'v \<Rightarrow> ollama_model option"
  kn_json :: "'v json"
  kn_uuid :: "'w \<Rightarrow> bytes \<times> 'w"
  kn_uptime :: "'w \<Rightarrow> nat \<times> 'w"
  kn_now :: "'w \<Rightarrow> nat \<times> 'w"
  kn_http :: "('v, 'w) http"
  kn_net :: "('v, 'w) net"
  kn_io :: "'w io"
  kn_env :: env
  kn_disk :: disk

type_synonym 'w rpc_state = "model_cache option \<times> 'w"

type_synonym ('v, 'w) rpc_method = "'v rpc_request \<Rightarrow> 'w rpc_state \<Rightarrow> 'v rpc_response \<times> 'v rpc_action list \<times> 'w rpc_state"

section \<open>Methods\<close>

definition kernel_version :: bytes where
  "kernel_version = ''5.0.0''"

definition rpc_ping :: "('v, 'w) kernel \<Rightarrow> kernel_config \<Rightarrow> ('v, 'w) rpc_method" where
  "rpc_ping K cfg req s =
     (let (ms, w1) = kn_uptime K (snd s) in
      (rpc_ok (OForeign (rq_id req))
         (RJson (OObj [(''version'', OText kernel_version), (''uptime_ms'', ONat (ms mod 2 ^ 64)),
                       (''providers'', ONat (length (kc_providers cfg)))])), [], (fst s, w1)))"

text \<open>The lower-case patterns are ASCII and no other character has their letters in its lower case at
  a place where they would complete a pattern, so ASCII lower case decides the same.\<close>

definition route_error_code :: "bytes \<Rightarrow> int" where
  "route_error_code e =
     (if sublist ''no provider for model'' e then - 32602
      else if sublist ''429'' e \<or> sublist ''rate limit'' (lower e) then - 32002
      else if sublist ''401'' e \<or> sublist ''403'' e \<or> sublist ''auth'' (lower e) then - 32001
      else if sublist ''timeout'' e \<or> sublist ''timed out'' e then - 32003
      else - 32000)"

definition trace_of :: "('v, 'w) kernel \<Rightarrow> 'v \<Rightarrow> 'w \<Rightarrow> bytes \<times> 'w" where
  "trace_of K params w =
     (case js_str (kn_json K) (js_get (kn_json K) params ''trace_id'') of
        Some t \<Rightarrow> if t \<noteq> [] then (t, w) else (let (u, w1) = kn_uuid K w in (take 12 u, w1))
      | None \<Rightarrow> (let (u, w1) = kn_uuid K w in (take 12 u, w1)))"

definition rpc_route :: "('v, 'w) kernel \<Rightarrow> kernel_config \<Rightarrow> ('v, 'w) rpc_method" where
  "rpc_route K cfg req s =
     (let i = OForeign (rq_id req) in
      case kn_chat K (rq_params req) of
        Inl e \<Rightarrow> (rpc_err i (- 32602) (''invalid params: '' @ e), [], s)
      | Inr chat \<Rightarrow>
          (let (tid, w1) = trace_of K (rq_params req) (snd s);
               (res, st, w2) = route_inference (events_enabled (kn_env K))
                   ((kn_io K)\<lparr>io_call := call_provider (kn_http K) (kn_json K)\<rparr>) cfg chat tid w1
           in (case res of Inr resp \<Rightarrow> rpc_ok i (RChat resp) | Inl e \<Rightarrow> rpc_err i (route_error_code e) e,
               [Routing (rt_actions st)], (fst s, w2))))"

text \<open>The cache is read at one time and, on a miss, written after the tags request at another.\<close>

definition rpc_models :: "('v, 'w) kernel \<Rightarrow> kernel_config \<Rightarrow> ('v, 'w) rpc_method" where
  "rpc_models K cfg req s =
     (let (t0, w1) = kn_now K (snd s);
          (fetched, w2) = ollama_list_models (kn_http K) (kn_json K) (kn_ollama K) (kc_ollama_url cfg) w1;
          (t1, w3) = kn_now K w2;
          (es, cache) = list_models_cached cfg (fst s) t0 t1 fetched
      in (rpc_ok (OForeign (rq_id req)) (RModels es), [],
          (cache, if cache_hit (fst s) t0 = None then w3 else w1)))"

definition rpc_ollama :: "('v, 'w) kernel \<Rightarrow> kernel_config \<Rightarrow> ('v, 'w) rpc_method" where
  "rpc_ollama K cfg req s =
     (let i = OForeign (rq_id req);
          (res, w1) = ollama_list_models (kn_http K) (kn_json K) (kn_ollama K) (kc_ollama_url cfg) (snd s)
      in (case res of Inr ms \<Rightarrow> rpc_ok i (ROllama ms) | Inl e \<Rightarrow> rpc_err i (- 32000) e, [], (fst s, w1)))"

definition rpc_mermate_probe :: "('v, 'w) kernel \<Rightarrow> kernel_config \<Rightarrow> ('v, 'w) rpc_method" where
  "rpc_mermate_probe K cfg req s =
     (let (p, w1) = probe_mermate (kn_net K) (kc_mermate_url cfg) (snd s)
      in (rpc_ok (OForeign (rq_id req)) (RProbe p), [], (fst s, w1)))"

definition rpc_synth_probe :: "('v, 'w) kernel \<Rightarrow> kernel_config \<Rightarrow> ('v, 'w) rpc_method" where
  "rpc_synth_probe K cfg req s =
     (let (p, w1) = probe_synth (kn_net K) (kc_synth_url cfg) (snd s)
      in (rpc_ok (OForeign (rq_id req)) (RProbe p), [], (fst s, w1)))"

definition rpc_synth_status :: "('v, 'w) kernel \<Rightarrow> kernel_config \<Rightarrow> ('v, 'w) rpc_method" where
  "rpc_synth_status K cfg req s =
     (let (v, w1) = probe_synth_deep (kn_net K) (kc_synth_url cfg) (snd s)
      in (rpc_ok (OForeign (rq_id req)) (RJson v), [], (fst s, w1)))"

definition rpc_synth_predict :: "('v, 'w) kernel \<Rightarrow> kernel_config \<Rightarrow> ('v, 'w) rpc_method" where
  "rpc_synth_predict K cfg req s =
     (let i = OForeign (rq_id req); J = kn_json K;
          query = str_or J (js_get J (rq_params req) ''query'') [];
          wallet = js_str J (js_get J (rq_params req) ''wallet_id'')
      in if query = [] then (rpc_err i (- 32602) ''query required'', [], s)
         else (let (res, w1) = synth_predict (kn_net K) (kc_synth_url cfg) query wallet (snd s)
               in (case res of Inr data \<Rightarrow> rpc_ok i (RJson (OForeign data)) | Inl e \<Rightarrow> rpc_err i (- 32000) e,
                   [], (fst s, w1))))"

text \<open>The six targets are probed concurrently and joined in this order; the order in which their
  requests interleave on the network is not modelled.\<close>

definition connectivity_targets :: "kernel_config \<Rightarrow> (bytes \<times> bytes \<times> bytes) list" where
  "connectivity_targets cfg =
     [(''NVIDIA NIM'', ''https://integrate.api.nvidia.com/v1/models'', ''HEAD''),
      (''OpenAI'', ''https://api.openai.com/v1/models'', ''HEAD''),
      (''Anthropic'', ''https://api.anthropic.com/v1/messages'', ''HEAD''),
      (''GitHub'', ''https://github.com/'', ''HEAD''),
      (''Mermate'', kc_mermate_url cfg @ ''/api/copilot/health'', ''GET''),
      (''Synth'', kc_synth_url cfg @ ''/api/health'', ''GET'')]"

fun probe_all :: "('v, 'w) net \<Rightarrow> (bytes \<times> bytes \<times> bytes) list \<Rightarrow> 'w \<Rightarrow> probe_result list \<times> 'w" where
  "probe_all N [] w = ([], w)"
| "probe_all N ((label, url, method) # ts) w =
     (let (p, w1) = probe_url N label url method 5000 w; (ps, w2) = probe_all N ts w1 in (p # ps, w2))"

definition rpc_connectivity :: "('v, 'w) kernel \<Rightarrow> kernel_config \<Rightarrow> ('v, 'w) rpc_method" where
  "rpc_connectivity K cfg req s =
     (let (ps, w1) = probe_all (kn_net K) (connectivity_targets cfg) (snd s)
      in (rpc_ok (OForeign (rq_id req)) (RProbes ps), [], (fst s, w1)))"

definition expand_home :: "env \<Rightarrow> bytes \<Rightarrow> bytes" where
  "expand_home env p =
     (if prefix ''~/'' p then (case env_var env ''HOME'' of Inr h \<Rightarrow> h | Inl _ \<Rightarrow> []) @ tl p else p)"

definition rpc_scan :: "('v, 'w) kernel \<Rightarrow> ('v, 'w) rpc_method" where
  "rpc_scan K req s =
     (let J = kn_json K;
          dir = expand_home (kn_env K) (str_or J (js_get J (rq_params req) ''path'') ''~/Desktop/developer'');
          v = scan_directory (kn_disk K) dir;
          count = (case o_u64 (o_get v ''repos_found'') of Some n \<Rightarrow> n | None \<Rightarrow> 0)
      in (rpc_ok (OForeign (rq_id req)) (RJson v),
          (if events_enabled (kn_env K) then [Emitted (DesktopScanCompleted dir (of_nat count))] else []), s))"

definition rpc_verify :: "('v, 'w) kernel \<Rightarrow> ('v, 'w) rpc_method" where
  "rpc_verify K req s =
     (let i = OForeign (rq_id req); J = kn_json K; p = str_or J (js_get J (rq_params req) ''path'') []
      in if p = [] then (rpc_err i (- 32602) ''path required'', [], s)
         else (rpc_ok i (RJson (verify_binary (kn_disk K) (expand_home (kn_env K) p))), [], s))"

definition method_table :: "('v, 'w) kernel \<Rightarrow> kernel_config \<Rightarrow> (bytes \<times> ('v, 'w) rpc_method) list" where
  "method_table K cfg =
     [(''kernel.ping'', rpc_ping K cfg), (''inference.route'', rpc_route K cfg),
      (''models.list'', rpc_models K cfg), (''ollama.models'', rpc_ollama K cfg),
      (''mermate.probe'', rpc_mermate_probe K cfg), (''synth.probe'', rpc_synth_probe K cfg),
      (''synth.status'', rpc_synth_status K cfg), (''synth.predict'', rpc_synth_predict K cfg),
      (''connectivity.probe'', rpc_connectivity K cfg), (''desktop.scan'', rpc_scan K),
      (''desktop.verify_binary'', rpc_verify K)]"

definition dispatch :: "('v, 'w) kernel \<Rightarrow> kernel_config \<Rightarrow> ('v, 'w) rpc_method" where
  "dispatch K cfg req s =
     (case map_of (method_table K cfg) (rq_method req) of
        Some f \<Rightarrow> f req s
      | None \<Rightarrow> (rpc_err (OForeign (rq_id req)) (- 32601) (''method not found: '' @ rq_method req), [], s))"

section \<open>The loop\<close>

text \<open>A line that is not UTF-8 is a read error and ends the loop; a blank one is skipped.\<close>

fun serve ::
  "(bytes \<Rightarrow> bytes + 'v rpc_request) \<Rightarrow> ('v rpc_request \<Rightarrow> 's \<Rightarrow> 'v rpc_response \<times> 'v rpc_action list \<times> 's)
     \<Rightarrow> bytes list \<Rightarrow> 's \<Rightarrow> 'v rpc_action list \<times> 's" where
  "serve parse handle [] s = ([], s)"
| "serve parse handle (l # ls) s =
     (if \<not> utf8_valid l then ([Note ''[opseeq-core] stdin error: stream did not contain valid UTF-8''], s)
      else if trim l = [] then serve parse handle ls s
      else (let (resp, acts, s1) =
                  (case parse (trim l) of
                     Inl e \<Rightarrow> (rpc_err ONull (- 32700) (''parse error: '' @ e), [], s)
                   | Inr req \<Rightarrow> handle req s);
                (acts', s2) = serve parse handle ls s1
            in (acts @ [Reply resp] @ acts', s2)))"

definition run_rpc_server :: "('v, 'w) kernel \<Rightarrow> kernel_config \<Rightarrow> bytes \<Rightarrow> 'w \<Rightarrow> 'v rpc_action list \<times> 'w rpc_state" where
  "run_rpc_server K cfg input w =
     (let started = (if events_enabled (kn_env K)
                     then [Emitted (KernelStarted kernel_version (map pc_name (kc_providers cfg)) ''serve'')] else []);
          ready = [Note (''[opseeq-core] RPC server ready v'' @ kernel_version @ '' (stdin/stdout)'')];
          (acts, s) = serve (kn_request K) (dispatch K cfg) (split_inclusive_nl input) (None, w)
      in (started @ ready @ acts @ [Note ''[opseeq-core] RPC server exiting''], s))"

section \<open>The contract of a handler\<close>

fun replies :: "'v rpc_action list \<Rightarrow> 'v rpc_response list" where
  "replies [] = []"
| "replies (Reply r # as) = r # replies as"
| "replies (Routing xs # as) = replies as"
| "replies (Emitted e # as) = replies as"
| "replies (Note n # as) = replies as"

lemma replies_append [simp]: "replies (xs @ ys) = replies xs @ replies ys"
  by (induction xs rule: replies.induct) auto

text \<open>A reply carries a result or an error, not both; the errors have one of these codes.\<close>

definition well_formed :: "'v rpc_response \<Rightarrow> bool" where
  "well_formed r \<longleftrightarrow>
     (case rs_error r of
        None \<Rightarrow> rs_result r \<noteq> None
      | Some e \<Rightarrow> rs_result r = None \<and>
          er_code e \<in> {- 32700, - 32601, - 32602, - 32000, - 32001, - 32002, - 32003})"

text \<open>The lines that are requests: those before the first that is not text, without the blank ones.\<close>

definition request_lines :: "bytes list \<Rightarrow> bytes list" where
  "request_lines ls = filter (\<lambda>t. t \<noteq> []) (map trim (takeWhile utf8_valid ls))"

definition answered_id :: "(bytes \<Rightarrow> bytes + 'v rpc_request) \<Rightarrow> bytes \<Rightarrow> 'v jout" where
  "answered_id parse t = (case parse t of Inl e \<Rightarrow> ONull | Inr req \<Rightarrow> OForeign (rq_id req))"

lemma well_formed_simps [simp]:
  "well_formed (rpc_ok i v)"
  "well_formed (rpc_err i c m) \<longleftrightarrow> c \<in> {- 32700, - 32601, - 32602, - 32000, - 32001, - 32002, - 32003}"
  "rs_id (rpc_ok i v) = i" "rs_id (rpc_err i c m) = i"
  by (simp_all add: well_formed_def rpc_ok_def rpc_err_def)

locale rpc_handler =
  fixes handle :: "'v rpc_request \<Rightarrow> 's \<Rightarrow> 'v rpc_response \<times> 'v rpc_action list \<times> 's"
  assumes echoes_id: "rs_id (fst (handle req s)) = OForeign (rq_id req)"
    and reply_well_formed: "well_formed (fst (handle req s))"
    and leaves_reply: "replies (fst (snd (handle req s))) = []"
begin

lemma serve_replies:
  "map rs_id (replies (fst (serve parse handle ls s))) = map (answered_id parse) (request_lines ls)
   \<and> list_all well_formed (replies (fst (serve parse handle ls s)))"
proof (induction ls arbitrary: s)
  case (Cons l ls)
  show ?case
  proof (cases "utf8_valid l \<and> trim l \<noteq> []")
    case True
    show ?thesis
    proof (cases "parse (trim l)")
      case (Inl e)
      with True Cons [of s] show ?thesis
        by (simp add: request_lines_def answered_id_def split_beta Let_def)
    next
      case (Inr req)
      with True Cons [of "snd (snd (handle req s))"] echoes_id reply_well_formed leaves_reply show ?thesis
        by (simp add: request_lines_def answered_id_def split_beta Let_def)
    qed
  next
    case False
    with Cons [of s] show ?thesis by (auto simp: request_lines_def)
  qed
qed (simp add: request_lines_def)

end

section \<open>The methods meet it\<close>

text \<open>What every method guarantees beyond the contract: only the model list touches the cache.\<close>

definition method_ok :: "('v, 'w) rpc_method \<Rightarrow> bool \<Rightarrow> bool" where
  "method_ok f keeps \<longleftrightarrow>
     (\<forall>req s. rs_id (fst (f req s)) = OForeign (rq_id req) \<and> well_formed (fst (f req s))
        \<and> replies (fst (snd (f req s))) = [] \<and> (keeps \<longrightarrow> fst (snd (snd (f req s))) = fst s))"

lemma route_error_code_range:
  "route_error_code e \<in> {- 32602, - 32002, - 32001, - 32003, - 32000}"
  by (simp add: route_error_code_def)

lemma method_ok_table:
  "method_ok (rpc_ping K cfg) True" "method_ok (rpc_models K cfg) False" "method_ok (rpc_ollama K cfg) True"
  "method_ok (rpc_mermate_probe K cfg) True" "method_ok (rpc_synth_probe K cfg) True"
  "method_ok (rpc_synth_status K cfg) True" "method_ok (rpc_synth_predict K cfg) True"
  "method_ok (rpc_connectivity K cfg) True" "method_ok (rpc_scan K) True" "method_ok (rpc_verify K) True"
  by (auto simp: method_ok_def rpc_ping_def rpc_models_def rpc_ollama_def rpc_mermate_probe_def rpc_synth_probe_def
      rpc_synth_status_def rpc_synth_predict_def rpc_connectivity_def rpc_scan_def rpc_verify_def
      Let_def split: prod.splits sum.splits)

lemma method_ok_route: "method_ok (rpc_route K cfg) True"
  using route_error_code_range
  by (fastforce simp: method_ok_def rpc_route_def Let_def split: prod.splits sum.splits)

lemma dispatch_ok:
  "rs_id (fst (dispatch K cfg req s)) = OForeign (rq_id req) \<and> well_formed (fst (dispatch K cfg req s))
   \<and> replies (fst (snd (dispatch K cfg req s))) = []
   \<and> (rq_method req \<noteq> ''models.list'' \<longrightarrow> fst (snd (snd (dispatch K cfg req s))) = fst s)"
proof (cases "map_of (method_table K cfg) (rq_method req)")
  case None
  then show ?thesis by (simp add: dispatch_def)
next
  case (Some f)
  then have "method_ok f (rq_method req \<noteq> ''models.list'')"
    by (auto simp: method_table_def method_ok_table method_ok_route split: if_splits)
  with Some show ?thesis by (cases s) (simp add: dispatch_def method_ok_def)
qed

interpretation kernel_rpc: rpc_handler "dispatch K cfg"
  for K :: "('v, 'w) kernel" and cfg :: kernel_config
  by unfold_locales (simp_all add: dispatch_ok)

section \<open>Properties\<close>

text \<open>Claim C6: The server answers every request line, in order and once: the replies on standard output
  carry the identifiers of the non-blank lines (null for a line that is not a request) up to the
  first line that is not UTF-8, and each has either a result or an error with one of the seven codes,
  whatever the clients, the clocks and the disk do.\<close>

theorem rpc_server_answers:
  "let rs = replies (fst (run_rpc_server K cfg input w)) in
     map rs_id rs = map (answered_id (kn_request K)) (request_lines (split_inclusive_nl input))
     \<and> list_all well_formed rs"
  using kernel_rpc.serve_replies [of "kn_request K" K cfg "split_inclusive_nl input" "(None, w)"]
  by (simp add: run_rpc_server_def Let_def split_beta)

text \<open>The error code of a failed routing is decided by digits anywhere in the provider's answer:
  whatever the status, an answer whose body contains \<open>429\<close>, say in a job number, is reported as a rate
  limit or, if it also contains that text, as an unknown model.\<close>

theorem quoted_number_decides_code:
  assumes "\<not> is_success status" and "sublist ''429'' t"
  shows "\<exists>e. read_answer (Response status (Some t) js) = Inl e
    \<and> route_error_code (pc_name p @ '': '' @ e) \<in> {- 32602, - 32002}"
proof -
  let ?e = "''HTTP '' @ show_nat status @ '': '' @ t"
  obtain a b where t: "t = a @ ''429'' @ b" using assms(2) by (auto simp: sublist_def)
  have "pc_name p @ '': '' @ ?e = (pc_name p @ '': '' @ ''HTTP '' @ show_nat status @ '': '' @ a) @ ''429'' @ b"
    using t by (simp only: append.assoc)
  then have "sublist ''429'' (pc_name p @ '': '' @ ?e)" by (metis sublist_appendI)
  moreover have "read_answer (Response status (Some t) js) = Inl ?e"
    using assms(1) by (simp add: read_answer_def)
  ultimately show ?thesis by (auto simp: route_error_code_def)
qed

lemma quoted_number_decides_code_witness:
  "\<exists>e. read_answer (Response 500 (Some ''job 142937 crashed'') (Inr ())) = Inl e
    \<and> route_error_code (pc_name \<lparr>pc_name = ''openai'', pc_base_url = [], pc_api_key = [], pc_models = [],
        pc_priority = 0\<rparr> @ '': '' @ e) \<in> {- 32602, - 32002}"
  by (rule quoted_number_decides_code) (simp_all add: is_success_def sublist_Cons_right)

end
