(* ===== verification/Process.thy ===== *)
theory Process
  imports RustStr
begin

text \<open>
  Starting programs, shared by the commands that wrap another one: \<open>std::process::Command\<close> with its
  output collected.  What a program does is the parameter \<open>exec\<close>, which passes a world along.
\<close>

text \<open>Running a program: it cannot be started, or it wrote to its two outputs and ended with a status,
  if it was not killed.\<close>

type_synonym 'w exec = "bytes \<Rightarrow> bytes list \<Rightarrow> 'w \<Rightarrow> (bytes + bytes \<times> bytes \<times> int option) \<times> 'w"

text \<open>What a wrapper does, in order; \<open>Output\<close> passes the two outputs on.\<close>

datatype proc_action =
    Traced bytes
  | Started bytes "bytes list"
  | Output bytes bytes
  | Report bytes

text \<open>The status of the program, 1 when it was killed; \<open>failed\<close> with a report when it did not start.\<close>

definition run_child ::
  "'w exec \<Rightarrow> int \<Rightarrow> (bytes \<Rightarrow> bytes) \<Rightarrow> bytes \<Rightarrow> bytes list \<Rightarrow> 'w \<Rightarrow> int \<times> proc_action list \<times> 'w" where
  "run_child exec failed report program args w =
     (case exec program args w of
        (Inr (out, err, code), w') \<Rightarrow>
          (case code of Some c \<Rightarrow> c | None \<Rightarrow> 1, [Started program args, Output out err], w')
      | (Inl e, w') \<Rightarrow> (failed, [Started program args, Report (report e)], w'))"

fun started :: "proc_action list \<Rightarrow> (bytes \<times> bytes list) list" where
  "started [] = []"
| "started (Started p as # xs) = (p, as) # started xs"
| "started (Traced t # xs) = started xs"
| "started (Output out err # xs) = started xs"
| "started (Report m # xs) = started xs"

lemma started_append [simp]: "started (xs @ ys) = started xs @ started ys"
  by (induction xs rule: started.induct) auto

lemma started_run_child [simp]: "started (fst (snd (run_child exec f r p as w))) = [(p, as)]"
  by (auto simp: run_child_def split: prod.splits sum.splits)

lemma started_run_childD: "run_child exec f r p as w = (c, acts, w') \<Longrightarrow> started acts = [(p, as)]"
  by (metis started_run_child fst_conv snd_conv)

text \<open>Error texts quote with a single quote.\<close>

definition quoted :: "bytes \<Rightarrow> bytes" where
  "quoted s = [CHR 0x27] @ s @ [CHR 0x27]"

end
