(* ===== verification/Kernel_Chat.thy ===== *)
theory Kernel_Chat
  imports Kernel_Rpc Process
begin

text \<open>
  The terminal chat of the kernel (\<open>engine/src/chat.rs\<close>): the session with its history of messages,
  the active model and the forced provider, the slash commands, and what is printed.  The session runs
  over the lines typed and the way the input ends; a panic is the state \<open>None\<close>.
\<close>

section \<open>The session and the outside\<close>

record chat_state =
  ch_model :: bytes
  ch_force :: "bytes option"
  ch_messages :: "chat_message list"

text \<open>What a session does, in order: lines on the two outputs, text without a newline, a routed
  request with its answer, the history cleared, a file written.\<close>

datatype chat_action =
    Say bytes | Put bytes | Complain bytes
  | Asked chat_request "bytes + chat_response" "action list"
  | Forgot
  | Stored bytes bytes

text \<open>Beside the kernel's clients: \<open>as_bool\<close>, the texts of JSON values, the disk as it is now, writing
  a file, and running a program.\<close>

record ('v, 'w) chat_io =
  cx_kernel :: "('v, 'w) kernel"
  cx_bool :: "'v \<Rightarrow> bool option"
  cx_show :: "'v jout \<Rightarrow> bytes"
  cx_pretty :: "'v \<Rightarrow> bytes"
  cx_disk :: "'w \<Rightarrow> disk"
  cx_write :: "bytes \<Rightarrow> bytes \<Rightarrow> 'w \<Rightarrow> 'w"
  cx_exec :: "'w exec"

abbreviation cx_json :: "('v, 'w) chat_io \<Rightarrow> 'v json" where
  "cx_json X \<equiv> kn_json (cx_kernel X)"

abbreviation cx_net :: "('v, 'w) chat_io \<Rightarrow> ('v, 'w) net" where
  "cx_net X \<equiv> kn_net (cx_kernel X)"

text \<open>\<open>as_bool().unwrap_or(false)\<close> and \<open>as_str().unwrap_or(\<dots>)\<close> on built values, and \<open>Value::get\<close>.\<close>

definition o_true :: "('v, 'w) chat_io \<Rightarrow> 'v jout \<Rightarrow> bool" where
  "o_true X v = (case v of OBool b \<Rightarrow> b | OForeign x \<Rightarrow> cx_bool X x = Some True | _ \<Rightarrow> False)"

definition o_text :: "'v jout \<Rightarrow> bytes \<Rightarrow> bytes" where
  "o_text v d = (case v of OText t \<Rightarrow> t | _ \<Rightarrow> d)"

definition o_field :: "'v jout \<Rightarrow> bytes \<Rightarrow> 'v jout option" where
  "o_field v k = (case v of OObj fs \<Rightarrow> map_of fs k | _ \<Rightarrow> None)"

definition ansi :: "bytes \<Rightarrow> bytes" where
  "ansi s = CHR 0x1B # CHR ''['' # s @ ''m''"

definition rule :: "nat \<Rightarrow> bytes" where
  "rule n = concat (replicate n [CHR 0xE2, CHR 0x94, CHR 0x80])"

section \<open>Banner and status\<close>

definition double_rule :: "nat \<Rightarrow> bytes" where
  "double_rule n = concat (replicate n [CHR 0xE2, CHR 0x95, CHR 0x90])"

definition bold_line :: "bytes \<Rightarrow> chat_action" where
  "bold_line s = Say (''  '' @ ansi ''1'' @ s @ ansi ''0'')"

definition print_banner :: "kernel_config \<Rightarrow> chat_action list" where
  "print_banner cfg =
     [Say [],
      bold_line ([CHR 0xE2, CHR 0x95, CHR 0x94] @ double_rule 42 @ [CHR 0xE2, CHR 0x95, CHR 0x97]),
      bold_line ([CHR 0xE2, CHR 0x95, CHR 0x91] @ ''     OPSEEQ RUNTIME KERNEL v'' @ pad_right 14 kernel_version
                   @ [CHR 0xE2, CHR 0x95, CHR 0x91]),
      bold_line ([CHR 0xE2, CHR 0x95, CHR 0x9A] @ double_rule 42 @ [CHR 0xE2, CHR 0x95, CHR 0x9D]),
      Say [],
      Say (''  Providers: '' @ join '', '' (map (\<lambda>p. pc_name p @ '' ('' @ show_nat (length (pc_models p)) @ '')'')
                                           (kc_providers cfg))),
      Say (''  Default:   '' @ kc_default_model cfg),
      Say []]"

definition online :: "probe_result \<Rightarrow> bytes" where
  "online p = (if pr_reachable p then ''online'' else ''offline'')"

definition chat_ollama :: "('v, 'w) chat_io \<Rightarrow> kernel_config \<Rightarrow> 'w \<Rightarrow> (bytes + ollama_model list) \<times> 'w" where
  "chat_ollama X cfg =
     ollama_list_models (kn_http (cx_kernel X)) (cx_json X) (kn_ollama (cx_kernel X)) (kc_ollama_url cfg)"

text \<open>The probes run concurrently and are joined in this order, as in the server.\<close>

definition print_status :: "('v, 'w) chat_io \<Rightarrow> kernel_config \<Rightarrow> 'w \<Rightarrow> chat_action list \<times> 'w" where
  "print_status X cfg w =
     (let (m, w1) = probe_mermate (cx_net X) (kc_mermate_url cfg) w;
          (s, w2) = probe_synth (cx_net X) (kc_synth_url cfg) w1;
          (o', w3) = probe_ollama (cx_net X) (kc_ollama_url cfg) w2;
          (n, w4) = (if pr_reachable o'
                     then (case chat_ollama X cfg w3 of (Inr ms, w') \<Rightarrow> (length ms, w') | (Inl _, w') \<Rightarrow> (0, w'))
                     else (0, w3))
      in ([Say (''  '' @ rule 2 @ '' Status '' @ rule 33),
           Say (''  Providers:  '' @ show_nat (length (kc_providers cfg)) @ '' configured, ''
                  @ show_nat (sum_list (map (\<lambda>p. length (pc_models p)) (kc_providers cfg))) @ '' models total''),
           Say (''  Mermate:    '' @ online m @ '' ('' @ show_nat (unat (pr_latency_ms m)) @ ''ms)''),
           Say (''  Synth:      '' @ online s @ '' ('' @ show_nat (unat (pr_latency_ms s)) @ ''ms)''),
           Say (''  Ollama:     '' @ online o' @ '' ('' @ show_nat n @ '' models, ''
                  @ show_nat (unat (pr_latency_ms o')) @ ''ms)''),
           Say (''  '' @ rule 44), Say []], w4))"

section \<open>Slash commands\<close>

text \<open>A word and the trimmed rest after the first blank.\<close>

definition split_command :: "bytes \<Rightarrow> bytes \<times> bytes" where
  "split_command s = (case splitn 2 CHR '' '' s of c # a # _ \<Rightarrow> (c, trim a) | [c] \<Rightarrow> (c, []) | [] \<Rightarrow> ([], []))"

definition slash_models :: "kernel_config \<Rightarrow> bytes \<Rightarrow> chat_action list" where
  "slash_models cfg active =
     [Say (''  '' @ pad_right 40 ''MODEL'' @ '' PROVIDER''), Say (''  '' @ pad_right 40 (rule 40) @ '' '' @ rule 16)]
     @ map (\<lambda>m. Say (''  '' @ pad_right 40 (me_id m) @ '' '' @ me_provider m
                       @ (if me_id m = active then [CHR '' '', CHR 0xE2, CHR 0x97, CHR 0x80] else [])))
         (list_models cfg)"

definition slash_ollama :: "('v, 'w) chat_io \<Rightarrow> kernel_config \<Rightarrow> 'w \<Rightarrow> chat_action list \<times> 'w" where
  "slash_ollama X cfg w =
     (case chat_ollama X cfg w of
        (Inl e, w1) \<Rightarrow> ([Say (''  Ollama: '' @ e)], w1)
      | (Inr ms, w1) \<Rightarrow>
          (Say (''  Ollama models ('' @ show_nat (length ms) @ ''):'')
           # map (\<lambda>m. Say (''    '' @ ol_name m @ '' ('' @ show_nat (unat (ol_size m) div 10 ^ 9) @ ''GB, ''
                             @ (case ol_family m of Some f \<Rightarrow> f | None \<Rightarrow> ''?'') @ '')'')) ms, w1))"

text \<open>\<open>/provider\<close>: what is printed and the provider forced after it.\<close>

definition slash_provider :: "kernel_config \<Rightarrow> bytes \<Rightarrow> bytes option \<Rightarrow> chat_action list \<times> bytes option" where
  "slash_provider cfg arg force =
     (if arg = [] then
        ([Say (''Current: '' @ (case force of Some p \<Rightarrow> p | None \<Rightarrow> ''auto'')),
          Say (''Available: '' @ join '', '' (map pc_name (kc_providers cfg)))], force)
      else if arg = ''auto'' then ([Say ''Provider: auto (priority-based)''], None)
      else if list_ex (\<lambda>p. pc_name p = arg) (kc_providers cfg) then ([Say (''Provider forced: '' @ arg)], Some arg)
      else ([Say (''Unknown provider: '' @ arg)], force))"

subsection \<open>Mermate and Synth\<close>

definition fetch_json :: "('v, 'w) chat_io \<Rightarrow> bytes \<Rightarrow> nat \<Rightarrow> 'w \<Rightarrow> 'v option \<times> 'w" where
  "fetch_json X url timeout w =
     (case n_get (cx_net X) url timeout w of
        (Response status txt (Inr v), w1) \<Rightarrow> (Some v, w1)
      | (Response status txt (Inl e), w1) \<Rightarrow> (None, w1)
      | (NoResponse e, w1) \<Rightarrow> (None, w1))"

text \<open>An answer whose text is shown as it is.\<close>

definition show_answer :: "'v answer \<times> 'w \<Rightarrow> chat_action list \<times> 'w" where
  "show_answer r =
     (case r of
        (NoResponse e, w1) \<Rightarrow> ([Say (''  Error: '' @ e)], w1)
      | (Response status txt js, w1) \<Rightarrow> ([Say (case txt of Some t \<Rightarrow> t | None \<Rightarrow> [])], w1))"

definition availability :: "('v, 'w) chat_io \<Rightarrow> bytes \<Rightarrow> 'v option \<Rightarrow> chat_action list" where
  "availability X label answer =
     (case answer of
        None \<Rightarrow> []
      | Some v \<Rightarrow> [Say (label @ (if cx_bool X (js_get (cx_json X) v ''available'') = Some True
                                 then ''available'' else ''unavailable''))])"

definition mermate_status :: "('v, 'w) chat_io \<Rightarrow> kernel_config \<Rightarrow> 'w \<Rightarrow> chat_action list \<times> 'w" where
  "mermate_status X cfg w =
     (let J = cx_json X; base = kc_mermate_url cfg;
          (health, w1) = probe_mermate (cx_net X) base w;
          (agents, w2) = fetch_json X (base @ ''/api/agents'') 3000 w1;
          (tla, w3) = fetch_json X (base @ ''/api/render/tla/status'') 3000 w2;
          (ts, w4) = fetch_json X (base @ ''/api/render/ts/status'') 3000 w3
      in (Say (''  Mermate: '' @ online health @ '' ('' @ show_nat (unat (pr_latency_ms health)) @ ''ms)'')
          # (if pr_reachable health
             then (case agents of
                     None \<Rightarrow> []
                   | Some v \<Rightarrow> [Say (''  Agents:  ''
                        @ show_nat (case js_array J (js_get J v ''agents'') of Some xs \<Rightarrow> length xs | None \<Rightarrow> 0)
                        @ '' loaded'')])
                  @ availability X ''  TLA+   '' tla @ availability X ''  TS     '' ts
             else []), w4))"

definition mermate_modes :: "('v, 'w) chat_io \<Rightarrow> kernel_config \<Rightarrow> 'w \<Rightarrow> chat_action list \<times> 'w" where
  "mermate_modes X cfg w =
     (let J = cx_json X in
      case n_get (cx_net X) (kc_mermate_url cfg @ ''/api/agent/modes'') 5000 w of
        (NoResponse e, w1) \<Rightarrow> ([Say (''  Error: '' @ e)], w1)
      | (Response status txt (Inl e), w1) \<Rightarrow> ([], w1)
      | (Response status txt (Inr v), w1) \<Rightarrow>
          (map (\<lambda>m. Say (''  '' @ str_or J (js_get J m ''id'') ''?'' @ [CHR '' '', CHR 0xE2, CHR 0x80, CHR 0x94, CHR '' '']
                           @ str_or J (js_get J m ''label'') [] @ '' ['' @ str_or J (js_get J m ''stage'') [] @ '']''))
             (case js_array J (js_get J v ''modes'') of Some xs \<Rightarrow> xs | None \<Rightarrow> []), w1))"

definition mermate_post ::
  "('v, 'w) chat_io \<Rightarrow> kernel_config \<Rightarrow> bytes \<Rightarrow> body \<Rightarrow> 'w \<Rightarrow> chat_action list \<times> 'w" where
  "mermate_post X cfg endpoint b w =
     show_answer (n_post (cx_net X) (kc_mermate_url cfg @ endpoint) [] b 60000 w)"

definition slash_mermate :: "('v, 'w) chat_io \<Rightarrow> kernel_config \<Rightarrow> bytes \<Rightarrow> 'w \<Rightarrow> chat_action list \<times> 'w" where
  "slash_mermate X cfg arg w =
     (let (sub, subarg) = split_command arg in
      if sub = [] then mermate_status X cfg w
      else if sub = ''render'' then
        (if subarg = [] then ([Say ''  Usage: /mermate render <text>''], w)
         else (let (acts, w1) = mermate_post X cfg ''/api/render''
                      [(''prompt'', BText subarg), (''mode'', BText ''mermaid'')] w
               in (Say ''  Sending to Mermate render...'' # acts, w1)))
      else if sub = ''tla'' then
        (if subarg = [] then ([Say ''  Usage: /mermate tla <runId>''], w)
         else mermate_post X cfg ''/api/render/tla'' [(''run_id'', BText subarg)] w)
      else if sub = ''ts'' then
        (if subarg = [] then ([Say ''  Usage: /mermate ts <runId>''], w)
         else mermate_post X cfg ''/api/render/ts'' [(''run_id'', BText subarg)] w)
      else if sub = ''agents'' then mermate_modes X cfg w
      else ([Say ''  /mermate [render|tla|ts|agents] or bare for status''], w))"

definition synth_status :: "('v, 'w) chat_io \<Rightarrow> kernel_config \<Rightarrow> 'w \<Rightarrow> chat_action list \<times> 'w" where
  "synth_status X cfg w =
     (let (data, w1) = probe_synth_deep (cx_net X) (kc_synth_url cfg) w in
      ([Say ''  Synth Trading Desk'',
        Say (''  reachable:    '' @ (if o_true X (o_get data ''reachable'') then ''true'' else ''false'')),
        Say (''  simulation:   '' @ cx_show X (o_get data ''simulation_mode'')),
        Say (''  approval:     '' @ cx_show X (o_get data ''approval_required'')),
        Say (''  ai_engine:    '' @ cx_show X (o_get data ''ai_engine_available'')),
        Say (''  predictions:  '' @ cx_show X (o_get data ''predictions''))]
       @ (case o_field data ''opseeq'' of Some v \<Rightarrow> [Say (''  opseeq link:  '' @ cx_show X v)] | None \<Rightarrow> []), w1))"

definition prediction_lines :: "('v, 'w) chat_io \<Rightarrow> 'v \<Rightarrow> chat_action list" where
  "prediction_lines X data =
     (let J = cx_json X; field = n_field (cx_net X) in
      case field data ''prediction'' of
        None \<Rightarrow> [Say (cx_pretty X data)]
      | Some p \<Rightarrow>
          [Say (''  Thesis:     '' @ str_or J (js_get J p ''thesis'') ''?''),
           Say (''  Confidence: '' @ cx_show X (OForeign (js_get J p ''confidence''))),
           Say (''  Action:     '' @ cx_show X
             (case field p ''suggested_execution'' of
                Some e \<Rightarrow> (case field e ''action'' of Some a \<Rightarrow> OForeign a | None \<Rightarrow> ONull)
              | None \<Rightarrow> ONull))])"

definition slash_synth :: "('v, 'w) chat_io \<Rightarrow> kernel_config \<Rightarrow> bytes \<Rightarrow> 'w \<Rightarrow> chat_action list \<times> 'w" where
  "slash_synth X cfg arg w =
     (let (sub, subarg) = split_command arg; base = kc_synth_url cfg in
      if sub = [] then synth_status X cfg w
      else if sub = ''predict'' then
        (if subarg = [] then ([Say ''  Usage: /synth predict <market question>''], w)
         else (let (res, w1) = synth_predict (cx_net X) base subarg None w
               in (Say ''  Generating prediction...''
                   # (case res of Inr data \<Rightarrow> prediction_lines X data | Inl e \<Rightarrow> [Say (''  Error: '' @ e)]), w1)))
      else if sub = ''history'' then
        show_answer (n_get (cx_net X) (base @ ''/api/predictions/history?limit=5'') 5000 w)
      else if sub = ''markets'' then
        (if subarg = [] then ([Say ''  Usage: /synth markets <query>''], w)
         else show_answer (n_get (cx_net X) (base @ ''/api/markets/search/'' @ subarg) 10000 w))
      else ([Say ''  /synth [predict|history|markets] or bare for status''], w))"


subsection \<open>Directories, binaries and the browser\<close>

definition chat_home :: "('v, 'w) chat_io \<Rightarrow> bytes \<Rightarrow> bytes" where
  "chat_home X p = expand_home (kn_env (cx_kernel X)) p"

definition repo_line :: "('v, 'w) chat_io \<Rightarrow> 'v jout \<Rightarrow> chat_action" where
  "repo_line X r =
     Say (''  '' @ (if o_true X (o_get r ''opseeq_connected'')
                  then ansi ''32'' @ [CHR 0xE2, CHR 0x97, CHR 0x8F] @ ansi ''0''
                  else ansi ''31'' @ [CHR 0xE2, CHR 0x97, CHR 0x8B] @ ansi ''0'')
          @ '' '' @ pad_right 30 (o_text (o_get r ''name'') ''?'') @ '' ''
          @ pad_right 6 (if o_true X (o_get r ''has_cargo_toml'') then ''Rust''
                         else if o_true X (o_get r ''has_package_json'') then ''Node'' else ''?'')
          @ '' mcp='' @ (if o_true X (o_get r ''has_mcp_json'') then ''true'' else ''false''))"

definition slash_scan :: "('v, 'w) chat_io \<Rightarrow> bytes \<Rightarrow> 'w \<Rightarrow> chat_action list" where
  "slash_scan X arg w =
     (let result = scan_directory (cx_disk X w) (chat_home X (if arg = [] then ''~/Desktop/developer'' else arg))
      in [Say (''  Scanned: '' @ o_text (o_get result ''path'') ''?''),
          Say (''  Found:   '' @ cx_show X (o_get result ''repos_found'') @ '' repos'')]
         @ (case o_get result ''repos'' of OList rs \<Rightarrow> map (repo_line X) rs | _ \<Rightarrow> []))"

definition slash_verify :: "('v, 'w) chat_io \<Rightarrow> bytes \<Rightarrow> 'w \<Rightarrow> chat_action list" where
  "slash_verify X arg w =
     (if arg = [] then [Say ''  Usage: /verify <path_to_binary>'']
      else (let result = verify_binary (cx_disk X w) (chat_home X arg)
            in [Say (''  Path:       '' @ o_text (o_get result ''path'') ''?''),
                Say (''  Exists:     '' @ cx_show X (o_get result ''exists'')),
                Say (''  Executable: '' @ cx_show X (o_get result ''is_executable'')),
                Say (''  Size:       '' @ cx_show X (o_get result ''size_bytes'') @ '' bytes'')]
               @ (if o_true X (o_get result ''is_app_bundle'') then [Say ''  Type:       macOS .app bundle''] else [])))"

definition env_text :: bytes where
  "env_text = ''# Opseeq connection'' @ [NL] @ ''OPENAI_BASE_URL=http://localhost:9090/v1'' @ [NL]
     @ ''OPSEEQ_URL=http://localhost:9090'' @ [NL]"

definition mcp_text :: bytes where
  "mcp_text = ''{\"mcpServers\":{\"opseeq\":{\"url\":\"http://localhost:9090/mcp\"}}}'' @ [NL]"

text \<open>A file is written only where nothing exists; a failed write is not reported.\<close>

definition ensure_file ::
  "('v, 'w) chat_io \<Rightarrow> bytes \<Rightarrow> bytes \<Rightarrow> bytes \<Rightarrow> bytes \<Rightarrow> 'w \<Rightarrow> chat_action list \<times> 'w" where
  "ensure_file X p content created present w =
     (if \<not> dk_exists (cx_disk X w) p then ([Stored p content, Say created], cx_write X p content w)
      else ([Say present], w))"

definition organize_repo :: "('v, 'w) chat_io \<Rightarrow> bytes \<Rightarrow> 'w \<Rightarrow> chat_action list \<times> 'w" where
  "organize_repo X p w =
     (if \<not> dk_is_dir (cx_disk X w) p then ([Say (''  Not a directory: '' @ p)], w)
      else (let (a1, w1) = ensure_file X (path_join p ''.env'') env_text
                   ''  Created .env with Opseeq vars'' ''  .env exists'' w;
                (a2, w2) = ensure_file X (path_join p ''.mcp.json'') mcp_text
                   ''  Created .mcp.json for Opseeq MCP'' ''  .mcp.json exists'' w1
            in (a1 @ a2 @ map (\<lambda>f. Say (''  '' @ pad_right 20 f @ '' ''
                                 @ (if dk_exists (cx_disk X w2) (path_join p f) then ''found'' else ''MISSING'')))
                            [''package.json'', ''Cargo.toml'', ''README.md'', ''run.sh''], w2)))"

definition slash_organize :: "('v, 'w) chat_io \<Rightarrow> bytes \<Rightarrow> 'w \<Rightarrow> chat_action list \<times> 'w" where
  "slash_organize X arg w =
     (if arg = [] then ([Say ''  Usage: /organize <repo_path>''], w) else organize_repo X (chat_home X arg) w)"

text \<open>The state of the page after it was opened: the first 20 lines.\<close>

definition browse_state :: "('v, 'w) chat_io \<Rightarrow> 'w \<Rightarrow> chat_action list \<times> 'w" where
  "browse_state X w =
     (case cx_exec X ''browser-use'' [''state''] w of
        (Inl e, w1) \<Rightarrow> ([Say (''  State retrieval failed: '' @ e)], w1)
      | (Inr (out, err, code), w1) \<Rightarrow>
          (let ls = str_lines (from_utf8_lossy out) in
           (map (\<lambda>l. Say (''  '' @ l)) (take 20 ls)
            @ (if 20 < length ls then [Say (''  ... ('' @ show_nat (length ls - 20) @ '' more elements)'')] else []), w1)))"

definition slash_browse :: "('v, 'w) chat_io \<Rightarrow> bytes \<Rightarrow> 'w \<Rightarrow> chat_action list \<times> 'w" where
  "slash_browse X arg w =
     (if arg = [] then
        ([Say ''  Usage: /browse <url>'', Say ''  Examples: /browse http://localhost:3333  (Mermate)'',
          Say ''            /browse http://localhost:8420  (Synth)''], w)
      else (let opening = Say (''  Opening '' @ arg @ '' in browser-use...'') in
        case cx_exec X ''browser-use'' [''open'', arg] w of
          (Inl e, w1) \<Rightarrow> ([opening, Say (''  browser-use not available: '' @ e)], w1)
        | (Inr (out, err, code), w1) \<Rightarrow>
            (if code = Some 0
             then (let (acts, w2) = browse_state X w1 in (opening # Say (''  Navigated to '' @ arg) # acts, w2))
             else ([opening, Say (''  Failed: '' @ trim (from_utf8_lossy err))], w1))))"

definition help_lines :: "chat_action list" where
  "help_lines =
     [Say ''  /model <name>       Switch model'',
      Say ''  /models             List all models'',
      Say ''  /provider <name>    Force provider (or 'auto')'',
      Say ''  /status             System health'',
      Say ''  /ollama             Ollama models'',
      Say ''  /mermate            Deep Mermate status'',
      Say ''  /mermate render <t> Render through pipeline'',
      Say ''  /mermate tla <id>   Generate TLA+ for run'',
      Say ''  /mermate ts <id>    Generate TypeScript for run'',
      Say ''  /mermate agents     List agent modes'',
      Say ''  /synth              Deep Synth status'',
      Say ''  /synth predict <q>  Generate prediction'',
      Say ''  /synth history      Recent predictions'',
      Say ''  /synth markets <q>  Search markets'',
      Say ''  /scan [path]        Scan desktop for repos'',
      Say ''  /verify <path>      Verify a binary/app'',
      Say ''  /organize <path>    Clean up repo for Opseeq'',
      Say ''  /browse <url>       Open URL in browser-use'',
      Say ''  /clear              Clear history'',
      Say ''  /quit               Exit'']"

subsection \<open>All the commands\<close>

text \<open>The commands that only look at the outside, as functions of the rest of the line.\<close>

definition look_commands ::
  "('v, 'w) chat_io \<Rightarrow> kernel_config \<Rightarrow> chat_state \<Rightarrow> (bytes \<times> (bytes \<Rightarrow> 'w \<Rightarrow> chat_action list \<times> 'w)) list" where
  "look_commands X cfg s =
     [(''/models'', \<lambda>arg w. (slash_models cfg (ch_model s), w)),
      (''/status'', \<lambda>arg. print_status X cfg),
      (''/ollama'', \<lambda>arg. slash_ollama X cfg),
      (''/mermate'', slash_mermate X cfg),
      (''/synth'', slash_synth X cfg),
      (''/scan'', \<lambda>arg w. (slash_scan X arg w, w)),
      (''/verify'', \<lambda>arg w. (slash_verify X arg w, w)),
      (''/organize'', slash_organize X),
      (''/browse'', slash_browse X),
      (''/help'', \<lambda>arg w. (help_lines, w))]"

text \<open>The answer says whether to quit.\<close>

definition handle_slash ::
  "('v, 'w) chat_io \<Rightarrow> kernel_config \<Rightarrow> bytes \<Rightarrow> chat_state \<Rightarrow> 'w \<Rightarrow> bool \<times> chat_action list \<times> chat_state \<times> 'w" where
  "handle_slash X cfg input s w =
     (let (cmd, arg) = split_command input in
      if cmd \<in> {''/quit'', ''/exit'', ''/q''} then (True, [], s, w)
      else if cmd = ''/model'' then
        (if arg = [] then (False, [Say (''Current: '' @ ch_model s)], s, w)
         else (False, [Say (''Model set to: '' @ arg)], s\<lparr>ch_model := arg, ch_force := None\<rparr>, w))
      else if cmd = ''/provider'' then
        (let (acts, force) = slash_provider cfg arg (ch_force s) in (False, acts, s\<lparr>ch_force := force\<rparr>, w))
      else if cmd = ''/clear'' then (False, [Forgot, Say ''Conversation cleared.''], s\<lparr>ch_messages := []\<rparr>, w)
      else (case map_of (look_commands X cfg s) cmd of
              Some f \<Rightarrow> (let (acts, w1) = f arg w in (False, acts, s, w1))
            | None \<Rightarrow> (False, [Say (''Unknown command: '' @ cmd @ ''. Type /help'')], s, w)))"

section \<open>A turn of the conversation\<close>

text \<open>The prefix of a text; \<open>None\<close> is the panic of a cut inside a character.\<close>

definition truncate :: "bytes \<Rightarrow> nat \<Rightarrow> bytes option" where
  "truncate s n = (if length s \<le> n then Some s else slice_to s n)"

definition user_message :: "bytes \<Rightarrow> chat_message" where
  "user_message text = \<lparr>cm_role = ''user'', cm_content = text, cm_name = None, cm_reasoning = None\<rparr>"

definition first_content :: "chat_response \<Rightarrow> bytes" where
  "first_content r = (case cs_choices r of c # _ \<Rightarrow> cm_content (cc_message c) | [] \<Rightarrow> [])"

definition first_reasoning :: "chat_response \<Rightarrow> bytes option" where
  "first_reasoning r = (case cs_choices r of c # _ \<Rightarrow> cm_reasoning (cc_message c) | [] \<Rightarrow> None)"

definition assistant_message :: "chat_response \<Rightarrow> chat_message" where
  "assistant_message r =
     \<lparr>cm_role = ''assistant'', cm_content = first_content r, cm_name = None, cm_reasoning = first_reasoning r\<rparr>"

text \<open>A forced provider only chooses the model: its first one.\<close>

definition model_for :: "kernel_config \<Rightarrow> chat_state \<Rightarrow> bytes" where
  "model_for cfg s =
     (case ch_force s of
        None \<Rightarrow> ch_model s
      | Some fp \<Rightarrow> (case find (\<lambda>p. pc_name p = fp) (kc_providers cfg) of
                     Some p \<Rightarrow> (case pc_models p of m # _ \<Rightarrow> m | [] \<Rightarrow> ch_model s)
                   | None \<Rightarrow> ch_model s))"

definition chat_request_of :: "kernel_config \<Rightarrow> chat_state \<Rightarrow> chat_request" where
  "chat_request_of cfg s =
     \<lparr>cr_model = model_for cfg s, cr_messages = ch_messages s, cr_temperature = Some (Fin 0),
      cr_max_tokens = None, cr_stream = False, cr_purpose = Some ''hitl_chat''\<rparr>"

definition thinking_lines :: "chat_response \<Rightarrow> chat_action list option" where
  "thinking_lines r =
     (case first_reasoning r of
        None \<Rightarrow> Some []
      | Some t \<Rightarrow> map_option (\<lambda>c. [Say (ansi ''2;3'' @ ''[thinking] '' @ c @ ansi ''0'')]) (truncate t 200))"

definition reply_lines :: "chat_response \<Rightarrow> bytes \<Rightarrow> chat_action list" where
  "reply_lines r tid =
     [Say (first_content r),
      Say (ansi ''2'' @ ''('' @ cs_model r @ '' via '' @ om_provider (cs_opseeq r) @ '' in ''
             @ show_nat (unat (om_latency_ms (cs_opseeq r))) @ ''ms | '' @ tid @ '')'' @ ansi ''0'')]"

definition chat_turn ::
  "('v, 'w) chat_io \<Rightarrow> kernel_config \<Rightarrow> bytes \<Rightarrow> chat_state \<Rightarrow> 'w \<Rightarrow> chat_action list \<times> chat_state option \<times> 'w" where
  "chat_turn X cfg input s w =
     (let K = cx_kernel X;
          s1 = s\<lparr>ch_messages := ch_messages s @ [user_message input]\<rparr>;
          req = chat_request_of cfg s1;
          (u, w1) = kn_uuid K w;
          tid = take 12 u;
          (res, st, w2) = route_inference (events_enabled (kn_env K))
              ((kn_io K)\<lparr>io_call := call_provider (kn_http K) (kn_json K)\<rparr>) cfg req tid w1;
          asked = [Put (ansi ''2''), Asked req res (rt_actions st), Put (ansi ''0'')]
      in case res of
           Inl e \<Rightarrow> (asked @ [Complain (ansi ''31'' @ ''Error: '' @ e @ ansi ''0'')], Some s1, w2)
         | Inr r \<Rightarrow>
             (case thinking_lines r of
                None \<Rightarrow> (asked, None, w2)
              | Some ls \<Rightarrow> (asked @ ls @ reply_lines r tid,
                            Some (s1\<lparr>ch_messages := ch_messages s1 @ [assistant_message r]\<rparr>), w2)))"

section \<open>The session\<close>

datatype chat_end = Interrupted | EndOfInput | ReadFailed bytes

fun chat_loop ::
  "('v, 'w) chat_io \<Rightarrow> kernel_config \<Rightarrow> bytes list \<Rightarrow> chat_end \<Rightarrow> chat_state \<Rightarrow> 'w
     \<Rightarrow> chat_action list \<times> chat_state option \<times> 'w" where
  "chat_loop X cfg [] e s w =
     (case e of ReadFailed m \<Rightarrow> [Complain (''readline error: '' @ m)] | _ \<Rightarrow> [], Some s, w)"
| "chat_loop X cfg (l # ls) e s w =
     (let input = trim l in
      if input = [] then chat_loop X cfg ls e s w
      else if prefix ''/'' input then
        (let (quit, acts, s1, w1) = handle_slash X cfg input s w in
         if quit then (acts, Some s1, w1)
         else (let (acts', r) = chat_loop X cfg ls e s1 w1 in (acts @ acts', r)))
      else (case chat_turn X cfg input s w of
              (acts, None, w1) \<Rightarrow> (acts, None, w1)
            | (acts, Some s1, w1) \<Rightarrow> (let (acts', r) = chat_loop X cfg ls e s1 w1 in (acts @ acts', r))))"

definition chat_start :: "kernel_config \<Rightarrow> chat_state" where
  "chat_start cfg = \<lparr>ch_model = kc_default_model cfg, ch_force = None, ch_messages = []\<rparr>"

definition run_chat ::
  "('v, 'w) chat_io \<Rightarrow> kernel_config \<Rightarrow> bytes list \<Rightarrow> chat_end \<Rightarrow> 'w
     \<Rightarrow> chat_action list \<times> chat_state option \<times> 'w" where
  "run_chat X cfg ls e w =
     (let (status, w1) = print_status X cfg w;
          (acts, r, w2) = chat_loop X cfg ls e (chat_start cfg) w1
      in (print_banner cfg @ status @ acts
            @ (if r = None then [] else [Say (NL # ''opseeq-core exiting.'')]), r, w2))"


section \<open>The history\<close>

text \<open>The history that the actions of a session spell, and the texts asked.\<close>

fun conversation :: "chat_message list \<Rightarrow> chat_action list \<Rightarrow> chat_message list" where
  "conversation ms [] = ms"
| "conversation ms (a # as) =
     conversation
       (case a of
          Asked req res xs \<Rightarrow> ms @ [last (cr_messages req)]
            @ (case res of Inr r \<Rightarrow> [assistant_message r] | Inl e \<Rightarrow> [])
        | Forgot \<Rightarrow> []
        | _ \<Rightarrow> ms) as"

fun asked_texts :: "chat_action list \<Rightarrow> bytes list" where
  "asked_texts [] = []"
| "asked_texts (a # as) =
     (case a of Asked req res xs \<Rightarrow> [cm_content (last (cr_messages req))] | _ \<Rightarrow> []) @ asked_texts as"

text \<open>Every request carries the history before it and one message of the user.\<close>

fun asks_follow :: "chat_message list \<Rightarrow> chat_action list \<Rightarrow> bool" where
  "asks_follow ms [] = True"
| "asks_follow ms (a # as) \<longleftrightarrow>
     (case a of
        Asked req res xs \<Rightarrow> cr_messages req = ms @ [user_message (cm_content (last (cr_messages req)))]
      | _ \<Rightarrow> True)
     \<and> asks_follow (conversation ms [a]) as"

text \<open>The lines that are questions: up to the first that quits, neither blank nor commands.\<close>

definition quits :: "bytes \<Rightarrow> bool" where
  "quits t \<longleftrightarrow> fst (split_command t) \<in> {''/quit'', ''/exit'', ''/q''}"

definition typed_texts :: "bytes list \<Rightarrow> bytes list" where
  "typed_texts ls = filter (\<lambda>t. t \<noteq> [] \<and> \<not> prefix ''/'' t) (takeWhile (\<lambda>t. \<not> quits t) (map trim ls))"

definition quiet :: "chat_action \<Rightarrow> bool" where
  "quiet a \<longleftrightarrow> (case a of Asked _ _ _ \<Rightarrow> False | Forgot \<Rightarrow> False | _ \<Rightarrow> True)"

lemma quiet_simps [simp]:
  "quiet (Say t)" "quiet (Put t)" "quiet (Complain t)" "quiet (Stored f t)"
  "\<not> quiet (Asked req res xs)" "\<not> quiet Forgot"
  by (simp_all add: quiet_def)

lemma conversation_append [simp]: "conversation ms (as @ bs) = conversation (conversation ms as) bs"
  by (induction as arbitrary: ms) auto

lemma asks_follow_append [simp]:
  "asks_follow ms (as @ bs) \<longleftrightarrow> asks_follow ms as \<and> asks_follow (conversation ms as) bs"
  by (induction as arbitrary: ms) auto

lemma asked_texts_append [simp]: "asked_texts (as @ bs) = asked_texts as @ asked_texts bs"
  by (induction as) auto

lemma quiet_actions:
  assumes "list_all quiet as"
  shows "conversation ms as = ms" "asks_follow ms as" "asked_texts as = []"
  using assms by (induction as) (auto simp: quiet_def split: chat_action.splits)

subsection \<open>The commands are quiet\<close>

lemma list_all_map_Say [simp]: "list_all quiet (map (\<lambda>x. Say (f x)) xs)"
  by (induction xs) auto

lemma quiet_banner [simp]: "list_all quiet (print_banner cfg)"
  by (simp add: print_banner_def bold_line_def)

lemma quiet_status [simp]: "list_all quiet (fst (print_status X cfg w))"
  by (simp add: print_status_def Let_def split_beta)

lemma quiet_mermate [simp]: "list_all quiet (fst (slash_mermate X cfg arg w))"
  by (auto simp: slash_mermate_def mermate_post_def show_answer_def mermate_status_def availability_def
      mermate_modes_def Let_def split: prod.splits answer.splits sum.splits option.splits)

lemma quiet_synth [simp]: "list_all quiet (fst (slash_synth X cfg arg w))"
  by (auto simp: slash_synth_def synth_status_def show_answer_def prediction_lines_def
      Let_def split: prod.splits answer.splits sum.splits option.splits)

lemma quiet_repos [simp]: "list_all quiet (map (repo_line X) rs)"
  by (induction rs) (simp_all add: repo_line_def)

lemma quiet_scan [simp]: "list_all quiet (slash_scan X arg w)"
  by (auto simp: slash_scan_def Let_def split: jout.splits)

lemma quiet_verify [simp]: "list_all quiet (slash_verify X arg w)"
  by (simp add: slash_verify_def Let_def)

lemma quiet_organize [simp]: "list_all quiet (fst (slash_organize X arg w))"
  by (auto simp: slash_organize_def organize_repo_def ensure_file_def Let_def split: prod.splits)

lemma quiet_browse [simp]: "list_all quiet (fst (slash_browse X arg w))"
  by (auto simp: slash_browse_def browse_state_def Let_def split: prod.splits sum.splits)

lemma quiet_look:
  assumes "map_of (look_commands X cfg s) cmd = Some f"
  shows "list_all quiet (fst (f arg w))"
proof -
  have "f \<in> snd ` set (look_commands X cfg s)" using assms by (force dest: map_of_SomeD)
  then show ?thesis
    by (auto simp: look_commands_def slash_models_def slash_ollama_def help_lines_def split: prod.splits sum.splits)
qed

lemma handle_slash_history:
  assumes "handle_slash X cfg input s w = (quit, acts, s1, w1)"
  shows "conversation (ch_messages s) acts = ch_messages s1" "asks_follow (ch_messages s) acts"
    "asked_texts acts = []" "quit = quits input"
proof -
  obtain cmd arg where c: "split_command input = (cmd, arg)" by fastforce
  have "conversation (ch_messages s) acts = ch_messages s1 \<and> asks_follow (ch_messages s) acts
    \<and> asked_texts acts = [] \<and> quit = quits input"
  proof (cases "map_of (look_commands X cfg s) cmd")
    case None
    with assms c show ?thesis
      by (auto simp: handle_slash_def quits_def slash_provider_def Let_def split: if_splits prod.splits)
  next
    case (Some f)
    then have "list_all quiet (fst (f arg w))" by (rule quiet_look)
    with Some assms c show ?thesis
      by (auto simp: handle_slash_def quits_def slash_provider_def quiet_actions Let_def
          split: if_splits prod.splits)
  qed
  then show "conversation (ch_messages s) acts = ch_messages s1" "asks_follow (ch_messages s) acts"
    "asked_texts acts = []" "quit = quits input" by auto
qed

subsection \<open>A turn\<close>

definition routed ::
  "('v, 'w) chat_io \<Rightarrow> kernel_config \<Rightarrow> bytes \<Rightarrow> chat_state \<Rightarrow> 'w \<Rightarrow> (bytes + chat_response) \<times> route_state \<times> 'w" where
  "routed X cfg input s w =
     (let K = cx_kernel X; (u, w1) = kn_uuid K w in
      route_inference (events_enabled (kn_env K))
        ((kn_io K)\<lparr>io_call := call_provider (kn_http K) (kn_json K)\<rparr>) cfg
        (chat_request_of cfg (s\<lparr>ch_messages := ch_messages s @ [user_message input]\<rparr>)) (take 12 u) w1)"

lemma quiet_thinking: "thinking_lines r = Some ls \<Longrightarrow> list_all quiet ls"
  by (auto simp: thinking_lines_def split: option.splits)

lemma chat_turn_history:
  assumes "chat_turn X cfg input s w = (acts, r, w1)"
  shows "asks_follow (ch_messages s) acts \<and> asked_texts acts = [input]
    \<and> (\<forall>s1. r = Some s1 \<longrightarrow> ch_messages s1 = conversation (ch_messages s) acts)"
proof -
  obtain u v where u: "kn_uuid (cx_kernel X) w = (u, v)" by fastforce
  obtain res st v' where rt: "route_inference (events_enabled (kn_env (cx_kernel X)))
        ((kn_io (cx_kernel X))\<lparr>io_call := call_provider (kn_http (cx_kernel X)) (kn_json (cx_kernel X))\<rparr>) cfg
        (chat_request_of cfg (s\<lparr>ch_messages := ch_messages s @ [user_message input]\<rparr>)) (take 12 u) v = (res, st, v')"
    by (metis prod_cases3)
  show ?thesis
  proof (cases res)
    case (Inl e)
    with assms u rt show ?thesis
      by (auto simp: chat_turn_def Let_def chat_request_of_def user_message_def)
  next
    case (Inr resp)
    show ?thesis
    proof (cases "thinking_lines resp")
      case None
      with Inr assms u rt show ?thesis
        by (auto simp: chat_turn_def Let_def chat_request_of_def user_message_def)
    next
      case (Some ls)
      with Inr assms u rt quiet_actions [OF quiet_thinking [OF Some]] show ?thesis
        by (auto simp: chat_turn_def Let_def chat_request_of_def user_message_def reply_lines_def)
    qed
  qed
qed

subsection \<open>The session\<close>

lemma typed_texts_Cons:
  "typed_texts (l # ls) =
     (if quits (trim l) then []
      else if trim l = [] \<or> prefix ''/'' (trim l) then typed_texts ls else trim l # typed_texts ls)"
  by (simp add: typed_texts_def)

lemma split_command_prefix: "prefix (fst (split_command t)) t"
  by (auto simp: split_command_def numeral_2_eq_2 split_once_Some split: option.splits)

lemma quits_slash: "quits t \<Longrightarrow> prefix ''/'' t"
  using split_command_prefix [of t] by (auto simp: quits_def prefix_def)

text \<open>What holds of a session from any state.\<close>

definition history_kept ::
  "chat_message list \<Rightarrow> bytes list \<Rightarrow> chat_action list \<times> chat_state option \<times> 'w \<Rightarrow> bool" where
  "history_kept ms ts out \<longleftrightarrow>
     (case out of (acts, r, w) \<Rightarrow>
        asks_follow ms acts
        \<and> (case r of
             None \<Rightarrow> prefix (asked_texts acts) ts
           | Some s \<Rightarrow> ch_messages s = conversation ms acts \<and> asked_texts acts = ts))"

lemma history_kept_append:
  assumes "asks_follow ms as" and "ts = asked_texts as @ ts'" and "history_kept (conversation ms as) ts' (bs, r)"
  shows "history_kept ms ts (as @ bs, r)"
  using assms by (cases r) (auto simp: history_kept_def split: option.splits)

lemma chat_loop_history: "history_kept (ch_messages s) (typed_texts ls) (chat_loop X cfg ls e s w)"
proof (induction ls arbitrary: s w)
  case Nil
  show ?case by (auto simp: history_kept_def typed_texts_def split: chat_end.splits)
next
  case (Cons l ls)
  show ?case
  proof (cases "trim l = []")
    case True
    with Cons show ?thesis using quits_slash [of "trim l"] by (auto simp: typed_texts_Cons)
  next
    case ne: False
    show ?thesis
    proof (cases "prefix ''/'' (trim l)")
      case True
      obtain quit acts s1 w1 where h: "handle_slash X cfg (trim l) s w = (quit, acts, s1, w1)" by (metis prod_cases4)
      note hist = handle_slash_history [OF h]
      obtain acts' r where t: "chat_loop X cfg ls e s1 w1 = (acts', r)" by (rule prod.exhaust)
      show ?thesis
      proof (cases quit)
        case True
        with h hist ne \<open>prefix ''/'' (trim l)\<close> show ?thesis by (auto simp: history_kept_def typed_texts_Cons)
      next
        case False
        with h hist ne True t show ?thesis
          using history_kept_append [of "ch_messages s" acts "typed_texts ls" "typed_texts ls" acts' r]
            Cons.IH [of s1 w1] by (simp add: typed_texts_Cons)
      qed
    next
      case False
      then have nq: "\<not> quits (trim l)" using quits_slash by blast
      obtain acts r w1 where c: "chat_turn X cfg (trim l) s w = (acts, r, w1)" by (metis prod_cases3)
      note hist = chat_turn_history [OF c]
      show ?thesis
      proof (cases r)
        case None
        with c hist ne False nq show ?thesis by (auto simp: history_kept_def typed_texts_Cons)
      next
        case (Some s1)
        obtain acts' r' where t: "chat_loop X cfg ls e s1 w1 = (acts', r')" by (rule prod.exhaust)
        with c hist ne False nq Some show ?thesis
          using history_kept_append [of "ch_messages s" acts "typed_texts (l # ls)" "typed_texts ls" acts' r']
            Cons.IH [of s1 w1] by (simp add: typed_texts_Cons)
      qed
    qed
  qed
qed

section \<open>Properties\<close>

text \<open>Claim C2: The history of a chat is what was said: every request sent to the router carries the
  messages since the last \<open>/clear\<close> (each question, and after it the answer when there was one) and one
  new message of the user; the questions asked are exactly the lines typed before the session quits
  that are neither blank nor commands, in order, unless the session panics, and then they are the
  first of them; and the history at the end is the one the actions spell.\<close>

theorem run_chat_history:
  "case run_chat X cfg ls e w of (acts, r, w') \<Rightarrow>
     asks_follow [] acts
     \<and> (case r of
          None \<Rightarrow> prefix (asked_texts acts) (typed_texts ls)
        | Some s \<Rightarrow> ch_messages s = conversation [] acts \<and> asked_texts acts = typed_texts ls)"
proof -
  obtain status w1 where st: "print_status X cfg w = (status, w1)" by fastforce
  then have q: "list_all quiet status" using quiet_status [of X cfg w] by simp
  obtain acts r w2 where l: "chat_loop X cfg ls e (chat_start cfg) w1 = (acts, r, w2)" by (metis prod_cases3)
  from chat_loop_history [of "chat_start cfg" ls X cfg e w1] l
  have "history_kept [] (typed_texts ls) (acts, r, w2)" by (simp add: chat_start_def)
  with st l q quiet_actions [OF q] quiet_actions [OF quiet_banner [of cfg]] show ?thesis
    by (auto simp: run_chat_def history_kept_def split: option.splits)
qed

text \<open>Claim C27: A turn panics exactly when the model answers with a reasoning text of more than 200 bytes
  that has a multi-byte character across byte 200: the text shown is cut by bytes.  Errors of the
  providers never panic.\<close>

theorem chat_turn_panics:
  "fst (snd (chat_turn X cfg input s w)) = None \<longleftrightarrow>
     (case fst (routed X cfg input s w) of
        Inl e \<Rightarrow> False
      | Inr r \<Rightarrow> (case first_reasoning r of None \<Rightarrow> False | Some t \<Rightarrow> 200 < length t \<and> is_cont (t ! 200)))"
  by (auto simp: chat_turn_def routed_def Let_def thinking_lines_def truncate_def slice_to_def is_char_boundary_def
      split: prod.splits sum.splits option.splits)

text \<open>Forcing a provider does not force it: only the name of its first model is used, and a provider of
  higher priority that lists the same model is called first.\<close>

lemma forced_provider_not_called_first:
  assumes "ch_force s = Some fp" and "find (\<lambda>p. pc_name p = fp) (kc_providers cfg) = Some p"
    and "pc_models p = m # ms" and "kc_model_map cfg m = Some i" and "i < length (kc_providers cfg)"
    and "pc_name (kc_providers cfg ! i) \<noteq> fp"
  shows "\<exists>q rest. resolve_provider (cr_model (chat_request_of cfg s)) cfg = Some q
    \<and> cascade_of q cfg = q # rest \<and> pc_name q \<noteq> fp"
proof -
  let ?q = "kc_providers cfg ! i"
  have "resolve_provider (cr_model (chat_request_of cfg s)) cfg = Some ?q"
    using assms by (simp add: chat_request_of_def model_for_def resolve_provider_def)
  moreover obtain rest where "cascade_of ?q cfg = ?q # rest"
    using extend_cascade_hd [of "[?q]" "kc_providers cfg"] by (metis cascade_of_def list.sel(1) list.exhaust_sel list.discI)
  ultimately show ?thesis using assms(6) by blast
qed

text \<open>With the default model lists, a chat forced to \<open>nvidia-nim\<close> asks \<open>nim-local\<close> first when both are
  configured.\<close>

definition two_nims :: env where
  "two_nims = (\<lambda>_. Inl NotPresent)(''NVIDIA_API_KEY'' := Inr ''k'', ''NIM_LOCAL_URL'' := Inr ''http://localhost:8000'')"

lemma forced_provider_default_models:
  "let cfg = load_config (\<lambda>_. None) two_nims;
       s = (chat_start cfg)\<lparr>ch_force := snd (slash_provider cfg ''nvidia-nim'' None)\<rparr>
   in ch_force s = Some ''nvidia-nim''
      \<and> map_option pc_name (resolve_provider (cr_model (chat_request_of cfg s)) cfg) = Some ''nim-local''"
  by code_simp

end
