(* ===== verification/Expr_Cmd.thy ===== *)
theory Expr_Cmd
  imports RustStr
begin

text \<open>
  The \<open>expr\<close> command (\<open>libs/expr/src/lib.rs\<close>): values, operators and the recursive-descent parser,
  which evaluates while it parses.  The parser's position is the list of tokens still to read.  The
  functions of the lower grammar levels take the parser of a parenthesised expression as an argument;
  \<open>parse_or_at d\<close> ties the knot for nesting up to \<open>d\<close>.  Each loop has a bound on its turns.  The
  bounds taken by \<open>expr_main\<close> are never reached (\<open>expr_main_total\<close>).  The regular expressions of the
  \<open>:\<close> operator are those of the \<open>regex\<close> crate, a parameter.
\<close>

section \<open>Values\<close>

datatype val = IntV int | StrV bytes

fun is_null :: "val \<Rightarrow> bool" where
  "is_null (IntV n) = (n = 0)"
| "is_null (StrV s) = (s = [])"

fun as_int :: "val \<Rightarrow> int option" where
  "as_int (IntV n) = Some n"
| "as_int (StrV s) = parse_signed 64 s"

fun as_str :: "val \<Rightarrow> bytes" where
  "as_str (IntV n) = show_int n"
| "as_str (StrV s) = s"

text \<open>64-bit arithmetic as a release build does it: sums and products wrap, division truncates, and
  the one quotient that does not fit panics, as does its remainder.\<close>

definition wrap64 :: "int \<Rightarrow> int" where
  "wrap64 x = (x + 2 ^ 63) mod 2 ^ 64 - 2 ^ 63"

definition min64 :: int where "min64 = - (2 ^ 63)"

definition trunc_div :: "int \<Rightarrow> int \<Rightarrow> int" where
  "trunc_div a b = sgn a * sgn b * (\<bar>a\<bar> div \<bar>b\<bar>)"

definition trunc_mod :: "int \<Rightarrow> int \<Rightarrow> int" where
  "trunc_mod a b = a - b * trunc_div a b"

definition add_op :: "bytes \<Rightarrow> val \<Rightarrow> val \<Rightarrow> val result" where
  "add_op op l r =
     (case (as_int l, as_int r) of
        (Some a, Some b) \<Rightarrow> Ok (IntV (if op = ''+'' then wrap64 (a + b) else wrap64 (a - b)))
      | _ \<Rightarrow> Err ''non-integer argument'')"

definition mul_op :: "bytes \<Rightarrow> val \<Rightarrow> val \<Rightarrow> val result" where
  "mul_op op l r =
     (case (as_int l, as_int r) of
        (Some a, Some b) \<Rightarrow>
          if (op = ''/'' \<or> op = ''%'') \<and> b = 0 then Err ''division by zero''
          else if op = ''*'' then Ok (IntV (wrap64 (a * b)))
          else if a = min64 \<and> b = - 1 then Panicked
          else if op = ''/'' then Ok (IntV (trunc_div a b))
          else Ok (IntV (trunc_mod a b))
      | _ \<Rightarrow> Err ''non-integer argument'')"

definition compare_by :: "bytes \<Rightarrow> bool \<Rightarrow> bool \<Rightarrow> bool" where
  "compare_by op lt eq =
     (if op = ''='' then eq else if op = ''!='' then \<not> eq else if op = ''<'' then lt
      else if op = ''>'' then \<not> lt \<and> \<not> eq else if op = ''<='' then lt \<or> eq
      else if op = ''>='' then \<not> lt else False)"

definition compare_values :: "val \<Rightarrow> val \<Rightarrow> bytes \<Rightarrow> bool" where
  "compare_values l r op =
     (case (as_int l, as_int r) of
        (Some a, Some b) \<Rightarrow> compare_by op (a < b) (a = b)
      | _ \<Rightarrow> compare_by op (bytes_less (as_str l) (as_str r)) (as_str l = as_str r))"

text \<open>A compiled pattern answers with its groups, the whole match first, or with no match.\<close>

type_synonym regex = "bytes \<Rightarrow> bytes + (bytes \<Rightarrow> bytes option list option)"

definition regex_match :: "regex \<Rightarrow> val \<Rightarrow> val \<Rightarrow> val result" where
  "regex_match rx l r =
     (case rx (''^(?:'' @ as_str r @ '')'') of
        Inl e \<Rightarrow> Err (''invalid regex: '' @ e)
      | Inr match \<Rightarrow>
          (case match (as_str l) of
             Some (whole # g # gs) \<Rightarrow> Ok (StrV (case g of Some m \<Rightarrow> m | None \<Rightarrow> []))
           | Some [Some whole] \<Rightarrow> Ok (IntV (int (length whole)))
           | Some _ \<Rightarrow> Panicked
           | None \<Rightarrow> Ok (if CHR ''('' \<in> set (as_str r) then StrV [] else IntV 0)))"

section \<open>The parser\<close>

text \<open>A parse ends with a value and the tokens left, an error, a panic, or at the bound.\<close>

datatype parse = Parsed val "bytes list" | Failed bytes | Aborted | Bound

type_synonym parser = "bytes list \<Rightarrow> parse"

fun then_parse :: "parse \<Rightarrow> (val \<Rightarrow> bytes list \<Rightarrow> parse) \<Rightarrow> parse" where
  "then_parse (Parsed v ts) f = f v ts"
| "then_parse (Failed e) f = Failed e"
| "then_parse Aborted f = Aborted"
| "then_parse Bound f = Bound"

fun then_value :: "val result \<Rightarrow> (val \<Rightarrow> parse) \<Rightarrow> parse" where
  "then_value (Ok v) f = f v"
| "then_value (Err e) f = Failed e"
| "then_value Panicked f = Aborted"

definition expect :: "bytes \<Rightarrow> val \<Rightarrow> parser" where
  "expect tok v ts =
     (case ts of
        t # ts' \<Rightarrow>
          if t = tok then Parsed v ts'
          else Failed (''syntax error: expected '' @ [CHR 0x27] @ tok @ [CHR 0x27] @ '', got '' @ [CHR 0x27] @ t @ [CHR 0x27])
      | [] \<Rightarrow> Failed (''syntax error: expected '' @ [CHR 0x27] @ tok @ [CHR 0x27]))"

definition token_value :: "bytes \<Rightarrow> val" where
  "token_value t = (case parse_signed 64 t of Some n \<Rightarrow> IntV n | None \<Rightarrow> StrV t)"

definition parse_primary :: "parser \<Rightarrow> parser" where
  "parse_primary P ts =
     (case ts of
        [] \<Rightarrow> Failed ''syntax error: missing argument''
      | t # ts' \<Rightarrow>
          if t = ''('' then then_parse (P ts') (expect '')'')
          else Parsed (token_value t) ts')"

text \<open>An operator with its right operand, at most once.\<close>

definition optional_op ::
  "(bytes \<Rightarrow> bool) \<Rightarrow> (bytes \<Rightarrow> val \<Rightarrow> val \<Rightarrow> val result) \<Rightarrow> parser \<Rightarrow> val \<Rightarrow> parser" where
  "optional_op is_op step operand left ts =
     (case ts of
        [] \<Rightarrow> Parsed left []
      | op # ts1 \<Rightarrow>
          if is_op op then
            then_parse (operand ts1) (\<lambda>right ts2. then_value (step op left right) (\<lambda>v. Parsed v ts2))
          else Parsed left ts)"

definition parse_match :: "regex \<Rightarrow> parser \<Rightarrow> parser" where
  "parse_match rx P ts =
     then_parse (parse_primary P ts) (optional_op (\<lambda>t. t = '':'') (\<lambda>op. regex_match rx) (parse_primary P))"

text \<open>The loop of a left-associative level: an operator, an operand of the level below, the step.\<close>

fun op_loop ::
  "(bytes \<Rightarrow> bool) \<Rightarrow> (bytes \<Rightarrow> val \<Rightarrow> val \<Rightarrow> val result) \<Rightarrow> parser \<Rightarrow> nat \<Rightarrow> val \<Rightarrow> parser" where
  "op_loop is_op step operand 0 left ts = (case ts of [] \<Rightarrow> Parsed left [] | t # _ \<Rightarrow> if is_op t then Bound else Parsed left ts)"
| "op_loop is_op step operand (Suc k) left ts =
     (case ts of
        [] \<Rightarrow> Parsed left []
      | op # ts1 \<Rightarrow>
          if is_op op then
            then_parse (operand ts1) (\<lambda>right ts2.
              then_value (step op left right) (\<lambda>v. op_loop is_op step operand k v ts2))
          else Parsed left ts)"

definition parse_mul :: "regex \<Rightarrow> parser \<Rightarrow> parser" where
  "parse_mul rx P ts =
     then_parse (parse_match rx P ts)
       (op_loop (\<lambda>t. t \<in> {''*'', ''/'', ''%''}) mul_op (parse_match rx P) (length ts))"

definition parse_add :: "regex \<Rightarrow> parser \<Rightarrow> parser" where
  "parse_add rx P ts =
     then_parse (parse_mul rx P ts)
       (op_loop (\<lambda>t. t \<in> {''+'', ''-''}) add_op (parse_mul rx P) (length ts))"

definition is_compare :: "bytes \<Rightarrow> bool" where
  "is_compare t \<longleftrightarrow> t \<in> {''='', ''!='', ''<'', ''>'', ''<='', ''>=''}"

definition compare_op :: "bytes \<Rightarrow> val \<Rightarrow> val \<Rightarrow> val result" where
  "compare_op op l r = Ok (IntV (if compare_values l r op then 1 else 0))"

definition parse_compare :: "regex \<Rightarrow> parser \<Rightarrow> parser" where
  "parse_compare rx P ts =
     then_parse (parse_add rx P ts) (optional_op is_compare compare_op (parse_add rx P))"

definition and_op :: "bytes \<Rightarrow> val \<Rightarrow> val \<Rightarrow> val result" where
  "and_op op l r = Ok (if \<not> is_null l \<and> \<not> is_null r then l else IntV 0)"

definition or_op :: "bytes \<Rightarrow> val \<Rightarrow> val \<Rightarrow> val result" where
  "or_op op l r = Ok (if \<not> is_null l then l else r)"

definition parse_and :: "regex \<Rightarrow> parser \<Rightarrow> parser" where
  "parse_and rx P ts =
     then_parse (parse_compare rx P ts)
       (op_loop (\<lambda>t. t = ''&'') and_op (parse_compare rx P) (length ts))"

definition parse_or :: "regex \<Rightarrow> parser \<Rightarrow> parser" where
  "parse_or rx P ts =
     then_parse (parse_and rx P ts)
       (op_loop (\<lambda>t. t = ''|'') or_op (parse_and rx P) (length ts))"

fun parse_or_at :: "regex \<Rightarrow> nat \<Rightarrow> parser" where
  "parse_or_at rx 0 ts = Bound"
| "parse_or_at rx (Suc d) ts = parse_or rx (parse_or_at rx d) ts"

section \<open>The command\<close>

text \<open>The arguments after the program name, decoded.  \<open>None\<close> is the bound.\<close>

definition expr_main :: "regex \<Rightarrow> bytes list \<Rightarrow> run option" where
  "expr_main rx argv =
     (let args = map from_utf8_lossy (tl argv) in
      if args = [] then Some (Exit 2 [StdErr ''expr: missing operand''])
      else (case parse_or_at rx (Suc (length args)) args of
              Parsed v [] \<Rightarrow> Some (Exit (if is_null v then 1 else 0) [StdOut (as_str v)])
            | Parsed v (t # ts) \<Rightarrow>
                Some (Exit 2 [StdErr (''expr: syntax error: unexpected argument '' @ [CHR 0x27] @ t @ [CHR 0x27])])
            | Failed msg \<Rightarrow> Some (Exit 2 [StdErr (''expr: '' @ msg)])
            | Aborted \<Rightarrow> Some Crash
            | Bound \<Rightarrow> None))"

section \<open>The bounds are never reached\<close>

text \<open>A parser that consumes at least one token when it succeeds and needs no more than \<open>n\<close> tokens of
  room.\<close>

definition consumes :: "nat \<Rightarrow> parser \<Rightarrow> bool" where
  "consumes n P \<longleftrightarrow> (\<forall>ts. length ts \<le> n \<longrightarrow> P ts \<noteq> Bound \<and> (\<forall>v r. P ts = Parsed v r \<longrightarrow> length r < length ts))"

lemma consumesI:
  assumes "\<And>ts. length ts \<le> n \<Longrightarrow> P ts \<noteq> Bound" and "\<And>ts v r. length ts \<le> n \<Longrightarrow> P ts = Parsed v r \<Longrightarrow> length r < length ts"
  shows "consumes n P"
  using assms by (auto simp: consumes_def)

lemma consumesD:
  "consumes n P \<Longrightarrow> length ts \<le> n \<Longrightarrow> P ts \<noteq> Bound"
  "consumes n P \<Longrightarrow> length ts \<le> n \<Longrightarrow> P ts = Parsed v r \<Longrightarrow> length r < length ts"
  by (auto simp: consumes_def)

lemma then_parse_cases:
  "then_parse p f = Parsed v r \<longleftrightarrow> (\<exists>u ts. p = Parsed u ts \<and> f u ts = Parsed v r)"
  "then_parse p f = Bound \<longleftrightarrow> p = Bound \<or> (\<exists>u ts. p = Parsed u ts \<and> f u ts = Bound)"
  by (cases p; simp)+

lemma then_value_cases:
  "then_value p f = Parsed v r \<longleftrightarrow> (\<exists>u. p = Ok u \<and> f u = Parsed v r)"
  "then_value p f = Bound \<longleftrightarrow> (\<exists>u. p = Ok u \<and> f u = Bound)"
  by (cases p; simp)+

lemmas parse_cases = then_parse_cases then_value_cases

lemma consumes_primary:
  assumes "consumes n P"
  shows "consumes (Suc n) (parse_primary P)"
proof (rule consumesI)
  fix ts :: "bytes list" assume "length ts \<le> Suc n"
  then show "parse_primary P ts \<noteq> Bound"
    using consumesD(1) [OF assms] by (auto simp: parse_primary_def parse_cases expect_def split: list.splits if_splits)
next
  fix ts v r assume l: "length ts \<le> Suc n" and p: "parse_primary P ts = Parsed v r"
  then obtain t ts' where ts: "ts = t # ts'" by (auto simp: parse_primary_def split: list.splits)
  show "length r < length ts"
  proof (cases "t = ''(''")
    case True
    with p ts obtain u rs where "P ts' = Parsed u rs" "expect '')'' u rs = Parsed v r"
      by (auto simp: parse_primary_def parse_cases)
    moreover from this(2) have "length r < length rs" by (auto simp: expect_def split: list.splits if_splits)
    ultimately show ?thesis using consumesD(2) [OF assms, of ts' u rs] l ts by simp
  qed (use p ts in \<open>simp add: parse_primary_def\<close>)
qed

text \<open>What may follow an operand: it never reaches the bound and gives no tokens back.\<close>

definition follows :: "nat \<Rightarrow> (nat \<Rightarrow> val \<Rightarrow> parser) \<Rightarrow> bool" where
  "follows n g \<longleftrightarrow> (\<forall>k left ts. length ts \<le> n \<longrightarrow> length ts \<le> k \<longrightarrow>
     g k left ts \<noteq> Bound \<and> (\<forall>v r. g k left ts = Parsed v r \<longrightarrow> length r \<le> length ts))"

lemma optional_op_follows:
  assumes "consumes n operand"
  shows "follows n (\<lambda>k. optional_op is_op step operand)"
  unfolding follows_def
proof (intro allI impI)
  fix k left and ts :: "bytes list" assume l: "length ts \<le> n"
  show "optional_op is_op step operand left ts \<noteq> Bound
    \<and> (\<forall>v r. optional_op is_op step operand left ts = Parsed v r \<longrightarrow> length r \<le> length ts)"
  proof (cases ts)
    case (Cons op ts1)
    then have "length ts1 \<le> n" using l by simp
    note c = consumesD [OF assms this]
    show ?thesis
    proof (cases "is_op op")
      case True
      show ?thesis
      proof (cases "operand ts1")
        case (Parsed right ts2)
        with c(2) [OF this] Cons True show ?thesis
          by (cases "step op left right") (simp_all add: optional_op_def)
      qed (use c(1) Cons True in \<open>simp_all add: optional_op_def\<close>)
    qed (use Cons in \<open>simp add: optional_op_def\<close>)
  qed (simp add: optional_op_def)
qed

lemma op_loop_consumes:
  assumes "consumes n operand"
  shows "length ts \<le> k \<Longrightarrow> length ts \<le> n \<Longrightarrow> op_loop is_op step operand k left ts \<noteq> Bound \<and>
    (\<forall>v r. op_loop is_op step operand k left ts = Parsed v r \<longrightarrow> length r \<le> length ts)"
proof (induction k arbitrary: left ts)
  case (Suc k)
  show ?case
  proof (cases ts)
    case (Cons op ts1)
    show ?thesis
    proof (cases "is_op op")
      case True
      have b: "operand ts1 \<noteq> Bound" using consumesD(1) [OF assms, of ts1] Suc.prems Cons by simp
      show ?thesis
      proof (cases "operand ts1")
        case (Parsed right ts2)
        then have "length ts2 < length ts1" using consumesD(2) [OF assms, of ts1] Suc.prems Cons by simp
        with Suc.IH [of ts2] Suc.prems Cons have IH: "\<And>v. op_loop is_op step operand k v ts2 \<noteq> Bound \<and>
          (\<forall>u r. op_loop is_op step operand k v ts2 = Parsed u r \<longrightarrow> length r \<le> length ts2)" by simp
        show ?thesis
        proof (cases "step op left right")
          case (Ok v)
          with IH [of v] Parsed Cons True \<open>length ts2 < length ts1\<close> show ?thesis by fastforce
        qed (use Parsed Cons True in simp_all)
      qed (use b Cons True in simp_all)
    next
      case False
      with Cons show ?thesis by simp
    qed
  qed simp
qed (simp split: list.splits)

lemma op_loop_follows: "consumes n operand \<Longrightarrow> follows n (op_loop is_op step operand)"
  using op_loop_consumes by (auto simp: follows_def)

lemma consumes_level:
  assumes "consumes n operand" and "follows n g"
  shows "consumes n (\<lambda>ts. then_parse (operand ts) (g (length ts)))"
proof (rule consumesI)
  fix ts :: "bytes list" assume l: "length ts \<le> n"
  show "then_parse (operand ts) (g (length ts)) \<noteq> Bound"
  proof (cases "operand ts")
    case (Parsed v ts1)
    then have "length ts1 < length ts" using consumesD(2) [OF assms(1) l] by simp
    with assms(2) l Parsed show ?thesis by (simp add: follows_def)
  qed (use consumesD(1) [OF assms(1) l] in simp_all)
next
  fix ts v r assume l: "length ts \<le> n" and "then_parse (operand ts) (g (length ts)) = Parsed v r"
  then obtain u ts1 where p: "operand ts = Parsed u ts1" "g (length ts) u ts1 = Parsed v r" by (auto simp: parse_cases)
  then have "length ts1 < length ts" using consumesD(2) [OF assms(1) l] by simp
  moreover from this l have "length ts1 \<le> n" "length ts1 \<le> length ts" by simp_all
  with assms(2) p(2) have "length r \<le> length ts1" unfolding follows_def by blast
  ultimately show "length r < length ts" by simp
qed

lemma consumes_or:
  assumes "consumes n P"
  shows "consumes (Suc n) (parse_or rx P)"
proof -
  note level = consumes_level [OF _ op_loop_follows] consumes_level [OF _ optional_op_follows]
  have p: "consumes (Suc n) (parse_primary P)" by (rule consumes_primary [OF assms])
  have "consumes (Suc n) (parse_match rx P)" unfolding parse_match_def [abs_def] by (rule level(2) [OF p p])
  then have m: "consumes (Suc n) (parse_mul rx P)" unfolding parse_mul_def [abs_def] by (intro level(1))
  have a: "consumes (Suc n) (parse_add rx P)" unfolding parse_add_def [abs_def] by (rule level(1) [OF m m])
  have "consumes (Suc n) (parse_compare rx P)" unfolding parse_compare_def [abs_def] by (rule level(2) [OF a a])
  then have n: "consumes (Suc n) (parse_and rx P)" unfolding parse_and_def [abs_def] by (intro level(1))
  show ?thesis unfolding parse_or_def [abs_def] by (rule level(1) [OF n n])
qed

lemma consumes_or_at: "consumes d (parse_or_at rx (Suc d))"
proof (induction d)
  case 0
  show ?case
  proof (rule consumesI)
    fix ts :: "bytes list" assume "length ts \<le> 0"
    then show "parse_or_at rx (Suc 0) ts \<noteq> Bound"
      by (simp add: parse_or_def parse_and_def parse_compare_def parse_add_def parse_mul_def parse_match_def parse_primary_def)
  next
    fix ts v r assume "length ts \<le> 0" and "parse_or_at rx (Suc 0) ts = Parsed v r"
    then show "length r < length ts"
      by (simp add: parse_or_def parse_and_def parse_compare_def parse_add_def parse_mul_def parse_match_def parse_primary_def)
  qed
next
  case (Suc d)
  have "parse_or_at rx (Suc (Suc d)) = parse_or rx (parse_or_at rx (Suc d))" by (rule ext) simp
  then show ?case using consumes_or [OF Suc] by (simp only:)
qed


section \<open>The grammar\<close>

text \<open>Expressions with their operators' levels, from 1 for \<open>:\<close> to 6 for \<open>|\<close>.  A tree is well formed when
  its operands are of lower levels, the left one of the same level where the operator associates to
  the left.\<close>

datatype ex = Tok bytes | Paren ex | Op nat bytes ex ex

definition op_at :: "nat \<Rightarrow> bytes \<Rightarrow> bool" where
  "op_at n t =
     (if n = 1 then t = '':'' else if n = 2 then t \<in> {''*'', ''/'', ''%''} else if n = 3 then t \<in> {''+'', ''-''}
      else if n = 4 then is_compare t else if n = 5 then t = ''&'' else n = 6 \<and> t = ''|'')"

definition left_assoc :: "nat \<Rightarrow> bool" where
  "left_assoc n \<longleftrightarrow> n \<in> {2, 3, 5, 6}"

fun level :: "ex \<Rightarrow> nat" where
  "level (Op n t l r) = n"
| "level _ = 0"

fun wf_ex :: "ex \<Rightarrow> bool" where
  "wf_ex (Tok t) = (t \<noteq> ''('')"
| "wf_ex (Paren e) = wf_ex e"
| "wf_ex (Op n t l r) =
     (1 \<le> n \<and> n \<le> 6 \<and> op_at n t \<and> wf_ex l \<and> wf_ex r \<and> level r < n \<and> (if left_assoc n then level l \<le> n else level l < n))"

fun toks :: "ex \<Rightarrow> bytes list" where
  "toks (Tok t) = [t]"
| "toks (Paren e) = ''('' # toks e @ ['')'']"
| "toks (Op n t l r) = toks l @ t # toks r"

definition step_at :: "regex \<Rightarrow> nat \<Rightarrow> bytes \<Rightarrow> val \<Rightarrow> val \<Rightarrow> val result" where
  "step_at rx n =
     (if n = 1 then (\<lambda>op. regex_match rx) else if n = 2 then mul_op else if n = 3 then add_op
      else if n = 4 then compare_op else if n = 5 then and_op else or_op)"

text \<open>The meaning of an expression: both operands, left first, then the operator.\<close>

fun eval :: "regex \<Rightarrow> ex \<Rightarrow> val result" where
  "eval rx (Tok t) = Ok (token_value t)"
| "eval rx (Paren e) = eval rx e"
| "eval rx (Op n t l r) = and_then (eval rx l) (\<lambda>a. and_then (eval rx r) (\<lambda>b. step_at rx n t a b))"

text \<open>The parser of each level.\<close>

definition parse_at :: "regex \<Rightarrow> parser \<Rightarrow> nat \<Rightarrow> parser" where
  "parse_at rx P n =
     (if n = 0 then parse_primary P else if n = 1 then parse_match rx P else if n = 2 then parse_mul rx P
      else if n = 3 then parse_add rx P else if n = 4 then parse_compare rx P
      else if n = 5 then parse_and rx P else parse_or rx P)"

definition follow_at :: "regex \<Rightarrow> parser \<Rightarrow> nat \<Rightarrow> nat \<Rightarrow> val \<Rightarrow> parser" where
  "follow_at rx P n k =
     (if left_assoc n then op_loop (op_at n) (step_at rx n) (parse_at rx P (n - 1)) k
      else optional_op (op_at n) (step_at rx n) (parse_at rx P (n - 1)))"

lemma parse_at_step:
  assumes "1 \<le> n" and "n \<le> 6"
  shows "parse_at rx P n ts = then_parse (parse_at rx P (n - 1) ts) (follow_at rx P n (length ts))"
proof -
  have op: "op_at 1 = (\<lambda>t. t = '':'')" "op_at 2 = (\<lambda>t. t \<in> {''*'', ''/'', ''%''})" "op_at 3 = (\<lambda>t. t \<in> {''+'', ''-''})"
    "op_at 4 = is_compare" "op_at 5 = (\<lambda>t. t = ''&'')" "op_at 6 = (\<lambda>t. t = ''|'')"
    by (simp_all add: op_at_def fun_eq_iff)
  have "n = 1 \<or> n = 2 \<or> n = 3 \<or> n = 4 \<or> n = 5 \<or> n = 6" using assms by arith
  then show ?thesis
    by (elim disjE) (simp_all add: parse_at_def follow_at_def left_assoc_def op [simplified] step_at_def
        parse_match_def parse_mul_def parse_add_def parse_compare_def parse_and_def parse_or_def)
qed

lemma consumes_parse_at:
  assumes "consumes n P" and "m \<le> 6"
  shows "consumes (Suc n) (parse_at rx P m)"
  using assms(2)
proof (induction m)
  case 0
  then show ?case using consumes_primary [OF assms(1)] by (simp add: parse_at_def)
next
  case (Suc m)
  then have c: "consumes (Suc n) (parse_at rx P m)" by simp
  have "parse_at rx P (Suc m) = (\<lambda>ts. then_parse (parse_at rx P m ts) (follow_at rx P (Suc m) (length ts)))"
    using parse_at_step [of "Suc m"] Suc.prems by (simp add: fun_eq_iff)
  moreover have "follows (Suc n) (follow_at rx P (Suc m))"
    using op_loop_follows [OF c] optional_op_follows [OF c] by (cases "left_assoc (Suc m)") (simp_all add: follow_at_def [abs_def])
  ultimately show ?case using consumes_level [OF c] by simp
qed

lemma op_loop_enough:
  assumes "consumes n operand"
  shows "length ts \<le> n \<Longrightarrow> length ts \<le> k \<Longrightarrow> length ts \<le> k' \<Longrightarrow>
    op_loop is_op step operand k left ts = op_loop is_op step operand k' left ts"
proof (induction k arbitrary: k' left ts)
  case 0
  then show ?case by (cases k') simp_all
next
  case (Suc k)
  show ?case
  proof (cases ts)
    case Nil
    then show ?thesis by (cases k') simp_all
  next
    case (Cons op ts1)
    with Suc.prems obtain j where j: "k' = Suc j" by (cases k') auto
    show ?thesis
    proof (cases "operand ts1")
      case (Parsed right ts2)
      with consumesD(2) [OF assms, of ts1] Suc.prems Cons have "length ts2 \<le> n" "length ts2 \<le> k" "length ts2 \<le> j"
        using j by auto
      from Suc.IH [OF this] Parsed Cons j show ?thesis by (cases "step op left right") simp_all
    qed (use Cons j in simp_all)
  qed
qed

text \<open>The tokens after an expression do not continue it at this level.\<close>

definition stops :: "nat \<Rightarrow> bytes list \<Rightarrow> bool" where
  "stops n ts \<longleftrightarrow> (ts = [] \<or> (\<forall>m\<in>{1..n}. \<not> op_at m (hd ts)))"

lemma op_at_unique: "op_at n t \<Longrightarrow> op_at m t \<Longrightarrow> n = m"
  by (auto simp: op_at_def is_compare_def split: if_splits)

lemma stops_op: "op_at n t \<Longrightarrow> m < n \<Longrightarrow> stops m (t # ts)"
  using op_at_unique by (fastforce simp: stops_def)

lemma stops_mono: "stops n ts \<Longrightarrow> m \<le> n \<Longrightarrow> stops m ts"
  by (auto simp: stops_def)

lemma follow_at_stops: "stops n ts \<Longrightarrow> 1 \<le> n \<Longrightarrow> follow_at rx P n k v ts = Parsed v ts"
  by (cases ts; cases k) (auto simp: follow_at_def optional_op_def stops_def)

lemma toks_not_Nil [simp]: "toks e \<noteq> []"
  by (cases e) auto

definition to_parse :: "val result \<Rightarrow> bytes list \<Rightarrow> parse" where
  "to_parse r ts = then_value r (\<lambda>v. Parsed v ts)"

lemma then_parse_to_parse [simp]: "then_parse (to_parse r ts) f = then_value r (\<lambda>v. f v ts)"
  by (cases r) (simp_all add: to_parse_def)

lemma then_value_and_then [simp]: "then_value (and_then r f) g = then_value r (\<lambda>v. then_value (f v) g)"
  by (cases r) simp_all

lemma then_value_cong: "(\<And>v. f v = g v) \<Longrightarrow> then_value r f = then_value r g"
  by (cases r) simp_all

lemma parse_operator:
  assumes "op_at n t"
    and "parse_at rx P (n - 1) (toks r @ rest) = to_parse (eval rx r) rest"
  shows "follow_at rx P n (Suc k) a (t # toks r @ rest) =
    then_value (eval rx r) (\<lambda>b. then_value (step_at rx n t a b)
      (\<lambda>v. if left_assoc n then follow_at rx P n k v rest else Parsed v rest))"
  using assms by (simp add: follow_at_def optional_op_def)

text \<open>An expression is parsed to its value at every level from its own up, and at a level that
  associates to the left the loop goes on from its value.\<close>

definition parses :: "regex \<Rightarrow> nat \<Rightarrow> ex \<Rightarrow> nat \<Rightarrow> bytes list \<Rightarrow> bool" where
  "parses rx d e n rest \<longleftrightarrow>
     (stops n rest \<longrightarrow> parse_at rx (parse_or_at rx d) n (toks e @ rest) = to_parse (eval rx e) rest) \<and>
     (left_assoc n \<longrightarrow> stops (n - 1) rest \<longrightarrow> (\<forall>k. length rest \<le> k \<longrightarrow> parse_at rx (parse_or_at rx d) n (toks e @ rest) =
        then_value (eval rx e) (\<lambda>v. follow_at rx (parse_or_at rx d) n k v rest)))"

lemma parsesD:
  "parses rx d e n rest \<Longrightarrow> stops n rest \<Longrightarrow>
     parse_at rx (parse_or_at rx d) n (toks e @ rest) = to_parse (eval rx e) rest"
  "parses rx d e n rest \<Longrightarrow> left_assoc n \<Longrightarrow> stops (n - 1) rest \<Longrightarrow> length rest \<le> k \<Longrightarrow>
     parse_at rx (parse_or_at rx d) n (toks e @ rest) = then_value (eval rx e) (\<lambda>v. follow_at rx (parse_or_at rx d) n k v rest)"
  by (simp_all add: parses_def)

lemma consumes_operand:
  assumes "0 < d" and "n \<le> 6"
  shows "consumes d (parse_at rx (parse_or_at rx d) n)"
proof -
  obtain d' where d: "d = Suc d'" using assms(1) by (cases d) auto
  from consumes_parse_at [OF consumes_or_at assms(2), of d' rx] d show ?thesis by simp
qed

lemma follow_enough:
  assumes "left_assoc n" and "0 < d" and "length rest \<le> d" "length rest \<le> k" "length rest \<le> k'"
  shows "follow_at rx (parse_or_at rx d) n k v rest = follow_at rx (parse_or_at rx d) n k' v rest"
proof -
  have "n - 1 \<le> 6" using assms(1) by (auto simp: left_assoc_def)
  from op_loop_enough [OF consumes_operand [OF assms(2) this] assms(3-5)] assms(1) show ?thesis
    by (simp add: follow_at_def)
qed

lemma parses_from_follow:
  assumes "1 \<le> n" and "0 < d" and "length rest \<le> d" and "length rest \<le> k"
    and "parse_at rx (parse_or_at rx d) n (toks e @ rest) = then_value (eval rx e) (\<lambda>v. follow_at rx (parse_or_at rx d) n k v rest)"
  shows "parses rx d e n rest"
  unfolding parses_def
proof (intro conjI impI allI)
  assume "stops n rest"
  with assms(1,5) show "parse_at rx (parse_or_at rx d) n (toks e @ rest) = to_parse (eval rx e) rest"
    by (simp add: follow_at_stops to_parse_def)
next
  fix k' assume "left_assoc n" "length rest \<le> k'"
  with assms show "parse_at rx (parse_or_at rx d) n (toks e @ rest) =
      then_value (eval rx e) (\<lambda>v. follow_at rx (parse_or_at rx d) n k' v rest)"
    using follow_enough [of n d rest k k' rx] by simp
qed

lemma room: "length (toks e @ rest) \<le> d \<Longrightarrow> 0 < d \<and> length rest \<le> d"
  by (cases "toks e") auto

lemma parses_lift:
  assumes "\<And>rest. length (toks e @ rest) \<le> d \<Longrightarrow> parses rx d e (level e) rest"
  shows "level e \<le> n \<Longrightarrow> n \<le> 6 \<Longrightarrow> length (toks e @ rest) \<le> d \<Longrightarrow> parses rx d e n rest"
proof (induction n arbitrary: rest rule: nat_induct_at_least)
  case base
  then show ?case by (intro assms)
next
  case (Suc n)
  show ?case
  proof (cases "stops n rest")
    case st: True
    have "parses rx d e n rest" using Suc.IH Suc.prems by simp
    from parsesD(1) [OF this st] have
      "parse_at rx (parse_or_at rx d) (Suc n) (toks e @ rest) =
        then_value (eval rx e) (\<lambda>v. follow_at rx (parse_or_at rx d) (Suc n) (length (toks e @ rest)) v rest)"
      using parse_at_step [of "Suc n" rx "parse_or_at rx d" "toks e @ rest"] Suc.prems(1) by simp
    with room [OF Suc.prems(2)] show ?thesis by (intro parses_from_follow) simp_all
  next
    case False
    then show ?thesis using stops_mono [of "Suc n" rest n] by (auto simp: parses_def)
  qed
qed

lemma parses_Op:
  assumes wf: "wf_ex (Op n t l r)" and len: "length (toks (Op n t l r) @ rest) \<le> d"
    and L: "\<And>m rest. level l \<le> m \<Longrightarrow> m \<le> 6 \<Longrightarrow> length (toks l @ rest) \<le> d \<Longrightarrow> parses rx d l m rest"
    and R: "\<And>m rest. level r \<le> m \<Longrightarrow> m \<le> 6 \<Longrightarrow> length (toks r @ rest) \<le> d \<Longrightarrow> parses rx d r m rest"
  shows "parses rx d (Op n t l r) n rest"
proof (cases "stops (n - 1) rest")
  case False
  then show ?thesis using stops_mono [of n rest "n - 1"] by (auto simp: parses_def)
next
  case st: True
  let ?P = "parse_or_at rx d" and ?rest = "t # toks r @ rest" and ?k = "length (toks r @ rest)"
  from wf have n: "1 \<le> n" "n \<le> 6" "op_at n t" "level r \<le> n - 1" "n - 1 \<le> 6" by auto
  have stop: "stops (n - 1) ?rest" using n by (intro stops_op) auto
  have "parses rx d r (n - 1) rest" using len by (intro R n) simp
  from parse_operator [OF n(3) parsesD(1) [OF this st]] have op:
    "follow_at rx ?P n (Suc k) a ?rest = then_value (eval rx r) (\<lambda>b. then_value (step_at rx n t a b)
      (\<lambda>v. if left_assoc n then follow_at rx ?P n k v rest else Parsed v rest))" for k a .
  have left: "parse_at rx ?P n (toks l @ ?rest) = then_value (eval rx l) (\<lambda>a. follow_at rx ?P n (Suc ?k) a ?rest)"
  proof (cases "left_assoc n")
    case True
    with wf have "parses rx d l n ?rest" using len n by (intro L) simp_all
    from parsesD(2) [OF this True stop, of "Suc ?k"] show ?thesis by simp
  next
    case False
    with wf n have "level l \<le> n - 1" by auto
    then have "parses rx d l (n - 1) ?rest" using len n(5) by (intro L) simp_all
    from parsesD(1) [OF this stop] show ?thesis
      using parse_at_step [OF n(1,2), of rx ?P "toks l @ ?rest"] False by (simp add: follow_at_def)
  qed
  have main: "parse_at rx ?P n (toks (Op n t l r) @ rest) =
      then_value (eval rx (Op n t l r)) (\<lambda>v. if left_assoc n then follow_at rx ?P n ?k v rest else Parsed v rest)"
    using left op [of ?k] by simp
  from room [OF len] have d: "0 < d" "length rest \<le> d" "length rest \<le> ?k" by simp_all
  show ?thesis
  proof (cases "left_assoc n")
    case True
    with main have "parse_at rx ?P n (toks (Op n t l r) @ rest) =
        then_value (eval rx (Op n t l r)) (\<lambda>v. follow_at rx ?P n ?k v rest)" by (simp only: if_True)
    from parses_from_follow [OF n(1) d this] show ?thesis .
  next
    case False
    with main show ?thesis by (simp add: parses_def to_parse_def)
  qed
qed

lemma parse_expression:
  "wf_ex e \<Longrightarrow> level e \<le> n \<Longrightarrow> n \<le> 6 \<Longrightarrow> length (toks e @ rest) \<le> d \<Longrightarrow> parses rx d e n rest"
proof (induction e arbitrary: n rest d)
  case (Tok t)
  have "parses rx d (Tok t) (level (Tok t)) rest" for rest
    using Tok.prems(1) by (simp add: parses_def left_assoc_def parse_at_def parse_primary_def to_parse_def)
  from parses_lift [OF this Tok.prems(2-4)] show ?case .
next
  case (Paren e)
  have base: "parses rx d (Paren e) (level (Paren e)) rest" if len: "length (toks (Paren e) @ rest) \<le> d" for rest
  proof -
    obtain d' where d: "d = Suc d'" using len by (cases d) auto
    have "level e \<le> 6" using Paren.prems(1) by (cases e) auto
    then have "parses rx d' e 6 ('')'' # rest)" using Paren.IH [of 6 "'')'' # rest" d'] Paren.prems(1) len d by simp
    moreover have "stops 6 ('')'' # rest)" by (simp add: stops_def op_at_def is_compare_def)
    ultimately have "parse_at rx (parse_or_at rx d') 6 (toks e @ '')'' # rest) = to_parse (eval rx e) ('')'' # rest)"
      by (rule parsesD(1))
    then have "parse_or_at rx d (toks e @ '')'' # rest) = to_parse (eval rx e) ('')'' # rest)"
      using d by (simp add: parse_at_def)
    then show ?thesis
      by (cases "eval rx e") (simp_all add: parses_def left_assoc_def parse_at_def parse_primary_def to_parse_def expect_def)
  qed
  from parses_lift [OF base Paren.prems(2-4)] show ?case .
next
  case (Op m t l r)
  have base: "parses rx d (Op m t l r) (level (Op m t l r)) rest" if "length (toks (Op m t l r) @ rest) \<le> d" for rest
    using parses_Op [OF Op.prems(1) that] Op.IH Op.prems(1) by simp
  from parses_lift [OF base Op.prems(2-4)] show ?case .
qed

lemmas read_number = parse_signed_def parse_unsigned_def to_digit_def digit_val_def between_def byte_def

section \<open>Properties\<close>

text \<open>Claim C9: The recursive-descent parser implements the grammar: on the tokens of a well-formed
  expression, with \<open>:\<close> binding tightest, then \<open>* / %\<close>, \<open>+ -\<close>, one comparison, \<open>&\<close> and \<open>|\<close>, all
  binary operators but the comparison and the match associating to the left, the command prints the
  value of the expression and exits with 1 when it is zero or empty and 0 otherwise; an error of an
  operator, on either side of \<open>|\<close> and \<open>&\<close> too, is reported with exit status 2.\<close>

theorem expr_main_evaluates:
  assumes "wf_ex e" and "list_all utf8_valid (toks e)"
  shows "expr_main rx (''expr'' # toks e) = Some (case eval rx e of
      Ok v \<Rightarrow> Exit (if is_null v then 1 else 0) [StdOut (as_str v)]
    | Err msg \<Rightarrow> Exit 2 [StdErr (''expr: '' @ msg)]
    | Panicked \<Rightarrow> Crash)"
proof -
  have utf: "map from_utf8_lossy (toks e) = toks e"
    using assms(2) by (simp add: list_all_iff map_idI from_utf8_lossy_valid)
  have "level e \<le> 6" using assms(1) by (cases e) auto
  from parse_expression [OF assms(1) this, of "[]" "length (toks e)" rx] have
    "parses rx (length (toks e)) e 6 []" by simp
  from parsesD(1) [OF this] have "parse_or_at rx (Suc (length (toks e))) (toks e) = to_parse (eval rx e) []"
    by (simp add: stops_def parse_at_def)
  then show ?thesis
    by (cases "eval rx e") (simp_all add: expr_main_def utf to_parse_def Let_def)
qed

definition demo_ex :: ex where
  "demo_ex = Op 6 ''|'' (Op 3 ''-'' (Op 3 ''-'' (Tok ''10'') (Tok ''4'')) (Op 2 ''*'' (Tok ''2'') (Paren (Op 3 ''+'' (Tok ''1'') (Tok ''2'')))))
     (Tok ''zero'')"

lemma expr_main_evaluates_witness:
  "expr_main (\<lambda>_. Inl []) (''expr'' # toks demo_ex) = Some (Exit 0 [StdOut ''zero''])"
proof -
  have v: "list_all utf8_valid (toks demo_ex)"
    by (simp add: demo_ex_def utf8_valid_ascii byte_def)
  have w: "wf_ex demo_ex" by (simp add: demo_ex_def op_at_def left_assoc_def)
  have "eval (\<lambda>_. Inl []) demo_ex = Ok (StrV ''zero'')"
    by (simp add: demo_ex_def step_at_def add_op_def mul_op_def or_op_def token_value_def read_number wrap64_def)
  with expr_main_evaluates [OF w v, of "\<lambda>_. Inl []"] show ?thesis by simp
qed

text \<open>Claim C24: The command ends on every argument list: the bounds on nesting and on the turns of the
  loops, the number of arguments, are never reached.\<close>

theorem expr_main_total: "expr_main rx argv \<noteq> None"
proof -
  let ?args = "map from_utf8_lossy (tl argv)"
  have "parse_or_at rx (Suc (length ?args)) ?args \<noteq> Bound" by (rule consumesD(1) [OF consumes_or_at]) simp
  then show ?thesis by (auto simp: expr_main_def Let_def split: parse.splits list.splits)
qed

text \<open>Dividing the least 64-bit integer by -1, or taking that remainder, panics instead of
  reporting an error, while every other quotient is the one truncated towards zero, with a remainder
  that has the sign of the dividend and is smaller than the divisor; division by zero is an error.\<close>

theorem mul_op_division:
  assumes "as_int l = Some a" and "as_int r = Some b" and "op = ''/'' \<or> op = ''%''"
  shows "(mul_op op l r = Panicked) = (a = min64 \<and> b = - 1)
    \<and> (mul_op op l r = Err ''division by zero'') = (b = 0)
    \<and> a = b * trunc_div a b + trunc_mod a b
    \<and> (if b = 0 then True else \<bar>trunc_mod a b\<bar> < \<bar>b\<bar> \<and> (trunc_mod a b = 0 \<or> sgn (trunc_mod a b) = sgn a))"
proof -
  have d: "a = b * trunc_div a b + trunc_mod a b" by (simp add: trunc_mod_def)
  have tm: "trunc_mod a b = sgn a * (\<bar>a\<bar> mod \<bar>b\<bar>)" if "b \<noteq> 0"
  proof -
    have "b * trunc_div a b = sgn a * (\<bar>b\<bar> * (\<bar>a\<bar> div \<bar>b\<bar>))"
      using that by (simp add: trunc_div_def abs_sgn mult.assoc mult.left_commute)
    moreover have "\<bar>b\<bar> * (\<bar>a\<bar> div \<bar>b\<bar>) = \<bar>a\<bar> - \<bar>a\<bar> mod \<bar>b\<bar>" by (simp add: minus_mod_eq_mult_div)
    moreover have "sgn a * \<bar>a\<bar> = a" by (simp add: sgn_mult_abs)
    ultimately show ?thesis by (simp add: trunc_mod_def right_diff_distrib)
  qed
  have m: "if b = 0 then True else \<bar>trunc_mod a b\<bar> < \<bar>b\<bar> \<and> (trunc_mod a b = 0 \<or> sgn (trunc_mod a b) = sgn a)"
  proof (cases "b = 0")
    case False
    define m where "m = \<bar>a\<bar> mod \<bar>b\<bar>"
    have m: "0 \<le> m" "m < \<bar>b\<bar>" using False by (simp_all add: m_def)
    have tm: "trunc_mod a b = sgn a * m" using tm [OF False] by (simp add: m_def)
    show ?thesis using m False unfolding tm by (auto simp: sgn_if)
  qed simp
  have "(mul_op op l r = Panicked) = (a = min64 \<and> b = - 1)"
    "(mul_op op l r = Err ''division by zero'') = (b = 0)"
    using assms by (auto simp: mul_op_def)
  with d m show ?thesis by blast
qed

lemma mul_op_division_witness: "mul_op ''%'' (IntV min64) (StrV ''-1'') = Panicked"
proof -
  have "as_int (StrV ''-1'') = Some (- 1)" by (simp add: read_number)
  from mul_op_division [of "IntV min64" min64, OF _ this, of "''%''"] show ?thesis by simp
qed

end
