(* ===== verification/Dir_Walk.thy ===== *)
theory Dir_Walk
  imports Process "HOL-Library.List_Lexorder" "HOL-Library.Char_ord" "HOL-Library.Word"
begin

text \<open>
  Walking directories, shared by the commands that list files: the file system as a parameter, the
  walk of the children up to the first failure, a generic walk over a successor function with its
  characterisation by reachability, and when its bound suffices.
\<close>

section \<open>The file system\<close>

text \<open>\<open>is_dir\<close>, \<open>is_file\<close> and \<open>metadata().len()\<close> follow symbolic links; \<open>read_dir\<close> fails or lists
  entries, each a failure or a name.\<close>

record fs =
  fs_is_dir :: "bytes \<Rightarrow> bool"
  fs_is_file :: "bytes \<Rightarrow> bool"
  fs_is_symlink :: "bytes \<Rightarrow> bool"
  fs_len :: "bytes \<Rightarrow> nat option"
  fs_read_dir :: "bytes \<Rightarrow> bytes + (bytes + bytes) list"

text \<open>What \<open>fs::metadata\<close> tells of a path, when it can be read.\<close>

record metadata =
  md_is_file :: bool
  md_is_dir :: bool
  md_len :: "64 word"

section \<open>Regular expressions\<close>

text \<open>A regular expression is its source; compiling it may fail with a text.\<close>

record regex_lib =
  rx_error :: "bytes \<Rightarrow> bytes option"
  rx_match :: "bytes \<Rightarrow> bytes \<Rightarrow> bool"

section \<open>Lists of children\<close>

text \<open>How a walk ends: it is complete, it failed, or a directory lies deeper than the bound.\<close>

datatype walk_end = WDone | WErr bytes | WBound

text \<open>The entries of a directory that could be read, in the order of their names.\<close>

definition sorted_names :: "(bytes + bytes) list \<Rightarrow> bytes list" where
  "sorted_names es = sort (List.map_filter (\<lambda>e. case e of Inr n \<Rightarrow> Some n | Inl _ \<Rightarrow> None) es)"

lemma set_sorted_names [simp]: "set (sorted_names es) = {n. Inr n \<in> set es}"
  by (force simp: sorted_names_def List.map_filter_def split: sum.splits)

text \<open>The children in turn, up to the first that fails.\<close>

fun walk_list :: "('n \<Rightarrow> 'l list \<times> walk_end) \<Rightarrow> 'n list \<Rightarrow> 'l list \<times> walk_end" where
  "walk_list f [] = ([], WDone)"
| "walk_list f (n # ns) =
     (case f n of
        (ls, WDone) \<Rightarrow> (let (ls', e) = walk_list f ns in (ls @ ls', e))
      | (ls, e) \<Rightarrow> (ls, e))"

lemma walk_list_done:
  "walk_list f ns = (ls, WDone) \<Longrightarrow> (\<forall>n\<in>set ns. snd (f n) = WDone) \<and> ls = concat (map (\<lambda>n. fst (f n)) ns)"
  by (induction ns arbitrary: ls) (auto split: prod.splits walk_end.splits)

lemma walk_list_not_bound: "(\<And>n. snd (f n) \<noteq> WBound) \<Longrightarrow> snd (walk_list f ns) \<noteq> WBound"
proof (induction ns)
  case (Cons n ns)
  have "snd (f n) \<noteq> WBound" by (rule Cons.prems)
  moreover have "snd (walk_list f ns) \<noteq> WBound" by (rule Cons.IH [OF Cons.prems])
  ultimately show ?case by (cases "f n"; cases "snd (f n)") (simp_all add: case_prod_beta)
qed simp

lemma walk_list_map: "walk_list f (map g ns) = walk_list (\<lambda>n. f (g n)) ns"
  by (induction ns) simp_all

lemma walk_list_cong: "(\<And>n. n \<in> set ns \<Longrightarrow> f n = g n) \<Longrightarrow> walk_list f ns = walk_list g ns"
  by (induction ns) auto

section \<open>The generic walk\<close>

text \<open>A node at a depth shows some lines, then its children are walked; \<open>kids\<close> fails or lists them.\<close>

fun gwalk :: "nat \<Rightarrow> ('n \<Rightarrow> nat \<Rightarrow> 'l list) \<Rightarrow> ('n \<Rightarrow> nat \<Rightarrow> bytes + 'n list) \<Rightarrow> 'n \<Rightarrow> nat \<Rightarrow> 'l list \<times> walk_end" where
  "gwalk 0 shown kids n d = ([], WBound)"
| "gwalk (Suc b) shown kids n d =
     (case kids n d of
        Inl e \<Rightarrow> (shown n d, WErr e)
      | Inr ns \<Rightarrow> (let (ls, e) = walk_list (\<lambda>m. gwalk b shown kids m (Suc d)) ns in (shown n d @ ls, e)))"

text \<open>\<open>below kids n d m k\<close>: \<open>m\<close> is reached from \<open>n\<close> at depth \<open>d\<close> and lies at depth \<open>k\<close>.\<close>

inductive below :: "('n \<Rightarrow> nat \<Rightarrow> bytes + 'n list) \<Rightarrow> 'n \<Rightarrow> nat \<Rightarrow> 'n \<Rightarrow> nat \<Rightarrow> bool" for kids where
  itself: "below kids n d n d"
| child: "kids n d = Inr ns \<Longrightarrow> m \<in> set ns \<Longrightarrow> below kids m (Suc d) p k \<Longrightarrow> below kids n d p k"

inductive_simps below_iff: "below kids n d p k"

lemma gwalk_shows:
  "gwalk b shown kids n d = (ls, WDone) \<Longrightarrow> l \<in> set ls \<longleftrightarrow> (\<exists>m k. below kids n d m k \<and> l \<in> set (shown m k))"
proof (induction b arbitrary: n d ls)
  case (Suc b)
  obtain ns where ns: "kids n d = Inr ns" using Suc.prems by (cases "kids n d") auto
  let ?f = "\<lambda>m. gwalk b shown kids m (Suc d)"
  obtain ks where ks: "walk_list ?f ns = (ks, WDone)" "ls = shown n d @ ks"
    using Suc.prems ns by (auto split: prod.splits)
  from walk_list_done [OF ks(1)] have fin: "\<And>m. m \<in> set ns \<Longrightarrow> snd (?f m) = WDone"
    and k: "ks = concat (map (\<lambda>m. fst (?f m)) ns)" by auto
  have "l \<in> set (fst (?f m)) \<longleftrightarrow> (\<exists>p k. below kids m (Suc d) p k \<and> l \<in> set (shown p k))" if "m \<in> set ns" for m
    using Suc.IH [of m "Suc d" "fst (?f m)"] fin [OF that] by (metis prod.collapse)
  then have "l \<in> set ks \<longleftrightarrow> (\<exists>m\<in>set ns. \<exists>p k. below kids m (Suc d) p k \<and> l \<in> set (shown p k))"
    unfolding k by auto
  then show ?case unfolding ks(2) using ns by (subst below_iff) auto
qed simp

lemma gwalk_bounded:
  assumes "\<And>n d. m \<le> d \<Longrightarrow> kids n d = Inr []"
  shows "m < b + d \<Longrightarrow> 0 < b \<Longrightarrow> snd (gwalk b shown kids n d) \<noteq> WBound"
proof (induction b arbitrary: n d)
  case (Suc b)
  show ?case
  proof (cases "m \<le> d")
    case True
    with assms show ?thesis by simp
  next
    case False
    then have "snd (gwalk b shown kids p (Suc d)) \<noteq> WBound" for p using Suc.prems by (intro Suc.IH) auto
    note nb = walk_list_not_bound [of "\<lambda>p. gwalk b shown kids p (Suc d)", OF this]
    show ?thesis
    proof (cases "kids n d")
      case (Inr ns)
      with nb [of ns] show ?thesis by (simp add: case_prod_beta)
    qed simp
  qed
qed simp

lemma gwalk_loops:
  assumes "\<And>d. \<exists>ns. kids n d = Inr (n # ns)"
  shows "snd (gwalk b shown kids n d) = WBound"
proof (induction b arbitrary: d)
  case (Suc b)
  obtain ns where "kids n d = Inr (n # ns)" using assms by blast
  with Suc [of "Suc d"] show ?case by (cases "gwalk b shown kids n (Suc d)") simp
qed simp

end
