(* ===== verification/Find_Cmd.thy ===== *)
theory Find_Cmd
  imports Dir_Walk
begin

text \<open>
  The \<open>find\<close> command (\<open>libs/find/src/lib.rs\<close>): the arguments, the translation of glob patterns to
  regular expressions, the evaluation of an expression on an entry and the walk over directories.
  The file system and the \<open>regex\<close> crate are parameters.  The walk takes a bound on its depth, and
  ends in \<open>WBound\<close> when a directory lies deeper.
\<close>

section \<open>Glob patterns\<close>

text \<open>The characters of a class up to the closing bracket or the end, and what is left.\<close>

fun glob_class :: "bytes list \<Rightarrow> bytes \<times> bytes list" where
  "glob_class [] = ([], [])"
| "glob_class (c # cs) =
     (if c = '']'' then ([], cs)
      else if c = [CHR 0x5C] \<and> cs \<noteq> [] then
        (let (t, rest) = glob_class (tl cs) in ([CHR 0x5C] @ hd cs @ t, rest))
      else (let (t, rest) = glob_class cs in (c @ t, rest)))"

lemma glob_class_length: "length (snd (glob_class cs)) \<le> length cs"
proof (induction cs rule: glob_class.induct)
  case (2 c cs)
  then show ?case by (cases cs) (auto split: prod.splits)
qed simp

definition glob_special :: "bytes \<Rightarrow> bool" where
  "glob_special c \<longleftrightarrow> c \<in> {''.'', ''+'', ''('', '')'', ''{'', ''}'', ''|'', ''^'', ''$'', [CHR 0x5C]}"

definition glob_negation :: "bytes list \<Rightarrow> bytes \<times> bytes list" where
  "glob_negation cs =
     (case cs of c # rest \<Rightarrow> if c = ''!'' \<or> c = ''^'' then (''^'', rest) else ([], cs) | [] \<Rightarrow> ([], cs))"

lemma glob_negation_length: "length (snd (glob_negation cs)) \<le> length cs"
  by (auto simp: glob_negation_def split: list.splits)

function glob_body :: "bytes list \<Rightarrow> bytes" where
  "glob_body [] = []"
| "glob_body (c # cs) =
     (if c = ''*'' then
        (if cs \<noteq> [] \<and> hd cs = ''*'' then ''.*'' @ glob_body (tl cs) else ''[^/]*'' @ glob_body cs)
      else if c = ''?'' then ''[^/]'' @ glob_body cs
      else if c = ''['' then
        ''['' @ fst (glob_negation cs) @ fst (glob_class (snd (glob_negation cs))) @ '']''
          @ glob_body (snd (glob_class (snd (glob_negation cs))))
      else if glob_special c then [CHR 0x5C] @ c @ glob_body cs
      else c @ glob_body cs)"
  by pat_completeness auto
termination
proof (relation "measure length")
  fix c :: bytes and cs :: "bytes list"
  have "length (snd (glob_class (snd (glob_negation cs)))) \<le> length cs"
    by (meson glob_class_length glob_negation_length order.trans)
  then show "(snd (glob_class (snd (glob_negation cs))), c # cs) \<in> measure length" by simp
qed (auto simp: length_tl)

definition glob_to_regex :: "regex_lib \<Rightarrow> bytes \<Rightarrow> bool \<Rightarrow> bytes result" where
  "glob_to_regex R glob ci =
     (let re = ''^'' @ glob_body (utf8_chars glob) @ ''$''; pattern = (if ci then ''(?i)'' @ re else re) in
      case rx_error R pattern of Some e \<Rightarrow> Err (''invalid pattern: '' @ e) | None \<Rightarrow> Ok pattern)"

section \<open>Expressions\<close>

datatype file_type = Directory | RegularFile | Symlink

datatype fexpr =
    Name bytes | IName bytes | PathMatch bytes | IPathMatch bytes
  | TypeIs file_type
  | IsEmpty
  | MaxDepth nat | MinDepth nat
  | Print
  | Not fexpr
  | And fexpr fexpr
  | Or fexpr fexpr

fun eval_expr :: "fs \<Rightarrow> regex_lib \<Rightarrow> fexpr \<Rightarrow> bytes \<Rightarrow> bytes \<Rightarrow> bool" where
  "eval_expr F R (Name re) full disp =
     rx_match R re (case file_name full of Some n \<Rightarrow> from_utf8_lossy n | None \<Rightarrow> [])"
| "eval_expr F R (IName re) full disp =
     rx_match R re (case file_name full of Some n \<Rightarrow> from_utf8_lossy n | None \<Rightarrow> [])"
| "eval_expr F R (PathMatch re) full disp = rx_match R re disp"
| "eval_expr F R (IPathMatch re) full disp = rx_match R re disp"
| "eval_expr F R (TypeIs ft) full disp =
     (case ft of Directory \<Rightarrow> fs_is_dir F full | RegularFile \<Rightarrow> fs_is_file F full | Symlink \<Rightarrow> fs_is_symlink F full)"
| "eval_expr F R IsEmpty full disp =
     (if fs_is_dir F full then (case fs_read_dir F full of Inr es \<Rightarrow> es = [] | Inl _ \<Rightarrow> False)
      else if fs_is_file F full then (case fs_len F full of Some n \<Rightarrow> n = 0 | None \<Rightarrow> False)
      else False)"
| "eval_expr F R (MaxDepth n) full disp = True"
| "eval_expr F R (MinDepth n) full disp = True"
| "eval_expr F R Print full disp = True"
| "eval_expr F R (Not e) full disp = (\<not> eval_expr F R e full disp)"
| "eval_expr F R (And l r) full disp = (eval_expr F R l full disp \<and> eval_expr F R r full disp)"
| "eval_expr F R (Or l r) full disp = (eval_expr F R l full disp \<or> eval_expr F R r full disp)"

text \<open>\<open>combine_and\<close> removes the first element, which panics on an empty list.\<close>

definition combine_and :: "fexpr list \<Rightarrow> fexpr result" where
  "combine_and es = (case es of [] \<Rightarrow> Panicked | e # rest \<Rightarrow> Ok (foldl And e rest))"

fun extract_depth :: "fexpr \<Rightarrow> (nat option \<times> nat option) option" where
  "extract_depth (MaxDepth n) = Some (Some n, None)"
| "extract_depth (MinDepth n) = Some (None, Some n)"
| "extract_depth _ = None"

section \<open>Arguments\<close>

definition file_type_of :: "bytes \<Rightarrow> file_type result" where
  "file_type_of t =
     (if t = ''d'' then Ok Directory else if t = ''f'' then Ok RegularFile else if t = ''l'' then Ok Symlink
      else Err (''unknown file type: '' @ t))"

definition depth_arg :: "bytes \<Rightarrow> bytes \<Rightarrow> nat result" where
  "depth_arg opt a = (case parse_usize32 a of Some n \<Rightarrow> Ok n | None \<Rightarrow> Err (opt @ '': '' @ a @ '': not a number''))"

text \<open>An option with one argument.\<close>

definition with_arg :: "bytes \<Rightarrow> bytes list \<Rightarrow> (bytes \<Rightarrow> 'a result) \<Rightarrow> ('a \<times> bytes list) result" where
  "with_arg opt rest f =
     (case rest of [] \<Rightarrow> Err (opt @ '' requires an argument'') | a # rest' \<Rightarrow> and_then (f a) (\<lambda>x. Ok (x, rest')))"

fun map_result :: "('a \<Rightarrow> 'b) \<Rightarrow> 'a result \<Rightarrow> 'b result" where
  "map_result f r = and_then r (\<lambda>x. Ok (f x))"

text \<open>The options by their spellings.\<close>

datatype opt =
    OptName | OptIName | OptPath | OptIPath | OptType | OptEmpty | OptMaxDepth | OptMinDepth | OptPrint
  | OptNot | OptAnd | OptOr | OptGroup | OptUnknown

definition opt_of :: "bytes \<Rightarrow> opt" where
  "opt_of a =
     (if a = ''-name'' then OptName else if a = ''-iname'' then OptIName
      else if a = ''-path'' \<or> a = ''-wholename'' then OptPath
      else if a = ''-ipath'' \<or> a = ''-iwholename'' then OptIPath
      else if a = ''-type'' then OptType else if a = ''-empty'' then OptEmpty
      else if a = ''-maxdepth'' then OptMaxDepth else if a = ''-mindepth'' then OptMinDepth
      else if a = ''-print'' then OptPrint else if a = ''!'' \<or> a = ''-not'' then OptNot
      else if a = ''-a'' \<or> a = ''-and'' then OptAnd else if a = ''-o'' \<or> a = ''-or'' then OptOr
      else if a = ''('' then OptGroup else OptUnknown)"

definition parse_single_expr :: "regex_lib \<Rightarrow> bytes list \<Rightarrow> (fexpr \<times> bytes list) result" where
  "parse_single_expr R args =
     (case args of
        [] \<Rightarrow> Err ''unexpected end of expression''
      | a # rest \<Rightarrow>
          (case opt_of a of
             OptName \<Rightarrow> with_arg a rest (\<lambda>g. map_result Name (glob_to_regex R g False))
           | OptIName \<Rightarrow> with_arg a rest (\<lambda>g. map_result IName (glob_to_regex R g True))
           | OptPath \<Rightarrow> with_arg a rest (\<lambda>g. map_result PathMatch (glob_to_regex R g False))
           | OptType \<Rightarrow> with_arg a rest (\<lambda>t. map_result TypeIs (file_type_of t))
           | OptEmpty \<Rightarrow> Ok (IsEmpty, rest)
           | OptMaxDepth \<Rightarrow> with_arg a rest (\<lambda>n. map_result MaxDepth (depth_arg a n))
           | OptMinDepth \<Rightarrow> with_arg a rest (\<lambda>n. map_result MinDepth (depth_arg a n))
           | OptPrint \<Rightarrow> Ok (Print, rest)
           | _ \<Rightarrow> Err (''unknown expression: '' @ a)))"

record find_options =
  fo_paths :: "bytes list"
  fo_expr :: "fexpr option"
  fo_max :: "nat option"
  fo_min :: nat

record parse_state =
  ps_exprs :: "fexpr list"
  ps_max :: "nat option"
  ps_min :: nat

definition push_expr :: "fexpr \<Rightarrow> parse_state \<Rightarrow> parse_state" where
  "push_expr e s = s\<lparr>ps_exprs := ps_exprs s @ [e]\<rparr>"

text \<open>The depth settings found inside a negation or to the right of an \<open>-o\<close>.\<close>

definition take_depth :: "fexpr \<Rightarrow> parse_state \<Rightarrow> parse_state" where
  "take_depth e s =
     (case extract_depth e of
        None \<Rightarrow> s
      | Some (md, mi) \<Rightarrow>
          s\<lparr>ps_max := (case md of Some d \<Rightarrow> Some d | None \<Rightarrow> ps_max s),
            ps_min := (case mi of Some d \<Rightarrow> d | None \<Rightarrow> ps_min s)\<rparr>)"

lemma with_arg_shrinks: "with_arg opt rest f = Ok (x, rest') \<Longrightarrow> length rest' < length rest"
  by (auto simp: with_arg_def split: list.splits elim: and_then.elims)

lemma parse_single_expr_shrinks: "parse_single_expr R args = Ok (e, rest) \<Longrightarrow> length rest < length args"
  by (auto simp: parse_single_expr_def split: list.splits opt.splits dest!: with_arg_shrinks)

text \<open>The expressions to the right of \<open>-o\<close>, up to the end.\<close>

function parse_right :: "regex_lib \<Rightarrow> bytes list \<Rightarrow> fexpr list \<Rightarrow> parse_state \<Rightarrow> (fexpr list \<times> parse_state) result" where
  "parse_right R args es s =
     (if args = [] then Ok (es, s)
      else (case parse_single_expr R args of
              Ok (e, rest) \<Rightarrow> parse_right R rest (es @ [e]) (take_depth e s)
            | Err m \<Rightarrow> Err m
            | Panicked \<Rightarrow> Panicked))"
  by pat_completeness auto
termination
  by (relation "measure (\<lambda>(R, args, es, s). length args)") (auto dest: parse_single_expr_shrinks)

declare parse_right.simps [simp del]

function parse_args_exprs :: "regex_lib \<Rightarrow> bytes list \<Rightarrow> fexpr list \<Rightarrow> fexpr option result" where
  "parse_args_exprs R args es =
     (if args = [] then (if es = [] then Ok None else map_result Some (combine_and es))
      else (case parse_single_expr R args of
              Ok (e, rest) \<Rightarrow> parse_args_exprs R rest (es @ [e])
            | Err m \<Rightarrow> Err m
            | Panicked \<Rightarrow> Panicked))"
  by pat_completeness auto
termination
  by (relation "measure (\<lambda>(R, args, es). length args)") (auto dest: parse_single_expr_shrinks)

declare parse_args_exprs.simps [simp del]

text \<open>The arguments up to the parenthesis that closes the group, and those after it.\<close>

fun take_group :: "nat \<Rightarrow> bytes list \<Rightarrow> (bytes list \<times> bytes list) option" where
  "take_group d [] = None"
| "take_group d (a # as) =
     (if a = ''('' then map_option (\<lambda>(g, r). (a # g, r)) (take_group (d + 1) as)
      else if a = '')'' then
        (if d = 1 then Some ([], as) else map_option (\<lambda>(g, r). (a # g, r)) (take_group (d - 1) as))
      else map_option (\<lambda>(g, r). (a # g, r)) (take_group d as))"

lemma take_group_length: "take_group d as = Some (g, r) \<Longrightarrow> length r < length as"
  by (induction d as arbitrary: g r rule: take_group.induct) (fastforce split: if_splits)+

text \<open>One turn of the loop: the state and the arguments left.  An \<open>-o\<close> takes all the rest, which ends
  the loop.\<close>

definition parse_step :: "regex_lib \<Rightarrow> bytes \<Rightarrow> bytes list \<Rightarrow> parse_state \<Rightarrow> (parse_state \<times> bytes list) result" where
  "parse_step R a rest s =
     (case opt_of a of
        OptName \<Rightarrow> with_arg a rest (\<lambda>g. map_result (\<lambda>r. push_expr (Name r) s) (glob_to_regex R g False))
      | OptIName \<Rightarrow> with_arg a rest (\<lambda>g. map_result (\<lambda>r. push_expr (IName r) s) (glob_to_regex R g True))
      | OptPath \<Rightarrow> with_arg a rest (\<lambda>g. map_result (\<lambda>r. push_expr (PathMatch r) s) (glob_to_regex R g False))
      | OptIPath \<Rightarrow> with_arg a rest (\<lambda>g. map_result (\<lambda>r. push_expr (IPathMatch r) s) (glob_to_regex R g True))
      | OptType \<Rightarrow> with_arg a rest (\<lambda>t. map_result (\<lambda>ft. push_expr (TypeIs ft) s) (file_type_of t))
      | OptEmpty \<Rightarrow> Ok (push_expr IsEmpty s, rest)
      | OptMaxDepth \<Rightarrow> with_arg a rest (\<lambda>n. map_result (\<lambda>d. s\<lparr>ps_max := Some d\<rparr>) (depth_arg a n))
      | OptMinDepth \<Rightarrow> with_arg a rest (\<lambda>n. map_result (\<lambda>d. s\<lparr>ps_min := d\<rparr>) (depth_arg a n))
      | OptPrint \<Rightarrow> Ok (push_expr Print s, rest)
      | OptNot \<Rightarrow>
          (if rest = [] then Err ''! requires an expression''
           else and_then (parse_single_expr R rest) (\<lambda>(e, rest'). Ok (push_expr (Not e) (take_depth e s), rest')))
      | OptAnd \<Rightarrow> Ok (s, rest)
      | OptOr \<Rightarrow>
          (if ps_exprs s = [] then Err ''-or requires a preceding expression''
           else and_then (combine_and (ps_exprs s)) (\<lambda>l.
                  and_then (parse_right R rest [] s) (\<lambda>(right, s').
                    and_then (combine_and right) (\<lambda>r. Ok (s'\<lparr>ps_exprs := [Or l r]\<rparr>, [])))))
      | OptGroup \<Rightarrow>
          (case take_group 1 rest of
             None \<Rightarrow> Err (''unmatched '' @ [CHR 0x27] @ ''('' @ [CHR 0x27])
           | Some (grp, rest') \<Rightarrow>
               and_then (parse_args_exprs R grp []) (\<lambda>sub.
                 Ok (case sub of Some e \<Rightarrow> push_expr e s | None \<Rightarrow> s, rest')))
      | OptUnknown \<Rightarrow>
          if prefix ''-'' a then Err (''unknown option: '' @ a) else Err (''unexpected argument: '' @ a))"

lemma and_then_Ok: "and_then r f = Ok y \<longleftrightarrow> (\<exists>x. r = Ok x \<and> f x = Ok y)"
  by (cases r) auto

lemma parse_step_length: "parse_step R a rest s = Ok (s', rest') \<Longrightarrow> length rest' \<le> length rest"
  by (auto simp: parse_step_def and_then_Ok split: opt.splits if_splits option.splits
      dest!: with_arg_shrinks parse_single_expr_shrinks take_group_length)

function parse_loop :: "regex_lib \<Rightarrow> bytes list \<Rightarrow> parse_state \<Rightarrow> parse_state result" where
  "parse_loop R [] s = Ok s"
| "parse_loop R (a # rest) s =
     (case parse_step R a rest s of
        Ok sr \<Rightarrow> parse_loop R (snd sr) (fst sr)
      | Err m \<Rightarrow> Err m
      | Panicked \<Rightarrow> Panicked)"
  by pat_completeness auto
termination
proof (relation "measure (\<lambda>(R, args, s). length args)")
  fix R a rest s sr assume "parse_step R a rest s = Ok (sr :: parse_state \<times> bytes list)"
  then have "length (snd sr) \<le> length rest" using parse_step_length by (metis prod.collapse)
  then show "((R, snd sr, fst sr), (R, a # rest, s)) \<in> measure (\<lambda>(R, args, s). length args)" by simp
qed simp

definition starts_expr :: "bytes \<Rightarrow> bool" where
  "starts_expr a \<longleftrightarrow> prefix ''-'' a \<or> a = ''!'' \<or> a = ''(''"

definition parse_args :: "regex_lib \<Rightarrow> bytes list \<Rightarrow> find_options result" where
  "parse_args R args =
     (let paths = takeWhile (\<lambda>a. \<not> starts_expr a) args in
      and_then (parse_loop R (dropWhile (\<lambda>a. \<not> starts_expr a) args) \<lparr>ps_exprs = [], ps_max = None, ps_min = 0\<rparr>) (\<lambda>s.
        and_then (if ps_exprs s = [] then Ok None else map_result Some (combine_and (ps_exprs s))) (\<lambda>e.
          Ok \<lparr>fo_paths = (if paths = [] then [''.''] else paths), fo_expr = e, fo_max = ps_max s, fo_min = ps_min s\<rparr>)))"

section \<open>The walk\<close>

definition child_display :: "bytes \<Rightarrow> bytes \<Rightarrow> bytes" where
  "child_display disp name = (if disp = ''/'' then ''/'' @ name else disp @ ''/'' @ name)"

definition hits :: "fs \<Rightarrow> regex_lib \<Rightarrow> find_options \<Rightarrow> bytes \<Rightarrow> bytes \<Rightarrow> nat \<Rightarrow> bool" where
  "hits F R opts full disp depth \<longleftrightarrow>
     fo_min opts \<le> depth \<and> (case fo_expr opts of Some e \<Rightarrow> eval_expr F R e full disp | None \<Rightarrow> True)"

text \<open>One entry with what is below it.\<close>

fun walk :: "nat \<Rightarrow> fs \<Rightarrow> regex_lib \<Rightarrow> find_options \<Rightarrow> bytes \<Rightarrow> bytes \<Rightarrow> nat \<Rightarrow> bytes list \<times> walk_end" where
  "walk 0 F R opts full disp depth = ([], WBound)"
| "walk (Suc b) F R opts full disp depth =
     (if (case fo_max opts of Some m \<Rightarrow> m < depth | None \<Rightarrow> False) then ([], WDone)
      else (let here = (if hits F R opts full disp depth then [disp] else []) in
        if fs_is_dir F full then
          (if (case fo_max opts of Some m \<Rightarrow> m \<le> depth | None \<Rightarrow> False) then (here, WDone)
           else (case fs_read_dir F full of
                   Inl e \<Rightarrow> (here, WErr (disp @ '': '' @ e))
                 | Inr es \<Rightarrow>
                     (let (ls, e) = walk_list (\<lambda>n. walk b F R opts (path_join full n)
                                       (child_display disp (from_utf8_lossy n)) (depth + 1)) (sorted_names es)
                      in (here @ ls, e))))
        else (here, WDone)))"

declare walk.simps [simp del]

definition run_find :: "nat \<Rightarrow> fs \<Rightarrow> regex_lib \<Rightarrow> find_options \<Rightarrow> bytes list \<times> walk_end" where
  "run_find b F R opts = walk_list (\<lambda>p. walk b F R opts p p 0) (fo_paths opts)"

text \<open>The command; \<open>None\<close> is a walk below the bound.\<close>

definition find_main :: "nat \<Rightarrow> fs \<Rightarrow> regex_lib \<Rightarrow> bytes list \<Rightarrow> run option" where
  "find_main b F R argv =
     (case parse_args R (map from_utf8_lossy (tl argv)) of
        Panicked \<Rightarrow> Some Crash
      | Err m \<Rightarrow> Some (Exit 1 [StdErr (''find: '' @ m)])
      | Ok opts \<Rightarrow>
          (case run_find b F R opts of
             (ls, WDone) \<Rightarrow> Some (Exit 0 (map StdOut ls))
           | (ls, WErr m) \<Rightarrow> Some (Exit 1 (map StdOut ls @ [StdErr (''find: '' @ m)]))
           | (ls, WBound) \<Rightarrow> None))"


section \<open>What a walk visits\<close>

text \<open>\<open>reach F full disp full' disp' n\<close>: the entry shown as \<open>disp'\<close> lies \<open>n\<close> directories below the
  one shown as \<open>disp\<close>, each entry between them being a directory that can be read.\<close>

inductive reach :: "fs \<Rightarrow> bytes \<Rightarrow> bytes \<Rightarrow> bytes \<Rightarrow> bytes \<Rightarrow> nat \<Rightarrow> bool" for F where
  here: "reach F full disp full disp 0"
| below: "fs_is_dir F full \<Longrightarrow> fs_read_dir F full = Inr es \<Longrightarrow> Inr name \<in> set es \<Longrightarrow>
    reach F (path_join full name) (child_display disp (from_utf8_lossy name)) full' disp' n \<Longrightarrow>
    reach F full disp full' disp' (Suc n)"

inductive_cases reach_SucE: "reach F full disp full' disp' (Suc n)"
inductive_cases reach_0E: "reach F full disp full' disp' 0"
inductive_simps reach_0 [simp]: "reach F full disp full' disp' 0"

definition within_max :: "find_options \<Rightarrow> nat \<Rightarrow> bool" where
  "within_max opts d \<longleftrightarrow> (case fo_max opts of Some m \<Rightarrow> d \<le> m | None \<Rightarrow> True)"

definition found :: "fs \<Rightarrow> regex_lib \<Rightarrow> find_options \<Rightarrow> bytes \<Rightarrow> bytes \<Rightarrow> nat \<Rightarrow> bytes \<Rightarrow> bool" where
  "found F R opts full disp depth l \<longleftrightarrow>
     (\<exists>full' n. reach F full disp full' l n \<and> within_max opts (depth + n) \<and> hits F R opts full' l (depth + n))"

lemma found_unfold:
  "found F R opts full disp depth l \<longleftrightarrow>
     within_max opts depth \<and>
     (l = disp \<and> hits F R opts full disp depth \<or>
      (fs_is_dir F full \<and> (\<exists>es name. fs_read_dir F full = Inr es \<and> Inr name \<in> set es \<and>
         found F R opts (path_join full name) (child_display disp (from_utf8_lossy name)) (Suc depth) l)))"
  (is "?l = ?r")
proof
  assume ?l
  then obtain full' n where n: "reach F full disp full' l n" "within_max opts (depth + n)" "hits F R opts full' l (depth + n)"
    by (auto simp: found_def)
  have w: "within_max opts depth" using n(2) by (auto simp: within_max_def split: option.splits)
  show ?r
  proof (cases n)
    case 0
    with n w show ?thesis by simp
  next
    case (Suc m)
    with n w show ?thesis by (fastforce simp: found_def elim: reach_SucE)
  qed
next
  assume r: ?r
  show ?l
  proof (cases "l = disp \<and> hits F R opts full disp depth")
    case True
    with r show ?thesis unfolding found_def by (intro exI [of _ full] exI [of _ 0]) simp
  next
    case False
    with r obtain es name full' n where "fs_is_dir F full" "fs_read_dir F full = Inr es" "Inr name \<in> set es"
      "reach F (path_join full name) (child_display disp (from_utf8_lossy name)) full' l n"
      "within_max opts (Suc depth + n)" "hits F R opts full' l (Suc depth + n)"
      by (auto simp: found_def)
    then show ?thesis unfolding found_def
      by (intro exI [of _ full'] exI [of _ "Suc n"]) (auto intro: reach.below)
  qed
qed

lemma walk_found:
  "walk b F R opts full disp depth = (ls, WDone) \<Longrightarrow> l \<in> set ls \<longleftrightarrow> found F R opts full disp depth l"
proof (induction b arbitrary: full disp depth ls)
  case 0
  then show ?case by (simp add: walk.simps)
next
  case (Suc b)
  note unf = walk.simps(2) [of b F R opts full disp depth] and fnd = found_unfold [of F R opts full disp depth l]
  show ?case
  proof (cases "within_max opts depth")
    case False
    with Suc.prems fnd show ?thesis by (simp add: unf within_max_def split: option.splits)
  next
    case w: True
    then have lt: "(case fo_max opts of Some m \<Rightarrow> m < depth | None \<Rightarrow> False) = False"
      by (simp add: within_max_def split: option.splits)
    let ?here = "if hits F R opts full disp depth then [disp] else []"
    show ?thesis
    proof (cases "fs_is_dir F full")
      case False
      with Suc.prems fnd w lt show ?thesis by (auto simp: unf Let_def split: if_splits)
    next
      case dir: True
      show ?thesis
      proof (cases "within_max opts (Suc depth)")
        case False
        with w have "fo_max opts = Some depth" by (auto simp: within_max_def split: option.splits)
        with Suc.prems dir have "ls = ?here" by (simp add: unf Let_def split: if_splits)
        moreover have "\<not> found F R opts f d (Suc depth) l" for f d
          using False found_unfold [of F R opts f d "Suc depth"] by blast
        ultimately show ?thesis using fnd w by (auto split: if_splits)
      next
        case deeper: True
        then have le: "(case fo_max opts of Some m \<Rightarrow> m \<le> depth | None \<Rightarrow> False) = False"
          by (auto simp: within_max_def split: option.splits)
        let ?f = "\<lambda>n. walk b F R opts (path_join full n) (child_display disp (from_utf8_lossy n)) (depth + 1)"
        from Suc.prems dir lt le obtain es ks where es: "fs_read_dir F full = Inr es"
          "walk_list ?f (sorted_names es) = (ks, WDone)" "ls = ?here @ ks"
          by (auto simp: unf Let_def split: sum.splits prod.splits)
        from walk_list_done [OF es(2)] have fin: "\<And>n. Inr n \<in> set es \<Longrightarrow> snd (?f n) = WDone"
          and ks: "ks = concat (map (\<lambda>n. fst (?f n)) (sorted_names es))" by auto
        have "l \<in> set (fst (?f n)) \<longleftrightarrow> found F R opts (path_join full n) (child_display disp (from_utf8_lossy n)) (Suc depth) l"
          if "Inr n \<in> set es" for n
          using Suc.IH [of "path_join full n" "child_display disp (from_utf8_lossy n)" "depth + 1" "fst (?f n)"] fin [OF that]
          by (metis Suc_eq_plus1 prod.collapse)
        then have "l \<in> set ks \<longleftrightarrow> (\<exists>n. Inr n \<in> set es \<and> found F R opts (path_join full n)
            (child_display disp (from_utf8_lossy n)) (Suc depth) l)"
          unfolding ks by auto
        with fnd w dir es show ?thesis by auto
      qed
    qed
  qed
qed

lemma walk_bounded:
  "fo_max opts = Some m \<Longrightarrow> m < b + depth \<Longrightarrow> 0 < b \<Longrightarrow> snd (walk b F R opts full disp depth) \<noteq> WBound"
proof (induction b arbitrary: full disp depth)
  case (Suc b)
  show ?case
  proof (cases "m \<le> depth")
    case True
    with Suc.prems(1) show ?thesis by (auto simp: walk.simps(2) Let_def)
  next
    case False
    then have "snd (walk b F R opts f d (depth + 1)) \<noteq> WBound" for f d
      using Suc.prems by (intro Suc.IH) simp_all
    then have "snd (walk_list (\<lambda>n. walk b F R opts (path_join full n) (child_display disp (from_utf8_lossy n)) (depth + 1)) ns)
      \<noteq> WBound" for ns by (rule walk_list_not_bound)
    with Suc.prems(1) False show ?thesis
      by (auto simp: walk.simps(2) Let_def split: sum.splits prod.splits) (metis snd_conv)
  qed
qed simp

text \<open>Without \<open>-maxdepth\<close> a directory that contains a link to itself is walked for ever: \<open>is_dir\<close>
  follows the link, so every bound on the depth is exceeded.\<close>

lemma walk_link_loop:
  assumes "fo_max opts = None" and "\<And>p. fs_is_dir F p" and "\<And>p. fs_read_dir F p = Inr [Inr ''loop'']"
  shows "snd (walk b F R opts full disp depth) = WBound"
proof (induction b arbitrary: full disp depth)
  case (Suc b)
  have "sorted_names [Inr ''loop''] = [''loop'']" by (simp add: sorted_names_def List.map_filter_def)
  with Suc [of "path_join full ''loop''" "child_display disp (from_utf8_lossy ''loop'')" "depth + 1"] assms show ?case
    by (cases "walk b F R opts (path_join full ''loop'') (child_display disp (from_utf8_lossy ''loop'')) (depth + 1)")
      (simp add: walk.simps(2) Let_def)
qed (simp add: walk.simps)

section \<open>Properties\<close>

text \<open>Claim C15: A search that ends without an error prints exactly the entries it should: a line is
  printed if and only if it names an entry that lies below one of the start paths, through readable
  directories only, no deeper than \<open>-maxdepth\<close> and no higher than \<open>-mindepth\<close>, on which the
  expression holds.\<close>

theorem run_find_prints_matches:
  assumes "run_find b F R opts = (ls, WDone)"
  shows "l \<in> set ls \<longleftrightarrow> (\<exists>p\<in>set (fo_paths opts). found F R opts p p 0 l)"
proof -
  let ?f = "\<lambda>p. walk b F R opts p p 0"
  from walk_list_done [of ?f "fo_paths opts" ls] assms have
    "\<forall>p\<in>set (fo_paths opts). snd (?f p) = WDone" "ls = concat (map (\<lambda>p. fst (?f p)) (fo_paths opts))"
    by (simp_all add: run_find_def)
  moreover from this(1) have "l \<in> set (fst (?f p)) \<longleftrightarrow> found F R opts p p 0 l" if "p \<in> set (fo_paths opts)" for p
    using that walk_found [of b F R opts p p 0 "fst (?f p)" l] by (metis prod.collapse)
  ultimately show ?thesis by auto
qed

definition demo_fs :: fs where
  "demo_fs = \<lparr>fs_is_dir = (\<lambda>p. p = ''d''), fs_is_file = (\<lambda>p. p = ''d/a'' \<or> p = ''d/b''), fs_is_symlink = (\<lambda>_. False),
     fs_len = (\<lambda>p. Some (if p = ''d/a'' then 0 else 3)),
     fs_read_dir = (\<lambda>p. if p = ''d'' then Inr [Inr ''b'', Inl ''gone'', Inr ''a''] else Inl ''not a directory'')\<rparr>"

definition demo_regex :: regex_lib where
  "demo_regex = \<lparr>rx_error = (\<lambda>_. None), rx_match = (\<lambda>re s. True)\<rparr>"

definition demo_opts :: find_options where
  "demo_opts = \<lparr>fo_paths = [''d''], fo_expr = Some (And (TypeIs RegularFile) IsEmpty), fo_max = Some 1, fo_min = 0\<rparr>"

lemma demo_run: "run_find 2 demo_fs demo_regex demo_opts = ([''d/a''], WDone)"
  by code_simp

lemma run_find_prints_matches_witness:
  "''d/a'' \<in> set [''d/a''] \<longleftrightarrow> (\<exists>p\<in>set (fo_paths demo_opts). found demo_fs demo_regex demo_opts p p 0 ''d/a'')"
  by (rule run_find_prints_matches [OF demo_run])

text \<open>With \<open>-maxdepth m\<close> the search ends on every file system, also one whose symbolic links
  form a loop: the walk never goes below depth \<open>m\<close>.\<close>

theorem run_find_maxdepth_ends:
  assumes "fo_max opts = Some m"
  shows "snd (run_find (m + 1) F R opts) \<noteq> WBound"
proof -
  have "snd (walk (m + 1) F R opts p p 0) \<noteq> WBound" for p
    using walk_bounded [OF assms, of "m + 1" 0] by simp
  from walk_list_not_bound [of "\<lambda>p. walk (m + 1) F R opts p p 0", OF this] show ?thesis by (simp add: run_find_def)
qed

lemma run_find_maxdepth_ends_witness: "snd (run_find (1 + 1) demo_fs demo_regex demo_opts) \<noteq> WBound"
  by (rule run_find_maxdepth_ends) (simp add: demo_opts_def)

text \<open>An \<open>-o\<close> with nothing after it panics: the right-hand side is combined from an empty
  list, whose first element is removed without a check.\<close>

theorem trailing_or_panics:
  "find_main b F R [''find'', ''-print'', ''-o''] = Some Crash"
  by (simp add: find_main_def parse_args_def starts_expr_def from_utf8_lossy_valid utf8_valid_ascii byte_def
      parse_step_def opt_of_def push_expr_def combine_and_def parse_right.simps)

end
