(* ===== verification/Fd_Cmd.thy ===== *)
theory Fd_Cmd
  imports Dir_Walk
begin

text \<open>
  The \<open>fd\<close> command (\<open>libs/fd/src/lib.rs\<close>): arguments, the filter on an entry and the walk.  The file
  system, the \<open>regex\<close> crate, absolute paths and Unicode lower case are parameters.
\<close>

section \<open>Options\<close>

datatype type_filter = FilterFile | FilterDirectory | FilterSymlink

record fd_options =
  fd_pattern :: "bytes option"
  fd_extensions :: "bytes list"
  fd_type :: "type_filter option"
  fd_max :: "nat option"
  fd_paths :: "bytes list"
  fd_hidden :: bool
  fd_icase :: bool
  fd_full :: bool
  fd_absolute :: bool

definition fd_defaults :: fd_options where
  "fd_defaults = \<lparr>fd_pattern = None, fd_extensions = [], fd_type = None, fd_max = None, fd_paths = [],
     fd_hidden = False, fd_icase = False, fd_full = False, fd_absolute = False\<rparr>"

text \<open>The arguments give options, an error, or one of the two texts after which the process exits.\<close>

datatype fd_parse = FdOptions fd_options | FdError bytes | FdHelp | FdVersion

definition type_filter_of :: "bytes \<Rightarrow> type_filter option" where
  "type_filter_of t =
     (if t = ''f'' \<or> t = ''file'' then Some FilterFile
      else if t = ''d'' \<or> t = ''directory'' then Some FilterDirectory
      else if t = ''l'' \<or> t = ''symlink'' then Some FilterSymlink else None)"

fun fd_args :: "bytes list \<Rightarrow> fd_options \<Rightarrow> fd_parse" where
  "fd_args [] s = FdOptions s"
| "fd_args (a # rest) s =
     (if a = ''-h'' \<or> a = ''--help'' then FdHelp
      else if a = ''-V'' \<or> a = ''--version'' then FdVersion
      else if a = ''-H'' \<or> a = ''--hidden'' then fd_args rest (s\<lparr>fd_hidden := True\<rparr>)
      else if a = ''-I'' \<or> a = ''--no-ignore'' then fd_args rest s
      else if a = ''-i'' \<or> a = ''--ignore-case'' then fd_args rest (s\<lparr>fd_icase := True\<rparr>)
      else if a = ''-s'' \<or> a = ''--case-sensitive'' then fd_args rest (s\<lparr>fd_icase := False\<rparr>)
      else if a = ''-p'' \<or> a = ''--full-path'' then fd_args rest (s\<lparr>fd_full := True\<rparr>)
      else if a = ''-a'' \<or> a = ''--absolute-path'' then fd_args rest (s\<lparr>fd_absolute := True\<rparr>)
      else if a = ''-e'' \<or> a = ''--extension'' then
        (case rest of
           [] \<Rightarrow> FdError ''-e/--extension requires an argument''
         | v # rest' \<Rightarrow> fd_args rest' (s\<lparr>fd_extensions := fd_extensions s @ [v]\<rparr>))
      else if a = ''-t'' \<or> a = ''--type'' then
        (case rest of
           [] \<Rightarrow> FdError ''-t/--type requires an argument''
         | v # rest' \<Rightarrow>
             (case type_filter_of v of
                Some t \<Rightarrow> fd_args rest' (s\<lparr>fd_type := Some t\<rparr>)
              | None \<Rightarrow> FdError (''unknown type filter: '' @ v)))
      else if a = ''-d'' \<or> a = ''--max-depth'' then
        (case rest of
           [] \<Rightarrow> FdError ''-d/--max-depth requires an argument''
         | v # rest' \<Rightarrow>
             (case parse_usize32 v of
                Some n \<Rightarrow> fd_args rest' (s\<lparr>fd_max := Some n\<rparr>)
              | None \<Rightarrow> FdError (''invalid max-depth: '' @ v)))
      else if prefix ''-'' a then FdError (''unknown option: '' @ a)
      else if fd_pattern s = None then fd_args rest (s\<lparr>fd_pattern := Some a\<rparr>)
      else fd_args rest (s\<lparr>fd_paths := fd_paths s @ [a]\<rparr>))"

text \<open>The default path, and the source of the regular expression, compiled once.\<close>

definition fd_parse_args :: "regex_lib \<Rightarrow> bytes list \<Rightarrow> fd_parse" where
  "fd_parse_args R args =
     (case fd_args args fd_defaults of
        FdOptions s \<Rightarrow>
          (let s1 = s\<lparr>fd_paths := (if fd_paths s = [] then [''.''] else fd_paths s),
                      fd_pattern := map_option (\<lambda>p. if fd_icase s then ''(?i)'' @ p else p) (fd_pattern s)\<rparr>
           in case fd_pattern s1 of
                None \<Rightarrow> FdOptions s1
              | Some p \<Rightarrow> (case rx_error R p of None \<Rightarrow> FdOptions s1 | Some e \<Rightarrow> FdError (''invalid pattern: '' @ e)))
      | other \<Rightarrow> other)"

section \<open>The walk\<close>

text \<open>Absolute paths, when they can be found, and \<open>to_lowercase\<close>.\<close>

record fd_lib =
  fl_canonical :: "bytes \<Rightarrow> bytes option"
  fl_lowercase :: "bytes \<Rightarrow> bytes"

definition matches_entry :: "fs \<Rightarrow> regex_lib \<Rightarrow> fd_lib \<Rightarrow> fd_options \<Rightarrow> bytes \<Rightarrow> bool" where
  "matches_entry F R L s p \<longleftrightarrow>
     (case fd_type s of
        None \<Rightarrow> True
      | Some FilterFile \<Rightarrow> fs_is_file F p
      | Some FilterDirectory \<Rightarrow> fs_is_dir F p
      | Some FilterSymlink \<Rightarrow> fs_is_symlink F p)
     \<and> (fd_extensions s = []
        \<or> fl_lowercase L (case path_extension p of Some e \<Rightarrow> from_utf8_lossy e | None \<Rightarrow> [])
            \<in> fl_lowercase L ` set (fd_extensions s))
     \<and> (case fd_pattern s of
          None \<Rightarrow> True
        | Some re \<Rightarrow> rx_match R re
            (if fd_full s then from_utf8_lossy p
             else case file_name p of Some n \<Rightarrow> from_utf8_lossy n | None \<Rightarrow> []))"

definition fd_display :: "fd_lib \<Rightarrow> fd_options \<Rightarrow> bytes \<Rightarrow> bytes" where
  "fd_display L s p =
     (if fd_absolute s
      then (case fl_canonical L p of Some q \<Rightarrow> from_utf8_lossy q | None \<Rightarrow> from_utf8_lossy p)
      else from_utf8_lossy p)"

definition fd_visible :: "fd_options \<Rightarrow> bytes \<Rightarrow> bool" where
  "fd_visible s name \<longleftrightarrow> fd_hidden s \<or> \<not> prefix ''.'' (from_utf8_lossy name)"

text \<open>The root of a search is not matched itself.\<close>

fun fd_walk ::
  "nat \<Rightarrow> fs \<Rightarrow> regex_lib \<Rightarrow> fd_lib \<Rightarrow> fd_options \<Rightarrow> bytes \<Rightarrow> nat \<Rightarrow> bytes list \<times> walk_end" where
  "fd_walk 0 F R L s p depth = ([], WBound)"
| "fd_walk (Suc b) F R L s p depth =
     (if (case fd_max s of Some m \<Rightarrow> m < depth | None \<Rightarrow> False) then ([], WDone)
      else (let here = (if 0 < depth \<and> matches_entry F R L s p then [fd_display L s p] else []) in
        if fs_is_dir F p then
          (if (case fd_max s of Some m \<Rightarrow> m \<le> depth | None \<Rightarrow> False) then (here, WDone)
           else (case fs_read_dir F p of
                   Inl e \<Rightarrow> (here, WErr (from_utf8_lossy p @ '': '' @ e))
                 | Inr es \<Rightarrow>
                     (let (ls, e) = walk_list (\<lambda>n. fd_walk b F R L s (path_join p n) (depth + 1))
                                      (filter (fd_visible s) (sorted_names es))
                      in (here @ ls, e))))
        else (here, WDone)))"

declare fd_walk.simps [simp del]

definition run_fd :: "nat \<Rightarrow> fs \<Rightarrow> regex_lib \<Rightarrow> fd_lib \<Rightarrow> fd_options \<Rightarrow> bytes list \<times> walk_end" where
  "run_fd b F R L s = walk_list (\<lambda>p. fd_walk b F R L s p 0) (fd_paths s)"

text \<open>The command, with the texts of \<open>--help\<close> and \<open>--version\<close>; \<open>None\<close> is a walk below the bound.\<close>

definition fd_main :: "bytes list \<Rightarrow> nat \<Rightarrow> fs \<Rightarrow> regex_lib \<Rightarrow> fd_lib \<Rightarrow> bytes list \<Rightarrow> run option" where
  "fd_main help b F R L argv =
     (case fd_parse_args R (map from_utf8_lossy (tl argv)) of
        FdHelp \<Rightarrow> Some (Exit 0 (map StdOut help))
      | FdVersion \<Rightarrow> Some (Exit 0 [StdOut ''fd 0.1.0 (secure-exec)''])
      | FdError m \<Rightarrow> Some (Exit 1 [StdErr (''[fd error]: '' @ m)])
      | FdOptions s \<Rightarrow>
          (case run_fd b F R L s of
             (ls, WDone) \<Rightarrow> Some (Exit (if ls = [] then 1 else 0) (map StdOut ls))
           | (ls, WErr m) \<Rightarrow> Some (Exit 1 (map StdOut ls @ [StdErr (''[fd error]: '' @ m)]))
           | (ls, WBound) \<Rightarrow> None))"

section \<open>The walk is an instance of the generic one\<close>

definition fd_kids :: "fs \<Rightarrow> fd_options \<Rightarrow> bytes \<Rightarrow> nat \<Rightarrow> bytes + bytes list" where
  "fd_kids F s p d =
     (if fs_is_dir F p \<and> (case fd_max s of Some m \<Rightarrow> d < m | None \<Rightarrow> True)
      then (case fs_read_dir F p of
              Inl e \<Rightarrow> Inl (from_utf8_lossy p @ '': '' @ e)
            | Inr es \<Rightarrow> Inr (map (path_join p) (filter (fd_visible s) (sorted_names es))))
      else Inr [])"

definition fd_shown :: "fs \<Rightarrow> regex_lib \<Rightarrow> fd_lib \<Rightarrow> fd_options \<Rightarrow> bytes \<Rightarrow> nat \<Rightarrow> bytes list" where
  "fd_shown F R L s p d =
     (if 0 < d \<and> (case fd_max s of Some m \<Rightarrow> d \<le> m | None \<Rightarrow> True) \<and> matches_entry F R L s p
      then [fd_display L s p] else [])"

lemma fd_walk_gwalk: "fd_walk b F R L s p d = gwalk b (fd_shown F R L s) (fd_kids F s) p d"
proof (induction b arbitrary: p d)
  case (Suc b)
  have "walk_list (\<lambda>n. fd_walk b F R L s (path_join p n) (d + 1)) ns =
      walk_list (\<lambda>m. gwalk b (fd_shown F R L s) (fd_kids F s) m (Suc d)) (map (path_join p) ns)" for ns
    by (simp add: walk_list_map Suc)
  then show ?case
    by (cases "fd_max s"; cases "fs_read_dir F p")
      (auto simp: fd_walk.simps(2) fd_kids_def [of F s p d] fd_shown_def [of F R L s p d] Let_def not_less not_le)
qed (simp add: fd_walk.simps)

section \<open>Properties\<close>

text \<open>A search that ends without an error prints exactly the entries that lie below a search
  path through directories that are not hidden (unless asked for), no deeper than the limit, and pass
  the three filters; the search paths themselves are never printed.\<close>

theorem run_fd_prints_matches:
  assumes "run_fd b F R L s = (ls, WDone)"
  shows "l \<in> set ls \<longleftrightarrow> (\<exists>p\<in>set (fd_paths s). \<exists>q k. below (fd_kids F s) p 0 q k \<and> l \<in> set (fd_shown F R L s q k))"
proof -
  let ?f = "\<lambda>p. fd_walk b F R L s p 0"
  from walk_list_done [of ?f "fd_paths s" ls] assms have
    "\<forall>p\<in>set (fd_paths s). snd (?f p) = WDone" "ls = concat (map (\<lambda>p. fst (?f p)) (fd_paths s))"
    by (simp_all add: run_fd_def)
  moreover have "l \<in> set (fst (?f p)) \<longleftrightarrow> (\<exists>q k. below (fd_kids F s) p 0 q k \<and> l \<in> set (fd_shown F R L s q k))"
    if "snd (?f p) = WDone" for p
    using gwalk_shows [of b "fd_shown F R L s" "fd_kids F s" p 0 "fst (?f p)" l] that
    by (metis fd_walk_gwalk prod.collapse)
  ultimately show ?thesis by auto
qed

lemma run_fd_depth_ends: "fd_max s = Some m \<Longrightarrow> snd (run_fd (m + 1) F R L s) \<noteq> WBound"
  unfolding run_fd_def fd_walk_gwalk
  by (intro walk_list_not_bound gwalk_bounded [of m]) (simp_all add: fd_kids_def)

definition demo_fd_fs :: fs where
  "demo_fd_fs = \<lparr>fs_is_dir = (\<lambda>p. p = ''d''), fs_is_file = (\<lambda>p. p \<noteq> ''d''), fs_is_symlink = (\<lambda>_. False), fs_len = (\<lambda>_. None),
     fs_read_dir = (\<lambda>p. Inr [Inr ''a.rs'', Inr ''.git''])\<rparr>"

definition demo_fd :: "(bytes list \<times> walk_end)" where
  "demo_fd = run_fd 2 demo_fd_fs \<lparr>rx_error = (\<lambda>_. None), rx_match = (\<lambda>_ _. True)\<rparr>
     \<lparr>fl_canonical = (\<lambda>_. None), fl_lowercase = (\<lambda>s. s)\<rparr> (fd_defaults\<lparr>fd_paths := [''d'']\<rparr>)"

lemma demo_fd_result: "demo_fd = ([''d/a.rs''], WDone)"
  by (simp add: demo_fd_def demo_fd_fs_def run_fd_def fd_walk.simps numeral_eq_Suc fd_defaults_def sorted_names_def
      List.map_filter_def fd_visible_def matches_entry_def fd_display_def path_join_def from_utf8_lossy_valid
      utf8_valid_ascii byte_def Let_def)

lemma run_fd_prints_matches_witness:
  "(''d/a.rs'' \<in> set [''d/a.rs'']) = (\<exists>p\<in>set [''d'']. \<exists>q k. below (fd_kids demo_fd_fs (fd_defaults\<lparr>fd_paths := [''d'']\<rparr>)) p 0 q k
     \<and> ''d/a.rs'' \<in> set (fd_shown demo_fd_fs \<lparr>rx_error = (\<lambda>_. None), rx_match = (\<lambda>_ _. True)\<rparr>
          \<lparr>fl_canonical = (\<lambda>_. None), fl_lowercase = (\<lambda>s. s)\<rparr> (fd_defaults\<lparr>fd_paths := [''d'']\<rparr>) q k))"
  using run_fd_prints_matches [OF demo_fd_result [unfolded demo_fd_def], of "''d/a.rs''"] by (simp add: fd_defaults_def)

end
