(* ===== verification/Grep_Cmd.thy ===== *)
theory Grep_Cmd
  imports Process
begin

text \<open>
  The \<open>grep\<close>, \<open>egrep\<close> and \<open>fgrep\<close> commands (\<open>libs/grep/src/lib.rs\<close>): the arguments, the building of
  the pattern, the search of a reader and the exit status.  The \<open>regex\<close> crate and the reading of
  files are parameters.
\<close>

section \<open>Options\<close>

datatype grep_mode = Basic | Extended | Fixed

record grep_options =
  go_mode :: grep_mode
  go_ignore_case :: bool
  go_invert :: bool
  go_count :: bool
  go_with :: bool
  go_without :: bool
  go_numbers :: bool
  go_word :: bool
  go_line :: bool
  go_max :: "nat option"
  go_quiet :: bool
  go_patterns :: "bytes list"
  go_files :: "bytes list"

definition new_options :: "grep_mode \<Rightarrow> grep_options" where
  "new_options m =
     \<lparr>go_mode = m, go_ignore_case = False, go_invert = False, go_count = False, go_with = False,
      go_without = False, go_numbers = False, go_word = False, go_line = False, go_max = None,
      go_quiet = False, go_patterns = [], go_files = []\<rparr>"

text \<open>Compiling a pattern, case-insensitively or not, fails or gives a matcher; escaping a text; and
  the contents of a file, or the text of the error.\<close>

record grep_lib =
  gl_build :: "bytes \<Rightarrow> bool \<Rightarrow> bytes + (bytes \<Rightarrow> bool)"
  gl_escape :: "bytes \<Rightarrow> bytes"
  gl_open :: "bytes \<Rightarrow> bytes + bytes"

definition mode_of :: "bytes list \<Rightarrow> grep_mode" where
  "mode_of argv =
     (case argv of
        [] \<Rightarrow> Basic
      | a # _ \<Rightarrow>
          (case file_name a of
             Some n \<Rightarrow> if n = ''egrep'' then Extended else if n = ''fgrep'' then Fixed else Basic
           | None \<Rightarrow> Basic))"

section \<open>Arguments\<close>

definition invalid_count :: "bytes \<Rightarrow> bytes" where
  "invalid_count a = ''invalid max count '' @ quoted a"

text \<open>The flags that only set a field.\<close>

definition plain_flag :: "bytes \<Rightarrow> grep_options \<Rightarrow> grep_options option" where
  "plain_flag c s =
     (if c = ''E'' then Some (s\<lparr>go_mode := Extended\<rparr>)
      else if c = ''F'' then Some (s\<lparr>go_mode := Fixed\<rparr>)
      else if c = ''G'' then Some (s\<lparr>go_mode := Basic\<rparr>)
      else if c = ''i'' \<or> c = ''y'' then Some (s\<lparr>go_ignore_case := True\<rparr>)
      else if c = ''v'' then Some (s\<lparr>go_invert := True\<rparr>)
      else if c = ''c'' then Some (s\<lparr>go_count := True\<rparr>)
      else if c = ''l'' then Some (s\<lparr>go_with := True\<rparr>)
      else if c = ''L'' then Some (s\<lparr>go_without := True\<rparr>)
      else if c = ''n'' then Some (s\<lparr>go_numbers := True\<rparr>)
      else if c = ''w'' then Some (s\<lparr>go_word := True\<rparr>)
      else if c = ''x'' then Some (s\<lparr>go_line := True\<rparr>)
      else if c = ''q'' \<or> c = ''s'' then Some (s\<lparr>go_quiet := True\<rparr>)
      else if c = ''h'' \<or> c = ''H'' then Some s
      else None)"

definition add_pattern :: "bytes \<Rightarrow> grep_options \<Rightarrow> grep_options" where
  "add_pattern p s = s\<lparr>go_patterns := go_patterns s @ [p]\<rparr>"

text \<open>The state of the argument loop: the options, whether a pattern was given, the arguments left.\<close>

type_synonym arg_state = "grep_options \<times> bool \<times> bytes list"

definition missing_argument :: "bytes \<Rightarrow> arg_state result" where
  "missing_argument c = Err (''option requires an argument -- '' @ quoted c)"

definition flag_with_arg :: "grep_lib \<Rightarrow> bytes \<Rightarrow> bytes list \<Rightarrow> grep_options \<Rightarrow> bool \<Rightarrow> bytes list \<Rightarrow> arg_state result" where
  "flag_with_arg G c chars s from_args rest =
     (if c = ''e'' then
        (if concat chars \<noteq> [] then Ok (add_pattern (concat chars) s, True, rest)
         else (case rest of
                 [] \<Rightarrow> missing_argument c
               | a # rest' \<Rightarrow> Ok (add_pattern a s, True, rest')))
      else if c = ''f'' then
        (case rest of
           [] \<Rightarrow> missing_argument c
         | a # rest' \<Rightarrow>
             (case gl_open G a of
                Inl e \<Rightarrow> Err (a @ '': '' @ e)
              | Inr content \<Rightarrow>
                  if utf8_valid content then
                    Ok (s\<lparr>go_patterns := go_patterns s @ filter (\<lambda>l. l \<noteq> []) (str_lines content)\<rparr>, True, rest')
                  else Err (a @ '': stream did not contain valid UTF-8'')))
      else if c = ''m'' then
        (case rest of
           [] \<Rightarrow> missing_argument c
         | a # rest' \<Rightarrow>
             (case parse_usize32 a of
                Some n \<Rightarrow> Ok (s\<lparr>go_max := Some n\<rparr>, from_args, rest')
              | None \<Rightarrow> Err (invalid_count a)))
      else Err (''invalid option -- '' @ quoted c))"

fun flag_loop :: "grep_lib \<Rightarrow> bytes list \<Rightarrow> grep_options \<Rightarrow> bool \<Rightarrow> bytes list \<Rightarrow> arg_state result" where
  "flag_loop G [] s from_args rest = Ok (s, from_args, rest)"
| "flag_loop G (c # chars) s from_args rest =
     (case plain_flag c s of
        Some s' \<Rightarrow> flag_loop G chars s' from_args rest
      | None \<Rightarrow> flag_with_arg G c chars s from_args rest)"

definition long_option :: "bytes \<Rightarrow> grep_options \<Rightarrow> bool \<Rightarrow> bytes list \<Rightarrow> arg_state result" where
  "long_option a s from_args rest =
     (if a = ''--extended-regexp'' then Ok (s\<lparr>go_mode := Extended\<rparr>, from_args, rest)
      else if a = ''--fixed-strings'' then Ok (s\<lparr>go_mode := Fixed\<rparr>, from_args, rest)
      else if a = ''--basic-regexp'' then Ok (s\<lparr>go_mode := Basic\<rparr>, from_args, rest)
      else if a = ''--ignore-case'' then Ok (s\<lparr>go_ignore_case := True\<rparr>, from_args, rest)
      else if a = ''--invert-match'' then Ok (s\<lparr>go_invert := True\<rparr>, from_args, rest)
      else if a = ''--count'' then Ok (s\<lparr>go_count := True\<rparr>, from_args, rest)
      else if a = ''--files-with-matches'' then Ok (s\<lparr>go_with := True\<rparr>, from_args, rest)
      else if a = ''--files-without-match'' then Ok (s\<lparr>go_without := True\<rparr>, from_args, rest)
      else if a = ''--line-number'' then Ok (s\<lparr>go_numbers := True\<rparr>, from_args, rest)
      else if a = ''--word-regexp'' then Ok (s\<lparr>go_word := True\<rparr>, from_args, rest)
      else if a = ''--line-regexp'' then Ok (s\<lparr>go_line := True\<rparr>, from_args, rest)
      else if a = ''--quiet'' \<or> a = ''--silent'' then Ok (s\<lparr>go_quiet := True\<rparr>, from_args, rest)
      else (case strip_prefix ''--regexp='' a of
              Some p \<Rightarrow> Ok (add_pattern p s, True, rest)
            | None \<Rightarrow>
                (case strip_prefix ''--max-count='' a of
                   Some n \<Rightarrow>
                     (case parse_usize32 n of
                        Some k \<Rightarrow> Ok (s\<lparr>go_max := Some k\<rparr>, from_args, rest)
                      | None \<Rightarrow> Err (invalid_count n))
                 | None \<Rightarrow> Err (''unrecognized option '' @ quoted a))))"

text \<open>A positional argument is the pattern when none was given, else a file.\<close>

definition positional :: "bytes \<Rightarrow> grep_options \<Rightarrow> bool \<Rightarrow> grep_options \<times> bool" where
  "positional a s from_args =
     (if \<not> from_args \<and> go_patterns s = [] then (add_pattern a s, True)
      else (s\<lparr>go_files := go_files s @ [a]\<rparr>, from_args))"

fun positionals :: "bytes list \<Rightarrow> grep_options \<Rightarrow> bool \<Rightarrow> grep_options" where
  "positionals [] s from_args = s"
| "positionals (a # as) s from_args =
     (let (s', from') = positional a s from_args in positionals as s' from')"

definition parse_arg :: "grep_lib \<Rightarrow> bytes \<Rightarrow> grep_options \<Rightarrow> bool \<Rightarrow> bytes list \<Rightarrow> arg_state result" where
  "parse_arg G a s from_args rest =
     (if prefix ''-'' a \<and> 1 < length a \<and> \<not> prefix ''--'' a then flag_loop G (utf8_chars (tl a)) s from_args rest
      else if prefix ''--'' a then long_option a s from_args rest
      else (let (s', from') = positional a s from_args in Ok (s', from', rest)))"

lemma flag_with_arg_length: "flag_with_arg G c chars s fr rest = Ok (s', fr', rest') \<Longrightarrow> length rest' \<le> length rest"
  by (auto simp: flag_with_arg_def missing_argument_def split: if_splits list.splits sum.splits option.splits)

lemma flag_loop_length: "flag_loop G chars s fr rest = Ok (s', fr', rest') \<Longrightarrow> length rest' \<le> length rest"
  by (induction chars arbitrary: s) (auto split: option.splits dest: flag_with_arg_length)

lemma long_option_length: "long_option a s fr rest = Ok (s', fr', rest') \<Longrightarrow> rest' = rest"
  unfolding long_option_def by (simp split: if_splits option.splits)

lemma parse_arg_length: "parse_arg G a s fr rest = Ok (s', fr', rest') \<Longrightarrow> length rest' \<le> length rest"
  by (auto simp: parse_arg_def split: if_splits prod.splits dest: flag_loop_length long_option_length)

function parse_args_loop :: "grep_lib \<Rightarrow> bytes list \<Rightarrow> grep_options \<Rightarrow> bool \<Rightarrow> grep_options result" where
  "parse_args_loop G [] s from_args = Ok s"
| "parse_args_loop G (a # rest) s from_args =
     (if a = ''--'' then Ok (positionals rest s from_args)
      else (case parse_arg G a s from_args rest of
              Ok st \<Rightarrow> parse_args_loop G (snd (snd st)) (fst st) (fst (snd st))
            | Err m \<Rightarrow> Err m
            | Panicked \<Rightarrow> Panicked))"
  by pat_completeness auto
termination
proof (relation "measure (\<lambda>(G, args, s, fr). length args)")
  fix G a rest s from_args st assume "parse_arg G a s from_args rest = Ok (st :: arg_state)"
  then have "length (snd (snd st)) \<le> length rest" using parse_arg_length by (metis prod.collapse)
  then show "((G, snd (snd st), fst st, fst (snd st)), (G, a # rest, s, from_args))
      \<in> measure (\<lambda>(G, args, s, fr). length args)" by simp
qed simp

definition parse_args :: "grep_lib \<Rightarrow> bytes list \<Rightarrow> grep_mode \<Rightarrow> grep_options result" where
  "parse_args G args m = parse_args_loop G args (new_options m) False"

section \<open>Patterns\<close>

text \<open>On the characters of the pattern: a backslash before one of the special characters is dropped,
  a bare parenthesis or brace gets one.\<close>

fun bre_chars :: "bytes list \<Rightarrow> bytes" where
  "bre_chars [] = []"
| "bre_chars [c] = (if c \<in> {''('', '')'', ''{'', ''}''} then [CHR 0x5C] @ c else c)"
| "bre_chars (c # d # cs) =
     (if c = [CHR 0x5C] then
        (if d \<in> {''('', '')'', ''{'', ''}'', ''+'', ''?'', ''|''} then d @ bre_chars cs
         else [CHR 0x5C] @ d @ bre_chars cs)
      else if c \<in> {''('', '')'', ''{'', ''}''} then [CHR 0x5C] @ c @ bre_chars (d # cs)
      else c @ bre_chars (d # cs))"

definition convert_bre_to_ere :: "bytes \<Rightarrow> bytes" where
  "convert_bre_to_ere p = bre_chars (utf8_chars p)"

definition build_single_pattern :: "grep_lib \<Rightarrow> grep_options \<Rightarrow> bytes \<Rightarrow> bytes" where
  "build_single_pattern G s p =
     (let base = (case go_mode s of Fixed \<Rightarrow> gl_escape G p | Basic \<Rightarrow> convert_bre_to_ere p | Extended \<Rightarrow> p) in
      if go_word s then [CHR 0x5C] @ ''b(?:'' @ base @ '')'' @ [CHR 0x5C] @ ''b''
      else if go_line s then ''^(?:'' @ base @ '')$''
      else base)"

definition build_regex :: "grep_lib \<Rightarrow> grep_options \<Rightarrow> (bytes \<Rightarrow> bool) result" where
  "build_regex G s =
     (let pattern = (case go_patterns s of
                       [p] \<Rightarrow> build_single_pattern G s p
                     | ps \<Rightarrow> join ''|'' (map (\<lambda>p. ''(?:'' @ build_single_pattern G s p @ '')'') ps))
      in case gl_build G pattern (go_ignore_case s) of
           Inl e \<Rightarrow> Err (''invalid pattern: '' @ e)
         | Inr m \<Rightarrow> Ok m)"

section \<open>Searching a reader\<close>

definition stdin_label :: bytes where "stdin_label = ''(standard input)''"

definition name_or_stdin :: "bytes option \<Rightarrow> bytes" where
  "name_or_stdin f = (case f of Some n \<Rightarrow> n | None \<Rightarrow> stdin_label)"

definition line_prefix :: "grep_options \<Rightarrow> bool \<Rightarrow> bytes option \<Rightarrow> nat \<Rightarrow> bytes" where
  "line_prefix s show_name f n =
     (case (show_name, f, go_numbers s) of
        (True, Some name, True) \<Rightarrow> name @ '':'' @ show_nat n @ '':''
      | (True, Some name, False) \<Rightarrow> name @ '':''
      | (_, _, True) \<Rightarrow> show_nat n @ '':''
      | _ \<Rightarrow> [])"

text \<open>The loop over the lines: what it printed, whether it returned from the middle, the count.\<close>

fun search_loop ::
  "grep_options \<Rightarrow> (bytes \<Rightarrow> bool) \<Rightarrow> bytes option \<Rightarrow> bool \<Rightarrow> bytes option list \<Rightarrow> nat \<Rightarrow> nat
     \<Rightarrow> bytes list \<times> bool \<times> nat" where
  "search_loop s m f show_name [] count num = ([], False, count)"
| "search_loop s m f show_name (None # ls) count num = ([], False, count)"
| "search_loop s m f show_name (Some l # ls) count num =
     (let num' = num + 1; hit = (if go_invert s then \<not> m l else m l) in
      if \<not> hit then search_loop s m f show_name ls count num'
      else (let count' = count + 1 in
        if go_quiet s then ([], True, count')
        else if go_with s then ([name_or_stdin f], True, count')
        else (let here = (if \<not> go_count s \<and> \<not> go_without s then [line_prefix s show_name f num' @ l] else []) in
          if (case go_max s of Some k \<Rightarrow> k \<le> count' | None \<Rightarrow> False) then (here, False, count')
          else (let (out, ret, c) = search_loop s m f show_name ls count' num' in (here @ out, ret, c)))))"

definition search_reader ::
  "grep_options \<Rightarrow> (bytes \<Rightarrow> bool) \<Rightarrow> bytes \<Rightarrow> bytes option \<Rightarrow> bool \<Rightarrow> bytes list \<times> bool" where
  "search_reader s m content f show_name =
     (case search_loop s m f show_name (reader_lines content) 0 0 of
        (out, True, count) \<Rightarrow> (out, True)
      | (out, False, count) \<Rightarrow>
          (out
           @ (if go_count s \<and> \<not> go_quiet s then
                [case (show_name, f) of (True, Some n) \<Rightarrow> n @ '':'' @ show_nat count | _ \<Rightarrow> show_nat count]
              else [])
           @ (if go_without s \<and> count = 0 then [name_or_stdin f] else []),
           0 < count))"

section \<open>The command\<close>

text \<open>Each reader of standard input takes the next of \<open>stdins\<close>: what a second one still finds depends
  on the buffering and is part of the input.\<close>

definition search_file ::
  "grep_lib \<Rightarrow> grep_options \<Rightarrow> (bytes \<Rightarrow> bool) \<Rightarrow> bytes list \<Rightarrow> bytes \<Rightarrow> (out_line list \<times> bool) \<times> bytes list" where
  "search_file G s m stdins file =
     (let multiple = (1 < length (go_files s)) in
      if file = ''-'' then
        (let (out, hit) = search_reader s m (case stdins of [] \<Rightarrow> [] | c # _ \<Rightarrow> c)
                            (if multiple then Some stdin_label else None) multiple
         in ((map StdOut out, hit), tl stdins))
      else (case gl_open G file of
              Inr content \<Rightarrow>
                (let (out, hit) = search_reader s m content (if multiple then Some file else None) multiple
                 in ((map StdOut out, hit), stdins))
            | Inl e \<Rightarrow> (([StdErr (''grep: '' @ file @ '': '' @ e)], False), stdins)))"

fun search_files ::
  "grep_lib \<Rightarrow> grep_options \<Rightarrow> (bytes \<Rightarrow> bool) \<Rightarrow> bytes list \<Rightarrow> bytes list \<Rightarrow> out_line list \<times> bool" where
  "search_files G s m stdins [] = ([], False)"
| "search_files G s m stdins (file # files) =
     (let ((out, hit), stdins') = search_file G s m stdins file;
          (out', hit') = search_files G s m stdins' files
      in (out @ out', hit \<or> hit'))"

definition run_grep :: "grep_lib \<Rightarrow> bytes list \<Rightarrow> bytes list \<Rightarrow> grep_mode \<Rightarrow> run" where
  "run_grep G stdins argv mode =
     (case parse_args G (map from_utf8_lossy (tl argv)) mode of
        Err m \<Rightarrow> Exit 2 [StdErr (''grep: '' @ m)]
      | Panicked \<Rightarrow> Crash
      | Ok s \<Rightarrow>
          if go_patterns s = [] then Exit 2 [StdErr ''grep: no pattern specified'']
          else (case build_regex G s of
                  Err m \<Rightarrow> Exit 2 [StdErr (''grep: '' @ m)]
                | Panicked \<Rightarrow> Crash
                | Ok m \<Rightarrow>
                    (let (out, hit) =
                       (if go_files s = [] then
                          (let (out, hit) = search_reader s m (case stdins of [] \<Rightarrow> [] | c # _ \<Rightarrow> c) None False
                           in (map StdOut out, hit))
                        else search_files G s m stdins (go_files s))
                     in Exit (if hit then 0 else 1) out)))"

definition grep_main :: "grep_lib \<Rightarrow> bytes list \<Rightarrow> bytes list \<Rightarrow> run" where
  "grep_main G stdins argv = run_grep G stdins argv (mode_of argv)"


section \<open>What a search selects\<close>

text \<open>The numbered lines that match, or with \<open>-v\<close> do not, up to the first line that is not text.\<close>

fun selected :: "grep_options \<Rightarrow> (bytes \<Rightarrow> bool) \<Rightarrow> nat \<Rightarrow> bytes option list \<Rightarrow> (nat \<times> bytes) list" where
  "selected s m num [] = []"
| "selected s m num (None # ls) = []"
| "selected s m num (Some l # ls) =
     (if m l \<noteq> go_invert s then (Suc num, l) # selected s m (Suc num) ls else selected s m (Suc num) ls)"

text \<open>A maximal count stops the search at the match that reaches it; it is looked at after the line is
  printed, so a count of 0 acts as 1.\<close>

definition capped :: "grep_options \<Rightarrow> nat \<Rightarrow> 'a list \<Rightarrow> 'a list" where
  "capped s count xs = (case go_max s of None \<Rightarrow> xs | Some k \<Rightarrow> take (max 1 (k - count)) xs)"

lemma search_loop_quiet:
  "go_quiet s \<or> go_with s \<Longrightarrow> search_loop s m f show_name ls count num =
     (if selected s m num ls = [] then ([], False, count)
      else (if go_quiet s then [] else [name_or_stdin f], True, Suc count))"
  by (induction s m f show_name ls count num rule: search_loop.induct) (auto simp: Let_def)

lemma search_loop_print:
  "\<not> go_quiet s \<Longrightarrow> \<not> go_with s \<Longrightarrow> search_loop s m f show_name ls count num =
     (let sel = capped s count (selected s m num ls) in
      (if go_count s \<or> go_without s then [] else map (\<lambda>(n, l). line_prefix s show_name f n @ l) sel,
       False, count + length sel))"
proof (induction s m f show_name ls count num rule: search_loop.induct)
  case (3 s m f show_name l ls count num)
  show ?case
  proof (cases "m l \<noteq> go_invert s")
    case False
    then show ?thesis using 3 by (auto simp: Let_def)
  next
    case hit: True
    show ?thesis
    proof (cases "case go_max s of Some k \<Rightarrow> k \<le> Suc count | None \<Rightarrow> False")
      case True
      then obtain k where "go_max s = Some k" "k \<le> Suc count" by (auto split: option.splits)
      then have "max 1 (k - count) = 1" by simp
      with hit True 3(3,4) \<open>go_max s = Some k\<close> show ?thesis by (auto simp: Let_def capped_def)
    next
      case False
      have cap: "capped s count (x # xs) = x # capped s (Suc count) xs" for x :: "nat \<times> bytes" and xs
      proof (cases "go_max s")
        case (Some k)
        with False have "max 1 (k - count) = Suc (max 1 (k - Suc count))" by simp
        with Some show ?thesis by (simp add: capped_def)
      qed (simp add: capped_def)
      from hit False 3(3,4) have "search_loop s m f show_name ls (Suc count) (Suc num) =
          (let sel = capped s (Suc count) (selected s m (Suc num) ls) in
           (if go_count s \<or> go_without s then [] else map (\<lambda>(n, l). line_prefix s show_name f n @ l) sel,
            False, Suc count + length sel))"
        by (intro "3.IH"(2)) (auto split: option.splits)
      with hit False 3(3,4) show ?thesis by (auto simp: Let_def cap)
    qed
  qed
qed (simp_all add: Let_def capped_def split: option.splits)

lemma capped_empty [simp]: "capped s count [] = []"
  by (simp add: capped_def split: option.splits)

lemma capped_Nil [simp]: "capped s count xs = [] \<longleftrightarrow> xs = []"
  by (auto simp: capped_def split: option.splits)

section \<open>Properties\<close>

text \<open>Claim C19: What a search prints and answers, for every combination of the output options: the
  selected lines in order with their names and numbers, cut after the maximal count; or only their
  number; or only the name of a reader with, or without, a selected line; or nothing.  It answers
  whether a line was selected.\<close>

theorem search_reader_selects:
  "search_reader s m content f show_name =
     (let sel = selected s m 0 (reader_lines content); sel' = capped s 0 sel in
      if go_quiet s \<and> sel \<noteq> [] then ([], True)
      else if go_with s \<and> sel \<noteq> [] then ([name_or_stdin f], True)
      else ((if go_count s \<or> go_without s then [] else map (\<lambda>(n, l). line_prefix s show_name f n @ l) sel')
            @ (if go_count s \<and> \<not> go_quiet s
               then [case (show_name, f) of (True, Some n) \<Rightarrow> n @ '':'' @ show_nat (length sel') | _ \<Rightarrow> show_nat (length sel')]
               else [])
            @ (if go_without s \<and> sel = [] then [name_or_stdin f] else []),
            sel \<noteq> []))"
proof (cases "go_quiet s \<or> go_with s")
  case True
  show ?thesis
  proof (cases "selected s m 0 (reader_lines content) = []")
    case sel: True
    with True show ?thesis
      by (cases show_name; cases f) (simp_all add: search_reader_def search_loop_quiet [OF True] Let_def)
  next
    case False
    with True show ?thesis
      by (cases "go_quiet s") (simp_all add: search_reader_def search_loop_quiet [OF True] Let_def)
  qed
next
  case False
  then show ?thesis by (simp add: search_reader_def search_loop_print Let_def)
qed

text \<open>With one file argument \<open>grep -l\<close> prints the label of standard input instead of the
  file's name, because the name is passed to the search only when there are several files.\<close>

theorem list_files_single_name:
  assumes "gl_open G file = Inr content" and "file \<noteq> ''-''" and "go_with s" and "\<not> go_quiet s"
    and "go_files s = [file]" and "selected s m 0 (reader_lines content) \<noteq> []"
  shows "search_files G s m stdins (go_files s) = ([StdOut stdin_label], True)"
  using assms by (simp add: search_file_def search_reader_def search_loop_quiet Let_def name_or_stdin_def)

lemma list_files_single_name_witness:
  "search_files \<lparr>gl_build = (\<lambda>p i. Inr (\<lambda>l. True)), gl_escape = (\<lambda>p. p), gl_open = (\<lambda>f. Inr ''x'')\<rparr>
     ((new_options Basic)\<lparr>go_with := True, go_files := [''notes.txt'']\<rparr>) (\<lambda>l. True) []
     (go_files ((new_options Basic)\<lparr>go_with := True, go_files := [''notes.txt'']\<rparr>)) = ([StdOut stdin_label], True)"
proof (rule list_files_single_name)
  show "selected ((new_options Basic)\<lparr>go_with := True, go_files := [''notes.txt'']\<rparr>) (\<lambda>l. True) 0 (reader_lines ''x'') \<noteq> []"
    by (simp add: reader_lines_def utf8_valid_ascii byte_def new_options_def)
qed (simp_all add: new_options_def)

text \<open>In a basic pattern an unescaped \<open>+\<close>, \<open>?\<close> or \<open>|\<close> is translated to the same operator as the
  escaped one, so it is not the literal character that a basic regular expression has there.\<close>

theorem bre_operators_not_literal:
  assumes "op \<in> {''+'', ''?'', ''|''}" and "[CHR 0x5C] \<notin> set cs"
  shows "bre_chars (cs @ op # ds) = bre_chars (cs @ [CHR 0x5C] # op # ds)"
  using assms(2)
proof (induction cs)
  case Nil
  with assms(1) show ?case by (cases ds) auto
next
  case (Cons c cs)
  have step: "bre_chars (c # xs) = (if c \<in> {''('', '')'', ''{'', ''}''} then [CHR 0x5C] @ c else c) @ bre_chars xs"
    if "xs \<noteq> []" for xs
    using Cons.prems that by (cases xs) auto
  from Cons show ?case using step [of "cs @ op # ds"] step [of "cs @ [CHR 0x5C] # op # ds"] by simp
qed

lemma bre_operators_not_literal_witness:
  "bre_chars ([''a''] @ ''+'' # []) = bre_chars ([''a''] @ [CHR 0x5C] # ''+'' # [])"
  by (rule bre_operators_not_literal) simp_all

end
