(* ===== verification/Rg_Glob.thy ===== *)
theory Rg_Glob
  imports Process
begin

text \<open>
  The file-name patterns of \<open>rg\<close> (\<open>libs/grep/src/rg_cmd.rs\<close>, \<open>glob_matches\<close>): the loop that goes back
  to the last star, and its equivalence with the recursive meaning of a pattern.  A character is its
  bytes.
\<close>

section \<open>The loop\<close>

definition skip_stars :: "bytes list \<Rightarrow> nat \<Rightarrow> bool" where
  "skip_stars pattern p \<longleftrightarrow> dropWhile (\<lambda>c. c = ''*'') (drop p pattern) = []"

text \<open>The positions in the pattern and in the text, and those of the last star.\<close>

partial_function (option) glob_loop :: "bytes list \<Rightarrow> bytes list \<Rightarrow> nat \<Rightarrow> nat \<Rightarrow> (nat \<times> nat) option \<Rightarrow> bool option" where
  "glob_loop pattern text p t star =
     (if t < length text then
        (if p < length pattern \<and> (pattern ! p = ''?'' \<or> pattern ! p = text ! t)
         then glob_loop pattern text (p + 1) (t + 1) star
         else if p < length pattern \<and> pattern ! p = ''*''
         then glob_loop pattern text (p + 1) t (Some (p, t))
         else (case star of
                 Some (sp, st) \<Rightarrow> glob_loop pattern text (sp + 1) (st + 1) (Some (sp, st + 1))
               | None \<Rightarrow> Some False))
      else Some (skip_stars pattern p))"

definition glob_match_chars :: "bytes list \<Rightarrow> bytes list \<Rightarrow> bool option" where
  "glob_match_chars pattern text = glob_loop pattern text 0 0 None"

definition glob_matches :: "bytes \<Rightarrow> bytes \<Rightarrow> bool option" where
  "glob_matches pattern filename =
     (case strip_prefix ''*.'' pattern of
        Some ext \<Rightarrow> Some (suffix (''.'' @ ext) filename)
      | None \<Rightarrow> glob_match_chars (utf8_chars pattern) (utf8_chars filename))"

section \<open>The meaning of a pattern\<close>

fun glob :: "bytes list \<Rightarrow> bytes list \<Rightarrow> bool" where
  "glob [] ts \<longleftrightarrow> ts = []"
| "glob (p # ps) [] \<longleftrightarrow> p = ''*'' \<and> glob ps []"
| "glob (p # ps) (t # ts) \<longleftrightarrow>
     (if p = ''*'' then glob ps (t # ts) \<or> glob (p # ps) ts else (p = ''?'' \<or> p = t) \<and> glob ps ts)"

lemma glob_star: "glob (''*'' # ps) ts \<longleftrightarrow> (\<exists>k\<le>length ts. glob ps (drop k ts))"
proof (induction ts)
  case (Cons t ts)
  have "(\<exists>k\<le>length (t # ts). glob ps (drop k (t # ts))) \<longleftrightarrow> glob ps (t # ts) \<or> (\<exists>k\<le>length ts. glob ps (drop k ts))"
    (is "?l \<longleftrightarrow> ?r")
  proof
    assume ?l
    then obtain k where "k \<le> length (t # ts)" "glob ps (drop k (t # ts))" by blast
    then show ?r by (cases k) auto
  next
    assume ?r
    then show ?l
    proof
      assume "\<exists>k\<le>length ts. glob ps (drop k ts)"
      then obtain k where "k \<le> length ts" "glob ps (drop k ts)" by blast
      then show ?l by (intro exI [of _ "Suc k"]) simp
    qed (intro exI [of _ 0], simp)
  qed
  with Cons show ?case by simp
qed simp

lemma glob_star_later: "glob (''*'' # ps) (drop k ts) \<Longrightarrow> j \<le> k \<Longrightarrow> glob (''*'' # ps) (drop j ts)"
proof -
  assume "glob (''*'' # ps) (drop k ts)" "j \<le> k"
  then obtain i where i: "i \<le> length (drop k ts)" "glob ps (drop (k + i) ts)"
    by (auto simp: glob_star add.commute)
  show ?thesis
  proof (cases "k \<le> length ts")
    case True
    with i \<open>j \<le> k\<close> show ?thesis unfolding glob_star by (intro exI [of _ "k + i - j"]) auto
  next
    case False
    with i have "glob ps []" by simp
    then show ?thesis unfolding glob_star by (intro exI [of _ "length (drop j ts)"]) simp
  qed
qed

text \<open>A segment without stars consumes as many characters as it is long.\<close>

lemma glob_segment:
  "''*'' \<notin> set q \<Longrightarrow> glob (q @ ps) ts \<Longrightarrow> length q \<le> length ts \<and> glob ps (drop (length q) ts)"
proof (induction q arbitrary: ts)
  case (Cons c q)
  then show ?case by (cases ts) auto
qed simp

lemma glob_Nil_stars: "glob ps [] \<longleftrightarrow> dropWhile (\<lambda>c. c = ''*'') ps = []"
  by (induction ps) auto

section \<open>The loop finds it\<close>

text \<open>The part of the pattern after the last star has matched the text from the star's position on.\<close>

definition glob_inv :: "bytes list \<Rightarrow> bytes list \<Rightarrow> nat \<Rightarrow> nat \<Rightarrow> (nat \<times> nat) option \<Rightarrow> bool" where
  "glob_inv P T p t star \<longleftrightarrow> p \<le> length P \<and> t \<le> length T \<and>
     (case star of None \<Rightarrow> True
      | Some (sp, st) \<Rightarrow> sp < p \<and> st \<le> t \<and> p - (sp + 1) = t - st \<and> ''*'' \<notin> set (take (t - st) (drop (sp + 1) P)))"

definition glob_goal :: "bytes list \<Rightarrow> bytes list \<Rightarrow> nat \<Rightarrow> nat \<Rightarrow> (nat \<times> nat) option \<Rightarrow> bool" where
  "glob_goal P T p t star \<longleftrightarrow> glob (drop p P) (drop t T) \<or>
     (case star of None \<Rightarrow> False | Some (sp, st) \<Rightarrow> \<exists>k. st < k \<and> k \<le> length T \<and> glob (drop (sp + 1) P) (drop k T))"

lemma glob_inv_segment:
  assumes "glob_inv P T p t (Some (sp, st))"
  shows "drop (sp + 1) P = take (t - st) (drop (sp + 1) P) @ drop p P" "length (take (t - st) (drop (sp + 1) P)) = t - st"
proof -
  have b: "t - st + (sp + 1) = p" "p \<le> length P" using assms by (auto simp: glob_inv_def)
  from b(1) have "drop (t - st) (drop (sp + 1) P) = drop p P" by (simp only: drop_drop)
  then show "drop (sp + 1) P = take (t - st) (drop (sp + 1) P) @ drop p P"
    using append_take_drop_id [of "t - st" "drop (sp + 1) P"] by simp
  show "length (take (t - st) (drop (sp + 1) P)) = t - st" using b by simp
qed

lemma retry_match:
  assumes "glob_inv P T p t (Some (sp, st))" and "st < k" and "k \<le> length T" and "glob (drop (sp + 1) P) (drop k T)"
  shows "t - st + k \<le> length T \<and> glob (drop p P) (drop (t - st + k) T)"
proof -
  let ?q = "take (t - st) (drop (sp + 1) P)"
  have "''*'' \<notin> set ?q" using assms(1) by (simp add: glob_inv_def)
  from glob_segment [OF this] assms(4) glob_inv_segment [OF assms(1)]
  have "length ?q \<le> length (drop k T) \<and> glob (drop p P) (drop (length ?q) (drop k T))" by metis
  with glob_inv_segment(2) [OF assms(1)] have "t - st \<le> length T - k" "glob (drop p P) (drop (t - st + k) T)"
    by (simp_all add: drop_drop add.commute)
  with assms(3) show ?thesis by simp
qed

lemma glob_goal_end:
  assumes "glob_inv P T p t star" and "\<not> t < length T"
  shows "glob_goal P T p t star = skip_stars P p"
proof -
  have t: "t = length T" using assms by (simp add: glob_inv_def)
  have "\<not> (st < k \<and> k \<le> length T \<and> glob (drop (sp + 1) P) (drop k T))" if s: "star = Some (sp, st)" for sp st k
    using retry_match [of P T p t sp st k] assms(1) t s by (auto simp: glob_inv_def)
  then show ?thesis by (auto simp: glob_goal_def skip_stars_def glob_Nil_stars t split: option.split)
qed

lemma glob_goal_char:
  assumes "glob_inv P T p t star" and "t < length T" and "p < length P" and "P ! p = ''?'' \<or> P ! p = T ! t" and "''*'' \<notin> set T"
  shows "glob_goal P T p t star = glob_goal P T (p + 1) (t + 1) star" "glob_inv P T (p + 1) (t + 1) star"
proof -
  have d: "drop p P = P ! p # drop (p + 1) P" "drop t T = T ! t # drop (t + 1) T"
    using assms(2,3) by (simp_all add: Cons_nth_drop_Suc)
  have ns: "P ! p \<noteq> ''*''" using assms(2,4,5) by (auto simp: in_set_conv_nth)
  show "glob_goal P T p t star = glob_goal P T (p + 1) (t + 1) star"
    using assms(4) ns unfolding glob_goal_def d by auto
  show "glob_inv P T (p + 1) (t + 1) star"
  proof (cases star)
    case (Some s)
    obtain sp st where s: "star = Some (sp, st)" using Some by (cases s) auto
    have i: "sp + 1 + (t - st) = p" using assms(1) s by (auto simp: glob_inv_def)
    then have "drop (sp + 1) P ! (t - st) = P ! p" by (metis add_leD1 assms(3) less_imp_le_nat nth_drop)
    with i assms(3) have "take (Suc (t - st)) (drop (sp + 1) P) = take (t - st) (drop (sp + 1) P) @ [P ! p]"
      by (simp add: take_Suc_conv_app_nth)
    with assms(1-3) s ns show ?thesis by (auto simp: glob_inv_def Suc_diff_le)
  qed (use assms in \<open>simp add: glob_inv_def\<close>)
qed

lemma glob_goal_star:
  assumes "glob_inv P T p t star" and "t < length T" and "p < length P" and "P ! p = ''*''"
  shows "glob_goal P T p t star = glob_goal P T (p + 1) t (Some (p, t))" "glob_inv P T (p + 1) t (Some (p, t))"
proof -
  have d: "drop p P = ''*'' # drop (p + 1) P" using assms(3,4) by (metis Cons_nth_drop_Suc Suc_eq_plus1)
  have "glob (drop p P) (drop t T)" if s: "star = Some (sp, st)" "st < k" "k \<le> length T" "glob (drop (sp + 1) P) (drop k T)"
    for sp st k
  proof -
    from retry_match [of P T p t sp st k] assms(1) s have "glob (drop p P) (drop (t - st + k) T)" by simp
    moreover have "t \<le> t - st + k" using s(2) by simp
    ultimately show ?thesis unfolding d by (rule glob_star_later)
  qed
  then have "glob_goal P T p t star = glob (drop p P) (drop t T)"
    by (auto simp: glob_goal_def split: option.split)
  also have "\<dots> = (\<exists>k\<le>length T - t. glob (drop (p + 1) P) (drop (t + k) T))"
    unfolding d glob_star by (simp add: add.commute)
  also have "\<dots> = glob_goal P T (p + 1) t (Some (p, t))"
  proof
    assume "\<exists>k\<le>length T - t. glob (drop (p + 1) P) (drop (t + k) T)"
    then obtain k where k: "k \<le> length T - t" "glob (drop (p + 1) P) (drop (t + k) T)" by blast
    show "glob_goal P T (p + 1) t (Some (p, t))"
    proof (cases k)
      case (Suc j)
      with k assms(2) show ?thesis unfolding glob_goal_def by (auto intro!: exI [of _ "t + k"])
    qed (use k in \<open>simp add: glob_goal_def\<close>)
  next
    assume "glob_goal P T (p + 1) t (Some (p, t))"
    then consider "glob (drop (p + 1) P) (drop t T)" | k where "t < k" "k \<le> length T" "glob (drop (p + 1) P) (drop k T)"
      by (auto simp: glob_goal_def)
    then show "\<exists>k\<le>length T - t. glob (drop (p + 1) P) (drop (t + k) T)"
    proof cases
      case 1
      then show ?thesis by (intro exI [of _ 0]) simp
    next
      case (2 k)
      then show ?thesis by (intro exI [of _ "k - t"]) simp
    qed
  qed
  finally show "glob_goal P T p t star = glob_goal P T (p + 1) t (Some (p, t))" .
  show "glob_inv P T (p + 1) t (Some (p, t))" using assms by (simp add: glob_inv_def)
qed

lemma glob_goal_back:
  assumes "glob_inv P T p t star" and "t < length T"
    and "\<not> (p < length P \<and> (P ! p = ''?'' \<or> P ! p = T ! t))" and "\<not> (p < length P \<and> P ! p = ''*'')"
  shows "star = None \<Longrightarrow> \<not> glob_goal P T p t star"
    "star = Some (sp, st) \<Longrightarrow> glob_goal P T p t star = glob_goal P T (sp + 1) (st + 1) (Some (sp, st + 1))"
    "star = Some (sp, st) \<Longrightarrow> glob_inv P T (sp + 1) (st + 1) (Some (sp, st + 1))"
proof -
  have d: "drop t T = T ! t # drop (t + 1) T" using assms(2) by (simp add: Cons_nth_drop_Suc)
  have n: "\<not> glob (drop p P) (drop t T)"
  proof (cases "p < length P")
    case True
    then have "drop p P = P ! p # drop (p + 1) P" by (simp add: Cons_nth_drop_Suc)
    with True assms(3,4) show ?thesis unfolding d by auto
  qed (simp add: d)
  then show "star = None \<Longrightarrow> \<not> glob_goal P T p t star" by (simp add: glob_goal_def)
  assume s: "star = Some (sp, st)"
  have st: "st + 1 \<le> length T" using assms(1,2) s by (simp add: glob_inv_def)
  have "(\<exists>k>st. k \<le> length T \<and> glob (drop (sp + 1) P) (drop k T)) \<longleftrightarrow>
      glob (drop (sp + 1) P) (drop (st + 1) T) \<or> (\<exists>k>st + 1. k \<le> length T \<and> glob (drop (sp + 1) P) (drop k T))"
    using st by (metis Suc_eq_plus1 Suc_lessI lessI less_SucI Suc_lessD)
  with n s show "glob_goal P T p t star = glob_goal P T (sp + 1) (st + 1) (Some (sp, st + 1))"
    by (simp add: glob_goal_def)
  show "glob_inv P T (sp + 1) (st + 1) (Some (sp, st + 1))" using assms(1) s st by (simp add: glob_inv_def)
qed

text \<open>What falls in every turn: the texts left after the last star, after the position, the pattern left.\<close>

definition glob_measure :: "bytes list \<Rightarrow> bytes list \<Rightarrow> nat \<times> nat \<times> (nat \<times> nat) option \<Rightarrow> nat \<times> nat \<times> nat" where
  "glob_measure P T pts = (case pts of (p, t, star) \<Rightarrow>
     ((case star of None \<Rightarrow> Suc (length T) | Some (sp, st) \<Rightarrow> length T - st), length T - t, length P - p))"

lemma glob_loop_goal:
  assumes "''*'' \<notin> set T"
  shows "glob_inv P T p t star \<Longrightarrow> glob_loop P T p t star = Some (glob_goal P T p t star)"
proof (induction "(p, t, star)" arbitrary: p t star
    rule: wf_induct_rule [OF wf_inv_image [OF wf_lex_prod [OF wf_less_than wf_lex_prod [OF wf_less_than wf_less_than]],
      of "glob_measure P T"]])
  case (1 p t star)
  note IH = 1(1) and inv = 1(2)
  consider (ended) "\<not> t < length T"
    | (one) "t < length T" "p < length P" "P ! p = ''?'' \<or> P ! p = T ! t"
    | (wild) "t < length T" "\<not> (p < length P \<and> (P ! p = ''?'' \<or> P ! p = T ! t))" "p < length P" "P ! p = ''*''"
    | (retry) "t < length T" "\<not> (p < length P \<and> (P ! p = ''?'' \<or> P ! p = T ! t))" "\<not> (p < length P \<and> P ! p = ''*'')"
    by blast
  then show ?case
  proof cases
    case ended
    with glob_goal_end [OF inv] show ?thesis by (simp add: glob_loop.simps [of P T p])
  next
    case one
    note g = glob_goal_char [OF inv one assms]
    have "glob_loop P T (p + 1) (t + 1) star = Some (glob_goal P T (p + 1) (t + 1) star)"
      by (rule IH [OF _ g(2)]) (use one in \<open>auto simp: glob_measure_def split: option.split\<close>)
    with one g(1) show ?thesis by (simp add: glob_loop.simps [of P T p])
  next
    case wild
    note g = glob_goal_star [OF inv wild(1,3,4)]
    have "glob_loop P T (p + 1) t (Some (p, t)) = Some (glob_goal P T (p + 1) t (Some (p, t)))"
      by (rule IH [OF _ g(2)]) (use wild inv in \<open>auto simp: glob_measure_def glob_inv_def split: option.split\<close>)
    with wild g(1) show ?thesis by (simp add: glob_loop.simps [of P T p])
  next
    case retry
    note g = glob_goal_back [OF inv retry]
    show ?thesis
    proof (cases star)
      case None
      with retry g(1) show ?thesis by (subst glob_loop.simps) auto
    next
      case (Some s)
      obtain sp st where s: "star = Some (sp, st)" using Some by (cases s) auto
      have "glob_loop P T (sp + 1) (st + 1) (Some (sp, st + 1)) = Some (glob_goal P T (sp + 1) (st + 1) (Some (sp, st + 1)))"
        by (rule IH [OF _ g(3) [OF s]]) (use retry inv s in \<open>auto simp: glob_measure_def glob_inv_def\<close>)
      with retry g(2) [OF s] s show ?thesis by (subst glob_loop.simps) auto
    qed
  qed
qed

text \<open>The loop ends on every text, also on one with stars: the last star is not behind the position.\<close>

lemma glob_loop_ends:
  "(case star of None \<Rightarrow> True | Some (sp, st) \<Rightarrow> st \<le> t) \<Longrightarrow> \<exists>b. glob_loop P T p t star = Some b"
proof (induction "(p, t, star)" arbitrary: p t star
    rule: wf_induct_rule [OF wf_inv_image [OF wf_lex_prod [OF wf_less_than wf_lex_prod [OF wf_less_than wf_less_than]],
      of "glob_measure P T"]])
  case (1 p t star)
  note IH = 1(1) and inv = 1(2)
  consider (ended) "\<not> t < length T"
    | (one) "t < length T" "p < length P" "P ! p = ''?'' \<or> P ! p = T ! t"
    | (wild) "t < length T" "\<not> (p < length P \<and> (P ! p = ''?'' \<or> P ! p = T ! t))" "p < length P" "P ! p = ''*''"
    | (retry) "t < length T" "\<not> (p < length P \<and> (P ! p = ''?'' \<or> P ! p = T ! t))" "\<not> (p < length P \<and> P ! p = ''*'')"
    by blast
  then show ?case
  proof cases
    case ended
    then show ?thesis by (simp add: glob_loop.simps [of P T p])
  next
    case one
    have "\<exists>b. glob_loop P T (p + 1) (t + 1) star = Some b"
      by (rule IH) (use one inv in \<open>auto simp: glob_measure_def split: option.splits\<close>)
    with one show ?thesis by (simp add: glob_loop.simps [of P T p])
  next
    case wild
    have "\<exists>b. glob_loop P T (p + 1) t (Some (p, t)) = Some b"
      by (rule IH) (use wild inv in \<open>auto simp: glob_measure_def split: option.splits\<close>)
    with wild show ?thesis by (simp add: glob_loop.simps [of P T p])
  next
    case retry
    show ?thesis
    proof (cases star)
      case None
      with retry show ?thesis by (subst glob_loop.simps) auto
    next
      case (Some s)
      obtain sp st where s: "star = Some (sp, st)" using Some by (cases s) auto
      have "\<exists>b. glob_loop P T (sp + 1) (st + 1) (Some (sp, st + 1)) = Some b"
        by (rule IH) (use retry inv s in \<open>auto simp: glob_measure_def\<close>)
      with retry s show ?thesis by (subst glob_loop.simps) auto
    qed
  qed
qed

section \<open>Properties\<close>

text \<open>Claim C11: The matcher that keeps only the last star is right: it ends on every pattern and text,
  and on a name without a star of its own it answers as the recursive meaning of the pattern, where a
  star stands for any characters and a question mark for one.\<close>

theorem glob_match_chars_meaning:
  "(\<exists>b. glob_match_chars pattern text = Some b)
   \<and> (''*'' \<notin> set text \<longrightarrow> glob_match_chars pattern text = Some (glob pattern text))"
proof (intro conjI impI)
  show "\<exists>b. glob_match_chars pattern text = Some b" unfolding glob_match_chars_def by (rule glob_loop_ends) simp
next
  assume star: "''*'' \<notin> set text"
  have "glob_inv pattern text 0 0 None" by (simp add: glob_inv_def)
  from glob_loop_goal [OF star this] show "glob_match_chars pattern text = Some (glob pattern text)"
    by (simp add: glob_match_chars_def glob_goal_def)
qed

lemma glob_match_chars_meaning_witness:
  "glob_match_chars [''a'', ''*'', ''b'', ''?''] [''a'', ''b'', ''b'', ''c''] = Some True"
  using glob_match_chars_meaning [of "[''a'', ''*'', ''b'', ''?'']" "[''a'', ''b'', ''b'', ''c'']"] by simp

text \<open>A star in the name is compared before the star of the pattern is seen, so the pattern \<open>*a\<close> does not
  match the name \<open>*ba\<close>.\<close>

lemma glob_star_in_name:
  "glob_match_chars [''*'', ''a''] [''*'', ''b'', ''a''] = Some False" "glob [''*'', ''a''] [''*'', ''b'', ''a'']"
  by (simp_all add: glob_match_chars_def glob_loop.simps)

end
