(* ===== verification/Rg_Cmd.thy ===== *)
theory Rg_Cmd
  imports Rg_Glob Dir_Walk "HOL-Library.Product_Lexorder"
begin

text \<open>
  The \<open>rg\<close> command (\<open>libs/grep/src/rg_cmd.rs\<close>): arguments, the choice of the files, the search of a
  stream with its context lines, and the printing.  The \<open>regex\<close> crate, Unicode upper case and the
  contents of files are parameters; \<open>Rg_Glob\<close> has the file-name patterns, \<open>Rg_Props\<close> the properties.
\<close>

section \<open>Options\<close>

record rg_options =
  ro_patterns :: "bytes list"
  ro_paths :: "bytes list"
  ro_ignore_case :: bool
  ro_smart_case :: bool
  ro_invert :: bool
  ro_count :: bool
  ro_with :: bool
  ro_without :: bool
  ro_numbers :: "bool option"
  ro_word :: bool
  ro_line :: bool
  ro_fixed :: bool
  ro_max :: "nat option"
  ro_quiet :: bool
  ro_only :: bool
  ro_after :: nat
  ro_before :: nat
  ro_filename :: "bool option"
  ro_hidden :: bool
  ro_globs :: "bytes list"
  ro_types :: "bytes list"
  ro_types_not :: "bytes list"

definition rg_new :: rg_options where
  "rg_new = \<lparr>ro_patterns = [], ro_paths = [], ro_ignore_case = False, ro_smart_case = True, ro_invert = False,
     ro_count = False, ro_with = False, ro_without = False, ro_numbers = None, ro_word = False,
     ro_line = False, ro_fixed = False, ro_max = None, ro_quiet = False, ro_only = False, ro_after = 0,
     ro_before = 0, ro_filename = None, ro_hidden = False, ro_globs = [], ro_types = [], ro_types_not = []\<rparr>"

definition show_line_numbers :: "rg_options \<Rightarrow> bool" where
  "show_line_numbers s = (case ro_numbers s of Some b \<Rightarrow> b | None \<Rightarrow> True)"

definition resolve_show_filename :: "rg_options \<Rightarrow> bool \<Rightarrow> bool" where
  "resolve_show_filename s multi = (case ro_filename s of Some b \<Rightarrow> b | None \<Rightarrow> multi)"

definition has_context :: "rg_options \<Rightarrow> bool" where
  "has_context s \<longleftrightarrow> 0 < ro_before s \<or> 0 < ro_after s"

text \<open>A compiled expression: does it match, and the matched parts of a line in order.\<close>

record rg_regex =
  rr_match :: "bytes \<Rightarrow> bool"
  rr_find :: "bytes \<Rightarrow> bytes list"

record rg_lib =
  rl_build :: "bytes \<Rightarrow> bool \<Rightarrow> bytes + rg_regex"
  rl_escape :: "bytes \<Rightarrow> bytes"
  rl_upper :: "bytes \<Rightarrow> bool"
  rl_open :: "bytes \<Rightarrow> bytes + bytes"

section \<open>Arguments\<close>

definition ro_add_pattern :: "bytes \<Rightarrow> rg_options \<Rightarrow> rg_options" where
  "ro_add_pattern p s = s\<lparr>ro_patterns := ro_patterns s @ [p]\<rparr>"

definition ro_context :: "nat \<Rightarrow> rg_options \<Rightarrow> rg_options" where
  "ro_context n s = s\<lparr>ro_before := n, ro_after := n\<rparr>"

definition number_arg :: "bytes \<Rightarrow> (nat \<Rightarrow> rg_options) \<Rightarrow> rg_options result" where
  "number_arg a f = (case parse_usize32 a of Some n \<Rightarrow> Ok (f n) | None \<Rightarrow> Err (''invalid number: '' @ quoted a))"

definition pattern_file :: "rg_lib \<Rightarrow> bytes \<Rightarrow> rg_options \<Rightarrow> rg_options result" where
  "pattern_file R a s =
     (case rl_open R a of
        Inl e \<Rightarrow> Err (a @ '': '' @ e)
      | Inr content \<Rightarrow>
          if utf8_valid content
          then Ok (s\<lparr>ro_patterns := ro_patterns s @ filter (\<lambda>l. l \<noteq> []) (str_lines content)\<rparr>)
          else Err (a @ '': stream did not contain valid UTF-8''))"

text \<open>An option with an argument, by its short name; \<open>e\<close> and \<open>f\<close> give the pattern.\<close>

definition argument_option :: "rg_lib \<Rightarrow> bytes \<Rightarrow> bytes \<Rightarrow> rg_options \<Rightarrow> rg_options result" where
  "argument_option R c a s =
     (if c = ''e'' then Ok (ro_add_pattern a s)
      else if c = ''f'' then pattern_file R a s
      else if c = ''m'' then number_arg a (\<lambda>n. s\<lparr>ro_max := Some n\<rparr>)
      else if c = ''A'' then number_arg a (\<lambda>n. s\<lparr>ro_after := n\<rparr>)
      else if c = ''B'' then number_arg a (\<lambda>n. s\<lparr>ro_before := n\<rparr>)
      else if c = ''C'' then number_arg a (\<lambda>n. ro_context n s)
      else if c = ''g'' then Ok (s\<lparr>ro_globs := ro_globs s @ [a]\<rparr>)
      else if c = ''t'' then Ok (s\<lparr>ro_types := ro_types s @ [a]\<rparr>)
      else if c = ''T'' then Ok (s\<lparr>ro_types_not := ro_types_not s @ [a]\<rparr>)
      else Ok s)"

definition gives_pattern :: "bytes \<Rightarrow> bool" where
  "gives_pattern c \<longleftrightarrow> c = ''e'' \<or> c = ''f''"

text \<open>The flags of the short and of the long options.\<close>

definition short_flag :: "bytes \<Rightarrow> rg_options \<Rightarrow> rg_options option" where
  "short_flag c s =
     (if c = ''i'' then Some (s\<lparr>ro_ignore_case := True\<rparr>)
      else if c = ''s'' then Some (s\<lparr>ro_ignore_case := False, ro_smart_case := False\<rparr>)
      else if c = ''S'' then Some (s\<lparr>ro_smart_case := True\<rparr>)
      else if c = ''v'' then Some (s\<lparr>ro_invert := True\<rparr>)
      else if c = ''c'' then Some (s\<lparr>ro_count := True\<rparr>)
      else if c = ''l'' then Some (s\<lparr>ro_with := True\<rparr>)
      else if c = ''n'' then Some (s\<lparr>ro_numbers := Some True\<rparr>)
      else if c = ''N'' then Some (s\<lparr>ro_numbers := Some False\<rparr>)
      else if c = ''w'' then Some (s\<lparr>ro_word := True\<rparr>)
      else if c = ''x'' then Some (s\<lparr>ro_line := True\<rparr>)
      else if c = ''F'' then Some (s\<lparr>ro_fixed := True\<rparr>)
      else if c = ''q'' then Some (s\<lparr>ro_quiet := True\<rparr>)
      else if c = ''o'' then Some (s\<lparr>ro_only := True\<rparr>)
      else if c = ''H'' then Some (s\<lparr>ro_filename := Some True\<rparr>)
      else if c = ''.'' then Some (s\<lparr>ro_hidden := True\<rparr>)
      else None)"

definition long_flag :: "bytes \<Rightarrow> rg_options \<Rightarrow> rg_options option" where
  "long_flag a s =
     (if a = ''--ignore-case'' then Some (s\<lparr>ro_ignore_case := True\<rparr>)
      else if a = ''--case-sensitive'' then Some (s\<lparr>ro_ignore_case := False, ro_smart_case := False\<rparr>)
      else if a = ''--smart-case'' then Some (s\<lparr>ro_smart_case := True\<rparr>)
      else if a = ''--invert-match'' then Some (s\<lparr>ro_invert := True\<rparr>)
      else if a = ''--count'' then Some (s\<lparr>ro_count := True\<rparr>)
      else if a = ''--files-with-matches'' then Some (s\<lparr>ro_with := True\<rparr>)
      else if a = ''--files-without-match'' then Some (s\<lparr>ro_without := True\<rparr>)
      else if a = ''--line-number'' then Some (s\<lparr>ro_numbers := Some True\<rparr>)
      else if a = ''--no-line-number'' then Some (s\<lparr>ro_numbers := Some False\<rparr>)
      else if a = ''--word-regexp'' then Some (s\<lparr>ro_word := True\<rparr>)
      else if a = ''--line-regexp'' then Some (s\<lparr>ro_line := True\<rparr>)
      else if a = ''--fixed-strings'' then Some (s\<lparr>ro_fixed := True\<rparr>)
      else if a = ''--quiet'' \<or> a = ''--silent'' then Some (s\<lparr>ro_quiet := True\<rparr>)
      else if a = ''--only-matching'' then Some (s\<lparr>ro_only := True\<rparr>)
      else if a = ''--hidden'' \<or> a = ''--no-ignore'' then Some (s\<lparr>ro_hidden := True\<rparr>)
      else if a = ''--with-filename'' then Some (s\<lparr>ro_filename := Some True\<rparr>)
      else if a = ''--no-filename'' then Some (s\<lparr>ro_filename := Some False\<rparr>)
      else if a = ''--no-heading'' \<or> a = ''--heading'' \<or> a = ''--no-color'' \<or> prefix ''--color='' a then Some s
      else None)"

text \<open>The short name of a long option that takes an argument; \<open>--color\<close> takes one and drops it.\<close>

definition long_names :: "(bytes \<times> bytes) list" where
  "long_names = [(''--regexp'', ''e''), (''--max-count'', ''m''), (''--after-context'', ''A''),
     (''--before-context'', ''B''), (''--context'', ''C''), (''--glob'', ''g''), (''--type'', ''t''),
     (''--type-not'', ''T'')]"

definition separate_names :: "(bytes \<times> bytes) list" where
  "separate_names = long_names @ [(''--file'', ''f''), (''--color'', '''')]"

text \<open>The first option of the list that the argument gives with an equals sign.\<close>

fun joined_option :: "(bytes \<times> bytes) list \<Rightarrow> bytes \<Rightarrow> (bytes \<times> bytes) option" where
  "joined_option [] a = None"
| "joined_option ((n, c) # ns) a =
     (case strip_prefix (n @ ''='') a of Some v \<Rightarrow> Some (c, v) | None \<Rightarrow> joined_option ns a)"

text \<open>The state of the argument loop: the options, whether a pattern was given, the arguments left.\<close>

type_synonym rg_state = "rg_options \<times> bool \<times> bytes list"

definition with_state :: "rg_options result \<Rightarrow> bool \<Rightarrow> bytes list \<Rightarrow> rg_state result" where
  "with_state r explicit rest = and_then r (\<lambda>s. Ok (s, explicit, rest))"

definition rg_long :: "rg_lib \<Rightarrow> bytes \<Rightarrow> rg_options \<Rightarrow> bool \<Rightarrow> bytes list \<Rightarrow> rg_state result" where
  "rg_long R a s explicit rest =
     (case long_flag a s of
        Some s' \<Rightarrow> Ok (s', explicit, rest)
      | None \<Rightarrow>
          (case joined_option long_names a of
             Some (c, v) \<Rightarrow> with_state (argument_option R c v s) (explicit \<or> gives_pattern c) rest
           | None \<Rightarrow>
               (case map_of separate_names a of
                  Some c \<Rightarrow>
                    (case rest of
                       [] \<Rightarrow> Err (a @ '' requires an argument'')
                     | v # rest' \<Rightarrow> with_state (argument_option R c v s) (explicit \<or> gives_pattern c) rest')
                | None \<Rightarrow> Err (''unrecognized option '' @ quoted a))))"

text \<open>An option with an argument ends the bundle of short options; only \<open>e\<close> uses what is left of it.\<close>

definition takes_argument :: "bytes \<Rightarrow> bool" where
  "takes_argument c \<longleftrightarrow> c \<in> {''e'', ''f'', ''m'', ''A'', ''B'', ''C'', ''g'', ''t'', ''T''}"

fun rg_short :: "rg_lib \<Rightarrow> bytes list \<Rightarrow> rg_options \<Rightarrow> bool \<Rightarrow> bytes list \<Rightarrow> rg_state result" where
  "rg_short R [] s explicit rest = Ok (s, explicit, rest)"
| "rg_short R (c # chars) s explicit rest =
     (case short_flag c s of
        Some s' \<Rightarrow> rg_short R chars s' explicit rest
      | None \<Rightarrow>
          if \<not> takes_argument c then Err (''invalid option -- '' @ quoted c)
          else if c = ''e'' \<and> concat chars \<noteq> [] then Ok (ro_add_pattern (concat chars) s, True, rest)
          else (case rest of
                  [] \<Rightarrow> Err (''option requires an argument -- '' @ quoted c)
                | v # rest' \<Rightarrow> with_state (argument_option R c v s) (explicit \<or> gives_pattern c) rest'))"

definition rg_positional :: "bytes \<Rightarrow> rg_options \<Rightarrow> bool \<Rightarrow> rg_options \<times> bool" where
  "rg_positional a s explicit =
     (if \<not> explicit \<and> ro_patterns s = [] then (ro_add_pattern a s, True)
      else (s\<lparr>ro_paths := ro_paths s @ [a]\<rparr>, explicit))"

fun rg_positionals :: "bytes list \<Rightarrow> rg_options \<Rightarrow> bool \<Rightarrow> rg_options" where
  "rg_positionals [] s explicit = s"
| "rg_positionals (a # as) s explicit = (let (s', ex') = rg_positional a s explicit in rg_positionals as s' ex')"

definition rg_arg :: "rg_lib \<Rightarrow> bytes \<Rightarrow> rg_options \<Rightarrow> bool \<Rightarrow> bytes list \<Rightarrow> rg_state result" where
  "rg_arg R a s explicit rest =
     (if prefix ''--'' a then rg_long R a s explicit rest
      else if prefix ''-'' a \<and> 1 < length a then rg_short R (utf8_chars (tl a)) s explicit rest
      else (let (s', ex') = rg_positional a s explicit in Ok (s', ex', rest)))"

lemma with_state_Ok: "with_state r ex rest = Ok (s', ex', rest') \<Longrightarrow> rest' = rest"
  by (cases r) (auto simp: with_state_def)

lemma rg_long_length: "rg_long R a s ex rest = Ok (s', ex', rest') \<Longrightarrow> length rest' \<le> length rest"
  unfolding rg_long_def by (auto split: option.splits list.splits prod.splits dest: with_state_Ok)

lemma rg_short_length: "rg_short R cs s ex rest = Ok (s', ex', rest') \<Longrightarrow> length rest' \<le> length rest"
  by (induction cs arbitrary: s) (auto split: option.splits list.splits if_splits dest: with_state_Ok)

lemma rg_arg_length: "rg_arg R a s ex rest = Ok (s', ex', rest') \<Longrightarrow> length rest' \<le> length rest"
  unfolding rg_arg_def by (auto split: if_splits prod.splits dest: rg_long_length rg_short_length)

function rg_args :: "rg_lib \<Rightarrow> bytes list \<Rightarrow> rg_options \<Rightarrow> bool \<Rightarrow> rg_options result" where
  "rg_args R [] s explicit = Ok s"
| "rg_args R (a # rest) s explicit =
     (if a = ''--'' then Ok (rg_positionals rest s explicit)
      else (case rg_arg R a s explicit rest of
              Ok st \<Rightarrow> rg_args R (snd (snd st)) (fst st) (fst (snd st))
            | Err m \<Rightarrow> Err m
            | Panicked \<Rightarrow> Panicked))"
  by pat_completeness auto
termination
proof (relation "measure (\<lambda>(R, args, s, ex). length args)")
  fix R a rest s ex st assume "rg_arg R a s ex rest = Ok (st :: rg_state)"
  then have "length (snd (snd st)) \<le> length rest" using rg_arg_length by (metis prod.collapse)
  then show "((R, snd (snd st), fst st, fst (snd st)), (R, a # rest, s, ex)) \<in> measure (\<lambda>(R, args, s, ex). length args)"
    by simp
qed simp

section \<open>The expression\<close>

definition prepare_pattern :: "rg_lib \<Rightarrow> rg_options \<Rightarrow> bytes \<Rightarrow> bytes" where
  "prepare_pattern R s p =
     (let base = (if ro_fixed s then rl_escape R p else p) in
      if ro_word s then [CHR 0x5C] @ ''b(?:'' @ base @ '')'' @ [CHR 0x5C] @ ''b''
      else if ro_line s then ''^(?:'' @ base @ '')$''
      else base)"

text \<open>Smart case: a pattern without upper case ignores the case.\<close>

definition rg_build :: "rg_lib \<Rightarrow> rg_options \<Rightarrow> rg_regex result" where
  "rg_build R s =
     (let combined = (case ro_patterns s of
                        [p] \<Rightarrow> prepare_pattern R s p
                      | ps \<Rightarrow> join ''|'' (map (\<lambda>p. ''(?:'' @ prepare_pattern R s p @ '')'') ps));
          insensitive = (if ro_ignore_case s then True
                         else if ro_smart_case s then \<not> list_ex (rl_upper R) (utf8_chars combined) else False)
      in case rl_build R combined insensitive of
           Inl e \<Rightarrow> Err (''regex error: '' @ e)
         | Inr re \<Rightarrow> Ok re)"

section \<open>The files\<close>

definition type_table :: "(bytes list \<times> bytes list) list" where
  "type_table =
     [([''rust'', ''rs''], [''rs'']), ([''py'', ''python''], [''py'', ''pyi'']),
      ([''js'', ''javascript''], [''js'', ''jsx'', ''mjs'']), ([''ts'', ''typescript''], [''ts'', ''tsx'', ''mts'']),
      ([''c''], [''c'', ''h'']), ([''cpp'', ''c++''], [''cpp'', ''cxx'', ''cc'', ''hpp'', ''hxx'', ''h'']),
      ([''java''], [''java'']), ([''go''], [''go'']), ([''html''], [''html'', ''htm'']), ([''css''], [''css'']),
      ([''json''], [''json'']), ([''yaml'', ''yml''], [''yml'', ''yaml'']), ([''toml''], [''toml'']),
      ([''md'', ''markdown''], [''md'', ''markdown'']), ([''txt'', ''text''], [''txt'']),
      ([''sh'', ''shell'', ''bash''], [''sh'', ''bash'']), ([''xml''], [''xml'']), ([''sql''], [''sql'']),
      ([''lua''], [''lua'']), ([''ruby'', ''rb''], [''rb'']), ([''php''], [''php'']), ([''swift''], [''swift'']),
      ([''kotlin'', ''kt''], [''kt'', ''kts''])]"

definition type_extensions :: "bytes \<Rightarrow> bytes list option" where
  "type_extensions t = map_option snd (find (\<lambda>row. t \<in> set (fst row)) type_table)"

definition of_type :: "bytes \<Rightarrow> bytes \<Rightarrow> bool" where
  "of_type ext t = (case type_extensions t of Some exts \<Rightarrow> ext \<in> set exts | None \<Rightarrow> False)"

text \<open>Every pattern must hold: a plain one by matching, one after an exclamation mark by not matching.\<close>

fun globs_pass :: "bytes list \<Rightarrow> bytes \<Rightarrow> bool option" where
  "globs_pass [] name = Some True"
| "globs_pass (p # ps) name =
     (let (negated, pat) = (case strip_prefix ''!'' p of Some rest \<Rightarrow> (True, rest) | None \<Rightarrow> (False, p)) in
      case glob_matches pat name of
        None \<Rightarrow> None
      | Some hit \<Rightarrow> if hit = negated then Some False else globs_pass ps name)"

definition should_include :: "rg_options \<Rightarrow> bytes \<Rightarrow> bool option" where
  "should_include s p =
     (let ext = (case path_extension p of Some e \<Rightarrow> from_utf8_lossy e | None \<Rightarrow> []) in
      if ro_types s \<noteq> [] \<and> \<not> list_ex (of_type ext) (ro_types s) then Some False
      else if list_ex (of_type ext) (ro_types_not s) then Some False
      else globs_pass (ro_globs s) (case file_name p of Some n \<Rightarrow> from_utf8_lossy n | None \<Rightarrow> []))"

text \<open>The files below a directory in the order of the walk and the reports; None when a directory lies
  deeper than the bound, as below a link to a directory above it.\<close>

fun rg_walk :: "nat \<Rightarrow> fs \<Rightarrow> rg_options \<Rightarrow> bytes \<Rightarrow> (bytes list \<times> bytes list) option" where
  "rg_walk 0 F s dir = None"
| "rg_walk (Suc b) F s dir =
     (case fs_read_dir F dir of
        Inl e \<Rightarrow> Some ([], [''rg: '' @ from_utf8_lossy dir @ '': '' @ e])
      | Inr es \<Rightarrow>
          map_option (\<lambda>parts. (concat (map fst parts), concat (map snd parts)))
            (those (map (\<lambda>name. let path = path_join dir name in
                if \<not> ro_hidden s \<and> prefix ''.'' (from_utf8_lossy name) then Some ([], [])
                else if fs_is_dir F path then rg_walk b F s path
                else if fs_is_file F path then
                  map_option (\<lambda>ok. (if ok then [path] else [], [])) (should_include s path)
                else Some ([], [])) (sorted_names es))))"

text \<open>Paths are ordered by their components: the root, the current directory at the front, names.\<close>

definition path_key :: "bytes \<Rightarrow> (nat \<times> bytes) list" where
  "path_key p =
     map (\<lambda>c. if c = ''/'' then (0, []) else if c = ''.'' then (1, []) else if c = ''..'' then (2, []) else (3, c)) (components p)"

definition collect_files :: "nat \<Rightarrow> fs \<Rightarrow> rg_options \<Rightarrow> (bytes list \<times> bytes list) option" where
  "collect_files b F s =
     map_option (\<lambda>parts. (sort_key path_key (concat (map fst parts)), concat (map snd parts)))
       (those (map (\<lambda>p. if fs_is_dir F p then rg_walk b F s p else Some ([p], [])) (ro_paths s)))"

section \<open>The search of a stream\<close>

datatype result_line = Match nat bytes | Context nat bytes | Separator

record search_state =
  ss_matches :: nat
  ss_lines :: "result_line list"
  ss_binary :: bool
  ss_buffer :: "(nat \<times> bytes) list"
  ss_after :: nat
  ss_last :: nat

definition search_start :: search_state where
  "search_start = \<lparr>ss_matches = 0, ss_lines = [], ss_binary = False, ss_buffer = [], ss_after = 0, ss_last = 0\<rparr>"

definition collects :: "rg_options \<Rightarrow> bool" where
  "collects s \<longleftrightarrow> \<not> ro_quiet s \<and> \<not> ro_with s \<and> \<not> ro_without s \<and> \<not> ro_count s"

text \<open>The kept lines before a match; one that is not after the last printed line is dropped.\<close>

fun flush :: "(nat \<times> bytes) list \<Rightarrow> nat \<Rightarrow> result_line list \<times> nat" where
  "flush [] printed = ([], printed)"
| "flush ((n, t) # buf) printed =
     (if printed < n then (let (out, l) = flush buf n in (Context n t # out, l)) else flush buf printed)"

definition emit_match :: "rg_options \<Rightarrow> rg_regex \<Rightarrow> nat \<Rightarrow> bytes \<Rightarrow> search_state \<Rightarrow> search_state" where
  "emit_match s re n l st =
     (let first = (case ss_buffer st of [] \<Rightarrow> n | (m, t) # buf \<Rightarrow> m);
          sep = (if has_context s \<and> 0 < ss_last st \<and> ss_last st + 1 < first then [Separator] else []);
          hits = (if ro_only s \<and> \<not> ro_invert s then map (Match n) (rr_find re l) else [Match n l])
      in st\<lparr>ss_lines := ss_lines st @ sep @ fst (flush (ss_buffer st) (ss_last st)) @ hits,
            ss_buffer := [], ss_last := n, ss_after := ro_after s\<rparr>)"

definition emit_context :: "rg_options \<Rightarrow> nat \<Rightarrow> bytes \<Rightarrow> search_state \<Rightarrow> search_state" where
  "emit_context s n l st =
     (if 0 < ss_after st
      then st\<lparr>ss_lines := ss_lines st @ [Context n l], ss_last := n, ss_after := ss_after st - 1\<rparr>
      else if 0 < ro_before s
      then (let buf = ss_buffer st @ [(n, l)]
            in st\<lparr>ss_buffer := (if ro_before s < length buf then tl buf else buf)\<rparr>)
      else st)"

fun search_lines :: "rg_options \<Rightarrow> rg_regex \<Rightarrow> bytes option list \<Rightarrow> nat \<Rightarrow> search_state \<Rightarrow> search_state" where
  "search_lines s re [] n st = st"
| "search_lines s re (None # ls) n st = st"
| "search_lines s re (Some l # ls) n st =
     (if CHR 0x00 \<in> set l then st\<lparr>ss_binary := True\<rparr>
      else if rr_match re l \<noteq> ro_invert s then
        (let st1 = st\<lparr>ss_matches := ss_matches st + 1\<rparr> in
         if ro_quiet s \<or> ro_with s then st1
         else (let st2 = (if collects s then emit_match s re (n + 1) l st1 else st1) in
           if (case ro_max s of Some m \<Rightarrow> m \<le> ss_matches st2 | None \<Rightarrow> False) then st2
           else search_lines s re ls (n + 1) st2))
      else search_lines s re ls (n + 1) (if collects s then emit_context s (n + 1) l st else st))"

definition search_stream :: "rg_options \<Rightarrow> rg_regex \<Rightarrow> bytes \<Rightarrow> search_state" where
  "search_stream s re content = search_lines s re (reader_lines content) 0 search_start"

section \<open>Printing\<close>

definition rg_prefix :: "rg_options \<Rightarrow> bytes option \<Rightarrow> bytes \<Rightarrow> nat \<Rightarrow> bytes" where
  "rg_prefix s f sep n =
     (case f of Some name \<Rightarrow> name @ sep | None \<Rightarrow> []) @ (if show_line_numbers s then show_nat n @ sep else [])"

fun rg_line :: "rg_options \<Rightarrow> bytes option \<Rightarrow> result_line \<Rightarrow> bytes" where
  "rg_line s f (Match n t) = rg_prefix s f '':'' n @ t"
| "rg_line s f (Context n t) = rg_prefix s f ''-'' n @ t"
| "rg_line s f Separator = ''--''"

definition name_or_input :: "bytes option \<Rightarrow> bytes" where
  "name_or_input f = (case f of Some n \<Rightarrow> n | None \<Rightarrow> ''(standard input)'')"

definition print_file_result :: "rg_options \<Rightarrow> bytes option \<Rightarrow> search_state \<Rightarrow> bytes list" where
  "print_file_result s f r =
     (if ss_binary r then
        (case f of Some n \<Rightarrow> if 0 < ss_matches r then [''Binary file '' @ n @ '' matches.''] else [] | None \<Rightarrow> [])
      else if ro_with s then (if 0 < ss_matches r then [name_or_input f] else [])
      else if ro_without s then (if ss_matches r = 0 then [name_or_input f] else [])
      else if ro_count s then [(case f of Some n \<Rightarrow> n @ '':'' | None \<Rightarrow> []) @ show_nat (ss_matches r)]
      else map (rg_line s f) (ss_lines r))"

section \<open>The command\<close>

text \<open>The files in turn; with \<open>-q\<close> the first match ends the search.\<close>

fun rg_files :: "rg_lib \<Rightarrow> rg_options \<Rightarrow> rg_regex \<Rightarrow> bool \<Rightarrow> bytes list \<Rightarrow> bool \<Rightarrow> out_line list \<times> bool" where
  "rg_files R s re names [] any = ([], any)"
| "rg_files R s re names (p # ps) any =
     (case rl_open R p of
        Inl e \<Rightarrow> (let (out, a) = rg_files R s re names ps any
                  in (StdErr (''rg: '' @ from_utf8_lossy p @ '': '' @ e) # out, a))
      | Inr content \<Rightarrow>
          (let r = search_stream s re content; any' = (any \<or> 0 < ss_matches r) in
           if ro_quiet s \<and> any' then ([], True)
           else (let here = (if ro_quiet s then []
                             else map StdOut (print_file_result s (if names then Some (from_utf8_lossy p) else None) r));
                     (out, a) = rg_files R s re names ps any'
                 in (here @ out, a))))"

definition rg_run :: "nat \<Rightarrow> rg_lib \<Rightarrow> fs \<Rightarrow> bytes \<Rightarrow> rg_options \<Rightarrow> run option" where
  "rg_run b R F stdin s =
     (if ro_patterns s = [] then Some (Exit 2 [StdErr ''rg: no pattern provided''])
      else (case rg_build R s of
              Err m \<Rightarrow> Some (Exit 2 [StdErr (''rg: '' @ m)])
            | Panicked \<Rightarrow> Some Crash
            | Ok re \<Rightarrow>
                if ro_paths s = [] then
                  (let r = search_stream s re stdin; code = (if 0 < ss_matches r then 0 else 1)
                   in Some (Exit code (if ro_quiet s then [] else map StdOut (print_file_result s None r))))
                else map_option (\<lambda>(files, errors).
                    (let (out, any) = rg_files R s re (resolve_show_filename s (1 < length files)) files False
                     in Exit (if any then 0 else 1) (map StdErr errors @ out)))
                  (collect_files b F s)))"

definition rg :: "nat \<Rightarrow> rg_lib \<Rightarrow> fs \<Rightarrow> bytes \<Rightarrow> bytes list \<Rightarrow> run option" where
  "rg b R F stdin argv =
     (case rg_args R (map from_utf8_lossy (tl argv)) rg_new False of
        Err m \<Rightarrow> Some (Exit 2 [StdErr (''rg: '' @ m)])
      | Panicked \<Rightarrow> Some Crash
      | Ok s \<Rightarrow> rg_run b R F stdin s)"

end
