(* ===== verification/Rg_Props.thy ===== *)
theory Rg_Props
  imports Rg_Cmd
begin

text \<open>
  What \<open>rg\<close> promises: the lines it shows with context are those near a match, each once and in order,
  with a separator at every gap.
\<close>

section \<open>The lines near a match\<close>

text \<open>Line \<open>k\<close> (from 1) of \<open>ls\<close> matches; it is shown when a match up to line \<open>n\<close> has it in its context.\<close>

definition hit :: "rg_options \<Rightarrow> rg_regex \<Rightarrow> bytes list \<Rightarrow> nat \<Rightarrow> bool" where
  "hit s re ls k \<longleftrightarrow> rr_match re (ls ! (k - 1)) \<noteq> ro_invert s"

definition near :: "rg_options \<Rightarrow> rg_regex \<Rightarrow> bytes list \<Rightarrow> nat \<Rightarrow> nat \<Rightarrow> bool" where
  "near s re ls n k \<longleftrightarrow> list_ex (\<lambda>m. hit s re ls m \<and> m \<le> k + ro_before s \<and> k \<le> m + ro_after s) [1..<n + 1]"

definition shown_line :: "rg_options \<Rightarrow> rg_regex \<Rightarrow> bytes list \<Rightarrow> nat \<Rightarrow> result_line" where
  "shown_line s re ls k = (if hit s re ls k then Match k (ls ! (k - 1)) else Context k (ls ! (k - 1)))"

text \<open>The lines of the given numbers; a separator where one is skipped after a printed line.\<close>

fun spelled :: "rg_options \<Rightarrow> (nat \<Rightarrow> result_line) \<Rightarrow> nat \<Rightarrow> nat list \<Rightarrow> result_line list" where
  "spelled s f printed [] = []"
| "spelled s f printed (k # ks) =
     (if has_context s \<and> 0 < printed \<and> printed + 1 < k then [Separator] else []) @ f k # spelled s f k ks"

lemma spelled_append: "spelled s f p (xs @ ys) = spelled s f p xs @ spelled s f (last (p # xs)) ys"
  by (induction xs arbitrary: p) auto

lemma spelled_run: "spelled s f p [Suc p..<m] = map f [Suc p..<m]"
proof (induction "m - Suc p" arbitrary: p)
  case (Suc x)
  then have "[Suc p..<m] = Suc p # [Suc (Suc p)..<m]" by (simp add: upt_rec)
  with Suc show ?case by simp
qed simp

section \<open>The loop\<close>

text \<open>After \<open>n\<close> lines: how far lines were printed, what is still to print, what is kept.\<close>

definition last_hit :: "rg_options \<Rightarrow> rg_regex \<Rightarrow> bytes list \<Rightarrow> nat \<Rightarrow> nat \<Rightarrow> bool" where
  "last_hit s re ls n m \<longleftrightarrow> 1 \<le> m \<and> m \<le> n \<and> hit s re ls m \<and> (\<forall>k. m < k \<and> k \<le> n \<longrightarrow> \<not> hit s re ls k)"

definition printed_to :: "rg_options \<Rightarrow> rg_regex \<Rightarrow> bytes list \<Rightarrow> nat \<Rightarrow> nat \<Rightarrow> nat \<Rightarrow> bool" where
  "printed_to s re ls n p a \<longleftrightarrow>
     (p = 0 \<and> a = 0 \<and> (\<forall>k. 1 \<le> k \<and> k \<le> n \<longrightarrow> \<not> hit s re ls k)) \<or>
     (\<exists>m. last_hit s re ls n m \<and> p = min n (m + ro_after s) \<and> a = m + ro_after s - p)"

definition search_inv :: "rg_options \<Rightarrow> rg_regex \<Rightarrow> bytes list \<Rightarrow> nat \<Rightarrow> search_state \<Rightarrow> bool" where
  "search_inv s re ls n st \<longleftrightarrow>
     \<not> ss_binary st \<and> printed_to s re ls n (ss_last st) (ss_after st) \<and>
     ss_matches st = length (filter (hit s re ls) [1..<n + 1]) \<and>
     ss_buffer st = map (\<lambda>k. (k, ls ! (k - 1))) [max (ss_last st) (n - ro_before s) + 1..<n + 1] \<and>
     ss_lines st = spelled s (shown_line s re ls) 0 (filter (near s re ls n) [1..<n + 1])"

lemma near_iff: "near s re ls n k \<longleftrightarrow> (\<exists>m. 1 \<le> m \<and> m \<le> n \<and> hit s re ls m \<and> m \<le> k + ro_before s \<and> k \<le> m + ro_after s)"
  by (auto simp: near_def list_ex_iff less_Suc_eq_le)

lemma near_Suc:
  "near s re ls (Suc n) k \<longleftrightarrow> near s re ls n k \<or> (hit s re ls (Suc n) \<and> Suc n \<le> k + ro_before s \<and> k \<le> Suc n + ro_after s)"
  unfolding near_iff le_Suc_eq by auto

lemma printed_le: "printed_to s re ls n p a \<Longrightarrow> p \<le> n"
  by (auto simp: printed_to_def)

lemma near_after_printed:
  assumes "printed_to s re ls n p a" and "p < k"
  shows "near s re ls n k \<longleftrightarrow> n < k \<and> k \<le> n + a"
proof -
  consider "p = 0" "a = 0" "\<And>m. 1 \<le> m \<Longrightarrow> m \<le> n \<Longrightarrow> \<not> hit s re ls m"
    | m where "last_hit s re ls n m" "p = min n (m + ro_after s)" "a = m + ro_after s - p"
    using assms(1) unfolding printed_to_def by blast
  then show ?thesis
  proof cases
    case 1
    then show ?thesis by (auto simp: near_iff)
  next
    case (2 m)
    then have m: "1 \<le> m" "m \<le> n" "hit s re ls m" "\<And>k. m < k \<Longrightarrow> k \<le> n \<Longrightarrow> \<not> hit s re ls k"
      by (auto simp: last_hit_def)
    show ?thesis
    proof
      assume "near s re ls n k"
      then obtain j where j: "1 \<le> j" "j \<le> n" "hit s re ls j" "k \<le> j + ro_after s" by (auto simp: near_iff)
      then have "j \<le> m" using m(4) [of j] by (meson not_le)
      with j 2(2,3) assms(2) show "n < k \<and> k \<le> n + a" by (auto simp: min_def split: if_splits)
    next
      assume "n < k \<and> k \<le> n + a"
      with m 2(2,3) have "m \<le> k + ro_before s" "k \<le> m + ro_after s" by (auto simp: min_def split: if_splits)
      with m show "near s re ls n k" unfolding near_iff by blast
    qed
  qed
qed

text \<open>The printed lines end with the last printed one.\<close>

lemma near_printed: "printed_to s re ls n p a \<Longrightarrow> 0 < p \<Longrightarrow> near s re ls n p"
  unfolding printed_to_def last_hit_def near_iff
  by (elim disjE exE conjE) (auto simp: min_def intro!: exI split: if_splits)

lemma shown_upto_printed:
  assumes "printed_to s re ls n p a"
  shows "filter (near s re ls n) [1..<n + 1] = filter (near s re ls n) [1..<p + 1]"
    "last (0 # filter (near s re ls n) [1..<n + 1]) = p"
proof -
  have "[1..<n + 1] = [1..<p + 1] @ [p + 1..<n + 1]"
    using printed_le [OF assms] by (metis add_le_cancel_right le_add2 upt_add_eq_append le_add_diff_inverse)
  moreover have "filter (near s re ls n) [p + 1..<n + 1] = []"
    using near_after_printed [OF assms] by (auto simp: filter_empty_conv)
  ultimately show "filter (near s re ls n) [1..<n + 1] = filter (near s re ls n) [1..<p + 1]" by simp
  then show "last (0 # filter (near s re ls n) [1..<n + 1]) = p"
    using near_printed [OF assms] by (cases "p = 0") auto
qed

lemma flush_all: "list_all (\<lambda>(n, t). p < n) buf \<Longrightarrow> sorted_wrt (<) (map fst buf) \<Longrightarrow> fst (flush buf p) = map (\<lambda>(n, t). Context n t) buf"
  by (induction buf arbitrary: p) (auto simp: split_beta list.pred_set)

lemma hit_printed:
  assumes "printed_to s re ls n p a" and "1 \<le> k" and "k \<le> n" and "hit s re ls k"
  shows "k \<le> p"
proof (rule ccontr)
  assume "\<not> k \<le> p"
  moreover have "near s re ls n k" unfolding near_iff using assms(2-4) by auto
  ultimately show False using near_after_printed [OF assms(1), of k] assms(3) by simp
qed

lemma printed_now: "printed_to s re ls n p a \<Longrightarrow> 0 < a \<Longrightarrow> p = n"
  by (auto simp: printed_to_def min_def split: if_splits)

lemma near_le_printed:
  assumes "printed_to s re ls n p a" and "1 \<le> k" and "k \<le> p" and "n < k + ro_before s"
  shows "near s re ls n k"
proof -
  from assms obtain m where "last_hit s re ls n m" "p = min n (m + ro_after s)" unfolding printed_to_def by auto
  then show ?thesis using assms(3,4) unfolding near_iff last_hit_def by (intro exI [of _ m]) auto
qed

lemma printed_context:
  assumes "printed_to s re ls n p a" and "\<not> hit s re ls (Suc n)"
  shows "printed_to s re ls (Suc n) (if 0 < a then Suc n else p) (a - 1)"
proof -
  have h: "last_hit s re ls n m \<Longrightarrow> last_hit s re ls (Suc n) m" for m
    using assms(2) by (auto simp: last_hit_def le_Suc_eq)
  from assms(1) consider "p = 0" "a = 0" "\<forall>k. 1 \<le> k \<and> k \<le> n \<longrightarrow> \<not> hit s re ls k"
    | m where "last_hit s re ls n m" "p = min n (m + ro_after s)" "a = m + ro_after s - p"
    unfolding printed_to_def by blast
  then show ?thesis
  proof cases
    case 1
    then show ?thesis using assms(2) by (auto simp: printed_to_def le_Suc_eq)
  next
    case (2 m)
    then show ?thesis using h [of m] unfolding printed_to_def by (intro disjI2 exI [of _ m]) (auto simp: min_def)
  qed
qed

lemma printed_match: "hit s re ls (Suc n) \<Longrightarrow> printed_to s re ls (Suc n) (Suc n) (ro_after s)"
  unfolding printed_to_def last_hit_def by (intro disjI2 exI [of _ "Suc n"]) auto

lemma spelled_shown:
  assumes "search_inv s re ls n st"
  shows "spelled s (shown_line s re ls) 0 (filter (near s re ls n) [1..<n + 1] @ ks) =
    ss_lines st @ spelled s (shown_line s re ls) (ss_last st) ks"
proof -
  have p: "printed_to s re ls n (ss_last st) (ss_after st)" using assms by (simp add: search_inv_def)
  have l: "ss_lines st = spelled s (shown_line s re ls) 0 (filter (near s re ls n) [1..<n + 1])"
    using assms by (simp add: search_inv_def)
  show ?thesis by (simp only: l spelled_append shown_upto_printed(2) [OF p])
qed

lemma upto_Suc: "[1..<Suc n + 1] = [1..<n + 1] @ [Suc n]"
  by simp

lemma upto_front: "i \<le> n \<Longrightarrow> [Suc i..<Suc n + 1] = Suc i # [Suc (Suc i)..<Suc n + 1]"
  by (simp add: upt_conv_Cons)

lemma upto_back: "i \<le> n \<Longrightarrow> [Suc i..<Suc n + 1] = [Suc i..<n + 1] @ [Suc n]"
  by simp

text \<open>Adding a line to the kept ones and dropping the first when there are too many.\<close>

lemma window:
  fixes f :: "nat \<Rightarrow> 'a" and B :: nat
  assumes "p \<le> n" and "0 < B"
  defines "buf \<equiv> map f [Suc (max p (n - B))..<Suc n + 1]"
  shows "(if B < length buf then tl buf else buf) = map f [Suc (max p (Suc n - B))..<Suc n + 1]"
proof (cases "p \<le> n - B \<and> B \<le> n")
  case True
  then have q: "max p (n - B) = n - B" "max p (Suc n - B) = Suc (n - B)" by auto
  have "length buf = Suc B" using True by (simp add: buf_def q del: upt_Suc)
  moreover have "tl buf = map f [Suc (Suc (n - B))..<Suc n + 1]" unfolding buf_def q map_tl [symmetric] tl_upt ..
  ultimately show ?thesis by (simp only: q) simp
next
  case False
  then have q: "max p (n - B) = max p (Suc n - B)" using assms(1,2) by auto
  have "length buf \<le> B" using False assms(1) by (auto simp: buf_def max_def simp del: upt_Suc)
  then show ?thesis by (simp add: buf_def q del: upt_Suc)
qed

lemma search_inv_context:
  assumes inv: "search_inv s re ls n st" and miss: "\<not> hit s re ls (Suc n)"
  shows "search_inv s re ls (Suc n) (emit_context s (Suc n) (ls ! n) st)"
proof -
  let ?f = "shown_line s re ls" let ?p = "ss_last st" let ?a = "ss_after st"
  have p: "printed_to s re ls n ?p ?a" using inv by (simp add: search_inv_def)
  have buf: "ss_buffer st = map (\<lambda>k. (k, ls ! (k - 1))) [max ?p (n - ro_before s) + 1..<n + 1]"
    using inv by (simp add: search_inv_def)
  note pn = printed_le [OF p]
  have near: "near s re ls (Suc n) = near s re ls n" using miss by (intro ext) (simp add: near_Suc)
  have new: "near s re ls n (Suc n) \<longleftrightarrow> 0 < ?a" using near_after_printed [OF p, of "Suc n"] pn by auto
  have lines: "spelled s ?f 0 (filter (near s re ls (Suc n)) [1..<Suc n + 1]) =
      ss_lines st @ (if 0 < ?a then [Context (Suc n) (ls ! n)] else [])"
    using new miss printed_now [OF p] unfolding near upto_Suc filter_append
    by (simp add: spelled_shown [OF inv, simplified] shown_line_def)
  have count: "length (filter (hit s re ls) [1..<Suc n + 1]) = ss_matches st"
    using inv miss by (simp add: search_inv_def)
  note printed = printed_context [OF p miss]
  show ?thesis
  proof (cases "0 < ?a")
    case True
    with lines count printed inv show ?thesis
      using printed_now [OF p True] by (simp add: search_inv_def emit_context_def)
  next
    case False
    show ?thesis
    proof (cases "0 < ro_before s")
      case True
      let ?q = "max ?p (n - ro_before s)"
      let ?buf = "map (\<lambda>k. (k, ls ! (k - 1))) [Suc ?q..<Suc n + 1]"
      have e: "ss_buffer st @ [(Suc n, ls ! n)] = ?buf" using buf pn by (subst upto_back) simp_all
      note w = window [OF pn True, of "\<lambda>k. (k, ls ! (k - 1))"]
      have "ss_buffer (emit_context s (Suc n) (ls ! n) st) = map (\<lambda>k. (k, ls ! (k - 1))) [Suc (max ?p (Suc n - ro_before s))..<Suc n + 1]"
        using True False by (simp only: emit_context_def e w if_False if_True Let_def) simp
      moreover have "ss_lines (emit_context s (Suc n) (ls ! n) st) = ss_lines st" "ss_last (emit_context s (Suc n) (ls ! n) st) = ?p"
        "ss_after (emit_context s (Suc n) (ls ! n) st) = 0" "ss_matches (emit_context s (Suc n) (ls ! n) st) = ss_matches st"
        "ss_binary (emit_context s (Suc n) (ls ! n) st) = ss_binary st"
        using False by (simp_all add: emit_context_def Let_def)
      ultimately show ?thesis
        using False lines count printed inv by (simp add: search_inv_def del: upt_Suc)
    next
      case False
      with \<open>\<not> 0 < ?a\<close> lines count printed inv pn show ?thesis
        by (simp add: search_inv_def emit_context_def)
    qed
  qed
qed

lemma upto_split: "a \<le> b \<Longrightarrow> b \<le> c \<Longrightarrow> [a..<c] = [a..<b] @ [b..<c]"
  by (metis le_add_diff_inverse upt_add_eq_append)

lemma search_inv_match:
  assumes inv: "search_inv s re ls n st" and hit: "hit s re ls (Suc n)" and all: "\<not> ro_only s"
  shows "search_inv s re ls (Suc n) (emit_match s re (Suc n) (ls ! n) (st\<lparr>ss_matches := ss_matches st + 1\<rparr>))"
proof -
  let ?f = "shown_line s re ls" let ?p = "ss_last st" let ?q = "max ?p (n - ro_before s)"
  have p: "printed_to s re ls n ?p (ss_after st)" using inv by (simp add: search_inv_def)
  note pn = printed_le [OF p]
  let ?c = "[Suc ?q..<n + 1]"
  have buf: "ss_buffer st = map (\<lambda>k. (k, ls ! (k - 1))) ?c" using inv by (simp add: search_inv_def)
  have near: "near s re ls (Suc n) k \<longleftrightarrow> near s re ls n k \<or> (Suc n \<le> k + ro_before s \<and> k \<le> Suc n + ro_after s)" for k
    using hit by (simp add: near_Suc)
  have split: "[1..<Suc n + 1] = [1..<?p + 1] @ [?p + 1..<?q + 1] @ [?q + 1..<Suc n + 1]"
    using pn upto_split [of 1 "?p + 1" "Suc n + 1"] upto_split [of "?p + 1" "?q + 1" "Suc n + 1"] by (simp del: upt_Suc)
  have 1: "filter (near s re ls (Suc n)) [1..<?p + 1] = filter (near s re ls n) [1..<n + 1]"
    unfolding shown_upto_printed(1) [OF p]
    by (rule filter_cong) (use near_le_printed [OF p] in \<open>auto simp: near\<close>)
  have 2: "filter (near s re ls (Suc n)) [?p + 1..<?q + 1] = []"
    using near_after_printed [OF p] by (auto simp: filter_empty_conv near)
  have 3: "filter (near s re ls (Suc n)) [?q + 1..<Suc n + 1] = [?q + 1..<Suc n + 1]"
    by (rule filter_True) (auto simp: near)
  have "\<not> hit s re ls k" if "k \<in> set ?c" for k
    using hit_printed [OF p, of k] that by auto
  then have ctx: "map ?f ?c = map (\<lambda>k. Context k (ls ! (k - 1))) ?c" by (simp add: shown_line_def)
  have flushed: "fst (flush (ss_buffer st) ?p) = map ?f ?c"
    unfolding buf ctx by (subst flush_all) (auto simp: list.pred_set o_def sorted_wrt_upt simp del: upt_Suc)
  have first: "(case ss_buffer st of [] \<Rightarrow> Suc n | (m, t) # b \<Rightarrow> m) = Suc ?q"
  proof (cases "Suc ?q < n + 1")
    case True
    then have "?c = Suc ?q # [Suc (Suc ?q)..<n + 1]" by (rule upt_conv_Cons)
    then show ?thesis unfolding buf by simp
  next
    case False
    with pn have "?q = n" by (auto simp: max_def)
    then show ?thesis unfolding buf by simp
  qed
  have "spelled s ?f 0 (filter (near s re ls (Suc n)) [1..<Suc n + 1]) = ss_lines st @ spelled s ?f ?p [?q + 1..<Suc n + 1]"
    unfolding split filter_append 1 2 3 append_Nil by (rule spelled_shown [OF inv])
  also have "[?q + 1..<Suc n + 1] = Suc ?q # [Suc (Suc ?q)..<Suc n + 1]"
    unfolding Suc_eq_plus1 [symmetric, of ?q] by (rule upto_front) (use pn in simp)
  also have "spelled s ?f ?p \<dots> = (if has_context s \<and> 0 < ?p \<and> ?p + 1 < Suc ?q then [Separator] else [])
      @ map ?f (Suc ?q # [Suc (Suc ?q)..<Suc n + 1])"
    by (simp add: spelled_run del: upt_Suc)
  also have "Suc ?q # [Suc (Suc ?q)..<Suc n + 1] = ?c @ [Suc n]"
    using pn by (subst upto_front [symmetric], simp, subst upto_back) simp_all
  finally have "spelled s ?f 0 (filter (near s re ls (Suc n)) [1..<Suc n + 1]) =
      ss_lines (emit_match s re (Suc n) (ls ! n) (st\<lparr>ss_matches := ss_matches st + 1\<rparr>))"
    using all by (simp add: emit_match_def first flushed shown_line_def [of s re ls "Suc n"] hit del: upt_Suc)
  with inv hit printed_match [OF hit] show ?thesis
    by (simp add: search_inv_def emit_match_def Let_def)
qed

lemma search_lines_inv:
  assumes "collects s" and "\<not> ro_only s" and "ro_max s = None" and "\<forall>l\<in>set ls. CHR 0x00 \<notin> set l"
  shows "search_inv s re ls n st \<Longrightarrow> n \<le> length ls \<Longrightarrow>
    search_inv s re ls (length ls) (search_lines s re (map Some (drop n ls)) n st)"
proof (induction "length ls - n" arbitrary: n st)
  case (Suc d)
  then have n: "n < length ls" by simp
  have d: "map Some (drop n ls) = Some (ls ! n) # map Some (drop (Suc n) ls)"
    using n by (simp add: Cons_nth_drop_Suc [symmetric])
  have q: "\<not> ro_quiet s" "\<not> ro_with s" using assms(1) by (auto simp: collects_def)
  have z: "CHR 0x00 \<notin> set (ls ! n)" using assms(4) n by simp
  have IH: "search_inv s re ls (Suc n) st' \<Longrightarrow>
      search_inv s re ls (length ls) (search_lines s re (map Some (drop (Suc n) ls)) (Suc n) st')" for st'
    by (rule Suc.hyps(1)) (use Suc.hyps(2) n in auto)
  show ?case
  proof (cases "hit s re ls (Suc n)")
    case True
    with assms(1,3) q z IH [OF search_inv_match [OF Suc.prems(1) True assms(2)]] show ?thesis
      unfolding d by (simp add: hit_def)
  next
    case False
    with assms(1) q z IH [OF search_inv_context [OF Suc.prems(1) False]] show ?thesis
      unfolding d by (simp add: hit_def)
  qed
qed simp

section \<open>Properties\<close>

text \<open>Claim C4: Search with context is right: on a text of whole lines, when lines are collected (no
  \<open>-q\<close>, \<open>-l\<close>, \<open>-c\<close>, \<open>-o\<close> and no limit), the result has exactly the lines within \<open>-B\<close> lines before or \<open>-A\<close> lines
  after a matching line, each once and in order, matching lines marked as matches and the others as
  context, with a separator exactly where lines are left out between two shown ones; and it counts the
  matching lines.\<close>

theorem search_stream_context:
  assumes "collects s" and "\<not> ro_only s" and "ro_max s = None"
    and "reader_lines content = map Some ls" and "\<forall>l\<in>set ls. CHR 0x00 \<notin> set l"
  shows "ss_lines (search_stream s re content) =
      spelled s (shown_line s re ls) 0 (filter (near s re ls (length ls)) [1..<length ls + 1])
    \<and> ss_matches (search_stream s re content) = length (filter (hit s re ls) [1..<length ls + 1])
    \<and> \<not> ss_binary (search_stream s re content)"
proof -
  have "search_inv s re ls 0 search_start"
    by (simp add: search_inv_def search_start_def printed_to_def)
  from search_lines_inv [OF assms(1-3,5) this] show ?thesis
    by (simp add: search_inv_def search_stream_def assms(4))
qed

definition rg_example :: rg_options where
  "rg_example = rg_new\<lparr>ro_before := 1, ro_after := 1\<rparr>"

definition starts_with_x :: rg_regex where
  "starts_with_x = \<lparr>rr_match = prefix ''x'', rr_find = (\<lambda>l. [])\<rparr>"

lemma search_stream_context_witness:
  "ss_lines (search_stream rg_example starts_with_x
      (concat (map (\<lambda>l. l @ [NL]) [''x1'', ''b'', ''c'', ''d'', ''e'', ''x2'']))) =
    [Match 1 ''x1'', Context 2 ''b'', Separator, Context 5 ''e'', Match 6 ''x2'']"
  by (subst search_stream_context [of _ _ "[''x1'', ''b'', ''c'', ''d'', ''e'', ''x2'']", THEN conjunct1]) code_simp+

section \<open>Places where the command does what its options do not say\<close>

text \<open>\<open>-A2\<close> takes the next argument for its number and drops the digit; \<open>-m 0\<close> still shows a match; two
  plain globs must both match.\<close>

definition no_files :: rg_lib where
  "no_files = \<lparr>rl_build = (\<lambda>p i. Inr starts_with_x), rl_escape = (\<lambda>p. p), rl_upper = (\<lambda>c. False),
     rl_open = (\<lambda>p. Inl ''no such file'')\<rparr>"

lemma joined_context_is_lost:
  "rg_args no_files [''-A2'', ''x'', ''f''] rg_new False = Err (''invalid number: '' @ quoted ''x'')"
  by (simp add: rg_arg_def utf8_chars.simps is_cont_def byte_def short_flag_def takes_argument_def with_state_def
      argument_option_def number_arg_def parse_unsigned_def to_digit_def digit_val_def)

lemma max_count_zero_shows_one:
  "ss_lines (search_stream (rg_new\<lparr>ro_max := Some 0\<rparr>) starts_with_x ''x'') = [Match 1 ''x'']"
  by code_simp

lemma two_globs_exclude_all:
  "should_include (rg_new\<lparr>ro_globs := [''*.rs'', ''*.py'']\<rparr>) ''a.rs'' = Some False"
  "should_include (rg_new\<lparr>ro_globs := [''*.rs'', ''*.py'']\<rparr>) ''a.py'' = Some False"
  by (simp_all add: should_include_def rg_new_def glob_matches_def file_name_def suffix_to_prefix
      from_utf8_lossy_valid utf8_valid_ascii byte_def)

end
