(* ===== verification/Xargs_Cmd.thy ===== *)
theory Xargs_Cmd
  imports Process
begin

text \<open>
  The \<open>xargs\<close> command (\<open>libs/shims/src/xargs.rs\<close>): options, the reading of items with shell quoting
  or between NUL bytes, replacement, batching and the exit status.  Running a program is the
  parameter \<open>exec\<close>, which passes a world along.
\<close>

section \<open>Options\<close>

record xargs_options =
  xo_null :: bool
  xo_max :: "nat option"
  xo_replace :: "bytes option"
  xo_trace :: bool
  xo_no_run :: bool

definition xargs_defaults :: xargs_options where
  "xargs_defaults = \<lparr>xo_null = False, xo_max = None, xo_replace = None, xo_trace = False, xo_no_run = False\<rparr>"

definition count_arg :: "bytes \<Rightarrow> bytes \<Rightarrow> nat result" where
  "count_arg opt a =
     (case parse_usize32 a of
        Some n \<Rightarrow> if 0 < n then Ok n
                  else Err (''xargs: invalid number for '' @ opt @ '': '' @ [CHR 0x27] @ a @ [CHR 0x27])
      | None \<Rightarrow> Err (''xargs: invalid number for '' @ opt @ '': '' @ [CHR 0x27] @ a @ [CHR 0x27]))"

text \<open>Options end at the first argument that is not one; it starts the command.\<close>

function xargs_args :: "bytes list \<Rightarrow> xargs_options \<Rightarrow> (xargs_options \<times> bytes list) result" where
  "xargs_args args s =
     (case args of
        [] \<Rightarrow> Ok (s, [])
      | a # rest \<Rightarrow>
          if a = ''-0'' \<or> a = ''--null'' then xargs_args rest (s\<lparr>xo_null := True\<rparr>)
          else if a = ''-t'' \<or> a = ''--verbose'' then xargs_args rest (s\<lparr>xo_trace := True\<rparr>)
          else if a = ''-r'' \<or> a = ''--no-run-if-empty'' then xargs_args rest (s\<lparr>xo_no_run := True\<rparr>)
          else if a = ''-n'' \<or> a = ''--max-args'' then
            (case rest of
               [] \<Rightarrow> Err (''xargs: option requires an argument -- '' @ [CHR 0x27] @ ''n'' @ [CHR 0x27])
             | v # rest' \<Rightarrow>
                 (case count_arg ''-n'' v of
                    Ok n \<Rightarrow> xargs_args rest' (s\<lparr>xo_max := Some n\<rparr>) | Err m \<Rightarrow> Err m | Panicked \<Rightarrow> Panicked))
          else if a = ''-I'' then
            (case rest of
               [] \<Rightarrow> Err (''xargs: option requires an argument -- '' @ [CHR 0x27] @ ''I'' @ [CHR 0x27])
             | v # rest' \<Rightarrow> xargs_args rest' (s\<lparr>xo_replace := Some v\<rparr>))
          else (case strip_prefix ''--max-args='' a of
                  Some v \<Rightarrow>
                    (case count_arg ''--max-args'' v of
                       Ok n \<Rightarrow> xargs_args rest (s\<lparr>xo_max := Some n\<rparr>) | Err m \<Rightarrow> Err m | Panicked \<Rightarrow> Panicked)
                | None \<Rightarrow>
                    if prefix ''-'' a \<and> \<not> prefix ''--'' a \<and> 2 < length a then
                      (case strip_prefix ''-n'' a of
                         Some v \<Rightarrow>
                           (case count_arg ''-n'' v of
                              Ok n \<Rightarrow> xargs_args rest (s\<lparr>xo_max := Some n\<rparr>) | Err m \<Rightarrow> Err m | Panicked \<Rightarrow> Panicked)
                       | None \<Rightarrow>
                           (case strip_prefix ''-I'' a of
                              Some v \<Rightarrow> xargs_args rest (s\<lparr>xo_replace := Some v\<rparr>)
                            | None \<Rightarrow> Ok (s, args)))
                    else Ok (s, args)))"
  by pat_completeness auto
termination
  by (relation "measure (\<lambda>(args, s). length args)") simp_all

declare xargs_args.simps [simp del]

section \<open>Items\<close>

definition read_null_delimited :: "bytes \<Rightarrow> bytes list" where
  "read_null_delimited input = filter (\<lambda>s. s \<noteq> []) (map from_utf8_lossy (split_on CHR 0x00 input))"

text \<open>The state of the quoting machine: the finished items, the current one, the flags.\<close>

record quoting =
  qu_items :: "bytes list"
  qu_current :: bytes
  qu_single :: bool
  qu_double :: bool
  qu_escape :: bool
  qu_content :: bool

definition quote_step :: "quoting \<Rightarrow> bytes \<Rightarrow> quoting" where
  "quote_step q ch =
     (if qu_escape q then q\<lparr>qu_current := qu_current q @ ch, qu_escape := False, qu_content := True\<rparr>
      else if qu_single q then
        (if ch = [CHR 0x27] then q\<lparr>qu_single := False\<rparr> else q\<lparr>qu_current := qu_current q @ ch\<rparr>)
      else if qu_double q then
        (if ch = [CHR 0x5C] then q\<lparr>qu_escape := True\<rparr>
         else if ch = [CHR 0x22] then q\<lparr>qu_double := False\<rparr>
         else q\<lparr>qu_current := qu_current q @ ch\<rparr>)
      else if ch = [CHR 0x5C] then q\<lparr>qu_escape := True, qu_content := True\<rparr>
      else if ch = [CHR 0x27] then q\<lparr>qu_single := True, qu_content := True\<rparr>
      else if ch = [CHR 0x22] then q\<lparr>qu_double := True, qu_content := True\<rparr>
      else if ch = '' '' \<or> ch = [TAB] then
        (if qu_content q then q\<lparr>qu_items := qu_items q @ [qu_current q], qu_current := [], qu_content := False\<rparr> else q)
      else q\<lparr>qu_current := qu_current q @ ch, qu_content := True\<rparr>)"

definition quote_start :: quoting where
  "quote_start = \<lparr>qu_items = [], qu_current = [], qu_single = False, qu_double = False, qu_escape = False,
     qu_content = False\<rparr>"

definition quoted_chars :: "bytes list \<Rightarrow> bytes list" where
  "quoted_chars chs =
     (let q = foldl quote_step quote_start chs in
      if qu_content q then qu_items q @ [qu_current q] else qu_items q)"

definition parse_quoted_args :: "bytes \<Rightarrow> bytes list" where
  "parse_quoted_args input = quoted_chars (utf8_chars input)"

fun read_quoted :: "bytes list \<Rightarrow> bytes list result" where
  "read_quoted [] = Ok []"
| "read_quoted (l # ls) =
     (if utf8_valid l then and_then (read_quoted ls) (\<lambda>items. Ok (parse_quoted_args (strip_eol l) @ items))
      else Err ''stream did not contain valid UTF-8'')"

definition read_whitespace_delimited :: "bytes \<Rightarrow> bytes list result" where
  "read_whitespace_delimited input = read_quoted (split_inclusive_nl input)"

section \<open>Running\<close>

definition run_command :: "'w exec \<Rightarrow> bytes \<Rightarrow> bool \<Rightarrow> bytes list \<Rightarrow> 'w \<Rightarrow> int \<times> proc_action list \<times> 'w" where
  "run_command exec program trace args w =
     (let traced = (if trace then [Traced (program @ concat (map (\<lambda>a. '' '' @ a) args))] else []);
          (code, acts, w') = run_child exec 127 (\<lambda>e. ''xargs: '' @ program @ '': '' @ e) program args w
      in (code, traced @ acts, w'))"

text \<open>The invocations in order; the status is that of the last one that failed.\<close>

fun run_all :: "'w exec \<Rightarrow> bytes \<Rightarrow> bool \<Rightarrow> bytes list list \<Rightarrow> int \<Rightarrow> 'w \<Rightarrow> int \<times> proc_action list \<times> 'w" where
  "run_all exec program trace [] status w = (status, [], w)"
| "run_all exec program trace (args # rest) status w =
     (let (code, acts, w1) = run_command exec program trace args w;
          (status', acts', w2) = run_all exec program trace rest (if code \<noteq> 0 then code else status) w1
      in (status', acts @ acts', w2))"

text \<open>\<open>str::replace\<close>; an empty pattern matches around every character.\<close>

definition str_replace :: "bytes \<Rightarrow> bytes \<Rightarrow> bytes \<Rightarrow> bytes" where
  "str_replace pat by s =
     (if pat = [] then concat (map (\<lambda>c. by @ c) (utf8_chars s)) @ by else join by (split_str pat s))"

function chunks :: "nat \<Rightarrow> 'a list \<Rightarrow> 'a list list" where
  "chunks n xs = (if xs = [] \<or> n = 0 then [] else take n xs # chunks n (drop n xs))"
  by pat_completeness auto
termination
  by (relation "measure (\<lambda>(n, xs). length xs)") auto

declare chunks.simps [simp del]

definition invocations :: "xargs_options \<Rightarrow> bytes list \<Rightarrow> bytes list \<Rightarrow> bytes list list" where
  "invocations s initial items =
     (case xo_replace s of
        Some repl \<Rightarrow> map (\<lambda>item. map (str_replace repl item) initial) items
      | None \<Rightarrow>
          map (\<lambda>c. initial @ c) (chunks (case xo_max s of Some n \<Rightarrow> n | None \<Rightarrow> max (length items) 1) items)
          @ (if items = [] \<and> \<not> xo_no_run s then [initial] else []))"

definition xargs_run :: "'w exec \<Rightarrow> xargs_options \<Rightarrow> bytes list \<Rightarrow> bytes list \<Rightarrow> 'w \<Rightarrow> int \<times> proc_action list \<times> 'w" where
  "xargs_run exec s cmd items w =
     (let (program, initial) = (case cmd of p # as \<Rightarrow> (p, as) | [] \<Rightarrow> (''echo'', [])) in
      if items = [] \<and> xo_no_run s then (0, [], w)
      else run_all exec program (xo_trace s) (invocations s initial items) 0 w)"

definition xargs :: "'w exec \<Rightarrow> bytes \<Rightarrow> bytes list \<Rightarrow> 'w \<Rightarrow> int \<times> proc_action list \<times> 'w" where
  "xargs exec input argv w =
     (case xargs_args (map from_utf8_lossy (tl argv)) xargs_defaults of
        Err m \<Rightarrow> (1, [Report m], w)
      | Panicked \<Rightarrow> (101, [], w)
      | Ok (s, cmd) \<Rightarrow>
          (case (if xo_null s then Ok (read_null_delimited input) else read_whitespace_delimited input) of
             Err e \<Rightarrow> (1, [Report (''xargs: '' @ e)], w)
           | Panicked \<Rightarrow> (101, [], w)
           | Ok items \<Rightarrow> xargs_run exec s cmd items w))"

section \<open>Quoting\<close>

text \<open>An item between single quotes, with a single quote written as a closing quote, an escaped one
  and an opening one.\<close>

definition quote_char :: "bytes \<Rightarrow> bytes list" where
  "quote_char ch = (if ch = [CHR 0x27] then [[CHR 0x27], [CHR 0x5C], [CHR 0x27], [CHR 0x27]] else [ch])"

definition quote_item :: "bytes list \<Rightarrow> bytes list" where
  "quote_item chs = [CHR 0x27] # concat (map quote_char chs) @ [[CHR 0x27]]"

abbreviation in_quotes :: "bytes list \<Rightarrow> bytes \<Rightarrow> bool \<Rightarrow> bool \<Rightarrow> quoting" where
  "in_quotes items cur single content \<equiv>
     \<lparr>qu_items = items, qu_current = cur, qu_single = single, qu_double = False, qu_escape = False, qu_content = content\<rparr>"

lemma fold_quoted: "foldl quote_step (in_quotes items cur True True) (concat (map quote_char chs)) =
    in_quotes items (cur @ concat chs) True True"
  by (induction chs arbitrary: cur) (auto simp: quote_char_def quote_step_def)

lemma fold_item: "foldl quote_step (in_quotes items [] False False) (quote_item chs) = in_quotes items (concat chs) False True"
proof -
  have "quote_step (in_quotes items [] False False) [CHR 0x27] = in_quotes items [] True True"
    by (simp add: quote_step_def)
  moreover have "quote_step (in_quotes items (concat chs) True True) [CHR 0x27] = in_quotes items (concat chs) False True"
    by (simp add: quote_step_def)
  ultimately show ?thesis by (simp add: quote_item_def fold_quoted)
qed

lemma fold_items:
  "xs \<noteq> [] \<Longrightarrow> foldl quote_step (in_quotes items [] False False) (join ['' ''] (map quote_item xs)) =
     in_quotes (items @ map concat (butlast xs)) (concat (last xs)) False True"
proof (induction xs arbitrary: items)
  case (Cons x xs)
  show ?case
  proof (cases "xs = []")
    case False
    have "quote_step (in_quotes items (concat x) False True) '' '' = in_quotes (items @ [concat x]) [] False False"
      by (simp add: quote_step_def)
    with Cons.IH [OF False, of "items @ [concat x]"] False show ?thesis by (simp add: join_Cons fold_item)
  qed (simp add: fold_item)
qed simp

section \<open>Batches\<close>

lemma chunks_concat: "0 < n \<Longrightarrow> concat (chunks n xs) = xs"
proof (induction n xs rule: chunks.induct)
  case (1 n xs)
  then show ?case by (simp add: chunks.simps [of n xs])
qed

lemma chunks_sizes: "0 < n \<Longrightarrow> c \<in> set (chunks n xs) \<Longrightarrow> c \<noteq> [] \<and> length c \<le> n"
proof (induction n xs rule: chunks.induct)
  case (1 n xs)
  then show ?case by (auto simp: chunks.simps [of n xs] split: if_splits)
qed

lemma started_run_command: "run_command exec p t as w = (c, acts, w') \<Longrightarrow> started acts = [(p, as)]"
  by (auto simp: run_command_def Let_def dest: started_run_childD split: prod.splits if_splits)

lemma started_run_all: "run_all exec p t cmds st w = (c, acts, w') \<Longrightarrow> started acts = map (Pair p) cmds"
proof (induction cmds arbitrary: st w c acts w')
  case (Cons cmd cmds)
  then show ?case by (auto split: prod.splits dest: started_run_command)
qed simp

lemma chunk_size_pos:
  "xo_max s \<noteq> Some 0 \<Longrightarrow> 0 < (case xo_max s of Some n \<Rightarrow> n | None \<Rightarrow> max (length items) 1)"
  by (auto split: option.splits)

section \<open>Properties\<close>

text \<open>Shell quoting is undone exactly: items written between single quotes, with their single
  quotes escaped, and joined by spaces are read back as the same items, also those that are empty or
  contain blanks, backslashes and double quotes.\<close>

theorem quoted_items_round_trip:
  "quoted_chars (join ['' ''] (map quote_item items)) = map concat items"
proof (cases "items = []")
  case True
  then show ?thesis by (simp add: quoted_chars_def quote_start_def)
next
  case False
  then have "map concat (butlast items) @ [concat (last items)] = map concat items"
    by (metis append_butlast_last_id list.simps(8) list.simps(9) map_append)
  with fold_items [OF False, of "[]"] show ?thesis
    by (simp add: quoted_chars_def quote_start_def)
qed

text \<open>The arguments never set \<open>-n\<close> to 0.\<close>

lemma count_arg_pos: "count_arg opt a = Ok n \<Longrightarrow> 0 < n"
  by (auto simp: count_arg_def split: option.splits if_splits)

text \<open>Claim C18: Without \<open>-I\<close> and with an \<open>-n\<close> that is not 0 (the arguments never set it to 0) every item is
  passed to exactly one invocation and in order: the arguments after the initial ones, over all
  invocations, are the items, and each invocation runs the command and gets at most \<open>-n\<close> of them. When
  there are items each invocation gets at least one; when there is none the command runs once with no
  item, or not at all with \<open>-r\<close>.\<close>

theorem xargs_batches_items:
  assumes "xo_replace s = None" and "xo_max s \<noteq> Some 0"
    and "xargs_run exec s (p # initial) items w = (code, acts, w')"
  shows "\<exists>batches. started acts = map (\<lambda>b. (p, initial @ b)) batches \<and> concat batches = items
    \<and> list_all (\<lambda>b. case xo_max s of Some n \<Rightarrow> length b \<le> n | None \<Rightarrow> True) batches
    \<and> (if items = [] then batches = (if xo_no_run s then [] else [[]]) else [] \<notin> set batches)"
proof (cases "items = []")
  case True
  let ?b = "if xo_no_run s then [] else [[]] :: bytes list list"
  have "started acts = map (\<lambda>b. (p, initial @ b)) ?b"
  proof (cases "xo_no_run s")
    case False
    then have "run_all exec p (xo_trace s) [initial] 0 w = (code, acts, w')"
      using assms True by (simp add: xargs_run_def invocations_def chunks.simps)
    from started_run_all [OF this] False show ?thesis by simp
  qed (use assms True in \<open>auto simp: xargs_run_def\<close>)
  with True show ?thesis by (intro exI [of _ ?b]) (auto split: option.split)
next
  case False
  let ?n = "case xo_max s of Some n \<Rightarrow> n | None \<Rightarrow> max (length items) 1"
  have n: "0 < ?n" by (rule chunk_size_pos [OF assms(2)])
  have "run_all exec p (xo_trace s) (map (\<lambda>c. initial @ c) (chunks ?n items)) 0 w = (code, acts, w')"
    using assms False by (simp add: xargs_run_def invocations_def)
  from started_run_all [OF this] have "started acts = map (\<lambda>c. (p, initial @ c)) (chunks ?n items)" by simp
  moreover have "list_all (\<lambda>b. case xo_max s of Some n \<Rightarrow> length b \<le> n | None \<Rightarrow> True) (chunks ?n items)"
    using chunks_sizes [OF n, of _ items]
    by (cases "xo_max s") (fastforce simp: list_all_iff)+
  moreover have "[] \<notin> set (chunks ?n items)" using chunks_sizes [OF n, of _ items] by blast
  ultimately show ?thesis using chunks_concat [OF n, of items] False by auto
qed

lemma xargs_batches_items_witness:
  "\<exists>batches. started (fst (snd (xargs_run (\<lambda>p as w. (Inr ([], [], Some 0), w)) (xargs_defaults\<lparr>xo_max := Some 2\<rparr>)
       [''echo'', ''-n''] [''a'', ''b'', ''c''] ()))) = map (\<lambda>b. (''echo'', [''-n''] @ b)) batches \<and> concat batches = [''a'', ''b'', ''c'']"
proof -
  obtain code acts w' where r: "xargs_run (\<lambda>p as w. (Inr ([], [], Some 0), w)) (xargs_defaults\<lparr>xo_max := Some 2\<rparr>)
      (''echo'' # [''-n'']) [''a'', ''b'', ''c''] () = (code, acts, w')" by (metis prod_cases3)
  from xargs_batches_items [OF _ _ r] r show ?thesis by (auto simp: xargs_defaults_def)
qed

end
