(* ===== verification/Test_Cmd.thy ===== *)
theory Test_Cmd
  imports Dir_Walk Float64 Kernel_Config
begin

text \<open>
  The built-in commands (\<open>libs/builtins/src/lib.rs\<close>): \<open>test\<close>, \<open>sleep\<close>, \<open>whoami\<close> and the process
  test.  File metadata, the number reader of \<open>f64\<close>, the host's sleep and starting a program are
  parameters.
\<close>

section \<open>Conditions\<close>

text \<open>Metadata of a path, when it can be read.\<close>

type_synonym stat = "bytes \<Rightarrow> metadata option"

text \<open>The conditions of two words but \<open>!\<close>, and those of three.\<close>

definition unary_test :: "stat \<Rightarrow> bytes \<Rightarrow> bytes \<Rightarrow> bool" where
  "unary_test M op a =
     (if op = ''-n'' then a \<noteq> []
      else if op = ''-z'' then a = []
      else if op = ''-f'' then (case M a of Some m \<Rightarrow> md_is_file m | None \<Rightarrow> False)
      else if op = ''-d'' then (case M a of Some m \<Rightarrow> md_is_dir m | None \<Rightarrow> False)
      else if op = ''-e'' then M a \<noteq> None
      else if op = ''-s'' then (case M a of Some m \<Rightarrow> 0 < md_len m | None \<Rightarrow> False)
      else if op = ''-r'' \<or> op = ''-w'' \<or> op = ''-x'' then M a \<noteq> None
      else op \<noteq> [])"

definition int_or_zero :: "bytes \<Rightarrow> int" where
  "int_or_zero s = (case parse_signed 64 s of Some n \<Rightarrow> n | None \<Rightarrow> 0)"

definition binary_test :: "bytes \<Rightarrow> bytes \<Rightarrow> bytes \<Rightarrow> bool" where
  "binary_test a op b =
     (if op = ''='' \<or> op = ''=='' then a = b
      else if op = ''!='' then a \<noteq> b
      else if op = ''-eq'' then parse_signed 64 a = parse_signed 64 b
      else if op = ''-ne'' then parse_signed 64 a \<noteq> parse_signed 64 b
      else if op = ''-lt'' then int_or_zero a < int_or_zero b
      else if op = ''-le'' then int_or_zero a \<le> int_or_zero b
      else if op = ''-gt'' then int_or_zero b < int_or_zero a
      else if op = ''-ge'' then int_or_zero b \<le> int_or_zero a
      else False)"

text \<open>Longer lists are cut at the first \<open>-a\<close>, and at the first \<open>-o\<close> when there is none.\<close>

lemma split_once_shrinks:
  "split_once c xs = Some (l, r) \<Longrightarrow> length l < length xs \<and> length r < length xs"
  by (auto simp: split_once_Some)

function eval_test :: "stat \<Rightarrow> bytes list \<Rightarrow> bool" where
  "eval_test M [] = False"
| "eval_test M [a] = (a \<noteq> [])"
| "eval_test M [a, b] = (if a = ''!'' then \<not> eval_test M [b] else unary_test M a b)"
| "eval_test M [a, b, c] = binary_test a b c"
| "eval_test M (a # b # c # d # es) =
     (if a = ''!'' then \<not> eval_test M (b # c # d # es)
      else (case split_once ''-a'' (a # b # c # d # es) of
              Some lr \<Rightarrow> eval_test M (fst lr) \<and> eval_test M (snd lr)
            | None \<Rightarrow>
                (case split_once ''-o'' (a # b # c # d # es) of
                   Some lr \<Rightarrow> eval_test M (fst lr) \<or> eval_test M (snd lr)
                 | None \<Rightarrow> False)))"
  by pat_completeness auto
termination
  by (relation "measure (\<lambda>(M, args). length args)") (auto dest: split_once_shrinks simp del: split_once.simps)

declare eval_test.simps(5) [simp del]

text \<open>A closing bracket is dropped, whatever the name of the command is.\<close>

definition test_cmd :: "stat \<Rightarrow> bytes list \<Rightarrow> run" where
  "test_cmd M argv =
     (let words = map from_utf8_lossy (tl argv);
          args = (if words \<noteq> [] \<and> last words = '']'' then butlast words else words)
      in if args = [] then Exit 1 [] else Exit (if eval_test M args then 0 else 1) [])"

section \<open>Sleeping\<close>

text \<open>\<open>parse_f64\<close> reads a number; \<open>host_ok\<close> is whether the host accepts to sleep.  The time passed to
  the host is in milliseconds, cut to 32 bits; the fallback loop waits for the duration, whose
  construction panics when it is not finite or too long.\<close>

datatype sleep_action = HostSleep nat | BusyWait rat

definition to_u32 :: "f64 \<Rightarrow> nat" where
  "to_u32 x =
     (case x of Fin q \<Rightarrow> min (nat \<lfloor>q\<rfloor>) (2 ^ 32 - 1) | Infinite m \<Rightarrow> if m then 0 else 2 ^ 32 - 1 | NaN \<Rightarrow> 0)"

definition times_1000 :: "f64 \<Rightarrow> f64" where
  "times_1000 x = (case x of Fin q \<Rightarrow> Fin (f_mul q 1000) | _ \<Rightarrow> x)"

text \<open>\<open>Duration::from_secs_f64\<close>; \<open>None\<close> is the panic.\<close>

definition duration_from_secs :: "f64 \<Rightarrow> rat option" where
  "duration_from_secs x =
     (case x of Fin q \<Rightarrow> if 0 \<le> q \<and> q < 2 ^ 64 then Some q else None | _ \<Rightarrow> None)"

definition sleep :: "(bytes \<Rightarrow> f64 option) \<Rightarrow> bool \<Rightarrow> bytes list \<Rightarrow> sleep_action list \<times> run" where
  "sleep parse_f64 host_ok argv =
     (case map from_utf8_lossy (tl argv) of
        [] \<Rightarrow> ([], Exit 1 [StdErr ''sleep: missing operand''])
      | a # _ \<Rightarrow>
          (case parse_f64 a of
             Some secs \<Rightarrow>
               if f64_ge secs (Fin 0) then
                 (let asked = HostSleep (to_u32 (times_1000 secs)) in
                  if host_ok then ([asked], Exit 0 [])
                  else (case duration_from_secs secs of
                          Some d \<Rightarrow> ([asked, BusyWait d], Exit 0 [])
                        | None \<Rightarrow> ([asked], Crash)))
               else ([], Exit 1 [StdErr (''sleep: invalid time interval '' @ quoted a)])
           | None \<Rightarrow> ([], Exit 1 [StdErr (''sleep: invalid time interval '' @ quoted a)])))"

section \<open>The user, and a process test\<close>

definition whoami :: "env \<Rightarrow> run" where
  "whoami E =
     Exit 0 [StdOut (case env_var E ''USER'' of Inr n \<Rightarrow> n
                     | Inl _ \<Rightarrow> (case env_var E ''LOGNAME'' of Inr n \<Rightarrow> n | Inl _ \<Rightarrow> ''user''))]"

definition spawn_test :: "'w exec \<Rightarrow> bytes list \<Rightarrow> 'w \<Rightarrow> int \<times> proc_action list \<times> 'w" where
  "spawn_test exec argv w =
     (let args = map from_utf8_lossy (tl argv);
          program = (case args of [] \<Rightarrow> ''echo'' | p # _ \<Rightarrow> p)
      in run_child exec 1 (\<lambda>e. ''spawn-test: failed to spawn '' @ quoted program @ '': '' @ e) program (tl args) w)"

section \<open>Lists of conditions\<close>

text \<open>A condition of two or three words that holds no connective.\<close>

definition plain_test :: "bytes list \<Rightarrow> bool" where
  "plain_test p \<longleftrightarrow> (length p = 2 \<or> length p = 3) \<and> hd p \<noteq> ''!'' \<and> ''-a'' \<notin> set p \<and> ''-o'' \<notin> set p"

lemma eval_long:
  assumes "4 \<le> length args" and "hd args \<noteq> ''!''"
  shows "eval_test M args =
    (case split_once ''-a'' args of
       Some lr \<Rightarrow> eval_test M (fst lr) \<and> eval_test M (snd lr)
     | None \<Rightarrow> (case split_once ''-o'' args of
                   Some lr \<Rightarrow> eval_test M (fst lr) \<or> eval_test M (snd lr) | None \<Rightarrow> False))"
proof -
  obtain a b c d es where a: "args = a # b # c # d # es"
    using assms(1) by (auto simp: numeral_eq_Suc Suc_le_length_iff)
  with assms(2) have "a \<noteq> ''!''" by simp
  then show ?thesis unfolding a by (simp add: eval_test.simps(5) del: split_once.simps)
qed

lemma set_join: "set (join sep xss) \<subseteq> set sep \<union> (\<Union>xs\<in>set xss. set xs)"
  by (induction sep xss rule: join.induct) auto

lemma join_hd: "xss \<noteq> [] \<Longrightarrow> hd xss \<noteq> [] \<Longrightarrow> hd (join sep xss) = hd (hd xss)"
  by (cases xss) (auto simp: join_Cons)

lemma join_length_hd: "xss \<noteq> [] \<Longrightarrow> length (hd xss) \<le> length (join sep xss)"
  by (cases xss) (auto simp: join_Cons)

text \<open>One connective, between parts that do not hold it.\<close>

lemma eval_or_list:
  assumes "g \<noteq> []" and "list_all plain_test g"
  shows "eval_test M (join [''-o''] g) = list_ex (eval_test M) g \<and> 2 \<le> length (join [''-o''] g)
    \<and> hd (join [''-o''] g) \<noteq> ''!'' \<and> ''-a'' \<notin> set (join [''-o''] g)"
  using assms
proof (induction g)
  case (Cons p ps)
  show ?case
  proof (cases "ps = []")
    case True
    with Cons.prems show ?thesis by (auto simp: plain_test_def)
  next
    case False
    let ?rest = "join [''-o''] ps"
    have p: "plain_test p" and IH: "eval_test M ?rest = list_ex (eval_test M) ps" "2 \<le> length ?rest"
      "''-a'' \<notin> set ?rest"
      using Cons False by auto
    have j: "join [''-o''] (p # ps) = p @ ''-o'' # ?rest" using False by (simp add: join_Cons)
    have ne: "p \<noteq> []" and l: "4 \<le> length (join [''-o''] (p # ps))" and h: "hd (join [''-o''] (p # ps)) \<noteq> ''!''"
      using p IH(2) by (auto simp: j plain_test_def hd_append)
    have "split_once ''-a'' (join [''-o''] (p # ps)) = None"
      using p IH(3) by (auto simp: j plain_test_def split_once_None)
    moreover have "split_once ''-o'' (join [''-o''] (p # ps)) = Some (p, ?rest)"
      using p by (auto simp: j plain_test_def split_once_Some)
    ultimately have "eval_test M (join [''-o''] (p # ps)) = (eval_test M p \<or> eval_test M ?rest)"
      using eval_long [OF l h] by simp
    with IH l h p show ?thesis by (auto simp: j plain_test_def)
  qed
qed simp

section \<open>Properties\<close>

text \<open>A list of conditions is read as a conjunction of disjunctions: groups of conditions joined
  by \<open>-o\<close>, the groups joined by \<open>-a\<close>, hold when every group has a condition that holds.  So, against
  the usual rules of the command, \<open>-o\<close> binds more tightly than \<open>-a\<close>.\<close>

theorem test_connectives:
  assumes "groups \<noteq> []" and "list_all (\<lambda>g. g \<noteq> [] \<and> list_all plain_test g) groups"
  shows "eval_test M (join [''-a''] (map (join [''-o'']) groups)) = list_all (list_ex (eval_test M)) groups"
  using assms
proof (induction groups)
  case (Cons g gs)
  have g: "eval_test M (join [''-o''] g) = list_ex (eval_test M) g" "2 \<le> length (join [''-o''] g)"
    "hd (join [''-o''] g) \<noteq> ''!''" "''-a'' \<notin> set (join [''-o''] g)"
    using eval_or_list [of g M] Cons.prems by auto
  show ?case
  proof (cases "gs = []")
    case False
    let ?rest = "join [''-a''] (map (join [''-o'']) gs)"
    have j: "join [''-a''] (map (join [''-o'']) (g # gs)) = join [''-o''] g @ ''-a'' # ?rest"
      using False by (simp add: join_Cons)
    have "1 \<le> length ?rest"
    proof -
      have "2 \<le> length (join [''-o''] (hd gs))" using eval_or_list [of "hd gs" M] Cons.prems False by (cases gs) auto
      with join_length_hd [of "map (join [''-o'']) gs" "[''-a'']"] False show ?thesis by (simp add: hd_map)
    qed
    then have "4 \<le> length (join [''-o''] g @ ''-a'' # ?rest)" "hd (join [''-o''] g @ ''-a'' # ?rest) \<noteq> ''!''"
      using g(2,3) by (auto simp: hd_append)
    moreover have "split_once ''-a'' (join [''-o''] g @ ''-a'' # ?rest) = Some (join [''-o''] g, ?rest)"
      using g(4) by (simp add: split_once_Some)
    ultimately have "eval_test M (join [''-a''] (map (join [''-o'']) (g # gs))) = (eval_test M (join [''-o''] g) \<and> eval_test M ?rest)"
      unfolding j by (simp add: eval_long del: split_once.simps)
    with g(1) Cons False show ?thesis by simp
  qed (use g(1) in simp)
qed simp

lemma test_connectives_witness:
  "eval_test (\<lambda>_. None) (join [''-a''] (map (join [''-o'']) [[[''-n'', ''x''], [''1'', ''-lt'', ''2'']], [[''-z'', ''x'']]]))
   = list_all (list_ex (eval_test (\<lambda>_. None))) [[[''-n'', ''x''], [''1'', ''-lt'', ''2'']], [[''-z'', ''x'']]]"
  by (rule test_connectives) (simp_all add: plain_test_def)

text \<open>Two short lists that are always false: a negated file test of three words is read as a binary
  test with an unknown operator, and so is the conjunction of two single words.\<close>

lemma test_short_lists:
  "eval_test M [''!'', ''-f'', a] = False" "eval_test M [''x'', ''-a'', ''y''] = False"
  by (simp_all add: binary_test_def)

end
