(* ===== verification/Shims_Cmd.thy ===== *)
theory Shims_Cmd
  imports Test_Cmd
begin

text \<open>
  The commands that wrap another program (\<open>libs/shims/src/\<close>): \<open>env\<close>, \<open>timeout\<close>, \<open>nice\<close>, \<open>nohup\<close> and
  \<open>stdbuf\<close>.  The program, the child process and the clock are parameters.
\<close>

section \<open>env\<close>

record env_options =
  eo_ignore :: bool
  eo_unset :: "bytes list"
  eo_set :: "(bytes \<times> bytes) list"
  eo_command :: "bytes list"

definition env_defaults :: env_options where
  "env_defaults = \<lparr>eo_ignore = False, eo_unset = [], eo_set = [], eo_command = []\<rparr>"

text \<open>The first argument that is neither an option nor an assignment starts the command; no command is
  the empty list.\<close>

function env_args :: "bytes list \<Rightarrow> env_options \<Rightarrow> env_options result" where
  "env_args args s =
     (case args of
        [] \<Rightarrow> Ok s
      | a # rest \<Rightarrow>
          if a = ''-i'' \<or> a = ''--ignore-environment'' then env_args rest (s\<lparr>eo_ignore := True\<rparr>)
          else if a = ''-u'' \<or> a = ''--unset'' then
            (case rest of
               v # rest' \<Rightarrow> env_args rest' (s\<lparr>eo_unset := eo_unset s @ [v]\<rparr>)
             | [] \<Rightarrow> Err (''env: option requires an argument -- '' @ quoted ''u''))
          else (case split_once CHR ''='' a of
                  Some kv \<Rightarrow> env_args rest (s\<lparr>eo_set := eo_set s @ [kv]\<rparr>)
                | None \<Rightarrow> Ok (s\<lparr>eo_command := args\<rparr>)))"
  by pat_completeness auto
termination
  by (relation "measure (\<lambda>(args, s). length args)") simp_all

declare env_args.simps [simp del]

text \<open>What is printed without a command: \<open>vars\<close> is the inherited environment, as a list.\<close>

definition env_printed :: "env_options \<Rightarrow> (bytes \<times> bytes) list \<Rightarrow> (bytes \<times> bytes) list" where
  "env_printed s vars =
     (if eo_ignore s then eo_set s
      else filter (\<lambda>kv. fst kv \<notin> set (eo_unset s)) vars @ eo_set s)"

definition env_line :: "bytes \<times> bytes \<Rightarrow> bytes" where
  "env_line kv = fst kv @ ''='' @ snd kv"

text \<open>The environment of the child: the inherited one or none, the removals, then the assignments.\<close>

definition child_env :: "env_options \<Rightarrow> (bytes \<times> bytes) list \<Rightarrow> bytes \<rightharpoonup> bytes" where
  "child_env s vars =
     foldl (\<lambda>m kv. m(fst kv \<mapsto> snd kv))
       (foldl (\<lambda>m v. m(v := None)) (if eo_ignore s then Map.empty else map_of vars) (eo_unset s)) (eo_set s)"

definition env_cmd ::
  "((bytes \<rightharpoonup> bytes) \<Rightarrow> 'w exec) \<Rightarrow> (bytes \<times> bytes) list \<Rightarrow> bytes list \<Rightarrow> 'w \<Rightarrow> int \<times> proc_action list \<times> 'w" where
  "env_cmd exec vars argv w =
     (case env_args (map from_utf8_lossy (tl argv)) env_defaults of
        Err m \<Rightarrow> (125, [Report m], w)
      | Panicked \<Rightarrow> (101, [], w)
      | Ok s \<Rightarrow>
          (case eo_command s of
             [] \<Rightarrow> (0, map (\<lambda>kv. Output (env_line kv @ [NL]) []) (env_printed s vars), w)
           | program # args \<Rightarrow>
               run_child (exec (child_env s vars)) 127 (\<lambda>e. ''env: '' @ quoted program @ '': '' @ e) program args w))"

section \<open>nice, nohup, stdbuf\<close>

definition nice_skip :: "bytes list \<Rightarrow> nat" where
  "nice_skip args =
     (case args of
        [] \<Rightarrow> 0
      | a # rest \<Rightarrow>
          if rest \<noteq> [] \<and> a = ''-n'' then 2
          else if prefix ''-'' a \<and> parse_signed 32 (tl a) \<noteq> None then 1 else 0)"

definition nice :: "'w exec \<Rightarrow> bytes list \<Rightarrow> 'w \<Rightarrow> int \<times> proc_action list \<times> 'w" where
  "nice exec argv w =
     (let args = map from_utf8_lossy (tl argv) in
      case drop (nice_skip args) args of
        [] \<Rightarrow> (0, [Output (''0'' @ [NL]) []], w)
      | program # rest \<Rightarrow> run_child exec 127 (\<lambda>e. ''nice: '' @ quoted program @ '': '' @ e) program rest w)"

definition nohup :: "'w exec \<Rightarrow> bytes list \<Rightarrow> 'w \<Rightarrow> int \<times> proc_action list \<times> 'w" where
  "nohup exec argv w =
     (case map from_utf8_lossy (tl argv) of
        [] \<Rightarrow> (127, [Report ''nohup: missing operand''], w)
      | program # rest \<Rightarrow>
          run_child exec 127 (\<lambda>e. ''nohup: failed to run command '' @ quoted program @ '': '' @ e) program rest w)"

definition buffering_options :: "bytes list" where
  "buffering_options = [''-i'', ''-o'', ''-e'', ''--input'', ''--output'', ''--error'']"

text \<open>The arguments from the command on, if the loop finds one.\<close>

fun skip_buffering :: "bytes list \<Rightarrow> bytes list option" where
  "skip_buffering [] = None"
| "skip_buffering [a] = (if prefix ''-'' a then None else Some [a])"
| "skip_buffering (a # b # rest) =
     (if a \<in> set buffering_options then skip_buffering rest
      else if prefix ''-'' a then skip_buffering (b # rest)
      else Some (a # b # rest))"

text \<open>The position of the command starts at 0 and keeps that value when the loop finds none.\<close>

definition stdbuf :: "'w exec \<Rightarrow> bytes list \<Rightarrow> 'w \<Rightarrow> int \<times> proc_action list \<times> 'w" where
  "stdbuf exec argv w =
     (let args = map from_utf8_lossy (tl argv) in
      case (case skip_buffering args of Some cmd \<Rightarrow> cmd | None \<Rightarrow> args) of
        [] \<Rightarrow> (125, [Report ''stdbuf: missing operand''], w)
      | program # rest \<Rightarrow>
          run_child exec 127 (\<lambda>e. ''stdbuf: failed to run command '' @ quoted program @ '': '' @ e) program rest w)"

section \<open>timeout\<close>

text \<open>The child as the loop sees it: the answer of the k-th poll, and the time since the start read
  after it.\<close>

datatype poll = Exited "int option" | Running | WaitError bytes

record child =
  ch_poll :: "nat \<Rightarrow> poll"
  ch_elapsed :: "nat \<Rightarrow> rat"

text \<open>The status, the texts of errors, and whether the child was killed and reaped.\<close>

partial_function (option) wait_loop :: "child \<Rightarrow> rat \<Rightarrow> nat \<Rightarrow> (int \<times> bytes list \<times> bool) option" where
  "wait_loop ch limit k =
     (case ch_poll ch k of
        Exited c \<Rightarrow> Some (case c of Some s \<Rightarrow> s | None \<Rightarrow> 1, [], False)
      | Running \<Rightarrow> if limit \<le> ch_elapsed ch k then Some (124, [], True) else wait_loop ch limit (Suc k)
      | WaitError e \<Rightarrow> Some (125, [''timeout: error waiting for command: '' @ e], False))"

datatype timeout_end = Ended int "bytes list" bool | PanickedAfterStart | Forever

definition timeout_cmd ::
  "(bytes \<Rightarrow> f64 option) \<Rightarrow> (bytes \<Rightarrow> bytes list \<Rightarrow> bytes + child) \<Rightarrow> bytes list \<Rightarrow> timeout_end" where
  "timeout_cmd parse_f64 spawn argv =
     (case map from_utf8_lossy (tl argv) of
        [] \<Rightarrow> Ended 125 [''timeout: missing operand''] False
      | [a] \<Rightarrow> Ended 125 [''timeout: missing operand after '' @ quoted a] False
      | a # program # args \<Rightarrow>
          (case (case parse_f64 a of Some d \<Rightarrow> if f64_ge d (Fin 0) then Some d else None | None \<Rightarrow> None) of
             None \<Rightarrow> Ended 125 [''timeout: invalid time interval '' @ quoted a] False
           | Some d \<Rightarrow>
               (case spawn program args of
                  Inl e \<Rightarrow> Ended 127 [''timeout: failed to run command '' @ quoted program @ '': '' @ e] False
                | Inr ch \<Rightarrow>
                    (case duration_from_secs d of
                       None \<Rightarrow> PanickedAfterStart
                     | Some limit \<Rightarrow>
                         (case wait_loop ch limit 0 of
                            Some (status, errs, killed) \<Rightarrow> Ended status errs killed
                          | None \<Rightarrow> Forever)))))"

section \<open>The environment of a child\<close>

lemma fold_assign: "foldl (\<lambda>m kv. m(fst kv \<mapsto> snd kv)) m kvs = m ++ map_of (rev kvs)"
  by (induction kvs arbitrary: m) (auto simp: map_add_def fun_eq_iff split: option.split)

lemma fold_remove: "foldl (\<lambda>m v. m(v := None)) m vs = (\<lambda>k. if k \<in> set vs then None else m k)"
  by (induction vs arbitrary: m) auto

lemma map_of_filter_keys: "map_of (filter (\<lambda>kv. fst kv \<notin> S) kvs) k = (if k \<in> S then None else map_of kvs k)"
  by (induction kvs) auto

lemma distinct_map_of_rev: "distinct (map fst kvs) \<Longrightarrow> map_of (rev kvs) = map_of kvs"
  using map_of_inject_set [of "rev kvs" kvs] by (simp add: rev_map [symmetric])

section \<open>The wait\<close>

lemma wait_loop_ends:
  assumes "limit \<le> ch_elapsed ch n" and "i \<le> n" and "\<And>j. i \<le> j \<Longrightarrow> j < k \<Longrightarrow> ch_poll ch j = Running \<and> ch_elapsed ch j < limit"
    and "i \<le> k" and "\<not> (ch_poll ch k = Running \<and> ch_elapsed ch k < limit)"
  shows "wait_loop ch limit i = wait_loop ch limit k"
  using assms(3,4)
proof (induction "k - i" arbitrary: i)
  case (Suc d)
  then have "ch_poll ch i = Running" "ch_elapsed ch i < limit" by auto
  then have "wait_loop ch limit i = wait_loop ch limit (Suc i)"
    by (subst wait_loop.simps) simp
  also have "\<dots> = wait_loop ch limit k" using Suc by (intro Suc.hyps(1)) auto
  finally show ?case .
qed simp

section \<open>Properties\<close>

text \<open>The child gets the environment that \<open>env\<close> prints without a command, read so that the
  last line of a variable counts: the assignments, in their order, win over the inherited values,
  which are dropped with \<open>-i\<close> and for the variables of \<open>-u\<close>.\<close>

theorem env_prints_child_env:
  assumes "distinct (map fst vars)"
  shows "map_of (rev (env_printed s vars)) = child_env s vars"
proof
  fix k
  have "map_of (rev (filter (\<lambda>kv. fst kv \<notin> set (eo_unset s)) vars)) = map_of (filter (\<lambda>kv. fst kv \<notin> set (eo_unset s)) vars)"
    using assms by (intro distinct_map_of_rev) (simp add: distinct_map_filter)
  then show "map_of (rev (env_printed s vars)) k = child_env s vars k"
    by (auto simp: env_printed_def child_env_def fold_assign fold_remove map_of_filter_keys map_add_def
        split: option.split)
qed

lemma env_prints_child_env_witness:
  "map_of (rev (env_printed \<lparr>eo_ignore = False, eo_unset = [''B''], eo_set = [(''A'', ''2'')], eo_command = []\<rparr>
     [(''A'', ''1''), (''B'', ''1'')])) = child_env \<lparr>eo_ignore = False, eo_unset = [''B''], eo_set = [(''A'', ''2'')], eo_command = []\<rparr>
     [(''A'', ''1''), (''B'', ''1'')]"
  by (rule env_prints_child_env) simp

text \<open>\<open>timeout\<close> returns as soon as the clock passes the limit: it reports the status of a child
  that ended at the first poll that says so, and kills the child with status 124 at the first poll
  that finds it running at or after the limit, never before.\<close>

theorem timeout_returns:
  assumes "limit \<le> ch_elapsed ch n"
  shows "\<exists>k\<le>n. (\<forall>j<k. ch_poll ch j = Running \<and> ch_elapsed ch j < limit)
    \<and> wait_loop ch limit 0 = Some (case ch_poll ch k of
         Exited c \<Rightarrow> (case c of Some s \<Rightarrow> s | None \<Rightarrow> 1, [], False)
       | Running \<Rightarrow> (124, [], True)
       | WaitError e \<Rightarrow> (125, [''timeout: error waiting for command: '' @ e], False))
    \<and> (ch_poll ch k = Running \<longrightarrow> limit \<le> ch_elapsed ch k)"
proof -
  let ?stop = "\<lambda>k. \<not> (ch_poll ch k = Running \<and> ch_elapsed ch k < limit)"
  define k where "k = (LEAST k. ?stop k)"
  have s: "?stop n" using assms by simp
  from s have k: "?stop k" unfolding k_def by (rule LeastI)
  have b: "ch_poll ch j = Running \<and> ch_elapsed ch j < limit" if "j < k" for j
    using not_less_Least [of j ?stop] that by (auto simp: k_def)
  from s have "k \<le> n" unfolding k_def by (rule Least_le)
  moreover have "wait_loop ch limit 0 = wait_loop ch limit k"
    by (rule wait_loop_ends [OF assms _ b _ k]) simp_all
  moreover have "wait_loop ch limit k = Some (case ch_poll ch k of
         Exited c \<Rightarrow> (case c of Some s \<Rightarrow> s | None \<Rightarrow> 1, [], False)
       | Running \<Rightarrow> (124, [], True)
       | WaitError e \<Rightarrow> (125, [''timeout: error waiting for command: '' @ e], False))"
    using k by (subst wait_loop.simps) (auto split: poll.split)
  ultimately show ?thesis using k b by (intro exI [of _ k]) auto
qed

lemma timeout_returns_witness:
  "wait_loop \<lparr>ch_poll = (\<lambda>k. Running), ch_elapsed = (\<lambda>k. of_nat k)\<rparr> 3 0 = Some (124, [], True)"
  using timeout_returns [of 3 "\<lparr>ch_poll = (\<lambda>k. Running), ch_elapsed = (\<lambda>k. of_nat k)\<rparr>" 3] by auto

text \<open>Two more behaviours: an infinite limit panics after the child was started, and \<open>stdbuf\<close> with
  options only runs its first option as the command.\<close>

lemma timeout_inf_panics:
  "parse_f64 ''inf'' = Some (Infinite False) \<Longrightarrow> spawn ''p'' [] = Inr ch \<Longrightarrow>
     timeout_cmd parse_f64 spawn [''timeout'', ''inf'', ''p''] = PanickedAfterStart"
  by (simp add: timeout_cmd_def duration_from_secs_def from_utf8_lossy_valid utf8_valid_ascii byte_def)

lemma stdbuf_options_only:
  "started (fst (snd (stdbuf exec [''stdbuf'', ''-oL''] w))) = [(''-oL'', [])]"
  by (simp add: stdbuf_def from_utf8_lossy_valid utf8_valid_ascii byte_def Let_def)

end
