(* ===== verification/Utf8.thy ===== *)
theory Utf8
  imports RustStr
begin

text \<open>
  Characters of valid UTF-8 text: a valid text is exactly a sequence of valid characters, and
  \<open>utf8_chars\<close> finds them.
\<close>

definition utf8_char :: "bytes \<Rightarrow> bool" where
  "utf8_char c \<longleftrightarrow> c \<noteq> [] \<and> utf8_step c = (True, length c)"

lemma second_ok_cont: "second_ok b0 (byte c) \<Longrightarrow> is_cont c"
  by (auto simp: second_ok_def between_def is_cont_def split: if_splits)

lemma cont_at_simps [simp]: "\<not> cont_at [] i" "cont_at (c # cs) 0 \<longleftrightarrow> is_cont c" "cont_at (c # cs) (Suc i) \<longleftrightarrow> cont_at cs i"
  by (auto simp: cont_at_def)

lemma utf8_step_True:
  assumes "utf8_step (c # bs) = (True, n)"
  shows "0 < n \<and> n \<le> Suc (length bs) \<and> \<not> is_cont c \<and> list_all is_cont (take (n - 1) bs)"
proof (cases bs)
  case Nil
  with assms show ?thesis by (auto simp: utf8_step.simps Let_def is_cont_def between_def split: if_splits)
next
  case b1: (Cons c1 bs1)
  show ?thesis
  proof (cases bs1)
    case Nil
    with assms b1 show ?thesis
      by (auto simp: utf8_step.simps Let_def is_cont_def [of c] between_def dest: second_ok_cont split: if_splits)
  next
    case b2: (Cons c2 bs2)
    with assms b1 show ?thesis
      by (cases bs2) (auto simp: utf8_step.simps Let_def is_cont_def [of c] between_def numeral_eq_Suc
          dest: second_ok_cont split: if_splits)
  qed
qed

lemma utf8_step_append:
  assumes "utf8_step a = (True, n)" and "a \<noteq> []"
  shows "utf8_step (a @ b) = (True, n)"
proof -
  obtain c cs where a: "a = c # cs" using assms(2) by (cases a) auto
  have "cont_at (cs @ b) i" if "cont_at cs i" for i using that by (auto simp: cont_at_def nth_append)
  moreover have "hd (cs @ b) = hd cs" if "cs \<noteq> []" using that by (cases cs) auto
  ultimately show ?thesis using assms(1) unfolding a
    by (cases "cs = []") (auto simp: utf8_step.simps Let_def split: if_splits)
qed

lemma utf8_step_take:
  assumes "utf8_step (c # bs) = (True, n)"
  shows "utf8_char (take n (c # bs))"
proof (cases bs)
  case Nil
  with assms show ?thesis
    by (auto simp: utf8_char_def utf8_step.simps Let_def split: if_splits)
next
  case b1: (Cons c1 bs1)
  show ?thesis
  proof (cases bs1)
    case Nil
    with assms b1 show ?thesis by (auto simp: utf8_char_def utf8_step.simps Let_def numeral_eq_Suc split: if_splits)
  next
    case b2: (Cons c2 bs2)
    with assms b1 show ?thesis
      by (cases bs2) (auto simp: utf8_char_def utf8_step.simps Let_def numeral_eq_Suc split: if_splits)
  qed
qed

lemma utf8_char_shape: "utf8_char c \<Longrightarrow> \<exists>x xs. c = x # xs \<and> \<not> is_cont x \<and> list_all is_cont xs"
  using utf8_step_True by (cases c) (fastforce simp: utf8_char_def)+

lemma utf8_valid_Nil [simp]: "utf8_valid []"
  by (simp add: utf8_valid.simps)

lemma utf8_valid_char_append: "utf8_char c \<Longrightarrow> utf8_valid (c @ s) = utf8_valid s"
  by (subst utf8_valid.simps) (simp add: utf8_char_def utf8_step_append)

lemma utf8_valid_concat: "list_all utf8_char cs \<Longrightarrow> utf8_valid (concat cs)"
  by (induction cs) (simp_all add: utf8_valid_char_append)

lemma starts_no_cont: "list_all utf8_char cs \<Longrightarrow> concat cs = [] \<or> \<not> is_cont (hd (concat cs))"
  using utf8_char_shape by (cases cs) fastforce+

lemma utf8_chars_char_append:
  assumes "utf8_char c" and "s = [] \<or> \<not> is_cont (hd s)"
  shows "utf8_chars (c @ s) = c # utf8_chars s"
proof -
  obtain x xs where c: "c = x # xs" "list_all is_cont xs" using utf8_char_shape [OF assms(1)] by blast
  have "takeWhile is_cont (xs @ s) = xs" "dropWhile is_cont (xs @ s) = s"
    using c(2) assms(2) by (cases s; simp add: list_all_iff takeWhile_append dropWhile_append)+
  with c(1) show ?thesis by simp
qed

lemma utf8_chars_concat [simp]: "list_all utf8_char cs \<Longrightarrow> utf8_chars (concat cs) = cs"
proof (induction cs)
  case (Cons c cs)
  then show ?case using starts_no_cont [of cs] by (simp only: concat.simps list.pred_inject utf8_chars_char_append)
qed simp

text \<open>A valid text is the concatenation of its characters.\<close>

lemma utf8_valid_chars:
  assumes "utf8_valid s"
  shows "\<exists>cs. list_all utf8_char cs \<and> s = concat cs"
  using assms
proof (induction s rule: utf8_valid.induct)
  case (1 bs)
  show ?case
  proof (cases bs)
    case Nil
    then show ?thesis by (intro exI [of _ "[]"]) simp
  next
    case (Cons c cs)
    obtain n where n: "utf8_step bs = (True, n)" "utf8_valid (drop n bs)"
      using "1.prems" Cons by (cases "utf8_step bs") (auto simp: utf8_valid.simps [of "c # cs"])
    with "1.IH" Cons obtain ds where "list_all utf8_char ds" "drop n bs = concat ds" by auto
    moreover have "utf8_char (take n bs)" using n(1) utf8_step_take Cons by blast
    ultimately show ?thesis
      by (intro exI [of _ "take n bs # ds"]) (metis append_take_drop_id concat.simps(2) list.pred_inject(2))
  qed
qed

lemma utf8_chars_valid: "utf8_valid s \<Longrightarrow> list_all utf8_char (utf8_chars s)"
  using utf8_valid_chars [of s] by auto

lemma utf8_valid_append:
  assumes "utf8_valid s" and "utf8_valid t"
  shows "utf8_valid (s @ t)"
proof -
  obtain cs ds where "list_all utf8_char cs" "s = concat cs" "list_all utf8_char ds" "t = concat ds"
    using assms utf8_valid_chars by metis
  then show ?thesis using utf8_valid_concat [of "cs @ ds"] by simp
qed

lemma utf8_chars_append:
  assumes "utf8_valid s" and "utf8_valid t"
  shows "utf8_chars (s @ t) = utf8_chars s @ utf8_chars t"
proof -
  obtain cs ds where "list_all utf8_char cs" "s = concat cs" "list_all utf8_char ds" "t = concat ds"
    using assms utf8_valid_chars by metis
  then show ?thesis using utf8_chars_concat [of "cs @ ds"] by simp
qed

section \<open>Lines\<close>

lemma split_inclusive_nl_line: "NL \<notin> set l \<Longrightarrow> split_inclusive_nl (l @ NL # s) = (l @ [NL]) # split_inclusive_nl s"
  by (induction l) auto

lemma split_inclusive_nl_lines:
  "list_all (\<lambda>l. NL \<notin> set l) ls \<Longrightarrow> split_inclusive_nl (concat (map (\<lambda>l. l @ [NL]) ls)) = map (\<lambda>l. l @ [NL]) ls"
  by (induction ls) (simp_all add: split_inclusive_nl_line)

lemma strip_eol_line: "CR \<notin> set l \<Longrightarrow> strip_eol (l @ [NL]) = l"
  by (auto simp: strip_eol_def suffix_def)

lemma reader_lines_unlines:
  assumes "list_all (\<lambda>l. utf8_valid l \<and> NL \<notin> set l \<and> CR \<notin> set l) ls"
  shows "reader_lines (concat (map (\<lambda>l. l @ [NL]) ls)) = map Some ls"
proof -
  have "utf8_valid (l @ [NL])" if "l \<in> set ls" for l
    using that assms utf8_valid_append [of l "[NL]"] utf8_valid_ascii [of "[NL]"]
    by (auto simp: list_all_iff byte_def)
  moreover have "split_inclusive_nl (concat (map (\<lambda>l. l @ [NL]) ls)) = map (\<lambda>l. l @ [NL]) ls"
    using assms by (intro split_inclusive_nl_lines) (auto simp: list_all_iff)
  ultimately show ?thesis using assms by (auto simp: reader_lines_def list_all_iff strip_eol_line)
qed

end
