(* ===== verification/Rev_Cmd.thy ===== *)
theory Rev_Cmd
  imports Utf8
begin

text \<open>
  The \<open>rev\<close> command (\<open>libs/rev/src/lib.rs\<close>): each line with its characters in reverse.  Opening a file
  and reading standard input are parameters.
\<close>

definition rev_line :: "bytes \<Rightarrow> bytes" where
  "rev_line l = concat (rev (utf8_chars l))"

text \<open>The reversed lines, up to a line that cannot be read.\<close>

fun process_lines :: "bytes option list \<Rightarrow> bytes list \<times> bytes option" where
  "process_lines [] = ([], None)"
| "process_lines (None # ls) = ([], Some ''stream did not contain valid UTF-8'')"
| "process_lines (Some l # ls) = (let (out, e) = process_lines ls in (rev_line l # out, e))"

definition process_reader :: "bytes \<Rightarrow> bytes list \<times> bytes option" where
  "process_reader content = process_lines (reader_lines content)"

fun rev_files :: "(bytes \<Rightarrow> bytes + bytes) \<Rightarrow> bytes list \<Rightarrow> run" where
  "rev_files opn [] = Exit 0 []"
| "rev_files opn (f # fs) =
     (case opn f of
        Inl e \<Rightarrow> Exit 1 [StdErr (''rev: '' @ f @ '': '' @ e)]
      | Inr content \<Rightarrow>
          (case process_reader content of
             (out, Some e) \<Rightarrow> Exit 1 (map StdOut out @ [StdErr (''rev: '' @ f @ '': '' @ e)])
           | (out, None) \<Rightarrow>
               (case rev_files opn fs of Exit c rest \<Rightarrow> Exit c (map StdOut out @ rest) | Crash \<Rightarrow> Crash)))"

definition rev_main :: "(bytes \<Rightarrow> bytes + bytes) \<Rightarrow> bytes \<Rightarrow> bytes list \<Rightarrow> run" where
  "rev_main opn stdin argv =
     (case map from_utf8_lossy (tl argv) of
        [] \<Rightarrow>
          (case process_reader stdin of
             (out, Some e) \<Rightarrow> Exit 1 (map StdOut out @ [StdErr (''rev: '' @ e)])
           | (out, None) \<Rightarrow> Exit 0 (map StdOut out))
      | fs \<Rightarrow> rev_files opn fs)"

text \<open>The text written for a list of lines.\<close>

definition unlines :: "bytes list \<Rightarrow> bytes" where
  "unlines ls = concat (map (\<lambda>l. l @ [NL]) ls)"

definition plain_line :: "bytes \<Rightarrow> bool" where
  "plain_line l \<longleftrightarrow> utf8_valid l \<and> NL \<notin> set l \<and> CR \<notin> set l"

lemma rev_line_plain:
  assumes "utf8_valid l"
  shows "utf8_valid (rev_line l)" "rev_line (rev_line l) = l" "set (rev_line l) = set l"
proof -
  have c: "list_all utf8_char (rev (utf8_chars l))" using utf8_chars_valid [OF assms] by (simp add: list_all_iff)
  show "utf8_valid (rev_line l)" unfolding rev_line_def by (rule utf8_valid_concat [OF c])
  show "rev_line (rev_line l) = l" by (simp add: rev_line_def utf8_chars_concat [OF c])
  have "set (concat (rev (utf8_chars l))) = set (concat (utf8_chars l))" by (simp only: set_concat set_rev)
  then show "set (rev_line l) = set l" by (simp only: rev_line_def concat_utf8_chars)
qed

lemma process_lines_all: "process_lines (map Some ls) = (map rev_line ls, None)"
  by (induction ls) auto

lemma process_reader_unlines: "list_all plain_line ls \<Longrightarrow> process_reader (unlines ls) = (map rev_line ls, None)"
  using reader_lines_unlines [of ls]
  by (simp add: process_reader_def unlines_def plain_line_def [abs_def] process_lines_all)

text \<open>Reversing the lines of a UTF-8 text twice gives the text back, whatever characters the
  lines hold: the command works on characters, not on bytes, and its output is valid text again.\<close>

theorem rev_twice:
  assumes "list_all plain_line ls"
  shows "\<exists>ls'. rev_main opn (unlines ls) [''rev''] = Exit 0 (map StdOut ls')
    \<and> rev_main opn (unlines ls') [''rev''] = Exit 0 (map StdOut ls)
    \<and> map (\<lambda>l. length (utf8_chars l)) ls' = map (\<lambda>l. length (utf8_chars l)) ls"
proof (intro exI conjI)
  have l: "list_all plain_line (map rev_line ls)"
    using assms by (auto simp: list_all_iff plain_line_def rev_line_plain)
  show "rev_main opn (unlines ls) [''rev''] = Exit 0 (map StdOut (map rev_line ls))"
    using assms by (simp add: rev_main_def process_reader_unlines)
  have "map rev_line (map rev_line ls) = ls"
    using assms by (induction ls) (simp_all add: plain_line_def rev_line_plain)
  then show "rev_main opn (unlines (map rev_line ls)) [''rev''] = Exit 0 (map StdOut ls)"
    using l by (simp add: rev_main_def process_reader_unlines)
  have "length (utf8_chars (rev_line x)) = length (utf8_chars x)" if "utf8_valid x" for x
    using utf8_chars_valid [OF that] by (simp add: rev_line_def list_all_iff)
  then show "map (\<lambda>l. length (utf8_chars l)) (map rev_line ls) = map (\<lambda>l. length (utf8_chars l)) ls"
    using assms by (auto simp: list_all_iff plain_line_def)
qed

lemma rev_twice_witness:
  "\<exists>ls'. rev_main (\<lambda>_. Inl ''none'') (unlines [''ab'', [CHR 0x63, CHR 0xC3, CHR 0xA9]]) [''rev''] = Exit 0 (map StdOut ls')"
proof -
  have "list_all plain_line [''ab'', [CHR 0x63, CHR 0xC3, CHR 0xA9]]"
    by (simp add: plain_line_def utf8_valid.simps [of "''ab''"] utf8_valid.simps [of "''b''"]
        utf8_valid.simps [of "[CHR 0x63, CHR 0xC3, CHR 0xA9]"] utf8_valid.simps [of "[CHR 0xC3, CHR 0xA9]"]
        utf8_step.simps byte_def between_def second_ok_def Let_def)
  from rev_twice [OF this] show ?thesis by blast
qed

end
