(* ===== verification/Strings_Cmd.thy ===== *)
theory Strings_Cmd
  imports Process
begin

text \<open>
  The \<open>strings\<close> command (\<open>libs/strings-cmd/src/lib.rs\<close>): the runs of printable bytes of a file.
  Opening and reading a file are parameters.
\<close>

section \<open>The scan\<close>

definition is_printable_ascii :: "char \<Rightarrow> bool" where
  "is_printable_ascii b \<longleftrightarrow> b = TAB \<or> 0x20 \<le> byte b \<and> byte b \<le> 0x7E"

text \<open>The loop over the bytes: the position, the start of the current run, and the run; the result is
  the emitted runs with their offsets.\<close>

fun extract_loop :: "nat \<Rightarrow> nat \<Rightarrow> nat option \<Rightarrow> bytes \<Rightarrow> bytes \<Rightarrow> (nat \<times> bytes) list" where
  "extract_loop m i start run [] =
     (if m \<le> length run then [(case start of Some s \<Rightarrow> s | None \<Rightarrow> 0, run)] else [])"
| "extract_loop m i start run (b # bs) =
     (if is_printable_ascii b
      then extract_loop m (i + 1) (if run = [] then Some i else start) (run @ [b]) bs
      else (if m \<le> length run then [(case start of Some s \<Rightarrow> s | None \<Rightarrow> 0, run)] else [])
           @ extract_loop m (i + 1) None [] bs)"

definition offset_text :: "char option \<Rightarrow> nat \<Rightarrow> bytes" where
  "offset_text fmt offset =
     (case fmt of
        Some f \<Rightarrow>
          if f = CHR ''d'' then pad_left 7 (show_nat offset) @ '' ''
          else if f = CHR ''o'' then pad_left 7 (show_radix 8 offset) @ '' ''
          else if f = CHR ''x'' then pad_left 7 (show_radix 16 offset) @ '' ''
          else []
      | None \<Rightarrow> [])"

definition extract_strings :: "bytes \<Rightarrow> nat \<Rightarrow> char option \<Rightarrow> bytes list" where
  "extract_strings data m fmt = map (\<lambda>(off, run). offset_text fmt off @ run) (extract_loop m 0 None [] data)"

section \<open>The command\<close>

record strings_options =
  so_min :: nat
  so_format :: "char option"
  so_files :: "bytes list"

definition min_length :: "bytes \<Rightarrow> nat option" where
  "min_length s = (case parse_usize32 s of Some n \<Rightarrow> if 0 < n then Some n else None | None \<Rightarrow> None)"

definition bad_length :: "bytes \<Rightarrow> bytes" where
  "bad_length s = ''strings: invalid minimum string length '' @ quoted s"

fun strings_args :: "bytes list \<Rightarrow> strings_options \<Rightarrow> strings_options result" where
  "strings_args [] s = Ok s"
| "strings_args (a # rest) s =
     (if a = ''-n'' then
        (case rest of
           [] \<Rightarrow> Err (''strings: option '' @ quoted ''-n'' @ '' requires an argument'')
         | v # rest' \<Rightarrow>
             (case min_length v of Some n \<Rightarrow> strings_args rest' (s\<lparr>so_min := n\<rparr>) | None \<Rightarrow> Err (bad_length v)))
      else if prefix ''-n'' a then
        (case min_length (drop 2 a) of
           Some n \<Rightarrow> strings_args rest (s\<lparr>so_min := n\<rparr>) | None \<Rightarrow> Err (bad_length (drop 2 a)))
      else if a = ''-t'' then
        (case rest of
           [] \<Rightarrow> Err (''strings: option '' @ quoted ''-t'' @ '' requires an argument'')
         | v # rest' \<Rightarrow>
             if v = ''d'' \<or> v = ''o'' \<or> v = ''x'' then strings_args rest' (s\<lparr>so_format := Some (hd v)\<rparr>)
             else Err (''strings: invalid radix for -t: '' @ quoted v))
      else if prefix ''-'' a \<and> 1 < length a then
        (case parse_usize32 (tl a) of
           Some n \<Rightarrow> strings_args rest (if 0 < n then s\<lparr>so_min := n\<rparr> else s)
         | None \<Rightarrow> Err (''strings: unknown option '' @ quoted a))
      else strings_args rest (s\<lparr>so_files := so_files s @ [a]\<rparr>))"

fun strings_files :: "(bytes \<Rightarrow> bytes + bytes) \<Rightarrow> strings_options \<Rightarrow> bytes list \<Rightarrow> int \<times> out_line list" where
  "strings_files opn s [] = (0, [])"
| "strings_files opn s (f # fs) =
     (case opn f of
        Inl e \<Rightarrow> (1, [StdErr (''strings: '' @ f @ '': '' @ e)])
      | Inr data \<Rightarrow>
          (let (c, rest) = strings_files opn s fs
           in (c, map StdOut (extract_strings data (so_min s) (so_format s)) @ rest)))"

definition strings_main :: "(bytes \<Rightarrow> bytes + bytes) \<Rightarrow> bytes + bytes \<Rightarrow> bytes list \<Rightarrow> run" where
  "strings_main opn stdin argv =
     (case strings_args (map from_utf8_lossy (tl argv)) \<lparr>so_min = 4, so_format = None, so_files = []\<rparr> of
        Err m \<Rightarrow> Exit 1 [StdErr m]
      | Panicked \<Rightarrow> Crash
      | Ok s \<Rightarrow>
          if so_files s = [] then
            (case stdin of
               Inl e \<Rightarrow> Exit 1 [StdErr (''strings: stdin: '' @ e)]
             | Inr data \<Rightarrow> Exit 0 (map StdOut (extract_strings data (so_min s) (so_format s))))
          else (let (c, out) = strings_files opn s (so_files s) in Exit c out))"

section \<open>Maximal runs\<close>

text \<open>\<open>run\<close> is a maximal run of printable bytes of \<open>data\<close> that starts at \<open>off\<close>.\<close>

definition maximal_run :: "bytes \<Rightarrow> nat \<Rightarrow> bytes \<Rightarrow> bool" where
  "maximal_run data off run \<longleftrightarrow>
     (\<exists>pre post. data = pre @ run @ post \<and> length pre = off \<and> run \<noteq> [] \<and> list_all is_printable_ascii run
        \<and> (pre = [] \<or> \<not> is_printable_ascii (last pre)) \<and> (post = [] \<or> \<not> is_printable_ascii (hd post)))"

lemma take_printable:
  "list_all p run \<Longrightarrow> post = [] \<or> \<not> p (hd post) \<Longrightarrow> takeWhile p (run @ post) = run"
  by (induction run) (auto simp: takeWhile_eq_Nil_iff)

lemma maximal_alone:
  assumes "list_all is_printable_ascii run"
  shows "maximal_run run off r \<longleftrightarrow> off = 0 \<and> r = run \<and> run \<noteq> []"
proof
  assume "maximal_run run off r"
  then obtain pre post where d: "run = pre @ r @ post" "length pre = off" "r \<noteq> []"
    "pre = [] \<or> \<not> is_printable_ascii (last pre)" "post = [] \<or> \<not> is_printable_ascii (hd post)"
    by (auto simp: maximal_run_def)
  with assms have "pre = []" "post = []" by (auto simp: list_all_iff)
  with d show "off = 0 \<and> r = run \<and> run \<noteq> []" by simp
next
  assume "off = 0 \<and> r = run \<and> run \<noteq> []"
  with assms show "maximal_run run off r" unfolding maximal_run_def by (intro exI [of _ "[]"]) simp
qed

lemma maximal_in_rest:
  assumes "list_all is_printable_ascii run" and "\<not> is_printable_ascii b"
  shows "maximal_run (run @ b # bs) off r \<longleftrightarrow>
    off = 0 \<and> r = run \<and> run \<noteq> [] \<or> Suc (length run) \<le> off \<and> maximal_run bs (off - Suc (length run)) r"
    (is "?l \<longleftrightarrow> ?r")
proof
  assume ?l
  then obtain pre post where d: "run @ b # bs = pre @ r @ post" "length pre = off" "r \<noteq> []"
    "list_all is_printable_ascii r" "pre = [] \<or> \<not> is_printable_ascii (last pre)" "post = [] \<or> \<not> is_printable_ascii (hd post)"
    by (auto simp: maximal_run_def)
  show ?r
  proof (cases "off \<le> length run")
    case True
    have "pre = []"
    proof (rule ccontr)
      assume ne: "pre \<noteq> []"
      then have "0 < off" using d(2) by auto
      with True have "off - 1 < length run" by simp
      moreover from ne d(2) have "last pre = (run @ b # bs) ! (off - 1)"
        by (auto simp: d(1) last_conv_nth nth_append)
      ultimately have "last pre = run ! (off - 1)" by (simp add: nth_append)
      with assms(1) \<open>off - 1 < length run\<close> have "is_printable_ascii (last pre)" by (auto simp: list_all_length)
      with ne d(5) show False by simp
    qed
    moreover have "r = takeWhile is_printable_ascii (r @ post)" using take_printable [OF d(4) d(6)] by simp
    moreover have "takeWhile is_printable_ascii (run @ b # bs) = run" using take_printable [OF assms(1)] assms(2) by simp
    ultimately show ?thesis using d by auto
  next
    case False
    then obtain pre' where p: "pre = (run @ [b]) @ pre'" "bs = pre' @ r @ post"
      using d(1,2) by (auto simp: append_eq_append_conv2 Cons_eq_append_conv)
    then have "pre' = [] \<or> \<not> is_printable_ascii (last pre')" using d(5) by auto
    then have "maximal_run bs (length pre') r" unfolding maximal_run_def
      using p(2) d(3,4,6) by (intro exI [of _ pre'] exI [of _ post]) simp
    with p(1) d(2) show ?thesis by auto
  qed
next
  assume ?r
  then show ?l
  proof
    assume "off = 0 \<and> r = run \<and> run \<noteq> []"
    with assms show ?l unfolding maximal_run_def by (intro exI [of _ "[]"] exI [of _ "b # bs"]) auto
  next
    assume r: "Suc (length run) \<le> off \<and> maximal_run bs (off - Suc (length run)) r"
    then obtain pre post where d: "bs = pre @ r @ post" "length pre = off - Suc (length run)" "r \<noteq> []"
      "list_all is_printable_ascii r" "pre = [] \<or> \<not> is_printable_ascii (last pre)" "post = [] \<or> \<not> is_printable_ascii (hd post)"
      by (auto simp: maximal_run_def)
    with r assms(2) show ?l unfolding maximal_run_def
      by (intro exI [of _ "run @ b # pre"] exI [of _ post]) auto
  qed
qed

text \<open>The scan from position \<open>i\<close> with a run begun before it.\<close>

lemma extract_loop_runs:
  assumes "0 < m" and "list_all is_printable_ascii run" and "length run \<le> i"
    and "start = (if run = [] then None else Some (i - length run))"
  shows "(off, r) \<in> set (extract_loop m i start run bs) \<longleftrightarrow>
    i - length run \<le> off \<and> m \<le> length r \<and> maximal_run (run @ bs) (off - (i - length run)) r"
  using assms(2-)
proof (induction bs arbitrary: i start run)
  case Nil
  then show ?case using assms(1) by (auto simp: maximal_alone)
next
  case (Cons b bs)
  show ?case
  proof (cases "is_printable_ascii b")
    case True
    have "(off, r) \<in> set (extract_loop m (i + 1) (Some (i - length run)) (run @ [b]) bs) \<longleftrightarrow>
      i + 1 - length (run @ [b]) \<le> off \<and> m \<le> length r
        \<and> maximal_run ((run @ [b]) @ bs) (off - (i + 1 - length (run @ [b]))) r"
      using Cons.prems True by (intro Cons.IH) auto
    moreover have "(if run = [] then Some i else start) = Some (i - length run)" using Cons.prems by auto
    ultimately show ?thesis using True by simp
  next
    case False
    have "(off, r) \<in> set (extract_loop m (i + 1) None [] bs) \<longleftrightarrow>
      i + 1 \<le> off \<and> m \<le> length r \<and> maximal_run bs (off - (i + 1)) r"
      using Cons.IH [of "[]" "i + 1" None] by simp
    moreover have "maximal_run (run @ b # bs) (off - (i - length run)) r \<longleftrightarrow>
      off \<le> i - length run \<and> r = run \<and> run \<noteq> [] \<or> i + 1 \<le> off \<and> maximal_run bs (off - (i + 1)) r"
      if "i - length run \<le> off"
      using that Cons.prems(2) by (subst maximal_in_rest [OF Cons.prems(1) False]) auto
    moreover have "(case start of Some s \<Rightarrow> s | None \<Rightarrow> 0) = i - length run" if "m \<le> length run"
      using that assms(1) Cons.prems by auto
    ultimately show ?thesis using False assms(1) Cons.prems(2) by (auto split: if_splits)
  qed
qed

lemma extract_loop_sorted:
  assumes "0 < m" and "list_all is_printable_ascii run" and "length run \<le> i"
    and "start = (if run = [] then None else Some (i - length run))"
  shows "sorted_wrt (<) (map fst (extract_loop m i start run bs))"
  using assms(2-)
proof (induction bs arbitrary: i start run)
  case (Cons b bs)
  show ?case
  proof (cases "is_printable_ascii b")
    case True
    moreover have "sorted_wrt (<) (map fst (extract_loop m (i + 1) (Some (i - length run)) (run @ [b]) bs))"
      using Cons.prems True by (intro Cons.IH) auto
    moreover have "(if run = [] then Some i else start) = Some (i - length run)" using Cons.prems by auto
    ultimately show ?thesis by simp
  next
    case False
    have "i + 1 \<le> off" if "(off, r) \<in> set (extract_loop m (i + 1) None [] bs)" for off r
      using that extract_loop_runs [OF assms(1), of "[]" "i + 1" None off r bs] by simp
    moreover have "sorted_wrt (<) (map fst (extract_loop m (i + 1) None [] bs))"
      using Cons.IH [of "[]" "i + 1" None] by simp
    moreover have "(case start of Some s \<Rightarrow> s | None \<Rightarrow> 0) \<le> i" using Cons.prems by auto
    ultimately show ?thesis using False by fastforce
  qed
qed simp

section \<open>Properties\<close>

text \<open>\<open>strings\<close> prints exactly the maximal runs of printable bytes that are at least as long as
  the minimum, each with the offset of its first byte and
  in the order of the offsets; none is printed in part or missed, also at the
  ends of the data.\<close>

theorem extract_strings_runs:
  assumes "0 < m"
  shows "extract_strings data m fmt = map (\<lambda>(off, run). offset_text fmt off @ run) (extract_loop m 0 None [] data)
    \<and> set (extract_loop m 0 None [] data) = {(off, run). m \<le> length run \<and> maximal_run data off run}
    \<and> sorted_wrt (<) (map fst (extract_loop m 0 None [] data))"
  using extract_loop_runs [OF assms, of "[]" 0 None _ _ data] extract_loop_sorted [OF assms, of "[]" 0 None data]
  by (auto simp: extract_strings_def)

lemma extract_strings_runs_witness:
  "(2, ''abcd'') \<in> set (extract_loop 4 0 None [] ([CHR 0x00, CHR 0x01] @ ''abcd'' @ [CHR 0x02]))"
proof -
  have "maximal_run ([CHR 0x00, CHR 0x01] @ ''abcd'' @ [CHR 0x02]) 2 ''abcd''"
    unfolding maximal_run_def
    by (intro exI [of _ "[CHR 0x00, CHR 0x01]"] exI [of _ "[CHR 0x02]"])
      (simp add: is_printable_ascii_def byte_def)
  with extract_strings_runs [of 4 "[CHR 0x00, CHR 0x01] @ ''abcd'' @ [CHR 0x02]" None] show ?thesis by simp
qed

end
