(* ===== verification/Column_Cmd.thy ===== *)
theory Column_Cmd
  imports Utf8 Process
begin

text \<open>
  The \<open>column\<close> command (\<open>libs/column/src/lib.rs\<close>): table mode, which pads the fields of every row to
  the widest field of their column, and the default mode, which fills lines of 80 characters.
  Opening a file and standard input are parameters.
\<close>

section \<open>Options and input\<close>

record column_options =
  co_table :: bool
  co_separator :: bytes
  co_files :: "bytes list"

fun column_args :: "bytes list \<Rightarrow> column_options \<Rightarrow> column_options result" where
  "column_args [] s = Ok s"
| "column_args (a # rest) s =
     (if a = ''-t'' then column_args rest (s\<lparr>co_table := True\<rparr>)
      else if a = ''-s'' then
        (case rest of
           [] \<Rightarrow> Err (''column: option '' @ quoted ''-s'' @ '' requires an argument'')
         | v # rest' \<Rightarrow> column_args rest' (s\<lparr>co_separator := v\<rparr>))
      else if prefix ''-s'' a \<and> 2 < length a then column_args rest (s\<lparr>co_separator := drop 2 a\<rparr>)
      else if prefix ''-'' a \<and> 1 < length a then Err (''column: unknown option '' @ quoted a)
      else column_args rest (s\<lparr>co_files := co_files s @ [a]\<rparr>))"

definition read_lines :: "bytes \<Rightarrow> bytes list option" where
  "read_lines content =
     (let ls = reader_lines content in if None \<in> set ls then None else Some (map the ls))"

definition utf8_error :: bytes where
  "utf8_error = ''stream did not contain valid UTF-8''"

fun read_files :: "(bytes \<Rightarrow> bytes + bytes) \<Rightarrow> bytes list \<Rightarrow> bytes list result" where
  "read_files opn [] = Ok []"
| "read_files opn (f # fs) =
     (case opn f of
        Inl e \<Rightarrow> Err (''column: '' @ f @ '': '' @ e)
      | Inr content \<Rightarrow>
          (case read_lines content of
             None \<Rightarrow> Err (''column: '' @ f @ '': '' @ utf8_error)
           | Some ls \<Rightarrow> and_then (read_files opn fs) (\<lambda>rest. Ok (ls @ rest))))"

section \<open>Table mode\<close>

definition width :: "bytes \<Rightarrow> nat" where
  "width s = length (utf8_chars s)"

definition split_row :: "bytes \<Rightarrow> bytes \<Rightarrow> bytes list" where
  "split_row sep line = (if sep = [] then split_whitespace line else split_str sep line)"

definition max_cols :: "bytes list list \<Rightarrow> nat" where
  "max_cols rows = fold max (map length rows) 0"

definition widen :: "nat list \<Rightarrow> nat \<times> bytes \<Rightarrow> nat list" where
  "widen ws jf = (if ws ! fst jf < width (snd jf) then ws[fst jf := width (snd jf)] else ws)"

definition col_widths :: "bytes list list \<Rightarrow> nat list" where
  "col_widths rows = foldl (\<lambda>ws row. foldl widen ws (enumerate 0 row)) (replicate (max_cols rows) 0) rows"

text \<open>Two blanks before every field but the first, padding after every field but the last.\<close>

definition row_text :: "nat list \<Rightarrow> bytes list \<Rightarrow> bytes" where
  "row_text ws row =
     concat (map (\<lambda>j. (if 0 < j then ''  '' else []) @ row ! j
       @ (if j + 1 < length row then replicate (ws ! j - width (row ! j)) CHR '' '' else [])) [0..<length row])"

definition format_table :: "bytes list \<Rightarrow> bytes \<Rightarrow> bytes list" where
  "format_table lines sep = (let rows = map (split_row sep) lines in map (row_text (col_widths rows)) rows)"

section \<open>Default mode\<close>

text \<open>The pieces written for the entries from position \<open>i\<close> on, a line end after the last of a row.\<close>

definition entry_text :: "nat \<Rightarrow> nat \<Rightarrow> nat \<Rightarrow> nat \<Rightarrow> bytes \<Rightarrow> bytes" where
  "entry_text cols cw n i e =
     (if (i + 1) mod cols = 0 \<or> i + 1 = n then e @ [NL] else e @ replicate (cw - width e) CHR '' '')"

definition format_columns :: "bytes list \<Rightarrow> bytes" where
  "format_columns lines =
     (let entries = filter (\<lambda>l. l \<noteq> []) lines in
      if entries = [] then []
      else (let cw = fold max (map width entries) 0 + 2 in
        if cw = 0 \<or> 80 < cw then concat (map (\<lambda>e. e @ [NL]) entries)
        else (let cols = (if 80 div cw = 0 then 1 else 80 div cw) in
          concat (map (\<lambda>(i, e). entry_text cols cw (length entries) i e) (enumerate 0 entries)))))"

definition column_main :: "(bytes \<Rightarrow> bytes + bytes) \<Rightarrow> bytes \<Rightarrow> bytes list \<Rightarrow> int \<times> bytes \<times> bytes list" where
  "column_main opn stdin argv =
     (case column_args (map from_utf8_lossy (tl argv)) \<lparr>co_table = False, co_separator = [], co_files = []\<rparr> of
        Err m \<Rightarrow> (1, [], [m])
      | Panicked \<Rightarrow> (101, [], [])
      | Ok s \<Rightarrow>
          (case (if co_files s = [] then (case read_lines stdin of Some ls \<Rightarrow> Ok ls | None \<Rightarrow> Err (''column: '' @ utf8_error))
                 else read_files opn (co_files s)) of
             Err m \<Rightarrow> (1, [], [m])
           | Panicked \<Rightarrow> (101, [], [])
           | Ok ls \<Rightarrow>
               (0, if co_table s then concat (map (\<lambda>l. l @ [NL]) (format_table ls (co_separator s)))
                   else format_columns ls, [])))"

section \<open>Widths\<close>

lemma width_append: "utf8_valid s \<Longrightarrow> utf8_valid t \<Longrightarrow> width (s @ t) = width s + width t"
  by (simp add: width_def utf8_chars_append)

lemma ascii_blanks: "is_ascii (replicate n CHR '' '')"
  by (simp add: is_ascii_def byte_def)

lemma blanks [simp]: "utf8_valid (replicate n CHR '' '')" "width (replicate n CHR '' '') = n"
  using ascii_blanks [of n] by (simp_all add: utf8_valid_ascii width_def utf8_chars_ascii)

lemma widen_row:
  assumes "k + length row \<le> length ws"
  shows "length (foldl widen ws (enumerate k row)) = length ws \<and>
    (\<forall>i. foldl widen ws (enumerate k row) ! i =
      (if k \<le> i \<and> i < k + length row then max (ws ! i) (width (row ! (i - k))) else ws ! i))"
  using assms
proof (induction row arbitrary: k ws)
  case (Cons f row)
  have l: "length (widen ws (k, f)) = length ws" by (simp add: widen_def)
  have w: "widen ws (k, f) ! i = (if i = k then max (ws ! k) (width f) else ws ! i)" for i
    using Cons.prems by (auto simp: widen_def nth_list_update max_def)
  from Cons.IH [of "Suc k" "widen ws (k, f)"] Cons.prems l show ?case
    by (auto simp: w nth_Cons' Suc_le_eq le_less)
qed simp

lemma max_cols_ge: "row \<in> set rows \<Longrightarrow> length row \<le> max_cols rows"
proof -
  have "b \<le> fold max xs b \<and> (\<forall>x\<in>set xs. x \<le> fold max xs b)" for xs and b :: nat
    by (induction xs arbitrary: b) (auto intro: le_trans dest: max.boundedE)
  from this [of 0 "map length rows"] show "row \<in> set rows \<Longrightarrow> length row \<le> max_cols rows"
    by (simp add: max_cols_def)
qed

lemma col_widths_fold:
  assumes "list_all (\<lambda>row. length row \<le> length ws) rows"
  shows "length (foldl (\<lambda>ws row. foldl widen ws (enumerate 0 row)) ws rows) = length ws \<and>
    (\<forall>i. ws ! i \<le> foldl (\<lambda>ws row. foldl widen ws (enumerate 0 row)) ws rows ! i) \<and>
    (\<forall>row\<in>set rows. \<forall>i<length row. width (row ! i) \<le> foldl (\<lambda>ws row. foldl widen ws (enumerate 0 row)) ws rows ! i)"
  using assms
proof (induction rows arbitrary: ws)
  case (Cons r rows)
  let ?ws = "foldl widen ws (enumerate 0 r)"
  have r: "length ?ws = length ws" "\<And>i. ws ! i \<le> ?ws ! i" "\<And>i. i < length r \<Longrightarrow> width (r ! i) \<le> ?ws ! i"
    using widen_row [of 0 r ws] Cons.prems by auto
  from Cons.IH [of ?ws] Cons.prems r(1) have IH:
    "length (foldl (\<lambda>ws row. foldl widen ws (enumerate 0 row)) ?ws rows) = length ?ws"
    "\<And>i. ?ws ! i \<le> foldl (\<lambda>ws row. foldl widen ws (enumerate 0 row)) ?ws rows ! i"
    "\<And>row i. row \<in> set rows \<Longrightarrow> i < length row \<Longrightarrow>
      width (row ! i) \<le> foldl (\<lambda>ws row. foldl widen ws (enumerate 0 row)) ?ws rows ! i" by auto
  show ?case using IH r le_trans [OF r(2) IH(2)] le_trans [OF r(3) IH(2)] by auto
qed simp

lemma col_widths_ge:
  "row \<in> set rows \<Longrightarrow> i < length row \<Longrightarrow> width (row ! i) \<le> col_widths rows ! i"
  using col_widths_fold [of "replicate (max_cols rows) 0" rows] max_cols_ge [of _ rows]
  by (simp add: col_widths_def list_all_iff)

section \<open>Alignment\<close>

text \<open>Where a column starts: behind the columns before it, each with its two blanks.\<close>

definition col_start :: "nat list \<Rightarrow> nat \<Rightarrow> nat" where
  "col_start ws j = sum_list (map (\<lambda>k. ws ! k + 2) [0..<j])"

definition padded :: "nat list \<Rightarrow> bytes list \<Rightarrow> nat \<Rightarrow> bytes" where
  "padded ws row k = row ! k @ replicate (ws ! k - width (row ! k)) CHR '' '' @ ''  ''"

lemma cells_before:
  assumes "j < length row"
  shows "concat (map (\<lambda>j. (if 0 < j then ''  '' else []) @ row ! j
       @ (if j + 1 < length row then replicate (ws ! j - width (row ! j)) CHR '' '' else [])) [0..<j])
     @ (if 0 < j then ''  '' else []) = concat (map (padded ws row) [0..<j])"
  using assms
proof (induction j)
  case (Suc j)
  then have "concat (map (\<lambda>j. (if 0 < j then ''  '' else []) @ row ! j
       @ (if j + 1 < length row then replicate (ws ! j - width (row ! j)) CHR '' '' else [])) [0..<j])
     @ (if 0 < j then ''  '' else []) = concat (map (padded ws row) [0..<j])" by simp
  with Suc.prems show ?case by (simp add: padded_def [of ws row j])
qed simp

lemma width_padded:
  assumes "utf8_valid (row ! k)" and "width (row ! k) \<le> ws ! k"
  shows "utf8_valid (padded ws row k) \<and> width (padded ws row k) = ws ! k + 2"
proof -
  have b: "padded ws row k = row ! k @ replicate (ws ! k - width (row ! k) + 2) CHR '' ''"
    by (simp only: padded_def replicate_add) (simp add: numeral_eq_Suc)
  show ?thesis using assms unfolding b by (simp add: width_append utf8_valid_append del: add_2_eq_Suc' replicate_Suc)
qed

lemma width_padded_all:
  assumes "\<And>k. k < j \<Longrightarrow> utf8_valid (row ! k) \<and> width (row ! k) \<le> ws ! k"
  shows "utf8_valid (concat (map (padded ws row) [0..<j])) \<and> width (concat (map (padded ws row) [0..<j])) = col_start ws j"
  using assms
proof (induction j)
  case 0
  then show ?case by (simp add: col_start_def width_def)
next
  case (Suc j)
  then have "utf8_valid (concat (map (padded ws row) [0..<j])) \<and> width (concat (map (padded ws row) [0..<j])) = col_start ws j"
    and "utf8_valid (padded ws row j) \<and> width (padded ws row j) = ws ! j + 2"
    using width_padded by auto
  then show ?case by (simp add: col_start_def width_append utf8_valid_append)
qed

section \<open>Properties\<close>

text \<open>In table mode the columns are aligned: field \<open>j\<close> of every row that has it starts at the
  same character position, the one behind the widest fields of the columns before it, and is printed
  unchanged.\<close>

theorem table_aligned:
  assumes "rows = map (split_row sep) lines" and "i < length rows" and "j < length (rows ! i)"
    and "list_all (list_all utf8_valid) rows"
  shows "\<exists>before after. format_table lines sep ! i = before @ rows ! i ! j @ after
    \<and> width before = col_start (col_widths rows) j"
proof (intro exI conjI)
  let ?row = "rows ! i" and ?ws = "col_widths rows"
  let ?cell = "\<lambda>j. (if 0 < j then ''  '' else []) @ ?row ! j
       @ (if j + 1 < length ?row then replicate (?ws ! j - width (?row ! j)) CHR '' '' else [])"
  have "[0..<length ?row] = [0..<j] @ j # [Suc j..<length ?row]"
    using assms(3) by (metis le_add_diff_inverse less_imp_le upt_add_eq_append upt_conv_Cons zero_le)
  then have "row_text ?ws ?row = (concat (map ?cell [0..<j]) @ (if 0 < j then ''  '' else [])) @ ?row ! j
      @ ((if j + 1 < length ?row then replicate (?ws ! j - width (?row ! j)) CHR '' '' else [])
         @ concat (map ?cell [Suc j..<length ?row]))"
    by (simp only: row_text_def map_append list.map concat.simps concat_append append.assoc)
  with cells_before [OF assms(3), of ?ws]
  show "format_table lines sep ! i = concat (map (padded ?ws ?row) [0..<j]) @ ?row ! j
      @ ((if j + 1 < length ?row then replicate (?ws ! j - width (?row ! j)) CHR '' '' else [])
         @ concat (map ?cell [Suc j..<length ?row]))"
    using assms(1,2) by (simp add: format_table_def Let_def)
  have "utf8_valid (?row ! k) \<and> width (?row ! k) \<le> ?ws ! k" if "k < j" for k
    using that assms col_widths_ge [of ?row rows k] by (auto simp: list_all_length)
  from width_padded_all [OF this] show "width (concat (map (padded ?ws ?row) [0..<j])) = col_start ?ws j" by simp
qed

lemma table_aligned_witness:
  "\<exists>before after. format_table [''a,bb,c'', ''aaa,b''] '','' ! 0 = before @ ''bb'' @ after
    \<and> width before = col_start (col_widths [[''a'', ''bb'', ''c''], [''aaa'', ''b'']]) 1"
proof -
  have s: "map (split_row '','') [''a,bb,c'', ''aaa,b''] = [[''a'', ''bb'', ''c''], [''aaa'', ''b'']]"
    by (simp add: split_row_def split_str.simps)
  have "list_all (list_all utf8_valid) [[''a'', ''bb'', ''c''], [''aaa'', ''b'']]"
    by (simp add: utf8_valid_ascii byte_def)
  from table_aligned [OF s [symmetric], of 0 1, OF _ _ this] show ?thesis by simp
qed

end
