(* ===== verification/Tree_Cmd.thy ===== *)
theory Tree_Cmd
  imports Dir_Walk
begin

text \<open>
  The \<open>tree\<close> command (\<open>libs/tree/src/lib.rs\<close>): arguments, the pattern of excluded names, the walk with
  its drawing and its two counts.  The file system is a parameter; so is the kind of a directory entry,
  which does not follow links and may fail.
\<close>

section \<open>Arguments\<close>

record tree_options =
  tr_hidden :: bool
  tr_dirs :: bool
  tr_max :: "nat option"
  tr_exclude :: "bytes option"
  tr_paths :: "bytes list"

definition tree_defaults :: tree_options where
  "tree_defaults = \<lparr>tr_hidden = False, tr_dirs = False, tr_max = None, tr_exclude = None, tr_paths = []\<rparr>"

fun tree_args :: "bytes list \<Rightarrow> tree_options \<Rightarrow> tree_options result" where
  "tree_args [] s = Ok s"
| "tree_args (a # rest) s =
     (if a = ''-a'' then tree_args rest (s\<lparr>tr_hidden := True\<rparr>)
      else if a = ''-d'' then tree_args rest (s\<lparr>tr_dirs := True\<rparr>)
      else if a = ''-L'' then
        (case rest of
           [] \<Rightarrow> Err (''tree: option '' @ quoted ''-L'' @ '' requires an argument'')
         | v # rest' \<Rightarrow>
             (case parse_usize32 v of
                Some d \<Rightarrow> tree_args rest' (s\<lparr>tr_max := Some d\<rparr>)
              | None \<Rightarrow> Err (''tree: invalid level '' @ quoted v)))
      else if a = ''-I'' then
        (case rest of
           [] \<Rightarrow> Err (''tree: option '' @ quoted ''-I'' @ '' requires an argument'')
         | v # rest' \<Rightarrow> tree_args rest' (s\<lparr>tr_exclude := Some v\<rparr>))
      else if prefix ''-'' a then Err (''tree: unknown option '' @ quoted a)
      else tree_args rest (s\<lparr>tr_paths := tr_paths s @ [a]\<rparr>))"

section \<open>Excluded names\<close>

definition matches_exclude :: "bytes \<Rightarrow> bytes \<Rightarrow> bool" where
  "matches_exclude name pattern =
     (if CHR ''*'' \<in> set pattern then
        (case split_on CHR ''*'' pattern of
           [p, q] \<Rightarrow> prefix p name \<and> suffix q name
         | parts \<Rightarrow> list_all (\<lambda>p. p = [] \<or> find_sub p name \<noteq> None) parts)
      else name = pattern)"

section \<open>The walk\<close>

text \<open>The connector of an entry and the indentation below it, in UTF-8.\<close>

definition connector :: "bool \<Rightarrow> bytes" where
  "connector is_last =
     [CHR 0xE2, CHR 0x94, if is_last then CHR 0x94 else CHR 0x9C, CHR 0xE2, CHR 0x94, CHR 0x80, CHR 0xE2, CHR 0x94,
      CHR 0x80, CHR '' '']"

definition indent :: "bool \<Rightarrow> bytes" where
  "indent is_last = (if is_last then ''    '' else [CHR 0xE2, CHR 0x94, CHR 0x82] @ ''   '')"

fun mark_last :: "'a list \<Rightarrow> (bool \<times> 'a) list" where
  "mark_last [] = []"
| "mark_last (x # xs) = (xs = [], x) # mark_last xs"

definition tree_visible :: "(bytes \<Rightarrow> bool option) \<Rightarrow> tree_options \<Rightarrow> bytes \<Rightarrow> bytes \<Rightarrow> bool" where
  "tree_visible K s dir entry \<longleftrightarrow>
     (let name = from_utf8_lossy entry in
      (tr_hidden s \<or> \<not> prefix ''.'' name)
      \<and> (case tr_exclude s of Some p \<Rightarrow> \<not> matches_exclude name p | None \<Rightarrow> True)
      \<and> (tr_dirs s \<longrightarrow> K (path_join dir entry) \<noteq> Some False))"

text \<open>The lines, the directories and the files of several entries together.\<close>

definition sum_parts :: "(bytes list \<times> nat \<times> nat) list \<Rightarrow> bytes list \<times> nat \<times> nat" where
  "sum_parts ps = (concat (map fst ps), sum_list (map (fst \<circ> snd) ps), sum_list (map (snd \<circ> snd) ps))"

definition opening_error :: "bytes \<Rightarrow> bytes" where
  "opening_error e = ''[error opening dir: '' @ e @ '']''"

definition too_deep :: "tree_options \<Rightarrow> nat \<Rightarrow> bool" where
  "too_deep s depth \<longleftrightarrow> (case tr_max s of Some m \<Rightarrow> m < depth | None \<Rightarrow> False)"

text \<open>\<open>None\<close>: a directory lies deeper than the bound.\<close>

fun walk_tree ::
  "nat \<Rightarrow> fs \<Rightarrow> (bytes \<Rightarrow> bool option) \<Rightarrow> tree_options \<Rightarrow> bytes \<Rightarrow> bytes \<Rightarrow> nat \<Rightarrow> (bytes list \<times> nat \<times> nat) option" where
  "walk_tree 0 F K s dir pre depth = None"
| "walk_tree (Suc b) F K s dir pre depth =
     (if too_deep s depth then Some ([], 0, 0)
      else (case fs_read_dir F dir of
              Inl e \<Rightarrow> Some ([pre @ opening_error e], 0, 0)
            | Inr es \<Rightarrow>
                map_option sum_parts (those (map (\<lambda>(is_last, entry).
                  let name = from_utf8_lossy entry; line = pre @ connector is_last @ name in
                  if K (path_join dir entry) = Some True then
                    map_option (\<lambda>(ls, d, f). (line # ls, d + 1, f))
                      (walk_tree b F K s (path_join dir name) (pre @ indent is_last) (depth + 1))
                  else Some ([line], 0, 1))
                  (mark_last (filter (tree_visible K s dir) (sorted_names es)))))))"

section \<open>The command\<close>

text \<open>The paths in turn, with an empty line between two of them.\<close>

fun tree_paths :: "(bytes \<Rightarrow> (bytes list \<times> nat \<times> nat) option) \<Rightarrow> bytes list \<Rightarrow> (bytes list \<times> nat \<times> nat) option" where
  "tree_paths walk [] = Some ([], 0, 0)"
| "tree_paths walk (p # ps) =
     (case (walk p, tree_paths walk ps) of
        (Some (ls, d, f), Some (ls', d', f')) \<Rightarrow>
          Some (p # ls @ (if ps = [] then [] else [[]]) @ ls', d + d', f + f')
      | _ \<Rightarrow> None)"

definition tree_report :: "bool \<Rightarrow> nat \<Rightarrow> nat \<Rightarrow> bytes" where
  "tree_report dirs_only d f =
     show_nat d @ '' director'' @ (if d = 1 then ''y'' else ''ies'')
     @ (if dirs_only then [] else '', '' @ show_nat f @ '' file'' @ (if f = 1 then [] else ''s''))"

definition tree_main :: "nat \<Rightarrow> fs \<Rightarrow> (bytes \<Rightarrow> bool option) \<Rightarrow> bytes list \<Rightarrow> run option" where
  "tree_main b F K argv =
     (case tree_args (map from_utf8_lossy (tl argv)) tree_defaults of
        Err m \<Rightarrow> Some (Exit 1 [StdErr m])
      | Panicked \<Rightarrow> Some Crash
      | Ok s \<Rightarrow>
          map_option (\<lambda>(ls, d, f). Exit 0 (map StdOut (ls @ [[], tree_report (tr_dirs s) d f])))
            (tree_paths (\<lambda>p. walk_tree b F K s p [] 1) (if tr_paths s = [] then [''.''] else tr_paths s)))"

section \<open>The tree that is drawn\<close>

text \<open>An entry has a name, is a directory or not, and has entries below it; or a directory cannot be read.\<close>

datatype rtree = Entry bytes bool "rtree list" | Unreadable bytes

fun draw :: "bytes \<Rightarrow> rtree list \<Rightarrow> bytes list" where
  "draw pre [] = []"
| "draw pre (Entry n d kids # ts) =
     (pre @ connector (ts = []) @ n) # draw (pre @ indent (ts = [])) kids @ draw pre ts"
| "draw pre (Unreadable e # ts) = (pre @ opening_error e) # draw pre ts"

fun count_entries :: "bool \<Rightarrow> rtree list \<Rightarrow> nat" where
  "count_entries dirs [] = 0"
| "count_entries dirs (Entry n d kids # ts) = (if d = dirs then 1 else 0) + count_entries dirs kids + count_entries dirs ts"
| "count_entries dirs (Unreadable e # ts) = count_entries dirs ts"

fun visible_tree :: "nat \<Rightarrow> fs \<Rightarrow> (bytes \<Rightarrow> bool option) \<Rightarrow> tree_options \<Rightarrow> bytes \<Rightarrow> nat \<Rightarrow> rtree list option" where
  "visible_tree 0 F K s dir depth = None"
| "visible_tree (Suc b) F K s dir depth =
     (if too_deep s depth then Some []
      else (case fs_read_dir F dir of
              Inl e \<Rightarrow> Some [Unreadable e]
            | Inr es \<Rightarrow>
                those (map (\<lambda>entry. let name = from_utf8_lossy entry in
                  if K (path_join dir entry) = Some True
                  then map_option (Entry name True) (visible_tree b F K s (path_join dir name) (depth + 1))
                  else Some (Entry name False [])) (filter (tree_visible K s dir) (sorted_names es)))))"

definition drawn :: "bytes \<Rightarrow> rtree list \<Rightarrow> bytes list \<times> nat \<times> nat" where
  "drawn pre ts = (draw pre ts, count_entries True ts, count_entries False ts)"

text \<open>Drawing the entries one after the other is drawing the list.\<close>

definition draw_entry :: "bytes \<Rightarrow> bool \<times> rtree \<Rightarrow> bytes list \<times> nat \<times> nat" where
  "draw_entry pre bt =
     (case bt of
        (is_last, Entry n d kids) \<Rightarrow>
          ((pre @ connector is_last @ n) # draw (pre @ indent is_last) kids,
           (if d then 1 else 0) + count_entries True kids, (if d then 0 else 1) + count_entries False kids)
      | (is_last, Unreadable e) \<Rightarrow> ([pre @ opening_error e], 0, 0))"

lemma drawn_entries: "drawn pre ts = sum_parts (map (draw_entry pre) (mark_last ts))"
proof (induction ts)
  case (Cons t ts)
  then show ?case by (cases t) (auto simp: drawn_def sum_parts_def draw_entry_def)
qed (simp add: drawn_def sum_parts_def)

lemma mark_last_map: "mark_last (map f xs) = map (apsnd f) (mark_last xs)"
  by (induction xs) auto

lemma those_Some: "those xs = Some ys \<longleftrightarrow> xs = map Some ys"
  by (induction xs arbitrary: ys) (auto split: option.splits simp: Cons_eq_map_conv)

lemma those_mark_last:
  assumes "\<And>l x. g (l, x) = map_option (\<lambda>t. h (l, t)) (f x)"
  shows "map_option sum_parts (those (map g (mark_last xs))) = map_option (\<lambda>ts. sum_parts (map h (mark_last ts))) (those (map f xs))"
proof -
  have "those (map g (mark_last xs)) = map_option (\<lambda>ts. map h (mark_last ts)) (those (map f xs))"
  proof (induction xs)
    case (Cons x xs)
    have "\<And>ts. those (map f xs) = Some ts \<Longrightarrow> (xs = []) = (ts = [])" by (auto simp: those_Some)
    with Cons show ?case by (cases "f x"; cases "those (map f xs)") (auto simp: assms)
  qed simp
  then show ?thesis by (simp add: option.map_comp comp_def)
qed

lemma walk_tree_draws: "walk_tree b F K s dir pre depth = map_option (drawn pre) (visible_tree b F K s dir depth)"
proof (induction b arbitrary: dir pre depth)
  case (Suc b)
  have "map_option sum_parts (those (map (\<lambda>(is_last, entry).
        let name = from_utf8_lossy entry; line = pre @ connector is_last @ name in
        if K (path_join dir entry) = Some True then
          map_option (\<lambda>(ls, d, f). (line # ls, d + 1, f)) (walk_tree b F K s (path_join dir name) (pre @ indent is_last) (depth + 1))
        else Some ([line], 0, 1)) (mark_last ns))) =
      map_option (\<lambda>ts. sum_parts (map (draw_entry pre) (mark_last ts))) (those (map (\<lambda>entry. let name = from_utf8_lossy entry in
        if K (path_join dir entry) = Some True
        then map_option (Entry name True) (visible_tree b F K s (path_join dir name) (depth + 1))
        else Some (Entry name False [])) ns))" for ns
    by (rule those_mark_last) (simp add: Suc Let_def option.map_comp comp_def drawn_def draw_entry_def)
  then show ?case by (simp add: drawn_entries [abs_def] sum_parts_def [of "[]"] split: sum.split) (simp add: sum_parts_def draw_entry_def)
qed simp

section \<open>Reading a drawing\<close>

text \<open>The level of a line and what it says: the name of an entry or another text.\<close>

function level :: "bytes \<Rightarrow> nat \<times> (bytes + bytes)" where
  "level s =
     (case strip_prefix (indent True) s of
        Some r \<Rightarrow> apfst Suc (level r)
      | None \<Rightarrow>
          (case strip_prefix (indent False) s of
             Some r \<Rightarrow> apfst Suc (level r)
           | None \<Rightarrow>
               (case strip_prefix (connector True) s of
                  Some n \<Rightarrow> (0, Inr n)
                | None \<Rightarrow> (0, case strip_prefix (connector False) s of Some n \<Rightarrow> Inr n | None \<Rightarrow> Inl s))))"
  by pat_completeness auto
termination
  by (relation "measure length") (auto simp: strip_prefix_Some indent_def split: if_splits)

declare level.simps [simp del]

lemma level_indent: "level (indent b @ s) = apfst Suc (level s)"
  by (subst level.simps) (cases b; simp add: indent_def)

lemma level_connector: "level (connector b @ n) = (0, Inr n)"
  by (subst level.simps) (cases b; simp add: indent_def connector_def)

lemma level_error: "level (opening_error e) = (0, Inl (opening_error e))"
  by (subst level.simps) (simp add: indent_def connector_def opening_error_def)

definition indents :: "bool list \<Rightarrow> bytes" where
  "indents bs = concat (map indent bs)"

lemma level_indents: "level (indents bs @ s) = apfst (\<lambda>k. length bs + k) (level s)"
  by (induction bs) (auto simp: indents_def level_indent apfst_def map_prod_def split: prod.splits)

text \<open>The levels and texts of the entries in the order of the drawing.\<close>

fun levels :: "nat \<Rightarrow> rtree list \<Rightarrow> (nat \<times> (bytes + bytes)) list" where
  "levels k [] = []"
| "levels k (Entry n d kids # ts) = (k, Inr n) # levels (Suc k) kids @ levels k ts"
| "levels k (Unreadable e # ts) = (k, Inl (opening_error e)) # levels k ts"

lemma indents_snoc: "indents bs @ indent b = indents (bs @ [b])"
  by (simp add: indents_def)

lemma draw_levels: "map level (draw (indents bs) ts) = levels (length bs) ts"
proof (induction "length bs" ts arbitrary: bs rule: levels.induct)
  case (2 n d kids ts)
  from 2(1) [of "bs @ [ts = []]"] 2(2) [of bs] show ?case
    by (simp add: level_indents level_connector indents_snoc)
next
  case (3 e ts)
  then show ?case by (simp add: level_indents level_error)
qed simp

text \<open>The drawing does not tell an empty directory from a file.\<close>

fun shape :: "rtree list \<Rightarrow> rtree list" where
  "shape [] = []"
| "shape (Entry n d kids # ts) = Entry n False (shape kids) # shape ts"
| "shape (Unreadable e # ts) = Unreadable e # shape ts"

lemma levels_inj:
  "levels k ts @ xs = levels k us @ ys \<Longrightarrow> xs = [] \<or> fst (hd xs) < k \<Longrightarrow> ys = [] \<or> fst (hd ys) < k
    \<Longrightarrow> shape ts = shape us \<and> xs = ys"
proof (induction k ts arbitrary: us xs ys rule: levels.induct)
  case (1 k)
  then show ?case by (cases us rule: shape.cases) auto
next
  case (2 k n d kids ts)
  obtain d' kids' us' where us: "us = Entry n d' kids' # us'" using 2(3-5) by (cases us rule: shape.cases) auto
  have eq: "levels (Suc k) kids @ (levels k ts @ xs) = levels (Suc k) kids' @ (levels k us' @ ys)"
    using 2(3) us by simp
  have h: "zs = [] \<or> fst (hd zs) < k \<Longrightarrow> levels k vs @ zs = [] \<or> fst (hd (levels k vs @ zs)) < Suc k" for vs zs
    by (cases vs rule: shape.cases) auto
  from 2(1) [OF eq h [OF 2(4)] h [OF 2(5)]] have s: "shape kids = shape kids'" "levels k ts @ xs = levels k us' @ ys" by auto
  from 2(2) [OF s(2) 2(4,5)] s(1) us show ?case by simp
next
  case (3 k e ts)
  obtain us' where us: "us = Unreadable e # us'" using 3(2-4) by (cases us rule: shape.cases) (auto simp: opening_error_def)
  with 3(2) have "levels k ts @ xs = levels k us' @ ys" by simp
  from 3(1) [OF this 3(3,4)] us show ?case by simp
qed

section \<open>Properties\<close>

text \<open>The bytes that are printed, one line feed after each line.\<close>

definition printed_lines :: "bytes list \<Rightarrow> bytes" where
  "printed_lines ls = concat (map (\<lambda>l. l @ [NL]) ls)"

lemma printed_lines_inj:
  "printed_lines ls = printed_lines ms \<Longrightarrow> \<forall>l\<in>set ls \<union> set ms. NL \<notin> set l \<Longrightarrow> ls = ms"
proof (induction ls arbitrary: ms)
  case Nil
  then show ?case by (cases ms) (auto simp: printed_lines_def)
next
  case (Cons l ls)
  then obtain m ms' where ms: "ms = m # ms'" by (cases ms) (auto simp: printed_lines_def)
  from Cons.prems(1) have e: "l @ NL # printed_lines ls = m @ NL # printed_lines ms'" by (simp add: printed_lines_def ms)
  have n: "NL \<notin> set l" "NL \<notin> set m" using Cons.prems(2) ms by auto
  from e n have "takeWhile (\<lambda>c. c \<noteq> NL) (l @ NL # printed_lines ls) = l"
    and "takeWhile (\<lambda>c. c \<noteq> NL) (m @ NL # printed_lines ms') = m"
    by (subst takeWhile_append2; auto)+
  with e have "l = m" by metis
  with e have "printed_lines ls = printed_lines ms'" by simp
  from Cons.IH [OF this] Cons.prems(2) ms \<open>l = m\<close> show ?case by auto
qed

text \<open>Claim C12: The listing of a directory is the drawing of its visible entries, with the numbers of
  directories and of other entries in it, and the drawing is unambiguous where no line of it, so no name
  as it is shown and no error text, contains a line feed: two walks that print the same bytes have then
  seen the same tree of shown names and errors, whatever else the names contain (blanks, branches and
  connectors included), up to the difference between a file and an empty directory.\<close>

theorem tree_drawing_unambiguous:
  assumes "walk_tree b F K s dir [] 1 = Some (ls, d, f)"
    and "walk_tree b' F' K' s' dir' [] 1 = Some (ls', d', f')"
    and "printed_lines ls = printed_lines ls'" and "\<forall>l\<in>set ls \<union> set ls'. NL \<notin> set l"
  shows "\<exists>ts us. visible_tree b F K s dir 1 = Some ts \<and> visible_tree b' F' K' s' dir' 1 = Some us
    \<and> drawn [] ts = (ls, d, f) \<and> drawn [] us = (ls', d', f') \<and> shape ts = shape us"
proof -
  from printed_lines_inj [OF assms(3,4)] have ls: "ls = ls'" .
  from assms obtain ts us where v: "visible_tree b F K s dir 1 = Some ts" "visible_tree b' F' K' s' dir' 1 = Some us"
      "drawn [] ts = (ls, d, f)" "drawn [] us = (ls', d', f')"
    by (auto simp: walk_tree_draws)
  then have "draw (indents []) ts = draw (indents []) us" by (simp add: drawn_def indents_def ls)
  then have "levels 0 ts @ [] = levels 0 us @ []" using draw_levels [of "[]"] by (metis append_Nil2 list.size(3))
  from levels_inj [OF this] v show ?thesis by auto
qed

text \<open>With a line feed in a name the drawing is ambiguous: one file looks like a directory and a file in it.\<close>

lemma newline_name_ambiguous:
  "printed_lines (draw [] [Entry (''a'' @ [NL] @ indent True @ connector True @ ''b'') False []]) =
    printed_lines (draw [] [Entry ''a'' True [Entry ''b'' False []]])"
  by (simp add: printed_lines_def)

text \<open>A directory \<open>d\<close> with a file \<open>a\<close> in it.\<close>

definition demo_tree_fs :: fs where
  "demo_tree_fs = \<lparr>fs_is_dir = (\<lambda>p. p = ''d''), fs_is_file = (\<lambda>p. p = ''d/a''), fs_is_symlink = (\<lambda>_. False),
     fs_len = (\<lambda>_. None), fs_read_dir = (\<lambda>p. if p = ''d'' then Inr [Inr ''a''] else Inl ''none'')\<rparr>"

lemma demo_tree_walk:
  "walk_tree (Suc 0) demo_tree_fs (\<lambda>p. Some (p = ''d'')) tree_defaults ''d'' [] 1 = Some ([connector True @ ''a''], 0, 1)"
  by (simp add: demo_tree_fs_def tree_defaults_def too_deep_def tree_visible_def sorted_names_def List.map_filter_def
      from_utf8_lossy_valid utf8_valid_ascii byte_def path_join_def sum_parts_def Let_def)

lemma tree_drawing_unambiguous_witness:
  "\<exists>ts. visible_tree (Suc 0) demo_tree_fs (\<lambda>p. Some (p = ''d'')) tree_defaults ''d'' 1 = Some ts
    \<and> drawn [] ts = ([connector True @ ''a''], 0, 1)"
  using tree_drawing_unambiguous [OF demo_tree_walk demo_tree_walk] by (auto simp: connector_def)

text \<open>An excluded pattern with one star compares both ends without asking that they do not overlap, and
  with several stars the parts may occur in any order.\<close>

lemma exclude_overlaps: "matches_exclude ''a'' ''a*a''" "matches_exclude ''ab'' ''*b*a*''"
  by (simp_all add: matches_exclude_def suffix_to_prefix)

end
