(* ===== verification/Du_Cmd.thy ===== *)
theory Du_Cmd
  imports Dir_Walk Float64
begin

text \<open>
  The \<open>du\<close> command (\<open>libs/du/src/lib.rs\<close>): arguments, the recursive sizes in blocks of 1024 bytes as
  64-bit words, and their printing.  The metadata of paths and the entries of directories are
  parameters; entries come in the order of the directory.
\<close>

section \<open>Options\<close>

record du_options =
  du_summary :: bool
  du_human :: bool
  du_all :: bool
  du_grand :: bool
  du_max :: "nat option"
  du_paths :: "bytes list"

definition du_defaults :: du_options where
  "du_defaults = \<lparr>du_summary = False, du_human = False, du_all = False, du_grand = False, du_max = None, du_paths = []\<rparr>"

definition du_depth :: "bytes \<Rightarrow> du_options \<Rightarrow> du_options result" where
  "du_depth v s =
     (case parse_usize32 v of
        Some d \<Rightarrow> Ok (s\<lparr>du_max := Some d\<rparr>)
      | None \<Rightarrow> Err (''du: invalid maximum depth '' @ quoted v))"

text \<open>Several one-letter options in one argument.\<close>

fun du_flags :: "bytes list \<Rightarrow> du_options \<Rightarrow> du_options option" where
  "du_flags [] s = Some s"
| "du_flags (c # cs) s =
     (if c = ''s'' then du_flags cs (s\<lparr>du_summary := True\<rparr>)
      else if c = ''h'' then du_flags cs (s\<lparr>du_human := True\<rparr>)
      else if c = ''a'' then du_flags cs (s\<lparr>du_all := True\<rparr>)
      else if c = ''c'' then du_flags cs (s\<lparr>du_grand := True\<rparr>)
      else None)"

fun du_args :: "bytes list \<Rightarrow> du_options \<Rightarrow> du_options result" where
  "du_args [] s = Ok s"
| "du_args (a # rest) s =
     (if a = ''-s'' \<or> a = ''--summarize'' then du_args rest (s\<lparr>du_summary := True\<rparr>)
      else if a = ''-h'' \<or> a = ''--human-readable'' then du_args rest (s\<lparr>du_human := True\<rparr>)
      else if a = ''-a'' \<or> a = ''--all'' then du_args rest (s\<lparr>du_all := True\<rparr>)
      else if a = ''-c'' \<or> a = ''--total'' then du_args rest (s\<lparr>du_grand := True\<rparr>)
      else if a = ''-d'' \<or> a = ''--max-depth'' then
        (case rest of
           [] \<Rightarrow> Err (''du: option '' @ quoted ''-d'' @ '' requires an argument'')
         | v # rest' \<Rightarrow> and_then (du_depth v s) (du_args rest'))
      else if prefix ''-d'' a \<and> 2 < length a then and_then (du_depth (drop 2 a) s) (du_args rest)
      else if prefix ''-'' a \<and> 1 < length a \<and> \<not> prefix ''--'' a then
        (case du_flags (utf8_chars (tl a)) s of
           Some s' \<Rightarrow> du_args rest s'
         | None \<Rightarrow> Err (''du: unknown option '' @ quoted a))
      else du_args rest (s\<lparr>du_paths := du_paths s @ [a]\<rparr>))"

section \<open>Sizes\<close>

definition blocks :: "64 word \<Rightarrow> 64 word" where
  "blocks len = (len + 1023) div 1024"

text \<open>A number with the given decimals, rounded to nearest, ties to even.\<close>

definition show_fixed :: "nat \<Rightarrow> rat \<Rightarrow> bytes" where
  "show_fixed p x =
     (let n = nat (round_even (x * 10 ^ p)) in
      if p = 0 then show_nat n
      else show_nat (n div 10 ^ p) @ ''.'' @
        (let ds = show_nat (n mod 10 ^ p) in replicate (p - length ds) CHR ''0'' @ ds))"

definition format_human :: "64 word \<Rightarrow> bytes" where
  "format_human n =
     (let kb = rnd (of_nat (unat n)) in
      if kb < 1024 then show_nat (unat n) @ ''K''
      else if kb < 1024 * 1024 then
        (let mb = kb / 1024 in show_fixed (if 10 \<le> mb then 0 else 1) mb @ ''M'')
      else (let gb = kb / (1024 * 1024) in show_fixed (if 10 \<le> gb then 0 else 1) gb @ ''G''))"

definition size_line :: "bool \<Rightarrow> 64 word \<Rightarrow> bytes \<Rightarrow> out_line" where
  "size_line human n name = StdOut ((if human then format_human n else show_nat (unat n)) @ [TAB] @ name)"

section \<open>The walk\<close>

record du_fs =
  df_meta :: "bytes \<Rightarrow> bytes + metadata"
  df_read_dir :: "bytes \<Rightarrow> bytes + (bytes + bytes) list"

definition du_error :: "bytes \<Rightarrow> bytes \<Rightarrow> out_line" where
  "du_error p e = StdErr (''du: '' @ from_utf8_lossy p @ '': '' @ e)"

definition in_depth :: "du_options \<Rightarrow> nat \<Rightarrow> bool" where
  "in_depth s depth \<longleftrightarrow> (case du_max s of Some m \<Rightarrow> depth \<le> m | None \<Rightarrow> True)"

text \<open>One entry of a directory at a depth: what it prints and what it adds to the total.\<close>

definition du_entry ::
  "du_fs \<Rightarrow> du_options \<Rightarrow> (bytes \<Rightarrow> (out_line list \<times> (bytes + 64 word)) option) \<Rightarrow> bytes \<Rightarrow> nat
    \<Rightarrow> bytes + bytes \<Rightarrow> (out_line list \<times> 64 word) option" where
  "du_entry F s walk p depth entry =
     (case entry of
        Inl e \<Rightarrow> Some ([du_error p e], 0)
      | Inr name \<Rightarrow>
          (let q = path_join p name in
           case df_meta F q of
             Inl e \<Rightarrow> Some ([du_error q e], 0)
           | Inr m \<Rightarrow>
               if md_is_dir m then
                 (case walk q of
                    None \<Rightarrow> None
                  | Some (out, Inr sub) \<Rightarrow> Some (out, sub)
                  | Some (out, Inl e) \<Rightarrow> Some (out @ [du_error q e], 0))
               else Some (if du_all s \<and> in_depth s (depth + 1)
                          then [size_line (du_human s) (blocks (md_len m)) (from_utf8_lossy q)] else [],
                          blocks (md_len m))))"

text \<open>The lines and the size, or the error for the caller; \<open>None\<close> below the bound.\<close>

fun walk_du :: "nat \<Rightarrow> du_fs \<Rightarrow> du_options \<Rightarrow> bytes \<Rightarrow> nat \<Rightarrow> (out_line list \<times> (bytes + 64 word)) option" where
  "walk_du 0 F s p depth = None"
| "walk_du (Suc b) F s p depth =
     (case df_meta F p of
        Inl e \<Rightarrow> Some ([], Inl e)
      | Inr m \<Rightarrow>
          if md_is_file m \<or> \<not> md_is_dir m then
            Some (if du_all s \<or> depth = 0 then [size_line (du_human s) (blocks (md_len m)) (from_utf8_lossy p)] else [],
                  Inr (blocks (md_len m)))
          else
            map_option (\<lambda>(out, total).
                (out @ (if in_depth s depth then [size_line (du_human s) total (from_utf8_lossy p)] else []), Inr total))
              (case df_read_dir F p of
                 Inl e \<Rightarrow> Some ([du_error p e], 0)
               | Inr es \<Rightarrow>
                   map_option (\<lambda>parts. (concat (map fst parts), sum_list (map snd parts)))
                     (those (map (du_entry F s (\<lambda>q. walk_du b F s q (depth + 1)) p depth) es))))"

section \<open>The command\<close>

text \<open>The paths in turn: the lines, the total and the exit status.\<close>

fun du_run :: "(bytes \<Rightarrow> (out_line list \<times> (bytes + 64 word)) option) \<Rightarrow> bytes list \<Rightarrow> 64 word \<Rightarrow> int
    \<Rightarrow> (out_line list \<times> 64 word \<times> int) option" where
  "du_run walk [] acc code = Some ([], acc, code)"
| "du_run walk (p # ps) acc code =
     (case walk p of
        None \<Rightarrow> None
      | Some (out, Inr n) \<Rightarrow> map_option (apfst (\<lambda>ls. out @ ls)) (du_run walk ps (acc + n) code)
      | Some (out, Inl e) \<Rightarrow>
          map_option (apfst (\<lambda>ls. out @ StdErr (''du: '' @ p @ '': '' @ e) # ls)) (du_run walk ps acc 1))"

definition du_main :: "nat \<Rightarrow> du_fs \<Rightarrow> bytes list \<Rightarrow> run option" where
  "du_main b F argv =
     (case du_args (map from_utf8_lossy (tl argv)) du_defaults of
        Err m \<Rightarrow> Some (Exit 1 [StdErr m])
      | Panicked \<Rightarrow> Some Crash
      | Ok s \<Rightarrow>
          (let s1 = (if du_summary s then s\<lparr>du_max := Some 0\<rparr> else s) in
           map_option (\<lambda>(out, acc, code).
               Exit code (out @ (if du_grand s1 then [size_line (du_human s1) acc ''total''] else [])))
             (du_run (\<lambda>p. walk_du b F s1 p 0) (if du_paths s1 = [] then [''.''] else du_paths s1) 0 0)))"

section \<open>The size does not depend on what is printed\<close>

definition same_size :: "(out_line list \<times> 'a) option \<Rightarrow> (out_line list \<times> 'a) option \<Rightarrow> bool" where
  "same_size x y \<longleftrightarrow> map_option snd x = map_option snd y"

lemma those_same_size:
  "list_all (\<lambda>e. same_size (f e) (g e)) es \<Longrightarrow>
    map_option (\<lambda>ps. map snd ps) (those (map f es)) = map_option (\<lambda>ps. map snd ps) (those (map g es))"
proof (induction es)
  case (Cons e es)
  then show ?case
    by (cases "f e"; cases "g e"; cases "those (map f es)"; cases "those (map g es)") (auto simp: same_size_def)
qed simp

lemma du_entry_same_size:
  "(\<And>q. same_size (walk q) (walk' q)) \<Longrightarrow> same_size (du_entry F s walk p k e) (du_entry F s' walk' p k' e)"
proof -
  assume w: "\<And>q. same_size (walk q) (walk' q)"
  show ?thesis
  proof (cases e)
    case (Inr name)
    let ?q = "path_join p name"
    from w [of ?q] show ?thesis
      by (auto simp: Inr du_entry_def Let_def same_size_def split: sum.split option.split)
  qed (simp add: du_entry_def same_size_def)
qed

lemma walk_du_same_size: "same_size (walk_du b F s p k) (walk_du b F s' p k')"
proof (induction b arbitrary: p k k')
  case (Suc b)
  have "map_option (\<lambda>ps. map snd ps) (those (map (du_entry F s (\<lambda>q. walk_du b F s q (k + 1)) p k) es)) =
      map_option (\<lambda>ps. map snd ps) (those (map (du_entry F s' (\<lambda>q. walk_du b F s' q (k' + 1)) p k') es))" for es
    by (rule those_same_size) (simp add: list.pred_set du_entry_same_size Suc)
  from arg_cong [OF this, of "map_option (\<lambda>ns. Inr (sum_list ns) :: bytes + 64 word)"]
  have es: "map_option (\<lambda>ps. Inr (sum_list (map snd ps)) :: bytes + 64 word)
        (those (map (du_entry F s (\<lambda>q. walk_du b F s q (Suc k)) p k) es)) =
      map_option (\<lambda>ps. Inr (sum_list (map snd ps))) (those (map (du_entry F s' (\<lambda>q. walk_du b F s' q (Suc k')) p k') es))" for es
    by (simp add: option.map_comp comp_def)
  show ?case
    by (cases "df_meta F p"; cases "df_read_dir F p")
      (auto simp: same_size_def option.map_comp comp_def split_beta es)
qed (simp add: same_size_def)

section \<open>The summary\<close>

text \<open>No path is both a file and a directory.\<close>

definition plain_kinds :: "du_fs \<Rightarrow> bool" where
  "plain_kinds F \<longleftrightarrow> (\<forall>q m. df_meta F q = Inr m \<longrightarrow> \<not> (md_is_file m \<and> md_is_dir m))"

lemma those_stdout:
  "those (map f es) = Some ps \<Longrightarrow> (\<And>e out x. e \<in> set es \<Longrightarrow> f e = Some (out, x) \<Longrightarrow> stdout_of out = [])
    \<Longrightarrow> stdout_of (concat (map fst ps)) = []"
proof (induction es arbitrary: ps)
  case (Cons e es)
  obtain out x ps' where p: "f e = Some (out, x)" "those (map f es) = Some ps'" "ps = (out, x) # ps'"
    using Cons.prems(1) by (auto split: option.splits)
  have "stdout_of out = []" using Cons.prems(2) p(1) by auto
  moreover have "stdout_of (concat (map fst ps')) = []" by (rule Cons.IH [OF p(2)]) (use Cons.prems(2) in auto)
  ultimately show ?case by (simp add: p(3))
qed simp

lemma summary_silent:
  assumes "du_max s = Some 0" and "plain_kinds F"
  shows "df_meta F p = Inr m \<Longrightarrow> md_is_dir m \<Longrightarrow> walk_du b F s p k = Some (out, r) \<Longrightarrow>
    \<exists>n. r = Inr n \<and> stdout_of out = (if k = 0 then stdout_of [size_line (du_human s) n (from_utf8_lossy p)] else [])"
proof (induction b arbitrary: p m k out r)
  case (Suc b)
  have nf: "\<not> md_is_file m" using Suc.prems(1,2) assms(2) unfolding plain_kinds_def by blast
  have entry: "stdout_of out' = []"
    if "du_entry F s (\<lambda>q. walk_du b F s q (k + 1)) p k e = Some (out', x)" for e out' x
    using that Suc.IH [of "path_join p _" _ "k + 1"] assms(1)
    by (fastforce simp: du_entry_def Let_def du_error_def in_depth_def split: sum.splits option.splits if_splits)
  have in0: "in_depth s k \<longleftrightarrow> k = 0" using assms(1) by (simp add: in_depth_def)
  show ?case
  proof (cases "df_read_dir F p")
    case (Inr es)
    then obtain ps where ps: "those (map (du_entry F s (\<lambda>q. walk_du b F s q (k + 1)) p k) es) = Some ps"
        "r = Inr (sum_list (map snd ps))"
        "out = concat (map fst ps) @ (if k = 0 then [size_line (du_human s) (sum_list (map snd ps)) (from_utf8_lossy p)] else [])"
      using Suc.prems nf by (auto simp: in0)
    from those_stdout [OF ps(1)] entry have "stdout_of (concat (map fst ps)) = []" by blast
    with ps(2,3) show ?thesis by auto
  qed (use Suc.prems nf in \<open>auto simp: in0 du_error_def\<close>)
qed simp

section \<open>Properties\<close>

text \<open>The size that \<open>du\<close> finds for a path does not depend on the printing options: with
  \<open>-s\<close> (a depth limit of 0) the walk finds the same size as with any other options, and prints exactly one
  line for the path on standard output, with that size.\<close>

theorem du_summary_agrees:
  assumes "walk_du b F s p 0 = Some (out, Inr n)" and "du_max s' = Some 0" and "plain_kinds F"
  shows "\<exists>out'. walk_du b F s' p 0 = Some (out', Inr n)
    \<and> stdout_of out' = stdout_of [size_line (du_human s') n (from_utf8_lossy p)]"
proof -
  from walk_du_same_size [of b F s p 0 s' 0] assms(1) obtain out' where w: "walk_du b F s' p 0 = Some (out', Inr n)"
    by (cases "walk_du b F s' p 0") (auto simp: same_size_def)
  show ?thesis
  proof (cases b)
    case (Suc c)
    with assms(1) obtain m where m: "df_meta F p = Inr m" by (auto split: sum.splits)
    show ?thesis
    proof (cases "md_is_dir m")
      case True
      from summary_silent [OF assms(2,3) m this w] w show ?thesis by auto
    next
      case False
      with w m Suc show ?thesis by auto
    qed
  qed (use w in simp)
qed

definition demo_du_fs :: du_fs where
  "demo_du_fs = \<lparr>df_meta = (\<lambda>p. if p = ''d'' then Inr \<lparr>md_is_file = False, md_is_dir = True, md_len = 0\<rparr>
       else Inr \<lparr>md_is_file = True, md_is_dir = False, md_len = 1500\<rparr>),
     df_read_dir = (\<lambda>p. Inr [Inr ''a'', Inr ''b''])\<rparr>"

lemma blocks_1500: "blocks 1500 = 2"
  by (simp add: blocks_def)

lemma demo_du_walk:
  "walk_du (Suc (Suc 0)) demo_du_fs du_defaults ''d'' 0 = Some ([size_line False 4 (from_utf8_lossy ''d'')], Inr 4)"
  by (simp add: demo_du_fs_def du_defaults_def du_entry_def path_join_def in_depth_def blocks_1500)

lemma demo_du_kinds: "plain_kinds demo_du_fs"
  by (simp add: plain_kinds_def demo_du_fs_def)

lemma du_summary_agrees_witness:
  "\<exists>out'. walk_du (Suc (Suc 0)) demo_du_fs (du_defaults\<lparr>du_max := Some 0, du_all := True\<rparr>) ''d'' 0 = Some (out', Inr 4)
     \<and> stdout_of out' = stdout_of [size_line False 4 (from_utf8_lossy ''d'')]"
  using du_summary_agrees [OF demo_du_walk _ demo_du_kinds, of "du_defaults\<lparr>du_max := Some 0, du_all := True\<rparr>"]
  by (simp add: du_defaults_def)

text \<open>A long option that is not known is taken for a path.\<close>

lemma unknown_long_option_is_path:
  "du_args [''--max-depth=1''] du_defaults = Ok (du_defaults\<lparr>du_paths := [''--max-depth=1'']\<rparr>)"
  by (simp add: du_defaults_def)

end
