(* ===== verification/Gzip_Cmd.thy ===== *)
theory Gzip_Cmd
  imports Process Utf8
begin

text \<open>
  The \<open>gzip\<close>, \<open>gunzip\<close> and \<open>zcat\<close> commands (\<open>libs/gzip/src/lib.rs\<close>): options, file names, and the
  reading, writing and removing of files as changes of a store.  The \<open>flate2\<close> crate is a parameter;
  every path of the store is a regular file.
\<close>

section \<open>Options\<close>

record gz_options =
  gz_decompress :: bool
  gz_stdout :: bool
  gz_keep :: bool
  gz_force :: bool
  gz_level :: nat
  gz_files :: "bytes list"

datatype gz_parse = GzRun gz_options | GzHelp | GzError bytes

definition gz_progname :: "bytes list \<Rightarrow> bytes" where
  "gz_progname argv =
     (let a = (case argv of [] \<Rightarrow> [] | x # xs \<Rightarrow> from_utf8_lossy x)
      in case rsplit_once CHR ''/'' a of Some (d, n) \<Rightarrow> n | None \<Rightarrow> a)"

definition gz_defaults :: "bytes \<Rightarrow> gz_options" where
  "gz_defaults prog = \<lparr>gz_decompress = (prog = ''gunzip'' \<or> prog = ''zcat''), gz_stdout = (prog = ''zcat''),
     gz_keep = False, gz_force = False, gz_level = 6, gz_files = []\<rparr>"

definition gz_digit :: "bytes \<Rightarrow> nat option" where
  "gz_digit c = (case c of [d] \<Rightarrow> if between 49 57 (byte d) then Some (byte d - 48) else None | _ \<Rightarrow> None)"

fun gz_flags :: "bytes \<Rightarrow> bytes list \<Rightarrow> gz_options \<Rightarrow> gz_parse" where
  "gz_flags prog [] s = GzRun s"
| "gz_flags prog (c # cs) s =
     (if c = ''d'' then gz_flags prog cs (s\<lparr>gz_decompress := True\<rparr>)
      else if c = ''c'' then gz_flags prog cs (s\<lparr>gz_stdout := True\<rparr>)
      else if c = ''k'' then gz_flags prog cs (s\<lparr>gz_keep := True\<rparr>)
      else if c = ''f'' then gz_flags prog cs (s\<lparr>gz_force := True\<rparr>)
      else (case gz_digit c of
              Some n \<Rightarrow> gz_flags prog cs (s\<lparr>gz_level := n\<rparr>)
            | None \<Rightarrow> if c = ''h'' then GzHelp else GzError (prog @ '': invalid option -- '' @ quoted c)))"

fun gz_args :: "bytes \<Rightarrow> bytes list \<Rightarrow> gz_options \<Rightarrow> gz_parse" where
  "gz_args prog [] s = GzRun s"
| "gz_args prog (a # rest) s =
     (if a = ''--'' then GzRun (s\<lparr>gz_files := gz_files s @ rest\<rparr>)
      else if prefix ''-'' a \<and> 1 < length a \<and> \<not> prefix ''--'' a then
        (case gz_flags prog (utf8_chars (tl a)) s of
           GzRun s' \<Rightarrow> gz_args prog rest s'
         | other \<Rightarrow> other)
      else if a = ''--decompress'' \<or> a = ''--uncompress'' then gz_args prog rest (s\<lparr>gz_decompress := True\<rparr>)
      else if a = ''--stdout'' \<or> a = ''--to-stdout'' then gz_args prog rest (s\<lparr>gz_stdout := True\<rparr>)
      else if a = ''--keep'' then gz_args prog rest (s\<lparr>gz_keep := True\<rparr>)
      else if a = ''--force'' then gz_args prog rest (s\<lparr>gz_force := True\<rparr>)
      else if a = ''--fast'' then gz_args prog rest (s\<lparr>gz_level := 1\<rparr>)
      else if a = ''--best'' then gz_args prog rest (s\<lparr>gz_level := 9\<rparr>)
      else if a = ''--help'' then GzHelp
      else gz_args prog rest (s\<lparr>gz_files := gz_files s @ [a]\<rparr>))"

definition gz_usage :: "bytes \<Rightarrow> bytes list" where
  "gz_usage prog =
     [''Usage: '' @ prog @ '' [-dcfk123456789] [file ...]'',
      ''  -d, --decompress   decompress'',
      ''  -c, --stdout       write to stdout, keep original files'',
      ''  -k, --keep         keep input files'',
      ''  -f, --force        force overwrite of output file'',
      ''  -1..9              compression level (fast..best, default 6)'',
      ''  -h, --help         display this help'']"

section \<open>Files\<close>

text \<open>The compressor at a level; the decompressor gives the bytes it could decode and how it failed; why
  a file cannot be opened, created or removed.\<close>

record gz_lib =
  fl_compress :: "nat \<Rightarrow> bytes \<Rightarrow> bytes"
  fl_decompress :: "bytes \<Rightarrow> bytes \<times> bytes option"
  fl_open_error :: "bytes \<Rightarrow> bytes"
  fl_create_error :: "bytes \<Rightarrow> bytes option"
  fl_remove_error :: "bytes \<Rightarrow> bytes option"

text \<open>The files and what was written to standard output and to standard error.\<close>

record gz_world =
  gw_files :: "bytes \<rightharpoonup> bytes"
  gw_out :: bytes
  gw_err :: "bytes list"

definition unpacked_name :: "bytes \<Rightarrow> bytes" where
  "unpacked_name path =
     (if suffix ''.gz'' path then take (length path - 3) path
      else if suffix ''.tgz'' path then take (length path - 4) path @ ''.tar''
      else if suffix ''.z'' path then take (length path - 2) path
      else path @ ''.out'')"

text \<open>Both directions are the same steps: check the target, open the source, convert it to standard
  output or to the target, and remove the source.\<close>

definition convert_file ::
  "gz_lib \<Rightarrow> bytes \<Rightarrow> gz_options \<Rightarrow> (bytes \<Rightarrow> bytes \<times> bytes option) \<Rightarrow> bytes \<Rightarrow> bytes \<Rightarrow> gz_world \<Rightarrow> bytes option \<times> gz_world" where
  "convert_file Z prog s conv path target w =
     (if \<not> gz_stdout s \<and> \<not> gz_force s \<and> gw_files w target \<noteq> None
      then (Some (prog @ '': '' @ target @ '' already exists; not overwritten''), w)
      else (case gw_files w path of
              None \<Rightarrow> (Some (fl_open_error Z path), w)
            | Some data \<Rightarrow>
                (let (out, failed) = conv data in
                 if gz_stdout s then (failed, w\<lparr>gw_out := gw_out w @ out\<rparr>)
                 else (case fl_create_error Z target of
                         Some e \<Rightarrow> (Some e, w)
                       | None \<Rightarrow>
                           (let w1 = w\<lparr>gw_files := (gw_files w)(target \<mapsto> out)\<rparr> in
                            case failed of
                              Some e \<Rightarrow> (Some e, w1)
                            | None \<Rightarrow>
                                if gz_keep s then (None, w1)
                                else (case fl_remove_error Z path of
                                        Some e \<Rightarrow> (Some e, w1)
                                      | None \<Rightarrow> (None, w1\<lparr>gw_files := (gw_files w1)(path := None)\<rparr>)))))))"

definition compress_file :: "gz_lib \<Rightarrow> bytes \<Rightarrow> gz_options \<Rightarrow> bytes \<Rightarrow> gz_world \<Rightarrow> bytes option \<times> gz_world" where
  "compress_file Z prog s path w =
     convert_file Z prog s (\<lambda>d. (fl_compress Z (gz_level s) d, None)) path (path @ ''.gz'') w"

definition decompress_file :: "gz_lib \<Rightarrow> bytes \<Rightarrow> gz_options \<Rightarrow> bytes \<Rightarrow> gz_world \<Rightarrow> bytes option \<times> gz_world" where
  "decompress_file Z prog s path w = convert_file Z prog s (fl_decompress Z) path (unpacked_name path) w"

section \<open>The command\<close>

definition gz_report :: "bytes \<Rightarrow> bytes option \<times> gz_world \<Rightarrow> int \<times> gz_world" where
  "gz_report prog r =
     (case r of
        (None, w) \<Rightarrow> (0, w)
      | (Some e, w) \<Rightarrow> (1, w\<lparr>gw_err := gw_err w @ [prog @ '': '' @ e]\<rparr>))"

fun gz_each :: "gz_lib \<Rightarrow> bytes \<Rightarrow> gz_options \<Rightarrow> bytes list \<Rightarrow> gz_world \<Rightarrow> int \<times> gz_world" where
  "gz_each Z prog s [] w = (0, w)"
| "gz_each Z prog s (f # fs) w =
     (let (c, w1) = gz_report prog (if gz_decompress s then decompress_file Z prog s f w else compress_file Z prog s f w);
          (c', w2) = gz_each Z prog s fs w1
      in (max c c', w2))"

definition gz_stream :: "gz_lib \<Rightarrow> bytes \<Rightarrow> gz_options \<Rightarrow> bytes \<Rightarrow> gz_world \<Rightarrow> int \<times> gz_world" where
  "gz_stream Z prog s stdin w =
     (let (out, failed) = (if gz_decompress s then fl_decompress Z stdin else (fl_compress Z (gz_level s) stdin, None))
      in gz_report prog (failed, w\<lparr>gw_out := gw_out w @ out\<rparr>))"

definition gz_main :: "gz_lib \<Rightarrow> bytes \<Rightarrow> bytes list \<Rightarrow> gz_world \<Rightarrow> int \<times> gz_world" where
  "gz_main Z stdin argv w =
     (let prog = gz_progname argv in
      case gz_args prog (map from_utf8_lossy (tl argv)) (gz_defaults prog) of
        GzHelp \<Rightarrow> (0, w\<lparr>gw_err := gw_err w @ gz_usage prog\<rparr>)
      | GzError m \<Rightarrow> (1, w\<lparr>gw_err := gw_err w @ [m]\<rparr>)
      | GzRun s \<Rightarrow> if gz_files s = [] then gz_stream Z prog s stdin w else gz_each Z prog s (gz_files s) w)"

section \<open>The stores before and after\<close>

lemma unpacked_gz: "unpacked_name (f @ ''.gz'') = f"
  by (simp add: unpacked_name_def suffix_to_prefix)

lemma convert_file_moves:
  assumes "gw_files w path = Some data" and "gw_files w target = None" and "conv data = (out, None)"
    and "\<not> gz_stdout s" "\<not> gz_keep s" and "fl_create_error Z target = None" "fl_remove_error Z path = None"
  shows "convert_file Z prog s conv path target w = (None, w\<lparr>gw_files := (gw_files w)(target \<mapsto> out, path := None)\<rparr>)"
  using assms by (simp add: convert_file_def)

definition file_argument :: "bytes \<Rightarrow> bool" where
  "file_argument f \<longleftrightarrow> utf8_valid f \<and> \<not> prefix ''-'' f"

lemma gz_progname_plain: "CHR ''/'' \<notin> set prog \<Longrightarrow> utf8_valid prog \<Longrightarrow> gz_progname (prog # as) = prog"
  using rsplit_once_None [of "CHR ''/''" prog] by (simp add: gz_progname_def from_utf8_lossy_valid)

lemma gz_args_file:
  assumes "\<not> prefix ''-'' f"
  shows "gz_args prog [f] s = GzRun (s\<lparr>gz_files := gz_files s @ [f]\<rparr>)"
proof -
  have "f \<noteq> CHR ''-'' # cs" for cs using assms by auto
  with assms show ?thesis by simp
qed

definition gz_one :: "gz_lib \<Rightarrow> bytes \<Rightarrow> bytes \<Rightarrow> gz_world \<Rightarrow> bytes option \<times> gz_world" where
  "gz_one Z prog f w =
     (let s = gz_defaults prog\<lparr>gz_files := [f]\<rparr>
      in if gz_decompress s then decompress_file Z prog s f w else compress_file Z prog s f w)"

lemma gz_main_one:
  assumes "file_argument f" and "CHR ''/'' \<notin> set prog" "utf8_valid prog"
  shows "gz_main Z stdin [prog, f] w = gz_report prog (gz_one Z prog f w)"
proof -
  have r: "(let (c, w1) = r; (c', w2) = (0, w1) in (max c c', w2)) = r" if "fst r = 0 \<or> fst r = 1"
    for r :: "int \<times> gz_world" using that by (cases r) auto
  have s: "fst (gz_report prog x) = 0 \<or> fst (gz_report prog x) = 1" for x
    by (auto simp: gz_report_def split: prod.split option.split)
  from assms(1) have "gz_args prog [f] (gz_defaults prog) = GzRun (gz_defaults prog\<lparr>gz_files := [f]\<rparr>)" "from_utf8_lossy f = f"
    by (simp_all add: gz_args_file file_argument_def gz_defaults_def from_utf8_lossy_valid del: gz_args.simps)
  then show ?thesis
    using r [OF s] by (simp del: gz_args.simps add: gz_main_def gz_progname_plain assms(2,3) gz_one_def Let_def)
qed

lemma gz_defaults_simps [simp]:
  "gz_decompress (gz_defaults p) = (p = ''gunzip'' \<or> p = ''zcat'')" "gz_stdout (gz_defaults p) = (p = ''zcat'')"
  "\<not> gz_keep (gz_defaults p)" "\<not> gz_force (gz_defaults p)" "gz_level (gz_defaults p) = 6"
  by (simp_all add: gz_defaults_def)

lemma valid_names [simp]: "utf8_valid ''gzip''" "utf8_valid ''gunzip''"
  by (simp_all add: utf8_valid_ascii byte_def)

lemma gz_file_argument: "file_argument f \<Longrightarrow> file_argument (f @ ''.gz'')"
  using utf8_valid_append [of f "''.gz''"] by (cases f) (auto simp: file_argument_def utf8_valid_ascii byte_def)

section \<open>Properties\<close>

text \<open>What the compression crate documents: it decodes what it encoded.\<close>

definition codec :: "gz_lib \<Rightarrow> bool" where
  "codec Z \<longleftrightarrow> (\<forall>l d. fl_decompress Z (fl_compress Z l d) = (d, None))"

text \<open>Claim C13: For a file \<open>f\<close> whose name is valid UTF-8 and does not start with a dash, \<open>gzip f\<close> refuses
  with status 1, one report and no change when \<open>f.gz\<close> exists. When it does not, creating and removing
  the two names succeed and the compression crate decodes what it encoded, \<open>gzip f\<close> replaces the file by \<open>f.gz\<close>,
  \<open>gunzip f.gz\<close> then brings back the same contents under the same name, both succeed and print nothing, and
  no other file changes in between.\<close>

theorem gzip_gunzip_restores:
  assumes "file_argument f" and "gw_files w f = Some data"
  shows "(gw_files w (f @ ''.gz'') \<noteq> None \<longrightarrow> (\<exists>e. gz_main Z stdin [''gzip'', f] w = (1, w\<lparr>gw_err := gw_err w @ [e]\<rparr>)))
    \<and> (gw_files w (f @ ''.gz'') = None \<and> codec Z
          \<and> (\<forall>p\<in>{f, f @ ''.gz''}. fl_create_error Z p = None \<and> fl_remove_error Z p = None) \<longrightarrow>
        (\<exists>w1. gz_main Z stdin [''gzip'', f] w = (0, w1)
          \<and> gw_files w1 = (gw_files w)(f @ ''.gz'' \<mapsto> fl_compress Z 6 data, f := None)
          \<and> gz_main Z stdin' [''gunzip'', f @ ''.gz''] w1 = (0, w)))"
proof (intro conjI impI)
  assume "gw_files w (f @ ''.gz'') \<noteq> None"
  with assms(1) show "\<exists>e. gz_main Z stdin [''gzip'', f] w = (1, w\<lparr>gw_err := gw_err w @ [e]\<rparr>)"
    by (simp add: gz_main_one gz_one_def compress_file_def convert_file_def gz_report_def) (rule exI, rule refl)
next
  assume a: "gw_files w (f @ ''.gz'') = None \<and> codec Z
    \<and> (\<forall>p\<in>{f, f @ ''.gz''}. fl_create_error Z p = None \<and> fl_remove_error Z p = None)"
  then have gz: "gw_files w (f @ ''.gz'') = None" by blast
  let ?w1 = "w\<lparr>gw_files := (gw_files w)(f @ ''.gz'' \<mapsto> fl_compress Z 6 data, f := None)\<rparr>"
  have 1: "gz_main Z stdin [''gzip'', f] w = (0, ?w1)"
    using assms a by (simp add: gz_main_one gz_one_def compress_file_def gz_report_def convert_file_moves)
  have f: "(gw_files w)(f @ ''.gz'' \<mapsto> z, f := None, f \<mapsto> data, f @ ''.gz'' := None) = gw_files w" for z
    using assms(2) gz by (auto simp: fun_eq_iff)
  have "decompress_file Z ''gunzip'' (gz_defaults ''gunzip''\<lparr>gz_files := [f @ ''.gz'']\<rparr>) (f @ ''.gz'') ?w1 = (None, w)"
    using assms a f unfolding decompress_file_def unpacked_gz
    by (subst convert_file_moves [where data = "fl_compress Z 6 data" and out = data])
      (auto simp: codec_def)
  then have "gz_main Z stdin' [''gunzip'', f @ ''.gz''] ?w1 = (0, w)"
    using gz_file_argument [OF assms(1)] by (simp add: gz_main_one gz_one_def gz_report_def)
  with 1 show "\<exists>w1. gz_main Z stdin [''gzip'', f] w = (0, w1)
      \<and> gw_files w1 = (gw_files w)(f @ ''.gz'' \<mapsto> fl_compress Z 6 data, f := None)
      \<and> gz_main Z stdin' [''gunzip'', f @ ''.gz''] w1 = (0, w)"
    by auto
qed

definition plain_codec :: gz_lib where
  "plain_codec = \<lparr>fl_compress = (\<lambda>l d. CHR ''z'' # d), fl_decompress = (\<lambda>d. case d of c # e \<Rightarrow> (e, None) | [] \<Rightarrow> ([], Some ''eof'')),
     fl_open_error = (\<lambda>p. ''none''), fl_create_error = (\<lambda>p. None), fl_remove_error = (\<lambda>p. None)\<rparr>"

lemma gzip_gunzip_restores_witness:
  "\<exists>w1. gz_main plain_codec [] [''gzip'', ''a''] \<lparr>gw_files = [''a'' \<mapsto> ''data''], gw_out = [], gw_err = []\<rparr> = (0, w1)
    \<and> gw_files w1 ''a.gz'' = Some ''zdata''"
  using gzip_gunzip_restores [where Z = plain_codec and f = "''a''" and data = "''data''" and stdin = "[]" and stdin' = "[]"
      and w = "\<lparr>gw_files = [''a'' \<mapsto> ''data''], gw_out = [], gw_err = []\<rparr>"]
  by (auto simp: plain_codec_def codec_def file_argument_def utf8_valid_ascii byte_def)

text \<open>The report about an existing target names the program twice.\<close>

lemma exists_report_doubled:
  "gw_err (snd (gz_main plain_codec [] [''gzip'', ''a''] \<lparr>gw_files = [''a'' \<mapsto> [], ''a.gz'' \<mapsto> []], gw_out = [], gw_err = []\<rparr>)) =
    [''gzip: gzip: a.gz already exists; not overwritten'']"
  by (simp add: gz_main_one gz_one_def file_argument_def utf8_valid_ascii byte_def compress_file_def convert_file_def gz_report_def)

end
