(* ===== verification/Tar_Cmd.thy ===== *)
theory Tar_Cmd
  imports Dir_Walk
begin

unbundle bit_operations_syntax

text \<open>
  The \<open>tar\<close> command (\<open>libs/tar/src/lib.rs\<close>): arguments, the entries of an archive in the order of the
  walk, extraction as operations on the file system, and the listing.  The \<open>tar\<close> and \<open>flate2\<close> crates and
  the file system are parameters; \<open>Tar_Props\<close> has the properties.
\<close>

section \<open>Arguments\<close>

datatype tar_mode = NoMode | Create | Extract | List

record tar_options =
  ta_mode :: tar_mode
  ta_archive :: "bytes option"
  ta_gzip :: bool
  ta_verbose :: bool
  ta_directory :: "bytes option"
  ta_strip :: nat
  ta_paths :: "bytes list"

definition tar_defaults :: tar_options where
  "tar_defaults = \<lparr>ta_mode = NoMode, ta_archive = None, ta_gzip = False, ta_verbose = False,
     ta_directory = None, ta_strip = 0, ta_paths = []\<rparr>"

datatype tar_parse = TarOptions tar_options | TarHelp | TarUnknown bytes

text \<open>The rest of a bundle of flags, or else the next argument, if there is one.\<close>

definition flag_value :: "bytes list \<Rightarrow> bytes list \<Rightarrow> bytes option \<times> bytes list" where
  "flag_value chars rest =
     (if concat chars \<noteq> [] then (Some (concat chars), rest)
      else (case rest of [] \<Rightarrow> (None, []) | v # rest' \<Rightarrow> (Some v, rest')))"

definition set_archive :: "bytes option \<Rightarrow> tar_options \<Rightarrow> tar_options" where
  "set_archive v s = (case v of Some a \<Rightarrow> s\<lparr>ta_archive := Some a\<rparr> | None \<Rightarrow> s)"

definition set_directory :: "bytes option \<Rightarrow> tar_options \<Rightarrow> tar_options" where
  "set_directory v s = (case v of Some d \<Rightarrow> s\<lparr>ta_directory := Some d\<rparr> | None \<Rightarrow> s)"

fun tar_flags :: "bytes list \<Rightarrow> tar_options \<Rightarrow> bytes list \<Rightarrow> bytes + tar_options \<times> bytes list" where
  "tar_flags [] s rest = Inr (s, rest)"
| "tar_flags (c # cs) s rest =
     (if c = ''c'' then tar_flags cs (s\<lparr>ta_mode := Create\<rparr>) rest
      else if c = ''x'' then tar_flags cs (s\<lparr>ta_mode := Extract\<rparr>) rest
      else if c = ''t'' then tar_flags cs (s\<lparr>ta_mode := List\<rparr>) rest
      else if c = ''z'' then tar_flags cs (s\<lparr>ta_gzip := True\<rparr>) rest
      else if c = ''v'' then tar_flags cs (s\<lparr>ta_verbose := True\<rparr>) rest
      else if c = ''f'' then (let (v, rest') = flag_value cs rest in Inr (set_archive v s, rest'))
      else if c = ''C'' then (let (v, rest') = flag_value cs rest in Inr (set_directory v s, rest'))
      else Inl c)"

lemma flag_value_length: "length (snd (flag_value cs rest)) \<le> length rest"
  by (simp add: flag_value_def split: list.split)

lemma tar_flags_length: "tar_flags cs s rest = Inr r \<Longrightarrow> length (snd r) \<le> length rest"
proof (induction cs arbitrary: s)
  case (Cons c cs)
  then show ?case using flag_value_length [of cs rest]
    by (auto simp: Let_def split_beta split: if_splits prod.splits)
qed auto

text \<open>Only the first argument may be a bundle of flags without a dash.\<close>

function tar_args :: "bytes list \<Rightarrow> bool \<Rightarrow> tar_options \<Rightarrow> tar_parse" where
  "tar_args [] first s = TarOptions s"
| "tar_args (a # rest) first s =
     (case strip_prefix ''--strip-components='' a of
        Some v \<Rightarrow> tar_args rest False (case parse_usize32 v of Some n \<Rightarrow> s\<lparr>ta_strip := n\<rparr> | None \<Rightarrow> s)
      | None \<Rightarrow>
          if a = ''--strip-components'' then
            (case rest of
               [] \<Rightarrow> TarOptions s
             | v # rest' \<Rightarrow>
                 tar_args rest' False (s\<lparr>ta_strip := (case parse_usize32 v of Some n \<Rightarrow> n | None \<Rightarrow> 0)\<rparr>))
          else if a = ''-C'' \<or> a = ''--directory'' then
            (case rest of
               [] \<Rightarrow> TarOptions s
             | v # rest' \<Rightarrow> tar_args rest' False (s\<lparr>ta_directory := Some v\<rparr>))
          else if a = ''--help'' then TarHelp
          else if prefix ''-'' a \<or> first then
            (case tar_flags (utf8_chars (if prefix ''-'' a then tl a else a)) s rest of
               Inl c \<Rightarrow> TarUnknown c
             | Inr r \<Rightarrow> tar_args (snd r) False (fst r))
          else tar_args rest False (s\<lparr>ta_paths := ta_paths s @ [a]\<rparr>))"
  by pat_completeness auto
termination
  by (relation "measure (\<lambda>(args, first, s). length args)")
    (auto dest: tar_flags_length simp: less_Suc_eq_le)

definition detects_gzip :: "tar_options \<Rightarrow> bool" where
  "detects_gzip s \<longleftrightarrow> ta_gzip s \<or>
     (case ta_archive s of Some f \<Rightarrow> suffix ''.tar.gz'' f \<or> suffix ''.tgz'' f | None \<Rightarrow> False)"

section \<open>Archives\<close>

datatype tar_kind = KRegular | KDirectory | KSymlink | KSparse | KOther

text \<open>The name that a link has in an entry may be one that cannot be read.\<close>

record tar_entry =
  te_path :: bytes
  te_kind :: tar_kind
  te_size :: nat
  te_mode :: nat
  te_data :: bytes
  te_link :: "bytes + bytes option"

text \<open>Why an entry cannot be stored; the bytes of an archive, finished or not; the entries of an archive
  and the error that ended their reading; and compression.\<close>

record tar_crate =
  tc_append_error :: "tar_entry \<Rightarrow> bytes option"
  tc_encode :: "bool \<Rightarrow> tar_entry list \<Rightarrow> bytes"
  tc_decode :: "bytes \<Rightarrow> tar_entry list \<times> bytes option"
  tc_gzip :: "bytes \<Rightarrow> bytes"
  tc_gunzip :: "bytes \<Rightarrow> bytes"

text \<open>Reading the file system: what a path is without following links, and its length.\<close>

record tar_fs =
  tf_lstat :: "bytes \<Rightarrow> bytes + tar_kind \<times> nat"
  tf_read :: "bytes \<Rightarrow> bytes + bytes"
  tf_read_link :: "bytes \<Rightarrow> bytes + bytes"
  tf_read_dir :: "bytes \<Rightarrow> bytes + (bytes + bytes) list"

datatype tar_event = Shown bytes | Stored tar_entry

fun stored :: "tar_event list \<Rightarrow> tar_entry list" where
  "stored [] = []"
| "stored (Stored e # es) = e # stored es"
| "stored (Shown l # es) = stored es"

section \<open>Creating\<close>

definition store_entry :: "tar_crate \<Rightarrow> tar_event list \<Rightarrow> tar_entry \<Rightarrow> tar_event list \<times> walk_end" where
  "store_entry T shown e = (case tc_append_error T e of None \<Rightarrow> (shown @ [Stored e], WDone) | Some m \<Rightarrow> (shown, WErr m))"

definition shown_path :: "bool \<Rightarrow> bytes \<Rightarrow> tar_event list" where
  "shown_path verbose l = (if verbose then [Shown l] else [])"

definition and_after :: "'l list \<times> walk_end \<Rightarrow> 'l list \<times> walk_end \<Rightarrow> 'l list \<times> walk_end" where
  "and_after x y = (case x of (ls, WDone) \<Rightarrow> (ls @ fst y, snd y) | other \<Rightarrow> other)"

text \<open>All the names of a directory, in order, or the first error.\<close>

definition dir_names :: "(bytes + bytes) list \<Rightarrow> bytes + bytes list" where
  "dir_names es =
     (case List.map_filter (\<lambda>e. case e of Inl m \<Rightarrow> Some m | Inr n \<Rightarrow> None) es of
        m # ms \<Rightarrow> Inl m
      | [] \<Rightarrow> Inr (sorted_names es))"

fun append_path :: "nat \<Rightarrow> tar_crate \<Rightarrow> tar_fs \<Rightarrow> bool \<Rightarrow> bytes \<Rightarrow> tar_event list \<times> walk_end" where
  "append_path 0 T F verbose p = ([], WBound)"
| "append_path (Suc b) T F verbose p =
     (case tf_lstat F p of
        Inl e \<Rightarrow> ([], WErr e)
      | Inr (KDirectory, n) \<Rightarrow>
          and_after (store_entry T (shown_path verbose (from_utf8_lossy p @ ''/''))
              \<lparr>te_path = p, te_kind = KDirectory, te_size = 0, te_mode = 0x1ED, te_data = [], te_link = Inr None\<rparr>)
            (case tf_read_dir F p of
               Inl e \<Rightarrow> ([], WErr e)
             | Inr es \<Rightarrow>
                 (case dir_names es of
                    Inl e \<Rightarrow> ([], WErr e)
                  | Inr ns \<Rightarrow> walk_list (\<lambda>n. append_path b T F verbose (path_join p n)) ns))
      | Inr (KRegular, n) \<Rightarrow>
          (case tf_read F p of
             Inl e \<Rightarrow> (shown_path verbose (from_utf8_lossy p), WErr e)
           | Inr data \<Rightarrow> store_entry T (shown_path verbose (from_utf8_lossy p))
               \<lparr>te_path = p, te_kind = KRegular, te_size = n, te_mode = 0x1A4, te_data = data, te_link = Inr None\<rparr>)
      | Inr (KSymlink, n) \<Rightarrow>
          (case tf_read_link F p of
             Inl e \<Rightarrow> (shown_path verbose (from_utf8_lossy p), WErr e)
           | Inr t \<Rightarrow> store_entry T (shown_path verbose (from_utf8_lossy p))
               \<lparr>te_path = p, te_kind = KSymlink, te_size = 0, te_mode = 0x1FF, te_data = [], te_link = Inr (Some t)\<rparr>)
      | Inr (k, n) \<Rightarrow> ([], WDone))"

text \<open>The events, how it ended, and the bytes written to the archive.\<close>

definition do_create :: "nat \<Rightarrow> tar_crate \<Rightarrow> tar_fs \<Rightarrow> bool \<Rightarrow> bool \<Rightarrow> bytes list \<Rightarrow> tar_event list \<times> walk_end \<times> bytes" where
  "do_create b T F gzip verbose paths =
     (let (ev, e) = walk_list (append_path b T F verbose) paths;
          raw = tc_encode T (e = WDone) (stored ev)
      in (ev, e, if gzip then tc_gzip T raw else raw))"

section \<open>Extracting\<close>

definition strip_path_components :: "bytes \<Rightarrow> nat \<Rightarrow> bytes option" where
  "strip_path_components p n =
     (if n = 0 then Some p
      else if length (components p) \<le> n then None
      else Some (foldl path_join [] (drop n (components p))))"

text \<open>Operations on paths given by their components; each changes the world and may fail.\<close>

datatype fs_op = MkdirAll "bytes list" | WriteFile "bytes list" bytes | SoftLink bytes "bytes list"

type_synonym 'w fs_step = "fs_op \<Rightarrow> 'w \<Rightarrow> bytes option \<times> 'w"

definition make_parent :: "'w fs_step \<Rightarrow> bytes list \<Rightarrow> 'w \<Rightarrow> bytes option \<times> 'w" where
  "make_parent step cs w = (if butlast cs = [] then (None, w) else step (MkdirAll (butlast cs)) w)"

definition extract_entry :: "'w fs_step \<Rightarrow> tar_entry \<Rightarrow> bytes \<Rightarrow> 'w \<Rightarrow> bytes option \<times> 'w" where
  "extract_entry step e dest w =
     (let cs = components dest in
      case te_kind e of
        KDirectory \<Rightarrow> step (MkdirAll cs) w
      | KSymlink \<Rightarrow>
          (case te_link e of
             Inl m \<Rightarrow> (Some m, w)
           | Inr None \<Rightarrow> (None, w)
           | Inr (Some t) \<Rightarrow>
               (case make_parent step cs w of
                  (Some m, w1) \<Rightarrow> (Some m, w1)
                | (None, w1) \<Rightarrow> (None, snd (step (SoftLink t cs) w1))))
      | KOther \<Rightarrow> (None, w)
      | k \<Rightarrow>
          (case make_parent step cs w of
             (Some m, w1) \<Rightarrow> (Some m, w1)
           | (None, w1) \<Rightarrow> step (WriteFile cs (te_data e)) w1))"

text \<open>The entries in turn, up to the first failure: the paths shown, the error, the world.\<close>

fun extract_entries :: "'w fs_step \<Rightarrow> bool \<Rightarrow> nat \<Rightarrow> tar_entry list \<Rightarrow> 'w \<Rightarrow> bytes list \<times> bytes option \<times> 'w" where
  "extract_entries step verbose n [] w = ([], None, w)"
| "extract_entries step verbose n (e # es) w =
     (case strip_path_components (te_path e) n of
        None \<Rightarrow> extract_entries step verbose n es w
      | Some dest \<Rightarrow>
          if dest = [] then extract_entries step verbose n es w
          else (let shown = (if verbose then [from_utf8_lossy (te_path e)] else []) in
            case extract_entry step e dest w of
              (Some m, w1) \<Rightarrow> (shown, Some m, w1)
            | (None, w1) \<Rightarrow> (let (ls, r) = extract_entries step verbose n es w1 in (shown @ ls, r))))"

definition do_extract :: "tar_crate \<Rightarrow> 'w fs_step \<Rightarrow> bool \<Rightarrow> bool \<Rightarrow> nat \<Rightarrow> bytes \<Rightarrow> 'w \<Rightarrow> bytes list \<times> bytes option \<times> 'w" where
  "do_extract T step gzip verbose n archive w =
     (let (es, failed) = tc_decode T (if gzip then tc_gunzip T archive else archive);
          (ls, err, w') = extract_entries step verbose n es w
      in (ls, if err = None then failed else err, w'))"

section \<open>Listing\<close>

text \<open>The masks of the nine letters: 0400, 0200 and so on.\<close>

definition mode_bits :: "(nat \<times> char) list" where
  "mode_bits = [(0x100, CHR ''r''), (0x80, CHR ''w''), (0x40, CHR ''x''), (0x20, CHR ''r''), (0x10, CHR ''w''),
     (0x8, CHR ''x''), (0x4, CHR ''r''), (0x2, CHR ''w''), (0x1, CHR ''x'')]"

definition format_mode :: "nat \<Rightarrow> bytes" where
  "format_mode mode = map (\<lambda>(bit, ch). if mode AND bit \<noteq> 0 then ch else CHR ''-'') mode_bits"

definition list_line :: "bool \<Rightarrow> tar_entry \<Rightarrow> bytes" where
  "list_line verbose e =
     (if verbose then
        [case te_kind e of KDirectory \<Rightarrow> CHR ''d'' | KSymlink \<Rightarrow> CHR ''l'' | _ \<Rightarrow> CHR ''-'']
        @ format_mode (te_mode e) @ '' '' @ pad_left 8 (show_nat (te_size e)) @ '' '' @ from_utf8_lossy (te_path e)
      else from_utf8_lossy (te_path e))"

definition do_list :: "tar_crate \<Rightarrow> bool \<Rightarrow> bool \<Rightarrow> bytes \<Rightarrow> bytes list \<times> bytes option" where
  "do_list T gzip verbose archive =
     (let (es, failed) = tc_decode T (if gzip then tc_gunzip T archive else archive)
      in (map (list_line verbose) es, failed))"

section \<open>The command\<close>

text \<open>What the command asks of the system: another working directory, the file system as it is now, the
  contents of a file, creating it, writing it, and the operations of an extraction.\<close>

record 'w tar_system =
  ts_chdir :: "bytes \<Rightarrow> 'w \<Rightarrow> bytes option \<times> 'w"
  ts_fs :: "'w \<Rightarrow> tar_fs"
  ts_open :: "'w \<Rightarrow> bytes \<Rightarrow> bytes + bytes"
  ts_create :: "bytes \<Rightarrow> 'w \<Rightarrow> bytes option \<times> 'w"
  ts_write :: "bytes \<Rightarrow> bytes \<Rightarrow> 'w \<Rightarrow> 'w"
  ts_step :: "'w fs_step"

text \<open>The status, the lines on standard error and standard output, the raw bytes on standard output.\<close>

type_synonym 'w tar_end = "(int \<times> bytes list \<times> bytes list \<times> bytes \<times> 'w) option"

definition tar_failed :: "bytes \<Rightarrow> bytes" where
  "tar_failed e = ''tar: '' @ e"

definition to_stream :: "bytes option \<Rightarrow> bool" where
  "to_stream f \<longleftrightarrow> f = None \<or> f = Some ''-''"

definition shown_lines :: "tar_event list \<Rightarrow> bytes list" where
  "shown_lines ev = concat (map (\<lambda>x. case x of Shown l \<Rightarrow> [l] | Stored e \<Rightarrow> []) ev)"

definition tar_create :: "nat \<Rightarrow> tar_crate \<Rightarrow> 'w tar_system \<Rightarrow> tar_options \<Rightarrow> bool \<Rightarrow> 'w \<Rightarrow> 'w tar_end" where
  "tar_create b T S s gzip w =
     (if ta_paths s = [] then Some (1, [tar_failed ''cowardly refusing to create an empty archive''], [], [], w)
      else (case (if to_stream (ta_archive s) then (None, w) else ts_create S (the (ta_archive s)) w) of
              (Some e, w1) \<Rightarrow> Some (1, [tar_failed e], [], [], w1)
            | (None, w1) \<Rightarrow>
                (case do_create b T (ts_fs S w1) gzip (ta_verbose s) (ta_paths s) of
                   (ev, WBound, archive) \<Rightarrow> None
                 | (ev, e, archive) \<Rightarrow>
                     (let errs = shown_lines ev @ (case e of WErr m \<Rightarrow> [tar_failed m] | _ \<Rightarrow> []);
                          code = (if e = WDone then 0 else 1)
                      in Some (if to_stream (ta_archive s) then (code, errs, [], archive, w1)
                               else (code, errs, [], [], ts_write S (the (ta_archive s)) archive w1))))))"

definition open_read :: "'w tar_system \<Rightarrow> bytes \<Rightarrow> tar_options \<Rightarrow> 'w \<Rightarrow> bytes + bytes" where
  "open_read S stdin s w = (if to_stream (ta_archive s) then Inr stdin else ts_open S w (the (ta_archive s)))"

definition tar_extract :: "tar_crate \<Rightarrow> 'w tar_system \<Rightarrow> bytes \<Rightarrow> tar_options \<Rightarrow> bool \<Rightarrow> 'w \<Rightarrow> 'w tar_end" where
  "tar_extract T S stdin s gzip w =
     (case open_read S stdin s w of
        Inl e \<Rightarrow> Some (1, [tar_failed e], [], [], w)
      | Inr archive \<Rightarrow>
          (case do_extract T (ts_step S) gzip (ta_verbose s) (ta_strip s) archive w of
             (ls, Some e, w1) \<Rightarrow> Some (1, ls @ [tar_failed e], [], [], w1)
           | (ls, None, w1) \<Rightarrow> Some (0, ls, [], [], w1)))"

definition tar_list :: "tar_crate \<Rightarrow> 'w tar_system \<Rightarrow> bytes \<Rightarrow> tar_options \<Rightarrow> bool \<Rightarrow> 'w \<Rightarrow> 'w tar_end" where
  "tar_list T S stdin s gzip w =
     (case open_read S stdin s w of
        Inl e \<Rightarrow> Some (1, [tar_failed e], [], [], w)
      | Inr archive \<Rightarrow>
          (case do_list T gzip (ta_verbose s) archive of
             (ls, Some e) \<Rightarrow> Some (1, [tar_failed e], ls, [], w)
           | (ls, None) \<Rightarrow> Some (0, [], ls, [], w)))"

definition no_mode :: bytes where
  "no_mode = ''tar: must specify one of -c, -x, -t''"

definition tar_usage :: "bytes list" where
  "tar_usage =
     [''Usage: tar [options] [files...]'', ''  -c              create archive'', ''  -x              extract archive'',
      ''  -t              list archive contents'', ''  -f FILE         archive filename (- for stdin/stdout)'',
      ''  -z              gzip compress/decompress'', ''  -v              verbose'', ''  -C DIR          change directory'',
      ''  --strip-components=N'', ''                  strip N leading components on extract'']"

definition tar_main :: "nat \<Rightarrow> tar_crate \<Rightarrow> 'w tar_system \<Rightarrow> bytes \<Rightarrow> bytes list \<Rightarrow> 'w \<Rightarrow> 'w tar_end" where
  "tar_main b T S stdin argv w =
     (case map from_utf8_lossy (tl argv) of
        [] \<Rightarrow> Some (1, [no_mode], [], [], w)
      | args \<Rightarrow>
          (case tar_args args True tar_defaults of
             TarHelp \<Rightarrow> Some (0, tar_usage, [], [], w)
           | TarUnknown c \<Rightarrow> Some (1, [''tar: unknown option: '' @ c], [], [], w)
           | TarOptions s \<Rightarrow>
               (case (case ta_directory s of Some d \<Rightarrow> ts_chdir S d w | None \<Rightarrow> (None, w)) of
                  (Some e, w1) \<Rightarrow> Some (1, [''tar: '' @ the (ta_directory s) @ '': '' @ e], [], [], w1)
                | (None, w1) \<Rightarrow>
                    (case ta_mode s of
                       Create \<Rightarrow> tar_create b T S s (detects_gzip s) w1
                     | Extract \<Rightarrow> tar_extract T S stdin s (detects_gzip s) w1
                     | List \<Rightarrow> tar_list T S stdin s (detects_gzip s) w1
                     | NoMode \<Rightarrow> Some (1, [no_mode], [], [], w1)))))"

end
