(* ===== verification/Tar_Props.thy ===== *)
theory Tar_Props
  imports Tar_Cmd
begin

text \<open>
  What \<open>tar\<close> promises: an archive of a directory, extracted into an empty store, gives the directory
  again.  The store is a model of the operations of a file system on paths without links in the middle.
\<close>

section \<open>A store of files\<close>

datatype snode = SDir | SFile bytes | SLink bytes

type_synonym store = "bytes list \<rightharpoonup> snode"

text \<open>\<open>create_dir_all\<close>: every missing directory on the way.\<close>

fun mkdir_from :: "bytes list \<Rightarrow> bytes list \<Rightarrow> store \<Rightarrow> bytes option \<times> store" where
  "mkdir_from pre [] \<sigma> = (None, \<sigma>)"
| "mkdir_from pre (c # cs) \<sigma> =
     (case \<sigma> (pre @ [c]) of
        None \<Rightarrow> mkdir_from (pre @ [c]) cs (\<sigma>(pre @ [c] \<mapsto> SDir))
      | Some SDir \<Rightarrow> mkdir_from (pre @ [c]) cs \<sigma>
      | _ \<Rightarrow> (Some ''not a directory'', \<sigma>))"

definition has_parent :: "store \<Rightarrow> bytes list \<Rightarrow> bool" where
  "has_parent \<sigma> cs \<longleftrightarrow> butlast cs = [] \<or> \<sigma> (butlast cs) = Some SDir"

fun store_step :: "store fs_step" where
  "store_step (MkdirAll cs) \<sigma> = mkdir_from [] cs \<sigma>"
| "store_step (WriteFile cs d) \<sigma> =
     (if has_parent \<sigma> cs \<and> (\<sigma> cs = None \<or> (\<exists>d'. \<sigma> cs = Some (SFile d'))) then (None, \<sigma>(cs \<mapsto> SFile d))
      else (Some ''cannot create'', \<sigma>))"
| "store_step (SoftLink t cs) \<sigma> =
     (if has_parent \<sigma> cs \<and> \<sigma> cs = None then (None, \<sigma>(cs \<mapsto> SLink t)) else (Some ''cannot link'', \<sigma>))"

definition with_dirs :: "store \<Rightarrow> bytes list \<Rightarrow> store" where
  "with_dirs \<sigma> cs = (\<lambda>q. if q \<noteq> [] \<and> prefix q cs then Some SDir else \<sigma> q)"

definition passable :: "store \<Rightarrow> bytes list \<Rightarrow> bool" where
  "passable \<sigma> cs \<longleftrightarrow> (\<forall>q. q \<noteq> [] \<and> prefix q cs \<longrightarrow> \<sigma> q = None \<or> \<sigma> q = Some SDir)"

lemma mkdir_from_dirs:
  "(\<And>q. q \<noteq> [] \<Longrightarrow> prefix q cs \<Longrightarrow> \<sigma> (pre @ q) = None \<or> \<sigma> (pre @ q) = Some SDir) \<Longrightarrow>
    mkdir_from pre cs \<sigma> = (None, \<lambda>q. if \<exists>r. r \<noteq> [] \<and> prefix r cs \<and> q = pre @ r then Some SDir else \<sigma> q)"
proof (induction cs arbitrary: pre \<sigma>)
  case (Cons c cs)
  let ?\<sigma> = "\<sigma>(pre @ [c] \<mapsto> SDir)"
  have c: "\<sigma> (pre @ [c]) = None \<or> \<sigma> (pre @ [c]) = Some SDir" using Cons.prems [of "[c]"] by simp
  then have "mkdir_from pre (c # cs) \<sigma> = mkdir_from (pre @ [c]) cs ?\<sigma>" by (auto simp: fun_upd_idem)
  also have "\<dots> = (None, \<lambda>q. if \<exists>r. r \<noteq> [] \<and> prefix r cs \<and> q = (pre @ [c]) @ r then Some SDir else ?\<sigma> q)"
    by (rule Cons.IH) (use Cons.prems [of "c # _"] in auto)
  also have "(\<lambda>q. if \<exists>r. r \<noteq> [] \<and> prefix r cs \<and> q = (pre @ [c]) @ r then Some SDir else ?\<sigma> q) =
      (\<lambda>q. if \<exists>r. r \<noteq> [] \<and> prefix r (c # cs) \<and> q = pre @ r then Some SDir else \<sigma> q)"
  proof (rule ext, cases)
    fix q assume "q = pre @ [c]"
    then have "\<exists>r. r \<noteq> [] \<and> prefix r (c # cs) \<and> q = pre @ r" by (intro exI [of _ "[c]"]) simp
    with \<open>q = pre @ [c]\<close> show "(if \<exists>r. r \<noteq> [] \<and> prefix r cs \<and> q = (pre @ [c]) @ r then Some SDir else ?\<sigma> q) =
        (if \<exists>r. r \<noteq> [] \<and> prefix r (c # cs) \<and> q = pre @ r then Some SDir else \<sigma> q)" by simp
  next
    fix q assume q: "q \<noteq> pre @ [c]"
    then have "(\<exists>r. r \<noteq> [] \<and> prefix r cs \<and> q = (pre @ [c]) @ r) \<longleftrightarrow> (\<exists>r. r \<noteq> [] \<and> prefix r (c # cs) \<and> q = pre @ r)"
      by (auto simp: prefix_Cons)
    with q have "(\<exists>r. r \<noteq> [] \<and> prefix r cs \<and> q = (pre @ [c]) @ r) = (\<exists>r. r \<noteq> [] \<and> prefix r (c # cs) \<and> q = pre @ r)"
      "?\<sigma> q = \<sigma> q" by simp_all
    then show "(if \<exists>r. r \<noteq> [] \<and> prefix r cs \<and> q = (pre @ [c]) @ r then Some SDir else ?\<sigma> q) =
        (if \<exists>r. r \<noteq> [] \<and> prefix r (c # cs) \<and> q = pre @ r then Some SDir else \<sigma> q)" by (simp only:)
  qed
  finally show ?case .
qed simp

lemma mkdir_all_dirs: "passable \<sigma> cs \<Longrightarrow> mkdir_from [] cs \<sigma> = (None, with_dirs \<sigma> cs)"
  using mkdir_from_dirs [of cs \<sigma> "[]"] by (simp add: passable_def with_dirs_def)

lemma make_parent_dirs: "passable \<sigma> (butlast cs) \<Longrightarrow> make_parent store_step cs \<sigma> = (None, with_dirs \<sigma> (butlast cs))"
  by (auto simp: make_parent_def mkdir_all_dirs with_dirs_def)

lemma has_parent_dirs: "has_parent (with_dirs \<sigma> (butlast cs)) cs"
  by (simp add: has_parent_def with_dirs_def)

section \<open>Trees\<close>

datatype node = NFile bytes | NLink bytes | NDir "(bytes \<times> node) list"

text \<open>The tree that the file system has at a path, and that a store has.\<close>

inductive is_tree :: "tar_fs \<Rightarrow> bytes \<Rightarrow> node \<Rightarrow> bool" for F where
  file_tree: "tf_lstat F p = Inr (KRegular, length d) \<Longrightarrow> tf_read F p = Inr d \<Longrightarrow> is_tree F p (NFile d)"
| link_tree: "tf_lstat F p = Inr (KSymlink, n) \<Longrightarrow> tf_read_link F p = Inr t \<Longrightarrow> is_tree F p (NLink t)"
| dir_tree: "tf_lstat F p = Inr (KDirectory, n) \<Longrightarrow> tf_read_dir F p = Inr es \<Longrightarrow> dir_names es = Inr (map fst kids) \<Longrightarrow>
    distinct (map fst kids) \<Longrightarrow> \<forall>n\<in>fst ` set kids. proper_name n \<Longrightarrow>
    \<forall>nk\<in>set kids. is_tree F (path_join p (fst nk)) (snd nk) \<Longrightarrow> is_tree F p (NDir kids)"

inductive in_store :: "store \<Rightarrow> bytes list \<Rightarrow> node \<Rightarrow> bool" for \<sigma> where
  file_stored: "\<sigma> cs = Some (SFile d) \<Longrightarrow> in_store \<sigma> cs (NFile d)"
| link_stored: "\<sigma> cs = Some (SLink t) \<Longrightarrow> in_store \<sigma> cs (NLink t)"
| dir_stored: "\<sigma> cs = Some SDir \<Longrightarrow> \<forall>n. \<sigma> (cs @ [n]) \<noteq> None \<longleftrightarrow> n \<in> fst ` set kids \<Longrightarrow>
    \<forall>nk\<in>set kids. in_store \<sigma> (cs @ [fst nk]) (snd nk) \<Longrightarrow> in_store \<sigma> cs (NDir kids)"

lemma in_store_cong: "in_store \<sigma> cs t \<Longrightarrow> (\<And>q. prefix cs q \<Longrightarrow> \<sigma>' q = \<sigma> q) \<Longrightarrow> in_store \<sigma>' cs t"
proof (induction rule: in_store.induct)
  case (dir_stored cs kids)
  show ?case
  proof (rule in_store.dir_stored)
    show "\<forall>nk\<in>set kids. in_store \<sigma>' (cs @ [fst nk]) (snd nk)"
      using dir_stored.IH dir_stored.prems by (meson append_prefixD)
  qed (use dir_stored in auto)
qed (auto intro: in_store.intros)

section \<open>Creating\<close>

fun entries_of :: "bytes \<Rightarrow> node \<Rightarrow> tar_entry list" where
  "entries_of p (NFile d) =
     [\<lparr>te_path = p, te_kind = KRegular, te_size = length d, te_mode = 0x1A4, te_data = d, te_link = Inr None\<rparr>]"
| "entries_of p (NLink t) =
     [\<lparr>te_path = p, te_kind = KSymlink, te_size = 0, te_mode = 0x1FF, te_data = [], te_link = Inr (Some t)\<rparr>]"
| "entries_of p (NDir kids) =
     \<lparr>te_path = p, te_kind = KDirectory, te_size = 0, te_mode = 0x1ED, te_data = [], te_link = Inr None\<rparr>
     # concat (map (\<lambda>nk. entries_of (path_join p (fst nk)) (snd nk)) kids)"

lemma stored_append [simp]: "stored (xs @ ys) = stored xs @ stored ys"
  by (induction xs rule: stored.induct) auto

lemma stored_concat: "stored (concat xss) = concat (map stored xss)"
  by (induction xss) auto

lemma stored_shown_path [simp]: "stored (shown_path v l) = []"
  by (simp add: shown_path_def)

lemma store_entry_done: "store_entry T ls e = (ev, WDone) \<Longrightarrow> ev = ls @ [Stored e]"
  by (auto simp: store_entry_def split: option.splits)

lemma and_after_done: "and_after x y = (ev, WDone) \<Longrightarrow> \<exists>a b. x = (a, WDone) \<and> y = (b, WDone) \<and> ev = a @ b"
  by (cases y) (auto simp: and_after_def split: prod.splits walk_end.splits)

lemma append_path_entries:
  "is_tree F p t \<Longrightarrow> append_path b T F v p = (ev, WDone) \<Longrightarrow> stored ev = entries_of p t"
proof (induction arbitrary: b ev rule: is_tree.induct)
  case (file_tree p d)
  then show ?case by (cases b) (auto dest!: store_entry_done)
next
  case (link_tree p n t)
  then show ?case by (cases b) (auto dest!: store_entry_done)
next
  case (dir_tree p n es kids)
  obtain c where b: "b = Suc c" using dir_tree.prems by (cases b) auto
  let ?f = "\<lambda>n. append_path c T F v (path_join p n)"
  obtain a ks where ks: "walk_list ?f (map fst kids) = (ks, WDone)" "ev = a @ ks"
    and a: "stored a = [\<lparr>te_path = p, te_kind = KDirectory, te_size = 0, te_mode = 0x1ED, te_data = [], te_link = Inr None\<rparr>]"
    using dir_tree.prems dir_tree.hyps(1-3) unfolding b by (auto dest!: and_after_done store_entry_done)
  from walk_list_done [OF ks(1)] have fin: "\<And>nk. nk \<in> set kids \<Longrightarrow> snd (?f (fst nk)) = WDone"
    and cat: "ks = concat (map (\<lambda>n. fst (?f n)) (map fst kids))" by auto
  have "stored (fst (?f (fst nk))) = entries_of (path_join p (fst nk)) (snd nk)" if "nk \<in> set kids" for nk
    using dir_tree.IH that fin [OF that] by (metis prod.collapse)
  then have "stored ks = concat (map (\<lambda>nk. entries_of (path_join p (fst nk)) (snd nk)) kids)"
    unfolding cat by (simp add: stored_concat comp_def cong: map_cong)
  with a ks(2) show ?case by simp
qed

section \<open>Extracting\<close>

lemma extract_append:
  "extract_entries step v n (es @ fs) w =
     (case extract_entries step v n es w of
        (ls, Some m, w1) \<Rightarrow> (ls, Some m, w1)
      | (ls, None, w1) \<Rightarrow> (let (ls', r) = extract_entries step v n fs w1 in (ls @ ls', r)))"
  by (induction es arbitrary: w) (auto simp: Let_def split: option.split prod.split)

definition extracts :: "bool \<Rightarrow> tar_entry list \<Rightarrow> store \<Rightarrow> store \<Rightarrow> bool" where
  "extracts v es \<sigma> \<sigma>' \<longleftrightarrow> (\<exists>ls. extract_entries store_step v 0 es \<sigma> = (ls, None, \<sigma>'))"

lemma extracts_Nil: "extracts v [] \<sigma> \<sigma>"
  by (simp add: extracts_def)

lemma extracts_append: "extracts v es \<sigma> \<sigma>1 \<Longrightarrow> extracts v fs \<sigma>1 \<sigma>2 \<Longrightarrow> extracts v (es @ fs) \<sigma> \<sigma>2"
  by (auto simp: extracts_def extract_append)

lemma extracts_one:
  "te_path e \<noteq> [] \<Longrightarrow> extract_entry store_step e (te_path e) \<sigma> = (None, \<sigma>') \<Longrightarrow> extracts v [e] \<sigma> \<sigma>'"
  by (auto simp: extracts_def strip_path_components_def)

text \<open>Where the tree goes nothing is in the way, and nothing else changes but missing parents.\<close>

definition free_at :: "store \<Rightarrow> bytes list \<Rightarrow> bool" where
  "free_at \<sigma> cs \<longleftrightarrow> passable \<sigma> (butlast cs) \<and> (\<forall>q. prefix cs q \<longrightarrow> \<sigma> q = None)"

definition planted :: "store \<Rightarrow> store \<Rightarrow> bytes list \<Rightarrow> node \<Rightarrow> bool" where
  "planted \<sigma> \<sigma>' cs t \<longleftrightarrow> in_store \<sigma>' cs t \<and> (\<forall>q. \<not> prefix cs q \<longrightarrow> \<sigma>' q = with_dirs \<sigma> (butlast cs) q)"

lemma not_prefix_butlast: "cs \<noteq> [] \<Longrightarrow> \<not> prefix cs (butlast cs)"
  by (metis append_butlast_last_id length_append_singleton not_less_eq_eq order_refl prefix_length_le)

text \<open>The children of a directory that is already there, one after the other.\<close>

lemma extract_kids:
  assumes "\<And>nk \<sigma>. nk \<in> set kids \<Longrightarrow> free_at \<sigma> (cs @ [fst nk]) \<Longrightarrow>
      \<exists>\<sigma>'. extracts v (entries_of (path_join p (fst nk)) (snd nk)) \<sigma> \<sigma>' \<and> planted \<sigma> \<sigma>' (cs @ [fst nk]) (snd nk)"
  shows "distinct (map fst kids) \<Longrightarrow> (\<forall>q. q \<noteq> [] \<and> prefix q cs \<longrightarrow> \<sigma> q = Some SDir) \<Longrightarrow>
    \<forall>nk\<in>set kids. \<forall>q. prefix (cs @ [fst nk]) q \<longrightarrow> \<sigma> q = None \<Longrightarrow>
    \<exists>\<sigma>'. extracts v (concat (map (\<lambda>nk. entries_of (path_join p (fst nk)) (snd nk)) kids)) \<sigma> \<sigma>'
      \<and> (\<forall>nk\<in>set kids. in_store \<sigma>' (cs @ [fst nk]) (snd nk))
      \<and> (\<forall>q. (\<forall>nk\<in>set kids. \<not> prefix (cs @ [fst nk]) q) \<longrightarrow> \<sigma>' q = \<sigma> q)"
  using assms
proof (induction kids arbitrary: \<sigma>)
  case Nil
  then show ?case using extracts_Nil by auto
next
  case (Cons nk kids)
  have "free_at \<sigma> (cs @ [fst nk])" using Cons.prems(2,3) by (auto simp: free_at_def passable_def)
  then obtain \<sigma>1 where s1: "extracts v (entries_of (path_join p (fst nk)) (snd nk)) \<sigma> \<sigma>1"
      "planted \<sigma> \<sigma>1 (cs @ [fst nk]) (snd nk)"
    using Cons.prems(4) [of nk \<sigma>] by auto
  have d: "with_dirs \<sigma> cs q = \<sigma> q" for q using Cons.prems(2) by (simp add: with_dirs_def)
  have keep: "\<not> prefix (cs @ [fst nk]) q \<Longrightarrow> \<sigma>1 q = \<sigma> q" for q using s1(2) d by (simp add: planted_def)
  have np: "q \<noteq> [] \<Longrightarrow> prefix q cs \<Longrightarrow> \<not> prefix (cs @ [n]) q" for q n
    by (metis length_append_singleton not_less_eq_eq order_refl prefix_length_le prefix_order.trans)
  have disj: "\<not> prefix (cs @ [fst nk]) q" if "mk \<in> set kids" "prefix (cs @ [fst mk]) q" for mk q
  proof
    assume "prefix (cs @ [fst nk]) q"
    with that(2) have "fst nk = fst mk" by (auto simp: prefix_def)
    with that(1) Cons.prems(1) show False by (metis distinct.simps(2) image_eqI list.simps(9) set_map)
  qed
  obtain \<sigma>2 where s2: "extracts v (concat (map (\<lambda>nk. entries_of (path_join p (fst nk)) (snd nk)) kids)) \<sigma>1 \<sigma>2"
      "\<forall>nk\<in>set kids. in_store \<sigma>2 (cs @ [fst nk]) (snd nk)"
      "\<forall>q. (\<forall>nk\<in>set kids. \<not> prefix (cs @ [fst nk]) q) \<longrightarrow> \<sigma>2 q = \<sigma>1 q"
    using Cons.IH [of \<sigma>1] Cons.prems keep np disj by (auto simp: )
  have "in_store \<sigma>2 (cs @ [fst nk]) (snd nk)"
  proof (rule in_store_cong)
    show "in_store \<sigma>1 (cs @ [fst nk]) (snd nk)" using s1(2) by (simp add: planted_def)
    show "\<sigma>2 q = \<sigma>1 q" if "prefix (cs @ [fst nk]) q" for q using s2(3) disj that by blast
  qed
  with s1(1) s2 keep show ?case
    by (intro exI [of _ \<sigma>2]) (auto intro: extracts_append)
qed

lemma extract_tree:
  "is_tree F p t \<Longrightarrow> p \<noteq> [] \<Longrightarrow> components p \<noteq> [] \<Longrightarrow> free_at \<sigma> (components p) \<Longrightarrow>
    \<exists>\<sigma>'. extracts v (entries_of p t) \<sigma> \<sigma>' \<and> planted \<sigma> \<sigma>' (components p) t"
proof (induction arbitrary: \<sigma> rule: is_tree.induct)
  case (file_tree p d)
  let ?cs = "components p" let ?\<sigma> = "with_dirs \<sigma> (butlast ?cs)"
  have free: "passable \<sigma> (butlast ?cs)" "\<sigma> ?cs = None" using file_tree.prems(3) by (auto simp: free_at_def)
  then have n: "?\<sigma> ?cs = None" using not_prefix_butlast [OF file_tree.prems(2)] by (simp add: with_dirs_def)
  show ?case
  proof (intro exI conjI)
    show "extracts v (entries_of p (NFile d)) \<sigma> (?\<sigma>(?cs \<mapsto> SFile d))"
      using free n file_tree.prems(1) by (auto intro!: extracts_one simp: extract_entry_def make_parent_dirs has_parent_dirs Let_def)
    show "planted \<sigma> (?\<sigma>(?cs \<mapsto> SFile d)) ?cs (NFile d)" by (auto simp: planted_def intro: file_stored)
  qed
next
  case (link_tree p n t)
  let ?cs = "components p" let ?\<sigma> = "with_dirs \<sigma> (butlast ?cs)"
  have free: "passable \<sigma> (butlast ?cs)" "\<sigma> ?cs = None" using link_tree.prems(3) by (auto simp: free_at_def)
  then have n: "?\<sigma> ?cs = None" using not_prefix_butlast [OF link_tree.prems(2)] by (simp add: with_dirs_def)
  show ?case
  proof (intro exI conjI)
    show "extracts v (entries_of p (NLink t)) \<sigma> (?\<sigma>(?cs \<mapsto> SLink t))"
      using free n link_tree.prems(1) by (auto intro!: extracts_one simp: extract_entry_def make_parent_dirs has_parent_dirs Let_def)
    show "planted \<sigma> (?\<sigma>(?cs \<mapsto> SLink t)) ?cs (NLink t)" by (auto simp: planted_def intro: link_stored)
  qed
next
  case (dir_tree p n es kids)
  let ?cs = "components p" let ?\<sigma> = "with_dirs \<sigma> ?cs"
  let ?e = "\<lparr>te_path = p, te_kind = KDirectory, te_size = 0, te_mode = 0x1ED, te_data = [], te_link = Inr None\<rparr>"
  have free: "passable \<sigma> (butlast ?cs)" "\<And>q. prefix ?cs q \<Longrightarrow> \<sigma> q = None"
    using dir_tree.prems(3) by (auto simp: free_at_def)
  have up: "prefix q ?cs \<longleftrightarrow> q = ?cs \<or> prefix q (butlast ?cs)" for q
    using dir_tree.prems(2) by (metis append_butlast_last_id prefix_snoc)
  then have pass: "passable \<sigma> ?cs" using free by (auto simp: passable_def)
  have 1: "extracts v [?e] \<sigma> ?\<sigma>"
    using dir_tree.prems(1) by (auto intro!: extracts_one simp: extract_entry_def mkdir_all_dirs [OF pass])
  have join: "nk \<in> set kids \<Longrightarrow> components (path_join p (fst nk)) = ?cs @ [fst nk] \<and> path_join p (fst nk) \<noteq> []" for nk
    using components_join [OF dir_tree.prems(1)] dir_tree.hyps(5) dir_tree.prems(1) by (auto simp: path_join_def)
  have kid: "\<exists>\<sigma>'. extracts v (entries_of (path_join p (fst nk)) (snd nk)) \<sigma>0 \<sigma>' \<and> planted \<sigma>0 \<sigma>' (?cs @ [fst nk]) (snd nk)"
    if "nk \<in> set kids" "free_at \<sigma>0 (?cs @ [fst nk])" for nk \<sigma>0
    using dir_tree.IH that join by (metis append_is_Nil_conv list.distinct(1))
  have none: "?\<sigma> q = None" if "prefix (?cs @ [n]) q" for n q
  proof -
    have "prefix ?cs q" using that by (rule append_prefixD)
    moreover have "\<not> prefix q ?cs" using that by (metis length_append_singleton not_less_eq_eq order_refl prefix_length_le prefix_order.trans)
    ultimately show ?thesis using free(2) by (simp add: with_dirs_def)
  qed
  obtain \<sigma>' where s: "extracts v (concat (map (\<lambda>nk. entries_of (path_join p (fst nk)) (snd nk)) kids)) ?\<sigma> \<sigma>'"
      "\<forall>nk\<in>set kids. in_store \<sigma>' (?cs @ [fst nk]) (snd nk)"
      "\<forall>q. (\<forall>nk\<in>set kids. \<not> prefix (?cs @ [fst nk]) q) \<longrightarrow> \<sigma>' q = ?\<sigma> q"
    using extract_kids [where kids = kids and cs = ?cs and p = p and v = v and \<sigma> = ?\<sigma>] kid dir_tree.hyps(4) none by (auto simp: with_dirs_def)
  have out: "\<not> prefix ?cs q \<or> q = ?cs \<Longrightarrow> \<sigma>' q = ?\<sigma> q" for q
    using s(3) append_prefixD by (metis append_self_conv not_Cons_self2 prefix_order.antisym prefix_def)
  have "in_store \<sigma>' ?cs (NDir kids)"
  proof (rule dir_stored)
    show "\<sigma>' ?cs = Some SDir" using out [of ?cs] dir_tree.prems(2) by (simp add: with_dirs_def)
    show "\<forall>n. \<sigma>' (?cs @ [n]) \<noteq> None \<longleftrightarrow> n \<in> fst ` set kids"
    proof
      fix n
      show "\<sigma>' (?cs @ [n]) \<noteq> None \<longleftrightarrow> n \<in> fst ` set kids"
      proof (cases "n \<in> fst ` set kids")
        case True
        then obtain k where "in_store \<sigma>' (?cs @ [n]) k" using s(2) by auto
        then have "\<sigma>' (?cs @ [n]) \<noteq> None" by cases auto
        with True show ?thesis by simp
      next
        case False
        then have "\<forall>nk\<in>set kids. \<not> prefix (?cs @ [fst nk]) (?cs @ [n])" by force
        then have "\<sigma>' (?cs @ [n]) = ?\<sigma> (?cs @ [n])" using s(3) by blast
        with False none [of n "?cs @ [n]"] show ?thesis by simp
      qed
    qed
  qed (use s(2) in auto)
  moreover have "\<sigma>' q = with_dirs \<sigma> (butlast ?cs) q" if "\<not> prefix ?cs q" for q
    using out [of q] that up [of q] by (auto simp: with_dirs_def)
  ultimately have "planted \<sigma> \<sigma>' ?cs (NDir kids)" by (simp add: planted_def)
  moreover have "extracts v (entries_of p (NDir kids)) \<sigma> \<sigma>'" using extracts_append [OF 1 s(1)] by simp
  ultimately show ?case by blast
qed

section \<open>Properties\<close>

text \<open>What the crates document: an archive of these entries that was finished reads back as them, and
  decompressing undoes compressing.\<close>

definition archive_codec :: "tar_crate \<Rightarrow> tar_entry list \<Rightarrow> bool" where
  "archive_codec T es \<longleftrightarrow> tc_decode T (tc_encode T True es) = (es, None) \<and> (\<forall>x. tc_gunzip T (tc_gzip T x) = x)"

text \<open>Claim C5: Creating an archive of a path and extracting it into an empty store, compressed or not,
  gives back the tree: the same directories with the same names in them, the same file contents and link
  targets, at the same path, with its missing parents and nothing else.\<close>

theorem tar_round_trip:
  assumes "archive_codec T (stored ev)" and "is_tree F p t" and "p \<noteq> []" and "components p \<noteq> []"
    and "do_create b T F gz v [p] = (ev, WDone, archive)"
  shows "\<exists>ls \<sigma>. do_extract T store_step gz v' 0 archive Map.empty = (ls, None, \<sigma>) \<and> in_store \<sigma> (components p) t
    \<and> (\<forall>q. \<not> prefix (components p) q \<longrightarrow> \<sigma> q = (if q \<noteq> [] \<and> prefix q (butlast (components p)) then Some SDir else None))"
proof -
  obtain ev' where ev: "append_path b T F v p = (ev', WDone)" "ev = ev'"
    using assms(5) by (auto simp: do_create_def Let_def split: prod.splits walk_end.splits)
  then have es: "stored ev = entries_of p t" using append_path_entries [OF assms(2)] by simp
  have a: "tc_decode T (if gz then tc_gunzip T archive else archive) = (entries_of p t, None)"
    using assms(1,5) ev es by (auto simp: do_create_def archive_codec_def Let_def split: if_splits)
  have "free_at Map.empty (components p)" by (simp add: free_at_def passable_def)
  from extract_tree [OF assms(2-4) this] obtain \<sigma> where s: "extracts v' (entries_of p t) Map.empty \<sigma>"
      "planted Map.empty \<sigma> (components p) t" by blast
  then obtain ls where "extract_entries store_step v' 0 (entries_of p t) Map.empty = (ls, None, \<sigma>)"
    by (auto simp: extracts_def)
  then have "do_extract T store_step gz v' 0 archive Map.empty = (ls, None, \<sigma>)" by (simp add: do_extract_def a)
  with s(2) show ?thesis by (auto simp: planted_def with_dirs_def)
qed

definition demo_entries :: "tar_entry list" where
  "demo_entries = entries_of ''d'' (NDir [(''a'', NFile ''x'')])"

definition demo_crate :: tar_crate where
  "demo_crate = \<lparr>tc_append_error = (\<lambda>e. None), tc_encode = (\<lambda>f es. []), tc_decode = (\<lambda>x. (demo_entries, None)),
     tc_gzip = (\<lambda>x. x), tc_gunzip = (\<lambda>x. x)\<rparr>"

definition demo_tar_fs :: tar_fs where
  "demo_tar_fs = \<lparr>tf_lstat = (\<lambda>p. Inr (if p = ''d'' then (KDirectory, 0) else (KRegular, 1))), tf_read = (\<lambda>p. Inr ''x''),
     tf_read_link = (\<lambda>p. Inl []), tf_read_dir = (\<lambda>p. Inr [Inr ''a''])\<rparr>"

lemma demo_is_tree: "is_tree demo_tar_fs ''d'' (NDir [(''a'', NFile ''x'')])"
  by (rule dir_tree [where n = 0 and es = "[Inr ''a'']"])
    (auto simp: demo_tar_fs_def dir_names_def sorted_names_def List.map_filter_def proper_name_def path_join_def intro!: file_tree)

lemma demo_create: "do_create 2 demo_crate demo_tar_fs True False [''d''] = (map Stored demo_entries, WDone, [])"
  by (simp add: do_create_def numeral_eq_Suc demo_tar_fs_def demo_crate_def demo_entries_def dir_names_def sorted_names_def
      List.map_filter_def path_join_def store_entry_def shown_path_def and_after_def)

lemma stored_map [simp]: "stored (map Stored es) = es"
  by (induction es) auto

lemma tar_round_trip_witness:
  "\<exists>ls \<sigma>. do_extract demo_crate store_step True True 0 [] Map.empty = (ls, None, \<sigma>)
    \<and> in_store \<sigma> [''d''] (NDir [(''a'', NFile ''x'')])"
  using tar_round_trip [OF _ demo_is_tree _ _ demo_create, of True]
  by (auto simp: archive_codec_def demo_crate_def components_def)

text \<open>The archive does not keep an entry inside the directory it is extracted to: a path with a parent
  component is written outside it.\<close>

lemma extract_leaves_directory:
  "extract_entry (\<lambda>op w. (None, w @ [op])) \<lparr>te_path = ''../x'', te_kind = KRegular, te_size = 1, te_mode = 0, te_data = ''d'', te_link = Inr None\<rparr>
     ''../x'' [] = (None, [MkdirAll [''..''], WriteFile [''..'', ''x''] ''d''])"
  by (simp add: extract_entry_def make_parent_def components_def)

end
