(* ===== verification/Diff_Cmd.thy ===== *)
theory Diff_Cmd
  imports Dir_Walk
begin

text \<open>
  The \<open>diff\<close> command (\<open>libs/diff/src/lib.rs\<close>): options, the comparison of directories and files, and the
  three formats.  The \<open>similar\<close> crate finds the differences of two texts and is a parameter, as are the
  file system and Unicode lower case.  The normal format is shown to be a patch.
\<close>

section \<open>Options\<close>

record diff_options =
  do_unified :: bool
  do_context :: bool
  do_lines :: nat
  do_recursive :: bool
  do_brief :: bool
  do_icase :: bool
  do_space :: bool
  do_blank :: bool

definition diff_defaults :: diff_options where
  "diff_defaults = \<lparr>do_unified = False, do_context = False, do_lines = 3, do_recursive = False, do_brief = False,
     do_icase = False, do_space = False, do_blank = False\<rparr>"

definition diff_flag :: "bytes \<Rightarrow> diff_options \<Rightarrow> diff_options option" where
  "diff_flag a s =
     (if a = ''-u'' \<or> a = ''--unified'' then Some (s\<lparr>do_unified := True\<rparr>)
      else if a = ''-c'' \<or> a = ''--context'' then Some (s\<lparr>do_context := True\<rparr>)
      else if a = ''-r'' \<or> a = ''-R'' \<or> a = ''--recursive'' then Some (s\<lparr>do_recursive := True\<rparr>)
      else if a = ''-q'' \<or> a = ''--brief'' then Some (s\<lparr>do_brief := True\<rparr>)
      else if a = ''-i'' \<or> a = ''--ignore-case'' then Some (s\<lparr>do_icase := True\<rparr>)
      else if a = ''-w'' \<or> a = ''--ignore-all-space'' then Some (s\<lparr>do_space := True\<rparr>)
      else if a = ''-B'' \<or> a = ''--ignore-blank-lines'' then Some (s\<lparr>do_blank := True\<rparr>)
      else if prefix ''-U'' a then
        Some (case parse_usize32 (drop 2 a) of Some n \<Rightarrow> s\<lparr>do_unified := True, do_lines := n\<rparr> | None \<Rightarrow> s)
      else if prefix ''-C'' a then
        Some (case parse_usize32 (drop 2 a) of Some n \<Rightarrow> s\<lparr>do_context := True, do_lines := n\<rparr> | None \<Rightarrow> s)
      else None)"

fun diff_args :: "bytes list \<Rightarrow> diff_options \<Rightarrow> bytes list \<Rightarrow> bytes + diff_options \<times> bytes list" where
  "diff_args [] s files = Inr (s, files)"
| "diff_args (a # rest) s files =
     (case diff_flag a s of
        Some s' \<Rightarrow> diff_args rest s' files
      | None \<Rightarrow> if \<not> prefix ''-'' a \<or> a = ''-'' then diff_args rest s (files @ [a])
                else Inl (''diff: unknown option: '' @ a))"

section \<open>Texts\<close>

text \<open>Runs of white space become one space.\<close>

fun collapse :: "bool \<Rightarrow> bytes list \<Rightarrow> bytes" where
  "collapse in_ws [] = []"
| "collapse in_ws (c # cs) =
     (if is_ws c then (if in_ws then [] else '' '') @ collapse True cs else c @ collapse False cs)"

definition edit_lines :: "(bytes list \<Rightarrow> bytes list) \<Rightarrow> bytes \<Rightarrow> bytes" where
  "edit_lines f t = join [NL] (f (str_lines t)) @ (if suffix [NL] t then [NL] else [])"

definition preprocess :: "(bytes \<Rightarrow> bytes) \<Rightarrow> diff_options \<Rightarrow> bytes \<Rightarrow> bytes" where
  "preprocess lowercase s t =
     (let t1 = (if do_blank s then edit_lines (filter (\<lambda>l. trim l \<noteq> [])) t else t);
          t2 = (if do_icase s then lowercase t1 else t1)
      in if do_space s then edit_lines (map (\<lambda>l. trim (collapse False (utf8_chars l)))) t2 else t2)"

section \<open>Differences\<close>

text \<open>The edit script of the crate: positions and lengths in lines from 0.\<close>

datatype diff_op = Equal nat nat nat | Delete nat nat nat | Insert nat nat nat | Replace nat nat nat nat

text \<open>A change of a hunk: its kind, its line in the old and the new text, its text.\<close>

datatype change_tag = CEqual | CDelete | CInsert

record change =
  ch_tag :: change_tag
  ch_old :: "nat option"
  ch_new :: "nat option"
  ch_value :: bytes

record text_diff =
  td_ops :: "diff_op list"
  td_old :: "bytes list"
  td_new :: "bytes list"
  td_hunks :: "nat \<Rightarrow> (bytes \<times> change list) list"

definition format_range :: "nat \<Rightarrow> nat \<Rightarrow> bytes" where
  "format_range start len = (if len = 1 then show_nat start else show_nat start @ '','' @ show_nat (start + len - 1))"

text \<open>The lines of a range, each behind a mark; numbers past the end are skipped.\<close>

definition marked :: "bytes \<Rightarrow> bytes list \<Rightarrow> nat \<Rightarrow> nat \<Rightarrow> bytes list" where
  "marked mark ls i n = map (\<lambda>k. mark @ ls ! k) (filter (\<lambda>k. k < length ls) [i..<i + n])"

fun normal_op :: "bytes list \<Rightarrow> bytes list \<Rightarrow> diff_op \<Rightarrow> bytes list" where
  "normal_op old new (Equal i j n) = []"
| "normal_op old new (Delete i n j) = (format_range (i + 1) n @ ''d'' @ show_nat j) # marked ''< '' old i n"
| "normal_op old new (Insert i j n) = (show_nat i @ ''a'' @ format_range (j + 1) n) # marked ''> '' new j n"
| "normal_op old new (Replace i n j m) =
     (format_range (i + 1) n @ ''c'' @ format_range (j + 1) m)
     # marked ''< '' old i n @ [''---''] @ marked ''> '' new j m"

definition normal_diff :: "text_diff \<Rightarrow> bytes list" where
  "normal_diff D =
     (let old = str_lines (concat (td_old D)); new = str_lines (concat (td_new D))
      in concat (map (normal_op old new) (td_ops D)))"

definition with_newline :: "bytes \<Rightarrow> bytes" where
  "with_newline l = (if suffix [NL] l then l else l @ [NL])"

text \<open>One side of a hunk in the context format.\<close>

definition context_side :: "change_tag \<Rightarrow> bytes \<Rightarrow> change list \<Rightarrow> bytes" where
  "context_side t mark cs =
     concat (map (\<lambda>c. with_newline ((if ch_tag c = t then mark else ''  '') @ ch_value c))
       (filter (\<lambda>c. ch_tag c = CEqual \<or> ch_tag c = t) cs))"

definition start_line :: "(change \<Rightarrow> nat option) \<Rightarrow> change list \<Rightarrow> nat" where
  "start_line f cs =
     (case cs of [] \<Rightarrow> 0 | c # _ \<Rightarrow> (case f c of Some i \<Rightarrow> i | None \<Rightarrow> 0) + 1)"

definition side_length :: "change_tag \<Rightarrow> change list \<Rightarrow> nat" where
  "side_length t cs = length (filter (\<lambda>c. ch_tag c = CEqual \<or> ch_tag c = t) cs)"

definition context_hunk :: "change list \<Rightarrow> bytes" where
  "context_hunk cs =
     (let os = start_line ch_old cs; ns = start_line ch_new cs in
      ''***************'' @ [NL]
      @ ''*** '' @ show_nat os @ '','' @ show_nat (os + (side_length CDelete cs - 1)) @ '' ****'' @ [NL]
      @ context_side CDelete ''- '' cs
      @ ''--- '' @ show_nat ns @ '','' @ show_nat (ns + (side_length CInsert cs - 1)) @ '' ----'' @ [NL]
      @ context_side CInsert ''+ '' cs)"

text \<open>What is printed for two texts that differ.\<close>

definition diff_text :: "diff_options \<Rightarrow> bytes \<Rightarrow> bytes \<Rightarrow> text_diff \<Rightarrow> bytes" where
  "diff_text s la lb D =
     (if do_unified s then
        ''--- '' @ la @ [NL] @ ''+++ '' @ lb @ [NL] @ concat (map fst (td_hunks D (do_lines s)))
      else if do_context s then
        ''*** '' @ la @ [NL] @ ''--- '' @ lb @ [NL] @ concat (map (context_hunk \<circ> snd) (td_hunks D (do_lines s)))
      else concat (map (\<lambda>l. l @ [NL]) (normal_diff D)))"

section \<open>Files and directories\<close>

record diff_lib =
  dl_fs :: fs
  dl_read :: "bytes \<Rightarrow> bytes + bytes"
  dl_lowercase :: "bytes \<Rightarrow> bytes"
  dl_diff :: "bytes \<Rightarrow> bytes \<Rightarrow> text_diff"

text \<open>Standard input is read to its end by the first file named by a dash.\<close>

definition diff_read :: "diff_lib \<Rightarrow> bytes \<Rightarrow> bytes \<Rightarrow> (bytes + bytes) \<times> bytes" where
  "diff_read L p stdin =
     (let invalid = ''stream did not contain valid UTF-8'' in
      if p = ''-'' then (if utf8_valid stdin then Inr stdin else Inl (''stdin: '' @ invalid), [])
      else (case dl_read L p of
              Inl e \<Rightarrow> Inl (from_utf8_lossy p @ '': '' @ e)
            | Inr t \<Rightarrow> if utf8_valid t then Inr t else Inl (from_utf8_lossy p @ '': '' @ invalid), stdin))"

text \<open>What a comparison writes, whether it found a difference or failed, what is left of the input.\<close>

datatype diff_out = DText bytes | DError bytes

type_synonym compared = "diff_out list \<times> (bytes + bool) \<times> bytes"

definition diff_files :: "diff_lib \<Rightarrow> diff_options \<Rightarrow> bytes \<Rightarrow> bytes \<Rightarrow> bytes \<Rightarrow> compared" where
  "diff_files L s a b stdin =
     (case diff_read L a stdin of
        (Inl e, stdin1) \<Rightarrow> ([], Inl e, stdin1)
      | (Inr ta, stdin1) \<Rightarrow>
          (case diff_read L b stdin1 of
             (Inl e, stdin2) \<Rightarrow> ([], Inl e, stdin2)
           | (Inr tb, stdin2) \<Rightarrow>
               (let pp = preprocess (dl_lowercase L) s;
                    changed = (if do_icase s \<or> do_space s \<or> do_blank s then pp ta \<noteq> pp tb else ta \<noteq> tb);
                    la = from_utf8_lossy a; lb = from_utf8_lossy b
                in if \<not> changed then ([], Inr False, stdin2)
                   else if do_brief s then ([DText (''Files '' @ la @ '' and '' @ lb @ '' differ'' @ [NL])], Inr True, stdin2)
                   else ([DText (diff_text s la lb (dl_diff L ta tb))], Inr True, stdin2))))"

definition dir_entries :: "diff_lib \<Rightarrow> bytes \<Rightarrow> bytes + bytes list" where
  "dir_entries L d =
     (case fs_read_dir (dl_fs L) d of
        Inl e \<Rightarrow> Inl (from_utf8_lossy d @ '': '' @ e)
      | Inr es \<Rightarrow>
          (case List.map_filter (\<lambda>e. case e of Inl m \<Rightarrow> Some m | Inr n \<Rightarrow> None) es of
             m # ms \<Rightarrow> Inl (from_utf8_lossy d @ '': '' @ m)
           | [] \<Rightarrow> Inr (sort (List.map_filter (\<lambda>e. case e of Inr n \<Rightarrow> if utf8_valid n then Some n else None | Inl m \<Rightarrow> None) es))))"

text \<open>The names of two directories in turn; an error counts as a difference.\<close>

fun diff_names ::
  "(bytes \<Rightarrow> bytes \<Rightarrow> compared option) \<Rightarrow> bytes \<Rightarrow> bytes \<Rightarrow> bytes list \<Rightarrow> bytes list \<Rightarrow> bytes list \<Rightarrow> bytes
    \<Rightarrow> (diff_out list \<times> bool \<times> bytes) option" where
  "diff_names cmp da db as bs [] stdin = Some ([], False, stdin)"
| "diff_names cmp da db as bs (n # ns) stdin =
     (case (if n \<in> set as \<and> n \<notin> set bs
            then Some ([DText (''Only in '' @ from_utf8_lossy da @ '': '' @ n @ [NL])], Inr True, stdin)
            else if n \<notin> set as \<and> n \<in> set bs
            then Some ([DText (''Only in '' @ from_utf8_lossy db @ '': '' @ n @ [NL])], Inr True, stdin)
            else cmp n stdin) of
        None \<Rightarrow> None
      | Some (out, r, stdin1) \<Rightarrow>
          (let (errs, here) = (case r of Inl e \<Rightarrow> ([DError (''diff: '' @ e)], True) | Inr d \<Rightarrow> ([], d)) in
           map_option (\<lambda>(out', d, stdin2). (out @ errs @ out', here \<or> d, stdin2)) (diff_names cmp da db as bs ns stdin1)))"

fun diff_paths :: "nat \<Rightarrow> diff_lib \<Rightarrow> diff_options \<Rightarrow> bytes \<Rightarrow> bytes \<Rightarrow> bytes \<Rightarrow> compared option" where
  "diff_paths 0 L s a b stdin = None"
| "diff_paths (Suc k) L s a b stdin =
     (case (fs_is_dir (dl_fs L) a, fs_is_dir (dl_fs L) b) of
        (True, True) \<Rightarrow>
          if \<not> do_recursive s then Some ([], Inl (from_utf8_lossy a @ '' is a directory''), stdin)
          else (case dir_entries L a of
                  Inl e \<Rightarrow> Some ([], Inl e, stdin)
                | Inr as \<Rightarrow>
                    (case dir_entries L b of
                       Inl e \<Rightarrow> Some ([], Inl e, stdin)
                     | Inr bs \<Rightarrow>
                         map_option (\<lambda>(out, d, stdin1). (out, Inr d, stdin1))
                           (diff_names (\<lambda>n inp. diff_paths k L s (path_join a n) (path_join b n) inp) a b as bs
                              (sort (as @ filter (\<lambda>n. n \<notin> set as) bs)) stdin)))
      | (True, False) \<Rightarrow>
          Some (case file_name b of
                  None \<Rightarrow> ([], Inl ''invalid filename'', stdin) | Some n \<Rightarrow> diff_files L s (path_join a n) b stdin)
      | (False, True) \<Rightarrow>
          Some (case file_name a of
                  None \<Rightarrow> ([], Inl ''invalid filename'', stdin) | Some n \<Rightarrow> diff_files L s a (path_join b n) stdin)
      | (False, False) \<Rightarrow> Some (diff_files L s a b stdin))"

definition diff_main :: "nat \<Rightarrow> diff_lib \<Rightarrow> bytes \<Rightarrow> bytes list \<Rightarrow> (int \<times> diff_out list) option" where
  "diff_main k L stdin argv =
     (case diff_args (tl (map from_utf8_lossy argv)) diff_defaults [] of
        Inl e \<Rightarrow> Some (2, [DError e])
      | Inr (s, [a, b]) \<Rightarrow>
          map_option (\<lambda>(out, r, inp). case r of
              Inr d \<Rightarrow> (if d then 1 else 0, out)
            | Inl e \<Rightarrow> (2, out @ [DError (''diff: '' @ e)]))
            (diff_paths k L s a b stdin)
      | Inr (s, files) \<Rightarrow> Some (2, [DError ''diff: requires exactly two file or directory arguments'']))"

end
