(* ===== verification/Diff_Props.thy ===== *)
theory Diff_Props
  imports Diff_Cmd
begin

text \<open>
  The normal format of \<open>diff\<close> is a patch: a reader of the printed lines, given the old text, finds the new
  one.
\<close>

section \<open>Reading a patch\<close>

definition read_number :: "bytes \<Rightarrow> nat option" where
  "read_number s = digits_val 10 0 s"

text \<open>A range: the first line and the number of lines.\<close>

definition read_range :: "bytes \<Rightarrow> (nat \<times> nat) option" where
  "read_range s =
     (case split_once CHR '','' s of
        None \<Rightarrow> map_option (\<lambda>a. (a, 1)) (read_number s)
      | Some (x, y) \<Rightarrow>
          (case (read_number x, read_number y) of (Some a, Some b) \<Rightarrow> Some (a, b + 1 - a) | _ \<Rightarrow> None))"

definition read_header :: "bytes \<Rightarrow> ((nat \<times> nat) \<times> char \<times> (nat \<times> nat)) option" where
  "read_header h =
     (let left = takeWhile (\<lambda>c. c \<notin> {CHR ''a'', CHR ''c'', CHR ''d''}) h in
      case drop (length left) h of
        [] \<Rightarrow> None
      | k # right \<Rightarrow>
          (case (read_range left, read_range right) of (Some l, Some r) \<Rightarrow> Some (l, k, r) | _ \<Rightarrow> None))"

text \<open>The old lines not yet used start at \<open>pos\<close>.\<close>

function patch :: "bytes list \<Rightarrow> nat \<Rightarrow> bytes list \<Rightarrow> bytes list option" where
  "patch old pos [] = Some (drop pos old)"
| "patch old pos (h # ls) =
     (case read_header h of
        None \<Rightarrow> None
      | Some ((a, n), k, (b, m)) \<Rightarrow>
          if k = CHR ''d'' then
            map_option (\<lambda>r. take (a - 1 - pos) (drop pos old) @ r) (patch old (a - 1 + n) (drop n ls))
          else if k = CHR ''a'' then
            map_option (\<lambda>r. take (a - pos) (drop pos old) @ map (drop 2) (take m ls) @ r) (patch old a (drop m ls))
          else
            map_option (\<lambda>r. take (a - 1 - pos) (drop pos old) @ map (drop 2) (take m (drop (n + 1) ls)) @ r)
              (patch old (a - 1 + n) (drop (n + 1 + m) ls)))"
  by pat_completeness auto
termination
  by (relation "measure (\<lambda>(old, pos, ls). length ls)") auto

section \<open>Edit scripts\<close>

text \<open>A script of the crate: it goes through both texts without gaps, and equal parts are equal.\<close>

fun script :: "bytes list \<Rightarrow> bytes list \<Rightarrow> nat \<Rightarrow> nat \<Rightarrow> diff_op list \<Rightarrow> bool" where
  "script old new i j [] \<longleftrightarrow> i = length old \<and> j = length new"
| "script old new i j (Equal i' j' n # ops) \<longleftrightarrow>
     i' = i \<and> j' = j \<and> i + n \<le> length old \<and> j + n \<le> length new
     \<and> take n (drop i old) = take n (drop j new) \<and> script old new (i + n) (j + n) ops"
| "script old new i j (Delete i' n j' # ops) \<longleftrightarrow>
     i' = i \<and> j' = j \<and> 0 < n \<and> i + n \<le> length old \<and> script old new (i + n) j ops"
| "script old new i j (Insert i' j' n # ops) \<longleftrightarrow>
     i' = i \<and> j' = j \<and> 0 < n \<and> j + n \<le> length new \<and> script old new i (j + n) ops"
| "script old new i j (Replace i' n j' m # ops) \<longleftrightarrow>
     i' = i \<and> j' = j \<and> 0 < n \<and> 0 < m \<and> i + n \<le> length old \<and> j + m \<le> length new
     \<and> script old new (i + n) (j + m) ops"

lemma script_map: "script old new i j ops \<Longrightarrow> script (map f old) (map f new) i j ops"
  by (induction old new i j ops rule: script.induct) (auto simp: take_map drop_map)

section \<open>Numbers and ranges\<close>

lemma read_number_show [simp]: "read_number (show_nat n) = Some n"
  by (simp add: read_number_def show_nat_def digits_val_show_radix)

lemma range_chars: "c \<in> set (show_nat n) \<Longrightarrow> c \<noteq> CHR '','' \<and> c \<notin> {CHR ''a'', CHR ''c'', CHR ''d''}"
  using show_nat_digits [of c n] by (auto simp: byte_def)

lemma read_range_number [simp]: "read_range (show_nat n) = Some (n, 1)"
  using range_chars [of "CHR '',''" n] split_once_None [of "CHR '',''" "show_nat n"] by (auto simp: read_range_def)

lemma split_once_at: "c \<notin> set x \<Longrightarrow> split_once c (x @ c # y) = Some (x, y)"
  by (induction x) auto

lemma read_range_format:
  assumes "0 < n"
  shows "read_range (format_range a n) = Some (a, n)"
proof (cases "n = 1")
  case False
  have "CHR '','' \<notin> set (show_nat a)" using range_chars by blast
  from split_once_at [OF this] have
    "split_once CHR '','' (show_nat a @ '','' @ show_nat (a + n - 1)) = Some (show_nat a, show_nat (a + n - 1))" by simp
  with False assms show ?thesis by (simp only: format_range_def read_range_def if_False) simp
qed (simp add: format_range_def)

lemma format_range_chars: "c \<in> set (format_range a n) \<Longrightarrow> c \<notin> {CHR ''a'', CHR ''c'', CHR ''d''}"
  using range_chars [of c] by (auto simp: format_range_def split: if_splits)

lemma read_header_parts:
  assumes "\<forall>c\<in>set l. c \<notin> {CHR ''a'', CHR ''c'', CHR ''d''}" and "k \<in> {CHR ''a'', CHR ''c'', CHR ''d''}"
    and "read_range l = Some x" and "read_range r = Some y"
  shows "read_header (l @ k # r) = Some (x, k, y)"
proof -
  have "takeWhile (\<lambda>c. c \<notin> {CHR ''a'', CHR ''c'', CHR ''d''}) (l @ k # r) = l"
    using assms(1,2) by (subst takeWhile_append2) auto
  then show ?thesis by (simp only: read_header_def Let_def) (simp add: assms(3,4))
qed

lemma nth_run: "j + n \<le> length xs \<Longrightarrow> map (\<lambda>k. xs ! k) [j..<j + n] = take n (drop j xs)"
  by (rule nth_equalityI) auto

lemma marked_run: "j + n \<le> length xs \<Longrightarrow> marked [c, d] xs j n = map (\<lambda>l. [c, d] @ l) (take n (drop j xs))"
proof -
  assume j: "j + n \<le> length xs"
  then have "filter (\<lambda>k. k < length xs) [j..<j + n] = [j..<j + n]" by (auto simp: filter_id_conv)
  then have "marked [c, d] xs j n = map (\<lambda>l. [c, d] @ l) (map (\<lambda>k. xs ! k) [j..<j + n])"
    unfolding marked_def map_map by (simp only: comp_def)
  then show ?thesis by (simp only: nth_run [OF j])
qed

lemma drop_marks: "map (drop 2) (map (\<lambda>l. [c, d] @ l) ls) = ls"
  by (induction ls) auto

lemma take_drop_rest: "take n (drop j xs) @ drop (j + n) xs = drop j xs"
  by (metis append_take_drop_id drop_drop add.commute)

section \<open>Applying the output\<close>

lemma patch_script:
  "script old new i j ops \<Longrightarrow> pos \<le> i \<Longrightarrow> i \<le> length old \<Longrightarrow>
    patch old pos (concat (map (normal_op old new) ops)) = Some (take (i - pos) (drop pos old) @ drop j new)"
proof (induction old new i j ops arbitrary: pos rule: script.induct)
  case (1 old new i j)
  then show ?case by simp
next
  case (2 old new i j i' j' n ops)
  have "take (i + n - pos) (drop pos old) = take (i - pos) (drop pos old) @ take n (drop i old)"
    using 2(3,4) by (metis add_diff_assoc2 drop_drop le_add_diff_inverse2 take_add)
  moreover have "take n (drop i old) @ drop (j + n) new = drop j new"
    using 2(2) take_drop_rest [of n j new] by simp
  ultimately show ?case using 2 by simp
next
  case (3 old new i j i' n j' ops)
  have h: "read_header (format_range (i + 1) n @ CHR ''d'' # show_nat j) = Some ((i + 1, n), CHR ''d'', (j, 1))"
    using 3(2) by (intro read_header_parts) (auto simp: read_range_format dest: format_range_chars)
  have m: "min (length old - i) n = n" using 3(2) by auto
  from 3 h show ?case by (simp add: marked_run m)
next
  case (4 old new i j i' j' n ops)
  have h: "read_header (show_nat i @ CHR ''a'' # format_range (j + 1) n) = Some ((i, 1), CHR ''a'', (j + 1, n))"
    using 4(2) by (intro read_header_parts) (auto simp: read_range_format dest: range_chars)
  have m: "min (length new - j) n = n" using 4(2) by auto
  from 4 h show ?case by (simp add: marked_run drop_marks m comp_def take_drop_rest)
next
  case (5 old new i j i' n j' m ops)
  have h: "read_header (format_range (i + 1) n @ CHR ''c'' # format_range (j + 1) m) = Some ((i + 1, n), CHR ''c'', (j + 1, m))"
    using 5(2) by (intro read_header_parts) (auto simp: read_range_format dest: format_range_chars)
  have m: "min (length old - i) n = n" "min (length new - j) m = m" using 5(2) by auto
  from 5 h show ?case by (simp add: marked_run drop_marks m comp_def take_drop_rest)
qed

section \<open>Properties\<close>

text \<open>
  What the crate documents: it cuts the texts into slices and gives a script for them. A line of the crate
  ends at a line feed, at a carriage return or at the two together, so its slices are the lines of
  \<open>str::lines\<close> with their ends only where each carriage return has its line feed; nothing but the
  concatenation is known of the slices of other texts.
\<close>

fun no_lone_cr :: "bytes \<Rightarrow> bool" where
  "no_lone_cr [] \<longleftrightarrow> True"
| "no_lone_cr (c # t) \<longleftrightarrow> (c = CR \<longrightarrow> t \<noteq> [] \<and> hd t = NL) \<and> no_lone_cr t"

definition sound_diff :: "bytes \<Rightarrow> bytes \<Rightarrow> text_diff \<Rightarrow> bool" where
  "sound_diff a b D \<longleftrightarrow> concat (td_old D) = a \<and> concat (td_new D) = b
    \<and> (no_lone_cr a \<longrightarrow> td_old D = split_inclusive_nl a) \<and> (no_lone_cr b \<longrightarrow> td_new D = split_inclusive_nl b)
    \<and> script (td_old D) (td_new D) 0 0 (td_ops D)"

text \<open>Claim C10: For two texts in which every carriage return is followed by a line feed, the normal format
  is a patch: whatever edit script the crate finds for them, reading the printed lines as commands and
  applying them to the lines of the old text gives exactly the lines of the new one. (The crate also ends
  a line at a carriage return that stands alone, and for such texts the claim says nothing.)\<close>

theorem normal_diff_patches:
  assumes "sound_diff a b D" and "no_lone_cr a" and "no_lone_cr b"
  shows "patch (str_lines a) 0 (normal_diff D) = Some (str_lines b)"
proof -
  from assms have "script (split_inclusive_nl a) (split_inclusive_nl b) 0 0 (td_ops D)"
    unfolding sound_diff_def by metis
  then have "script (str_lines a) (str_lines b) 0 0 (td_ops D)" unfolding str_lines_def by (rule script_map)
  from patch_script [OF this] show ?thesis
    using assms by (simp add: normal_diff_def sound_diff_def)
qed

definition demo_diff :: text_diff where
  "demo_diff = \<lparr>td_ops = [Equal 0 0 1, Replace 1 1 1 2], td_old = [''a'' @ [NL], ''b''],
     td_new = [''a'' @ [NL], ''c'' @ [NL], ''d'' @ [NL]], td_hunks = (\<lambda>n. [])\<rparr>"

lemma normal_diff_patches_witness:
  "patch [''a'', ''b''] 0 (normal_diff demo_diff) = Some [''a'', ''c'', ''d'']"
proof -
  have "sound_diff (''a'' @ NL # ''b'') (''a'' @ NL # ''c'' @ NL # ''d'' @ [NL]) demo_diff"
    by (simp add: sound_diff_def demo_diff_def)
  from normal_diff_patches [OF this] show ?thesis by (simp add: str_lines_def strip_eol_def suffix_to_prefix)
qed

section \<open>Places where the options do not do what they say\<close>

text \<open>\<open>-w\<close> only shortens white space; \<open>-B\<close> tells an empty text from a blank line; \<open>-U\<close> with a separate
  number is skipped and the number is a file.\<close>

lemma ignore_space_differs:
  "preprocess (\<lambda>t. t) (diff_defaults\<lparr>do_space := True\<rparr>) ''ab'' \<noteq> preprocess (\<lambda>t. t) (diff_defaults\<lparr>do_space := True\<rparr>) ''a b''"
  by code_simp

lemma blank_lines_differ:
  "preprocess (\<lambda>t. t) (diff_defaults\<lparr>do_blank := True\<rparr>) [NL] \<noteq> preprocess (\<lambda>t. t) (diff_defaults\<lparr>do_blank := True\<rparr>) []"
  by code_simp

lemma separate_context_is_file: "diff_args [''-U'', ''5'', ''a'', ''b''] diff_defaults [] = Inr (diff_defaults, [''5'', ''a'', ''b''])"
  by (simp add: diff_flag_def parse_unsigned_def)

text \<open>
  The crate ends a line at a lone carriage return and \<open>str::lines\<close> does not, so the indices of the script
  run past the lines that are printed: a deletion is announced and its line is not shown.
\<close>

lemma lone_cr_line_lost:
  "normal_diff \<lparr>td_ops = [Equal 0 0 1, Delete 1 1 1], td_old = [''a'' @ [CR], ''b'' @ [NL]], td_new = [''a'' @ [CR]],
     td_hunks = (\<lambda>n. [])\<rparr> = [''2d1'']"
  by code_simp

text \<open>A hunk that starts with an inserted line is labelled with line 1 of the old text.\<close>

lemma inserted_hunk_mislabelled:
  "start_line ch_old [\<lparr>ch_tag = CInsert, ch_old = None, ch_new = Some 7, ch_value = l\<rparr>] = 1"
  by (simp add: start_line_def)

end
