(* ===== verification/File_Cmd.thy ===== *)
theory File_Cmd
  imports Dir_Walk
begin

text \<open>
  The \<open>file\<close> command (\<open>libs/file-cmd/src/lib.rs\<close>): options, the classification of the first bytes and the
  printing.  The \<open>infer\<close> crate, which knows magic bytes, and the file system are parameters.
\<close>

section \<open>Options\<close>

record file_options =
  fo_brief :: bool
  fo_mime :: bool
  fo_files :: "bytes list"

fun file_flags :: "bytes list \<Rightarrow> file_options \<Rightarrow> file_options option" where
  "file_flags [] s = Some s"
| "file_flags (c # cs) s =
     (if c = ''b'' then file_flags cs (s\<lparr>fo_brief := True\<rparr>)
      else if c = ''i'' then file_flags cs (s\<lparr>fo_mime := True\<rparr>)
      else None)"

definition file_unknown :: "bytes \<Rightarrow> bytes" where
  "file_unknown a = ''file: unknown option '' @ quoted a"

fun file_args :: "bytes list \<Rightarrow> file_options \<Rightarrow> file_options result" where
  "file_args [] s = Ok s"
| "file_args (a # rest) s =
     (if a = ''-b'' \<or> a = ''--brief'' then file_args rest (s\<lparr>fo_brief := True\<rparr>)
      else if a = ''-i'' \<or> a = ''--mime-type'' \<or> a = ''--mime'' then file_args rest (s\<lparr>fo_mime := True\<rparr>)
      else if prefix ''-'' a \<and> 1 < length a \<and> \<not> prefix ''--'' a then
        (case file_flags (utf8_chars (tl a)) s of Some s' \<Rightarrow> file_args rest s' | None \<Rightarrow> Err (file_unknown a))
      else if a \<noteq> ''-'' \<and> prefix ''-'' a then Err (file_unknown a)
      else file_args rest (s\<lparr>fo_files := fo_files s @ [a]\<rparr>))"

section \<open>Classification\<close>

definition skip_whitespace :: "bytes \<Rightarrow> bytes" where
  "skip_whitespace data = dropWhile (\<lambda>b. b = CHR '' '' \<or> b = TAB \<or> b = NL \<or> b = CR) data"

definition is_json :: "bytes \<Rightarrow> bool" where
  "is_json data = (case skip_whitespace data of [] \<Rightarrow> False | b # _ \<Rightarrow> b = CHR ''{'' \<or> b = CHR ''['')"

definition is_xml :: "bytes \<Rightarrow> bool" where
  "is_xml data \<longleftrightarrow> prefix ''<?xml'' (skip_whitespace data) \<or> prefix ''<!DOCTYPE'' (skip_whitespace data)"

definition is_html :: "bytes \<Rightarrow> bool" where
  "is_html data =
     (let l = map ascii_lower (take 64 (skip_whitespace data)) in prefix ''<!doctype html'' l \<or> prefix ''<html'' l)"

text \<open>No byte of the first 8192 is a null or another rare control character.\<close>

definition is_text :: "bytes \<Rightarrow> bool" where
  "is_text data =
     list_all (\<lambda>b. byte b \<noteq> 0 \<and> \<not> (byte b < 0x08 \<or> 0x0D < byte b \<and> byte b < 0x20 \<and> byte b \<noteq> 0x1B)) (take 8192 data)"

definition magic_names :: "(bytes \<times> bytes) list" where
  "magic_names =
     [(''image/png'', ''PNG image data''), (''image/jpeg'', ''JPEG image data''), (''image/gif'', ''GIF image data''),
      (''image/webp'', ''WebP image data''), (''image/bmp'', ''BMP image data''), (''image/tiff'', ''TIFF image data''),
      (''image/svg+xml'', ''SVG image data''), (''image/x-icon'', ''ICO image data''), (''application/pdf'', ''PDF document''),
      (''application/zip'', ''Zip archive data''), (''application/gzip'', ''gzip compressed data''),
      (''application/x-bzip2'', ''bzip2 compressed data''), (''application/x-xz'', ''XZ compressed data''),
      (''application/x-tar'', ''POSIX tar archive''), (''application/x-rar-compressed'', ''RAR archive data''),
      (''application/x-7z-compressed'', ''7-zip archive data''), (''application/x-executable'', ''ELF executable''),
      (''application/x-elf'', ''ELF executable''), (''application/wasm'', ''WebAssembly (wasm) binary module''),
      (''application/x-mach-binary'', ''Mach-O binary''), (''audio/mpeg'', ''MPEG audio''), (''audio/ogg'', ''Ogg audio''),
      (''audio/flac'', ''FLAC audio''), (''audio/wav'', ''RIFF WAVE audio''), (''audio/x-wav'', ''RIFF WAVE audio''),
      (''video/mp4'', ''MPEG-4 video''), (''video/webm'', ''WebM video''), (''video/x-matroska'', ''Matroska video''),
      (''application/x-sqlite3'', ''SQLite 3.x database''), (''font/woff'', ''Web Open Font Format''),
      (''font/woff2'', ''Web Open Font Format 2'')]"

text \<open>\<open>trim_start_matches\<close> with a string: every copy of it at the front goes.\<close>

function strip_all :: "bytes \<Rightarrow> bytes \<Rightarrow> bytes" where
  "strip_all p s = (if p = [] then s else case strip_prefix p s of Some r \<Rightarrow> strip_all p r | None \<Rightarrow> s)"
  by pat_completeness auto
termination
  by (relation "measure (\<lambda>(p, s). length s)") (auto simp: strip_prefix_Some)

definition base_name :: "bytes \<Rightarrow> bytes" where
  "base_name n = (case rsplit_once CHR ''/'' n of Some (d, b) \<Rightarrow> b | None \<Rightarrow> n)"

definition script_name :: "bytes \<Rightarrow> bytes" where
  "script_name line =
     (let interp = trim (strip_all ''#!'' line); fields = split_whitespace interp;
          base = base_name (case fields of [] \<Rightarrow> interp | f # _ \<Rightarrow> f)
      in (if base = ''env'' then (case fields of _ # p # _ \<Rightarrow> p | _ \<Rightarrow> ''script'') else base)
         @ '' script, ASCII text executable'')"

definition first_line :: "bytes \<Rightarrow> bytes" where
  "first_line data = takeWhile (\<lambda>b. b \<noteq> NL) (take 128 data)"

text \<open>The description and the MIME type; \<open>magic\<close> is the MIME type that \<open>infer\<close> finds.\<close>

definition identify :: "(bytes \<Rightarrow> bytes option) \<Rightarrow> bytes \<Rightarrow> bytes \<times> bytes" where
  "identify magic data =
     (if data = [] then (''empty'', ''inode/x-empty'')
      else (case magic data of
              Some mime \<Rightarrow> (case map_of magic_names mime of Some d \<Rightarrow> d | None \<Rightarrow> mime, mime)
            | None \<Rightarrow>
                if prefix ''#!'' data \<and> utf8_valid (first_line data) then (script_name (first_line data), ''text/x-script'')
                else if is_json data then (''JSON text data'', ''application/json'')
                else if is_xml data then (''XML document'', ''text/xml'')
                else if is_html data then (''HTML document'', ''text/html'')
                else if is_text data then (''ASCII text'', ''text/plain'')
                else (''data'', ''application/octet-stream'')))"

section \<open>The command\<close>

definition print_result :: "file_options \<Rightarrow> bytes \<Rightarrow> bytes \<times> bytes \<Rightarrow> bytes" where
  "print_result s name r =
     (let shown = (if fo_mime s \<and> snd r \<noteq> [] then snd r else fst r)
      in if fo_brief s then shown else name @ '': '' @ shown)"

record file_lib =
  fi_meta :: "bytes \<Rightarrow> bytes + metadata"
  fi_read :: "bytes \<Rightarrow> bytes + bytes"
  fi_magic :: "bytes \<Rightarrow> bytes option"

text \<open>One file: its result or an error; the metadata follow links, so no path is seen to be one.\<close>

definition examine :: "file_lib \<Rightarrow> bytes \<Rightarrow> bytes + bytes \<times> bytes" where
  "examine L p =
     (case fi_meta L p of
        Inl e \<Rightarrow> Inl (''file: '' @ p @ '': '' @ e)
      | Inr m \<Rightarrow>
          if md_is_dir m then Inr (''directory'', ''inode/directory'')
          else if md_len m = 0 then Inr (''empty'', ''inode/x-empty'')
          else (case fi_read L p of
                  Inl e \<Rightarrow> Inl (''file: '' @ p @ '': '' @ e)
                | Inr data \<Rightarrow> Inr (identify (fi_magic L) (take 8192 data))))"

text \<open>Standard input is empty after it was read.\<close>

fun file_each :: "file_lib \<Rightarrow> file_options \<Rightarrow> bytes + bytes \<Rightarrow> bytes list \<Rightarrow> int \<times> out_line list" where
  "file_each L s stdin [] = (0, [])"
| "file_each L s stdin (p # ps) =
     (let r = (if p = ''-'' then (case stdin of Inl e \<Rightarrow> Inl (''file: stdin: '' @ e) | Inr data \<Rightarrow> Inr (identify (fi_magic L) data))
               else examine L p);
          (code, out) = file_each L s (if p = ''-'' then map_sum (\<lambda>e. e) (\<lambda>d. []) stdin else stdin) ps
      in case r of
           Inl e \<Rightarrow> (1, StdErr e # out)
         | Inr d \<Rightarrow> (code, StdOut (print_result s p d) # out))"

definition file_main :: "file_lib \<Rightarrow> bytes + bytes \<Rightarrow> bytes list \<Rightarrow> run" where
  "file_main L stdin argv =
     (case file_args (map from_utf8_lossy (tl argv)) \<lparr>fo_brief = False, fo_mime = False, fo_files = []\<rparr> of
        Err m \<Rightarrow> Exit 1 [StdErr m]
      | Panicked \<Rightarrow> Crash
      | Ok s \<Rightarrow>
          if fo_files s = [] then Exit 1 [StdErr ''Usage: file [-bi] FILE...'']
          else (let (code, out) = file_each L s stdin (fo_files s) in Exit code out))"

section \<open>Facts\<close>

text \<open>A page that starts with the document type of HTML is called XML, since that test comes first; a text
  that starts with a bracket is called JSON; bytes above 127 are called ASCII.\<close>

lemma html_doctype_is_xml:
  "magic data = None \<Longrightarrow> skip_whitespace data = ''<!DOCTYPE html'' @ rest \<Longrightarrow> identify magic data = (''XML document'', ''text/xml'')"
proof -
  assume m: "magic data = None" and s: "skip_whitespace data = ''<!DOCTYPE html'' @ rest"
  have "data \<noteq> []" using s by (auto simp: skip_whitespace_def)
  moreover have "\<not> prefix ''#!'' data" using s by (cases data) (auto simp: skip_whitespace_def split: if_splits)
  ultimately show ?thesis using m s by (simp add: identify_def is_json_def is_xml_def)
qed

lemma bracket_is_json: "fst (identify (\<lambda>d. None) ''[note] hello'') = ''JSON text data''"
  by (simp add: identify_def is_json_def skip_whitespace_def)

lemma high_bytes_are_ascii: "fst (identify (\<lambda>d. None) [CHR 0xFF, CHR 0x80]) = ''ASCII text''"
  by (simp add: identify_def is_json_def is_xml_def is_html_def is_text_def skip_whitespace_def ascii_lower_def between_def byte_def)

end
