(* ===== verification/Jaq.thy ===== *)
theory Jaq
  imports RustStr
begin

text \<open>
  What the \<open>jq\<close> and \<open>yq\<close> commands share: JSON values with their objects as maps ordered by key
  (\<open>serde_json\<close> over \<open>BTreeMap\<close>), and the filter engine of the \<open>jaq\<close> crates with the readers and
  printers of \<open>serde_json\<close> as parameters.
\<close>

section \<open>JSON values\<close>

text \<open>The numbers of \<open>serde_json\<close> are the type \<open>'n\<close>.\<close>

datatype 'n jvalue =
    JNull
  | JBool bool
  | JNumber 'n
  | JText bytes
  | JArray "'n jvalue list"
  | JObject "(bytes \<times> 'n jvalue) list"

text \<open>\<open>Map::insert\<close> keeps the keys in order.\<close>

fun map_put :: "bytes \<Rightarrow> 'a \<Rightarrow> (bytes \<times> 'a) list \<Rightarrow> (bytes \<times> 'a) list" where
  "map_put k v [] = [(k, v)]"
| "map_put k v ((k', v') # m) =
     (if k = k' then (k, v) # m
      else if bytes_less k k' then (k, v) # (k', v') # m
      else (k', v') # map_put k v m)"

definition key_ordered :: "(bytes \<times> 'a) list \<Rightarrow> bool" where
  "key_ordered m \<longleftrightarrow> sorted_wrt bytes_less (map fst m)"

lemma bytes_less_irrefl [simp]: "\<not> bytes_less k k"
  by (induction k) auto

lemma bytes_less_trans: "bytes_less a b \<Longrightarrow> bytes_less b c \<Longrightarrow> bytes_less a c"
  by (induction a b arbitrary: c rule: bytes_less.induct) (case_tac c; auto)+

lemma byte_inj: "byte x = byte y \<longleftrightarrow> x = y"
  by (metis byte_def of_char_eq_iff)

lemma bytes_less_total: "a \<noteq> b \<Longrightarrow> bytes_less a b \<or> bytes_less b a"
proof (induction a b rule: bytes_less.induct)
  case (1 xs)
  then show ?case by (cases xs) auto
next
  case (3 x xs y ys)
  then show ?case using byte_inj [of x y] by auto
qed auto

lemma map_of_map_put [simp]: "map_of (map_put k v m) = (map_of m)(k \<mapsto> v)"
  by (induction k v m rule: map_put.induct) auto

lemma keys_map_put: "set (map fst (map_put k v m)) = insert k (set (map fst m))"
  by (induction k v m rule: map_put.induct) auto

lemma map_put_not_Nil [simp]: "map_put k v m \<noteq> []"
  by (induction k v m rule: map_put.induct) auto

lemma key_ordered_map_put [simp]: "key_ordered m \<Longrightarrow> key_ordered (map_put k v m)"
proof (induction k v m rule: map_put.induct)
  case (2 k v k' v' m)
  have keys: "set (map fst (map_put k v m)) = insert k (set (map fst m))" by (rule keys_map_put)
  show ?case
  proof (cases "k = k' \<or> bytes_less k k'")
    case True
    with 2 show ?thesis by (auto simp: key_ordered_def intro: bytes_less_trans)
  next
    case False
    then have "bytes_less k' k" using bytes_less_total by blast
    with 2 False keys show ?thesis by (auto simp: key_ordered_def simp del: set_map)
  qed
qed (simp add: key_ordered_def)

lemma key_ordered_Nil [simp]: "key_ordered []"
  by (simp add: key_ordered_def)

text \<open>An ordered map is determined by its look-ups.\<close>

lemma key_ordered_ext:
  "key_ordered m \<Longrightarrow> key_ordered m' \<Longrightarrow> map_of m = map_of m' \<Longrightarrow> m = m'"
proof (induction m arbitrary: m')
  case Nil
  then show ?case by (metis map_of.simps(1) map_of_eq_empty_iff)
next
  case (Cons p m)
  obtain k v where p: "p = (k, v)" by fastforce
  show ?case
  proof (cases m')
    case Nil
    with Cons.prems(3) p show ?thesis by (auto simp: fun_eq_iff split: if_splits)
  next
    case (Cons q n)
    obtain k' v' where q: "q = (k', v')" by fastforce
    have fresh: "k \<notin> fst ` set m" "k' \<notin> fst ` set n"
      using Cons.prems(1,2) p q \<open>m' = q # n\<close> by (auto simp: key_ordered_def)
    have dom: "insert k (fst ` set m) = insert k' (fst ` set n)"
      using arg_cong [OF Cons.prems(3), of dom] p q \<open>m' = q # n\<close>
      by (simp only: dom_map_of_conv_image_fst) simp
    have "k = k'"
    proof (rule ccontr)
      assume "k \<noteq> k'"
      with dom have "k' \<in> fst ` set m" "k \<in> fst ` set n" by auto
      with Cons.prems(1,2) p q \<open>m' = q # n\<close> have "bytes_less k k'" "bytes_less k' k"
        by (auto simp: key_ordered_def)
      then show False using bytes_less_trans by fastforce
    qed
    with Cons.prems(3) p q \<open>m' = q # n\<close> have v: "v = v'" and rest: "(map_of m)(k \<mapsto> v) = (map_of n)(k \<mapsto> v)"
      by (auto simp: fun_eq_iff split: if_splits)
    have "map_of m k = None" "map_of n k = None"
      using fresh \<open>k = k'\<close> by (auto simp: map_of_eq_None_iff)
    with rest have "map_of m = map_of n" by (metis fun_upd_triv fun_upd_upd)
    moreover have "key_ordered m" "key_ordered n"
      using Cons.prems(1,2) \<open>m' = q # n\<close> by (auto simp: key_ordered_def)
    ultimately show ?thesis using Cons.IH p q v \<open>k = k'\<close> \<open>m' = q # n\<close> by blast
  qed
qed

section \<open>The engine\<close>

text \<open>
  \<open>Val::from\<close> and the text of a value; loading and compiling a program; running it with the values of
  its variables on an input, for the programs whose results end; \<open>serde_json\<close>: reading one value, a
  sequence of values, one string, and pretty printing.
\<close>

record ('n, 'v, 'm, 'f) jaq =
  jq_val :: "'n jvalue \<Rightarrow> 'v"
  jq_show :: "'v \<Rightarrow> bytes"
  jq_load :: "bytes \<Rightarrow> bytes + 'm"
  jq_compile :: "'m \<Rightarrow> bytes + 'f"
  jq_eval :: "'f \<Rightarrow> 'v list \<Rightarrow> 'v \<Rightarrow> (bytes + 'v) list"
  jq_read :: "bytes \<Rightarrow> bytes + 'n jvalue"
  jq_reads :: "bytes \<Rightarrow> (bytes + 'n jvalue) list"
  jq_read_text :: "bytes \<Rightarrow> bytes option"
  jq_compact :: "'n jvalue \<Rightarrow> bytes + bytes"
  jq_pretty :: "'n jvalue \<Rightarrow> bytes + bytes"

text \<open>Loading and compiling the filter.\<close>

definition compile_filter :: "('n, 'v, 'm, 'f) jaq \<Rightarrow> bytes \<Rightarrow> bytes + 'f" where
  "compile_filter Q code =
     (case jq_load Q code of
        Inl e \<Rightarrow> Inl (''parse error: '' @ e)
      | Inr ms \<Rightarrow> (case jq_compile Q ms of Inl e \<Rightarrow> Inl (''compile error: '' @ e) | Inr f \<Rightarrow> Inr f))"

text \<open>A text that is a JSON string, with \<open>-r\<close>: its characters.\<close>

definition raw_text :: "('n, 'v, 'm, 'f) jaq \<Rightarrow> bytes \<Rightarrow> bytes option" where
  "raw_text Q s =
     (if prefix [CHR 0x22] s \<and> suffix [CHR 0x22] s \<and> 2 \<le> length s then jq_read_text Q s else None)"

end
