(* ===== verification/Jq_Cmd.thy ===== *)
theory Jq_Cmd
  imports Jaq
begin

text \<open>
  The \<open>jq\<close> command (\<open>libs/jq/src/lib.rs\<close>): options, the reading of the inputs, the printing of the
  results and the exit status, around the engine of \<open>Jaq\<close>.
\<close>

section \<open>Options\<close>

record 'v jq_options =
  jo_filter :: bytes
  jo_raw_output :: bool
  jo_raw_input :: bool
  jo_slurp :: bool
  jo_compact :: bool
  jo_null_input :: bool
  jo_exit_status :: bool
  jo_join_output :: bool
  jo_args :: "(bytes \<times> bytes) list"
  jo_jsonargs :: "(bytes \<times> 'v) list"

definition jq_defaults :: "'v jq_options" where
  "jq_defaults = \<lparr>jo_filter = [], jo_raw_output = False, jo_raw_input = False, jo_slurp = False,
     jo_compact = False, jo_null_input = False, jo_exit_status = False, jo_join_output = False,
     jo_args = [], jo_jsonargs = []\<rparr>"

definition jq_flag :: "bytes \<Rightarrow> ('v jq_options \<Rightarrow> 'v jq_options) option" where
  "jq_flag c =
     map_of [(''r'', jo_raw_output_update (\<lambda>_. True)), (''R'', jo_raw_input_update (\<lambda>_. True)),
       (''s'', jo_slurp_update (\<lambda>_. True)), (''c'', jo_compact_update (\<lambda>_. True)),
       (''n'', jo_null_input_update (\<lambda>_. True)), (''e'', jo_exit_status_update (\<lambda>_. True)),
       (''j'', jo_join_output_update (\<lambda>_. True)), (''S'', \<lambda>s. s)] c"

definition jq_long_flag :: "bytes \<Rightarrow> ('v jq_options \<Rightarrow> 'v jq_options) option" where
  "jq_long_flag a =
     map_of [(''--raw-output'', jo_raw_output_update (\<lambda>_. True)), (''--raw-output0'', jo_raw_output_update (\<lambda>_. True)),
       (''--raw-input'', jo_raw_input_update (\<lambda>_. True)), (''--slurp'', jo_slurp_update (\<lambda>_. True)),
       (''--compact-output'', jo_compact_update (\<lambda>_. True)), (''--null-input'', jo_null_input_update (\<lambda>_. True)),
       (''--exit-status'', jo_exit_status_update (\<lambda>_. True)), (''--join-output'', jo_join_output_update (\<lambda>_. True))] a"

text \<open>Combined short flags.\<close>

fun jq_flags :: "bytes list \<Rightarrow> 'v jq_options \<Rightarrow> bytes + 'v jq_options" where
  "jq_flags [] s = Inr s"
| "jq_flags (c # cs) s =
     (case jq_flag c of Some f \<Rightarrow> jq_flags cs (f s) | None \<Rightarrow> Inl (''unknown option: -'' @ c))"

text \<open>The arguments after the command name; the flag says whether the filter was given.\<close>

function jq_args ::
  "('n, 'v, 'm, 'f) jaq \<Rightarrow> bytes list \<Rightarrow> bool \<Rightarrow> 'v jq_options \<Rightarrow> bytes + 'v jq_options" where
  "jq_args Q [] filter_set s = (if filter_set then Inr s else Inl ''no filter provided'')"
| "jq_args Q (a # rest) filter_set s =
     (if a = ''--'' then (if filter_set then Inr s else Inl ''no filter provided'')
      else if prefix ''-'' a \<and> 1 < length a \<and> \<not> prefix ''--'' a then
        (case jq_flags (utf8_chars (tl a)) s of Inl e \<Rightarrow> Inl e | Inr s' \<Rightarrow> jq_args Q rest filter_set s')
      else (case jq_long_flag a of
              Some f \<Rightarrow> jq_args Q rest filter_set (f s)
            | None \<Rightarrow>
                if a = ''--arg'' then
                  (if length rest < 2 then Inl ''--arg requires name and value''
                   else jq_args Q (drop 2 rest) filter_set (s\<lparr>jo_args := jo_args s @ [(rest ! 0, rest ! 1)]\<rparr>))
                else if a = ''--argjson'' then
                  (if length rest < 2 then Inl ''--argjson requires name and value''
                   else (case jq_read Q (rest ! 1) of
                           Inl e \<Rightarrow> Inl (''invalid JSON for --argjson: '' @ e)
                         | Inr v \<Rightarrow> jq_args Q (drop 2 rest) filter_set
                                      (s\<lparr>jo_jsonargs := jo_jsonargs s @ [(rest ! 0, jq_val Q v)]\<rparr>)))
                else if \<not> filter_set then jq_args Q rest True (s\<lparr>jo_filter := a\<rparr>)
                else Inl (''unexpected argument: '' @ a)))"
  by pat_completeness auto
termination by (relation "measure (\<lambda>(Q, as, b, s). length as)") auto

section \<open>Inputs\<close>

text \<open>The values of a sequence, up to the first that cannot be read.\<close>

fun all_read :: "(bytes + 'a) list \<Rightarrow> bytes + 'a list" where
  "all_read [] = Inr []"
| "all_read (Inl e # rs) = Inl (''invalid JSON input: '' @ e)"
| "all_read (Inr v # rs) = map_sum id (\<lambda>vs. v # vs) (all_read rs)"

text \<open>With \<open>-s\<close> the values are printed and read again.\<close>

definition reread :: "('n, 'v, 'm, 'f) jaq \<Rightarrow> 'v \<Rightarrow> 'n jvalue" where
  "reread Q v = (case jq_read Q (jq_show Q v) of Inr j \<Rightarrow> j | Inl e \<Rightarrow> JNull)"

text \<open>Standard input, or why it cannot be read as text.\<close>

definition read_inputs :: "('n, 'v, 'm, 'f) jaq \<Rightarrow> 'v jq_options \<Rightarrow> bytes + bytes \<Rightarrow> bytes + 'v list" where
  "read_inputs Q s stdin =
     (case stdin of
        Inl e \<Rightarrow> Inl (''failed to read stdin: '' @ e)
      | Inr data \<Rightarrow>
          if jo_null_input s then Inr [jq_val Q JNull]
          else if jo_raw_input s then
            (if jo_slurp s then Inr [jq_val Q (JArray (map JText (str_lines data)))]
             else Inr (map (\<lambda>l. jq_val Q (JText l)) (str_lines data)))
          else if trim data = [] then Inr [jq_val Q JNull]
          else (case all_read (jq_reads Q (trim data)) of
                  Inl e \<Rightarrow> Inl e
                | Inr js \<Rightarrow>
                    (let vs = map (jq_val Q) js
                     in if jo_slurp s then Inr [jq_val Q (JArray (map (reread Q) vs))] else Inr vs)))"

section \<open>Outputs\<close>

definition format_output :: "('n, 'v, 'm, 'f) jaq \<Rightarrow> 'v jq_options \<Rightarrow> 'v \<Rightarrow> bytes" where
  "format_output Q s v =
     (let compact = jq_show Q v in
      case (if jo_raw_output s then raw_text Q compact else None) of
        Some t \<Rightarrow> t
      | None \<Rightarrow>
          if jo_compact s then compact
          else (case jq_read Q compact of
                  Inr j \<Rightarrow> (case jq_pretty Q j of Inr t \<Rightarrow> t | Inl e \<Rightarrow> compact)
                | Inl e \<Rightarrow> compact))"

definition written_value :: "('n, 'v, 'm, 'f) jaq \<Rightarrow> 'v jq_options \<Rightarrow> 'v \<Rightarrow> bytes" where
  "written_value Q s v = format_output Q s v @ (if jo_join_output s then [] else [NL])"

definition false_or_null :: "('n, 'v, 'm, 'f) jaq \<Rightarrow> 'v \<Rightarrow> bool" where
  "false_or_null Q v \<longleftrightarrow> jq_show Q v = ''null'' \<or> jq_show Q v = ''false''"

text \<open>What is written, whether a false or null value was, and the error that ended it.\<close>

fun jq_results ::
  "('n, 'v, 'm, 'f) jaq \<Rightarrow> 'v jq_options \<Rightarrow> (bytes + 'v) list \<Rightarrow> bool \<Rightarrow> bytes \<times> bool \<times> bytes option" where
  "jq_results Q s [] had = ([], had, None)"
| "jq_results Q s (Inl e # rs) had = ([], had, Some e)"
| "jq_results Q s (Inr v # rs) had =
     (let (out, had', err) = jq_results Q s rs (had \<or> false_or_null Q v) in (written_value Q s v @ out, had', err))"

fun jq_inputs ::
  "('n, 'v, 'm, 'f) jaq \<Rightarrow> 'v jq_options \<Rightarrow> 'f \<Rightarrow> 'v list \<Rightarrow> 'v list \<Rightarrow> bool \<Rightarrow> bytes \<times> bool \<times> bytes option" where
  "jq_inputs Q s f vars [] had = ([], had, None)"
| "jq_inputs Q s f vars (x # xs) had =
     (case jq_results Q s (jq_eval Q f vars x) had of
        (out, had', Some e) \<Rightarrow> (out, had', Some e)
      | (out, had', None) \<Rightarrow>
          (let (out', had'', err) = jq_inputs Q s f vars xs had' in (out @ out', had'', err)))"

text \<open>The variables are the values of \<open>--arg\<close> and \<open>--argjson\<close>; their names are not used.\<close>

definition jq_vars :: "('n, 'v, 'm, 'f) jaq \<Rightarrow> 'v jq_options \<Rightarrow> 'v list" where
  "jq_vars Q s = map (\<lambda>(n, v). jq_val Q (JText v)) (jo_args s) @ map snd (jo_jsonargs s)"

text \<open>The exit status, standard output and the lines of standard error.\<close>

definition run_jq ::
  "('n, 'v, 'm, 'f) jaq \<Rightarrow> bytes list \<Rightarrow> bytes + bytes \<Rightarrow> bytes + int \<times> bytes \<times> bytes list" where
  "run_jq Q args stdin =
     (case jq_args Q args False jq_defaults of
        Inl e \<Rightarrow> Inl e
      | Inr s \<Rightarrow>
          (case read_inputs Q s stdin of
             Inl e \<Rightarrow> Inl e
           | Inr inputs \<Rightarrow>
               (case compile_filter Q (jo_filter s) of
                  Inl e \<Rightarrow> Inl e
                | Inr f \<Rightarrow>
                    (case jq_inputs Q s f (jq_vars Q s) inputs False of
                       (out, had, Some e) \<Rightarrow> Inr (5, out, [''jq: error: '' @ e])
                     | (out, had, None) \<Rightarrow> Inr (if jo_exit_status s \<and> had then 1 else 0, out, [])))))"

definition jq_main :: "('n, 'v, 'm, 'f) jaq \<Rightarrow> bytes list \<Rightarrow> bytes + bytes \<Rightarrow> int \<times> bytes \<times> bytes list" where
  "jq_main Q argv stdin =
     (case run_jq Q (map from_utf8_lossy (tl argv)) stdin of
        Inr r \<Rightarrow> r
      | Inl e \<Rightarrow> (2, [], [''jq: '' @ e]))"

section \<open>What is printed\<close>

text \<open>The values before the first error, and that error.\<close>

fun good_results :: "(bytes + 'v) list \<Rightarrow> 'v list" where
  "good_results [] = []"
| "good_results (Inl e # rs) = []"
| "good_results (Inr v # rs) = v # good_results rs"

fun first_error :: "(bytes + 'v) list \<Rightarrow> bytes option" where
  "first_error [] = None"
| "first_error (Inl e # rs) = Some e"
| "first_error (Inr v # rs) = first_error rs"

lemma good_results_append:
  "good_results (xs @ ys) = good_results xs @ (if first_error xs = None then good_results ys else [])"
  by (induction xs rule: good_results.induct) auto

lemma first_error_append:
  "first_error (xs @ ys) = (case first_error xs of None \<Rightarrow> first_error ys | Some e \<Rightarrow> Some e)"
  by (induction xs rule: good_results.induct) auto

lemma jq_results_all:
  "jq_results Q s rs had =
     (concat (map (written_value Q s) (good_results rs)), had \<or> list_ex (false_or_null Q) (good_results rs), first_error rs)"
  by (induction Q s rs had rule: jq_results.induct) auto

lemma jq_inputs_all:
  "jq_inputs Q s f vars xs had =
     (let rs = concat (map (jq_eval Q f vars) xs)
      in (concat (map (written_value Q s) (good_results rs)), had \<or> list_ex (false_or_null Q) (good_results rs), first_error rs))"
  by (induction xs arbitrary: had)
    (auto simp: jq_results_all good_results_append first_error_append Let_def split: option.splits)

text \<open>A run prints the results of the filter on all the inputs in order, up to the first error, whose
  status is 5; \<open>-e\<close> makes the status 1 when any of them is false or null.\<close>

lemma run_jq_outcome:
  assumes "jq_args Q args False jq_defaults = Inr s" and "read_inputs Q s stdin = Inr inputs"
    and "compile_filter Q (jo_filter s) = Inr f"
  shows "run_jq Q args stdin =
    (let rs = concat (map (jq_eval Q f (jq_vars Q s)) inputs);
         out = concat (map (written_value Q s) (good_results rs))
     in case first_error rs of
          Some e \<Rightarrow> Inr (5, out, [''jq: error: '' @ e])
        | None \<Rightarrow> Inr (if jo_exit_status s \<and> list_ex (false_or_null Q) (good_results rs) then 1 else 0, out, []))"
  using assms by (simp add: run_jq_def jq_inputs_all Let_def split: option.splits)

text \<open>The name given with \<open>--arg\<close> makes no difference, so a program cannot refer to it.\<close>

lemma jq_args_unused:
  "jo_null_input (jo_args_update g s) = jo_null_input s" "jo_raw_input (jo_args_update g s) = jo_raw_input s"
  "jo_slurp (jo_args_update g s) = jo_slurp s" "jo_raw_output (jo_args_update g s) = jo_raw_output s"
  "jo_compact (jo_args_update g s) = jo_compact s" "jo_join_output (jo_args_update g s) = jo_join_output s"
  "jo_exit_status (jo_args_update g s) = jo_exit_status s" "jo_filter (jo_args_update g s) = jo_filter s"
  "jo_jsonargs (jo_args_update g s) = jo_jsonargs s" "jo_args (jo_args_update g s) = g (jo_args s)"
  by (cases s; simp)+

lemma jq_flag_commutes:
  "jq_flag c = Some f \<Longrightarrow> f (jo_args_update g s) = jo_args_update g (f s)"
  "jq_long_flag c = Some f \<Longrightarrow> f (jo_args_update g s) = jo_args_update g (f s)"
  by (cases s; auto simp: jq_flag_def jq_long_flag_def split: if_splits)+

lemma jq_flags_commute:
  "jq_flags cs (jo_args_update g s) = map_sum id (jo_args_update g) (jq_flags cs s)"
  by (induction cs arbitrary: s) (auto simp: jq_flag_commutes split: option.splits)

declare jq_args.simps(2) [simp del]

lemma jq_args_commute:
  fixes Q :: "('n, 'v, 'm, 'f) jaq"
  shows "jq_args Q as b (jo_args_update (\<lambda>l. xs @ l) s) = map_sum id (jo_args_update (\<lambda>l. xs @ l)) (jq_args Q as b s)"
proof (induction Q as b s rule: jq_args.induct)
  case (2 Q a rest b s)
  show ?case
  proof (cases "prefix ''-'' a \<and> 1 < length a \<and> \<not> prefix ''--'' a")
    case True
    then have "a \<noteq> ''--''" by auto
    with True 2(1) show ?thesis
      by (simp add: jq_args.simps(2) jq_flags_commute split: sum.splits)
  next
    case short: False
    show ?thesis
    proof (cases "jq_long_flag a :: ('v jq_options \<Rightarrow> 'v jq_options) option")
      case (Some f)
      with short 2(5) [OF _ short Some] show ?thesis
        by (cases "a = ''--''") (auto simp: jq_args.simps(2) jq_flag_commutes)
    next
      case None
      have put: "jo_args_update ((@) xs) s\<lparr>jo_args := ys\<rparr> = s\<lparr>jo_args := ys\<rparr>"
        "jo_args_update ((@) xs) (s\<lparr>jo_filter := a\<rparr>) = (jo_args_update ((@) xs) s)\<lparr>jo_filter := a\<rparr>"
        "jo_args_update ((@) xs) (s\<lparr>jo_jsonargs := js\<rparr>) = (jo_args_update ((@) xs) s)\<lparr>jo_jsonargs := js\<rparr>"
        "jo_args_update ((@) xs) (s\<lparr>jo_args := jo_args s @ ys\<rparr>)
          = (jo_args_update ((@) xs) s)\<lparr>jo_args := jo_args (jo_args_update ((@) xs) s) @ ys\<rparr>" for ys js
        by (cases s; simp)+
      note ih = 2(2,3,4) [OF _ short None]
      from short None ih show ?thesis by (auto simp: jq_args.simps(2) put split: sum.splits)
    qed
  qed
qed simp

lemma jq_arg_name_ignored: "run_jq Q (''--arg'' # n # v # rest) stdin = run_jq Q (''--arg'' # n' # v # rest) stdin"
proof -
  have start: "jq_args Q (''--arg'' # k # v # rest) False jq_defaults
    = map_sum id (jo_args_update (\<lambda>l. (k, v) # l)) (jq_args Q rest False jq_defaults)" for k
    using jq_args_commute [of Q rest False "[(k, v)]" jq_defaults]
    by (simp add: jq_args.simps(2) jq_long_flag_def) (simp add: jq_defaults_def)
  have "read_inputs Q (jo_args_update g s) = read_inputs Q s" "format_output Q (jo_args_update g s) = format_output Q s"
    for g s by (simp_all add: read_inputs_def format_output_def fun_eq_iff jq_args_unused Let_def split: sum.split option.split)
  moreover from this have "written_value Q (jo_args_update g s) = written_value Q s" for g s
    by (simp add: written_value_def fun_eq_iff jq_args_unused)
  moreover have "jq_vars Q (jo_args_update (\<lambda>l. (n, v) # l) s) = jq_vars Q (jo_args_update (\<lambda>l. (n', v) # l) s)" for s
    by (simp add: jq_vars_def jq_args_unused)
  ultimately show ?thesis
    by (cases "jq_args Q rest False jq_defaults") (simp_all add: run_jq_def start jq_inputs_all jq_args_unused Let_def split: sum.split option.split)
qed

end
