(* ===== verification/Yq_Cmd.thy ===== *)
theory Yq_Cmd
  imports Jaq "HOL-Library.Word"
begin

text \<open>
  The \<open>yq\<close> command (\<open>libs/yq/src/lib.rs\<close>): options, the guess of the input format, the conversions
  between JSON and TOML values and between JSON values and the events of an XML document, and the run.
  The readers and printers of the formats are crates and the record \<open>formats\<close>.
\<close>

section \<open>Values and events of the other formats\<close>

text \<open>A TOML value; floats are \<open>'f\<close>, dates \<open>'d\<close>.\<close>

datatype ('f, 'd) toml =
    TText bytes | TInteger "64 word" | TFloat 'f | TBoolean bool | TDatetime 'd
  | TArray "('f, 'd) toml list" | TTable "(bytes \<times> ('f, 'd) toml) list"

text \<open>An XML event: a name with the attributes that can be read, or text as it stands in the document;
  the end of the list of events is the end of the document.\<close>

datatype xml_event =
    XStart bytes "(bytes \<times> bytes) list" | XEnd bytes | XEmpty bytes "(bytes \<times> bytes) list"
  | XText bytes | XOther

text \<open>
  The crates: numbers read as \<open>i64\<close> or \<open>f64\<close>, made from them and printed; dates printed; YAML and TOML
  read and printed; XML events read, text escaped and unescaped, events printed, and the text of a
  decoding error.
\<close>

record ('n, 'f, 'd) formats =
  fm_i64 :: "'n \<Rightarrow> 64 word option"
  fm_f64 :: "'n \<Rightarrow> 'f option"
  fm_of_i64 :: "64 word \<Rightarrow> 'n"
  fm_of_f64 :: "'f \<Rightarrow> 'n option"
  fm_number :: "'n \<Rightarrow> bytes"
  fm_date :: "'d \<Rightarrow> bytes"
  fm_yaml_read :: "bytes \<Rightarrow> bytes + 'n jvalue"
  fm_yaml_print :: "'n jvalue \<Rightarrow> bytes + bytes"
  fm_toml_read :: "bytes \<Rightarrow> bytes + ('f, 'd) toml"
  fm_toml_print :: "('f, 'd) toml \<Rightarrow> bytes + bytes"
  fm_events :: "bytes \<Rightarrow> (bytes + xml_event) list"
  fm_escape :: "bytes \<Rightarrow> bytes"
  fm_unescape :: "bytes \<Rightarrow> bytes option"
  fm_document :: "xml_event list \<Rightarrow> bytes"
  fm_utf8_error :: "bytes \<Rightarrow> bytes"

section \<open>Options\<close>

datatype yq_format = Yaml | Json | Toml | Xml

record yq_options =
  yo_filter :: bytes
  yo_input :: "yq_format option"
  yo_output :: "yq_format option"
  yo_raw :: bool
  yo_compact :: bool
  yo_null_input :: bool
  yo_slurp :: bool

definition yq_defaults :: yq_options where
  "yq_defaults = \<lparr>yo_filter = [], yo_input = None, yo_output = None, yo_raw = False, yo_compact = False,
     yo_null_input = False, yo_slurp = False\<rparr>"

definition parse_format :: "bytes \<Rightarrow> bytes + yq_format" where
  "parse_format s =
     (if s = ''yaml'' \<or> s = ''y'' then Inr Yaml
      else if s = ''json'' \<or> s = ''j'' then Inr Json
      else if s = ''toml'' \<or> s = ''t'' then Inr Toml
      else if s = ''xml'' \<or> s = ''x'' then Inr Xml
      else Inl (''unknown format: '' @ s @ '' (expected yaml, json, toml, xml)''))"

text \<open>The format given by \<open>-p\<close> or \<open>-o\<close>: what follows in the same argument, or the next argument; what
  is left of the arguments.\<close>

definition format_argument :: "bytes \<Rightarrow> bytes \<Rightarrow> bytes list \<Rightarrow> bytes + yq_format \<times> bytes list" where
  "format_argument flag attached rest =
     (if attached \<noteq> [] then map_sum id (\<lambda>f. (f, rest)) (parse_format attached)
      else (case rest of
              [] \<Rightarrow> Inl (flag @ '' requires a format argument'')
            | a # rest' \<Rightarrow> map_sum id (\<lambda>f. (f, rest')) (parse_format a)))"

definition yq_switch :: "bytes \<Rightarrow> (yq_options \<Rightarrow> yq_options) option" where
  "yq_switch c =
     map_of [(''r'', yo_raw_update (\<lambda>_. True)), (''c'', yo_compact_update (\<lambda>_. True)),
       (''n'', yo_null_input_update (\<lambda>_. True)), (''s'', yo_slurp_update (\<lambda>_. True))] c"

definition yq_long_switch :: "bytes \<Rightarrow> (yq_options \<Rightarrow> yq_options) option" where
  "yq_long_switch a =
     map_of [(''-r'', yo_raw_update (\<lambda>_. True)), (''--raw-output'', yo_raw_update (\<lambda>_. True)),
       (''-c'', yo_compact_update (\<lambda>_. True)), (''--compact-output'', yo_compact_update (\<lambda>_. True)),
       (''-n'', yo_null_input_update (\<lambda>_. True)), (''--null-input'', yo_null_input_update (\<lambda>_. True)),
       (''-s'', yo_slurp_update (\<lambda>_. True)), (''--slurp'', yo_slurp_update (\<lambda>_. True))] a"

text \<open>Combined short flags, with the arguments that follow.\<close>

fun yq_flags :: "bytes list \<Rightarrow> bytes list \<Rightarrow> yq_options \<Rightarrow> bytes + yq_options \<times> bytes list" where
  "yq_flags [] rest s = Inr (s, rest)"
| "yq_flags (c # cs) rest s =
     (case yq_switch c of
        Some f \<Rightarrow> yq_flags cs rest (f s)
      | None \<Rightarrow>
          if c = ''p'' then map_sum id (\<lambda>(f, r). (s\<lparr>yo_input := Some f\<rparr>, r)) (format_argument ''-p'' (concat cs) rest)
          else if c = ''o'' then map_sum id (\<lambda>(f, r). (s\<lparr>yo_output := Some f\<rparr>, r)) (format_argument ''-o'' (concat cs) rest)
          else Inl (''unknown option: -'' @ c))"

lemma format_argument_length: "format_argument fl at rest = Inr (f, r) \<Longrightarrow> length r \<le> length rest"
  by (auto simp: format_argument_def split: if_splits list.splits sum.splits)
    (auto simp: map_sum_def split: sum.splits)

lemma yq_flags_length: "yq_flags cs rest s = Inr (s', r) \<Longrightarrow> length r \<le> length rest"
proof (induction cs rest s rule: yq_flags.induct)
  case (2 c cs rest s)
  then show ?case
    by (cases "format_argument ''-p'' (concat cs) rest"; cases "format_argument ''-o'' (concat cs) rest")
      (auto dest: format_argument_length split: option.splits if_splits)
qed simp

definition yq_finish :: "bool \<Rightarrow> yq_options \<Rightarrow> yq_options" where
  "yq_finish filter_set s = (if filter_set then s else s\<lparr>yo_filter := ''.''\<rparr>)"

function yq_args :: "bytes list \<Rightarrow> bool \<Rightarrow> yq_options \<Rightarrow> bytes + yq_options" where
  "yq_args [] filter_set s = Inr (yq_finish filter_set s)"
| "yq_args (a # rest) filter_set s =
     (if a = ''--'' then Inr (yq_finish filter_set s)
      else if a = ''-p'' \<or> a = ''--input-format'' then
        (case format_argument ''-p'' [] rest of
           Inl e \<Rightarrow> Inl e | Inr (f, r) \<Rightarrow> yq_args r filter_set (s\<lparr>yo_input := Some f\<rparr>))
      else if a = ''-o'' \<or> a = ''--output-format'' then
        (case format_argument ''-o'' [] rest of
           Inl e \<Rightarrow> Inl e | Inr (f, r) \<Rightarrow> yq_args r filter_set (s\<lparr>yo_output := Some f\<rparr>))
      else (case yq_long_switch a of
              Some f \<Rightarrow> yq_args rest filter_set (f s)
            | None \<Rightarrow>
                if prefix ''-'' a \<and> 1 < length a \<and> \<not> prefix ''--'' a then
                  (case yq_flags (utf8_chars (tl a)) rest s of
                     Inl e \<Rightarrow> Inl e | Inr (s', r) \<Rightarrow> yq_args r filter_set s')
                else if \<not> filter_set then yq_args rest True (s\<lparr>yo_filter := a\<rparr>)
                else Inl (''unexpected argument: '' @ a)))"
  by pat_completeness auto
termination
  by (relation "measure (\<lambda>(as, b, s). length as)")
    (auto dest!: format_argument_length yq_flags_length)

section \<open>TOML\<close>

text \<open>No branch of the conversion to JSON fails.\<close>

fun toml_to_json :: "('n, 'f, 'd) formats \<Rightarrow> ('f, 'd) toml \<Rightarrow> 'n jvalue"
  and toml_items :: "('n, 'f, 'd) formats \<Rightarrow> ('f, 'd) toml list \<Rightarrow> 'n jvalue list"
  and toml_table :: "('n, 'f, 'd) formats \<Rightarrow> (bytes \<times> 'n jvalue) list \<Rightarrow> (bytes \<times> ('f, 'd) toml) list
        \<Rightarrow> (bytes \<times> 'n jvalue) list" where
  "toml_to_json F (TText s) = JText s"
| "toml_to_json F (TInteger i) = JNumber (fm_of_i64 F i)"
| "toml_to_json F (TFloat x) = (case fm_of_f64 F x of Some n \<Rightarrow> JNumber n | None \<Rightarrow> JNull)"
| "toml_to_json F (TBoolean b) = JBool b"
| "toml_to_json F (TDatetime d) = JText (fm_date F d)"
| "toml_to_json F (TArray ts) = JArray (toml_items F ts)"
| "toml_to_json F (TTable kvs) = JObject (toml_table F [] kvs)"
| "toml_items F [] = []"
| "toml_items F (t # ts) = toml_to_json F t # toml_items F ts"
| "toml_table F m [] = m"
| "toml_table F m ((k, t) # kvs) = toml_table F (map_put k (toml_to_json F t) m) kvs"

fun json_to_toml :: "('n, 'f, 'd) formats \<Rightarrow> 'n jvalue \<Rightarrow> bytes + ('f, 'd) toml"
  and json_items :: "('n, 'f, 'd) formats \<Rightarrow> 'n jvalue list \<Rightarrow> bytes + ('f, 'd) toml list"
  and json_table :: "('n, 'f, 'd) formats \<Rightarrow> (bytes \<times> ('f, 'd) toml) list \<Rightarrow> (bytes \<times> 'n jvalue) list
        \<Rightarrow> bytes + (bytes \<times> ('f, 'd) toml) list" where
  "json_to_toml F JNull = Inl ''TOML does not support null values''"
| "json_to_toml F (JBool b) = Inr (TBoolean b)"
| "json_to_toml F (JNumber n) =
     (case fm_i64 F n of
        Some i \<Rightarrow> Inr (TInteger i)
      | None \<Rightarrow> (case fm_f64 F n of Some x \<Rightarrow> Inr (TFloat x) | None \<Rightarrow> Inl ''unsupported number for TOML''))"
| "json_to_toml F (JText s) = Inr (TText s)"
| "json_to_toml F (JArray vs) = map_sum id TArray (json_items F vs)"
| "json_to_toml F (JObject m) = map_sum id TTable (json_table F [] m)"
| "json_items F [] = Inr []"
| "json_items F (v # vs) =
     (case json_to_toml F v of Inl e \<Rightarrow> Inl e | Inr t \<Rightarrow> map_sum id (\<lambda>ts. t # ts) (json_items F vs))"
| "json_table F m [] = Inr m"
| "json_table F m ((k, v) # kvs) =
     (case json_to_toml F v of Inl e \<Rightarrow> Inl e | Inr t \<Rightarrow> json_table F (map_put k t m) kvs)"

section \<open>Reading XML\<close>

record 'n stack_entry =
  se_name :: bytes
  se_children :: "(bytes \<times> 'n jvalue) list"
  se_text :: bytes

text \<open>A second element of the same name makes an array.\<close>

definition insert_or_array :: "(bytes \<times> 'n jvalue) list \<Rightarrow> bytes \<Rightarrow> 'n jvalue \<Rightarrow> (bytes \<times> 'n jvalue) list" where
  "insert_or_array m k v =
     (case map_of m k of
        Some (JArray vs) \<Rightarrow> map_put k (JArray (vs @ [v])) m
      | Some prev \<Rightarrow> map_put k (JArray [prev, v]) m
      | None \<Rightarrow> map_put k v m)"

text \<open>Into the element that is open, or the document.\<close>

fun deliver ::
  "bytes \<Rightarrow> 'n jvalue \<Rightarrow> 'n stack_entry list \<times> (bytes \<times> 'n jvalue) list
     \<Rightarrow> 'n stack_entry list \<times> (bytes \<times> 'n jvalue) list" where
  "deliver k v ([], root) = ([], insert_or_array root k v)"
| "deliver k v (e # st, root) = (e\<lparr>se_children := insert_or_array (se_children e) k v\<rparr> # st, root)"

definition attribute_map :: "(bytes \<times> bytes) list \<Rightarrow> (bytes \<times> 'n jvalue) list" where
  "attribute_map attrs =
     foldl (\<lambda>m (a, v). map_put (CHR ''@'' # from_utf8_lossy a) (JText (from_utf8_lossy v)) m) [] attrs"

definition element_value :: "'n stack_entry \<Rightarrow> 'n jvalue" where
  "element_value e =
     (let text = trim (se_text e) in
      if se_children e = [] \<and> text = [] then JNull
      else if se_children e = [] then JText text
      else JObject (if text = [] then se_children e else map_put ''#text'' (JText text) (se_children e)))"

fun xml_step ::
  "('n, 'f, 'd) formats \<Rightarrow> xml_event \<Rightarrow> 'n stack_entry list \<times> (bytes \<times> 'n jvalue) list
     \<Rightarrow> bytes + 'n stack_entry list \<times> (bytes \<times> 'n jvalue) list" where
  "xml_step F (XStart n attrs) (st, root) =
     Inr (\<lparr>se_name = from_utf8_lossy n, se_children = attribute_map attrs, se_text = []\<rparr> # st, root)"
| "xml_step F (XEnd n) ([], root) = Inl ''unexpected closing tag''"
| "xml_step F (XEnd n) (e # st, root) = Inr (deliver (se_name e) (element_value e) (st, root))"
| "xml_step F (XEmpty n attrs) (st, root) =
     Inr (deliver (from_utf8_lossy n)
            (if attrs = [] then JNull else JObject (attribute_map attrs)) (st, root))"
| "xml_step F (XText t) ([], root) = Inr ([], root)"
| "xml_step F (XText t) (e # st, root) =
     Inr ((case fm_unescape F t of Some u \<Rightarrow> e\<lparr>se_text := se_text e @ u\<rparr> | None \<Rightarrow> e) # st, root)"
| "xml_step F XOther (st, root) = Inr (st, root)"

text \<open>Elements still open at the end of the document are dropped.\<close>

fun xml_loop ::
  "('n, 'f, 'd) formats \<Rightarrow> (bytes + xml_event) list \<Rightarrow> 'n stack_entry list \<times> (bytes \<times> 'n jvalue) list
     \<Rightarrow> bytes + 'n jvalue" where
  "xml_loop F [] s = Inr (JObject (snd s))"
| "xml_loop F (Inl e # es) s = Inl (''invalid XML: '' @ e)"
| "xml_loop F (Inr ev # es) s = (case xml_step F ev s of Inl e \<Rightarrow> Inl e | Inr s' \<Rightarrow> xml_loop F es s')"

definition xml_to_json :: "('n, 'f, 'd) formats \<Rightarrow> bytes \<Rightarrow> bytes + 'n jvalue" where
  "xml_to_json F input = xml_loop F (fm_events F input) ([], [])"

section \<open>Writing XML\<close>

text \<open>The attributes are the text fields whose key starts with @; the writer escapes their values.\<close>

definition xml_attributes :: "('n, 'f, 'd) formats \<Rightarrow> (bytes \<times> 'n jvalue) list \<Rightarrow> (bytes \<times> bytes) list" where
  "xml_attributes F m =
     List.map_filter (\<lambda>(k, v). case strip_prefix ''@'' k of
        Some a \<Rightarrow> (case v of JText s \<Rightarrow> Some (a, fm_escape F s) | _ \<Rightarrow> None) | None \<Rightarrow> None) m"

definition xml_text :: "('n, 'f, 'd) formats \<Rightarrow> (bytes \<times> 'n jvalue) list \<Rightarrow> xml_event list" where
  "xml_text F m = (case map_of m ''#text'' of Some (JText t) \<Rightarrow> [XText (fm_escape F t)] | _ \<Rightarrow> [])"

definition not_element :: "bytes \<Rightarrow> bool" where
  "not_element k \<longleftrightarrow> prefix ''@'' k \<or> k = ''#text''"

text \<open>An array in a field is written item by item under the key, which is what an array under a name
  does as well.\<close>

fun xml_element :: "('n, 'f, 'd) formats \<Rightarrow> bytes \<Rightarrow> 'n jvalue \<Rightarrow> xml_event list"
  and xml_items :: "('n, 'f, 'd) formats \<Rightarrow> bytes \<Rightarrow> 'n jvalue list \<Rightarrow> xml_event list"
  and xml_fields :: "('n, 'f, 'd) formats \<Rightarrow> (bytes \<times> 'n jvalue) list \<Rightarrow> xml_event list" where
  "xml_element F n (JObject m) =
     XStart n (xml_attributes F m) # xml_text F m @ xml_fields F m @ [XEnd n]"
| "xml_element F n (JArray vs) = xml_items F n vs"
| "xml_element F n (JText s) = [XStart n [], XText (fm_escape F s), XEnd n]"
| "xml_element F n (JNumber x) = [XStart n [], XText (fm_escape F (fm_number F x)), XEnd n]"
| "xml_element F n (JBool b) = [XStart n [], XText (fm_escape F (if b then ''true'' else ''false'')), XEnd n]"
| "xml_element F n JNull = [XEmpty n []]"
| "xml_items F n [] = []"
| "xml_items F n (v # vs) = xml_element F n v @ xml_items F n vs"
| "xml_fields F [] = []"
| "xml_fields F ((k, v) # m) = (if not_element k then [] else xml_element F k v) @ xml_fields F m"

definition xml_document :: "('n, 'f, 'd) formats \<Rightarrow> 'n jvalue \<Rightarrow> xml_event list" where
  "xml_document F v =
     (case v of
        JObject m \<Rightarrow> concat (map (\<lambda>(k, x). xml_element F k x) m)
      | _ \<Rightarrow> xml_element F ''root'' v)"

text \<open>Writing to memory does not fail.\<close>

definition json_to_xml :: "('n, 'f, 'd) formats \<Rightarrow> 'n jvalue \<Rightarrow> bytes + bytes" where
  "json_to_xml F v =
     (let b = fm_document F (xml_document F v) in
      if utf8_valid b then Inr b else Inl (''XML encoding error: '' @ fm_utf8_error F b))"

section \<open>The formats\<close>

definition is_right :: "'a + 'b \<Rightarrow> bool" where
  "is_right x = (case x of Inl e \<Rightarrow> False | Inr v \<Rightarrow> True)"

definition detect_format :: "('n, 'v, 'm, 'g) jaq \<Rightarrow> ('n, 'f, 'd) formats \<Rightarrow> bytes \<Rightarrow> yq_format" where
  "detect_format Q F input =
     (let t = trim_start input in
      if (prefix ''{'' t \<or> prefix ''['' t) \<and> is_right (jq_read Q t) then Json
      else if prefix ''<'' t then Xml
      else if \<not> sublist '': '' t \<and> \<not> prefix ''---'' t
              \<and> (sublist '' = '' t \<or> sublist (''= '' @ [CHR 0x22]) t \<or> prefix ''['' t)
              \<and> is_right (fm_toml_read F t) then Toml
      else Yaml)"

definition prefixed_error :: "bytes \<Rightarrow> bytes + 'a \<Rightarrow> bytes + 'a" where
  "prefixed_error p r = (case r of Inl e \<Rightarrow> Inl (p @ e) | Inr v \<Rightarrow> Inr v)"

definition parse_input :: "('n, 'v, 'm, 'g) jaq \<Rightarrow> ('n, 'f, 'd) formats \<Rightarrow> bytes \<Rightarrow> yq_format \<Rightarrow> bytes + 'n jvalue" where
  "parse_input Q F input fmt =
     (case fmt of
        Json \<Rightarrow> prefixed_error ''invalid JSON: '' (jq_read Q input)
      | Yaml \<Rightarrow> prefixed_error ''invalid YAML: '' (fm_yaml_read F input)
      | Toml \<Rightarrow> (case fm_toml_read F input of Inl e \<Rightarrow> Inl (''invalid TOML: '' @ e) | Inr t \<Rightarrow> Inr (toml_to_json F t))
      | Xml \<Rightarrow> xml_to_json F input)"

definition strip_end :: "bytes \<Rightarrow> bytes \<Rightarrow> bytes" where
  "strip_end p s = (if suffix p s then take (length s - length p) s else s)"

definition format_json_as ::
  "('n, 'v, 'm, 'g) jaq \<Rightarrow> ('n, 'f, 'd) formats \<Rightarrow> yq_format \<Rightarrow> 'n jvalue \<Rightarrow> bool \<Rightarrow> bytes + bytes" where
  "format_json_as Q F fmt v compact =
     (case fmt of
        Json \<Rightarrow> prefixed_error ''JSON output error: '' (if compact then jq_compact Q v else jq_pretty Q v)
      | Yaml \<Rightarrow>
          (case fm_yaml_print F v of
             Inl e \<Rightarrow> Inl (''YAML output error: '' @ e)
           | Inr s \<Rightarrow> Inr (strip_end [NL] (case strip_prefix (''---'' @ [NL]) s of Some r \<Rightarrow> r | None \<Rightarrow> s)))
      | Toml \<Rightarrow>
          (case json_to_toml F v of
             Inl e \<Rightarrow> Inl e
           | Inr t \<Rightarrow> (case fm_toml_print F t of
                        Inl e \<Rightarrow> Inl (''TOML output error: '' @ e) | Inr s \<Rightarrow> Inr (strip_end [NL] s)))
      | Xml \<Rightarrow> json_to_xml F v)"

definition format_val_output ::
  "('n, 'v, 'm, 'g) jaq \<Rightarrow> ('n, 'f, 'd) formats \<Rightarrow> yq_options \<Rightarrow> yq_format \<Rightarrow> 'v \<Rightarrow> bytes + bytes" where
  "format_val_output Q F s fmt v =
     (let compact = jq_show Q v in
      case (if yo_raw s then raw_text Q compact else None) of
        Some t \<Rightarrow> Inr t
      | None \<Rightarrow> format_json_as Q F fmt
                  (case jq_read Q compact of Inr j \<Rightarrow> j | Inl e \<Rightarrow> JText compact) (yo_compact s))"

section \<open>The run\<close>

text \<open>What is written on the two outputs, and the end: an error message, or the exit status.\<close>

fun yq_results ::
  "('n, 'v, 'm, 'g) jaq \<Rightarrow> ('n, 'f, 'd) formats \<Rightarrow> yq_options \<Rightarrow> yq_format \<Rightarrow> (bytes + 'v) list
     \<Rightarrow> bytes \<times> bytes list \<times> (bytes + int)" where
  "yq_results Q F s fmt [] = ([], [], Inr 0)"
| "yq_results Q F s fmt (Inl e # rs) = ([], [''yq: error: '' @ e], Inr 5)"
| "yq_results Q F s fmt (Inr v # rs) =
     (case format_val_output Q F s fmt v of
        Inl e \<Rightarrow> ([], [], Inl e)
      | Inr t \<Rightarrow> (let (out, err, r) = yq_results Q F s fmt rs in (t @ [NL] @ out, err, r)))"

definition yq_input ::
  "('n, 'v, 'm, 'g) jaq \<Rightarrow> ('n, 'f, 'd) formats \<Rightarrow> yq_options \<Rightarrow> bytes \<Rightarrow> yq_format \<Rightarrow> bytes + 'v" where
  "yq_input Q F s data fmt =
     (if yo_null_input s then Inr (jq_val Q JNull)
      else (case parse_input Q F data fmt of
              Inl e \<Rightarrow> Inl e
            | Inr j \<Rightarrow>
                Inr (jq_val Q (if yo_slurp s then (case j of JArray vs \<Rightarrow> j | _ \<Rightarrow> JArray [j]) else j))))"

definition run_yq ::
  "('n, 'v, 'm, 'g) jaq \<Rightarrow> ('n, 'f, 'd) formats \<Rightarrow> bytes list \<Rightarrow> bytes + bytes \<Rightarrow> bytes \<times> bytes list \<times> (bytes + int)" where
  "run_yq Q F args stdin =
     (case yq_args args False yq_defaults of
        Inl e \<Rightarrow> ([], [], Inl e)
      | Inr s \<Rightarrow>
          (case (if yo_null_input s then Inr [] else stdin) of
             Inl e \<Rightarrow> ([], [], Inl (''failed to read stdin: '' @ e))
           | Inr data \<Rightarrow>
               (let in_fmt = (case yo_input s of
                      Some f \<Rightarrow> f | None \<Rightarrow> if yo_null_input s then Yaml else detect_format Q F data);
                    out_fmt = (case yo_output s of Some f \<Rightarrow> f | None \<Rightarrow> in_fmt)
                in case yq_input Q F s data in_fmt of
                     Inl e \<Rightarrow> ([], [], Inl e)
                   | Inr input \<Rightarrow>
                       (case compile_filter Q (yo_filter s) of
                          Inl e \<Rightarrow> ([], [], Inl e)
                        | Inr f \<Rightarrow> yq_results Q F s out_fmt (jq_eval Q f [] input)))))"

definition yq_main ::
  "('n, 'v, 'm, 'g) jaq \<Rightarrow> ('n, 'f, 'd) formats \<Rightarrow> bytes list \<Rightarrow> bytes + bytes \<Rightarrow> int \<times> bytes \<times> bytes list" where
  "yq_main Q F argv stdin =
     (let (out, err, r) = run_yq Q F (map from_utf8_lossy (tl argv)) stdin in
      case r of Inr code \<Rightarrow> (code, out, err) | Inl e \<Rightarrow> (2, out, err @ [''yq: '' @ e]))"

end
