(* ===== verification/Yq_Props.thy ===== *)
theory Yq_Props
  imports Yq_Cmd
begin

text \<open>
  What the conversions of \<open>yq\<close> promise: a JSON value that has the shape of an XML document is read back
  from the document written for it, and a value TOML can express survives the way to TOML and back.
\<close>

section \<open>JSON values with the shape of a document\<close>

text \<open>Elements are null, trimmed text, or an object with more than text in it; a repeated element is an
  array of two or more; an attribute's value needs no escape.\<close>

fun xml_shaped :: "('n, 'f, 'd) formats \<Rightarrow> 'n jvalue \<Rightarrow> bool"
  and items_shaped :: "('n, 'f, 'd) formats \<Rightarrow> 'n jvalue list \<Rightarrow> bool"
  and fields_shaped :: "('n, 'f, 'd) formats \<Rightarrow> (bytes \<times> 'n jvalue) list \<Rightarrow> bool"
  and repeated_shaped :: "('n, 'f, 'd) formats \<Rightarrow> 'n jvalue \<Rightarrow> bool" where
  "xml_shaped F JNull = True"
| "xml_shaped F (JText s) \<longleftrightarrow> s \<noteq> [] \<and> trim s = s"
| "xml_shaped F (JObject m) \<longleftrightarrow> key_ordered m \<and> list_ex (\<lambda>(k, v). k \<noteq> ''#text'') m \<and> fields_shaped F m"
| "xml_shaped F (JArray vs) = False"
| "xml_shaped F (JBool b) = False"
| "xml_shaped F (JNumber n) = False"
| "items_shaped F [] = True"
| "items_shaped F (v # vs) \<longleftrightarrow> xml_shaped F v \<and> items_shaped F vs"
| "repeated_shaped F (JArray vs) \<longleftrightarrow> 2 \<le> length vs \<and> items_shaped F vs"
| "repeated_shaped F v = xml_shaped F v"
| "fields_shaped F [] = True"
| "fields_shaped F ((k, v) # m) \<longleftrightarrow>
     (if prefix ''@'' k then utf8_valid (tl k)
        \<and> (case v of JText s \<Rightarrow> fm_escape F s = s \<and> utf8_valid s | _ \<Rightarrow> False)
      else if k = ''#text'' then (case v of JText s \<Rightarrow> s \<noteq> [] \<and> trim s = s | _ \<Rightarrow> False)
      else utf8_valid k \<and> repeated_shaped F v)
     \<and> fields_shaped F m"

text \<open>The elements of a document.\<close>

definition document_shaped :: "('n, 'f, 'd) formats \<Rightarrow> (bytes \<times> 'n jvalue) list \<Rightarrow> bool" where
  "document_shaped F m \<longleftrightarrow> key_ordered m \<and> list_all (\<lambda>(k, v). utf8_valid k \<and> repeated_shaped F v) m"

section \<open>What the reader does with what was written\<close>

text \<open>A value delivered under a name: an array item by item.\<close>

fun deliver_all :: "bytes \<Rightarrow> 'n jvalue
     \<Rightarrow> 'n stack_entry list \<times> (bytes \<times> 'n jvalue) list \<Rightarrow> 'n stack_entry list \<times> (bytes \<times> 'n jvalue) list" where
  "deliver_all k (JArray vs) s = foldl (\<lambda>s v. deliver k v s) s vs"
| "deliver_all k v s = deliver k v s"

definition deliver_field :: "'n stack_entry list \<times> (bytes \<times> 'n jvalue) list \<Rightarrow> bytes \<times> 'n jvalue
     \<Rightarrow> 'n stack_entry list \<times> (bytes \<times> 'n jvalue) list" where
  "deliver_field s kv = (if not_element (fst kv) then s else deliver_all (fst kv) (snd kv) s)"

text \<open>The same on the children of one element.\<close>

fun insert_all :: "(bytes \<times> 'n jvalue) list \<Rightarrow> bytes \<Rightarrow> 'n jvalue \<Rightarrow> (bytes \<times> 'n jvalue) list" where
  "insert_all m k (JArray vs) = foldl (\<lambda>m v. insert_or_array m k v) m vs"
| "insert_all m k v = insert_or_array m k v"

definition insert_field :: "(bytes \<times> 'n jvalue) list \<Rightarrow> bytes \<times> 'n jvalue \<Rightarrow> (bytes \<times> 'n jvalue) list" where
  "insert_field m kv = (if not_element (fst kv) then m else insert_all m (fst kv) (snd kv))"

lemma deliver_all_top:
  "deliver_all k v (e # st, root) = (e\<lparr>se_children := insert_all (se_children e) k v\<rparr> # st, root)"
proof -
  have "foldl (\<lambda>s v. deliver k v s) (e # st, root) vs
    = (e\<lparr>se_children := foldl (\<lambda>m v. insert_or_array m k v) (se_children e) vs\<rparr> # st, root)" for vs
    by (induction vs arbitrary: e) auto
  then show ?thesis by (cases v) auto
qed

lemma deliver_all_root: "deliver_all k v ([], root) = ([], insert_all root k v)"
proof -
  have "foldl (\<lambda>s v. deliver k v s) ([], root) vs = ([], foldl (\<lambda>m v. insert_or_array m k v) root vs)" for vs
    by (induction vs arbitrary: root) auto
  then show ?thesis by (cases v) auto
qed

lemma deliver_fields_top:
  "foldl deliver_field (e # st, root) m = (e\<lparr>se_children := foldl insert_field (se_children e) m\<rparr> # st, root)"
  by (induction m arbitrary: e) (auto simp: deliver_field_def insert_field_def deliver_all_top)

subsection \<open>Children under fresh keys\<close>

lemma insert_or_array_fresh: "map_of m k = None \<Longrightarrow> insert_or_array m k v = map_put k v m"
  by (simp add: insert_or_array_def)

lemma insert_items_array:
  "map_of m k = Some (JArray us) \<Longrightarrow>
     map_of (foldl (\<lambda>m v. insert_or_array m k v) m vs) = (map_of m)(k \<mapsto> JArray (us @ vs))"
  by (induction vs arbitrary: m us) (auto simp: insert_or_array_def)

lemma xml_shaped_not_array: "xml_shaped F v \<Longrightarrow> v \<noteq> JArray vs"
  by auto

lemma insert_all_fresh:
  assumes "map_of m k = None" and "repeated_shaped F v"
  shows "map_of (insert_all m k v) = (map_of m)(k \<mapsto> v)"
proof (cases v)
  case (JArray vs)
  with assms(2) obtain a b us where vs: "vs = a # b # us" and "xml_shaped F a"
    by (cases vs; cases "tl vs") auto
  then have "map_of (insert_or_array (insert_or_array m k a) k b) = (map_of m)(k \<mapsto> JArray [a, b])"
    using assms(1) by (cases a) (auto simp: insert_or_array_def)
  with vs JArray insert_items_array [of "insert_or_array (insert_or_array m k a) k b" k "[a, b]" us]
  show ?thesis by simp
qed (use assms in \<open>auto simp: insert_or_array_fresh\<close>)

lemma key_ordered_insert_or_array [simp]: "key_ordered m \<Longrightarrow> key_ordered (insert_or_array m k v)"
  by (simp add: insert_or_array_def split: option.split jvalue.split)

lemma key_ordered_insert_all [simp]: "key_ordered m \<Longrightarrow> key_ordered (insert_all m k v)"
proof -
  have "key_ordered m \<Longrightarrow> key_ordered (foldl (\<lambda>m v. insert_or_array m k v) m vs)" for vs
    by (induction vs arbitrary: m) auto
  then show "key_ordered m \<Longrightarrow> key_ordered (insert_all m k v)" by (cases v) auto
qed

lemma key_ordered_insert_fields: "key_ordered c \<Longrightarrow> key_ordered (foldl insert_field c m)"
  by (induction m arbitrary: c) (auto simp: insert_field_def)

lemma key_ordered_Cons:
  "key_ordered ((k, v) # m) \<longleftrightarrow> (\<forall>k'\<in>fst ` set m. bytes_less k k') \<and> key_ordered m"
  by (auto simp: key_ordered_def)

lemma key_ordered_fresh: "key_ordered ((k, v) # m) \<Longrightarrow> map_of m k = None"
  by (auto simp: key_ordered_Cons map_of_eq_None_iff)

text \<open>The children after all the fields: the element fields, and what was there.\<close>

lemma insert_fields:
  assumes "key_ordered m" and "list_all (\<lambda>(k, v). \<not> not_element k \<longrightarrow> repeated_shaped F v) m"
    and "\<forall>k. \<not> not_element k \<longrightarrow> map_of m k \<noteq> None \<longrightarrow> map_of c k = None"
  shows "map_of (foldl insert_field c m) =
    (\<lambda>k. if not_element k then map_of c k else case map_of m k of None \<Rightarrow> map_of c k | Some v \<Rightarrow> Some v)"
  using assms
proof (induction m arbitrary: c)
  case (Cons kv m)
  obtain k v where kv: "kv = (k, v)" by fastforce
  have ord: "key_ordered m" and fresh: "map_of m k = None"
    using Cons.prems(1) kv key_ordered_fresh by (auto simp: key_ordered_Cons)
  show ?case
  proof (cases "not_element k")
    case True
    with Cons.IH [OF ord, of c] Cons.prems kv show ?thesis by (auto simp: insert_field_def fun_eq_iff split: if_splits)
  next
    case False
    with Cons.prems kv have new: "map_of (insert_all c k v) = (map_of c)(k \<mapsto> v)"
      by (intro insert_all_fresh) auto
    with Cons.IH [OF ord, of "insert_all c k v"] Cons.prems kv fresh False show ?thesis
      by (auto simp: insert_field_def fun_eq_iff split: option.splits)
  qed
qed auto

subsection \<open>Attributes and text\<close>

lemma attribute_map_of:
  "map_of (foldl (\<lambda>m (a, v). map_put (CHR ''@'' # from_utf8_lossy a) (JText (from_utf8_lossy v)) m) c attrs) k =
   (case map_of (rev (map (\<lambda>(a, v). (CHR ''@'' # from_utf8_lossy a, JText (from_utf8_lossy v))) attrs)) k of
      None \<Rightarrow> map_of c k | Some v \<Rightarrow> Some v)"
  by (induction attrs arbitrary: c) (auto simp: map_add_def split: option.splits)

lemma key_ordered_attribute_fold: "key_ordered c \<Longrightarrow> key_ordered
    (foldl (\<lambda>m (a, v). map_put (CHR ''@'' # from_utf8_lossy a) (JText (from_utf8_lossy v)) m) c attrs)"
  by (induction attrs arbitrary: c) auto

lemma key_ordered_attributes [simp]: "key_ordered (attribute_map attrs)"
  by (simp add: attribute_map_def key_ordered_attribute_fold)

lemma written_attributes:
  assumes "fields_shaped F m"
  shows "map (\<lambda>(a, v). (CHR ''@'' # from_utf8_lossy a, JText (from_utf8_lossy v))) (xml_attributes F m)
    = filter (\<lambda>(k, v). prefix ''@'' k) m"
  using assms
proof (induction m)
  case (Cons kv m)
  obtain k v where kv: "kv = (k, v)" by fastforce
  show ?case
  proof (cases "prefix ''@'' k")
    case True
    then obtain a where k: "k = CHR ''@'' # a" by (auto simp: prefix_def)
    from Cons.prems kv True obtain s where v: "v = JText s" "fm_escape F s = s" "utf8_valid s" "utf8_valid a"
      by (auto simp: k split: jvalue.splits)
    with Cons kv k show ?thesis by (auto simp: xml_attributes_def map_filter_simps from_utf8_lossy_valid)
  next
    case False
    then have "strip_prefix ''@'' k = None" by (simp add: strip_prefix_None)
    with Cons kv False show ?thesis by (simp add: xml_attributes_def map_filter_simps)
  qed
qed (simp add: xml_attributes_def map_filter_simps)

lemma map_of_filter_prefix: "map_of (filter (\<lambda>(k, v). P k) m) k = (if P k then map_of m k else None)"
  by (induction m) auto

lemma distinct_keys: "key_ordered m \<Longrightarrow> distinct (map fst m)"
  by (induction m) (auto simp: key_ordered_def)

lemma map_of_rev_distinct:
  assumes "distinct (map fst xs)"
  shows "map_of (rev xs) = map_of xs"
proof
  fix k
  have "distinct (map fst (rev xs))" using assms by (simp add: rev_map [symmetric])
  with assms have "map_of (rev xs) k = Some v \<longleftrightarrow> map_of xs k = Some v" for v by simp
  then show "map_of (rev xs) k = map_of xs k" by (metis option.exhaust)
qed

lemma read_attributes:
  fixes m :: "(bytes \<times> 'n jvalue) list"
  assumes "fields_shaped F m" and "key_ordered m"
  shows "map_of (attribute_map (xml_attributes F m)) k = (if prefix ''@'' k then map_of m k else None)"
proof -
  have d: "distinct (map fst (filter (\<lambda>(k, v). prefix ''@'' k) m))"
    using distinct_keys [OF assms(2)] by (simp add: distinct_map_filter)
  have "map_of (attribute_map (xml_attributes F m)) k = map_of (rev (filter (\<lambda>(k, v). prefix ''@'' k) m)) k"
    using attribute_map_of [of "[] :: (bytes \<times> 'n jvalue) list" "xml_attributes F m" k]
    unfolding attribute_map_def written_attributes [OF assms(1)] by (simp split: option.splits)
  with d show ?thesis by (simp add: map_of_rev_distinct map_of_filter_prefix)
qed

lemma shaped_text:
  "fields_shaped F m \<Longrightarrow> map_of m ''#text'' = Some v \<Longrightarrow> \<exists>s. v = JText s \<and> s \<noteq> [] \<and> trim s = s"
  by (induction m) (auto split: if_splits jvalue.splits)

lemma shaped_repeated:
  "fields_shaped F m \<Longrightarrow> list_all (\<lambda>(k, v). \<not> not_element k \<longrightarrow> repeated_shaped F v) m"
  by (induction m) (auto simp: not_element_def)

subsection \<open>One element\<close>

definition opened :: "('n, 'f, 'd) formats \<Rightarrow> bytes \<Rightarrow> (bytes \<times> 'n jvalue) list \<Rightarrow> bytes \<Rightarrow> 'n stack_entry" where
  "opened F n m t =
     \<lparr>se_name = n, se_children = foldl insert_field (attribute_map (xml_attributes F m)) m, se_text = t\<rparr>"

lemma trim_Nil: "trim [] = []"
  by (simp add: trim_def drop_end_def)

text \<open>At its end an element with the fields of \<open>m\<close> is \<open>m\<close> again.\<close>

lemma element_value_opened:
  assumes "xml_shaped F (JObject m)"
  shows "element_value (opened F n m (case map_of m ''#text'' of Some (JText t) \<Rightarrow> t | _ \<Rightarrow> [])) = JObject m"
proof -
  let ?c = "foldl insert_field (attribute_map (xml_attributes F m)) m"
  from assms have m: "key_ordered m" "fields_shaped F m" and ex: "\<exists>(k, v)\<in>set m. k \<noteq> ''#text''"
    by (auto simp: list_ex_iff)
  have c: "map_of ?c k = (if k = ''#text'' then None else map_of m k)" for k
    using insert_fields [OF m(1) shaped_repeated [OF m(2)], of "attribute_map (xml_attributes F m)"]
      read_attributes [OF m(2,1)]
    by (auto simp: not_element_def split: option.splits)
  have ord: "key_ordered ?c" by (simp add: key_ordered_insert_fields)
  from ex obtain k v where "(k, v) \<in> set m" "k \<noteq> ''#text''" by auto
  with distinct_keys [OF m(1)] c [of k] have "map_of ?c k \<noteq> None" by simp
  then have ne: "?c \<noteq> []" by force
  show ?thesis
  proof (cases "map_of m ''#text''")
    case None
    with c have "map_of ?c = map_of m" by (auto simp: fun_eq_iff)
    with key_ordered_ext [OF ord m(1)] ne None show ?thesis
      by (simp add: element_value_def opened_def trim_Nil)
  next
    case (Some v)
    with shaped_text [OF m(2) Some] obtain s where s: "v = JText s" "s \<noteq> []" "trim s = s" by blast
    have "map_of (map_put ''#text'' (JText s) ?c) = map_of m"
      using c Some s(1) by (auto simp: fun_eq_iff)
    with key_ordered_ext [of "map_put ''#text'' (JText s) ?c" m] ord m(1) ne Some s show ?thesis
      by (simp add: element_value_def opened_def)
  qed
qed

text \<open>Reading what was written for a value delivers the value.\<close>

lemma read_written:
  shows "(\<And>s. fm_unescape F (fm_escape F s) = Some s) \<Longrightarrow> utf8_valid n \<Longrightarrow> repeated_shaped F v \<Longrightarrow>
      xml_loop F (map Inr (xml_element F n v) @ rest) s = xml_loop F rest (deliver_all n v s)"
    and "(\<And>s. fm_unescape F (fm_escape F s) = Some s) \<Longrightarrow> utf8_valid n \<Longrightarrow> items_shaped F vs \<Longrightarrow>
      xml_loop F (map Inr (xml_items F n vs) @ rest) s = xml_loop F rest (foldl (\<lambda>s v. deliver n v s) s vs)"
    and "(\<And>s. fm_unescape F (fm_escape F s) = Some s) \<Longrightarrow> fields_shaped F m \<Longrightarrow>
      xml_loop F (map Inr (xml_fields F m) @ rest) s = xml_loop F rest (foldl deliver_field s m)"
proof (induction F n v and F n vs and F m arbitrary: rest s and rest s and rest s
    rule: xml_element_xml_items_xml_fields.induct)
  case (1 F n m)
  obtain st root where s: "s = (st, root)" by fastforce
  let ?a = "attribute_map (xml_attributes F m)" and ?t = "case map_of m ''#text'' of Some (JText t) \<Rightarrow> t | _ \<Rightarrow> []"
  let ?e = "\<lparr>se_name = n, se_children = ?a, se_text = ?t\<rparr>"
  have shaped: "fields_shaped F m" using 1 by simp
  have "xml_loop F (map Inr (xml_element F n (JObject m)) @ rest) s
    = xml_loop F (map Inr (xml_fields F m) @ Inr (XEnd n) # rest) (?e # st, root)"
    using shaped_text [OF shaped] s
    by (cases "map_of m ''#text''") (auto simp: xml_text_def 1(2) from_utf8_lossy_valid [OF 1(3)])
  also have "\<dots> = xml_loop F (Inr (XEnd n) # rest) (opened F n m ?t # st, root)"
    using 1(1) [OF 1(2) shaped] by (simp add: deliver_fields_top opened_def)
  also have "\<dots> = xml_loop F rest (deliver_all n (JObject m) s)"
    using element_value_opened [of F m n] 1(4) s by (simp add: opened_def)
  finally show ?case .
next
  case (3 F n t)
  then show ?case
    by (cases s) (auto simp: from_utf8_lossy_valid element_value_def attribute_map_def)
next
  case (6 F n)
  then show ?case by (cases s) (auto simp: from_utf8_lossy_valid)
next
  case (8 F n v vs)
  then have "deliver_all n v s = deliver n v s" by (cases v) auto
  with 8 show ?case by (cases v) auto
next
  case (10 F k v m)
  then show ?case by (auto simp: deliver_field_def not_element_def split: if_splits)
qed auto

section \<open>Documents\<close>

lemma deliver_field_document:
  assumes "list_all (\<lambda>(k, v). utf8_valid k \<and> repeated_shaped F v) m"
    and "\<And>s. fm_unescape F (fm_escape F s) = Some s"
  shows "xml_loop F (map Inr (concat (map (\<lambda>(k, v). xml_element F k v) m)) @ rest) ([], root)
    = xml_loop F rest ([], foldl (\<lambda>r (k, v). insert_all r k v) root m)"
  using assms
proof (induction m arbitrary: root)
  case (Cons kv m)
  obtain k v where kv: "kv = (k, v)" by fastforce
  with Cons have "utf8_valid k" "repeated_shaped F v" by auto
  from read_written(1) [OF Cons.prems(2) this] Cons kv show ?case by (simp add: deliver_all_root)
qed simp

lemma insert_document:
  assumes "key_ordered m" and "list_all (\<lambda>(k, v). utf8_valid k \<and> repeated_shaped F v) m"
    and "\<forall>k. map_of m k \<noteq> None \<longrightarrow> map_of c k = None"
  shows "map_of (foldl (\<lambda>r (k, v). insert_all r k v) c m) = map_of c ++ map_of m"
  using assms
proof (induction m arbitrary: c)
  case (Cons kv m)
  obtain k v where kv: "kv = (k, v)" by fastforce
  have ord: "key_ordered m" and fresh: "map_of m k = None"
    using Cons.prems(1) kv key_ordered_fresh by (auto simp: key_ordered_Cons)
  have new: "map_of (insert_all c k v) = (map_of c)(k \<mapsto> v)"
    using Cons.prems kv by (intro insert_all_fresh) auto
  with Cons.IH [OF ord, of "insert_all c k v"] Cons.prems kv fresh show ?case
    by (auto simp: fun_eq_iff map_add_def split: option.splits)
qed simp

lemma key_ordered_document: "key_ordered c \<Longrightarrow> key_ordered (foldl (\<lambda>r (k, v). insert_all r k v) c m)"
  by (induction m arbitrary: c) auto

section \<open>Properties\<close>

text \<open>Claim C3: JSON survives the way through XML: a value with the shape of a document (elements that
  are null, trimmed text or objects; attributes whose values need no escape; repeated elements as
  arrays of two or more) is written as a document from which exactly that value is read, when the
  crate reads the events it has written and unescapes what it has escaped.\<close>

theorem xml_round_trip:
  assumes "document_shaped F m"
    and "\<And>s. fm_unescape F (fm_escape F s) = Some s"
    and "utf8_valid (fm_document F (xml_document F (JObject m)))"
    and "fm_events F (fm_document F (xml_document F (JObject m))) = map Inr (xml_document F (JObject m))"
  shows "\<exists>t. json_to_xml F (JObject m) = Inr t \<and> xml_to_json F t = Inr (JObject m)"
proof -
  let ?d = "foldl (\<lambda>r (k, v). insert_all r k v) [] m"
  have m: "key_ordered m" "list_all (\<lambda>(k, v). utf8_valid k \<and> repeated_shaped F v) m"
    using assms(1) by (auto simp: document_shaped_def)
  have "xml_to_json F (fm_document F (xml_document F (JObject m))) = Inr (JObject ?d)"
    using deliver_field_document [OF m(2) assms(2), of "[]" "[]"]
    by (simp add: xml_to_json_def assms(4)) (simp add: xml_document_def)
  moreover have "?d = m"
    using insert_document [OF m, of "[]"] key_ordered_document [OF key_ordered_Nil] m(1)
    by (intro key_ordered_ext) (simp_all add: fun_eq_iff)
  ultimately show ?thesis using assms(3) by (simp add: json_to_xml_def)
qed

definition demo_value :: "(bytes \<times> nat jvalue) list" where
  "demo_value = [(''a'', JObject [(''#text'', JText ''hi''), (''@x'', JText ''1''),
     (''b'', JArray [JText ''p q'', JNull])]), (''c'', JNull)]"

definition demo_events :: "xml_event list" where
  "demo_events = [XStart ''a'' [(''x'', ''1'')], XText ''hi'', XStart ''b'' [], XText ''p q'', XEnd ''b'',
     XEmpty ''b'' [], XEnd ''a'', XEmpty ''c'' []]"

definition demo_document :: bytes where
  "demo_document = ''<a x=1>hi<b>p q</b><b/></a><c/>''"

definition demo_formats :: "(nat, unit, unit) formats" where
  "demo_formats = \<lparr>fm_i64 = \<lambda>n. None, fm_f64 = \<lambda>n. None, fm_of_i64 = \<lambda>i. 0, fm_of_f64 = \<lambda>x. None,
     fm_number = \<lambda>n. [], fm_date = \<lambda>d. [], fm_yaml_read = \<lambda>s. Inl [], fm_yaml_print = \<lambda>v. Inl [],
     fm_toml_read = \<lambda>s. Inl [], fm_toml_print = \<lambda>t. Inl [],
     fm_events = \<lambda>s. if s = demo_document then map Inr demo_events else [],
     fm_escape = \<lambda>s. s, fm_unescape = Some,
     fm_document = \<lambda>es. if es = demo_events then demo_document else [],
     fm_utf8_error = \<lambda>s. []\<rparr>"

lemma xml_round_trip_witness:
  "\<exists>t. json_to_xml demo_formats (JObject demo_value) = Inr t \<and> xml_to_json demo_formats t = Inr (JObject demo_value)"
proof (rule xml_round_trip)
  show "document_shaped demo_formats demo_value" by code_simp
  show "fm_unescape demo_formats (fm_escape demo_formats s) = Some s" for s by (simp add: demo_formats_def)
  have d: "xml_document demo_formats (JObject demo_value) = demo_events" by code_simp
  then show "utf8_valid (fm_document demo_formats (xml_document demo_formats (JObject demo_value)))"
    by (simp add: demo_formats_def demo_document_def utf8_valid_ascii byte_def)
  from d show "fm_events demo_formats (fm_document demo_formats (xml_document demo_formats (JObject demo_value)))
    = map Inr (xml_document demo_formats (JObject demo_value))"
    by (simp add: demo_formats_def)
qed

text \<open>An attribute that needs an escape is not read back: the writer escapes its value and the reader
  keeps the value as it stands in the document.\<close>

lemma attribute_stays_escaped:
  assumes "utf8_valid (fm_escape F s)"
  shows "xml_loop F (map Inr (xml_element F ''a'' (JObject [(''@x'', JText s)]))) ([], [])
    = Inr (JObject [(''a'', JObject [(''@x'', JText (fm_escape F s))])])"
  using assms
  by (simp add: xml_attributes_def map_filter_simps xml_text_def not_element_def attribute_map_def element_value_def
      insert_or_array_def trim_Nil from_utf8_lossy_valid utf8_valid_ascii byte_def)

text \<open>A document cut off inside an element is read without an error, and what the element held is lost.\<close>

lemma unclosed_element_lost:
  assumes "\<And>s. fm_unescape F (fm_escape F s) = Some s" and "utf8_valid k" and "repeated_shaped F v"
  shows "xml_loop F (Inr (XStart n attrs) # map Inr (xml_element F k v)) ([], []) = Inr (JObject [])"
  using read_written(1) [OF assms, of "[]"] by (simp add: deliver_all_top)

section \<open>TOML\<close>

text \<open>The numbers of a value: integers or floats, as the crates convert them back.\<close>

definition number_kept :: "('n, 'f, 'd) formats \<Rightarrow> 'n \<Rightarrow> bool" where
  "number_kept F n \<longleftrightarrow>
     (case fm_i64 F n of
        Some i \<Rightarrow> fm_of_i64 F i = n
      | None \<Rightarrow> (case fm_f64 F n of Some x \<Rightarrow> fm_of_f64 F x = Some n | None \<Rightarrow> True))"

fun tomlable :: "('n, 'f, 'd) formats \<Rightarrow> 'n jvalue \<Rightarrow> bool"
  and items_tomlable :: "('n, 'f, 'd) formats \<Rightarrow> 'n jvalue list \<Rightarrow> bool"
  and table_tomlable :: "('n, 'f, 'd) formats \<Rightarrow> (bytes \<times> 'n jvalue) list \<Rightarrow> bool" where
  "tomlable F (JNumber n) = number_kept F n"
| "tomlable F (JArray vs) = items_tomlable F vs"
| "tomlable F (JObject m) \<longleftrightarrow> key_ordered m \<and> table_tomlable F m"
| "tomlable F v = True"
| "items_tomlable F [] = True"
| "items_tomlable F (v # vs) \<longleftrightarrow> tomlable F v \<and> items_tomlable F vs"
| "table_tomlable F [] = True"
| "table_tomlable F ((k, v) # m) \<longleftrightarrow> tomlable F v \<and> table_tomlable F m"

lemma toml_table_map:
  "distinct (map fst kvs) \<Longrightarrow>
     map_of (toml_table F c kvs) = map_of c ++ (\<lambda>k. map_option (toml_to_json F) (map_of kvs k))"
proof (induction kvs arbitrary: c)
  case (Cons kv kvs)
  obtain k t where kv: "kv = (k, t)" by fastforce
  with Cons have "map_of kvs k = None" by (auto simp: map_of_eq_None_iff)
  with Cons kv show ?case by (auto simp: fun_eq_iff map_add_def split: option.splits)
qed simp

lemma key_ordered_toml_table: "key_ordered c \<Longrightarrow> key_ordered (toml_table F c kvs)"
  by (induction kvs arbitrary: c) auto

lemma key_ordered_json_table: "json_table F c kvs = Inr m \<Longrightarrow> key_ordered c \<Longrightarrow> key_ordered m"
  by (induction kvs arbitrary: c) (auto split: sum.splits)

lemma json_to_toml_back:
  "json_to_toml F v = Inr t \<Longrightarrow> tomlable F v \<Longrightarrow> toml_to_json F t = v"
  "json_items F vs = Inr ts \<Longrightarrow> items_tomlable F vs \<Longrightarrow> toml_items F ts = vs"
  "json_table F c kvs = Inr m \<Longrightarrow> table_tomlable F kvs \<Longrightarrow> distinct (map fst kvs) \<Longrightarrow>
     map_option (toml_to_json F) (map_of m k)
     = (case map_of kvs k of Some v \<Rightarrow> Some v | None \<Rightarrow> map_option (toml_to_json F) (map_of c k))"
proof (induction F v and F vs and F c kvs arbitrary: t and ts and m k
    rule: json_to_toml_json_items_json_table.induct)
  case (3 F n)
  then show ?case by (auto simp: number_kept_def split: option.splits)
next
  case (6 F kvs)
  then obtain m where m: "json_table F [] kvs = Inr m" "t = TTable m"
    by (cases "json_table F [] kvs") auto
  have ord: "key_ordered kvs" "table_tomlable F kvs" using 6(3) by auto
  have "map_option (toml_to_json F) (map_of m k) = map_of kvs k" for k
    using 6(1) [OF m(1) ord(2) distinct_keys [OF ord(1)], of k] by (simp split: option.splits)
  moreover have "distinct (map fst m)"
    using distinct_keys key_ordered_json_table [OF m(1)] by simp
  ultimately have "map_of (toml_table F [] m) = map_of kvs"
    by (simp add: toml_table_map fun_eq_iff)
  with ord(1) key_ordered_toml_table [of "[]" F m] key_ordered_ext m(2) show ?case by simp
next
  case (5 F vs)
  then show ?case by (cases "json_items F vs") auto
next
  case (8 F v vs)
  then show ?case by (cases "json_items F vs") (auto split: sum.splits)
next
  case (10 F c k' v kvs)
  then obtain t where t: "json_to_toml F v = Inr t" "json_table F (map_put k' t c) kvs = Inr m"
    by (auto split: sum.splits)
  have fresh: "map_of kvs k' = None" using 10(5) by (auto simp: map_of_eq_None_iff)
  have "toml_to_json F t = v" using 10(1) [OF t(1)] 10(4) by simp
  with 10(2) [OF t(1) t(2), of k] 10(4,5) fresh show ?case by (auto split: option.splits)
qed auto

text \<open>A value whose numbers the crates convert back survives the way to TOML and back, when it has one.\<close>

lemma toml_round_trip:
  "json_to_toml F v = Inr t \<Longrightarrow> tomlable F v \<Longrightarrow> toml_to_json F t = v"
  by (rule json_to_toml_back(1))

text \<open>An integer that is not an \<open>i64\<close> becomes a float without a word.\<close>

lemma large_integer_becomes_float:
  "fm_i64 F n = None \<Longrightarrow> fm_f64 F n = Some x \<Longrightarrow> json_to_toml F (JNumber n) = Inr (TFloat x)"
  by simp

end
