(* ===== verification/Awk_Cmd.thy ===== *)
theory Awk_Cmd
  imports RustStr
begin

text \<open>
  The \<open>awk\<close> command (\<open>libs/awk/src/lib.rs\<close>): the arguments and the order in which the interpreter is set
  up and run.  The \<open>awk-rs\<close> crate is a parameter: its interpreter is a state that the operations change.
\<close>

section \<open>Arguments\<close>

record awk_options =
  aw_separator :: bytes
  aw_source :: "bytes option"
  aw_files :: "bytes list"
  aw_variables :: "(bytes \<times> bytes) list"

definition awk_defaults :: awk_options where
  "awk_defaults = \<lparr>aw_separator = '' '', aw_source = None, aw_files = [], aw_variables = []\<rparr>"

text \<open>Files are read by \<open>read_file\<close>, which gives the text or an error.\<close>

fun awk_args :: "(bytes \<Rightarrow> bytes + bytes) \<Rightarrow> bytes list \<Rightarrow> awk_options \<Rightarrow> bytes + awk_options" where
  "awk_args read_file [] s = Inr s"
| "awk_args read_file (a # rest) s =
     (if a = ''--'' then Inr (s\<lparr>aw_files := aw_files s @ rest\<rparr>)
      else if a = ''-F'' then
        (case rest of
           [] \<Rightarrow> Inl ''option -F requires an argument''
         | x # rest' \<Rightarrow> awk_args read_file rest' (s\<lparr>aw_separator := x\<rparr>))
      else if prefix ''-F'' a then awk_args read_file rest (s\<lparr>aw_separator := drop 2 a\<rparr>)
      else if a = ''-v'' then
        (case rest of
           [] \<Rightarrow> Inl ''option -v requires an argument''
         | x # rest' \<Rightarrow>
             (case split_once CHR ''='' x of
                Some nv \<Rightarrow> awk_args read_file rest' (s\<lparr>aw_variables := aw_variables s @ [nv]\<rparr>)
              | None \<Rightarrow> Inl (''invalid variable assignment: '' @ x)))
      else if a = ''-f'' then
        (case rest of
           [] \<Rightarrow> Inl ''option -f requires an argument''
         | x # rest' \<Rightarrow>
             (case read_file x of
                Inr t \<Rightarrow> awk_args read_file rest' (s\<lparr>aw_source := Some t\<rparr>)
              | Inl e \<Rightarrow> Inl (x @ '': '' @ e)))
      else if prefix ''-'' a \<and> a \<noteq> ''-'' then awk_args read_file rest s
      else if aw_source s = None then awk_args read_file rest (s\<lparr>aw_source := Some a\<rparr>)
      else awk_args read_file rest (s\<lparr>aw_files := aw_files s @ [a]\<rparr>))"

section \<open>The interpreter\<close>

text \<open>Tokens, parsing, a new interpreter for a program, its settings, and a run over one input: its
  exit status or an error, what it printed, and what is left of the input.\<close>

record ('t, 'p, 'i) awk_crate =
  ac_tokens :: "bytes \<Rightarrow> bytes + 't"
  ac_parse :: "'t \<Rightarrow> bytes + 'p"
  ac_new :: "'p \<Rightarrow> 'i"
  ac_separator :: "bytes \<Rightarrow> 'i \<Rightarrow> 'i"
  ac_args :: "bytes list \<Rightarrow> 'i \<Rightarrow> 'i"
  ac_variable :: "bytes \<times> bytes \<Rightarrow> 'i \<Rightarrow> 'i"
  ac_filename :: "bytes \<Rightarrow> 'i \<Rightarrow> 'i"
  ac_run :: "bytes \<Rightarrow> 'i \<Rightarrow> (bytes + int) \<times> bytes \<times> 'i \<times> bytes"

definition awk_program :: "('t, 'p, 'i) awk_crate \<Rightarrow> awk_options \<Rightarrow> bytes + 'i" where
  "awk_program C s =
     (case aw_source s of
        None \<Rightarrow> Inl ''no program provided''
      | Some src \<Rightarrow>
          (case ac_tokens C src of
             Inl e \<Rightarrow> Inl e
           | Inr ts \<Rightarrow>
               (case ac_parse C ts of
                  Inl e \<Rightarrow> Inl e
                | Inr p \<Rightarrow> Inr (fold (ac_variable C) (aw_variables s)
                             (ac_args C (''awk'' # aw_files s) (ac_separator C (aw_separator s) (ac_new C p)))))))"

text \<open>Every file is a run of its own; the status is that of the last.  \<open>open_file\<close> gives the contents.\<close>

fun awk_files ::
  "('t, 'p, 'i) awk_crate \<Rightarrow> (bytes \<Rightarrow> bytes + bytes) \<Rightarrow> bytes \<Rightarrow> bytes list \<Rightarrow> int \<Rightarrow> 'i \<Rightarrow> bytes \<times> (bytes + int)" where
  "awk_files C open_file stdin [] code i = ([], Inr code)"
| "awk_files C open_file stdin (f # fs) code i =
     (let i1 = ac_filename C (if f = ''-'' then [] else f) i in
      case (if f = ''-'' then Inr stdin else open_file f) of
        Inl e \<Rightarrow> ([], Inl (f @ '': '' @ e))
      | Inr data \<Rightarrow>
          (case ac_run C data i1 of
             (Inl e, out, i2, left) \<Rightarrow> (out, Inl e)
           | (Inr c, out, i2, left) \<Rightarrow>
               (let (out', r) = awk_files C open_file (if f = ''-'' then left else stdin) fs c i2 in (out @ out', r))))"

definition run_awk ::
  "('t, 'p, 'i) awk_crate \<Rightarrow> (bytes \<Rightarrow> bytes + bytes) \<Rightarrow> (bytes \<Rightarrow> bytes + bytes) \<Rightarrow> bytes list \<Rightarrow> bytes
     \<Rightarrow> bytes \<times> (bytes + int)" where
  "run_awk C read_file open_file args stdin =
     (case awk_args read_file args awk_defaults of
        Inl e \<Rightarrow> ([], Inl e)
      | Inr s \<Rightarrow>
          (case awk_program C s of
             Inl e \<Rightarrow> ([], Inl e)
           | Inr i \<Rightarrow>
               (if aw_files s = []
                then (case ac_run C stdin i of (r, out, i', left) \<Rightarrow> (out, r))
                else awk_files C open_file stdin (aw_files s) 0 i)))"

definition awk_main ::
  "('t, 'p, 'i) awk_crate \<Rightarrow> (bytes \<Rightarrow> bytes + bytes) \<Rightarrow> (bytes \<Rightarrow> bytes + bytes) \<Rightarrow> bytes list \<Rightarrow> bytes
     \<Rightarrow> int \<times> bytes \<times> bytes list" where
  "awk_main C read_file open_file argv stdin =
     (case run_awk C read_file open_file (map from_utf8_lossy (tl argv)) stdin of
        (out, Inr code) \<Rightarrow> (code, out, [])
      | (out, Inl e) \<Rightarrow> (2, out, [''awk: '' @ e]))"

section \<open>Facts\<close>

text \<open>The program of \<open>-f\<close> replaces one given before it, which is then lost.\<close>

lemma awk_file_replaces_program:
  assumes "read_file f = Inr t" and "\<not> prefix ''-'' p"
  shows "map_sum id aw_source (awk_args read_file [p, ''-f'', f] awk_defaults) = Inr (Some t)"
proof -
  have p: "p \<noteq> ''--''" "p \<noteq> ''-F''" "\<not> prefix ''-F'' p" "p \<noteq> ''-v''" "p \<noteq> ''-f''"
    using assms(2) by (auto simp: prefix_def)
  have "awk_args read_file [p, ''-f'', f] awk_defaults
    = awk_args read_file [''-f'', f] (awk_defaults\<lparr>aw_source := Some p\<rparr>)"
    using p assms(2) by (simp add: awk_defaults_def)
  then show ?thesis using assms(1) by simp
qed

end
