(* ===== verification/Sandbox_Apps.thy ===== *)
theory Sandbox_Apps
  imports Wasi_Http
begin

text \<open>
  The small programs of the sandbox: the commands that only say they are not supported
  (\<open>libs/stubs/src/lib.rs\<close>), the HTTP test program (\<open>commands/http-test/src/main.rs\<close>) with the two
  convenience functions of the HTTP client, and the two placeholder agents (\<open>commands/codex\<close>,
  \<open>commands/codex-exec\<close>).  The layout of the terminal and its library are not modelled; reading an event
  is a parameter.
\<close>

section \<open>Commands that cannot run in the sandbox\<close>

text \<open>\<open>Path::new(a).file_name()\<close> of the program name.\<close>

definition stub_name :: "bytes list \<Rightarrow> bytes" where
  "stub_name args =
     (case args of
        [] \<Rightarrow> ''_stubs''
      | a # as \<Rightarrow> (case file_name a of Some n \<Rightarrow> n | None \<Rightarrow> ''_stubs''))"

definition stub_messages :: "(bytes list \<times> bytes) list" where
  "stub_messages =
     [([''chcon'', ''runcon''], ''SELinux is not supported in WASM''),
      ([''chgrp'', ''chown''], ''user/group ownership changes are not supported in WASM''),
      ([''chroot''], ''not supported in WASM (no filesystem root change)''),
      ([''df''], ''filesystem stats are not available in WASM''),
      ([''groups'', ''id''], ''user database queries are not supported in WASM''),
      ([''install''], ''file permission management not fully supported in WASM''),
      ([''kill''], ''process signals are not supported in WASM''),
      ([''mkfifo'', ''mknod''], ''special file creation is not supported in WASM''),
      ([''pinky'', ''who'', ''users'', ''uptime''], ''login records (utmp) are not available in WASM''),
      ([''stty''], ''terminal control is not supported in WASM'')]"

definition run_stub :: "bytes list \<Rightarrow> int \<times> out_line list" where
  "run_stub args =
     (let cmd = stub_name args in
      if cmd = ''hostname'' then (0, [StdOut ''wasm-host''])
      else if cmd = ''hostid'' then (0, [StdOut ''00000000''])
      else if cmd = ''sync'' then (0, [])
      else if cmd = ''tty'' then (1, [StdErr ''not a tty''])
      else (case find (\<lambda>(names, msg). cmd \<in> set names) stub_messages of
              Some (names, msg) \<Rightarrow> (1, [StdErr (cmd @ '': '' @ msg)])
            | None \<Rightarrow> (1, [StdErr (cmd @ '': command not supported in sandbox'')])))"

section \<open>The HTTP test program\<close>

fun show_http_err :: "http_err \<Rightarrow> bytes" where
  "show_http_err (InvalidUrl m) = ''invalid URL: '' @ m"
| "show_http_err (Dns m) = ''DNS error: '' @ m"
| "show_http_err (Socket m) = ''socket error: '' @ m"
| "show_http_err (Tls m) = ''TLS error: '' @ m"
| "show_http_err (Protocol m) = ''protocol error: '' @ m"
| "show_http_err (Io m) = ''I/O error: '' @ m"

definition http_get :: "err_texts \<Rightarrow> 'w host \<Rightarrow> bytes \<Rightarrow> 'w \<Rightarrow> (http_response outcome \<times> 'w) option" where
  "http_get T H u w =
     (case new_request Get u of Inl e \<Rightarrow> Some (Fail e, w) | Inr r \<Rightarrow> http_send T H r w)"

definition http_post_json ::
  "err_texts \<Rightarrow> 'w host \<Rightarrow> bytes \<Rightarrow> bytes \<Rightarrow> 'w \<Rightarrow> (http_response outcome \<times> 'w) option" where
  "http_post_json T H u j w =
     (case new_request Post u of Inl e \<Rightarrow> Some (Fail e, w) | Inr r \<Rightarrow> http_send T H (json_body j r) w)"

text \<open>The status, then the body as text: lines written, and how it ends.\<close>

definition show_response :: "err_texts \<Rightarrow> http_response outcome \<Rightarrow> out_line list \<times> unit outcome" where
  "show_response T out =
     (case out of
        Done r \<Rightarrow>
          (let l = StdOut (''status: '' @ show_nat (hr_status r)) in
           case response_text T r of
             Inr t \<Rightarrow> ([l, StdOut (''body: '' @ t)], Done ())
           | Inl e \<Rightarrow> ([l], Fail e))
      | Fail e \<Rightarrow> ([], Fail e)
      | Panic \<Rightarrow> ([], Panic))"

text \<open>\<open>name:value\<close> arguments; those without a colon are dropped.\<close>

fun add_headers :: "bytes list \<Rightarrow> request \<Rightarrow> request" where
  "add_headers [] r = r"
| "add_headers (h # hs) r =
     add_headers hs (case split_once CHR '':'' h of
                       Some (n, v) \<Rightarrow> r\<lparr>rq_headers := rq_headers r @ [(trim n, trim v)]\<rparr> | None \<Rightarrow> r)"

definition show_event :: "sse_event \<Rightarrow> out_line list" where
  "show_event e =
     (case se_event e of Some t \<Rightarrow> [StdOut (''event: '' @ t)] | None \<Rightarrow> [])
     @ [StdOut (''data: '' @ se_data e)]
     @ (case se_id e of Some i \<Rightarrow> [StdOut (''id: '' @ i)] | None \<Rightarrow> []) @ [StdOut []]"

text \<open>Events until the stream ends; \<open>None\<close> is a stream without end.\<close>

partial_function (option) show_events ::
  "err_texts \<Rightarrow> 'w host \<Rightarrow> out_line list \<Rightarrow> sse_reader \<Rightarrow> 'w
     \<Rightarrow> ((out_line list \<times> unit outcome) \<times> 'w) option" where
  "show_events T H acc s w =
     (case sse_next T (hs_recv H (sr_fd s)) s w of
        None \<Rightarrow> None
      | Some (Done (Some e), s1, w1) \<Rightarrow> show_events T H (acc @ show_event e) s1 w1
      | Some (Done None, s1, w1) \<Rightarrow> Some ((acc, Done ()), hs_close H (sr_fd s1) w1)
      | Some (Fail e, s1, w1) \<Rightarrow> Some ((acc, Fail e), w1)
      | Some (Panic, s1, w1) \<Rightarrow> Some ((acc, Panic), w1))"

definition do_headers :: "err_texts \<Rightarrow> 'w host \<Rightarrow> bytes \<Rightarrow> bytes list \<Rightarrow> 'w \<Rightarrow> (http_response outcome \<times> 'w) option" where
  "do_headers T H u hs w =
     (case new_request Get u of Inl e \<Rightarrow> Some (Fail e, w) | Inr r \<Rightarrow> http_send T H (add_headers hs r) w)"

definition do_sse ::
  "err_texts \<Rightarrow> 'w host \<Rightarrow> bytes \<Rightarrow> 'w \<Rightarrow> ((out_line list \<times> unit outcome) \<times> 'w) option" where
  "do_sse T H u w =
     (case new_request Get u of
        Inl e \<Rightarrow> Some (([], Fail e), w)
      | Inr r \<Rightarrow>
          Option.bind (http_send_sse T H (add_header ''Accept'' ''text/event-stream'' r) w)
            (\<lambda>(out, w1).
               case out of
                 Done (resp, reader) \<Rightarrow>
                   show_events T H [StdOut (''status: '' @ show_nat (hr_status resp))] reader w1
               | Fail e \<Rightarrow> Some (([], Fail e), w1)
               | Panic \<Rightarrow> Some (([], Panic), w1)))"

definition http_test_usage :: "out_line list" where
  "http_test_usage =
     (let dash = [CHR '' '', CHR 0xE2, CHR 0x80, CHR 0x94, CHR '' ''] in
      [StdErr ''usage: http-test <command> <url> [args...]'',
       StdErr (''  get <url>             '' @ dash @ ''GET request, print body''),
       StdErr (''  post <url> <json>     '' @ dash @ ''POST with JSON body''),
       StdErr (''  headers <url> <h:v>...'' @ dash @ ''GET with custom headers''),
       StdErr (''  sse <url>             '' @ dash @ ''Stream SSE events'')])"

text \<open>The end of the program: a failure adds a line and makes the status 1.\<close>

definition test_end :: "out_line list \<times> unit outcome \<Rightarrow> run" where
  "test_end r =
     (case r of
        (ls, Done _) \<Rightarrow> Exit 0 ls
      | (ls, Fail e) \<Rightarrow> Exit 1 (ls @ [StdErr (''error: '' @ show_http_err e)])
      | (ls, Panic) \<Rightarrow> Crash)"

definition http_test_main :: "err_texts \<Rightarrow> 'w host \<Rightarrow> bytes list \<Rightarrow> 'w \<Rightarrow> (run \<times> 'w) option" where
  "http_test_main T H argv w =
     (case argv of
        prog # command # u # rest \<Rightarrow>
          (if command = ''get'' then
             map_option (map_prod (test_end \<circ> show_response T) id) (http_get T H u w)
           else if command = ''post'' then
             map_option (map_prod (test_end \<circ> show_response T) id)
               (http_post_json T H u (case rest of j # js \<Rightarrow> j | [] \<Rightarrow> ''{}'') w)
           else if command = ''headers'' then
             map_option (map_prod (test_end \<circ> show_response T) id) (do_headers T H u rest w)
           else if command = ''sse'' then map_option (map_prod test_end id) (do_sse T H u w)
           else Some (Exit 1 [StdErr (''unknown command: '' @ command)], w))
      | _ \<Rightarrow> Some (Exit 1 http_test_usage, w))"

section \<open>The placeholder agents\<close>

text \<open>\<open>--http-test\<close> of both: a body that is not text is only reported.\<close>

definition agent_http_test :: "bytes \<Rightarrow> err_texts \<Rightarrow> 'w host \<Rightarrow> bytes list \<Rightarrow> 'w \<Rightarrow> (run \<times> 'w) option" where
  "agent_http_test prog T H args w =
     (case args of
        [] \<Rightarrow> Some (Exit 1 [StdErr (''usage: '' @ prog @ '' --http-test <url>'')], w)
      | u # us \<Rightarrow>
          map_option (map_prod (\<lambda>out.
              case out of
                Done r \<Rightarrow> Exit 0 [StdOut (''status: '' @ show_nat (hr_status r)),
                   (case response_text T r of
                      Inr t \<Rightarrow> StdOut (''body: '' @ t)
                    | Inl e \<Rightarrow> StdErr (''body decode error: '' @ show_http_err e))]
              | Fail e \<Rightarrow> Exit 1 [StdErr (''http error: '' @ show_http_err e)]
              | Panic \<Rightarrow> Crash) id) (http_get T H u w))"

text \<open>The stubs it tries do nothing, so the test always succeeds.\<close>

definition stub_test :: "out_line list" where
  "stub_test =
     [StdOut ''network-proxy: NetworkProxy is zero-size, apply_to_env is no-op'',
      StdOut ''otel: SessionTelemetry metrics are no-ops'',
      StdOut ''otel: global() returns None (no exporter on WASI)'',
      StdOut ''stub-test: all stubs validated successfully'']"

definition codex_exec_help :: "bytes \<Rightarrow> bytes list" where
  "codex_exec_help version =
     [''codex-exec '' @ version @ '' '' @ [CHR 0xE2, CHR 0x80, CHR 0x94] @ '' headless Codex agent for secure-exec WasmVM'',
      [],
      ''USAGE:'',
      ''    codex-exec [OPTIONS] [PROMPT]'',
      ''    echo '' @ [CHR 0x27] @ ''<prompt>'' @ [CHR 0x27] @ '' | codex-exec'',
      [],
      ''OPTIONS:'',
      ''    -h, --help       Print this help message'',
      ''    -V, --version    Print version information'',
      ''    --http-test URL  Test HTTP client via host_net'',
      ''    --stub-test      Validate WASI stub crates'',
      [],
      ''DESCRIPTION:'',
      ''    Headless (non-TUI) entry point for the Codex agent.'',
      ''    Takes a prompt on stdin or as a CLI argument and'',
      ''    runs the agent loop without a terminal UI.'']"

text \<open>Standard input is its text, or why it cannot be read.\<close>

definition codex_exec_main ::
  "bytes \<Rightarrow> err_texts \<Rightarrow> 'w host \<Rightarrow> bytes + bytes \<Rightarrow> bytes list \<Rightarrow> 'w \<Rightarrow> (run \<times> 'w) option" where
  "codex_exec_main version T H stdin argv w =
     (if ''--help'' \<in> set argv \<or> ''-h'' \<in> set argv then Some (Exit 0 (map StdOut (codex_exec_help version)), w)
      else if ''--version'' \<in> set argv \<or> ''-V'' \<in> set argv
      then Some (Exit 0 [StdOut (''codex-exec '' @ version)], w)
      else if 1 < length argv \<and> argv ! 1 = ''--http-test'' then agent_http_test ''codex-exec'' T H (drop 2 argv) w
      else if 1 < length argv \<and> argv ! 1 = ''--stub-test'' then Some (Exit 0 stub_test, w)
      else (case (if 1 < length argv then Inr (join '' '' (tl argv)) else map_sum id trim stdin) of
              Inl e \<Rightarrow> Some (Exit 1 [StdErr (''codex-exec: failed to read stdin: '' @ e)], w)
            | Inr prompt \<Rightarrow>
                Some (if prompt = []
                      then Exit 1 [StdErr ''codex-exec: no prompt provided'',
                             StdErr (''usage: codex-exec <prompt>  or  echo '' @ [CHR 0x27] @ ''<prompt>'' @ [CHR 0x27]
                                       @ '' | codex-exec'')]
                      else Exit 0 [StdErr ''codex-exec: headless agent mode is under development'',
                             StdErr (''prompt: '' @ prompt)], w)))"

subsection \<open>The terminal interface\<close>

datatype key_code = KeyChar bytes | KeyEnter | KeyBackspace | KeyEsc | KeyOther

text \<open>A key with the control modifier, and whether any other modifier is held.\<close>

record key_event =
  ke_code :: key_code
  ke_control :: bool
  ke_other :: bool

record tui_state =
  tu_input :: bytes
  tu_messages :: "bytes list"
  tu_quit :: bool

definition submit_prompt :: "tui_state \<Rightarrow> tui_state" where
  "submit_prompt s =
     (if tu_input s = [] then s
      else s\<lparr>tu_messages := tu_messages s @ [''> '' @ tu_input s, ''codex: agent loop is under development'',
               ''codex: prompt received ('' @ show_nat (length (tu_input s)) @ '' chars)''], tu_input := []\<rparr>)"

definition handle_key_event :: "key_event \<Rightarrow> tui_state \<Rightarrow> tui_state" where
  "handle_key_event k s =
     (case ke_code k of
        KeyChar c \<Rightarrow>
          (if c = ''c'' \<and> ke_control k then s\<lparr>tu_quit := True\<rparr>
           else if c = ''q'' \<and> \<not> ke_control k \<and> \<not> ke_other k \<and> tu_input s = [] then s\<lparr>tu_quit := True\<rparr>
           else s\<lparr>tu_input := tu_input s @ c\<rparr>)
      | KeyEnter \<Rightarrow> submit_prompt s
      | KeyBackspace \<Rightarrow> s\<lparr>tu_input := concat (butlast (utf8_chars (tu_input s)))\<rparr>
      | KeyEsc \<Rightarrow> s\<lparr>tu_input := []\<rparr>
      | KeyOther \<Rightarrow> s)"

datatype tui_event = KeyPressed key_event | Resized | OtherEvent

datatype tui_action = RawMode bool | AlternateScreen bool | Draw bytes "bytes list"

datatype tui_end = TuiQuit | TuiWaiting | TuiFailed bytes

text \<open>The loop over the events, each an event or why it cannot be read; drawing does not fail.\<close>

fun tui_loop :: "(bytes + tui_event) list \<Rightarrow> tui_state \<Rightarrow> tui_action list \<times> tui_end" where
  "tui_loop [] s = (if tu_quit s then ([], TuiQuit) else ([], TuiWaiting))"
| "tui_loop (e # es) s =
     (if tu_quit s then ([], TuiQuit)
      else (case e of
              Inl m \<Rightarrow> ([], TuiFailed m)
            | Inr (KeyPressed k) \<Rightarrow>
                (let s' = handle_key_event k s; (as, r) = tui_loop es s'
                 in (Draw (tu_input s') (tu_messages s') # as, r))
            | Inr Resized \<Rightarrow> (let (as, r) = tui_loop es s in (Draw (tu_input s) (tu_messages s) # as, r))
            | Inr OtherEvent \<Rightarrow> tui_loop es s))"

definition run_tui :: "(bytes + tui_event) list \<Rightarrow> tui_action list \<times> tui_end" where
  "run_tui es =
     (let (as, r) = tui_loop es \<lparr>tu_input = [], tu_messages = [], tu_quit = False\<rparr>;
          start = [RawMode True, AlternateScreen True, Draw [] []]
      in (start @ as @ (if r = TuiQuit then [RawMode False, AlternateScreen False] else []), r))"

text \<open>When an event cannot be read the program ends with the terminal in raw mode and on the alternate
  screen.\<close>

lemma tui_loop_draws: "fst (tui_loop es s) = as \<Longrightarrow> RawMode b \<notin> set as"
  by (induction es s arbitrary: as rule: tui_loop.induct)
    (auto simp: Let_def split_beta split: sum.splits tui_event.splits if_splits)

lemma failed_read_keeps_raw_mode:
  "run_tui es = (as, TuiFailed m) \<Longrightarrow> RawMode True \<in> set as \<and> RawMode False \<notin> set as"
  using tui_loop_draws by (fastforce simp: run_tui_def Let_def split_beta split: if_splits prod.splits)

text \<open>What \<open>codex\<close> calls characters are bytes.\<close>

lemma prompt_length_in_bytes:
  "tu_messages (submit_prompt \<lparr>tu_input = [CHR 0xC3, CHR 0xA9], tu_messages = [], tu_quit = False\<rparr>) ! 2
     = ''codex: prompt received (2 chars)''"
  by code_simp

end
