(* ===== verification/Wasi_Spawn.thy ===== *)
theory Wasi_Spawn
  imports RustStr "HOL-Library.Multiset"
begin

text \<open>
  Child processes of the sandbox over pipes (\<open>libs/wasi-spawn/src/lib.rs\<close>) and over a pseudo-terminal
  (\<open>libs/wasi-pty/src/lib.rs\<close>): what is passed to the host, which descriptors are opened and closed, the
  reading of the output and the wait.  The calls of the host (\<open>wasi-ext\<close>) and of the runtime's files are
  the record \<open>proc_host\<close>.
\<close>

section \<open>The host\<close>

datatype io_error = BrokenPipe bytes | InvalidInput bytes | OtherError bytes

text \<open>An errno, or the result: two descriptors, a process identifier, a status; reading at most a
  number of bytes.\<close>

record 'w proc_host =
  ph_pipe :: "'w \<Rightarrow> (nat + nat \<times> nat) \<times> 'w"
  ph_pty :: "'w \<Rightarrow> (nat + nat \<times> nat) \<times> 'w"
  ph_spawn :: "bytes \<Rightarrow> bytes \<Rightarrow> nat \<times> nat \<times> nat \<Rightarrow> bytes \<Rightarrow> 'w \<Rightarrow> (nat + nat) \<times> 'w"
  ph_wait :: "nat \<Rightarrow> 'w \<Rightarrow> (nat + 32 word \<times> nat) \<times> 'w"
  ph_kill :: "nat \<Rightarrow> nat \<Rightarrow> 'w \<Rightarrow> nat option \<times> 'w"
  ph_close :: "nat \<Rightarrow> 'w \<Rightarrow> 'w"
  ph_read :: "nat \<Rightarrow> nat \<Rightarrow> 'w \<Rightarrow> (io_error + bytes) \<times> 'w"
  ph_write :: "nat \<Rightarrow> bytes \<Rightarrow> 'w \<Rightarrow> (io_error + nat) \<times> 'w"

text \<open>Descriptors the caller gets and gives back, in order.\<close>

datatype fd_action = Opened nat | Closed nat

definition errno_to_io_error :: "nat \<Rightarrow> io_error" where
  "errno_to_io_error e = OtherError (''wasi errno '' @ show_nat e)"

definition close_fds :: "'w proc_host \<Rightarrow> nat list \<Rightarrow> 'w \<Rightarrow> 'w" where
  "close_fds H fds w = fold (ph_close H) fds w"

section \<open>Arguments and environment for the host\<close>

fun serialize_null_separated :: "bytes list \<Rightarrow> bytes" where
  "serialize_null_separated [] = []"
| "serialize_null_separated [x] = x"
| "serialize_null_separated (x # y # ys) = x @ CHR 0x00 # serialize_null_separated (y # ys)"

definition serialize_env :: "(bytes \<times> bytes) list \<Rightarrow> bytes" where
  "serialize_env env = serialize_null_separated (map (\<lambda>(k, v). k @ CHR ''='' # v) env)"

section \<open>Children over pipes\<close>

record wasi_child =
  wc_pid :: nat
  wc_stdout :: "nat option"
  wc_stderr :: "nat option"
  wc_exited :: bool

definition spawn_child ::
  "'w proc_host \<Rightarrow> bytes list \<Rightarrow> (bytes \<times> bytes) list \<Rightarrow> bytes \<Rightarrow> 'w
     \<Rightarrow> (io_error + wasi_child) \<times> fd_action list \<times> 'w" where
  "spawn_child H argv env cwd w =
     (if argv = [] then (Inl (InvalidInput ''empty argv''), [], w)
      else (case ph_pipe H w of
        (Inl e, w1) \<Rightarrow> (Inl (errno_to_io_error e), [], w1)
      | (Inr (out_r, out_w), w1) \<Rightarrow>
          (case ph_pipe H w1 of
             (Inl e, w2) \<Rightarrow>
               (Inl (errno_to_io_error e), [Opened out_r, Opened out_w, Closed out_r, Closed out_w],
                close_fds H [out_r, out_w] w2)
           | (Inr (err_r, err_w), w2) \<Rightarrow>
               (let opened = [Opened out_r, Opened out_w, Opened err_r, Opened err_w];
                    (result, w3) = ph_spawn H (serialize_null_separated argv) (serialize_env env)
                                     (0, out_w, err_w) cwd w2;
                    w4 = close_fds H [out_w, err_w] w3
                in case result of
                     Inr pid \<Rightarrow>
                       (Inr \<lparr>wc_pid = pid, wc_stdout = Some out_r, wc_stderr = Some err_r, wc_exited = False\<rparr>,
                        opened @ [Closed out_w, Closed err_w], w4)
                   | Inl e \<Rightarrow>
                       (Inl (errno_to_io_error e),
                        opened @ [Closed out_w, Closed err_w, Closed out_r, Closed err_r],
                        close_fds H [out_r, err_r] w4)))))"

definition spawn_child_inherit ::
  "'w proc_host \<Rightarrow> bytes list \<Rightarrow> (bytes \<times> bytes) list \<Rightarrow> bytes \<Rightarrow> 'w
     \<Rightarrow> (io_error + wasi_child) \<times> fd_action list \<times> 'w" where
  "spawn_child_inherit H argv env cwd w =
     (if argv = [] then (Inl (InvalidInput ''empty argv''), [], w)
      else (case ph_spawn H (serialize_null_separated argv) (serialize_env env) (0, 1, 2) cwd w of
        (Inl e, w1) \<Rightarrow> (Inl (errno_to_io_error e), [], w1)
      | (Inr pid, w1) \<Rightarrow>
          (Inr \<lparr>wc_pid = pid, wc_stdout = None, wc_stderr = None, wc_exited = False\<rparr>, [], w1)))"

definition read_pipe :: "'w proc_host \<Rightarrow> nat option \<Rightarrow> nat \<Rightarrow> 'w \<Rightarrow> (io_error + bytes) \<times> 'w" where
  "read_pipe H fd n w = (case fd of Some d \<Rightarrow> ph_read H d n w | None \<Rightarrow> (Inr [], w))"

definition read_stdout :: "'w proc_host \<Rightarrow> wasi_child \<Rightarrow> nat \<Rightarrow> 'w \<Rightarrow> (io_error + bytes) \<times> 'w" where
  "read_stdout H c = read_pipe H (wc_stdout c)"

definition read_stderr :: "'w proc_host \<Rightarrow> wasi_child \<Rightarrow> nat \<Rightarrow> 'w \<Rightarrow> (io_error + bytes) \<times> 'w" where
  "read_stderr H c = read_pipe H (wc_stderr c)"

text \<open>The wait of both kinds of children: the status read as an \<open>i32\<close>, once.\<close>

definition wait_pid :: "'w proc_host \<Rightarrow> nat \<Rightarrow> bool \<Rightarrow> 'w \<Rightarrow> (io_error + int) \<times> bool \<times> 'w" where
  "wait_pid H pid exited w =
     (if exited then (Inl (OtherError ''already waited''), exited, w)
      else (case ph_wait H pid w of
              (Inl e, w1) \<Rightarrow> (Inl (errno_to_io_error e), exited, w1)
            | (Inr (status, p), w1) \<Rightarrow> (Inr (sint status), True, w1)))"

definition child_wait :: "'w proc_host \<Rightarrow> wasi_child \<Rightarrow> 'w \<Rightarrow> (io_error + int) \<times> wasi_child \<times> 'w" where
  "child_wait H c w =
     (let (r, ex, w1) = wait_pid H (wc_pid c) (wc_exited c) w in (r, c\<lparr>wc_exited := ex\<rparr>, w1))"

definition kill_pid :: "'w proc_host \<Rightarrow> nat \<Rightarrow> nat \<Rightarrow> 'w \<Rightarrow> (io_error + unit) \<times> 'w" where
  "kill_pid H pid signal w =
     (case ph_kill H pid signal w of (Some e, w1) \<Rightarrow> (Inl (errno_to_io_error e), w1) | (None, w1) \<Rightarrow> (Inr (), w1))"

definition child_kill :: "'w proc_host \<Rightarrow> wasi_child \<Rightarrow> nat \<Rightarrow> 'w \<Rightarrow> (io_error + unit) \<times> 'w" where
  "child_kill H c = kill_pid H (wc_pid c)"

definition child_terminate :: "'w proc_host \<Rightarrow> wasi_child \<Rightarrow> 'w \<Rightarrow> (io_error + unit) \<times> 'w" where
  "child_terminate H c = child_kill H c 15"

text \<open>Reading in pieces of at most 4096 bytes until an empty one or a broken pipe; \<open>None\<close> is an output
  without end.\<close>

partial_function (option) read_to_end ::
  "('w \<Rightarrow> (io_error + bytes) \<times> 'w) \<Rightarrow> bytes \<Rightarrow> 'w \<Rightarrow> ((io_error + bytes) \<times> 'w) option" where
  "read_to_end rd acc w =
     (case rd w of
        (Inr d, w1) \<Rightarrow> if d = [] then Some (Inr acc, w1) else read_to_end rd (acc @ d) w1
      | (Inl e, w1) \<Rightarrow> Some (case e of BrokenPipe m \<Rightarrow> Inr acc | _ \<Rightarrow> Inl e, w1))"

record wasi_output =
  wo_stdout :: bytes
  wo_stderr :: bytes
  wo_exit_code :: int

definition read_all_pipe :: "'w proc_host \<Rightarrow> nat option \<Rightarrow> 'w \<Rightarrow> ((io_error + bytes) \<times> 'w) option" where
  "read_all_pipe H fd w =
     (if fd \<noteq> None then read_to_end (read_pipe H fd 4096) [] w else Some (Inr [], w))"

text \<open>All of standard output, then all of standard error, then the wait.\<close>

definition consume_output ::
  "'w proc_host \<Rightarrow> wasi_child \<Rightarrow> 'w \<Rightarrow> ((io_error + wasi_output) \<times> wasi_child \<times> 'w) option" where
  "consume_output H c w =
     (case read_all_pipe H (wc_stdout c) w of
        None \<Rightarrow> None
      | Some (Inl e, w1) \<Rightarrow> Some (Inl e, c, w1)
      | Some (Inr out, w1) \<Rightarrow>
          (case read_all_pipe H (wc_stderr c) w1 of
             None \<Rightarrow> None
           | Some (Inl e, w2) \<Rightarrow> Some (Inl e, c, w2)
           | Some (Inr err, w2) \<Rightarrow>
               (let (r, c1, w3) = child_wait H c w2 in
                Some (map_sum id (\<lambda>code. \<lparr>wo_stdout = out, wo_stderr = err, wo_exit_code = code\<rparr>) r, c1, w3))))"

definition child_fds :: "wasi_child \<Rightarrow> nat list" where
  "child_fds c =
     (case wc_stdout c of Some d \<Rightarrow> [d] | None \<Rightarrow> []) @ (case wc_stderr c of Some d \<Rightarrow> [d] | None \<Rightarrow> [])"

definition drop_child :: "'w proc_host \<Rightarrow> wasi_child \<Rightarrow> 'w \<Rightarrow> fd_action list \<times> 'w" where
  "drop_child H c w = (map Closed (child_fds c), close_fds H (child_fds c) w)"

section \<open>Children on a pseudo-terminal\<close>

record pty_child =
  pt_pid :: nat
  pt_master :: nat
  pt_exited :: bool

definition spawn_session ::
  "'w proc_host \<Rightarrow> bytes list \<Rightarrow> (bytes \<times> bytes) list \<Rightarrow> bytes \<Rightarrow> 'w
     \<Rightarrow> (io_error + pty_child) \<times> fd_action list \<times> 'w" where
  "spawn_session H argv env cwd w =
     (if argv = [] then (Inl (InvalidInput ''empty argv''), [], w)
      else (case ph_pty H w of
        (Inl e, w1) \<Rightarrow> (Inl (errno_to_io_error e), [], w1)
      | (Inr (master, slave), w1) \<Rightarrow>
          (let (result, w2) = ph_spawn H (serialize_null_separated argv) (serialize_env env)
                                (slave, slave, slave) cwd w1;
               w3 = close_fds H [slave] w2
           in case result of
                Inr pid \<Rightarrow>
                  (Inr \<lparr>pt_pid = pid, pt_master = master, pt_exited = False\<rparr>,
                   [Opened master, Opened slave, Closed slave], w3)
              | Inl e \<Rightarrow>
                  (Inl (errno_to_io_error e), [Opened master, Opened slave, Closed slave, Closed master],
                   close_fds H [master] w3))))"

text \<open>The slave is the caller's; only the master is closed with the handle.\<close>

definition open_pty :: "'w proc_host \<Rightarrow> 'w \<Rightarrow> (io_error + nat \<times> nat) \<times> fd_action list \<times> 'w" where
  "open_pty H w =
     (case ph_pty H w of
        (Inl e, w1) \<Rightarrow> (Inl (errno_to_io_error e), [], w1)
      | (Inr (master, slave), w1) \<Rightarrow> (Inr (master, slave), [Opened master, Opened slave], w1))"

definition pty_read :: "'w proc_host \<Rightarrow> pty_child \<Rightarrow> nat \<Rightarrow> 'w \<Rightarrow> (io_error + bytes) \<times> 'w" where
  "pty_read H c = ph_read H (pt_master c)"

definition pty_write :: "'w proc_host \<Rightarrow> pty_child \<Rightarrow> bytes \<Rightarrow> 'w \<Rightarrow> (io_error + nat) \<times> 'w" where
  "pty_write H c = ph_write H (pt_master c)"

definition pty_wait :: "'w proc_host \<Rightarrow> pty_child \<Rightarrow> 'w \<Rightarrow> (io_error + int) \<times> pty_child \<times> 'w" where
  "pty_wait H c w =
     (let (r, ex, w1) = wait_pid H (pt_pid c) (pt_exited c) w in (r, c\<lparr>pt_exited := ex\<rparr>, w1))"

definition pty_kill :: "'w proc_host \<Rightarrow> pty_child \<Rightarrow> nat \<Rightarrow> 'w \<Rightarrow> (io_error + unit) \<times> 'w" where
  "pty_kill H c = kill_pid H (pt_pid c)"

definition pty_terminate :: "'w proc_host \<Rightarrow> pty_child \<Rightarrow> 'w \<Rightarrow> (io_error + unit) \<times> 'w" where
  "pty_terminate H c = pty_kill H c 15"

definition pty_consume ::
  "'w proc_host \<Rightarrow> pty_child \<Rightarrow> 'w \<Rightarrow> ((io_error + wasi_output) \<times> pty_child \<times> 'w) option" where
  "pty_consume H c w =
     (case read_to_end (pty_read H c 4096) [] w of
        None \<Rightarrow> None
      | Some (Inl e, w1) \<Rightarrow> Some (Inl e, c, w1)
      | Some (Inr out, w1) \<Rightarrow>
          (let (r, c1, w2) = pty_wait H c w1 in
           Some (map_sum id (\<lambda>code. \<lparr>wo_stdout = out, wo_stderr = [], wo_exit_code = code\<rparr>) r, c1, w2)))"

definition drop_pty :: "'w proc_host \<Rightarrow> nat \<Rightarrow> 'w \<Rightarrow> fd_action list \<times> 'w" where
  "drop_pty H master w = ([Closed master], close_fds H [master] w)"

section \<open>The descriptors that are open\<close>

fun open_fds :: "fd_action list \<Rightarrow> nat multiset \<Rightarrow> nat multiset" where
  "open_fds [] M = M"
| "open_fds (Opened d # as) M = open_fds as (add_mset d M)"
| "open_fds (Closed d # as) M = open_fds as (M - {#d#})"

text \<open>No descriptor is closed that is not open.\<close>

fun closes_own :: "fd_action list \<Rightarrow> nat multiset \<Rightarrow> bool" where
  "closes_own [] M = True"
| "closes_own (Opened d # as) M = closes_own as (add_mset d M)"
| "closes_own (Closed d # as) M \<longleftrightarrow> d \<in># M \<and> closes_own as (M - {#d#})"

lemma open_fds_append: "open_fds (as @ bs) M = open_fds bs (open_fds as M)"
  by (induction as M rule: open_fds.induct) auto

lemma closes_own_append: "closes_own (as @ bs) M \<longleftrightarrow> closes_own as M \<and> closes_own bs (open_fds as M)"
  by (induction as M rule: closes_own.induct) auto

section \<open>Facts\<close>

text \<open>The host finds the arguments again between the NUL bytes, unless there are none: no argument and one
  empty argument look the same.\<close>

lemma split_on_first: "c \<notin> set x \<Longrightarrow> split_on c (x @ c # s) = x # split_on c s"
  by (induction x) auto

lemma split_on_alone: "c \<notin> set x \<Longrightarrow> split_on c x = [x]"
  by (induction x) auto

lemma split_serialized:
  "xs \<noteq> [] \<Longrightarrow> \<forall>x\<in>set xs. CHR 0x00 \<notin> set x \<Longrightarrow> split_on CHR 0x00 (serialize_null_separated xs) = xs"
  by (induction xs rule: serialize_null_separated.induct) (auto simp: split_on_first split_on_alone)

lemma serialize_ambiguous: "serialize_null_separated [[]] = serialize_null_separated []"
  by simp

lemma split_serialized_env:
  assumes "env \<noteq> []" and "\<forall>(k, v)\<in>set env. CHR ''='' \<notin> set k \<and> CHR 0x00 \<notin> set k \<and> CHR 0x00 \<notin> set v"
  shows "map (split_once CHR ''='') (split_on CHR 0x00 (serialize_env env)) = map Some env"
proof -
  have "split_on CHR 0x00 (serialize_env env) = map (\<lambda>(k, v). k @ CHR ''='' # v) env"
    unfolding serialize_env_def by (rule split_serialized) (use assms in auto)
  with assms(2) show ?thesis by (auto simp: split_once_Some)
qed

text \<open>From a pipe that delivers pieces everything is read, in order.\<close>

fun next_piece :: "bytes list \<Rightarrow> (io_error + bytes) \<times> bytes list" where
  "next_piece [] = (Inr [], [])"
| "next_piece (p # ps) = (Inr p, ps)"

lemma read_to_end_pieces:
  "[] \<notin> set ps \<Longrightarrow> read_to_end next_piece acc ps = Some (Inr (acc @ concat ps), [])"
proof (induction ps arbitrary: acc)
  case Nil
  show ?case by (subst read_to_end.simps) auto
next
  case (Cons p ps)
  then show ?case by (subst read_to_end.simps) auto
qed

text \<open>A child is waited for once.\<close>

lemma child_wait_once:
  "child_wait H c w = (Inr code, c1, w1) \<Longrightarrow> child_wait H c1 w' = (Inl (OtherError ''already waited''), c1, w')"
  by (auto simp: child_wait_def wait_pid_def Let_def split: if_splits prod.splits sum.splits)

section \<open>Properties\<close>

text \<open>Claim C25: Starting a child over pipes owns its descriptors exactly: on every error path, of either
  pipe or of the start, everything that was opened has been closed again; on success exactly the two
  read ends in the handle are open, and dropping the handle closes them; no descriptor is closed that
  is not open.\<close>

theorem spawn_child_descriptors:
  "case spawn_child H argv env cwd w of (r, acts, w') \<Rightarrow>
     (let rest = (case r of Inl e \<Rightarrow> [] | Inr c \<Rightarrow> fst (drop_child H c w'))
      in open_fds acts {#} = (case r of Inl e \<Rightarrow> {#} | Inr c \<Rightarrow> mset (child_fds c))
         \<and> open_fds (acts @ rest) {#} = {#} \<and> closes_own (acts @ rest) {#})"
  by (auto simp: spawn_child_def drop_child_def child_fds_def Let_def split: prod.splits sum.splits)

lemma spawn_session_descriptors:
  "case spawn_session H argv env cwd w of (r, acts, w') \<Rightarrow>
     (let rest = (case r of Inl e \<Rightarrow> [] | Inr c \<Rightarrow> fst (drop_pty H (pt_master c) w'))
      in open_fds acts {#} = (case r of Inl e \<Rightarrow> {#} | Inr c \<Rightarrow> {# pt_master c #})
         \<and> open_fds (acts @ rest) {#} = {#} \<and> closes_own (acts @ rest) {#})"
  by (auto simp: spawn_session_def drop_pty_def Let_def split: prod.splits sum.splits)

text \<open>The handle of \<open>open_pty\<close> leaves the slave to its caller.\<close>

lemma open_pty_descriptors:
  "open_pty H w = (Inr (m, s), acts, w') \<Longrightarrow> open_fds (acts @ fst (drop_pty H m w')) {#} = {# s #}"
  by (auto simp: open_pty_def drop_pty_def split: prod.splits sum.splits)

end
