(* ===== verification/Wasi_Ext.thy ===== *)
theory Wasi_Ext
  imports Wasi_Spawn
begin

text \<open>
  The host's functions that extend WASI, and their safe wrappers (\<open>crates/wasi-ext/src/lib.rs\<close>): processes,
  sockets, users.  A host function is a parameter: it is given the contents of its output cells, and
  returns an errno, the cells afterwards and the host's state.  A slice is passed as its bytes and its
  length as a \<open>u32\<close>.
\<close>

section \<open>Errnos and calls\<close>

type_synonym u32 = "32 word"
type_synonym slice = "bytes \<times> u32"
type_synonym ('o, 'w) import = "'o \<Rightarrow> 'w \<Rightarrow> u32 \<times> 'o \<times> 'w"

definition ERRNO_SUCCESS :: u32 where "ERRNO_SUCCESS = 0"
definition ERRNO_BADF :: u32 where "ERRNO_BADF = 8"
definition ERRNO_INVAL :: u32 where "ERRNO_INVAL = 28"
definition ERRNO_NOSYS :: u32 where "ERRNO_NOSYS = 52"
definition ERRNO_NOENT :: u32 where "ERRNO_NOENT = 44"
definition ERRNO_SRCH :: u32 where "ERRNO_SRCH = 71"
definition ERRNO_CHILD :: u32 where "ERRNO_CHILD = 10"

definition len_u32 :: "bytes \<Rightarrow> u32" where
  "len_u32 b = word_of_nat (length b)"

definition slice_of :: "bytes \<Rightarrow> slice" where
  "slice_of b = (b, len_u32 b)"

text \<open>What every wrapper does with the errno.\<close>

definition errno_result :: "u32 \<Rightarrow> 'a \<Rightarrow> u32 + 'a" where
  "errno_result e x = (if e = ERRNO_SUCCESS then Inr x else Inl e)"

definition call_host :: "('o, 'w) import \<Rightarrow> 'o \<Rightarrow> 'w \<Rightarrow> (u32 + 'o) \<times> 'w" where
  "call_host f cells w = (let (e, out, w1) = f cells w in (errno_result e out, w1))"

text \<open>A call with a buffer of the caller, which keeps what the host wrote in either case.\<close>

definition call_with_buffer ::
  "(bytes \<times> 'o, 'w) import \<Rightarrow> bytes \<Rightarrow> 'o \<Rightarrow> 'w \<Rightarrow> (u32 + 'o) \<times> bytes \<times> 'w" where
  "call_with_buffer f buf cells w = (let (e, (buf1, out), w1) = f (buf, cells) w in (errno_result e out, buf1, w1))"

section \<open>Processes and descriptors\<close>

record 'w host_process =
  proc_spawn :: "slice \<Rightarrow> slice \<Rightarrow> u32 \<Rightarrow> u32 \<Rightarrow> u32 \<Rightarrow> slice \<Rightarrow> (u32, 'w) import"
  proc_waitpid :: "u32 \<Rightarrow> u32 \<Rightarrow> (u32 \<times> u32, 'w) import"
  proc_kill :: "u32 \<Rightarrow> u32 \<Rightarrow> (unit, 'w) import"
  proc_getpid :: "(u32, 'w) import"
  proc_getppid :: "(u32, 'w) import"
  fd_pipe :: "(u32 \<times> u32, 'w) import"
  fd_dup :: "u32 \<Rightarrow> (u32, 'w) import"
  fd_dup2 :: "u32 \<Rightarrow> u32 \<Rightarrow> (unit, 'w) import"
  sleep_ms :: "u32 \<Rightarrow> (unit, 'w) import"
  pty_open :: "(u32 \<times> u32, 'w) import"
  proc_sigaction :: "u32 \<Rightarrow> u32 \<Rightarrow> u32 \<Rightarrow> u32 \<Rightarrow> u32 \<Rightarrow> (unit, 'w) import"

definition spawn :: "'w host_process \<Rightarrow> bytes \<Rightarrow> bytes \<Rightarrow> u32 \<Rightarrow> u32 \<Rightarrow> u32 \<Rightarrow> bytes \<Rightarrow> 'w \<Rightarrow> (u32 + u32) \<times> 'w" where
  "spawn H argv envp stdin_fd stdout_fd stderr_fd cwd = call_host (proc_spawn H (slice_of argv) (slice_of envp) stdin_fd stdout_fd stderr_fd (slice_of cwd)) 0"

definition waitpid :: "'w host_process \<Rightarrow> u32 \<Rightarrow> u32 \<Rightarrow> 'w \<Rightarrow> (u32 + u32 \<times> u32) \<times> 'w" where
  "waitpid H pid options = call_host (proc_waitpid H pid options) (0, 0)"

definition kill :: "'w host_process \<Rightarrow> u32 \<Rightarrow> u32 \<Rightarrow> 'w \<Rightarrow> (u32 + unit) \<times> 'w" where
  "kill H pid signal = call_host (proc_kill H pid signal) ()"

definition getpid :: "'w host_process \<Rightarrow> 'w \<Rightarrow> (u32 + u32) \<times> 'w" where
  "getpid H = call_host (proc_getpid H) 0"

definition getppid :: "'w host_process \<Rightarrow> 'w \<Rightarrow> (u32 + u32) \<times> 'w" where
  "getppid H = call_host (proc_getppid H) 0"

definition pipe :: "'w host_process \<Rightarrow> 'w \<Rightarrow> (u32 + u32 \<times> u32) \<times> 'w" where
  "pipe H = call_host (fd_pipe H) (0, 0)"

definition dup :: "'w host_process \<Rightarrow> u32 \<Rightarrow> 'w \<Rightarrow> (u32 + u32) \<times> 'w" where
  "dup H fd = call_host (fd_dup H fd) 0"

definition dup2 :: "'w host_process \<Rightarrow> u32 \<Rightarrow> u32 \<Rightarrow> 'w \<Rightarrow> (u32 + unit) \<times> 'w" where
  "dup2 H old_fd new_fd = call_host (fd_dup2 H old_fd new_fd) ()"

definition host_sleep_ms :: "'w host_process \<Rightarrow> u32 \<Rightarrow> 'w \<Rightarrow> (u32 + unit) \<times> 'w" where
  "host_sleep_ms H milliseconds = call_host (sleep_ms H milliseconds) ()"

definition openpty :: "'w host_process \<Rightarrow> 'w \<Rightarrow> (u32 + u32 \<times> u32) \<times> 'w" where
  "openpty H = call_host (pty_open H) (0, 0)"

definition sigaction_set :: "'w host_process \<Rightarrow> u32 \<Rightarrow> u32 \<Rightarrow> u32 \<Rightarrow> u32 \<Rightarrow> u32 \<Rightarrow> 'w \<Rightarrow> (u32 + unit) \<times> 'w" where
  "sigaction_set H signal action mask_lo mask_hi flags = call_host (proc_sigaction H signal action mask_lo mask_hi flags) ()"

section \<open>Sockets\<close>

record 'w host_net =
  net_socket :: "u32 \<Rightarrow> u32 \<Rightarrow> u32 \<Rightarrow> (u32, 'w) import"
  net_connect :: "u32 \<Rightarrow> slice \<Rightarrow> (unit, 'w) import"
  net_send :: "u32 \<Rightarrow> slice \<Rightarrow> u32 \<Rightarrow> (u32, 'w) import"
  net_recv :: "u32 \<Rightarrow> u32 \<Rightarrow> u32 \<Rightarrow> (bytes \<times> u32, 'w) import"
  net_close :: "u32 \<Rightarrow> (unit, 'w) import"
  net_getaddrinfo :: "slice \<Rightarrow> slice \<Rightarrow> (bytes \<times> u32, 'w) import"
  net_setsockopt :: "u32 \<Rightarrow> u32 \<Rightarrow> u32 \<Rightarrow> slice \<Rightarrow> (unit, 'w) import"
  net_getsockname :: "u32 \<Rightarrow> (bytes \<times> u32, 'w) import"
  net_getpeername :: "u32 \<Rightarrow> (bytes \<times> u32, 'w) import"
  net_tls_connect :: "u32 \<Rightarrow> slice \<Rightarrow> (unit, 'w) import"
  net_poll :: "u32 \<Rightarrow> u32 \<Rightarrow> (bytes \<times> u32, 'w) import"
  net_bind :: "u32 \<Rightarrow> slice \<Rightarrow> (unit, 'w) import"
  net_listen :: "u32 \<Rightarrow> u32 \<Rightarrow> (unit, 'w) import"
  net_accept :: "u32 \<Rightarrow> (bytes \<times> u32 \<times> u32, 'w) import"
  net_sendto :: "u32 \<Rightarrow> slice \<Rightarrow> u32 \<Rightarrow> slice \<Rightarrow> (u32, 'w) import"
  net_recvfrom :: "u32 \<Rightarrow> u32 \<Rightarrow> u32 \<Rightarrow> (bytes \<times> bytes \<times> u32 \<times> u32, 'w) import"

definition socket :: "'w host_net \<Rightarrow> u32 \<Rightarrow> u32 \<Rightarrow> u32 \<Rightarrow> 'w \<Rightarrow> (u32 + u32) \<times> 'w" where
  "socket H domain sock_type protocol = call_host (net_socket H domain sock_type protocol) 0"

definition connect :: "'w host_net \<Rightarrow> u32 \<Rightarrow> bytes \<Rightarrow> 'w \<Rightarrow> (u32 + unit) \<times> 'w" where
  "connect H fd addr = call_host (net_connect H fd (slice_of addr)) ()"

definition send :: "'w host_net \<Rightarrow> u32 \<Rightarrow> bytes \<Rightarrow> u32 \<Rightarrow> 'w \<Rightarrow> (u32 + u32) \<times> 'w" where
  "send H fd buf flags = call_host (net_send H fd (slice_of buf) flags) 0"

definition recv :: "'w host_net \<Rightarrow> u32 \<Rightarrow> bytes \<Rightarrow> u32 \<Rightarrow> 'w \<Rightarrow> (u32 + u32) \<times> bytes \<times> 'w" where
  "recv H fd buf flags = call_with_buffer (net_recv H fd (len_u32 buf) flags) buf 0"

definition net_close_socket :: "'w host_net \<Rightarrow> u32 \<Rightarrow> 'w \<Rightarrow> (u32 + unit) \<times> 'w" where
  "net_close_socket H fd = call_host (net_close H fd) ()"

definition getaddrinfo :: "'w host_net \<Rightarrow> bytes \<Rightarrow> bytes \<Rightarrow> bytes \<Rightarrow> 'w \<Rightarrow> (u32 + u32) \<times> bytes \<times> 'w" where
  "getaddrinfo H hst port buf = call_with_buffer (net_getaddrinfo H (slice_of hst) (slice_of port)) buf (len_u32 buf)"

definition setsockopt :: "'w host_net \<Rightarrow> u32 \<Rightarrow> u32 \<Rightarrow> u32 \<Rightarrow> bytes \<Rightarrow> 'w \<Rightarrow> (u32 + unit) \<times> 'w" where
  "setsockopt H fd level optname optval = call_host (net_setsockopt H fd level optname (slice_of optval)) ()"

definition getsockname :: "'w host_net \<Rightarrow> u32 \<Rightarrow> bytes \<Rightarrow> 'w \<Rightarrow> (u32 + u32) \<times> bytes \<times> 'w" where
  "getsockname H fd buf = call_with_buffer (net_getsockname H fd) buf (len_u32 buf)"

definition getpeername :: "'w host_net \<Rightarrow> u32 \<Rightarrow> bytes \<Rightarrow> 'w \<Rightarrow> (u32 + u32) \<times> bytes \<times> 'w" where
  "getpeername H fd buf = call_with_buffer (net_getpeername H fd) buf (len_u32 buf)"

definition tls_connect :: "'w host_net \<Rightarrow> u32 \<Rightarrow> bytes \<Rightarrow> 'w \<Rightarrow> (u32 + unit) \<times> 'w" where
  "tls_connect H fd hostname = call_host (net_tls_connect H fd (slice_of hostname)) ()"

definition poll_sockets :: "'w host_net \<Rightarrow> bytes \<Rightarrow> u32 \<Rightarrow> u32 \<Rightarrow> 'w \<Rightarrow> (u32 + u32) \<times> bytes \<times> 'w" where
  "poll_sockets H fds nfds timeout_ms = call_with_buffer (net_poll H nfds timeout_ms) fds 0"

definition bind_socket :: "'w host_net \<Rightarrow> u32 \<Rightarrow> bytes \<Rightarrow> 'w \<Rightarrow> (u32 + unit) \<times> 'w" where
  "bind_socket H fd addr = call_host (net_bind H fd (slice_of addr)) ()"

definition listen :: "'w host_net \<Rightarrow> u32 \<Rightarrow> u32 \<Rightarrow> 'w \<Rightarrow> (u32 + unit) \<times> 'w" where
  "listen H fd backlog = call_host (net_listen H fd backlog) ()"

definition accept :: "'w host_net \<Rightarrow> u32 \<Rightarrow> bytes \<Rightarrow> 'w \<Rightarrow> (u32 + u32 \<times> u32) \<times> bytes \<times> 'w" where
  "accept H fd addr_buf = call_with_buffer (net_accept H fd) addr_buf (0, len_u32 addr_buf)"

definition sendto :: "'w host_net \<Rightarrow> u32 \<Rightarrow> bytes \<Rightarrow> u32 \<Rightarrow> bytes \<Rightarrow> 'w \<Rightarrow> (u32 + u32) \<times> 'w" where
  "sendto H fd buf flags addr = call_host (net_sendto H fd (slice_of buf) flags (slice_of addr)) 0"

text \<open>The only wrapper with two buffers.\<close>

definition recvfrom :: "'w host_net \<Rightarrow> u32 \<Rightarrow> bytes \<Rightarrow> u32 \<Rightarrow> bytes \<Rightarrow> 'w
    \<Rightarrow> (u32 + u32 \<times> u32) \<times> (bytes \<times> bytes) \<times> 'w" where
  "recvfrom H fd buf flags addr_buf w =
     (let (e, (buf1, addr1, received, addr_len), w1) =
            net_recvfrom H fd (len_u32 buf) flags (buf, addr_buf, 0, len_u32 addr_buf) w
      in (errno_result e (received, addr_len), (buf1, addr1), w1))"

section \<open>Users and terminals\<close>

record 'w host_user =
  getuid :: "(u32, 'w) import"
  getgid :: "(u32, 'w) import"
  geteuid :: "(u32, 'w) import"
  getegid :: "(u32, 'w) import"
  isatty :: "u32 \<Rightarrow> (u32, 'w) import"
  getpwuid :: "u32 \<Rightarrow> u32 \<Rightarrow> (bytes \<times> u32, 'w) import"

definition get_uid :: "'w host_user \<Rightarrow> 'w \<Rightarrow> (u32 + u32) \<times> 'w" where
  "get_uid H = call_host (getuid H) 0"

definition get_gid :: "'w host_user \<Rightarrow> 'w \<Rightarrow> (u32 + u32) \<times> 'w" where
  "get_gid H = call_host (getgid H) 0"

definition get_euid :: "'w host_user \<Rightarrow> 'w \<Rightarrow> (u32 + u32) \<times> 'w" where
  "get_euid H = call_host (geteuid H) 0"

definition get_egid :: "'w host_user \<Rightarrow> 'w \<Rightarrow> (u32 + u32) \<times> 'w" where
  "get_egid H = call_host (getegid H) 0"

definition is_atty :: "'w host_user \<Rightarrow> u32 \<Rightarrow> 'w \<Rightarrow> (u32 + bool) \<times> 'w" where
  "is_atty H fd w = (let (r, w1) = call_host (isatty H fd) 0 w in (map_sum id (\<lambda>n. n \<noteq> 0) r, w1))"

definition get_pwuid :: "'w host_user \<Rightarrow> u32 \<Rightarrow> bytes \<Rightarrow> 'w \<Rightarrow> (u32 + u32) \<times> bytes \<times> 'w" where
  "get_pwuid H uid buf = call_with_buffer (getpwuid H uid (len_u32 buf)) buf 0"

section \<open>The host of the process crates\<close>

text \<open>The crates over the wrappers; closing, reading and writing go through the runtime's own descriptors.\<close>

definition sandbox_proc_host ::
  "'w host_process \<Rightarrow> (nat \<Rightarrow> 'w \<Rightarrow> 'w) \<Rightarrow> (nat \<Rightarrow> nat \<Rightarrow> 'w \<Rightarrow> (io_error + bytes) \<times> 'w)
     \<Rightarrow> (nat \<Rightarrow> bytes \<Rightarrow> 'w \<Rightarrow> (io_error + nat) \<times> 'w) \<Rightarrow> 'w proc_host" where
  "sandbox_proc_host P cl rd wr =
     \<lparr>ph_pipe = (\<lambda>w. map_prod (map_sum unat (map_prod unat unat)) id (pipe P w)),
      ph_pty = (\<lambda>w. map_prod (map_sum unat (map_prod unat unat)) id (openpty P w)),
      ph_spawn = (\<lambda>argv env (i, out, err) cwd w.
        map_prod (map_sum unat unat) id
          (spawn P argv env (word_of_nat i) (word_of_nat out) (word_of_nat err) cwd w)),
      ph_wait = (\<lambda>pid w. map_prod (map_sum unat (map_prod id unat)) id (waitpid P (word_of_nat pid) 0 w)),
      ph_kill = (\<lambda>pid signal w.
        map_prod (\<lambda>r. case r of Inl e \<Rightarrow> Some (unat e) | Inr _ \<Rightarrow> None) id
          (kill P (word_of_nat pid) (word_of_nat signal) w)),
      ph_close = cl, ph_read = rd, ph_write = wr\<rparr>"

section \<open>Facts\<close>

lemma errno_result_Inl [simp]: "errno_result e x = Inl e' \<longleftrightarrow> e = e' \<and> e \<noteq> 0"
  by (auto simp: errno_result_def ERRNO_SUCCESS_def)

lemma errno_result_Inr [simp]: "errno_result e x = Inr y \<longleftrightarrow> e = 0 \<and> x = y"
  by (auto simp: errno_result_def ERRNO_SUCCESS_def)

text \<open>Two hosts that differ at most in what a failing call leaves in its output cells.\<close>

definition same_import :: "('o, 'w) import \<Rightarrow> ('o, 'w) import \<Rightarrow> bool" where
  "same_import f g \<longleftrightarrow> (\<forall>cells w. case (f cells w, g cells w) of
     ((e, out, w1), (e', out', w1')) \<Rightarrow> e = e' \<and> w1 = w1' \<and> (e = 0 \<longrightarrow> out = out'))"

lemma call_host_same: "same_import f g \<Longrightarrow> call_host f = call_host g"
  by (fastforce simp: same_import_def call_host_def errno_result_def ERRNO_SUCCESS_def fun_eq_iff split: prod.splits)

definition same_host_process :: "'w host_process \<Rightarrow> 'w host_process \<Rightarrow> bool" where
  "same_host_process P Q \<longleftrightarrow>
     (\<forall>a e i out err c. same_import (proc_spawn P a e i out err c) (proc_spawn Q a e i out err c))
     \<and> (\<forall>pid options. same_import (proc_waitpid P pid options) (proc_waitpid Q pid options))
     \<and> (\<forall>pid signal. same_import (proc_kill P pid signal) (proc_kill Q pid signal))
     \<and> same_import (fd_pipe P) (fd_pipe Q) \<and> same_import (pty_open P) (pty_open Q)"

text \<open>The crates do not look at the output cells of a failing call: neither the children over pipes nor
  those over a terminal depend on them.\<close>

lemma failed_call_outputs_unused:
  assumes "same_host_process P Q"
  shows "sandbox_proc_host P cl rd wr = sandbox_proc_host Q cl rd wr"
proof -
  have "call_host (proc_spawn P a e i out err c) = call_host (proc_spawn Q a e i out err c)" for a e i out err c
    using assms by (intro call_host_same) (simp only: same_host_process_def)
  moreover have "call_host (proc_waitpid P a b) = call_host (proc_waitpid Q a b)" for a b
    using assms by (intro call_host_same) (simp only: same_host_process_def)
  moreover have "call_host (proc_kill P a b) = call_host (proc_kill Q a b)" for a b
    using assms by (intro call_host_same) (simp only: same_host_process_def)
  moreover have "call_host (fd_pipe P) = call_host (fd_pipe Q)" "call_host (pty_open P) = call_host (pty_open Q)"
    using assms by (simp_all add: call_host_same same_host_process_def)
  ultimately show ?thesis
    by (simp add: sandbox_proc_host_def pipe_def openpty_def spawn_def waitpid_def kill_def)
qed

lemma spawn_child_failed_outputs:
  "same_host_process P Q \<Longrightarrow>
     spawn_child (sandbox_proc_host P cl rd wr) argv env cwd w = spawn_child (sandbox_proc_host Q cl rd wr) argv env cwd w"
  by (simp add: failed_call_outputs_unused)

end
