(* ===== verification/Spawn_Test.thy ===== *)
theory Spawn_Test
  imports Wasi_Spawn
begin

text \<open>
  The program that tries the process crate inside the sandbox
  (\<open>crates/commands/spawn-test-host/src/main.rs\<close>): it starts commands, reads what they print, ends one
  with a signal, and reports what it found.  Output is one text per stream; \<open>None\<close> is a child whose
  output never ends.
\<close>

section \<open>The program\<close>

fun show_io_error :: "io_error \<Rightarrow> bytes" where
  "show_io_error (BrokenPipe m) = m"
| "show_io_error (InvalidInput m) = m"
| "show_io_error (OtherError m) = m"

record test_run =
  tr_code :: int
  tr_out :: bytes
  tr_err :: bytes

definition failed_step :: "bytes \<Rightarrow> io_error \<Rightarrow> test_run" where
  "failed_step what e =
     \<lparr>tr_code = 1, tr_out = [], tr_err = ''FAIL '' @ what @ '': '' @ show_io_error e @ [NL]\<rparr>"

text \<open>The verdict after the lines of the test: \<open>PASS\<close> and 0, or the failing text and 1.\<close>

definition verdict :: "bytes \<Rightarrow> bool \<Rightarrow> bytes \<Rightarrow> test_run" where
  "verdict shown ok failing =
     (if ok then \<lparr>tr_code = 0, tr_out = shown @ ''PASS'' @ [NL], tr_err = []\<rparr>
      else \<lparr>tr_code = 1, tr_out = shown @ failing @ [NL], tr_err = []\<rparr>)"

definition exit_line :: "int \<Rightarrow> bytes" where
  "exit_line n = ''exit:'' @ show_int n @ [NL]"

text \<open>A child is started, its output consumed and judged; the handle is dropped at the end.\<close>

definition with_output ::
  "'w proc_host \<Rightarrow> bytes list \<Rightarrow> (bytes \<times> bytes) list \<Rightarrow> (wasi_output \<Rightarrow> test_run) \<Rightarrow> 'w \<Rightarrow> (test_run \<times> 'w) option" where
  "with_output H argv env judge w =
     (case spawn_child H argv env ''/'' w of
        (Inl e, _, w1) \<Rightarrow> Some (failed_step ''spawn'' e, w1)
      | (Inr c, _, w1) \<Rightarrow>
          (case consume_output H c w1 of
             None \<Rightarrow> None
           | Some (Inl e, c1, w2) \<Rightarrow> Some (failed_step ''consume'' e, snd (drop_child H c1 w2))
           | Some (Inr out, c1, w2) \<Rightarrow> Some (judge out, snd (drop_child H c1 w2))))"

definition judge_echo :: "wasi_output \<Rightarrow> test_run" where
  "judge_echo out =
     (let text = from_utf8_lossy (wo_stdout out) in
      verdict (''stdout:'' @ text @ exit_line (wo_exit_code out))
        (trim text = ''hello'' \<and> wo_exit_code out = 0) ''FAIL'')"

definition test_echo :: "'w proc_host \<Rightarrow> 'w \<Rightarrow> (test_run \<times> 'w) option" where
  "test_echo H = with_output H [''echo'', ''hello''] [] judge_echo"

definition judge_fail :: "wasi_output \<Rightarrow> test_run" where
  "judge_fail out =
     verdict (exit_line (wo_exit_code out)) (wo_exit_code out = 42)
       (''FAIL expected 42 got '' @ show_int (wo_exit_code out))"

definition test_fail :: "'w proc_host \<Rightarrow> 'w \<Rightarrow> (test_run \<times> 'w) option" where
  "test_fail H = with_output H [''sh'', ''-c'', ''exit 42''] [] judge_fail"

definition test_kill :: "'w proc_host \<Rightarrow> 'w \<Rightarrow> test_run \<times> 'w" where
  "test_kill H w =
     (case spawn_child H [''sleep'', ''60''] [] ''/'' w of
        (Inl e, _, w1) \<Rightarrow> (failed_step ''spawn'' e, w1)
      | (Inr c, _, w1) \<Rightarrow>
          (case child_terminate H c w1 of
             (Inl e, w2) \<Rightarrow> (failed_step ''kill'' e, snd (drop_child H c w2))
           | (Inr _, w2) \<Rightarrow>
               (let (r, c1, w3) = child_wait H c w2; w4 = snd (drop_child H c1 w3)
                in case r of
                     Inl e \<Rightarrow> (failed_step ''wait'' e, w4)
                   | Inr status \<Rightarrow>
                       (verdict (exit_line status) (128 \<le> status)
                          (''FAIL expected signal exit, got '' @ show_int status), w4))))"

definition show_bool :: "bool \<Rightarrow> bytes" where
  "show_bool b = (if b then ''true'' else ''false'')"

definition judge_env :: "wasi_output \<Rightarrow> test_run" where
  "judge_env out =
     (let text = from_utf8_lossy (wo_stdout out);
          has_test = find_sub ''TEST_VAR=hello_world'' text \<noteq> None;
          has_foo = find_sub ''FOO=bar'' text \<noteq> None
      in verdict (exit_line (wo_exit_code out)) (has_test \<and> has_foo)
           (text @ ''FAIL missing env vars (TEST_VAR='' @ show_bool has_test @ '', FOO='' @ show_bool has_foo @ '')''))"

definition test_env :: "'w proc_host \<Rightarrow> 'w \<Rightarrow> (test_run \<times> 'w) option" where
  "test_env H =
     with_output H [''env''] [(''TEST_VAR'', ''hello_world''), (''FOO'', ''bar'')] judge_env"

definition spawn_test_main :: "'w proc_host \<Rightarrow> bytes list \<Rightarrow> 'w \<Rightarrow> (test_run \<times> 'w) option" where
  "spawn_test_main H args w =
     (let sub = (case args of _ # s # _ \<Rightarrow> s | _ \<Rightarrow> ''echo'') in
      if sub = ''echo'' then test_echo H w
      else if sub = ''fail'' then test_fail H w
      else if sub = ''kill-test'' then Some (test_kill H w)
      else if sub = ''env-test'' then test_env H w
      else Some (\<lparr>tr_code = 1, tr_out = [],
                  tr_err = ''spawn-test-host: unknown subcommand '' @ CHR 0x27 # sub @ [CHR 0x27, NL]\<rparr>, w))"

section \<open>Facts\<close>

lemma verdict_code [simp]: "tr_code (verdict t ok f) = (if ok then 0 else 1)"
  by (simp add: verdict_def)

text \<open>A test passes exactly when the child ran and its output is the expected one.\<close>

lemma with_output_passes:
  assumes "with_output H argv env judge w = Some (r, w')" and "tr_code r = 0"
  shows "\<exists>c fds w1 out c1 w2. spawn_child H argv env ''/'' w = (Inr c, fds, w1)
    \<and> consume_output H c w1 = Some (Inr out, c1, w2) \<and> r = judge out"
  using assms
  by (auto simp: with_output_def failed_step_def split: prod.splits sum.splits option.splits)

lemma test_echo_passes:
  assumes "test_echo H w = Some (r, w')" and "tr_code r = 0"
  shows "\<exists>c fds w1 out c1 w2. spawn_child H [''echo'', ''hello''] [] ''/'' w = (Inr c, fds, w1)
    \<and> consume_output H c w1 = Some (Inr out, c1, w2)
    \<and> wo_exit_code out = 0 \<and> trim (from_utf8_lossy (wo_stdout out)) = ''hello''"
  using with_output_passes [OF assms(1) [unfolded test_echo_def] assms(2)] assms(2)
  by (fastforce simp: judge_echo_def Let_def split: if_splits)

text \<open>The status of a test is 0 or 1.\<close>

lemma with_output_code:
  assumes "\<And>out. tr_code (judge out) \<in> {0, 1}" and "with_output H argv env judge w = Some (r, w')"
  shows "tr_code r \<in> {0, 1}"
  using assms by (auto simp: with_output_def failed_step_def split: prod.splits sum.splits option.splits)

lemma spawn_test_main_code:
  assumes "spawn_test_main H args w = Some (r, w')"
  shows "tr_code r \<in> {0, 1}"
proof -
  have "tr_code (judge_echo out) \<in> {0, 1}" "tr_code (judge_fail out) \<in> {0, 1}" "tr_code (judge_env out) \<in> {0, 1}" for out
    by (simp_all add: judge_echo_def judge_fail_def judge_env_def Let_def)
  note codes = this [THEN with_output_code]
  have "tr_code (fst (test_kill H w)) \<in> {0, 1}"
    by (auto simp: test_kill_def failed_step_def Let_def split: prod.splits sum.splits)
  with assms show ?thesis
    by (auto simp: spawn_test_main_def test_echo_def test_fail_def test_env_def Let_def
        dest: codes split: if_splits)
qed

end
