(* ===== verification/Uu_Ranges.thy ===== *)
theory Uu_Ranges
  imports RustStr
begin

text \<open>
  Lists of ranges such as \<open>2,4-6,9-\<close> (\<open>stubs/uucore/src/lib/features/ranges.rs\<close>), which the commands that
  select fields and positions share: parsing, merging, the complement and membership.  \<open>usize\<close> has 32
  bits; the quoting of a wrong item in the error text is a parameter.
\<close>

section \<open>Ranges and their order\<close>

datatype uu_range = Range (low: nat) (high: nat)

definition usize_max :: nat where
  "usize_max = 2 ^ 32 - 1"

text \<open>The derived order: by the lower bound, then by the upper one.\<close>

instantiation uu_range :: linorder
begin

definition less_eq_uu_range :: "uu_range \<Rightarrow> uu_range \<Rightarrow> bool" where
  "less_eq_uu_range r s \<longleftrightarrow> low r < low s \<or> (low r = low s \<and> high r \<le> high s)"

definition less_uu_range :: "uu_range \<Rightarrow> uu_range \<Rightarrow> bool" where
  "less_uu_range r s \<longleftrightarrow> low r < low s \<or> (low r = low s \<and> high r < high s)"

instance
  by standard (auto simp: less_eq_uu_range_def less_uu_range_def uu_range.expand)

end

section \<open>Parsing\<close>

definition parse_bound :: "bytes \<Rightarrow> bytes + nat" where
  "parse_bound s =
     (case parse_usize32 s of
        Some n \<Rightarrow>
          if n = 0 then Inl ''fields and positions are numbered from 1''
          else if n = usize_max then Inl ''byte/character offset is too large'' else Inr n
      | None \<Rightarrow> Inl ''failed to parse range'')"

definition range_from_str :: "bytes \<Rightarrow> bytes + uu_range" where
  "range_from_str s =
     (case split_once CHR ''-'' s of
        None \<Rightarrow> map_sum id (\<lambda>n. Range n n) (parse_bound s)
      | Some (a, b) \<Rightarrow>
          if a = [] \<and> b = [] then Inl ''invalid range with no endpoint''
          else if b = [] then map_sum id (\<lambda>n. Range n (usize_max - 1)) (parse_bound a)
          else if a = [] then map_sum id (\<lambda>n. Range 1 n) (parse_bound b)
          else (case parse_bound a of
                  Inl e \<Rightarrow> Inl e
                | Inr l \<Rightarrow>
                    (case parse_bound b of
                       Inl e \<Rightarrow> Inl e
                     | Inr h \<Rightarrow> if l \<le> h then Inr (Range l h)
                               else Inl ''high end of range less than low end'')))"

text \<open>The items between commas and blanks.\<close>

fun split_items :: "bytes \<Rightarrow> bytes list" where
  "split_items [] = [[]]"
| "split_items (c # s) =
     (if c = CHR '','' \<or> c = CHR '' '' then [] # split_items s
      else (case split_items s of [] \<Rightarrow> [[c]] | w # ws \<Rightarrow> (c # w) # ws))"

fun parse_items :: "(bytes \<Rightarrow> bytes) \<Rightarrow> bytes list \<Rightarrow> bytes + uu_range list" where
  "parse_items quote [] = Inr []"
| "parse_items quote (w # ws) =
     (case range_from_str w of
        Inl e \<Rightarrow> Inl (''range '' @ quote w @ '' was invalid: '' @ e)
      | Inr r \<Rightarrow> map_sum id (\<lambda>rs. r # rs) (parse_items quote ws))"

section \<open>Merging\<close>

text \<open>The ranges that start inside the first one are taken into it.\<close>

fun absorb :: "uu_range \<Rightarrow> uu_range list \<Rightarrow> uu_range \<times> uu_range list" where
  "absorb r [] = (r, [])"
| "absorb r (s # ss) =
     (if low s \<le> high r then absorb (Range (low r) (max (high r) (high s))) ss else (r, s # ss))"

lemma absorb_length [simp]: "length (snd (absorb r ss)) \<le> length ss"
  by (induction r ss rule: absorb.induct) (auto simp: le_Suc_eq)

function merge_sorted :: "uu_range list \<Rightarrow> uu_range list" where
  "merge_sorted [] = []"
| "merge_sorted (r # rs) = (let (r', rest) = absorb r rs in r' # merge_sorted rest)"
  by pat_completeness auto
termination
  by (relation "measure length") (auto simp: less_Suc_eq_le dest!: sym [of "(_, _)"], metis absorb_length snd_conv)

definition merge_ranges :: "uu_range list \<Rightarrow> uu_range list" where
  "merge_ranges rs = merge_sorted (sort rs)"

definition range_from_list :: "(bytes \<Rightarrow> bytes) \<Rightarrow> bytes \<Rightarrow> bytes + uu_range list" where
  "range_from_list quote s = map_sum id merge_ranges (parse_items quote (split_items s))"

section \<open>Complement and membership\<close>

fun complement_from :: "nat \<Rightarrow> uu_range list \<Rightarrow> uu_range list" where
  "complement_from prev [] =
     (if prev < usize_max - 1 then [Range (prev + 1) (usize_max - 1)] else [])"
| "complement_from prev (r # rs) =
     (if prev + 1 < low r then [Range (prev + 1) (low r - 1)] else []) @ complement_from (high r) rs"

definition complement :: "uu_range list \<Rightarrow> uu_range list" where
  "complement rs = complement_from 0 rs"

definition contain :: "uu_range list \<Rightarrow> nat \<Rightarrow> bool" where
  "contain rs n \<longleftrightarrow> list_ex (\<lambda>r. low r \<le> n \<and> n \<le> high r) rs"

section \<open>Facts\<close>

text \<open>A range that the parser makes.\<close>

definition proper_range :: "uu_range \<Rightarrow> bool" where
  "proper_range r \<longleftrightarrow> 1 \<le> low r \<and> low r \<le> high r \<and> high r < usize_max"

text \<open>Disjoint ranges in order.\<close>

definition separated :: "uu_range list \<Rightarrow> bool" where
  "separated rs \<longleftrightarrow> sorted_wrt (\<lambda>r s. high r < low s) rs \<and> list_all proper_range rs"

lemma contain_Nil [simp]: "\<not> contain [] n"
  by (simp add: contain_def)

lemma contain_Cons [simp]: "contain (r # rs) n \<longleftrightarrow> (low r \<le> n \<and> n \<le> high r) \<or> contain rs n"
  by (simp add: contain_def)

lemma contain_append [simp]: "contain (rs @ ss) n \<longleftrightarrow> contain rs n \<or> contain ss n"
  by (simp add: contain_def)

lemma contain_sort [simp]: "contain (sort rs) n = contain rs n"
  by (simp add: contain_def list_ex_iff)

lemma parse_bound_range: "parse_bound s = Inr n \<Longrightarrow> 1 \<le> n \<and> n < usize_max"
  by (auto simp: parse_bound_def usize_max_def split: option.splits if_splits dest: parse_unsigned_bound)

lemma range_from_str_proper: "range_from_str s = Inr r \<Longrightarrow> proper_range r"
  by (auto simp: range_from_str_def proper_range_def usize_max_def map_sum_def
      dest!: parse_bound_range [unfolded usize_max_def] split: option.splits if_splits sum.splits)

lemma parse_items_proper: "parse_items quote ws = Inr rs \<Longrightarrow> list_all proper_range rs"
  by (induction ws arbitrary: rs)
    (auto dest: range_from_str_proper simp: map_sum_def split: sum.splits)

text \<open>Absorbing a run of ranges that start after the first one begins.\<close>

lemma absorb_properties:
  assumes "absorb r ss = (r', rest)" and "\<forall>s\<in>set ss. low r \<le> low s" and "sorted ss"
    and "proper_range r" and "list_all proper_range ss"
  shows "low r' = low r \<and> proper_range r' \<and> sorted rest \<and> list_all proper_range rest
    \<and> (\<forall>s\<in>set rest. high r' < low s)
    \<and> (\<forall>n. contain (r' # rest) n = contain (r # ss) n)"
  using assms
proof (induction r ss rule: absorb.induct)
  case (2 r s ss)
  show ?case
  proof (cases "low s \<le> high r")
    case True
    let ?r = "Range (low r) (max (high r) (high s))"
    have "proper_range ?r" using 2(5,6) by (auto simp: proper_range_def)
    moreover have "contain (?r # ss) n = contain (r # s # ss) n" for n
      using True 2(3,5,6) by (auto simp: proper_range_def)
    ultimately show ?thesis
      using 2(1) [OF True] 2(2-6) True by auto
  next
    case False
    then have e: "r' = r" "rest = s # ss" using 2(2) by auto
    have "high r < low t" if "t \<in> set (s # ss)" for t
    proof -
      have "low s \<le> low t" using that 2(4) by (auto simp: less_eq_uu_range_def)
      with False show ?thesis by simp
    qed
    with e 2(4-6) show ?thesis by simp
  qed
qed auto

lemma merge_sorted_properties:
  "sorted rs \<Longrightarrow> list_all proper_range rs \<Longrightarrow>
     separated (merge_sorted rs) \<and> (\<forall>n. contain (merge_sorted rs) n = contain rs n)
     \<and> (\<forall>l. (\<forall>r\<in>set rs. l < low r) \<longrightarrow> (\<forall>r\<in>set (merge_sorted rs). l < low r))"
proof (induction rs rule: merge_sorted.induct)
  case 1
  then show ?case by (simp add: separated_def)
next
  case (2 r rs)
  obtain r' rest where a: "absorb r rs = (r', rest)" by fastforce
  have "\<forall>s\<in>set rs. low r \<le> low s" using 2(2) by (auto simp: less_eq_uu_range_def)
  note p = absorb_properties [OF a this] 
  have q: "low r' = low r" "proper_range r'" "sorted rest" "list_all proper_range rest"
    "\<forall>s\<in>set rest. high r' < low s" "\<And>n. contain (r' # rest) n = contain (r # rs) n"
    using p 2(2,3) by auto
  note ih = 2(1) [OF a [symmetric] refl q(3,4)]
  have above: "\<forall>s\<in>set (merge_sorted rest). high r' < low s" using ih q(5) by simp
  have "contain (merge_sorted (r # rs)) n = contain (r # rs) n" for n
    using ih q(6) [of n] a by simp
  moreover have "(\<forall>s\<in>set (r # rs). l < low s) \<longrightarrow> (\<forall>s\<in>set (merge_sorted (r # rs)). l < low s)" for l
  proof
    assume l: "\<forall>s\<in>set (r # rs). l < low s"
    have "l < low r'" "l < high r'" using l q(1,2) by (auto simp: proper_range_def)
    moreover have "l < low s" if "s \<in> set (merge_sorted rest)" for s
      using above that \<open>l < high r'\<close> by fastforce
    ultimately show "\<forall>s\<in>set (merge_sorted (r # rs)). l < low s" by (simp add: a)
  qed
  moreover have "separated (merge_sorted (r # rs))"
    using ih q(2) above by (simp add: separated_def a)
  ultimately show ?case by blast
qed

lemma merge_ranges_properties:
  assumes "list_all proper_range rs"
  shows "separated (merge_ranges rs)" "contain (merge_ranges rs) n = contain rs n"
  using merge_sorted_properties [of "sort rs"] assms by (auto simp: merge_ranges_def list_all_iff)

lemma complement_from_correct:
  "separated rs \<Longrightarrow> \<forall>r\<in>set rs. prev < low r \<Longrightarrow> prev < usize_max \<Longrightarrow>
     contain (complement_from prev rs) n \<longleftrightarrow> prev < n \<and> n < usize_max \<and> \<not> contain rs n"
proof (induction prev rs rule: complement_from.induct)
  case (1 prev)
  then show ?case by (auto simp: usize_max_def)
next
  case (2 prev r rs)
  have r: "proper_range r" "separated rs" "\<forall>s\<in>set rs. high r < low s"
    using 2(2) by (auto simp: separated_def)
  then have "contain (complement_from (high r) rs) n \<longleftrightarrow> high r < n \<and> n < usize_max \<and> \<not> contain rs n"
    by (intro 2(1)) (auto simp: proper_range_def)
  moreover have "contain rs n \<Longrightarrow> high r < n" using r(3) by (auto simp: contain_def list_ex_iff)
  ultimately show ?case using r(1) 2(3) by (auto simp: proper_range_def)
qed

section \<open>Properties\<close>

text \<open>Claim C28: A list of ranges is read to its meaning: the ranges that result are in order, disjoint and
  within 1 and the largest position; they hold exactly the positions of the items; and the complement
  holds exactly the other positions.\<close>

theorem range_list_partitions:
  assumes "range_from_list quote s = Inr rs"
  shows "separated rs
    \<and> (\<forall>n. contain rs n \<longleftrightarrow> list_ex (\<lambda>w. case range_from_str w of Inr r \<Rightarrow> low r \<le> n \<and> n \<le> high r | Inl e \<Rightarrow> False) (split_items s))
    \<and> (\<forall>n. contain (complement rs) n \<longleftrightarrow> 1 \<le> n \<and> n < usize_max \<and> \<not> contain rs n)"
proof -
  from assms obtain qs where items: "parse_items quote (split_items s) = Inr qs" and rs: "rs = merge_ranges qs"
    by (auto simp: range_from_list_def map_sum_def split: sum.splits)
  have p: "list_all proper_range qs" by (rule parse_items_proper [OF items])
  have "contain qs n \<longleftrightarrow> list_ex (\<lambda>w. case range_from_str w of Inr r \<Rightarrow> low r \<le> n \<and> n \<le> high r | Inl e \<Rightarrow> False) ws"
    if "parse_items quote ws = Inr qs" for ws qs n
    using that by (induction ws arbitrary: qs) (auto simp: map_sum_def split: sum.splits)
  note items' = this [OF items]
  have sep: "separated rs" using merge_ranges_properties(1) [OF p] rs by simp
  have "\<forall>r\<in>set rs. 0 < low r" using sep by (auto simp: separated_def list_all_iff proper_range_def)
  then have "contain (complement rs) n \<longleftrightarrow> 1 \<le> n \<and> n < usize_max \<and> \<not> contain rs n" for n
    using complement_from_correct [OF sep, of 0 n] by (auto simp: complement_def usize_max_def)
  with sep items' merge_ranges_properties(2) [OF p] rs show ?thesis by auto
qed

lemma range_list_partitions_witness:
  "separated [Range 2 8, Range 9 9] \<and> \<not> contain (complement [Range 2 8, Range 9 9]) 5"
proof -
  have "range_from_list id ''9,2-6 5-8'' = Inr [Range 2 8, Range 9 9]"
    by (simp add: range_from_list_def range_from_str_def parse_bound_def parse_unsigned_def to_digit_def digit_val_def
        byte_def between_def usize_max_def merge_ranges_def less_eq_uu_range_def)
  from range_list_partitions [OF this] show ?thesis by simp
qed

text \<open>Adjacent ranges stay apart.\<close>

lemma adjacent_not_merged: "merge_ranges [Range 1 3, Range 4 6] = [Range 1 3, Range 4 6]"
  by (simp add: merge_ranges_def less_eq_uu_range_def)

end
