(* ===== verification/Uu_FastInc.thy ===== *)
theory Uu_FastInc
  imports RustStr
begin

text \<open>
  The increment of a decimal number kept as digits in a buffer with room in front
  (\<open>stubs/uucore/src/lib/features/fast_inc.rs\<close>), which \<open>seq\<close> and \<open>cat -n\<close> count with.  Bytes are 8-bit
  words; \<open>None\<close> is a panic: an access outside the buffer, which is also what the position below zero comes to.
\<close>

section \<open>The two functions\<close>

type_synonym u8 = "8 word"

text \<open>The first loop, over the digits of the increment from the last one.\<close>

fun add_digits :: "u8 list \<Rightarrow> u8 list \<Rightarrow> nat \<Rightarrow> nat \<Rightarrow> u8 \<Rightarrow> (u8 list \<times> nat \<times> u8) option" where
  "add_digits [] buf start pos carry = Some (buf, pos, carry)"
| "add_digits (d # ds) buf start 0 carry = None"
| "add_digits (d # ds) buf start (Suc p) carry =
     (if length buf \<le> p then None
      else let s = d + carry + (if start \<le> p then buf ! p - 48 else 0) in
           if 57 < s then add_digits ds (buf[p := s - 10]) start p 1
           else add_digits ds (buf[p := s]) start p 0)"

text \<open>The loop of the increment by one: the buffer, and whether the carry was taken up.\<close>

fun carry_loop :: "u8 list \<Rightarrow> nat \<Rightarrow> nat \<Rightarrow> (u8 list \<times> bool) option" where
  "carry_loop buf start 0 = Some (buf, False)"
| "carry_loop buf start (Suc p) =
     (if Suc p \<le> start then Some (buf, False)
      else if length buf \<le> p then None
      else if buf ! p = 57 then carry_loop (buf[p := 48]) start p
      else Some (buf[p := buf ! p + 1], True))"

definition fast_inc_one :: "u8 list \<Rightarrow> nat \<Rightarrow> nat \<Rightarrow> (u8 list \<times> nat) option" where
  "fast_inc_one buf start pos =
     (case carry_loop buf start pos of
        None \<Rightarrow> None
      | Some (buf1, True) \<Rightarrow> Some (buf1, start)
      | Some (buf1, False) \<Rightarrow>
          if start = 0 \<or> length buf1 \<le> start - 1 then None else Some (buf1[start - 1 := 49], start - 1))"

definition fast_inc :: "u8 list \<Rightarrow> nat \<Rightarrow> nat \<Rightarrow> u8 list \<Rightarrow> (u8 list \<times> nat) option" where
  "fast_inc buf start stop inc =
     (case add_digits (rev inc) buf start stop 0 of
        None \<Rightarrow> None
      | Some (buf1, pos, carry) \<Rightarrow>
          if carry = 0 then Some (buf1, min start pos) else fast_inc_one buf1 start pos)"

section \<open>The number in a buffer\<close>

definition is_digit8 :: "u8 \<Rightarrow> bool" where
  "is_digit8 d \<longleftrightarrow> 48 \<le> d \<and> d \<le> 57"

definition digit8 :: "u8 \<Rightarrow> nat" where
  "digit8 d = unat d - 48"

definition digits_number :: "u8 list \<Rightarrow> nat" where
  "digits_number ds = foldl (\<lambda>n d. 10 * n + digit8 d) 0 ds"

text \<open>The bytes from \<open>a\<close> to before \<open>b\<close>, those in front of \<open>start\<close> read as zeros.\<close>

definition padded :: "u8 list \<Rightarrow> nat \<Rightarrow> nat \<Rightarrow> nat \<Rightarrow> u8 list" where
  "padded buf start a b = map (\<lambda>i. if start \<le> i then buf ! i else 48) [a..<b]"

definition slice8 :: "u8 list \<Rightarrow> nat \<Rightarrow> nat \<Rightarrow> u8 list" where
  "slice8 buf a b = map ((!) buf) [a..<b]"

lemma digits_number_snoc [simp]: "digits_number (ds @ [d]) = 10 * digits_number ds + digit8 d"
  by (simp add: digits_number_def)

lemma digits_number_Nil [simp]: "digits_number [] = 0"
  by (simp add: digits_number_def)

lemma digits_number_append:
  "digits_number (xs @ ys) = digits_number xs * 10 ^ length ys + digits_number ys"
  by (induction ys rule: rev_induct) (simp_all flip: append_assoc add: algebra_simps)

lemma digit8_48 [simp]: "digit8 48 = 0" "digit8 49 = 1" "digit8 57 = 9"
  by (simp_all add: digit8_def)

lemma digit8_bound: "is_digit8 d \<Longrightarrow> digit8 d \<le> 9"
  by (auto simp: is_digit8_def digit8_def word_le_nat_alt)

lemma digits_number_bound: "list_all is_digit8 ds \<Longrightarrow> digits_number ds < 10 ^ length ds"
  by (induction ds rule: rev_induct) (auto dest!: digit8_bound)

text \<open>One column of the addition.\<close>

lemma digit_sum:
  assumes "is_digit8 d" "is_digit8 e" "c \<le> 1" "s = d + c + (e - 48)"
  shows "(57 < s \<longrightarrow> is_digit8 (s - 10) \<and> digit8 (s - 10) + 10 = digit8 d + unat c + digit8 e)
    \<and> (\<not> 57 < s \<longrightarrow> is_digit8 s \<and> digit8 s = digit8 d + unat c + digit8 e)"
proof -
  have u: "48 \<le> unat d" "unat d \<le> 57" "48 \<le> unat e" "unat e \<le> 57" "unat c \<le> 1"
    using assms by (simp_all add: is_digit8_def word_le_nat_alt)
  have "unat (e - 48) = unat e - 48" using u by (subst unat_sub) (simp_all add: word_le_nat_alt)
  moreover have "unat (d + c) = unat d + unat c" using u by (subst unat_add_lem [THEN iffD1]) simp_all
  ultimately have s: "unat s = unat d + unat c + (unat e - 48)"
    using u assms(4) by (subst assms(4), subst unat_add_lem [THEN iffD1]) simp_all
  have "unat (s - 10) = unat s - 10" if "57 < s"
    using that by (subst unat_sub) (simp_all add: word_le_nat_alt word_less_nat_alt)
  with s u show ?thesis
    by (auto simp: is_digit8_def digit8_def word_le_nat_alt word_less_nat_alt)
qed

lemma padded_snoc: "a \<le> p \<Longrightarrow> padded buf start a (Suc p) = padded buf start a p @ [if start \<le> p then buf ! p else 48]"
  by (simp add: padded_def)

lemma slice8_snoc: "a \<le> p \<Longrightarrow> slice8 buf a (Suc p) = slice8 buf a p @ [buf ! p]"
  by (simp add: slice8_def)

lemma padded_update [simp]: "b \<le> p \<Longrightarrow> padded (buf[p := x]) start a b = padded buf start a b"
  by (simp add: padded_def)

lemma slice8_length [simp]: "length (slice8 buf a b) = b - a"
  by (simp add: slice8_def)

lemma slice8_split: "a \<le> b \<Longrightarrow> b \<le> c \<Longrightarrow> slice8 buf a c = slice8 buf a b @ slice8 buf b c"
  by (induction rule: dec_induct) (simp_all add: slice8_def upt_conv_Cons)

lemma padded_slice8: "start \<le> a \<Longrightarrow> padded buf start a b = slice8 buf a b"
  by (simp add: padded_def slice8_def)

section \<open>The loops\<close>

lemma add_digits_sum:
  assumes "length ds \<le> pos" "pos \<le> length buf" "list_all is_digit8 ds" "c \<le> 1"
    and "\<And>i. start \<le> i \<Longrightarrow> i < pos \<Longrightarrow> is_digit8 (buf ! i)"
  shows "\<exists>buf' c'. add_digits ds buf start pos c = Some (buf', pos - length ds, c') \<and> length buf' = length buf
    \<and> (\<forall>i. i < pos - length ds \<or> pos \<le> i \<longrightarrow> buf' ! i = buf ! i) \<and> c' \<le> 1
    \<and> (\<forall>i. pos - length ds \<le> i \<and> i < pos \<longrightarrow> is_digit8 (buf' ! i))
    \<and> digits_number (slice8 buf' (pos - length ds) pos) + unat c' * 10 ^ length ds
      = digits_number (padded buf start (pos - length ds) pos) + digits_number (rev ds) + unat c"
  using assms
proof (induction ds arbitrary: buf pos c)
  case Nil
  then show ?case by (simp add: slice8_def padded_def)
next
  case (Cons d ds)
  obtain p where p: "pos = Suc p" using Cons.prems(1) by (cases pos) auto
  define s where "s = d + c + (if start \<le> p then buf ! p - 48 else 0)"
  define e where "e = (if start \<le> p then buf ! p else 48)"
  have e: "is_digit8 e" using Cons.prems(5) p by (auto simp: e_def is_digit8_def)
  have s: "s = d + c + (e - 48)" by (simp add: s_def e_def)
  define x where "x = (if 57 < s then s - 10 else s)"
  define c1 :: u8 where "c1 = (if 57 < s then 1 else 0)"
  have x: "is_digit8 x" "digit8 x + 10 * unat c1 = digit8 d + unat c + digit8 e"
    using digit_sum [OF _ e Cons.prems(4) s] Cons.prems(3) by (auto simp: x_def c1_def)
  have step: "add_digits (d # ds) buf start pos c = add_digits ds (buf[p := x]) start p c1"
    using Cons.prems(2) p by (simp add: x_def c1_def s_def Let_def)
  have "length ds \<le> p" "p \<le> length (buf[p := x])" "list_all is_digit8 ds" "c1 \<le> 1"
    using Cons.prems p by (auto simp: c1_def)
  moreover have "is_digit8 (buf[p := x] ! i)" if "start \<le> i" "i < p" for i
    using that Cons.prems(5) p by simp
  ultimately obtain buf' c' where r:
    "add_digits ds (buf[p := x]) start p c1 = Some (buf', p - length ds, c')" "length buf' = length buf"
    "\<forall>i. i < p - length ds \<or> p \<le> i \<longrightarrow> buf' ! i = buf[p := x] ! i" "c' \<le> 1"
    "\<forall>i. p - length ds \<le> i \<and> i < p \<longrightarrow> is_digit8 (buf' ! i)"
    "digits_number (slice8 buf' (p - length ds) p) + unat c' * 10 ^ length ds
      = digits_number (padded buf start (p - length ds) p) + digits_number (rev ds) + unat c1"
    using Cons.IH [of p "buf[p := x]" c1] by (auto simp: length_list_update)
  have q: "buf' ! p = x" using r(3) p Cons.prems(2) by simp
  have le: "p - length ds \<le> p" by simp
  have "digits_number (slice8 buf' (p - length ds) (Suc p)) + unat c' * 10 ^ length (d # ds)
      = 10 * (digits_number (slice8 buf' (p - length ds) p) + unat c' * 10 ^ length ds) + digit8 x"
    by (simp add: slice8_snoc [OF le] q)
  also have "\<dots> = 10 * (digits_number (padded buf start (p - length ds) p) + digits_number (rev ds)) + 10 * unat c1 + digit8 x"
    by (simp add: r(6))
  also have "\<dots> = digits_number (padded buf start (p - length ds) (Suc p)) + digits_number (rev (d # ds)) + unat c"
    using x(2) by (simp add: padded_snoc [OF le] e_def)
  finally have sum: "digits_number (slice8 buf' (p - length ds) (Suc p)) + unat c' * 10 ^ length (d # ds)
      = digits_number (padded buf start (p - length ds) (Suc p)) + digits_number (rev (d # ds)) + unat c" .
  have "\<forall>i. i < p - length ds \<or> Suc p \<le> i \<longrightarrow> buf' ! i = buf ! i" using r(3) by (auto simp: nth_list_update_neq)
  moreover have "\<forall>i. p - length ds \<le> i \<and> i < Suc p \<longrightarrow> is_digit8 (buf' ! i)"
    using r(5) q x(1) by (auto simp: less_Suc_eq)
  ultimately show ?case using step r(1,2,4) sum p by simp
qed

lemma digit_next:
  assumes "is_digit8 d" "d \<noteq> 57"
  shows "is_digit8 (d + 1)" "digit8 (d + 1) = digit8 d + 1"
proof -
  have u: "48 \<le> unat d" "unat d \<le> 57" "unat d \<noteq> 57"
    using assms by (auto simp: is_digit8_def word_le_nat_alt word_unat_eq_iff)
  then have "unat (d + 1) = unat d + 1" by (subst unat_add_lem [THEN iffD1]) simp_all
  with u show "is_digit8 (d + 1)" "digit8 (d + 1) = digit8 d + 1"
    by (simp_all add: is_digit8_def digit8_def word_le_nat_alt)
qed

lemma carry_loop_sum:
  assumes "start \<le> pos" "pos \<le> length buf" "\<And>i. start \<le> i \<Longrightarrow> i < pos \<Longrightarrow> is_digit8 (buf ! i)"
  shows "\<exists>buf' taken. carry_loop buf start pos = Some (buf', taken) \<and> length buf' = length buf
    \<and> (\<forall>i. i < start \<or> pos \<le> i \<longrightarrow> buf' ! i = buf ! i)
    \<and> (\<forall>i. start \<le> i \<and> i < pos \<longrightarrow> is_digit8 (buf' ! i))
    \<and> digits_number (slice8 buf' start pos) + (if taken then 0 else 10 ^ (pos - start))
      = digits_number (slice8 buf start pos) + 1"
  using assms
proof (induction pos arbitrary: buf)
  case 0
  show ?case by (intro exI [of _ buf] exI [of _ False]) (use 0 in \<open>simp add: slice8_def\<close>)
next
  case (Suc p)
  show ?case
  proof (cases "Suc p = start")
    case True
    then show ?thesis
      by (intro exI [of _ buf] exI [of _ False]) (use True Suc.prems in \<open>auto simp: slice8_def\<close>)
  next
    case False
    with Suc.prems(1) have sp: "start \<le> p" by simp
    have len: "p < length buf" using Suc.prems(2) by simp
    have d: "is_digit8 (buf ! p)" using Suc.prems(3) sp by simp
    show ?thesis
    proof (cases "buf ! p = 57")
      case True
      obtain buf' taken where r: "carry_loop (buf[p := 48]) start p = Some (buf', taken)" "length buf' = length buf"
        "\<forall>i. i < start \<or> p \<le> i \<longrightarrow> buf' ! i = buf[p := 48] ! i"
        "\<forall>i. start \<le> i \<and> i < p \<longrightarrow> is_digit8 (buf' ! i)"
        "digits_number (slice8 buf' start p) + (if taken then 0 else 10 ^ (p - start))
          = digits_number (slice8 (buf[p := 48]) start p) + 1"
        using Suc.IH [OF sp, of "buf[p := 48]"] Suc.prems(3) len by auto
      have same: "slice8 (buf[p := 48]) start p = slice8 buf start p" by (simp add: slice8_def)
      have q: "buf' ! p = 48" using r(3) len by simp
      have "digits_number (slice8 buf' start (Suc p)) + (if taken then 0 else 10 ^ (Suc p - start))
          = 10 * (digits_number (slice8 buf' start p) + (if taken then 0 else 10 ^ (p - start)))"
        using sp by (simp add: slice8_snoc q Suc_diff_le)
      also have "\<dots> = digits_number (slice8 buf start (Suc p)) + 1"
        using sp True by (simp add: slice8_snoc r(5) same)
      finally have sum: "digits_number (slice8 buf' start (Suc p)) + (if taken then 0 else 10 ^ (Suc p - start))
          = digits_number (slice8 buf start (Suc p)) + 1" .
      have "\<forall>i. i < start \<or> Suc p \<le> i \<longrightarrow> buf' ! i = buf ! i" using r(3) sp by (auto simp: nth_list_update_neq)
      moreover have "\<forall>i. start \<le> i \<and> i < Suc p \<longrightarrow> is_digit8 (buf' ! i)"
        using r(4) q by (auto simp: less_Suc_eq is_digit8_def)
      ultimately show ?thesis using r(1,2) sum True len sp False by simp
    next
      case 2: False
      have "slice8 (buf[p := buf ! p + 1]) start p = slice8 buf start p" by (simp add: slice8_def)
      then show ?thesis
        using digit_next [OF d 2] 2 len sp False Suc.prems(3)
        by (auto simp: slice8_snoc nth_list_update less_Suc_eq)
    qed
  qed
qed

lemma digits_number_padded:
  assumes "a \<le> start" "start \<le> b"
  shows "digits_number (padded buf start a b) = digits_number (slice8 buf start b)"
  using assms(2)
proof (induction b rule: dec_induct)
  case base
  have "digits_number (padded buf start a b) = 0" if "b \<le> start" for b
    using that
  proof (induction b)
    case (Suc b)
    then show ?case by (cases "a \<le> b") (simp_all add: padded_snoc, simp add: padded_def)
  qed (simp add: padded_def)
  from this [of start] show ?case by (simp add: slice8_def)
next
  case (step b)
  then show ?case using assms(1) by (simp add: padded_snoc slice8_snoc)
qed

lemma slice8_cong: "\<forall>i. a \<le> i \<and> i < b \<longrightarrow> buf ! i = buf' ! i \<Longrightarrow> slice8 buf a b = slice8 buf' a b"
  by (simp add: slice8_def)

text \<open>The result of a call: a buffer that differs from \<open>buf\<close> only between the new start and \<open>stop\<close>, where it holds the
  number \<open>v\<close>.\<close>

definition holds :: "u8 list \<Rightarrow> nat \<Rightarrow> nat \<Rightarrow> nat \<Rightarrow> u8 list \<Rightarrow> nat \<Rightarrow> bool" where
  "holds buf start stop v buf' start' \<longleftrightarrow>
     start' \<le> start \<and> length buf' = length buf \<and> list_all is_digit8 (slice8 buf' start' stop)
     \<and> (\<forall>i. i < start' \<or> stop \<le> i \<longrightarrow> buf' ! i = buf ! i) \<and> digits_number (slice8 buf' start' stop) = v"

lemma leading_one:
  assumes "start = Suc q" "start \<le> stop" "stop \<le> length buf" "\<And>i. start \<le> i \<Longrightarrow> i < stop \<Longrightarrow> is_digit8 (buf ! i)"
  shows "digits_number (slice8 (buf[q := 49]) q stop) = 10 ^ (stop - start) + digits_number (slice8 buf start stop)"
    and "list_all is_digit8 (slice8 (buf[q := 49]) q stop)"
proof -
  have s: "slice8 (buf[q := 49]) q stop = 49 # slice8 buf start stop"
    using assms(1-3) by (simp add: slice8_def upt_conv_Cons)
  show "digits_number (slice8 (buf[q := 49]) q stop) = 10 ^ (stop - start) + digits_number (slice8 buf start stop)"
    using digits_number_append [of "[49]" "slice8 buf start stop"] digits_number_snoc [of "[]" 49] by (simp add: s)
  show "list_all is_digit8 (slice8 (buf[q := 49]) q stop)"
    unfolding s using assms(4) by (auto simp: slice8_def list_all_iff is_digit8_def)
qed

lemma slice8_number_split:
  "start \<le> pos \<Longrightarrow> pos \<le> stop \<Longrightarrow> digits_number (slice8 b start stop)
     = digits_number (slice8 b start pos) * 10 ^ (stop - pos) + digits_number (slice8 b pos stop)"
  using slice8_split [of start pos stop b] by (simp add: digits_number_append)

lemma fast_inc_one_adds:
  assumes "start \<le> pos" "pos \<le> stop" "stop \<le> length buf" "\<And>i. start \<le> i \<Longrightarrow> i < stop \<Longrightarrow> is_digit8 (buf ! i)"
    and "digits_number (slice8 buf start stop) + 10 ^ (stop - pos) < 10 ^ stop"
  shows "\<exists>buf' start'. fast_inc_one buf start pos = Some (buf', start')
    \<and> holds buf start stop (digits_number (slice8 buf start stop) + 10 ^ (stop - pos)) buf' start'"
proof -
  note split = slice8_number_split [OF assms(1,2)]
  obtain b2 taken where b2: "carry_loop buf start pos = Some (b2, taken)" "length b2 = length buf"
    "\<forall>i. i < start \<or> pos \<le> i \<longrightarrow> b2 ! i = buf ! i" "\<forall>i. start \<le> i \<and> i < pos \<longrightarrow> is_digit8 (b2 ! i)"
    "digits_number (slice8 b2 start pos) + (if taken then 0 else 10 ^ (pos - start)) = digits_number (slice8 buf start pos) + 1"
    using carry_loop_sum [OF assms(1), of buf] assms(2-4) by auto
  have same: "slice8 b2 pos stop = slice8 buf pos stop" using b2(3) by (auto intro!: slice8_cong)
  have pow: "(10::nat) ^ (stop - start) = 10 ^ (pos - start) * 10 ^ (stop - pos)"
    using assms(1,2) by (simp flip: power_add)
  have "digits_number (slice8 b2 start stop) + (if taken then 0 else 10 ^ (stop - start))
      = (digits_number (slice8 b2 start pos) + (if taken then 0 else 10 ^ (pos - start))) * 10 ^ (stop - pos)
        + digits_number (slice8 buf pos stop)"
    by (simp add: split same pow algebra_simps)
  then have sum: "digits_number (slice8 b2 start stop) + (if taken then 0 else 10 ^ (stop - start))
      = digits_number (slice8 buf start stop) + 10 ^ (stop - pos)"
    unfolding b2(5) by (simp add: split algebra_simps)
  have d2: "is_digit8 (b2 ! i)" if "start \<le> i" "i < stop" for i
    using that b2(3,4) assms(4) by (cases "i < pos") auto
  show ?thesis
  proof (cases taken)
    case True
    then have "fast_inc_one buf start pos = Some (b2, start)" using b2(1) by (simp add: fast_inc_one_def)
    then show ?thesis using sum True b2(2,3) d2 assms(2) by (auto simp: holds_def slice8_def list_all_iff)
  next
    case False
    have "start \<noteq> 0"
    proof
      assume "start = 0"
      with sum False assms(5) show False by simp
    qed
    then obtain q where q: "start = Suc q" by (cases start) auto
    have "fast_inc_one buf start pos = Some (b2[q := 49], q)"
      using b2(1,2) False q assms(1-3) by (simp add: fast_inc_one_def)
    moreover have "holds buf start stop (digits_number (slice8 buf start stop) + 10 ^ (stop - pos)) (b2[q := 49]) q"
      using leading_one [OF q, of stop b2] sum False b2(2,3) d2 assms(1-3) q
      by (auto simp: holds_def nth_list_update)
    ultimately show ?thesis by blast
  qed
qed

section \<open>Properties\<close>

text \<open>Claim C29: The increment adds: with digits in the value and in the increment, room in front, and an
  increment that is no longer than the value (or whose sum has no more digits than it), the call ends
  without a panic, the number between the new start and the end is the sum, and every byte outside is as
  it was.\<close>

theorem fast_inc_adds:
  assumes "start \<le> stop" "stop \<le> length buf" "list_all is_digit8 (slice8 buf start stop)" "list_all is_digit8 inc"
    and "length inc \<le> stop - start
      \<or> length inc \<le> stop \<and> digits_number (slice8 buf start stop) + digits_number inc < 10 ^ length inc"
    and "digits_number (slice8 buf start stop) + digits_number inc < 10 ^ stop"
  shows "\<exists>buf' start'. fast_inc buf start stop inc = Some (buf', start') \<and> start' \<le> start
    \<and> length buf' = length buf \<and> list_all is_digit8 (slice8 buf' start' stop)
    \<and> (\<forall>i. i < start' \<or> stop \<le> i \<longrightarrow> buf' ! i = buf ! i)
    \<and> digits_number (slice8 buf' start' stop) = digits_number (slice8 buf start stop) + digits_number inc"
proof -
  define pos where "pos = stop - length inc"
  have L: "length inc \<le> stop" using assms(5) by auto
  have dig: "is_digit8 (buf ! i)" if "start \<le> i" "i < stop" for i
    using assms(3) that by (simp add: slice8_def list_all_iff)
  obtain b1 c where b1: "add_digits (rev inc) buf start stop 0 = Some (b1, pos, c)" "length b1 = length buf"
    "\<forall>i. i < pos \<or> stop \<le> i \<longrightarrow> b1 ! i = buf ! i" "c \<le> 1" "\<forall>i. pos \<le> i \<and> i < stop \<longrightarrow> is_digit8 (b1 ! i)"
    "digits_number (slice8 b1 pos stop) + unat c * 10 ^ length inc = digits_number (padded buf start pos stop) + digits_number inc"
    using add_digits_sum [of "rev inc" stop buf 0 start] assms(2,4) L dig by (auto simp: pos_def list_all_iff)
  have len: "stop - pos = length inc" "pos \<le> stop" using L by (auto simp: pos_def)
  show ?thesis
  proof (cases "start \<le> pos")
    case False
    then have pad: "digits_number (padded buf start pos stop) = digits_number (slice8 buf start stop)"
      using assms(1) by (intro digits_number_padded) auto
    have "digits_number (slice8 buf start stop) + digits_number inc < 10 ^ length inc"
      using assms(1,5) False len by auto
    then have "unat c = 0" using b1(6) pad by (cases "unat c") auto
    then have "c = 0" by (simp add: unat_eq_0)
    then show ?thesis using b1 False pad by (auto simp: fast_inc_def slice8_def list_all_iff)
  next
    case True
    have same: "slice8 b1 start pos = slice8 buf start pos" by (rule slice8_cong) (use b1(3) in simp)
    have sum: "digits_number (slice8 b1 start stop) + unat c * 10 ^ (stop - pos)
        = digits_number (slice8 buf start stop) + digits_number inc"
      using b1(6) slice8_number_split [OF True len(2)] by (simp add: padded_slice8 [OF True] same len(1))
    have d1: "is_digit8 (b1 ! i)" if "start \<le> i" "i < stop" for i
      using that b1(3,5) dig by (cases "i < pos") auto
    show ?thesis
    proof (cases "c = 0")
      case c: True
      then show ?thesis using b1 True sum d1 by (auto simp: fast_inc_def slice8_def list_all_iff min_def)
    next
      case c: False
      then have "unat c = 1" using b1(4) by (auto simp: word_le_nat_alt unat_eq_0 le_Suc_eq)
      then obtain b2 s2 where "fast_inc_one b1 start pos = Some (b2, s2)"
          "holds b1 start stop (digits_number (slice8 buf start stop) + digits_number inc) b2 s2"
        using fast_inc_one_adds [OF True len(2), of b1] assms(2,6) b1(2) d1 sum by auto
      then show ?thesis using b1 c True by (auto simp: fast_inc_def holds_def)
    qed
  qed
qed

lemma fast_inc_adds_witness:
  "\<exists>buf' start'. fast_inc [46, 57, 56, 95] 1 3 [53] = Some (buf', start') \<and> digits_number (slice8 buf' start' 3) = 103"
proof -
  have "list_all is_digit8 (slice8 [46, 57, 56, 95] 1 3)" "list_all is_digit8 [53]"
    "digits_number (slice8 [46, 57, 56, 95] 1 3) = 98" "digits_number [53] = 5"
    by (simp_all add: slice8_def is_digit8_def digits_number_def digit8_def upt_rec)
  with fast_inc_adds [of 1 3 "[46, 57, 56, 95]" "[53]"] show ?thesis by auto
qed

text \<open>An increment longer than the value loses a digit when the sum is longer still: \<open>5 + 95\<close> gives
  \<open>10\<close>, because the start is not moved to the digits already written before the carry is added.\<close>

lemma long_increment_loses_digit: "fast_inc [46, 46, 46, 53] 3 4 [57, 53] = Some ([46, 46, 49, 48], 2)"
  by code_simp

end
