(* ===== verification/Uu_Size.thy ===== *)
theory Uu_Size
  imports RustStr
begin

text \<open>
  Sizes with units such as \<open>10K\<close> or \<open>0x1fMiB\<close> (\<open>stubs/uucore/src/lib/features/parser/parse_size.rs\<close>) and the
  signed numbers of \<open>head\<close> and \<open>tail\<close> (\<open>parser/parse_signed_num.rs\<close>).  The quoting in error texts and the
  physical memory of the machine (\<open>None\<close> where it cannot be found, as on WASI) are parameters.
\<close>

section \<open>Errors\<close>

datatype size_error =
    InvalidSuffix bytes | ParseFailure bytes | SizeTooBig bytes | PhysicalMem bytes

fun show_size_error :: "size_error \<Rightarrow> bytes" where
  "show_size_error (InvalidSuffix s) = s"
| "show_size_error (ParseFailure s) = s"
| "show_size_error (SizeTooBig s) = s"
| "show_size_error (PhysicalMem s) = s"

definition invalid_suffix :: "(bytes \<Rightarrow> bytes) \<Rightarrow> bytes \<Rightarrow> size_error" where
  "invalid_suffix quote s = InvalidSuffix (quote s)"

definition parse_failure :: "(bytes \<Rightarrow> bytes) \<Rightarrow> bytes \<Rightarrow> size_error" where
  "parse_failure quote s = ParseFailure (quote s)"

definition size_too_big :: "(bytes \<Rightarrow> bytes) \<Rightarrow> bytes \<Rightarrow> size_error" where
  "size_too_big quote s = SizeTooBig (quote s @ '': Value too large for defined data type'')"

section \<open>Reading a number\<close>

text \<open>\<open>u128::from_str_radix\<close> with the kind of its error: the first of a wrong digit and an overflow.\<close>

datatype int_error = IntEmpty | InvalidDigit | PosOverflow

fun radix_loop :: "nat \<Rightarrow> nat \<Rightarrow> nat \<Rightarrow> bytes \<Rightarrow> int_error + nat" where
  "radix_loop bound r acc [] = Inr acc"
| "radix_loop bound r acc (c # cs) =
     (case to_digit r c of
        None \<Rightarrow> Inl InvalidDigit
      | Some d \<Rightarrow> if bound \<le> r * acc + d then Inl PosOverflow else radix_loop bound r (r * acc + d) cs)"

definition from_str_radix :: "nat \<Rightarrow> nat \<Rightarrow> bytes \<Rightarrow> int_error + nat" where
  "from_str_radix bound r s =
     (case s of
        [] \<Rightarrow> Inl IntEmpty
      | c # cs \<Rightarrow>
          if (c = CHR ''+'' \<or> c = CHR ''-'') \<and> cs = [] then Inl InvalidDigit
          else radix_loop bound r 0 (if c = CHR ''+'' then cs else s))"

definition u128_bound :: nat where "u128_bound = 2 ^ 128"
definition u64_bound :: nat where "u64_bound = 2 ^ 64"

definition parse_number :: "(bytes \<Rightarrow> bytes) \<Rightarrow> bytes \<Rightarrow> nat \<Rightarrow> bytes \<Rightarrow> size_error + nat" where
  "parse_number quote s r original =
     (case from_str_radix u128_bound r s of
        Inr n \<Rightarrow> Inr n
      | Inl PosOverflow \<Rightarrow> Inl (size_too_big quote original)
      | Inl _ \<Rightarrow> Inl (ParseFailure original))"

section \<open>The parser\<close>

record size_parser =
  sp_no_empty_numeric :: bool
  sp_capital_b_bytes :: bool
  sp_b_byte_count :: bool
  sp_allow_list :: "bytes list option"
  sp_default_unit :: "bytes option"

definition default_size_parser :: size_parser where
  "default_size_parser =
     \<lparr>sp_no_empty_numeric = False, sp_capital_b_bytes = False, sp_b_byte_count = False,
      sp_allow_list = None, sp_default_unit = None\<rparr>"

definition with_allow_list :: "bytes list \<Rightarrow> size_parser \<Rightarrow> size_parser" where
  "with_allow_list l p = p\<lparr>sp_allow_list := Some l\<rparr>"

definition with_default_unit :: "bytes \<Rightarrow> size_parser \<Rightarrow> size_parser" where
  "with_default_unit u p = p\<lparr>sp_default_unit := Some u\<rparr>"

definition with_b_byte_count :: "bool \<Rightarrow> size_parser \<Rightarrow> size_parser" where
  "with_b_byte_count v p = p\<lparr>sp_b_byte_count := v\<rparr>"

definition with_allow_empty_numeric :: "bool \<Rightarrow> size_parser \<Rightarrow> size_parser" where
  "with_allow_empty_numeric v p = p\<lparr>sp_no_empty_numeric := v\<rparr>"

datatype number_system = Decimal | Octal | Hexadecimal | Binary

definition is_ascii_digit :: "char \<Rightarrow> bool" where
  "is_ascii_digit c \<longleftrightarrow> to_digit 10 c \<noteq> None"

definition determine_number_system :: "bytes \<Rightarrow> number_system" where
  "determine_number_system s =
     (if length s \<le> 1 then Decimal
      else if prefix ''0x'' s then Hexadecimal
      else if prefix ''0b'' s \<and> drop 2 s \<noteq> [] then Binary
      else if prefix ''0'' s \<and> 1 < length (takeWhile is_ascii_digit s) \<and> \<not> list_all (\<lambda>c. c = CHR ''0'') s then Octal
      else Decimal)"

definition numeric_part :: "number_system \<Rightarrow> bytes \<Rightarrow> bytes" where
  "numeric_part sys s =
     (case sys of
        Hexadecimal \<Rightarrow> take 2 s @ takeWhile (\<lambda>c. to_digit 16 c \<noteq> None) (drop 2 s)
      | Binary \<Rightarrow> take 2 s @ takeWhile (\<lambda>c. to_digit 2 c \<noteq> None) (drop 2 s)
      | _ \<Rightarrow> takeWhile is_ascii_digit s)"

text \<open>The base and the exponent of each unit.\<close>

definition unit_table :: "(bytes \<times> nat \<times> nat) list" where
  "unit_table =
     [('''', 1, 0), (''b'', 512, 1),
      (''KiB'', 1024, 1), (''kiB'', 1024, 1), (''K'', 1024, 1), (''k'', 1024, 1),
      (''MiB'', 1024, 2), (''miB'', 1024, 2), (''M'', 1024, 2), (''m'', 1024, 2),
      (''GiB'', 1024, 3), (''giB'', 1024, 3), (''G'', 1024, 3), (''g'', 1024, 3),
      (''TiB'', 1024, 4), (''tiB'', 1024, 4), (''T'', 1024, 4), (''t'', 1024, 4),
      (''PiB'', 1024, 5), (''piB'', 1024, 5), (''P'', 1024, 5), (''p'', 1024, 5),
      (''EiB'', 1024, 6), (''eiB'', 1024, 6), (''E'', 1024, 6), (''e'', 1024, 6),
      (''ZiB'', 1024, 7), (''ziB'', 1024, 7), (''Z'', 1024, 7), (''z'', 1024, 7),
      (''YiB'', 1024, 8), (''yiB'', 1024, 8), (''Y'', 1024, 8), (''y'', 1024, 8),
      (''RiB'', 1024, 9), (''riB'', 1024, 9), (''R'', 1024, 9), (''r'', 1024, 9),
      (''QiB'', 1024, 10), (''qiB'', 1024, 10), (''Q'', 1024, 10), (''q'', 1024, 10),
      (''KB'', 1000, 1), (''kB'', 1000, 1), (''MB'', 1000, 2), (''mB'', 1000, 2),
      (''GB'', 1000, 3), (''gB'', 1000, 3), (''TB'', 1000, 4), (''tB'', 1000, 4),
      (''PB'', 1000, 5), (''pB'', 1000, 5), (''EB'', 1000, 6), (''eB'', 1000, 6),
      (''ZB'', 1000, 7), (''zB'', 1000, 7), (''YB'', 1000, 8), (''yB'', 1000, 8),
      (''RB'', 1000, 9), (''rB'', 1000, 9), (''QB'', 1000, 10), (''qB'', 1000, 10)]"

definition unit_factor :: "size_parser \<Rightarrow> bytes \<Rightarrow> nat option" where
  "unit_factor P u =
     (if u = ''B'' \<and> sp_capital_b_bytes P then Some 1
      else map_option (\<lambda>(b, e). b ^ e) (map_of unit_table u))"

definition number_value :: "(bytes \<Rightarrow> bytes) \<Rightarrow> size_parser \<Rightarrow> number_system \<Rightarrow> bytes \<Rightarrow> bytes \<Rightarrow> size_error + nat" where
  "number_value quote P sys num sz =
     (case sys of
        Decimal \<Rightarrow>
          if num = [] \<and> \<not> sp_no_empty_numeric P then Inr 1 else parse_number quote num 10 sz
      | Octal \<Rightarrow> parse_number quote (dropWhile (\<lambda>c. c = CHR ''0'') num) 8 sz
      | Hexadecimal \<Rightarrow> parse_number quote (drop 2 num) 16 sz
      | Binary \<Rightarrow> parse_number quote (drop 2 num) 2 sz)"

text \<open>The physical memory times the hundredth part of the percentage.\<close>

definition percent_of_memory :: "nat option \<Rightarrow> nat \<Rightarrow> bytes \<Rightarrow> size_error + nat" where
  "percent_of_memory mem number sz =
     (case mem of
        Some total_mem \<Rightarrow> Inr ((number div 100) * total_mem mod u128_bound)
      | None \<Rightarrow> Inl (PhysicalMem sz))"

definition parse_size_u128_with :: "(bytes \<Rightarrow> bytes) \<Rightarrow> nat option \<Rightarrow> size_parser \<Rightarrow> bytes \<Rightarrow> size_error + nat" where
  "parse_size_u128_with quote mem P sz =
     (if sz = [] then Inl (parse_failure quote sz)
      else
        let sys = determine_number_system sz;
            num = numeric_part sys sz;
            unit0 = drop (length num) sz;
            unit1 = (case sp_default_unit P of Some u \<Rightarrow> if unit0 = [] then u else unit0 | None \<Rightarrow> unit0);
            ends_b = (sp_b_byte_count P \<and> unit1 \<noteq> [] \<and> last unit1 = CHR ''b'');
            unit2 = (if ends_b then butlast unit1 else unit1)
        in if ends_b \<and> num = [] then Inl (parse_failure quote sz)
           else if (case sp_allow_list P of Some l \<Rightarrow> unit2 \<notin> set l \<and> unit2 \<noteq> [] | None \<Rightarrow> False) then
             Inl (if num = [] then parse_failure quote sz else invalid_suffix quote sz)
           else if unit2 = ''%'' then
             (case parse_number quote num 10 sz of
                Inl e \<Rightarrow> Inl e
              | Inr number \<Rightarrow> percent_of_memory mem number sz)
           else (case unit_factor P unit2 of
                   None \<Rightarrow> Inl (if num = [] then parse_failure quote sz else invalid_suffix quote sz)
                 | Some factor \<Rightarrow>
                     (case number_value quote P sys num sz of
                        Inl e \<Rightarrow> Inl e
                      | Inr number \<Rightarrow>
                          if number * factor < u128_bound then Inr (number * factor)
                          else Inl (size_too_big quote sz))))"

definition parse_u64 :: "(bytes \<Rightarrow> bytes) \<Rightarrow> nat option \<Rightarrow> size_parser \<Rightarrow> bytes \<Rightarrow> size_error + nat" where
  "parse_u64 quote mem P sz =
     (case parse_size_u128_with quote mem P sz of
        Inl e \<Rightarrow> Inl e
      | Inr n \<Rightarrow> if n < u64_bound then Inr n else Inl (size_too_big quote sz))"

definition saturate :: "nat \<Rightarrow> size_error + nat \<Rightarrow> size_error + nat" where
  "saturate m r = (case r of Inl (SizeTooBig _) \<Rightarrow> Inr m | _ \<Rightarrow> r)"

definition parse_u64_max :: "(bytes \<Rightarrow> bytes) \<Rightarrow> nat option \<Rightarrow> size_parser \<Rightarrow> bytes \<Rightarrow> size_error + nat" where
  "parse_u64_max quote mem P sz = saturate (u64_bound - 1) (parse_u64 quote mem P sz)"

definition parse_u128_max :: "(bytes \<Rightarrow> bytes) \<Rightarrow> nat option \<Rightarrow> size_parser \<Rightarrow> bytes \<Rightarrow> size_error + nat" where
  "parse_u128_max quote mem P sz = saturate (u128_bound - 1) (parse_size_u128_with quote mem P sz)"

definition parse_size_u128 :: "(bytes \<Rightarrow> bytes) \<Rightarrow> nat option \<Rightarrow> bytes \<Rightarrow> size_error + nat" where
  "parse_size_u128 quote mem = parse_size_u128_with quote mem default_size_parser"

definition parse_size_u64 :: "(bytes \<Rightarrow> bytes) \<Rightarrow> nat option \<Rightarrow> bytes \<Rightarrow> size_error + nat" where
  "parse_size_u64 quote mem = parse_u64 quote mem default_size_parser"

definition parse_size_non_zero_u64 :: "(bytes \<Rightarrow> bytes) \<Rightarrow> nat option \<Rightarrow> bytes \<Rightarrow> size_error + nat" where
  "parse_size_non_zero_u64 quote mem sz =
     (case parse_size_u64 quote mem sz of
        Inl e \<Rightarrow> Inl e
      | Inr v \<Rightarrow> if v = 0 then Inl (ParseFailure ''0'') else Inr v)"

definition parse_size_u64_max :: "(bytes \<Rightarrow> bytes) \<Rightarrow> nat option \<Rightarrow> bytes \<Rightarrow> size_error + nat" where
  "parse_size_u64_max quote mem = parse_u64_max quote mem default_size_parser"

definition parse_size_u128_max :: "(bytes \<Rightarrow> bytes) \<Rightarrow> nat option \<Rightarrow> bytes \<Rightarrow> size_error + nat" where
  "parse_size_u128_max quote mem = parse_u128_max quote mem default_size_parser"

section \<open>Signed numbers\<close>

datatype sign_prefix = SignPlus | SignMinus

record signed_num =
  sn_value :: nat
  sn_sign :: "sign_prefix option"

definition strip_sign_prefix :: "bytes \<Rightarrow> sign_prefix option \<times> bytes" where
  "strip_sign_prefix src =
     (let t = trim src in
      case t of
        c # rest \<Rightarrow>
          if c = CHR ''+'' then (Some SignPlus, rest) else if c = CHR ''-'' then (Some SignMinus, rest) else (None, t)
      | [] \<Rightarrow> (None, t))"

definition parse_signed_num_max :: "(bytes \<Rightarrow> bytes) \<Rightarrow> nat option \<Rightarrow> bytes \<Rightarrow> size_error + signed_num" where
  "parse_signed_num_max quote mem src =
     (let (sign, digits) = strip_sign_prefix src; trimmed = dropWhile (\<lambda>c. c = CHR ''0'') digits in
      if digits = [] then Inl (ParseFailure src)
      else map_sum id (\<lambda>v. \<lparr>sn_value = v, sn_sign = sign\<rparr>)
             (if trimmed = [] then Inr 0 else parse_size_u64_max quote mem trimmed))"

definition parse_signed_num :: "(bytes \<Rightarrow> bytes) \<Rightarrow> nat option \<Rightarrow> bytes \<Rightarrow> size_error + signed_num" where
  "parse_signed_num quote mem src =
     (let (sign, digits) = strip_sign_prefix src in
      if digits = [] then Inl (ParseFailure src)
      else map_sum (\<lambda>_. ParseFailure digits) (\<lambda>v. \<lparr>sn_value = v, sn_sign = sign\<rparr>)
             (parse_size_u64 quote mem digits))"

section \<open>Facts\<close>

lemma radix_loop_digits:
  "digits_val r acc s = Some n \<Longrightarrow> 0 < r \<Longrightarrow>
     radix_loop bound r acc s = (if s = [] \<or> n < bound then Inr n else Inl PosOverflow)"
  (is "_ \<Longrightarrow> _ \<Longrightarrow> ?P acc s")
proof (induction s arbitrary: acc)
  case (Cons c cs)
  then obtain d where d: "to_digit r c = Some d" "digits_val r (r * acc + d) cs = Some n"
    by (auto split: option.splits)
  have grow: "digits_val r a s = Some n \<Longrightarrow> a \<le> n" for a s
    using \<open>0 < r\<close>
  proof (induction s arbitrary: a)
    case (Cons x xs)
    then obtain e where "digits_val r (r * a + e) xs = Some n" by (auto split: option.splits)
    with Cons have "r * a + e \<le> n" by blast
    moreover have "a \<le> r * a" using \<open>0 < r\<close> by simp
    ultimately show ?case by linarith
  qed simp
  show ?case using Cons.IH [OF d(2) Cons.prems(2)] d grow [OF d(2)] by auto
qed simp

text \<open>The parser's values are below the bound of its type.\<close>

lemma parse_u64_bound: "parse_u64 quote mem P s = Inr n \<Longrightarrow> n < u64_bound"
  by (auto simp: parse_u64_def split: sum.splits if_splits)

lemma parse_size_u128_bound: "parse_size_u128_with quote mem P s = Inr n \<Longrightarrow> n < u128_bound"
  by (auto simp: parse_size_u128_with_def Let_def percent_of_memory_def u128_bound_def
      split: sum.splits if_splits option.splits)

lemma takeWhile_part: "\<forall>c\<in>set xs. P c \<Longrightarrow> ys = [] \<or> \<not> P (hd ys) \<Longrightarrow> takeWhile P (xs @ ys) = xs"
  by (cases ys) (auto simp: takeWhile_append)

text \<open>What every unit of the table starts with.\<close>

lemma unit_table_heads:
  "list_all (\<lambda>(u, b, e). (u = [] \<or> to_digit 10 (hd u) = None \<and> to_digit 2 (hd u) = None \<and> hd u \<noteq> CHR ''x'')
     \<and> (u \<noteq> [] \<and> hd u = CHR ''b'' \<longrightarrow> u = ''b'') \<and> u \<noteq> ''%'' \<and> u \<noteq> ''B'' \<and> 0 < b) unit_table"
  by (simp add: unit_table_def to_digit_def digit_val_def between_def byte_def)

lemma unit_facts:
  assumes "map_of unit_table u = Some (b, e)"
  shows "u = [] \<or> to_digit 10 (hd u) = None \<and> to_digit 2 (hd u) = None \<and> hd u \<noteq> CHR ''x''"
    "u \<noteq> [] \<Longrightarrow> hd u = CHR ''b'' \<Longrightarrow> u = ''b''" "u \<noteq> ''%''" "u \<noteq> ''B''" "0 < b"
  using unit_table_heads map_of_SomeD [OF assms] by (fastforce simp: list_all_iff)+

lemma show_radix_digits: "1 < r \<Longrightarrow> r \<le> 16 \<Longrightarrow> \<forall>c\<in>set (show_radix r n). to_digit r c \<noteq> None"
  using set_show_radix to_digit_digit_char by (metis option.distinct(1))

lemma to_digit_mono: "to_digit r c \<noteq> None \<Longrightarrow> r \<le> r' \<Longrightarrow> to_digit r' c \<noteq> None"
  by (auto simp: to_digit_def split: option.splits if_splits)

lemma from_str_radix_show:
  assumes "1 < r" "r \<le> 16"
  shows "from_str_radix bound r (show_radix r n) = (if n < bound then Inr n else Inl PosOverflow)"
proof -
  obtain c cs where s: "show_radix r n = c # cs" by (meson neq_Nil_conv show_radix_not_Nil)
  have "\<exists>d<r. c = digit_char d" using set_show_radix [OF assms, of c n] s by simp
  then have "c \<noteq> CHR ''+''" "c \<noteq> CHR ''-''" using digit_char_inj_special assms(2) by auto
  then show ?thesis
    using radix_loop_digits [OF digits_val_show_radix [OF assms, of n], of bound] assms s
    by (simp add: from_str_radix_def)
qed

section \<open>Properties\<close>

text \<open>The prefix of each radix.\<close>

fun radix_prefix :: "nat \<Rightarrow> bytes" where
  "radix_prefix r = (if r = 16 then ''0x'' else if r = 2 then ''0b'' else if r = 8 then ''0'' else [])"

lemma number_parts:
  assumes "map_of unit_table u = Some (b, e)" "r \<in> {2, 8, 10, 16}"
    and "r = 16 \<Longrightarrow> u = [] \<or> to_digit 16 (hd u) = None" "r = 8 \<Longrightarrow> n \<noteq> 0"
  defines "sys \<equiv> (if r = 16 then Hexadecimal else if r = 2 then Binary else if r = 8 then Octal else Decimal)"
  shows "determine_number_system (radix_prefix r @ show_radix r n @ u) = sys
    \<and> numeric_part sys (radix_prefix r @ show_radix r n @ u) = radix_prefix r @ show_radix r n"
proof -
  note u = unit_facts [OF assms(1)]
  obtain c cs where s: "show_radix r n = c # cs" by (meson neq_Nil_conv show_radix_not_Nil)
  have r: "1 < r" "r \<le> 16" using assms(2) by auto
  note digits = show_radix_digits [OF r, of n]
  have ten: "\<forall>c\<in>set (show_radix r n). is_ascii_digit c" if "r \<in> {8, 10}"
    using digits that to_digit_mono [of r _ 10] by (auto simp: is_ascii_digit_def)
  have stop10: "u = [] \<or> \<not> is_ascii_digit (hd u)" using u(1) by (auto simp: is_ascii_digit_def)
  have zero: "is_ascii_digit CHR ''0''" by (simp add: is_ascii_digit_def to_digit_def digit_val_def between_def byte_def)
  consider "r = 16" | "r = 2" | "r = 8" | "r = 10" using assms(2) by auto
  then show ?thesis
  proof cases
    case 1
    then show ?thesis using assms(3) digits
      by (cases u) (auto simp add: determine_number_system_def numeric_part_def sys_def takeWhile_part)
  next
    case 2
    then show ?thesis using u(1) digits s
      by (cases u) (auto simp: determine_number_system_def numeric_part_def sys_def takeWhile_part)
  next
    case 3
    have "c \<noteq> CHR ''0''" using show_radix_head [OF r, of n] s 3 assms(4) by simp
    moreover have "is_ascii_digit c" "\<forall>x\<in>set cs. is_ascii_digit x" using ten 3 s by auto
    moreover have "c \<noteq> CHR ''x''" "c \<noteq> CHR ''b''" using calculation(2)
      by (auto simp: is_ascii_digit_def to_digit_def digit_val_def between_def byte_def)
    ultimately show ?thesis using 3 s zero stop10
      by (cases u) (auto simp add: determine_number_system_def numeric_part_def sys_def takeWhile_part)
  next
    case 4
    have t: "takeWhile is_ascii_digit (show_radix 10 n @ u) = show_radix 10 n"
      using ten stop10 4 by (intro takeWhile_part) auto
    have d: "is_ascii_digit c" using ten 4 s by auto
    have cx: "c \<noteq> CHR ''x''" "c \<noteq> CHR ''b''" using d
      by (auto simp: is_ascii_digit_def to_digit_def digit_val_def between_def byte_def)
    have one: "show_radix 10 n = ''0''" if "c = CHR ''0''"
      using show_radix_head [OF r, of n] that s 4 by (simp add: show_radix.simps [of 10 0])
    have "determine_number_system (show_radix 10 n @ u) = Decimal"
    proof (cases "c = CHR ''0''")
      case True
      then show ?thesis using one u(1,2) t
        by (cases u) (auto simp: determine_number_system_def)
    next
      case False
      then show ?thesis using s 4 by (simp add: determine_number_system_def)
    qed
    then show ?thesis using 4 t by (simp add: sys_def numeric_part_def)
  qed
qed

text \<open>Claim C30: A size means what it says: a number printed in decimal, octal, hexadecimal or binary with
  the prefix of the radix, and then a unit of the table, is the number times the factor of the unit when
  that fits in 128 bits, and the error of a size that is too big otherwise. Two kinds of texts are left out,
  which mean something else: a hexadecimal number whose unit begins with a hexadecimal digit (\<open>b\<close>, \<open>E\<close> and
  its longer forms), where that letter is one more digit, and the octal number 0.\<close>

theorem parse_size_meaning:
  assumes "map_of unit_table u = Some (b, e)" "r \<in> {2, 8, 10, 16}"
    and "r = 16 \<Longrightarrow> u = [] \<or> to_digit 16 (hd u) = None" "r = 8 \<Longrightarrow> n \<noteq> 0"
  defines "arg \<equiv> radix_prefix r @ show_radix r n @ u"
  shows "parse_size_u128 quote mem arg
    = (if n * b ^ e < 2 ^ 128 then Inr (n * b ^ e) else Inl (size_too_big quote arg))"
proof -
  define sys where "sys = (if r = 16 then Hexadecimal else if r = 2 then Binary else if r = 8 then Octal else Decimal)"
  note parts = number_parts [OF assms(1-4), folded sys_def arg_def]
  note u = unit_facts [OF assms(1)]
  have r: "1 < r" "r \<le> 16" using assms(2) by auto
  have pos: "0 < b ^ e" using u(5) by simp
  have num: "number_value quote default_size_parser sys (radix_prefix r @ show_radix r n) arg
      = (if n < u128_bound then Inr n else Inl (size_too_big quote arg))"
  proof -
    have "dropWhile (\<lambda>c. c = CHR ''0'') (show_radix 8 n) = show_radix 8 n" if "r = 8"
      using show_radix_head [of 8 n] assms(4) that by (cases "show_radix 8 n") auto
    then show ?thesis using assms(2) from_str_radix_show [OF r, of u128_bound n]
      by (auto simp: number_value_def sys_def parse_number_def default_size_parser_def)
  qed
  have arg: "arg \<noteq> []" by (simp add: arg_def)
  have unit: "drop (length (numeric_part sys arg)) arg = u" using parts by (simp add: arg_def)
  have "parse_size_u128 quote mem arg =
      (case number_value quote default_size_parser sys (radix_prefix r @ show_radix r n) arg of
         Inl x \<Rightarrow> Inl x
       | Inr k \<Rightarrow> if k * b ^ e < u128_bound then Inr (k * b ^ e) else Inl (size_too_big quote arg))"
    using parts unit u(3,4) assms(1) arg
    by (simp add: parse_size_u128_def parse_size_u128_with_def default_size_parser_def unit_factor_def Let_def
        del: radix_prefix.simps)
  also have "\<dots> = (if n * b ^ e < 2 ^ 128 then Inr (n * b ^ e) else Inl (size_too_big quote arg))"
  proof -
    have "n * 1 \<le> n * b ^ e" using pos by (intro mult_le_mono2) linarith
    then have "\<not> n < u128_bound \<Longrightarrow> \<not> n * b ^ e < u128_bound" by linarith
    then show ?thesis unfolding num u128_bound_def by (cases "n < 2 ^ 128") (simp_all only: if_True if_False sum.case not_False_eq_True simp_thms)
  qed
  finally show ?thesis .
qed

lemma parse_size_meaning_witness:
  "parse_size_u128 id None ''0x1fMiB'' = Inr 32505856 \<and> parse_size_u128 id None ''0b101QB'' = Inr (5 * 10 ^ 30)"
proof -
  have units: "map_of unit_table ''MiB'' = Some (1024, 2)" "map_of unit_table ''QB'' = Some (1000, 10)"
    by (simp_all add: unit_table_def)
  have h: "to_digit 16 (hd ''MiB'') = None" by (simp add: to_digit_def digit_val_def between_def byte_def)
  have d: "show_radix 16 31 = ''1f''" "show_radix 2 5 = ''101''"
    by (simp_all add: show_radix.simps)
  show ?thesis
    using parse_size_meaning [OF units(1), of 16 31 id None] parse_size_meaning [OF units(2), of 2 5 id None] h d
    by simp
qed

text \<open>A percentage below one hundred of the memory is nothing: the division comes first.\<close>

lemma half_of_memory_is_zero: "parse_size_u128 quote (Some m) ''50%'' = Inr 0"
  by (simp add: parse_size_u128_def parse_size_u128_with_def determine_number_system_def numeric_part_def is_ascii_digit_def
      to_digit_def digit_val_def between_def byte_def default_size_parser_def parse_number_def from_str_radix_def u128_bound_def
      percent_of_memory_def)

text \<open>Two zeros and a unit are refused, although one zero and a unit, and two zeros alone, are not.\<close>

lemma zeros_with_unit:
  "parse_size_u128 quote mem ''00K'' = Inl (ParseFailure ''00K'')"
  "parse_size_u128 quote mem ''0K'' = Inr 0" "parse_size_u128 quote mem ''00'' = Inr 0"
  by (simp_all add: parse_size_u128_def parse_size_u128_with_def determine_number_system_def numeric_part_def is_ascii_digit_def
      to_digit_def digit_val_def between_def byte_def default_size_parser_def parse_number_def from_str_radix_def u128_bound_def
      number_value_def unit_factor_def unit_table_def)

text \<open>A binary prefix without a digit is still a binary number, and fails.\<close>

lemma binary_prefix_without_digit:
  "parse_size_u128 quote mem ''0bK'' = Inl (ParseFailure ''0bK'')" "parse_size_u128 quote mem ''0b'' = Inr 0"
  by (simp_all add: parse_size_u128_def parse_size_u128_with_def determine_number_system_def numeric_part_def is_ascii_digit_def
      to_digit_def digit_val_def between_def byte_def default_size_parser_def parse_number_def from_str_radix_def u128_bound_def
      number_value_def unit_factor_def unit_table_def)

end
