(* ===== verification/Uu_Escape.thy ===== *)
theory Uu_Escape
  imports RustStr
begin

text \<open>
  Backslash escapes of \<open>printf\<close> and \<open>echo\<close> (\<open>stubs/uucore/src/lib/features/format/escape.rs\<close>, and the writing
  of escaped text in \<open>format/mod.rs\<close>).  An input that the code advances is returned with the result.
\<close>

section \<open>Results\<close>

text \<open>The errors of the formatting module (\<open>InvalidArgument\<close>, which nothing builds, is left out), and a panic of the
  standard library, \<open>FmtPanics\<close>, which is no error but ends the formatting like one.\<close>

datatype fmt_error =
    SpecError bytes | FmtIoError bytes | NoMoreArguments | TooManySpecs bytes
  | NeedAtLeastOneSpec bytes | WrongSpecType | InvalidPrecision bytes | EndsWithPercent bytes
  | MissingHex | InvalidCharacter char bytes | InvalidEncoding bytes
  | FmtPanics

text \<open>A byte, a character by its code point, an escape that is none, the end of the output.\<close>

datatype escaped = EscByte char | EscChar nat | EscBackslash char | EscEnd

datatype octal_parsing = TwoDigits | ThreeDigits

section \<open>Numeric escapes\<close>

fun octal_digits :: "octal_parsing \<Rightarrow> nat" where
  "octal_digits TwoDigits = 2"
| "octal_digits ThreeDigits = 3"

text \<open>At most \<open>n\<close> further digits, with the arithmetic of a byte.\<close>

fun further_digits :: "nat \<Rightarrow> nat \<Rightarrow> nat \<Rightarrow> bytes \<Rightarrow> nat \<times> bytes" where
  "further_digits 0 r acc s = (acc, s)"
| "further_digits (Suc n) r acc [] = (acc, [])"
| "further_digits (Suc n) r acc (c # s) =
     (case to_digit r c of
        None \<Rightarrow> (acc, c # s)
      | Some d \<Rightarrow> further_digits n r ((acc * r + d) mod 256) s)"

definition parse_code :: "nat \<Rightarrow> nat \<Rightarrow> bytes \<Rightarrow> nat option \<times> bytes" where
  "parse_code r digits s =
     (case s of
        [] \<Rightarrow> (None, [])
      | c # rest \<Rightarrow>
          (case to_digit r c of
             None \<Rightarrow> (None, s)
           | Some d \<Rightarrow> (let (v, s') = further_digits (digits - 1) r d rest in (Some v, s'))))"

datatype escape_error = InvalidCharacters bytes | MissingHexadecimalNumber

definition is_scalar :: "nat \<Rightarrow> bool" where
  "is_scalar n \<longleftrightarrow> n < 0x110000 \<and> \<not> between 0xD800 0xDFFF n"

definition parse_unicode :: "nat \<Rightarrow> bytes \<Rightarrow> (escape_error + nat) \<times> bytes" where
  "parse_unicode digits s =
     (if length s < digits then (Inl MissingHexadecimalNumber, s)
      else (case digits_val 16 0 (take digits s) of
              None \<Rightarrow> (Inl MissingHexadecimalNumber, drop digits s)
            | Some n \<Rightarrow>
                (if is_scalar (n mod 2 ^ 32) then Inr (n mod 2 ^ 32) else Inl (InvalidCharacters (take digits s)),
                 drop digits s)))"

section \<open>One escape\<close>

text \<open>The letters that stand for one byte.\<close>

definition letter_escapes :: "(char \<times> char) list" where
  "letter_escapes =
     [(CHR 0x5C, CHR 0x5C), (CHR 0x22, CHR 0x22), (CHR ''a'', CHR 0x07), (CHR ''b'', CHR 0x08), (CHR ''e'', CHR 0x1B),
      (CHR ''f'', CHR 0x0C), (CHR ''n'', CHR 0x0A), (CHR ''r'', CHR 0x0D), (CHR ''t'', CHR 0x09), (CHR ''v'', CHR 0x0B)]"

definition unicode_escape :: "char \<Rightarrow> nat \<Rightarrow> bytes \<Rightarrow> (fmt_error + escaped) \<times> bytes" where
  "unicode_escape letter digits s =
     (case parse_unicode digits s of
        (Inr n, s') \<Rightarrow> (Inr (EscChar n), s')
      | (Inl MissingHexadecimalNumber, s') \<Rightarrow> (Inl MissingHex, s')
      | (Inl (InvalidCharacters ds), s') \<Rightarrow> (Inl (InvalidCharacter letter ds), s'))"

definition numeric_escape :: "nat \<Rightarrow> nat \<Rightarrow> bytes \<Rightarrow> fmt_error + escaped \<Rightarrow> (fmt_error + escaped) \<times> bytes" where
  "numeric_escape r digits s missing =
     (case parse_code r digits s of
        (Some n, s') \<Rightarrow> (Inr (EscByte (char_of n)), s')
      | (None, s') \<Rightarrow> (missing, s'))"

text \<open>What follows a backslash.\<close>

definition parse_escape_code :: "octal_parsing \<Rightarrow> bytes \<Rightarrow> (fmt_error + escaped) \<times> bytes" where
  "parse_escape_code zero s =
     (case s of
        [] \<Rightarrow> (Inr (EscByte CHR 0x5C), [])
      | c # rest \<Rightarrow>
          if between 49 55 (byte c) then numeric_escape 8 3 s (Inr (EscBackslash c))
          else (case map_of letter_escapes c of
                  Some b \<Rightarrow> (Inr (EscByte b), rest)
                | None \<Rightarrow>
                    if c = CHR ''c'' then (Inr EscEnd, rest)
                    else if c = CHR ''x'' then numeric_escape 16 2 rest (Inl MissingHex)
                    else if c = CHR ''0'' then numeric_escape 8 (octal_digits zero) rest (Inr (EscByte CHR 0x00))
                    else if c = CHR ''u'' then unicode_escape CHR ''u'' 4 rest
                    else if c = CHR ''U'' then unicode_escape CHR ''U'' 8 rest
                    else (Inr (EscBackslash c), rest)))"

lemma further_digits_length: "length (snd (further_digits n r acc s)) \<le> length s"
  by (induction n r acc s rule: further_digits.induct) (auto split: option.split)

lemma parse_code_length: "length (snd (parse_code r n s)) \<le> length s"
  using further_digits_length
  by (auto simp: parse_code_def split: list.split option.split prod.split) (metis le_SucI snd_conv)

lemma numeric_escape_length: "length (snd (numeric_escape r n s m)) \<le> length s"
  using parse_code_length [of r n s] by (auto simp: numeric_escape_def split: prod.split option.split)

lemma unicode_escape_length: "length (snd (unicode_escape l n s)) \<le> length s"
  by (simp add: unicode_escape_def parse_unicode_def split: option.split escape_error.split)

lemmas escape_lengths = numeric_escape_length unicode_escape_length

lemma parse_escape_code_length: "length (snd (parse_escape_code zero s)) \<le> length s"
proof (cases s)
  case (Cons c rest)
  have n: "length (snd (numeric_escape r n rest m)) \<le> Suc (length rest)" for r n m
    by (rule le_SucI [OF numeric_escape_length])
  have f: "length (snd (numeric_escape r n (x # rest) m)) \<le> Suc (length rest)" for r n x m
    using numeric_escape_length [of r n "x # rest" m] by simp
  have u: "length (snd (unicode_escape l n rest)) \<le> Suc (length rest)" for l n
    by (rule le_SucI [OF unicode_escape_length])
  show ?thesis unfolding Cons parse_escape_code_def list.case
    by (cases "map_of letter_escapes c")
      (simp_all only: option.case split: if_split, simp_all add: n u f)
qed (simp add: parse_escape_code_def)

section \<open>Text with escapes\<close>

text \<open>A wrong escape is kept as \<open>\x\<close>.\<close>

function parse_escape_only :: "octal_parsing \<Rightarrow> bytes \<Rightarrow> escaped list" where
  "parse_escape_only zero s =
     (case s of
        [] \<Rightarrow> []
      | c # rest \<Rightarrow>
          if c = CHR 0x5C then
            (case fst (parse_escape_code zero rest) of Inr e \<Rightarrow> e | Inl _ \<Rightarrow> EscBackslash CHR ''x'')
            # parse_escape_only zero (snd (parse_escape_code zero rest))
          else EscByte c # parse_escape_only zero rest)"
  by pat_completeness auto
termination
  by (relation "measure (length \<circ> snd)") (auto simp: parse_escape_code_length le_imp_less_Suc)

declare parse_escape_only.simps [simp del]

lemma parse_escape_only_Nil [simp]: "parse_escape_only zero [] = []"
  by (simp add: parse_escape_only.simps)

lemma parse_escape_only_plain [simp]:
  "c \<noteq> CHR 0x5C \<Longrightarrow> parse_escape_only zero (c # s) = EscByte c # parse_escape_only zero s"
  by (subst parse_escape_only.simps) simp

lemma parse_escape_only_backslash:
  "parse_escape_only zero (CHR 0x5C # s) =
     (case fst (parse_escape_code zero s) of Inr e \<Rightarrow> e | Inl _ \<Rightarrow> EscBackslash CHR ''x'')
     # parse_escape_only zero (snd (parse_escape_code zero s))"
  by (subst parse_escape_only.simps) simp

text \<open>The UTF-8 bytes of a code point.\<close>

definition encode_utf8 :: "nat \<Rightarrow> bytes" where
  "encode_utf8 n =
     (if n < 0x80 then [char_of n]
      else if n < 0x800 then [char_of (0xC0 + n div 64), char_of (0x80 + n mod 64)]
      else if n < 0x10000 then [char_of (0xE0 + n div 4096), char_of (0x80 + n div 64 mod 64), char_of (0x80 + n mod 64)]
      else [char_of (0xF0 + n div 262144), char_of (0x80 + n div 4096 mod 64), char_of (0x80 + n div 64 mod 64),
            char_of (0x80 + n mod 64)])"

text \<open>What is written for one item; \<open>None\<close> is the end of the output.\<close>

fun escaped_bytes :: "escaped \<Rightarrow> bytes option" where
  "escaped_bytes (EscByte c) = Some [c]"
| "escaped_bytes (EscChar n) = Some (encode_utf8 n)"
| "escaped_bytes (EscBackslash c) = Some [CHR 0x5C, c]"
| "escaped_bytes EscEnd = None"

fun write_escaped :: "escaped list \<Rightarrow> bytes" where
  "write_escaped [] = []"
| "write_escaped (e # es) = (case escaped_bytes e of None \<Rightarrow> [] | Some b \<Rightarrow> b @ write_escaped es)"

section \<open>Facts\<close>

text \<open>Three octal digits of a byte.\<close>

definition octal3 :: "char \<Rightarrow> bytes" where
  "octal3 c = [digit_char (byte c div 64), digit_char (byte c div 8 mod 8), digit_char (byte c mod 8)]"

lemma byte_less [simp]: "byte c < 256"
  by (simp add: byte_def)

lemma char_of_byte [simp]: "char_of (byte c) = c"
  by (simp add: byte_def)

lemma octal_split: "(n::nat) = (n div 64 * 8 + n div 8 mod 8) * 8 + n mod 8"
proof -
  have "n div 64 = n div 8 div 8" by (simp flip: div_mult2_eq)
  then have "n div 64 * 8 + n div 8 mod 8 = n div 8" by simp
  then show ?thesis by simp
qed

lemma octal_digit: "d < 8 \<Longrightarrow> to_digit 8 (digit_char d) = Some d"
  by (rule to_digit_digit_char) auto

lemma byte_div_64: "byte c div 64 < 4"
  by (rule less_mult_imp_div_less) (use byte_less [of c] in simp)

lemma parse_code_three: "parse_code 8 3 (octal3 c @ s) = (Some (byte c), s)"
proof -
  define a b d where "a = byte c div 64" and "b = byte c div 8 mod 8" and "d = byte c mod 8"
  have m: "a < 4" "b < 8" "d < 8" by (simp_all add: a_def b_def d_def byte_div_64)
  have sum: "byte c = (a * 8 + b) * 8 + d" unfolding a_def b_def d_def by (rule octal_split)
  have "(a * 8 + b) * 8 + d < 256" using byte_less [of c] sum by simp
  moreover have "a * 8 + b < 256" using m by presburger
  ultimately have "((a * 8 + b) mod 256 * 8 + d) mod 256 = byte c" by (simp add: sum)
  moreover have "octal3 c = [digit_char a, digit_char b, digit_char d]"
    by (simp add: octal3_def a_def b_def d_def)
  ultimately show ?thesis using m by (simp add: parse_code_def octal_digit numeral_2_eq_2)
qed

lemma parse_code_two:
  assumes "b < 8" "d < 8"
  shows "parse_code 8 2 (digit_char b # digit_char d # s) = (Some (b * 8 + d), s)"
  using assms by (simp add: parse_code_def octal_digit)

lemma octal_digit_byte: "d < 8 \<Longrightarrow> byte (digit_char d) = 48 + d"
  by (simp add: digit_char_def)

lemma not_letter: "map_of letter_escapes CHR ''0'' = None"
  by (simp add: letter_escapes_def)

text \<open>Three digits after a backslash are read back, whatever follows them.\<close>

lemma parse_escape_octal3: "parse_escape_code TwoDigits (octal3 c @ s) = (Inr (EscByte c), s)"
proof -
  define a b d where "a = byte c div 64" and "b = byte c div 8 mod 8" and "d = byte c mod 8"
  have m: "a < 4" "b < 8" "d < 8" by (simp_all add: a_def b_def d_def byte_div_64)
  have o3: "octal3 c = [digit_char a, digit_char b, digit_char d]" by (simp add: octal3_def a_def b_def d_def)
  have sum: "byte c = (a * 8 + b) * 8 + d" unfolding a_def b_def d_def by (rule octal_split)
  show ?thesis
  proof (cases "a = 0")
    case True
    then have z: "octal3 c @ s = CHR ''0'' # digit_char b # digit_char d # s" by (simp add: o3)
    have "char_of (b * 8 + d) = c" using sum True by (metis char_of_byte mult_0 add_0)
    then show ?thesis
      by (simp add: z parse_escape_code_def not_letter numeric_escape_def parse_code_two [OF m(2,3)] between_def byte_def)
  next
    case False
    then have "between 49 55 (byte (digit_char a))" using m(1) by (simp add: octal_digit_byte between_def)
    then show ?thesis
      using parse_code_three [of c s] by (simp add: o3 parse_escape_code_def numeric_escape_def)
  qed
qed

lemma parse_escape_zero_octal3: "parse_escape_code ThreeDigits (CHR ''0'' # octal3 c @ s) = (Inr (EscByte c), s)"
  by (simp add: parse_escape_code_def not_letter numeric_escape_def parse_code_three between_def byte_def)

lemma write_escaped_bytes [simp]: "write_escaped (map EscByte s) = s"
  by (induction s) simp_all

section \<open>Properties\<close>

text \<open>The bytes as escapes of \<open>%b\<close> and \<open>echo -e\<close>: \<open>\0\<close> and three digits.\<close>

definition zero_octal_encoding :: "bytes \<Rightarrow> bytes" where
  "zero_octal_encoding s = concat (map (\<lambda>c. CHR 0x5C # CHR ''0'' # octal3 c) s)"

text \<open>Every byte sequence is written back from its octal escapes, zero bytes, backslashes and bytes
  above 127 included.\<close>

lemma zero_octal_round_trip: "write_escaped (parse_escape_only ThreeDigits (zero_octal_encoding s)) = s"
proof -
  have "parse_escape_only ThreeDigits (zero_octal_encoding s) = map EscByte s"
  proof (induction s)
    case (Cons c s)
    then show ?case
      by (simp add: zero_octal_encoding_def parse_escape_only_backslash parse_escape_zero_octal3)
  qed (simp add: zero_octal_encoding_def)
  then show ?thesis by simp
qed

text \<open>Text without a backslash is written as it is.\<close>

lemma plain_text_unchanged: "CHR 0x5C \<notin> set s \<Longrightarrow> parse_escape_only zero s = map EscByte s"
  by (induction s) auto

text \<open>An escape \<open>\u\<close> without its digits is written as \<open>\x\<close>.\<close>

lemma bad_unicode_written_as_x: "write_escaped (parse_escape_only zero [CHR 0x5C, CHR ''u'']) = [CHR 0x5C, CHR ''x'']"
  by (simp add: parse_escape_only_backslash parse_escape_code_def letter_escapes_def unicode_escape_def parse_unicode_def
      between_def byte_def)

text \<open>\<open>\c\<close> ends the output.\<close>

lemma end_escape: "CHR 0x5C \<notin> set s \<Longrightarrow> write_escaped (parse_escape_only zero (s @ CHR 0x5C # CHR ''c'' # t)) = s"
  by (induction s)
    (auto simp: parse_escape_only_backslash parse_escape_code_def letter_escapes_def between_def byte_def)

end
