(* ===== verification/Uu_Spec.thy ===== *)
theory Uu_Spec
  imports Uu_Escape
begin

text \<open>
  The directives of format strings, as \<open>%5.2f\<close> or \<open>%1$*2$d\<close>
  (\<open>stubs/uucore/src/lib/features/format/spec.rs\<close>): what is read after the percent sign.  The code keeps the
  input and an index into it; here each reader returns what is left, and the text of an error is what was
  read before it.  \<open>usize\<close> has 32 bits.
\<close>

section \<open>Types\<close>

datatype location = NextArgument | Position nat

datatype can_asterisk = Fixed nat | Asterisk location

datatype letter_case = Lowercase | Uppercase
datatype use_prefix = PrefixNo | PrefixYes
datatype unsigned_variant = VDecimal | VOctal use_prefix | VHexadecimal letter_case use_prefix
datatype float_variant = FDecimal | FScientific | FShortest | FHexadecimal
datatype force_decimal = ForceNo | ForceYes
datatype positive_sign = SignNone | SignPlus | SignSpace
datatype alignment = AlignLeft | AlignRightSpace | AlignRightZero

datatype spec =
    SpChar location "can_asterisk option" bool
  | SpString location "can_asterisk option" "can_asterisk option" bool
  | SpEscapedString location
  | SpQuotedString location
  | SpSigned location "can_asterisk option" "can_asterisk option" positive_sign alignment
  | SpUnsigned location unsigned_variant "can_asterisk option" "can_asterisk option" alignment
  | SpFloat location float_variant letter_case force_decimal "can_asterisk option" positive_sign alignment
      "can_asterisk option"

datatype length_mod = LChar | LShort | LLong | LLongLong | LIntMax | LSize | LPtrDiff | LLongDouble

record flags =
  fl_minus :: bool
  fl_plus :: bool
  fl_space :: bool
  fl_hash :: bool
  fl_zero :: bool
  fl_quote :: bool

definition no_flags :: flags where
  "no_flags = \<lparr>fl_minus = False, fl_plus = False, fl_space = False, fl_hash = False, fl_zero = False, fl_quote = False\<rparr>"

section \<open>The parts of a directive\<close>

fun parse_flags :: "flags \<Rightarrow> bytes \<Rightarrow> flags \<times> bytes" where
  "parse_flags f [] = (f, [])"
| "parse_flags f (c # s) =
     (if c = CHR ''-'' then parse_flags (f\<lparr>fl_minus := True\<rparr>) s
      else if c = CHR ''+'' then parse_flags (f\<lparr>fl_plus := True\<rparr>) s
      else if c = CHR '' '' then parse_flags (f\<lparr>fl_space := True\<rparr>) s
      else if c = CHR ''#'' then parse_flags (f\<lparr>fl_hash := True\<rparr>) s
      else if c = CHR ''0'' then parse_flags (f\<lparr>fl_zero := True\<rparr>) s
      else if c = CHR 0x27 then parse_flags (f\<lparr>fl_quote := True\<rparr>) s
      else (f, c # s))"

definition is_digit_char :: "char \<Rightarrow> bool" where
  "is_digit_char c \<longleftrightarrow> to_digit 10 c \<noteq> None"

text \<open>Digits, when something follows them; a number that is too large is the largest.\<close>

definition eat_number :: "bytes \<Rightarrow> nat option \<times> bytes" where
  "eat_number s =
     (let ds = takeWhile is_digit_char s; rest = dropWhile is_digit_char s in
      if ds = [] \<or> rest = [] then (None, s)
      else (Some (case parse_usize32 ds of Some n \<Rightarrow> n | None \<Rightarrow> 2 ^ 32 - 1), rest))"

text \<open>A number that ends with a dollar sign; \<open>None\<close> is the position zero.\<close>

definition eat_argument_position :: "bytes \<Rightarrow> location option \<times> bytes" where
  "eat_argument_position s =
     (case eat_number s of
        (Some pos, c # rest) \<Rightarrow>
          if c = CHR ''$'' then (if pos = 0 then (None, rest) else (Some (Position pos), rest))
          else (Some NextArgument, s)
      | _ \<Rightarrow> (Some NextArgument, s))"

definition eat_asterisk_or_number :: "bytes \<Rightarrow> can_asterisk option \<times> bytes" where
  "eat_asterisk_or_number s =
     (case s of
        c # rest \<Rightarrow>
          if c = CHR ''*'' then map_prod (map_option Asterisk) id (eat_argument_position rest)
          else map_prod (map_option Fixed) id (eat_number s)
      | [] \<Rightarrow> (None, []))"

definition single_lengths :: "(char \<times> length_mod) list" where
  "single_lengths =
     [(CHR ''h'', LShort), (CHR ''l'', LLongLong), (CHR ''j'', LIntMax), (CHR ''z'', LSize), (CHR ''t'', LPtrDiff),
      (CHR ''L'', LLongDouble)]"

definition double_length :: "char \<Rightarrow> length_mod option" where
  "double_length c = (if c = CHR ''h'' then Some LChar else if c = CHR ''l'' then Some LLong else None)"

text \<open>Any number of length modifiers; the last one is kept.\<close>

fun parse_length :: "length_mod option \<Rightarrow> bytes \<Rightarrow> length_mod option \<times> bytes" where
  "parse_length l [] = (l, [])"
| "parse_length l [c] =
     (case map_of single_lengths c of Some m \<Rightarrow> (Some m, []) | None \<Rightarrow> (l, [c]))"
| "parse_length l (c # d # s) =
     (if c = d \<and> double_length c \<noteq> None then parse_length (double_length c) s
      else case map_of single_lengths c of Some m \<Rightarrow> parse_length (Some m) (d # s) | None \<Rightarrow> (l, c # d # s))"

definition sign_of_flags :: "flags \<Rightarrow> positive_sign" where
  "sign_of_flags f = (if fl_plus f then SignPlus else if fl_space f then SignSpace else SignNone)"

definition alignment_of_flags :: "flags \<Rightarrow> can_asterisk option \<Rightarrow> alignment" where
  "alignment_of_flags f prec =
     (if fl_minus f then AlignLeft
      else if fl_zero f \<and> prec = None then AlignRightZero else AlignRightSpace)"

definition float_variant_of :: "char \<Rightarrow> float_variant" where
  "float_variant_of c =
     (if c \<in> {CHR ''f'', CHR ''F''} then FDecimal else if c \<in> {CHR ''e'', CHR ''E''} then FScientific
      else if c \<in> {CHR ''g'', CHR ''G''} then FShortest else FHexadecimal)"

definition unsigned_variant_of :: "char \<Rightarrow> use_prefix \<Rightarrow> unsigned_variant" where
  "unsigned_variant_of c p =
     (if c = CHR ''u'' then VDecimal else if c = CHR ''o'' then VOctal p
      else if c = CHR ''x'' then VHexadecimal Lowercase p else VHexadecimal Uppercase p)"

text \<open>The directive that a type character makes of the parts; \<open>None\<close> is a wrong combination.\<close>

definition spec_of ::
  "location \<Rightarrow> flags \<Rightarrow> can_asterisk option \<Rightarrow> can_asterisk option \<Rightarrow> char \<Rightarrow> spec option" where
  "spec_of pos f width prec c =
     (if c = CHR ''c'' then
        (if fl_zero f \<or> fl_hash f \<or> prec \<noteq> None then None else Some (SpChar pos width (fl_minus f)))
      else if c = CHR ''s'' then
        (if fl_zero f \<or> fl_hash f \<or> fl_quote f then None else Some (SpString pos prec width (fl_minus f)))
      else if c = CHR ''b'' then
        (if f \<noteq> no_flags \<or> width \<noteq> None \<or> prec \<noteq> None then None else Some (SpEscapedString pos))
      else if c = CHR ''q'' then
        (if f \<noteq> no_flags \<or> width \<noteq> None \<or> prec \<noteq> None then None else Some (SpQuotedString pos))
      else if c \<in> {CHR ''d'', CHR ''i''} then
        (if fl_hash f then None
         else Some (SpSigned pos width prec (sign_of_flags f) (alignment_of_flags f prec)))
      else if c \<in> {CHR ''u'', CHR ''o'', CHR ''x'', CHR ''X''} then
        (if c = CHR ''u'' \<and> fl_hash f then None
         else Some (SpUnsigned pos (unsigned_variant_of c (if fl_hash f then PrefixYes else PrefixNo)) width prec
                (alignment_of_flags f prec)))
      else if c \<in> set ''fFeEgGaA'' then
        Some (SpFloat pos (float_variant_of c) (if c \<in> set ''FEGA'' then Uppercase else Lowercase)
          (if fl_hash f then ForceYes else ForceNo) width (sign_of_flags f)
          (if fl_zero f \<and> \<not> fl_minus f then AlignRightZero else alignment_of_flags f prec) prec)
      else None)"

text \<open>The whole directive: the text of the error, or the directive; and what is left.\<close>

definition consumed :: "bytes \<Rightarrow> bytes \<Rightarrow> bytes" where
  "consumed start rest = take (length start - length rest) start"

definition spec_parse :: "bytes \<Rightarrow> (bytes + spec) \<times> bytes" where
  "spec_parse start =
     (case eat_argument_position start of
        (None, s1) \<Rightarrow> (Inl (consumed start s1), start)
      | (Some pos, s1) \<Rightarrow>
          (let (f, s2) = parse_flags no_flags s1;
               (width, s3) = eat_asterisk_or_number s2;
               (prec, s4) =
                 (case s3 of
                    c # rest \<Rightarrow>
                      if c = CHR ''.'' then
                        (let (p, r) = eat_asterisk_or_number rest
                         in (Some (case p of Some x \<Rightarrow> x | None \<Rightarrow> Fixed 0), r))
                      else (None, s3)
                  | [] \<Rightarrow> (None, s3));
               (_, s5) = parse_length None s4
           in case s5 of
                [] \<Rightarrow> (Inl (consumed start s5), start)
              | c # rest \<Rightarrow>
                  (case spec_of pos f width prec c of
                     None \<Rightarrow> (Inl (consumed start rest), rest)
                   | Some sp \<Rightarrow> (Inr sp, rest))))"

section \<open>Facts\<close>

text \<open>Every reader leaves an end of its input.\<close>

lemma parse_flags_suffix: "suffix (snd (parse_flags f s)) s"
  by (induction f s rule: parse_flags.induct) (auto intro: suffix_ConsI)

lemma eat_number_suffix: "suffix (snd (eat_number s)) s"
  by (auto simp: eat_number_def Let_def suffix_dropWhile)

lemma eat_argument_position_suffix: "suffix (snd (eat_argument_position s)) s"
  using eat_number_suffix [of s]
  by (auto simp: eat_argument_position_def split: prod.splits option.splits list.splits dest: suffix_ConsD)

lemma eat_asterisk_or_number_suffix: "suffix (snd (eat_asterisk_or_number s)) s"
  using eat_argument_position_suffix [of "tl s"] eat_number_suffix [of s]
  by (cases s) (auto simp: eat_asterisk_or_number_def map_prod_def split: prod.splits intro: suffix_ConsI)

lemma parse_length_suffix: "suffix (snd (parse_length l s)) s"
  by (induction l s rule: parse_length.induct) (auto intro: suffix_ConsI split: option.split)

lemma spec_parse_suffix: "suffix (snd (spec_parse s)) s"
proof -
  obtain pos s1 where p: "eat_argument_position s = (pos, s1)" by fastforce
  obtain f s2 where f: "parse_flags no_flags s1 = (f, s2)" by fastforce
  obtain w s3 where w: "eat_asterisk_or_number s2 = (w, s3)" by fastforce
  define ps where "ps = (case s3 of
      c # rest \<Rightarrow>
        if c = CHR ''.'' then (let (p, r) = eat_asterisk_or_number rest in (Some (case p of Some x \<Rightarrow> x | None \<Rightarrow> Fixed 0), r))
        else (None, s3)
    | [] \<Rightarrow> (None, s3))"
  obtain prec s4 where ps: "ps = (prec, s4)" by fastforce
  obtain l s5 where l: "parse_length None s4 = (l, s5)" by fastforce
  have "suffix s4 s3"
    using ps eat_asterisk_or_number_suffix [of "tl s3"]
    by (auto simp: ps_def split: list.splits if_splits prod.splits intro: suffix_ConsI)
  moreover have "suffix s1 s" "suffix s2 s1" "suffix s3 s2" "suffix s5 s4"
    using eat_argument_position_suffix [of s] parse_flags_suffix [of no_flags s1] eat_asterisk_or_number_suffix [of s2]
      parse_length_suffix [of None s4] p f w l by auto
  ultimately have "suffix s5 s" by (meson suffix_order.trans)
  then show ?thesis
    using p f w l ps
    by (cases pos; cases s5)
      (auto simp: spec_parse_def ps_def [symmetric] Let_def split: option.split dest: suffix_ConsD)
qed

lemma spec_parse_length: "length (snd (spec_parse s)) \<le> length s"
  using spec_parse_suffix suffix_length_le by blast

section \<open>Reading back a written directive\<close>

fun show_location :: "location \<Rightarrow> bytes" where
  "show_location NextArgument = []"
| "show_location (Position n) = show_nat n @ ''$''"

fun show_can_asterisk :: "can_asterisk option \<Rightarrow> bytes" where
  "show_can_asterisk None = []"
| "show_can_asterisk (Some (Fixed n)) = show_nat n"
| "show_can_asterisk (Some (Asterisk l)) = CHR ''*'' # show_location l"

definition show_precision :: "can_asterisk option \<Rightarrow> bytes" where
  "show_precision p = (if p = None then [] else CHR ''.'' # show_can_asterisk p)"

definition show_flags :: "flags \<Rightarrow> bytes" where
  "show_flags f =
     (if fl_minus f then ''-'' else []) @ (if fl_plus f then ''+'' else []) @ (if fl_space f then '' '' else [])
     @ (if fl_hash f then ''#'' else []) @ (if fl_zero f then ''0'' else []) @ (if fl_quote f then [CHR 0x27] else [])"

text \<open>Positions count from one, and numbers fit the word.\<close>

fun proper_location :: "location \<Rightarrow> bool" where
  "proper_location NextArgument = True"
| "proper_location (Position n) \<longleftrightarrow> 0 < n \<and> n < 2 ^ 32"

fun proper_number :: "can_asterisk option \<Rightarrow> bool" where
  "proper_number None = True"
| "proper_number (Some (Fixed n)) \<longleftrightarrow> n < 2 ^ 32"
| "proper_number (Some (Asterisk l)) \<longleftrightarrow> proper_location l"

definition type_chars :: bytes where
  "type_chars = ''csbqdiuoxXfFeEgGaA''"

lemma is_digit_char_show: "list_all is_digit_char (show_nat n)"
proof -
  have "to_digit 10 c \<noteq> None" if "c \<in> set (show_nat n)" for c
    using set_show_radix [of 10 c n] that by (auto simp: show_nat_def to_digit_digit_char)
  then show ?thesis by (auto simp: list_all_iff is_digit_char_def)
qed

lemma digits_then:
  assumes "list_all is_digit_char ds" "\<not> is_digit_char c"
  shows "takeWhile is_digit_char (ds @ c # s) = ds" "dropWhile is_digit_char (ds @ c # s) = c # s"
  using assms by (simp_all add: list_all_iff takeWhile_append dropWhile_append)

lemma eat_number_show: "n < 2 ^ 32 \<Longrightarrow> \<not> is_digit_char c \<Longrightarrow> eat_number (show_nat n @ c # s) = (Some n, c # s)"
  using digits_then [OF is_digit_char_show [of n]] parse_unsigned_show_radix [of 10 n "2 ^ 32"]
  by (simp add: eat_number_def Let_def show_nat_def)

lemma eat_number_none: "\<not> is_digit_char c \<Longrightarrow> eat_number (c # s) = (None, c # s)"
  by (simp add: eat_number_def)

lemma not_digit_chars:
  "\<not> is_digit_char CHR ''$''" "\<not> is_digit_char CHR ''*''" "\<not> is_digit_char CHR ''.''" "\<not> is_digit_char CHR ''-''"
  "\<not> is_digit_char CHR ''+''" "\<not> is_digit_char CHR '' ''" "\<not> is_digit_char CHR ''#''" "\<not> is_digit_char CHR 0x27"
  "is_digit_char CHR ''0''"
  by (simp_all add: is_digit_char_def to_digit_def digit_val_def between_def byte_def)

text \<open>What ends the parts: a type character or a point.\<close>

definition ends_part :: "char \<Rightarrow> bool" where
  "ends_part c \<longleftrightarrow> \<not> is_digit_char c \<and> c \<notin> {CHR ''$'', CHR ''*''}"

lemma ends_part_point: "ends_part CHR ''.''"
  by (simp add: ends_part_def not_digit_chars)

lemma ends_part_type: "c \<in> set type_chars \<Longrightarrow> ends_part c"
  by (auto simp: type_chars_def ends_part_def is_digit_char_def to_digit_def digit_val_def between_def byte_def)

lemma eat_argument_position_show:
  "proper_location l \<Longrightarrow> l \<noteq> NextArgument \<Longrightarrow> eat_argument_position (show_location l @ s) = (Some l, s)"
  by (cases l) (simp_all add: eat_argument_position_def eat_number_show not_digit_chars)

text \<open>Digits that are not followed by a dollar sign are no position.\<close>

lemma eat_argument_position_none:
  assumes "dropWhile is_digit_char s = [] \<or> hd (dropWhile is_digit_char s) \<noteq> CHR ''$''"
  shows "eat_argument_position s = (Some NextArgument, s)"
  using assms by (auto simp: eat_argument_position_def eat_number_def Let_def split: list.split)

lemma eat_asterisk_show:
  assumes "proper_number w" "ends_part c" "w = None \<Longrightarrow> True"
  shows "eat_asterisk_or_number (show_can_asterisk w @ c # s) = (w, c # s)"
proof -
  have c: "\<not> is_digit_char c" "c \<noteq> CHR ''*''" "c \<noteq> CHR ''$''" using assms(2) by (auto simp: ends_part_def)
  consider "w = None" | n where "w = Some (Fixed n)" | "w = Some (Asterisk NextArgument)"
    | n where "w = Some (Asterisk (Position n))"
    by (cases w; simp) (metis can_asterisk.exhaust location.exhaust)
  then show ?thesis
  proof cases
    case 1
    then show ?thesis using c by (simp add: eat_asterisk_or_number_def eat_number_none)
  next
    case 2
    obtain d ds where d: "show_nat n = d # ds" "is_digit_char d"
      using is_digit_char_show [of n] by (cases "show_nat n") (auto simp: show_nat_def)
    then have "d \<noteq> CHR ''*''" using not_digit_chars by auto
    then show ?thesis using 2 c assms(1) d eat_number_show [of n c s] by (simp add: eat_asterisk_or_number_def)
  next
    case 3
    then show ?thesis using c eat_argument_position_none [of "c # s"] by (simp add: eat_asterisk_or_number_def)
  next
    case 4
    then show ?thesis using assms(1) eat_argument_position_show [of "Position n" "c # s"]
      by (simp add: eat_asterisk_or_number_def)
  qed
qed

lemma parse_flags_show:
  assumes "s \<noteq> []" "hd s \<notin> {CHR ''-'', CHR ''+'', CHR '' '', CHR ''#'', CHR ''0'', CHR 0x27}"
  shows "parse_flags no_flags (show_flags f @ s) = (f, s)"
proof -
  have stop: "parse_flags g s = (g, s)" for g using assms by (cases s) auto
  show ?thesis
    by (cases f) (auto simp: show_flags_def no_flags_def stop)
qed

lemma no_length: "c \<in> set type_chars \<Longrightarrow> parse_length l (c # s) = (l, c # s)"
  by (cases s) (auto simp: type_chars_def single_lengths_def double_length_def)

text \<open>Every directive is read as it was written: an argument position, flags, a width, a
  precision and a type character give the directive that the type makes of them, or the error with the
  text of the directive, and what follows is left.\<close>

theorem directive_round_trip:
  fixes f :: flags
  assumes "proper_location pos" "proper_number width" "proper_number prec" "c \<in> set type_chars"
    and "width \<noteq> Some (Fixed 0)"
  defines "d \<equiv> show_location pos @ show_flags f @ show_can_asterisk width @ show_precision prec @ [c]"
  shows "spec_parse (d @ s) = (case spec_of pos f width prec c of Some sp \<Rightarrow> (Inr sp, s) | None \<Rightarrow> (Inl d, s))"
proof -
  note c = ends_part_type [OF assms(4)]
  define s4 where "s4 = c # s"
  define s3 where "s3 = show_precision prec @ s4"
  define s2 where "s2 = show_can_asterisk width @ s3"
  define s1 where "s1 = show_flags f @ s2"
  have whole: "d @ s = show_location pos @ s1" by (simp add: d_def s1_def s2_def s3_def s4_def)
  obtain e r where e: "s3 = e # r" "ends_part e" "e \<noteq> CHR ''-''" "e \<noteq> CHR ''+''" "e \<noteq> CHR '' ''" "e \<noteq> CHR ''#''" "e \<noteq> CHR 0x27"
    using c ends_part_point assms(4) by (cases prec) (auto simp: s3_def s4_def show_precision_def type_chars_def)
  have ed: "\<not> is_digit_char e" "e \<noteq> CHR ''$''" using e(2) by (auto simp: ends_part_def)
  have w: "eat_asterisk_or_number s2 = (width, s3)"
    using eat_asterisk_show [OF assms(2) e(2)] by (simp add: s2_def e(1))
  have p: "(case s3 of
      x # rest \<Rightarrow>
        if x = CHR ''.'' then (let (p, r) = eat_asterisk_or_number rest in (Some (case p of Some y \<Rightarrow> y | None \<Rightarrow> Fixed 0), r))
        else (None, s3)
    | [] \<Rightarrow> (None, s3)) = (prec, s4)"
    using eat_asterisk_show [OF assms(3) c, of s] ends_part_point c assms(4)
    by (cases prec) (auto simp: s3_def s4_def show_precision_def type_chars_def)
  have l: "parse_length None s4 = (None, c # s)" using no_length [OF assms(4)] by (simp add: s4_def)
  have w0: "s2 \<noteq> [] \<and> hd s2 \<notin> {CHR ''-'', CHR ''+'', CHR '' '', CHR ''#'', CHR ''0'', CHR 0x27}"
  proof (cases width)
    case None
    then show ?thesis using e ed not_digit_chars by (auto simp: s2_def)
  next
    case (Some x)
    show ?thesis
    proof (cases x)
      case (Fixed n)
      then have "n \<noteq> 0" using assms(5) Some by simp
      have "hd (show_nat n) \<noteq> CHR ''0''" "is_digit_char (hd (show_nat n))"
        using show_radix_head [of 10 n] \<open>n \<noteq> 0\<close> is_digit_char_show [of n] by (cases "show_nat n"; simp add: show_nat_def)+
      then show ?thesis using Some Fixed not_digit_chars by (auto simp: s2_def hd_append show_nat_def)
    qed (simp add: s2_def Some)
  qed
  have f: "parse_flags no_flags s1 = (f, s2)" using parse_flags_show w0 by (auto simp: s1_def)
  have drop: "dropWhile is_digit_char s1 \<noteq> [] \<and> hd (dropWhile is_digit_char s1) \<noteq> CHR ''$''"
  proof -
    have s3: "dropWhile is_digit_char s3 = s3" using ed by (simp add: e(1))
    have "dropWhile is_digit_char s2 \<noteq> [] \<and> hd (dropWhile is_digit_char s2) \<noteq> CHR ''$''"
    proof (cases width)
      case None
      then show ?thesis using s3 ed e(1) by (simp add: s2_def)
    next
      case (Some x)
      then show ?thesis using digits_then(2) [OF is_digit_char_show ed(1)] ed e(1) not_digit_chars
        by (cases x) (simp_all add: s2_def)
    qed
    then show ?thesis by (auto simp: s1_def show_flags_def not_digit_chars)
  qed
  have pos: "eat_argument_position (d @ s) = (Some pos, s1)"
  proof (cases pos)
    case NextArgument
    then show ?thesis using eat_argument_position_none [of s1] drop by (simp add: whole)
  next
    case (Position n)
    then show ?thesis using eat_argument_position_show [of pos s1] assms(1) by (simp add: whole)
  qed
  have "consumed (d @ s) s = d" by (simp add: consumed_def)
  then show ?thesis
    unfolding spec_parse_def pos using f w p l by (simp add: Let_def split: option.split)
qed

lemma directive_round_trip_witness:
  "spec_parse ''1$-*2$.3dX''
    = (Inr (SpSigned (Position 1) (Some (Asterisk (Position 2))) (Some (Fixed 3)) SignNone AlignLeft), ''X'')"
proof -
  let ?f = "no_flags\<lparr>fl_minus := True\<rparr>"
  have n: "show_nat 1 = ''1''" "show_nat 2 = ''2''" "show_nat 3 = ''3''"
    by (simp_all add: show_nat_def show_radix.simps)
  have "spec_of (Position 1) ?f (Some (Asterisk (Position 2))) (Some (Fixed 3)) CHR ''d''
      = Some (SpSigned (Position 1) (Some (Asterisk (Position 2))) (Some (Fixed 3)) SignNone AlignLeft)"
    by (simp add: spec_of_def sign_of_flags_def alignment_of_flags_def no_flags_def)
  with directive_round_trip [of "Position 1" "Some (Asterisk (Position 2))" "Some (Fixed 3)" "CHR ''d''" ?f "''X''"] n
  show ?thesis by (simp add: show_flags_def show_precision_def no_flags_def type_chars_def)
qed

text \<open>A width whose argument position is zero is read as no width.\<close>

lemma zero_position_width: "spec_parse ''*0$d'' = (Inr (SpSigned NextArgument None None SignNone AlignRightSpace), [])"
proof -
  have "eat_argument_position ''0$d'' = (None, ''d'')"
    by (simp add: eat_argument_position_def eat_number_def is_digit_char_def to_digit_def digit_val_def between_def byte_def
        parse_unsigned_def)
  moreover have "eat_argument_position ''*0$d'' = (Some NextArgument, ''*0$d'')"
    by (simp add: eat_argument_position_def eat_number_none not_digit_chars)
  ultimately show ?thesis
    by (simp add: spec_parse_def eat_asterisk_or_number_def single_lengths_def spec_of_def sign_of_flags_def
        alignment_of_flags_def no_flags_def)
qed

end
