(* ===== verification/Uu_Num.thy ===== *)
theory Uu_Num
  imports RustStr
begin

text \<open>
  Decimal numbers with infinities (\<open>stubs/uucore/src/lib/features/extendedbigdecimal.rs\<close>) and the reader of
  numbers in several bases that \<open>printf\<close>, \<open>seq\<close> and \<open>sleep\<close> share (\<open>parser/num_parser.rs\<close>).  A number of the
  \<open>bigdecimal\<close> crate is its digits and its scale; the crate's arithmetic is the record \<open>bigdec_lib\<close>.
\<close>

section \<open>Decimal numbers\<close>

text \<open>\<open>BD d s\<close> stands for \<open>d\<close> divided by the \<open>s\<close>th power of ten.\<close>

datatype big_decimal = BD (bd_digits: int) (bd_scale: int)

datatype ebd = Finite big_decimal | Infinity | MinusInfinity | MinusZero | Nan | MinusNan

datatype cmp = Less | Equal | Greater

record bigdec_lib =
  bl_add :: "big_decimal \<Rightarrow> big_decimal \<Rightarrow> big_decimal"
  bl_eq :: "big_decimal \<Rightarrow> big_decimal \<Rightarrow> bool"
  bl_cmp :: "big_decimal \<Rightarrow> big_decimal \<Rightarrow> cmp"
  bl_mul :: "big_decimal \<Rightarrow> big_decimal \<Rightarrow> big_decimal"
  bl_div :: "big_decimal \<Rightarrow> big_decimal \<Rightarrow> big_decimal"
  bl_powi :: "big_decimal \<Rightarrow> int \<Rightarrow> big_decimal"

definition bd_zero :: big_decimal where "bd_zero = BD 0 0"

definition bd_is_zero :: "big_decimal \<Rightarrow> bool" where
  "bd_is_zero b \<longleftrightarrow> bd_digits b = 0"

definition ebd_zero :: ebd where "ebd_zero = Finite bd_zero"
definition ebd_one :: ebd where "ebd_one = Finite (BD 1 0)"

definition ebd_from_nat :: "nat \<Rightarrow> ebd" where
  "ebd_from_nat n = Finite (BD (int n) 0)"

fun to_biguint :: "ebd \<Rightarrow> nat option" where
  "to_biguint (Finite b) =
     (if bd_digits b < 0 \<or> 0 < bd_scale b \<or> bd_scale b < - (2 ^ 32 - 1) then None
      else Some (nat (bd_digits b) * 10 ^ nat (- bd_scale b)))"
| "to_biguint _ = None"

fun ebd_is_zero :: "ebd \<Rightarrow> bool" where
  "ebd_is_zero (Finite b) = bd_is_zero b"
| "ebd_is_zero MinusZero = True"
| "ebd_is_zero _ = False"

fun ebd_add :: "bigdec_lib \<Rightarrow> ebd \<Rightarrow> ebd \<Rightarrow> ebd" where
  "ebd_add B (Finite m) (Finite n) = Finite (bl_add B m n)"
| "ebd_add B (Finite _) MinusInfinity = MinusInfinity"
| "ebd_add B (Finite _) Infinity = Infinity"
| "ebd_add B (Finite m) MinusZero = Finite m"
| "ebd_add B Infinity (Finite _) = Infinity"
| "ebd_add B Infinity Infinity = Infinity"
| "ebd_add B Infinity MinusZero = Infinity"
| "ebd_add B Infinity MinusInfinity = Nan"
| "ebd_add B MinusInfinity (Finite _) = MinusInfinity"
| "ebd_add B MinusInfinity MinusInfinity = MinusInfinity"
| "ebd_add B MinusInfinity MinusZero = MinusInfinity"
| "ebd_add B MinusInfinity Infinity = Nan"
| "ebd_add B Nan _ = Nan"
| "ebd_add B _ Nan = Nan"
| "ebd_add B MinusNan _ = MinusNan"
| "ebd_add B _ MinusNan = MinusNan"
| "ebd_add B MinusZero x = x"

fun ebd_eq :: "bigdec_lib \<Rightarrow> ebd \<Rightarrow> ebd \<Rightarrow> bool" where
  "ebd_eq B (Finite m) (Finite n) = bl_eq B m n"
| "ebd_eq B Infinity Infinity = True"
| "ebd_eq B MinusInfinity MinusInfinity = True"
| "ebd_eq B MinusZero MinusZero = True"
| "ebd_eq B _ _ = False"

fun ebd_cmp :: "bigdec_lib \<Rightarrow> ebd \<Rightarrow> ebd \<Rightarrow> cmp option" where
  "ebd_cmp B (Finite m) (Finite n) = Some (bl_cmp B m n)"
| "ebd_cmp B (Finite _) MinusInfinity = Some Greater"
| "ebd_cmp B (Finite _) Infinity = Some Less"
| "ebd_cmp B (Finite m) MinusZero = Some (bl_cmp B m bd_zero)"
| "ebd_cmp B Infinity (Finite _) = Some Greater"
| "ebd_cmp B Infinity Infinity = Some Equal"
| "ebd_cmp B Infinity MinusZero = Some Greater"
| "ebd_cmp B Infinity MinusInfinity = Some Greater"
| "ebd_cmp B MinusInfinity (Finite _) = Some Less"
| "ebd_cmp B MinusInfinity Infinity = Some Less"
| "ebd_cmp B MinusInfinity MinusZero = Some Less"
| "ebd_cmp B MinusInfinity MinusInfinity = Some Equal"
| "ebd_cmp B MinusZero (Finite n) = Some (bl_cmp B bd_zero n)"
| "ebd_cmp B MinusZero Infinity = Some Less"
| "ebd_cmp B MinusZero MinusZero = Some Equal"
| "ebd_cmp B MinusZero MinusInfinity = Some Greater"
| "ebd_cmp B _ _ = None"

fun ebd_neg :: "ebd \<Rightarrow> ebd" where
  "ebd_neg (Finite b) = (if bd_is_zero b then MinusZero else Finite (BD (- bd_digits b) (bd_scale b)))"
| "ebd_neg MinusZero = Finite bd_zero"
| "ebd_neg Infinity = MinusInfinity"
| "ebd_neg MinusInfinity = Infinity"
| "ebd_neg Nan = MinusNan"
| "ebd_neg MinusNan = Nan"

section \<open>Digits\<close>

text \<open>The digits in pieces of fifteen, with the arithmetic of \<open>u64\<close>: what is accumulated, how many digits
  there were, and the rest.\<close>

fun digit_chunks :: "nat \<Rightarrow> nat option \<Rightarrow> nat \<Rightarrow> nat \<Rightarrow> nat \<Rightarrow> nat \<Rightarrow> bytes \<Rightarrow> nat option \<times> nat \<times> bytes" where
  "digit_chunks b digits count tmp count_tmp mul [] =
     (if 1 < mul then (Some ((case digits of Some n \<Rightarrow> n | None \<Rightarrow> 0) * mul + tmp), count + count_tmp, [])
      else (digits, count, []))"
| "digit_chunks b digits count tmp count_tmp mul (c # s) =
     (case to_digit b c of
        None \<Rightarrow>
          if 1 < mul then (Some ((case digits of Some n \<Rightarrow> n | None \<Rightarrow> 0) * mul + tmp), count + count_tmp, c # s)
          else (digits, count, c # s)
      | Some d \<Rightarrow>
          (let tmp1 = (tmp * b + d) mod 2 ^ 64; mul1 = mul * b mod 2 ^ 64 in
           if 15 \<le> count_tmp + 1 then
             digit_chunks b (Some ((case digits of Some n \<Rightarrow> n | None \<Rightarrow> 0) * mul1 + tmp1)) (count + (count_tmp + 1)) 0 0 1 s
           else digit_chunks b digits count tmp1 (count_tmp + 1) mul1 s))"

definition parse_digits_count :: "nat \<Rightarrow> bytes \<Rightarrow> nat option \<Rightarrow> nat option \<times> nat \<times> bytes" where
  "parse_digits_count b s digits = digit_chunks b digits 0 0 0 1 s"

definition parse_base_digits :: "nat \<Rightarrow> bytes \<Rightarrow> nat option \<times> bytes" where
  "parse_base_digits b s = (let (digits, _, rest) = parse_digits_count b s None in (digits, rest))"

definition parse_digits :: "nat \<Rightarrow> bytes \<Rightarrow> bool \<Rightarrow> nat option \<times> nat \<times> bytes" where
  "parse_digits b s fractional =
     (let (digits, rest) = parse_base_digits b s in
      case (fractional, rest) of
        (True, c # rest') \<Rightarrow>
          if c = CHR ''.'' then parse_digits_count b rest' digits else (digits, 0, rest)
      | _ \<Rightarrow> (digits, 0, rest))"

definition parse_exponent :: "nat \<Rightarrow> bytes \<Rightarrow> int option \<times> bytes" where
  "parse_exponent b s =
     (case s of
        [] \<Rightarrow> (None, s)
      | c # rest \<Rightarrow>
          if c \<in> (if b = 10 then {CHR ''e'', CHR ''E''} else {CHR ''p'', CHR ''P''}) then
            (let (sign, rest1) =
                   (case rest of
                      x # xs \<Rightarrow> if x = CHR ''-'' then (- 1, xs) else if x = CHR ''+'' then (1, xs) else (1, rest)
                    | [] \<Rightarrow> (1, rest))
             in case parse_base_digits 10 rest1 of
                  (Some e, rest2) \<Rightarrow> (Some (sign * int e), rest2)
                | (None, _) \<Rightarrow> (None, s))
          else (None, s))"

definition parse_suffix_multiplier :: "bytes \<Rightarrow> (char \<times> nat) list \<Rightarrow> nat \<times> bytes" where
  "parse_suffix_multiplier s allowed =
     (case s of
        [] \<Rightarrow> (1, s)
      | c # rest \<Rightarrow> (case map_of allowed c of Some mul \<Rightarrow> (mul, rest) | None \<Rightarrow> (1, s)))"

section \<open>Numbers\<close>

datatype 'a ext_error = NotNumeric | PartialMatch 'a bytes | Overflow 'a | Underflow 'a

fun ext_extract :: "'a \<Rightarrow> 'a ext_error \<Rightarrow> 'a" where
  "ext_extract zero NotNumeric = zero"
| "ext_extract zero (PartialMatch v _) = v"
| "ext_extract zero (Overflow v) = v"
| "ext_extract zero (Underflow v) = v"

definition best_value :: "'a \<Rightarrow> 'a ext_error + 'a \<Rightarrow> 'a" where
  "best_value zero r = (case r of Inl e \<Rightarrow> ext_extract zero e | Inr v \<Rightarrow> v)"

fun map_ext_error :: "'b \<Rightarrow> ('a \<Rightarrow> 'b ext_error + 'b) \<Rightarrow> 'a ext_error \<Rightarrow> 'b ext_error" where
  "map_ext_error zero f NotNumeric = NotNumeric"
| "map_ext_error zero f (PartialMatch v rest) = PartialMatch (best_value zero (f v)) rest"
| "map_ext_error zero f (Overflow v) = Overflow (best_value zero (f v))"
| "map_ext_error zero f (Underflow v) = Underflow (best_value zero (f v))"

definition special_values :: "(bytes \<times> ebd) list" where
  "special_values = [(''infinity'', Infinity), (''inf'', Infinity), (''nan'', Nan)]"

definition parse_special_value :: "bytes \<Rightarrow> bool \<Rightarrow> (char \<times> nat) list \<Rightarrow> ebd ext_error + ebd" where
  "parse_special_value input negative allowed =
     (case List.find (\<lambda>(s, _). prefix s (lower input)) special_values of
        None \<Rightarrow> Inl NotNumeric
      | Some (s, e) \<Rightarrow>
          (let special = (if negative then ebd_neg e else e);
               (_, rest) = parse_suffix_multiplier (drop (length s) input) allowed
           in if rest = [] then Inr special else Inl (PartialMatch special rest)))"

definition make_error :: "bool \<Rightarrow> bool \<Rightarrow> ebd ext_error" where
  "make_error overflow negative =
     (let v = (if overflow then Infinity else ebd_zero); w = (if negative then ebd_neg v else v)
      in if overflow then Overflow w else Underflow w)"

definition fits_i64 :: "int \<Rightarrow> bool" where
  "fits_i64 n \<longleftrightarrow> - (2 ^ 63) \<le> n \<and> n < 2 ^ 63"

definition construct_ebd ::
  "bigdec_lib \<Rightarrow> nat \<Rightarrow> bool \<Rightarrow> nat \<Rightarrow> nat \<Rightarrow> int \<Rightarrow> ebd ext_error + ebd" where
  "construct_ebd B digits negative b scale expo =
     (if digits = 0 then Inr (if negative then MinusZero else ebd_zero)
      else
        let signed = (if negative then - int digits else int digits) in
        if scale = 0 \<and> expo = 0 then Inr (Finite (BD signed 0))
        else if b = 10 then
          (if expo = 0 then Inr (Finite (BD signed (int scale)))
           else let new_scale = - expo + int scale in
                if fits_i64 new_scale then Inr (Finite (BD signed new_scale))
                else Inl (make_error (new_scale < 0) negative))
        else if 2 ^ 32 - 1 < scale then Inl NotNumeric
        else if \<not> fits_i64 expo then Inl (make_error (0 < expo) negative)
        else Inr (Finite (bl_mul B (bl_div B (BD signed 0) (BD (16 ^ scale) 0)) (bl_powi B (BD 2 0) expo))))"

datatype parse_target = TDecimal | TIntegral | TDuration

definition strip_sign :: "bytes \<Rightarrow> bool \<times> bytes" where
  "strip_sign s =
     (case s of
        c # rest \<Rightarrow> if c = CHR ''-'' then (True, rest) else if c = CHR ''+'' then (False, rest) else (False, s)
      | [] \<Rightarrow> (False, s))"

text \<open>The base and what is left to read, after an optional prefix.\<close>

definition detect_base :: "parse_target \<Rightarrow> bytes \<Rightarrow> nat \<times> bytes" where
  "detect_base target u =
     (case u of
        z # rest \<Rightarrow>
          if z = CHR ''0'' then
            (case rest of
               x # rest' \<Rightarrow>
                 if x = CHR ''x'' \<or> x = CHR ''X'' then (16, rest')
                 else if target = TIntegral then
                   (if x = CHR ''b'' \<or> x = CHR ''B'' then (2, rest') else (8, u))
                 else (10, u)
             | [] \<Rightarrow> if target = TIntegral then (8, u) else (10, u))
          else (10, u)
      | [] \<Rightarrow> (10, u))"

definition is_ascii_ws :: "char \<Rightarrow> bool" where
  "is_ascii_ws c \<longleftrightarrow> c \<in> {CHR '' '', TAB, NL, CHR 0x0C, CR}"

definition num_parse ::
  "bigdec_lib \<Rightarrow> bytes \<Rightarrow> parse_target \<Rightarrow> (char \<times> nat) list \<Rightarrow> ebd ext_error + ebd" where
  "num_parse B input target allowed =
     (let (negative, u) = strip_sign (dropWhile is_ascii_ws input);
          (b, rest0) = detect_base target u;
          frac_exp = ((b = 10 \<or> b = 16) \<and> target \<noteq> TIntegral);
          (digits, scale, rest1) = parse_digits b rest0 frac_exp;
          (expo, rest2) = (if frac_exp then parse_exponent b rest1 else (None, rest1))
      in case digits of
           None \<Rightarrow>
             (case u of
                z # part \<Rightarrow>
                  if z = CHR ''0'' then Inl (PartialMatch (if negative then MinusZero else ebd_zero) part)
                  else if target = TIntegral then Inl NotNumeric else parse_special_value u negative allowed
              | [] \<Rightarrow> if target = TIntegral then Inl NotNumeric else parse_special_value u negative allowed)
         | Some n \<Rightarrow>
             (let (mul, rest3) = parse_suffix_multiplier rest2 allowed;
                  result = construct_ebd B (n * mul) negative b scale (case expo of Some e \<Rightarrow> e | None \<Rightarrow> 0)
              in if rest3 = [] then result else Inl (PartialMatch (best_value ebd_zero result) rest3)))"

section \<open>Integers\<close>

fun into_i64 :: "ebd \<Rightarrow> int ext_error + int" where
  "into_i64 (Finite b) =
     (if bd_scale b \<noteq> 0 then Inl NotNumeric
      else if fits_i64 (bd_digits b) then Inr (bd_digits b)
      else Inl (Overflow (if bd_digits b < 0 then - (2 ^ 63) else 2 ^ 63 - 1)))"
| "into_i64 MinusZero = Inr 0"
| "into_i64 _ = Inl NotNumeric"

fun into_u64 :: "ebd \<Rightarrow> nat ext_error + nat" where
  "into_u64 (Finite b) =
     (if bd_scale b \<noteq> 0 then Inl NotNumeric
      else
        let n = nat \<bar>bd_digits b\<bar> in
        if n < 2 ^ 64 then Inr (if bd_digits b < 0 then (2 ^ 64 - 1 - n + 1) mod 2 ^ 64 else n)
        else Inl (Overflow (2 ^ 64 - 1)))"
| "into_u64 MinusZero = Inr 0"
| "into_u64 _ = Inl NotNumeric"

definition parse_i64 :: "bigdec_lib \<Rightarrow> bytes \<Rightarrow> int ext_error + int" where
  "parse_i64 B input =
     (case num_parse B input TIntegral [] of
        Inr v \<Rightarrow> into_i64 v
      | Inl e \<Rightarrow> Inl (map_ext_error 0 into_i64 e))"

definition parse_ext_u64 :: "bigdec_lib \<Rightarrow> bytes \<Rightarrow> nat ext_error + nat" where
  "parse_ext_u64 B input =
     (case num_parse B input TIntegral [] of
        Inr v \<Rightarrow> into_u64 v
      | Inl e \<Rightarrow> Inl (map_ext_error 0 into_u64 e))"

definition parse_ebd :: "bigdec_lib \<Rightarrow> bytes \<Rightarrow> ebd ext_error + ebd" where
  "parse_ebd B input = num_parse B input TDecimal []"

section \<open>Facts\<close>

lemma digit_less: "to_digit b c = Some d \<Longrightarrow> d < b"
  by (auto simp: to_digit_def split: option.splits if_splits)

definition all_digits :: "nat \<Rightarrow> bytes \<Rightarrow> bool" where
  "all_digits b s \<longleftrightarrow> list_all (\<lambda>c. to_digit b c \<noteq> None) s"

lemma all_digits_simps [simp]:
  "all_digits b []" "all_digits b (c # s) \<longleftrightarrow> to_digit b c \<noteq> None \<and> all_digits b s"
  "all_digits b (s @ t) \<longleftrightarrow> all_digits b s \<and> all_digits b t"
  by (auto simp: all_digits_def)

lemma digits_val_all: "digits_val b acc s \<noteq> None \<longleftrightarrow> all_digits b s"
  by (induction s arbitrary: acc) (auto split: option.split)

lemma digit_power_bound:
  assumes "b \<le> 16" "k \<le> 15"
  shows "b ^ k < (2::nat) ^ 64"
proof (cases "b = 0")
  case False
  have "b ^ k \<le> 16 ^ k" using assms(1) by (rule power_mono) simp
  also have "\<dots> \<le> (16::nat) ^ 15" using assms(2) by (intro power_increasing) auto
  also have "\<dots> < 2 ^ 64" by simp
  finally show ?thesis .
qed (cases k; simp)

text \<open>The pieces of fifteen digits come to the digits one by one: nothing overflows.\<close>

lemma digit_chunks_digits:
  assumes "1 < b" "b \<le> 16" "all_digits b ds" "s = [] \<or> to_digit b (hd s) = None"
    and "count_tmp < 15" "mul = b ^ count_tmp" "tmp < mul"
  shows "digit_chunks b digits count tmp count_tmp mul (ds @ s) =
    (if ds = [] \<and> count_tmp = 0 then digits
     else digits_val b ((case digits of Some n \<Rightarrow> n | None \<Rightarrow> 0) * mul + tmp) ds, count + count_tmp + length ds, s)"
  using assms(3,5-)
proof (induction ds arbitrary: digits count tmp count_tmp mul)
  case Nil
  have "1 < mul \<longleftrightarrow> count_tmp \<noteq> 0" using Nil.prems(3) assms(1) one_less_power [of b count_tmp] by (cases "count_tmp = 0") auto
  then show ?case using assms(4) Nil.prems by (cases s) auto
next
  case (Cons c ds)
  obtain d where d: "to_digit b c = Some d" using Cons.prems(1) by auto
  have k: "count_tmp + 1 \<le> 15" using Cons.prems(2) by simp
  have t: "tmp * b + d < b ^ (count_tmp + 1)"
  proof -
    have "tmp * b + d < tmp * b + b" using digit_less [OF d] by simp
    also have "\<dots> = (tmp + 1) * b" by simp
    also have "\<dots> \<le> mul * b" using Cons.prems(4) by (intro mult_le_mono1) simp
    finally show ?thesis by (simp add: Cons.prems(3) mult.commute)
  qed
  have m: "mul * b = b ^ (count_tmp + 1)" by (simp add: Cons.prems(3))
  note bound = digit_power_bound [OF assms(2) k]
  have mods: "(tmp * b + d) mod 2 ^ 64 = tmp * b + d" "mul * b mod 2 ^ 64 = mul * b"
    using t bound m by (simp_all only: mod_less)
  let ?D = "case digits of Some n \<Rightarrow> n | None \<Rightarrow> 0"
  have acc: "?D * (mul * b) + (tmp * b + d) = b * (?D * mul + tmp) + d" by (simp add: algebra_simps)
  show ?case
  proof (cases "15 \<le> count_tmp + 1")
    case True
    have "digit_chunks b digits count tmp count_tmp mul ((c # ds) @ s)
        = digit_chunks b (Some (?D * (mul * b) + (tmp * b + d))) (count + (count_tmp + 1)) 0 0 1 (ds @ s)"
      using d mods True by (simp add: Let_def del: power_numeral)
    also have "\<dots> = (digits_val b (b * (?D * mul + tmp) + d) ds, count + count_tmp + length (c # ds), s)"
      unfolding acc using Cons.prems(1) by (subst Cons.IH) auto
    finally show ?thesis using d by simp
  next
    case False
    have "digit_chunks b digits count tmp count_tmp mul ((c # ds) @ s)
        = digit_chunks b digits count (tmp * b + d) (count_tmp + 1) (mul * b) (ds @ s)"
      using d mods False by (simp add: Let_def del: power_numeral)
    also have "\<dots> = (digits_val b (?D * (mul * b) + (tmp * b + d)) ds, count + count_tmp + length (c # ds), s)"
      using Cons.prems(1) t m False by (subst Cons.IH) (auto simp: mult.commute)
    finally show ?thesis using d by (simp add: acc)
  qed
qed

lemma parse_digits_count_digits:
  assumes "1 < b" "b \<le> 16" "all_digits b ds" "s = [] \<or> to_digit b (hd s) = None"
  shows "parse_digits_count b (ds @ s) digits =
    (if ds = [] then digits else digits_val b (case digits of Some n \<Rightarrow> n | None \<Rightarrow> 0) ds, length ds, s)"
  using digit_chunks_digits [OF assms, of 0 1 0 digits 0] by (simp add: parse_digits_count_def)

lemma parse_base_digits_digits:
  assumes "1 < b" "b \<le> 16" "all_digits b ds" "s = [] \<or> to_digit b (hd s) = None"
  shows "parse_base_digits b (ds @ s) = (if ds = [] then None else digits_val b 0 ds, s)"
  using parse_digits_count_digits [OF assms, of None] by (simp add: parse_base_digits_def)

lemma show_nat_all_digits: "all_digits 10 (show_nat n)" "digits_val 10 0 (show_nat n) = Some n" "show_nat n \<noteq> []"
  using digits_val_show_radix [of 10 n] digits_val_all [of 10 0 "show_radix 10 n"] by (auto simp: show_nat_def)

lemma not_digits [simp]:
  "to_digit 10 CHR ''.'' = None" "to_digit 10 CHR ''e'' = None" "to_digit 10 CHR ''-'' = None" "to_digit 10 CHR ''+'' = None"
  "to_digit 10 CHR ''x'' = None" "to_digit 10 CHR ''X'' = None" "to_digit 10 CHR ''b'' = None" "to_digit 10 CHR ''B'' = None"
  by (simp_all add: to_digit_def digit_val_def between_def byte_def)

lemma digit_not_special:
  assumes "to_digit 10 c \<noteq> None"
  shows "\<not> is_ascii_ws c" "c \<noteq> CHR ''-''" "c \<noteq> CHR ''+''" "c \<noteq> CHR ''x''" "c \<noteq> CHR ''X''" "c \<noteq> CHR ''b''" "c \<noteq> CHR ''B''" "c \<noteq> CHR ''.''"
  using assms by (auto simp: is_ascii_ws_def to_digit_def digit_val_def between_def byte_def)

lemma show_nat_Cons: "\<exists>c cs. show_nat n = c # cs \<and> to_digit 10 c \<noteq> None"
  using show_nat_all_digits(1,3) [of n] by (cases "show_nat n") auto

lemma parse_exponent_show: "parse_exponent 10 (CHR ''e'' # show_int k) = (Some k, [])"
proof -
  have p: "parse_base_digits 10 (show_nat n) = (Some n, [])" for n
    using parse_base_digits_digits [of 10 "show_nat n" "[]"] show_nat_all_digits [of n] by simp
  show ?thesis
  proof (cases "k < 0")
    case True
    then show ?thesis by (simp add: parse_exponent_def show_int_def p)
  next
    case False
    obtain c cs where "show_nat (nat k) = c # cs" "to_digit 10 c \<noteq> None"
      using show_nat_Cons by blast
    with False digit_not_special(2,3) [of c] p [of "nat k"] show ?thesis by (simp add: parse_exponent_def show_int_def)
  qed
qed

text \<open>A sign, and then text that starts with neither a sign nor white space.\<close>

lemma strip_sign_text:
  assumes "sg \<in> {'''', ''-'', ''+''}" "u \<noteq> []" "\<not> is_ascii_ws (hd u)" "hd u \<noteq> CHR ''-''" "hd u \<noteq> CHR ''+''"
  shows "strip_sign (dropWhile is_ascii_ws (sg @ u)) = (sg = ''-'', u)"
  using assms by (cases u) (auto simp: strip_sign_def is_ascii_ws_def)

lemma show_nat_not_zero: "n \<noteq> 0 \<Longrightarrow> hd (show_nat n) \<noteq> CHR ''0''"
  by (simp add: show_nat_def show_radix_head)

text \<open>A whole number with what follows it.\<close>

lemma num_parse_integral:
  assumes "sg \<in> {'''', ''-'', ''+''}" "s = [] \<or> n \<noteq> 0 \<and> to_digit 10 (hd s) = None"
  defines "v \<equiv> (if n = 0 then (if sg = ''-'' then MinusZero else ebd_zero)
                 else Finite (BD (if sg = ''-'' then - int n else int n) 0))"
  shows "num_parse B (sg @ show_nat n @ s) TIntegral [] = (if s = [] then Inr v else Inl (PartialMatch v s))"
proof -
  obtain c cs where n: "show_nat n = c # cs" "to_digit 10 c \<noteq> None" using show_nat_Cons by blast
  have sign: "strip_sign (dropWhile is_ascii_ws (sg @ show_nat n @ s)) = (sg = ''-'', show_nat n @ s)"
    using n digit_not_special(1-3) [OF n(2)] assms(1) by (intro strip_sign_text) auto
  have read: "parse_digits b (show_nat n @ s) False = (Some n, 0, s)"
    if b: "b = 10 \<or> b = 8 \<and> n = 0 \<and> s = []" for b
  proof -
    have "all_digits b (show_nat n)" "digits_val b 0 (show_nat n) = Some n"
      using b show_nat_all_digits by (auto simp: show_nat_def show_radix.simps [of 10 0] to_digit_def digit_val_def between_def byte_def)
    then show ?thesis
      using parse_base_digits_digits [of b "show_nat n" s] b assms(2) show_nat_all_digits(3)
      by (auto simp: parse_digits_def)
  qed
  have base: "detect_base TIntegral (show_nat n @ s) = (if n = 0 then 8 else 10, show_nat n @ s)"
  proof (cases "n = 0")
    case True
    then show ?thesis using assms(2) by (simp add: detect_base_def show_nat_def show_radix.simps [of 10 0])
  next
    case False
    then show ?thesis using show_nat_not_zero [OF False] n by (simp add: detect_base_def)
  qed
  have "parse_suffix_multiplier s [] = (1, s)" by (cases s) (simp_all add: parse_suffix_multiplier_def)
  moreover define u where "u = show_nat n @ s"
  ultimately have "num_parse B (sg @ u) TIntegral []
      = (let result = construct_ebd B n (sg = ''-'') (if n = 0 then 8 else 10) 0 0
         in if s = [] then result else Inl (PartialMatch (best_value ebd_zero result) s))"
    using read [of "if n = 0 then 8 else 10", folded u_def] assms(2) sign [folded u_def] base [folded u_def]
    by (cases "n = 0") (simp_all add: num_parse_def Let_def)
  then show ?thesis by (auto simp: u_def Let_def construct_ebd_def v_def best_value_def)
qed

section \<open>Properties\<close>

text \<open>Every printed integer is read back: as \<open>i64\<close> it is the integer or, outside the range, the
  nearest bound with an overflow; as \<open>u64\<close> a negative number wraps around; and text after a positive
  number is returned beside the number.\<close>

theorem integers_read_back:
  shows "parse_i64 B (show_int i)
      = (if fits_i64 i then Inr i else Inl (Overflow (if i < 0 then - (2 ^ 63) else 2 ^ 63 - 1)))"
    and "\<bar>i\<bar> < 2 ^ 64 \<Longrightarrow> parse_ext_u64 B (show_int i) = Inr (nat (i mod 2 ^ 64))"
    and "0 < i \<Longrightarrow> fits_i64 i \<Longrightarrow> s \<noteq> [] \<Longrightarrow> to_digit 10 (hd s) = None
      \<Longrightarrow> parse_i64 B (show_int i @ s) = Inl (PartialMatch i s)"
proof -
  have shown: "show_int i = (if i < 0 then ''-'' else []) @ show_nat (nat \<bar>i\<bar>)" by (simp add: show_int_def)
  have parsed: "num_parse B (show_int i @ t) TIntegral []
      = (let v = (if i = 0 then ebd_zero else Finite (BD i 0)) in if t = [] then Inr v else Inl (PartialMatch v t))"
    if "t = [] \<or> i \<noteq> 0 \<and> to_digit 10 (hd t) = None" for t
    using num_parse_integral [of "if i < 0 then ''-'' else []" t "nat \<bar>i\<bar>" B] that by (auto simp: shown Let_def)
  show "parse_i64 B (show_int i) = (if fits_i64 i then Inr i else Inl (Overflow (if i < 0 then - (2 ^ 63) else 2 ^ 63 - 1)))"
    using parsed [of "[]"] by (auto simp: parse_i64_def ebd_zero_def bd_zero_def fits_i64_def)
  show "parse_ext_u64 B (show_int i) = Inr (nat (i mod 2 ^ 64))" if "\<bar>i\<bar> < 2 ^ 64"
  proof -
    have "(2 ^ 64 - 1 - nat (- i) + 1) mod 2 ^ 64 = nat (i mod 2 ^ 64)" if neg: "i < 0"
    proof -
      have "i mod 2 ^ 64 = i + 2 ^ 64" using \<open>\<bar>i\<bar> < 2 ^ 64\<close> neg 
        by (subst mod_add_self2 [symmetric], subst mod_pos_pos_trivial) auto
      then show ?thesis using \<open>\<bar>i\<bar> < 2 ^ 64\<close> neg by (simp add: nat_diff_distrib' nat_mod_as_int)
    qed
    then show ?thesis
      using parsed [of "[]"] that
      by (cases "i < 0") (auto simp: parse_ext_u64_def ebd_zero_def bd_zero_def Let_def mod_pos_pos_trivial)
  qed
  show "parse_i64 B (show_int i @ s) = Inl (PartialMatch i s)"
    if "0 < i" "fits_i64 i" "s \<noteq> []" "to_digit 10 (hd s) = None"
    using parsed [of s] that by (simp add: parse_i64_def best_value_def)
qed

lemma integers_read_back_witness:
  "parse_ext_u64 B (show_int (- 1)) = Inr (2 ^ 64 - 1) \<and> parse_i64 B (show_int 7 @ '' apples'') = Inl (PartialMatch 7 '' apples'')"
proof -
  have "to_digit 10 (hd '' apples'') = None" by (simp add: to_digit_def digit_val_def between_def byte_def)
  moreover have "(- 1) mod 2 ^ 64 = (18446744073709551615 :: int)" by simp
  ultimately show ?thesis
    using integers_read_back(2) [of "- 1" B] integers_read_back(3) [of 7 "'' apples''" B] by (simp add: fits_i64_def)
qed

text \<open>A decimal number with a fraction and an exponent is exactly its digits at the scale of the fraction
  less the exponent, as long as the scale is one of \<open>i64\<close>.\<close>

lemma decimal_value:
  assumes "sg \<in> {'''', ''-'', ''+''}" "all_digits 10 ds" "all_digits 10 fs" "ds @ fs \<noteq> []"
    and "digits_val 10 0 (ds @ fs) = Some m" "fits_i64 (int (length fs) - k)"
  shows "parse_ebd B (sg @ ds @ CHR ''.'' # fs @ CHR ''e'' # show_int k)
    = Inr (if m = 0 then if sg = ''-'' then MinusZero else ebd_zero
           else Finite (BD (if sg = ''-'' then - int m else int m) (int (length fs) - k)))"
proof -
  define tail where "tail = CHR ''e'' # show_int k"
  define u where "u = ds @ CHR ''.'' # fs @ tail"
  have head: "u \<noteq> []" "\<not> is_ascii_ws (hd u)" "hd u \<noteq> CHR ''-''" "hd u \<noteq> CHR ''+''"
    using assms(2) digit_not_special [of "hd ds"] by (auto simp: u_def hd_append is_ascii_ws_def) (cases ds; auto)+
  note sign = strip_sign_text [OF assms(1) head]
  have base: "detect_base TDecimal u = (10, u)"
    using assms(2) digit_not_special(4,5)
    by (cases ds; cases "tl ds") (auto simp: u_def detect_base_def split: list.split)
  obtain a where a: "digits_val 10 0 ds = Some a" "digits_val 10 a fs = Some m"
    using assms(5) by (auto simp: digits_val_append split: option.splits)
  have tail: "to_digit 10 (hd tail) = None" by (simp add: tail_def)
  have int_part: "parse_base_digits 10 u = (if ds = [] then None else Some a, CHR ''.'' # fs @ tail)"
    using parse_base_digits_digits [of 10 ds "CHR ''.'' # fs @ tail"] assms(2) a(1) by (simp add: u_def)
  have "parse_digits_count 10 (fs @ tail) (if ds = [] then None else Some a) = (Some m, length fs, tail)"
    using parse_digits_count_digits [of 10 fs tail "if ds = [] then None else Some a"] assms(3,4) tail a by (auto split: if_splits)
  then have digits: "parse_digits 10 u True = (Some m, length fs, tail)"
    using int_part by (simp add: parse_digits_def)
  have expo: "parse_exponent 10 tail = (Some k, [])" by (simp add: tail_def parse_exponent_show)
  have "num_parse B (sg @ u) TDecimal [] = construct_ebd B m (sg = ''-'') 10 (length fs) k"
    using sign base digits expo by (simp add: num_parse_def Let_def parse_suffix_multiplier_def)
  also have "\<dots> = Inr (if m = 0 then if sg = ''-'' then MinusZero else ebd_zero
           else Finite (BD (if sg = ''-'' then - int m else int m) (int (length fs) - k)))"
    using assms(6) by (auto simp: construct_ebd_def Let_def algebra_simps)
  finally show ?thesis by (simp add: parse_ebd_def u_def tail_def)
qed

lemma decimal_value_witness: "parse_ebd B ''-12.50e3'' = Inr (Finite (BD (- 1250) (- 1)))"
proof -
  have "show_int 3 = ''3''" by (simp add: show_int_def show_nat_def show_radix.simps)
  moreover have "all_digits 10 ''12''" "all_digits 10 ''50''" "digits_val 10 0 (''12'' @ ''50'') = Some 1250"
    by (simp_all add: to_digit_def digit_val_def between_def byte_def)
  ultimately show ?thesis using decimal_value [of "''-''" "''12''" "''50''" 1250 3 B] by (simp add: fits_i64_def)
qed

text \<open>Addition is commutative where the crate's is; negation twice gives the number back, up to the sign of
  zero and the scale of a zero.\<close>

lemma ebd_add_comm: "(\<And>m n. bl_add B m n = bl_add B n m) \<Longrightarrow> ebd_add B x y = ebd_add B y x"
  by (cases x; cases y) simp_all

lemma ebd_neg_neg: "\<not> ebd_is_zero x \<Longrightarrow> ebd_neg (ebd_neg x) = x"
  by (cases x) (auto simp: bd_is_zero_def)

text \<open>Zero and minus zero compare as equal and are not equal.\<close>

lemma zeros_compare_equal:
  "bl_cmp B bd_zero bd_zero = Equal \<Longrightarrow> ebd_cmp B ebd_zero MinusZero = Some Equal"
  "\<not> ebd_eq B ebd_zero MinusZero"
  by (simp_all add: ebd_zero_def)

end
