(* ===== verification/Uu_NumFormat.thy ===== *)
theory Uu_NumFormat
  imports Uu_Spec Uu_Num
begin

text \<open>
  Formatting of integers and decimal numbers (\<open>stubs/uucore/src/lib/features/format/num_format.rs\<close>): digits,
  signs, prefixes, precision and padding.  The rounding of the \<open>bigdecimal\<close> crate, to a number of digits and
  to a number of places, is the record \<open>bigdec_fmt\<close>.
\<close>

section \<open>Padding\<close>

text \<open>
  A width or a precision that is an argument of \<open>format!\<close> or \<open>write!\<close> (\<open>width$\<close>, \<open>.*\<close>) is a 16-bit number in
  the standard library of the pinned toolchain (\<open>nightly-2026-03-01\<close>): a larger one panics before anything is
  formatted.  The panic is the value \<open>FmtPanics\<close>; no error report is made of it.
\<close>

definition with_count :: "nat \<Rightarrow> 'a \<Rightarrow> fmt_error + 'a" where
  "with_count n x = (if 65535 < n then Inl FmtPanics else Inr x)"

definition fill_left :: "char \<Rightarrow> nat \<Rightarrow> bytes \<Rightarrow> bytes" where
  "fill_left c w s = replicate (w - length s) c @ s"

definition fill_right :: "nat \<Rightarrow> bytes \<Rightarrow> bytes" where
  "fill_right w s = s @ replicate (w - length s) CHR '' ''"

definition max_format_width :: nat where "max_format_width = 1000000"

definition check_width :: "nat \<Rightarrow> fmt_error + unit" where
  "check_width w = (if max_format_width < w then Inl (FmtIoError ''formatting width too large'') else Inr ())"

definition get_sign_indicator :: "positive_sign \<Rightarrow> bool \<Rightarrow> bytes" where
  "get_sign_indicator sg negative =
     (if negative then ''-'' else case sg of SignNone \<Rightarrow> [] | SignPlus \<Rightarrow> ''+'' | SignSpace \<Rightarrow> '' '')"

definition split_hex_prefix :: "bytes \<Rightarrow> bytes \<times> bytes" where
  "split_hex_prefix s = (if 2 \<le> length s \<and> lower (take 2 s) = ''0x'' then (take 2 s, drop 2 s) else ([], s))"

definition write_output :: "bytes \<Rightarrow> bytes \<Rightarrow> nat \<Rightarrow> alignment \<Rightarrow> fmt_error + bytes" where
  "write_output sg s width al =
     (if width = 0 then Inr (sg @ s)
      else
        let remaining = width - min width (length sg) in
        case check_width remaining of
          Inl e \<Rightarrow> Inl e
        | Inr _ \<Rightarrow>
            (case al of
              AlignLeft \<Rightarrow> with_count remaining (sg @ fill_right remaining s)
            | AlignRightSpace \<Rightarrow>
                if sg \<noteq> [] \<and> hd sg \<in> {CHR ''-'', CHR ''+''} \<and> 0 < remaining then
                  with_count (remaining + 1) (fill_left CHR '' '' (remaining + 1) (sg @ s))
                else with_count remaining (sg @ fill_left CHR '' '' remaining s)
            | AlignRightZero \<Rightarrow>
                (let (p, rest) = split_hex_prefix s
                 in with_count (remaining - length p) (sg @ p @ fill_left CHR ''0'' (remaining - length p) rest))))"

section \<open>Integers\<close>

definition format_signed :: "nat \<Rightarrow> nat \<Rightarrow> positive_sign \<Rightarrow> alignment \<Rightarrow> int \<Rightarrow> fmt_error + bytes" where
  "format_signed width prec sg al x =
     (let a = show_nat (nat \<bar>x\<bar>)
      in case (if 0 < prec then with_count prec (fill_left CHR ''0'' prec a) else Inr a) of
           Inl e \<Rightarrow> Inl e
         | Inr s \<Rightarrow> write_output (get_sign_indicator sg (x < 0)) s width al)"

definition upper :: "bytes \<Rightarrow> bytes" where
  "upper s = map (\<lambda>c. if between 97 122 (byte c) then char_of (byte c - 32) else c) s"

fun unsigned_digits :: "unsigned_variant \<Rightarrow> nat \<Rightarrow> bytes" where
  "unsigned_digits VDecimal x = show_nat x"
| "unsigned_digits (VOctal _) x = show_radix 8 x"
| "unsigned_digits (VHexadecimal Lowercase _) x = show_radix 16 x"
| "unsigned_digits (VHexadecimal Uppercase _) x = upper (show_radix 16 x)"

definition unsigned_prefix :: "unsigned_variant \<Rightarrow> nat \<Rightarrow> nat \<Rightarrow> nat \<Rightarrow> bytes" where
  "unsigned_prefix v x len prec =
     (if x = 0 then []
      else case v of
        VHexadecimal Lowercase PrefixYes \<Rightarrow> ''0x''
      | VHexadecimal Uppercase PrefixYes \<Rightarrow> ''0X''
      | VOctal PrefixYes \<Rightarrow> if prec \<le> len then ''0'' else []
      | _ \<Rightarrow> [])"

definition format_unsigned :: "unsigned_variant \<Rightarrow> nat \<Rightarrow> nat \<Rightarrow> alignment \<Rightarrow> nat \<Rightarrow> fmt_error + bytes" where
  "format_unsigned v width prec al x =
     (let s = unsigned_digits v x
      in case with_count prec (unsigned_prefix v x (length s) prec @ fill_left CHR ''0'' prec s) of
           Inl e \<Rightarrow> Inl e
         | Inr s' \<Rightarrow> write_output [] s' width al)"

text \<open>A number format made of a directive: its kind must fit, and it may not take its width or precision
  from arguments.\<close>

fun fixed_number :: "can_asterisk option \<Rightarrow> (fmt_error + nat option)" where
  "fixed_number None = Inr None"
| "fixed_number (Some (Fixed n)) = Inr (Some n)"
| "fixed_number (Some (Asterisk _)) = Inl WrongSpecType"

definition fixed_numbers :: "can_asterisk option \<Rightarrow> can_asterisk option \<Rightarrow> fmt_error + nat option \<times> nat option" where
  "fixed_numbers w p =
     (case fixed_number w of
        Inl e \<Rightarrow> Inl e
      | Inr w' \<Rightarrow> (case fixed_number p of Inl e \<Rightarrow> Inl e | Inr p' \<Rightarrow> Inr (w', p')))"

definition or_zero :: "nat option \<Rightarrow> nat" where
  "or_zero n = (case n of Some k \<Rightarrow> k | None \<Rightarrow> 0)"

fun signed_from_spec :: "spec \<Rightarrow> fmt_error + (int \<Rightarrow> fmt_error + bytes)" where
  "signed_from_spec (SpSigned _ w p sg al) =
     map_sum id (\<lambda>(w, p). format_signed (or_zero w) (or_zero p) sg al) (fixed_numbers w p)"
| "signed_from_spec _ = Inl WrongSpecType"

fun unsigned_from_spec :: "spec \<Rightarrow> fmt_error + (nat \<Rightarrow> fmt_error + bytes)" where
  "unsigned_from_spec (SpSigned _ w p SignNone al) =
     map_sum id (\<lambda>(w, p). format_unsigned VDecimal (or_zero w) (or_zero p) al) (fixed_numbers w p)"
| "unsigned_from_spec (SpUnsigned _ v w p al) =
     map_sum id (\<lambda>(w, p). format_unsigned v (or_zero w) (or_zero p) al) (fixed_numbers w p)"
| "unsigned_from_spec _ = Inl WrongSpecType"

section \<open>Decimal numbers\<close>

record bigdec_fmt =
  bf_with_prec :: "big_decimal \<Rightarrow> nat \<Rightarrow> big_decimal"
  bf_show :: "big_decimal \<Rightarrow> nat \<Rightarrow> bytes"

text \<open>\<open>format!("{:.p$}", 0.0)\<close>.\<close>

definition zero_places :: "nat \<Rightarrow> bytes" where
  "zero_places p = (if p = 0 then ''0'' else ''0.'' @ replicate p CHR ''0'')"

definition exp_char :: "letter_case \<Rightarrow> char" where
  "exp_char c = (case c of Lowercase \<Rightarrow> CHR ''e'' | Uppercase \<Rightarrow> CHR ''E'')"

definition format_float_non_finite :: "ebd \<Rightarrow> letter_case \<Rightarrow> bytes" where
  "format_float_non_finite e c =
     (let s = (case e of Infinity \<Rightarrow> ''inf'' | Nan \<Rightarrow> ''nan'' | _ \<Rightarrow> ''INVALID'')
      in if c = Uppercase then upper s else s)"

definition format_float_decimal :: "bigdec_fmt \<Rightarrow> big_decimal \<Rightarrow> nat option \<Rightarrow> force_decimal \<Rightarrow> fmt_error + bytes" where
  "format_float_decimal F bd prec force =
     (let p = (case prec of Some p \<Rightarrow> p | None \<Rightarrow> 6) in
      if p = 0 \<and> bd_scale bd = 0 \<and> force \<noteq> ForceYes then Inr (show_int (bd_digits bd))
      else if p = 0 \<and> force = ForceYes then Inr (bf_show F bd 0 @ ''.'')
      else with_count p (bf_show F bd p))"

definition bd_to_string_exp_with_prec :: "bigdec_fmt \<Rightarrow> big_decimal \<Rightarrow> nat \<Rightarrow> bytes \<times> int" where
  "bd_to_string_exp_with_prec F bd prec =
     (let r = bf_with_prec F bd prec;
          digits = show_int (bd_digits r); p = bd_scale r;
          (digits, p) = (if length digits = prec + 1 then (take prec digits, p - 1) else (digits, p))
      in (digits, - p + int prec - 1))"

text \<open>\<open>{exponent:+03}\<close> and \<open>{exponent:+}\<close>.\<close>

definition show_signed :: "int \<Rightarrow> bytes" where
  "show_signed e = (if e < 0 then ''-'' else ''+'') @ show_nat (nat \<bar>e\<bar>)"

definition show_exponent :: "int \<Rightarrow> bytes" where
  "show_exponent e = (if e < 0 then ''-'' else ''+'') @ fill_left CHR ''0'' 2 (show_nat (nat \<bar>e\<bar>))"

definition format_float_scientific ::
  "bigdec_fmt \<Rightarrow> big_decimal \<Rightarrow> nat option \<Rightarrow> letter_case \<Rightarrow> force_decimal \<Rightarrow> fmt_error + bytes" where
  "format_float_scientific F bd prec c force =
     (let p = (case prec of Some p \<Rightarrow> p | None \<Rightarrow> 6) in
      if bd_is_zero bd then
        (if force = ForceYes \<and> p = 0 then Inr (''0.'' @ exp_char c # ''+00'')
         else with_count p (zero_places p @ exp_char c # ''+00''))
      else
        let (digits, expo) = bd_to_string_exp_with_prec F bd (p + 1);
            first = take 1 digits; remaining = drop 1 digits;
            dot = (if remaining \<noteq> [] \<or> p = 0 \<and> force = ForceYes then ''.'' else [])
        in Inr (first @ dot @ remaining @ exp_char c # show_exponent expo))"

text \<open>The loop from the end: how many bytes are cut when the point is reached.\<close>

fun strip_loop :: "bytes \<Rightarrow> bool \<Rightarrow> nat \<Rightarrow> nat option" where
  "strip_loop [] still n = None"
| "strip_loop (c # cs) still n =
     (let still' = (still \<and> (c = CHR ''0'' \<or> c = CHR ''.'')); n' = (if still' then n + 1 else n) in
      if c = CHR ''.'' then Some n' else strip_loop cs still' n')"

definition strip_fractional_zeroes_and_dot :: "bytes \<Rightarrow> bytes" where
  "strip_fractional_zeroes_and_dot s =
     (case strip_loop (rev s) True 0 of None \<Rightarrow> s | Some n \<Rightarrow> take (length s - n) s)"

definition strip_fractional_zeroes :: "bytes \<Rightarrow> bytes" where
  "strip_fractional_zeroes s = drop_end (\<lambda>c. c = CHR ''0'') s"

definition strip_unless_forced :: "force_decimal \<Rightarrow> bytes \<Rightarrow> bytes" where
  "strip_unless_forced force s = (if force = ForceNo then strip_fractional_zeroes_and_dot s else s)"

definition format_float_shortest ::
  "bigdec_fmt \<Rightarrow> big_decimal \<Rightarrow> nat option \<Rightarrow> letter_case \<Rightarrow> force_decimal \<Rightarrow> fmt_error + bytes" where
  "format_float_shortest F bd prec c force =
     (let p = max (case prec of Some p \<Rightarrow> p | None \<Rightarrow> 6) 1 in
      if bd_is_zero bd then
        (if force = ForceYes then (if p = 1 then Inr ''0.'' else with_count (p - 1) (zero_places (p - 1))) else Inr ''0'')
      else
        let (digits, expo) = bd_to_string_exp_with_prec F bd p in
        if expo < - 4 \<or> int p \<le> expo then
          Inr (strip_unless_forced force (take 1 digits @ ''.'' @ drop 1 digits) @ exp_char c # show_exponent expo)
        else if expo < 0 then
          Inr (strip_unless_forced force (''0.'' @ replicate (nat (- expo) - 1) CHR ''0'' @ digits))
        else
          Inr (strip_unless_forced force (take (nat expo + 1) digits @ ''.'' @ drop (nat expo + 1) digits)))"

section \<open>Hexadecimal\<close>

fun bit_count :: "nat \<Rightarrow> nat" where
  "bit_count n = (if n = 0 then 0 else 1 + bit_count (n div 2))"

declare bit_count.simps [simp del]

text \<open>The number as a whole number times a power of two, with enough bits for the digits wanted.\<close>

definition binary_fraction :: "nat \<Rightarrow> int \<Rightarrow> nat \<Rightarrow> nat \<times> int" where
  "binary_fraction frac10 exp10 max_prec =
     (if 0 \<le> exp10 then (frac10 * 5 ^ (nat exp10 mod 2 ^ 32), exp10)
      else
        let margin = nat (max (int ((max_prec + 1) * 4) - int (bit_count frac10)) 0 + (- exp10) * 3 + 1)
        in ((frac10 * 2 ^ margin) div 5 ^ (nat (- exp10) mod 2 ^ 32), exp10 - int margin))"

text \<open>Rounded, half up, to the bits wanted; a carry out of them drops one hexadecimal digit.\<close>

definition round_bits :: "nat \<Rightarrow> int \<Rightarrow> nat \<Rightarrow> nat \<times> int" where
  "round_bits frac2 exp2 wanted =
     (let bits = bit_count frac2; e = exp2 + (int bits - int wanted) in
      if wanted < bits then
        (let f1 = frac2 div 2 ^ (bits - wanted - 1); f2 = f1 div 2 in
         if odd f1 then
           (if wanted < bit_count (f2 + 1) then ((f2 + 1) div 16, e + 4) else (f2 + 1, e))
         else (f2, e))
      else (frac2 * 2 ^ (wanted - bits), e))"

definition format_float_hexadecimal :: "big_decimal \<Rightarrow> nat option \<Rightarrow> letter_case \<Rightarrow> force_decimal \<Rightarrow> fmt_error + bytes" where
  "format_float_hexadecimal bd prec c force =
     (let max_prec = (case prec of Some p \<Rightarrow> p | None \<Rightarrow> 15);
          (pre, ec) = (case c of Lowercase \<Rightarrow> (''0x'', CHR ''p'') | Uppercase \<Rightarrow> (''0X'', CHR ''P''))
      in if bd_is_zero bd then
           (if force = ForceYes \<and> or_zero prec = 0 then Inr (''0x0.'' @ ec # ''+0'')
            else with_count (or_zero prec) (''0x'' @ zero_places (or_zero prec) @ ec # ''+0''))
         else
           let (frac2, exp2) = binary_fraction (nat (bd_digits bd)) (- bd_scale bd) max_prec;
               (frac2, exp2) = round_bits frac2 exp2 (4 + max_prec * 4);
               digits0 = show_radix 16 frac2;
               digits = (if c = Uppercase then upper digits0 else digits0);
               remaining = (if prec = None then strip_fractional_zeroes (drop 1 digits) else drop 1 digits);
               dot = (if remaining \<noteq> [] \<or> or_zero prec = 0 \<and> force = ForceYes then ''.'' else [])
           in Inr (pre @ take 1 digits @ dot @ remaining @ ec # show_signed (exp2 + int (4 * max_prec))))"

section \<open>The float format\<close>

record float_format =
  ff_variant :: float_variant
  ff_case :: letter_case
  ff_force :: force_decimal
  ff_width :: nat
  ff_sign :: positive_sign
  ff_align :: alignment
  ff_precision :: "nat option"

definition default_float_format :: float_format where
  "default_float_format =
     \<lparr>ff_variant = FDecimal, ff_case = Lowercase, ff_force = ForceNo, ff_width = 0, ff_sign = SignNone, ff_align = AlignLeft,
      ff_precision = None\<rparr>"

text \<open>The absolute value and the sign bit.\<close>

fun split_sign :: "ebd \<Rightarrow> ebd \<times> bool" where
  "split_sign (Finite b) = (Finite (BD \<bar>bd_digits b\<bar> (bd_scale b)), bd_digits b < 0)"
| "split_sign MinusZero = (ebd_zero, True)"
| "split_sign Infinity = (Infinity, False)"
| "split_sign MinusInfinity = (Infinity, True)"
| "split_sign Nan = (Nan, False)"
| "split_sign MinusNan = (Nan, True)"

definition format_float :: "bigdec_fmt \<Rightarrow> float_format \<Rightarrow> ebd \<Rightarrow> fmt_error + bytes" where
  "format_float F f e =
     (let (a, negative) = split_sign e;
          (r, al) =
            (case a of
               Finite bd \<Rightarrow>
                 ((case ff_variant f of
                     FDecimal \<Rightarrow> format_float_decimal F bd (ff_precision f) (ff_force f)
                   | FScientific \<Rightarrow> format_float_scientific F bd (ff_precision f) (ff_case f) (ff_force f)
                   | FShortest \<Rightarrow> format_float_shortest F bd (ff_precision f) (ff_case f) (ff_force f)
                   | FHexadecimal \<Rightarrow> format_float_hexadecimal bd (ff_precision f) (ff_case f) (ff_force f)), ff_align f)
             | _ \<Rightarrow>
                 (Inr (format_float_non_finite a (ff_case f)),
                  if ff_align f = AlignRightZero then AlignRightSpace else ff_align f))
      in case r of
           Inl x \<Rightarrow> Inl x
         | Inr s \<Rightarrow> write_output (get_sign_indicator (ff_sign f) negative) s (ff_width f) al)"

fun float_from_spec :: "spec \<Rightarrow> fmt_error + float_format" where
  "float_from_spec (SpFloat _ v c force w sg al p) =
     map_sum id (\<lambda>(w, p). \<lparr>ff_variant = v, ff_case = c, ff_force = force, ff_width = or_zero w, ff_sign = sg,
       ff_align = al, ff_precision = p\<rparr>) (fixed_numbers w p)"
| "float_from_spec _ = Inl WrongSpecType"

section \<open>Facts on padding\<close>

lemma fill_left_length [simp]: "length (fill_left c w s) = max w (length s)"
  by (simp add: fill_left_def)

lemma fill_right_length [simp]: "length (fill_right w s) = max w (length s)"
  by (simp add: fill_right_def)

lemma fill_left_append: "\<exists>k. fill_left c w s = replicate k c @ s"
  by (auto simp: fill_left_def)

lemma trim_spaces:
  assumes "is_ascii s" "s \<noteq> []" "\<not> is_ws [hd s]" "\<not> is_ws [last s]"
  shows "trim (replicate a CHR '' '' @ s @ replicate b CHR '' '') = s"
proof -
  have sp: "is_ws '' ''" by (simp add: is_ws_def ws_chars_def)
  have drop: "dropWhile (\<lambda>c. is_ws [c]) (replicate a CHR '' '' @ s @ t) = s @ t" for t
    using assms(2,3) sp by (induction a) (cases s; simp)+
  have "drop_end (\<lambda>c. is_ws [c]) (s @ replicate b CHR '' '') = s"
  proof -
    have "dropWhile (\<lambda>c. is_ws [c]) (replicate b CHR '' '' @ rev s) = rev s"
      using assms(2,4) sp by (induction b) (cases s rule: rev_cases; simp)+
    then show ?thesis by (simp add: drop_end_def)
  qed
  then show ?thesis using assms(1) drop [of "replicate b CHR '' ''"]
    by (subst trim_ascii) (auto simp: byte_def is_ascii_def)
qed

definition sign_text :: "bytes \<Rightarrow> bool" where
  "sign_text s \<longleftrightarrow> s \<in> {[], ''-'', ''+'', '' ''}"

lemma sign_text_indicator: "sign_text (get_sign_indicator sg n)"
  by (cases sg) (simp_all add: sign_text_def get_sign_indicator_def)

lemma digits_no_prefix: "all_digits 10 s \<Longrightarrow> split_hex_prefix s = ([], s)"
  by (cases s; cases "tl s") (auto simp: split_hex_prefix_def lower_def ascii_lower_def to_digit_def digit_val_def between_def
      byte_def split: if_splits option.splits)

text \<open>Blanks, the sign, zeros, the digits, blanks; and the width reached.\<close>

lemma write_output_shape:
  assumes "write_output sg s w al = Inr out" "sign_text sg" "all_digits 10 s"
  shows "length out = max w (length sg + length s)
    \<and> (\<exists>a z b. out = replicate a CHR '' '' @ (if sg = '' '' then [] else sg) @ replicate z CHR ''0'' @ s @ replicate b CHR '' '')"
proof (cases "w = 0")
  case True
  have "out = replicate (if sg = '' '' then 1 else 0) CHR '' '' @ (if sg = '' '' then [] else sg) @ replicate 0 CHR ''0'' @ s
      @ replicate 0 CHR '' ''"
    using True assms(1) by (auto simp: write_output_def)
  moreover have "length out = max w (length sg + length s)" using True assms(1) by (auto simp: write_output_def)
  ultimately show ?thesis by blast
next
  case False
  define r where "r = w - min w (length sg)"
  have len: "length sg \<le> 1" "sg \<noteq> [] \<Longrightarrow> length sg = 1" using assms(2) by (auto simp: sign_text_def)
  have out: "out = (case al of
              AlignLeft \<Rightarrow> sg @ fill_right r s
            | AlignRightSpace \<Rightarrow>
                if sg \<noteq> [] \<and> hd sg \<in> {CHR ''-'', CHR ''+''} \<and> 0 < r then fill_left CHR '' '' (r + 1) (sg @ s)
                else sg @ fill_left CHR '' '' r s
            | AlignRightZero \<Rightarrow> sg @ fill_left CHR ''0'' r s)"
    using assms(1) False digits_no_prefix [OF assms(3)]
    by (auto simp: write_output_def with_count_def r_def Let_def split: sum.splits alignment.splits if_splits)
  have "length out = max w (length sg + length s)"
    using out len False by (auto simp: r_def split: alignment.splits if_splits)
  moreover have "\<exists>a z b. out = replicate a CHR '' '' @ (if sg = '' '' then [] else sg) @ replicate z CHR ''0'' @ s @ replicate b CHR '' ''"
  proof (cases al)
    case AlignLeft
    have "out = replicate (if sg = '' '' then 1 else 0) CHR '' '' @ (if sg = '' '' then [] else sg) @ replicate 0 CHR ''0'' @ s
        @ replicate (r - length s) CHR '' ''"
      using out AlignLeft by (simp add: fill_right_def)
    then show ?thesis by blast
  next
    case AlignRightZero
    have "out = replicate (if sg = '' '' then 1 else 0) CHR '' '' @ (if sg = '' '' then [] else sg)
        @ replicate (r - length s) CHR ''0'' @ s @ replicate 0 CHR '' ''"
      using out AlignRightZero by (simp add: fill_left_def)
    then show ?thesis by blast
  next
    case AlignRightSpace
    show ?thesis
    proof (cases "sg = [] \<or> sg = '' ''")
      case True
      then have "out = replicate ((if sg = '' '' then 1 else 0) + (r - length s)) CHR '' '' @ (if sg = '' '' then [] else sg)
          @ replicate 0 CHR ''0'' @ s @ replicate 0 CHR '' ''"
        using out AlignRightSpace by (auto simp: fill_left_def)
      then show ?thesis by blast
    next
      case sign: False
      then have sg: "sg \<noteq> [] \<and> hd sg \<in> {CHR ''-'', CHR ''+''}" using assms(2) by (auto simp: sign_text_def)
      show ?thesis
      proof (cases "0 < r")
        case True
        then have "out = replicate (r + 1 - length (sg @ s)) CHR '' '' @ (if sg = '' '' then [] else sg)
            @ replicate 0 CHR ''0'' @ s @ replicate 0 CHR '' ''"
          using out AlignRightSpace sg sign by (simp add: fill_left_def)
        then show ?thesis by blast
      next
        case False
        then have "out = replicate 0 CHR '' '' @ (if sg = '' '' then [] else sg) @ replicate 0 CHR ''0'' @ s @ replicate 0 CHR '' ''"
          using out AlignRightSpace sign by (simp add: fill_left_def)
        then show ?thesis by blast
      qed
    qed
  qed
  ultimately show ?thesis by blast
qed


lemma digits_val_zeros: "digits_val 10 0 (replicate k CHR ''0'' @ s) = digits_val 10 0 s"
  by (induction k) (simp_all add: to_digit_def digit_val_def between_def byte_def)

lemma digit_text:
  assumes "all_digits 10 s" "c \<in> set s"
  shows "47 < byte c" "byte c < 58"
proof -
  have "to_digit 10 c \<noteq> None" using assms by (simp add: all_digits_def list_all_iff)
  then show "47 < byte c" "byte c < 58"
    by (auto simp: to_digit_def digit_val_def between_def Let_def split: if_splits)
qed

lemma zeros_digits: "all_digits 10 (replicate k CHR ''0'')"
  by (induction k) (simp_all add: to_digit_def digit_val_def between_def byte_def)

lemma digits_not_sign: "all_digits 10 s \<Longrightarrow> s \<noteq> [] \<Longrightarrow> hd s \<noteq> CHR ''+'' \<and> hd s \<noteq> CHR ''-''"
  using digit_text [of s "hd s"] by (auto simp: byte_def)

lemma parse_signed_digits:
  assumes "all_digits 10 s" "s \<noteq> []" "digits_val 10 0 s = Some n"
  shows "n < 2 ^ 63 \<Longrightarrow> parse_signed 64 s = Some (int n)"
    and "n < 2 ^ 63 \<Longrightarrow> parse_signed 64 (CHR ''+'' # s) = Some (int n)"
    and "n \<le> 2 ^ 63 \<Longrightarrow> parse_signed 64 (CHR ''-'' # s) = Some (- int n)"
  using assms digits_not_sign [OF assms(1,2)]
  by (auto simp: parse_signed_def parse_unsigned_def Let_def neq_Nil_conv split: list.splits)

text \<open>The text \<open>format_signed\<close> writes for an \<open>i64\<close>, at any width, precision, sign style and alignment, reads
  back, between its blanks, as the same number, and is exactly as long as the larger of the width and of the sign with the
  digits the precision asks for.\<close>

theorem format_signed_reads_back:
  assumes "format_signed w p sg al x = Inr out" "- (2 ^ 63) \<le> x" "x < 2 ^ 63"
  shows "parse_signed 64 (trim out) = Some x
    \<and> length out = max w (length (get_sign_indicator sg (x < 0)) + max p (length (show_nat (nat \<bar>x\<bar>))))"
proof -
  define ds where "ds = (if 0 < p then fill_left CHR ''0'' p (show_nat (nat \<bar>x\<bar>)) else show_nat (nat \<bar>x\<bar>))"
  define s where "s = get_sign_indicator sg (x < 0)"
  have out: "write_output s ds w al = Inr out"
    using assms(1) by (auto simp: format_signed_def with_count_def ds_def s_def Let_def split: if_splits)
  have all: "all_digits 10 ds"
    by (simp add: ds_def fill_left_def show_nat_all_digits zeros_digits)
  have len: "length ds = max p (length (show_nat (nat \<bar>x\<bar>)))"
    by (auto simp: ds_def fill_left_def)
  obtain a z b where shape: "out = replicate a CHR '' '' @ (if s = '' '' then [] else s) @ replicate z CHR ''0'' @ ds
      @ replicate b CHR '' ''" and width: "length out = max w (length s + length ds)"
    using write_output_shape [OF out _ all] sign_text_indicator s_def by blast
  define n where "n = replicate z CHR ''0'' @ ds"
  have n: "all_digits 10 n" "n \<noteq> []" "digits_val 10 0 n = Some (nat \<bar>x\<bar>)"
    using all len show_nat_all_digits(3) [of "nat \<bar>x\<bar>"]
    by (auto simp: n_def digits_val_zeros ds_def fill_left_def show_nat_all_digits zeros_digits)
  define core where "core = (if s = '' '' then [] else s) @ n"
  have core: "(core = n \<or> core = CHR ''+'' # n) \<and> 0 \<le> x \<or> core = CHR ''-'' # n \<and> x < 0"
    by (cases sg) (auto simp: core_def s_def get_sign_indicator_def)
  then have plain: "32 < byte c \<and> byte c < 128" if "c \<in> set core" for c
    using that digit_text [OF n(1), of c] by (auto simp: byte_def)
  then have "\<not> is_ws [c]" if "c \<in> set core" for c using that visible_not_ws by blast
  moreover have ne: "core \<noteq> []" using n(2) by (simp add: core_def)
  ultimately have "trim (replicate a CHR '' '' @ core @ replicate b CHR '' '') = core"
    using plain by (intro trim_spaces) (auto simp: is_ascii_def)
  then have "trim out = core" by (simp add: shape core_def n_def)
  moreover have "parse_signed 64 core = Some x"
    using core parse_signed_digits [OF n] assms(2,3) by auto
  ultimately show ?thesis using width len by (simp add: s_def)
qed

lemma format_signed_reads_back_witness: "parse_signed 64 (trim ''  -0042'') = Some (- 42)"
proof -
  have digits: "show_nat 42 = ''42''" by code_simp
  from digits have "format_signed 7 4 SignPlus AlignRightSpace (- 42) = Inr ''  -0042''"
    by (simp add: format_signed_def write_output_def with_count_def fill_left_def check_width_def max_format_width_def
      get_sign_indicator_def Let_def numeral_2_eq_2)
  then show ?thesis using format_signed_reads_back [THEN conjunct1] by fastforce
qed

end
