(* ===== verification/Uu_Quote.thy ===== *)
theory Uu_Quote
  imports Uu_Escape Utf8
begin

text \<open>
  Names with quotes and escapes, as \<open>ls\<close> and \<open>printf %q\<close> print them
  (\<open>stubs/uucore/src/lib/features/quoting_style/\<close>: \<open>mod.rs\<close>, \<open>escaped_char.rs\<close>, \<open>c_quoter.rs\<close>,
  \<open>literal_quoter.rs\<close>, \<open>shell_quoter.rs\<close>).  A character is its UTF-8 bytes.
\<close>

section \<open>Characters in octal\<close>

datatype octal_state = OcDone | OcFirstBackslash | OcFirstValue | OcLastBackslash | OcLastValue

record escape_octal =
  eo_first :: nat
  eo_last :: nat
  eo_state :: octal_state
  eo_idx :: nat

definition byte_to_octal_digit :: "nat \<Rightarrow> nat \<Rightarrow> nat" where
  "byte_to_octal_digit b idx = (b div 2 ^ (idx * 3)) mod 8"

definition octal_next :: "escape_octal \<Rightarrow> (char \<times> escape_octal) option" where
  "octal_next o1 =
     (case eo_state o1 of
        OcDone \<Rightarrow> None
      | OcFirstBackslash \<Rightarrow> Some (CHR 0x5C, o1\<lparr>eo_state := OcFirstValue\<rparr>)
      | OcLastBackslash \<Rightarrow> Some (CHR 0x5C, o1\<lparr>eo_state := OcLastValue\<rparr>)
      | OcFirstValue \<Rightarrow>
          Some (digit_char (byte_to_octal_digit (eo_first o1) (eo_idx o1)),
                if eo_idx o1 = 0 then o1\<lparr>eo_state := OcLastBackslash, eo_idx := 2\<rparr> else o1\<lparr>eo_idx := eo_idx o1 - 1\<rparr>)
      | OcLastValue \<Rightarrow>
          Some (digit_char (byte_to_octal_digit (eo_last o1) (eo_idx o1)),
                if eo_idx o1 = 0 then o1\<lparr>eo_state := OcDone\<rparr> else o1\<lparr>eo_idx := eo_idx o1 - 1\<rparr>))"

text \<open>At most \<open>n\<close> items of the iterator; nine are more than it ever has.\<close>

fun octal_collect :: "nat \<Rightarrow> escape_octal \<Rightarrow> bytes" where
  "octal_collect 0 e = []"
| "octal_collect (Suc n) e = (case octal_next e of None \<Rightarrow> [] | Some (c, e') \<Rightarrow> c # octal_collect n e')"

definition octal_from_byte :: "char \<Rightarrow> escape_octal" where
  "octal_from_byte b = \<lparr>eo_first = 0, eo_last = byte b, eo_state = OcLastBackslash, eo_idx = 2\<rparr>"

definition octal_from_char :: "bytes \<Rightarrow> escape_octal" where
  "octal_from_char c =
     (if length c = 1 then octal_from_byte (c ! 0)
      else \<lparr>eo_first = byte (c ! 0), eo_last = byte (c ! 1), eo_state = OcFirstBackslash, eo_idx = 2\<rparr>)"

section \<open>One character\<close>

datatype escape_state = EsChar bytes | EsBackslash char | EsForceQuote bytes | EsOctal escape_octal

datatype quotes = QNone | QSingle | QDouble

text \<open>\<open>char::is_control\<close>: the categories C0, DEL and C1.\<close>

definition is_control :: "bytes \<Rightarrow> bool" where
  "is_control c \<longleftrightarrow>
     (case c of
        [b] \<Rightarrow> byte b < 32 \<or> byte b = 127
      | [b, d] \<Rightarrow> byte b = 0xC2 \<and> between 0x80 0x9F (byte d)
      | _ \<Rightarrow> False)"

definition control_letters :: "(bytes \<times> char) list" where
  "control_letters =
     [([CHR 0x07], CHR ''a''), ([CHR 0x08], CHR ''b''), ([TAB], CHR ''t''), ([NL], CHR ''n''), ([CHR 0x0B], CHR ''v''),
      ([CHR 0x0C], CHR ''f''), ([CR], CHR ''r'')]"

abbreviation SQ :: char where "SQ \<equiv> CHR 0x27"
abbreviation DQ :: char where "DQ \<equiv> CHR 0x22"
abbreviation BS :: char where "BS \<equiv> CHR 0x5C"

definition special_shell_chars :: bytes where
  "special_shell_chars = ''`$&*()|[;'' @ [BS, SQ, DQ] @ ''<>?! ''"

definition new_c :: "bytes \<Rightarrow> quotes \<Rightarrow> bool \<Rightarrow> escape_state" where
  "new_c c q dirname =
     (case map_of control_letters c of
        Some l \<Rightarrow> EsBackslash l
      | None \<Rightarrow>
          if c = [BS] then EsBackslash BS
          else if c = [SQ] then (if q = QSingle then EsBackslash SQ else EsChar c)
          else if c = [DQ] then (if q = QDouble then EsBackslash DQ else EsChar c)
          else if c = '' '' \<and> \<not> dirname then (if q = QNone then EsBackslash CHR '' '' else EsChar c)
          else if c = '':'' \<and> dirname then EsBackslash CHR '':''
          else if is_control c then EsOctal (octal_from_char c)
          else EsChar c)"

definition new_shell :: "bytes \<Rightarrow> bool \<Rightarrow> quotes \<Rightarrow> escape_state" where
  "new_shell c escape q =
     (if \<not> escape \<and> is_control c then EsChar c
      else case map_of control_letters c of
        Some l \<Rightarrow> EsBackslash l
      | None \<Rightarrow>
          if c = [SQ] then (if q = QSingle then EsBackslash SQ else EsChar c)
          else if is_control c then EsOctal (octal_from_char c)
          else if c \<in> set (map (\<lambda>x. [x]) special_shell_chars) then EsForceQuote c
          else EsChar c)"

definition hide_control :: "escape_state \<Rightarrow> escape_state" where
  "hide_control e = (case e of EsChar c \<Rightarrow> if is_control c then EsChar ''?'' else e | _ \<Rightarrow> e)"

fun escape_collect :: "escape_state \<Rightarrow> bytes" where
  "escape_collect (EsChar c) = c"
| "escape_collect (EsForceQuote c) = c"
| "escape_collect (EsBackslash c) = [BS, c]"
| "escape_collect (EsOctal e) = octal_collect 9 e"

section \<open>The quoters\<close>

text \<open>What is pushed into a quoter: a character, or bytes that are no text.\<close>

datatype quoter_push = PushChar bytes | PushInvalid bytes

fun literal_push :: "quoter_push \<Rightarrow> bytes" where
  "literal_push (PushChar c) = escape_collect (hide_control (EsChar c))"
| "literal_push (PushInvalid b) = replicate (length b) CHR ''?''"

fun c_push :: "quotes \<Rightarrow> bool \<Rightarrow> quoter_push \<Rightarrow> bytes" where
  "c_push q dirname (PushChar c) = escape_collect (hide_control (new_c c q dirname))"
| "c_push q dirname (PushInvalid b) = concat (map (\<lambda>x. escape_collect (hide_control (EsOctal (octal_from_byte x)))) b)"

fun quote_chars :: "quotes \<Rightarrow> bytes" where
  "quote_chars QNone = []"
| "quote_chars QSingle = [SQ]"
| "quote_chars QDouble = [DQ]"

record shell_quoter =
  sq_must_quote :: bool
  sq_in_dollar :: bool
  sq_buffer :: bytes

definition shell_escaped_char_set :: "bool \<Rightarrow> bytes" where
  "shell_escaped_char_set dirname =
     (if dirname then '':'' else []) @ [DQ] @ ''`$'' @ [BS] @ ''^'' @ [NL, TAB, CR] @ ''=''"

definition initial_quoting :: "bytes \<Rightarrow> bool \<Rightarrow> bool \<Rightarrow> bool \<Rightarrow> quotes \<times> bool" where
  "initial_quoting input dirname always check_control =
     (if list_ex (\<lambda>c. c \<in> set (shell_escaped_char_set dirname) \<or> check_control \<and> (byte c < 32 \<or> byte c = 127)) input
      then (QSingle, True)
      else if SQ \<in> set input then (QDouble, True)
      else if always \<or> input = [] then (QSingle, True)
      else (QSingle, False))"

fun plain_push :: "quotes \<Rightarrow> bool \<Rightarrow> quoter_push \<Rightarrow> shell_quoter \<Rightarrow> shell_quoter" where
  "plain_push q show_control (PushChar c) s =
     (case (if show_control then new_shell c False q else hide_control (new_shell c False q)) of
        EsBackslash b \<Rightarrow>
          if b = SQ then s\<lparr>sq_buffer := sq_buffer s @ [SQ, BS, SQ, SQ]\<rparr> else s\<lparr>sq_buffer := sq_buffer s @ [BS, b]\<rparr>
      | EsForceQuote x \<Rightarrow> s\<lparr>sq_must_quote := True, sq_buffer := sq_buffer s @ x\<rparr>
      | e \<Rightarrow> s\<lparr>sq_buffer := sq_buffer s @ escape_collect e\<rparr>)"
| "plain_push q show_control (PushInvalid b) s =
     s\<lparr>sq_buffer := sq_buffer s @ (if show_control then b else replicate (length b) CHR ''?'')\<rparr>"

definition enter_dollar :: "shell_quoter \<Rightarrow> shell_quoter" where
  "enter_dollar s =
     (if sq_in_dollar s then s else s\<lparr>sq_buffer := sq_buffer s @ [SQ, CHR ''$'', SQ], sq_in_dollar := True\<rparr>)"

definition exit_dollar :: "shell_quoter \<Rightarrow> shell_quoter" where
  "exit_dollar s = (if sq_in_dollar s then s\<lparr>sq_buffer := sq_buffer s @ [SQ, SQ], sq_in_dollar := False\<rparr> else s)"

definition add_text :: "bytes \<Rightarrow> shell_quoter \<Rightarrow> shell_quoter" where
  "add_text t s = s\<lparr>sq_buffer := sq_buffer s @ t\<rparr>"

fun escaped_push :: "quotes \<Rightarrow> quoter_push \<Rightarrow> shell_quoter \<Rightarrow> shell_quoter" where
  "escaped_push q (PushChar c) s =
     (case new_shell c True q of
        EsChar x \<Rightarrow> add_text x (exit_dollar s)
      | EsForceQuote x \<Rightarrow> add_text x ((exit_dollar s)\<lparr>sq_must_quote := True\<rparr>)
      | EsBackslash b \<Rightarrow>
          if b = SQ then add_text [SQ, BS, SQ, SQ] (s\<lparr>sq_must_quote := True, sq_in_dollar := False\<rparr>)
          else add_text [BS, b] ((enter_dollar s)\<lparr>sq_must_quote := True\<rparr>)
      | EsOctal e \<Rightarrow> add_text (octal_collect 9 e) ((enter_dollar s)\<lparr>sq_must_quote := True\<rparr>))"
| "escaped_push q (PushInvalid b) s =
     (if b = [] then s
      else add_text (concat (map (octal_collect 9 \<circ> octal_from_byte) b)) ((enter_dollar s)\<lparr>sq_must_quote := True\<rparr>))"

definition finalize_shell :: "bytes \<Rightarrow> bool \<Rightarrow> quotes \<Rightarrow> bytes \<Rightarrow> bytes" where
  "finalize_shell buf must q reference =
     (if (must \<or> reference \<noteq> [] \<and> hd reference \<in> {CHR ''~'', CHR ''#''}) \<and> q \<noteq> QNone
      then (let m = (if q = QSingle then SQ else DQ) in m # buf @ [m])
      else buf)"

section \<open>Escaping a name\<close>

datatype quoting_style = QShell bool bool bool | QC quotes | QLiteral bool

definition SHELL_ESCAPE :: quoting_style where "SHELL_ESCAPE = QShell True False False"
definition C_NO_QUOTES :: quoting_style where "C_NO_QUOTES = QC QNone"

fun set_show_control :: "bool \<Rightarrow> quoting_style \<Rightarrow> quoting_style" where
  "set_show_control b (QShell e a _) = QShell e a b"
| "set_show_control b (QLiteral _) = QLiteral b"
| "set_show_control b (QC q) = QC q"

datatype encoding = EncAscii | EncUtf8

function utf8_pushes :: "bytes \<Rightarrow> quoter_push list" where
  "utf8_pushes s =
     (if s = [] then []
      else (case utf8_step s of (ok, n) \<Rightarrow> if ok then PushChar (take n s) else PushInvalid (take n s))
           # utf8_pushes (drop (snd (utf8_step s)) s))"
  by pat_completeness auto
termination
  by (relation "measure length") (simp_all add: utf8_step_pos)

declare utf8_pushes.simps [simp del]

fun pushes :: "encoding \<Rightarrow> bytes \<Rightarrow> quoter_push list" where
  "pushes EncAscii s = map (\<lambda>b. if byte b < 128 then PushChar [b] else PushInvalid [b]) s"
| "pushes EncUtf8 s = utf8_pushes s"

fun escape_name_inner :: "bytes \<Rightarrow> quoting_style \<Rightarrow> bool \<Rightarrow> encoding \<Rightarrow> bytes" where
  "escape_name_inner s (QLiteral show_control) dirname enc =
     (if show_control then s else concat (map literal_push (pushes enc s)))"
| "escape_name_inner s (QC q) dirname enc =
     quote_chars q @ concat (map (c_push q dirname) (pushes enc s)) @ quote_chars q"
| "escape_name_inner s (QShell escape always show_control) dirname enc =
     (let (q, must) = initial_quoting s dirname always escape;
          start = \<lparr>sq_must_quote = must, sq_in_dollar = False, sq_buffer = []\<rparr>;
          final = fold (if escape then escaped_push q else plain_push q show_control) (pushes enc s) start
      in finalize_shell (sq_buffer final) (sq_must_quote final) q s)"

text \<open>Names of a platform (\<open>lib.rs\<close>): bytes on Unix; elsewhere, the WebAssembly target included, only text
  can be read as bytes, and what is no text is replaced.\<close>

definition os_str_as_bytes :: "bool \<Rightarrow> bytes \<Rightarrow> fmt_error + bytes" where
  "os_str_as_bytes unix s = (if unix \<or> utf8_valid s then Inr s else Inl (InvalidEncoding (from_utf8_lossy s)))"

definition os_str_as_bytes_lossy :: "bool \<Rightarrow> bytes \<Rightarrow> bytes" where
  "os_str_as_bytes_lossy unix s = (if unix then s else from_utf8_lossy s)"

definition escape_name :: "bool \<Rightarrow> bytes \<Rightarrow> quoting_style \<Rightarrow> encoding \<Rightarrow> bytes" where
  "escape_name unix s style enc = escape_name_inner (os_str_as_bytes_lossy unix s) style False enc"

definition escape_dir_name :: "bool \<Rightarrow> bytes \<Rightarrow> quoting_style \<Rightarrow> encoding \<Rightarrow> bytes" where
  "escape_dir_name unix s style enc = escape_name_inner (os_str_as_bytes_lossy unix s) style True enc"

fun show_quoting_style :: "quoting_style \<Rightarrow> bytes" where
  "show_quoting_style (QShell e a s) =
     ''shell'' @ (if e then ''-escape'' else []) @ (if a then ''-always-quote'' else []) @ (if s then ''-show-control'' else [])"
| "show_quoting_style (QC _) = ''C''"
| "show_quoting_style (QLiteral _) = ''literal''"

section \<open>Facts on characters\<close>

lemma nine: "(9::nat) = Suc (Suc (Suc (Suc (Suc (Suc (Suc (Suc (Suc 0))))))))"
  by simp

lemma octal_digit_parts:
  "byte_to_octal_digit n 2 = n div 64 mod 8" "byte_to_octal_digit n (Suc 0) = n div 8 mod 8" "byte_to_octal_digit n 0 = n mod 8"
  by (simp_all add: byte_to_octal_digit_def)

lemma octal_collect_byte: "octal_collect 9 (octal_from_byte b) = BS # octal3 b"
  unfolding nine using byte_div_64 [of b]
  by (simp add: octal_from_byte_def octal_next_def octal3_def octal_digit_parts)

lemma octal_collect_char:
  "length c \<le> 2 \<Longrightarrow> c \<noteq> [] \<Longrightarrow> octal_collect 9 (octal_from_char c) = concat (map (\<lambda>b. BS # octal3 b) c)"
proof (cases "length c = 1")
  case True
  then show ?thesis by (cases c) (auto simp: octal_from_char_def octal_collect_byte)
next
  case False
  moreover assume "length c \<le> 2" "c \<noteq> []"
  ultimately obtain a b where c: "c = [a, b]" by (cases c; cases "tl c"; cases "tl (tl c)") auto
  show ?thesis unfolding nine using byte_div_64 [of a] byte_div_64 [of b]
    by (simp add: c octal_from_char_def octal_next_def octal3_def octal_digit_parts)
qed

section \<open>What a shell reads\<close>

text \<open>The reader of one word: plain text, single quotes, double quotes, and the dollar quotes with their
  escapes.  An expansion, a separator or an open quote gives \<open>None\<close>.\<close>

datatype shell_mode = ShPlain | ShSingle | ShDouble | ShDollar

definition shell_active :: bytes where
  "shell_active = ''`$&*()|[;<>?! '' @ [BS, TAB, NL]"

definition dollar_escape :: "bytes \<Rightarrow> (char \<times> bytes) option" where
  "dollar_escape s =
     (case parse_escape_code TwoDigits s of (Inr (EscByte b), rest) \<Rightarrow> Some (b, rest) | _ \<Rightarrow> None)"

lemma dollar_escape_length: "dollar_escape s = Some (b, rest) \<Longrightarrow> length rest \<le> length s"
  using parse_escape_code_length [of TwoDigits s]
  by (auto simp: dollar_escape_def split: prod.splits sum.splits escaped.splits)

function shell_read :: "shell_mode \<Rightarrow> bytes \<Rightarrow> bytes option" where
  "shell_read m [] = (if m = ShPlain then Some [] else None)"
| "shell_read ShPlain (c # s) =
     (if c = SQ then shell_read ShSingle s
      else if c = DQ then shell_read ShDouble s
      else if c = CHR ''$'' \<and> s \<noteq> [] \<and> hd s = SQ then shell_read ShDollar (tl s)
      else if c = BS \<and> s \<noteq> [] then map_option ((#) (hd s)) (shell_read ShPlain (tl s))
      else if c \<in> set shell_active then None
      else map_option ((#) c) (shell_read ShPlain s))"
| "shell_read ShSingle (c # s) =
     (if c = SQ then shell_read ShPlain s else map_option ((#) c) (shell_read ShSingle s))"
| "shell_read ShDouble (c # s) =
     (if c = DQ then shell_read ShPlain s
      else if c \<in> {CHR ''`'', BS} then None
      else if c = CHR ''$'' \<and> (s = [] \<or> hd s \<noteq> SQ) then None
      else map_option ((#) c) (shell_read ShDouble s))"
| "shell_read ShDollar (c # s) =
     (if c = SQ then shell_read ShPlain s
      else if c = BS then
        (case dollar_escape s of Some (b, rest) \<Rightarrow> map_option ((#) b) (shell_read ShDollar rest) | None \<Rightarrow> None)
      else map_option ((#) c) (shell_read ShDollar s))"
  by pat_completeness auto
termination
  by (relation "measure (length \<circ> snd)") (auto dest: dollar_escape_length)

text \<open>At the start of a word, a tilde is expanded and a number sign begins a comment.\<close>

definition shell_word :: "bytes \<Rightarrow> bytes option" where
  "shell_word s = (if s \<noteq> [] \<and> hd s \<in> {CHR ''~'', CHR ''#''} then None else shell_read ShPlain s)"

text \<open>What was pushed.\<close>

fun push_bytes :: "quoter_push \<Rightarrow> bytes" where
  "push_bytes (PushChar c) = c"
| "push_bytes (PushInvalid b) = b"

lemma concat_utf8_pushes: "concat (map push_bytes (utf8_pushes s)) = s"
proof (induction s rule: utf8_pushes.induct)
  case (1 s)
  then show ?case
    by (subst utf8_pushes.simps) (auto split: prod.splits)
qed

lemma concat_pushes: "concat (map push_bytes (pushes enc s)) = s"
proof (cases enc)
  case EncAscii
  have "concat (map (push_bytes \<circ> (\<lambda>b. if byte b < 128 then PushChar [b] else PushInvalid [b])) s) = s"
    by (induction s) auto
  then show ?thesis by (simp add: EncAscii)
qed (simp add: concat_utf8_pushes)

text \<open>Every pushed character is one character: an ASCII byte, or bytes above 127.\<close>

definition proper_push :: "quoter_push \<Rightarrow> bool" where
  "proper_push p \<longleftrightarrow>
     (case p of PushChar c \<Rightarrow> c \<noteq> [] \<and> (length c = 1 \<and> byte (hd c) < 128 \<or> list_all (\<lambda>b. 128 \<le> byte b) c)
      | PushInvalid b \<Rightarrow> b \<noteq> [])"

lemma utf8_step_bytes:
  assumes "utf8_step (c # bs) = (True, n)"
  shows "n = 1 \<and> byte c < 128 \<or> list_all (\<lambda>b. 128 \<le> byte b) (take n (c # bs))"
proof (cases "byte c < 128")
  case True
  then show ?thesis using assms by (simp add: utf8_step.simps)
next
  case False
  moreover have "0 < n" "list_all is_cont (take (n - 1) bs)" using utf8_step_True [OF assms] by auto
  ultimately show ?thesis
    by (cases n) (auto simp: list_all_iff is_cont_def)
qed

lemma proper_utf8_pushes: "list_all proper_push (utf8_pushes s)"
proof (induction s rule: utf8_pushes.induct)
  case (1 s)
  show ?case
  proof (cases s)
    case (Cons c bs)
    obtain ok n where step: "utf8_step s = (ok, n)" by fastforce
    have "0 < n" using utf8_step_pos [of s] step Cons by simp
    then have "proper_push (if ok then PushChar (take n s) else PushInvalid (take n s))"
      using utf8_step_bytes [of c bs n] step Cons by (auto simp: proper_push_def take_Cons')
    then show ?thesis using 1 step Cons by (subst utf8_pushes.simps) simp
  qed (simp add: utf8_pushes.simps)
qed

lemma proper_pushes: "list_all proper_push (pushes enc s)"
proof (cases enc)
  case EncAscii
  then show ?thesis by (auto simp: list_all_iff proper_push_def)
qed (simp add: proper_utf8_pushes)

section \<open>The single-quoted form\<close>

text \<open>What was written reads, inside single quotes, as the text \<open>t\<close>, and goes on in the mode of the state.\<close>

definition reads_as :: "shell_quoter \<Rightarrow> bytes \<Rightarrow> bool" where
  "reads_as s t \<longleftrightarrow>
     (\<forall>rest. shell_read ShSingle (sq_buffer s @ rest)
        = map_option ((@) t) (shell_read (if sq_in_dollar s then ShDollar else ShSingle) rest))"

lemma map_append_append: "map_option ((@) t) (map_option ((@) u) x) = map_option ((@) (t @ u)) x"
  by (cases x) simp_all

lemma map_cons_append: "map_option ((#) c) (map_option ((@) u) x) = map_option ((@) (c # u)) x"
  by (cases x) simp_all

lemma single_text: "SQ \<notin> set x \<Longrightarrow> shell_read ShSingle (x @ rest) = map_option ((@) x) (shell_read ShSingle rest)"
proof (induction x)
  case Nil
  then show ?case by (cases "shell_read ShSingle rest") auto
next
  case (Cons c x)
  then show ?case by (cases "shell_read ShSingle rest") auto
qed

lemma reads_exit: "reads_as s t \<Longrightarrow> reads_as (exit_dollar s) t" "\<not> sq_in_dollar (exit_dollar s)"
  by (auto simp: reads_as_def exit_dollar_def)

lemma reads_enter: "reads_as s t \<Longrightarrow> reads_as (enter_dollar s) t" "sq_in_dollar (enter_dollar s)"
  by (auto simp: reads_as_def enter_dollar_def)

lemma reads_must [simp]: "reads_as (s\<lparr>sq_must_quote := b\<rparr>) t = reads_as s t"
  by (simp add: reads_as_def)

lemma reads_text: "reads_as s t \<Longrightarrow> \<not> sq_in_dollar s \<Longrightarrow> SQ \<notin> set x \<Longrightarrow> reads_as (add_text x s) (t @ x)"
  by (simp add: reads_as_def add_text_def single_text map_append_append)

text \<open>Escapes inside dollar quotes.\<close>

lemma dollar_octal: "shell_read ShDollar (BS # octal3 b @ rest) = map_option ((#) b) (shell_read ShDollar rest)"
  by (simp add: dollar_escape_def parse_escape_octal3)

lemma dollar_letter:
  assumes "map_of control_letters c = Some l"
  shows "shell_read ShDollar (BS # l # rest) = map_option ((@) c) (shell_read ShDollar rest)" "l \<noteq> SQ"
proof -
  have "list_all (\<lambda>(c, l). map_of letter_escapes l = Some (hd c) \<and> \<not> between 49 55 (byte l) \<and> length c = 1 \<and> l \<noteq> SQ)
      control_letters"
    by (simp add: control_letters_def letter_escapes_def between_def byte_def)
  then have "\<forall>(c, l)\<in>set control_letters.
      map_of letter_escapes l = Some (hd c) \<and> \<not> between 49 55 (byte l) \<and> length c = 1 \<and> l \<noteq> SQ"
    by (simp only: list_all_iff)
  from bspec [OF this map_of_SomeD [OF assms]]
  have l: "map_of letter_escapes l = Some (hd c)" "\<not> between 49 55 (byte l)" "length c = 1" "l \<noteq> SQ"
    by simp_all
  have d: "dollar_escape (l # rest) = Some (hd c, rest)"
    using l(1,2) by (simp add: dollar_escape_def parse_escape_code_def)
  obtain x where c: "c = [x]" using l(3) by (cases c) auto
  show "shell_read ShDollar (BS # l # rest) = map_option ((@) c) (shell_read ShDollar rest)"
    using d by (cases "shell_read ShDollar rest") (simp_all add: c)
  show "l \<noteq> SQ" by (rule l(4))
qed

lemma dollar_octals:
  "shell_read ShDollar (concat (map (\<lambda>b. BS # octal3 b) bs) @ rest) = map_option ((@) bs) (shell_read ShDollar rest)"
proof (induction bs)
  case Nil
  then show ?case by (cases "shell_read ShDollar rest") auto
next
  case (Cons b bs)
  have "shell_read ShDollar (BS # octal3 b @ (concat (map (\<lambda>b. BS # octal3 b) bs) @ rest))
      = map_option ((#) b) (map_option ((@) bs) (shell_read ShDollar rest))"
    unfolding dollar_octal Cons.IH ..
  also have "\<dots> = map_option ((@) (b # bs)) (shell_read ShDollar rest)" by (rule map_cons_append)
  finally have all: "shell_read ShDollar (BS # octal3 b @ (concat (map (\<lambda>b. BS # octal3 b) bs) @ rest))
      = map_option ((@) (b # bs)) (shell_read ShDollar rest)" .
  have e: "concat (map (\<lambda>b. BS # octal3 b) (b # bs)) @ rest = BS # octal3 b @ (concat (map (\<lambda>b. BS # octal3 b) bs) @ rest)"
    by simp
  show ?case unfolding e by (rule all)
qed

lemma reads_dollar:
  assumes "reads_as s t" "sq_in_dollar s" "\<And>rest. shell_read ShDollar (x @ rest) = map_option ((@) u) (shell_read ShDollar rest)"
  shows "reads_as (add_text x s) (t @ u)"
  using assms by (simp add: reads_as_def add_text_def map_append_append)

lemma reads_quote:
  "reads_as s t \<Longrightarrow> reads_as (add_text [SQ, BS, SQ, SQ] (s\<lparr>sq_in_dollar := False\<rparr>)) (t @ [SQ])"
proof -
  have "map_option ((@) t) (map_option ((#) SQ) x) = map_option ((@) (t @ [SQ])) x" for x :: "bytes option"
    by (cases x) simp_all
  moreover assume "reads_as s t"
  ultimately show ?thesis by (simp add: reads_as_def add_text_def)
qed

lemma control_length: "is_control c \<Longrightarrow> c \<noteq> [] \<and> length c \<le> 2"
  by (auto simp: is_control_def split: list.splits)

lemma proper_char_no_quote: "proper_push (PushChar c) \<Longrightarrow> c \<noteq> [SQ] \<Longrightarrow> SQ \<notin> set c"
  by (cases c) (auto simp: proper_push_def list_all_iff byte_def)

lemma reads_push:
  assumes "reads_as s t" "proper_push p"
  shows "reads_as (escaped_push QSingle p s) (t @ push_bytes p)"
proof (cases p)
  case (PushInvalid b)
  have "octal_collect 9 \<circ> octal_from_byte = (\<lambda>b. BS # octal3 b)" by (simp add: fun_eq_iff octal_collect_byte)
  then show ?thesis
    using assms(1) PushInvalid reads_dollar [OF _ _ dollar_octals [of b], of "(enter_dollar s)\<lparr>sq_must_quote := True\<rparr>" t]
      reads_enter [of s]
    by auto
next
  case (PushChar c)
  show ?thesis
  proof (cases "map_of control_letters c")
    case (Some l)
    have "reads_as (add_text [BS, l] ((enter_dollar s)\<lparr>sq_must_quote := True\<rparr>)) (t @ c)"
      using assms(1) reads_enter [of s] dollar_letter(1) [OF Some] by (intro reads_dollar) auto
    then show ?thesis using PushChar Some dollar_letter(2) [OF Some] by (simp add: new_shell_def)
  next
    case None
    consider "c = [SQ]" | "c \<noteq> [SQ]" "is_control c" | "c \<noteq> [SQ]" "\<not> is_control c" by blast
    then show ?thesis
    proof cases
      case 1
      then show ?thesis using PushChar None reads_quote [of "s\<lparr>sq_must_quote := True\<rparr>" t] assms(1)
        by (simp add: new_shell_def)
    next
      case 2
      have "reads_as (add_text (octal_collect 9 (octal_from_char c)) ((enter_dollar s)\<lparr>sq_must_quote := True\<rparr>)) (t @ c)"
        using assms(1) reads_enter [of s] dollar_octals [of c] octal_collect_char [of c] control_length [OF 2(2)]
        by (intro reads_dollar) auto
      then show ?thesis using PushChar None 2 by (simp add: new_shell_def)
    next
      case 3
      have "reads_as (add_text c ((exit_dollar s)\<lparr>sq_must_quote := b\<rparr>)) (t @ c)" for b
        using assms proper_char_no_quote [of c] PushChar 3(1) reads_exit [of s] by (intro reads_text) auto
      from this [of True] this [of "sq_must_quote (exit_dollar s)"] show ?thesis using PushChar None 3
        by (simp add: new_shell_def)
    qed
  qed
qed

lemma reads_fold:
  "reads_as s t \<Longrightarrow> list_all proper_push ps \<Longrightarrow> reads_as (fold (escaped_push QSingle) ps s) (t @ concat (map push_bytes ps))"
proof (induction ps arbitrary: s t)
  case (Cons p ps)
  then show ?case using reads_push [of s t p] Cons.IH [of "escaped_push QSingle p s" "t @ push_bytes p"] by simp
qed simp

section \<open>The unquoted and the double-quoted form\<close>

text \<open>Text that a shell reads as it is.\<close>

definition inert :: "bytes \<Rightarrow> bool" where
  "inert c \<longleftrightarrow> list_all (\<lambda>b. b \<noteq> SQ \<and> b \<noteq> DQ \<and> b \<notin> set shell_active) c"

lemma inert_append [simp]: "inert (c @ d) \<longleftrightarrow> inert c \<and> inert d"
  by (simp add: inert_def)

lemma shell_read_inert: "inert c \<Longrightarrow> shell_read ShPlain c = Some c"
  by (induction c) (auto simp: inert_def shell_active_def)

lemma must_mono: "sq_must_quote s \<Longrightarrow> sq_must_quote (escaped_push q p s)"
  by (cases p) (auto simp: add_text_def enter_dollar_def exit_dollar_def split: escape_state.split)

lemma must_fold: "sq_must_quote s \<Longrightarrow> sq_must_quote (fold (escaped_push q) ps s)"
  by (induction ps arbitrary: s) (simp_all add: must_mono)

lemma inert_ascii:
  assumes "b \<notin> set special_shell_chars" "\<not> is_control [b]"
  shows "inert [b]"
proof -
  have "b \<noteq> TAB" "b \<noteq> NL" using assms(2) by (auto simp: is_control_def byte_def)
  with assms(1) show ?thesis by (simp add: inert_def shell_active_def special_shell_chars_def)
qed

lemma inert_high: "list_all (\<lambda>b. 128 \<le> byte b) c \<Longrightarrow> inert c"
proof -
  have "byte b < 128" if "b \<in> set (SQ # DQ # shell_active)" for b
    using that by (auto simp: shell_active_def byte_def)
  then show "list_all (\<lambda>b. 128 \<le> byte b) c \<Longrightarrow> inert c" by (fastforce simp: inert_def list_all_iff)
qed

lemma new_shell_char:
  assumes "new_shell c True QSingle = EsChar x"
  shows "x = c" "\<not> is_control c" "c \<noteq> [SQ]" "c \<notin> set (map (\<lambda>x. [x]) special_shell_chars)"
proof -
  have n: "map_of control_letters c = None" using assms by (cases "map_of control_letters c") (auto simp: new_shell_def)
  show "x = c" "\<not> is_control c" "c \<noteq> [SQ]" "c \<notin> set (map (\<lambda>x. [x]) special_shell_chars)"
    using assms n by (auto simp: new_shell_def simp del: set_map split: if_splits)
qed

text \<open>A quoter_push that does not ask for quotes adds inert text.\<close>

lemma quiet_push:
  assumes "\<not> sq_must_quote (escaped_push QSingle p s)" "proper_push p"
  shows "sq_buffer (escaped_push QSingle p s) = sq_buffer (exit_dollar s) @ push_bytes p
    \<and> inert (push_bytes p) \<and> \<not> sq_in_dollar (escaped_push QSingle p s) \<and> \<not> sq_must_quote s"
proof (cases p)
  case (PushInvalid b)
  then show ?thesis using assms by (simp add: proper_push_def add_text_def)
next
  case (PushChar c)
  have quiet: "new_shell c True QSingle = EsChar c \<and> \<not> is_control c \<and> c \<noteq> [SQ]
      \<and> c \<notin> set (map (\<lambda>x. [x]) special_shell_chars)"
    using assms(1) PushChar new_shell_char [of c]
    by (cases "new_shell c True QSingle") (simp_all add: add_text_def split: if_splits)
  have "inert c"
  proof (cases "length c = 1")
    case True
    then obtain b where b: "c = [b]" by (cases c) auto
    then show ?thesis using quiet inert_ascii [of b] by auto
  next
    case False
    then show ?thesis using assms(2) PushChar inert_high [of c] by (auto simp: proper_push_def)
  qed
  moreover have "\<not> sq_must_quote s" using assms(1) must_mono by blast
  ultimately show ?thesis using PushChar quiet reads_exit(2) [of s] by (simp add: add_text_def)
qed

lemma quiet_fold:
  "\<not> sq_must_quote (fold (escaped_push QSingle) ps s) \<Longrightarrow> list_all proper_push ps \<Longrightarrow> \<not> sq_in_dollar s \<Longrightarrow>
     sq_buffer (fold (escaped_push QSingle) ps s) = sq_buffer s @ concat (map push_bytes ps)
     \<and> inert (concat (map push_bytes ps))"
proof (induction ps arbitrary: s)
  case Nil
  then show ?case by (simp add: inert_def)
next
  case (Cons p ps)
  have q: "\<not> sq_must_quote (escaped_push QSingle p s)" using Cons.prems(1) must_fold by fastforce
  have "sq_buffer (exit_dollar s) = sq_buffer s" using Cons.prems(3) by (simp add: exit_dollar_def)
  with quiet_push [OF q] Cons.prems Cons.IH [of "escaped_push QSingle p s"] show ?case by simp
qed

text \<open>In double quotes every printable character stands for itself.\<close>

definition printable_push :: "quoter_push \<Rightarrow> bool" where
  "printable_push p = (case p of PushChar c \<Rightarrow> \<not> is_control c | PushInvalid _ \<Rightarrow> False)"

lemma control_letters_control: "map_of control_letters c = Some l \<Longrightarrow> is_control c"
  by (auto simp: control_letters_def is_control_def byte_def split: if_splits)

lemma double_fold:
  "list_all printable_push ps \<Longrightarrow> \<not> sq_in_dollar s \<Longrightarrow>
     sq_buffer (fold (escaped_push QDouble) ps s) = sq_buffer s @ concat (map push_bytes ps)"
proof (induction ps arbitrary: s)
  case (Cons p ps)
  obtain c where p: "p = PushChar c" "\<not> is_control c" using Cons.prems(1) by (cases p) (auto simp: printable_push_def)
  have "map_of control_letters c = None" using p(2) control_letters_control by (cases "map_of control_letters c") auto
  then have "escaped_push QDouble p s = add_text c s \<or> escaped_push QDouble p s = add_text c (s\<lparr>sq_must_quote := True\<rparr>)"
    using p Cons.prems(2) by (simp add: new_shell_def exit_dollar_def)
  then show ?case using Cons.IH [of "escaped_push QDouble p s"] Cons.prems p(1)
    by (auto simp: add_text_def)
qed simp

lemma shell_read_double:
  "list_all (\<lambda>b. b \<notin> set (shell_escaped_char_set d)) c \<Longrightarrow> shell_read ShDouble (c @ [DQ]) = Some c"
  by (induction c) (auto simp: shell_escaped_char_set_def)

lemma double_round_trip:
  assumes "initial_quoting name dirname always True = (QDouble, True)" "list_all printable_push (pushes enc name)"
  defines "final \<equiv> fold (escaped_push QDouble) (pushes enc name) \<lparr>sq_must_quote = True, sq_in_dollar = False, sq_buffer = []\<rparr>"
  shows "shell_word (finalize_shell (sq_buffer final) (sq_must_quote final) QDouble name) = Some name"
proof -
  define start where "start = \<lparr>sq_must_quote = True, sq_in_dollar = False, sq_buffer = []\<rparr>"
  have "sq_buffer final = name"
    using double_fold [of "pushes enc name" start] assms(2) by (simp add: final_def start_def concat_pushes)
  moreover have "sq_must_quote final" using must_fold [of start] by (simp add: final_def start_def)
  moreover have "list_all (\<lambda>b. b \<notin> set (shell_escaped_char_set dirname)) name"
    using assms(1) by (auto simp: initial_quoting_def list_ex_iff list_all_iff split: if_splits)
  ultimately show ?thesis using shell_read_double by (simp add: finalize_shell_def Let_def shell_word_def)
qed

lemma reads_as_start: "reads_as \<lparr>sq_must_quote = must, sq_in_dollar = False, sq_buffer = []\<rparr> []"
proof -
  have "map_option ((@) []) x = x" for x :: "bytes option" by (cases x) simp_all
  then show ?thesis by (simp add: reads_as_def)
qed

section \<open>Properties\<close>

text \<open>Claim C33: A name in the style \<open>shell-escape\<close> is one word of the shell that stands for the name: control
  characters, bytes that are no text, quotes and blanks included; except that a name with an apostrophe
  and none of the characters that force single quotes must have only printable characters.\<close>

theorem shell_escape_round_trip:
  assumes "fst (initial_quoting name dirname always True) = QDouble \<Longrightarrow> list_all printable_push (pushes enc name)"
  shows "shell_word (escape_name_inner name (QShell True always show_control) dirname enc) = Some name"
proof -
  obtain q must where q: "initial_quoting name dirname always True = (q, must)" by fastforce
  define start where "start = \<lparr>sq_must_quote = must, sq_in_dollar = False, sq_buffer = []\<rparr>"
  define final where "final = fold (escaped_push q) (pushes enc name) start"
  have result: "escape_name_inner name (QShell True always show_control) dirname enc
      = finalize_shell (sq_buffer final) (sq_must_quote final) q name"
    by (simp add: q start_def final_def Let_def)
  have cases: "q = QSingle \<or> q = QDouble \<and> must" "q = QSingle \<and> \<not> must \<longrightarrow> name \<noteq> []"
    using q by (auto simp: initial_quoting_def split: if_splits)
  show ?thesis
  proof (cases "q = QDouble")
    case True
    then show ?thesis using double_round_trip q cases(1) assms unfolding result by (simp add: final_def start_def)
  next
    case False
    then have single: "q = QSingle" using cases(1) by simp
    have reads: "reads_as final name"
      using reads_fold [of start "[]" "pushes enc name"] proper_pushes reads_as_start
      by (simp add: final_def single concat_pushes start_def)
    show ?thesis
    proof (cases "sq_must_quote final \<or> name \<noteq> [] \<and> hd name \<in> {CHR ''~'', CHR ''#''}")
      case True
      have "shell_read ShSingle (sq_buffer final @ [SQ]) = Some name"
        using reads by (auto simp: reads_as_def)
      then show ?thesis using True unfolding result by (simp add: finalize_shell_def Let_def single shell_word_def)
    next
      case out: False
      then have "sq_buffer final = name \<and> inert name"
        using quiet_fold [of "pushes enc name" start] proper_pushes
        by (simp add: final_def single start_def concat_pushes)
      then show ?thesis using out shell_read_inert unfolding result
        by (auto simp: finalize_shell_def single shell_word_def)
    qed
  qed
qed

lemma shell_escape_round_trip_witness:
  "shell_word (escape_name_inner [CHR ''a'', NL, SQ, CHR 0xFF] SHELL_ESCAPE False EncAscii) = Some [CHR ''a'', NL, SQ, CHR 0xFF]
   \<and> escape_name_inner [CHR ''a'', NL, SQ] SHELL_ESCAPE False EncAscii
     = [SQ, CHR ''a'', SQ, CHR ''$'', SQ, BS, CHR ''n'', SQ, BS, SQ, SQ, SQ]"
proof -
  have "fst (initial_quoting [CHR ''a'', NL, SQ, CHR 0xFF] False False True) = QSingle"
    by (simp add: initial_quoting_def shell_escaped_char_set_def)
  then show ?thesis
    using shell_escape_round_trip [of "[CHR ''a'', NL, SQ, CHR 0xFF]" False False EncAscii False]
    by (simp add: SHELL_ESCAPE_def initial_quoting_def shell_escaped_char_set_def byte_def new_shell_def control_letters_def
        is_control_def add_text_def exit_dollar_def enter_dollar_def finalize_shell_def Let_def special_shell_chars_def)
qed

text \<open>With an apostrophe and a byte that is no text, the dollar quotes stand inside double quotes, where a
  shell does not read them: the word is another name.\<close>

lemma apostrophe_and_invalid_byte:
  "escape_name_inner [CHR ''a'', SQ, CHR 0xFF] SHELL_ESCAPE False EncAscii
     = [DQ, CHR ''a'', SQ, SQ, CHR ''$'', SQ, BS, CHR ''3'', CHR ''7'', CHR ''7'', DQ]"
  by (simp add: SHELL_ESCAPE_def initial_quoting_def shell_escaped_char_set_def byte_def new_shell_def control_letters_def
        is_control_def add_text_def exit_dollar_def enter_dollar_def finalize_shell_def Let_def special_shell_chars_def
        octal_collect_byte octal3_def)

section \<open>The C form\<close>

lemma escape_octals:
  "parse_escape_only TwoDigits (concat (map (\<lambda>b. BS # octal3 b) bs) @ rest) = map EscByte bs @ parse_escape_only TwoDigits rest"
proof (induction bs)
  case (Cons b bs)
  show ?case
    using Cons.IH parse_escape_octal3 [of b "concat (map (\<lambda>b. BS # octal3 b) bs) @ rest"]
    by (simp add: parse_escape_only_backslash)
qed simp

lemma escape_letter:
  assumes "map_of letter_escapes l = Some b" "\<not> between 49 55 (byte l)"
  shows "parse_escape_only TwoDigits (BS # l # rest) = EscByte b # parse_escape_only TwoDigits rest"
  using assms by (simp add: parse_escape_only_backslash parse_escape_code_def)

lemma control_letter_escape:
  assumes "map_of control_letters c = Some l"
  obtains b where "c = [b]" "map_of letter_escapes l = Some b" "\<not> between 49 55 (byte l)"
proof -
  have "list_all (\<lambda>(c, l). map_of letter_escapes l = Some (hd c) \<and> \<not> between 49 55 (byte l) \<and> length c = 1) control_letters"
    by (simp add: control_letters_def letter_escapes_def between_def byte_def)
  then have "\<forall>(c, l)\<in>set control_letters. map_of letter_escapes l = Some (hd c) \<and> \<not> between 49 55 (byte l) \<and> length c = 1"
    by (simp only: list_all_iff)
  from bspec [OF this map_of_SomeD [OF assms]] have "map_of letter_escapes l = Some (hd c)" "\<not> between 49 55 (byte l)" "length c = 1"
    by simp_all
  then show thesis using that [of "hd c"] by (cases c) auto
qed

lemma plain_escape: "BS \<notin> set c \<Longrightarrow> parse_escape_only zero (c @ rest) = map EscByte c @ parse_escape_only zero rest"
  by (induction c) auto

lemma c_piece:
  assumes "proper_push p"
  shows "parse_escape_only TwoDigits (c_push QDouble False p @ rest) = map EscByte (push_bytes p) @ parse_escape_only TwoDigits rest"
proof (cases p)
  case (PushInvalid b)
  have "concat (map (\<lambda>x. escape_collect (hide_control (EsOctal (octal_from_byte x)))) b) = concat (map (\<lambda>b. BS # octal3 b) b)"
    by (simp add: hide_control_def octal_collect_byte)
  then show ?thesis using escape_octals [of b rest] by (simp add: PushInvalid)
next
  case (PushChar c)
  show ?thesis
  proof (cases "map_of control_letters c")
    case (Some l)
    then obtain b where "c = [b]" "map_of letter_escapes l = Some b" "\<not> between 49 55 (byte l)"
      by (rule control_letter_escape)
    then show ?thesis using Some escape_letter [of l b rest] by (simp add: PushChar new_c_def hide_control_def)
  next
    case None
    have special: "map_of letter_escapes BS = Some BS" "map_of letter_escapes DQ = Some DQ"
      "\<not> between 49 55 (byte BS)" "\<not> between 49 55 (byte DQ)"
      by (simp_all add: letter_escapes_def between_def byte_def)
    consider "c = [BS]" | "c = [DQ]" | "is_control c" "c \<noteq> [BS]" "c \<noteq> [DQ]" | "\<not> is_control c" "c \<noteq> [BS]" "c \<noteq> [DQ]" by blast
    then show ?thesis
    proof cases
      case 1
      then show ?thesis using None escape_letter [OF special(1,3)] by (simp add: PushChar new_c_def hide_control_def)
    next
      case 2
      then show ?thesis using None escape_letter [OF special(2,4)] by (simp add: PushChar new_c_def hide_control_def)
    next
      case 3
      have "c \<noteq> [SQ]" "c \<noteq> '' ''" using 3(1) by (auto simp: is_control_def byte_def)
      then show ?thesis
        using None 3 octal_collect_char [of c] control_length [OF 3(1)] escape_octals [of c rest]
        by (simp add: PushChar new_c_def hide_control_def)
    next
      case 4
      have "new_c c QDouble False = EsChar c" using None 4 by (simp add: new_c_def)
      moreover have "BS \<notin> set c" using assms 4(2) PushChar by (cases c) (auto simp: proper_push_def list_all_iff byte_def)
      ultimately show ?thesis using 4(1) plain_escape [of c] by (simp add: PushChar hide_control_def)
    qed
  qed
qed

text \<open>A name in the C style with double quotes, without its quotes, is written back by \<open>printf\<close>.\<close>

lemma c_round_trip:
  "write_escaped (parse_escape_only TwoDigits (concat (map (c_push QDouble False) (pushes enc name)))) = name"
proof -
  have "parse_escape_only TwoDigits (concat (map (c_push QDouble False) ps)) = map EscByte (concat (map push_bytes ps))"
    if "list_all proper_push ps" for ps
    using that
  proof (induction ps)
    case (Cons p ps)
    then show ?case using c_piece [of p "concat (map (c_push QDouble False) ps)"] by simp
  qed simp
  from this [OF proper_pushes] show ?thesis by (simp add: concat_pushes)
qed

end
