(* ===== verification/Uu_Printf.thy ===== *)
theory Uu_Printf
  imports Uu_NumFormat Uu_Quote
begin

text \<open>
  The \<open>printf\<close> formatting (\<open>stubs/uucore/src/lib/features/format/\<close>: \<open>argument.rs\<close>, the writing part of
  \<open>spec.rs\<close>, \<open>mod.rs\<close>): arguments that are taken in order or by position, conversions of text to numbers with
  their diagnostics, directives and whole format strings.  A \<open>usize\<close> has 32 bits.  The shape of a quoted
  text in a message (\<open>os_display\<close>), the locale and the decimal arithmetic are parameters in \<open>fmt_env\<close>.
\<close>

section \<open>Environment and state\<close>

record fmt_env =
  fe_unix :: bool
  fe_util :: bytes
  fe_quote :: "bytes \<Rightarrow> bytes"
  fe_encoding :: encoding
  fe_big :: bigdec_lib
  fe_show :: bigdec_fmt

datatype fmt_argument =
    ArgChar nat | ArgString bytes | ArgUnsigned nat | ArgSigned int | ArgFloat ebd | ArgUnparsed bytes

text \<open>The arguments, with the standard error and the exit code that conversions change.\<close>

record fmt_args =
  fa_args :: "fmt_argument list"
  fa_next :: nat
  fa_highest :: "nat option"
  fa_offset :: nat
  fa_err :: bytes
  fa_exit :: nat

definition args_new :: "fmt_argument list \<Rightarrow> nat \<Rightarrow> fmt_args" where
  "args_new args code = \<lparr>fa_args = args, fa_next = 0, fa_highest = None, fa_offset = 0, fa_err = [], fa_exit = code\<rparr>"

definition arg_at :: "fmt_args \<Rightarrow> nat \<Rightarrow> fmt_argument option" where
  "arg_at st n = (if n < length (fa_args st) then Some (fa_args st ! n) else None)"

definition peek_arg :: "fmt_args \<Rightarrow> fmt_argument option" where
  "peek_arg st = arg_at st (fa_next st)"

definition is_exhausted :: "fmt_args \<Rightarrow> bool" where
  "is_exhausted st \<longleftrightarrow> length (fa_args st) \<le> fa_offset st"

text \<open>\<open>saturating_add\<close> of \<open>usize\<close>.\<close>

definition sat_add32 :: "nat \<Rightarrow> nat \<Rightarrow> nat" where
  "sat_add32 a b = min (a + b) (2 ^ 32 - 1)"

definition start_next_batch :: "fmt_args \<Rightarrow> fmt_args" where
  "start_next_batch st =
     (let off = max (fa_next st) (case fa_highest st of None \<Rightarrow> 0 | Some x \<Rightarrow> sat_add32 x 1)
      in st\<lparr>fa_offset := off, fa_next := off\<rparr>)"

definition get_at_relative_position :: "nat \<Rightarrow> fmt_args \<Rightarrow> fmt_argument option \<times> fmt_args" where
  "get_at_relative_position pos st =
     (let p = sat_add32 (pos - 1) (fa_offset st)
      in (arg_at st p, st\<lparr>fa_highest := Some (case fa_highest st of None \<Rightarrow> p | Some x \<Rightarrow> max x p)\<rparr>))"

fun next_arg :: "location \<Rightarrow> fmt_args \<Rightarrow> fmt_argument option \<times> fmt_args" where
  "next_arg NextArgument st = (arg_at st (fa_next st), st\<lparr>fa_next := fa_next st + 1\<rparr>)"
| "next_arg (Position pos) st = get_at_relative_position pos st"

section \<open>Text read as numbers\<close>

definition show_error :: "fmt_env \<Rightarrow> bytes \<Rightarrow> fmt_args \<Rightarrow> fmt_args" where
  "show_error E msg st = st\<lparr>fa_err := fa_err st @ fe_util E @ '': '' @ msg @ [NL]\<rparr>"

definition show_warning :: "fmt_env \<Rightarrow> bytes \<Rightarrow> fmt_args \<Rightarrow> fmt_args" where
  "show_warning E msg st = st\<lparr>fa_err := fa_err st @ fe_util E @ '': warning: '' @ msg @ [NL]\<rparr>"

definition set_exit_code :: "nat \<Rightarrow> fmt_args \<Rightarrow> fmt_args" where
  "set_exit_code n st = st\<lparr>fa_exit := n\<rparr>"

fun extract_error :: "fmt_env \<Rightarrow> 'a \<Rightarrow> 'a ext_error \<Rightarrow> bytes \<Rightarrow> bool \<Rightarrow> fmt_args \<Rightarrow> 'a \<times> fmt_args" where
  "extract_error E zero (Overflow v) q qs st = (v, show_error E (q @ '': Numerical result out of range'') st)"
| "extract_error E zero (Underflow v) q qs st = (v, show_error E (q @ '': Numerical result out of range'') st)"
| "extract_error E zero NotNumeric q qs st = (zero, show_error E (q @ '': expected a numeric value'') st)"
| "extract_error E zero (PartialMatch v rest) q qs st =
     (v, if qs then show_warning E (rest @ '': character(s) following character constant have been ignored'')
                      (set_exit_code 0 st)
         else show_error E (q @ '': value not completely converted'') st)"

definition extract_value :: "fmt_env \<Rightarrow> 'a \<Rightarrow> 'a ext_error + 'a \<Rightarrow> bytes \<Rightarrow> bool \<Rightarrow> fmt_args \<Rightarrow> 'a \<times> fmt_args" where
  "extract_value E zero p input quote_start st =
     (case p of
        Inr v \<Rightarrow> (v, st)
      | Inl e \<Rightarrow>
          (let q = fe_quote E (escape_name (fe_unix E) input C_NO_QUOTES (fe_encoding E))
           in extract_error E zero e q quote_start (set_exit_code 1 st)))"

text \<open>The code point of one well-formed character.\<close>

definition code_point :: "bytes \<Rightarrow> nat" where
  "code_point c =
     (case map byte c of
        [a] \<Rightarrow> a
      | [a, b] \<Rightarrow> (a - 0xC0) * 64 + (b - 0x80)
      | [a, b, c] \<Rightarrow> (a - 0xE0) * 4096 + (b - 0x80) * 64 + (c - 0x80)
      | [a, b, c, d] \<Rightarrow> (a - 0xF0) * 262144 + (b - 0x80) * 4096 + (c - 0x80) * 64 + (d - 0x80)
      | _ \<Rightarrow> 0)"

text \<open>A character constant: a quote and a character, or a byte that starts none.\<close>

definition parse_quote_start :: "bool \<Rightarrow> (nat \<Rightarrow> 'a) \<Rightarrow> bytes \<Rightarrow> 'a ext_error + 'a" where
  "parse_quote_start unix of_code s =
     (if \<not> unix \<and> \<not> utf8_valid s then Inl NotNumeric
      else
        let bs = tl s in
        if bs = [] then Inl NotNumeric
        else
          let (v, len) = (if fst (utf8_step bs) then (code_point (take (snd (utf8_step bs)) bs), snd (utf8_step bs))
                          else (byte (hd bs), 1))
          in if len < length bs then Inl (PartialMatch (of_code v) (from_utf8_lossy (drop len bs))) else Inr (of_code v))"

definition get_num ::
    "fmt_env \<Rightarrow> 'a \<Rightarrow> (nat \<Rightarrow> 'a) \<Rightarrow> (bigdec_lib \<Rightarrow> bytes \<Rightarrow> 'a ext_error + 'a) \<Rightarrow> bytes \<Rightarrow> fmt_args \<Rightarrow> 'a \<times> fmt_args" where
  "get_num E zero of_code parse os st =
     (let s = from_utf8_lossy os; quote_start = (s \<noteq> [] \<and> hd s \<in> {DQ, SQ});
          parsed = (if quote_start then parse_quote_start (fe_unix E) of_code os else parse (fe_big E) s)
      in extract_value E zero parsed s quote_start st)"

section \<open>Typed arguments\<close>

definition next_char :: "fmt_env \<Rightarrow> location \<Rightarrow> fmt_args \<Rightarrow> char \<times> fmt_args" where
  "next_char E pos st =
     (case next_arg pos st of
        (Some (ArgChar c), st') \<Rightarrow> (char_of c, st')
      | (Some (ArgUnparsed os), st') \<Rightarrow>
          (case os_str_as_bytes (fe_unix E) os of
             Inr (b # _) \<Rightarrow> (b, st')
           | _ \<Rightarrow> (CHR 0x00, st'))
      | (_, st') \<Rightarrow> (CHR 0x00, st'))"

definition next_string :: "location \<Rightarrow> fmt_args \<Rightarrow> bytes \<times> fmt_args" where
  "next_string pos st =
     (case next_arg pos st of
        (Some (ArgUnparsed os), st') \<Rightarrow> (os, st')
      | (Some (ArgString os), st') \<Rightarrow> (os, st')
      | (_, st') \<Rightarrow> ([], st'))"

definition next_i64 :: "fmt_env \<Rightarrow> location \<Rightarrow> fmt_args \<Rightarrow> int \<times> fmt_args" where
  "next_i64 E pos st =
     (case next_arg pos st of
        (Some (ArgSigned n), st') \<Rightarrow> (n, st')
      | (Some (ArgUnparsed os), st') \<Rightarrow> get_num E 0 int parse_i64 os st'
      | (_, st') \<Rightarrow> (0, st'))"

definition next_u64 :: "fmt_env \<Rightarrow> location \<Rightarrow> fmt_args \<Rightarrow> nat \<times> fmt_args" where
  "next_u64 E pos st =
     (case next_arg pos st of
        (Some (ArgUnsigned n), st') \<Rightarrow> (n, st')
      | (Some (ArgUnparsed os), st') \<Rightarrow> get_num E 0 id parse_ext_u64 os st'
      | (_, st') \<Rightarrow> (0, st'))"

definition next_ebd :: "fmt_env \<Rightarrow> location \<Rightarrow> fmt_args \<Rightarrow> ebd \<times> fmt_args" where
  "next_ebd E pos st =
     (case next_arg pos st of
        (Some (ArgFloat x), st') \<Rightarrow> (x, st')
      | (Some (ArgUnparsed os), st') \<Rightarrow> get_num E ebd_zero ebd_from_nat parse_ebd os st'
      | (_, st') \<Rightarrow> (ebd_zero, st'))"

section \<open>Writing a directive\<close>

text \<open>\<open>as isize\<close> and \<open>usize::try_from\<close>, at 32 bits; the negation wraps around.\<close>

definition as_isize :: "int \<Rightarrow> int" where
  "as_isize n = (n + 2 ^ 31) mod 2 ^ 32 - 2 ^ 31"

definition width_of :: "int \<Rightarrow> nat" where
  "width_of n = (if 0 \<le> n \<and> n < 2 ^ 32 then nat n else 0)"

fun resolve_asterisk_width :: "fmt_env \<Rightarrow> can_asterisk option \<Rightarrow> fmt_args \<Rightarrow> (nat \<times> bool) \<times> fmt_args" where
  "resolve_asterisk_width E None st = ((0, False), st)"
| "resolve_asterisk_width E (Some (Fixed w)) st = ((w, False), st)"
| "resolve_asterisk_width E (Some (Asterisk loc)) st =
     (let (nb, st') = next_i64 E loc st
      in ((if nb < 0 then (width_of (as_isize (- as_isize nb)), True) else (width_of nb, False)), st'))"

fun resolve_asterisk_precision :: "fmt_env \<Rightarrow> can_asterisk option \<Rightarrow> fmt_args \<Rightarrow> nat option \<times> fmt_args" where
  "resolve_asterisk_precision E None st = (None, st)"
| "resolve_asterisk_precision E (Some (Fixed w)) st = (Some w, st)"
| "resolve_asterisk_precision E (Some (Asterisk loc)) st =
     (let (v, st') = next_i64 E loc st
      in ((if 0 \<le> v then (if v < 2 ^ 32 then Some (nat v) else None) else Some 0), st'))"

definition write_padded :: "bytes \<Rightarrow> nat \<Rightarrow> bool \<Rightarrow> fmt_error + bytes" where
  "write_padded s width left =
     (case check_width (width - length s) of
        Inl e \<Rightarrow> Inl e
      | Inr _ \<Rightarrow>
          with_count (width - length s)
            (if left then s @ replicate (width - length s) CHR '' '' else replicate (width - length s) CHR '' '' @ s))"

definition left_if :: "bool \<Rightarrow> alignment \<Rightarrow> alignment" where
  "left_if neg al = (if neg then AlignLeft else al)"

definition check_precision :: "nat \<Rightarrow> fmt_error + bytes \<Rightarrow> fmt_error + bytes" where
  "check_precision p r = (if 2 ^ 31 \<le> p then Inl (InvalidPrecision (show_nat p)) else r)"

fun spec_write :: "fmt_env \<Rightarrow> spec \<Rightarrow> fmt_args \<Rightarrow> (fmt_error + bytes) \<times> fmt_args" where
  "spec_write E (SpChar pos w left) st =
     (let ((w, neg), st) = resolve_asterisk_width E w st;
          (c, st) = next_char E pos st
      in (write_padded [c] w (left \<or> neg), st))"
| "spec_write E (SpString pos p w left) st =
     (let ((w, neg), st) = resolve_asterisk_width E w st;
          (p, st) = resolve_asterisk_precision E p st;
          (os, st) = next_string pos st
      in ((case os_str_as_bytes (fe_unix E) os of
             Inl e \<Rightarrow> Inl e
           | Inr s \<Rightarrow> write_padded (case p of Some n \<Rightarrow> take n s | None \<Rightarrow> s) w (left \<or> neg)), st))"
| "spec_write E (SpEscapedString pos) st =
     (let (os, st) = next_string pos st
      in ((case os_str_as_bytes (fe_unix E) os of
             Inl e \<Rightarrow> Inl e
           | Inr s \<Rightarrow> Inr (write_escaped (parse_escape_only ThreeDigits s))), st))"
| "spec_write E (SpQuotedString pos) st =
     (let (os, st) = next_string pos st
      in (os_str_as_bytes (fe_unix E) (escape_name (fe_unix E) os SHELL_ESCAPE (fe_encoding E)), st))"
| "spec_write E (SpSigned pos w p sg al) st =
     (let ((w, neg), st) = resolve_asterisk_width E w st;
          (p, st) = resolve_asterisk_precision E p st;
          (i, st) = next_i64 E pos st
      in (check_precision (or_zero p) (format_signed w (or_zero p) sg (left_if neg al) i), st))"
| "spec_write E (SpUnsigned pos v w p al) st =
     (let ((w, neg), st) = resolve_asterisk_width E w st;
          (p, st) = resolve_asterisk_precision E p st;
          (i, st) = next_u64 E pos st
      in (check_precision (or_zero p) (format_unsigned v w (or_zero p) (left_if neg al) i), st))"
| "spec_write E (SpFloat pos v c force w sg al p) st =
     (let ((w, neg), st) = resolve_asterisk_width E w st;
          (p, st) = resolve_asterisk_precision E p st;
          (x, st) = next_ebd E pos st
      in (check_precision (or_zero p)
            (format_float (fe_show E) \<lparr>ff_variant = v, ff_case = c, ff_force = force, ff_width = w, ff_sign = sg,
               ff_align = left_if neg al, ff_precision = p\<rparr> x), st))"

section \<open>Format strings\<close>

datatype 'c format_item = ItemSpec spec | ItemChar 'c

text \<open>Directives only.  A text that ends in a percent sign ends here with its error, where the iterator of the
  code would give the error again and again: its consumers stop at the first error.\<close>

function spec_only :: "bytes \<Rightarrow> bytes \<Rightarrow> (fmt_error + char format_item) list" where
  "spec_only fmt s =
     (case s of
        [] \<Rightarrow> []
      | c # rest \<Rightarrow>
          if c \<noteq> CHR ''%'' then Inr (ItemChar c) # spec_only fmt rest
          else if rest = [] then [Inl (EndsWithPercent fmt)]
          else if hd rest = CHR ''%'' then Inr (ItemChar CHR ''%'') # spec_only fmt (tl rest)
          else (case fst (spec_parse rest) of Inr sp \<Rightarrow> Inr (ItemSpec sp) | Inl t \<Rightarrow> Inl (SpecError t))
               # spec_only fmt (snd (spec_parse rest)))"
  by pat_completeness auto
termination
  by (relation "measure (\<lambda>(_, s). length s)") (use spec_parse_length in \<open>auto simp: le_imp_less_Suc less_Suc_eq_le\<close>)

declare spec_only.simps [simp del]

definition parse_spec_only :: "bytes \<Rightarrow> (fmt_error + char format_item) list" where
  "parse_spec_only fmt = spec_only fmt fmt"

text \<open>Directives and escapes.\<close>

function parse_spec_and_escape :: "bytes \<Rightarrow> (fmt_error + escaped format_item) list" where
  "parse_spec_and_escape s =
     (case s of
        [] \<Rightarrow> []
      | c # rest \<Rightarrow>
          if c = CHR ''%'' \<and> rest \<noteq> [] \<and> hd rest = CHR ''%'' then
            Inr (ItemChar (EscByte CHR ''%'')) # parse_spec_and_escape (tl rest)
          else if c = CHR ''%'' then
            (case fst (spec_parse rest) of Inr sp \<Rightarrow> Inr (ItemSpec sp) | Inl t \<Rightarrow> Inl (SpecError t))
            # parse_spec_and_escape (snd (spec_parse rest))
          else if c = BS then
            map_sum id ItemChar (fst (parse_escape_code TwoDigits rest))
            # parse_spec_and_escape (snd (parse_escape_code TwoDigits rest))
          else Inr (ItemChar (EscByte c)) # parse_spec_and_escape rest)"
  by pat_completeness auto
termination
  by (relation "measure length")
    (use spec_parse_length parse_escape_code_length in \<open>auto simp: le_imp_less_Suc less_Suc_eq_le\<close>)

declare parse_spec_and_escape.simps [simp del]

text \<open>One item: its text, and whether the output goes on.\<close>

fun item_write :: "fmt_env \<Rightarrow> ('c \<Rightarrow> bytes option) \<Rightarrow> 'c format_item \<Rightarrow> fmt_args \<Rightarrow> (fmt_error + bytes \<times> bool) \<times> fmt_args" where
  "item_write E chars (ItemSpec sp) st =
     (case spec_write E sp st of (r, st') \<Rightarrow> (map_sum id (\<lambda>s. (s, True)) r, st'))"
| "item_write E chars (ItemChar c) st =
     (case chars c of Some s \<Rightarrow> (Inr (s, True), st) | None \<Rightarrow> (Inr ([], False), st))"

text \<open>The items in order, until an error or the end of the output; what was written stays written.\<close>

fun write_items ::
    "fmt_env \<Rightarrow> ('c \<Rightarrow> bytes option) \<Rightarrow> (fmt_error + 'c format_item) list \<Rightarrow> fmt_args \<Rightarrow> bytes \<times> fmt_error option \<times> fmt_args" where
  "write_items E chars [] st = ([], None, st)"
| "write_items E chars (Inl e # items) st = ([], Some e, st)"
| "write_items E chars (Inr item # items) st =
     (case item_write E chars item st of
        (Inl e, st') \<Rightarrow> ([], Some e, st')
      | (Inr (s, cont), st') \<Rightarrow>
          if cont then (case write_items E chars items st' of (t, r) \<Rightarrow> (s @ t, r)) else (s, None, st'))"

definition printf_writer :: "fmt_env \<Rightarrow> bytes \<Rightarrow> fmt_args \<Rightarrow> bytes \<times> fmt_error option \<times> fmt_args" where
  "printf_writer E fmt st = write_items E (\<lambda>c. Some [c]) (parse_spec_only fmt) st"

definition sprintf :: "fmt_env \<Rightarrow> bytes \<Rightarrow> fmt_argument list \<Rightarrow> (fmt_error + bytes) \<times> fmt_args" where
  "sprintf E fmt args =
     (case printf_writer E fmt (args_new args 0) of
        (out, None, st) \<Rightarrow> (Inr out, st)
      | (out, Some e, st) \<Rightarrow> (Inl e, st))"

section \<open>One directive for one number\<close>

record 'f format =
  fo_prefix :: bytes
  fo_suffix :: bytes
  fo_formatter :: 'f

definition from_formatter :: "'f \<Rightarrow> 'f format" where
  "from_formatter f = \<lparr>fo_prefix = [], fo_suffix = [], fo_formatter = f\<rparr>"

text \<open>The text before the first directive, the directive, and the items after it.\<close>

fun first_spec ::
    "bytes \<Rightarrow> (fmt_error + char format_item) list \<Rightarrow> fmt_error + (bytes \<times> spec \<times> (fmt_error + char format_item) list)" where
  "first_spec fmt [] = Inl (NeedAtLeastOneSpec fmt)"
| "first_spec fmt (Inl e # items) = Inl e"
| "first_spec fmt (Inr (ItemSpec sp) # items) = Inr ([], sp, items)"
| "first_spec fmt (Inr (ItemChar c) # items) = map_sum id (map_prod ((#) c) id) (first_spec fmt items)"

fun format_suffix :: "bytes \<Rightarrow> (fmt_error + char format_item) list \<Rightarrow> fmt_error + bytes" where
  "format_suffix fmt [] = Inr []"
| "format_suffix fmt (Inr (ItemSpec sp) # items) = Inl (TooManySpecs fmt)"
| "format_suffix fmt (Inl (EndsWithPercent s) # items) = Inl (TooManySpecs fmt)"
| "format_suffix fmt (Inr (ItemChar c) # items) = map_sum id ((#) c) (format_suffix fmt items)"
| "format_suffix fmt (Inl e # items) = Inl e"

definition format_parse :: "(spec \<Rightarrow> fmt_error + 'f) \<Rightarrow> bytes \<Rightarrow> fmt_error + 'f format" where
  "format_parse try_from_spec fmt =
     (case first_spec fmt (parse_spec_only fmt) of
        Inl e \<Rightarrow> Inl e
      | Inr (pre, sp, items) \<Rightarrow>
          (case try_from_spec sp of
             Inl e \<Rightarrow> Inl e
           | Inr f \<Rightarrow>
               (case format_suffix fmt items of
                  Inl e \<Rightarrow> Inl e
                | Inr suf \<Rightarrow> Inr \<lparr>fo_prefix = pre, fo_suffix = suf, fo_formatter = f\<rparr>)))"

definition format_fmt :: "('f \<Rightarrow> fmt_error + bytes) \<Rightarrow> 'f format \<Rightarrow> fmt_error + bytes" where
  "format_fmt run fo = map_sum id (\<lambda>s. fo_prefix fo @ s @ fo_suffix fo) (run (fo_formatter fo))"

fun show_fmt_error :: "fmt_env \<Rightarrow> fmt_error \<Rightarrow> bytes" where
  "show_fmt_error E (SpecError s) = ''%'' @ from_utf8_lossy s @ '': invalid conversion specification''"
| "show_fmt_error E (TooManySpecs s) = ''format '' @ [SQ] @ from_utf8_lossy s @ [SQ] @ '' has too many % directives''"
| "show_fmt_error E (NeedAtLeastOneSpec s) = ''format '' @ [SQ] @ from_utf8_lossy s @ [SQ] @ '' has no % directive''"
| "show_fmt_error E (EndsWithPercent s) = ''format '' @ fe_quote E (from_utf8_lossy s) @ '' ends in %''"
| "show_fmt_error E (InvalidPrecision p) = ''invalid precision: '' @ [SQ] @ p @ [SQ]"
| "show_fmt_error E WrongSpecType = ''wrong % directive type was given''"
| "show_fmt_error E (FmtIoError e) = ''write error: '' @ e"
| "show_fmt_error E NoMoreArguments = ''no more arguments''"
| "show_fmt_error E FmtPanics = []"
| "show_fmt_error E MissingHex = ''missing hexadecimal number in escape''"
| "show_fmt_error E (InvalidCharacter c ds) = ''invalid universal character name '' @ [BS, c] @ from_utf8_lossy ds"
| "show_fmt_error E (InvalidEncoding s) =
     ''invalid UTF-8 input '' @ fe_quote E s
     @ '' encountered when converting to bytes on a platform that doesn'' @ [SQ] @ ''t expose byte arguments''"

section \<open>Facts\<close>

lemma spec_only_Nil [simp]: "spec_only fmt [] = []"
  by (simp add: spec_only.simps)

lemma spec_only_plain [simp]: "c \<noteq> CHR ''%'' \<Longrightarrow> spec_only fmt (c # s) = Inr (ItemChar c) # spec_only fmt s"
  by (subst spec_only.simps) simp

lemma spec_only_percent [simp]: "spec_only fmt (CHR ''%'' # CHR ''%'' # s) = Inr (ItemChar CHR ''%'') # spec_only fmt s"
  by (subst spec_only.simps) simp

lemma spec_only_directive:
  "s \<noteq> [] \<Longrightarrow> hd s \<noteq> CHR ''%'' \<Longrightarrow> spec_parse s = (Inr sp, t)
     \<Longrightarrow> spec_only fmt (CHR ''%'' # s) = Inr (ItemSpec sp) # spec_only fmt t"
  by (subst spec_only.simps) simp

text \<open>A text as a format string that writes it.\<close>

definition as_format :: "bytes \<Rightarrow> bytes" where
  "as_format s = concat (map (\<lambda>c. if c = CHR ''%'' then ''%%'' else [c]) s)"

lemma spec_only_as_format: "spec_only fmt (as_format s @ t) = map (\<lambda>c. Inr (ItemChar c)) s @ spec_only fmt t"
  by (induction s) (auto simp: as_format_def)

lemma write_items_chars:
  "write_items E (\<lambda>c. Some [c]) (map (\<lambda>c. Inr (ItemChar c)) s @ items) st
     = (case write_items E (\<lambda>c. Some [c]) items st of (t, r) \<Rightarrow> (s @ t, r))"
  by (induction s) (simp_all split: prod.split)

subsection \<open>The arguments a directive takes\<close>

fun takes_next :: "location \<Rightarrow> nat" where
  "takes_next NextArgument = 1"
| "takes_next (Position _) = 0"

fun asterisk_takes :: "can_asterisk option \<Rightarrow> nat" where
  "asterisk_takes (Some (Asterisk loc)) = takes_next loc"
| "asterisk_takes _ = 0"

fun spec_takes :: "spec \<Rightarrow> nat" where
  "spec_takes (SpChar pos w _) = asterisk_takes w + takes_next pos"
| "spec_takes (SpString pos p w _) = asterisk_takes w + asterisk_takes p + takes_next pos"
| "spec_takes (SpEscapedString pos) = takes_next pos"
| "spec_takes (SpQuotedString pos) = takes_next pos"
| "spec_takes (SpSigned pos w p _ _) = asterisk_takes w + asterisk_takes p + takes_next pos"
| "spec_takes (SpUnsigned pos _ w p _) = asterisk_takes w + asterisk_takes p + takes_next pos"
| "spec_takes (SpFloat pos _ _ _ w _ _ p) = asterisk_takes w + asterisk_takes p + takes_next pos"

definition moved :: "nat \<Rightarrow> fmt_args \<Rightarrow> fmt_args \<Rightarrow> bool" where
  "moved n st st' \<longleftrightarrow> fa_args st' = fa_args st \<and> fa_offset st' = fa_offset st \<and> fa_next st' = fa_next st + n"

lemma moved_refl [simp]: "moved 0 st st"
  by (simp add: moved_def)

lemma moved_trans: "moved a st st' \<Longrightarrow> moved b st' st'' \<Longrightarrow> moved (a + b) st st''"
  by (simp add: moved_def)

lemma moved_next_arg: "moved (takes_next pos) st (snd (next_arg pos st))"
  by (cases pos) (simp_all add: moved_def get_at_relative_position_def Let_def)

lemma moved_extract: "moved 0 st (snd (extract_value E z p s q st))"
proof (cases p)
  case (Inl e)
  then show ?thesis
    by (cases e) (simp_all add: moved_def extract_value_def show_error_def show_warning_def set_exit_code_def Let_def)
qed (simp add: extract_value_def)

lemma moved_get_num: "moved 0 st (snd (get_num E z c p os st))"
  by (simp add: get_num_def moved_extract Let_def)

lemma moved_get_num_after: "moved n st st' \<Longrightarrow> moved n st (snd (get_num E z c p os st'))"
  using moved_trans [OF _ moved_get_num] by (metis add_0_right)

lemmas moved_typed = moved_next_arg moved_get_num_after

lemma moved_typed_args:
  "moved (takes_next pos) st (snd (next_char E pos st))"
  "moved (takes_next pos) st (snd (next_string pos st))"
  "moved (takes_next pos) st (snd (next_i64 E pos st))"
  "moved (takes_next pos) st (snd (next_u64 E pos st))"
  "moved (takes_next pos) st (snd (next_ebd E pos st))"
  using moved_next_arg [of pos st]
  by (auto simp: next_char_def next_string_def next_i64_def next_u64_def next_ebd_def moved_get_num_after
      split: prod.split option.split fmt_argument.split sum.split list.split)

lemma moved_asterisk:
  "moved (asterisk_takes w) st (snd (resolve_asterisk_width E w st))"
  "moved (asterisk_takes w) st (snd (resolve_asterisk_precision E w st))"
proof -
  have "w = None \<or> (\<exists>n. w = Some (Fixed n)) \<or> (\<exists>loc. w = Some (Asterisk loc))"
    by (cases w) (auto intro: can_asterisk.exhaust)
  then show "moved (asterisk_takes w) st (snd (resolve_asterisk_width E w st))"
      "moved (asterisk_takes w) st (snd (resolve_asterisk_precision E w st))"
    using moved_typed_args(3) by (auto split: prod.split) (metis snd_conv)+
qed

lemma moved_spec_write: "moved (spec_takes sp) st (snd (spec_write E sp st))"
proof (cases sp)
  case (SpChar pos w left)
  obtain v st1 where w: "resolve_asterisk_width E w st = (v, st1)" by fastforce
  obtain c st2 where c: "next_char E pos st1 = (c, st2)" by fastforce
  have "moved (asterisk_takes w) st st1" "moved (takes_next pos) st1 st2"
    using moved_asterisk(1) [of w st E] w moved_typed_args(1) [of pos st1 E] c by simp_all
  from moved_trans [OF this] show ?thesis using w c by (simp add: SpChar split: prod.split)
next
  case (SpString pos p w left)
  obtain v st1 where w: "resolve_asterisk_width E w st = (v, st1)" by fastforce
  obtain u st2 where p: "resolve_asterisk_precision E p st1 = (u, st2)" by fastforce
  obtain c st3 where c: "next_string pos st2 = (c, st3)" by fastforce
  have "moved (asterisk_takes w) st st1" "moved (asterisk_takes p) st1 st2" "moved (takes_next pos) st2 st3"
    using moved_asterisk(1) [of w st E] w moved_asterisk(2) [of p st1 E] p moved_typed_args(2) [of pos st2] c by simp_all
  from moved_trans [OF moved_trans [OF this(1,2)] this(3)] show ?thesis
    using w p c by (simp add: SpString split: prod.split)
next
  case (SpSigned pos w p sg al)
  obtain v st1 where w: "resolve_asterisk_width E w st = (v, st1)" by fastforce
  obtain u st2 where p: "resolve_asterisk_precision E p st1 = (u, st2)" by fastforce
  obtain c st3 where c: "next_i64 E pos st2 = (c, st3)" by fastforce
  have "moved (asterisk_takes w) st st1" "moved (asterisk_takes p) st1 st2" "moved (takes_next pos) st2 st3"
    using moved_asterisk(1) [of w st E] w moved_asterisk(2) [of p st1 E] p moved_typed_args(3) [of pos st2 E] c by simp_all
  from moved_trans [OF moved_trans [OF this(1,2)] this(3)] show ?thesis
    using w p c by (simp add: SpSigned split: prod.split)
next
  case (SpUnsigned pos k w p al)
  obtain v st1 where w: "resolve_asterisk_width E w st = (v, st1)" by fastforce
  obtain u st2 where p: "resolve_asterisk_precision E p st1 = (u, st2)" by fastforce
  obtain c st3 where c: "next_u64 E pos st2 = (c, st3)" by fastforce
  have "moved (asterisk_takes w) st st1" "moved (asterisk_takes p) st1 st2" "moved (takes_next pos) st2 st3"
    using moved_asterisk(1) [of w st E] w moved_asterisk(2) [of p st1 E] p moved_typed_args(4) [of pos st2 E] c by simp_all
  from moved_trans [OF moved_trans [OF this(1,2)] this(3)] show ?thesis
    using w p c by (simp add: SpUnsigned split: prod.split)
next
  case (SpFloat pos k lc fo w sg al p)
  obtain v st1 where w: "resolve_asterisk_width E w st = (v, st1)" by fastforce
  obtain u st2 where p: "resolve_asterisk_precision E p st1 = (u, st2)" by fastforce
  obtain c st3 where c: "next_ebd E pos st2 = (c, st3)" by fastforce
  have "moved (asterisk_takes w) st st1" "moved (asterisk_takes p) st1 st2" "moved (takes_next pos) st2 st3"
    using moved_asterisk(1) [of w st E] w moved_asterisk(2) [of p st1 E] p moved_typed_args(5) [of pos st2 E] c by simp_all
  from moved_trans [OF moved_trans [OF this(1,2)] this(3)] show ?thesis
    using w p c by (simp add: SpFloat split: prod.split)
next
  case (SpEscapedString pos)
  then show ?thesis using moved_typed_args(2) [of pos st] by (auto split: prod.split)
next
  case (SpQuotedString pos)
  then show ?thesis using moved_typed_args(2) [of pos st] by (auto split: prod.split)
qed

fun item_takes :: "fmt_error + 'c format_item \<Rightarrow> nat" where
  "item_takes (Inr (ItemSpec sp)) = spec_takes sp"
| "item_takes _ = 0"

lemma moved_item: "moved (item_takes (Inr item)) st (snd (item_write E chars item st))"
proof (cases item)
  case (ItemSpec sp)
  then show ?thesis using moved_spec_write [of sp st E] by (auto split: prod.split)
next
  case (ItemChar c)
  then show ?thesis by (cases "chars c") simp_all
qed

lemma map_sum_Inr: "map_sum f g x = Inr y \<longleftrightarrow> (\<exists>z. x = Inr z \<and> y = g z)"
  by (cases x) auto

lemma moved_items:
  assumes "write_items E (\<lambda>c. Some [c]) items st = (out, None, st')"
  shows "moved (sum_list (map item_takes items)) st st'"
  using assms
proof (induction items arbitrary: st out)
  case (Cons i items)
  obtain item where i: "i = Inr item" using Cons.prems by (cases i) auto
  obtain r st1 where r: "item_write E (\<lambda>c. Some [c]) item st = (r, st1)" by fastforce
  obtain s cont where s: "r = Inr (s, cont)" "cont"
    using Cons.prems r i by (cases r; cases item) (auto split: prod.splits sum.splits simp: map_sum_Inr)
  obtain t where "write_items E (\<lambda>c. Some [c]) items st1 = (t, None, st')"
    using Cons.prems r s i by (auto split: prod.splits)
  then have "moved (sum_list (map item_takes items)) st1 st'" by (rule Cons.IH)
  moreover have "moved (item_takes i) st st1" using moved_item [of item st E "\<lambda>c. Some [c]"] r i by simp
  ultimately show ?case using moved_trans by fastforce
qed simp

subsection \<open>An integer through the whole formatting\<close>

lemma is_ascii_show_int: "is_ascii (show_int x)"
proof -
  have "byte CHR ''-'' < 128" by (simp add: byte_def)
  moreover have "is_ascii (show_nat n)" for n by (simp add: show_nat_def)
  ultimately show ?thesis by (simp add: show_int_def is_ascii_def)
qed

lemma show_int_head: "show_int x \<noteq> [] \<and> hd (show_int x) \<notin> {DQ, SQ}"
proof -
  have "hd (show_nat n) \<notin> {DQ, SQ}" for n
    using digit_text(1) [OF show_nat_all_digits(1), of "hd (show_nat n)" n] show_nat_all_digits(3) [of n] by (auto simp: byte_def)
  then show ?thesis using show_nat_all_digits(3) by (simp add: show_int_def)
qed

lemma get_num_integer:
  assumes "fits_i64 x"
  shows "get_num E 0 int parse_i64 (show_int x) st = (x, st)"
proof -
  have "from_utf8_lossy (show_int x) = show_int x" using is_ascii_show_int utf8_valid_ascii from_utf8_lossy_valid by metis
  then show ?thesis using show_int_head [of x] integers_read_back(1) [of "fe_big E" x] assms
    by (simp add: get_num_def extract_value_def Let_def)
qed

lemma format_signed_ok:
  assumes "w \<le> 65535" "p \<le> 65535"
  shows "\<exists>out. format_signed w p sg al x = Inr out"
proof -
  define s where "s = get_sign_indicator sg (x < 0)"
  have "\<not> max_format_width < w - n" "\<not> 65535 < w - n" "\<not> 65535 < w" for n using assms by (simp_all add: max_format_width_def)
  moreover have "\<not> 65534 < w - length s" if "s \<noteq> []" using that assms by (cases s) auto
  moreover have "\<not> 65535 < w - length s - length t" for t :: bytes using assms by simp
  ultimately have "\<exists>out. write_output s ds w al = Inr out" for ds
    by (auto simp: write_output_def check_width_def with_count_def Let_def split: alignment.split prod.split)
  then show ?thesis using assms(2) by (auto simp: format_signed_def with_count_def s_def Let_def)
qed

text \<open>A width that the check of the widths lets pass, and a precision, that the formatting of the standard library refuses.\<close>

lemma wide_number_panics:
  assumes "65535 < w" "w \<le> 1000000" "0 \<le> x"
  shows "format_signed w 0 SignNone al x = Inl FmtPanics"
    "65535 < p \<Longrightarrow> format_signed v p sg al x = Inl FmtPanics"
  using assms digits_no_prefix [OF show_nat_all_digits(1)]
  by (cases al; simp add: format_signed_def write_output_def with_count_def check_width_def max_format_width_def
      get_sign_indicator_def Let_def)+

lemma signed_directive:
  assumes "\<not> fl_hash f" "0 < w" "w < 2 ^ 32" "p < 2 ^ 32"
  shows "spec_only fmt (''%'' @ show_flags f @ show_nat w @ ''.'' @ show_nat p @ ''d'' @ s)
    = Inr (ItemSpec (SpSigned NextArgument (Some (Fixed w)) (Some (Fixed p)) (sign_of_flags f)
        (alignment_of_flags f (Some (Fixed p))))) # spec_only fmt s"
proof -
  define d where "d = show_flags f @ show_nat w @ ''.'' @ show_nat p @ ''d'' @ s"
  have "spec_parse d = (Inr (SpSigned NextArgument (Some (Fixed w)) (Some (Fixed p)) (sign_of_flags f)
      (alignment_of_flags f (Some (Fixed p)))), s)"
    using directive_round_trip [of NextArgument "Some (Fixed w)" "Some (Fixed p)" "CHR ''d''" f s] assms
    by (simp add: d_def show_precision_def type_chars_def spec_of_def)
  moreover have "hd (show_nat w) \<noteq> CHR ''%''" "show_nat w \<noteq> []"
    using digit_text(1) [OF show_nat_all_digits(1), of "hd (show_nat w)" w] show_nat_all_digits(3) [of w] by (auto simp: byte_def)
  then have "d \<noteq> [] \<and> hd d \<noteq> CHR ''%''" by (auto simp: d_def show_flags_def hd_append)
  ultimately show ?thesis using spec_only_directive by (simp add: d_def)
qed

text \<open>Claim C31: An integer of 64 bits printed as text and given to a directive \<open>%\<close>, flags other than \<open>#\<close>, a width from 1 to
  65535, a point, a precision of at most 65535 and \<open>d\<close>, among other text, is written as a text that reads back as the integer
  between its blanks, exactly as long as the larger of the width and of the sign with the digits the precision asks for; one
  argument is taken, nothing goes to the standard error, and the text around is written as it is. (With a larger width or
  precision the standard library panics or an error is reported.)\<close>

theorem printf_integer_round_trip:
  fixes f :: flags
  assumes "fits_i64 x" "\<not> fl_hash f" "0 < w" "w \<le> 65535" "p \<le> 65535"
  defines "args \<equiv> [ArgUnparsed (show_int x)]"
  shows "\<exists>out. sprintf E (as_format pre @ ''%'' @ show_flags f @ show_nat w @ ''.'' @ show_nat p @ ''d'' @ as_format post) args
      = (Inr (pre @ out @ post), (args_new args 0)\<lparr>fa_next := 1\<rparr>)
    \<and> parse_signed 64 (trim out) = Some x
    \<and> length out = max w (length (get_sign_indicator (sign_of_flags f) (x < 0)) + max p (length (show_nat (nat \<bar>x\<bar>))))"
proof -
  define sg where "sg = sign_of_flags f"
  define al where "al = alignment_of_flags f (Some (Fixed p))"
  define st where "st = args_new args 0"
  obtain out where out: "format_signed w p sg al x = Inr out" using format_signed_ok assms(4,5) by blast
  have "next_i64 E NextArgument st = (x, st\<lparr>fa_next := 1\<rparr>)"
    using get_num_integer [OF assms(1)] by (simp add: next_i64_def st_def args_new_def arg_at_def args_def)
  then have "item_write E (\<lambda>c. Some [c]) (ItemSpec (SpSigned NextArgument (Some (Fixed w)) (Some (Fixed p)) sg al)) st
      = (Inr (out, True), st\<lparr>fa_next := 1\<rparr>)"
    using out assms(5) by (simp add: check_precision_def left_if_def or_zero_def)
  moreover have "spec_only fmt (as_format post) = map (\<lambda>c. Inr (ItemChar c)) post" for fmt
    using spec_only_as_format [of fmt post "[]"] by simp
  moreover have "write_items E (\<lambda>c. Some [c]) (map (\<lambda>c. Inr (ItemChar c)) post) st' = (post, None, st')" for st'
    using write_items_chars [of E post "[]"] by simp
  ultimately have "sprintf E (as_format pre @ ''%'' @ show_flags f @ show_nat w @ ''.'' @ show_nat p @ ''d'' @ as_format post) args
      = (Inr (pre @ out @ post), st\<lparr>fa_next := 1\<rparr>)"
    using signed_directive [OF assms(2,3), of p _ "as_format post"] assms(4,5)
    by (simp add: sprintf_def printf_writer_def parse_spec_only_def spec_only_as_format write_items_chars
        st_def [symmetric] sg_def [symmetric] al_def [symmetric] del: append_Cons item_write.simps)
  then show ?thesis
    using format_signed_reads_back [OF out] assms(1) by (auto simp: fits_i64_def st_def sg_def)
qed

lemma printf_integer_round_trip_witness:
  "\<forall>E. \<exists>out. fst (sprintf E (''a%%'' @ ''%'' @ ''+'' @ ''7'' @ ''.'' @ ''4'' @ ''d'' @ ''b'') [ArgUnparsed ''-42'']) = Inr (''a%'' @ out @ ''b'')
    \<and> parse_signed 64 (trim out) = Some (- 42) \<and> length out = 7"
proof
  fix E
  have shown: "show_nat 7 = ''7''" "show_nat 4 = ''4''" "show_nat 42 = ''42''" by code_simp+
  have "as_format ''a%'' = ''a%%''" "as_format ''b'' = ''b''" "show_flags (no_flags\<lparr>fl_plus := True\<rparr>) = ''+''"
    by (simp_all add: as_format_def show_flags_def no_flags_def)
  moreover have "show_int (- 42) = ''-42''" using shown by (simp add: show_int_def)
  moreover have "fits_i64 (- 42)" "\<not> fl_hash (no_flags\<lparr>fl_plus := True\<rparr>)" by (simp_all add: fits_i64_def no_flags_def)
  ultimately show "\<exists>out. fst (sprintf E (''a%%'' @ ''%'' @ ''+'' @ ''7'' @ ''.'' @ ''4'' @ ''d'' @ ''b'') [ArgUnparsed ''-42''])
      = Inr (''a%'' @ out @ ''b'') \<and> parse_signed 64 (trim out) = Some (- 42) \<and> length out = 7"
    using printf_integer_round_trip [of "- 42" "no_flags\<lparr>fl_plus := True\<rparr>" 7 4 E "''a%''" "''b''"] shown
    by (auto simp: get_sign_indicator_def)
qed

section \<open>Formats and arguments\<close>

text \<open>A character constant with text after it sets the exit code to zero, whatever failed before.\<close>

lemma character_constant_clears_failure:
  assumes "byte a < 128" "byte b < 128"
  shows "fa_exit (snd (get_num E 0 int parse_i64 [SQ, a, b] st)) = 0"
proof -
  have "utf8_valid [SQ, a, b]" using assms by (intro utf8_valid_ascii) (auto simp: is_ascii_def byte_def)
  moreover have "utf8_step [a, b] = (True, 1)" using assms by (simp add: utf8_step.simps)
  ultimately show ?thesis
    by (simp add: get_num_def from_utf8_lossy_valid parse_quote_start_def extract_value_def show_warning_def
        set_exit_code_def Let_def)
qed

lemma failed_number_exits_zero:
  "fa_exit (snd (sprintf E ''%d%d'' [ArgUnparsed ''x'', ArgUnparsed [SQ, CHR ''a'', CHR ''b'']])) = 0"
proof -
  have spec: "spec_parse (CHR ''d'' # s) = (Inr (SpSigned NextArgument None None SignNone AlignRightSpace), s)" for s
    using directive_round_trip [of NextArgument None None "CHR ''d''" no_flags s]
    by (simp add: show_precision_def type_chars_def spec_of_def show_flags_def no_flags_def sign_of_flags_def alignment_of_flags_def)
  define it :: "char format_item" where "it = ItemSpec (SpSigned NextArgument None None SignNone AlignRightSpace)"
  have items: "parse_spec_only ''%d%d'' = [Inr it, Inr it]"
    using spec_only_directive [OF _ _ spec] by (simp add: parse_spec_only_def it_def)
  define st where "st = args_new [ArgUnparsed ''x'', ArgUnparsed [SQ, CHR ''a'', CHR ''b'']] 0"
  have fine: "\<exists>out. fst (item_write E (\<lambda>c. Some [c]) it s) = Inr (out, True)
      \<and> snd (item_write E (\<lambda>c. Some [c]) it s) = snd (next_i64 E NextArgument s)" for s
    using format_signed_ok [of 0 0 SignNone AlignRightSpace "fst (next_i64 E NextArgument s)"]
    by (auto simp: it_def check_precision_def or_zero_def left_if_def split: prod.split)
  define st1 where "st1 = snd (next_i64 E NextArgument st)"
  define st2 where "st2 = snd (next_i64 E NextArgument st1)"
  obtain a b where "item_write E (\<lambda>c. Some [c]) it st = (Inr (a, True), st1)" "item_write E (\<lambda>c. Some [c]) it st1 = (Inr (b, True), st2)"
    using fine [of st] fine [of st1] by (metis prod.collapse st1_def st2_def)
  then have "snd (sprintf E ''%d%d'' [ArgUnparsed ''x'', ArgUnparsed [SQ, CHR ''a'', CHR ''b'']]) = st2"
    by (simp add: sprintf_def printf_writer_def items st_def [symmetric])
  moreover have "moved 1 st st1" using moved_typed_args(3) [of NextArgument st E] by (simp add: st1_def)
  then have "arg_at st1 (fa_next st1) = Some (ArgUnparsed [SQ, CHR ''a'', CHR ''b''])"
    by (simp add: moved_def st_def args_new_def arg_at_def)
  then have "fa_exit st2 = 0"
    using character_constant_clears_failure [of "CHR ''a''" "CHR ''b''" E "st1\<lparr>fa_next := fa_next st1 + 1\<rparr>"]
    by (simp add: st2_def next_i64_def byte_def)
  ultimately show ?thesis by simp
qed

text \<open>A whole format takes from the arguments exactly what its directives ask for, one after the other.\<close>

lemma printf_takes_arguments:
  "printf_writer E fmt st = (out, None, st')
     \<Longrightarrow> moved (sum_list (map item_takes (parse_spec_only fmt))) st st'"
  using moved_items by (simp add: printf_writer_def)

lemma format_suffix_shape: "format_suffix fmt items = Inr s \<Longrightarrow> items = map (\<lambda>c. Inr (ItemChar c)) s"
  by (induction fmt items arbitrary: s rule: format_suffix.induct) (auto simp: map_sum_Inr)

lemma first_spec_shape:
  "first_spec fmt items = Inr (pre, sp, rest) \<Longrightarrow> items = map (\<lambda>c. Inr (ItemChar c)) pre @ Inr (ItemSpec sp) # rest"
  by (induction fmt items arbitrary: pre rule: first_spec.induct) (auto simp: map_sum_Inr)

text \<open>The precision a directive gives as a number.\<close>

fun given_precision :: "fmt_error + 'c format_item \<Rightarrow> nat" where
  "given_precision (Inr (ItemSpec (SpSigned _ _ (Some (Fixed p)) _ _))) = p"
| "given_precision _ = 0"

text \<open>Claim C32: A format for one signed number, made of a format string whose directive takes the next argument, writes exactly
  what the general formatting writes for that argument, errors and panics included, when the precision of the directive is
  at most the largest \<open>i32\<close>. With a larger one the general formatting gives the error of an invalid precision, with that
  number.\<close>

theorem format_agrees_with_sprintf:
  assumes "format_parse signed_from_spec fmt = Inr fo" "sum_list (map item_takes (parse_spec_only fmt)) = 1"
  defines "p \<equiv> sum_list (map given_precision (parse_spec_only fmt))"
  shows "fst (sprintf E fmt [ArgSigned x])
    = (if p < 2 ^ 31 then format_fmt (\<lambda>f. f x) fo else Inl (InvalidPrecision (show_nat p)))"
proof -
  obtain pre sp items where first: "first_spec fmt (parse_spec_only fmt) = Inr (pre, sp, items)"
    using assms(1) by (auto simp: format_parse_def split: sum.splits)
  then obtain f suf where f: "signed_from_spec sp = Inr f" "format_suffix fmt items = Inr suf"
      "fo = \<lparr>fo_prefix = pre, fo_suffix = suf, fo_formatter = f\<rparr>"
    using assms(1) by (auto simp: format_parse_def split: sum.splits)
  obtain pos w pr sg al where sp: "sp = SpSigned pos w pr sg al" using f(1) by (cases sp) auto
  obtain w' p' where wp: "fixed_number w = Inr w'" "fixed_number pr = Inr p'" "f = format_signed (or_zero w') (or_zero p') sg al"
    using f(1) by (auto simp: sp fixed_numbers_def map_sum_Inr split: sum.splits)
  have items: "parse_spec_only fmt = map (\<lambda>c. Inr (ItemChar c)) pre @ Inr (ItemSpec sp) # map (\<lambda>c. Inr (ItemChar c)) suf"
    using first_spec_shape [OF first] format_suffix_shape [OF f(2)] by simp
  have zero: "sum_list (map item_takes (map (\<lambda>c. Inr (ItemChar c)) s)) = 0" for s :: bytes by (induction s) simp_all
  have "spec_takes sp = 1"
    using assms(2) unfolding items map_append sum_list_append list.map(2) sum_list.Cons zero item_takes.simps by simp
  moreover have w: "w = None \<and> w' = None \<or> (\<exists>n. w = Some (Fixed n) \<and> w' = Some n)"
      and p: "pr = None \<and> p' = None \<or> (\<exists>n. pr = Some (Fixed n) \<and> p' = Some n)"
    using wp by (cases w rule: fixed_number.cases; cases pr rule: fixed_number.cases; simp)+
  ultimately have pos: "pos = NextArgument" by (cases pos) (auto simp: sp)
  define st where "st = args_new [ArgSigned x] 0"
  have next_arg: "next_i64 E NextArgument st = (x, st\<lparr>fa_next := 1\<rparr>)"
    by (simp add: next_i64_def st_def args_new_def arg_at_def)
  have given: "sum_list (map given_precision (map (\<lambda>c. Inr (ItemChar c)) s)) = 0" for s :: bytes by (induction s) simp_all
  have "given_precision (Inr (ItemSpec sp) :: fmt_error + char format_item) = or_zero p'" using p by (auto simp: sp or_zero_def)
  then have prec: "p = or_zero p'"
    unfolding p_def items map_append sum_list_append list.map(2) sum_list.Cons given by simp
  have "spec_write E sp st = (check_precision (or_zero p') (f x), st\<lparr>fa_next := 1\<rparr>)"
    using w p by (auto simp: sp pos next_arg wp(3) left_if_def or_zero_def)
  moreover have "write_items E (\<lambda>c. Some [c]) (map (\<lambda>c. Inr (ItemChar c)) suf) st' = (suf, None, st')" for st'
    using write_items_chars [of E suf "[]"] by simp
  ultimately have "fst (sprintf E fmt [ArgSigned x])
      = map_sum id (\<lambda>s. pre @ s @ suf) (check_precision (or_zero p') (f x))"
    by (cases "check_precision (or_zero p') (f x)")
      (simp_all add: sprintf_def printf_writer_def items write_items_chars st_def [symmetric])
  then show ?thesis by (simp add: check_precision_def format_fmt_def f(3) prec not_less [symmetric])
qed

lemma format_agrees_with_sprintf_witness:
  "\<forall>E. fst (sprintf E ''x%5d'' [ArgSigned 42]) = Inr ''x   42''"
proof
  fix E
  have five: "show_nat 5 = ''5''" "show_nat 42 = ''42''" by code_simp+
  have "spec_parse (''5d'' @ []) = (Inr (SpSigned NextArgument (Some (Fixed 5)) None SignNone AlignRightSpace), [])"
    using directive_round_trip [of NextArgument "Some (Fixed 5)" None "CHR ''d''" no_flags "[]"] five
    by (simp add: show_precision_def type_chars_def spec_of_def show_flags_def no_flags_def sign_of_flags_def alignment_of_flags_def)
  then have items: "parse_spec_only ''x%5d''
      = [Inr (ItemChar CHR ''x''), Inr (ItemSpec (SpSigned NextArgument (Some (Fixed 5)) None SignNone AlignRightSpace))]"
    using spec_only_directive [of "''5d''"] by (simp add: parse_spec_only_def)
  then have parsed: "format_parse signed_from_spec ''x%5d''
      = Inr \<lparr>fo_prefix = ''x'', fo_suffix = [], fo_formatter = format_signed 5 0 SignNone AlignRightSpace\<rparr>"
    by (simp add: format_parse_def fixed_numbers_def or_zero_def)
  moreover have "sum_list (map item_takes (parse_spec_only ''x%5d'')) = 1" by (simp add: items)
  moreover have "format_signed 5 0 SignNone AlignRightSpace 42 = Inr ''   42''"
    by (simp add: format_signed_def five get_sign_indicator_def write_output_def with_count_def check_width_def max_format_width_def
        fill_left_def numeral_3_eq_3 Let_def)
  ultimately show "fst (sprintf E ''x%5d'' [ArgSigned 42]) = Inr ''x   42''"
    using format_agrees_with_sprintf [of "''x%5d''" _ E 42] by (simp add: format_fmt_def items)
qed

end
