(* ===== verification/Uu_Mode.thy ===== *)
theory Uu_Mode
  imports Uu_Size "HOL-Library.Word"
begin

text \<open>
  File modes (\<open>stubs/uucore/src/lib/features/mode.rs\<close>): octal modes, symbolic clauses and lists of both, on
  \<open>u32\<close>.  Shown: the bits outside the levels of a clause stay, a mode stays within its twelve bits, and every
  mode is reached by its symbolic and by its octal text.
\<close>

unbundle bit_operations_syntax

type_synonym u32 = "32 word"

section \<open>Octal modes\<close>

definition parse_op :: "bytes \<Rightarrow> bytes + char" where
  "parse_op mode =
     (case mode of
        [] \<Rightarrow> Inl ''unexpected end of mode''
      | c # _ \<Rightarrow>
          if c \<in> {CHR ''+'', CHR ''-'', CHR ''=''} then Inr c
          else Inl (''invalid operator (expected +, -, or =, but found '' @ hd (utf8_chars mode) @ '')''))"

fun show_int_error :: "int_error \<Rightarrow> bytes" where
  "show_int_error IntEmpty = ''cannot parse integer from empty string''"
| "show_int_error InvalidDigit = ''invalid digit found in string''"
| "show_int_error PosOverflow = ''number too large to fit in target type''"

text \<open>The masks of the code in hexadecimal: \<open>0o6000\<close>, and below \<open>0o4700\<close>, \<open>0o2070\<close>, \<open>0o1007\<close>, \<open>0o7777\<close>, \<open>0o444\<close>,
  \<open>0o222\<close>, \<open>0o111\<close>, \<open>0o1000\<close>, \<open>0o700\<close>, \<open>0o070\<close>, \<open>0o007\<close>.\<close>

definition special_bits :: u32 where "special_bits = 0xC00"

definition parse_numeric :: "u32 \<Rightarrow> bytes \<Rightarrow> bool \<Rightarrow> bytes + u32" where
  "parse_numeric fperm mode considering_dir =
     (let (op, pos) = (case parse_op mode of Inl _ \<Rightarrow> (None, 0) | Inr c \<Rightarrow> (Some c, 1));
          mode = trim (drop pos mode)
      in case (if mode = [] then Inr 0 else from_str_radix (2 ^ 32) 8 mode) of
           Inl e \<Rightarrow> Inl (show_int_error e)
         | Inr n \<Rightarrow>
             if 4095 < n then Inl (''mode is too large ('' @ show_radix 8 n @ '' > 7777)'')
             else
               let change = word_of_nat n in
               Inr (case op of
                 None \<Rightarrow>
                   if considering_dir \<and> length mode < 5 then change OR (fperm AND special_bits) else change
               | Some c \<Rightarrow>
                   if c = CHR ''+'' then fperm OR change
                   else if c = CHR ''-'' then fperm AND NOT change
                   else change))"

section \<open>Symbolic clauses\<close>

definition level_masks :: "(char \<times> u32) list" where
  "level_masks = [(CHR ''u'', 0x9C0), (CHR ''g'', 0x438), (CHR ''o'', 0x207), (CHR ''a'', 0xFFF)]"

fun levels_loop :: "u32 \<Rightarrow> nat \<Rightarrow> bytes \<Rightarrow> u32 \<times> nat" where
  "levels_loop lmask pos [] = (lmask, pos)"
| "levels_loop lmask pos (c # s) =
     (case map_of level_masks c of
        Some m \<Rightarrow> levels_loop (lmask OR m) (pos + 1) s
      | None \<Rightarrow> (lmask, pos))"

definition parse_levels :: "bytes \<Rightarrow> u32 \<times> nat" where
  "parse_levels mode = (let (lmask, pos) = levels_loop 0 0 mode in (if pos = 0 then 0xFFF else lmask, pos))"

text \<open>The permissions of one level, copied to all of them.\<close>

definition copied_bits :: "char \<Rightarrow> u32 \<Rightarrow> u32" where
  "copied_bits c fperm =
     (if c = CHR ''u'' then (fperm AND 0x1C0) OR (drop_bit 3 fperm AND 0x38) OR (drop_bit 6 fperm AND 0x7)
      else if c = CHR ''g'' then (push_bit 3 fperm AND 0x1C0) OR (fperm AND 0x38) OR (drop_bit 3 fperm AND 0x7)
      else (push_bit 6 fperm AND 0x1C0) OR (push_bit 3 fperm AND 0x38) OR (fperm AND 0x7))"

definition letter_bits :: "u32 \<Rightarrow> bool \<Rightarrow> char \<Rightarrow> u32 option" where
  "letter_bits fperm considering_dir c =
     (if c = CHR ''r'' then Some 0x124
      else if c = CHR ''w'' then Some 0x92
      else if c = CHR ''x'' then Some 0x49
      else if c = CHR ''X'' then Some (if considering_dir \<or> fperm AND 0x49 \<noteq> 0 then 0x49 else 0)
      else if c = CHR ''s'' then Some 0xC00
      else if c = CHR ''t'' then Some 0x200
      else None)"

fun change_loop :: "u32 \<Rightarrow> bool \<Rightarrow> u32 \<Rightarrow> nat \<Rightarrow> bytes \<Rightarrow> u32 \<times> nat" where
  "change_loop fperm dir srwx pos [] = (srwx, pos)"
| "change_loop fperm dir srwx pos (c # s) =
     (case letter_bits fperm dir c of
        Some b \<Rightarrow> change_loop fperm dir (srwx OR b) (pos + 1) s
      | None \<Rightarrow>
          if c \<in> {CHR ''u'', CHR ''g'', CHR ''o''} then (copied_bits c fperm, if pos \<noteq> 0 then pos else 1)
          else (srwx, pos))"

definition parse_change :: "bytes \<Rightarrow> u32 \<Rightarrow> bool \<Rightarrow> u32 \<times> nat" where
  "parse_change mode fperm considering_dir =
     (let (srwx, pos) = change_loop fperm considering_dir 0 0 mode in (if pos = 0 then 0 else srwx, pos))"

text \<open>One operator: the new mode.\<close>

definition apply_op :: "char \<Rightarrow> u32 \<Rightarrow> u32 \<Rightarrow> u32 \<Rightarrow> bool \<Rightarrow> u32" where
  "apply_op op fperm srwx lmask considering_dir =
     (if op = CHR ''+'' then fperm OR (srwx AND lmask)
      else if op = CHR ''-'' then fperm AND NOT (srwx AND lmask)
      else
        let srwx = (if considering_dir then srwx OR (fperm AND special_bits) else srwx)
        in (fperm AND NOT lmask) OR (srwx AND lmask))"

function symbolic_loop :: "u32 \<Rightarrow> bool \<Rightarrow> u32 \<Rightarrow> bool \<Rightarrow> u32 \<Rightarrow> bytes \<Rightarrow> bytes + u32" where
  "symbolic_loop lmask respect_umask umask considering_dir fperm mode =
     (if mode = [] then Inr fperm
      else
        case parse_op mode of
          Inl e \<Rightarrow> Inl e
        | Inr op \<Rightarrow>
            (let (srwx, pos) = parse_change (tl mode) fperm considering_dir;
                 srwx = (if respect_umask then srwx AND NOT umask else srwx)
             in symbolic_loop lmask respect_umask umask considering_dir
                  (apply_op op fperm srwx lmask considering_dir) (drop pos (tl mode))))"
  by pat_completeness auto
termination
  by (relation "measure (\<lambda>(_, _, _, _, _, mode). length mode)") auto

declare symbolic_loop.simps [simp del]

definition parse_symbolic :: "u32 \<Rightarrow> bytes \<Rightarrow> u32 \<Rightarrow> bool \<Rightarrow> bytes + u32" where
  "parse_symbolic fperm mode umask considering_dir =
     (let (lmask, pos) = parse_levels mode
      in if pos = length mode then Inl (''invalid mode ('' @ mode @ '')'')
         else symbolic_loop lmask (pos = 0) umask considering_dir fperm (drop pos mode))"

section \<open>Lists of modes\<close>

definition is_digit_byte :: "char \<Rightarrow> bool" where
  "is_digit_byte c \<longleftrightarrow> between 48 57 (byte c)"

fun parse_parts :: "bool \<Rightarrow> u32 \<Rightarrow> u32 \<Rightarrow> bytes list \<Rightarrow> bytes + u32" where
  "parse_parts considering_dir umask mode [] = Inr mode"
| "parse_parts considering_dir umask mode (part # parts) =
     (let part = trim part
      in if part = [] then parse_parts considering_dir umask mode parts
         else
           case (if list_ex is_digit_byte part then parse_numeric mode part considering_dir
                 else parse_symbolic mode part umask considering_dir) of
             Inl e \<Rightarrow> Inl e
           | Inr mode' \<Rightarrow> parse_parts considering_dir umask mode' parts)"

definition parse_chmod :: "u32 \<Rightarrow> bytes \<Rightarrow> bool \<Rightarrow> u32 \<Rightarrow> bytes + u32" where
  "parse_chmod current mode_string considering_dir umask =
     parse_parts considering_dir umask current (split_on CHR '','' mode_string)"

definition parse_mode :: "bytes \<Rightarrow> bool \<Rightarrow> u32 \<Rightarrow> bytes + u32" where
  "parse_mode mode_string considering_dir umask = parse_chmod 0 mode_string considering_dir umask"

text \<open>The mask of the WebAssembly target, \<open>0o022\<close>.\<close>

definition get_umask :: u32 where "get_umask = 0x12"

section \<open>Facts\<close>

lemma apply_op_outside: "apply_op op fperm srwx lmask d AND NOT lmask = fperm AND NOT lmask"
  by (rule bit_word_eqI) (auto simp: apply_op_def bit_simps Let_def)

lemma symbolic_loop_outside:
  "symbolic_loop lmask r u d fperm mode = Inr m \<Longrightarrow> m AND NOT lmask = fperm AND NOT lmask"
proof (induction lmask r u d fperm mode rule: symbolic_loop.induct)
  case (1 lmask r u d fperm mode)
  show ?case
  proof (cases "mode = []")
    case False
    obtain op where op: "parse_op mode = Inr op"
      using "1.prems" False by (cases "parse_op mode") (auto simp: symbolic_loop.simps [of lmask r u d fperm mode])
    obtain srwx pos where c: "parse_change (tl mode) fperm d = (srwx, pos)" by fastforce
    define s where "s = (if r then srwx AND NOT u else srwx)"
    have "symbolic_loop lmask r u d (apply_op op fperm s lmask d) (drop pos (tl mode)) = Inr m"
      using "1.prems" False op c by (simp add: symbolic_loop.simps [of lmask r u d fperm mode] s_def)
    from "1.IH" [OF False op _ refl s_def this] c show ?thesis by (simp add: apply_op_outside)
  qed (use "1.prems" in \<open>simp add: symbolic_loop.simps\<close>)
qed

text \<open>Which bits the masks have.\<close>

definition mask_bits :: "(u32 \<times> nat list) list" where
  "mask_bits =
     [(0x9C0, [6, 7, 8, 11]), (0x438, [3, 4, 5, 10]), (0x207, [0, 1, 2, 9]), (0x124, [2, 5, 8]), (0x92, [1, 4, 7]),
      (0x49, [0, 3, 6]), (0xC00, [10, 11]), (0x200, [9]), (0xFFF, [0..<12])]"

lemma mask_bits_table: "list_all (\<lambda>(m, ns). list_all (\<lambda>n. bit m n \<longleftrightarrow> n \<in> set ns) [0..<32] \<and> list_all (\<lambda>n. n < 32) ns) mask_bits"
  by code_simp

lemma mask_bit:
  assumes "(m, ns) \<in> set mask_bits"
  shows "bit m n \<longleftrightarrow> n \<in> set ns"
proof -
  have t: "list_all (\<lambda>n. bit m n \<longleftrightarrow> n \<in> set ns) [0..<32] \<and> list_all (\<lambda>n. n < 32) ns"
    using mask_bits_table assms unfolding list_all_iff by blast
  show ?thesis
  proof (cases "n < 32")
    case False
    then show ?thesis using t by (auto simp: list_all_iff bit_word.rep_eq dest: bit_imp_le_length)
  qed (use t in \<open>simp add: list_all_iff\<close>)
qed

lemma mask_bit_simps:
  "bit (0x9C0 :: u32) n \<longleftrightarrow> n \<in> {6, 7, 8, 11}"
  "bit (0x438 :: u32) n \<longleftrightarrow> n \<in> {3, 4, 5, 10}"
  "bit (0x207 :: u32) n \<longleftrightarrow> n \<in> {0, 1, 2, 9}"
  "bit (0x124 :: u32) n \<longleftrightarrow> n \<in> {2, 5, 8}"
  "bit (0x92 :: u32) n \<longleftrightarrow> n \<in> {1, 4, 7}"
  "bit (0x49 :: u32) n \<longleftrightarrow> n \<in> {0, 3, 6}"
  "bit (0xC00 :: u32) n \<longleftrightarrow> n \<in> {10, 11}"
  "bit (0x200 :: u32) n \<longleftrightarrow> n \<in> {9}"
  "bit (0xFFF :: u32) n \<longleftrightarrow> n < 12"
  using mask_bit [of "0x9C0" "[6, 7, 8, 11]" n]
    mask_bit [of "0x438" "[3, 4, 5, 10]" n]
    mask_bit [of "0x207" "[0, 1, 2, 9]" n]
    mask_bit [of "0x124" "[2, 5, 8]" n]
    mask_bit [of "0x92" "[1, 4, 7]" n]
    mask_bit [of "0x49" "[0, 3, 6]" n]
    mask_bit [of "0xC00" "[10, 11]" n]
    mask_bit [of "0x200" "[9]" n]
    mask_bit [of "0xFFF" "[0..<12]" n]
  by (simp_all add: mask_bits_def)

lemma bit_complement: "bit (NOT m :: u32) n \<longleftrightarrow> n < 32 \<and> \<not> bit m n"
  by (simp add: bit_not_iff possible_bit_word)

lemma bit_u32: "bit (m :: u32) n \<Longrightarrow> n < 32"
  using bit_imp_le_length by fastforce

lemma u32_eq_iff: "(a :: u32) = b \<longleftrightarrow> (\<forall>n. bit a n = bit b n)"
  by (auto intro: bit_eqI)

text \<open>A mode has twelve bits.\<close>

definition proper_mode :: "u32 \<Rightarrow> bool" where
  "proper_mode m \<longleftrightarrow> m AND NOT 0xFFF = 0"

lemma proper_mode_bits: "proper_mode m \<longleftrightarrow> (\<forall>n. bit m n \<longrightarrow> n < 12)"
  unfolding proper_mode_def u32_eq_iff bit_and_iff bit_complement mask_bit_simps(9)
  using bit_u32 [of m] by simp blast

lemma outside_bits: "a AND NOT l = b AND NOT l \<longleftrightarrow> (\<forall>n. bit l n \<or> bit a n = bit (b :: u32) n)"
  unfolding u32_eq_iff bit_and_iff bit_complement using bit_u32 [of a] bit_u32 [of b] by blast

section \<open>Modes stay modes\<close>

lemma levels_loop_proper: "proper_mode m \<Longrightarrow> proper_mode (fst (levels_loop m pos s))"
proof (induction m pos s rule: levels_loop.induct)
  case (2 m pos c s)
  have "\<forall>(c, l)\<in>set level_masks. proper_mode l"
    unfolding proper_mode_bits level_masks_def list.set ball_simps prod.case mask_bit_simps by auto
  then have "proper_mode (m OR l)" if "map_of level_masks c = Some l" for l
    using "2.prems" map_of_SomeD [OF that] by (fastforce simp: proper_mode_bits bit_or_iff)
  then show ?case using "2.IH" "2.prems" by (auto split: option.split)
qed simp

lemma parse_levels_proper: "proper_mode (fst (parse_levels mode))"
proof -
  have "proper_mode 0" "proper_mode 0xFFF" unfolding proper_mode_bits mask_bit_simps by simp_all
  then show ?thesis using levels_loop_proper [of 0 0 mode] by (auto simp: parse_levels_def split: prod.split)
qed

lemma parse_symbolic_proper:
  assumes "parse_symbolic m s u d = Inr m'" "proper_mode m"
  shows "proper_mode m'"
proof -
  obtain l pos where l: "parse_levels s = (l, pos)" by fastforce
  then have "symbolic_loop l (pos = 0) u d m (drop pos s) = Inr m'"
    using assms(1) by (auto simp: parse_symbolic_def split: if_splits)
  from symbolic_loop_outside [OF this] show ?thesis
    using parse_levels_proper [of s] l assms(2) unfolding outside_bits proper_mode_bits by fastforce
qed

lemma bits_of_small:
  assumes "n < 4096"
  shows "proper_mode (word_of_nat n)"
proof -
  have "take_bit 12 n = n" using assms by (simp add: take_bit_nat_eq_self_iff)
  then have "bit n k \<Longrightarrow> k < 12" for k by (metis bit_take_bit_iff)
  then show ?thesis by (simp add: proper_mode_bits bit_of_nat_iff)
qed

lemma proper_mode_ops:
  assumes "proper_mode a"
  shows "proper_mode (a AND b)" "proper_mode b \<Longrightarrow> proper_mode (a OR b)"
  using assms by (auto simp: proper_mode_bits bit_and_iff bit_or_iff)

lemma parse_numeric_proper:
  assumes "parse_numeric m s d = Inr m'" "proper_mode m"
  shows "proper_mode m'"
proof -
  obtain op pos where op: "(case parse_op s of Inl _ \<Rightarrow> (None, 0 :: nat) | Inr c \<Rightarrow> (Some c, 1)) = (op, pos)" by fastforce
  define t where "t = trim (drop pos s)"
  define r where "r = (if t = [] then Inr 0 else from_str_radix (2 ^ 32) 8 t)"
  have result: "parse_numeric m s d = (case r of
      Inl e \<Rightarrow> Inl (show_int_error e)
    | Inr n \<Rightarrow>
        if 4095 < n then Inl (''mode is too large ('' @ show_radix 8 n @ '' > 7777)'')
        else Inr (case op of
            None \<Rightarrow> if d \<and> length t < 5 then word_of_nat n OR (m AND special_bits) else word_of_nat n
          | Some c \<Rightarrow> if c = CHR ''+'' then m OR word_of_nat n
              else if c = CHR ''-'' then m AND NOT (word_of_nat n) else word_of_nat n))"
    unfolding parse_numeric_def op r_def t_def Let_def prod.case ..
  obtain n where n: "r = Inr n" "n \<le> 4095" using assms(1) unfolding result by (cases r) (auto split: if_splits)
  then have "m' \<in> {word_of_nat n OR (m AND special_bits), word_of_nat n, m OR word_of_nat n, m AND NOT (word_of_nat n)}"
    using assms(1) unfolding result by (auto split: option.splits if_splits)
  then show ?thesis using bits_of_small [of n] n(2) proper_mode_ops assms(2) by auto
qed

text \<open>Claim C35: a mode of twelve bits stays one: whatever list of octal and symbolic modes is applied to it.\<close>

theorem parse_chmod_proper:
  assumes "parse_chmod m s d u = Inr m'" "proper_mode m"
  shows "proper_mode m'"
proof -
  have "parse_parts d u m parts = Inr m' \<Longrightarrow> proper_mode m \<Longrightarrow> proper_mode m'" for parts
  proof (induction parts arbitrary: m)
    case (Cons part parts)
    then show ?case using parse_numeric_proper parse_symbolic_proper
      by (auto simp: Let_def split: if_splits sum.splits) 
  qed simp
  then show ?thesis using assms by (simp add: parse_chmod_def)
qed

text \<open>A clause changes no bit outside its levels.\<close>

lemma parse_symbolic_outside:
  assumes "parse_symbolic m s u d = Inr m'" "\<not> bit (fst (parse_levels s)) n"
  shows "bit m' n = bit m n"
proof -
  obtain l pos where l: "parse_levels s = (l, pos)" by fastforce
  then have "symbolic_loop l (pos = 0) u d m (drop pos s) = Inr m'"
    using assms(1) by (auto simp: parse_symbolic_def split: if_splits)
  from symbolic_loop_outside [OF this] show ?thesis using l assms(2) unfolding outside_bits by auto
qed

section \<open>The text of a mode\<close>

definition perm_letters :: "bool \<Rightarrow> bool \<Rightarrow> bool \<Rightarrow> bool \<Rightarrow> char \<Rightarrow> bytes" where
  "perm_letters r w x s special =
     (if r then ''r'' else []) @ (if w then ''w'' else []) @ (if x then ''x'' else []) @ (if s then [special] else [])"

definition symbolic_text :: "u32 \<Rightarrow> bytes" where
  "symbolic_text m =
     ''u='' @ perm_letters (bit m 8) (bit m 7) (bit m 6) (bit m 11) CHR ''s'' @ '',''
     @ ''g='' @ perm_letters (bit m 5) (bit m 4) (bit m 3) (bit m 10) CHR ''s'' @ '',''
     @ ''o='' @ perm_letters (bit m 2) (bit m 1) (bit m 0) (bit m 9) CHR ''t''"

lemma letter_loop:
  assumes "letter_bits f d c = Some v"
  shows "change_loop f d srwx pos ((if b then [c] else []) @ s)
    = change_loop f d (if b then srwx OR v else srwx) (if b then pos + 1 else pos) s"
  using assms by simp

lemma change_letters:
  assumes "special = CHR ''s'' \<and> v = 0xC00 \<or> special = CHR ''t'' \<and> v = 0x200"
  shows "parse_change (perm_letters r w x s special) f d
    = ((if r then 0x124 else 0) OR (if w then 0x92 else 0) OR (if x then 0x49 else 0) OR (if s then v else 0),
       length (perm_letters r w x s special))"
proof -
  have l: "letter_bits f d CHR ''r'' = Some 0x124" "letter_bits f d CHR ''w'' = Some 0x92"
      "letter_bits f d CHR ''x'' = Some 0x49" "letter_bits f d special = Some v"
    using assms by (auto simp: letter_bits_def)
  have loop: "change_loop f d 0 0 (perm_letters r w x s special @ [])
      = ((if r then 0x124 else 0) OR (if w then 0x92 else 0) OR (if x then 0x49 else 0) OR (if s then v else 0),
         length (perm_letters r w x s special))"
    unfolding perm_letters_def append_assoc letter_loop [OF l(1)] letter_loop [OF l(2)] letter_loop [OF l(3)]
      letter_loop [OF l(4)]
    by (cases r; cases w; cases x; cases s) (simp_all add: or.assoc [symmetric])
  then show ?thesis by (auto simp: parse_change_def perm_letters_def)
qed

lemma clause_assigns:
  assumes "map_of level_masks c = Some l" "special = CHR ''s'' \<and> v = 0xC00 \<or> special = CHR ''t'' \<and> v = 0x200"
  shows "parse_symbolic f (c # CHR ''='' # perm_letters r w x s special) u d
    = Inr ((f AND NOT l) OR (((if r then 0x124 else 0) OR (if w then 0x92 else 0) OR (if x then 0x49 else 0)
        OR (if s then v else 0) OR (if d then f AND special_bits else 0)) AND l))"
proof -
  have "map_of level_masks CHR ''='' = None" by (simp add: level_masks_def)
  then have "parse_levels (c # CHR ''='' # t) = (l, 1)" for t using assms(1) by (simp add: parse_levels_def)
  then show ?thesis using change_letters [OF assms(2), of r w x s f d]
    by (simp add: parse_symbolic_def symbolic_loop.simps parse_op_def apply_op_def or.assoc)
qed

lemma clause_bytes:
  assumes "c \<in> set ''ugo''" "special \<in> set ''st''" "b \<in> set (c # CHR ''='' # perm_letters r w x s special)"
  shows "57 < byte b" "byte b < 128" "b \<noteq> CHR '',''"
proof -
  have all: "\<forall>b\<in>set ''ugo=rwxst''. 57 < byte b \<and> byte b < 128 \<and> b \<noteq> CHR '',''" by (simp add: byte_def)
  have "set (perm_letters r w x s special) \<subseteq> {CHR ''r'', CHR ''w'', CHR ''x'', special}" by (auto simp: perm_letters_def)
  then have "b \<in> {c, CHR ''='', CHR ''r'', CHR ''w'', CHR ''x'', special}" using assms(3) by auto
  moreover have "set ''ugo'' \<subseteq> set ''ugo=rwxst''" "set ''st'' \<subseteq> set ''ugo=rwxst''"
      "set ''=rwx'' \<subseteq> set ''ugo=rwxst''" by simp_all
  ultimately have "b \<in> set ''ugo=rwxst''"
    using assms(1,2) by (elim insertE emptyE) (simp_all only: subset_iff, simp_all)
  from bspec [OF all this] show "57 < byte b" "byte b < 128" "b \<noteq> CHR '',''" by simp_all
qed

lemma clause_part:
  fixes r w x s :: bool
  assumes "c \<in> set ''ugo''" "special \<in> set ''st''"
  defines "t \<equiv> c # CHR ''='' # perm_letters r w x s special"
  shows "trim t = t" "\<not> list_ex is_digit_byte t" "CHR '','' \<notin> set t"
proof -
  note plain = clause_bytes [OF assms(1,2), where r = r and w = w and x = x and s = s, folded t_def]
  have "\<not> is_ws [b]" if "b \<in> set t" for b using plain [OF that] by (intro visible_not_ws) simp_all
  then show "trim t = t" using plain(2) by (intro trim_ascii_id) (simp_all add: is_ascii_def t_def)
  show "\<not> list_ex is_digit_byte t" using plain(1) by (fastforce simp: list_ex_iff is_digit_byte_def between_def)
  show "CHR '','' \<notin> set t" using plain(3) by blast
qed

lemma bit_if_mask: "bit (if p then a else b) n = (if p then bit a n else bit (b :: u32) n)"
  by simp

text \<open>On a directory an assignment keeps the set-id bits of the levels it is for.\<close>

definition letters_value :: "bool \<Rightarrow> u32 \<Rightarrow> bool \<Rightarrow> bool \<Rightarrow> bool \<Rightarrow> bool \<Rightarrow> u32 \<Rightarrow> u32" where
  "letters_value d f r w x s v =
     (if r then 0x124 else 0) OR (if w then 0x92 else 0) OR (if x then 0x49 else 0) OR (if s then v else 0)
       OR (if d then f AND special_bits else 0)"

lemma bit_letters_value:
  "bit (letters_value d f r w x s v) n
     \<longleftrightarrow> r \<and> n \<in> {2, 5, 8} \<or> w \<and> n \<in> {1, 4, 7} \<or> x \<and> n \<in> {0, 3, 6} \<or> s \<and> bit v n
       \<or> d \<and> bit f n \<and> n \<in> {10, 11}"
  unfolding letters_value_def bit_or_iff bit_if_mask special_bits_def bit_and_iff mask_bit_simps by simp

text \<open>The three assignments give each bit once.\<close>

lemma three_assignments:
  fixes d :: bool
  assumes "proper_mode m" "proper_mode f"
  defines "f1 \<equiv> (f AND NOT 0x9C0) OR (letters_value d f (bit m 8) (bit m 7) (bit m 6) (bit m 11) 0xC00 AND 0x9C0)"
  defines "f2 \<equiv> (f1 AND NOT 0x438) OR (letters_value d f1 (bit m 5) (bit m 4) (bit m 3) (bit m 10) 0xC00 AND 0x438)"
  shows "(f2 AND NOT 0x207) OR (letters_value d f2 (bit m 2) (bit m 1) (bit m 0) (bit m 9) 0x200 AND 0x207)
    = m OR (if d then f AND special_bits else 0)" (is "?f3 = ?m")
proof -
  have one: "bit f1 n = (if n \<in> {6, 7, 8, 11} then bit m n \<or> d \<and> bit f n \<and> n = 11 else bit f n)" for n
    unfolding f1_def bit_or_iff bit_and_iff bit_complement bit_letters_value mask_bit_simps
    using bit_u32 [of f n] by auto
  have two: "bit f2 n = (if n \<in> {3, 4, 5, 10} then bit m n \<or> d \<and> bit f1 n \<and> n = 10 else bit f1 n)" for n
    unfolding f2_def bit_or_iff bit_and_iff bit_complement bit_letters_value mask_bit_simps
    using bit_u32 [of f1 n] by auto
  have three: "bit ?f3 n = (if n \<in> {0, 1, 2, 9} then bit m n else bit f2 n)" for n
    unfolding bit_or_iff bit_and_iff bit_complement bit_letters_value mask_bit_simps
    using bit_u32 [of f2 n] by auto
  have goal: "bit ?m n \<longleftrightarrow> bit m n \<or> d \<and> bit f n \<and> n \<in> {10, 11}" for n
    unfolding bit_or_iff bit_if_mask special_bits_def bit_and_iff mask_bit_simps by simp
  have "bit ?f3 n = bit ?m n" for n
  proof (cases "n < 12")
    case True
    then have "n \<in> {0, 1, 2, 9} \<or> n \<in> {3, 4, 5} \<or> n \<in> {6, 7, 8} \<or> n = 10 \<or> n = 11"
      unfolding insert_iff empty_iff by arith
    then show ?thesis unfolding three two one goal by (elim disjE) auto
  next
    case False
    then have "n \<notin> {0, 1, 2, 9}" "n \<notin> {3, 4, 5, 10}" "n \<notin> {6, 7, 8, 11}" "n \<notin> {10, 11}" by auto
    then have "bit ?f3 n = bit f n" "bit ?m n = bit m n" unfolding three two one goal by simp_all
    then show ?thesis using False assms(1,2) by (auto simp: proper_mode_bits)
  qed
  then show ?thesis unfolding u32_eq_iff by blast
qed

text \<open>Claim C34: Every mode of twelve bits is reached, from any other and under any umask, by its symbolic text, which
  assigns the letters of its bits to the three levels; the set-id bits are written at \<open>u\<close> and \<open>g\<close>, the sticky bit at \<open>o\<close>.
  This holds exactly for a file that is no directory; on a directory the set-id bits it had stay set beside those of the
  text, and no other bit differs.\<close>

theorem symbolic_text_round_trip:
  assumes "proper_mode m" "proper_mode f"
  shows "parse_chmod f (symbolic_text m) d u = Inr (m OR (if d then f AND 0xC00 else 0))"
proof -
  define U where "U = CHR ''u'' # CHR ''='' # perm_letters (bit m 8) (bit m 7) (bit m 6) (bit m 11) CHR ''s''"
  define G where "G = CHR ''g'' # CHR ''='' # perm_letters (bit m 5) (bit m 4) (bit m 3) (bit m 10) CHR ''s''"
  define O' where "O' = CHR ''o'' # CHR ''='' # perm_letters (bit m 2) (bit m 1) (bit m 0) (bit m 9) CHR ''t''"
  have l: "map_of level_masks CHR ''u'' = Some 0x9C0" "map_of level_masks CHR ''g'' = Some 0x438"
      "map_of level_masks CHR ''o'' = Some 0x207"
    by (simp_all add: level_masks_def)
  have ugo: "CHR ''u'' \<in> set ''ugo''" "CHR ''g'' \<in> set ''ugo''" "CHR ''o'' \<in> set ''ugo''"
      "CHR ''s'' \<in> set ''st''" "CHR ''t'' \<in> set ''st''"
    by simp_all
  note part = clause_part [OF ugo(1,4), of "bit m 8" "bit m 7" "bit m 6" "bit m 11", folded U_def]
    clause_part [OF ugo(2,4), of "bit m 5" "bit m 4" "bit m 3" "bit m 10", folded G_def]
    clause_part [OF ugo(3,5), of "bit m 2" "bit m 1" "bit m 0" "bit m 9", folded O'_def]
  have ne: "U \<noteq> []" "G \<noteq> []" "O' \<noteq> []" by (simp_all add: U_def G_def O'_def)
  define f1 where "f1 = (f AND NOT 0x9C0) OR (letters_value d f (bit m 8) (bit m 7) (bit m 6) (bit m 11) 0xC00 AND 0x9C0)"
  define f2 where "f2 = (f1 AND NOT 0x438) OR (letters_value d f1 (bit m 5) (bit m 4) (bit m 3) (bit m 10) 0xC00 AND 0x438)"
  have s: "CHR ''s'' = CHR ''s'' \<and> (0xC00 :: u32) = 0xC00 \<or> CHR ''s'' = CHR ''t'' \<and> (0xC00 :: u32) = 0x200"
      "CHR ''t'' = CHR ''s'' \<and> (0x200 :: u32) = 0xC00 \<or> CHR ''t'' = CHR ''t'' \<and> (0x200 :: u32) = 0x200"
    by simp_all
  have "parse_symbolic f U u d = Inr f1"
    unfolding U_def f1_def letters_value_def by (rule clause_assigns [OF l(1) s(1)])
  moreover have "parse_symbolic f1 G u d = Inr f2"
    unfolding G_def f2_def letters_value_def by (rule clause_assigns [OF l(2) s(1)])
  moreover have "parse_symbolic f2 O' u d
      = Inr ((f2 AND NOT 0x207) OR (letters_value d f2 (bit m 2) (bit m 1) (bit m 0) (bit m 9) 0x200 AND 0x207))"
    unfolding O'_def letters_value_def by (rule clause_assigns [OF l(3) s(2)])
  then have "parse_symbolic f2 O' u d = Inr (m OR (if d then f AND special_bits else 0))"
    by (simp only: three_assignments [OF assms, where d = d, folded f1_def, folded f2_def])
  moreover have "symbolic_text m = U @ CHR '','' # G @ CHR '','' # O'" by (simp add: symbolic_text_def U_def G_def O'_def)
  then have "split_on CHR '','' (symbolic_text m) = [U, G, O']"
    using part by (simp add: split_on_append split_on_none)
  ultimately show ?thesis using part ne by (simp add: parse_chmod_def special_bits_def)
qed

lemma symbolic_text_round_trip_witness:
  "parse_chmod 0x5A4 ''u=rwxs,g=rx,o=t'' False 0x12 = Inr 0xBE8 \<and> parse_chmod 0x5A4 ''u=rwxs,g=rx,o=t'' True 0x12 = Inr 0xFE8
    \<and> proper_mode 0xBE8"
proof -
  have "list_all (\<lambda>n. bit (0xBE8 :: u32) n \<longleftrightarrow> n \<in> {3, 5, 6, 7, 8, 9, 11}) [0..<12]" by code_simp
  then have bits: "\<forall>n\<in>{..<12}. bit (0xBE8 :: u32) n \<longleftrightarrow> n \<in> {3, 5, 6, 7, 8, 9, 11}"
    by (simp only: list_all_iff set_upt atLeast0LessThan)
  have shown: "symbolic_text 0xBE8 = ''u=rwxs,g=rx,o=t''"
    using bits by (simp add: symbolic_text_def perm_letters_def)
  have proper: "proper_mode 0xBE8" "proper_mode 0x5A4" by (simp_all add: proper_mode_def)
  show ?thesis using symbolic_text_round_trip [OF proper, of False "0x12"] symbolic_text_round_trip [OF proper, of True "0x12"] proper(1)
    unfolding shown by simp
qed

text \<open>An octal text gives its value.\<close>

lemma octal_text_round_trip:
  assumes "n < 4096"
  shows "parse_chmod f (show_radix 8 n) False u = Inr (word_of_nat n)"
proof -
  define t where "t = show_radix 8 n"
  obtain c cs where c: "t = c # cs" by (cases t) (simp_all add: t_def)
  have digit: "47 < byte b \<and> byte b < 128" "\<exists>d<8. b = digit_char d" if "b \<in> set t" for b
    using show_radix_bytes [of 8 b n] set_show_radix [of 8 b n] that by (auto simp: t_def)
  have isd: "is_digit_byte b" if "b \<in> set t" for b
    using digit(2) [OF that] by (auto simp: is_digit_byte_def between_def digit_char_def)
  then have "list_ex is_digit_byte t" by (simp add: c)
  moreover have "c \<noteq> CHR ''+'' \<and> c \<noteq> CHR ''-'' \<and> c \<noteq> CHR ''=''"
    using isd [of c] by (auto simp: c is_digit_byte_def between_def byte_def)
  then have "\<exists>e. parse_op t = Inl e" by (simp add: c parse_op_def)
  moreover have "trim t = t" "from_str_radix (2 ^ 32) 8 t = Inr n"
    using assms by (simp_all add: t_def from_str_radix_show)
  ultimately have "parse_numeric f t False = Inr (word_of_nat n)" "list_ex is_digit_byte t"
    using assms c by (auto simp: parse_numeric_def)
  moreover have "CHR '','' \<notin> set t" unfolding t_def by (rule show_radix_plain) (simp_all add: byte_def)
  then have "split_on CHR '','' t = [t]" by (rule split_on_none)
  moreover have "t \<noteq> []" by (simp add: c)
  ultimately show ?thesis using \<open>trim t = t\<close> unfolding t_def [symmetric] by (simp add: parse_chmod_def)
qed

text \<open>A second plus sign before octal digits is accepted.\<close>

lemma double_plus: "parse_op ''++644'' = Inr CHR ''+'' \<and> from_str_radix (2 ^ 32) 8 ''+644'' = from_str_radix (2 ^ 32) 8 ''644''"
  by (simp add: parse_op_def from_str_radix_def)

lemma parse_chmod_proper_witness: "proper_mode 0x1ED"
proof -
  have "show_radix 8 493 = ''755''" by code_simp
  then have "parse_chmod 0 ''755'' False 0 = Inr 0x1ED" using octal_text_round_trip [of 493 0 0] by simp
  moreover have "proper_mode 0" by (simp add: proper_mode_def)
  ultimately show ?thesis by (rule parse_chmod_proper)
qed

end
