(* ===== verification/Uu_Version.thy ===== *)
theory Uu_Version
  imports Uu_Num "HOL-Library.List_Lexorder" "HOL-Library.Product_Lexorder"
begin

text \<open>
  Comparison of version strings (\<open>stubs/uucore/src/lib/features/version_cmp.rs\<close>).  The main loop is shown to compare the
  sequences of the parts, each a text and a number, in the lexicographic order of the library.
\<close>

section \<open>Comparisons\<close>

definition compare :: "'a :: linorder \<Rightarrow> 'a \<Rightarrow> cmp" where
  "compare x y = (if x < y then Less else if x = y then Equal else Greater)"

definition compare_bytes :: "bytes \<Rightarrow> bytes \<Rightarrow> cmp" where
  "compare_bytes a b = compare (map byte a) (map byte b)"

definition is_ascii_alpha :: "char \<Rightarrow> bool" where
  "is_ascii_alpha c \<longleftrightarrow> between 65 90 (byte c) \<or> between 97 122 (byte c)"

definition is_ascii_num :: "char \<Rightarrow> bool" where
  "is_ascii_num c \<longleftrightarrow> between 48 57 (byte c)"

text \<open>The part without digits.\<close>

fun non_digit_cmp :: "bytes \<Rightarrow> bytes \<Rightarrow> cmp" where
  "non_digit_cmp [] [] = Equal"
| "non_digit_cmp [] (d # ds) = (if d = CHR ''~'' then Greater else Less)"
| "non_digit_cmp (c # cs) [] = (if c = CHR ''~'' then Less else Greater)"
| "non_digit_cmp (c # cs) (d # ds) =
     (if c = d then non_digit_cmp cs ds
      else if d = CHR ''~'' then Greater
      else if c = CHR ''~'' then Less
      else if is_ascii_alpha c \<and> \<not> is_ascii_alpha d then Less
      else if \<not> is_ascii_alpha c \<and> is_ascii_alpha d then Greater
      else compare (byte c) (byte d))"

text \<open>The start of the ending, when there is one, and whether the last byte was a dot.\<close>

fun ending_loop :: "nat \<Rightarrow> nat option \<Rightarrow> bool \<Rightarrow> bytes \<Rightarrow> nat option \<times> bool" where
  "ending_loop idx start prev [] = (start, prev)"
| "ending_loop idx start prev (c # s) =
     (if c = CHR ''.'' then ending_loop (idx + 1) (if start = None \<or> prev then Some idx else start) True s
      else if prev then
        ending_loop (idx + 1) (if \<not> is_ascii_alpha c \<and> c \<noteq> CHR ''~'' then None else start) False s
      else
        ending_loop (idx + 1) (if \<not> is_ascii_alpha c \<and> \<not> is_ascii_num c \<and> c \<noteq> CHR ''~'' then None else start) False s)"

definition remove_file_ending :: "bytes \<Rightarrow> bytes" where
  "remove_file_ending a =
     (case ending_loop 0 None False a of
        (Some n, False) \<Rightarrow> take n a
      | _ \<Rightarrow> a)"

section \<open>The main loop\<close>

definition text_part :: "bytes \<Rightarrow> bytes" where "text_part s = takeWhile (\<lambda>c. \<not> is_ascii_num c) s"
definition from_digit :: "bytes \<Rightarrow> bytes" where "from_digit s = dropWhile (\<lambda>c. \<not> is_ascii_num c) s"
definition digit_part :: "bytes \<Rightarrow> bytes" where "digit_part s = takeWhile is_ascii_num s"

definition significant :: "bytes \<Rightarrow> bytes" where
  "significant s = dropWhile (\<lambda>c. c = CHR ''0'') (digit_part s)"

definition after_part :: "bytes \<Rightarrow> bytes" where
  "after_part s = dropWhile is_ascii_num (from_digit s)"

lemma after_part_less: "s \<noteq> [] \<Longrightarrow> length (after_part s) < length s"
proof (cases s)
  case (Cons c cs)
  have "length (dropWhile P cs) \<le> length cs" for P :: "char \<Rightarrow> bool" by (rule length_dropWhile_le)
  then show ?thesis using Cons length_dropWhile_le [of is_ascii_num "dropWhile (\<lambda>c. \<not> is_ascii_num c) cs"]
    by (auto simp: after_part_def from_digit_def intro: le_less_trans)
qed simp

lemma after_part_Nil [simp]: "after_part [] = []"
  by (simp add: after_part_def from_digit_def)

function version_loop :: "bytes \<Rightarrow> bytes \<Rightarrow> cmp" where
  "version_loop a b =
     (if a = [] \<and> b = [] then Equal
      else
        case non_digit_cmp (text_part a) (text_part b) of
          Equal \<Rightarrow>
            (let x = significant (from_digit a); y = significant (from_digit b) in
             case compare (length x) (length y) of
               Equal \<Rightarrow> (case compare_bytes x y of Equal \<Rightarrow> version_loop (after_part a) (after_part b) | r \<Rightarrow> r)
             | r \<Rightarrow> r)
        | r \<Rightarrow> r)"
  by pat_completeness auto
termination
proof (relation "measure (\<lambda>(a, b). length a + length b)", goal_cases)
  case (2 a b)
  then have "a \<noteq> [] \<or> b \<noteq> []" by blast
  then show ?case using after_part_less [of a] after_part_less [of b] by (cases "a = []"; cases "b = []") auto
qed simp

declare version_loop.simps [simp del]

definition version_cmp :: "bytes \<Rightarrow> bytes \<Rightarrow> cmp" where
  "version_cmp a b =
     (if a = b then Equal
      else if a = [] then Less
      else if b = [] then Greater
      else if a = ''.'' then Less
      else if b = ''.'' then Greater
      else if a = ''..'' then Less
      else if b = ''..'' then Greater
      else if hd a = CHR ''.'' \<and> hd b \<noteq> CHR ''.'' then Less
      else if hd a \<noteq> CHR ''.'' \<and> hd b = CHR ''.'' then Greater
      else
        let (a, b) = (if hd a = CHR ''.'' \<and> hd b = CHR ''.'' then (tl a, tl b) else (a, b));
            x = remove_file_ending a; y = remove_file_ending b
        in if x = y then version_loop a b else version_loop x y)"

section \<open>Keys\<close>

text \<open>The rank of a byte of a text part: the tilde before the end, the end before letters, letters before the rest.\<close>

definition rank :: "char \<Rightarrow> nat" where
  "rank c = (if c = CHR ''~'' then 0 else if is_ascii_alpha c then 2 + byte c else 258 + byte c)"

definition text_key :: "bytes \<Rightarrow> nat list" where
  "text_key s = map rank s @ [1]"

definition number_key :: "bytes \<Rightarrow> nat" where
  "number_key s = the (digits_val 10 0 (digit_part s))"

text \<open>The first parts of a version; after its end, parts with nothing in them.\<close>

fun version_key :: "nat \<Rightarrow> bytes \<Rightarrow> (nat list \<times> nat) list" where
  "version_key 0 s = []"
| "version_key (Suc k) s = (text_key (text_part s), number_key (from_digit s)) # version_key k (after_part s)"

lemma rank_inj: "rank c = rank d \<longleftrightarrow> c = d"
proof -
  have "byte c < 256" "byte d < 256" by (simp_all add: byte_def)
  moreover have "byte c = byte d \<Longrightarrow> c = d" by (simp add: byte_def)
  ultimately show ?thesis by (auto simp: rank_def)
qed

lemma compare_simps [simp]:
  "compare x x = Equal" "compare x y = Less \<longleftrightarrow> x < y" "compare x y = Equal \<longleftrightarrow> x = y" "compare x y = Greater \<longleftrightarrow> y < x"
  by (auto simp: compare_def)

lemma compare_Cons:
  "compare (x # xs) (y # ys) = (case compare x y of Equal \<Rightarrow> compare xs ys | r \<Rightarrow> r)"
  by (auto simp: compare_def split: cmp.split)

lemma compare_Pair:
  "compare (a, b) (c, d) = (case compare a c of Equal \<Rightarrow> compare b d | r \<Rightarrow> r)"
  by (auto simp: compare_def split: cmp.split)

lemma compare_eqI: "(a < b \<longleftrightarrow> c < d) \<Longrightarrow> (a = b \<longleftrightarrow> c = d) \<Longrightarrow> compare a b = compare c d"
  by (simp add: compare_def)

lemma compare_rank:
  assumes "c \<noteq> d"
  shows "compare (rank c) (rank d)
    = (if d = CHR ''~'' then Greater else if c = CHR ''~'' then Less
       else if is_ascii_alpha c \<and> \<not> is_ascii_alpha d then Less
       else if \<not> is_ascii_alpha c \<and> is_ascii_alpha d then Greater
       else compare (byte c) (byte d))"
proof -
  have "byte c < 256" "byte d < 256" by (simp_all add: byte_def)
  moreover have "byte c \<noteq> byte d" using assms by (simp add: byte_def)
  ultimately show ?thesis using assms by (auto simp: rank_def compare_def)
qed

lemma non_digit_cmp_key: "non_digit_cmp a b = compare (text_key a) (text_key b)"
proof (induction a b rule: non_digit_cmp.induct)
  case (4 c cs d ds)
  show ?case
  proof (cases "c = d")
    case False
    then have "rank c \<noteq> rank d" by (simp add: rank_inj)
    then have "compare (text_key (c # cs)) (text_key (d # ds)) = compare (rank c) (rank d)"
      by (simp add: text_key_def compare_Cons split: cmp.split) (simp add: compare_def)
    then show ?thesis using compare_rank [OF False] False by (simp only: non_digit_cmp.simps if_False)
  qed (use 4 in \<open>simp add: text_key_def compare_Cons\<close>)
qed (auto simp: text_key_def compare_Cons rank_def compare_def[of "_ :: nat"] split: cmp.split)

subsection \<open>Numbers\<close>

fun digits_value :: "bytes \<Rightarrow> nat" where
  "digits_value [] = 0"
| "digits_value (c # s) = (byte c - 48) * 10 ^ length s + digits_value s"

abbreviation all_num :: "bytes \<Rightarrow> bool" where "all_num s \<equiv> list_all is_ascii_num s"

lemma digits_val_value: "all_num s \<Longrightarrow> digits_val 10 acc s = Some (acc * 10 ^ length s + digits_value s)"
proof (induction s arbitrary: acc)
  case (Cons c s)
  have "to_digit 10 c = Some (byte c - 48)"
    using Cons.prems by (auto simp: is_ascii_num_def between_def to_digit_def digit_val_def Let_def)
  then show ?case using Cons by (simp add: algebra_simps)
qed simp

lemma digits_value_less: "all_num s \<Longrightarrow> digits_value s < 10 ^ length s"
proof (induction s)
  case (Cons c s)
  then have "byte c - 48 \<le> 9" "digits_value s < 10 ^ length s" by (auto simp: is_ascii_num_def between_def)
  then have "(byte c - 48) * 10 ^ length s \<le> 9 * 10 ^ length s" by (intro mult_le_mono1)
  then show ?case using \<open>digits_value s < 10 ^ length s\<close>
    by (simp only: digits_value.simps list.size power_Suc add_Suc_right add_0_right)
qed simp

lemma digits_value_zeros: "digits_value (dropWhile (\<lambda>c. c = CHR ''0'') s) = digits_value s"
  by (induction s) (simp_all add: byte_def)

lemma digits_value_least:
  assumes "all_num s" "s \<noteq> []" "hd s \<noteq> CHR ''0''"
  shows "10 ^ (length s - 1) \<le> digits_value s"
proof -
  obtain c t where s: "s = c # t" using assms(2) by (cases s) auto
  have "byte c \<noteq> byte CHR ''0''" using assms(3) unfolding s byte_def list.sel of_char_eq_iff .
  then have "1 \<le> byte c - 48" using assms(1) by (auto simp: s is_ascii_num_def between_def byte_def)
  then have "1 * 10 ^ length t \<le> (byte c - 48) * 10 ^ length t" by (rule mult_le_mono1)
  then have "10 ^ length t \<le> (byte c - 48) * 10 ^ length t + digits_value t" by linarith
  then show ?thesis by (simp add: s)
qed

lemma same_length_compare:
  "length x = length y \<Longrightarrow> all_num x \<Longrightarrow> all_num y \<Longrightarrow> compare_bytes x y = compare (digits_value x) (digits_value y)"
proof (induction x y rule: list_induct2)
  case (Cons c x d y)
  let ?p = "10 ^ length y :: nat"
  have less: "digits_value x < ?p" "digits_value y < ?p"
    using digits_value_less [of x] digits_value_less [of y] Cons by simp_all
  consider "byte c < byte d" | "byte c = byte d" | "byte d < byte c" by linarith
  then show ?case
  proof cases
    case 1
    then have "byte c - 48 + 1 \<le> byte d - 48" using Cons.prems by (auto simp: is_ascii_num_def between_def)
    then have "(byte c - 48 + 1) * ?p \<le> (byte d - 48) * ?p" by (rule mult_le_mono1)
    then have "digits_value (c # x) < digits_value (d # y)" using less Cons.hyps by (simp add: algebra_simps)
    then show ?thesis using 1 by (simp add: compare_bytes_def compare_Cons compare_def)
  next
    case 2
    then show ?thesis using Cons by (simp add: compare_bytes_def compare_Cons) (simp add: compare_def)
  next
    case 3
    then have "byte d - 48 + 1 \<le> byte c - 48" using Cons.prems by (auto simp: is_ascii_num_def between_def)
    then have "(byte d - 48 + 1) * ?p \<le> (byte c - 48) * ?p" by (rule mult_le_mono1)
    then have "digits_value (d # y) < digits_value (c # x)" using less Cons.hyps by (simp add: algebra_simps)
    then show ?thesis using 3 by (simp add: compare_bytes_def compare_Cons compare_def)
  qed
qed (simp add: compare_bytes_def)

lemma digit_compare:
  assumes "all_num x" "all_num y" "x \<noteq> [] \<Longrightarrow> hd x \<noteq> CHR ''0''" "y \<noteq> [] \<Longrightarrow> hd y \<noteq> CHR ''0''"
  shows "(case compare (length x) (length y) of Equal \<Rightarrow> compare_bytes x y | r \<Rightarrow> r)
    = compare (digits_value x) (digits_value y)"
proof -
  have shorter: "digits_value a < digits_value b"
    if "length a < length b" "all_num a" "all_num b" "b \<noteq> [] \<Longrightarrow> hd b \<noteq> CHR ''0''" for a b
  proof -
    have "b \<noteq> []" using that(1) by auto
    have "digits_value a < 10 ^ length a" using digits_value_less that(2) by blast
    also have "\<dots> \<le> 10 ^ (length b - 1)" using that(1) by (intro power_increasing) auto
    also have "\<dots> \<le> digits_value b" using digits_value_least [of b] that \<open>b \<noteq> []\<close> by blast
    finally show ?thesis .
  qed
  consider "length x < length y" | "length x = length y" | "length y < length x" by linarith
  then show ?thesis
  proof cases
    case 1
    then have "digits_value x < digits_value y" using shorter assms by blast
    then show ?thesis using 1 by (simp add: compare_def)
  next
    case 2
    then show ?thesis using same_length_compare assms by simp
  next
    case 3
    then have "digits_value y < digits_value x" using shorter assms by blast
    then show ?thesis using 3 by (simp add: compare_def)
  qed
qed

lemma significant_compare:
  "(case compare (length (significant a)) (length (significant b)) of
      Equal \<Rightarrow> compare_bytes (significant a) (significant b) | r \<Rightarrow> r)
    = compare (number_key a) (number_key b)"
proof -
  have num: "all_num (digit_part s)" for s
    unfolding list_all_iff digit_part_def by (blast dest: set_takeWhileD)
  have sig: "all_num (significant s)" for s
    using num [of s] unfolding list_all_iff significant_def by (blast dest: set_dropWhileD)
  have head: "hd (significant s) \<noteq> CHR ''0''" if "significant s \<noteq> []" for s
    using hd_dropWhile [OF that [unfolded significant_def]] unfolding significant_def .
  have key: "number_key s = digits_value (significant s)" for s
    using digits_val_value [OF num, of 0 s] by (simp add: number_key_def significant_def digits_value_zeros)
  show ?thesis unfolding key by (rule digit_compare [OF sig sig head head])
qed

lemma version_key_Nil: "version_key k [] = replicate k ([1], 0)"
  by (induction k) (simp_all add: text_key_def text_part_def number_key_def from_digit_def digit_part_def)

lemma version_loop_step:
  assumes "\<not> (a = [] \<and> b = [])"
  shows "version_loop a b
    = (case compare (text_key (text_part a)) (text_key (text_part b)) of
         Equal \<Rightarrow>
           (case compare (number_key (from_digit a)) (number_key (from_digit b)) of
              Equal \<Rightarrow> version_loop (after_part a) (after_part b)
            | r \<Rightarrow> r)
       | r \<Rightarrow> r)"
proof -
  have if_not: "version_loop a b = (case non_digit_cmp (text_part a) (text_part b) of
      Equal \<Rightarrow> (let x = significant (from_digit a); y = significant (from_digit b) in
         case compare (length x) (length y) of
           Equal \<Rightarrow> (case compare_bytes x y of Equal \<Rightarrow> version_loop (after_part a) (after_part b) | r \<Rightarrow> r)
         | r \<Rightarrow> r)
    | r \<Rightarrow> r)"
    using assms by (simp only: version_loop.simps [of a b] if_False)
  show ?thesis
    unfolding if_not significant_compare [symmetric] non_digit_cmp_key Let_def
    by (cases "compare (text_key (text_part a)) (text_key (text_part b))";
        cases "compare (length (significant (from_digit a))) (length (significant (from_digit b)))";
        simp only: cmp.case)
qed

lemma version_key_step:
  "compare (version_key (Suc j) a) (version_key (Suc j) b)
    = (case compare (text_key (text_part a)) (text_key (text_part b)) of
         Equal \<Rightarrow>
           (case compare (number_key (from_digit a)) (number_key (from_digit b)) of
              Equal \<Rightarrow> compare (version_key j (after_part a)) (version_key j (after_part b))
            | r \<Rightarrow> r)
       | r \<Rightarrow> r)"
  unfolding version_key.simps compare_Cons compare_Pair
  by (cases "compare (text_key (text_part a)) (text_key (text_part b))"; simp only: cmp.case)

text \<open>Claim C36: the main loop compares two versions as the lexicographic order compares their parts: each a text, whose
  bytes are ranked tilde, end, letters, other bytes, and then a number of any size; the end of a version stands for
  empty parts.  So the loop is a total preorder.\<close>

theorem version_loop_lexicographic:
  "length a \<le> k \<Longrightarrow> length b \<le> k \<Longrightarrow> version_loop a b = compare (version_key k a) (version_key k b)"
proof (induction k arbitrary: a b)
  case 0
  then show ?case by (simp add: version_loop.simps)
next
  case (Suc j)
  have shorter: "length s \<le> Suc j \<Longrightarrow> length (after_part s) \<le> j" for s
    using after_part_less [of s] by (cases "s = []") auto
  show ?case
  proof (cases "a = [] \<and> b = []")
    case True
    then show ?thesis by (simp add: version_loop.simps)
  next
    case False
    have "version_loop (after_part a) (after_part b) = compare (version_key j (after_part a)) (version_key j (after_part b))"
      using Suc shorter by blast
    then show ?thesis by (simp only: version_loop_step [OF False] version_key_step)
  qed
qed

lemma version_loop_lexicographic_witness:
  "version_loop ''a9'' ''a10'' = compare (version_key 3 ''a9'') (version_key 3 ''a10'') \<and> version_loop ''a9'' ''a10'' = Less"
proof -
  have num: "is_ascii_num CHR ''0''" "is_ascii_num CHR ''1''" "is_ascii_num CHR ''9''" "\<not> is_ascii_num CHR ''a''"
    by (simp_all add: is_ascii_num_def between_def byte_def)
  have "version_loop ''a9'' ''a10'' = Less"
    by (simp add: version_loop.simps [of "CHR ''a'' # _"] text_part_def from_digit_def digit_part_def significant_def num)
      (simp add: compare_def)
  then show ?thesis using version_loop_lexicographic [of "''a9''" 3 "''a10''"] by simp
qed

text \<open>An ending is stripped when the names without their endings differ as bytes, though they may be the same version:
  so the comparison of names with endings is not transitive.\<close>

lemma version_cmp_not_transitive:
  "version_cmp ''a1.b'' ''a01.z'' = Equal" "version_cmp ''a01.z'' ''a1.c'' = Equal" "version_cmp ''a1.b'' ''a1.c'' = Less"
proof -
  have ending: "remove_file_ending (s @ [CHR ''.'', c]) = s" if "s \<in> {''a1'', ''a01''}" "is_ascii_alpha c" "c \<noteq> CHR ''.''" for s c
    using that by (auto simp: remove_file_ending_def is_ascii_alpha_def is_ascii_num_def between_def byte_def)
  have alpha: "is_ascii_alpha CHR ''b''" "is_ascii_alpha CHR ''c''" "is_ascii_alpha CHR ''z''"
    by (simp_all add: is_ascii_alpha_def between_def byte_def)
  have strip: "remove_file_ending ''a1.b'' = ''a1''" "remove_file_ending ''a1.c'' = ''a1''" "remove_file_ending ''a01.z'' = ''a01''"
    using ending [of "''a1''"] ending [of "''a01''"] alpha by simp_all
  have num: "is_ascii_num CHR ''0''" "is_ascii_num CHR ''1''" "\<not> is_ascii_num CHR ''a''" "\<not> is_ascii_num CHR ''.''"
      "\<not> is_ascii_num CHR ''b''" "\<not> is_ascii_num CHR ''c''"
    by (simp_all add: is_ascii_num_def between_def byte_def)
  note parts = text_part_def from_digit_def digit_part_def significant_def after_part_def num compare_bytes_def
  have same: "version_loop ''a1'' ''a01'' = Equal" "version_loop ''a01'' ''a1'' = Equal"
    by (simp_all add: version_loop.simps [of "CHR ''a'' # _"] version_loop.simps [of "[]" "[]"] parts)
  have "version_loop ''a1.b'' ''a1.c'' = Less"
    by (simp add: version_loop.simps [of "CHR ''a'' # _"] version_loop.simps [of "CHR ''.'' # _"] parts alpha)
      (simp add: compare_def byte_def)
  then show "version_cmp ''a1.b'' ''a01.z'' = Equal" "version_cmp ''a01.z'' ''a1.c'' = Equal" "version_cmp ''a1.b'' ''a1.c'' = Less"
    using same strip by (simp_all add: version_cmp_def)
qed

end
