(* ===== verification/Uu_Sum.thy ===== *)
theory Uu_Sum
  imports RustStr "HOL-Library.Word"
begin

text \<open>
  Digests (\<open>stubs/uucore/src/lib/features/sum.rs\<close>): the outputs, the two sums the crate computes itself, the length
  that the POSIX checksum appends, the bits a SHAKE output keeps, and the writer that feeds a digest.  An update in pieces
  is shown to be one update (locale \<open>chunked_update\<close>), through the writer and its change of line ends too.
\<close>

unbundle bit_operations_syntax

type_synonym u16 = "16 word"

section \<open>Outputs\<close>

datatype digest_output = DigestVec bytes | DigestCrc "32 word" | DigestU16 u16

text \<open>Big-endian bytes.\<close>

definition be_bytes :: "nat \<Rightarrow> nat \<Rightarrow> bytes" where
  "be_bytes k n = map (\<lambda>i. char_of (n div 256 ^ i)) (rev [0..<k])"

fun write_raw :: "digest_output \<Rightarrow> bytes" where
  "write_raw (DigestVec buf) = buf"
| "write_raw (DigestCrc n) = be_bytes 4 (unat n)"
| "write_raw (DigestU16 n) = be_bytes 2 (unat n)"

text \<open>An encoding of a digest; the legacy outputs have none.\<close>

fun encode_output :: "(bytes \<Rightarrow> bytes) \<Rightarrow> digest_output \<Rightarrow> bytes + bytes" where
  "encode_output enc (DigestVec buf) = Inr (enc buf)"
| "encode_output enc _ = Inl ''Legacy output cannot be encoded''"

section \<open>Sums\<close>

definition bsd_byte :: "u16 \<Rightarrow> char \<Rightarrow> u16" where
  "bsd_byte s b = (drop_bit 1 s + push_bit 15 (s AND 1)) + word_of_nat (byte b)"

definition bsd_update :: "u16 \<Rightarrow> bytes \<Rightarrow> u16" where
  "bsd_update s input = foldl bsd_byte s input"

definition bsd_result :: "u16 \<Rightarrow> digest_output" where
  "bsd_result s = DigestU16 s"

definition sysv_update :: "32 word \<Rightarrow> bytes \<Rightarrow> 32 word" where
  "sysv_update s input = foldl (\<lambda>s b. s + word_of_nat (byte b)) s input"

definition sysv_fold :: "32 word \<Rightarrow> 32 word" where
  "sysv_fold s = (s AND 0xFFFF) + drop_bit 16 s"

text \<open>The state after the result, and the result.\<close>

definition sysv_finalize :: "32 word \<Rightarrow> 32 word" where
  "sysv_finalize s = sysv_fold (sysv_fold s)"

definition sysv_result :: "32 word \<Rightarrow> 32 word \<times> digest_output" where
  "sysv_result s = (let s' = sysv_finalize s in (s', DigestU16 (ucast (s' AND 0xFFFF))))"

text \<open>The bytes of the length that follow the data in the POSIX checksum, the lowest first.\<close>

fun size_bytes :: "nat \<Rightarrow> bytes" where
  "size_bytes n = (if n = 0 then [] else char_of n # size_bytes (n div 256))"

declare size_bytes.simps [simp del]

definition posix_crc :: "(bytes \<Rightarrow> nat) \<Rightarrow> bytes \<Rightarrow> digest_output" where
  "posix_crc crc input = DigestCrc (word_of_nat (crc (input @ size_bytes (length input))))"

definition iso_crc :: "(bytes \<Rightarrow> nat) \<Rightarrow> bytes \<Rightarrow> digest_output" where
  "iso_crc crc input = DigestCrc (word_of_nat (crc input))"

text \<open>An extendable output of a number of bits: whole bytes, the last one with its low bits.\<close>

definition shake_result :: "(nat \<Rightarrow> bytes \<Rightarrow> bytes) \<Rightarrow> nat \<Rightarrow> bytes \<Rightarrow> digest_output" where
  "shake_result xof bits input =
     (let n = (bits + 7) div 8; out = xof n input; extra = bits mod 8
      in DigestVec (if extra \<noteq> 0 then butlast out @ [char_of (byte (last out) mod 2 ^ extra)] else out))"

section \<open>The writer\<close>

text \<open>A digest that is fed: its state, and whether a carriage return waits for the next byte.  Only the writer of
  Windows in text mode holds one back.\<close>

type_synonym 's writer = "'s \<times> bool"

text \<open>The pieces between the carriage returns that a line feed follows.\<close>

fun crlf_pieces :: "bytes \<Rightarrow> bytes list" where
  "crlf_pieces [] = [[]]"
| "crlf_pieces (c # s) =
     (if c = CR \<and> s \<noteq> [] \<and> hd s = NL then [] # crlf_pieces s
      else (c # hd (crlf_pieces s)) # tl (crlf_pieces s))"

definition text_write :: "('s \<Rightarrow> bytes \<Rightarrow> 's) \<Rightarrow> 's writer \<Rightarrow> bytes \<Rightarrow> 's writer" where
  "text_write update w buf =
     (let (s, waiting) = w;
          s1 = (if waiting \<and> buf \<noteq> [] \<and> hd buf \<noteq> NL then update s [CR] else s);
          s2 = foldl update s1 (butlast (crlf_pieces buf));
          rest = last (crlf_pieces buf)
      in if buf \<noteq> [] \<and> last buf = CR then (update s2 (butlast rest), True) else (update s2 rest, False))"

definition writer_write :: "bool \<Rightarrow> bool \<Rightarrow> ('s \<Rightarrow> bytes \<Rightarrow> 's) \<Rightarrow> 's writer \<Rightarrow> bytes \<Rightarrow> 's writer" where
  "writer_write windows binary update w buf =
     (if windows \<and> \<not> binary then text_write update w buf else (update (fst w) buf, snd w))"

definition writer_finalize :: "('s \<Rightarrow> bytes \<Rightarrow> 's) \<Rightarrow> 's writer \<Rightarrow> 's" where
  "writer_finalize update w = (if snd w then update (fst w) [CR] else fst w)"

text \<open>The reading of \<open>digest_reader\<close>, from the pieces a reader gives: the state and the size.\<close>

definition read_digest :: "bool \<Rightarrow> bool \<Rightarrow> ('s \<Rightarrow> bytes \<Rightarrow> 's) \<Rightarrow> 's \<Rightarrow> bytes list \<Rightarrow> 's \<times> nat" where
  "read_digest windows binary update start pieces =
     (writer_finalize update (foldl (writer_write windows binary update) (start, False) pieces),
      length (concat pieces) mod 2 ^ 32)"

text \<open>A text with line feeds as line ends.\<close>

fun unix_lines :: "bytes \<Rightarrow> bytes" where
  "unix_lines [] = []"
| "unix_lines (c # s) = (if c = CR \<and> s \<noteq> [] \<and> hd s = NL then unix_lines s else c # unix_lines s)"

section \<open>Updates in pieces\<close>

text \<open>A text that ends with a carriage return, and the text without it.\<close>

definition held :: "bytes \<Rightarrow> bool" where
  "held t \<longleftrightarrow> t \<noteq> [] \<and> last t = CR"

definition unheld :: "bytes \<Rightarrow> bytes" where
  "unheld t = (if held t then butlast t else t)"

lemma crlf_pieces_not_Nil [simp]: "crlf_pieces b \<noteq> []"
  by (cases b) simp_all

lemma concat_crlf_pieces: "concat (crlf_pieces b) = unix_lines b"
proof (induction b)
  case (Cons c b)
  obtain p ps where "crlf_pieces b = p # ps" by (cases "crlf_pieces b") simp_all
  then show ?case using Cons by auto
qed simp

lemma last_crlf_piece: "b \<noteq> [] \<Longrightarrow> held b \<Longrightarrow> last (crlf_pieces b) \<noteq> []"
proof (induction b)
  case (Cons c b)
  then show ?case
    by (cases "crlf_pieces b"; cases "b = []") (auto simp: held_def)
qed simp

lemma unix_lines_held: "held t \<Longrightarrow> unix_lines t = unix_lines (butlast t) @ [CR]"
proof (induction t)
  case (Cons c t)
  then show ?case by (cases t; cases "tl t = []") (auto simp: held_def)
qed (simp add: held_def)

lemma unix_lines_append:
  "b \<noteq> [] \<Longrightarrow> unix_lines (t @ b) = unix_lines (unheld t) @ (if held t \<and> hd b \<noteq> NL then [CR] else []) @ unix_lines b"
proof (induction t)
  case (Cons c t)
  then show ?case by (cases t; cases "tl t = []") (auto simp: held_def unheld_def)
qed (simp add: held_def unheld_def)

lemma unix_lines_unheld:
  assumes "b \<noteq> []"
  shows "unix_lines (unheld (t @ b)) = unix_lines (unheld t) @ (if held t \<and> hd b \<noteq> NL then [CR] else []) @ unix_lines (unheld b)"
proof (cases "held b")
  case True
  then have "held (t @ b)" using assms by (simp add: held_def)
  then show ?thesis
    using unix_lines_append [OF assms, of t] unix_lines_held [of b] unix_lines_held [of "t @ b"] True
    by (simp add: unheld_def)
next
  case False
  then show ?thesis using unix_lines_append [OF assms, of t] assms by (simp add: held_def unheld_def)
qed

locale chunked_update =
  fixes update :: "'s \<Rightarrow> bytes \<Rightarrow> 's"
  assumes update_Nil [simp]: "update s [] = s"
    and update_append: "update s (a @ b) = update (update s a) b"
begin

lemma update_pieces: "foldl update s pieces = update s (concat pieces)"
  by (induction pieces arbitrary: s) (simp_all add: update_append)

lemma plain_writes:
  assumes "\<not> (windows \<and> \<not> binary)"
  shows "foldl (writer_write windows binary update) w pieces = (update (fst w) (concat pieces), snd w)"
proof -
  have "writer_write windows binary update = (\<lambda>w b. (update (fst w) b, snd w))"
    using assms by (auto simp: writer_write_def fun_eq_iff)
  then show ?thesis by (induction pieces arbitrary: w) (simp_all add: update_append)
qed

lemma text_write_state:
  assumes "b \<noteq> []"
  shows "text_write update (update s (unix_lines (unheld t)), held t) b = (update s (unix_lines (unheld (t @ b))), held (t @ b))"
proof -
  define r where "r = last (crlf_pieces b)"
  have whole: "unix_lines b = concat (butlast (crlf_pieces b)) @ r"
    by (metis r_def append_butlast_last_id concat.simps concat_append concat_crlf_pieces crlf_pieces_not_Nil append_Nil2)
  have tail: "concat (butlast (crlf_pieces b)) @ (if held b then butlast r else r) = unix_lines (unheld b)"
    using whole last_crlf_piece [OF assms] unix_lines_held [of b]
    by (auto simp: unheld_def r_def) (metis butlast_append butlast_snoc)
  have held: "held (t @ b) = held b" "(b \<noteq> [] \<and> last b = CR) = held b" using assms by (simp_all add: held_def)
  show ?thesis using assms
    unfolding text_write_def Let_def prod.case r_def [symmetric] held unix_lines_unheld [OF assms] tail [symmetric]
    by (auto simp: update_pieces update_append)
qed

lemma text_writes:
  "[] \<notin> set pieces \<Longrightarrow>
     foldl (text_write update) (update s (unix_lines (unheld t)), held t) pieces
     = (update s (unix_lines (unheld (t @ concat pieces))), held (t @ concat pieces))"
proof (induction pieces arbitrary: t)
  case (Cons p ps)
  then have "p \<noteq> []" "[] \<notin> set ps" by auto
  then show ?case by (simp add: text_write_state Cons.IH)
qed simp

text \<open>What is read in any pieces gives the digest of the whole, with line feeds as line ends in the text mode of
  Windows.\<close>

lemma read_digest_whole:
  assumes "[] \<notin> set pieces"
  shows "fst (read_digest windows binary update start pieces)
    = update start (if windows \<and> \<not> binary then unix_lines (concat pieces) else concat pieces)"
proof (cases "windows \<and> \<not> binary")
  case True
  then have "writer_write windows binary update = text_write update" by (simp add: writer_write_def fun_eq_iff)
  moreover have "foldl (text_write update) (start, False) pieces
      = (update start (unix_lines (unheld (concat pieces))), held (concat pieces))"
    using text_writes [OF assms, of start "[]"] by (simp add: held_def unheld_def)
  ultimately show ?thesis using True unix_lines_held [of "concat pieces"]
    by (simp add: read_digest_def writer_finalize_def update_append [symmetric] unheld_def)
next
  case False
  then show ?thesis using plain_writes [OF False, of "(start, False)" pieces]
    by (auto simp: read_digest_def writer_finalize_def)
qed

end

interpretation bsd: chunked_update bsd_update
  by unfold_locales (simp_all add: bsd_update_def)

interpretation sysv: chunked_update sysv_update
  by unfold_locales (simp_all add: sysv_update_def)

text \<open>An empty write forgets the carriage return that waits.\<close>

lemma empty_write_forgets:
  "fst (read_digest True False (@) [] [[CR], [], ''a'']) = ''a'' \<and> fst (read_digest True False (@) [] [[CR], ''a'']) = CR # ''a''"
  by (simp add: read_digest_def writer_write_def text_write_def writer_finalize_def)

text \<open>The two folds of the sum leave it modulo 65535, with 65535 for a multiple of it that is not zero.\<close>

lemma sysv_update_sum: "unat (sysv_update s input) = (unat s + sum_list (map byte input)) mod 2 ^ 32"
proof (induction input arbitrary: s)
  case Nil
  have "unat s < 2 ^ 32" using unsigned_less [of s] by simp
  then show ?case by (simp add: sysv_update_def)
next
  case (Cons c input)
  have "sysv_update s (c # input) = sysv_update (s + word_of_nat (byte c)) input" by (simp add: sysv_update_def)
  then show ?case using Cons [of "s + word_of_nat (byte c)"]
    by (simp add: unat_word_ariths unat_of_nat mod_simps add.assoc)
qed

lemma low_half: "unat (s AND 0xFFFF :: 32 word) = unat s mod 65536"
proof -
  have "s AND 0xFFFF = take_bit 16 s" by (simp add: take_bit_eq_mask mask_eq_exp_minus_1)
  moreover have "unat (take_bit 16 s) = take_bit 16 (unat s)" by (rule unsigned_take_bit_eq)
  ultimately show ?thesis by (simp add: take_bit_nat_def)
qed

lemma fold_value: "unat (sysv_fold s) = unat s mod 65536 + unat s div 65536"
proof -
  have "unat (drop_bit 16 s) = drop_bit 16 (unat s)" by (rule unat_drop_bit_eq)
  then have high: "unat (drop_bit 16 s) = unat s div 65536" by (simp only: drop_bit_nat_def) simp
  have "unat s < 2 ^ 32" using unsigned_less [of s] by simp
  then have "unat s mod 65536 + unat s div 65536 < 2 ^ 32" by simp
  then show ?thesis by (simp only: sysv_fold_def unat_word_ariths low_half high) simp
qed

lemma fold_twice:
  fixes x :: nat
  assumes "x < 2 ^ 32"
  defines "y \<equiv> x mod 65536 + x div 65536"
  shows "y mod 65536 + y div 65536 = (if x = 0 then 0 else (x - 1) mod 65535 + 1)"
proof -
  define a b q r where "a = x mod 65536" "b = x div 65536" "q = y div 65536" "r = y mod 65536"
  note d = this
  have x: "x = 65536 * b + a" and y: "y = 65536 * q + r" "y = a + b" by (simp_all add: d y_def)
  have "a \<le> 65535" "r \<le> 65535" by (simp_all add: d less_Suc_eq_le [symmetric])
  moreover have "b \<le> 65535" using assms(1) by (simp add: d less_Suc_eq_le [symmetric] less_mult_imp_div_less)
  ultimately have z: "r + q \<le> 65535" using y by linarith
  have zero: "r + q = 0 \<longleftrightarrow> x = 0" using x y by linarith
  show ?thesis
  proof (cases "x = 0")
    case False
    then have pos: "0 < r + q" using zero by linarith
    moreover have "x = (r + q) + 65535 * (b + q)" using x y unfolding distrib_left by linarith
    ultimately have "x - 1 = (r + q - 1) + 65535 * (b + q)" by linarith
    then have "(x - 1) mod 65535 = (r + q - 1) mod 65535" by (simp only: mod_mult_self2)
    then have "(x - 1) mod 65535 = r + q - 1" using z pos by simp
    then show ?thesis using False zero by (simp add: d)
  qed (use zero d in simp)
qed

lemma sysv_result_sum:
  fixes input :: bytes
  defines "x \<equiv> sum_list (map byte input) mod 2 ^ 32"
  shows "snd (sysv_result (sysv_update 0 input)) = DigestU16 (word_of_nat (if x = 0 then 0 else (x - 1) mod 65535 + 1))"
proof -
  define s where "s = sysv_update 0 input"
  define n where "n = (if x = 0 then 0 else (x - 1) mod 65535 + 1)"
  have "unat s = x" by (simp add: s_def x_def sysv_update_sum)
  moreover have "x < 2 ^ 32" by (simp add: x_def)
  ultimately have two: "unat (sysv_finalize s) = n"
    by (simp only: sysv_finalize_def fold_value fold_twice n_def)
  have "(x - 1) mod 65535 < 65535" by (rule mod_less_divisor) simp
  then have "n < 65536" by (simp add: n_def)
  then have low: "unat (sysv_finalize s AND 0xFFFF) = n" unfolding low_half two by (rule mod_less)
  have "(ucast (sysv_finalize s AND 0xFFFF) :: u16) = word_of_nat n" unfolding low [symmetric] by (rule of_nat_unat [symmetric])
  then show ?thesis unfolding sysv_result_def Let_def snd_conv s_def [symmetric] n_def by (rule arg_cong)
qed

end
