(* ===== verification/Uu_Cksum.thy ===== *)
theory Uu_Cksum
  imports Uu_Sum Uu_Size Uu_Quote
begin

text \<open>
  Checksum algorithms (\<open>stubs/uucore/src/lib/features/checksum/mod.rs\<close>): the kinds, their names, the lengths they
  accept, the names of files as the lines of a checksum file have them, and the digest of what a reader gives.  The
  hash functions, hexadecimal and the quotes of the messages are parameters.
\<close>

section \<open>Kinds of algorithms\<close>

datatype algo_kind =
    AkSysv | AkBsd | AkCrc | AkCrc32b | AkMd5 | AkSm3 | AkSha1 | AkSha2 | AkSha3 | AkBlake2b
  | AkSha224 | AkSha256 | AkSha384 | AkSha512 | AkShake128 | AkShake256 | AkBlake3

datatype checksum_error =
    RawMultipleFiles | CheckOnlyFlag bytes | LengthRequired bytes | InvalidLength bytes | LengthTooBigForBlake bytes
  | LengthNotMultipleOf8 | InvalidLengthForSha bytes | LengthRequiredForSha bytes | LengthOnlyForBlake2bSha2Sha3
  | BinaryTextConflict | TextWithoutUntagged | TagCheck | TextAfterTag | AlgorithmNotSupportedWithCheck
  | CombineMultipleAlgorithms | NeedAlgorithmToHash | UnknownAlgorithm bytes | ChecksumIo

fun checksum_error_text :: "(bytes \<Rightarrow> bytes) \<Rightarrow> checksum_error \<Rightarrow> bytes" where
  "checksum_error_text quote RawMultipleFiles = ''the --raw option is not supported with multiple files''"
| "checksum_error_text quote (CheckOnlyFlag s) = ''the --'' @ s @ '' option is meaningful only when verifying checksums''"
| "checksum_error_text quote (LengthRequired s) = ''--length required for '' @ quote s"
| "checksum_error_text quote (InvalidLength s) = ''invalid length: '' @ quote s"
| "checksum_error_text quote (LengthTooBigForBlake s) = ''maximum digest length for '' @ quote s @ '' is 512 bits''"
| "checksum_error_text quote LengthNotMultipleOf8 = ''length is not a multiple of 8''"
| "checksum_error_text quote (InvalidLengthForSha s) = ''digest length for '' @ quote s @ '' must be 224, 256, 384, or 512''"
| "checksum_error_text quote (LengthRequiredForSha s) =
     ''--algorithm='' @ s @ '' requires specifying --length 224, 256, 384, or 512''"
| "checksum_error_text quote LengthOnlyForBlake2bSha2Sha3 = ''--length is only supported with --algorithm blake2b, sha2, or sha3''"
| "checksum_error_text quote BinaryTextConflict = ''the --binary and --text options are meaningless when verifying checksums''"
| "checksum_error_text quote TextWithoutUntagged = ''--text mode is only supported with --untagged''"
| "checksum_error_text quote TagCheck = ''the --tag option is meaningless when verifying checksums''"
| "checksum_error_text quote TextAfterTag = ''--tag does not support --text mode''"
| "checksum_error_text quote AlgorithmNotSupportedWithCheck = ''--check is not supported with --algorithm={bsd,sysv,crc,crc32b}''"
| "checksum_error_text quote CombineMultipleAlgorithms = ''You cannot combine multiple hash algorithms!''"
| "checksum_error_text quote NeedAlgorithmToHash =
     ''Needs an algorithm to hash with.'' @ [NL] @ ''Use --help for more information.''"
| "checksum_error_text quote (UnknownAlgorithm s) = ''unknown algorithm: '' @ s @ '': clap should have prevented this case''"
| "checksum_error_text quote ChecksumIo = []"

definition cksum_algorithms :: "(bytes \<times> algo_kind) list" where
  "cksum_algorithms =
     [(''sysv'', AkSysv), (''bsd'', AkBsd), (''crc'', AkCrc), (''crc32b'', AkCrc32b), (''md5'', AkMd5), (''sha1'', AkSha1),
      (''sha2'', AkSha2), (''sha3'', AkSha3), (''blake2b'', AkBlake2b), (''sm3'', AkSm3), (''sha224'', AkSha224),
      (''sha256'', AkSha256), (''sha384'', AkSha384), (''sha512'', AkSha512), (''shake128'', AkShake128), (''shake256'', AkShake256)]"

definition from_cksum :: "bytes \<Rightarrow> checksum_error + algo_kind" where
  "from_cksum s = (case map_of cksum_algorithms s of Some k \<Rightarrow> Inr k | None \<Rightarrow> Inl (UnknownAlgorithm s))"

definition from_bin_name :: "bytes \<Rightarrow> checksum_error + algo_kind" where
  "from_bin_name s =
     (case map_of [(''md5sum'', AkMd5), (''sha1sum'', AkSha1), (''sha224sum'', AkSha224), (''sha256sum'', AkSha256),
        (''sha384sum'', AkSha384), (''sha512sum'', AkSha512), (''sha3sum'', AkSha3), (''b2sum'', AkBlake2b)] s of
        Some k \<Rightarrow> Inr k | None \<Rightarrow> Inl (UnknownAlgorithm s))"

fun algo_uppercase :: "algo_kind \<Rightarrow> bytes" where
  "algo_uppercase AkSysv = ''SYSV''"
| "algo_uppercase AkBsd = ''BSD''"
| "algo_uppercase AkCrc = ''CRC''"
| "algo_uppercase AkCrc32b = ''CRC32B''"
| "algo_uppercase AkMd5 = ''MD5''"
| "algo_uppercase AkSm3 = ''SM3''"
| "algo_uppercase AkSha1 = ''SHA1''"
| "algo_uppercase AkSha2 = ''SHA2''"
| "algo_uppercase AkSha3 = ''SHA3''"
| "algo_uppercase AkBlake2b = ''BLAKE2b''"
| "algo_uppercase AkSha224 = ''SHA224''"
| "algo_uppercase AkSha256 = ''SHA256''"
| "algo_uppercase AkSha384 = ''SHA384''"
| "algo_uppercase AkSha512 = ''SHA512''"
| "algo_uppercase AkShake128 = ''SHAKE128''"
| "algo_uppercase AkShake256 = ''SHAKE256''"
| "algo_uppercase AkBlake3 = ''BLAKE3''"

fun algo_lowercase :: "algo_kind \<Rightarrow> bytes" where
  "algo_lowercase AkSysv = ''sysv''"
| "algo_lowercase AkBsd = ''bsd''"
| "algo_lowercase AkCrc = ''crc''"
| "algo_lowercase AkCrc32b = ''crc32b''"
| "algo_lowercase AkMd5 = ''md5''"
| "algo_lowercase AkSm3 = ''sm3''"
| "algo_lowercase AkSha1 = ''sha1''"
| "algo_lowercase AkSha2 = ''sha2''"
| "algo_lowercase AkSha3 = ''sha3''"
| "algo_lowercase AkBlake2b = ''blake2b''"
| "algo_lowercase AkSha224 = ''sha224''"
| "algo_lowercase AkSha256 = ''sha256''"
| "algo_lowercase AkSha384 = ''sha384''"
| "algo_lowercase AkSha512 = ''sha512''"
| "algo_lowercase AkShake128 = ''shake128''"
| "algo_lowercase AkShake256 = ''shake256''"
| "algo_lowercase AkBlake3 = ''blake3''"

definition algo_is_legacy :: "algo_kind \<Rightarrow> bool" where
  "algo_is_legacy k \<longleftrightarrow> k \<in> {AkSysv, AkBsd, AkCrc, AkCrc32b}"

section \<open>Lengths\<close>

datatype sha_length = Len224 | Len256 | Len384 | Len512

fun sha_bits :: "sha_length \<Rightarrow> nat" where
  "sha_bits Len224 = 224"
| "sha_bits Len256 = 256"
| "sha_bits Len384 = 384"
| "sha_bits Len512 = 512"

definition sha_length_of :: "nat \<Rightarrow> sha_length option" where
  "sha_length_of n =
     (if n = 224 then Some Len224 else if n = 256 then Some Len256 else if n = 384 then Some Len384
      else if n = 512 then Some Len512 else None)"

definition sha_length_try_from :: "nat \<Rightarrow> checksum_error + sha_length" where
  "sha_length_try_from n = (case sha_length_of n of Some l \<Rightarrow> Inr l | None \<Rightarrow> Inl (InvalidLengthForSha (show_nat n)))"

text \<open>The errors that are shown on the way are the first part of a result.\<close>

type_synonym 'a shown = "checksum_error list \<times> (checksum_error + 'a)"

definition validate_sha2_sha3_length :: "algo_kind \<Rightarrow> nat option \<Rightarrow> sha_length shown" where
  "validate_sha2_sha3_length k len =
     (case len of
        None \<Rightarrow> ([], Inl (LengthRequiredForSha (algo_lowercase k)))
      | Some n \<Rightarrow>
          (case sha_length_of n of
             Some l \<Rightarrow> ([], Inr l)
           | None \<Rightarrow> ([InvalidLength (show_nat n)], Inl (InvalidLengthForSha (algo_uppercase k)))))"

definition sanitize_sha2_sha3_length_str :: "algo_kind \<Rightarrow> bytes \<Rightarrow> nat shown" where
  "sanitize_sha2_sha3_length_str k s =
     (case from_str_radix (2 ^ 32) 10 s of
        Inl PosOverflow \<Rightarrow> ([InvalidLength s], Inl (InvalidLengthForSha (algo_uppercase k)))
      | Inl _ \<Rightarrow> ([], Inl (InvalidLength s))
      | Inr n \<Rightarrow> if n \<in> {224, 256, 384, 512} then ([], Inr n)
                 else ([InvalidLength s], Inl (InvalidLengthForSha (algo_uppercase k))))"

text \<open>The length in bytes, none for the greatest.\<close>

definition calculate_blake2b_length_str :: "bytes \<Rightarrow> nat option shown" where
  "calculate_blake2b_length_str s =
     (case from_str_radix (2 ^ 32) 10 s of
        Inl PosOverflow \<Rightarrow> ([InvalidLength s], Inl (LengthTooBigForBlake ''BLAKE2b''))
      | Inl _ \<Rightarrow> ([], Inl (InvalidLength s))
      | Inr n \<Rightarrow>
          if n = 0 then ([], Inr None)
          else if 512 < n then ([InvalidLength s], Inl (LengthTooBigForBlake ''BLAKE2b''))
          else if n mod 8 \<noteq> 0 then ([InvalidLength s], Inl LengthNotMultipleOf8)
          else if n = 512 then ([], Inr None) else ([], Inr (Some (n div 8))))"

section \<open>Algorithms with their lengths\<close>

text \<open>A length of BLAKE2b is in bytes, the lengths of SHAKE are in bits.\<close>

datatype sized_algo =
    SzSysv | SzBsd | SzCrc | SzCrc32b | SzMd5 | SzSm3 | SzSha1 | SzBlake3 | SzSha2 sha_length | SzSha3 sha_length
  | SzBlake2b "nat option" | SzShake128 "nat option" | SzShake256 "nat option"

text \<open>The product of the length in bytes and 8 wraps as a \<open>usize\<close> does.\<close>

fun from_unsized :: "algo_kind \<Rightarrow> nat option \<Rightarrow> sized_algo shown" where
  "from_unsized AkShake128 l = ([], Inr (SzShake128 l))"
| "from_unsized AkShake256 l = ([], Inr (SzShake256 l))"
| "from_unsized AkSha2 (Some n) = ([], map_sum id SzSha2 (sha_length_try_from n))"
| "from_unsized AkSha3 (Some n) = ([], map_sum id SzSha3 (sha_length_try_from n))"
| "from_unsized AkBlake2b (Some n) = map_prod id (map_sum id SzBlake2b) (calculate_blake2b_length_str (show_nat (8 * n mod 2 ^ 32)))"
| "from_unsized k (Some n) = ([], Inl LengthOnlyForBlake2bSha2Sha3)"
| "from_unsized AkSha2 None = ([], Inl (LengthRequiredForSha (algo_lowercase AkSha2)))"
| "from_unsized AkSha3 None = ([], Inl (LengthRequiredForSha (algo_lowercase AkSha3)))"
| "from_unsized AkBlake2b None = ([], Inr (SzBlake2b None))"
| "from_unsized AkSysv None = ([], Inr SzSysv)"
| "from_unsized AkBsd None = ([], Inr SzBsd)"
| "from_unsized AkCrc None = ([], Inr SzCrc)"
| "from_unsized AkCrc32b None = ([], Inr SzCrc32b)"
| "from_unsized AkMd5 None = ([], Inr SzMd5)"
| "from_unsized AkSm3 None = ([], Inr SzSm3)"
| "from_unsized AkSha1 None = ([], Inr SzSha1)"
| "from_unsized AkBlake3 None = ([], Inr SzBlake3)"
| "from_unsized AkSha224 None = ([], Inr (SzSha2 Len224))"
| "from_unsized AkSha256 None = ([], Inr (SzSha2 Len256))"
| "from_unsized AkSha384 None = ([], Inr (SzSha2 Len384))"
| "from_unsized AkSha512 None = ([], Inr (SzSha2 Len512))"

text \<open>The name before a tagged line; none where the code panics.\<close>

fun to_tag :: "sized_algo \<Rightarrow> bytes option" where
  "to_tag SzMd5 = Some ''MD5''"
| "to_tag SzSm3 = Some ''SM3''"
| "to_tag SzSha1 = Some ''SHA1''"
| "to_tag SzBlake3 = Some ''BLAKE3''"
| "to_tag (SzSha2 l) = Some (''SHA'' @ show_nat (sha_bits l))"
| "to_tag (SzSha3 l) = Some (''SHA3-'' @ show_nat (sha_bits l))"
| "to_tag (SzBlake2b (Some n)) = Some (''BLAKE2b-'' @ show_nat (n * 8))"
| "to_tag (SzBlake2b None) = Some ''BLAKE2b''"
| "to_tag (SzShake128 _) = Some ''SHAKE128''"
| "to_tag (SzShake256 _) = Some ''SHAKE256''"
| "to_tag _ = None"

definition or_else :: "'a option \<Rightarrow> 'a \<Rightarrow> 'a" where
  "or_else x d = (case x of None \<Rightarrow> d | Some v \<Rightarrow> v)"

fun bitlen :: "sized_algo \<Rightarrow> nat" where
  "bitlen SzSysv = 512"
| "bitlen SzBsd = 1024"
| "bitlen SzCrc = 256"
| "bitlen SzCrc32b = 32"
| "bitlen SzMd5 = 128"
| "bitlen SzSm3 = 512"
| "bitlen SzSha1 = 160"
| "bitlen SzBlake3 = 256"
| "bitlen (SzSha2 l) = sha_bits l"
| "bitlen (SzSha3 l) = sha_bits l"
| "bitlen (SzBlake2b l) = or_else l 512"
| "bitlen (SzShake128 l) = or_else l 256"
| "bitlen (SzShake256 l) = or_else l 512"

text \<open>The bits of the output of the digest that \<open>create_digest\<close> makes, by \<open>output_bits\<close> in \<open>sum.rs\<close>.\<close>

fun digest_bits :: "sized_algo \<Rightarrow> nat" where
  "digest_bits SzSysv = 512"
| "digest_bits SzBsd = 128"
| "digest_bits SzCrc = 256"
| "digest_bits SzCrc32b = 32"
| "digest_bits SzMd5 = 128"
| "digest_bits SzSm3 = 256"
| "digest_bits SzSha1 = 160"
| "digest_bits SzBlake3 = 256"
| "digest_bits (SzSha2 l) = sha_bits l"
| "digest_bits (SzSha3 l) = sha_bits l"
| "digest_bits (SzBlake2b l) = or_else l 64 * 8"
| "digest_bits (SzShake128 l) = or_else l 256"
| "digest_bits (SzShake256 l) = or_else l 512"

definition sized_is_legacy :: "sized_algo \<Rightarrow> bool" where
  "sized_is_legacy a \<longleftrightarrow> a \<in> {SzSysv, SzBsd, SzCrc, SzCrc32b}"

section \<open>Digests\<close>

text \<open>The hash functions of other crates: of the algorithms with a fixed output, BLAKE2b with a number of bytes, SHAKE with
  a number of bytes, and the two cyclic sums.\<close>

record hashes =
  h_fixed :: "sized_algo \<Rightarrow> bytes \<Rightarrow> bytes"
  h_blake2b :: "nat \<Rightarrow> bytes \<Rightarrow> bytes"
  h_shake128 :: "nat \<Rightarrow> bytes \<Rightarrow> bytes"
  h_shake256 :: "nat \<Rightarrow> bytes \<Rightarrow> bytes"
  h_posix :: "bytes \<Rightarrow> nat"
  h_iso :: "bytes \<Rightarrow> nat"

text \<open>The result of the digest that \<open>create_digest\<close> makes, after an input.\<close>

fun digest_of :: "hashes \<Rightarrow> sized_algo \<Rightarrow> bytes \<Rightarrow> digest_output" where
  "digest_of H SzSysv input = snd (sysv_result (sysv_update 0 input))"
| "digest_of H SzBsd input = bsd_result (bsd_update 0 input)"
| "digest_of H SzCrc input = posix_crc (h_posix H) input"
| "digest_of H SzCrc32b input = iso_crc (h_iso H) input"
| "digest_of H (SzBlake2b l) input = DigestVec (h_blake2b H (or_else l 64) input)"
| "digest_of H (SzShake128 l) input = shake_result (h_shake128 H) (or_else l 256) input"
| "digest_of H (SzShake256 l) input = shake_result (h_shake256 H) (or_else l 512) input"
| "digest_of H a input = DigestVec (h_fixed H a input)"

datatype reading_mode = ModeBinary | ModeText

fun mode_char :: "reading_mode \<Rightarrow> char" where
  "mode_char ModeBinary = CHR ''*''"
| "mode_char ModeText = CHR '' ''"

text \<open>What a reader gives in pieces, or an error after them.\<close>

type_synonym input = "bytes list \<times> bytes option"

definition digest_reader :: "hashes \<Rightarrow> bool \<Rightarrow> sized_algo \<Rightarrow> input \<Rightarrow> reading_mode \<Rightarrow> bytes + digest_output \<times> nat" where
  "digest_reader H windows a input mode =
     (case snd input of
        Some e \<Rightarrow> Inl e
      | None \<Rightarrow> (let (seen, n) = read_digest windows (mode = ModeBinary) (@) [] (fst input) in Inr (digest_of H a seen, n)))"

section \<open>Names of files\<close>

abbreviation BSL :: char where "BSL \<equiv> CHR 0x5C"

fun unescaped :: "bytes \<Rightarrow> bytes" where
  "unescaped [] = []"
| "unescaped (c # s) =
     (if c \<noteq> BSL then c # unescaped s
      else (case s of
              [] \<Rightarrow> []
            | d # s' \<Rightarrow>
                (if d = BSL then [BSL] else if d = CHR ''n'' then [NL] else if d = CHR ''r'' then [CR] else [BSL, d])
                @ unescaped s'))"

definition unescape_filename :: "bytes \<Rightarrow> bytes \<times> bytes" where
  "unescape_filename name = (let u = unescaped name in (u, if u = name then [] else [BSL]))"

definition replace_char :: "char \<Rightarrow> bytes \<Rightarrow> bytes \<Rightarrow> bytes" where
  "replace_char c r s = concat (map (\<lambda>x. if x = c then r else [x]) s)"

definition escape_specials :: "bytes \<Rightarrow> bytes" where
  "escape_specials s = replace_char CR [BSL, CHR ''r''] (replace_char NL [BSL, CHR ''n''] (replace_char BSL [BSL, BSL] s))"

definition escape_filename :: "bytes \<Rightarrow> bytes \<times> bytes" where
  "escape_filename name = (let s = from_utf8_lossy name; e = escape_specials s in (e, if e = s then [] else [BSL]))"

section \<open>Facts\<close>

lemma replace_char_simps [simp]:
  "replace_char c r [] = []"
  "replace_char c r (x # s) = (if x = c then r else [x]) @ replace_char c r s"
  "replace_char c r (s @ t) = replace_char c r s @ replace_char c r t"
  by (simp_all add: replace_char_def)

lemma escaped_simps [simp]:
  "escape_specials [] = []"
  "escape_specials (c # s) = (if c = BSL then [BSL, BSL] else if c = NL then [BSL, CHR ''n''] else if c = CR then [BSL, CHR ''r'']
     else [c]) @ escape_specials s"
  by (simp_all add: escape_specials_def)

text \<open>A name is read back from its escaped form, which has no line ends.\<close>

lemma unescaped_escaped [simp]: "unescaped (escape_specials s) = s"
  by (induction s) simp_all

lemma escaped_no_eol: "NL \<notin> set (escape_specials s) \<and> CR \<notin> set (escape_specials s)"
  by (induction s) simp_all

lemma escaped_length: "length s \<le> length (escape_specials s)"
  by (induction s) simp_all

lemma escaped_id: "escape_specials s = s \<longleftrightarrow> (\<forall>c\<in>set s. c \<noteq> BSL \<and> c \<noteq> NL \<and> c \<noteq> CR)"
proof (induction s)
  case (Cons c s)
  have "[BSL, d] @ escape_specials s \<noteq> c # s" for d using escaped_length [of s] by (auto dest: arg_cong [of _ _ length])
  then show ?case using Cons by auto
qed simp

interpretation seen: chunked_update "(@)"
  by unfold_locales simp_all

text \<open>The pieces of a reader do not change the digest.\<close>

lemma digest_reader_whole:
  assumes "[] \<notin> set pieces"
  shows "digest_reader H windows a (pieces, None) mode
    = Inr (digest_of H a (if windows \<and> mode = ModeText then unix_lines (concat pieces) else concat pieces),
           length (concat pieces) mod 2 ^ 32)"
proof -
  have "fst (read_digest windows (mode = ModeBinary) (@) [] pieces)
      = (if windows \<and> mode = ModeText then unix_lines (concat pieces) else concat pieces)"
    using seen.read_digest_whole [OF assms, of windows "mode = ModeBinary" "[]"] by (cases mode) simp_all
  then show ?thesis by (simp add: digest_reader_def read_digest_def Let_def)
qed

text \<open>The lengths of BLAKE2b.\<close>

lemma show_nat_from_str [simp]: "n < bound \<Longrightarrow> from_str_radix bound 10 (show_nat n) = Inr n"
  using from_str_radix_show [of 10 bound n] by (simp add: show_nat_def)

lemma blake2b_length:
  "n < 2 ^ 32 \<Longrightarrow> calculate_blake2b_length_str (show_nat n)
     = (if n = 0 \<or> n = 512 then ([], Inr None)
        else if 512 < n then ([InvalidLength (show_nat n)], Inl (LengthTooBigForBlake ''BLAKE2b''))
        else if n mod 8 \<noteq> 0 then ([InvalidLength (show_nat n)], Inl LengthNotMultipleOf8)
        else ([], Inr (Some (n div 8))))"
  by (auto simp: calculate_blake2b_length_str_def)

text \<open>\<open>bitlen\<close> is not the number of bits of the digest for SM3 and for a BLAKE2b of a length.\<close>

lemma bitlen_differs:
  "bitlen SzSm3 = 2 * digest_bits SzSm3" "8 * bitlen (SzBlake2b (Some n)) = digest_bits (SzBlake2b (Some n))"
  by (simp_all add: or_else_def)

text \<open>The length of a SHAKE output is not in its tag.\<close>

lemma shake_tag_loses_length: "to_tag (SzShake128 (Some n)) = to_tag (SzShake128 None)"
  by simp

text \<open>A BLAKE2b of zero bytes is the one of the greatest length.\<close>

lemma blake2b_zero: "from_unsized AkBlake2b (Some 0) = ([], Inr (SzBlake2b None))"
  by (simp add: blake2b_length)

end
