(* ===== verification/Uu_Cksum_Line.thy ===== *)
theory Uu_Cksum_Line
  imports Uu_Cksum
begin

text \<open>
  The lines of a checksum file (\<open>stubs/uucore/src/lib/features/checksum\<close>): their printing in \<open>compute.rs\<close> and their
  reading in \<open>validate.rs\<close>.  A tagged line is read back, and an untagged line of a name without special characters.
\<close>

section \<open>Printing\<close>

datatype digest_format = Hexadecimal | Base64

datatype output_format = OutRaw | OutLegacy | OutTagged digest_format | OutUntagged digest_format reading_mode

definition format_from_cksum :: "algo_kind \<Rightarrow> bool \<Rightarrow> bool \<Rightarrow> bool \<Rightarrow> bool \<Rightarrow> output_format" where
  "format_from_cksum k tag binary raw base64 =
     (if raw then OutRaw else if algo_is_legacy k then OutLegacy
      else (let df = (if base64 then Base64 else Hexadecimal)
            in if tag then OutTagged df else OutUntagged df (if binary then ModeBinary else ModeText)))"

definition format_from_standalone :: "bool \<Rightarrow> bool \<Rightarrow> output_format" where
  "format_from_standalone text_mode tag =
     (if tag then OutTagged Hexadecimal else OutUntagged Hexadecimal (if text_mode then ModeText else ModeBinary))"

datatype line_ending = LineNewline | LineNul

fun line_ending_bytes :: "line_ending \<Rightarrow> bytes" where
  "line_ending_bytes LineNewline = [NL]"
| "line_ending_bytes LineNul = [CHR 0x00]"

definition from_zero_flag :: "bool \<Rightarrow> line_ending" where
  "from_zero_flag zero = (if zero then LineNul else LineNewline)"

record compute_options =
  co_algo :: sized_algo
  co_format :: output_format
  co_ending :: line_ending

text \<open>The name as it is printed, and the mark of a line with a name that is escaped.\<close>

definition printed_name :: "compute_options \<Rightarrow> bytes \<Rightarrow> bytes \<times> bytes" where
  "printed_name opts name = (if co_ending opts = LineNul then (from_utf8_lossy name, []) else escape_filename name)"

text \<open>The line of an algorithm without a tag; none where the code panics.\<close>

definition legacy_line :: "compute_options \<Rightarrow> bytes \<Rightarrow> digest_output \<Rightarrow> nat \<Rightarrow> bytes option" where
  "legacy_line opts name out n =
     (let (e, pre) = printed_name opts name;
          blocks = (n + bitlen (co_algo opts) - 1) div bitlen (co_algo opts);
          end_part = (if e \<noteq> ''-'' then '' '' @ e else [])
      in case (co_algo opts, out) of
           (SzSysv, DigestU16 w) \<Rightarrow> Some (pre @ show_nat (unat w) @ '' '' @ show_nat blocks @ end_part)
         | (SzBsd, DigestU16 w) \<Rightarrow>
             (let s = show_nat (unat w) in
              Some (pre @ replicate (5 - length s) CHR ''0'' @ s @ '' '' @ pad_left 5 (show_nat blocks) @ end_part))
         | (SzCrc, DigestCrc w) \<Rightarrow> Some (pre @ show_nat (unat w) @ '' '' @ show_nat n @ end_part)
         | (SzCrc32b, DigestCrc w) \<Rightarrow> Some (pre @ show_nat (unat w) @ '' '' @ show_nat n @ end_part)
         | _ \<Rightarrow> None)"

definition tagged_line :: "compute_options \<Rightarrow> bytes \<Rightarrow> bytes \<Rightarrow> bytes option" where
  "tagged_line opts name sum_text =
     (let (e, pre) = printed_name opts name
      in map_option (\<lambda>tag. pre @ tag @ '' ('' @ e @ '') = '' @ sum_text) (to_tag (co_algo opts)))"

definition untagged_line :: "compute_options \<Rightarrow> bytes \<Rightarrow> bytes \<Rightarrow> reading_mode \<Rightarrow> bytes" where
  "untagged_line opts name sum_text mode =
     (let (e, pre) = printed_name opts name in pre @ sum_text @ '' '' @ [mode_char mode] @ e)"

section \<open>Reading\<close>

datatype line_format = AlgoBased | SingleSpace | Untagged

record line_info =
  li_algo :: "bytes option"
  li_bits :: "nat option"
  li_checksum :: bytes
  li_file :: bytes
  li_format :: line_format

definition is_ascii_space :: "char \<Rightarrow> bool" where
  "is_ascii_space c \<longleftrightarrow> c \<in> {CHR '' '', TAB, NL, CHR 0x0C, CR}"

definition is_upper :: "char \<Rightarrow> bool" where "is_upper c \<longleftrightarrow> between 65 90 (byte c)"
definition is_lower :: "char \<Rightarrow> bool" where "is_lower c \<longleftrightarrow> between 97 122 (byte c)"
definition is_decimal :: "char \<Rightarrow> bool" where "is_decimal c \<longleftrightarrow> between 48 57 (byte c)"

definition is_hex :: "char \<Rightarrow> bool" where
  "is_hex c \<longleftrightarrow> is_decimal c \<or> between 65 70 (byte c) \<or> between 97 102 (byte c)"

text \<open>The parts around the last occurrence of a pattern.\<close>

definition rsplit_pattern :: "bytes \<Rightarrow> bytes \<Rightarrow> (bytes \<times> bytes) option" where
  "rsplit_pattern pat s =
     (case find_sub (rev pat) (rev s) of
        None \<Rightarrow> None
      | Some pos \<Rightarrow> Some (take (length s - length pat - pos) s, drop (length s - pos) s))"

text \<open>Whether characters of base 64 were met; none for a character that no digest has.\<close>

fun checksum_chars :: "bytes \<Rightarrow> bool \<Rightarrow> bool option" where
  "checksum_chars [] b64 = Some b64"
| "checksum_chars (c # s) b64 =
     (if is_upper c \<or> is_lower c \<or> is_decimal c then checksum_chars s b64
      else if c = CHR ''+'' \<or> c = CHR ''/'' then checksum_chars s True
      else if c # s \<in> {''='', ''=='', ''===''} then Some True
      else None)"

definition validate_checksum_format :: "bytes \<Rightarrow> bytes option" where
  "validate_checksum_format s =
     (if s = [] then None
      else case checksum_chars s False of
             None \<Rightarrow> None
           | Some b64 \<Rightarrow> if b64 \<and> length s mod 4 \<noteq> 0 then None else Some s)"

text \<open>A line with the algorithm; a panic is the outer none.\<close>

definition algo_parts :: "bytes \<Rightarrow> bytes \<times> nat option" where
  "algo_parts s =
     (case splitn 2 CHR ''-'' s of a # b # _ \<Rightarrow> (a, parse_usize32 b) | [a] \<Rightarrow> (a, None) | [] \<Rightarrow> ([], None))"

definition parse_algo_based :: "bytes \<Rightarrow> line_info option option" where
  "parse_algo_based line =
     (let trimmed = dropWhile is_ascii_space line;
          rest = (if prefix [BSL] trimmed then tl trimmed else trimmed)
      in case split_once CHR ''('' rest of
           None \<Rightarrow> Some None
         | Some (before, after) \<Rightarrow>
             (if before = [] then None
              else (let posix = (last before = CHR '' '');
                        (algo, bits) = algo_parts (if posix then butlast before else before)
                    in if \<not> (algo = ''BLAKE2b'' \<or> list_all (\<lambda>b. is_upper b \<or> is_decimal b) algo) then Some None
                       else (case rsplit_pattern (if posix then '') = '' else '')= '') after of
                               None \<Rightarrow> Some None
                             | Some (name, sum_text) \<Rightarrow>
                                 Some (map_option (\<lambda>c. \<lparr>li_algo = Some algo, li_bits = bits, li_checksum = c, li_file = name,
                                                        li_format = AlgoBased\<rparr>) (validate_checksum_format sum_text))))))"

definition parse_untagged :: "bytes \<Rightarrow> line_info option" where
  "parse_untagged line =
     (case split_once CHR '' '' line of
        None \<Rightarrow> None
      | Some (sum_text, rest) \<Rightarrow>
          (case validate_checksum_format sum_text of
             None \<Rightarrow> None
           | Some c \<Rightarrow>
               (case rest of
                  d # name \<Rightarrow> if d = CHR '' '' \<or> d = CHR ''*''
                              then Some \<lparr>li_algo = None, li_bits = None, li_checksum = c, li_file = name, li_format = Untagged\<rparr>
                              else None
                | [] \<Rightarrow> None)))"

definition parse_single_space :: "bytes \<Rightarrow> line_info option" where
  "parse_single_space line =
     (case split_once CHR '' '' line of
        None \<Rightarrow> None
      | Some (sum_text, name) \<Rightarrow>
          (if list_all is_hex sum_text \<and> sum_text \<noteq> []
           then Some \<lparr>li_algo = None, li_bits = None, li_checksum = sum_text, li_file = name, li_format = SingleSpace\<rparr>
           else None))"

text \<open>The parsers in turn.  The format of the first line without an algorithm is the format of the lines after it; a panic
  is the outer none.\<close>

definition line_info_parse :: "bool \<Rightarrow> bytes \<Rightarrow> line_format option \<Rightarrow> (line_info option \<times> line_format option) option" where
  "line_info_parse unix line cached =
     (case os_str_as_bytes unix line of
        Inl _ \<Rightarrow> Some (None, cached)
      | Inr s \<Rightarrow>
          (case parse_algo_based s of
             None \<Rightarrow> None
           | Some (Some info) \<Rightarrow> Some (Some info, cached)
           | Some None \<Rightarrow>
               (case cached of
                  Some Untagged \<Rightarrow> Some (parse_untagged s, cached)
                | Some SingleSpace \<Rightarrow> Some (parse_single_space s, cached)
                | Some AlgoBased \<Rightarrow> None
                | None \<Rightarrow>
                    (case parse_untagged s of
                       Some info \<Rightarrow> Some (Some info, Some Untagged)
                     | None \<Rightarrow>
                         (case parse_single_space s of
                            Some info \<Rightarrow> Some (Some info, Some SingleSpace)
                          | None \<Rightarrow> Some (None, None))))))"

text \<open>The bytes of a digest, from hexadecimal or base 64, with the number of bytes if it is known.\<close>

definition get_raw_expected_digest ::
    "(bytes \<Rightarrow> bytes option) \<Rightarrow> (bytes \<Rightarrow> bytes option) \<Rightarrow> bytes \<Rightarrow> nat option \<Rightarrow> bytes option" where
  "get_raw_expected_digest hex_decode b64_decode s hint =
     (let fits = (\<lambda>n. hint = None \<or> hint = Some n);
          base64 = (if length s mod 4 \<noteq> 0 then None
                    else case b64_decode s of Some raw \<Rightarrow> if fits (length raw) then Some raw else None | None \<Rightarrow> None)
      in if length s mod 2 \<noteq> 0 then None
         else if fits (length s div 2) then (case hex_decode s of Some raw \<Rightarrow> Some raw | None \<Rightarrow> base64)
         else base64)"

text \<open>The algorithm of a line, and the last name that was known.\<close>

definition identify_algo :: "line_info \<Rightarrow> algo_kind option \<Rightarrow> bytes option \<Rightarrow> (algo_kind \<times> nat option) option \<times> bytes option" where
  "identify_algo info cli last_algo =
     (let a = or_else (li_algo info) [] in
      case from_cksum (map ascii_lower a) of
        Inl _ \<Rightarrow> (None, last_algo)
      | Inr k \<Rightarrow>
          (if (case cli of None \<Rightarrow> False
               | Some c \<Rightarrow> c \<noteq> k \<and> \<not> (c = AkSha2 \<and> k \<in> {AkSha224, AkSha256, AkSha384, AkSha512}))
           then (None, Some a)
           else ((case li_bits info of
                    Some n \<Rightarrow>
                      if k = AkBlake2b \<and> n mod 8 = 0 then Some (k, Some (n div 8))
                      else if k \<in> {AkSha2, AkSha3} \<and> n \<in> {224, 256, 384, 512} then Some (k, Some n)
                      else None
                  | None \<Rightarrow> if k = AkBlake2b then Some (k, Some 64) else Some (k, None)), Some a)))"

section \<open>A tagged line is read back\<close>

lemma rsplit_pattern_last:
  assumes "CHR '')'' \<notin> set y" "CHR '')'' \<notin> set p"
  shows "rsplit_pattern (CHR '')'' # p) (x @ CHR '')'' # p @ y) = Some (x, y)"
proof -
  have "\<not> sublist (rev (CHR '')'' # p)) (rev y @ butlast (rev (CHR '')'' # p)))"
    using assms by (auto dest: set_mono_sublist)
  then have "find_sub (rev (CHR '')'' # p)) (rev y @ rev (CHR '')'' # p) @ rev x) = Some (length y)"
    by (subst find_sub_here) simp_all
  then show ?thesis by (simp add: rsplit_pattern_def)
qed

text \<open>Texts that are a digest in hexadecimal or a name of an algorithm.\<close>

definition alnum :: "char \<Rightarrow> bool" where
  "alnum c \<longleftrightarrow> is_upper c \<or> is_lower c \<or> is_decimal c"

lemma checksum_chars_alnum: "list_all alnum s \<Longrightarrow> checksum_chars s b = Some b"
  by (induction s) (simp_all add: alnum_def)

lemma validate_alnum: "list_all alnum s \<Longrightarrow> s \<noteq> [] \<Longrightarrow> validate_checksum_format s = Some s"
  by (simp add: validate_checksum_format_def checksum_chars_alnum)

lemma alnum_plain:
  assumes "list_all alnum s" "c \<in> {CHR '' '', CHR ''('', CHR '')'', CHR ''-'', BSL, NL, CR, CHR ''#''}"
  shows "c \<notin> set s"
proof
  assume "c \<in> set s"
  then have "alnum c" using assms(1) by (auto simp: list_all_iff)
  then show False using assms(2) by (auto simp: alnum_def is_upper_def is_lower_def is_decimal_def between_def byte_def)
qed

text \<open>The kind, the length and the name that a tag stands for.\<close>

fun tag_parts :: "sized_algo \<Rightarrow> bytes \<times> nat option" where
  "tag_parts SzMd5 = (''MD5'', None)"
| "tag_parts SzSm3 = (''SM3'', None)"
| "tag_parts SzSha1 = (''SHA1'', None)"
| "tag_parts SzBlake3 = (''BLAKE3'', None)"
| "tag_parts (SzSha2 l) = (''SHA'' @ show_nat (sha_bits l), None)"
| "tag_parts (SzSha3 l) = (''SHA3'', Some (sha_bits l))"
| "tag_parts (SzBlake2b (Some n)) = (''BLAKE2b'', Some (n * 8))"
| "tag_parts (SzBlake2b None) = (''BLAKE2b'', None)"
| "tag_parts (SzShake128 _) = (''SHAKE128'', None)"
| "tag_parts (SzShake256 _) = (''SHAKE256'', None)"
| "tag_parts _ = ([], None)"

text \<open>The lengths that the command line accepts.\<close>

definition proper_algo :: "sized_algo \<Rightarrow> bool" where
  "proper_algo a \<longleftrightarrow> (\<forall>n. a = SzBlake2b (Some n) \<longrightarrow> 0 < n \<and> n < 64)"

lemma sha_bits_shown [simp]:
  "show_nat (sha_bits l) = (case l of Len224 \<Rightarrow> ''224'' | Len256 \<Rightarrow> ''256'' | Len384 \<Rightarrow> ''384'' | Len512 \<Rightarrow> ''512'')"
proof -
  have "show_nat 224 = ''224''" "show_nat 256 = ''256''" "show_nat 384 = ''384''" "show_nat 512 = ''512''" by code_simp+
  then show ?thesis by (cases l) simp_all
qed

lemma algo_parts_plain: "CHR ''-'' \<notin> set s \<Longrightarrow> algo_parts s = (s, None)"
  by (simp add: algo_parts_def numeral_2_eq_2 split_once_None [THEN iffD2])

lemma algo_parts_dash: "CHR ''-'' \<notin> set s \<Longrightarrow> algo_parts (s @ CHR ''-'' # t) = (s, parse_usize32 t)"
  by (simp add: algo_parts_def numeral_2_eq_2 split_once_Some [THEN iffD2])

text \<open>The tags without a number of their own are a few words.\<close>

definition tag_words :: "bytes list" where
  "tag_words = [''MD5'', ''SM3'', ''SHA1'', ''BLAKE3'', ''SHA224'', ''SHA256'', ''SHA384'', ''SHA512'', ''SHA3-224'', ''SHA3-256'',
     ''SHA3-384'', ''SHA3-512'', ''BLAKE2b'', ''SHAKE128'', ''SHAKE256'']"

definition plain_tag :: "bytes \<Rightarrow> bool" where
  "plain_tag tag \<longleftrightarrow> tag \<noteq> [] \<and> \<not> is_ascii_space (hd tag) \<and> hd tag \<noteq> BSL \<and> hd tag \<noteq> CHR ''#'' \<and> CHR ''('' \<notin> set tag \<and> NL \<notin> set tag
     \<and> CR \<notin> set tag \<and> is_ascii tag"

lemma plain_tag_words: "list_all plain_tag tag_words"
  by code_simp

lemma tag_in_words: "to_tag a = Some tag \<Longrightarrow> (\<exists>n. a = SzBlake2b (Some n)) \<or> tag \<in> set tag_words"
  by (cases a rule: to_tag.cases) (auto simp: tag_words_def split: sha_length.splits)

lemma tag_plain:
  assumes "to_tag a = Some tag"
  shows "plain_tag tag"
proof (cases "\<exists>n. a = SzBlake2b (Some n)")
  case True
  then obtain n where "tag = ''BLAKE2b-'' @ show_nat (n * 8)" using assms by auto
  moreover have "CHR ''('' \<notin> set (show_nat n)" "NL \<notin> set (show_nat n)" "CR \<notin> set (show_nat n)" for n
    using show_nat_digits [of "CHR ''(''" n] show_nat_digits [of NL n] show_nat_digits [of CR n] by (auto simp: byte_def)
  ultimately show ?thesis by (simp add: plain_tag_def is_ascii_space_def byte_def)
next
  case False
  then show ?thesis using tag_in_words [OF assms] plain_tag_words by (auto simp: list_all_iff)
qed

lemma tag_algo_parts:
  assumes "to_tag a = Some tag" "proper_algo a"
  shows "algo_parts tag = tag_parts a"
proof -
  consider (sha3) l where "a = SzSha3 l" | (blake) n where "a = SzBlake2b (Some n)"
    | (word) "tag = fst (tag_parts a)" "snd (tag_parts a) = None" "CHR ''-'' \<notin> set tag"
    using assms(1) by (cases a rule: to_tag.cases) (auto split: sha_length.splits)
  then show ?thesis
  proof cases
    case sha3
    have "parse_usize32 (show_nat (sha_bits l)) = Some (sha_bits l)" by (rule parse_show_nat) (cases l; simp)
    then show ?thesis using assms(1) algo_parts_dash [of "''SHA3''" "show_nat (sha_bits l)"] by (simp add: sha3 del: sha_bits_shown)
  next
    case blake
    have "parse_usize32 (show_nat (n * 8)) = Some (n * 8)" using assms(2) by (simp add: blake proper_algo_def)
    then show ?thesis using assms(1) algo_parts_dash [of "''BLAKE2b''" "show_nat (n * 8)"] by (auto simp: blake)
  next
    case word
    then show ?thesis by (simp add: algo_parts_plain prod_eq_iff)
  qed
qed

lemma tag_valid:
  "fst (tag_parts a) = ''BLAKE2b'' \<or> list_all (\<lambda>b. is_upper b \<or> is_decimal b) (fst (tag_parts a))"
proof -
  have "list_all (\<lambda>w. list_all (\<lambda>b. is_upper b \<or> is_decimal b) w)
    [''MD5'', ''SM3'', ''SHA1'', ''BLAKE3'', ''SHA224'', ''SHA256'', ''SHA384'', ''SHA512'', ''SHA3'', ''SHAKE128'', ''SHAKE256'', []]"
    by code_simp
  then show ?thesis by (cases a rule: tag_parts.cases) (auto split: sha_length.splits)
qed

lemma parse_tagged:
  assumes "to_tag a = Some tag" "proper_algo a" "list_all alnum sum_text" "sum_text \<noteq> []" "pre \<in> {[], [BSL]}"
  shows "parse_algo_based (pre @ tag @ '' ('' @ e @ '') = '' @ sum_text)
    = Some (Some \<lparr>li_algo = Some (fst (tag_parts a)), li_bits = snd (tag_parts a), li_checksum = sum_text, li_file = e,
                   li_format = AlgoBased\<rparr>)"
proof -
  have tag: "tag \<noteq> []" "\<not> is_ascii_space (hd tag)" "hd tag \<noteq> BSL" "CHR ''('' \<notin> set tag"
    using tag_plain [OF assms(1)] by (simp_all add: plain_tag_def)
  let ?line = "tag @ '' ('' @ e @ '') = '' @ sum_text"
  obtain c t where ct: "tag = c # t" using tag(1) by (cases tag) auto
  have "dropWhile is_ascii_space (pre @ ?line) = pre @ ?line" using assms(5) tag(2) by (auto simp: ct is_ascii_space_def)
  moreover have "(if prefix [BSL] (pre @ ?line) then tl (pre @ ?line) else pre @ ?line) = ?line"
    using assms(5) tag(3) by (auto simp: ct)
  moreover have "split_once CHR ''('' ?line = Some (tag @ '' '', e @ '') = '' @ sum_text)"
    using tag(4) by (simp add: split_once_Some)
  moreover have "rsplit_pattern '') = '' (e @ '') = '' @ sum_text) = Some (e, sum_text)"
    using rsplit_pattern_last [of sum_text "'' = ''" e] alnum_plain [OF assms(3), of "CHR '')''"] by simp
  ultimately show ?thesis
    using tag_algo_parts [OF assms(1,2)] tag_valid [of a] validate_alnum [OF assms(3,4)]
    unfolding parse_algo_based_def Let_def
    by (auto simp: prod.case_eq_if)
qed

section \<open>An untagged line is read back\<close>

lemma parse_untagged_line:
  assumes "list_all alnum sum_text" "sum_text \<noteq> []"
  shows "parse_untagged (sum_text @ '' '' @ [mode_char mode] @ e)
    = Some \<lparr>li_algo = None, li_bits = None, li_checksum = sum_text, li_file = e, li_format = Untagged\<rparr>"
proof -
  have "split_once CHR '' '' (sum_text @ '' '' @ [mode_char mode] @ e) = Some (sum_text, mode_char mode # e)"
    using alnum_plain [OF assms(1), of "CHR '' ''"] by (simp add: split_once_Some)
  then show ?thesis using validate_alnum [OF assms] by (cases mode) (simp_all add: parse_untagged_def)
qed

lemma takeWhile_until [simp]: "c \<notin> set a \<Longrightarrow> takeWhile (\<lambda>x. x \<noteq> c) (a @ c # b) = a"
  by (induction a) auto

lemma takeWhile_free [simp]: "c \<notin> set a \<Longrightarrow> takeWhile (\<lambda>x. x \<noteq> c) a = a"
  by (induction a) auto

lemma fst_algo_parts: "fst (algo_parts s) = takeWhile (\<lambda>c. c \<noteq> CHR ''-'') s"
proof (cases "split_once CHR ''-'' s")
  case None
  then have "CHR ''-'' \<notin> set s" by (simp add: split_once_None)
  then show ?thesis by (simp add: algo_parts_plain)
next
  case (Some p)
  then obtain a b where "s = a @ CHR ''-'' # b" "CHR ''-'' \<notin> set a" by (cases p) (auto simp: split_once_Some)
  then show ?thesis by (simp add: algo_parts_dash)
qed

lemma append_before_marker:
  "w @ e = b @ m # a \<Longrightarrow> m \<notin> set w \<Longrightarrow> \<exists>b'. b = w @ b'"
  by (induction w arbitrary: b) (auto simp: Cons_eq_append_conv)

text \<open>It is not taken for a tagged line, whatever the name.\<close>

lemma untagged_not_tagged:
  assumes "list_all alnum sum_text" "sum_text \<noteq> []" "pre \<in> {[], [BSL]}"
  shows "parse_algo_based (pre @ sum_text @ '' '' @ [mode_char mode] @ e) = Some None"
proof -
  let ?line = "sum_text @ '' '' @ [mode_char mode] @ e"
  obtain c t where ct: "sum_text = c # t" using assms(2) by (cases sum_text) auto
  have c: "alnum c" "\<not> is_ascii_space c" "c \<noteq> BSL"
    using assms(1) by (auto simp: ct alnum_def is_upper_def is_lower_def is_decimal_def between_def byte_def is_ascii_space_def)
  have start: "dropWhile is_ascii_space (pre @ ?line) = pre @ ?line"
      "(if prefix [BSL] (pre @ ?line) then tl (pre @ ?line) else pre @ ?line) = ?line"
    using c assms(3) by (auto simp: ct is_ascii_space_def)
  show ?thesis
  proof (cases "split_once CHR ''('' ?line")
    case None
    then show ?thesis unfolding parse_algo_based_def Let_def start by simp
  next
    case (Some p)
    obtain b a where p: "p = (b, a)" by (cases p)
    then have b: "?line = b @ CHR ''('' # a" "CHR ''('' \<notin> set b" using Some by (simp_all add: split_once_Some)
    have "CHR ''('' \<notin> set (sum_text @ '' '' @ [mode_char mode])"
      using alnum_plain [OF assms(1), of "CHR ''(''"] by (cases mode) simp_all
    moreover have "(sum_text @ '' '' @ [mode_char mode]) @ e = b @ CHR ''('' # a" using b(1) by simp
    ultimately obtain b' where b': "b = sum_text @ '' '' @ [mode_char mode] @ b'"
      using append_before_marker [of "sum_text @ '' '' @ [mode_char mode]" e b "CHR ''(''" a] by auto
    have dash: "takeWhile (\<lambda>c. c \<noteq> CHR ''-'') (sum_text @ r) = sum_text @ takeWhile (\<lambda>c. c \<noteq> CHR ''-'') r" for r
      using alnum_plain [OF assms(1), of "CHR ''-''"] by (auto intro!: takeWhile_append2)
    define name_part where "name_part = (if last b = CHR '' '' then butlast b else b)"
    have "\<exists>u. name_part = sum_text @ CHR '' '' # u" by (auto simp: b' butlast_append name_part_def)
    then have "CHR '' '' \<in> set (fst (algo_parts name_part))"
      using dash by (auto simp: fst_algo_parts)
    then have "fst (algo_parts name_part) \<noteq> ''BLAKE2b'' \<and> \<not> list_all (\<lambda>b. is_upper b \<or> is_decimal b) (fst (algo_parts name_part))"
      by (auto simp: list_all_iff is_upper_def is_decimal_def between_def byte_def intro!: bexI [of _ "CHR '' ''"])
    moreover have "b \<noteq> []" by (simp add: b')
    ultimately show ?thesis unfolding parse_algo_based_def Let_def start Some p option.case prod.case name_part_def [symmetric]
      by (simp add: prod.case_eq_if)
  qed
qed

text \<open>The untagged line of a name that is escaped begins with a backslash, and no parser takes it.\<close>

lemma escaped_untagged_rejected:
  assumes "list_all alnum sum_text" "sum_text \<noteq> []" "unix \<or> utf8_valid (BSL # sum_text @ '' '' @ [mode_char mode] @ e)"
  shows "line_info_parse unix (BSL # sum_text @ '' '' @ [mode_char mode] @ e) None = Some (None, None)"
proof -
  let ?line = "BSL # sum_text @ '' '' @ [mode_char mode] @ e"
  have split: "split_once CHR '' '' ?line = Some (BSL # sum_text, mode_char mode # e)"
    using alnum_plain [OF assms(1), of "CHR '' ''"] by (simp add: split_once_Some)
  have "checksum_chars (BSL # sum_text) b = None" for b
    by (simp add: is_upper_def is_lower_def is_decimal_def between_def byte_def)
  then have "parse_untagged ?line = None" unfolding parse_untagged_def split by (simp add: validate_checksum_format_def)
  moreover have "parse_single_space ?line = None"
    unfolding parse_single_space_def split by (simp add: is_hex_def is_decimal_def between_def byte_def)
  moreover have "parse_algo_based ?line = Some None" using untagged_not_tagged [OF assms(1,2), of "[BSL]" mode e] by simp
  ultimately show ?thesis using assms(3) by (auto simp: line_info_parse_def os_str_as_bytes_def)
qed

text \<open>A line that begins with a parenthesis is a panic.\<close>

lemma parenthesis_panics: "parse_algo_based (CHR ''('' # s) = None"
  by (simp add: parse_algo_based_def is_ascii_space_def)

section \<open>Names that are UTF-8\<close>

lemma escaped_append [simp]: "escape_specials (s @ t) = escape_specials s @ escape_specials t"
  by (simp add: escape_specials_def)

lemma escaped_char_valid: "utf8_char c \<Longrightarrow> utf8_valid (escape_specials c)"
proof -
  assume c: "utf8_char c"
  obtain x xs where x: "c = x # xs" "list_all is_cont xs" using utf8_char_shape [OF c] by blast
  have "y \<noteq> BSL \<and> y \<noteq> NL \<and> y \<noteq> CR" if "y \<in> set xs" for y
    using x(2) that by (auto simp: list_all_iff is_cont_def byte_def)
  then have xs: "escape_specials xs = xs" by (simp add: escaped_id)
  show ?thesis
  proof (cases "x = BSL \<or> x = NL \<or> x = CR")
    case True
    then have "xs = []" using c x by (auto simp: utf8_char_def utf8_step.simps byte_def)
    then show ?thesis using True x by (auto intro!: utf8_valid_ascii simp: byte_def)
  next
    case False
    then have "escape_specials c = c @ []" using xs x by simp
    then show ?thesis using utf8_valid_char_append [OF c, of "[]"] by (simp only: utf8_valid_Nil)
  qed
qed

lemma escaped_valid: "utf8_valid s \<Longrightarrow> utf8_valid (escape_specials s)"
proof -
  have "list_all utf8_char cs \<Longrightarrow> utf8_valid (escape_specials (concat cs))" for cs
    by (induction cs) (simp_all add: utf8_valid_append escaped_char_valid)
  then show "utf8_valid s \<Longrightarrow> utf8_valid (escape_specials s)" using utf8_valid_chars [of s] by auto
qed

lemma alnum_ascii: "list_all alnum s \<Longrightarrow> is_ascii s"
  by (auto simp: is_ascii_def list_all_iff alnum_def is_upper_def is_lower_def is_decimal_def between_def)

lemma tagged_line_text:
  assumes "to_tag (co_algo opts) = Some tag" "co_ending opts = LineNewline" "utf8_valid name"
  shows "\<exists>pre\<in>{[], [BSL]}. tagged_line opts name s = Some (pre @ tag @ '' ('' @ escape_specials name @ '') = '' @ s)"
  using assms by (auto simp: tagged_line_def printed_name_def escape_filename_def from_utf8_lossy_valid Let_def)

text \<open>A line is UTF-8, has no line ends, and is not empty and no comment.\<close>

lemma tagged_line_plain:
  assumes "to_tag a = Some tag" "utf8_valid name" "list_all alnum s" "pre \<in> {[], [BSL]}"
  defines "line \<equiv> pre @ tag @ '' ('' @ escape_specials name @ '') = '' @ s"
  shows "utf8_valid line" "NL \<notin> set line" "line \<noteq> []" "\<not> prefix ''#'' line" "CR \<notin> set line"
proof -
  have tag: "tag \<noteq> []" "hd tag \<noteq> CHR ''#''" "is_ascii tag" "NL \<notin> set tag" "CR \<notin> set tag"
    using tag_plain [OF assms(1)] by (simp_all add: plain_tag_def)
  then show "NL \<notin> set line" "CR \<notin> set line"
    using escaped_no_eol [of name] alnum_plain [OF assms(3), of NL] alnum_plain [OF assms(3), of CR] assms(4)
    by (auto simp: line_def)
  show "line \<noteq> []" by (simp add: line_def)
  show "\<not> prefix ''#'' line" using tag assms(4) by (cases tag) (auto simp: line_def)
  have ascii: "utf8_valid (pre @ tag @ '' ('')" "utf8_valid ('') = '' @ s)"
    using tag(3) alnum_ascii [OF assms(3)] assms(4) by (auto intro!: utf8_valid_ascii simp: byte_def)
  then show "utf8_valid line"
    using utf8_valid_append [OF utf8_valid_append [OF ascii(1) escaped_valid [OF assms(2)]] ascii(2)] by (simp add: line_def)
qed

end
