(* ===== verification/Uu_Cksum_Check.thy ===== *)
theory Uu_Cksum_Check
  imports Uu_Cksum_Line
begin

text \<open>
  Checksums of files and their check (\<open>stubs/uucore/src/lib/features/checksum/compute.rs\<close> and \<open>validate.rs\<close>): the run
  over the files of a command line, the run over the lines of a checksum file, the counts and the end.  The file system,
  the standard streams, the hash functions, the encodings and the texts of messages are parameters; what is printed is
  kept as bytes.
\<close>

section \<open>The environment and the streams\<close>

text \<open>What is behind a name: an error of its opening, a directory (perhaps one that cannot be opened), a file whose
  metadata cannot be read, or a file.\<close>

datatype file_view = FileError bytes | FileDir "bytes option" | FileNoMeta bytes input | FileInput input

record cksum_env =
  ce_hashes :: hashes
  ce_hex_encode :: "bytes \<Rightarrow> bytes"
  ce_hex_decode :: "bytes \<Rightarrow> bytes option"
  ce_b64_encode :: "bytes \<Rightarrow> bytes"
  ce_b64_decode :: "bytes \<Rightarrow> bytes option"
  ce_unix :: bool
  ce_windows :: bool
  ce_util :: bytes
  ce_quote :: "bytes \<Rightarrow> bytes"
  ce_maybe_quote :: "bytes \<Rightarrow> bytes"
  ce_translate :: "bytes \<Rightarrow> (bytes \<times> bytes) list \<Rightarrow> bytes"
  ce_encoding :: encoding
  ce_open :: "bytes \<Rightarrow> file_view"

text \<open>What the readers of the standard input get, one after the other, and what was written.\<close>

record cksum_world =
  cw_stdin :: "input list"
  cw_out :: bytes
  cw_err :: bytes
  cw_exit :: nat

definition read_stdin :: "cksum_world \<Rightarrow> input \<times> cksum_world" where
  "read_stdin w = (case cw_stdin w of [] \<Rightarrow> (([], None), w) | inp # rest \<Rightarrow> (inp, w\<lparr>cw_stdin := rest\<rparr>))"

definition put_out :: "bytes \<Rightarrow> cksum_world \<Rightarrow> cksum_world" where
  "put_out s w = w\<lparr>cw_out := cw_out w @ s\<rparr>"

definition put_err :: "bytes \<Rightarrow> cksum_world \<Rightarrow> cksum_world" where
  "put_err s w = w\<lparr>cw_err := cw_err w @ s\<rparr>"

text \<open>A line of the program on the standard error.\<close>

definition log_line :: "cksum_env \<Rightarrow> bytes \<Rightarrow> cksum_world \<Rightarrow> cksum_world" where
  "log_line E s w = put_err (ce_util E @ '': '' @ s @ [NL]) w"

definition warn_caps :: "cksum_env \<Rightarrow> bytes \<Rightarrow> cksum_world \<Rightarrow> cksum_world" where
  "warn_caps E s w = put_err (ce_util E @ '': WARNING: '' @ s @ [NL]) w"

text \<open>\<open>show!\<close> of an error with the code 1.\<close>

definition show_failure :: "cksum_env \<Rightarrow> bytes \<Rightarrow> cksum_world \<Rightarrow> cksum_world" where
  "show_failure E s w = log_line E s (w\<lparr>cw_exit := 1\<rparr>)"

definition show_errors :: "cksum_env \<Rightarrow> checksum_error list \<Rightarrow> cksum_world \<Rightarrow> cksum_world" where
  "show_errors E es w = foldl (\<lambda>w e. log_line E (checksum_error_text (ce_quote E) e) w) w es"

datatype run_end = RunOk | RunError bytes | RunPanics

section \<open>Computation\<close>

definition encode_sum :: "cksum_env \<Rightarrow> digest_format \<Rightarrow> digest_output \<Rightarrow> bytes + bytes" where
  "encode_sum E df out = encode_output (if df = Base64 then ce_b64_encode E else ce_hex_encode E) out"

text \<open>The output for a digest: the bytes, none for a panic, or the text of an error.\<close>

definition render_sum :: "cksum_env \<Rightarrow> compute_options \<Rightarrow> bytes \<Rightarrow> digest_output \<Rightarrow> nat \<Rightarrow> bytes + bytes option" where
  "render_sum E opts name out n =
     (case co_format opts of
        OutRaw \<Rightarrow> Inr (Some (write_raw out))
      | OutLegacy \<Rightarrow> Inr (legacy_line opts name out n)
      | OutTagged df \<Rightarrow> map_sum id (tagged_line opts name) (encode_sum E df out)
      | OutUntagged df mode \<Rightarrow> map_sum id (\<lambda>s. Some (untagged_line opts name s mode)) (encode_sum E df out))"

definition compute_input :: "cksum_env \<Rightarrow> bytes \<Rightarrow> cksum_world \<Rightarrow> (bytes + input) \<times> cksum_world" where
  "compute_input E name w =
     (if name = ''-'' then (let (inp, w') = read_stdin w in (Inr inp, w'))
      else case ce_open E name of
             FileError e \<Rightarrow> (Inl e, w)
           | FileDir e \<Rightarrow> (Inl (or_else e []), w)
           | FileNoMeta e inp \<Rightarrow> (Inr inp, w)
           | FileInput inp \<Rightarrow> (Inr inp, w))"

fun perform_checksum_computation :: "cksum_env \<Rightarrow> compute_options \<Rightarrow> bytes list \<Rightarrow> cksum_world \<Rightarrow> run_end \<times> cksum_world" where
  "perform_checksum_computation E opts [] w = (RunOk, w)"
| "perform_checksum_computation E opts (name # names) w =
     (if co_format opts = OutRaw \<and> names \<noteq> [] then (RunError (checksum_error_text (ce_quote E) RawMultipleFiles), w)
      else if \<exists>e. ce_open E name = FileDir e
      then perform_checksum_computation E opts names
             (show_failure E (ce_translate E ''error-is-a-directory'' [(''file'', from_utf8_lossy name)]) w)
      else case compute_input E name w of
        (Inl e, w') \<Rightarrow> perform_checksum_computation E opts names (show_failure E (from_utf8_lossy name @ '': '' @ e) w')
      | (Inr inp, w') \<Rightarrow>
          (case digest_reader (ce_hashes E) (ce_windows E) (co_algo opts) inp ModeBinary of
             Inl e \<Rightarrow> (RunError (ce_translate E ''checksum-error-failed-to-read-input'' [] @ '': '' @ e), w')
           | Inr (out, n) \<Rightarrow>
               (case render_sum E opts name out n of
                  Inl e \<Rightarrow> (RunError e, w')
                | Inr None \<Rightarrow> (RunPanics, w')
                | Inr (Some s) \<Rightarrow>
                    if co_format opts = OutRaw then (RunOk, put_out s w')
                    else perform_checksum_computation E opts names (put_out (s @ line_ending_bytes (co_ending opts)) w'))))"

section \<open>Check of a line\<close>

datatype verbosity = VStatus | VQuiet | VNormal | VWarning

definition verbosity_new :: "bool \<Rightarrow> bool \<Rightarrow> bool \<Rightarrow> verbosity" where
  "verbosity_new status quiet warn = (if status then VStatus else if quiet then VQuiet else if warn then VWarning else VNormal)"

definition over_status :: "verbosity \<Rightarrow> bool" where "over_status v \<longleftrightarrow> v \<noteq> VStatus"
definition over_quiet :: "verbosity \<Rightarrow> bool" where "over_quiet v \<longleftrightarrow> v \<noteq> VStatus \<and> v \<noteq> VQuiet"
definition at_least_warning :: "verbosity \<Rightarrow> bool" where "at_least_warning v \<longleftrightarrow> v = VWarning"

record validate_options =
  vo_ignore_missing :: bool
  vo_strict :: bool
  vo_verbose :: verbosity

datatype line_error = LcError bytes | LcMismatch | LcSkipped | LcImproper | LcCantOpen | LcNotFound | LcIsDirectory | LcPanics

datatype file_report = ReportOk | ReportFailed | ReportCantOpen

definition report_of :: "bool \<Rightarrow> file_report" where
  "report_of ok = (if ok then ReportOk else ReportFailed)"

fun can_display :: "file_report \<Rightarrow> verbosity \<Rightarrow> bool" where
  "can_display ReportOk v = over_quiet v"
| "can_display ReportFailed v = over_status v"
| "can_display ReportCantOpen v = True"

fun report_text :: "file_report \<Rightarrow> bytes" where
  "report_text ReportOk = ''OK''"
| "report_text ReportFailed = ''FAILED''"
| "report_text ReportCantOpen = ''FAILED open or read''"

definition write_file_report :: "bytes \<Rightarrow> file_report \<Rightarrow> bytes \<Rightarrow> verbosity \<Rightarrow> cksum_world \<Rightarrow> cksum_world" where
  "write_file_report name r pre v w =
     (if can_display r v then put_out (pre @ name @ '': '' @ report_text r @ [NL]) w else w)"

definition shell_name :: "cksum_env \<Rightarrow> bytes \<Rightarrow> bytes" where
  "shell_name E name = from_utf8_lossy (escape_name (ce_unix E) name SHELL_ESCAPE (ce_encoding E))"

definition non_utf8_text :: "bytes \<Rightarrow> bytes" where
  "non_utf8_text quoted = ''invalid UTF-8 input '' @ quoted @ '' encountered when converting to bytes on a platform that doesn't expose byte arguments''"

definition get_file_to_check :: "cksum_env \<Rightarrow> validate_options \<Rightarrow> bytes \<Rightarrow> cksum_world \<Rightarrow> (line_error + input) \<times> cksum_world" where
  "get_file_to_check E opts name w =
     (let failed = (\<lambda>e w. write_file_report name ReportCantOpen [] (vo_verbose opts) (show_failure E (shell_name E name @ '': '' @ e) w));
          not_found = (\<lambda>e. (Inl LcNotFound, if vo_ignore_missing opts then w else failed e w))
      in if \<not> ce_unix E \<and> \<not> utf8_valid name then (Inl (LcError (non_utf8_text (ce_quote E (from_utf8_lossy name)))), w)
         else if name = ''-'' then (let (inp, w') = read_stdin w in (Inr inp, w'))
         else case ce_open E name of
                FileError e \<Rightarrow> not_found e
              | FileDir (Some e) \<Rightarrow> not_found e
              | FileDir None \<Rightarrow> (Inl LcIsDirectory, failed ''Is a directory'' w)
              | FileNoMeta e inp \<Rightarrow> (Inl LcCantOpen, w)
              | FileInput inp \<Rightarrow> (Inr inp, w))"

definition compute_and_check ::
    "cksum_env \<Rightarrow> validate_options \<Rightarrow> bytes \<Rightarrow> bytes \<Rightarrow> sized_algo \<Rightarrow> cksum_world \<Rightarrow> (line_error + unit) \<times> cksum_world" where
  "compute_and_check E opts name expected a w =
     (let (real, pre) = unescape_filename name
      in if \<not> ce_unix E \<and> \<not> utf8_valid real then (Inl (LcError ''Unable to transform bytes into OsStr''), w)
         else case get_file_to_check E opts real w of
           (Inl e, w') \<Rightarrow> (Inl e, w')
         | (Inr inp, w') \<Rightarrow>
             (case digest_reader (ce_hashes E) (ce_windows E) a inp ModeText of
                Inl e \<Rightarrow> (Inl LcCantOpen, write_file_report name ReportCantOpen pre (vo_verbose opts)
                                            (show_failure E (shell_name E real @ '': '' @ e) w'))
              | Inr (out, _) \<Rightarrow>
                  (let ok = (write_raw out = expected)
                   in (if ok then Inr () else Inl LcMismatch, write_file_report name (report_of ok) pre (vo_verbose opts) w'))))"

text \<open>The algorithm with its length, then the file.\<close>

definition check_sized ::
    "cksum_env \<Rightarrow> validate_options \<Rightarrow> bytes \<Rightarrow> bytes \<Rightarrow> algo_kind \<Rightarrow> nat option \<Rightarrow> cksum_world \<Rightarrow> (line_error + unit) \<times> cksum_world" where
  "check_sized E opts name expected k len w =
     (case from_unsized k len of
        (shown, Inl e) \<Rightarrow> (Inl (LcError (checksum_error_text (ce_quote E) e)), show_errors E shown w)
      | (shown, Inr a) \<Rightarrow> compute_and_check E opts name expected a (show_errors E shown w))"

text \<open>The state of the check of a file: the format of its lines, the last algorithm, the streams.\<close>

record check_state =
  ck_cached :: "line_format option"
  ck_last :: "bytes option"
  ck_world :: cksum_world

definition process_algo_based_line ::
    "cksum_env \<Rightarrow> validate_options \<Rightarrow> line_info \<Rightarrow> algo_kind option \<Rightarrow> check_state \<Rightarrow> (line_error + unit) \<times> check_state" where
  "process_algo_based_line E opts info cli st =
     (case identify_algo info cli (ck_last st) of
        (None, last_algo) \<Rightarrow> (Inl LcImproper, st\<lparr>ck_last := last_algo\<rparr>)
      | (Some (k, len), last_algo) \<Rightarrow>
          (case get_raw_expected_digest (ce_hex_decode E) (ce_b64_decode E) (li_checksum info) (if k = AkBlake2b then len else None) of
             None \<Rightarrow> (Inl LcImproper, st\<lparr>ck_last := last_algo\<rparr>)
           | Some expected \<Rightarrow>
               (let (r, w) = check_sized E opts (li_file info) expected k len (ck_world st)
                in (r, st\<lparr>ck_last := last_algo, ck_world := w\<rparr>))))"

definition process_non_algo_based_line ::
    "cksum_env \<Rightarrow> validate_options \<Rightarrow> nat \<Rightarrow> line_info \<Rightarrow> algo_kind \<Rightarrow> nat option \<Rightarrow> check_state \<Rightarrow> (line_error + unit) \<times> check_state" where
  "process_non_algo_based_line E opts i info cli cli_length st =
     (let name = (if prefix ''*'' (li_file info) \<and> i = 0 \<and> li_format info = SingleSpace then tl (li_file info) else li_file info)
      in case get_raw_expected_digest (ce_hex_decode E) (ce_b64_decode E) (li_checksum info) None of
           None \<Rightarrow> (Inl LcImproper, st)
         | Some expected \<Rightarrow>
             (let len = (if cli = AkBlake2b then Some (length expected)
                         else if cli = AkSha2 \<or> cli = AkSha3 then Some (length expected * 8) else cli_length);
                  (r, w) = check_sized E opts name expected cli len (ck_world st)
              in (r, st\<lparr>ck_world := w\<rparr>)))"

definition process_checksum_line ::
    "cksum_env \<Rightarrow> validate_options \<Rightarrow> bytes \<Rightarrow> nat \<Rightarrow> algo_kind option \<Rightarrow> nat option \<Rightarrow> check_state \<Rightarrow> (line_error + unit) \<times> check_state" where
  "process_checksum_line E opts line i cli cli_length st =
     (if \<not> ce_unix E \<and> \<not> utf8_valid line then (Inl (LcError (non_utf8_text (ce_quote E (from_utf8_lossy line)))), st)
      else if line = [] \<or> prefix ''#'' line then (Inl LcSkipped, st)
      else case line_info_parse (ce_unix E) line (ck_cached st) of
        None \<Rightarrow> (Inl LcPanics, st)
      | Some (None, cached) \<Rightarrow> (Inl LcImproper, st\<lparr>ck_cached := cached\<rparr>)
      | Some (Some info, cached) \<Rightarrow>
          (let st = st\<lparr>ck_cached := cached\<rparr>
           in if li_format info = AlgoBased then process_algo_based_line E opts info cli st
              else case cli of Some k \<Rightarrow> process_non_algo_based_line E opts i info k cli_length st
                             | None \<Rightarrow> (Inl LcImproper, st)))"

section \<open>Check of a file\<close>

record counts =
  cn_correct :: nat
  cn_failed :: nat
  cn_open :: nat
  cn_format :: nat
  cn_total :: nat

definition no_counts :: counts where
  "no_counts = \<lparr>cn_correct = 0, cn_failed = 0, cn_open = 0, cn_format = 0, cn_total = 0\<rparr>"

definition properly_formatted :: "counts \<Rightarrow> nat" where
  "properly_formatted c = cn_total c - cn_format c"

fun count_line :: "bool \<Rightarrow> line_error + unit \<Rightarrow> counts \<Rightarrow> counts" where
  "count_line ignore (Inr _) c = c\<lparr>cn_total := cn_total c + 1, cn_correct := cn_correct c + 1\<rparr>"
| "count_line ignore (Inl e) c =
     (case e of
        LcSkipped \<Rightarrow> c
      | LcMismatch \<Rightarrow> c\<lparr>cn_total := cn_total c + 1, cn_failed := cn_failed c + 1\<rparr>
      | LcImproper \<Rightarrow> c\<lparr>cn_total := cn_total c + 1, cn_format := cn_format c + 1\<rparr>
      | LcCantOpen \<Rightarrow> c\<lparr>cn_total := cn_total c + 1, cn_open := cn_open c + 1\<rparr>
      | LcIsDirectory \<Rightarrow> c\<lparr>cn_total := cn_total c + 1, cn_open := cn_open c + 1\<rparr>
      | LcNotFound \<Rightarrow> c\<lparr>cn_total := cn_total c + 1, cn_open := cn_open c + (if ignore then 0 else 1)\<rparr>
      | _ \<Rightarrow> c\<lparr>cn_total := cn_total c + 1\<rparr>)"

text \<open>The warning on a line that is not properly formatted; lines are numbered from one.\<close>

definition warn_format :: "cksum_env \<Rightarrow> validate_options \<Rightarrow> bytes \<Rightarrow> nat \<Rightarrow> algo_kind option \<Rightarrow> line_error + unit \<Rightarrow> check_state \<Rightarrow> check_state" where
  "warn_format E opts file i cli r st =
     (if r = Inl LcImproper \<and> at_least_warning (vo_verbose opts)
      then st\<lparr>ck_world := log_line E (ce_translate E ''checksum-error-algo-bad-format''
                [(''file'', ce_maybe_quote E file), (''line'', show_nat (i + 1)),
                 (''algo'', case cli of Some k \<Rightarrow> algo_uppercase k | None \<Rightarrow> or_else (ck_last st) ''Unknown algorithm'')])
                (ck_world st)\<rparr>
      else st)"

datatype file_error = FcError bytes | FcCantOpen | FcFailed | FcPanics

text \<open>The lines of a checksum file, or an error of the reading in their place; where names must be UTF-8 a line that is
  not is a panic.\<close>

fun check_lines ::
    "cksum_env \<Rightarrow> validate_options \<Rightarrow> bytes \<Rightarrow> algo_kind option \<Rightarrow> nat option \<Rightarrow> nat \<Rightarrow> bytes option list \<Rightarrow> counts \<Rightarrow> check_state
       \<Rightarrow> (file_error + counts) \<times> check_state" where
  "check_lines E opts file cli len i [] c st = (Inr c, st)"
| "check_lines E opts file cli len i (None # ls) c st = (Inl (FcError (ce_maybe_quote E file @ '': read error'')), st)"
| "check_lines E opts file cli len i (Some line # ls) c st =
     (if \<not> ce_unix E \<and> \<not> utf8_valid line then (Inl FcPanics, st)
      else case process_checksum_line E opts line i cli len st of
        (Inl (LcError e), st') \<Rightarrow> (Inl (FcError e), st')
      | (Inl LcPanics, st') \<Rightarrow> (Inl FcPanics, st')
      | (r, st') \<Rightarrow> check_lines E opts file cli len (Suc i) ls (count_line (vo_ignore_missing opts) r c)
                      (warn_format E opts file i cli r st'))"

text \<open>The lines that are read, without their ends; the bytes after the last line feed are lost when the reading fails.\<close>

definition byte_lines :: "input \<Rightarrow> bytes option list" where
  "byte_lines inp =
     (let ls = split_inclusive_nl (concat (fst inp))
      in case snd inp of
           None \<Rightarrow> map (\<lambda>l. Some (strip_eol l)) ls
         | Some e \<Rightarrow> map (\<lambda>l. Some (strip_eol l)) (filter (\<lambda>l. suffix [NL] l) ls) @ [None])"

definition get_input_file :: "cksum_env \<Rightarrow> bytes \<Rightarrow> bytes + input" where
  "get_input_file E name =
     (let missing = ce_maybe_quote E name @ '': '' @ ce_translate E ''error-file-not-found'' []
      in case ce_open E name of
           FileError e \<Rightarrow> Inl missing
         | FileDir (Some e) \<Rightarrow> Inl missing
         | FileDir None \<Rightarrow> Inl (ce_translate E ''error-is-a-directory'' [(''file'', ce_maybe_quote E name)])
         | FileNoMeta e inp \<Rightarrow> Inl e
         | FileInput inp \<Rightarrow> Inr inp)"

definition print_cksum_report :: "cksum_env \<Rightarrow> counts \<Rightarrow> cksum_world \<Rightarrow> cksum_world" where
  "print_cksum_report E c w =
     (let warn = (\<lambda>key n w. if n > 0 then warn_caps E (ce_translate E key [(''count'', show_nat n)]) w else w)
      in warn ''checksum-failed-open-file'' (cn_open c)
           (warn ''checksum-failed-cksum'' (cn_failed c) (warn ''checksum-bad-format'' (cn_format c) w)))"

text \<open>The end of the check of a file, from the counts.\<close>

definition conclude :: "cksum_env \<Rightarrow> validate_options \<Rightarrow> bytes \<Rightarrow> counts \<Rightarrow> cksum_world \<Rightarrow> (file_error + unit) \<times> cksum_world" where
  "conclude E opts shown_name c w =
     (let loud = over_status (vo_verbose opts); say = (\<lambda>key. log_line E (ce_translate E key [(''checksum_file'', shown_name)]))
      in if properly_formatted c = 0 then (Inl FcFailed, if loud then say ''checksum-no-properly-formatted'' w else w)
         else (let w = (if loud then print_cksum_report E c w else w)
               in if vo_ignore_missing opts \<and> cn_correct c = 0
                  then (Inl FcFailed, if loud then say ''checksum-no-file-verified'' w else w)
                  else if vo_strict opts \<and> cn_format c > 0 then (Inl FcFailed, w)
                  else if cn_open c > 0 \<and> \<not> vo_ignore_missing opts then (Inl FcFailed, w)
                  else if cn_failed c > 0 then (Inl FcFailed, w)
                  else (Inr (), w)))"

definition process_checksum_file ::
    "cksum_env \<Rightarrow> validate_options \<Rightarrow> bytes \<Rightarrow> algo_kind option \<Rightarrow> nat option \<Rightarrow> cksum_world \<Rightarrow> (file_error + unit) \<times> cksum_world" where
  "process_checksum_file E opts file cli len w =
     (case (if file = ''-'' then (let (inp, w') = read_stdin w in (Inr inp, w')) else (get_input_file E file, w)) of
        (Inl e, w') \<Rightarrow> (Inl FcCantOpen, log_line E e w')
      | (Inr inp, w') \<Rightarrow>
          (case check_lines E opts file cli len 0 (byte_lines inp) no_counts \<lparr>ck_cached = None, ck_last = None, ck_world = w'\<rparr> of
             (Inl e, st) \<Rightarrow> (Inl e, ck_world st)
           | (Inr c, st) \<Rightarrow>
               conclude E opts (ce_maybe_quote E (if file = ''-'' then ''standard input'' else file)) c (ck_world st)))"

fun perform_checksum_validation ::
    "cksum_env \<Rightarrow> validate_options \<Rightarrow> bytes list \<Rightarrow> algo_kind option \<Rightarrow> nat option \<Rightarrow> bool \<Rightarrow> cksum_world \<Rightarrow> run_end \<times> cksum_world" where
  "perform_checksum_validation E opts [] cli len failed w = (if failed then RunError [] else RunOk, w)"
| "perform_checksum_validation E opts (file # files) cli len failed w =
     (case process_checksum_file E opts file cli len w of
        (Inl (FcError e), w') \<Rightarrow> (RunError e, w')
      | (Inl FcPanics, w') \<Rightarrow> (RunPanics, w')
      | (Inl _, w') \<Rightarrow> perform_checksum_validation E opts files cli len True w'
      | (Inr _, w') \<Rightarrow> perform_checksum_validation E opts files cli len failed w')"

section \<open>A line that was printed\<close>

text \<open>What the crates for hexadecimal and for the hash functions document.\<close>

definition hex_laws :: "cksum_env \<Rightarrow> bool" where
  "hex_laws E \<longleftrightarrow> (\<forall>d. ce_hex_decode E (ce_hex_encode E d) = Some d \<and> length (ce_hex_encode E d) = 2 * length d
     \<and> list_all alnum (ce_hex_encode E d))"

definition hash_laws :: "hashes \<Rightarrow> bool" where
  "hash_laws H \<longleftrightarrow> (\<forall>a s. length (h_fixed H a s) = digest_bits a div 8) \<and> (\<forall>n s. length (h_blake2b H n s) = n)
     \<and> (\<forall>n s. length (h_shake128 H n s) = n) \<and> (\<forall>n s. length (h_shake256 H n s) = n)"

text \<open>The algorithms that a tagged line names in full.\<close>

definition checkable :: "sized_algo \<Rightarrow> bool" where
  "checkable a \<longleftrightarrow> to_tag a \<noteq> None \<and> proper_algo a \<and> a \<noteq> SzBlake3
     \<and> (\<forall>n. a \<noteq> SzShake128 (Some n) \<and> a \<noteq> SzShake256 (Some n))"

lemma checkable_digest:
  assumes "hash_laws H" "checkable a"
  shows "\<exists>d. digest_of H a s = DigestVec d \<and> length d = digest_bits a div 8 \<and> d \<noteq> []"
proof -
  have "digest_bits a div 8 \<noteq> 0"
  proof (cases a)
    case (SzSha2 l)
    then show ?thesis by (cases l) simp_all
  next
    case (SzSha3 l)
    then show ?thesis by (cases l) simp_all
  qed (use assms(2) in \<open>auto simp: checkable_def proper_algo_def or_else_def split: option.splits\<close>)
  moreover have "\<exists>d. digest_of H a s = DigestVec d \<and> length d = digest_bits a div 8"
    using assms by (cases a) (auto simp: hash_laws_def checkable_def shake_result_def or_else_def Let_def split: option.splits)
  ultimately show ?thesis by fastforce
qed

fun tag_kind :: "sized_algo \<Rightarrow> algo_kind" where
  "tag_kind SzSm3 = AkSm3"
| "tag_kind SzSha1 = AkSha1"
| "tag_kind (SzSha2 Len224) = AkSha224"
| "tag_kind (SzSha2 Len256) = AkSha256"
| "tag_kind (SzSha2 Len384) = AkSha384"
| "tag_kind (SzSha2 Len512) = AkSha512"
| "tag_kind (SzSha3 _) = AkSha3"
| "tag_kind (SzBlake2b _) = AkBlake2b"
| "tag_kind (SzShake128 _) = AkShake128"
| "tag_kind (SzShake256 _) = AkShake256"
| "tag_kind _ = AkMd5"

lemma kind_of_names:
  "list_all (\<lambda>(name, k). from_cksum (map ascii_lower name) = Inr k)
     [(''MD5'', AkMd5), (''SM3'', AkSm3), (''SHA1'', AkSha1), (''SHA224'', AkSha224), (''SHA256'', AkSha256),
      (''SHA384'', AkSha384), (''SHA512'', AkSha512), (''SHA3'', AkSha3), (''BLAKE2b'', AkBlake2b), (''SHAKE128'', AkShake128),
      (''SHAKE256'', AkShake256)]"
  by code_simp

lemma kind_of_tag:
  assumes "checkable a"
  shows "from_cksum (map ascii_lower (fst (tag_parts a))) = Inr (tag_kind a)"
proof -
  have "(fst (tag_parts a), tag_kind a) \<in> set
     [(''MD5'', AkMd5), (''SM3'', AkSm3), (''SHA1'', AkSha1), (''SHA224'', AkSha224), (''SHA256'', AkSha256),
      (''SHA384'', AkSha384), (''SHA512'', AkSha512), (''SHA3'', AkSha3), (''BLAKE2b'', AkBlake2b), (''SHAKE128'', AkShake128),
      (''SHAKE256'', AkShake256)]"
    using assms sha_bits_shown by (cases a rule: tag_parts.cases) (auto simp: checkable_def split: sha_length.splits)
  then show ?thesis using kind_of_names unfolding list_all_iff by blast
qed

lemma sha_length_of_bits [simp]: "sha_length_of (sha_bits l) = Some l"
  by (cases l) (simp_all add: sha_length_of_def)

lemma sha_bits_cases: "sha_bits l \<noteq> 224 \<Longrightarrow> sha_bits l \<noteq> 256 \<Longrightarrow> sha_bits l \<noteq> 512 \<Longrightarrow> sha_bits l = 384"
  by (cases l) simp_all

text \<open>The algorithm of a line is the one of its tag.\<close>

lemma identify_tag:
  assumes "checkable a" "li_algo info = Some (fst (tag_parts a))" "li_bits info = snd (tag_parts a)"
  shows "\<exists>k len. identify_algo info None prev = (Some (k, len), Some (fst (tag_parts a))) \<and> from_unsized k len = ([], Inr a)
    \<and> (k = AkBlake2b \<longrightarrow> len = Some (digest_bits a div 8))"
proof -
  define k where "k = tag_kind a"
  define bits where "bits = snd (tag_parts a)"
  have "identify_algo info None prev
      = ((case bits of
            Some n \<Rightarrow> if k = AkBlake2b \<and> n mod 8 = 0 then Some (k, Some (n div 8))
                      else if k \<in> {AkSha2, AkSha3} \<and> n \<in> {224, 256, 384, 512} then Some (k, Some n) else None
          | None \<Rightarrow> if k = AkBlake2b then Some (k, Some 64) else Some (k, None)), Some (fst (tag_parts a)))"
    using assms(2,3) kind_of_tag [OF assms(1)] unfolding k_def bits_def
    by (simp add: identify_algo_def or_else_def del: tag_parts.simps)
  then show ?thesis using assms(1)
    by (cases a rule: tag_kind.cases; cases "case a of SzBlake2b n \<Rightarrow> n | _ \<Rightarrow> None")
      (auto simp: k_def bits_def checkable_def proper_algo_def blake2b_length sha_length_try_from_def or_else_def
        dest: sha_bits_cases split: sha_length.splits if_splits)
qed

lemma expected_digest:
  assumes "hex_laws E" "hint = None \<or> hint = Some (length d)"
  shows "get_raw_expected_digest (ce_hex_decode E) b64 (ce_hex_encode E d) hint = Some d"
  using assms by (auto simp: get_raw_expected_digest_def hex_laws_def Let_def)

text \<open>A file that can be read: the check compares its digest.\<close>

definition readable :: "(bytes \<Rightarrow> file_view) \<Rightarrow> bytes \<Rightarrow> bytes \<Rightarrow> bool" where
  "readable fs name content \<longleftrightarrow> (\<exists>pieces. fs name = FileInput (pieces, None) \<and> [] \<notin> set pieces \<and> concat pieces = content)"

lemma compute_and_check_readable:
  assumes "readable (ce_open E) name content" "utf8_valid name" "name \<noteq> ''-''" "\<not> ce_windows E"
  shows "\<exists>w'. compute_and_check E opts (escape_specials name) expected a w
    = (if write_raw (digest_of (ce_hashes E) a content) = expected then Inr () else Inl LcMismatch, w')"
proof -
  obtain pieces where p: "ce_open E name = FileInput (pieces, None)" "[] \<notin> set pieces" "concat pieces = content"
    using assms(1) by (auto simp: readable_def)
  have "get_file_to_check E opts name w = (Inr (pieces, None), w)"
    using assms p by (simp add: get_file_to_check_def)
  then show ?thesis using assms p
    by (simp add: compute_and_check_def unescape_filename_def digest_reader_whole Let_def)
qed

text \<open>A line that was printed with a digest: it matches exactly when the file has the digest now.\<close>

lemma tagged_line_checked:
  assumes "checkable (co_algo opts)" "co_ending opts = LineNewline" "hex_laws E" "hash_laws (ce_hashes E)"
    "utf8_valid name" "name \<noteq> ''-''" "\<not> ce_windows E" "readable (ce_open E) name content" "length d = digest_bits (co_algo opts) div 8" "d \<noteq> []"
  shows "\<exists>line w prev. tagged_line opts name (ce_hex_encode E d) = Some line
    \<and> utf8_valid line \<and> NL \<notin> set line \<and> CR \<notin> set line
    \<and> process_checksum_line E vo line i None len st
      = (if digest_of (ce_hashes E) (co_algo opts) content = DigestVec d then Inr () else Inl LcMismatch,
         st\<lparr>ck_last := prev, ck_world := w\<rparr>)"
proof -
  let ?a = "co_algo opts" and ?hex = "ce_hex_encode E d"
  obtain tag where tag: "to_tag ?a = Some tag" using assms(1) by (auto simp: checkable_def)
  have proper: "proper_algo ?a" using assms(1) by (simp add: checkable_def)
  have hex: "list_all alnum ?hex" "?hex \<noteq> []"
    using assms(3,10) by (auto simp: hex_laws_def) (metis length_0_conv mult_is_0 zero_neq_numeral)
  obtain pre where pre: "pre \<in> {[], [BSL]}" "tagged_line opts name ?hex = Some (pre @ tag @ '' ('' @ escape_specials name @ '') = '' @ ?hex)"
    using tagged_line_text [OF tag assms(2,5)] by blast
  define line where "line = pre @ tag @ '' ('' @ escape_specials name @ '') = '' @ ?hex"
  note plain = tagged_line_plain [OF tag assms(5) hex(1) pre(1), folded line_def]
  define info where "info = \<lparr>li_algo = Some (fst (tag_parts ?a)), li_bits = snd (tag_parts ?a), li_checksum = ?hex,
    li_file = escape_specials name, li_format = AlgoBased\<rparr>"
  have parsed: "line_info_parse (ce_unix E) line (ck_cached st) = Some (Some info, ck_cached st)"
    using parse_tagged [OF tag proper hex pre(1), of "escape_specials name", folded line_def info_def] plain(1)
    by (simp add: line_info_parse_def os_str_as_bytes_def)
  obtain k kl where k: "identify_algo info None (ck_last st) = (Some (k, kl), Some (fst (tag_parts ?a)))"
      "from_unsized k kl = ([], Inr ?a)" "k = AkBlake2b \<longrightarrow> kl = Some (digest_bits ?a div 8)"
    using identify_tag [OF assms(1), of info "ck_last st"] by (auto simp: info_def)
  have expected: "get_raw_expected_digest (ce_hex_decode E) (ce_b64_decode E) ?hex (if k = AkBlake2b then kl else None) = Some d"
    using k(3) assms(9) by (intro expected_digest [OF assms(3)]) simp
  obtain w where w: "compute_and_check E vo (escape_specials name) d ?a (ck_world st)
      = (if write_raw (digest_of (ce_hashes E) ?a content) = d then Inr () else Inl LcMismatch, w)"
    using compute_and_check_readable [OF assms(8,5,6,7)] by blast
  have same: "write_raw (digest_of (ce_hashes E) ?a content) = d \<longleftrightarrow> digest_of (ce_hashes E) ?a content = DigestVec d"
    using checkable_digest [OF assms(4,1), of content] by auto
  have "process_checksum_line E vo line i None len st
      = (if digest_of (ce_hashes E) ?a content = DigestVec d then Inr () else Inl LcMismatch,
         st\<lparr>ck_cached := ck_cached st, ck_last := Some (fst (tag_parts ?a)), ck_world := w\<rparr>)"
    using plain(1,3,4) parsed k expected w same
    by (simp add: process_checksum_line_def process_algo_based_line_def check_sized_def show_errors_def info_def)
  moreover have "st\<lparr>ck_cached := ck_cached st, ck_last := p, ck_world := w\<rparr> = st\<lparr>ck_last := p, ck_world := w\<rparr>" for p by simp
  ultimately show ?thesis using pre(2) [folded line_def] plain(1,2,5) by metis
qed

section \<open>A checksum file that was printed\<close>

definition sum_lines :: "cksum_env \<Rightarrow> compute_options \<Rightarrow> (bytes \<Rightarrow> bytes) \<Rightarrow> bytes list \<Rightarrow> bytes list" where
  "sum_lines E opts content names =
     map (\<lambda>n. the (tagged_line opts n (ce_hex_encode E (write_raw (digest_of (ce_hashes E) (co_algo opts) (content n)))))) names"

definition sum_text :: "bytes list \<Rightarrow> bytes" where
  "sum_text ls = concat (map (\<lambda>l. l @ [NL]) ls)"

text \<open>The printing of a checksum file for files that can be read.\<close>

definition tagged_run :: "cksum_env \<Rightarrow> compute_options \<Rightarrow> bytes list \<Rightarrow> (bytes \<Rightarrow> bytes) \<Rightarrow> bool" where
  "tagged_run E opts names content \<longleftrightarrow>
     checkable (co_algo opts) \<and> co_format opts = OutTagged Hexadecimal \<and> co_ending opts = LineNewline
     \<and> hex_laws E \<and> hash_laws (ce_hashes E) \<and> \<not> ce_windows E
     \<and> (\<forall>n\<in>set names. utf8_valid n \<and> n \<noteq> ''-'' \<and> readable (ce_open E) n (content n))"

lemma tagged_computation:
  "tagged_run E opts names content \<Longrightarrow>
     perform_checksum_computation E opts names w = (RunOk, w\<lparr>cw_out := cw_out w @ sum_text (sum_lines E opts content names)\<rparr>)"
proof (induction names arbitrary: w)
  case Nil
  then show ?case by (simp add: sum_lines_def sum_text_def)
next
  case (Cons n names)
  let ?a = "co_algo opts"
  obtain pieces where p: "ce_open E n = FileInput (pieces, None)" "[] \<notin> set pieces" "concat pieces = content n"
    using Cons.prems by (auto simp: tagged_run_def readable_def)
  obtain d where d: "digest_of (ce_hashes E) ?a (content n) = DigestVec d"
    using Cons.prems checkable_digest by (meson tagged_run_def)
  obtain line where line: "tagged_line opts n (ce_hex_encode E d) = Some line"
    using Cons.prems by (auto simp: tagged_run_def checkable_def tagged_line_def prod.case_eq_if)
  have "digest_reader (ce_hashes E) (ce_windows E) ?a (pieces, None) ModeBinary = Inr (DigestVec d, length (content n) mod 2 ^ 32)"
    using p d by (simp add: digest_reader_whole)
  moreover have "render_sum E opts n (DigestVec d) m = Inr (Some line)" for m
    using Cons.prems line by (simp add: tagged_run_def render_sum_def encode_sum_def)
  ultimately have "perform_checksum_computation E opts (n # names) w
      = perform_checksum_computation E opts names (put_out (line @ [NL]) w)"
    using Cons.prems p by (simp add: tagged_run_def compute_input_def)
  moreover have "tagged_run E opts names content" using Cons.prems by (simp add: tagged_run_def)
  ultimately show ?case using Cons.IH by (simp add: sum_lines_def sum_text_def put_out_def d line)
qed

text \<open>The lines of it, with other contents.\<close>

definition add_counts :: "counts \<Rightarrow> nat \<Rightarrow> nat \<Rightarrow> counts" where
  "add_counts c good bad = c\<lparr>cn_correct := cn_correct c + good, cn_failed := cn_failed c + bad, cn_total := cn_total c + (good + bad)\<rparr>"

definition same_digest :: "cksum_env \<Rightarrow> compute_options \<Rightarrow> (bytes \<Rightarrow> bytes) \<Rightarrow> (bytes \<Rightarrow> bytes) \<Rightarrow> bytes \<Rightarrow> bool" where
  "same_digest E opts before now n \<longleftrightarrow>
     digest_of (ce_hashes E) (co_algo opts) (now n) = digest_of (ce_hashes E) (co_algo opts) (before n)"

lemma add_count_good: "add_counts (count_line ig (Inr u) c) g b = add_counts c (g + Suc 0) b"
  by (simp add: add_counts_def)

lemma add_count_bad: "add_counts (count_line ig (Inl LcMismatch) c) g b = add_counts c g (b + Suc 0)"
  by (simp add: add_counts_def)

lemma tagged_lines_checked:
  assumes "tagged_run E opts names before" "\<forall>n\<in>set names. readable fs n (now n)"
  shows "\<exists>st'. check_lines (E\<lparr>ce_open := fs\<rparr>) vo file None len i (map Some (sum_lines E opts before names)) c st
    = (Inr (add_counts c (length (filter (same_digest E opts before now) names))
                         (length (filter (\<lambda>n. \<not> same_digest E opts before now n) names))), st')"
  using assms
proof (induction names arbitrary: i c st)
  case Nil
  then show ?case by (simp add: sum_lines_def add_counts_def)
next
  case (Cons n names)
  let ?a = "co_algo opts" and ?F = "E\<lparr>ce_open := fs\<rparr>"
  have run: "tagged_run E opts names before" "\<forall>n\<in>set names. readable fs n (now n)"
    using Cons.prems by (simp_all add: tagged_run_def)
  have head: "checkable ?a" "co_ending opts = LineNewline" "hex_laws E" "hash_laws (ce_hashes E)" "utf8_valid n" "n \<noteq> ''-''"
      "\<not> ce_windows E" "readable fs n (now n)"
    using Cons.prems by (simp_all add: tagged_run_def)
  obtain d where d: "digest_of (ce_hashes E) ?a (before n) = DigestVec d" "length d = digest_bits ?a div 8" "d \<noteq> []"
    using checkable_digest [OF head(4,1)] by blast
  have F: "hex_laws ?F" "hash_laws (ce_hashes ?F)" "\<not> ce_windows ?F" "readable (ce_open ?F) n (now n)"
    using head by (simp_all add: hex_laws_def)
  obtain line w prev where line: "tagged_line opts n (ce_hex_encode E d) = Some line" "utf8_valid line"
      "process_checksum_line ?F vo line i None len st
       = (if same_digest E opts before now n then Inr () else Inl LcMismatch, st\<lparr>ck_last := prev, ck_world := w\<rparr>)"
    using tagged_line_checked [OF head(1,2) F(1,2) head(5,6) F(3,4) d(2,3), of vo i len st] by (auto simp: same_digest_def d)
  define st2 where "st2 = st\<lparr>ck_last := prev, ck_world := w\<rparr>"
  have lines: "sum_lines E opts before (n # names) = line # sum_lines E opts before names"
    using line(1) by (simp add: sum_lines_def d)
  show ?case
  proof (cases "same_digest E opts before now n")
    case True
    then have "check_lines ?F vo file None len i (map Some (sum_lines E opts before (n # names))) c st
        = check_lines ?F vo file None len (Suc i) (map Some (sum_lines E opts before names)) (count_line (vo_ignore_missing vo) (Inr ()) c) st2"
      using line(2,3) by (simp add: lines warn_format_def st2_def)
    then show ?thesis using Cons.IH [OF run, of "Suc i" "count_line (vo_ignore_missing vo) (Inr ()) c" st2] True
      by (simp only: add_count_good list.size filter.simps if_True not_True_eq_False if_False)
  next
    case False
    then have "check_lines ?F vo file None len i (map Some (sum_lines E opts before (n # names))) c st
        = check_lines ?F vo file None len (Suc i) (map Some (sum_lines E opts before names)) (count_line (vo_ignore_missing vo) (Inl LcMismatch) c) st2"
      using line(2,3) by (simp add: lines warn_format_def st2_def)
    then show ?thesis using Cons.IH [OF run, of "Suc i" "count_line (vo_ignore_missing vo) (Inl LcMismatch) c" st2] False
      by (simp only: add_count_bad list.size filter.simps if_True not_False_eq_True if_False)
  qed
qed

lemma byte_lines_sum_text:
  assumes "tagged_run E opts names content" "concat pieces = sum_text (sum_lines E opts content names)"
  shows "byte_lines (pieces, None) = map Some (sum_lines E opts content names)"
proof -
  have plain: "NL \<notin> set l \<and> CR \<notin> set l" if l: "l \<in> set (sum_lines E opts content names)" for l
  proof -
    obtain n where n: "n \<in> set names"
        "l = the (tagged_line opts n (ce_hex_encode E (write_raw (digest_of (ce_hashes E) (co_algo opts) (content n)))))"
      using l by (auto simp: sum_lines_def)
    then have head: "checkable (co_algo opts)" "co_ending opts = LineNewline" "hex_laws E" "hash_laws (ce_hashes E)" "utf8_valid n"
        "n \<noteq> ''-''" "\<not> ce_windows E" "readable (ce_open E) n (content n)"
      using assms(1) by (simp_all add: tagged_run_def)
    obtain d where d: "digest_of (ce_hashes E) (co_algo opts) (content n) = DigestVec d" "length d = digest_bits (co_algo opts) div 8" "d \<noteq> []"
      using checkable_digest [OF head(4,1)] by blast
    then show ?thesis using tagged_line_checked [OF head(1-8) d(2,3)] n(2) by fastforce
  qed
  have "split_inclusive_nl (sum_text (sum_lines E opts content names)) = map (\<lambda>l. l @ [NL]) (sum_lines E opts content names)"
    unfolding sum_text_def using plain by (intro split_inclusive_nl_lines) (auto simp: list_all_iff)
  then show ?thesis using plain by (simp add: byte_lines_def assms(2) strip_eol_line)
qed

text \<open>The check of the printed file.\<close>

lemma tagged_file_checked:
  assumes "tagged_run E opts names before" "names \<noteq> []" "readable fs sums (sum_text (sum_lines E opts before names))" "sums \<noteq> ''-''"
    "\<forall>n\<in>set names. readable fs n (now n)"
  shows "fst (process_checksum_file (E\<lparr>ce_open := fs\<rparr>) vo sums None len w)
    = (if \<forall>n\<in>set names. same_digest E opts before now n then Inr () else Inl FcFailed)"
proof -
  let ?lines = "sum_lines E opts before names" and ?F = "E\<lparr>ce_open := fs\<rparr>" and ?same = "same_digest E opts before now"
  obtain pieces where p: "fs sums = FileInput (pieces, None)" "concat pieces = sum_text ?lines"
    using assms(3) by (auto simp: readable_def)
  define good bad where "good = length (filter ?same names)" "bad = length (filter (\<lambda>n. \<not> ?same n) names)"
  note gb = this
  have all: "good + bad = length names" "bad = 0 \<longleftrightarrow> (\<forall>n\<in>set names. ?same n)"
    unfolding gb by (rule sum_length_filter_compl) (auto simp: filter_empty_conv)
  obtain st' where "check_lines ?F vo sums None len 0 (map Some ?lines) no_counts \<lparr>ck_cached = None, ck_last = None, ck_world = w\<rparr>
      = (Inr (add_counts no_counts good bad), st')"
    using tagged_lines_checked [OF assms(1), of fs now] assms(5) unfolding gb by blast
  then have "fst (process_checksum_file ?F vo sums None len w) = (if bad = 0 then Inr () else Inl FcFailed)"
    using assms(2,4) p all(1) byte_lines_sum_text [OF assms(1) p(2)]
    by (auto simp: process_checksum_file_def get_input_file_def conclude_def add_counts_def no_counts_def properly_formatted_def Let_def)
  then show ?thesis using all(2) by simp
qed

text \<open>Claim C37: A checksum file that is printed with tags detects every change: the printing of the digests of one or more
  readable files ends well and adds the lines to the output, and a check of these lines, from a file that is not named by a
  dash, against a file system where the files can be read ends well exactly when every file has the digest it had; the check is
  given no algorithm option, and its other options may be any. This is for the algorithms whose tagged line says all the check
  needs, that is every one with a tag (BLAKE2b with a length of 1 to 63 bytes if it has one) but BLAKE3 and the SHAKE functions
  with a length; for lines with hexadecimal digests that end with a line feed; for hash functions of their lengths and a decoder
  of hexadecimal that undoes the encoder; and for files whose names are valid UTF-8 and not a dash, on a platform that is not
  Windows.\<close>

theorem checksum_file_detects_changes:
  assumes "tagged_run E opts names before" "names \<noteq> []"
  shows "\<exists>lines. perform_checksum_computation E opts names w = (RunOk, w\<lparr>cw_out := cw_out w @ lines\<rparr>)
    \<and> (\<forall>fs sums now vo len w'. readable fs sums lines \<and> sums \<noteq> ''-'' \<and> (\<forall>n\<in>set names. readable fs n (now n)) \<longrightarrow>
        (fst (perform_checksum_validation (E\<lparr>ce_open := fs\<rparr>) vo [sums] None len False w') = RunOk \<longleftrightarrow>
         (\<forall>n\<in>set names. digest_of (ce_hashes E) (co_algo opts) (now n) = digest_of (ce_hashes E) (co_algo opts) (before n))))"
proof (intro exI conjI allI impI)
  let ?lines = "sum_lines E opts before names"
  show "perform_checksum_computation E opts names w = (RunOk, w\<lparr>cw_out := cw_out w @ sum_text ?lines\<rparr>)"
    using assms(1) by (rule tagged_computation)
  fix fs sums now vo len w'
  assume a: "readable fs sums (sum_text ?lines) \<and> sums \<noteq> ''-'' \<and> (\<forall>n\<in>set names. readable fs n (now n))"
  let ?F = "E\<lparr>ce_open := fs\<rparr>"
  have "fst (process_checksum_file ?F vo sums None len w') = (if \<forall>n\<in>set names. same_digest E opts before now n then Inr () else Inl FcFailed)"
    using a by (intro tagged_file_checked [OF assms]) auto
  then have "fst (perform_checksum_validation ?F vo [sums] None len False w') = RunOk \<longleftrightarrow> (\<forall>n\<in>set names. same_digest E opts before now n)"
    by (cases "process_checksum_file ?F vo sums None len w'") (auto split: if_splits)
  then show "fst (perform_checksum_validation ?F vo [sums] None len False w') = RunOk \<longleftrightarrow>
         (\<forall>n\<in>set names. digest_of (ce_hashes E) (co_algo opts) (now n) = digest_of (ce_hashes E) (co_algo opts) (before n))"
    by (simp add: same_digest_def)
qed

text \<open>Hexadecimal, hash functions and files that have the laws.\<close>

definition sample_encode :: "bytes \<Rightarrow> bytes" where
  "sample_encode d = concat (map (\<lambda>c. [digit_char (byte c div 16), digit_char (byte c mod 16)]) d)"

fun sample_decode :: "bytes \<Rightarrow> bytes option" where
  "sample_decode [] = Some []"
| "sample_decode (a # b # s) =
     (case (to_digit 16 a, to_digit 16 b, sample_decode s) of
        (Some x, Some y, Some t) \<Rightarrow> Some (char_of (16 * x + y) # t) | _ \<Rightarrow> None)"
| "sample_decode _ = None"

definition sample_hashes :: hashes where
  "sample_hashes = (let fit = (\<lambda>n s. take n (s @ replicate n CHR ''0'')) in
     \<lparr>h_fixed = \<lambda>a. fit (digest_bits a div 8), h_blake2b = fit, h_shake128 = fit, h_shake256 = fit, h_posix = length, h_iso = length\<rparr>)"

definition sample_env :: "(bytes \<Rightarrow> file_view) \<Rightarrow> cksum_env" where
  "sample_env fs = \<lparr>ce_hashes = sample_hashes, ce_hex_encode = sample_encode, ce_hex_decode = sample_decode,
     ce_b64_encode = sample_encode, ce_b64_decode = sample_decode, ce_unix = False, ce_windows = False, ce_util = ''cksum'',
     ce_quote = id, ce_maybe_quote = id, ce_translate = \<lambda>key args. key, ce_encoding = EncAscii, ce_open = fs\<rparr>"

lemma sample_laws: "hex_laws (sample_env fs)" "hash_laws sample_hashes"
proof -
  have digits: "alnum (digit_char n)" if "n < 16" for n
    using that by (auto simp: alnum_def is_upper_def is_lower_def is_decimal_def between_def digit_char_def)
  have half: "byte c div 16 < 16" for c by (simp add: byte_def less_mult_imp_div_less)
  have "sample_decode (sample_encode d) = Some d \<and> length (sample_encode d) = 2 * length d \<and> list_all alnum (sample_encode d)" for d
    by (induction d) (simp_all add: sample_encode_def digits half to_digit_digit_char mult_div_mod_eq char_of_byte)
  then show "hex_laws (sample_env fs)" by (simp add: hex_laws_def sample_env_def)
  show "hash_laws sample_hashes" by (auto simp: hash_laws_def sample_hashes_def Let_def min_def)
qed

definition sample_file :: "bytes \<Rightarrow> bytes \<Rightarrow> file_view" where
  "sample_file content name = FileInput ([content], None)"

definition sample_options :: compute_options where
  "sample_options = \<lparr>co_algo = SzMd5, co_format = OutTagged Hexadecimal, co_ending = LineNewline\<rparr>"

definition sample_world :: cksum_world where
  "sample_world = \<lparr>cw_stdin = [], cw_out = [], cw_err = [], cw_exit = 0\<rparr>"

lemma sample_run: "tagged_run (sample_env (sample_file ''x'')) sample_options [''a''] (\<lambda>n. ''x'')"
  using sample_laws
  by (auto simp: tagged_run_def sample_options_def checkable_def proper_algo_def readable_def sample_file_def sample_env_def byte_def
      intro!: utf8_valid_ascii)

lemma checksum_file_detects_changes_witness:
  "\<exists>lines. fst (perform_checksum_computation (sample_env (sample_file ''x'')) sample_options [''a''] sample_world) = RunOk
    \<and> fst (perform_checksum_validation
        ((sample_env (sample_file ''x''))\<lparr>ce_open := (sample_file ''y'')(''sums'' := FileInput (if lines = [] then [] else [lines], None))\<rparr>)
        \<lparr>vo_ignore_missing = True, vo_strict = False, vo_verbose = VNormal\<rparr> [''sums''] None None False sample_world) \<noteq> RunOk"
proof -
  let ?E = "sample_env (sample_file ''x'')"
  obtain lines where lines: "perform_checksum_computation ?E sample_options [''a''] sample_world
        = (RunOk, sample_world\<lparr>cw_out := cw_out sample_world @ lines\<rparr>)"
      "\<And>fs sums now vo len w'. readable fs sums lines \<and> sums \<noteq> ''-'' \<and> (\<forall>n\<in>set [''a'']. readable fs n (now n)) \<Longrightarrow>
        fst (perform_checksum_validation (?E\<lparr>ce_open := fs\<rparr>) vo [sums] None len False w') = RunOk \<longleftrightarrow>
         (\<forall>n\<in>set [''a'']. digest_of (ce_hashes ?E) (co_algo sample_options) (now n) = digest_of (ce_hashes ?E) (co_algo sample_options) ''x'')"
    using checksum_file_detects_changes [OF sample_run, of sample_world] by blast
  let ?fs = "(sample_file ''y'')(''sums'' := FileInput (if lines = [] then [] else [lines], None))"
  have "readable ?fs ''sums'' lines" "readable ?fs ''a'' ''y''" by (auto simp: readable_def sample_file_def)
  then have "fst (perform_checksum_validation (?E\<lparr>ce_open := ?fs\<rparr>) \<lparr>vo_ignore_missing = True, vo_strict = False, vo_verbose = VNormal\<rparr>
      [''sums''] None None False sample_world) \<noteq> RunOk"
    using lines(2) [of ?fs "''sums''" "\<lambda>n. ''y''"] by (simp add: sample_env_def sample_hashes_def sample_options_def Let_def)
  then show ?thesis using lines(1) by (intro exI [of _ lines]) simp
qed

section \<open>Success of a check\<close>

text \<open>The results of the lines, in order.\<close>

fun line_results ::
    "cksum_env \<Rightarrow> validate_options \<Rightarrow> bytes \<Rightarrow> algo_kind option \<Rightarrow> nat option \<Rightarrow> nat \<Rightarrow> bytes option list \<Rightarrow> check_state
       \<Rightarrow> (line_error + unit) list" where
  "line_results E opts file cli len i (Some line # ls) st =
     (let (r, st') = process_checksum_line E opts line i cli len st
      in r # line_results E opts file cli len (Suc i) ls (warn_format E opts file i cli r st'))"
| "line_results E opts file cli len i _ st = []"

definition how_many :: "'a \<Rightarrow> 'a list \<Rightarrow> nat" where
  "how_many x xs = length (filter (\<lambda>y. y = x) xs)"

lemma how_many_simps [simp]: "how_many x [] = 0" "how_many x (y # ys) = (if y = x then 1 else 0) + how_many x ys"
  by (simp_all add: how_many_def)

lemma how_many_pos: "x \<in> set xs \<longleftrightarrow> 0 < how_many x xs"
  by (induction xs) auto

text \<open>The counts are the numbers of the results.\<close>

lemma check_lines_counts:
  "check_lines E opts file cli len i ls c st = (Inr c', st') \<Longrightarrow>
     (let rs = line_results E opts file cli len i ls st in
      cn_correct c' = cn_correct c + how_many (Inr ()) rs \<and> cn_failed c' = cn_failed c + how_many (Inl LcMismatch) rs
      \<and> cn_format c' = cn_format c + how_many (Inl LcImproper) rs
      \<and> cn_open c' = cn_open c + how_many (Inl LcCantOpen) rs + how_many (Inl LcIsDirectory) rs
          + (if vo_ignore_missing opts then 0 else how_many (Inl LcNotFound) rs)
      \<and> cn_total c' = cn_total c + how_many (Inr ()) rs + how_many (Inl LcMismatch) rs + how_many (Inl LcImproper) rs
          + how_many (Inl LcCantOpen) rs + how_many (Inl LcIsDirectory) rs + how_many (Inl LcNotFound) rs
      \<and> Inl LcPanics \<notin> set rs \<and> (\<forall>e. Inl (LcError e) \<notin> set rs))"
proof (induction ls arbitrary: i c st)
  case (Cons l ls)
  obtain line where l: "l = Some line" using Cons.prems by (cases l) auto
  obtain r st1 where r: "process_checksum_line E opts line i cli len st = (r, st1)" by fastforce
  have utf8: "\<not> (\<not> ce_unix E \<and> \<not> utf8_valid line)" using Cons.prems l by (auto split: if_splits)
  consider (ok) "r = Inr ()" | (mis) "r = Inl LcMismatch" | (skip) "r = Inl LcSkipped" | (imp) "r = Inl LcImproper"
    | (cant) "r = Inl LcCantOpen" | (missing) "r = Inl LcNotFound" | (dir) "r = Inl LcIsDirectory"
    using Cons.prems utf8 r l by (cases r) (auto split: line_error.splits)
  note kinds = this
  define c2 rs where "c2 = count_line (vo_ignore_missing opts) r c"
    "rs = line_results E opts file cli len (Suc i) ls (warn_format E opts file i cli r st1)"
  have step: "check_lines E opts file cli len (Suc i) ls c2 (warn_format E opts file i cli r st1) = (Inr c', st')"
    using kinds Cons.prems r utf8 l unfolding c2_rs_def by cases simp_all
  have results: "line_results E opts file cli len i (l # ls) st = r # rs" by (simp add: l r c2_rs_def)
  note ih = Cons.IH [OF step, folded c2_rs_def(2), unfolded Let_def]
  show ?case unfolding results Let_def
    using kinds ih by cases (simp_all add: c2_rs_def(1))
qed simp

text \<open>Claim C38: The check of a checksum file reads the lines of the file it is given, of the next standard input for a
  dash, and ends well only when one of them was compared with the file it names and matched, none was compared and did not
  match or ended the check, every line could be read as one when the check is strict, and, when missing files are not
  ignored, every file that is named could be opened and read.\<close>

theorem check_success:
  assumes "process_checksum_file E opts file cli len w = (Inr (), w')"
  shows "\<exists>inp. (if file = ''-'' then inp = fst (read_stdin w) else ce_open E file = FileInput inp)
    \<and> (let start = \<lparr>ck_cached = None, ck_last = None, ck_world = if file = ''-'' then snd (read_stdin w) else w\<rparr>;
           rs = line_results E opts file cli len 0 (byte_lines inp) start
       in Inr () \<in> set rs \<and> Inl LcMismatch \<notin> set rs \<and> Inl LcPanics \<notin> set rs \<and> (\<forall>e. Inl (LcError e) \<notin> set rs)
        \<and> (vo_strict opts \<longrightarrow> Inl LcImproper \<notin> set rs)
        \<and> (\<not> vo_ignore_missing opts \<longrightarrow> Inl LcNotFound \<notin> set rs \<and> Inl LcCantOpen \<notin> set rs \<and> Inl LcIsDirectory \<notin> set rs))"
proof -
  obtain inp w1 where inp: "(if file = ''-'' then (let (inp, w') = read_stdin w in (Inr inp, w')) else (get_input_file E file, w)) = (Inr inp, w1)"
    using assms by (cases "if file = ''-'' then (let (inp, w') = read_stdin w in (Inr inp, w')) else (get_input_file E file, w)")
      (auto simp: process_checksum_file_def split: sum.splits)
  then have tied: "w1 = (if file = ''-'' then snd (read_stdin w) else w)"
      "if file = ''-'' then inp = fst (read_stdin w) else ce_open E file = FileInput inp"
    by (auto simp: get_input_file_def Let_def split: if_splits prod.splits file_view.splits option.splits)
  define st where "st = \<lparr>ck_cached = None, ck_last = None, ck_world = w1\<rparr>"
  obtain c st' where c: "check_lines E opts file cli len 0 (byte_lines inp) no_counts st = (Inr c, st')"
      "fst (conclude E opts (ce_maybe_quote E (if file = ''-'' then ''standard input'' else file)) c (ck_world st')) = Inr ()"
    using assms inp by (auto simp: process_checksum_file_def st_def split: sum.splits prod.splits)
  note counted = check_lines_counts [OF c(1), unfolded Let_def]
  have "0 < properly_formatted c" "cn_failed c = 0" "vo_strict opts \<longrightarrow> cn_format c = 0" "\<not> vo_ignore_missing opts \<longrightarrow> cn_open c = 0"
      "vo_ignore_missing opts \<longrightarrow> 0 < cn_correct c"
    using c(2) by (auto simp: conclude_def Let_def split: if_splits)
  then show ?thesis using counted tied(2) unfolding tied(1) [symmetric] st_def [symmetric]
    by (intro exI [of _ inp]) (auto simp: Let_def no_counts_def properly_formatted_def how_many_pos)
qed

definition sample_sums :: bytes where
  "sample_sums = sum_text (sum_lines (sample_env (sample_file ''x'')) sample_options (\<lambda>n. ''x'') [''a''])"

lemma check_success_witness:
  "Inr () \<in> set (line_results (sample_env ((sample_file ''x'')(''sums'' := sample_file sample_sums ''sums'')))
      \<lparr>vo_ignore_missing = False, vo_strict = True, vo_verbose = VNormal\<rparr> ''sums'' None None 0 (byte_lines ([sample_sums], None))
      \<lparr>ck_cached = None, ck_last = None, ck_world = sample_world\<rparr>)"
proof -
  let ?fs = "(sample_file ''x'')(''sums'' := sample_file sample_sums ''sums'')"
  let ?vo = "\<lparr>vo_ignore_missing = False, vo_strict = True, vo_verbose = VNormal\<rparr>"
  have env: "(sample_env (sample_file ''x''))\<lparr>ce_open := ?fs\<rparr> = sample_env ?fs" by (simp add: sample_env_def)
  have "sample_sums \<noteq> []" by (simp add: sample_sums_def sum_text_def sum_lines_def)
  then have "readable ?fs ''sums'' sample_sums" "readable ?fs ''a'' ''x''" by (simp_all add: readable_def sample_file_def)
  then have "fst (process_checksum_file (sample_env ?fs) ?vo ''sums'' None None sample_world) = Inr ()"
    using tagged_file_checked [OF sample_run, folded sample_sums_def, of ?fs "''sums''" "\<lambda>n. ''x''" ?vo None sample_world]
    unfolding env by (simp add: same_digest_def)
  then obtain w' where "process_checksum_file (sample_env ?fs) ?vo ''sums'' None None sample_world = (Inr (), w')"
    by (cases "process_checksum_file (sample_env ?fs) ?vo ''sums'' None None sample_world") auto
  from check_success [OF this] show ?thesis by (simp add: Let_def sample_env_def sample_file_def)
qed

section \<open>Surprises\<close>

text \<open>Where missing files are ignored, a file that is there and cannot be read does not make the check fail.\<close>

lemma unreadable_ignored:
  "fst (conclude E \<lparr>vo_ignore_missing = True, vo_strict = True, vo_verbose = v\<rparr> name
     \<lparr>cn_correct = Suc n, cn_failed = 0, cn_open = Suc m, cn_format = 0, cn_total = Suc n + Suc m\<rparr> w) = Inr ()"
  by (simp add: conclude_def properly_formatted_def Let_def)

text \<open>A tagged line of SHA3 without a length ends the whole check, not only the line.\<close>

lemma sha3_without_length_aborts:
  assumes "get_raw_expected_digest (ce_hex_decode E) (ce_b64_decode E) (li_checksum info) None = Some d"
    "li_algo info = Some ''SHA3''" "li_bits info = None"
  shows "fst (process_algo_based_line E opts info None st) = Inl (LcError (checksum_error_text (ce_quote E) (LengthRequiredForSha ''sha3'')))"
proof -
  have "from_cksum (map ascii_lower ''SHA3'') = Inr AkSha3" using kind_of_names unfolding list.pred_inject prod.case by blast
  then have "identify_algo info None (ck_last st) = (Some (AkSha3, None), Some ''SHA3'')"
    using assms(2,3) by (simp add: identify_algo_def or_else_def)
  then show ?thesis using assms(1) by (simp add: process_algo_based_line_def check_sized_def)
qed

text \<open>So does an untagged line with a digest of another length, with \<open>-a sha2\<close>.\<close>

lemma sha2_other_length_aborts:
  assumes "get_raw_expected_digest (ce_hex_decode E) (ce_b64_decode E) (li_checksum info) None = Some d" "length d = 16"
  shows "\<exists>e. fst (process_non_algo_based_line E opts i info AkSha2 None st) = Inl (LcError e)"
  using assms by (simp add: process_non_algo_based_line_def check_sized_def sha_length_try_from_def sha_length_of_def Let_def prod.case_eq_if)

end
