(* ===== verification/Uu_Encoding.thy ===== *)
theory Uu_Encoding
  imports RustStr
begin

text \<open>
  Encodings of bytes as text (\<open>stubs/uucore/src/lib/features/encoding.rs\<close>): base 58 with its numbers of 32-bit limbs,
  base 64 in segments, base 32 with its padding of a remainder.  The encoders of other crates are parameters; a decoder
  gives the bytes, or nothing for an error.  A decoding ends with the bytes that the output had before and the new ones.
\<close>

definition limb :: nat where "limb = 2 ^ 32"

section \<open>Base 58\<close>

definition base58_alphabet :: bytes where
  "base58_alphabet = ''123456789ABCDEFGHJKLMNPQRSTUVWXYZabcdefghijkmnopqrstuvwxyz''"

text \<open>A number is its limbs, the lowest first.  One pass multiplies it and adds; the carry is a limb of its own.\<close>

fun mul_limbs :: "nat \<Rightarrow> nat \<Rightarrow> nat list \<Rightarrow> nat list \<times> nat" where
  "mul_limbs m c [] = ([], c)"
| "mul_limbs m c (n # ns) =
     (let tmp = n * m + c; (ns', c') = mul_limbs m (tmp div limb) ns in (tmp mod limb # ns', c'))"

definition mul_add :: "nat \<Rightarrow> nat list \<Rightarrow> nat \<Rightarrow> nat list" where
  "mul_add m num d = (let (ns, c) = mul_limbs m d num in if c > 0 then ns @ [c] else ns)"

text \<open>One pass from the highest limb divides it by 58; the rest is the carry.\<close>

fun div_limbs :: "nat list \<Rightarrow> nat list \<times> nat" where
  "div_limbs [] = ([], 0)"
| "div_limbs (n # ns) =
     (let (ns', c) = div_limbs ns; tmp = c * limb + n in (tmp div 58 mod limb # ns', tmp mod 58))"

text \<open>Zero limbs at the end are dropped, but for the last limb.\<close>

definition trim_limbs :: "nat list \<Rightarrow> nat list" where
  "trim_limbs num = (case drop_end (\<lambda>n. n = 0) num of [] \<Rightarrow> take 1 num | ns \<Rightarrow> ns)"

fun limbs_val :: "nat list \<Rightarrow> nat" where
  "limbs_val [] = 0"
| "limbs_val (n # ns) = n + limb * limbs_val ns"

definition all_zero :: "nat list \<Rightarrow> bool" where
  "all_zero ns = list_all (\<lambda>n. n = 0) ns"

lemma limb_pos [simp]: "0 < limb" "limb \<noteq> 0"
  by (simp_all add: limb_def)

lemma limbs_val_zero: "all_zero ns \<longleftrightarrow> limbs_val ns = 0"
  by (induction ns) (simp_all add: all_zero_def)

lemma limbs_val_append: "limbs_val (xs @ ys) = limbs_val xs + limb ^ length xs * limbs_val ys"
  by (induction xs) (simp_all add: algebra_simps)

lemma div_limbs_bounds: "snd (div_limbs ns) < 58"
  by (cases ns) (simp_all add: Let_def prod.case_eq_if)

lemma div_limbs_val:
  "list_all (\<lambda>n. n < limb) ns \<Longrightarrow>
     limbs_val ns = 58 * limbs_val (fst (div_limbs ns)) + snd (div_limbs ns) \<and> list_all (\<lambda>n. n < limb) (fst (div_limbs ns))"
proof (induction ns)
  case (Cons n ns)
  define c where "c = snd (div_limbs ns)"
  define t where "t = c * limb + n"
  have "c < 58" by (simp add: c_def div_limbs_bounds)
  then have "c * limb \<le> 57 * limb" by (intro mult_le_mono1) simp
  moreover have "n < limb" using Cons.prems by simp
  ultimately have "c * limb + n < 58 * limb" by linarith
  then have "t div 58 < limb" by (simp add: t_def less_mult_imp_div_less mult.commute)
  then have "58 * limbs_val (fst (div_limbs (n # ns))) + snd (div_limbs (n # ns))
      = 58 * (t div 58) + t mod 58 + limb * (58 * limbs_val (fst (div_limbs ns)))"
    by (simp add: Let_def prod.case_eq_if t_def c_def algebra_simps)
  also have "\<dots> = n + limb * (58 * limbs_val (fst (div_limbs ns)) + c)" by (simp add: t_def algebra_simps)
  also have "\<dots> = limbs_val (n # ns)" using Cons by (simp add: c_def)
  finally show ?case using Cons by (simp add: Let_def prod.case_eq_if)
qed simp

lemma div_limbs_le: "58 * limbs_val (fst (div_limbs ns)) + snd (div_limbs ns) \<le> limbs_val ns"
proof (induction ns)
  case (Cons n ns)
  define c where "c = snd (div_limbs ns)"
  define t where "t = c * limb + n"
  have "58 * limbs_val (fst (div_limbs (n # ns))) + snd (div_limbs (n # ns))
      = 58 * (t div 58 mod limb) + t mod 58 + limb * (58 * limbs_val (fst (div_limbs ns)))"
    by (simp add: Let_def prod.case_eq_if t_def c_def algebra_simps)
  also have "\<dots> \<le> 58 * (t div 58) + t mod 58 + limb * (58 * limbs_val (fst (div_limbs ns)))"
    by (intro add_le_mono mult_le_mono2 mod_less_eq_dividend) simp_all
  also have "\<dots> = n + limb * (58 * limbs_val (fst (div_limbs ns)) + c)" by (simp add: t_def algebra_simps)
  also have "\<dots> \<le> limbs_val (n # ns)" using Cons by (simp add: c_def)
  finally show ?case .
qed simp

lemma drop_end_zeros: "limbs_val (drop_end (\<lambda>n. n = 0) ns) = limbs_val ns"
proof (induction ns rule: rev_induct)
  case (snoc n ns)
  then show ?case by (cases "n = 0") (simp_all add: drop_end_def limbs_val_append)
qed (simp add: drop_end_def)

lemma trim_limbs_val: "limbs_val (trim_limbs ns) = limbs_val ns"
proof (cases "drop_end (\<lambda>n. n = 0) ns")
  case Nil
  then have "limbs_val ns = 0" using drop_end_zeros [of ns] by simp
  then show ?thesis using Nil by (cases ns) (simp_all add: trim_limbs_def)
next
  case (Cons n ns')
  then show ?thesis using drop_end_zeros [of ns] by (simp add: trim_limbs_def)
qed

lemma trim_limbs_set: "set (trim_limbs ns) \<subseteq> set ns"
proof (cases "drop_end (\<lambda>n. n = 0) ns")
  case Nil
  then show ?thesis by (cases ns) (simp_all add: trim_limbs_def)
next
  case (Cons n ns')
  then have "set (n # ns') \<subseteq> set ns" using set_mono_prefix [OF drop_end_prefix [of "\<lambda>n. n = 0" ns]] by simp
  then show ?thesis using Cons by (simp add: trim_limbs_def)
qed

lemma trim_limbs_bound: "list_all (\<lambda>n. n < limb) ns \<Longrightarrow> list_all (\<lambda>n. n < limb) (trim_limbs ns)"
  using trim_limbs_set [of ns] by (auto simp: list_all_iff)

text \<open>The digits, the lowest first.  The zero limbs are dropped after each eighth digit only.\<close>

function base58_digits :: "nat list \<Rightarrow> nat \<Rightarrow> nat list" where
  "base58_digits num k =
     (if num = [] then []
      else (let q = fst (div_limbs num)
            in snd (div_limbs num)
               # (if all_zero q then [] else base58_digits (if length q > 1 \<and> Suc k mod 8 = 0 then trim_limbs q else q) (Suc k))))"
  by pat_completeness auto
termination
proof (relation "measure (\<lambda>(num, k). limbs_val num)")
  fix num q :: "nat list" and k :: nat
  assume "num \<noteq> []" "q = fst (div_limbs num)" "\<not> all_zero q"
  then have "limbs_val q < limbs_val num" using div_limbs_le [of num] by (simp add: limbs_val_zero)
  moreover have "limbs_val (if P then trim_limbs q else q) = limbs_val q" for P by (simp add: trim_limbs_val)
  ultimately show "((if length q > 1 \<and> Suc k mod 8 = 0 then trim_limbs q else q, Suc k), (num, k)) \<in> measure (\<lambda>(num, k). limbs_val num)"
    by (simp only: in_measure prod.case)
qed simp

declare base58_digits.simps [simp del]

definition base58_encode :: "bytes \<Rightarrow> bytes" where
  "base58_encode input =
     (let zeros = length (takeWhile (\<lambda>b. byte b = 0) input); rest = drop zeros input;
          num = foldl (\<lambda>num b. mul_add 256 num (byte b)) [] rest
      in replicate zeros CHR ''1'' @ (if rest = [] then [] else rev (map (\<lambda>d. base58_alphabet ! d) (base58_digits num 0))))"

definition base58_value :: "char \<Rightarrow> nat option" where
  "base58_value c = find_sub [c] base58_alphabet"

fun base58_number :: "nat list \<Rightarrow> bytes \<Rightarrow> nat list option" where
  "base58_number num [] = Some num"
| "base58_number num (c # s) = (case base58_value c of None \<Rightarrow> None | Some d \<Rightarrow> base58_number (mul_add 58 num d) s)"

definition limb_bytes :: "nat \<Rightarrow> bytes" where
  "limb_bytes n = map (\<lambda>i. char_of (n div 256 ^ i)) [0..<4]"

text \<open>The bytes of a number, the highest first, without zeros in front.\<close>

definition number_bytes :: "nat list \<Rightarrow> bytes" where
  "number_bytes num =
     (let le = concat (map limb_bytes num)
      in rev (case drop_end (\<lambda>b. byte b = 0) le of [] \<Rightarrow> take 1 le | bs \<Rightarrow> bs))"

definition base58_decode :: "bytes \<Rightarrow> bytes option" where
  "base58_decode input =
     (let ones = length (takeWhile (\<lambda>b. b = CHR ''1'') input); rest = drop ones input
      in if rest = [] then Some (replicate ones CHR 0x00)
         else map_option (\<lambda>num. replicate ones CHR 0x00 @ number_bytes num) (base58_number [0] rest))"

text \<open>A decoder with the output it has: whether it succeeds, and the output.\<close>

definition base58_decode_into_vec :: "bytes \<Rightarrow> bytes \<Rightarrow> bool \<times> bytes" where
  "base58_decode_into_vec input out = (case base58_decode input of None \<Rightarrow> (False, out) | Some bs \<Rightarrow> (True, out @ bs))"

section \<open>Base 64\<close>

text \<open>The decoders of the other crate, with and without padding.\<close>

definition extend_with :: "bytes option \<Rightarrow> bytes \<Rightarrow> bool \<times> bytes" where
  "extend_with r out = (case r of None \<Rightarrow> (False, out) | Some bs \<Rightarrow> (True, out @ bs))"

text \<open>With padding the input is decoded in segments, each ending with the group of four that has the first equals sign.\<close>

function base64_segments :: "(bytes \<Rightarrow> bytes option) \<Rightarrow> (bytes \<Rightarrow> bytes option) \<Rightarrow> bytes \<Rightarrow> bytes \<Rightarrow> bool \<times> bytes" where
  "base64_segments std no_pad s out =
     (if s = [] then (True, out)
      else case find_sub ''='' s of
        Some i \<Rightarrow>
          (let n = (i div 4 + 1) * 4
           in if length s < n then (False, out)
              else case std (take n s) of
                     None \<Rightarrow> (False, out)
                   | Some bs \<Rightarrow> base64_segments std no_pad (drop n s) (out @ bs))
      | None \<Rightarrow> extend_with (if length s mod 4 = 0 then std s else no_pad s) out)"
  by pat_completeness auto
termination
  by (relation "measure (\<lambda>(std, no_pad, s, out). length s)") (auto simp: not_less)

declare base64_segments.simps [simp del]

definition base64_decode_into_vec ::
    "(bytes \<Rightarrow> bytes option) \<Rightarrow> (bytes \<Rightarrow> bytes option) \<Rightarrow> bool \<Rightarrow> bytes \<Rightarrow> bytes \<Rightarrow> bool \<times> bytes" where
  "base64_decode_into_vec std no_pad use_padding input out =
     (if use_padding then base64_segments std no_pad input out else extend_with (no_pad input) out)"

definition base64_encode_to_vec_deque :: "(bytes \<Rightarrow> bytes) \<Rightarrow> (bytes \<Rightarrow> bytes) \<Rightarrow> bool \<Rightarrow> bytes \<Rightarrow> bytes \<Rightarrow> bytes" where
  "base64_encode_to_vec_deque std no_pad use_padding input out = out @ (if use_padding then std input else no_pad input)"

section \<open>Other encodings\<close>

text \<open>The encodings of the other crate: the greatest number of bytes for an input, none where there is none, and the bytes
  that are written into a buffer of this size with the number of those that count.\<close>

definition wrapper_decode_into_vec ::
    "(nat \<Rightarrow> nat option) \<Rightarrow> (bytes \<Rightarrow> nat \<Rightarrow> bytes \<times> nat option) \<Rightarrow> bytes \<Rightarrow> bytes \<Rightarrow> bool \<times> bytes" where
  "wrapper_decode_into_vec decode_len decode_mut input out =
     (case decode_len (length input) of
        None \<Rightarrow> (False, out)
      | Some n \<Rightarrow>
          (case decode_mut input n of
             (buf, None) \<Rightarrow> (False, out @ buf)
           | (buf, Some used) \<Rightarrow> (True, out @ take used buf)))"

definition wrapper_encode_to_vec_deque :: "(bytes \<Rightarrow> bytes) \<Rightarrow> bytes \<Rightarrow> bytes \<Rightarrow> bytes" where
  "wrapper_encode_to_vec_deque enc input out = out @ enc input"

definition z85_decode_into_vec :: "(bytes \<Rightarrow> bytes option) \<Rightarrow> bytes \<Rightarrow> bytes \<Rightarrow> bool \<times> bytes" where
  "z85_decode_into_vec dec input out = (if prefix ''#'' input then (False, out) else extend_with (dec input) out)"

definition z85_encode_to_vec_deque :: "(bytes \<Rightarrow> bytes) \<Rightarrow> bytes \<Rightarrow> bytes \<Rightarrow> bytes + bytes" where
  "z85_encode_to_vec_deque enc input out =
     (if length input mod 4 \<noteq> 0 then Inl ''error: invalid input (length must be multiple of 4 characters)'' else Inr (out @ enc input))"

text \<open>The longest start of a remainder of base 32 that can be padded, and whether something was cut off.\<close>

fun base32_valid_length :: "nat \<Rightarrow> nat" where
  "base32_valid_length 0 = 0"
| "base32_valid_length (Suc n) = (if Suc n \<in> {2, 4, 5, 7} then Suc n else base32_valid_length n)"

definition pad_remainder :: "nat \<Rightarrow> bytes \<Rightarrow> (bytes \<times> bool) option" where
  "pad_remainder multiple remainder =
     (if remainder = [] \<or> CHR ''='' \<in> set remainder then None
      else (let n = base32_valid_length (length remainder)
            in if n = 0 then None
               else Some (take n remainder @ replicate (multiple - n) CHR ''='', n \<noteq> length remainder)))"

lemma base32_valid_length_le: "base32_valid_length n \<le> n"
  by (induction n) auto

text \<open>A padded remainder is one group.\<close>

lemma pad_remainder_length:
  assumes "pad_remainder 8 remainder = Some (chunk, shorter)" "length remainder \<le> 8"
  shows "length chunk = 8"
  using assms base32_valid_length_le [of "length remainder"] by (auto simp: pad_remainder_def Let_def min_def split: if_splits)

text \<open>Padded texts one after the other are decoded to their bytes one after the other.\<close>

lemma base64_padded_texts:
  assumes "\<forall>d\<in>set ds. std (enc d) = Some d \<and> length (enc d) mod 4 = 0
      \<and> (\<exists>i. find_sub ''='' (enc d) = Some i \<and> length (enc d) \<le> i + 4)"
  shows "base64_segments std no_pad (concat (map enc ds)) out = (True, out @ concat ds)"
  using assms
proof (induction ds arbitrary: out)
  case Nil
  then show ?case by (simp add: base64_segments.simps)
next
  case (Cons d ds)
  obtain i where d: "std (enc d) = Some d" "length (enc d) mod 4 = 0" "find_sub ''='' (enc d) = Some i" "length (enc d) \<le> i + 4"
    using Cons.prems by auto
  have "i + 1 \<le> length (enc d)" using find_sub_Some_length [OF d(3)] by simp
  then have "(i div 4 + 1) * 4 = length (enc d)" using d(2,4) by presburger
  then show ?case using Cons find_sub_append_Some [OF d(3), of "concat (map enc ds)"] d(1) \<open>i + 1 \<le> length (enc d)\<close>
    by (subst base64_segments.simps) (auto simp: Let_def)
qed

text \<open>A decoding that fails leaves the segments before in the output; only the code for the other case removes them.\<close>

lemma failed_segments_stay:
  "base64_segments (\<lambda>s. if s = ''YQ=='' then Some ''a'' else None) (\<lambda>s. None) ''YQ==****'' [] = (False, ''a'')"
  by (simp add: base64_segments.simps [of _ _ "CHR ''Y'' # _"] base64_segments.simps [of _ _ "CHR ''*'' # _"] extend_with_def)

section \<open>The round trip of base 58\<close>

lemma mul_limbs_val:
  "limbs_val (fst (mul_limbs m c ns)) + limb ^ length ns * snd (mul_limbs m c ns) = m * limbs_val ns + c
     \<and> length (fst (mul_limbs m c ns)) = length ns"
proof (induction ns arbitrary: c)
  case (Cons n ns)
  define t where "t = n * m + c"
  define r where "r = mul_limbs m (t div limb) ns"
  have ih: "limbs_val (fst r) + limb ^ length ns * snd r = m * limbs_val ns + t div limb" "length (fst r) = length ns"
    using Cons [of "t div limb"] by (simp_all add: r_def)
  have "limbs_val (fst (mul_limbs m c (n # ns))) + limb ^ length (n # ns) * snd (mul_limbs m c (n # ns))
      = t mod limb + limb * (limbs_val (fst r) + limb ^ length ns * snd r)"
    by (simp add: Let_def prod.case_eq_if t_def r_def algebra_simps)
  also have "\<dots> = t mod limb + limb * (t div limb) + m * (limb * limbs_val ns)" unfolding ih(1) by (simp add: algebra_simps)
  also have "\<dots> = m * limbs_val (n # ns) + c" by (simp add: t_def algebra_simps)
  finally show ?case using ih(2) by (simp add: Let_def prod.case_eq_if t_def [symmetric] r_def)
qed simp

lemma mul_limbs_bound:
  "list_all (\<lambda>n. n < limb) ns \<Longrightarrow> c < m \<Longrightarrow> m \<le> limb
     \<Longrightarrow> list_all (\<lambda>n. n < limb) (fst (mul_limbs m c ns)) \<and> snd (mul_limbs m c ns) < m"
proof (induction ns arbitrary: c)
  case (Cons n ns)
  have "(n + 1) * m \<le> limb * m" using Cons.prems by (intro mult_le_mono1) simp
  then have "n * m + c < limb * m" using Cons.prems(2) by simp
  then have "(n * m + c) div limb < m" by (simp add: less_mult_imp_div_less mult.commute)
  then show ?case using Cons by (simp add: Let_def prod.case_eq_if)
qed simp

definition good_limbs :: "nat list \<Rightarrow> bool" where
  "good_limbs ns \<longleftrightarrow> list_all (\<lambda>n. n < limb) ns"

lemma mul_add_val: "limbs_val (mul_add m ns d) = m * limbs_val ns + d"
  using mul_limbs_val [of m d ns] by (auto simp: mul_add_def Let_def prod.case_eq_if limbs_val_append)

lemma mul_add_good: "good_limbs ns \<Longrightarrow> d < m \<Longrightarrow> m \<le> limb \<Longrightarrow> good_limbs (mul_add m ns d)"
  using mul_limbs_bound [of ns d m] by (auto simp: good_limbs_def mul_add_def Let_def prod.case_eq_if)

text \<open>The value of digits, the highest first.\<close>

definition horner :: "nat \<Rightarrow> nat \<Rightarrow> nat list \<Rightarrow> nat" where
  "horner b v ds = foldl (\<lambda>v d. b * v + d) v ds"

lemma horner_simps [simp]: "horner b v [] = v" "horner b v (d # ds) = horner b (b * v + d) ds"
  "horner b v (ds @ [d]) = b * horner b v ds + d"
  by (simp_all add: horner_def)

lemma encode_number:
  "good_limbs num \<Longrightarrow> limbs_val (foldl (\<lambda>num b. mul_add 256 num (byte b)) num s) = horner 256 (limbs_val num) (map byte s)
     \<and> good_limbs (foldl (\<lambda>num b. mul_add 256 num (byte b)) num s)"
proof (induction s arbitrary: num)
  case (Cons c s)
  have "good_limbs (mul_add 256 num (byte c))" using Cons.prems by (intro mul_add_good) (simp_all add: byte_def limb_def)
  then show ?case using Cons.IH by (simp add: mul_add_val)
qed simp

lemma base58_digits_val:
  "good_limbs num \<Longrightarrow> 0 < limbs_val num \<Longrightarrow>
     (let ds = base58_digits num k in ds \<noteq> [] \<and> horner 58 0 (rev ds) = limbs_val num \<and> last ds \<noteq> 0 \<and> list_all (\<lambda>d. d < 58) ds)"
proof (induction num k rule: base58_digits.induct)
  case (1 num k)
  define q c where "q = fst (div_limbs num)" "c = snd (div_limbs num)"
  note qc = this
  have ne: "num \<noteq> []" using "1.prems"(2) by auto
  have val: "limbs_val num = 58 * limbs_val q + c" "good_limbs q" "c < 58"
    using div_limbs_val [of num] "1.prems"(1) div_limbs_bounds [of num] by (simp_all add: good_limbs_def qc)
  define q' where "q' = (if length q > 1 \<and> Suc k mod 8 = 0 then trim_limbs q else q)"
  have digits: "base58_digits num k = c # (if all_zero q then [] else base58_digits q' (Suc k))"
    using ne by (simp add: base58_digits.simps [of num] qc q'_def Let_def)
  show ?case
  proof (cases "all_zero q")
    case True
    then show ?thesis using val "1.prems"(2) by (simp add: digits limbs_val_zero)
  next
    case False
    have "good_limbs q'" "limbs_val q' = limbs_val q"
      using val(2) trim_limbs_bound [of q] by (auto simp: q'_def good_limbs_def trim_limbs_val)
    moreover have "0 < limbs_val q'" using False calculation(2) by (simp add: limbs_val_zero)
    ultimately show ?thesis
      using "1.IH" [OF ne qc(1) False, folded q'_def] val False by (simp add: digits Let_def)
  qed
qed

text \<open>Digits without a zero in front are determined by their value.\<close>

lemma horner_pos: "0 < v \<Longrightarrow> 0 < b \<Longrightarrow> 0 < horner b v ds"
  by (induction ds arbitrary: v) simp_all

lemma horner_hd_pos: "ds \<noteq> [] \<Longrightarrow> hd ds \<noteq> 0 \<Longrightarrow> 0 < b \<Longrightarrow> 0 < horner b 0 ds"
  by (cases ds) (simp_all add: horner_pos)

lemma horner_unique:
  "list_all (\<lambda>d. d < b) xs \<Longrightarrow> list_all (\<lambda>d. d < b) ys \<Longrightarrow> (xs \<noteq> [] \<longrightarrow> hd xs \<noteq> 0) \<Longrightarrow> (ys \<noteq> [] \<longrightarrow> hd ys \<noteq> 0)
     \<Longrightarrow> 0 < b \<Longrightarrow> horner b 0 xs = horner b 0 ys \<Longrightarrow> xs = ys"
proof (induction xs arbitrary: ys rule: rev_induct)
  case Nil
  then show ?case using horner_hd_pos [of ys b] by auto
next
  case (snoc x xs)
  have "ys \<noteq> []" using snoc.prems horner_hd_pos [of "xs @ [x]" b] by auto
  then obtain y zs where ys: "ys = zs @ [y]" by (metis append_butlast_last_id)
  have "x < b" "y < b" using snoc.prems ys by simp_all
  moreover have eq: "b * horner b 0 xs + x = b * horner b 0 zs + y" using snoc.prems(6) ys by simp
  ultimately have "x = y" by (metis mod_less mod_mult_self4)
  then have "horner b 0 xs = horner b 0 zs" using eq snoc.prems(5) by simp
  moreover have "xs \<noteq> [] \<longrightarrow> hd xs \<noteq> 0" "zs \<noteq> [] \<longrightarrow> hd zs \<noteq> 0"
    using snoc.prems(3,4) ys by (auto simp: hd_append)
  ultimately have "xs = zs" using snoc.IH [of zs] snoc.prems(1,2,5) ys by simp
  then show ?case using \<open>x = y\<close> ys by simp
qed

lemma alphabet_values: "list_all (\<lambda>d. base58_value (base58_alphabet ! d) = Some d) [0..<58]"
  by code_simp

lemma alphabet_value: "d < 58 \<Longrightarrow> base58_value (base58_alphabet ! d) = Some d"
  using alphabet_values by (simp add: list_all_iff)

lemma alphabet_one: "d < 58 \<Longrightarrow> base58_alphabet ! d = CHR ''1'' \<longleftrightarrow> d = 0"
proof -
  assume "d < 58"
  moreover have "base58_value CHR ''1'' = Some 0" by (simp add: base58_value_def base58_alphabet_def)
  moreover have "base58_alphabet ! 0 = CHR ''1''" by (simp add: base58_alphabet_def)
  ultimately show ?thesis using alphabet_value by (metis option.inject)
qed

lemma decode_number:
  "list_all (\<lambda>d. d < 58) ds \<Longrightarrow> good_limbs num \<Longrightarrow>
     \<exists>num'. base58_number num (map (\<lambda>d. base58_alphabet ! d) ds) = Some num' \<and> good_limbs num' \<and> limbs_val num' = horner 58 (limbs_val num) ds"
proof (induction ds arbitrary: num)
  case (Cons d ds)
  have "good_limbs (mul_add 58 num d)" using Cons.prems by (intro mul_add_good) (simp_all add: limb_def)
  then show ?case using Cons.IH [of "mul_add 58 num d"] Cons.prems by (simp add: alphabet_value mul_add_val)
qed simp

text \<open>The bytes of a number.\<close>

fun le_val :: "bytes \<Rightarrow> nat" where
  "le_val [] = 0"
| "le_val (c # s) = byte c + 256 * le_val s"

lemma le_val_append: "le_val (s @ t) = le_val s + 256 ^ length s * le_val t"
  by (induction s) (simp_all add: algebra_simps)

lemma le_val_horner: "le_val s = horner 256 0 (map byte (rev s))"
  by (induction s) simp_all

lemma four: "[0..<4] = [0, 1, 2, 3]"
  by (simp add: upt_rec)

lemma limb_bytes_val:
  assumes "n < limb"
  shows "le_val (limb_bytes n) = n"
proof -
  define a b c where "a = n div 256" "b = a div 256" "c = b div 256"
  note d = this
  have divs: "n div 256 ^ 2 = b" "n div 256 ^ 3 = c"
    by (simp_all only: d div_mult2_eq [symmetric]) simp_all
  have "c < 256" using assms by (simp add: d limb_def div_mult2_eq [symmetric] less_mult_imp_div_less)
  then have "le_val (limb_bytes n) = n mod 256 + 256 * (a mod 256 + 256 * (b mod 256 + 256 * c))"
    using divs by (simp add: limb_bytes_def four d(1) numeral_2_eq_2 numeral_3_eq_3)
  also have "\<dots> = n" unfolding d by (simp only: mod_mult_div_eq)
  finally show ?thesis .
qed

lemma limb_bytes_length [simp]: "length (limb_bytes n) = 4"
  by (simp add: limb_bytes_def)

lemma limbs_bytes_val: "good_limbs ns \<Longrightarrow> le_val (concat (map limb_bytes ns)) = limbs_val ns"
  by (induction ns) (simp_all add: good_limbs_def le_val_append limb_bytes_val limb_def)

lemma number_bytes_val:
  assumes "good_limbs num" "0 < limbs_val num"
  shows "horner 256 0 (map byte (number_bytes num)) = limbs_val num \<and> number_bytes num \<noteq> [] \<and> byte (hd (number_bytes num)) \<noteq> 0"
proof -
  define le where "le = concat (map limb_bytes num)"
  define bs where "bs = drop_end (\<lambda>b. byte b = 0) le"
  have "le_val (drop_end (\<lambda>b. byte b = 0) s) = le_val s" for s
  proof (induction s rule: rev_induct)
    case (snoc c s)
    then show ?case by (cases "byte c = 0") (simp_all add: drop_end_def le_val_append)
  qed (simp add: drop_end_def)
  then have val: "le_val bs = limbs_val num" using limbs_bytes_val [OF assms(1)] by (simp add: bs_def le_def)
  then have "bs \<noteq> []" using assms(2) by auto
  moreover have "byte (last bs) \<noteq> 0"
    using calculation hd_dropWhile [of "\<lambda>b. byte b = 0" "rev le"] by (simp add: bs_def drop_end_def last_rev)
  moreover have "number_bytes num = rev bs" using calculation(1) by (simp add: number_bytes_def bs_def le_def Let_def split: list.split)
  ultimately show ?thesis using val by (simp add: le_val_horner hd_rev)
qed

lemma byte_eq: "byte a = byte b \<longleftrightarrow> a = b"
  by (simp add: byte_def)

lemma byte_zero: "byte c = 0 \<longleftrightarrow> c = CHR 0x00"
  using byte_eq [of c "CHR 0x00"] by (simp add: byte_def)

lemma number_bytes_unique:
  assumes "good_limbs num" "0 < limbs_val num" "limbs_val num = horner 256 0 (map byte s)" "s \<noteq> []" "byte (hd s) \<noteq> 0"
  shows "number_bytes num = s"
proof -
  note n = number_bytes_val [OF assms(1,2)]
  have "map byte (number_bytes num) = map byte s"
    by (rule horner_unique [of 256]) (use n assms in \<open>auto simp: list_all_iff hd_map byte_def\<close>)
  then show ?thesis by (simp add: inj_map_eq_map inj_def byte_eq)
qed

lemma leading_run:
  "(t \<noteq> [] \<Longrightarrow> \<not> p (hd t)) \<Longrightarrow> p c \<Longrightarrow> length (takeWhile p (replicate n c @ t)) = n"
  by (induction n) (cases t; auto)+

text \<open>Claim C39: Bytes that are encoded in base 58 are decoded to the same bytes, whatever their number and however many zeros
  are in front; the numbers of 32-bit limbs never lose a carry.\<close>

theorem base58_round_trip: "base58_decode (base58_encode input) = Some input"
proof -
  define zs rest where "zs = length (takeWhile (\<lambda>b. byte b = 0) input)" "rest = drop zs input"
  note zr = this
  have "takeWhile (\<lambda>b. byte b = 0) input = replicate zs CHR 0x00"
    unfolding zr(1) by (rule replicate_length_same [symmetric]) (auto dest: set_takeWhileD simp: byte_zero)
  then have input: "input = replicate zs CHR 0x00 @ rest"
    using takeWhile_dropWhile_id [of "\<lambda>b. byte b = 0" input] by (simp add: zr dropWhile_eq_drop)
  show ?thesis
  proof (cases "rest = []")
    case True
    then have "base58_encode input = replicate zs CHR ''1''" by (simp add: base58_encode_def Let_def zr)
    then show ?thesis using input True leading_run [of "[]" "\<lambda>b. b = CHR ''1''" "CHR ''1''" zs]
      by (simp add: base58_decode_def Let_def)
  next
    case False
    have first: "byte (hd rest) \<noteq> 0"
      using hd_dropWhile [of "\<lambda>b. byte b = 0" input] False by (simp add: zr dropWhile_eq_drop)
    define num where "num = foldl (\<lambda>num b. mul_add 256 num (byte b)) [] rest"
    have num: "limbs_val num = horner 256 0 (map byte rest)" "good_limbs num"
      using encode_number [of "[]" rest] by (simp_all add: num_def good_limbs_def)
    have pos: "0 < limbs_val num" unfolding num(1) using False first by (intro horner_hd_pos) (simp_all add: hd_map)
    define ds where "ds = rev (base58_digits num 0)"
    have ds: "ds \<noteq> []" "horner 58 0 ds = limbs_val num" "hd ds \<noteq> 0" "list_all (\<lambda>d. d < 58) ds"
      using base58_digits_val [OF num(2) pos, of 0] by (simp_all add: Let_def ds_def hd_rev)
    let ?t = "map (\<lambda>d. base58_alphabet ! d) ds"
    have encoded: "base58_encode input = replicate zs CHR ''1'' @ ?t"
      unfolding base58_encode_def Let_def zr [symmetric] num_def [symmetric] by (simp add: False ds_def rev_map)
    have "hd ds < 58" using ds(1,4) by (auto simp: list_all_iff)
    then have ones: "length (takeWhile (\<lambda>b. b = CHR ''1'') (replicate zs CHR ''1'' @ ?t)) = zs"
      using ds(1,3) by (intro leading_run) (simp_all add: hd_map alphabet_one)
    obtain num' where num': "base58_number [0] ?t = Some num'" "good_limbs num'" "limbs_val num' = limbs_val num"
      using decode_number [OF ds(4), of "[0]"] ds(2) by (auto simp: good_limbs_def)
    moreover from this have "number_bytes num' = rest" using num pos False first by (intro number_bytes_unique) simp_all
    ultimately show ?thesis using ds(1) unfolding base58_decode_def Let_def encoded ones by (simp add: input [symmetric])
  qed
qed

end
