(* ===== verification/Uu_Backup.thy ===== *)
theory Uu_Backup
  imports RustStr
begin

text \<open>
  Names of backups (\<open>stubs/uucore/src/lib/features/backup_control.rs\<close>): the method and the suffix from the options and the
  environment, and the path of the backup of a file.  Which paths exist is a parameter; the search for a free number is a
  partial function, which ends where finitely many paths exist.
\<close>

section \<open>Options\<close>

datatype backup_mode = NoBackup | SimpleBackup | NumberedBackup | ExistingBackup

datatype backup_error = InvalidArgument bytes bytes | AmbiguousArgument bytes bytes | BackupImpossible

definition valid_args_help :: bytes where
  "valid_args_help = ''Valid arguments are:'' @ [NL] @ ''  - '' @ [CHR 0x27] @ ''none'' @ [CHR 0x27] @ '', '' @ [CHR 0x27] @ ''off'' @ [CHR 0x27, NL]
     @ ''  - '' @ [CHR 0x27] @ ''simple'' @ [CHR 0x27] @ '', '' @ [CHR 0x27] @ ''never'' @ [CHR 0x27, NL]
     @ ''  - '' @ [CHR 0x27] @ ''existing'' @ [CHR 0x27] @ '', '' @ [CHR 0x27] @ ''nil'' @ [CHR 0x27, NL]
     @ ''  - '' @ [CHR 0x27] @ ''numbered'' @ [CHR 0x27] @ '', '' @ [CHR 0x27] @ ''t'' @ [CHR 0x27]"

fun backup_error_text :: "(bytes \<Rightarrow> bytes) \<Rightarrow> backup_error \<Rightarrow> bytes" where
  "backup_error_text quote (InvalidArgument arg origin) =
     ''invalid argument '' @ quote arg @ '' for '' @ [CHR 0x27] @ origin @ [CHR 0x27, NL] @ valid_args_help"
| "backup_error_text quote (AmbiguousArgument arg origin) =
     ''ambiguous argument '' @ quote arg @ '' for '' @ [CHR 0x27] @ origin @ [CHR 0x27, NL] @ valid_args_help"
| "backup_error_text quote BackupImpossible = ''cannot create backup''"

fun backup_error_code :: "backup_error \<Rightarrow> nat" where
  "backup_error_code BackupImpossible = 2"
| "backup_error_code _ = 1"

fun backup_error_usage :: "backup_error \<Rightarrow> bool" where
  "backup_error_usage BackupImpossible = False"
| "backup_error_usage _ = True"

definition backup_control_values :: "(bytes \<times> backup_mode) list" where
  "backup_control_values =
     [(''simple'', SimpleBackup), (''never'', SimpleBackup), (''numbered'', NumberedBackup), (''t'', NumberedBackup),
      (''existing'', ExistingBackup), (''nil'', ExistingBackup), (''none'', NoBackup), (''off'', NoBackup)]"

definition match_method :: "bytes \<Rightarrow> bytes \<Rightarrow> backup_error + backup_mode" where
  "match_method meth origin =
     (case filter (\<lambda>v. prefix meth (fst v)) backup_control_values of
        [v] \<Rightarrow> Inr (snd v)
      | [] \<Rightarrow> Inl (InvalidArgument meth origin)
      | _ \<Rightarrow> Inl (AmbiguousArgument meth origin))"

text \<open>The options of a command line: the backup option with its argument if it has one, the short option, the suffix.\<close>

record backup_options =
  bo_backup :: "bytes option option"
  bo_short :: bool
  bo_suffix :: "bytes option"

definition determine_backup_suffix :: "(bytes \<Rightarrow> bytes option) \<Rightarrow> backup_options \<Rightarrow> bytes" where
  "determine_backup_suffix env m =
     (let s = (case bo_suffix m of Some s \<Rightarrow> s | None \<Rightarrow> (case env ''SIMPLE_BACKUP_SUFFIX'' of Some s \<Rightarrow> s | None \<Rightarrow> ''~''))
      in if CHR ''/'' \<in> set s then ''~'' else s)"

definition method_of_environment :: "(bytes \<Rightarrow> bytes option) \<Rightarrow> backup_error + backup_mode" where
  "method_of_environment env =
     (case env ''VERSION_CONTROL'' of Some v \<Rightarrow> match_method v ''$VERSION_CONTROL'' | None \<Rightarrow> Inr ExistingBackup)"

definition determine_backup_mode :: "(bytes \<Rightarrow> bytes option) \<Rightarrow> backup_options \<Rightarrow> backup_error + backup_mode" where
  "determine_backup_mode env m =
     (case bo_backup m of
        Some (Some meth) \<Rightarrow> match_method meth ''backup type''
      | Some None \<Rightarrow> method_of_environment env
      | None \<Rightarrow> if bo_short m \<or> bo_suffix m \<noteq> None then method_of_environment env else Inr NoBackup)"

section \<open>Paths\<close>

text \<open>\<open>with_file_name\<close>: the new name after the parent.\<close>

definition with_file_name :: "bytes \<Rightarrow> bytes \<Rightarrow> bytes" where
  "with_file_name p n = path_join (if file_name p = None then p else parent_text p) n"

definition simple_backup_path :: "bytes \<Rightarrow> bytes \<Rightarrow> bytes" where
  "simple_backup_path p suf = with_file_name p ((case file_name p of None \<Rightarrow> [] | Some n \<Rightarrow> n) @ suf)"

definition number_suffix :: "nat \<Rightarrow> bytes" where
  "number_suffix i = ''.~'' @ show_nat i @ ''~''"

partial_function (option) numbered_from :: "(bytes \<Rightarrow> bool) \<Rightarrow> bytes \<Rightarrow> nat \<Rightarrow> bytes option" where
  "numbered_from existing p i =
     (let new_path = simple_backup_path p (number_suffix i)
      in if existing new_path then numbered_from existing p (i + 1) else Some new_path)"

definition numbered_backup_path :: "(bytes \<Rightarrow> bool) \<Rightarrow> bytes \<Rightarrow> bytes option" where
  "numbered_backup_path existing p = numbered_from existing p 1"

definition existing_backup_path :: "(bytes \<Rightarrow> bool) \<Rightarrow> bytes \<Rightarrow> bytes \<Rightarrow> bytes option" where
  "existing_backup_path existing p suf =
     (if existing (simple_backup_path p ''.~1~'') then numbered_backup_path existing p else Some (simple_backup_path p suf))"

text \<open>The outer none is a search that does not end.\<close>

definition get_backup_path :: "(bytes \<Rightarrow> bool) \<Rightarrow> backup_mode \<Rightarrow> bytes \<Rightarrow> bytes \<Rightarrow> bytes option option" where
  "get_backup_path existing mode p suf =
     (case mode of
        NoBackup \<Rightarrow> Some None
      | SimpleBackup \<Rightarrow> Some (Some (simple_backup_path p suf))
      | NumberedBackup \<Rightarrow> map_option Some (numbered_backup_path existing p)
      | ExistingBackup \<Rightarrow> map_option Some (existing_backup_path existing p suf))"

definition source_is_target_backup :: "bytes \<Rightarrow> bytes \<Rightarrow> bytes \<Rightarrow> bool" where
  "source_is_target_backup source target suf \<longleftrightarrow> source = target @ suf"

section \<open>The search for a number\<close>

lemma show_nat_inj:
  assumes "show_nat i = show_nat j"
  shows "i = j"
proof -
  have "parse_unsigned 10 (Suc (i + j)) (show_nat i) = Some i" "parse_unsigned 10 (Suc (i + j)) (show_nat j) = Some j"
    by (rule parse_show_nat; simp)+
  then show ?thesis using assms by (metis option.inject)
qed

lemma path_join_inj: "path_join p n = path_join p m \<longleftrightarrow> n = m"
  by (simp add: path_join_def)

lemma numbered_paths_differ:
  "simple_backup_path p (number_suffix i) = simple_backup_path p (number_suffix j) \<Longrightarrow> i = j"
  by (auto simp: simple_backup_path_def with_file_name_def path_join_inj number_suffix_def dest: show_nat_inj)

lemma numbered_from_free:
  "\<not> existing (simple_backup_path p (number_suffix (i + n))) \<Longrightarrow> \<forall>j<n. existing (simple_backup_path p (number_suffix (i + j)))
     \<Longrightarrow> numbered_from existing p i = Some (simple_backup_path p (number_suffix (i + n)))"
proof (induction n arbitrary: i)
  case 0
  then show ?case by (subst numbered_from.simps) (simp add: Let_def)
next
  case (Suc n)
  have "existing (simple_backup_path p (number_suffix i))" using Suc.prems(2) by (metis add.right_neutral zero_less_Suc)
  moreover have "numbered_from existing p (i + 1) = Some (simple_backup_path p (number_suffix (i + Suc n)))"
    using Suc.IH [of "i + 1"] Suc.prems by (metis Suc_less_eq add.assoc plus_1_eq_Suc)
  ultimately show ?case by (subst numbered_from.simps) (simp add: Let_def)
qed

text \<open>The search for the number of a backup ends where finitely many paths exist: it gives the path with the first number
  that is free, so a numbered backup never replaces a file.\<close>

theorem numbered_backup_fresh:
  assumes "finite {q. existing q}"
  shows "\<exists>i\<ge>1. numbered_backup_path existing p = Some (simple_backup_path p (number_suffix i))
    \<and> \<not> existing (simple_backup_path p (number_suffix i))
    \<and> (\<forall>j. 1 \<le> j \<longrightarrow> j < i \<longrightarrow> existing (simple_backup_path p (number_suffix j)))"
proof -
  let ?path = "\<lambda>n. simple_backup_path p (number_suffix (1 + n))"
  have "inj ?path" using numbered_paths_differ by (intro injI) (metis add_left_cancel)
  then have "\<exists>n. \<not> existing (?path n)"
    using finite_subset [OF _ assms, of "range ?path"] finite_imageD [of ?path UNIV] infinite_UNIV_nat by auto
  then obtain n where n: "\<not> existing (?path n)" "\<forall>j<n. existing (?path j)"
    using exists_least_iff [of "\<lambda>n. \<not> existing (?path n)"] by auto
  have "numbered_backup_path existing p = Some (?path n)"
    unfolding numbered_backup_path_def using n by (rule numbered_from_free)
  moreover have "existing (simple_backup_path p (number_suffix j))" if "1 \<le> j" "j < 1 + n" for j
    using n(2) that by (metis le_add_diff_inverse add_less_cancel_left)
  ultimately show ?thesis using n(1) by (intro exI [of _ "1 + n"]) auto
qed

lemma numbered_backup_fresh_witness:
  "numbered_backup_path (\<lambda>q. q = ''d/f.~1~'') ''d/f'' = Some ''d/f.~2~''"
proof -
  have paths: "simple_backup_path ''d/f'' (number_suffix 1) = ''d/f.~1~''" "simple_backup_path ''d/f'' (number_suffix 2) = ''d/f.~2~''"
    by code_simp+
  obtain i where i: "1 \<le> i" "numbered_backup_path (\<lambda>q. q = ''d/f.~1~'') ''d/f'' = Some (simple_backup_path ''d/f'' (number_suffix i))"
      "simple_backup_path ''d/f'' (number_suffix i) \<noteq> ''d/f.~1~''"
      "\<And>j. 1 \<le> j \<Longrightarrow> j < i \<Longrightarrow> simple_backup_path ''d/f'' (number_suffix j) = ''d/f.~1~''"
    using numbered_backup_fresh [of "\<lambda>q. q = ''d/f.~1~''" "''d/f''"] by auto
  have "i \<noteq> 1" using i(3) paths(1) by metis
  moreover have "\<not> 2 < i" using i(4) [of 2] paths(2) by auto
  ultimately have "i = 2" using i(1) by linarith
  then show ?thesis using i(2) paths(2) by simp
qed

text \<open>With an empty suffix the backup of a file is the file.\<close>

lemma empty_suffix_is_the_file: "simple_backup_path ''d/f'' [] = ''d/f''"
  by code_simp

lemma empty_suffix_of_environment:
  "determine_backup_suffix (\<lambda>v. Some []) \<lparr>bo_backup = None, bo_short = True, bo_suffix = None\<rparr> = []"
  by (simp add: determine_backup_suffix_def)

text \<open>The name of a path that ends in the parent directory is the suffix alone, in that directory.\<close>

lemma parent_directory_backup: "simple_backup_path ''a/..'' ''~'' = ''a/../~''"
  by code_simp

text \<open>Whether numbered backups exist is decided by the first number alone.\<close>

lemma existing_looks_at_first: "existing_backup_path (\<lambda>q. q = ''f.~2~'') ''f'' ''~'' = Some ''f~''"
  by code_simp

section \<open>Shortcuts of values\<close>

text \<open>A value of an option is a name with its aliases; a start of one of them is enough when no other value has it
  (\<open>features/parser/shortcut_value_parser.rs\<close>).  The error has the values that could be meant.\<close>

definition shortcut_parse :: "(bytes \<times> bytes list) list \<Rightarrow> bytes \<Rightarrow> bytes list + bytes" where
  "shortcut_parse vals value =
     (case filter (\<lambda>(n, as). list_ex (\<lambda>name. prefix value name) (n # as)) vals of
        [] \<Rightarrow> Inl []
      | [v] \<Rightarrow> Inr (fst v)
      | vs \<Rightarrow> (case find (\<lambda>v. fst v = value) vs of Some v \<Rightarrow> Inr (fst v) | None \<Rightarrow> Inl (map fst vs)))"

text \<open>The tip of the error for several values.\<close>

fun quoted_names :: "bytes list \<Rightarrow> bytes" where
  "quoted_names [] = []"
| "quoted_names [n] = [CHR 0x27] @ n @ [CHR 0x27]"
| "quoted_names [n, m] = [CHR 0x27] @ n @ [CHR 0x27] @ '' or '' @ [CHR 0x27] @ m @ [CHR 0x27]"
| "quoted_names (n # ns) = [CHR 0x27] @ n @ [CHR 0x27] @ '', '' @ quoted_names ns"

definition ambiguous_value_tip :: "bytes \<Rightarrow> bytes list \<Rightarrow> bytes" where
  "ambiguous_value_tip value ns =
     ''It looks like '' @ [CHR 0x27] @ value @ [CHR 0x27] @ '' could match several values. Did you mean '' @ quoted_names ns @ ''?''"

lemma find_member: "find p xs = Some x \<Longrightarrow> x \<in> set xs"
  by (induction xs) (auto split: if_splits)

text \<open>A parsed value is the name of a value; the name itself, and a start that one value only has, are accepted.\<close>

lemma shortcut_parse_name: "shortcut_parse vals value = Inr n \<Longrightarrow> \<exists>as. (n, as) \<in> set vals \<and> list_ex (\<lambda>name. prefix value name) (n # as)"
proof -
  define vs where "vs = filter (\<lambda>(n, as). list_ex (\<lambda>name. prefix value name) (n # as)) vals"
  assume "shortcut_parse vals value = Inr n"
  note cases_vs = this [unfolded shortcut_parse_def, folded vs_def]
  consider "vs = []" | v where "vs = [v]" | v w ws where "vs = v # w # ws" by (metis neq_Nil_conv)
  then have "\<exists>v\<in>set vs. fst v = n"
  proof cases
    case 3
    then have "(case find (\<lambda>v. fst v = value) vs of Some v \<Rightarrow> Inr (fst v) | None \<Rightarrow> Inl (map fst vs)) = Inr n"
      using cases_vs by (simp only: list.case)
    then show ?thesis using find_member [of "\<lambda>v. fst v = value" vs] by (auto split: option.splits)
  qed (use cases_vs in simp_all)
  then show ?thesis by (auto simp: vs_def)
qed

lemma shortcut_parse_unique:
  assumes "filter (\<lambda>(n, as). list_ex (\<lambda>name. prefix value name) (n # as)) vals = [(n, as)]"
  shows "shortcut_parse vals value = Inr n"
  using assms by (simp add: shortcut_parse_def)

section \<open>Updates\<close>

text \<open>\<open>features/update_control.rs\<close>.\<close>

datatype update_mode = UpdateAll | UpdateNone | UpdateIfOlder | UpdateNoneFail

definition update_values :: "(bytes \<times> bytes list) list" where
  "update_values = [(''none'', []), (''all'', []), (''older'', []), (''none-fail'', [])]"

definition update_names :: "(bytes \<times> update_mode) list" where
  "update_names = [(''all'', UpdateAll), (''none'', UpdateNone), (''older'', UpdateIfOlder), (''none-fail'', UpdateNoneFail)]"

text \<open>The mode, from the value of the long option and the short option; none where the code panics.\<close>

definition determine_update_mode :: "bytes option \<Rightarrow> bool \<Rightarrow> update_mode option" where
  "determine_update_mode value short =
     (case value of Some v \<Rightarrow> map_of update_names v | None \<Rightarrow> Some (if short then UpdateIfOlder else UpdateAll))"

lemma update_mode_found:
  assumes "shortcut_parse update_values value = Inr v"
  shows "determine_update_mode (Some v) short \<noteq> None"
proof -
  have "v \<in> {''none'', ''all'', ''older'', ''none-fail''}"
    using shortcut_parse_name [OF assms] by (auto simp: update_values_def)
  then show ?thesis by (auto simp: determine_update_mode_def update_names_def)
qed

lemma update_none: "shortcut_parse update_values ''none'' = Inr ''none''" "shortcut_parse update_values ''non'' = Inl [''none'', ''none-fail'']"
  by code_simp+

section \<open>Negations in patterns\<close>

text \<open>\<open>features/parser/parse_glob.rs\<close>: a caret after an opening bracket becomes an exclamation mark where a closing bracket
  follows, over the characters of the pattern.\<close>

function fix_negation_from :: "bytes list \<Rightarrow> nat \<Rightarrow> bytes list" where
  "fix_negation_from chars i =
     (if i + 3 < length chars then
        (if chars ! i = ''['' \<and> chars ! (i + 1) = ''^'' then
           (case find_sub ['']''] (drop (i + 3) chars) of
              None \<Rightarrow> chars
            | Some j \<Rightarrow> fix_negation_from (chars[i + 1 := ''!'']) (i + j + 4))
         else fix_negation_from chars (i + 1))
      else chars)"
  by pat_completeness auto
termination
  by (relation "measure (\<lambda>(chars, i). length chars - i)") auto

declare fix_negation_from.simps [simp del]

definition fix_negation :: "bytes \<Rightarrow> bytes" where
  "fix_negation glob = concat (fix_negation_from (utf8_chars glob) 0)"

definition glob_from_str :: "(bytes \<Rightarrow> 'e + 'p) \<Rightarrow> bytes \<Rightarrow> 'e + 'p" where
  "glob_from_str pattern_new glob = pattern_new (fix_negation glob)"

text \<open>Nothing but carets after opening brackets changes.\<close>

lemma fix_negation_from_change:
  "length (fix_negation_from chars i) = length chars
   \<and> (\<forall>k<length chars. fix_negation_from chars i ! k = chars ! k
        \<or> (chars ! k = ''^'' \<and> fix_negation_from chars i ! k = ''!'' \<and> 0 < k \<and> chars ! (k - 1) = ''[''))"
proof (induction chars i rule: fix_negation_from.induct)
  case (1 chars i)
  consider (end_) "\<not> i + 3 < length chars" | (plain) "i + 3 < length chars" "\<not> (chars ! i = ''['' \<and> chars ! (i + 1) = ''^'')"
    | (caret) "i + 3 < length chars" "chars ! i = ''['' \<and> chars ! (i + 1) = ''^''" by blast
  then show ?case
  proof cases
    case end_
    then show ?thesis by (simp add: fix_negation_from.simps [of chars i])
  next
    case plain
    then have "fix_negation_from chars i = fix_negation_from chars (i + 1)" by (subst fix_negation_from.simps) auto
    then show ?thesis using "1.IH"(2) [OF plain] by simp
  next
    case caret
    show ?thesis
    proof (cases "find_sub ['']''] (drop (i + 3) chars)")
      case None
      then show ?thesis using caret by (simp add: fix_negation_from.simps [of chars i])
    next
      case (Some j)
      have step: "fix_negation_from chars i = fix_negation_from (chars[i + 1 := ''!'']) (i + j + 4)"
        using caret Some by (simp add: fix_negation_from.simps [of chars i])
      have ih: "length (fix_negation_from (chars[i + 1 := ''!'']) (i + j + 4)) = length chars"
        "\<And>k. k < length chars \<Longrightarrow> fix_negation_from (chars[i + 1 := ''!'']) (i + j + 4) ! k = chars[i + 1 := ''!''] ! k
           \<or> (chars[i + 1 := ''!''] ! k = ''^'' \<and> fix_negation_from (chars[i + 1 := ''!'']) (i + j + 4) ! k = ''!'' \<and> 0 < k
              \<and> chars[i + 1 := ''!''] ! (k - 1) = ''['')"
        using "1.IH"(1) [OF caret(1,2) Some] by auto
      show ?thesis unfolding step
      proof (intro conjI allI impI)
        fix k assume k: "k < length chars"
        show "fix_negation_from (chars[i + 1 := ''!'']) (i + j + 4) ! k = chars ! k
          \<or> (chars ! k = ''^'' \<and> fix_negation_from (chars[i + 1 := ''!'']) (i + j + 4) ! k = ''!'' \<and> 0 < k \<and> chars ! (k - 1) = ''['')"
          using ih(2) [OF k] k caret by (auto simp: nth_list_update split: if_splits)
      qed (rule ih(1))
    qed
  qed
qed

end
