(* ===== verification/Uu_Time.thy ===== *)
theory Uu_Time
  imports Uu_Num
begin

text \<open>
  Durations (\<open>stubs/uucore/src/lib/features/parser/parse_time.rs\<close>): a number with a unit is the greatest whole number of
  nanoseconds not above it, at least one for a number that is not zero, and the longest duration where it is too long.
  The comparison of decimals and their change of scale are the other crate's.
\<close>

text \<open>Seconds and nanoseconds.\<close>

type_synonym duration = "nat \<times> nat"

definition duration_max :: duration where "duration_max = (2 ^ 64 - 1, 999999999)"
definition one_nanosecond :: duration where "one_nanosecond = (0, 1)"

definition nanoseconds :: "duration \<Rightarrow> nat" where
  "nanoseconds t = fst t * 1000000000 + snd t"

definition time_suffixes :: "bool \<Rightarrow> (char \<times> nat) list" where
  "time_suffixes allow = (if allow then [(CHR ''s'', 1), (CHR ''m'', 60), (CHR ''h'', 60 * 60), (CHR ''d'', 60 * 60 * 24)] else [])"

text \<open>A decimal that is not negative, with the limit below which the number is too small to look at its digits.\<close>

definition time_of_decimal :: "bigdec_lib \<Rightarrow> big_decimal \<Rightarrow> (big_decimal \<Rightarrow> int \<Rightarrow> big_decimal) \<Rightarrow> big_decimal \<Rightarrow> duration" where
  "time_of_decimal B tiny with_scale num =
     (if bd_scale num \<le> - 20 then duration_max
      else if \<not> bd_is_zero num \<and> bl_cmp B num tiny = Less then one_nanosecond
      else (let nanos = nat (bd_digits (with_scale num 9)); secs = nanos div 1000000000
            in if nanos = 0 \<and> \<not> bd_is_zero num then one_nanosecond
               else if 2 ^ 64 \<le> secs then duration_max
               else (secs, nanos mod 1000000000)))"

definition time_from_str ::
    "bigdec_lib \<Rightarrow> big_decimal \<Rightarrow> (big_decimal \<Rightarrow> int \<Rightarrow> big_decimal) \<Rightarrow> (bytes \<Rightarrow> bytes) \<Rightarrow> bytes \<Rightarrow> bool \<Rightarrow> bytes + duration" where
  "time_from_str B tiny with_scale quote s allow =
     (let wrong = Inl (''invalid time interval '' @ quote s);
          of_number = (\<lambda>num. case num of
            Finite bd \<Rightarrow> if bd_digits bd < 0 then wrong else Inr (time_of_decimal B tiny with_scale bd)
          | MinusZero \<Rightarrow> Inr (time_of_decimal B tiny with_scale (BD 0 0))
          | Infinity \<Rightarrow> Inr duration_max
          | _ \<Rightarrow> wrong)
      in if s = [] then wrong
         else case num_parse B s TDuration (time_suffixes allow) of
                Inr num \<Rightarrow> of_number num
              | Inl (Overflow num) \<Rightarrow> of_number num
              | Inl (Underflow _) \<Rightarrow> Inr one_nanosecond
              | Inl _ \<Rightarrow> wrong)"

text \<open>The whole nanoseconds of a decimal that is not negative.\<close>

definition floor_nanos :: "int \<Rightarrow> int \<Rightarrow> nat" where
  "floor_nanos d s = (if s \<le> 9 then nat d * 10 ^ nat (9 - s) else nat d div 10 ^ nat (s - 9))"

text \<open>What the other crate documents: a change of scale drops digits, and a decimal below the limit is below a nanosecond.\<close>

definition time_laws :: "bigdec_lib \<Rightarrow> big_decimal \<Rightarrow> (big_decimal \<Rightarrow> int \<Rightarrow> big_decimal) \<Rightarrow> bool" where
  "time_laws B tiny with_scale \<longleftrightarrow>
     (\<forall>d s. 0 \<le> d \<longrightarrow> with_scale (BD d s) 9 = BD (int (floor_nanos d s)) 9)
     \<and> (\<forall>d s. bl_cmp B (BD d s) tiny = Less \<longrightarrow> floor_nanos d s = 0)"

lemma nanoseconds_max: "nanoseconds duration_max = 2 ^ 64 * 1000000000 - 1"
  by (simp add: nanoseconds_def duration_max_def)

lemma time_of_decimal_clamped:
  assumes "time_laws B tiny with_scale" "0 \<le> d"
  shows "nanoseconds (time_of_decimal B tiny with_scale (BD d s))
    = (if s \<le> - 20 \<and> d = 0 then nanoseconds duration_max
       else if d = 0 then 0 else min (nanoseconds duration_max) (max 1 (floor_nanos d s)))"
proof -
  let ?n = "floor_nanos d s"
  have scaled: "nat (bd_digits (with_scale (BD d s) 9)) = ?n" using assms by (simp add: time_laws_def)
  have big: "nanoseconds duration_max \<le> ?n" if "s \<le> - 20" "d \<noteq> 0"
  proof -
    have "10 ^ 29 \<le> (10 :: nat) ^ nat (9 - s)" using that by (intro power_increasing) simp_all
    moreover have "1 \<le> nat d" using that assms(2) by simp
    ultimately have "1 * 10 ^ 29 \<le> nat d * (10 :: nat) ^ nat (9 - s)" by (intro mult_le_mono)
    moreover have "nanoseconds duration_max \<le> 10 ^ 29" by (simp add: nanoseconds_max)
    ultimately show ?thesis using that by (simp only: floor_nanos_def) simp
  qed
  have zero: "?n = 0" if "d = 0" using that by (simp add: floor_nanos_def)
  have split: "nanoseconds (?n div 1000000000, ?n mod 1000000000) = ?n" by (simp add: nanoseconds_def)
  have large: "(2 ^ 64 \<le> ?n div 1000000000) = (nanoseconds duration_max < ?n)"
    unfolding nanoseconds_max by (subst less_eq_div_iff_mult_less_eq) auto
  have one: "nanoseconds one_nanosecond = 1" "1 \<le> nanoseconds duration_max"
    by (simp_all add: nanoseconds_max) (simp add: nanoseconds_def one_nanosecond_def)
  have nz: "bd_is_zero (BD d s) = (d = 0)" by (simp add: bd_is_zero_def)
  consider (far) "s \<le> - 20" | (small) "\<not> s \<le> - 20" "d \<noteq> 0" "bl_cmp B (BD d s) tiny = Less"
    | (digits) "\<not> s \<le> - 20" "d = 0 \<or> bl_cmp B (BD d s) tiny \<noteq> Less" by blast
  then show ?thesis
  proof cases
    case far
    then show ?thesis using big by (cases "d = 0") (simp_all add: time_of_decimal_def)
  next
    case small
    then have "?n = 0" using assms(1) by (simp add: time_laws_def)
    then show ?thesis using small one nz by (simp add: time_of_decimal_def)
  next
    case digits
    then have "time_of_decimal B tiny with_scale (BD d s)
        = (if ?n = 0 \<and> d \<noteq> 0 then one_nanosecond else if 2 ^ 64 \<le> ?n div 1000000000 then duration_max
           else (?n div 1000000000, ?n mod 1000000000))"
      unfolding time_of_decimal_def nz scaled Let_def by auto
    then show ?thesis using digits(1) zero one unfolding large
      by (cases "d = 0"; cases "?n = 0") (simp_all add: split nanoseconds_def [of "(0, 0)"])
  qed
qed

text \<open>A negative number is no duration.\<close>

lemma no_negative_times:
  assumes "num_parse B s TDuration (time_suffixes allow) = Inr (Finite (BD d sc))" "d < 0"
  shows "time_from_str B tiny with_scale quote s allow = Inl (''invalid time interval '' @ quote s)"
  using assms by (simp add: time_from_str_def Let_def)

end
