(* ===== verification/Uu_Ring.thy ===== *)
theory Uu_Ring
  imports RustStr
begin

text \<open>
  The ring buffer (\<open>stubs/uucore/src/lib/features/ringbuffer.rs\<close>), with which \<open>tail\<close> keeps the last lines, and the lines
  with their ends (\<open>lines.rs\<close>).  The capacity of the queue is what the standard library gave, at least the size asked for.
\<close>

section \<open>Ring buffer\<close>

record 'a ring_buffer =
  rb_data :: "'a list"
  rb_capacity :: nat

definition ring_new :: "(nat \<Rightarrow> nat) \<Rightarrow> nat \<Rightarrow> 'a ring_buffer" where
  "ring_new with_capacity n = \<lparr>rb_data = [], rb_capacity = with_capacity n\<rparr>"

text \<open>The element that is pushed out, and the buffer.\<close>

definition ring_push_back :: "'a \<Rightarrow> 'a ring_buffer \<Rightarrow> 'a option \<times> 'a ring_buffer" where
  "ring_push_back x rb =
     (if rb_capacity rb = 0 then (Some x, rb)
      else let full = (length (rb_data rb) = rb_capacity rb)
           in (if full then Some (hd (rb_data rb)) else None,
               rb\<lparr>rb_data := (if full then tl (rb_data rb) else rb_data rb) @ [x]\<rparr>))"

definition ring_from_iter :: "(nat \<Rightarrow> nat) \<Rightarrow> 'a list \<Rightarrow> nat \<Rightarrow> 'a ring_buffer" where
  "ring_from_iter with_capacity xs n = foldl (\<lambda>rb x. snd (ring_push_back x rb)) (ring_new with_capacity n) xs"

text \<open>What is pushed out and what is kept are all elements, in their order.\<close>

fun ring_run :: "'a list \<Rightarrow> 'a ring_buffer \<Rightarrow> 'a list \<times> 'a ring_buffer" where
  "ring_run [] rb = ([], rb)"
| "ring_run (x # xs) rb =
     (let (out, rb') = ring_push_back x rb; (outs, rb'') = ring_run xs rb'
      in ((case out of Some y \<Rightarrow> y # outs | None \<Rightarrow> outs), rb''))"

lemma ring_run_keeps:
  "length (rb_data rb) \<le> rb_capacity rb \<Longrightarrow>
     fst (ring_run xs rb) @ rb_data (snd (ring_run xs rb)) = rb_data rb @ xs
     \<and> length (rb_data (snd (ring_run xs rb))) = min (rb_capacity rb) (length (rb_data rb) + length xs)"
proof (induction xs arbitrary: rb)
  case (Cons x xs)
  show ?case
  proof (cases "rb_capacity rb = 0")
    case True
    then show ?thesis using Cons by (simp add: ring_push_back_def prod.case_eq_if)
  next
    case False
    then show ?thesis using Cons.prems Cons.IH [of "snd (ring_push_back x rb)"]
      by (cases "rb_data rb") (auto simp: ring_push_back_def Let_def prod.case_eq_if)
  qed
qed simp

lemma ring_from_iter_run: "ring_from_iter cap xs n = snd (ring_run xs (ring_new cap n))"
proof -
  have "foldl (\<lambda>rb x. snd (ring_push_back x rb)) rb xs = snd (ring_run xs rb)" for rb :: "'a ring_buffer"
    by (induction xs arbitrary: rb) (simp_all add: prod.case_eq_if)
  then show ?thesis by (simp add: ring_from_iter_def)
qed

text \<open>The buffer of the last elements has as many as the capacity that was given, which the size asked for only bounds below.\<close>

lemma ring_from_iter_last: "rb_data (ring_from_iter cap xs n) = drop (length xs - cap n) xs"
proof -
  define out kept where "out = fst (ring_run xs (ring_new cap n))" "kept = rb_data (snd (ring_run xs (ring_new cap n)))"
  note ok = this
  have xs: "xs = out @ kept" and len: "length kept = min (cap n) (length xs)"
    using ring_run_keeps [of "ring_new cap n" xs] by (simp_all add: ring_new_def ok)
  have "length out = length xs - length kept" by (simp add: xs)
  then have "length out = length xs - cap n" by (simp add: len)
  then have "kept = drop (length xs - cap n) xs" by (metis xs append_eq_conv_conj)
  then show ?thesis by (simp add: ring_from_iter_run ok)
qed

section \<open>Lines with their ends\<close>

fun lines_with_ends :: "char \<Rightarrow> bytes \<Rightarrow> bytes list" where
  "lines_with_ends sep [] = []"
| "lines_with_ends sep (c # s) =
     (if c = sep then [c] # lines_with_ends sep s
      else case lines_with_ends sep s of [] \<Rightarrow> [[c]] | l # ls \<Rightarrow> (c # l) # ls)"

lemma concat_lines_with_ends: "concat (lines_with_ends sep s) = s"
  by (induction s) (auto split: list.split)

lemma lines_with_ends_not_empty: "[] \<notin> set (lines_with_ends sep s)"
  by (induction s) (auto split: list.split)

lemma lines_with_ends_separators: "l \<in> set (lines_with_ends sep s) \<Longrightarrow> sep \<notin> set (butlast l)"
  by (induction s arbitrary: l) (auto split: list.splits if_splits)

end
