(* ===== verification/Uu_Path.thy ===== *)
theory Uu_Path
  imports RustStr "HOL-Library.Word"
begin

text \<open>
  Paths as texts (\<open>stubs/uucore/src/lib/features/fs.rs\<close>): their components, removing of relative parts,
  paths relative to a directory, and the text of a file's permissions.  A prefix component exists on
  Windows only and is left out.
\<close>

section \<open>Paths of the standard library\<close>

datatype owning_component = RootDir | CurDir | ParentDir | NormalName bytes

fun as_os_str :: "owning_component \<Rightarrow> bytes" where
  "as_os_str RootDir = ''/''"
| "as_os_str CurDir = ''.''"
| "as_os_str ParentDir = ''..''"
| "as_os_str (NormalName s) = s"

definition component_of :: "bytes \<Rightarrow> owning_component" where
  "component_of s = (if s = ''/'' then RootDir else if s = ''.'' then CurDir else if s = ''..'' then ParentDir else NormalName s)"

definition comps :: "bytes \<Rightarrow> owning_component list" where
  "comps p = map component_of (components p)"

text \<open>\<open>PathBuf::push\<close> of a text that is not empty, \<open>Path::parent\<close>, \<open>PathBuf::pop\<close>, and a path collected from its
  components.\<close>

definition path_push :: "bytes \<Rightarrow> bytes \<Rightarrow> bytes" where
  "path_push p s = (if prefix ''/'' s then s else path_join p s)"

definition path_parent :: "bytes \<Rightarrow> bytes option" where
  "path_parent p = (if components p = [] \<or> last (components p) = ''/'' then None else Some (parent_text p))"

definition path_pop :: "bytes \<Rightarrow> bytes" where
  "path_pop p = (case path_parent p of Some q \<Rightarrow> q | None \<Rightarrow> p)"

definition path_collect :: "bytes list \<Rightarrow> bytes" where
  "path_collect cs = foldl path_push [] cs"

section \<open>Operations on paths\<close>

definition normalize_step :: "bytes \<Rightarrow> owning_component \<Rightarrow> bytes" where
  "normalize_step ret c =
     (case c of
        RootDir \<Rightarrow> path_push ret (as_os_str c)
      | CurDir \<Rightarrow> ret
      | ParentDir \<Rightarrow>
          if ret = [] \<or> (comps ret \<noteq> [] \<and> last (comps ret) = ParentDir) then path_push ret ''..'' else path_pop ret
      | NormalName s \<Rightarrow> path_push ret s)"

definition normalize_path :: "bytes \<Rightarrow> bytes" where
  "normalize_path p = (let ret = foldl normalize_step [] (comps p) in if ret = [] then path_push ret ''.'' else ret)"

definition common_prefix_size :: "bytes \<Rightarrow> bytes \<Rightarrow> nat" where
  "common_prefix_size path to = length (takeWhile (\<lambda>(a, b). a = b) (zip (comps path) (comps to)))"

definition make_path_relative_to :: "bytes \<Rightarrow> bytes \<Rightarrow> bytes" where
  "make_path_relative_to path to =
     (let n = common_prefix_size path to;
          cs = map (\<lambda>_. as_os_str ParentDir) (drop n (comps to)) @ map as_os_str (drop n (comps path))
      in path_collect (if cs = [] then [as_os_str CurDir] else cs))"

definition dir_strip_dot_for_creation :: "bytes \<Rightarrow> bytes" where
  "dir_strip_dot_for_creation p = (if suffix ''/.'' p \<or> suffix ''/./'' p then path_collect (components p) else p)"

definition path_ends_with_terminator :: "bytes \<Rightarrow> bool" where
  "path_ends_with_terminator p \<longleftrightarrow> p \<noteq> [] \<and> last p = CHR ''/''"

text \<open>\<open>to_str\<close> of the name fails when it is not UTF-8.\<close>

definition get_filename :: "bytes \<Rightarrow> bytes option" where
  "get_filename p = (case file_name p of Some n \<Rightarrow> if utf8_valid n then Some n else None | None \<Rightarrow> None)"

section \<open>Facts about paths\<close>

text \<open>A path made of a root, if it has one, and parts.\<close>

definition path_part :: "bytes \<Rightarrow> bool" where
  "path_part n \<longleftrightarrow> n \<noteq> [] \<and> n \<noteq> ''.'' \<and> CHR ''/'' \<notin> set n"

definition path_text :: "bool \<Rightarrow> bytes list \<Rightarrow> bytes" where
  "path_text absolute ns = (if absolute then ''/'' else []) @ join ''/'' ns"

lemma split_on_join: "ns \<noteq> [] \<Longrightarrow> \<forall>n\<in>set ns. c \<notin> set n \<Longrightarrow> split_on c (join [c] ns) = ns"
proof (induction ns)
  case (Cons n ns)
  then show ?case
    by (cases ns) (simp_all add: join_Cons split_on_append split_on_none)
qed simp

lemma split_on_root: "split_on c (c # s) = [] # split_on c s"
  by simp

lemma path_parts_split:
  assumes "\<forall>n\<in>set ns. path_part n"
  shows "split_on CHR ''/'' (path_text a ns) =
    (if a then [] # (if ns = [] then [[]] else ns) else if ns = [] then [[]] else ns)"
proof (cases "ns = []")
  case False
  then have "split_on CHR ''/'' (join ''/'' ns) = ns"
    by (rule split_on_join) (use assms in \<open>simp add: path_part_def\<close>)
  then show ?thesis using False by (cases a) (simp_all add: path_text_def)
qed (simp add: path_text_def)

lemma join_parts_root:
  "\<forall>n\<in>set ns. path_part n \<Longrightarrow> \<not> prefix ''/'' (join ''/'' ns)"
proof (cases ns)
  case (Cons n ms)
  moreover assume "\<forall>n\<in>set ns. path_part n"
  ultimately obtain c cs where "n = c # cs" "c \<noteq> CHR ''/''" by (cases n) (auto simp: path_part_def)
  with Cons show ?thesis by (simp add: join_Cons)
qed simp

lemma components_path_text [simp]:
  assumes "\<forall>n\<in>set ns. path_part n"
  shows "components (path_text a ns) = (if a then [''/''] else []) @ ns"
proof -
  have "filter (\<lambda>c. c \<noteq> [] \<and> c \<noteq> ''.'') ns = ns" using assms by (simp add: path_part_def filter_id_conv)
  moreover have "ns \<noteq> [] \<Longrightarrow> hd ns \<noteq> ''.''" using assms by (cases ns) (auto simp: path_part_def)
  moreover have "prefix ''/'' (path_text a ns) = a" using join_parts_root [OF assms] by (simp add: path_text_def)
  ultimately show ?thesis using path_parts_split [OF assms, of a] by (auto simp: components_def Let_def)
qed

lemma path_text_Nil [simp]: "path_text True [] = ''/''" "path_text False [] = []"
  by (simp_all add: path_text_def)

lemma path_text_empty: "\<forall>n\<in>set ns. path_part n \<Longrightarrow> path_text a ns = [] \<longleftrightarrow> \<not> a \<and> ns = []"
  by (cases ns) (auto simp: path_text_def join_Cons path_part_def)

lemma join_last: "ns \<noteq> [] \<Longrightarrow> last ns \<noteq> [] \<Longrightarrow> join sep ns \<noteq> [] \<and> last (join sep ns) = last (last ns)"
  by (induction ns) (auto simp: join_Cons)

lemma join_snoc: "ns \<noteq> [] \<Longrightarrow> join sep (ns @ [n]) = join sep ns @ sep @ n"
  by (induction ns) (auto simp: join_Cons)

lemma join_parts_last:
  assumes "\<forall>m\<in>set ns. path_part m" and "ns \<noteq> []"
  shows "join ''/'' ns \<noteq> []" and "last (join ''/'' ns) \<noteq> CHR ''/''"
proof -
  have "path_part (last ns)" using assms by simp
  then have "last ns \<noteq> []" "last (last ns) \<noteq> CHR ''/''" by (metis path_part_def last_in_set)+
  with join_last [OF assms(2)] show "join ''/'' ns \<noteq> []" "last (join ''/'' ns) \<noteq> CHR ''/''" by simp_all
qed

lemma path_push_part [simp]:
  assumes "\<forall>m\<in>set ns. path_part m" and "path_part n"
  shows "path_push (path_text a ns) n = path_text a (ns @ [n])"
proof -
  have n: "\<not> prefix ''/'' n" using assms(2) by (cases n) (auto simp: path_part_def)
  show ?thesis
  proof (cases "ns = []")
    case False
    with join_parts_last [OF assms(1)] show ?thesis using n by (simp add: path_push_def path_join_def path_text_def join_snoc)
  qed (use n in \<open>simp add: path_push_def path_join_def path_text_def\<close>)
qed

lemma drop_end_none: "\<forall>x\<in>set xs. \<not> q x \<Longrightarrow> drop_end q xs = xs"
  by (cases xs rule: rev_cases) (simp_all add: drop_end_def)

lemma parent_text_part:
  assumes "\<forall>m\<in>set ns. path_part m" and "path_part n"
  shows "parent_text (path_text a (ns @ [n])) = path_text a ns"
proof -
  have all: "\<forall>m\<in>set (ns @ [n]). path_part m" using assms by auto
  have "drop_end skipped_part (split_on CHR ''/'' (path_text a (ns @ [n]))) = (if a then [[]] else []) @ ns @ [n]"
    using path_parts_split [OF all, of a] assms(2) by (simp add: drop_end_def skipped_part_def path_part_def)
  moreover have "drop_end skipped_part (if a then ns else tl ns) = (if a then ns else tl ns)"
    by (rule drop_end_none) (use assms(1) in \<open>cases ns; auto simp: skipped_part_def path_part_def\<close>)
  moreover have "ns \<noteq> [] \<Longrightarrow> hd ns \<noteq> []" using assms(1) by (auto simp: path_part_def)
  ultimately show ?thesis
    by (cases ns; cases a) (auto simp: parent_text_def Let_def butlast_append path_text_def join_Cons)
qed

lemma path_parent_text:
  assumes "\<forall>m\<in>set ns. path_part m"
  shows "path_parent (path_text a ns) = (if ns = [] then None else Some (path_text a (butlast ns)))"
proof (cases ns rule: rev_cases)
  case (snoc ms n)
  with assms have "n \<noteq> ''/''" by (auto simp: path_part_def)
  with snoc assms show ?thesis by (simp add: path_parent_def parent_text_part)
qed (cases a, simp_all add: path_parent_def components_def)

lemma path_pop_text [simp]:
  "\<forall>m\<in>set ns. path_part m \<Longrightarrow> path_pop (path_text a ns) = path_text a (butlast ns)"
  by (simp add: path_pop_def path_parent_text)


lemma path_collect_dot: "path_collect [''.''] = ''.''"
  by (simp add: path_collect_def path_push_def path_join_def)

lemma path_collect_parts: "\<forall>n\<in>set (ns @ ms). path_part n \<Longrightarrow> foldl path_push (path_text a ns) ms = path_text a (ns @ ms)"
  by (induction ms arbitrary: ns) simp_all

text \<open>The names of a path.\<close>

definition path_names :: "bytes \<Rightarrow> bytes list" where
  "path_names p = filter (\<lambda>c. c \<noteq> [] \<and> c \<noteq> ''.'') (split_on CHR ''/'' p)"

lemma path_names_parts [simp]: "n \<in> set (path_names p) \<Longrightarrow> path_part n"
  by (auto simp: path_names_def path_part_def dest: split_on_no_sep)

lemma component_of_simps [simp]:
  "component_of ''/'' = RootDir" "component_of ''.'' = CurDir" "component_of ''..'' = ParentDir"
  by (simp_all add: component_of_def)

lemma component_of_part:
  "path_part n \<Longrightarrow> component_of n = (if n = ''..'' then ParentDir else NormalName n)"
  by (auto simp: component_of_def path_part_def)

lemma comps_names:
  "comps p = (if prefix ''/'' p then [RootDir] else if hd (split_on CHR ''/'' p) = ''.'' then [CurDir] else [])
     @ map component_of (path_names p)"
  by (simp add: comps_def components_def path_names_def Let_def)

lemma path_names_text [simp]: "\<forall>n\<in>set ns. path_part n \<Longrightarrow> path_names (path_text a ns) = ns"
  using path_parts_split [of ns a] by (simp add: path_names_def path_part_def filter_id_conv)

lemma prefix_path_text [simp]: "\<forall>n\<in>set ns. path_part n \<Longrightarrow> prefix ''/'' (path_text a ns) = a"
  using join_parts_root [of ns] by (simp add: path_text_def)

lemma components_root [simp]: "components ''/'' = [''/'']"
  using components_path_text [of "[]" True] by simp

section \<open>Removing of relative parts\<close>

text \<open>The reference works on lists of names: a parent directory removes the name before it, is nothing at the
  root, and stays at the front of a relative path.\<close>

definition lexical_step :: "bool \<Rightarrow> bytes list \<Rightarrow> bytes \<Rightarrow> bytes list" where
  "lexical_step a st n =
     (if n \<noteq> ''..'' then st @ [n]
      else if st = [] then (if a then [] else [''..''])
      else if last st = ''..'' then st @ [''..''] else butlast st)"

definition lexical :: "bytes \<Rightarrow> bytes list" where
  "lexical p = foldl (lexical_step (prefix ''/'' p)) [] (path_names p)"

lemma lexical_step_parts:
  "\<forall>m\<in>set st. path_part m \<Longrightarrow> path_part n \<Longrightarrow> \<forall>m\<in>set (lexical_step a st n). path_part m"
  by (auto simp: lexical_step_def dest: in_set_butlastD)

lemma normalize_step_text:
  assumes "\<forall>m\<in>set st. path_part m" and "path_part n"
  shows "normalize_step (path_text a st) (component_of n) = path_text a (lexical_step a st n)"
proof (cases "n = ''..''")
  case True
  have "last (comps (path_text a st)) = ParentDir \<longleftrightarrow> st \<noteq> [] \<and> last st = ''..''" if "a \<or> st \<noteq> []"
    using that assms(1) by (cases st rule: rev_cases) (auto simp: comps_def component_of_part)
  moreover have "comps (path_text a st) \<noteq> [] \<longleftrightarrow> a \<or> st \<noteq> []" using assms(1) by (simp add: comps_def)
  ultimately show ?thesis
    using True assms path_text_empty [OF assms(1), of a] by (auto simp: normalize_step_def lexical_step_def)
qed (use assms in \<open>simp add: normalize_step_def component_of_part lexical_step_def\<close>)

lemma normalize_fold:
  "\<forall>m\<in>set (st @ ns). path_part m \<Longrightarrow>
     foldl normalize_step (path_text a st) (map component_of ns) = path_text a (foldl (lexical_step a) st ns)
     \<and> (\<forall>m\<in>set (foldl (lexical_step a) st ns). path_part m)"
proof (induction ns arbitrary: st)
  case (Cons n ns)
  then have p: "\<forall>m\<in>set st. path_part m" "path_part n" by simp_all
  from Cons.prems have "\<forall>m\<in>set (lexical_step a st n @ ns). path_part m"
    using lexical_step_parts [OF p, of a] by auto
  from Cons.IH [OF this] show ?case using normalize_step_text [OF p, of a] by simp
qed simp

lemma lexical_parts: "\<forall>m\<in>set (lexical p). path_part m"
  using normalize_fold [of "[]" "path_names p"] by (simp add: lexical_def)

lemma normalize_path_lexical:
  "normalize_path p = (if \<not> prefix ''/'' p \<and> lexical p = [] then ''.'' else path_text (prefix ''/'' p) (lexical p))"
proof -
  have "foldl normalize_step [] (comps p) = path_text (prefix ''/'' p) (lexical p)"
    using normalize_fold [of "[]" "path_names p" "prefix ''/'' p"]
    by (auto simp: comps_names lexical_def normalize_step_def path_push_def)
  then show ?thesis
    using path_text_empty [OF lexical_parts, of "prefix ''/'' p" p]
    by (simp add: normalize_path_def Let_def path_push_def path_join_def)
qed

text \<open>Normal lists of names: parent directories only at the front, and none below the root.\<close>

definition lexical_normal :: "bool \<Rightarrow> bytes list \<Rightarrow> bool" where
  "lexical_normal a st \<longleftrightarrow> (\<exists>k ns. st = replicate k ''..'' @ ns \<and> ''..'' \<notin> set ns \<and> (a \<longrightarrow> k = 0))"

lemma lexical_step_normal: "lexical_normal a st \<Longrightarrow> lexical_normal a (lexical_step a st n)"
proof -
  assume "lexical_normal a st"
  then obtain k ns where st: "st = replicate k ''..'' @ ns" "''..'' \<notin> set ns" "a \<longrightarrow> k = 0"
    unfolding lexical_normal_def by blast
  show ?thesis
  proof (cases "n = ''..'' \<and> ns = []")
    case True
    then have "lexical_step a st n = (if a then [] else replicate (Suc k) ''..'')"
      using st by (cases k) (auto simp: lexical_step_def replicate_append_same)
    then show ?thesis unfolding lexical_normal_def by (metis append_Nil2 empty_iff list.set(1) replicate_0)
  next
    case False
    then have "lexical_step a st n = replicate k ''..'' @ (if n = ''..'' then butlast ns else ns @ [n])"
      using st by (auto simp: lexical_step_def butlast_append dest: last_in_set)
    moreover have "''..'' \<notin> set (if n = ''..'' then butlast ns else ns @ [n])"
      using st(2) by (auto dest: in_set_butlastD)
    ultimately show ?thesis using st(3) unfolding lexical_normal_def by blast
  qed
qed

lemma lexical_fold_normal: "lexical_normal a st \<Longrightarrow> lexical_normal a (foldl (lexical_step a) st ns)"
  by (induction ns arbitrary: st) (simp_all add: lexical_step_normal)

lemma lexical_is_normal: "lexical_normal (prefix ''/'' p) (lexical p)"
  unfolding lexical_def by (rule lexical_fold_normal) (auto simp: lexical_normal_def)

lemma lexical_names: "''..'' \<notin> set ns \<Longrightarrow> foldl (lexical_step a) st ns = st @ ns"
  by (induction ns arbitrary: st) (auto simp: lexical_step_def)

lemma lexical_parents: "foldl (lexical_step False) (replicate j ''..'') (replicate k ''..'') = replicate (j + k) ''..''"
proof (induction k arbitrary: j)
  case (Suc k)
  have "lexical_step False (replicate j ''..'') ''..'' = replicate (Suc j) ''..''"
    by (cases j) (simp_all add: lexical_step_def replicate_append_same)
  with Suc [of "Suc j"] show ?case by simp
qed simp

lemma lexical_of_normal: "lexical_normal a st \<Longrightarrow> foldl (lexical_step a) [] st = st"
  using lexical_parents [of 0] by (auto simp: lexical_normal_def lexical_names)

theorem normalize_path_idempotent: "normalize_path (normalize_path p) = normalize_path p"
proof (cases "\<not> prefix ''/'' p \<and> lexical p = []")
  case True
  then have "normalize_path p = ''.''" by (simp add: normalize_path_lexical)
  moreover have "normalize_path ''.'' = ''.''" by code_simp
  ultimately show ?thesis by simp
next
  case False
  let ?q = "path_text (prefix ''/'' p) (lexical p)"
  have "lexical ?q = lexical p"
    using lexical_of_normal [OF lexical_is_normal] lexical_parts by (simp add: lexical_def [of ?q])
  moreover have "normalize_path p = ?q" using False by (simp add: normalize_path_lexical)
  moreover have "prefix ''/'' ?q = prefix ''/'' p" by (rule prefix_path_text [OF lexical_parts])
  ultimately show ?thesis using False by (simp only: normalize_path_lexical [of ?q] if_False)
qed

section \<open>Relative paths\<close>

lemma lexical_climbs: "k \<le> length st \<Longrightarrow> ''..'' \<notin> set st \<Longrightarrow>
    foldl (lexical_step a) st (replicate k ''..'') = take (length st - k) st"
proof (induction k arbitrary: st)
  case (Suc k)
  then have "st \<noteq> []" "last st \<noteq> ''..''" by (auto, metis last_in_set list.size(3) not_less_eq_eq le0)
  then have "lexical_step a st ''..'' = butlast st" by (simp add: lexical_step_def)
  moreover have "k \<le> length (butlast st)" "''..'' \<notin> set (butlast st)"
    using Suc.prems by (auto dest: in_set_butlastD)
  ultimately show ?case using Suc.IH [of "butlast st"] by (simp add: butlast_conv_take min_def)
qed simp

text \<open>From a directory, the relative path leads to the path it was made for.\<close>

definition plain_parts :: "bytes list \<Rightarrow> bool" where
  "plain_parts ns \<longleftrightarrow> (\<forall>n\<in>set ns. path_part n \<and> n \<noteq> ''..'')"

lemma common_prefix_takes:
  "let k = length (takeWhile (\<lambda>(a, b). a = b) (zip xs ys)) in k \<le> length xs \<and> k \<le> length ys \<and> take k xs = take k ys"
  by (induction xs ys rule: list_induct2') (auto simp: Let_def)

lemma common_prefix_parts:
  assumes "plain_parts ps" and "plain_parts ts"
  shows "\<exists>k \<le> min (length ps) (length ts). take k ps = take k ts
    \<and> common_prefix_size (path_text True ps) (path_text True ts) = Suc k"
proof -
  have c: "comps (path_text True ns) = RootDir # map NormalName ns" if "plain_parts ns" for ns
    using that by (auto simp: comps_def plain_parts_def component_of_part)
  define k where "k = length (takeWhile (\<lambda>(a, b). a = b) (zip ps ts))"
  have "length (takeWhile (\<lambda>(a, b). a = b) (zip (map NormalName ps) (map NormalName ts))) = k"
    unfolding k_def by (simp add: zip_map_map takeWhile_map comp_def case_prod_unfold)
  then have "common_prefix_size (path_text True ps) (path_text True ts) = Suc k"
    using assms by (simp add: common_prefix_size_def c)
  moreover have "k \<le> length ps \<and> k \<le> length ts \<and> take k ps = take k ts"
    using common_prefix_takes [of ps ts] by (simp add: k_def Let_def)
  ultimately show ?thesis by auto
qed

lemma make_path_relative_parts:
  assumes "plain_parts ps" and "plain_parts ts"
  shows "\<exists>k \<le> min (length ps) (length ts). take k ps = take k ts
    \<and> make_path_relative_to (path_text True ps) (path_text True ts)
      = (if k = length ps \<and> k = length ts then ''.'' else path_text False (replicate (length ts - k) ''..'' @ drop k ps))"
proof -
  obtain k where k: "k \<le> min (length ps) (length ts)" "take k ps = take k ts"
      "common_prefix_size (path_text True ps) (path_text True ts) = Suc k"
    using common_prefix_parts [OF assms] by blast
  have c: "comps (path_text True ns) = RootDir # map NormalName ns" if "plain_parts ns" for ns
    using that by (auto simp: comps_def plain_parts_def component_of_part)
  have parts: "\<forall>n\<in>set (replicate (length ts - k) ''..'' @ drop k ps). path_part n"
    using assms(1) by (auto simp: plain_parts_def dest: in_set_dropD) (simp add: path_part_def)
  let ?cs = "replicate (length ts - k) ''..'' @ drop k ps"
  have t: "map (\<lambda>_. as_os_str ParentDir) (drop (Suc k) (comps (path_text True ts))) = replicate (length ts - k) ''..''"
    by (simp add: c [OF assms(2)] map_replicate_const)
  have p: "map as_os_str (drop (Suc k) (comps (path_text True ps))) = drop k ps"
    by (simp add: c [OF assms(1)] drop_map comp_def)
  have "path_collect ?cs = path_text False ?cs"
    using path_collect_parts [of "[]" ?cs False] parts unfolding path_collect_def append_Nil path_text_Nil by blast
  then have cs: "path_collect (if ?cs = [] then [''.''] else ?cs) = (if ?cs = [] then ''.'' else path_text False ?cs)"
    by (cases "?cs = []") (simp_all only: path_collect_dot if_True if_False simp_thms)
  have e: "?cs = [] \<longleftrightarrow> k = length ps \<and> k = length ts" using k(1) by auto
  have "make_path_relative_to (path_text True ps) (path_text True ts) = path_collect (if ?cs = [] then [''.''] else ?cs)"
    unfolding make_path_relative_to_def Let_def k(3) t p by (simp only: as_os_str.simps)
  then have "make_path_relative_to (path_text True ps) (path_text True ts)
      = (if k = length ps \<and> k = length ts then ''.'' else path_text False ?cs)" unfolding cs unfolding e .
  then show ?thesis using k(1,2) by blast
qed

lemma path_push_text:
  assumes "\<forall>n\<in>set (ts @ ms). path_part n" and "ms \<noteq> []"
  shows "path_push (path_text a ts) (path_text False ms) = path_text a (ts @ ms)"
proof -
  have "\<not> prefix ''/'' (path_text False ms)" using assms(1) by (subst prefix_path_text) auto
  moreover have "ts \<noteq> [] \<Longrightarrow> join ''/'' (ts @ ms) = join ''/'' ts @ ''/'' @ join ''/'' ms"
    using assms(2) by (induction ts) (auto simp: join_Cons)
  ultimately show ?thesis
    using join_parts_last [of ts] assms(1)
    by (cases a; cases "ts = []") (simp_all add: path_push_def path_join_def path_text_def)
qed

lemma path_push_dot:
  assumes "\<forall>n\<in>set ts. path_part n"
  shows "path_names (path_push (path_text True ts) ''.'') = ts \<and> prefix ''/'' (path_push (path_text True ts) ''.'')"
proof -
  have "path_push (path_text True ts) ''.'' = CHR ''/'' # join ''/'' (ts @ [''.''])"
    using join_parts_last [OF assms] join_snoc [of ts "''/''" "''.''"]
    by (cases "ts = []") (auto simp: path_push_def path_join_def path_text_def)
  moreover have "split_on CHR ''/'' (join ''/'' (ts @ [''.''])) = ts @ [''.'']"
    by (rule split_on_join) (use assms in \<open>auto simp: path_part_def\<close>)
  moreover have "filter (\<lambda>c. c \<noteq> [] \<and> c \<noteq> ''.'') ts = ts" using assms by (simp add: path_part_def filter_id_conv)
  ultimately show ?thesis by (simp add: path_names_def)
qed

lemma normalize_absolute:
  "prefix ''/'' p \<Longrightarrow> foldl (lexical_step True) [] (path_names p) = st \<Longrightarrow> normalize_path p = path_text True st"
  by (simp add: normalize_path_lexical lexical_def)

theorem relative_path_leads_back:
  assumes ps: "plain_parts ps" and ts: "plain_parts ts"
  shows "normalize_path (path_push (path_text True ts) (make_path_relative_to (path_text True ps) (path_text True ts)))
    = path_text True ps"
proof -
  obtain k where k: "k \<le> length ps" "k \<le> length ts" "take k ps = take k ts" and
    rel: "make_path_relative_to (path_text True ps) (path_text True ts)
      = (if k = length ps \<and> k = length ts then ''.'' else path_text False (replicate (length ts - k) ''..'' @ drop k ps))"
    using make_path_relative_parts [OF ps ts] by auto
  have parts: "\<forall>n\<in>set ts. path_part n" "\<forall>n\<in>set (drop k ps). path_part n" "''..'' \<notin> set ts" "''..'' \<notin> set (drop k ps)"
    using ps ts by (auto simp: plain_parts_def dest: in_set_dropD)
  show ?thesis
  proof (cases "k = length ps \<and> k = length ts")
    case True
    with k(3) have "ts = ps" by simp
    moreover have "make_path_relative_to (path_text True ps) (path_text True ts) = ''.''" unfolding rel using True by simp
    ultimately show ?thesis
      using path_push_dot [OF parts(1)] lexical_names [OF parts(3), of True "[]"] by (intro normalize_absolute) simp_all
  next
    case False
    let ?ms = "replicate (length ts - k) ''..'' @ drop k ps"
    have "?ms \<noteq> []" using False k(1,2) by auto
    moreover have "path_part ''..''" by (simp add: path_part_def)
    then have all: "\<forall>n\<in>set (ts @ ?ms). path_part n"
      using parts(1,2) by auto
    ultimately have "path_push (path_text True ts) (path_text False ?ms) = path_text True (ts @ ?ms)"
      by (intro path_push_text)
    moreover have "foldl (lexical_step True) [] (ts @ ?ms) = ps"
    proof -
      have "foldl (lexical_step True) [] ts = ts" using lexical_names [OF parts(3), of True "[]"] by simp
      moreover have "foldl (lexical_step True) ts (replicate (length ts - k) ''..'') = take k ps"
        using lexical_climbs [of "length ts - k" ts True] k(2,3) parts(3) by simp
      moreover have "foldl (lexical_step True) (take k ps) (drop k ps) = ps"
        using lexical_names [OF parts(4), of True "take k ps"] by simp
      ultimately show ?thesis by (simp only: foldl_append)
    qed
    moreover have "make_path_relative_to (path_text True ps) (path_text True ts) = path_text False ?ms" unfolding rel using False by simp
    ultimately show ?thesis
      using all by (intro normalize_absolute) (simp_all only: prefix_path_text path_names_text)
  qed
qed

text \<open>The cases of the crate's test.\<close>

lemma normalize_path_tests:
  "normalize_path ''foo/bar/../..'' = ''.''" "normalize_path ''foo/../../../bar/baz'' = ''../../bar/baz''"
  "normalize_path ''/foo//./bar'' = ''/foo/bar''" "normalize_path ''/../a'' = ''/a''"
  by code_simp+

end
