(* ===== verification/Uu_Fs.thy ===== *)
theory Uu_Fs
  imports Uu_Path
begin

text \<open>
  Files and links (\<open>stubs/uucore/src/lib/features/fs.rs\<close>, as it is compiled for the sandbox): identity of
  files, canonical paths with the following of links, loops of links, the text of permissions, block sizes.
  The calls to the system are a record of functions over a file system that does not change meanwhile.
\<close>

section \<open>The system\<close>

type_synonym u64 = "64 word"

record file_meta =
  meta_symlink :: bool
  meta_dev :: u64
  meta_ino :: u64
  meta_len :: u64
  meta_nlink :: u64

record path_os =
  os_metadata :: "bytes \<Rightarrow> bytes + file_meta"
  os_symlink_metadata :: "bytes \<Rightarrow> bytes + file_meta"
  os_read_link :: "bytes \<Rightarrow> bytes + bytes"
  os_read_dir :: "bytes \<Rightarrow> bytes + unit"
  os_current_dir :: "bytes + bytes"
  os_canonicalize :: "bytes \<Rightarrow> bytes + bytes"

section \<open>Identity of files\<close>

definition info_from_path :: "path_os \<Rightarrow> bytes \<Rightarrow> bool \<Rightarrow> bytes + file_meta" where
  "info_from_path Os p dereference = (if dereference then os_metadata Os p else os_symlink_metadata Os p)"

definition file_size :: "file_meta \<Rightarrow> u64" where "file_size i = meta_len i"
definition number_of_links :: "file_meta \<Rightarrow> u64" where "number_of_links i = meta_nlink i"
definition inode :: "file_meta \<Rightarrow> u64" where "inode i = meta_ino i"

definition same_file :: "file_meta \<Rightarrow> file_meta \<Rightarrow> bool" where
  "same_file i j \<longleftrightarrow> meta_dev i = meta_dev j \<and> meta_ino i = meta_ino j"

definition infos_refer_to_same_file :: "bytes + file_meta \<Rightarrow> bytes + file_meta \<Rightarrow> bool" where
  "infos_refer_to_same_file a b = (case (a, b) of (Inr i, Inr j) \<Rightarrow> same_file i j | _ \<Rightarrow> False)"

definition paths_refer_to_same_file :: "path_os \<Rightarrow> bytes \<Rightarrow> bytes \<Rightarrow> bool \<Rightarrow> bool" where
  "paths_refer_to_same_file Os p q dereference =
     infos_refer_to_same_file (info_from_path Os p dereference) (info_from_path Os q dereference)"

section \<open>Canonical paths\<close>

datatype missing_handling = MissNormal | MissExisting | MissMissing
datatype resolve_mode = ResolveNone | Physical | Logical

definition resolve_symlink :: "path_os \<Rightarrow> bytes \<Rightarrow> bytes + bytes option" where
  "resolve_symlink Os p =
     (case os_symlink_metadata Os p of
        Inl e \<Rightarrow> Inl e
      | Inr m \<Rightarrow> if meta_symlink m then map_sum id Some (os_read_link Os p) else Inr None)"

text \<open>The parts to come, the result so far, the number of links followed up to the limit, and the places visited
  after it.\<close>

type_synonym canon_state = "owning_component list \<times> bytes \<times> nat \<times> (file_meta \<times> bytes) list"

datatype canon_next = Next canon_state | Stop "bytes result"

definition symlinks_to_look_for_loops :: nat where "symlinks_to_look_for_loops = 20"

definition path_to_follow :: "owning_component list \<Rightarrow> bytes" where
  "path_to_follow parts = foldl (\<lambda>p c. path_push p (as_os_str c)) [] parts"

definition was_visited :: "(file_meta \<times> bytes) list \<Rightarrow> file_meta \<Rightarrow> bytes \<Rightarrow> bool" where
  "was_visited visited i p \<longleftrightarrow> list_ex (\<lambda>(j, q). same_file i j \<and> components p = components q) visited"

definition follow_link :: "path_os \<Rightarrow> owning_component list \<Rightarrow> bytes \<Rightarrow> nat \<Rightarrow> (file_meta \<times> bytes) list \<Rightarrow> canon_next" where
  "follow_link Os parts result followed visited =
     (if followed < symlinks_to_look_for_loops then Next (parts, path_pop result, followed + 1, visited)
      else (case path_parent result of
        None \<Rightarrow> Stop Panicked
      | Some d \<Rightarrow> (case info_from_path Os d False of
          Inl _ \<Rightarrow> Stop Panicked
        | Inr i \<Rightarrow>
            if was_visited visited i (path_to_follow parts) then Stop (Err ''Too many levels of symbolic links'')
            else Next (parts, path_pop result, followed, (i, path_to_follow parts) # visited))))"

definition take_part :: "owning_component \<Rightarrow> bytes \<Rightarrow> bytes" where
  "take_part part result =
     (case part of CurDir \<Rightarrow> result | ParentDir \<Rightarrow> path_pop result | _ \<Rightarrow> path_push result (as_os_str part))"

fun canon_step :: "path_os \<Rightarrow> missing_handling \<Rightarrow> resolve_mode \<Rightarrow> canon_state \<Rightarrow> canon_next" where
  "canon_step Os miss res ([], result, followed, visited) = Stop (Ok result)"
| "canon_step Os miss res (part # parts, result, followed, visited) =
     (let result = take_part part result in
      if res = ResolveNone then Next (parts, result, followed, visited)
      else (case resolve_symlink Os result of
        Inr (Some link) \<Rightarrow> follow_link Os (comps link @ parts) result followed visited
      | Inl e \<Rightarrow>
          if miss = MissExisting \<or> (miss = MissNormal \<and> parts \<noteq> []) then Stop (Err e)
          else Next (parts, result, followed, visited)
      | Inr None \<Rightarrow> Next (parts, result, followed, visited)))"

partial_function (option) canon_loop ::
  "path_os \<Rightarrow> missing_handling \<Rightarrow> resolve_mode \<Rightarrow> canon_state \<Rightarrow> bytes result option" where
  "canon_loop Os miss res s =
     (case canon_step Os miss res s of Stop r \<Rightarrow> Some r | Next s' \<Rightarrow> canon_loop Os miss res s')"

definition check_dir :: "path_os \<Rightarrow> bytes \<Rightarrow> bytes \<Rightarrow> bytes result" where
  "check_dir Os d result = (case os_read_dir Os d of Inl e \<Rightarrow> Err e | Inr _ \<Rightarrow> Ok result)"

definition final_check :: "path_os \<Rightarrow> missing_handling \<Rightarrow> bool \<Rightarrow> bytes \<Rightarrow> bytes result" where
  "final_check Os miss has_to_be_directory result =
     (case miss of
        MissExisting \<Rightarrow> if has_to_be_directory then check_dir Os result result else Ok result
      | MissNormal \<Rightarrow>
          (case os_metadata Os result of
             Inr _ \<Rightarrow> if has_to_be_directory then check_dir Os result result else Ok result
           | Inl _ \<Rightarrow> (case path_parent result of Some d \<Rightarrow> check_dir Os d result | None \<Rightarrow> Ok result))
      | MissMissing \<Rightarrow> Ok result)"

definition absolute_path :: "path_os \<Rightarrow> bytes \<Rightarrow> bytes + bytes" where
  "absolute_path Os p =
     (if prefix ''/'' p then Inr p
      else (case os_current_dir Os of
        Inl e \<Rightarrow> Inl e
      | Inr cwd \<Rightarrow> map_sum id (\<lambda>c. path_push c p) (os_canonicalize Os cwd)))"

definition canonicalize :: "path_os \<Rightarrow> bytes \<Rightarrow> missing_handling \<Rightarrow> resolve_mode \<Rightarrow> bytes result option" where
  "canonicalize Os p miss res =
     (let has_to_be_directory = (miss = MissNormal \<or> miss = MissExisting) \<and> suffix ''/'' p in
      case absolute_path Os p of
        Inl e \<Rightarrow> Some (Err e)
      | Inr original \<Rightarrow>
          (let path = (if res = Logical then normalize_path original else original)
           in map_option (\<lambda>r. and_then r (final_check Os miss has_to_be_directory))
                (canon_loop Os miss res (comps path, [], 0, []))))"

section \<open>Loops of links\<close>

text \<open>Links are followed as they are written.  Two paths are equal when their components are.\<close>

partial_function (option) links_from :: "path_os \<Rightarrow> bytes list \<Rightarrow> bytes \<Rightarrow> bool option" where
  "links_from Os visited p =
     (case (os_symlink_metadata Os p, os_read_link Os p) of
        (Inr m, Inr link) \<Rightarrow>
          if \<not> meta_symlink m then Some False
          else if list_ex (\<lambda>q. components q = components p) visited then Some True
          else links_from Os (p # visited) link
      | _ \<Rightarrow> Some False)"

definition is_symlink_loop :: "path_os \<Rightarrow> bytes \<Rightarrow> bool option" where
  "is_symlink_loop Os p = links_from Os [] p"

section \<open>Permissions and sizes\<close>

unbundle bit_operations_syntax

type_synonym mode_t = "32 word"

definition S_IFMT :: mode_t where "S_IFMT = 0xF000"
definition S_IFSOCK :: mode_t where "S_IFSOCK = 0xC000"
definition S_IFLNK :: mode_t where "S_IFLNK = 0xA000"
definition S_IFREG :: mode_t where "S_IFREG = 0x8000"
definition S_IFBLK :: mode_t where "S_IFBLK = 0x6000"
definition S_IFDIR :: mode_t where "S_IFDIR = 0x4000"
definition S_IFCHR :: mode_t where "S_IFCHR = 0x2000"
definition S_IFIFO :: mode_t where "S_IFIFO = 0x1000"
definition S_ISUID :: mode_t where "S_ISUID = 0x800"
definition S_ISGID :: mode_t where "S_ISGID = 0x400"
definition S_ISVTX :: mode_t where "S_ISVTX = 0x200"
definition S_IRUSR :: mode_t where "S_IRUSR = 0x100"
definition S_IWUSR :: mode_t where "S_IWUSR = 0x80"
definition S_IXUSR :: mode_t where "S_IXUSR = 0x40"
definition S_IRGRP :: mode_t where "S_IRGRP = 0x20"
definition S_IWGRP :: mode_t where "S_IWGRP = 0x10"
definition S_IXGRP :: mode_t where "S_IXGRP = 8"
definition S_IROTH :: mode_t where "S_IROTH = 4"
definition S_IWOTH :: mode_t where "S_IWOTH = 2"
definition S_IXOTH :: mode_t where "S_IXOTH = 1"

lemmas mode_consts = S_IFMT_def S_IFSOCK_def S_IFLNK_def S_IFREG_def S_IFBLK_def S_IFDIR_def S_IFCHR_def S_IFIFO_def
  S_ISUID_def S_ISGID_def S_ISVTX_def S_IRUSR_def S_IWUSR_def S_IXUSR_def S_IRGRP_def S_IWGRP_def S_IXGRP_def
  S_IROTH_def S_IWOTH_def S_IXOTH_def

definition file_type_char :: "mode_t \<Rightarrow> char" where
  "file_type_char mode =
     (let v = mode AND S_IFMT in
      if v = S_IFDIR then CHR ''d'' else if v = S_IFCHR then CHR ''c'' else if v = S_IFBLK then CHR ''b''
      else if v = S_IFREG then CHR ''-'' else if v = S_IFIFO then CHR ''p'' else if v = S_IFLNK then CHR ''l''
      else if v = S_IFSOCK then CHR ''s'' else CHR ''?'')"

text \<open>A letter for a bit, and the letter of the executable bit, which shows a special bit as well.\<close>

definition bit_char :: "mode_t \<Rightarrow> mode_t \<Rightarrow> char \<Rightarrow> char" where
  "bit_char mode b c = (if mode AND b \<noteq> 0 then c else CHR ''-'')"

definition exec_char :: "mode_t \<Rightarrow> mode_t \<Rightarrow> mode_t \<Rightarrow> char \<Rightarrow> char \<Rightarrow> char" where
  "exec_char mode special exec both alone =
     (if mode AND special \<noteq> 0 then (if mode AND exec \<noteq> 0 then both else alone)
      else if mode AND exec \<noteq> 0 then CHR ''x'' else CHR ''-'')"

definition display_permissions_unix :: "mode_t \<Rightarrow> bool \<Rightarrow> bytes" where
  "display_permissions_unix mode display_file_type =
     (if display_file_type then [file_type_char mode] else [])
     @ [bit_char mode S_IRUSR CHR ''r'', bit_char mode S_IWUSR CHR ''w'', exec_char mode S_ISUID S_IXUSR CHR ''s'' CHR ''S'',
        bit_char mode S_IRGRP CHR ''r'', bit_char mode S_IWGRP CHR ''w'', exec_char mode S_ISGID S_IXGRP CHR ''s'' CHR ''S'',
        bit_char mode S_IROTH CHR ''r'', bit_char mode S_IWOTH CHR ''w'', exec_char mode S_ISVTX S_IXOTH CHR ''t'' CHR ''T'']"

text \<open>The sandbox's metadata knows only whether a file is read-only, a link or a directory.\<close>

definition display_permissions :: "bool \<Rightarrow> bool \<Rightarrow> bool \<Rightarrow> bool \<Rightarrow> bytes" where
  "display_permissions readonly is_symlink is_dir display_file_type =
     (let write = (if readonly then ''-'' else ''w'');
          file_type = (if is_symlink then ''l'' else if is_dir then ''d'' else ''-'')
      in (if display_file_type then file_type else []) @ ''r'' @ write @ ''xr'' @ write @ ''xr'' @ write @ ''x'')"

definition blksize_default :: u64 where "blksize_default = 512"
definition blksize_max :: u64 where "blksize_max = 0xFFFFFFFF div 8 + 1"

definition sane_blksize :: "u64 \<Rightarrow> u64" where
  "sane_blksize b = (if b = 0 then blksize_default else if b \<le> blksize_max then b else blksize_default)"

text \<open>The sandbox gives the default for every file.\<close>

definition sane_blksize_from_path :: "path_os \<Rightarrow> bytes \<Rightarrow> u64" where
  "sane_blksize_from_path Os p = (case os_metadata Os p of Inr _ \<Rightarrow> blksize_default | Inl _ \<Rightarrow> blksize_default)"

section \<open>The components of paths\<close>

text \<open>A root or a current directory is only the first part.\<close>

fun name_part :: "owning_component \<Rightarrow> bool" where
  "name_part ParentDir = True"
| "name_part (NormalName n) = (path_part n \<and> n \<noteq> ''..'')"
| "name_part _ = False"

definition parts_ok :: "owning_component list \<Rightarrow> bool" where
  "parts_ok parts \<longleftrightarrow> (\<forall>c\<in>set (tl parts). name_part c) \<and> (parts = [] \<or> hd parts \<in> {RootDir, CurDir} \<or> name_part (hd parts))"

lemma name_part_of: "path_part n \<Longrightarrow> name_part (component_of n)"
  by (simp add: component_of_part)

lemma as_os_str_name [simp]: "name_part c \<Longrightarrow> path_part (as_os_str c)"
  by (cases c) (simp_all add: path_part_def)


lemma parts_ok_comps: "parts_ok (comps p)"
proof -
  have names: "\<forall>c\<in>set (map component_of (path_names p)). name_part c" by (auto intro!: name_part_of path_names_parts)
  obtain h where "comps p = h @ map component_of (path_names p)" "h = [] \<or> h = [RootDir] \<or> h = [CurDir]"
    by (auto simp: comps_names)
  with names show ?thesis
    by (cases "map component_of (path_names p)") (auto simp: parts_ok_def)
qed

lemma parts_ok_append: "parts_ok ps \<Longrightarrow> \<forall>c\<in>set rest. name_part c \<Longrightarrow> parts_ok (ps @ rest)"
  by (cases ps; cases rest) (auto simp: parts_ok_def)

lemma parts_ok_link: "parts_ok (c # rest) \<Longrightarrow> parts_ok (comps l @ rest)"
  by (rule parts_ok_append [OF parts_ok_comps]) (simp add: parts_ok_def)

lemma parts_ok_rest: "parts_ok (c # rest) \<Longrightarrow> parts_ok rest"
  by (cases rest) (auto simp: parts_ok_def)

lemma comps_absolute: "prefix ''/'' p \<Longrightarrow> \<exists>cs. comps p = RootDir # cs \<and> (\<forall>c\<in>set cs. name_part c)"
  by (auto simp: comps_names intro!: name_part_of path_names_parts)

text \<open>The path of the parts to come tells the parts.\<close>

lemma join_push:
  assumes "ms \<noteq> []" and "\<forall>m\<in>set ms. m \<noteq> [] \<and> CHR ''/'' \<notin> set m" and "n \<noteq> []" and "CHR ''/'' \<notin> set n"
  shows "path_push (join ''/'' ms) n = join ''/'' (ms @ [n])"
proof -
  have "last ms \<in> set ms" using assms(1) by simp
  then have "last ms \<noteq> []" "last (last ms) \<noteq> CHR ''/''" using assms(2) by (metis last_in_set)+
  then have "join ''/'' ms \<noteq> []" "last (join ''/'' ms) \<noteq> CHR ''/''" using join_last [OF assms(1)] by auto
  moreover have "\<not> prefix ''/'' n" using assms(3,4) by (cases n) auto
  ultimately show ?thesis using assms(1) by (simp add: path_push_def path_join_def join_snoc)
qed

lemma join_push_all:
  "ms \<noteq> [] \<Longrightarrow> \<forall>m\<in>set (ms @ ns). m \<noteq> [] \<and> CHR ''/'' \<notin> set m \<Longrightarrow> foldl path_push (join ''/'' ms) ns = join ''/'' (ms @ ns)"
  by (induction ns arbitrary: ms) (simp_all add: join_push)

lemma components_path_to_follow:
  assumes "parts_ok parts"
  shows "components (path_to_follow parts) = map as_os_str parts"
proof (cases parts)
  case Nil
  then show ?thesis by (simp add: path_to_follow_def components_def)
next
  case (Cons c cs)
  let ?ns = "map as_os_str cs"
  have ns: "\<forall>n\<in>set ?ns. path_part n" using assms Cons by (auto simp: parts_ok_def)
  have f: "path_to_follow parts = foldl path_push (path_push [] (as_os_str c)) ?ns"
    by (simp add: path_to_follow_def Cons foldl_map)
  from assms Cons consider "c = RootDir" | "c = CurDir" | "name_part c" by (auto simp: parts_ok_def)
  then show ?thesis
  proof cases
    case 1
    then show ?thesis
      using f path_collect_parts [of "[]" ?ns True] ns components_path_text [of ?ns True] Cons by (simp add: path_push_def)
  next
    case 2
    have e: "\<forall>m\<in>set ([''.''] @ ?ns). m \<noteq> [] \<and> CHR ''/'' \<notin> set m" using ns by (auto simp: path_part_def)
    have "path_to_follow parts = join ''/'' (''.'' # ?ns)"
      using f 2 join_push_all [OF _ e] by (simp add: path_push_def path_join_def)
    moreover have "split_on CHR ''/'' (join ''/'' (''.'' # ?ns)) = ''.'' # ?ns" by (rule split_on_join) (use e in auto)
    moreover have "\<not> prefix ''/'' (join ''/'' (''.'' # ?ns))" by (simp add: join_Cons)
    moreover have "filter (\<lambda>c. c \<noteq> [] \<and> c \<noteq> ''.'') ?ns = ?ns" using ns by (simp only: path_part_def filter_id_conv) blast
    ultimately show ?thesis using 2 Cons by (simp add: components_def)
  next
    case 3
    then have "path_push [] (as_os_str c) = path_text False [as_os_str c]" using path_push_part [of "[]" "as_os_str c" False] by simp
    then show ?thesis
      using f path_collect_parts [of "[as_os_str c]" ?ns False] ns 3 Cons
        components_path_text [of "as_os_str c # ?ns" False] by simp
  qed
qed


section \<open>Resolution of paths\<close>

text \<open>What a path means: from a directory, given by its names, each part leads to a place; a link leads on from the
  directory it is in, along its own parts.  The number counts the parts that are taken.\<close>

fun place :: "bytes list \<Rightarrow> owning_component \<Rightarrow> bytes list" where
  "place d RootDir = []"
| "place d CurDir = d"
| "place d ParentDir = butlast d"
| "place d (NormalName n) = d @ [n]"

definition link_at :: "path_os \<Rightarrow> bytes list \<Rightarrow> bytes option" where
  "link_at Os d = (case resolve_symlink Os (path_text True d) of Inr l \<Rightarrow> l | Inl _ \<Rightarrow> None)"

definition passes :: "path_os \<Rightarrow> missing_handling \<Rightarrow> bytes list \<Rightarrow> owning_component list \<Rightarrow> bool" where
  "passes Os miss d rest \<longleftrightarrow>
     (case resolve_symlink Os (path_text True d) of
        Inr l \<Rightarrow> l = None
      | Inl _ \<Rightarrow> miss = MissMissing \<or> (miss = MissNormal \<and> rest = []))"

inductive walks :: "path_os \<Rightarrow> missing_handling \<Rightarrow> nat \<Rightarrow> bytes list \<Rightarrow> owning_component list \<Rightarrow> bytes list \<Rightarrow> bool"
  for Os miss where
  walks_end: "walks Os miss 0 d [] d"
| walks_on: "passes Os miss (place d c) rest \<Longrightarrow> walks Os miss n (place d c) rest r \<Longrightarrow> walks Os miss (Suc n) d (c # rest) r"
| walks_link: "link_at Os (place d c) = Some l \<Longrightarrow> walks Os miss n (butlast (place d c)) (comps l @ rest) r
     \<Longrightarrow> walks Os miss (Suc n) d (c # rest) r"


lemma passes_no_link: "passes Os miss d rest \<Longrightarrow> link_at Os d = None"
  by (auto simp: passes_def link_at_def split: sum.splits)


text \<open>Lists of names that are places, and directories reached through no link.\<close>

definition is_place :: "bytes list \<Rightarrow> bool" where
  "is_place d \<longleftrightarrow> (\<forall>n\<in>set d. path_part n)"

definition no_links :: "path_os \<Rightarrow> bytes list \<Rightarrow> bool" where
  "no_links Os d \<longleftrightarrow> is_place d \<and> (\<forall>k. link_at Os (take k d) = None)"

lemma is_place_butlast: "is_place d \<Longrightarrow> is_place (butlast d)"
  by (auto simp: is_place_def dest: in_set_butlastD)

lemma no_links_butlast: "no_links Os d \<Longrightarrow> no_links Os (butlast d)"
  unfolding no_links_def by (simp add: is_place_butlast) (simp add: butlast_conv_take)

lemma no_links_snoc: "no_links Os d \<Longrightarrow> path_part n \<Longrightarrow> link_at Os (d @ [n]) = None \<Longrightarrow> no_links Os (d @ [n])"
  unfolding no_links_def is_place_def
proof (intro conjI allI)
  fix k
  assume a: "(\<forall>n\<in>set d. path_part n) \<and> (\<forall>k. link_at Os (take k d) = None)" "link_at Os (d @ [n]) = None"
  show "link_at Os (take k (d @ [n])) = None" using a by (cases "k \<le> length d") simp_all
qed auto

lemma head_part: "parts_ok (c # rest) \<Longrightarrow> c = RootDir \<or> c = CurDir \<or> c = ParentDir \<or> (\<exists>n. c = NormalName n \<and> path_part n)"
  by (cases c) (auto simp: parts_ok_def)

lemma place_is_place: "is_place d \<Longrightarrow> parts_ok (c # rest) \<Longrightarrow> is_place (place d c)"
  by (frule head_part) (auto simp: is_place_butlast, simp_all add: is_place_def)

lemma take_part_text: "is_place d \<Longrightarrow> parts_ok (c # rest) \<Longrightarrow> take_part c (path_text True d) = path_text True (place d c)"
  by (frule head_part) (auto simp: is_place_def take_part_def path_push_def [of _ "''/''"])

text \<open>In a directory reached through no link, only a name leads to a link.\<close>

lemma link_by_name:
  assumes "no_links Os d" and "link_at Os (place d c) = Some l"
  obtains n where "c = NormalName n"
proof (cases c)
  case RootDir
  have "link_at Os (take 0 d) = None" using assms(1) by (simp add: no_links_def del: take0 take_0)
  then show ?thesis using assms(2) RootDir by simp
next
  case CurDir
  have "link_at Os (take (length d) d) = None" using assms(1) unfolding no_links_def by blast
  then show ?thesis using assms(2) CurDir by simp
next
  case ParentDir
  have "link_at Os (take (length d - 1) d) = None" using assms(1) unfolding no_links_def by blast
  then show ?thesis using assms(2) ParentDir by (simp add: butlast_conv_take)
qed (use that in simp)

lemma no_links_place:
  assumes "no_links Os d" and "parts_ok (c # rest)" and "link_at Os (place d c) = None"
  shows "no_links Os (place d c)"
proof (cases c)
  case RootDir
  then show ?thesis using assms(1,3) by (simp add: no_links_def is_place_def)
next
  case (NormalName n)
  with head_part [OF assms(2)] have "path_part n" by simp
  then show ?thesis using no_links_snoc [OF assms(1)] assms(3) NormalName by simp
qed (use assms(1) no_links_butlast in simp_all)

text \<open>A step of the loop, over places.\<close>

lemma canon_step_place:
  assumes "is_place d" and "parts_ok (c # rest)" and "res \<noteq> ResolveNone"
  shows "canon_step Os miss res (c # rest, path_text True d, followed, visited) =
    (case link_at Os (place d c) of
       Some l \<Rightarrow> follow_link Os (comps l @ rest) (path_text True (place d c)) followed visited
     | None \<Rightarrow>
         if passes Os miss (place d c) rest then Next (rest, path_text True (place d c), followed, visited)
         else Stop (Err (projl (resolve_symlink Os (path_text True (place d c))))))"
  using assms(3) take_part_text [OF assms(1,2)]
  by (cases miss) (auto simp: link_at_def passes_def Let_def split: sum.split option.split)

text \<open>What the loop returns is where the path leads.\<close>

lemma canon_loop_walks:
  assumes "canon_loop Os miss res s = Some x" and "s = (parts, path_text True d, followed, visited)" and "x = Ok r"
    and "is_place d" and "parts_ok parts" and "res \<noteq> ResolveNone"
  shows "\<exists>n e. walks Os miss n d parts e \<and> is_place e \<and> r = path_text True e"
  using assms(2-6)
proof (induction arbitrary: parts d followed visited r rule: canon_loop.raw_induct [OF _ assms(1), consumes 0, case_names step])
  case (step loop Os miss res s x)
  note body = step(2) and state [simp] = step(3) step(4) and res = step(7)
  show ?case
  proof (cases parts)
    case Nil
    then have "r = path_text True d" using body by simp
    with Nil step(5) show ?thesis using walks_end [of Os miss d] by blast
  next
    case (Cons c rest)
    let ?q = "place d c"
    have ok: "parts_ok (c # rest)" using step(6) Cons by simp
    have q: "is_place ?q" "is_place (butlast ?q)"
      using place_is_place [OF step(5) ok] is_place_butlast by blast+
    note cs = canon_step_place [OF step(5) ok res, of Os miss followed visited]
    show ?thesis
    proof (cases "link_at Os ?q")
      case None
      with cs body Cons have p: "passes Os miss ?q rest" and l: "loop Os miss res (rest, path_text True ?q, followed, visited) = Some (Ok r)"
        by (auto split: if_splits)
      from step(1) [OF l refl refl q(1) parts_ok_rest [OF ok] res] p show ?thesis
        unfolding Cons by (blast intro: walks_on)
    next
      case (Some l)
      with cs body Cons obtain f v where
        l: "loop Os miss res (comps l @ rest, path_text True (butlast ?q), f, v) = Some (Ok r)"
        using q(1) by (auto simp: follow_link_def is_place_def split: if_splits option.splits sum.splits)
      from step(1) [OF l refl refl q(2) parts_ok_link [OF ok] res] Some show ?thesis
        unfolding Cons by (blast intro: walks_link)
    qed
  qed
qed

text \<open>The file systems: the root is no link, a directory that holds a link can be looked at, and two such
  directories, reached through no link, are different files.\<close>

definition links_in_directories :: "path_os \<Rightarrow> bool" where
  "links_in_directories Os \<longleftrightarrow> link_at Os [] = None
     \<and> (\<forall>d n. is_place d \<and> path_part n \<and> link_at Os (d @ [n]) \<noteq> None \<longrightarrow> (\<exists>i. os_symlink_metadata Os (path_text True d) = Inr i))"







lemma canon_loop_from_empty:
  assumes "prefix ''/'' p"
  shows "canon_loop Os miss res (comps p, [], f, v) = canon_loop Os miss res (comps p, path_text True [], f, v)"
proof -
  obtain cs where "comps p = RootDir # cs" using comps_absolute [OF assms] by blast
  moreover have "canon_step Os miss res (RootDir # cs, [], f, v) = canon_step Os miss res (RootDir # cs, ''/'', f, v)"
    by (simp add: take_part_def path_push_def)
  ultimately show ?thesis by (simp add: canon_loop.simps)
qed

lemma prefix_normalize_path: "prefix ''/'' p \<Longrightarrow> prefix ''/'' (normalize_path p)"
  by (simp add: normalize_path_lexical lexical_parts)

lemma final_check_path: "final_check Os miss h p = Ok r \<Longrightarrow> r = p"
  by (auto simp: final_check_def check_dir_def split: missing_handling.splits if_splits sum.splits option.splits)

text \<open>The whole function around the loop.\<close>

definition path_for :: "resolve_mode \<Rightarrow> bytes \<Rightarrow> bytes" where
  "path_for res q = (if res = Logical then normalize_path q else q)"

definition must_be_directory :: "missing_handling \<Rightarrow> bytes \<Rightarrow> bool" where
  "must_be_directory miss p \<longleftrightarrow> (miss = MissNormal \<or> miss = MissExisting) \<and> suffix ''/'' p"

lemma canonicalize_loop:
  assumes "absolute_path Os p = Inr q" and "prefix ''/'' q"
  shows "canonicalize Os p miss res = Some (Ok r) \<longleftrightarrow>
    canon_loop Os miss res (comps (path_for res q), path_text True [], 0, []) = Some (Ok r)
    \<and> final_check Os miss (must_be_directory miss p) r = Ok r"
proof -
  let ?loop = "canon_loop Os miss res (comps (path_for res q), path_text True [], 0, [])"
  have "prefix ''/'' (path_for res q)" using assms(2) prefix_normalize_path by (simp add: path_for_def)
  from canon_loop_from_empty [OF this] assms(1)
  have c: "canonicalize Os p miss res = map_option (\<lambda>x. and_then x (final_check Os miss (must_be_directory miss p))) ?loop"
    by (simp add: canonicalize_def Let_def path_for_def must_be_directory_def)
  have "and_then x (final_check Os miss h) = Ok r \<longleftrightarrow> x = Ok r \<and> final_check Os miss h r = Ok r" for x h
    by (cases x) (auto dest: final_check_path)
  then show ?thesis unfolding c by auto
qed

lemma no_links_root: "links_in_directories Os \<Longrightarrow> no_links Os []"
  by (simp add: no_links_def is_place_def links_in_directories_def)


subsection \<open>Paths of which no part is missing\<close>











lemma walks_no_links: "walks Os miss n d parts r \<Longrightarrow> no_links Os d \<Longrightarrow> parts_ok parts \<Longrightarrow> no_links Os r"
proof (induction rule: walks.induct)
  case (walks_on d c rest n r)
  then show ?case using no_links_place passes_no_link parts_ok_rest by blast
next
  case (walks_link d c l n rest r)
  from link_by_name [OF walks_link.prems(1) walks_link.hyps(1)] obtain m where "c = NormalName m" .
  with walks_link show ?case using parts_ok_link by simp
qed

text \<open>A canonical path goes through no link.\<close>

lemma canonicalize_no_links:
  assumes "canonicalize Os p miss res = Some (Ok r)" and "absolute_path Os p = Inr q" and "prefix ''/'' q"
    and "res \<noteq> ResolveNone" and "links_in_directories Os"
  shows "\<exists>d. no_links Os d \<and> r = path_text True d"
proof -
  note root = no_links_root [OF assms(5)]
  have "canon_loop Os miss res (comps (path_for res q), path_text True [], 0, []) = Some (Ok r)"
    using assms(1) canonicalize_loop [OF assms(2,3)] by blast
  from canon_loop_walks [OF this refl refl _ parts_ok_comps assms(4)] root walks_no_links [OF _ root parts_ok_comps]
  show ?thesis by (auto simp: no_links_def)
qed

text \<open>A file system with a link to a directory and one to that link.\<close>

definition demo_meta :: "bool \<Rightarrow> u64 \<Rightarrow> file_meta" where
  "demo_meta l i = \<lparr>meta_symlink = l, meta_dev = 1, meta_ino = i, meta_len = 0, meta_nlink = 1\<rparr>"

definition demo_os :: path_os where
  "demo_os = \<lparr>os_metadata = (\<lambda>p. if p = ''/'' then Inr (demo_meta False 1) else if p \<in> {''/d'', ''/l''} then Inr (demo_meta False 2)
       else if p \<in> {''/d/f'', ''/l/f''} then Inr (demo_meta False 4) else Inl ''not found''),
     os_symlink_metadata = (\<lambda>p. if p = ''/'' then Inr (demo_meta False 1) else if p = ''/d'' then Inr (demo_meta False 2)
       else if p = ''/l'' then Inr (demo_meta True 3) else if p = ''/d/f'' then Inr (demo_meta False 4) else Inl ''not found''),
     os_read_link = (\<lambda>p. if p = ''/l'' then Inr ''./d'' else Inl ''invalid''), os_read_dir = (\<lambda>_. Inr ()),
     os_current_dir = Inr ''/'', os_canonicalize = Inr\<rparr>"







section \<open>Behaviour at the limits\<close>

text \<open>A link whose target goes through itself, \<open>a -> a/x\<close>, makes the rest of the path longer at every turn, so no
  place is met twice and the function does not return.\<close>

definition growing_os :: path_os where
  "growing_os = demo_os \<lparr>os_symlink_metadata := (\<lambda>p. if p = ''/'' then Inr (demo_meta False 1) else if p = ''/a'' then Inr (demo_meta True 2)
       else Inl ''not found''), os_read_link := (\<lambda>p. if p = ''/a'' then Inr ''a/x'' else Inl ''invalid'')\<rparr>"

definition growing :: "canon_state \<Rightarrow> bool" where
  "growing s \<longleftrightarrow> (\<exists>k f v. s = (NormalName ''a'' # replicate k (NormalName ''x''), ''/'', f, v)
     \<and> (\<forall>(i, q)\<in>set v. length (components q) \<le> Suc k))"

lemma growing_step: "growing s \<Longrightarrow> \<exists>s'. canon_step growing_os miss Physical s = Next s' \<and> growing s'"
proof -
  assume "growing s"
  then obtain k f v where s: "s = (NormalName ''a'' # replicate k (NormalName ''x''), ''/'', f, v)"
      and v: "\<forall>(i, q)\<in>set v. length (components q) \<le> Suc k" unfolding growing_def by blast
  let ?parts = "NormalName ''a'' # replicate (Suc k) (NormalName ''x'')"
  have "parts_ok ?parts" by (auto simp: parts_ok_def path_part_def)
  from components_path_to_follow [OF this] have len: "length (components (path_to_follow ?parts)) = Suc (Suc k)" by simp
  then have new: "\<not> was_visited v i (path_to_follow ?parts)" for i
    using v by (fastforce simp: was_visited_def list_ex_iff)
  have t: "take_part (NormalName ''a'') ''/'' = ''/a''" "path_pop ''/a'' = ''/''" "path_parent ''/a'' = Some ''/''" "comps ''a/x'' = [NormalName ''a'', NormalName ''x'']"
    by code_simp+
  have r: "resolve_symlink growing_os ''/a'' = Inr (Some ''a/x'')" "info_from_path growing_os ''/'' False = Inr (demo_meta False 1)"
    by (simp_all add: resolve_symlink_def growing_os_def demo_os_def demo_meta_def info_from_path_def)
  have "canon_step growing_os miss Physical s = follow_link growing_os ?parts ''/a'' f v"
    by (simp add: s t r)
  moreover obtain f' v' where "follow_link growing_os ?parts ''/a'' f v = Next (?parts, ''/'', f', v')"
      "\<forall>(i, q)\<in>set v'. length (components q) \<le> Suc (Suc k)"
    using new len v by (cases "f < symlinks_to_look_for_loops") (fastforce simp: follow_link_def t r)+
  moreover from this(2) have "growing (?parts, ''/'', f', v')" unfolding growing_def by (intro exI [of _ "Suc k"] exI [of _ f'] exI [of _ v']) simp
  ultimately show ?thesis by metis
qed

lemma growing_never_returns: "growing s \<Longrightarrow> canon_loop growing_os miss Physical s = None"
proof (rule ccontr)
  assume g: "growing s" "canon_loop growing_os miss Physical s \<noteq> None"
  then obtain x where x: "canon_loop growing_os miss Physical s = Some x" by blast
  have "Os = growing_os \<longrightarrow> res = Physical \<longrightarrow> \<not> growing s" if "canon_loop Os miss res s = Some x" for Os miss res s x
  proof (rule canon_loop.raw_induct [OF _ that])
    fix loop Os miss res s x
    assume IH: "\<And>Os miss res s x. loop Os miss res s = Some x \<Longrightarrow> Os = growing_os \<longrightarrow> res = Physical \<longrightarrow> \<not> growing s"
      and body: "(case canon_step Os miss res s of Next s' \<Rightarrow> loop Os miss res s' | Stop r \<Rightarrow> Some r) = Some x"
    show "Os = growing_os \<longrightarrow> res = Physical \<longrightarrow> \<not> growing s"
    proof (intro impI notI)
      assume e: "Os = growing_os" "res = Physical" and "growing s"
      from growing_step [OF this(3), of miss] obtain s' where "canon_step growing_os miss Physical s = Next s'" "growing s'" by blast
      with IH [of Os miss res s' x] body e show False by simp
    qed
  qed
  with x g(1) show False by blast
qed

lemma canonicalize_growing_link: "canonicalize growing_os ''/a'' miss Physical = None"
proof -
  have c: "comps ''/a'' = [RootDir, NormalName ''a'']" "absolute_path growing_os ''/a'' = Inr ''/a''" by code_simp+
  have "canon_step growing_os miss Physical ([RootDir, NormalName ''a''], [], 0, []) = Next ([NormalName ''a''], ''/'', 0, [])"
    by (simp add: take_part_def path_push_def resolve_symlink_def growing_os_def demo_os_def demo_meta_def)
  moreover have "growing ([NormalName ''a''], ''/'', 0, [])" unfolding growing_def by (intro exI [of _ 0]) simp
  ultimately show ?thesis
    by (simp add: canonicalize_def c Let_def canon_loop.simps [of _ _ _ "(_, [], _, _)"] growing_never_returns)
qed

text \<open>In the mode that gives the errors of a missing part, the last part may be missing all the same, when its
  directory can be read; the other mode fails.\<close>

lemma last_part_may_be_missing:
  "canonicalize demo_os ''/d/g'' MissNormal Physical = Some (Ok ''/d/g'')"
  "canonicalize demo_os ''/d/g'' MissExisting Physical = Some (Err ''not found'')"
proof -
  have c: "comps ''/d/g'' = [RootDir, NormalName ''d'', NormalName ''g'']" "absolute_path demo_os ''/d/g'' = Inr ''/d/g''" by code_simp+
  have s: "canon_step demo_os m Physical ([RootDir, NormalName ''d'', NormalName ''g''], [], 0, []) = Next ([NormalName ''d'', NormalName ''g''], ''/'', 0, [])"
      "canon_step demo_os m Physical ([NormalName ''d'', NormalName ''g''], ''/'', 0, []) = Next ([NormalName ''g''], ''/d'', 0, [])"
      "canon_step demo_os MissNormal Physical ([NormalName ''g''], ''/d'', 0, []) = Next ([], ''/d/g'', 0, [])"
      "canon_step demo_os MissExisting Physical ([NormalName ''g''], ''/d'', 0, []) = Stop (Err ''not found'')" for m
    by (simp_all add: take_part_def path_push_def path_join_def resolve_symlink_def demo_os_def demo_meta_def)
  note run = canon_loop.simps [of demo_os _ Physical]
  have "canon_loop demo_os MissNormal Physical (comps ''/d/g'', [], 0, []) = Some (Ok ''/d/g'')"
    unfolding c by (subst run, simp only: s canon_next.case canon_step.simps(1))+
  moreover have "canon_loop demo_os MissExisting Physical (comps ''/d/g'', [], 0, []) = Some (Err ''not found'')"
    unfolding c by (subst run, simp only: s canon_next.case)+
  moreover have "final_check demo_os MissNormal False ''/d/g'' = Ok ''/d/g''" by code_simp
  ultimately show "canonicalize demo_os ''/d/g'' MissNormal Physical = Some (Ok ''/d/g'')"
      "canonicalize demo_os ''/d/g'' MissExisting Physical = Some (Err ''not found'')"
    by (simp_all add: canonicalize_def c(2) Let_def suffix_def)
qed

text \<open>Links are read as they are written, so a loop of relative links in another directory is not seen.\<close>

lemma relative_loop_not_seen:
  assumes "os_symlink_metadata Os ''d/a'' = Inr m" and "os_read_link Os ''d/a'' = Inr ''a''"
    and "os_symlink_metadata Os ''a'' = Inl e"
  shows "is_symlink_loop Os ''d/a'' = Some False"
  using assms by (simp add: is_symlink_loop_def links_from.simps [of _ _ "''d/a''"] links_from.simps [of _ _ "''a''"])

text \<open>The search for a loop ends where there are finitely many links.\<close>

lemma links_from_ends:
  assumes "finite L" and "\<forall>p m l. os_symlink_metadata Os p = Inr m \<and> meta_symlink m \<and> os_read_link Os p = Inr l \<longrightarrow> components p \<in> L"
  shows "\<exists>b. links_from Os visited p = Some b"
proof (induction "card (L - components ` set visited)" arbitrary: visited p rule: less_induct)
  case less
  show ?case
  proof (cases "\<exists>m l. os_symlink_metadata Os p = Inr m \<and> meta_symlink m \<and> os_read_link Os p = Inr l
      \<and> components p \<notin> components ` set visited")
    case True
    then obtain m l where p: "os_symlink_metadata Os p = Inr m" "meta_symlink m" "os_read_link Os p = Inr l"
        "components p \<notin> components ` set visited" by blast
    with assms(2) have "components p \<in> L - components ` set visited" by blast
    then have "card (L - components ` set (p # visited)) < card (L - components ` set visited)"
      using assms(1) by (intro psubset_card_mono) auto
    from less [OF this] obtain b where "links_from Os (p # visited) l = Some b" by blast
    moreover have "\<not> list_ex (\<lambda>q. components q = components p) visited" using p(4) unfolding list_ex_iff image_iff by metis
    ultimately show ?thesis using p by (subst links_from.simps) simp
  next
    case False
    then show ?thesis by (subst links_from.simps) (force simp: list_ex_iff split: sum.splits)
  qed
qed

section \<open>The text of permissions\<close>

lemma permission_masks: "S_ISUID = push_bit 11 1" "S_ISGID = push_bit 10 1" "S_ISVTX = push_bit 9 1" "S_IRUSR = push_bit 8 1"
  "S_IWUSR = push_bit 7 1" "S_IXUSR = push_bit 6 1" "S_IRGRP = push_bit 5 1" "S_IWGRP = push_bit 4 1" "S_IXGRP = push_bit 3 1"
  "S_IROTH = push_bit 2 1" "S_IWOTH = push_bit 1 1" "S_IXOTH = push_bit 0 1"
  by (simp_all add: mode_consts push_bit_eq_mult)

lemma bit_char_bit: "bit_char m (push_bit i 1) c = (if bit m i then c else CHR ''-'')"
  by (simp add: bit_char_def bit_iff_and_push_bit_not_eq_0)

lemma exec_char_bits:
  "exec_char m (push_bit i 1) (push_bit j 1) b a = (if bit m i then if bit m j then b else a else if bit m j then CHR ''x'' else CHR ''-'')"
  by (simp add: exec_char_def bit_iff_and_push_bit_not_eq_0)

lemma all_below_12: "(\<forall>i<12. P i) \<longleftrightarrow> P 0 \<and> P 1 \<and> P 2 \<and> P 3 \<and> P 4 \<and> P 5 \<and> P 6 \<and> P 7 \<and> P 8 \<and> P 9 \<and> P 10 \<and> P (11::nat)"
  by (simp add: numeral_eq_Suc All_less_Suc) blast

lemma bit_letter: "c \<noteq> d \<Longrightarrow> (if b then c else d) = (if b' then c else d) \<longleftrightarrow> b = b'"
  by simp

lemma exec_letter:
  "distinct [both, alone, CHR ''x'', CHR ''-''] \<Longrightarrow>
   (if s then if x then both else alone else if x then CHR ''x'' else CHR ''-'')
     = (if s' then if x' then both else alone else if x' then CHR ''x'' else CHR ''-'') \<longleftrightarrow> s = s' \<and> x = x'"
  by auto

text \<open>The nine letters tell the twelve bits.\<close>

lemma display_permissions_inj:
  "display_permissions_unix m False = display_permissions_unix m' False \<longleftrightarrow> (\<forall>i<12. bit m i = bit m' i)"
proof -
  have "distinct [CHR ''s'', CHR ''S'', CHR ''x'', CHR ''-'']" "distinct [CHR ''t'', CHR ''T'', CHR ''x'', CHR ''-'']"
      "CHR ''r'' \<noteq> CHR ''-''" "CHR ''w'' \<noteq> CHR ''-''" by simp_all
  note letters = this(1,2) [THEN exec_letter] this(3,4) [THEN bit_letter]
  show ?thesis
    unfolding all_below_12 display_permissions_unix_def permission_masks bit_char_bit exec_char_bits
    by (simp only: if_False append_Nil list.inject letters simp_thms) blast
qed

lemma sane_blksize_range: "sane_blksize b \<noteq> 0 \<and> sane_blksize b \<le> blksize_max"
  by (simp add: sane_blksize_def blksize_default_def blksize_max_def)

end
