(* ===== verification/Uu_Entries.thy ===== *)
theory Uu_Entries
  imports Wasi_Ext
begin

text \<open>
  Users and groups (\<open>stubs/uucore/src/lib/features/entries.rs\<close>, its implementation for the sandbox): an entry is
  the line that the host gives for a number, and groups are derived from the entry of the current user.
\<close>

section \<open>Entries\<close>

record passwd =
  pw_name :: bytes
  pw_uid :: u32
  pw_gid :: u32
  pw_user_info :: "bytes option"
  pw_user_shell :: "bytes option"
  pw_user_dir :: "bytes option"
  pw_user_passwd :: "bytes option"

record group_entry =
  gr_name :: bytes
  gr_gid :: u32

definition parse_u32 :: "bytes \<Rightarrow> u32 option" where
  "parse_u32 s = map_option word_of_nat (parse_unsigned 10 (2 ^ 32) s)"

definition parse_passwd_string :: "bytes \<Rightarrow> passwd option" where
  "parse_passwd_string s =
     (case splitn 7 CHR '':'' s of
        [name, pass, uid, gid, gecos, home, shell] \<Rightarrow>
          (case parse_u32 uid of
             None \<Rightarrow> None
           | Some u \<Rightarrow> (case parse_u32 gid of
               None \<Rightarrow> None
             | Some g \<Rightarrow> Some \<lparr>pw_name = name, pw_uid = u, pw_gid = g, pw_user_info = Some gecos,
                 pw_user_shell = Some shell, pw_user_dir = Some home, pw_user_passwd = Some pass\<rparr>))
      | _ \<Rightarrow> None)"

section \<open>The host\<close>

text \<open>The line of a user, in a buffer of 512 bytes; a greater length makes the slice panic.  The errors of the
  other calls are ignored.\<close>

definition lookup_pwuid :: "'w host_user \<Rightarrow> u32 \<Rightarrow> 'w \<Rightarrow> passwd option result \<times> 'w" where
  "lookup_pwuid H uid w =
     (let (e, (buf, len), w1) = getpwuid H uid 512 (replicate 512 (CHR 0x00), 0) w in
      (if e \<noteq> 0 \<or> len = 0 then Ok None
       else if 512 < len then Panicked
       else let s = take (unat len) buf in
         if utf8_valid s then Ok (parse_passwd_string s) else Ok None, w1))"

definition current_uid :: "'w host_user \<Rightarrow> 'w \<Rightarrow> u32 \<times> 'w" where
  "current_uid H w = (let (_, uid, w1) = getuid H 0 w in (uid, w1))"

definition current_gid :: "'w host_user \<Rightarrow> 'w \<Rightarrow> u32 \<times> 'w" where
  "current_gid H w = (let (_, gid, w1) = getgid H 0 w in (gid, w1))"

definition current_egid :: "'w host_user \<Rightarrow> 'w \<Rightarrow> u32 \<times> 'w" where
  "current_egid H w = (let (_, gid, w1) = getegid H 0 w in (gid, w1))"

definition get_groups :: "'w host_user \<Rightarrow> 'w \<Rightarrow> u32 list \<times> 'w" where
  "get_groups H w = (let (gid, w1) = current_gid H w in ([gid], w1))"

definition belongs_to :: "passwd \<Rightarrow> u32 list" where
  "belongs_to p = [pw_gid p]"

section \<open>Location\<close>

definition show_u32 :: "u32 \<Rightarrow> bytes" where
  "show_u32 n = show_nat (unat n)"

definition passwd_by_uid :: "'w host_user \<Rightarrow> u32 \<Rightarrow> 'w \<Rightarrow> passwd result \<times> 'w" where
  "passwd_by_uid H uid w =
     (let (r, w1) = lookup_pwuid H uid w in
      (and_then r (\<lambda>p. case p of Some p \<Rightarrow> Ok p | None \<Rightarrow> Err (''No such id: '' @ show_u32 uid)), w1))"

fun passwd_among :: "'w host_user \<Rightarrow> bytes \<Rightarrow> u32 list \<Rightarrow> 'w \<Rightarrow> passwd result \<times> 'w" where
  "passwd_among H name [] w = (Err (''Not found: '' @ name), w)"
| "passwd_among H name (uid # uids) w =
     (case lookup_pwuid H uid w of
        (Panicked, w1) \<Rightarrow> (Panicked, w1)
      | (Err e, w1) \<Rightarrow> (Err e, w1)
      | (Ok p, w1) \<Rightarrow>
          (case p of
             Some p \<Rightarrow> if pw_name p = name then (Ok p, w1) else passwd_among H name uids w1
           | None \<Rightarrow> passwd_among H name uids w1))"

definition passwd_by_name :: "'w host_user \<Rightarrow> bytes \<Rightarrow> 'w \<Rightarrow> passwd result \<times> 'w" where
  "passwd_by_name H name w =
     (case parse_u32 name of
        Some uid \<Rightarrow> passwd_by_uid H uid w
      | None \<Rightarrow> (let (uid, w1) = current_uid H w in passwd_among H name [0, uid] w1))"

definition group_by_gid :: "'w host_user \<Rightarrow> u32 \<Rightarrow> 'w \<Rightarrow> group_entry result \<times> 'w" where
  "group_by_gid H gid w =
     (if gid = 0 then (Ok \<lparr>gr_name = ''root'', gr_gid = gid\<rparr>, w)
      else let (uid, w1) = current_uid H w; (r, w2) = lookup_pwuid H uid w1 in
        (and_then r (\<lambda>p.
           let name = (case p of
                 Some p \<Rightarrow> if pw_gid p = gid then pw_name p else ''group'' @ show_u32 gid
               | None \<Rightarrow> ''group'' @ show_u32 gid)
           in Ok \<lparr>gr_name = name, gr_gid = gid\<rparr>), w2))"

definition group_by_name :: "'w host_user \<Rightarrow> bytes \<Rightarrow> 'w \<Rightarrow> group_entry result \<times> 'w" where
  "group_by_name H name w =
     (case parse_u32 name of
        Some gid \<Rightarrow> group_by_gid H gid w
      | None \<Rightarrow>
          if name = ''root'' \<or> name = ''wheel'' then (Ok \<lparr>gr_name = name, gr_gid = 0\<rparr>, w)
          else let (uid, w1) = current_uid H w; (r, w2) = lookup_pwuid H uid w1 in
            (and_then r (\<lambda>p.
               case p of
                 Some p \<Rightarrow> if pw_name p = name then Ok \<lparr>gr_name = name, gr_gid = pw_gid p\<rparr> else Err (''Not found: '' @ name)
               | None \<Rightarrow> Err (''Not found: '' @ name)), w2))"

definition map_entry :: "('a \<Rightarrow> 'b) \<Rightarrow> 'a result \<times> 'w \<Rightarrow> 'b result \<times> 'w" where
  "map_entry f = (\<lambda>(r, w). (and_then r (\<lambda>x. Ok (f x)), w))"

definition uid2usr :: "'w host_user \<Rightarrow> u32 \<Rightarrow> 'w \<Rightarrow> bytes result \<times> 'w" where
  "uid2usr H uid w = map_entry pw_name (passwd_by_uid H uid w)"
definition gid2grp :: "'w host_user \<Rightarrow> u32 \<Rightarrow> 'w \<Rightarrow> bytes result \<times> 'w" where
  "gid2grp H gid w = map_entry gr_name (group_by_gid H gid w)"
definition usr2uid :: "'w host_user \<Rightarrow> bytes \<Rightarrow> 'w \<Rightarrow> u32 result \<times> 'w" where
  "usr2uid H name w = map_entry pw_uid (passwd_by_name H name w)"
definition usr2gid :: "'w host_user \<Rightarrow> bytes \<Rightarrow> 'w \<Rightarrow> u32 result \<times> 'w" where
  "usr2gid H name w = map_entry pw_gid (passwd_by_name H name w)"
definition grp2gid :: "'w host_user \<Rightarrow> bytes \<Rightarrow> 'w \<Rightarrow> u32 result \<times> 'w" where
  "grp2gid H name w = map_entry gr_gid (group_by_name H name w)"

section \<open>The line of an entry\<close>

definition passwd_line :: "bytes \<Rightarrow> bytes \<Rightarrow> u32 \<Rightarrow> u32 \<Rightarrow> bytes \<Rightarrow> bytes \<Rightarrow> bytes \<Rightarrow> bytes" where
  "passwd_line name pass uid gid gecos home shell = join '':'' [name, pass, show_u32 uid, show_u32 gid, gecos, home, shell]"

lemma parse_show_u32 [simp]: "parse_u32 (show_u32 n) = Some n"
proof -
  have "unat n < 2 ^ LENGTH(32)" by (rule unsigned_less)
  then have "unat n < 2 ^ 32" by simp
  then show ?thesis by (simp add: parse_u32_def show_u32_def)
qed

lemma split_once_here: "c \<notin> set a \<Longrightarrow> split_once c (a @ c # b) = Some (a, b)"
  by (simp add: split_once_Some)

lemma parse_passwd_line:
  assumes "\<forall>f\<in>set [name, pass, gecos, home]. CHR '':'' \<notin> set f"
  shows "parse_passwd_string (passwd_line name pass uid gid gecos home shell)
    = Some \<lparr>pw_name = name, pw_uid = uid, pw_gid = gid, pw_user_info = Some gecos, pw_user_shell = Some shell,
        pw_user_dir = Some home, pw_user_passwd = Some pass\<rparr>"
proof -
  have "CHR '':'' \<notin> set (show_u32 n)" for n by (simp add: show_u32_def)
  then have "splitn 7 CHR '':'' (passwd_line name pass uid gid gecos home shell)
      = [name, pass, show_u32 uid, show_u32 gid, gecos, home, shell]"
    using assms by (simp add: passwd_line_def join_Cons split_once_here numeral_eq_Suc)
  then show ?thesis by (simp add: parse_passwd_string_def)
qed

text \<open>The user a host gives a line for is located by number and, when it is the current user, by a name that is no number.\<close>

lemma passwd_located:
  assumes "getpwuid H uid 512 (replicate 512 (CHR 0x00), 0) w = (0, (line @ rest, len_u32 line), w1)"
    and "0 < length line" and "length line \<le> 512" and "utf8_valid line" and "parse_passwd_string line = Some p"
  shows "passwd_by_uid H uid w = (Ok p, w1)"
proof -
  have "length line < 2 ^ 32" using assms(3) by simp
  then have u: "unat (len_u32 line) = length line" by (simp add: len_u32_def unsigned_of_nat take_bit_nat_eq_self)
  have "len_u32 line \<noteq> 0" using u assms(2) by force
  moreover have "\<not> 512 < len_u32 line" using u assms(3) by (simp add: word_less_nat_alt)
  ultimately show ?thesis using assms u by (simp add: passwd_by_uid_def lookup_pwuid_def)
qed

text \<open>The name given to a group without an entry is not read back: its number is found, its name is not.\<close>

lemma group_name_not_read_back:
  assumes "getuid H 0 w = (0, uid, w)" and "getpwuid H uid 512 (replicate 512 (CHR 0x00), 0) w = (e, cells, w)" and "e \<noteq> 0"
  shows "gid2grp H 5 w = (Ok ''group5'', w)" "grp2gid H ''group5'' w = (Err ''Not found: group5'', w)"
proof -
  have "show_nat 5 = ''5''" by code_simp
  then have n: "show_u32 5 = ''5''" by (simp add: show_u32_def)
  have "digits_val 10 0 ''group5'' = None" by code_simp
  then have m: "parse_u32 ''group5'' = None" by (simp add: parse_u32_def parse_unsigned_def)
  have l: "lookup_pwuid H uid w = (Ok None, w)" using assms(2,3) by (simp add: lookup_pwuid_def case_prod_beta)
  have c: "current_uid H w = (uid, w)" using assms(1) by (simp add: current_uid_def)
  show "gid2grp H 5 w = (Ok ''group5'', w)" by (simp add: gid2grp_def map_entry_def group_by_gid_def l c n)
  show "grp2gid H ''group5'' w = (Err ''Not found: group5'', w)" by (simp add: grp2gid_def map_entry_def group_by_name_def l c m)
qed

text \<open>A host that announces a line longer than the buffer ends the program.\<close>

lemma long_entry_panics:
  assumes "getpwuid H uid 512 (replicate 512 (CHR 0x00), 0) w = (0, (buf, 513), w1)"
  shows "passwd_by_uid H uid w = (Panicked, w1)"
  using assms by (simp add: passwd_by_uid_def lookup_pwuid_def)

end
