(* ===== verification/Spec2Isabelle.thy ===== *)
theory Spec2Isabelle
  imports Kernel_Config Kernel_Router Kernel_Providers Anthropic_Client Wasi_Http_Props Kernel_Chat Expr_Cmd Find_Cmd Fd_Cmd Grep_Cmd Rg_Props Xargs_Cmd Shims_Cmd Test_Cmd Rev_Cmd Strings_Cmd Column_Cmd Tree_Cmd Du_Cmd Gzip_Cmd Tar_Props Diff_Props File_Cmd Jq_Cmd Yq_Props Awk_Cmd Sandbox_Apps Wasi_Ext Spawn_Test Uu_Ranges Uu_FastInc Uu_Size Uu_Printf Uu_Mode Uu_Version Uu_Cksum_Check Uu_Encoding Uu_Backup Uu_Time Uu_Ring Uu_Fs Uu_Entries
begin

text \<open>
  Verification library of the Rust code of the Opseeq repository.

  \<^bold>\<open>The program.\<close>  Two bodies of Rust live in the repository.  The \<^emph>\<open>kernel\<close> (\<open>engine/src\<close>) is an
  inference server: it reads its configuration from the environment, answers JSON requests on its
  standard input (or a chat on a terminal), chooses a provider for the model of a request, calls it
  with retries, falls back to the other providers in order, and records the run.  The \<^emph>\<open>sandbox
  commands\<close> (\<open>agent-os/registry/native/crates/libs\<close>, below \<open>libs/\<close>) are Unix commands rewritten for a
  WebAssembly host, with an HTTP client over the host's sockets.  The two bodies share no code.

  \<^bold>\<open>Foundations.\<close>
  \<^item> \<open>Prelude\<close>: the types of bytes, outputs and fallible results, the theorem collections and the
    generic lemmas on lists and options.
  \<^item> \<open>RustStr\<close>, \<open>Utf8\<close>: strings as their UTF-8 bytes, with the functions of the standard library the
    program uses: trimming, splitting, lines, decoding, paths, and the readers and printers of
    integers.  \<open>Utf8\<close> shows that a valid text is a sequence of valid characters.
  \<^item> \<open>Float64\<close>: the arithmetic of \<open>f64\<close> the program does, as exact arithmetic with rounding.
  \<^item> \<open>Splitter\<close>: the locale of a function that cuts frames off a buffer, and the independence of the
    chunks; interpreted by \<open>Anthropic_Sse\<close> on its frames.
  \<^item> \<open>Process\<close>, \<open>Dir_Walk\<close>: programs that are started, the file system, and the walk over a tree with
    its characterisation by reachability; shared by the commands.

  \<^bold>\<open>The kernel.\<close>
  \<^item> \<open>Kernel_Config\<close> (\<open>config.rs\<close>, the \<open>.env\<close> loader of \<open>main.rs\<close>): \<open>load_config\<close> reads a provider block per
    known name, sorts them stably by priority and builds the model map.  Shown: the list is sorted and
    holds exactly the enabled providers, the map gives the first provider listing a model, a \<open>.env\<close>
    file never overrides a variable.
  \<^item> \<open>Kernel_Types\<close> (\<open>types.rs\<close>, \<open>run_state.rs\<close>, \<open>events.rs\<close>): messages, the run envelope, events.
  \<^item> \<open>Kernel_Router\<close> (\<open>router.rs\<close>): \<open>resolve_provider\<close>, \<open>cascade_of\<close>, \<open>call_with_retry\<close>,
    \<open>route_inference\<close>, \<open>quality_score\<close>, \<open>list_models\<close>.  The provider call and the clocks are the record
    \<open>io\<close>.  The step relation of the cascade is the specification, which \<open>route_inference\<close> refines; the
    envelope is an invariant of the run.
  \<^item> \<open>Kernel_Providers\<close> (\<open>providers/\<close>): the request each back-end builds, the reading of its answer, and
    \<open>call_provider\<close>, an instance of the provider contract the router assumes (locale \<open>provider_calls\<close>).
  \<^item> \<open>Anthropic_Sse\<close>, \<open>Anthropic_Client\<close> (\<open>anthropic/\<close>): errors, the incremental parser of event streams,
    requests with retries, and the stream over the parser.  Shown: round trip and chunk independence
    of the parser, the bound on the number of requests, and that the stream delivers what the parser finds.
  \<^item> \<open>Kernel_Probe\<close>, \<open>Kernel_Rpc\<close> (\<open>probe.rs\<close>, \<open>rpc.rs\<close>): health probes, directory scan, and the
    server loop with the dispatch of all methods; every request is answered once and in order
    (locale \<open>rpc_handler\<close>, interpreted on \<open>dispatch\<close>).
  \<^item> \<open>Kernel_Chat\<close> (\<open>chat.rs\<close>): the session loop, the slash commands and what they print.  Shown: every
    request carries the history since the last \<open>/clear\<close>, and when a turn panics.

  \<^bold>\<open>The sandbox commands.\<close>  One theory per command, each with the reading of its arguments, its
  operations and its exit status.
  \<^item> \<open>Wasi_Http\<close>, \<open>Wasi_Http_Props\<close> (\<open>libs/wasi-http\<close>): URLs, requests, responses with their three body
    framings, events; the round trips over any host that delivers a stream in pieces, the closing of
    sockets, and the loop that does not end when the host accepts nothing.
  \<^item> \<open>Expr_Cmd\<close> (\<open>libs/expr\<close>): the parser evaluates the grammar's meaning, ends on every input, and
    where 64-bit division panics.
  \<^item> \<open>Find_Cmd\<close>, \<open>Fd_Cmd\<close>, \<open>Tree_Cmd\<close>, \<open>Du_Cmd\<close> (\<open>libs/find\<close>, \<open>fd\<close>, \<open>tree\<close>, \<open>du\<close>): walks over directories; what
    is printed is what is reachable and passes the filters, a drawing without line feeds in its names has one meaning, and the size of a path does not depend
    on the printing options.
  \<^item> \<open>Grep_Cmd\<close>, \<open>Rg_Glob\<close>, \<open>Rg_Cmd\<close>, \<open>Rg_Props\<close> (\<open>libs/grep\<close>): search of lines, name patterns against
    their recursive meaning, and context lines: each line near a match, once and in order.
  \<^item> \<open>Tar_Cmd\<close>, \<open>Tar_Props\<close>, \<open>Gzip_Cmd\<close> (\<open>libs/tar\<close>, \<open>gzip\<close>): archives and compression over a store of
    files; both directions composed restore the store, when the target was free and could be written.
  \<^item> \<open>Diff_Cmd\<close>, \<open>Diff_Props\<close> (\<open>libs/diff\<close>): formats of an edit script; the normal format is a patch
    for texts without a lone carriage return, at which the crate ends lines and the printing does not.
  \<^item> \<open>Xargs_Cmd\<close>, \<open>Shims_Cmd\<close> (\<open>libs/shims\<close>): items, quoting and batches; \<open>env\<close>, \<open>nice\<close>, \<open>nohup\<close>, \<open>stdbuf\<close>,
    and \<open>timeout\<close> with its polling loop.
  \<^item> \<open>Test_Cmd\<close>, \<open>Rev_Cmd\<close>, \<open>Strings_Cmd\<close>, \<open>Column_Cmd\<close>, \<open>File_Cmd\<close> (\<open>libs/builtins\<close>, \<open>rev\<close>,
    \<open>strings-cmd\<close>, \<open>column\<close>, \<open>file-cmd\<close>).
  \<^item> \<open>Jaq\<close>, \<open>Jq_Cmd\<close>, \<open>Yq_Cmd\<close>, \<open>Yq_Props\<close> (\<open>libs/jq\<close>, \<open>yq\<close>): JSON values as ordered maps, the options and
    the run around the filter engine, and the conversions to TOML values and XML events; what is written
    as XML is read back.  \<open>Awk_Cmd\<close> (\<open>libs/awk\<close>): how the interpreter is set up and run.
  \<^item> \<open>Wasi_Spawn\<close> (\<open>libs/wasi-spawn\<close>, \<open>wasi-pty\<close>): child processes over pipes and pseudo-terminals;
    every descriptor is closed exactly once.  \<open>Sandbox_Apps\<close> (\<open>libs/stubs\<close>, \<open>commands/http-test\<close>,
    \<open>codex\<close>, \<open>codex-exec\<close>), \<open>Spawn_Test\<close> (\<open>commands/spawn-test-host\<close>): the small programs.
  \<^item> \<open>Wasi_Ext\<close> (\<open>crates/wasi-ext\<close>): the safe wrappers over the host's functions, with the error numbers
    they turn into errors; the host is a record of functions.

  \<^bold>\<open>The support crate.\<close>  \<open>stubs/uucore/src/lib/features\<close> is the patched crate the coreutils of the
  sandbox are linked with.
  \<^item> \<open>Uu_Ranges\<close>, \<open>Uu_FastInc\<close>, \<open>Uu_Version\<close>, \<open>Uu_Ring\<close> (\<open>ranges.rs\<close>, \<open>fast_inc.rs\<close>, \<open>version_cmp.rs\<close>,
    \<open>ringbuffer.rs\<close>, \<open>lines.rs\<close>): the complement of a list of ranges has the other members, an increment of digits
    is the addition of the numbers, the comparison of versions, and a ring keeps the last elements.
  \<^item> \<open>Uu_Size\<close>, \<open>Uu_Num\<close>, \<open>Uu_Time\<close> (\<open>parser/\<close>, \<open>extendedbigdecimal.rs\<close>): sizes with units, numbers of
    every base, durations.
  \<^item> \<open>Uu_Spec\<close>, \<open>Uu_NumFormat\<close>, \<open>Uu_Escape\<close>, \<open>Uu_Printf\<close> (\<open>format/\<close>): directives, digits and padding,
    escapes, arguments and whole formats.  A width or precision above 65535 is a panic of the
    standard library, the value \<open>FmtPanics\<close>.  Shown: a printed integer is read back, and the
    formatter for one directive agrees with the one for a whole format.
  \<^item> \<open>Uu_Quote\<close> (\<open>quoting_style/\<close>): names in the literal, C and shell styles.
  \<^item> \<open>Uu_Mode\<close> (\<open>mode.rs\<close>): octal and symbolic modes over 32-bit words; the symbolic text of a
    mode sets it, beside the set-id bits a directory keeps.
  \<^item> \<open>Uu_Sum\<close>, \<open>Uu_Cksum\<close>, \<open>Uu_Cksum_Line\<close>, \<open>Uu_Cksum_Check\<close> (\<open>sum.rs\<close>, \<open>checksum/\<close>): the locale
    \<open>chunked_update\<close> of a digest fed in pieces, interpreted on the two sums the crate computes and on
    the bytes other digests have seen; the lines of a checksum file, and the check of a list of tagged
    lines, which detects a changed file for every algorithm whose tag is complete.
  \<^item> \<open>Uu_Path\<close>, \<open>Uu_Fs\<close> (\<open>fs.rs\<close>): paths as texts and without their relative parts, the path from a
    directory to another, which leads there; canonical paths, which are exactly where the path leads
    when no part is missing (what the modes do with missing parts is stated apart, as it differs from their description), with a
    link that makes the loop endless; loops of links, permissions.
  \<^item> \<open>Uu_Entries\<close> (\<open>entries.rs\<close> for the sandbox): users and groups from the lines of the host.
  \<^item> \<open>Uu_Encoding\<close> (\<open>encoding.rs\<close>): base 58 is read back; the other bases wrap encoders of other crates.
  \<^item> \<open>Uu_Backup\<close> (\<open>backup_control.rs\<close>, \<open>update_control.rs\<close>, \<open>parse_glob.rs\<close>,
    \<open>shortcut_value_parser.rs\<close>): the path of a numbered backup names no existing file.

  \<^bold>\<open>How the code is represented.\<close>  A struct is a record, an enum a datatype, a string its list of bytes, a
  \<open>Result\<close> a sum with the error on the left.  Machine integers that can wrap or overflow are words, or
  naturals and integers with the bound written out; the sandbox's \<open>usize\<close> has 32 bits.  Code
  outside the repository (HTTP clients, the file system, clocks, \<open>serde_json\<close>, \<open>regex\<close>, \<open>flate2\<close>, \<open>tar\<close>,
  \<open>similar\<close>, \<open>infer\<close>) is a parameter, often a record of functions that pass a world along; what a
  theorem needs of it is a hypothesis, and a witness shows the hypotheses hold for a concrete
  instance.  A panic is a value of the result.

  \<^bold>\<open>Bounds.\<close>  A walk over directories takes the number of levels it may descend and answers \<open>WBound\<close> (or
  \<open>None\<close>) below them, since links can make a file system without end; \<open>Dir_Walk\<close> shows that the
  bound is not reached when the directories have a rank below it, and \<open>run_find_maxdepth_ends\<close> that
  \<open>-maxdepth\<close> is such a bound.  The bounds of \<open>expr\<close>, the number of arguments, are never reached
  (\<open>expr_main_total\<close>).  Loops that wait for another party are \<open>partial_function (option)\<close>, with \<open>None\<close> for
  a loop that does not end: sending on a socket, the wait of \<open>timeout\<close>, the events of \<open>Sandbox_Apps\<close>,
  the following of links in \<open>Uu_Fs\<close> (the search for a loop of links ends when there are finitely many),
  the search for a free backup number, which ends when some number is free, and the matcher of
  \<open>Rg_Glob\<close>, which is shown to end.  The counts of a check of checksums are naturals, so a list has
  fewer than \<open>2 ^ 32\<close> lines.

  \<^bold>\<open>Not modelled.\<close>  The TypeScript and JavaScript parts (runtime packages, gateway service,
  dashboard, plugin).  Filters of \<open>jq\<close> and \<open>yq\<close> and programs of \<open>awk\<close> run in crates outside the
  repository and are parameters.  Stub crates
  and entry points have no logic; the screen of the terminal agent is drawn by a crate.  Of \<open>uucore\<close> the modules over the
  operating system (\<open>fsext\<close>, \<open>safe_traversal\<close>, \<open>perms\<close>, \<open>process\<close>, \<open>utmpx\<close>, \<open>uptime\<close>,
  \<open>proc_info\<close>, \<open>hardware\<close>, \<open>pipes\<close>, \<open>tty\<close>, \<open>selinux\<close>) are calls to the system, most of them not compiled for the
  sandbox; \<open>mods/locale.rs\<close> and \<open>i18n\<close> wrap localisation crates, \<open>mods/error.rs\<close> and
  \<open>mods/clap_localization.rs\<close> the option parser's messages, and the text of a localised message is a parameter.
  The conversion of an extended decimal to \<open>f64\<close> is left out of \<open>Uu_Num\<close>.

  \<^bold>\<open>To be extended.\<close>  The table of signals and the
  human-readable sizes of \<open>uucore\<close> are small modules that could be added; the rest of the program's logic is modelled.
\<close>

end
